(* ===== verification/Binder_Prelude.thy ===== *)
theory Binder_Prelude
  imports Main "HOL-Library.Word"
begin

text \<open>
  Shared vocabulary of the development: machine integers, the outcome of a C function that may
  abort or read outside the memory it was given, little-endian loads and stores on a byte memory,
  and generic lemmas on lists, options and words. The collections declared here are filled by the
  component theories.
\<close>

unbundle bit_operations_syntax

section \<open>Machine integers\<close>

type_synonym u8 = "8 word"
type_synonym u16 = "16 word"
type_synonym u32 = "32 word"
type_synonym u64 = "64 word"
type_synonym bytes = "8 word list"

named_theorems cres_simps "evaluation of outcomes of C functions"
named_theorems mem_simps "loads from and stores to a byte memory"

section \<open>Outcomes\<close>

text \<open>
  The outcome of a C function: a value, a call of \<open>abort()\<close>, or an access outside the
  memory object it works on (undefined behaviour in C, kept visible here).
\<close>

datatype 'a cres = Ret 'a | Abort | Oob

primrec cbind :: "'a cres \<Rightarrow> ('a \<Rightarrow> 'b cres) \<Rightarrow> 'b cres" where
  "cbind (Ret x) f = f x"
| "cbind Abort f = Abort"
| "cbind Oob f = Oob"

definition of_mem :: "'a option \<Rightarrow> 'a cres" where
  \<comment> \<open>the result of a memory access\<close>
  "of_mem o' = (case o' of None \<Rightarrow> Oob | Some x \<Rightarrow> Ret x)"

lemma of_mem_simps [simp]: "of_mem (Some x) = Ret x" "of_mem None = Oob"
  by (simp_all add: of_mem_def)

lemma of_mem_eq_Ret [simp]: "of_mem x = Ret y \<longleftrightarrow> x = Some y"
  by (cases x) auto

lemma cbind_Ret_iff [cres_simps]: "cbind m f = Ret y \<longleftrightarrow> (\<exists>x. m = Ret x \<and> f x = Ret y)"
  by (cases m) auto

lemma cbind_assoc: "cbind (cbind m f) g = cbind m (\<lambda>x. cbind (f x) g)"
  by (cases m) auto

lemma cbind_Ret_right [simp]: "cbind m Ret = m"
  by (cases m) auto

lemma cbind_cong [fundef_cong]:
  "m = m' \<Longrightarrow> (\<And>x. m' = Ret x \<Longrightarrow> f x = f' x) \<Longrightarrow> cbind m f = cbind m' f'"
  by (cases m') auto

section \<open>Byte memory\<close>

text \<open>
  A memory object is a list of bytes and a pointer into it is an offset. A load or store that is
  not inside the object has no result.
\<close>

definition load :: "bytes \<Rightarrow> nat \<Rightarrow> nat \<Rightarrow> bytes option" where
  "load m p n = (if p + n \<le> length m then Some (take n (drop p m)) else None)"

definition store :: "bytes \<Rightarrow> nat \<Rightarrow> bytes \<Rightarrow> bytes option" where
  "store m p bs = (if p + length bs \<le> length m
     then Some (take p m @ bs @ drop (p + length bs) m) else None)"

lemma load_length: "load m p n = Some bs \<Longrightarrow> length bs = n"
  by (auto simp: load_def split: if_splits)

lemma load_Some_iff: "(\<exists>bs. load m p n = Some bs) \<longleftrightarrow> p + n \<le> length m"
  by (simp add: load_def)

lemma store_length [mem_simps]: "store m p bs = Some m' \<Longrightarrow> length m' = length m"
  by (auto simp: store_def split: if_splits)

lemma store_Some: "p + length bs \<le> length m \<Longrightarrow> \<exists>m'. store m p bs = Some m'"
  by (simp add: store_def)

lemma load_store_same [mem_simps]:
  "store m p bs = Some m' \<Longrightarrow> n = length bs \<Longrightarrow> load m' p n = Some bs"
  by (auto simp: store_def load_def split: if_splits)

lemma load_store_before [mem_simps]:
  "store m p bs = Some m' \<Longrightarrow> q + n \<le> p \<Longrightarrow> load m' q n = load m q n"
  by (auto simp: store_def load_def take_drop min_def split: if_splits)

lemma load_store_after [mem_simps]:
  "store m p bs = Some m' \<Longrightarrow> p + length bs \<le> q \<Longrightarrow> load m' q n = load m q n"
  by (auto simp: store_def load_def split: if_splits)

text \<open>The bytes between two addresses.\<close>

definition slice :: "nat \<Rightarrow> nat \<Rightarrow> 'a list \<Rightarrow> 'a list" where
  "slice a b m = take (b - a) (drop a m)"

lemma length_slice: "b \<le> length m \<Longrightarrow> length (slice a b m) = b - a"
  by (simp add: slice_def)

lemma slice_empty [simp]: "b \<le> a \<Longrightarrow> slice a b m = []"
  by (simp add: slice_def)

lemma slice_store_append:
  assumes "store m p bs = Some m'" and "a \<le> p" and "p + length bs \<le> b" and "b \<le> length m"
  shows "slice a b m' = slice a p m @ bs @ slice (p + length bs) b m"
proof -
  have m': "m' = take p m @ bs @ drop (p + length bs) m" and p: "p + length bs \<le> length m"
    using assms(1) by (auto simp: store_def split: if_splits)
  let ?A = "drop a (take p m)" and ?C = "drop (p + length bs) m"
  have "length ?A = p - a" using p by simp
  moreover have "b - a - (p - a) = b - p" and "b - p - length bs = b - (p + length bs)"
    and "p - a \<le> b - a" and "length bs \<le> b - p"
    using assms(2,3) by auto
  ultimately have "take (b - a) (?A @ bs @ ?C) = ?A @ bs @ take (b - (p + length bs)) ?C"
    by simp
  moreover have "drop a m' = ?A @ bs @ ?C"
    using assms(2) p by (simp add: m')
  ultimately show ?thesis by (simp add: slice_def drop_take)
qed

lemma slice_store_disjoint:
  assumes "store m p bs = Some m'" and "b \<le> p \<or> p + length bs \<le> a" and "b \<le> length m"
  shows "slice a b m' = slice a b m"
proof (cases "a \<le> b")
  case True
  then have "load m' a (b - a) = load m a (b - a)"
    using assms load_store_before [OF assms(1), of a "b - a"]
      load_store_after [OF assms(1), of a "b - a"] by auto
  then show ?thesis
    using assms True store_length [OF assms(1)] by (simp add: load_def slice_def)
qed simp

lemma slice_extend: "a \<le> b \<Longrightarrow> b \<le> c \<Longrightarrow> slice a c m = slice a b m @ slice b c m"
  using take_add [of "b - a" "c - b" "drop a m"] by (simp add: slice_def add.commute)

section \<open>Little-endian integers\<close>

definition le16 :: "u16 \<Rightarrow> bytes" where
  "le16 w = [ucast w, ucast (drop_bit 8 w)]"

definition le32 :: "u32 \<Rightarrow> bytes" where
  "le32 w = le16 (ucast w) @ le16 (ucast (drop_bit 16 w))"

definition le64 :: "u64 \<Rightarrow> bytes" where
  "le64 w = le32 (ucast w) @ le32 (ucast (drop_bit 32 w))"

fun of_le16 :: "bytes \<Rightarrow> u16" where
  "of_le16 (a # b # _) = ucast a OR push_bit 8 (ucast b)"
| "of_le16 _ = 0"

definition of_le32 :: "bytes \<Rightarrow> u32" where
  "of_le32 bs = ucast (of_le16 bs) OR push_bit 16 (ucast (of_le16 (drop 2 bs)))"

definition of_le64 :: "bytes \<Rightarrow> u64" where
  "of_le64 bs = ucast (of_le32 bs) OR push_bit 32 (ucast (of_le32 (drop 4 bs)))"

lemma length_le [simp]: "length (le16 a) = 2" "length (le32 b) = 4" "length (le64 c) = 8"
  by (simp_all add: le16_def le32_def le64_def)

lemma le_not_Nil [simp]: "le32 b \<noteq> []" "le64 c \<noteq> []"
  using length_le by (metis list.size(3) zero_neq_numeral)+

lemma of_le16_le16 [simp]: "of_le16 (le16 w @ bs) = w"
  by (auto simp: le16_def bit_simps intro!: bit_word_eqI)

lemma of_le32_le32 [simp]: "of_le32 (le32 w @ bs) = w"
  unfolding of_le32_def le32_def
  by (auto simp: bit_simps intro!: bit_word_eqI)

lemma of_le64_le64 [simp]: "of_le64 (le64 w @ bs) = w"
  unfolding of_le64_def le64_def
  by (auto simp: bit_simps intro!: bit_word_eqI)

lemmas of_le_le [simp] =
  of_le16_le16 [where bs = "[]", simplified] of_le32_le32 [where bs = "[]", simplified]
  of_le64_le64 [where bs = "[]", simplified]

lemma le32_inject [simp]:
  "le32 a @ x = le32 b @ y \<longleftrightarrow> a = b \<and> x = y" "le32 a = le32 b @ y \<longleftrightarrow> a = b \<and> y = []"
  "le32 a @ x = le32 b \<longleftrightarrow> a = b \<and> x = []" "le32 a = le32 b \<longleftrightarrow> a = b"
proof -
  show e: "le32 a @ x = le32 b @ y \<longleftrightarrow> a = b \<and> x = y" for x y
    by (metis append_eq_append_conv length_le(2) of_le32_le32)
  show "le32 a = le32 b @ y \<longleftrightarrow> a = b \<and> y = []" "le32 a @ x = le32 b \<longleftrightarrow> a = b \<and> x = []"
    "le32 a = le32 b \<longleftrightarrow> a = b"
    using e [of "[]" y] e [of x "[]"] e [of "[]" "[]"] by auto
qed

lemma le64_inject [simp]: "le64 a = le64 b \<longleftrightarrow> a = b"
  by (metis of_le_le(3))

definition load16 :: "bytes \<Rightarrow> nat \<Rightarrow> u16 option" where
  "load16 m p = map_option of_le16 (load m p 2)"

definition load32 :: "bytes \<Rightarrow> nat \<Rightarrow> u32 option" where
  "load32 m p = map_option of_le32 (load m p 4)"

definition load64 :: "bytes \<Rightarrow> nat \<Rightarrow> u64 option" where
  "load64 m p = map_option of_le64 (load m p 8)"

text \<open>An array of 16-bit units, as UTF-16 strings are stored.\<close>

fun load_u16s :: "bytes \<Rightarrow> nat \<Rightarrow> nat \<Rightarrow> u16 list option" where
  "load_u16s m p 0 = Some []"
| "load_u16s m p (Suc n) = (case load16 m p of None \<Rightarrow> None
     | Some c \<Rightarrow> map_option ((#) c) (load_u16s m (p + 2) n))"

lemma load_u16s_length: "load_u16s m p n = Some cs \<Longrightarrow> length cs = n"
  by (induction m p n arbitrary: cs rule: load_u16s.induct) (auto split: option.splits)

lemma load_u16s_in_bounds: "p + 2 * n \<le> length m \<Longrightarrow> \<exists>cs. load_u16s m p n = Some cs"
proof (induction m p n rule: load_u16s.induct)
  case (2 m p n)
  then have "\<exists>c. load16 m p = Some c" by (simp add: load16_def load_def)
  with 2 show ?case by auto
qed simp

lemma load_append_left: "p + n \<le> length m \<Longrightarrow> load (m @ m') p n = load m p n"
  by (simp add: load_def)

lemma load_append_mid: "p = length m \<Longrightarrow> n = length bs \<Longrightarrow> load (m @ bs @ m') p n = Some bs"
  by (simp add: load_def)

lemma load_u16s_concat:
  "p = length m \<Longrightarrow> load_u16s (m @ concat (map le16 cs) @ m') p (length cs) = Some cs"
proof (induction cs arbitrary: m p)
  case (Cons c cs)
  have "load16 (m @ le16 c @ concat (map le16 cs) @ m') p = Some c"
    using Cons.prems by (simp add: load16_def load_append_mid)
  moreover have "load_u16s ((m @ le16 c) @ concat (map le16 cs) @ m') (p + 2) (length cs) = Some cs"
    by (rule Cons.IH) (simp add: Cons.prems)
  ultimately show ?case by simp
qed simp

lemma load_append_split:
  assumes "load m p (length (a @ b)) = Some (a @ b)"
  shows "load m p (length a) = Some a" "load m (p + length a) (length b) = Some b"
proof -
  have m: "take (length a + length b) (drop p m) = a @ b" and l: "p + (length a + length b) \<le> length m"
    using assms by (auto simp: load_def split: if_splits)
  have "take (length a) (take (length a + length b) (drop p m)) = a" by (simp add: m)
  then show "load m p (length a) = Some a" using l by (simp add: load_def min_def)
  have "drop (length a) (take (length a + length b) (drop p m)) = b" by (simp add: m)
  then show "load m (p + length a) (length b) = Some b"
    using l by (simp add: load_def drop_take add.commute)
qed

lemma load_u16s_of_load:
  "load m p (length (concat (map le16 cs) @ x)) = Some (concat (map le16 cs) @ x) \<Longrightarrow>
   load_u16s m p (length cs) = Some cs"
proof (induction cs arbitrary: p)
  case (Cons c cs)
  have "load m p (length (le16 c @ (concat (map le16 cs) @ x))) = Some (le16 c @ (concat (map le16 cs) @ x))"
    using Cons.prems by simp
  note S = load_append_split [OF this]
  show ?case using S(1) Cons.IH [of "p + 2"] S(2) by (simp add: load16_def)
qed simp

lemma slice_eq_load:
  "b \<le> length m \<Longrightarrow> a \<le> b \<Longrightarrow> load m a (b - a) = Some (slice a b m)"
  by (simp add: load_def slice_def)

lemma load_u16s_le_prefix:
  "load_u16s m p n = Some cs \<Longrightarrow> k \<le> n \<Longrightarrow> load_u16s m p k = Some (take k cs)"
proof (induction m p n arbitrary: cs k rule: load_u16s.induct)
  case (2 m p n)
  then show ?case
    by (cases k) (auto split: option.splits)
qed simp

section \<open>Words\<close>

text \<open>Rounding a size up to a multiple of four: \<open>(sz + 3) & ~3\<close>.\<close>

definition align4 :: "'s::len word \<Rightarrow> 's word" where
  "align4 sz = (sz + 3) AND NOT 3"

lemma and_not_3_eq: "(x :: 's::len word) AND NOT 3 = push_bit 2 (drop_bit 2 x)"
proof -
  have "(3 :: 's word) = mask 2" by (simp add: mask_eq_exp_minus_1)
  then have "x AND NOT 3 = x AND NOT (mask 2)" by (rule arg_cong)
  also have "\<dots> = push_bit 2 (drop_bit 2 x)"
  proof (rule bit_word_eqI)
    fix n assume "n < LENGTH('s)"
    then show "bit (x AND NOT (mask 2)) n = bit (push_bit 2 (drop_bit 2 x)) n"
      by (cases "2 \<le> n") (simp_all add: bit_simps less_eqE flip: add_2_eq_Suc)
  qed
  finally show ?thesis .
qed

lemma unat_align4:
  assumes "unat sz + 3 < 2 ^ LENGTH('s::len)" and "3 \<le> LENGTH('s)"
  shows "unat (align4 (sz :: 's word)) = 4 * ((unat sz + 3) div 4)"
proof -
  have "(3::nat) < 2 ^ LENGTH('s)" using assms(1) by simp
  then have 3: "unat (3 :: 's word) = 3"
    by (simp add: unat_numeral take_bit_nat_eq_self)
  have s: "unat (sz + 3) = unat sz + 3"
    using assms(1) 3 by (simp add: unat_word_ariths)
  have "unat (drop_bit 2 (sz + 3)) = drop_bit 2 (unat (sz + 3))"
    by (rule unat_drop_bit_eq)
  then have d: "unat (drop_bit 2 (sz + 3)) = (unat sz + 3) div 4"
    unfolding s by (simp only: drop_bit_eq_div) simp
  have "4 * ((unat sz + 3) div 4) < 2 ^ LENGTH('s)"
    using assms(1) by linarith
  moreover have "(2::nat) ^ 3 \<le> 2 ^ LENGTH('s)"
    using assms(2) by (intro power_increasing) auto
  then have "take_bit LENGTH('s) (4::nat) = 4"
    by (intro take_bit_nat_eq_self) simp
  ultimately
  have "unat (push_bit 2 (drop_bit 2 (sz + 3))) = 4 * ((unat sz + 3) div 4)"
    using d by (simp add: push_bit_eq_mult unat_word_ariths mult.commute)
  then show ?thesis by (simp only: align4_def and_not_3_eq)
qed

lemma unat_2_power:
  assumes "n < LENGTH('s::len)"
  shows "unat (2 ^ n :: 's word) = 2 ^ n"
proof -
  have "(2 :: 's word) ^ n = of_nat (2 ^ n)" by simp
  also have "unat \<dots> = 2 ^ n mod 2 ^ LENGTH('s)" by (rule unat_of_nat)
  also have "\<dots> = 2 ^ n" using assms by (intro mod_less power_strict_increasing) auto
  finally show ?thesis .
qed

section \<open>Lists\<close>

text \<open>The number of elements of a list that satisfy a predicate.\<close>

abbreviation count_if :: "('a \<Rightarrow> bool) \<Rightarrow> 'a list \<Rightarrow> nat" where
  "count_if P xs \<equiv> length (filter P xs)"

lemma find_Some_in: "find P xs = Some x \<Longrightarrow> x \<in> set xs \<and> P x"
  by (induction xs) (auto split: if_splits)

lemma find_None_all: "find P xs = None \<longleftrightarrow> (\<forall>x \<in> set xs. \<not> P x)"
  by (induction xs) auto

section \<open>Runs that may not end\<close>

text \<open>
  A computation that waits for the driver may not come back: its result is none when the fuel it
  was given does not suffice, otherwise the outcome of C++ code as above.
\<close>

type_synonym 'a run = "'a cres option"

abbreviation ret :: "'a \<Rightarrow> 'a run" where
  "ret x \<equiv> Some (Ret x)"

definition rbind :: "'a run \<Rightarrow> ('a \<Rightarrow> 'b run) \<Rightarrow> 'b run" where
  "rbind m f = (case m of None \<Rightarrow> None | Some c \<Rightarrow>
     (case c of Ret x \<Rightarrow> f x | Abort \<Rightarrow> Some Abort | Oob \<Rightarrow> Some Oob))"

lemma rbind_simps [simp]:
  "rbind (ret x) f = f x" "rbind None f = None" "rbind (Some Abort) f = Some Abort"
  "rbind (Some Oob) f = Some Oob"
  by (simp_all add: rbind_def)

lemma rbind_ret_iff [cres_simps]: "rbind m f = ret y \<longleftrightarrow> (\<exists>x. m = ret x \<and> f x = ret y)"
  by (auto simp: rbind_def split: option.splits cres.splits)

lemma rbind_Some_iff:
  "rbind m f = Some r \<longleftrightarrow> (\<exists>x. m = ret x \<and> f x = Some r) \<or> (m = Some Abort \<and> r = Abort) \<or>
     (m = Some Oob \<and> r = Oob)"
  by (auto simp: rbind_def split: option.splits cres.splits)

lemma rbind_partial_mono [partial_function_mono]:
  assumes "mono_option m" and "\<And>y. mono_option (\<lambda>f. B y f)"
  shows "mono_option (\<lambda>f. rbind (m f) (\<lambda>y. B y f))"
proof -
  have e: "rbind a b = Option.bind a (\<lambda>c. case c of Ret x \<Rightarrow> b x | Abort \<Rightarrow> Some Abort | Oob \<Rightarrow> Some Oob)" for a :: "'x run" and b :: "'x \<Rightarrow> 'y run"
    by (cases a) (auto simp: rbind_def)
  have "mono_option (\<lambda>f. case c of Ret x \<Rightarrow> B x f | Abort \<Rightarrow> Some Abort | Oob \<Rightarrow> Some Oob)" for c
    using assms(2) by (cases c) (auto intro: option.const_mono)
  then show ?thesis unfolding e by (rule bind_mono [OF assms(1)])
qed

lemma rbind_mono:
  assumes "rbind m f = Some r" and "\<And>s. m = Some s \<Longrightarrow> m' = Some s"
    and "\<And>x s. m = ret x \<Longrightarrow> f x = Some s \<Longrightarrow> f' x = Some s"
  shows "rbind m' f' = Some r"
  using assms by (auto simp: rbind_def split: option.splits cres.splits)

lemma rbind_cong [fundef_cong]:
  "m = m' \<Longrightarrow> (\<And>x. m' = ret x \<Longrightarrow> f x = f' x) \<Longrightarrow> rbind m f = rbind m' f'"
  by (auto simp: rbind_def split: option.splits cres.splits)

text \<open>
  One run has at least the results of another. Programs built from \<open>rbind\<close> and case
  distinctions are monotone in their parts.
\<close>

named_theorems run_mono

definition le_run :: "'a run \<Rightarrow> 'a run \<Rightarrow> bool" where
  "le_run m m' \<longleftrightarrow> (\<forall>r. m = Some r \<longrightarrow> m' = Some r)"

lemma le_run_refl [run_mono]: "le_run m m"
  by (simp add: le_run_def)

lemma le_runI: "(\<And>r. m = Some r \<Longrightarrow> m' = Some r) \<Longrightarrow> le_run m m'"
  by (simp add: le_run_def)

lemma le_runD: "le_run m m' \<Longrightarrow> m = Some r \<Longrightarrow> m' = Some r"
  by (simp add: le_run_def)

lemma le_run_None [run_mono]: "le_run None m"
  by (simp add: le_run_def)

lemma le_run_bind [run_mono]:
  "le_run m m' \<Longrightarrow> (\<And>x. le_run (f x) (f' x)) \<Longrightarrow> le_run (rbind m f) (rbind m' f')"
  unfolding le_run_def by (blast intro: rbind_mono)

lemma le_run_if [run_mono]:
  "(b \<Longrightarrow> le_run m m') \<Longrightarrow> (\<not> b \<Longrightarrow> le_run n n') \<Longrightarrow> le_run (if b then m else n) (if b then m' else n')"
  by simp

lemma le_run_prod [run_mono]: "(\<And>a b. le_run (f a b) (f' a b)) \<Longrightarrow> le_run (case_prod f x) (case_prod f' x)"
  by (cases x) simp

lemma le_run_let [run_mono]: "le_run (f v) (f' v) \<Longrightarrow> le_run (Let v f) (Let v f')"
  by simp

lemma le_run_option [run_mono]:
  "le_run a a' \<Longrightarrow> (\<And>x. le_run (f x) (f' x)) \<Longrightarrow> le_run (case_option a f v) (case_option a' f' v)"
  by (cases v) simp_all

lemma le_run_list [run_mono]:
  "le_run a a' \<Longrightarrow> (\<And>x xs. le_run (f x xs) (f' x xs)) \<Longrightarrow> le_run (case_list a f v) (case_list a' f' v)"
  by (cases v) simp_all

text \<open>
  What holds of the result of a run, if it has one: postconditions follow the structure of the
  program.
\<close>

named_theorems run_post

definition post :: "'a run \<Rightarrow> ('a \<Rightarrow> bool) \<Rightarrow> bool" where
  "post m P \<longleftrightarrow> (\<forall>x. m = ret x \<longrightarrow> P x)"

lemma postI: "(\<And>x. m = ret x \<Longrightarrow> P x) \<Longrightarrow> post m P"
  by (simp add: post_def)

lemma postD: "post m P \<Longrightarrow> m = ret x \<Longrightarrow> P x"
  by (simp add: post_def)

lemma post_ret [run_post]: "P x \<Longrightarrow> post (ret x) P"
  by (simp add: post_def)

lemma post_fail [run_post]: "post None P" "post (Some Abort) P" "post (Some Oob) P"
  by (simp_all add: post_def)

lemma post_bind: "post m Q \<Longrightarrow> (\<And>x. Q x \<Longrightarrow> post (f x) P) \<Longrightarrow> post (rbind m f) P"
  by (auto simp: post_def rbind_ret_iff)

lemma post_weaken: "post m Q \<Longrightarrow> (\<And>x. Q x \<Longrightarrow> P x) \<Longrightarrow> post m P"
  by (auto simp: post_def)

lemma post_if [run_post]:
  "(b \<Longrightarrow> post m P) \<Longrightarrow> (\<not> b \<Longrightarrow> post n P) \<Longrightarrow> post (if b then m else n) P"
  by simp

lemma post_prod [run_post]: "(\<And>a b. x = (a, b) \<Longrightarrow> post (f a b) P) \<Longrightarrow> post (case_prod f x) P"
  by (cases x) simp

lemma post_let [run_post]: "post (f v) P \<Longrightarrow> post (Let v f) P"
  by simp

lemma post_option [run_post]:
  "(v = None \<Longrightarrow> post a P) \<Longrightarrow> (\<And>x. v = Some x \<Longrightarrow> post (f x) P) \<Longrightarrow> post (case_option a f v) P"
  by (cases v) simp_all

lemma post_list [run_post]:
  "(v = [] \<Longrightarrow> post a P) \<Longrightarrow> (\<And>x xs. v = x # xs \<Longrightarrow> post (f x xs) P) \<Longrightarrow> post (case_list a f v) P"
  by (cases v) simp_all

end
