(* ===== verification/Binder_Uapi.thy ===== *)
theory Binder_Uapi
  imports Binder_Prelude
begin

text \<open>
  The kernel header \<open>linux/android/binder.h\<close>, which \<open>native/binder.h\<close> includes and
  which is not part of the repository. What the user-space code reads from it is a parameter of
  the model: the numeric values of the protocol codes and flags, and the layout of the structures
  the driver exchanges with a process. The values that travel inside those structures are the
  records below.
\<close>

section \<open>Commands from and to the driver\<close>

datatype br_code =
    BR_ERROR | BR_OK | BR_TRANSACTION | BR_REPLY | BR_ACQUIRE_RESULT | BR_DEAD_REPLY
  | BR_TRANSACTION_COMPLETE | BR_INCREFS | BR_ACQUIRE | BR_RELEASE | BR_DECREFS
  | BR_ATTEMPT_ACQUIRE | BR_NOOP | BR_SPAWN_LOOPER | BR_FINISHED | BR_DEAD_BINDER
  | BR_CLEAR_DEATH_NOTIFICATION_DONE | BR_FAILED_REPLY
  | BR_UNKNOWN

text \<open>
  \<open>struct binder_transaction_data\<close>: the target is a union of a pointer and a handle, held
  here as one 64-bit value.
\<close>

record txn =
  t_target :: u64
  t_cookie :: u64
  t_code :: u32
  t_flags :: u32
  t_sender_pid :: u32
  t_sender_euid :: u32
  t_data_size :: u64
  t_offsets_size :: u64
  t_buffer :: u64
  t_offsets :: u64

text \<open>
  What a process sends: the target, code and flags of a transaction and the contents of the data
  and offsets arrays it points to.
\<close>

record out_txn =
  ot_target :: u64
  ot_code :: u32
  ot_flags :: u32
  ot_data :: bytes
  ot_offs :: "u64 list"

datatype bc =
    BC_TRANSACTION out_txn | BC_REPLY out_txn | BC_ACQUIRE_RESULT u32 | BC_FREE_BUFFER u64
  | BC_INCREFS u32 | BC_ACQUIRE u32 | BC_RELEASE u32 | BC_DECREFS u32
  | BC_INCREFS_DONE u64 u64 | BC_ACQUIRE_DONE u64 u64 | BC_ATTEMPT_ACQUIRE u32 u32
  | BC_REGISTER_LOOPER | BC_ENTER_LOOPER | BC_EXIT_LOOPER
  | BC_REQUEST_DEATH_NOTIFICATION u32 u64 | BC_CLEAR_DEATH_NOTIFICATION u32 u64
  | BC_DEAD_BINDER_DONE u64

text \<open>
  \<open>struct flat_binder_object\<close>: the type field says which member of the union is meant.
\<close>

datatype flat_kind = TYPE_BINDER u64 | TYPE_HANDLE u32 | TYPE_OTHER u32

record flat_obj =
  o_kind :: flat_kind
  o_flags :: u32
  o_cookie :: u64

section \<open>The header as a parameter\<close>

record uapi =
  br_of :: "u32 \<Rightarrow> br_code"
  sizeof_txn :: nat
  txn_of :: "bytes \<Rightarrow> txn"
  sizeof_ptr_cookie :: nat
  sizeof_obj :: nat
  obj_bytes :: "flat_obj \<Rightarrow> bytes"
  obj_of :: "bytes \<Rightarrow> flat_obj"
  accepts_fds :: u32
  tf_one_way :: u32
  tf_status_code :: u32
  tf_accept_fds :: u32
  ping_transaction :: u32

text \<open>
  What the code relies on: an object occupies its size, a multiple of four bytes, and an object
  read back from where it was written is the same object.
\<close>

definition uapi_ok :: "uapi \<Rightarrow> bool" where
  "uapi_ok U \<longleftrightarrow>
     (\<forall>ob. length (obj_bytes U ob) = sizeof_obj U) \<and>
     (\<forall>ob h. o_kind ob = TYPE_HANDLE h \<longrightarrow> obj_of U (obj_bytes U ob) = ob) \<and>
     (\<forall>ob p. o_kind ob = TYPE_BINDER p \<longrightarrow> obj_of U (obj_bytes U ob) = ob) \<and>
     4 dvd sizeof_obj U \<and> 0 < sizeof_obj U \<and> sizeof_obj U \<le> 64"

section \<open>A concrete layout\<close>

text \<open>
  The layout of the 64-bit interface, used where a property is evaluated on concrete bytes: it
  shows that the requirements above can be met.
\<close>

definition le_obj_bytes :: "flat_obj \<Rightarrow> bytes" where
  "le_obj_bytes ob = (case o_kind ob of
       TYPE_BINDER p \<Rightarrow> le32 1 @ le32 (o_flags ob) @ le64 p
     | TYPE_HANDLE h \<Rightarrow> le32 2 @ le32 (o_flags ob) @ le32 h @ le32 0
     | TYPE_OTHER t \<Rightarrow> le32 t @ le32 (o_flags ob) @ le64 0) @ le64 (o_cookie ob)"

definition le_obj_of :: "bytes \<Rightarrow> flat_obj" where
  "le_obj_of bs =
     \<lparr>o_kind = (let t = of_le32 bs in
        if t = 1 then TYPE_BINDER (of_le64 (drop 8 bs))
        else if t = 2 then TYPE_HANDLE (of_le32 (drop 8 bs)) else TYPE_OTHER t),
      o_flags = of_le32 (drop 4 bs), o_cookie = of_le64 (drop 16 bs)\<rparr>"

definition le_txn_of :: "bytes \<Rightarrow> txn" where
  "le_txn_of bs = \<lparr>t_target = of_le64 bs, t_cookie = of_le64 (drop 8 bs),
     t_code = of_le32 (drop 16 bs), t_flags = of_le32 (drop 20 bs),
     t_sender_pid = of_le32 (drop 24 bs), t_sender_euid = of_le32 (drop 28 bs),
     t_data_size = of_le64 (drop 32 bs), t_offsets_size = of_le64 (drop 40 bs),
     t_buffer = of_le64 (drop 48 bs), t_offsets = of_le64 (drop 56 bs)\<rparr>"

definition le_br_of :: "u32 \<Rightarrow> br_code" where
  "le_br_of c =
     (if c = 0 then BR_ERROR else if c = 1 then BR_OK else if c = 2 then BR_TRANSACTION
      else if c = 3 then BR_REPLY else if c = 4 then BR_ACQUIRE_RESULT
      else if c = 5 then BR_DEAD_REPLY else if c = 6 then BR_TRANSACTION_COMPLETE
      else if c = 7 then BR_INCREFS else if c = 8 then BR_ACQUIRE else if c = 9 then BR_RELEASE
      else if c = 10 then BR_DECREFS else if c = 11 then BR_ATTEMPT_ACQUIRE
      else if c = 12 then BR_NOOP else if c = 13 then BR_SPAWN_LOOPER
      else if c = 14 then BR_FINISHED else if c = 15 then BR_DEAD_BINDER
      else if c = 16 then BR_CLEAR_DEATH_NOTIFICATION_DONE
      else if c = 17 then BR_FAILED_REPLY else BR_UNKNOWN)"

definition le_uapi :: uapi where
  "le_uapi = \<lparr>br_of = le_br_of, sizeof_txn = 64, txn_of = le_txn_of, sizeof_ptr_cookie = 16,
     sizeof_obj = 24, obj_bytes = le_obj_bytes, obj_of = le_obj_of, accepts_fds = 0x100,
     tf_one_way = 1, tf_status_code = 8, tf_accept_fds = 0x10,
     ping_transaction = 0x5f504e47\<rparr>"

lemma length_le_obj_bytes: "length (le_obj_bytes ob) = 24"
  by (simp add: le_obj_bytes_def split: flat_kind.split)

lemma le_obj_of_bytes:
  "o_kind ob = TYPE_HANDLE h \<or> o_kind ob = TYPE_BINDER p \<Longrightarrow> le_obj_of (le_obj_bytes ob) = ob"
  by (cases ob) (auto simp: le_obj_of_def le_obj_bytes_def drop_append)

lemma le_uapi_ok: "uapi_ok le_uapi"
  using le_obj_of_bytes by (auto simp: uapi_ok_def le_uapi_def length_le_obj_bytes)

lemma uapi_okD:
  assumes "uapi_ok U"
  shows "length (obj_bytes U ob) = sizeof_obj U" "4 dvd sizeof_obj U"
    "0 < sizeof_obj U" "sizeof_obj U \<le> 64"
  using assms by (auto simp: uapi_ok_def)

end
