(* ===== verification/Binder_Io.thy ===== *)
theory Binder_Io
  imports Binder_Uapi
begin

text \<open>
  The cursor \<open>struct binder_io\<close> of \<open>native/binder.c\<close>: allocation and reading of aligned
  chunks, and the writers and readers of integers, strings and object references built on them.
  \<open>size_t\<close> is a word of unspecified width, so that the arithmetic on sizes wraps as it does
  on the target: the properties name the width they need. Addresses are offsets into one memory
  object. The interface is built with 64-bit \<open>binder_size_t\<close>.
\<close>

section \<open>The cursor\<close>

abbreviation BIO_F_SHARED :: u32 where "BIO_F_SHARED \<equiv> 0x01"
abbreviation BIO_F_OVERFLOW :: u32 where "BIO_F_OVERFLOW \<equiv> 0x02"
abbreviation BIO_F_IOERROR :: u32 where "BIO_F_IOERROR \<equiv> 0x04"
abbreviation BIO_F_MALLOCED :: u32 where "BIO_F_MALLOCED \<equiv> 0x08"

record (overloaded) 's binder_io =
  bio_mem :: bytes
  bio_data :: nat
  bio_offs :: nat
  bio_data_avail :: "'s::len word"
  bio_offs_avail :: "'s word"
  bio_data0 :: nat
  bio_offs0 :: nat
  bio_flags :: u32

definition bio_zero :: "'s::len binder_io" where
  \<comment> \<open>the cursor after \<open>memset\<close>\<close>
  "bio_zero = \<lparr>bio_mem = [], bio_data = 0, bio_offs = 0, bio_data_avail = 0, bio_offs_avail = 0,
     bio_data0 = 0, bio_offs0 = 0, bio_flags = 0\<rparr>"

abbreviation bio_overflow :: "'s::len binder_io \<Rightarrow> 's binder_io" where
  "bio_overflow bio \<equiv> bio\<lparr>bio_flags := bio_flags bio OR BIO_F_OVERFLOW\<rparr>"

abbreviation bio_fault :: "'s::len binder_io \<Rightarrow> 's binder_io" where
  \<comment> \<open>a failed read: nothing is available any more\<close>
  "bio_fault bio \<equiv> bio_overflow (bio\<lparr>bio_data_avail := 0\<rparr>)"

definition sizeof_size_t :: "'s::len word" where
  "sizeof_size_t = of_nat (LENGTH('s) div 8)"

definition bio_init_from_txn :: "bytes \<Rightarrow> txn \<Rightarrow> 's::len binder_io" where
  "bio_init_from_txn mem txn =
     \<lparr>bio_mem = mem, bio_data = unat (t_buffer txn), bio_offs = unat (t_offsets txn),
      bio_data_avail = ucast (t_data_size txn),
      bio_offs_avail = ucast (t_offsets_size txn div ucast (sizeof_size_t :: 's word)),
      bio_data0 = unat (t_buffer txn), bio_offs0 = unat (t_offsets txn),
      bio_flags = BIO_F_SHARED\<rparr>"

definition bio_init :: "'s::len binder_io \<Rightarrow> bytes \<Rightarrow> 's word \<Rightarrow> 's word \<Rightarrow> 's binder_io" where
  "bio_init bio data maxdata maxoffs =
     (let n = maxoffs * sizeof_size_t in
      if n > maxdata then
        bio\<lparr>bio_flags := BIO_F_OVERFLOW, bio_data_avail := 0, bio_offs_avail := 0\<rparr>
      else
        bio\<lparr>bio_mem := data, bio_data := unat n, bio_data0 := unat n,
            bio_offs := 0, bio_offs0 := 0,
            bio_data_avail := maxdata - n, bio_offs_avail := maxoffs, bio_flags := 0\<rparr>)"

definition bio_alloc :: "'s::len binder_io \<Rightarrow> 's word \<Rightarrow> nat option \<times> 's binder_io" where
  "bio_alloc bio sz0 =
     (let sz = align4 sz0 in
      if sz > bio_data_avail bio then (None, bio_overflow bio)
      else (Some (bio_data bio),
            bio\<lparr>bio_data := bio_data bio + unat sz, bio_data_avail := bio_data_avail bio - sz\<rparr>))"

definition bio_alloc_obj :: "uapi \<Rightarrow> 's::len binder_io \<Rightarrow> (nat option \<times> 's binder_io) cres" where
  "bio_alloc_obj U bio =
     (case bio_alloc bio (of_nat (sizeof_obj U)) of
        (Some p, b) \<Rightarrow>
          if bio_offs_avail b \<noteq> 0 then
            cbind (of_mem (store (bio_mem b) (bio_offs b) (le64 (of_nat p - of_nat (bio_data0 b)))))
              (\<lambda>m. Ret (Some p, b\<lparr>bio_offs_avail := bio_offs_avail b - 1, bio_mem := m,
                                  bio_offs := bio_offs b + 8\<rparr>))
          else Ret (None, bio_overflow b)
      | (None, b) \<Rightarrow> Ret (None, bio_overflow b))"

section \<open>Writers\<close>

definition bio_store :: "'s::len binder_io \<Rightarrow> nat \<Rightarrow> bytes \<Rightarrow> 's binder_io cres" where
  \<comment> \<open>writing through a pointer that an allocation returned\<close>
  "bio_store bio p bs = cbind (of_mem (store (bio_mem bio) p bs)) (\<lambda>m. Ret (bio\<lparr>bio_mem := m\<rparr>))"

definition bio_put_uint32 :: "'s::len binder_io \<Rightarrow> u32 \<Rightarrow> 's binder_io cres" where
  "bio_put_uint32 bio n =
     (case bio_alloc bio 4 of
        (Some p, b) \<Rightarrow> bio_store b p (le32 n)
      | (None, b) \<Rightarrow> Ret b)"

definition bio_put_obj :: "uapi \<Rightarrow> 's::len binder_io \<Rightarrow> u64 \<Rightarrow> 's binder_io cres" where
  "bio_put_obj U bio ptr =
     cbind (bio_alloc_obj U bio) (\<lambda>(p, b).
       case p of None \<Rightarrow> Ret b
       | Some p \<Rightarrow> bio_store b p (obj_bytes U
           \<lparr>o_kind = TYPE_BINDER ptr, o_flags = 0x7f OR accepts_fds U, o_cookie = 0\<rparr>))"

definition bio_put_ref :: "uapi \<Rightarrow> 's::len binder_io \<Rightarrow> u32 \<Rightarrow> 's binder_io cres" where
  "bio_put_ref U bio handle =
     cbind (if handle \<noteq> 0 then bio_alloc_obj U bio
            else Ret (bio_alloc bio (of_nat (sizeof_obj U)))) (\<lambda>(p, b).
       case p of None \<Rightarrow> Ret b
       | Some p \<Rightarrow> bio_store b p (obj_bytes U
           \<lparr>o_kind = TYPE_HANDLE handle, o_flags = 0x7f OR accepts_fds U, o_cookie = 0\<rparr>))"

fun strlen :: "'c::zero list \<Rightarrow> nat option" where
  \<comment> \<open>units before the terminator; none when the string is not terminated inside its object\<close>
  "strlen [] = None"
| "strlen (c # cs) = (if c = 0 then Some 0 else map_option Suc (strlen cs))"

abbreviation MAX_BIO_UNITS :: "'s::len word" where
  \<comment> \<open>\<open>MAX_BIO_SIZE / sizeof(uint16_t)\<close>\<close>
  "MAX_BIO_UNITS \<equiv> 2 ^ 29"

definition bio_put_units :: "'s::len binder_io \<Rightarrow> nat \<Rightarrow> u16 list \<Rightarrow> 's binder_io cres" where
  \<comment> \<open>the common part of the two string writers: length word, then the units and a terminator\<close>
  "bio_put_units bio n us =
     (let len = of_nat n :: 's word in
      if len \<ge> MAX_BIO_UNITS then bio_put_uint32 bio 0xffffffff
      else cbind (bio_put_uint32 bio (ucast len)) (\<lambda>b.
        case bio_alloc b ((len + 1) * 2) of
          (Some p, b') \<Rightarrow> bio_store b' p (concat (map le16 us))
        | (None, b') \<Rightarrow> Ret b'))"

definition bio_put_string16 :: "'s::len binder_io \<Rightarrow> u16 list option \<Rightarrow> 's binder_io cres" where
  "bio_put_string16 bio str =
     (case str of None \<Rightarrow> bio_put_uint32 bio 0xffffffff
      | Some cs \<Rightarrow> cbind (of_mem (strlen cs)) (\<lambda>n. bio_put_units bio n (take (n + 1) cs)))"

definition bio_put_string16_x :: "'s::len binder_io \<Rightarrow> bytes option \<Rightarrow> 's binder_io cres" where
  "bio_put_string16_x bio str =
     (case str of None \<Rightarrow> bio_put_uint32 bio 0xffffffff
      | Some cs \<Rightarrow> cbind (of_mem (strlen cs))
          (\<lambda>n. bio_put_units bio n (map ucast (take n cs) @ [0])))"

section \<open>Readers\<close>

definition bio_get :: "'s::len binder_io \<Rightarrow> 's word \<Rightarrow> nat option \<times> 's binder_io" where
  "bio_get bio sz0 =
     (let sz = align4 sz0 in
      if bio_data_avail bio < sz then (None, bio_fault bio)
      else (Some (bio_data bio),
            bio\<lparr>bio_data := bio_data bio + unat sz, bio_data_avail := bio_data_avail bio - sz\<rparr>))"

definition bio_get_uint32 :: "'s::len binder_io \<Rightarrow> (u32 \<times> 's binder_io) cres" where
  "bio_get_uint32 bio =
     (case bio_get bio 4 of
        (Some p, b) \<Rightarrow> cbind (of_mem (load32 (bio_mem b) p)) (\<lambda>v. Ret (v, b))
      | (None, b) \<Rightarrow> Ret (0, b))"

definition bio_get_string16 ::
    "'s::len binder_io \<Rightarrow> (nat option \<times> 's word \<times> 's binder_io) cres" where
  \<comment> \<open>the pointer, the length stored through the out parameter, the cursor\<close>
  "bio_get_string16 bio =
     cbind (bio_get_uint32 bio) (\<lambda>(v, b).
       let len = ucast v :: 's word; (p, b') = bio_get b ((len + 1) * 2)
       in Ret (p, len, b'))"

fun scan_offs :: "bytes \<Rightarrow> nat \<Rightarrow> u64 \<Rightarrow> nat \<Rightarrow> bool cres" where
  \<comment> \<open>the loop over the offsets array: is the position one of its first \<open>k\<close> entries?\<close>
  "scan_offs m p off 0 = Ret False"
| "scan_offs m p off (Suc k) =
     cbind (of_mem (load64 m p)) (\<lambda>v. if v = off then Ret True else scan_offs m (p + 8) off k)"

definition bio_get_obj :: "uapi \<Rightarrow> 's::len binder_io \<Rightarrow> (nat option \<times> 's binder_io) cres" where
  "bio_get_obj U bio =
     (let off = of_nat (bio_data bio) - of_nat (bio_data0 bio) :: 's word in
      cbind (scan_offs (bio_mem bio) (bio_offs bio) (ucast off) (unat (bio_offs_avail bio)))
        (\<lambda>found. Ret (if found then bio_get bio (of_nat (sizeof_obj U)) else (None, bio_fault bio))))"

definition bio_get_ref :: "uapi \<Rightarrow> 's::len binder_io \<Rightarrow> (u32 \<times> 's binder_io) cres" where
  "bio_get_ref U bio =
     cbind (bio_get_obj U bio) (\<lambda>(p, b).
       case p of None \<Rightarrow> Ret (0, b)
       | Some p \<Rightarrow> cbind (of_mem (load (bio_mem b) p (sizeof_obj U))) (\<lambda>bs.
           case o_kind (obj_of U bs) of
             TYPE_HANDLE h \<Rightarrow> Ret (h, b)
           | _ \<Rightarrow> Ret (0, b)))"

section \<open>Allocation\<close>

text \<open>
  Sizes are small against the width of \<open>size_t\<close> as soon as that has at least 32 bits, and
  then the rounded size is the multiple of four above the size.
\<close>

abbreviation al4 :: "nat \<Rightarrow> nat" where
  "al4 n \<equiv> 4 * ((n + 3) div 4)"

lemma unat_align4_of_nat:
  assumes "32 \<le> LENGTH('s::len)" and "n < 2 ^ 31"
  shows "unat (align4 (of_nat n :: 's word)) = al4 n"
proof -
  have "(2::nat) ^ 32 \<le> 2 ^ LENGTH('s)"
    using assms(1) by (rule power_increasing) simp
  then have "unat (of_nat n :: 's word) = n" and "n + 3 < 2 ^ LENGTH('s)"
    using assms(2) by (auto simp: unat_of_nat)
  then show ?thesis
    using assms(1) by (subst unat_align4) simp_all
qed

lemma bio_alloc_Some:
  assumes "bio_alloc b sz = (Some p, b')"
  shows "p = bio_data b" "unat (align4 sz) \<le> unat (bio_data_avail b)"
    "b' = b\<lparr>bio_data := bio_data b + unat (align4 sz), bio_data_avail := bio_data_avail b - align4 sz\<rparr>"
    "unat (bio_data_avail b') = unat (bio_data_avail b) - unat (align4 sz)"
  using assms
  by (auto simp: bio_alloc_def Let_def word_le_nat_alt not_less unat_sub split: if_splits)

lemma bio_alloc_None:
  assumes "bio_alloc b sz = (None, b')"
  shows "b' = bio_overflow b" "unat (bio_data_avail b) < unat (align4 sz)"
  using assms by (auto simp: bio_alloc_def Let_def word_less_nat_alt split: if_splits)

lemma bio_get_Some:
  assumes "bio_get b sz = (Some p, b')"
  shows "p = bio_data b" "unat (align4 sz) \<le> unat (bio_data_avail b)"
    "b' = b\<lparr>bio_data := bio_data b + unat (align4 sz), bio_data_avail := bio_data_avail b - align4 sz\<rparr>"
    "unat (bio_data_avail b') = unat (bio_data_avail b) - unat (align4 sz)"
  using assms
  by (auto simp: bio_get_def Let_def word_le_nat_alt not_less unat_sub split: if_splits)

lemma bio_get_None:
  assumes "bio_get b sz = (None, b')"
  shows "b' = bio_fault b" "unat (bio_data_avail b) < unat (align4 sz)"
  using assms by (auto simp: bio_get_def Let_def word_less_nat_alt split: if_splits)

section \<open>Well-formed cursors\<close>

text \<open>
  A cursor stays inside its memory: the available bytes follow the data pointer, and the
  remaining entries of the offsets array follow the offsets pointer. For a cursor that is written
  to, the offsets array lies before the data.
\<close>

definition bio_wf :: "'s::len binder_io \<Rightarrow> bool" where
  "bio_wf b \<longleftrightarrow> bio_data0 b \<le> bio_data b \<and>
     bio_data b + unat (bio_data_avail b) \<le> length (bio_mem b) \<and>
     bio_offs b + 8 * unat (bio_offs_avail b) \<le> length (bio_mem b)"

definition bio_wwf :: "'s::len binder_io \<Rightarrow> bool" where
  "bio_wwf b \<longleftrightarrow> bio_wf b \<and> bio_offs0 b \<le> bio_offs b \<and> 8 dvd (bio_offs b - bio_offs0 b) \<and>
     bio_offs b + 8 * unat (bio_offs_avail b) \<le> bio_data0 b"

lemma bio_wwf_wf: "bio_wwf b \<Longrightarrow> bio_wf b"
  by (simp add: bio_wwf_def)

lemma bio_init_wwf:
  fixes maxdata maxoffs :: "64 word"
  assumes "unat maxdata = length data" and "unat maxoffs * 8 \<le> length data"
  shows "bio_wwf (bio_init bio data maxdata maxoffs)"
proof -
  have m: "unat maxoffs * 8 < 2 ^ 64"
    using assms unsigned_less [of maxdata, where ?'a = nat] by simp
  have n: "unat (maxoffs * 8) = unat maxoffs * 8"
    using m by (simp add: unat_word_ariths)
  moreover have "unat (maxdata - maxoffs * 8) = unat maxdata - unat maxoffs * 8"
    using assms n by (subst unat_sub) (simp_all add: word_le_nat_alt)
  ultimately show ?thesis
    using assms
    by (simp add: bio_init_def Let_def sizeof_size_t_def bio_wwf_def bio_wf_def word_less_nat_alt)
qed

lemma bio_get_wf: "bio_wf b \<Longrightarrow> bio_get b sz = (r, b') \<Longrightarrow> bio_wf b'"
  by (auto simp: bio_get_def bio_wf_def Let_def word_le_nat_alt not_less unat_sub split: if_splits)

section \<open>The message a cursor has written\<close>

text \<open>
  The abstract view of a cursor that is written to: the data bytes and the recorded object
  offsets. Writers only append to both.
\<close>

definition wdata :: "'s::len binder_io \<Rightarrow> bytes" where
  "wdata b = slice (bio_data0 b) (bio_data b) (bio_mem b)"

definition woffs :: "'s::len binder_io \<Rightarrow> u64 list" where
  "woffs b = map (\<lambda>i. of_le64 (slice (bio_offs0 b + 8 * i) (bio_offs0 b + 8 * i + 8) (bio_mem b)))
     [0 ..< (bio_offs b - bio_offs0 b) div 8]"

definition bio_appends :: "'s::len binder_io \<Rightarrow> bytes \<Rightarrow> u64 list \<Rightarrow> 's binder_io \<Rightarrow> bool" where
  "bio_appends b bs os b' \<longleftrightarrow> bio_wwf b' \<and> wdata b' = wdata b @ bs \<and> woffs b' = woffs b @ os \<and>
     bio_flags b' = bio_flags b \<and> length (bio_mem b') = length (bio_mem b) \<and>
     unat (bio_data_avail b') + length bs = unat (bio_data_avail b)"

lemma length_wdata: "bio_wf b \<Longrightarrow> length (wdata b) = bio_data b - bio_data0 b"
  by (simp add: wdata_def bio_wf_def length_slice)

lemma bio_appends_trans:
  "bio_appends b bs os b' \<Longrightarrow> bio_appends b' bs' os' b'' \<Longrightarrow> bio_appends b (bs @ bs') (os @ os') b''"
  by (simp add: bio_appends_def)

lemma bio_overflow_wwf: "bio_wwf b \<Longrightarrow> bio_wwf (bio_overflow b)"
  by (simp add: bio_wwf_def bio_wf_def)

text \<open>Filling a freshly allocated chunk appends the bytes and leaves the padding.\<close>

lemma bio_fill_chunk:
  assumes wf: "bio_wwf b" and al: "bio_alloc b sz = (Some p, b1)"
    and len: "length bs \<le> unat (align4 sz)"
  shows "\<exists>b' pad. bio_store b1 p bs = Ret b' \<and> bio_appends b (bs @ pad) [] b' \<and>
           length bs + length pad = unat (align4 sz)"
proof -
  note A = bio_alloc_Some [OF al]
  let ?k = "unat (align4 sz)"
  have bnd: "p + ?k \<le> length (bio_mem b)" and d0: "bio_data0 b \<le> p"
    using wf A(1,2) by (auto simp: bio_wwf_def bio_wf_def)
  then obtain m' where st: "store (bio_mem b) p bs = Some m'"
    using store_Some [of p bs "bio_mem b"] len by auto
  let ?b' = "b1\<lparr>bio_mem := m'\<rparr>"
  let ?pad = "slice (p + length bs) (p + ?k) (bio_mem b)"
  have lm: "length m' = length (bio_mem b)" using st by (rule store_length)
  have eq: "bio_store b1 p bs = Ret ?b'" using st A(3) by (simp add: bio_store_def)
  have wd: "wdata ?b' = wdata b @ bs @ ?pad"
    using slice_store_append [OF st d0, of "p + ?k"] len bnd A(1,3) by (simp add: wdata_def)
  have "slice (bio_offs0 b + 8 * i) (bio_offs0 b + 8 * i + 8) m'
      = slice (bio_offs0 b + 8 * i) (bio_offs0 b + 8 * i + 8) (bio_mem b)"
    if "i < (bio_offs b - bio_offs0 b) div 8" for i
    using wf that d0 bnd
    by (intro slice_store_disjoint [OF st]) (auto simp: bio_wwf_def bio_wf_def)
  then have wo: "woffs ?b' = woffs b" using A(3) by (simp add: woffs_def)
  have "bio_wwf ?b'" using wf A lm by (auto simp: bio_wwf_def bio_wf_def)
  moreover have "unat (bio_data_avail b1) + ?k = unat (bio_data_avail b)"
    using A(2,4) by simp
  moreover have "length ?pad = ?k - length bs" using bnd by (simp add: length_slice)
  ultimately have "bio_appends b (bs @ ?pad) [] ?b'"
    using wd wo len A(3) lm by (simp add: bio_appends_def)
  then show ?thesis using eq len \<open>length ?pad = ?k - length bs\<close> by (intro exI conjI) auto
qed

text \<open>A chunk that is filled completely has no padding.\<close>

lemma bio_fill_exact:
  assumes "bio_wwf b" "bio_alloc b sz = (Some p, b1)" "length bs = unat (align4 sz)"
  shows "\<exists>b'. bio_store b1 p bs = Ret b' \<and> bio_appends b bs [] b'"
  using bio_fill_chunk [OF assms(1,2), of bs] assms(3) by auto

abbreviation overflowed :: "'s::len binder_io \<Rightarrow> bool" where
  "overflowed b \<equiv> bio_flags b AND BIO_F_OVERFLOW \<noteq> 0"

lemma overflowed_bio_overflow [simp]: "bio_flags b = f OR BIO_F_OVERFLOW \<Longrightarrow> overflowed b"
proof -
  have "(f OR BIO_F_OVERFLOW) AND BIO_F_OVERFLOW = BIO_F_OVERFLOW"
    by (simp add: word_ao_absorbs)
  then show "bio_flags b = f OR BIO_F_OVERFLOW \<Longrightarrow> overflowed b" by simp
qed

lemma bio_put_uint32_spec:
  fixes b :: "'s::len binder_io"
  assumes "32 \<le> LENGTH('s)" and "bio_wwf b"
  obtains (ok) b' where "bio_put_uint32 b n = Ret b'" "bio_appends b (le32 n) [] b'"
  | (full) "bio_put_uint32 b n = Ret (bio_overflow b)" "unat (bio_data_avail b) < 4"
proof -
  have a: "unat (align4 (4 :: 's word)) = 4"
    using unat_align4_of_nat [OF assms(1), of 4] by simp
  show ?thesis
  proof (cases "bio_alloc b 4")
    case (Pair r b1)
    show ?thesis
    proof (cases r)
      case None
      with Pair bio_alloc_None [of b 4 b1] a show ?thesis
        by (intro full) (auto simp: bio_put_uint32_def)
    next
      case (Some p)
      with Pair bio_fill_exact [OF assms(2), of 4 p b1 "le32 n"] a ok show ?thesis
        by (auto simp: bio_put_uint32_def)
    qed
  qed
qed

text \<open>Recording the offset of an object, before its chunk is allocated.\<close>

lemma bio_record_offset:
  assumes wf: "bio_wwf b" and av: "bio_offs_avail b \<noteq> 0"
    and st: "store (bio_mem b) (bio_offs b) (le64 v) = Some m"
  defines "bo \<equiv> b\<lparr>bio_offs_avail := bio_offs_avail b - 1, bio_mem := m, bio_offs := bio_offs b + 8\<rparr>"
  shows "bio_wwf bo" "wdata bo = wdata b" "woffs bo = woffs b @ [v]"
proof -
  have m: "length m = length (bio_mem b)" using st by (rule store_length)
  have pos: "0 < unat (bio_offs_avail b)"
    using av by (simp add: unat_gt_0)
  then have av': "unat (bio_offs_avail b - 1) = unat (bio_offs_avail b) - 1"
    using unat_minus_one [OF av] by simp
  have "8 dvd bio_offs b - bio_offs0 b" and "bio_offs0 b \<le> bio_offs b"
    using wf by (simp_all add: bio_wwf_def)
  then have d8: "8 dvd bio_offs b + 8 - bio_offs0 b"
    by (metis Nat.diff_add_assoc2 dvd_add dvd_refl)
  show "bio_wwf bo"
    using wf pos av' m d8 by (auto simp: bo_def bio_wwf_def bio_wf_def)
  have "bio_offs b + 8 \<le> bio_data0 b" and bnd: "bio_data b \<le> length (bio_mem b)"
    "bio_data0 b \<le> bio_data b"
    using wf pos by (auto simp: bio_wwf_def bio_wf_def)
  then show "wdata bo = wdata b"
    using slice_store_disjoint [OF st, of "bio_data b" "bio_data0 b"]
    by (simp add: bo_def wdata_def)
  let ?k = "(bio_offs b - bio_offs0 b) div 8"
  have k: "bio_offs0 b + 8 * ?k = bio_offs b" and ge: "bio_offs0 b \<le> bio_offs b"
    using wf by (auto simp: bio_wwf_def)
  have "slice (bio_offs0 b + 8 * i) (bio_offs0 b + 8 * i + 8) m
      = slice (bio_offs0 b + 8 * i) (bio_offs0 b + 8 * i + 8) (bio_mem b)" if "i < ?k" for i
    using that k \<open>bio_offs b + 8 \<le> bio_data0 b\<close> bnd
    by (intro slice_store_disjoint [OF st]) auto
  moreover have "slice (bio_offs b) (bio_offs b + 8) m = le64 v"
    using slice_store_append [OF st, of "bio_offs b" "bio_offs b + 8"]
      \<open>bio_offs b + 8 \<le> bio_data0 b\<close> bnd by simp
  moreover have "(bio_offs b + 8 - bio_offs0 b) div 8 = Suc ?k"
  proof -
    have "bio_offs b + 8 - bio_offs0 b = 8 * Suc ?k" using k by simp
    then show ?thesis by (simp only: nonzero_mult_div_cancel_left)
  qed
  ultimately show "woffs bo = woffs b @ [v]"
    using k by (simp add: bo_def woffs_def)
qed

lemma bio_overflow_twice [simp]: "bio_overflow (bio_overflow b) = bio_overflow b"
  by (simp add: or.assoc)

lemma unat_align4_obj:
  assumes "uapi_ok U" "32 \<le> LENGTH('s::len)"
  shows "unat (align4 (of_nat (sizeof_obj U) :: 's word)) = sizeof_obj U"
proof -
  have "4 dvd sizeof_obj U" "sizeof_obj U \<le> 64" using uapi_okD [OF assms(1)] by auto
  then have "al4 (sizeof_obj U) = sizeof_obj U" by auto
  then show ?thesis
    using unat_align4_of_nat [OF assms(2), of "sizeof_obj U"] \<open>sizeof_obj U \<le> 64\<close> by simp
qed

lemma bio_put_object_spec:
  fixes b :: "'s::len binder_io"
  assumes U: "uapi_ok U" and L: "32 \<le> LENGTH('s)" and wf: "bio_wwf b"
    and len: "length bs = sizeof_obj U"
  obtains (ok) p b1 b' where "bio_alloc_obj U b = Ret (Some p, b1)" "bio_store b1 p bs = Ret b'"
      "bio_appends b bs [of_nat (bio_data b) - of_nat (bio_data0 b)] b'"
  | (full) b' where "bio_alloc_obj U b = Ret (None, b')" "bio_wwf b'" "overflowed b'"
proof (cases "bio_alloc b (of_nat (sizeof_obj U))")
  case (Pair r b0)
  note a = unat_align4_obj [OF U L]
  show ?thesis
  proof (cases r)
    case None
    have "b0 = bio_overflow b" using bio_alloc_None(1) [OF Pair [unfolded None]] .
    with Pair None have "bio_alloc_obj U b = Ret (None, bio_overflow b)"
      by (simp add: bio_alloc_obj_def or.assoc)
    then show ?thesis using full bio_overflow_wwf [OF wf] by simp
  next
    case (Some p)
    note A = bio_alloc_Some [OF Pair [unfolded Some]]
    show ?thesis
    proof (cases "bio_offs_avail b = 0")
      case True
      have "bio_wwf b0" using wf A by (auto simp: bio_wwf_def bio_wf_def)
      then show ?thesis
        using full [of "bio_overflow b0"] bio_overflow_wwf [of b0] True Pair Some A(3)
        by (simp add: bio_alloc_obj_def)
    next
      case False
      let ?v = "of_nat (bio_data b) - of_nat (bio_data0 b) :: u64"
      have "0 < unat (bio_offs_avail b)" using False by (simp add: unat_gt_0)
      then obtain m where st: "store (bio_mem b) (bio_offs b) (le64 ?v) = Some m"
        using wf store_Some [of "bio_offs b" "le64 ?v" "bio_mem b"]
        by (auto simp: bio_wwf_def bio_wf_def)
      let ?upd = "\<lambda>b. b\<lparr>bio_offs_avail := bio_offs_avail b - 1, bio_mem := m, bio_offs := bio_offs b + 8\<rparr>"
      note R = bio_record_offset [OF wf False st]
      have al: "bio_alloc_obj U b = Ret (Some p, ?upd b0)"
        using Pair Some A(1,3) st False by (simp add: bio_alloc_obj_def)
      have "bio_alloc (?upd b) (of_nat (sizeof_obj U)) = (Some p, ?upd b0)"
        using Pair Some A(1,3) by (simp add: bio_alloc_def Let_def split: if_splits)
      from bio_fill_exact [OF R(1) this, of bs] len a obtain b' where
        "bio_store (?upd b0) p bs = Ret b'" "bio_appends (?upd b) bs [] b'" by auto
      moreover from this(2) have "bio_appends b bs [?v] b'"
        using R(2,3) store_length [OF st] by (simp add: bio_appends_def)
      ultimately show ?thesis using ok al by blast
    qed
  qed
qed

lemma strlen_terminated: "0 \<notin> set cs \<Longrightarrow> strlen (cs @ 0 # r) = Some (length cs)"
  by (induction cs) auto

text \<open>The two string writers append the length, the units, a terminator and padding.\<close>

definition str_chunk :: "u16 list \<Rightarrow> bytes \<Rightarrow> bool" where
  "str_chunk cs bs \<longleftrightarrow> (\<exists>pad. bs = le32 (of_nat (length cs)) @ concat (map le16 (cs @ [0])) @ pad) \<and>
     length bs = 4 + al4 (2 * (length cs + 1))"

lemma length_concat_le16 [simp]: "length (concat (map le16 cs)) = 2 * length cs"
  by (induction cs) auto

lemma bio_put_units_spec:
  fixes b :: "'s::len binder_io"
  assumes L: "32 \<le> LENGTH('s)" and wf: "bio_wwf b" and n: "length cs < 2 ^ 29"
  obtains (ok) b' bs where "bio_put_units b (length cs) (cs @ [0]) = Ret b'" "str_chunk cs bs"
      "bio_appends b bs [] b'"
  | (full) b' where "bio_put_units b (length cs) (cs @ [0]) = Ret b'" "bio_wwf b'" "overflowed b'"
proof -
  have p: "(2::nat) ^ 32 \<le> 2 ^ LENGTH('s)" using L by (rule power_increasing) simp
  then have un: "unat (of_nat (length cs) :: 's word) = length cs" and
    un1: "unat (of_nat (length cs + 1) * 2 :: 's word) = 2 * (length cs + 1)"
    using n L by (simp_all add: unat_of_nat unat_word_ariths unat_numeral)
  have "unat (2 ^ 29 :: 's word) = 2 ^ 29"
    using L by (intro unat_2_power) simp
  then have lt: "\<not> (of_nat (length cs) :: 's word) \<ge> MAX_BIO_UNITS"
    using n un by (simp add: word_le_nat_alt)
  have c: "(ucast (of_nat (length cs) :: 's word) :: u32) = of_nat (length cs)"
    using un by (metis of_nat_unat)
  have e: "(of_nat (length cs) + 1) * (2 :: 's word) = of_nat (2 * (length cs + 1))" by simp
  have al: "unat (align4 ((of_nat (length cs) + 1) * 2 :: 's word)) = al4 (2 * (length cs + 1))"
    unfolding e using n by (intro unat_align4_of_nat [OF L]) simp
  have put: "bio_put_units b (length cs) (cs @ [0]) =
      cbind (bio_put_uint32 b (of_nat (length cs))) (\<lambda>b.
        case bio_alloc b ((of_nat (length cs) + 1) * 2) of
          (Some p, b') \<Rightarrow> bio_store b' p (concat (map le16 (cs @ [0])))
        | (None, b') \<Rightarrow> Ret b')"
    using lt c by (simp add: bio_put_units_def Let_def)
  show ?thesis
    using L wf
  proof (cases rule: bio_put_uint32_spec [where n = "of_nat (length cs)"])
    case (ok b1)
    have wf1: "bio_wwf b1" using ok(2) by (simp add: bio_appends_def)
    show ?thesis
    proof (cases "bio_alloc b1 ((of_nat (length cs) + 1) * 2)")
      case (Pair r b2)
      show ?thesis
      proof (cases r)
        case None
        have b2: "b2 = bio_overflow b1" using bio_alloc_None(1) [OF Pair [unfolded None]] .
        show ?thesis
          using that(2) [of b2] Pair None ok(1) put b2 bio_overflow_wwf [OF wf1] by simp
      next
        case (Some p)
        let ?bs = "concat (map le16 (cs @ [0]))"
        have "length ?bs \<le> al4 (2 * (length cs + 1))" by simp
        then obtain b' pad where "bio_store b2 p ?bs = Ret b'" "bio_appends b1 (?bs @ pad) [] b'"
          "length ?bs + length pad = al4 (2 * (length cs + 1))"
          using bio_fill_chunk [OF wf1 Pair [unfolded Some], of ?bs] al by auto
        then show ?thesis
          using that(1) [of b' "le32 (of_nat (length cs)) @ ?bs @ pad"] put ok Pair Some
            bio_appends_trans [OF ok(2)]
          by (fastforce simp: str_chunk_def)
      qed
    qed
  next
    case full
    let ?b = "bio_overflow b"
    have wf1: "bio_wwf ?b" using wf by (rule bio_overflow_wwf)
    have "4 \<le> al4 (2 * (length cs + 1))" by simp
    then have "unat (bio_data_avail b) < unat (align4 ((of_nat (length cs) + 1) * 2 :: 's word))"
      using full(2) unfolding al by (rule order.strict_trans2 [rotated])
    then have "bio_alloc ?b ((of_nat (length cs) + 1) * 2) = (None, ?b)"
      by (simp add: bio_alloc_def Let_def word_less_nat_alt or.assoc)
    then show ?thesis using that(2) [of ?b] put full(1) wf1 by simp
  qed
qed

section \<open>Messages as sequences of items\<close>

text \<open>
  A message is a sequence of items, each written by one of the writers; the readers are applied
  in the same order. A string is written without its terminator.
\<close>

datatype bio_item = Item_u32 u32 | Item_str "u16 list" | Item_ref u32

fun item_ok :: "bio_item \<Rightarrow> bool" where
  "item_ok (Item_u32 n) = True"
| "item_ok (Item_str cs) = (0 \<notin> set cs \<and> length cs < 2 ^ 29)"
| "item_ok (Item_ref h) = (h \<noteq> 0)"

fun put_item :: "uapi \<Rightarrow> 's::len binder_io \<Rightarrow> bio_item \<Rightarrow> 's binder_io cres" where
  "put_item U b (Item_u32 n) = bio_put_uint32 b n"
| "put_item U b (Item_str cs) = bio_put_string16 b (Some (cs @ [0]))"
| "put_item U b (Item_ref h) = bio_put_ref U b h"

fun put_items :: "uapi \<Rightarrow> 's::len binder_io \<Rightarrow> bio_item list \<Rightarrow> 's binder_io cres" where
  "put_items U b [] = Ret b"
| "put_items U b (it # its) = cbind (put_item U b it) (\<lambda>b'. put_items U b' its)"

definition get_str :: "'s::len binder_io \<Rightarrow> (u16 list option \<times> 's binder_io) cres" where
  \<comment> \<open>the units of the string that \<open>bio_get_string16\<close> points to\<close>
  "get_str b = cbind (bio_get_string16 b) (\<lambda>(p, len, b').
     case p of None \<Rightarrow> Ret (None, b')
     | Some p \<Rightarrow> cbind (of_mem (load_u16s (bio_mem b') p (unat len))) (\<lambda>cs. Ret (Some cs, b')))"

datatype bio_kind = Kind_u32 | Kind_str | Kind_ref

fun kind_of :: "bio_item \<Rightarrow> bio_kind" where
  "kind_of (Item_u32 _) = Kind_u32"
| "kind_of (Item_str _) = Kind_str"
| "kind_of (Item_ref _) = Kind_ref"

fun get_item :: "uapi \<Rightarrow> 's::len binder_io \<Rightarrow> bio_kind \<Rightarrow> (bio_item \<times> 's binder_io) cres" where
  "get_item U b Kind_u32 = cbind (bio_get_uint32 b) (\<lambda>(n, b'). Ret (Item_u32 n, b'))"
| "get_item U b Kind_str = cbind (get_str b) (\<lambda>(cs, b').
     Ret (Item_str (case cs of None \<Rightarrow> [] | Some cs \<Rightarrow> cs), b'))"
| "get_item U b Kind_ref = cbind (bio_get_ref U b) (\<lambda>(h, b'). Ret (Item_ref h, b'))"

fun get_items ::
    "uapi \<Rightarrow> 's::len binder_io \<Rightarrow> bio_kind list \<Rightarrow> (bio_item list \<times> 's binder_io) cres" where
  "get_items U b [] = Ret ([], b)"
| "get_items U b (k # ks) = cbind (get_item U b k) (\<lambda>(it, b').
     cbind (get_items U b' ks) (\<lambda>(its, b''). Ret (it # its, b'')))"

text \<open>The bytes and the object offsets of one item that starts at a position of the data.\<close>

definition handle_obj :: "uapi \<Rightarrow> u32 \<Rightarrow> flat_obj" where
  "handle_obj U h = \<lparr>o_kind = TYPE_HANDLE h, o_flags = 0x7f OR accepts_fds U, o_cookie = 0\<rparr>"

fun encodes :: "uapi \<Rightarrow> nat \<Rightarrow> bio_item \<Rightarrow> bytes \<Rightarrow> u64 list \<Rightarrow> bool" where
  "encodes U off (Item_u32 n) bs os \<longleftrightarrow> bs = le32 n \<and> os = []"
| "encodes U off (Item_str cs) bs os \<longleftrightarrow> str_chunk cs bs \<and> os = []"
| "encodes U off (Item_ref h) bs os \<longleftrightarrow> bs = obj_bytes U (handle_obj U h) \<and> os = [of_nat off]"

lemma put_item_spec:
  fixes b :: "'s::len binder_io"
  assumes U: "uapi_ok U" and L: "32 \<le> LENGTH('s)" and wf: "bio_wwf b" and it: "item_ok it"
  obtains (ok) b' bs os where "put_item U b it = Ret b'" "encodes U (length (wdata b)) it bs os"
      "bio_appends b bs os b'"
  | (full) b' where "put_item U b it = Ret b'" "bio_wwf b'" "overflowed b'"
proof (cases it)
  case (Item_u32 n)
  from L wf show ?thesis
  proof (cases rule: bio_put_uint32_spec [where n = n])
    case (ok b')
    then show ?thesis using that(1) Item_u32 by simp
  next
    case full
    then show ?thesis using that(2) Item_u32 bio_overflow_wwf [OF wf] by simp
  qed
next
  case (Item_str cs)
  then have n: "length cs < 2 ^ 29" and z: "0 \<notin> set cs" using it by auto
  have e: "put_item U b it = bio_put_units b (length cs) (cs @ [0])"
    using z by (simp add: Item_str bio_put_string16_def strlen_terminated)
  from L wf n show ?thesis
  proof (cases rule: bio_put_units_spec)
    case (ok b' bs)
    then show ?thesis using that(1) e Item_str by simp
  next
    case (full b')
    then show ?thesis using that(2) e by simp
  qed
next
  case (Item_ref h)
  let ?bs = "obj_bytes U (handle_obj U h)"
  have h: "h \<noteq> 0" using it Item_ref by simp
  have "length ?bs = sizeof_obj U" using uapi_okD [OF U] by simp
  from U L wf this show ?thesis
  proof (cases rule: bio_put_object_spec)
    case (ok p b1 b')
    have "put_item U b it = Ret b'"
      using ok(1,2) h by (simp add: Item_ref bio_put_ref_def handle_obj_def)
    moreover have "(of_nat (bio_data b) - of_nat (bio_data0 b) :: u64) = of_nat (length (wdata b))"
      using wf length_wdata [OF bio_wwf_wf [OF wf]] by (simp add: bio_wwf_def bio_wf_def)
    ultimately show ?thesis using that(1) ok(3) Item_ref by simp
  next
    case (full b')
    then show ?thesis using that(2) h by (simp add: Item_ref bio_put_ref_def)
  qed
qed

section \<open>The message a cursor has left to read\<close>

definition rest :: "'s::len binder_io \<Rightarrow> bytes" where
  "rest r = slice (bio_data r) (bio_data r + unat (bio_data_avail r)) (bio_mem r)"

definition roffs :: "'s::len binder_io \<Rightarrow> u64 list" where
  "roffs r = map (\<lambda>i. of_le64 (slice (bio_offs r + 8 * i) (bio_offs r + 8 * i + 8) (bio_mem r)))
     [0 ..< unat (bio_offs_avail r)]"

abbreviation rpos :: "'s::len binder_io \<Rightarrow> nat" where
  "rpos r \<equiv> bio_data r - bio_data0 r"

definition bio_consumes :: "'s::len binder_io \<Rightarrow> bytes \<Rightarrow> 's binder_io \<Rightarrow> bool" where
  "bio_consumes r bs r' \<longleftrightarrow> bio_wf r' \<and> rest r = bs @ rest r' \<and> roffs r' = roffs r \<and>
     rpos r' = rpos r + length bs \<and> bio_mem r' = bio_mem r"

lemma bio_consumes_trans:
  "bio_consumes r a r' \<Longrightarrow> bio_consumes r' b r'' \<Longrightarrow> bio_consumes r (a @ b) r''"
  by (simp add: bio_consumes_def)

lemma length_rest: "bio_wf r \<Longrightarrow> length (rest r) = unat (bio_data_avail r)"
  by (simp add: rest_def bio_wf_def length_slice)

lemma bio_get_chunk:
  assumes wf: "bio_wf r" and rst: "rest r = bs @ rs" and len: "unat (align4 sz) = length bs"
  obtains r' where "bio_get r sz = (Some (bio_data r), r')" "bio_consumes r bs r'"
    "load (bio_mem r') (bio_data r) (length bs) = Some bs" "rest r' = rs"
proof -
  let ?r = "r\<lparr>bio_data := bio_data r + length bs, bio_data_avail := bio_data_avail r - align4 sz\<rparr>"
  let ?a = "bio_data r" and ?n = "unat (bio_data_avail r)"
  have le: "length bs \<le> ?n" using length_rest [OF wf] rst by simp
  then have av: "unat (bio_data_avail r - align4 sz) = ?n - length bs"
    using len by (subst unat_sub) (simp_all add: word_le_nat_alt)
  have get: "bio_get r sz = (Some ?a, ?r)"
    using le len by (simp add: bio_get_def Let_def word_less_nat_alt)
  have bnd: "?a + ?n \<le> length (bio_mem r)" using wf by (simp add: bio_wf_def)
  have sp: "slice ?a (?a + ?n) (bio_mem r) =
      slice ?a (?a + length bs) (bio_mem r) @ slice (?a + length bs) (?a + ?n) (bio_mem r)"
    using le by (intro slice_extend) auto
  moreover have l: "length (slice ?a (?a + length bs) (bio_mem r)) = length bs"
    using bnd le by (simp add: length_slice)
  ultimately have a: "slice ?a (?a + length bs) (bio_mem r) = bs"
    and m: "slice (?a + length bs) (?a + ?n) (bio_mem r) = rs"
    using rst unfolding rest_def by auto
  have "rest ?r = rs" using m av le by (simp add: rest_def)
  moreover have "bio_consumes r bs ?r"
    using wf av le rst \<open>rest ?r = rs\<close> by (simp add: bio_consumes_def bio_wf_def roffs_def)
  moreover have "load (bio_mem r) ?a (length bs) = Some bs"
    using slice_eq_load [of "?a + length bs" "bio_mem r" ?a] a bnd le by simp
  ultimately show ?thesis using that get by simp
qed

lemma bio_get_uint32_chunk:
  fixes r :: "'s::len binder_io"
  assumes "32 \<le> LENGTH('s)" "bio_wf r" "rest r = le32 n @ rs"
  obtains r' where "bio_get_uint32 r = Ret (n, r')" "bio_consumes r (le32 n) r'" "rest r' = rs"
proof -
  have "unat (align4 (4 :: 's word)) = length (le32 n)"
    using unat_align4_of_nat [OF assms(1), of 4] by simp
  from bio_get_chunk [OF assms(2,3) this] obtain r' where
    "bio_get r 4 = (Some (bio_data r), r')" "bio_consumes r (le32 n) r'"
    "load (bio_mem r') (bio_data r) 4 = Some (le32 n)" "rest r' = rs" by auto
  then show ?thesis using that by (simp add: bio_get_uint32_def load32_def)
qed

lemma get_str_chunk:
  fixes r :: "'s::len binder_io"
  assumes L: "32 \<le> LENGTH('s)" and wf: "bio_wf r" and ch: "str_chunk cs bs"
    and n: "length cs < 2 ^ 29" and rst: "rest r = bs @ rs"
  obtains r' p where "bio_get_string16 r = Ret (Some p, of_nat (length cs), r')"
    "load_u16s (bio_mem r') p (length cs + 1) = Some (cs @ [0])"
    "bio_consumes r bs r'" "rest r' = rs" "unat (of_nat (length cs) :: 's word) = length cs"
proof -
  let ?us = "concat (map le16 (cs @ [0]))"
  obtain pad where bs: "bs = le32 (of_nat (length cs)) @ ?us @ pad"
    and l: "length (?us @ pad) = al4 (2 * (length cs + 1))"
    using ch by (auto simp: str_chunk_def)
  have "rest r = le32 (of_nat (length cs)) @ (?us @ pad) @ rs" using rst bs by simp
  from bio_get_uint32_chunk [OF L wf this] obtain r1 where
    g1: "bio_get_uint32 r = Ret (of_nat (length cs), r1)"
    and c1: "bio_consumes r (le32 (of_nat (length cs))) r1" and r1: "rest r1 = (?us @ pad) @ rs"
    by blast
  have "(2::nat) ^ 32 \<le> 2 ^ LENGTH('s)" using L by (rule power_increasing) simp
  then have un: "unat (of_nat (length cs) :: 's word) = length cs"
    using n by (simp add: unat_of_nat)
  have "unat (of_nat (length cs) :: u32) = length cs" using n by (simp add: unat_of_nat)
  then have uc: "(ucast (of_nat (length cs) :: u32) :: 's word) = of_nat (length cs)"
    by (metis of_nat_unat)
  have e: "(of_nat (length cs) + 1) * (2 :: 's word) = of_nat (2 * (length cs + 1))" by simp
  have al: "unat (align4 ((of_nat (length cs) + 1) * 2 :: 's word)) = length (?us @ pad)"
    unfolding e l using n by (intro unat_align4_of_nat [OF L]) simp
  have "bio_wf r1" using c1 by (simp add: bio_consumes_def)
  from bio_get_chunk [OF this r1 al] obtain r2 where
    g2: "bio_get r1 ((of_nat (length cs) + 1) * 2) = (Some (bio_data r1), r2)"
    and c2: "bio_consumes r1 (?us @ pad) r2" and ld: "load (bio_mem r2) (bio_data r1)
      (length (?us @ pad)) = Some (?us @ pad)" and r2: "rest r2 = rs" by blast
  have "bio_get_string16 r = Ret (Some (bio_data r1), of_nat (length cs), r2)"
    using g1 g2 uc by (simp add: bio_get_string16_def)
  moreover have "load_u16s (bio_mem r2) (bio_data r1) (length cs + 1) = Some (cs @ [0])"
    using load_u16s_of_load [OF ld] by simp
  moreover have "bio_consumes r bs r2" using bio_consumes_trans [OF c1 c2] bs by simp
  ultimately show ?thesis using that r2 un by blast
qed

lemma scan_offs_eq:
  "p + 8 * k \<le> length m \<Longrightarrow>
   scan_offs m p off k = Ret (off \<in> set (map (\<lambda>i. of_le64 (slice (p + 8 * i) (p + 8 * i + 8) m)) [0 ..< k]))"
proof (induction k arbitrary: p)
  case (Suc k)
  have "load m p 8 = Some (slice p (p + 8) m)"
    using Suc.prems slice_eq_load [of "p + 8" m p] by simp
  moreover have "map (\<lambda>i. of_le64 (slice (p + 8 * i) (p + 8 * i + 8) m)) [0 ..< Suc k] =
      of_le64 (slice p (p + 8) m) #
      map (\<lambda>i. of_le64 (slice (p + 8 + 8 * i) (p + 8 + 8 * i + 8) m)) [0 ..< k]"
    by (simp add: upt_rec [of 0 "Suc k"] map_Suc_upt [symmetric] o_def algebra_simps del: upt_Suc)
  ultimately show ?case
    using Suc by (auto simp: load64_def)
qed simp

lemma bio_get_ref_chunk:
  fixes r :: "64 binder_io"
  assumes U: "uapi_ok U" and wf: "bio_wf r" and rst: "rest r = obj_bytes U (handle_obj U h) @ rs"
    and pos: "of_nat (rpos r) \<in> set (roffs r)"
  obtains r' where "bio_get_ref U r = Ret (h, r')"
    "bio_consumes r (obj_bytes U (handle_obj U h)) r'" "rest r' = rs"
proof -
  let ?bs = "obj_bytes U (handle_obj U h)"
  have l: "length ?bs = sizeof_obj U" using uapi_okD [OF U] by simp
  have "unat (align4 (of_nat (sizeof_obj U) :: 64 word)) = length ?bs"
    using unat_align4_obj [OF U, where 's = 64] l by simp
  from bio_get_chunk [OF wf rst this] obtain r' where
    g: "bio_get r (of_nat (sizeof_obj U)) = (Some (bio_data r), r')" and c: "bio_consumes r ?bs r'"
    and ld: "load (bio_mem r') (bio_data r) (length ?bs) = Some ?bs" and r': "rest r' = rs"
    by blast
  have "(of_nat (bio_data r) - of_nat (bio_data0 r) :: u64) = of_nat (rpos r)"
    using wf by (simp add: bio_wf_def of_nat_diff)
  moreover have "scan_offs (bio_mem r) (bio_offs r) (of_nat (rpos r)) (unat (bio_offs_avail r)) = Ret True"
    using wf pos by (subst scan_offs_eq) (simp_all only: bio_wf_def roffs_def simp_thms)
  ultimately have "bio_get_obj U r = Ret (Some (bio_data r), r')"
    using g by (simp add: bio_get_obj_def Let_def)
  moreover have "obj_of U ?bs = handle_obj U h"
    using U unfolding uapi_ok_def handle_obj_def by fastforce
  ultimately have "bio_get_ref U r = Ret (h, r')"
    using ld l by (simp add: bio_get_ref_def handle_obj_def)
  then show ?thesis using that c r' by blast
qed

lemma get_item_spec:
  fixes r :: "64 binder_io"
  assumes U: "uapi_ok U" and wf: "bio_wf r" and it: "item_ok it"
    and enc: "encodes U (rpos r) it bs os" and os: "set os \<subseteq> set (roffs r)"
    and rst: "rest r = bs @ rs"
  obtains r' where "get_item U r (kind_of it) = Ret (it, r')" "bio_consumes r bs r'" "rest r' = rs"
proof (cases it)
  case (Item_u32 n)
  then have "rest r = le32 n @ rs" using enc rst by simp
  from bio_get_uint32_chunk [OF _ wf this] obtain r' where
    "bio_get_uint32 r = Ret (n, r')" "bio_consumes r (le32 n) r'" "rest r' = rs" by auto
  then show ?thesis using that enc Item_u32 by simp
next
  have L: "32 \<le> LENGTH(64)" by simp
  case (Item_str cs)
  then have "str_chunk cs bs" "length cs < 2 ^ 29" using enc it by auto
  from get_str_chunk [OF L wf this rst] obtain r' p where
    g: "bio_get_string16 r = Ret (Some p, of_nat (length cs), r')"
    "load_u16s (bio_mem r') p (length cs + 1) = Some (cs @ [0])"
    "bio_consumes r bs r'" "rest r' = rs" "unat (of_nat (length cs) :: 64 word) = length cs" .
  then have "load_u16s (bio_mem r') p (length cs) = Some cs"
    using load_u16s_le_prefix [OF g(2), of "length cs"] by simp
  then show ?thesis using that g Item_str by (simp add: get_str_def)
next
  case (Item_ref h)
  then have "rest r = obj_bytes U (handle_obj U h) @ rs" "of_nat (rpos r) \<in> set (roffs r)"
    using enc rst os by auto
  from bio_get_ref_chunk [OF U wf this] obtain r' where
    "bio_get_ref U r = Ret (h, r')" "bio_consumes r (obj_bytes U (handle_obj U h)) r'" "rest r' = rs" .
  then show ?thesis using that enc Item_ref by simp
qed

fun encodes_items :: "uapi \<Rightarrow> nat \<Rightarrow> bio_item list \<Rightarrow> bytes \<Rightarrow> u64 list \<Rightarrow> bool" where
  "encodes_items U off [] bs os \<longleftrightarrow> bs = [] \<and> os = []"
| "encodes_items U off (it # its) bs os \<longleftrightarrow>
     (\<exists>b1 b2 o1 o2. bs = b1 @ b2 \<and> os = o1 @ o2 \<and> encodes U off it b1 o1 \<and>
        encodes_items U (off + length b1) its b2 o2)"

lemma bio_appends_length:
  "bio_wf b \<Longrightarrow> bio_appends b bs os b' \<Longrightarrow> length (wdata b') = length (wdata b) + length bs"
  by (simp add: bio_appends_def)

lemma bio_appends_refl: "bio_wwf b \<Longrightarrow> bio_appends b [] [] b"
  by (simp add: bio_appends_def)

lemma bio_appends_wwf: "bio_appends b bs os b' \<Longrightarrow> bio_wwf b'"
  by (simp add: bio_appends_def)

lemma put_items_overflowed:
  fixes b :: "'s::len binder_io"
  assumes "uapi_ok U" "32 \<le> LENGTH('s)"
  shows "bio_wwf b \<Longrightarrow> \<forall>it \<in> set its. item_ok it \<Longrightarrow> overflowed b \<Longrightarrow>
    \<exists>b'. put_items U b its = Ret b' \<and> bio_wwf b' \<and> overflowed b'"
proof (induction its arbitrary: b)
  case (Cons it its)
  have "item_ok it" using Cons.prems by simp
  with assms Cons.prems(1) obtain b1 where
    "put_item U b it = Ret b1" "bio_wwf b1" "overflowed b1"
    by (cases rule: put_item_spec) (use Cons.prems(3) in \<open>auto simp: bio_appends_def\<close>)
  with Cons show ?case by simp
qed simp

lemma put_items_spec:
  fixes b :: "'s::len binder_io"
  assumes "uapi_ok U" "32 \<le> LENGTH('s)"
  shows "bio_wwf b \<Longrightarrow> \<forall>it \<in> set its. item_ok it \<Longrightarrow>
    \<exists>b'. put_items U b its = Ret b' \<and> bio_wwf b' \<and> (overflowed b' \<or>
      (\<exists>bs os. encodes_items U (length (wdata b)) its bs os \<and> bio_appends b bs os b'))"
proof (induction its arbitrary: b)
  case Nil
  then show ?case by (auto intro: bio_appends_refl)
next
  case (Cons it its)
  have it: "item_ok it" and its: "\<forall>it \<in> set its. item_ok it" using Cons.prems by auto
  from assms Cons.prems(1) it show ?case
  proof (cases rule: put_item_spec)
    case (ok b1 bs os)
    from Cons.IH [OF bio_appends_wwf [OF ok(3)] its] obtain b' where
      b': "put_items U b1 its = Ret b'" "bio_wwf b'" and
      e: "overflowed b' \<or> (\<exists>bs os. encodes_items U (length (wdata b1)) its bs os \<and> bio_appends b1 bs os b')"
      by blast
    have l: "length (wdata b1) = length (wdata b) + length bs"
      using ok(3) by (simp add: bio_appends_def)
    from e show ?thesis
    proof
      assume "\<exists>bs os. encodes_items U (length (wdata b1)) its bs os \<and> bio_appends b1 bs os b'"
      then obtain bs' os' where "encodes_items U (length (wdata b1)) its bs' os'"
        "bio_appends b1 bs' os' b'" by blast
      then have "encodes_items U (length (wdata b)) (it # its) (bs @ bs') (os @ os')"
        "bio_appends b (bs @ bs') (os @ os') b'"
        using ok(2) l bio_appends_trans [OF ok(3)] by auto
      then show ?thesis using ok(1) b' by (auto simp del: encodes_items.simps)
    qed (use ok(1) b' in auto)
  next
    case (full b1)
    then show ?thesis using put_items_overflowed [OF assms full(2) its full(3)] by auto
  qed
qed

lemma get_items_spec:
  fixes r :: "64 binder_io"
  assumes U: "uapi_ok U"
  shows "bio_wf r \<Longrightarrow> \<forall>it \<in> set its. item_ok it \<Longrightarrow> encodes_items U (rpos r) its bs os \<Longrightarrow>
    set os \<subseteq> set (roffs r) \<Longrightarrow> rest r = bs @ rs \<Longrightarrow>
    \<exists>r'. get_items U r (map kind_of its) = Ret (its, r') \<and> bio_consumes r bs r' \<and> rest r' = rs"
proof (induction its arbitrary: r bs os)
  case Nil
  then show ?case by (auto simp: bio_consumes_def)
next
  case (Cons it its)
  obtain b1 b2 o1 o2 where e: "bs = b1 @ b2" "os = o1 @ o2" "encodes U (rpos r) it b1 o1"
    "encodes_items U (rpos r + length b1) its b2 o2"
    using Cons.prems(3) by auto
  have "item_ok it" "set o1 \<subseteq> set (roffs r)" "rest r = b1 @ (b2 @ rs)" using Cons.prems e by auto
  from get_item_spec [OF U Cons.prems(1) this(1) e(3) this(2,3)] obtain r1 where
    g: "get_item U r (kind_of it) = Ret (it, r1)" "bio_consumes r b1 r1" "rest r1 = b2 @ rs" .
  then have "bio_wf r1" "rpos r1 = rpos r + length b1" "roffs r1 = roffs r"
    by (auto simp: bio_consumes_def)
  with Cons.IH [of r1 b2 o2] Cons.prems e g(3) obtain r' where
    "get_items U r1 (map kind_of its) = Ret (its, r')" "bio_consumes r1 b2 r'" "rest r' = rs"
    by auto
  then show ?case using g e bio_consumes_trans [OF g(2)] by auto
qed

section \<open>Delivery\<close>

text \<open>
  What a written message becomes at its receiver: the transaction names the written part of the
  data and of the offsets array (\<open>binder_call\<close>, \<open>binder_send_reply\<close>), and the
  driver hands both over in one buffer, the offsets after the data.
\<close>

definition message_mem :: "bytes \<Rightarrow> u64 list \<Rightarrow> bytes" where
  "message_mem data offs = data @ concat (map le64 offs)"

definition message_txn :: "bytes \<Rightarrow> u64 list \<Rightarrow> txn \<Rightarrow> txn" where
  "message_txn data offs t = t\<lparr>t_buffer := 0, t_offsets := of_nat (length data),
     t_data_size := of_nat (length data), t_offsets_size := of_nat (8 * length offs)\<rparr>"

definition delivered_mem :: "'s::len binder_io \<Rightarrow> bytes" where
  "delivered_mem b = message_mem (wdata b) (woffs b)"

definition delivered_txn :: "'s::len binder_io \<Rightarrow> txn \<Rightarrow> txn" where
  "delivered_txn b t = message_txn (wdata b) (woffs b) t"

lemma concat_le64_nth:
  "i < length vs \<Longrightarrow> slice (8 * i) (8 * i + 8) (concat (map le64 vs)) = le64 (vs ! i)"
proof (induction vs arbitrary: i)
  case (Cons v vs)
  then show ?case
    by (cases i) (simp_all add: slice_def)
qed simp

lemma length_concat_le64 [simp]: "length (concat (map le64 vs)) = 8 * length vs"
  by (induction vs) auto

lemma length_message:
  assumes "bio_wwf b"
  shows "length (wdata b) + 8 * length (woffs b) \<le> length (bio_mem b)"
proof -
  have "8 * ((bio_offs b - bio_offs0 b) div 8) \<le> bio_offs b - bio_offs0 b" by simp
  then show ?thesis
    using assms length_wdata [OF bio_wwf_wf [OF assms]]
    by (auto simp: bio_wwf_def bio_wf_def woffs_def)
qed

lemma message_reader:
  fixes offs :: "u64 list" and t :: txn
  assumes "length data + 8 * length offs < 2 ^ 64"
  defines "r \<equiv> (bio_init_from_txn (message_mem data offs) (message_txn data offs t) :: 64 binder_io)"
  shows "bio_wf r" "rest r = data" "roffs r = offs" "rpos r = 0"
proof -
  let ?n = "length data" and ?k = "length offs"
  have n: "unat (of_nat ?n :: 64 word) = ?n" and k: "unat (of_nat ?k :: 64 word) = ?k"
    using assms(1) by (simp_all add: unat_of_nat)
  have k8: "unat (of_nat (8 * ?k) :: 64 word) = 8 * ?k"
    using assms(1) by (subst unat_of_nat) simp
  have "unat (of_nat (8 * ?k) div 8 :: 64 word) = 8 * ?k div 8"
    by (subst unat_div) (simp only: k8, simp)
  then have dv: "unat (of_nat (8 * ?k) div 8 :: 64 word) = ?k" by simp
  have av: "bio_data_avail r = of_nat ?n" "bio_data r = 0" "bio_data0 r = 0"
    "bio_offs_avail r = of_nat (8 * ?k) div 8" "bio_offs r = ?n" "bio_mem r = message_mem data offs"
    using n unfolding r_def
    by (simp_all add: bio_init_from_txn_def message_txn_def sizeof_size_t_def)
  show "bio_wf r" using av n dv by (simp add: bio_wf_def message_mem_def)
  show "rest r = data" using av n by (simp add: rest_def slice_def message_mem_def)
  show "rpos r = 0" using av by simp
  have "slice (?n + 8 * i) (?n + 8 * i + 8) (message_mem data offs) = le64 (offs ! i)" if "i < ?k" for i
    using concat_le64_nth [OF that] by (simp add: slice_def message_mem_def)
  then have "map (\<lambda>i. of_le64 (slice (?n + 8 * i) (?n + 8 * i + 8) (message_mem data offs))) [0 ..< ?k]
      = map ((!) offs) [0 ..< ?k]" by simp
  then show "roffs r = offs"
    unfolding roffs_def av(4-6) dv by (simp add: map_nth)
qed

lemmas delivered_reader =
  message_reader [of "wdata b" "woffs b" for b, folded delivered_mem_def delivered_txn_def]

lemma bio_init_fresh:
  fixes maxdata maxoffs :: "64 word" and bio :: "64 binder_io"
  assumes "unat maxdata = length data" "unat maxoffs * 8 \<le> length data"
  defines "b \<equiv> bio_init bio data maxdata maxoffs"
  shows "bio_wwf b" "wdata b = []" "woffs b = []" "bio_flags b = 0"
    "length (bio_mem b) = length data"
proof -
  show wwf: "bio_wwf b" unfolding b_def using assms(1,2) by (rule bio_init_wwf)
  have "\<not> maxoffs * 8 > maxdata"
  proof -
    have "unat (maxoffs * 8) \<le> unat maxoffs * 8" by (simp add: unat_word_ariths)
    then show ?thesis using assms(1,2) by (simp add: word_less_nat_alt)
  qed
  then show "wdata b = []" "woffs b = []" "bio_flags b = 0" "length (bio_mem b) = length data"
    by (simp_all add: b_def bio_init_def Let_def sizeof_size_t_def wdata_def woffs_def)
qed

text \<open>
  C12. Round trip of a message: whatever sequence of integers, strings and object references is
  written with the \<open>bio_put\<close> functions into a buffer set up by \<open>bio_init\<close>, if no
  writer ran out of space then the receiver, whose cursor \<open>bio_init_from_txn\<close> sets up on
  the delivered transaction, reads back exactly the items written, in order, and has nothing left.
\<close>

theorem bio_message_roundtrip:
  fixes maxdata maxoffs :: "64 word"
  assumes U: "uapi_ok U"
    and buf: "unat maxdata = length data" "unat maxoffs * 8 \<le> length data"
    and its: "\<forall>it \<in> set its. item_ok it"
    and put: "put_items U (bio_init bio data maxdata maxoffs) its = Ret b'"
    and ok: "bio_flags b' AND BIO_F_OVERFLOW = 0"
  shows "\<exists>r. get_items U (bio_init_from_txn (delivered_mem b') (delivered_txn b' t) :: 64 binder_io)
           (map kind_of its) = Ret (its, r) \<and> rest r = []"
proof -
  let ?b = "bio_init bio data maxdata maxoffs"
  note B = bio_init_fresh [OF buf, of bio]
  obtain bs os where enc: "encodes_items U (length (wdata ?b)) its bs os" and ap: "bio_appends ?b bs os b'"
    using put_items_spec [OF U _ B(1) its] put ok by auto
  have wd: "wdata b' = bs" "woffs b' = os" and wf: "bio_wwf b'" using ap B by (auto simp: bio_appends_def)
  have "length (bio_mem b') < 2 ^ 64"
    using ap B(5) buf(1) unsigned_less [of maxdata, where ?'a = nat] by (simp add: bio_appends_def)
  then have "length bs + 8 * length os < 2 ^ 64"
    using length_message [OF wf] wd by simp
  with delivered_reader [of b'] wd
  show ?thesis
    using get_items_spec [OF U, of "bio_init_from_txn (delivered_mem b') (delivered_txn b' t)" its bs os "[]"]
      its enc B(2) by auto
qed

section \<open>Sizes at the width of the target\<close>

lemma unat_string_size:
  fixes v :: u32
  shows "unat ((ucast v + 1) * 2 :: 64 word) = 2 * (unat v + 1)"
    "unat (align4 ((ucast v + 1) * 2 :: 64 word)) = al4 (2 * (unat v + 1))"
proof -
  have v: "unat v < 2 ^ 32" using unsigned_less [of v, where ?'a = nat] by simp
  have u: "unat (ucast v :: 64 word) = unat v"
    using v by (simp add: unsigned_ucast_eq take_bit_nat_eq_self)
  then show e: "unat ((ucast v + 1) * 2 :: 64 word) = 2 * (unat v + 1)"
    using v by (simp add: unat_word_ariths)
  show "unat (align4 ((ucast v + 1) * 2 :: 64 word)) = al4 (2 * (unat v + 1))"
    using v by (subst unat_align4) (simp_all only: e, simp_all)
qed

lemma bio_get_uint32_wf:
  fixes b :: "'s::len binder_io"
  assumes L: "32 \<le> LENGTH('s)" and wf: "bio_wf b"
  obtains v b' where "bio_get_uint32 b = Ret (v, b')" "bio_wf b'" "bio_mem b' = bio_mem b"
proof (cases "bio_get b 4")
  case (Pair r b')
  have a: "unat (align4 (4 :: 's word)) = 4" using unat_align4_of_nat [OF L, of 4] by simp
  have wf': "bio_wf b'" using wf Pair by (rule bio_get_wf)
  show ?thesis
  proof (cases r)
    case None
    then show ?thesis using that [of 0 b'] Pair wf' bio_get_None(1) [of b 4 b']
      by (simp add: bio_get_uint32_def)
  next
    case (Some p)
    note G = bio_get_Some [OF Pair [unfolded Some]]
    have "p + 4 \<le> length (bio_mem b)" using G(1,2) a wf by (auto simp: bio_wf_def)
    then obtain bs where "load (bio_mem b) p 4 = Some bs" by (auto simp: load_def)
    then show ?thesis
      using that [of "of_le32 bs" b'] Pair Some wf' G(3) by (simp add: bio_get_uint32_def load32_def)
  qed
qed

lemma bio_get_string16_eq:
  "bio_get_uint32 b = Ret (v, b1) \<Longrightarrow> bio_get b1 ((ucast v + 1) * 2) = (r, b2) \<Longrightarrow>
   bio_get_string16 b = Ret (r, ucast v, b2)"
  by (simp add: bio_get_string16_def)

lemma bio_get_string16_bounds:
  fixes b :: "64 binder_io"
  assumes wf: "bio_wf b"
  shows "\<exists>p len b'. bio_get_string16 b = Ret (p, len, b') \<and> bio_wf b' \<and> bio_mem b' = bio_mem b \<and>
    (case p of None \<Rightarrow> True
     | Some q \<Rightarrow> q + 2 * (unat len + 1) \<le> length (bio_mem b) \<and>
         (\<exists>cs. load_u16s (bio_mem b) q (unat len + 1) = Some cs))"
proof -
  obtain v b1 where g: "bio_get_uint32 b = Ret (v, b1)" and wf1: "bio_wf b1" and m: "bio_mem b1 = bio_mem b"
    using bio_get_uint32_wf [OF _ wf] by auto
  let ?sz = "(ucast v + 1) * 2 :: 64 word"
  obtain r b2 where g2: "bio_get b1 ?sz = (r, b2)" by (cases "bio_get b1 ?sz")
  have eq: "bio_get_string16 b = Ret (r, ucast v, b2)"
    using g g2 by (simp add: bio_get_string16_def)
  have wf2: "bio_wf b2" using wf1 g2 by (rule bio_get_wf)
  show ?thesis
  proof (cases r)
    case None
    then show ?thesis using eq wf2 m bio_get_None(1) [of b1 ?sz b2] g2 by auto
  next
    case (Some q)
    note G = bio_get_Some [OF g2 [unfolded Some]]
    have "2 * (unat v + 1) \<le> al4 (2 * (unat v + 1))" by simp
    also have "q + al4 (2 * (unat v + 1)) \<le> length (bio_mem b)"
      using G(1,2) wf1 m unfolding unat_string_size by (auto simp: bio_wf_def)
    finally have "q + 2 * (unat v + 1) \<le> length (bio_mem b)" by simp
    moreover have "unat (ucast v :: 64 word) = unat v"
      using unsigned_less [of v, where ?'a = nat]
      by (simp add: unsigned_ucast_eq take_bit_nat_eq_self)
    ultimately show ?thesis
      using eq Some wf2 m G(3) load_u16s_in_bounds [of q "unat v + 1" "bio_mem b"] by auto
  qed
qed

text \<open>
  Memory safety of string reading on a 64-bit target, for any message a sender can put into
  the buffer: \<open>bio_get_string16\<close> always returns, its cursor stays inside the message, and
  a pointer it returns is followed by the announced number of 16-bit units and one more, all
  inside the message.
\<close>

theorem bio_get_string16_in_bounds:
  fixes b :: "64 binder_io"
  assumes wf: "bio_wf b"
  shows "\<exists>p len b'. bio_get_string16 b = Ret (p, len, b') \<and> bio_wf b' \<and> bio_mem b' = bio_mem b \<and>
    (case p of None \<Rightarrow> True
     | Some q \<Rightarrow> q + 2 * (unat len + 1) \<le> length (bio_mem b) \<and>
         (\<exists>cs. load_u16s (bio_mem b) q (unat len + 1) = Some cs))"
  using assms by (rule bio_get_string16_bounds)

text \<open>
  On a 32-bit target the size computation of \<open>bio_get_string16\<close> wraps: a length word
  of \<open>0xffffffff\<close> makes the requested size zero, so the reader returns a pointer, announces
  four billion units, and consumes nothing of what follows.
\<close>

theorem bio_get_string16_wraps_ilp32:
  fixes b :: "32 binder_io"
  assumes "bio_wf b" and "rest b = le32 0xffffffff @ rs"
  shows "\<exists>p b'. bio_get_string16 b = Ret (Some p, 0xffffffff, b') \<and> rest b' = rs"
proof -
  have L: "32 \<le> LENGTH(32)" by simp
  obtain b1 where g: "bio_get_uint32 b = Ret (0xffffffff, b1)" and c: "bio_consumes b (le32 0xffffffff) b1"
    and r: "rest b1 = rs" using bio_get_uint32_chunk [OF L assms] .
  have "unat (align4 (0 :: 32 word)) = length ([] :: bytes)"
    using unat_align4_of_nat [OF L, of 0] by simp
  moreover have "bio_wf b1" using c by (simp add: bio_consumes_def)
  ultimately obtain b2 where g2: "bio_get b1 0 = (Some (bio_data b1), b2)" "rest b2 = rs"
    using bio_get_chunk [of b1 "[]" rs 0] r by auto
  have z: "((ucast (0xffffffff :: u32) + 1) * 2 :: 32 word) = 0" by code_simp
  have "bio_get_string16 b = Ret (Some (bio_data b1), ucast (0xffffffff :: u32), b2)"
    by (rule bio_get_string16_eq [OF g]) (simp only: z g2)
  then show ?thesis using g2(2) by simp
qed

subsection \<open>Witnesses\<close>

definition demo_items :: "bio_item list" where
  "demo_items = [Item_u32 5, Item_str [0x61, 0x62], Item_ref 7]"

lemma demo_items_put:
  "case put_items le_uapi (bio_init bio_zero (replicate 128 0) (128 :: 64 word) 4) demo_items of
     Ret b \<Rightarrow> bio_flags b AND BIO_F_OVERFLOW = 0 | _ \<Rightarrow> False"
  by code_simp

theorem bio_message_roundtrip_witness:
  "\<exists>b r. put_items le_uapi (bio_init bio_zero (replicate 128 0) (128 :: 64 word) 4) demo_items = Ret b \<and>
     bio_flags b AND BIO_F_OVERFLOW = 0 \<and>
     get_items le_uapi (bio_init_from_txn (delivered_mem b) (delivered_txn b (le_txn_of [])) :: 64 binder_io)
       [Kind_u32, Kind_str, Kind_ref] = Ret (demo_items, r) \<and> rest r = []"
proof -
  obtain b where b: "put_items le_uapi (bio_init bio_zero (replicate 128 0) (128 :: 64 word) 4) demo_items = Ret b"
    "bio_flags b AND BIO_F_OVERFLOW = 0"
    using demo_items_put by (auto split: cres.splits)
  have "\<forall>it \<in> set demo_items. item_ok it" by (simp add: demo_items_def)
  from bio_message_roundtrip [OF le_uapi_ok _ _ this b, of "le_txn_of []"] b
  show ?thesis by (auto simp: demo_items_def)
qed

definition demo_cursor :: "'s::len binder_io" where
  \<comment> \<open>a message that consists of one length word\<close>
  "demo_cursor = bio_zero\<lparr>bio_mem := le32 0xffffffff, bio_data_avail := 4\<rparr>"

theorem bio_get_string16_in_bounds_witness:
  "\<exists>p len b'. bio_get_string16 (demo_cursor :: 64 binder_io) = Ret (p, len, b') \<and> bio_wf b' \<and>
     bio_wf (demo_cursor :: 64 binder_io)"
proof -
  have wf: "bio_wf (demo_cursor :: 64 binder_io)" by code_simp
  from bio_get_string16_in_bounds [OF wf] wf show ?thesis by blast
qed

theorem bio_get_string16_wraps_ilp32_witness:
  "\<exists>p b'. bio_get_string16 (demo_cursor :: 32 binder_io) = Ret (Some p, 0xffffffff, b') \<and> rest b' = []"
proof -
  have "bio_wf (demo_cursor :: 32 binder_io)" by code_simp
  moreover have "rest (demo_cursor :: 32 binder_io) = le32 0xffffffff @ []" by code_simp
  ultimately show ?thesis by (rule bio_get_string16_wraps_ilp32)
qed

end
