(* ===== verification/Binder_Client.thy ===== *)
theory Binder_Client
  imports Binder_Io
begin

text \<open>
  The protocol half of \<open>native/binder.c\<close>: opening the driver, writing commands, parsing
  the commands the driver returns, the blocking call and the server loop. The driver itself is a
  parameter: what one \<open>BINDER_WRITE_READ\<close> ioctl does with the commands written and what it
  returns. Commands handed to it are recorded in a log.
\<close>

section \<open>The driver connection\<close>

text \<open>
  One ioctl takes the pending commands and the size of the read buffer; it gives the result, the
  number of commands consumed, the bytes read and the driver's next state. The second component
  is the memory the driver maps into the process.
\<close>

record 'd driver =
  drv_ioctl :: "'d \<Rightarrow> bc list \<Rightarrow> nat \<Rightarrow> int \<times> nat \<times> bytes \<times> 'd"
  drv_mem :: "'d \<Rightarrow> bytes"

record 'd binder_state =
  bs_fd :: int
  bs_mapsize :: nat
  bs_driver :: 'd
  bs_log :: "bc list"

section \<open>Opening and closing\<close>

text \<open>
  The results of the system calls that \<open>binder_open\<close> makes, and the process resources it
  changes: the open descriptors, the mapped descriptors and the number of allocated states.
\<close>

record open_env =
  oe_malloc :: bool
  oe_open :: int
  oe_version_ioctl :: int
  oe_version_matches :: bool
  oe_mmap_ok :: bool

record resources =
  res_fds :: "int list"
  res_maps :: "int list"
  res_heap :: nat

definition sys_close :: "int \<Rightarrow> resources \<Rightarrow> resources" where
  "sys_close fd r = r\<lparr>res_fds := removeAll fd (res_fds r)\<rparr>"

definition binder_open ::
    "open_env \<Rightarrow> 'd \<Rightarrow> nat \<Rightarrow> resources \<Rightarrow> 'd binder_state option \<times> resources" where
  "binder_open E d mapsize r0 =
     (if \<not> oe_malloc E then (None, r0)
      else
        let r1 = r0\<lparr>res_heap := res_heap r0 + 1\<rparr>;
            fail_open = (\<lambda>r. (None, r\<lparr>res_heap := res_heap r - 1\<rparr>));
            fail_map = (\<lambda>r. fail_open (sys_close (oe_open E) r))
        in if oe_open E < 0 then fail_open r1
           else
             let r2 = r1\<lparr>res_fds := oe_open E # res_fds r1\<rparr>
             in if oe_version_ioctl E = -1 \<or> \<not> oe_version_matches E then fail_open r2
                else if \<not> oe_mmap_ok E then fail_map r2
                else (Some \<lparr>bs_fd = oe_open E, bs_mapsize = mapsize, bs_driver = d, bs_log = []\<rparr>,
                      r2\<lparr>res_maps := oe_open E # res_maps r2\<rparr>))"

definition binder_close :: "'d binder_state \<Rightarrow> resources \<Rightarrow> resources" where
  "binder_close bs r =
     (let r1 = r\<lparr>res_maps := removeAll (bs_fd bs) (res_maps r)\<rparr>; r2 = sys_close (bs_fd bs) r1
      in r2\<lparr>res_heap := res_heap r2 - 1\<rparr>)"

section \<open>Writing commands\<close>

definition binder_write ::
    "'d driver \<Rightarrow> ('d, 'x) binder_state_scheme \<Rightarrow> bc list \<Rightarrow> int \<times> ('d, 'x) binder_state_scheme" where
  "binder_write D bs cmds =
     (case drv_ioctl D (bs_driver bs) cmds 0 of (res, _, _, d) \<Rightarrow>
        (res, bs\<lparr>bs_driver := d, bs_log := bs_log bs @ cmds\<rparr>))"

definition binder_free_buffer ::
    "'d driver \<Rightarrow> ('d, 'x) binder_state_scheme \<Rightarrow> u64 \<Rightarrow> ('d, 'x) binder_state_scheme" where
  "binder_free_buffer D bs buffer_to_free = snd (binder_write D bs [BC_FREE_BUFFER buffer_to_free])"

definition binder_send_reply ::
    "uapi \<Rightarrow> 'd driver \<Rightarrow> ('d, 'x) binder_state_scheme \<Rightarrow> 's::len binder_io \<Rightarrow> u64 \<Rightarrow> int
       \<Rightarrow> ('d, 'x) binder_state_scheme" where
  "binder_send_reply U D bs reply buffer_to_free status =
     (let txn =
        (if status \<noteq> 0 then
           \<lparr>ot_target = 0, ot_code = 0, ot_flags = tf_status_code U,
            ot_data = le32 (word_of_int status), ot_offs = []\<rparr>
         else
           \<lparr>ot_target = 0, ot_code = 0, ot_flags = 0, ot_data = wdata reply, ot_offs = woffs reply\<rparr>)
      in snd (binder_write D bs [BC_FREE_BUFFER buffer_to_free, BC_REPLY txn]))"

definition binder_acquire ::
    "'d driver \<Rightarrow> ('d, 'x) binder_state_scheme \<Rightarrow> u32 \<Rightarrow> ('d, 'x) binder_state_scheme" where
  "binder_acquire D bs target = snd (binder_write D bs [BC_ACQUIRE target])"

definition binder_release ::
    "'d driver \<Rightarrow> ('d, 'x) binder_state_scheme \<Rightarrow> u32 \<Rightarrow> ('d, 'x) binder_state_scheme" where
  "binder_release D bs target = snd (binder_write D bs [BC_RELEASE target])"

definition binder_link_to_death ::
    "'d driver \<Rightarrow> ('d, 'x) binder_state_scheme \<Rightarrow> u32 \<Rightarrow> u64 \<Rightarrow> ('d, 'x) binder_state_scheme" where
  "binder_link_to_death D bs target death =
     snd (binder_write D bs [BC_REQUEST_DEATH_NOTIFICATION target death])"

definition binder_done ::
    "'d driver \<Rightarrow> ('d, 'x) binder_state_scheme \<Rightarrow> 's::len binder_io
       \<Rightarrow> ('d, 'x) binder_state_scheme \<times> 's binder_io" where
  "binder_done D bs reply =
     (if bio_flags reply AND BIO_F_SHARED \<noteq> 0 then
        (snd (binder_write D bs [BC_FREE_BUFFER (of_nat (bio_data0 reply))]), reply\<lparr>bio_flags := 0\<rparr>)
      else (bs, reply))"

section \<open>Parsing what the driver returns\<close>

text \<open>
  A handler gets the transaction, the message and a fresh reply buffer; it returns its status,
  the reply and the state. Death callbacks are called with the cookie that was registered.
\<close>

type_synonym ('s, 'st) handler =
  "txn \<Rightarrow> 's binder_io \<Rightarrow> 's binder_io \<Rightarrow> 'st \<Rightarrow> (int \<times> 's binder_io \<times> 'st) cres"

text \<open>
  The state of the parser loop: the read position, the process state, the cursor that a reply is
  stored to (none once it has been filled, or when the caller has none), the value to return.
\<close>

record (overloaded) ('s, 'st) pstate =
  ps_ptr :: nat
  ps_st :: 'st
  ps_bio :: "'s::len binder_io"
  ps_has_bio :: bool
  ps_r :: int

datatype 'a pstep = Next 'a | Stop int 'a

definition too_small :: "nat \<Rightarrow> nat \<Rightarrow> nat \<Rightarrow> bool" where
  \<comment> \<open>\<open>(end - ptr) < size\<close> on \<open>uintptr_t\<close>, where the difference may wrap\<close>
  "too_small endp ptr sz \<longleftrightarrow> (of_nat endp - of_nat ptr :: u64) < of_nat sz"

definition parse_transaction ::
    "uapi \<Rightarrow> 'd driver \<Rightarrow> ('s::len, ('d, 'x) binder_state_scheme) handler \<Rightarrow> bytes \<Rightarrow> txn
       \<Rightarrow> ('d, 'x) binder_state_scheme \<Rightarrow> ('d, 'x) binder_state_scheme cres" where
  "parse_transaction U D func rdata txn bs =
     (let reply = bio_init bio_zero rdata 256 4;
          msg = bio_init_from_txn (drv_mem D (bs_driver bs)) txn
      in cbind (func txn msg reply bs) (\<lambda>(res, reply', bs').
           Ret (if t_flags txn AND tf_one_way U \<noteq> 0 then binder_free_buffer D bs' (t_buffer txn)
                else binder_send_reply U D bs' reply' (t_buffer txn) res)))"

definition parse_step ::
    "uapi \<Rightarrow> 'd driver \<Rightarrow> ('s::len, ('d, 'x) binder_state_scheme) handler option
       \<Rightarrow> (u64 \<Rightarrow> ('d, 'x) binder_state_scheme \<Rightarrow> ('d, 'x) binder_state_scheme cres) \<Rightarrow> bytes
       \<Rightarrow> bytes \<Rightarrow> nat \<Rightarrow> ('s, ('d, 'x) binder_state_scheme) pstate
       \<Rightarrow> ('s, ('d, 'x) binder_state_scheme) pstate pstep cres" where
  "parse_step U D func death rdata buf endp ps =
     cbind (of_mem (load32 buf (ps_ptr ps))) (\<lambda>cmd.
       let ptr = ps_ptr ps + 4; ps1 = ps\<lparr>ps_ptr := ptr\<rparr>;
           get_txn = cbind (of_mem (load buf ptr (sizeof_txn U))) (\<lambda>bs. Ret (txn_of U bs))
       in case br_of U cmd of
         BR_NOOP \<Rightarrow> Ret (Next ps1)
       | BR_TRANSACTION_COMPLETE \<Rightarrow> Ret (Next ps1)
       | BR_INCREFS \<Rightarrow> Ret (Next (ps1\<lparr>ps_ptr := ptr + sizeof_ptr_cookie U\<rparr>))
       | BR_ACQUIRE \<Rightarrow> Ret (Next (ps1\<lparr>ps_ptr := ptr + sizeof_ptr_cookie U\<rparr>))
       | BR_RELEASE \<Rightarrow> Ret (Next (ps1\<lparr>ps_ptr := ptr + sizeof_ptr_cookie U\<rparr>))
       | BR_DECREFS \<Rightarrow> Ret (Next (ps1\<lparr>ps_ptr := ptr + sizeof_ptr_cookie U\<rparr>))
       | BR_TRANSACTION \<Rightarrow>
           if too_small endp ptr (sizeof_txn U) then Ret (Stop (-1) ps1)
           else cbind (case func of None \<Rightarrow> Ret (ps_st ps)
                | Some f \<Rightarrow> cbind get_txn (\<lambda>txn. parse_transaction U D f rdata txn (ps_st ps)))
             (\<lambda>st. Ret (Next (ps1\<lparr>ps_ptr := ptr + sizeof_txn U, ps_st := st\<rparr>)))
       | BR_REPLY \<Rightarrow>
           if too_small endp ptr (sizeof_txn U) then Ret (Stop (-1) ps1)
           else cbind (if ps_has_bio ps
                then cbind get_txn (\<lambda>txn. Ret (ps1\<lparr>ps_has_bio := False,
                       ps_bio := bio_init_from_txn (drv_mem D (bs_driver (ps_st ps))) txn\<rparr>))
                else Ret ps1)
             (\<lambda>ps2. Ret (Next (ps2\<lparr>ps_ptr := ptr + sizeof_txn U, ps_r := 0\<rparr>)))
       | BR_DEAD_BINDER \<Rightarrow>
           cbind (of_mem (load64 buf ptr)) (\<lambda>cookie.
             cbind (death cookie (ps_st ps)) (\<lambda>st.
               Ret (Next (ps1\<lparr>ps_ptr := ptr + 8, ps_st := st\<rparr>))))
       | BR_FAILED_REPLY \<Rightarrow> Ret (Next (ps1\<lparr>ps_r := -1\<rparr>))
       | BR_DEAD_REPLY \<Rightarrow> Ret (Next (ps1\<lparr>ps_r := -1\<rparr>))
       | _ \<Rightarrow> Ret (Stop (-1) ps1))"

lemma parse_step_progress:
  "parse_step U D func death rdata buf endp ps = Ret (Next ps') \<Longrightarrow> ps_ptr ps < ps_ptr ps'"
proof -
  assume "parse_step U D func death rdata buf endp ps = Ret (Next ps')"
  then obtain cmd where "load32 buf (ps_ptr ps) = Some cmd"
    and s: "parse_step U D func death rdata buf endp ps = Ret (Next ps')"
    by (auto simp: parse_step_def cbind_Ret_iff)
  then show ?thesis
    by (cases "br_of U cmd") (auto simp: parse_step_def Let_def cbind_Ret_iff split: if_splits)
qed

function binder_parse ::
    "uapi \<Rightarrow> 'd driver \<Rightarrow> ('s::len, ('d, 'x) binder_state_scheme) handler option
       \<Rightarrow> (u64 \<Rightarrow> ('d, 'x) binder_state_scheme \<Rightarrow> ('d, 'x) binder_state_scheme cres) \<Rightarrow> bytes
       \<Rightarrow> bytes \<Rightarrow> nat \<Rightarrow> ('s, ('d, 'x) binder_state_scheme) pstate
       \<Rightarrow> (int \<times> ('s, ('d, 'x) binder_state_scheme) pstate) cres" where
  "binder_parse U D func death rdata buf endp ps =
     (if ps_ptr ps < endp then
        cbind (parse_step U D func death rdata buf endp ps) (\<lambda>s.
          case s of Stop r ps' \<Rightarrow> Ret (r, ps')
          | Next ps' \<Rightarrow> binder_parse U D func death rdata buf endp ps')
      else Ret (ps_r ps, ps))"
  by pat_completeness auto
termination
  by (relation "measure (\<lambda>(U, D, func, death, rdata, buf, endp, ps). endp - ps_ptr ps)")
    (auto dest!: parse_step_progress)

declare binder_parse.simps [simp del]

section \<open>The blocking call\<close>

definition READBUF :: nat where
  \<comment> \<open>\<open>sizeof(readbuf)\<close>: 32 words\<close>
  "READBUF = 128"

definition io_failed :: "'s::len binder_io" where
  "io_failed = bio_zero\<lparr>bio_flags := BIO_F_IOERROR\<rparr>"

definition filled :: "bytes \<Rightarrow> bytes \<Rightarrow> bytes" where
  \<comment> \<open>the read buffer after the driver has stored to its start\<close>
  "filled rd stale = rd @ drop (length rd) stale"

definition call_txn :: "'s::len binder_io \<Rightarrow> u32 \<Rightarrow> u32 \<Rightarrow> out_txn" where
  "call_txn msg target code = \<lparr>ot_target = ucast target, ot_code = code, ot_flags = 0,
     ot_data = wdata msg, ot_offs = woffs msg\<rparr>"

partial_function (option) binder_call_loop ::
    "uapi \<Rightarrow> 'd driver
       \<Rightarrow> (u64 \<Rightarrow> ('d, 'x) binder_state_scheme \<Rightarrow> ('d, 'x) binder_state_scheme cres)
       \<Rightarrow> bytes \<Rightarrow> ('d, 'x) binder_state_scheme \<Rightarrow> bc list \<Rightarrow> 's::len binder_io
       \<Rightarrow> (int \<times> ('d, 'x) binder_state_scheme \<times> 's binder_io) cres option" where
  "binder_call_loop U D death stale bs pending reply =
     (case drv_ioctl D (bs_driver bs) pending READBUF of (res, n, rd, d) \<Rightarrow>
        let bs1 = bs\<lparr>bs_driver := d\<rparr>; buf = filled rd stale in
        if res < 0 then Some (Ret (-1, bs1, io_failed))
        else
          case binder_parse U D None death [] buf (length rd)
              \<lparr>ps_ptr = 0, ps_st = bs1, ps_bio = reply, ps_has_bio = True, ps_r = 1\<rparr> of
            Abort \<Rightarrow> Some Abort
          | Oob \<Rightarrow> Some Oob
          | Ret (r, ps) \<Rightarrow>
              if r = 0 then Some (Ret (0, ps_st ps, ps_bio ps))
              else if r < 0 then Some (Ret (-1, ps_st ps, io_failed))
              else binder_call_loop U D death buf (ps_st ps) (drop n pending) (ps_bio ps))"

definition binder_call ::
    "uapi \<Rightarrow> 'd driver
       \<Rightarrow> (u64 \<Rightarrow> ('d, 'x) binder_state_scheme \<Rightarrow> ('d, 'x) binder_state_scheme cres)
       \<Rightarrow> bytes \<Rightarrow> ('d, 'x) binder_state_scheme \<Rightarrow> 's::len binder_io \<Rightarrow> 's binder_io \<Rightarrow> u32 \<Rightarrow> u32
       \<Rightarrow> (int \<times> ('d, 'x) binder_state_scheme \<times> 's binder_io) cres option" where
  "binder_call U D death stale bs msg reply target code =
     (if bio_flags msg AND BIO_F_OVERFLOW \<noteq> 0 then Some (Ret (-1, bs, io_failed))
      else let cmds = [BC_TRANSACTION (call_txn msg target code)]
           in binder_call_loop U D death stale (bs\<lparr>bs_log := bs_log bs @ cmds\<rparr>) cmds reply)"

section \<open>The server loop\<close>

definition loop_iter ::
    "uapi \<Rightarrow> 'd driver \<Rightarrow> ('s::len, ('d, 'x) binder_state_scheme) handler
       \<Rightarrow> (u64 \<Rightarrow> ('d, 'x) binder_state_scheme \<Rightarrow> ('d, 'x) binder_state_scheme cres) \<Rightarrow> bytes
       \<Rightarrow> bytes \<Rightarrow> ('d, 'x) binder_state_scheme
       \<Rightarrow> (bool \<times> bytes \<times> ('d, 'x) binder_state_scheme) cres" where
  \<comment> \<open>one round: does the loop go on, the read buffer, the state\<close>
  "loop_iter U D func death rdata stale bs =
     (case drv_ioctl D (bs_driver bs) [] READBUF of (res, n, rd, d) \<Rightarrow>
        let bs1 = bs\<lparr>bs_driver := d\<rparr>; buf = filled rd stale in
        if res < 0 then Ret (False, buf, bs1)
        else cbind (binder_parse U D (Some func) death rdata buf (length rd)
              \<lparr>ps_ptr = 0, ps_st = bs1, ps_bio = bio_zero, ps_has_bio = False, ps_r = 1\<rparr>)
           (\<lambda>(r, ps). Ret (\<not> (r = 0 \<or> r < 0), buf, ps_st ps)))"

partial_function (option) loop_rounds ::
    "uapi \<Rightarrow> 'd driver \<Rightarrow> ('s::len, ('d, 'x) binder_state_scheme) handler
       \<Rightarrow> (u64 \<Rightarrow> ('d, 'x) binder_state_scheme \<Rightarrow> ('d, 'x) binder_state_scheme cres) \<Rightarrow> bytes
       \<Rightarrow> bytes \<Rightarrow> ('d, 'x) binder_state_scheme \<Rightarrow> ('d, 'x) binder_state_scheme cres option" where
  "loop_rounds U D func death rdata stale bs =
     (case loop_iter U D func death rdata stale bs of
        Abort \<Rightarrow> Some Abort
      | Oob \<Rightarrow> Some Oob
      | Ret (go, buf, bs') \<Rightarrow>
          if go then loop_rounds U D func death rdata buf bs' else Some (Ret bs'))"

definition binder_loop ::
    "uapi \<Rightarrow> 'd driver \<Rightarrow> ('s::len, ('d, 'x) binder_state_scheme) handler
       \<Rightarrow> (u64 \<Rightarrow> ('d, 'x) binder_state_scheme \<Rightarrow> ('d, 'x) binder_state_scheme cres) \<Rightarrow> bytes
       \<Rightarrow> bytes \<Rightarrow> ('d, 'x) binder_state_scheme \<Rightarrow> ('d, 'x) binder_state_scheme cres option" where
  "binder_loop U D func death rdata stale bs =
     loop_rounds U D func death rdata stale (snd (binder_write D bs [BC_ENTER_LOOPER]))"

text \<open>The states at the start of each round of a server that has entered its loop.\<close>

inductive loop_reach ::
    "uapi \<Rightarrow> 'd driver \<Rightarrow> ('s::len, ('d, 'x) binder_state_scheme) handler
       \<Rightarrow> (u64 \<Rightarrow> ('d, 'x) binder_state_scheme \<Rightarrow> ('d, 'x) binder_state_scheme cres) \<Rightarrow> bytes
       \<Rightarrow> ('d, 'x) binder_state_scheme \<Rightarrow> bytes \<Rightarrow> ('d, 'x) binder_state_scheme \<Rightarrow> bool"
  for U D func death rdata bs0 where
    enter: "loop_reach U D func death rdata bs0 stale (snd (binder_write D bs0 [BC_ENTER_LOOPER]))"
  | round: "loop_reach U D func death rdata bs0 stale bs \<Longrightarrow>
       loop_iter U D func death rdata stale bs = Ret (True, stale', bs') \<Longrightarrow>
       loop_reach U D func death rdata bs0 stale' bs'"

section \<open>What a service must keep\<close>

text \<open>
  The interface between the parser and a service: the handler and the death callbacks keep an
  invariant of the process state that does not depend on the driver. Everything the parser and
  the loop do keeps it then.
\<close>

locale txn_service =
  fixes U :: uapi
    and D :: "'d driver"
    and func :: "('s::len, ('d, 'x) binder_state_scheme) handler"
    and death :: "u64 \<Rightarrow> ('d, 'x) binder_state_scheme \<Rightarrow> ('d, 'x) binder_state_scheme cres"
    and I :: "('d, 'x) binder_state_scheme \<Rightarrow> bool"
  assumes handler_keeps: "I bs \<Longrightarrow> func txn msg reply bs = Ret (res, reply', bs') \<Longrightarrow> I bs'"
    and death_keeps: "I bs \<Longrightarrow> death c bs = Ret bs' \<Longrightarrow> I bs'"
    and driver_keeps: "I bs \<Longrightarrow> I (bs\<lparr>bs_driver := d\<rparr>)"
    and write_keeps: "I bs \<Longrightarrow> cmd \<in> {BC_FREE_BUFFER b, BC_REPLY t, BC_ENTER_LOOPER} \<Longrightarrow>
      I (bs\<lparr>bs_log := bs_log bs @ [cmd]\<rparr>)"
begin

lemma write_one_keeps:
  assumes "I bs" and "cmd \<in> {BC_FREE_BUFFER b, BC_REPLY t, BC_ENTER_LOOPER}"
  shows "I (snd (binder_write D bs [cmd]))"
proof -
  obtain r n rd d where "drv_ioctl D (bs_driver bs) [cmd] 0 = (r, n, rd, d)"
    by (cases "drv_ioctl D (bs_driver bs) [cmd] 0") auto
  then show ?thesis
    using write_keeps [OF driver_keeps [OF assms(1), of d] assms(2)] by (simp add: binder_write_def)
qed

lemma send_reply_keeps: "I bs \<Longrightarrow> I (binder_send_reply U D bs reply b st)"
proof -
  assume I: "I bs"
  obtain t where t: "binder_send_reply U D bs reply b st = snd (binder_write D bs [BC_FREE_BUFFER b, BC_REPLY t])"
    by (auto simp: binder_send_reply_def Let_def split: if_splits)
  obtain r n rd d where "drv_ioctl D (bs_driver bs) [BC_FREE_BUFFER b, BC_REPLY t] 0 = (r, n, rd, d)"
    by (cases "drv_ioctl D (bs_driver bs) [BC_FREE_BUFFER b, BC_REPLY t] 0") auto
  moreover have "I (bs\<lparr>bs_driver := d, bs_log := bs_log bs @ [BC_FREE_BUFFER b]\<rparr>)"
    using write_keeps [OF driver_keeps [OF I, of d], of "BC_FREE_BUFFER b"] by simp
  from write_keeps [OF this, of "BC_REPLY t"]
  have "I (bs\<lparr>bs_driver := d, bs_log := bs_log bs @ [BC_FREE_BUFFER b, BC_REPLY t]\<rparr>)" by simp
  ultimately show ?thesis by (simp add: t binder_write_def)
qed

lemma transaction_keeps:
  "I bs \<Longrightarrow> parse_transaction U D func rdata txn bs = Ret bs' \<Longrightarrow> I bs'"
  unfolding parse_transaction_def Let_def cbind_Ret_iff
  by (auto simp: binder_free_buffer_def intro: send_reply_keeps write_one_keeps dest: handler_keeps
      split: if_splits)

lemma step_keeps:
  assumes "I (ps_st ps)" and s: "parse_step U D (Some func) death rdata buf endp ps = Ret s"
  shows "case s of Next ps' \<Rightarrow> I (ps_st ps') | Stop r ps' \<Rightarrow> I (ps_st ps')"
proof -
  obtain cmd where "load32 buf (ps_ptr ps) = Some cmd"
    using s by (auto simp: parse_step_def cbind_Ret_iff)
  then show ?thesis
    using assms
    by (cases "br_of U cmd")
      (auto simp: parse_step_def Let_def cbind_Ret_iff dest: transaction_keeps death_keeps split: if_splits)
qed

lemma parse_keeps:
  "binder_parse U D (Some func) death rdata buf endp ps = Ret (r, ps') \<Longrightarrow> I (ps_st ps) \<Longrightarrow> I (ps_st ps')"
proof (induction "endp - ps_ptr ps" arbitrary: ps rule: less_induct)
  case less
  show ?case
  proof (cases "ps_ptr ps < endp")
    case True
    then obtain s where s: "parse_step U D (Some func) death rdata buf endp ps = Ret s"
      and e: "(case s of Stop r ps' \<Rightarrow> Ret (r, ps')
          | Next ps' \<Rightarrow> binder_parse U D (Some func) death rdata buf endp ps') = Ret (r, ps')"
      using less.prems(1) by (subst (asm) binder_parse.simps) (auto simp: cbind_Ret_iff)
    note k = step_keeps [OF less.prems(2) s]
    show ?thesis
    proof (cases s)
      case (Next ps1)
      then have "ps_ptr ps < ps_ptr ps1" using s parse_step_progress by blast
      then show ?thesis using less.hyps [of ps1] Next e k True by simp
    qed (use e k in simp)
  next
    case False
    then show ?thesis using less.prems by (subst (asm) binder_parse.simps) simp
  qed
qed

lemma iter_keeps:
  "I bs \<Longrightarrow> loop_iter U D func death rdata stale bs = Ret (go, buf, bs') \<Longrightarrow> I bs'"
  by (auto simp: loop_iter_def Let_def cbind_Ret_iff split: prod.splits if_splits
      intro: driver_keeps dest!: parse_keeps)

lemma rounds_keeps:
  assumes r: "loop_rounds U D func death rdata stale bs = Some out"
  shows "out = Ret bs' \<Longrightarrow> I bs \<Longrightarrow> I bs'"
proof -
  have "(U = U \<and> D = D \<and> func = func \<and> death = death) \<longrightarrow> I bs \<longrightarrow> (\<forall>bs'. out = Ret bs' \<longrightarrow> I bs')"
  proof (rule loop_rounds.raw_induct [where P = "\<lambda>U' D' func' death' rdata' stale bs out.
      (U' = U \<and> D' = D \<and> func' = func \<and> death' = death) \<longrightarrow> I bs \<longrightarrow> (\<forall>bs'. out = Ret bs' \<longrightarrow> I bs')", OF _ r])
    fix loop U' D' func' death' rdata' stale bs out
    assume IH: "\<And>U' D' func' death' rdata' stale bs out. loop U' D' func' death' rdata' stale bs = Some out \<Longrightarrow>
        (U' = U \<and> D' = D \<and> func' = func \<and> death' = death) \<longrightarrow> I bs \<longrightarrow> (\<forall>bs'. out = Ret bs' \<longrightarrow> I bs')"
      and eq: "(case loop_iter U' D' func' death' rdata' stale bs of
          Ret (go, buf, bs') \<Rightarrow>
            if go then loop U' D' func' death' rdata' buf bs' else Some (Ret bs')
        | Abort \<Rightarrow> Some Abort | Oob \<Rightarrow> Some Oob) = Some out"
    show "(U' = U \<and> D' = D \<and> func' = func \<and> death' = death) \<longrightarrow> I bs \<longrightarrow> (\<forall>bs'. out = Ret bs' \<longrightarrow> I bs')"
    proof (intro impI)
      assume same: "U' = U \<and> D' = D \<and> func' = func \<and> death' = death" and i: "I bs"
      show "\<forall>bs'. out = Ret bs' \<longrightarrow> I bs'"
      proof (cases "loop_iter U D func death rdata' stale bs")
        case (Ret x)
        obtain go buf b1 where x: "x = (go, buf, b1)" by (cases x)
        have "I b1" using iter_keeps [OF i] Ret x by simp
        then show ?thesis using eq same Ret x IH by (auto split: if_splits)
      qed (use eq same in auto)
    qed
  qed
  then show "out = Ret bs' \<Longrightarrow> I bs \<Longrightarrow> I bs'" by simp
qed

lemma reach_keeps: "loop_reach U D func death rdata bs0 stale bs \<Longrightarrow> I bs0 \<Longrightarrow> I bs"
  by (induction rule: loop_reach.induct) (auto intro: write_one_keeps iter_keeps)

end

section \<open>Command streams\<close>

text \<open>
  The stream a server reads, as a list of commands, and what serving it means: each transaction is
  handled and answered, each death notice is passed on, in order; a command that the parser does
  not know ends the round.
\<close>

datatype frame =
    F_noop | F_ref | F_txn txn | F_reply txn | F_dead u64 | F_failed | F_other

fun frame_enc :: "uapi \<Rightarrow> frame \<Rightarrow> bytes \<Rightarrow> bool" where
  "frame_enc U F_noop bs \<longleftrightarrow> (\<exists>c. bs = le32 c \<and> br_of U c \<in> {BR_NOOP, BR_TRANSACTION_COMPLETE})"
| "frame_enc U F_ref bs \<longleftrightarrow> (\<exists>c pl. bs = le32 c @ pl \<and> length pl = sizeof_ptr_cookie U \<and>
     br_of U c \<in> {BR_INCREFS, BR_ACQUIRE, BR_RELEASE, BR_DECREFS})"
| "frame_enc U (F_txn t) bs \<longleftrightarrow> (\<exists>c pl. bs = le32 c @ pl \<and> length pl = sizeof_txn U \<and>
     txn_of U pl = t \<and> br_of U c = BR_TRANSACTION)"
| "frame_enc U (F_reply t) bs \<longleftrightarrow> (\<exists>c pl. bs = le32 c @ pl \<and> length pl = sizeof_txn U \<and>
     txn_of U pl = t \<and> br_of U c = BR_REPLY)"
| "frame_enc U (F_dead k) bs \<longleftrightarrow> (\<exists>c. bs = le32 c @ le64 k \<and> br_of U c = BR_DEAD_BINDER)"
| "frame_enc U F_failed bs \<longleftrightarrow> (\<exists>c. bs = le32 c \<and> br_of U c \<in> {BR_FAILED_REPLY, BR_DEAD_REPLY})"
| "frame_enc U F_other bs \<longleftrightarrow> (\<exists>c. bs = le32 c \<and> br_of U c \<notin>
     {BR_NOOP, BR_TRANSACTION_COMPLETE, BR_INCREFS, BR_ACQUIRE, BR_RELEASE, BR_DECREFS,
      BR_TRANSACTION, BR_REPLY, BR_DEAD_BINDER, BR_FAILED_REPLY, BR_DEAD_REPLY})"

fun serve ::
    "uapi \<Rightarrow> 'd driver \<Rightarrow> ('s::len, ('d, 'x) binder_state_scheme) handler
       \<Rightarrow> (u64 \<Rightarrow> ('d, 'x) binder_state_scheme \<Rightarrow> ('d, 'x) binder_state_scheme cres) \<Rightarrow> bytes
       \<Rightarrow> frame list \<Rightarrow> int \<Rightarrow> ('d, 'x) binder_state_scheme \<Rightarrow> (int \<times> ('d, 'x) binder_state_scheme) cres" where
  "serve U D func death rdata [] r bs = Ret (r, bs)"
| "serve U D func death rdata (F_noop # fs) r bs = serve U D func death rdata fs r bs"
| "serve U D func death rdata (F_ref # fs) r bs = serve U D func death rdata fs r bs"
| "serve U D func death rdata (F_txn t # fs) r bs =
     cbind (parse_transaction U D func rdata t bs) (serve U D func death rdata fs r)"
| "serve U D func death rdata (F_reply t # fs) r bs = serve U D func death rdata fs 0 bs"
| "serve U D func death rdata (F_dead k # fs) r bs =
     cbind (death k bs) (serve U D func death rdata fs r)"
| "serve U D func death rdata (F_failed # fs) r bs = serve U D func death rdata fs (-1) bs"
| "serve U D func death rdata (F_other # fs) r bs = Ret (-1, bs)"

lemma load_frame:
  assumes "buf = pre @ a @ b @ suf" and "p = length pre + length a"
  shows "load buf p (length b) = Some b"
  using assms by (simp add: load_def)

lemma load32_frame: "buf = pre @ (le32 c @ pl) @ suf \<Longrightarrow> load32 buf (length pre) = Some c"
  using load_frame [of buf pre "[]" "le32 c" "pl @ suf" "length pre"] by (simp add: load32_def)

lemma load_payload:
  "buf = pre @ (le32 c @ pl) @ suf \<Longrightarrow> load buf (length pre + 4) (length pl) = Some pl"
  using load_frame [of buf pre "le32 c" pl suf "length pre + 4"] by simp

lemma not_too_small:
  assumes "p + sz \<le> endp" and "endp < 2 ^ 64"
  shows "\<not> too_small endp p sz"
proof -
  have "(of_nat endp - of_nat p :: u64) = of_nat (endp - p)" using assms by (simp add: of_nat_diff)
  moreover have "unat (of_nat (endp - p) :: u64) = endp - p" and "unat (of_nat sz :: u64) = sz"
    using assms by (simp_all add: unat_of_nat del: of_nat_diff)
  ultimately show ?thesis using assms by (simp add: too_small_def word_less_nat_alt del: of_nat_diff)
qed

text \<open>One step of the parser on one command of a stream.\<close>

lemma parse_step_frame:
  assumes enc: "frame_enc U f bs" and buf: "buf = pre @ bs @ suf"
    and p: "ps_ptr ps = length pre" and nb: "\<not> ps_has_bio ps"
    and endp: "length pre + length bs \<le> endp" "endp < 2 ^ 64"
  defines "nxt \<equiv> (\<lambda>st r. Next (ps\<lparr>ps_ptr := length pre + length bs, ps_st := st, ps_r := r\<rparr>))"
  shows "parse_step U D (Some func) death rdata buf endp ps =
    (case f of F_noop \<Rightarrow> Ret (nxt (ps_st ps) (ps_r ps)) | F_ref \<Rightarrow> Ret (nxt (ps_st ps) (ps_r ps))
     | F_txn t \<Rightarrow> cbind (parse_transaction U D func rdata t (ps_st ps)) (\<lambda>st. Ret (nxt st (ps_r ps)))
     | F_reply t \<Rightarrow> Ret (nxt (ps_st ps) 0)
     | F_dead k \<Rightarrow> cbind (death k (ps_st ps)) (\<lambda>st. Ret (nxt st (ps_r ps)))
     | F_failed \<Rightarrow> Ret (nxt (ps_st ps) (-1))
     | F_other \<Rightarrow> Ret (Stop (-1) (ps\<lparr>ps_ptr := length pre + 4\<rparr>)))"
proof -
  obtain c pl where bs: "bs = le32 c @ pl" using enc by (cases f) auto
  note ld = load32_frame [OF buf [unfolded bs]] and pay = load_payload [OF buf [unfolded bs]]
  have small: "length pl = sizeof_txn U \<Longrightarrow> \<not> too_small endp (length pre + 4) (sizeof_txn U)"
    using endp bs by (intro not_too_small) auto
  show ?thesis
  proof (cases f)
    case F_other
    then show ?thesis using enc ld bs p
      by (cases "br_of U c") (auto simp: parse_step_def)
  qed (use enc ld bs p nb pay small in
      \<open>auto simp: parse_step_def nxt_def load64_def Let_def add.commute add.left_commute\<close>)
qed

text \<open>
  C17. The server side of \<open>binder_parse\<close> on a well-formed buffer, whatever precedes and
  follows the commands in the buffer: every command is consumed in order, each transaction is
  handled and answered once, each death notice calls its callback, and the value returned says
  whether a reply or a failure was seen.
\<close>

theorem binder_parse_serves:
  assumes enc: "list_all2 (frame_enc U) fs bss"
    and sz: "length pre + length (concat bss) < 2 ^ 64"
  shows "cbind (binder_parse U D (Some func) death rdata (pre @ concat bss @ suf)
            (length pre + length (concat bss))
            \<lparr>ps_ptr = length pre, ps_st = bs, ps_bio = b, ps_has_bio = False, ps_r = r\<rparr>)
          (\<lambda>(r, ps). Ret (r, ps_st ps)) = serve U D func death rdata fs r bs"
  using assms
proof (induction fs arbitrary: bss pre bs r)
  case Nil
  then show ?case by (simp add: binder_parse.simps)
next
  case (Cons f fs)
  from Cons.prems(1) obtain e bss' where bss: "bss = e # bss'" and e: "frame_enc U f e"
    and enc': "list_all2 (frame_enc U) fs bss'"
    by (auto simp: list_all2_Cons1)
  let ?endp = "length pre + length (concat bss)" and ?buf = "pre @ concat bss @ suf"
  let ?ps = "\<lambda>p st r. \<lparr>ps_ptr = p, ps_st = st, ps_bio = b, ps_has_bio = False, ps_r = r\<rparr>"
  let ?parse = "binder_parse U D (Some func) death rdata ?buf ?endp"
  have step: "parse_step U D (Some func) death rdata ?buf ?endp (?ps (length pre) bs r) =
    (case f of F_noop \<Rightarrow> Ret (Next (?ps (length pre + length e) bs r))
     | F_ref \<Rightarrow> Ret (Next (?ps (length pre + length e) bs r))
     | F_txn t \<Rightarrow> cbind (parse_transaction U D func rdata t bs)
         (\<lambda>st. Ret (Next (?ps (length pre + length e) st r)))
     | F_reply t \<Rightarrow> Ret (Next (?ps (length pre + length e) bs 0))
     | F_dead k \<Rightarrow> cbind (death k bs) (\<lambda>st. Ret (Next (?ps (length pre + length e) st r)))
     | F_failed \<Rightarrow> Ret (Next (?ps (length pre + length e) bs (-1)))
     | F_other \<Rightarrow> Ret (Stop (-1) (?ps (length pre + 4) bs r)))"
    using parse_step_frame [OF e, of ?buf pre "concat bss' @ suf" "?ps (length pre) bs r" ?endp D func death rdata]
      bss Cons.prems(2) by (simp split: frame.splits)
  have pos: "length pre < ?endp"
    using e bss by (cases f) auto
  have rec: "cbind (?parse (?ps (length pre + length e) st r')) (\<lambda>(r, ps). Ret (r, ps_st ps))
      = serve U D func death rdata fs r' st" for st r'
    using Cons.IH [OF enc', of "pre @ e" st r'] bss Cons.prems(2) by (simp add: add.assoc)
  have unf: "?parse (?ps (length pre) bs r) =
      cbind (parse_step U D (Some func) death rdata ?buf ?endp (?ps (length pre) bs r))
        (\<lambda>s. case s of Stop r ps' \<Rightarrow> Ret (r, ps') | Next ps' \<Rightarrow> ?parse ps')"
    using pos by (subst binder_parse.simps) simp
  show ?case
    unfolding unf cbind_assoc step
    by (cases f) (simp_all add: cbind_assoc rec)
qed

text \<open>
  A transaction or reply command whose structure is cut short by the end of the buffer ends
  the round with an error before the handler sees it, provided the command word itself is complete.
\<close>

theorem binder_parse_truncated:
  assumes "load32 buf p = Some c" and "br_of U c = BR_TRANSACTION \<or> br_of U c = BR_REPLY"
    and "p + 4 \<le> endp" and "endp < p + 4 + sizeof_txn U" and "sizeof_txn U < 2 ^ 32" "endp < 2 ^ 64"
  shows "\<exists>ps'. binder_parse U D func death rdata buf endp
      \<lparr>ps_ptr = p, ps_st = bs, ps_bio = b, ps_has_bio = h, ps_r = r\<rparr> = Ret (-1, ps') \<and> ps_st ps' = bs \<and>
      ps_bio ps' = b"
proof -
  have "(of_nat endp - of_nat (p + 4) :: u64) = of_nat (endp - (p + 4))"
    using assms(3) by (simp add: of_nat_diff)
  moreover have "unat (of_nat (endp - (p + 4)) :: u64) = endp - (p + 4)"
    "unat (of_nat (sizeof_txn U) :: u64) = sizeof_txn U"
    using assms(5,6) by (simp_all add: unat_of_nat del: of_nat_diff)
  ultimately have "too_small endp (p + 4) (sizeof_txn U)"
    using assms(3,4) unfolding too_small_def word_less_nat_alt by simp
  then show ?thesis
    using assms(1-3) by (subst binder_parse.simps) (auto simp: parse_step_def)
qed

text \<open>
  The size check does not cover a command word that itself crosses the end of what was read:
  the unsigned difference wraps, the check passes, and the handler is run on bytes that lie
  beyond the end.
\<close>

theorem binder_parse_wrapped_check:
  assumes "p < endp" "endp < p + 4" "p + 4 < 2 ^ 63" "sizeof_txn U < 2 ^ 63"
    and "load32 buf p = Some c" "br_of U c = BR_TRANSACTION" "load buf (p + 4) (sizeof_txn U) = Some tb"
  shows "parse_step U D (Some func) death rdata buf endp
      \<lparr>ps_ptr = p, ps_st = bs, ps_bio = b, ps_has_bio = h, ps_r = r\<rparr> =
    cbind (parse_transaction U D func rdata (txn_of U tb) bs)
      (\<lambda>st. Ret (Next \<lparr>ps_ptr = p + 4 + sizeof_txn U, ps_st = st, ps_bio = b, ps_has_bio = h, ps_r = r\<rparr>))"
proof -
  have e1: "(of_nat endp - of_nat (p + 4) :: u64) = - of_nat (p + 4 - endp)"
    using assms(2) by (simp add: of_nat_diff)
  have n: "0 < p + 4 - endp" "p + 4 - endp < 2 ^ 63" using assms(2,3) by auto
  then have e2: "(- of_nat (p + 4 - endp) :: u64) = of_nat (2 ^ 64 - (p + 4 - endp))"
    by (subst of_nat_diff) simp_all
  have un: "unat (of_nat (2 ^ 64 - (p + 4 - endp)) :: u64) = 2 ^ 64 - (p + 4 - endp)"
    using n by (subst unat_of_nat) simp
  have sz: "unat (of_nat (sizeof_txn U) :: u64) = sizeof_txn U"
    using assms(4) by (simp add: unat_of_nat)
  have "\<not> too_small endp (p + 4) (sizeof_txn U)"
    unfolding too_small_def word_less_nat_alt e1 e2 un sz using n assms(4) by simp
  then show ?thesis using assms(5-7) by (simp add: parse_step_def)
qed

section \<open>Buffers are given back\<close>

text \<open>
  A handler and its death callbacks leave the release of transaction buffers to the parser. Then
  serving a stream releases exactly the buffers of its transactions, each once and in order.
\<close>

definition is_free :: "bc \<Rightarrow> bool" where
  "is_free c = (case c of BC_FREE_BUFFER _ \<Rightarrow> True | _ \<Rightarrow> False)"

abbreviation frees :: "('d, 'x) binder_state_scheme \<Rightarrow> bc list" where
  "frees bs \<equiv> filter is_free (bs_log bs)"

fun txn_buffers :: "frame list \<Rightarrow> u64 list" where
  "txn_buffers [] = []"
| "txn_buffers (F_txn t # fs) = t_buffer t # txn_buffers fs"
| "txn_buffers (F_other # fs) = []"
| "txn_buffers (_ # fs) = txn_buffers fs"

lemma bs_log_write [simp]: "bs_log (snd (binder_write D bs cmds)) = bs_log bs @ cmds"
  by (simp add: binder_write_def split: prod.split)

lemma bs_log_ops [simp]:
  "bs_log (binder_free_buffer D bs b) = bs_log bs @ [BC_FREE_BUFFER b]"
  "bs_log (binder_acquire D bs h) = bs_log bs @ [BC_ACQUIRE h]"
  "bs_log (binder_release D bs h) = bs_log bs @ [BC_RELEASE h]"
  "bs_log (binder_link_to_death D bs h k) = bs_log bs @ [BC_REQUEST_DEATH_NOTIFICATION h k]"
  by (simp_all add: binder_free_buffer_def binder_acquire_def binder_release_def
      binder_link_to_death_def)

lemma bs_log_send_reply:
  "\<exists>t. bs_log (binder_send_reply U D bs reply b st) = bs_log bs @ [BC_FREE_BUFFER b, BC_REPLY t]"
  by (auto simp: binder_send_reply_def Let_def)

locale buffer_discipline =
  fixes func :: "('s::len, ('d, 'x) binder_state_scheme) handler"
    and death :: "u64 \<Rightarrow> ('d, 'x) binder_state_scheme \<Rightarrow> ('d, 'x) binder_state_scheme cres"
  assumes func_frees: "func txn msg reply bs = Ret (res, reply', bs') \<Longrightarrow> frees bs' = frees bs"
    and death_frees: "death c bs = Ret bs' \<Longrightarrow> frees bs' = frees bs"
begin

lemma transaction_frees:
  assumes "parse_transaction U D func rdata t bs = Ret bs'"
  shows "frees bs' = frees bs @ [BC_FREE_BUFFER (t_buffer t)]"
proof -
  obtain res reply' bs1 where f: "func t (bio_init_from_txn (drv_mem D (bs_driver bs)) t)
      (bio_init bio_zero rdata 256 4) bs = Ret (res, reply', bs1)"
    and e: "bs' = (if t_flags t AND tf_one_way U \<noteq> 0 then binder_free_buffer D bs1 (t_buffer t)
        else binder_send_reply U D bs1 reply' (t_buffer t) res)"
    using assms by (auto simp: parse_transaction_def cbind_Ret_iff)
  obtain rt where "bs_log (binder_send_reply U D bs1 reply' (t_buffer t) res)
      = bs_log bs1 @ [BC_FREE_BUFFER (t_buffer t), BC_REPLY rt]"
    using bs_log_send_reply by blast
  then show ?thesis using e func_frees [OF f] by (simp add: is_free_def)
qed

lemma serve_frees:
  "serve U D func death rdata fs r bs = Ret (r', bs') \<Longrightarrow>
   frees bs' = frees bs @ map BC_FREE_BUFFER (txn_buffers fs)"
proof (induction fs arbitrary: r bs)
  case (Cons f fs)
  then show ?case
    by (cases f) (auto simp: cbind_Ret_iff dest!: Cons.IH transaction_frees death_frees)
qed simp

end

section \<open>The outcome of a blocking call\<close>

text \<open>
  What the parser keeps for a caller that waits for a reply: once the value to return is zero the
  reply has been stored, and a stored reply is marked as a buffer to be given back.
\<close>

definition reply_inv :: "('s::len, 'st) pstate \<Rightarrow> bool" where
  "reply_inv ps \<longleftrightarrow> (ps_has_bio ps \<or> bio_flags (ps_bio ps) = BIO_F_SHARED) \<and>
     (ps_r ps = 0 \<longrightarrow> \<not> ps_has_bio ps)"

lemma parse_step_reply_inv:
  assumes "reply_inv ps" and s: "parse_step U D func death rdata buf endp ps = Ret s"
  shows "case s of Next ps' \<Rightarrow> reply_inv ps' | Stop r ps' \<Rightarrow> r = -1"
proof -
  obtain cmd where "load32 buf (ps_ptr ps) = Some cmd"
    using s by (auto simp: parse_step_def cbind_Ret_iff)
  then show ?thesis
    using assms
    by (cases "br_of U cmd")
      (auto simp: parse_step_def Let_def cbind_Ret_iff reply_inv_def bio_init_from_txn_def split: if_splits)
qed

lemma binder_parse_reply_inv:
  "binder_parse U D func death rdata buf endp ps = Ret (r, ps') \<Longrightarrow> reply_inv ps \<Longrightarrow> r = 0 \<Longrightarrow>
   bio_flags (ps_bio ps') = BIO_F_SHARED"
proof (induction "endp - ps_ptr ps" arbitrary: ps rule: less_induct)
  case less
  show ?case
  proof (cases "ps_ptr ps < endp")
    case True
    then obtain s where s: "parse_step U D func death rdata buf endp ps = Ret s"
      and e: "(case s of Stop r ps' \<Rightarrow> Ret (r, ps')
          | Next ps' \<Rightarrow> binder_parse U D func death rdata buf endp ps') = Ret (r, ps')"
      using less.prems(1) by (subst (asm) binder_parse.simps) (auto simp: cbind_Ret_iff)
    note k = parse_step_reply_inv [OF less.prems(2) s]
    show ?thesis
    proof (cases s)
      case (Next ps1)
      then have "ps_ptr ps < ps_ptr ps1" using s parse_step_progress by blast
      then show ?thesis using less.hyps [of ps1] Next e k True less.prems(3) by simp
    qed (use e k less.prems(3) in simp)
  next
    case False
    then show ?thesis using less.prems by (subst (asm) binder_parse.simps) (auto simp: reply_inv_def)
  qed
qed

lemma binder_call_loop_result:
  assumes "binder_call_loop U D death stale bs pending reply = Some (Ret (res, bs', reply'))"
  shows "(res = 0 \<and> bio_flags reply' = BIO_F_SHARED) \<or> (res = -1 \<and> reply' = io_failed)"
proof -
  let ?P = "\<lambda>stale bs pending reply out. \<forall>res bs' reply'. out = Ret (res, bs', reply') \<longrightarrow>
    (res = 0 \<and> bio_flags reply' = BIO_F_SHARED) \<or> (res = -1 \<and> reply' = io_failed)"
  have "?P stale bs pending reply (Ret (res, bs', reply'))"
  proof (rule binder_call_loop.raw_induct [where P = "\<lambda>U D death stale bs pending reply out.
      ?P stale bs pending reply out", OF _ assms])
    fix loop U D death stale and bs :: "('a, 'b) binder_state_scheme" and pending
      and reply :: "'c binder_io" and out
    assume IH: "\<And>U D death stale bs pending reply out.
        loop U D death stale bs pending reply = Some out \<Longrightarrow> ?P stale bs pending reply out"
      and eq: "(case drv_ioctl D (bs_driver bs) pending READBUF of (res, n, rd, d) \<Rightarrow>
        let bs1 = bs\<lparr>bs_driver := d\<rparr>; buf = filled rd stale in
        if res < 0 then Some (Ret (-1, bs1, io_failed))
        else
          case binder_parse U D None death [] buf (length rd)
              \<lparr>ps_ptr = 0, ps_st = bs1, ps_bio = reply, ps_has_bio = True, ps_r = 1\<rparr> of
            Ret (r, ps) \<Rightarrow>
              if r = 0 then Some (Ret (0, ps_st ps, ps_bio ps))
              else if r < 0 then Some (Ret (-1, ps_st ps, io_failed))
              else loop U D death buf (ps_st ps) (drop n pending) (ps_bio ps)
          | Abort \<Rightarrow> Some Abort
          | Oob \<Rightarrow> Some Oob) = Some out"
    obtain rs n rd d where d: "drv_ioctl D (bs_driver bs) pending READBUF = (rs, n, rd, d)"
      by (cases "drv_ioctl D (bs_driver bs) pending READBUF") auto
    let ?ps = "\<lparr>ps_ptr = 0, ps_st = bs\<lparr>bs_driver := d\<rparr>, ps_bio = reply, ps_has_bio = True, ps_r = 1\<rparr>"
    have "reply_inv ?ps" by (simp add: reply_inv_def)
    then show "?P stale bs pending reply out"
      using eq d IH
      by (auto simp: Let_def split: if_splits cres.splits prod.splits dest: binder_parse_reply_inv)
  qed
  then show ?thesis by blast
qed

text \<open>
  C18. A blocking call has two outcomes: it succeeds and the reply is a driver buffer that
  \<open>binder_done\<close> gives back, or it fails and the reply is marked as an I/O error, so that
  \<open>binder_done\<close> can safely be called and does nothing. A message that overflowed while it
  was written never reaches the driver.
\<close>

theorem binder_call_outcome:
  assumes "binder_call U D death stale bs msg reply target code = Some (Ret (res, bs', reply'))"
  shows "(res = 0 \<and> bs_log (fst (binder_done D bs' reply')) =
            bs_log bs' @ [BC_FREE_BUFFER (of_nat (bio_data0 reply'))]) \<or>
         (res = -1 \<and> bio_flags reply' = BIO_F_IOERROR \<and> binder_done D bs' reply' = (bs', reply') \<and>
          (overflowed msg \<longrightarrow> bs' = bs))"
proof (cases "overflowed msg")
  case True
  then show ?thesis using assms
    by (auto simp: binder_call_def io_failed_def bio_zero_def binder_done_def)
next
  case False
  then have "(res = 0 \<and> bio_flags reply' = BIO_F_SHARED) \<or> (res = -1 \<and> reply' = io_failed)"
    using assms by (auto simp: binder_call_def Let_def dest: binder_call_loop_result)
  then show ?thesis
    using False by (auto simp: binder_done_def io_failed_def bio_zero_def)
qed

text \<open>
  Resources of \<open>binder_open\<close>: it keeps the descriptor, the mapping and the allocation
  exactly when it succeeds. When it fails nothing stays allocated or mapped, and the descriptor is
  closed again -- except when the driver's version does not match: that path frees the state and
  leaves the descriptor open.
\<close>

theorem binder_open_resources:
  assumes "binder_open E d mapsize r = (bs, r')" and "oe_open E \<notin> set (res_fds r)"
  shows "case bs of
      Some b \<Rightarrow> r' = r\<lparr>res_fds := bs_fd b # res_fds r, res_maps := bs_fd b # res_maps r,
                       res_heap := res_heap r + 1\<rparr> \<and> bs_fd b = oe_open E
    | None \<Rightarrow> res_heap r' = res_heap r \<and> res_maps r' = res_maps r \<and>
        res_fds r' = (if oe_malloc E \<and> 0 \<le> oe_open E \<and>
            (oe_version_ioctl E = -1 \<or> \<not> oe_version_matches E)
          then oe_open E # res_fds r else res_fds r)"
  using assms
  by (auto simp: binder_open_def Let_def sys_close_def removeAll_id split: if_splits)

text \<open>
  \<open>binder_close\<close> undoes a successful \<open>binder_open\<close>.
\<close>

theorem binder_close_open:
  assumes "binder_open E d mapsize r = (Some bs, r')"
    and "oe_open E \<notin> set (res_fds r)" "oe_open E \<notin> set (res_maps r)"
  shows "binder_close bs r' = r"
  using assms
  by (auto simp: binder_open_def binder_close_def Let_def sys_close_def removeAll_id split: if_splits)

end
