(* ===== verification/Service_Manager.thy ===== *)
theory Service_Manager
  imports Binder_Client
begin

text \<open>
  The service manager, \<open>native/service_manager.c\<close>: the list of registered services, the
  permission checks, registration, lookup, death of a service, and the transaction handler that
  the server loop of \<open>native/binder.c\<close> runs. SELinux and the Android uid ranges are
  parameters.
\<close>

section \<open>State\<close>

record svcinfo =
  si_addr :: u64
  si_handle :: u32
  si_allow_isolated :: bool
  si_name :: "u16 list"

text \<open>
  The process state extends the driver connection by the list head, the next heap address and
  the SELinux label handle. An entry's address identifies it: it is the cookie of the death
  notification. Entries are never freed.
\<close>

record 'd svcmgr = "'d binder_state" +
  sm_list :: "svcinfo list"
  sm_next :: u64
  sm_sehandle :: "nat option"

text \<open>The environment of one call: SELinux, the allocator and the uid ranges.\<close>

record audit_data =
  ad_pid :: u32
  ad_uid :: u32
  ad_name :: "bytes option"

record sm_env =
  se_getpidcon :: "u32 \<Rightarrow> string option"
  se_check_access :: "string \<Rightarrow> string \<Rightarrow> string \<Rightarrow> string \<Rightarrow> audit_data \<Rightarrow> int"
  se_lookup :: "nat \<Rightarrow> bytes \<Rightarrow> string option"
  se_context :: string
  se_status_updated :: int
  se_service_context_handle :: "nat option"
  se_malloc :: "nat \<Rightarrow> bool"
  multiuser_get_app_id :: "u32 \<Rightarrow> u32"
  AID_APP :: u32
  AID_USER :: u32
  AID_ISOLATED_START :: u32
  AID_ISOLATED_END :: u32

section \<open>Strings\<close>

fun str8_copy :: "bytes \<Rightarrow> nat \<Rightarrow> nat \<Rightarrow> bytes cres" where
  \<comment> \<open>the copy loop of \<open>str8\<close>: units are cut to bytes, a zero unit ends the string\<close>
  "str8_copy m p 0 = Ret []"
| "str8_copy m p (Suc k) = cbind (of_mem (load16 m p)) (\<lambda>c.
     if c = 0 then Ret [] else cbind (str8_copy m (p + 2) k) (\<lambda>cs. Ret (ucast c # cs)))"

definition str8 :: "bytes \<Rightarrow> nat option \<Rightarrow> 's::len word \<Rightarrow> bytes cres" where
  "str8 m x x_len =
     (let max = (if x_len < 127 then unat x_len else 127)
      in case x of None \<Rightarrow> Ret [] | Some p \<Rightarrow> str8_copy m p max)"

fun str16eq :: "u16 list \<Rightarrow> bytes \<Rightarrow> bool cres" where
  \<comment> \<open>both arguments are the memory from the pointer on\<close>
  "str16eq (a # as) (b # bs) =
     (if a \<noteq> 0 \<and> b \<noteq> 0 then if a \<noteq> ucast b then Ret False else str16eq as bs
      else Ret (a = 0 \<and> b = 0))"
| "str16eq _ _ = Oob"

section \<open>Permission checks\<close>

definition check_mac_perms ::
    "sm_env \<Rightarrow> u32 \<Rightarrow> u32 \<Rightarrow> string \<Rightarrow> string \<Rightarrow> bytes option \<Rightarrow> bool" where
  "check_mac_perms E spid uid tctx perm name =
     (case se_getpidcon E spid of
        None \<Rightarrow> False
      | Some sctx \<Rightarrow>
          se_check_access E sctx tctx ''service_manager'' perm
            \<lparr>ad_pid = spid, ad_uid = uid, ad_name = name\<rparr> = 0)"

definition check_mac_perms_from_getcon :: "sm_env \<Rightarrow> u32 \<Rightarrow> u32 \<Rightarrow> string \<Rightarrow> bool" where
  "check_mac_perms_from_getcon E spid uid perm = check_mac_perms E spid uid (se_context E) perm None"

definition check_mac_perms_from_lookup ::
    "sm_env \<Rightarrow> nat option \<Rightarrow> u32 \<Rightarrow> u32 \<Rightarrow> string \<Rightarrow> bytes \<Rightarrow> bool cres" where
  "check_mac_perms_from_lookup E sehandle spid uid perm name =
     (case sehandle of
        None \<Rightarrow> Abort
      | Some h \<Rightarrow>
          (case se_lookup E h name of
             None \<Rightarrow> Ret False
           | Some tctx \<Rightarrow> Ret (check_mac_perms E spid uid tctx perm (Some name))))"

definition svc_can_register ::
    "sm_env \<Rightarrow> nat option \<Rightarrow> bytes \<Rightarrow> nat \<Rightarrow> 's::len word \<Rightarrow> u32 \<Rightarrow> u32 \<Rightarrow> bool cres" where
  "svc_can_register E sehandle m name name_len spid uid =
     (if multiuser_get_app_id E uid \<ge> AID_APP E then Ret False
      else cbind (str8 m (Some name) name_len)
        (check_mac_perms_from_lookup E sehandle spid uid ''add''))"

definition svc_can_list :: "sm_env \<Rightarrow> u32 \<Rightarrow> u32 \<Rightarrow> bool" where
  "svc_can_list E spid uid = check_mac_perms_from_getcon E spid uid ''list''"

definition svc_can_find ::
    "sm_env \<Rightarrow> nat option \<Rightarrow> bytes \<Rightarrow> nat \<Rightarrow> 's::len word \<Rightarrow> u32 \<Rightarrow> u32 \<Rightarrow> bool cres" where
  "svc_can_find E sehandle m name name_len spid uid =
     cbind (str8 m (Some name) name_len)
       (check_mac_perms_from_lookup E sehandle spid uid ''find'')"

section \<open>The registry\<close>

fun find_svc :: "svcinfo list \<Rightarrow> bytes \<Rightarrow> nat \<Rightarrow> nat \<Rightarrow> svcinfo option cres" where
  "find_svc [] m s16 len = Ret None"
| "find_svc (si # next) m s16 len =
     (if len = length (si_name si) then
        cbind (of_mem (load_u16s m s16 len)) (\<lambda>cs.
          if cs = si_name si then Ret (Some si) else find_svc next m s16 len)
      else find_svc next m s16 len)"

definition set_handle :: "u64 \<Rightarrow> u32 \<Rightarrow> svcinfo list \<Rightarrow> svcinfo list" where
  \<comment> \<open>\<open>si->handle = h\<close> through a pointer to an entry\<close>
  "set_handle a h l = map (\<lambda>si. if si_addr si = a then si\<lparr>si_handle := h\<rparr> else si) l"

definition svcinfo_death ::
    "'d driver \<Rightarrow> u64 \<Rightarrow> ('d, 'x) svcmgr_scheme \<Rightarrow> ('d, 'x) svcmgr_scheme cres" where
  "svcinfo_death D ptr st =
     (case find (\<lambda>si. si_addr si = ptr) (sm_list st) of
        None \<Rightarrow> Oob
      | Some si \<Rightarrow>
          if si_handle si \<noteq> 0 then
            let st1 = binder_release D st (si_handle si)
            in Ret (st1\<lparr>sm_list := set_handle ptr 0 (sm_list st1)\<rparr>)
          else Ret st)"

definition svc_malloc :: "sm_env \<Rightarrow> ('d, 'x) svcmgr_scheme \<Rightarrow> nat \<Rightarrow> u64 option" where
  \<comment> \<open>\<open>malloc\<close> of an entry: a fresh address, unless the environment is out of memory or no
    address is left\<close>
  "svc_malloc E st n = (if se_malloc E n \<and> sm_next st \<noteq> -1 then Some (sm_next st) else None)"

definition do_find_service ::
    "sm_env \<Rightarrow> ('d, 'x) svcmgr_scheme \<Rightarrow> bytes \<Rightarrow> nat \<Rightarrow> 's::len word \<Rightarrow> u32 \<Rightarrow> u32 \<Rightarrow> u32 cres" where
  "do_find_service E st m s len uid spid =
     cbind (find_svc (sm_list st) m s (unat len)) (\<lambda>r.
       case r of
         None \<Rightarrow> Ret 0
       | Some si \<Rightarrow>
           if si_handle si = 0 then Ret 0
           else
             let appid = uid mod AID_USER E
             in if \<not> si_allow_isolated si \<and> appid \<ge> AID_ISOLATED_START E \<and> appid \<le> AID_ISOLATED_END E
                then Ret 0
                else cbind (svc_can_find E (sm_sehandle st) m s len spid uid) (\<lambda>ok.
                  if \<not> ok then Ret 0 else Ret (si_handle si)))"

definition do_add_service ::
    "sm_env \<Rightarrow> 'd driver \<Rightarrow> ('d, 'x) svcmgr_scheme \<Rightarrow> bytes \<Rightarrow> nat \<Rightarrow> 's::len word \<Rightarrow> u32 \<Rightarrow> u32
       \<Rightarrow> bool \<Rightarrow> u32 \<Rightarrow> (int \<times> ('d, 'x) svcmgr_scheme) cres" where
  "do_add_service E D st m s len handle uid allow_isolated spid =
     (if handle = 0 \<or> len = 0 \<or> len > 127 then Ret (-1, st)
      else cbind (svc_can_register E (sm_sehandle st) m s len spid uid) (\<lambda>ok.
        if \<not> ok then Ret (-1, st)
        else cbind (find_svc (sm_list st) m s (unat len)) (\<lambda>r.
          let finish = (\<lambda>a st. Ret (0, binder_link_to_death D (binder_acquire D st handle) handle a))
          in case r of
            Some si \<Rightarrow>
              cbind (if si_handle si \<noteq> 0 then svcinfo_death D (si_addr si) st else Ret st) (\<lambda>st1.
                finish (si_addr si) (st1\<lparr>sm_list := set_handle (si_addr si) handle (sm_list st1)\<rparr>))
          | None \<Rightarrow>
              (case svc_malloc E st (unat len) of
                 None \<Rightarrow> Ret (-1, st)
               | Some a \<Rightarrow> cbind (of_mem (load_u16s m s (unat len + 1))) (\<lambda>cs.
                   let si = \<lparr>si_addr = a, si_handle = handle, si_allow_isolated = allow_isolated,
                             si_name = take (unat len) cs\<rparr>
                   in finish a (st\<lparr>sm_list := si # sm_list st, sm_next := a + 1\<rparr>))))))"

section \<open>The transaction handler\<close>

abbreviation SVC_MGR_GET_SERVICE :: u32 where "SVC_MGR_GET_SERVICE \<equiv> 1"
abbreviation SVC_MGR_CHECK_SERVICE :: u32 where "SVC_MGR_CHECK_SERVICE \<equiv> 2"
abbreviation SVC_MGR_ADD_SERVICE :: u32 where "SVC_MGR_ADD_SERVICE \<equiv> 3"
abbreviation SVC_MGR_LIST_SERVICES :: u32 where "SVC_MGR_LIST_SERVICES \<equiv> 4"

definition svcmgr_id :: "u16 list" where
  "svcmgr_id = map (\<lambda>c. of_nat (of_char c)) ''android.os.IServiceManager''"

definition refresh_sehandle :: "sm_env \<Rightarrow> nat option \<Rightarrow> nat option" where
  "refresh_sehandle E h =
     (if h \<noteq> None \<and> se_status_updated E > 0 then
        (case se_service_context_handle E of Some t \<Rightarrow> Some t | None \<Rightarrow> h)
      else h)"

definition handle_find ::
    "sm_env \<Rightarrow> uapi \<Rightarrow> txn \<Rightarrow> 's::len binder_io \<Rightarrow> 's binder_io \<Rightarrow> ('d, 'x) svcmgr_scheme
       \<Rightarrow> (int \<times> 's binder_io \<times> ('d, 'x) svcmgr_scheme) cres" where
  "handle_find E U txn msg reply st =
     cbind (bio_get_string16 msg) (\<lambda>(s, len, msg).
       case s of None \<Rightarrow> Ret (-1, reply, st)
       | Some s \<Rightarrow>
           cbind (do_find_service E st (bio_mem msg) s len (t_sender_euid txn) (t_sender_pid txn))
             (\<lambda>handle.
               if handle = 0 then cbind (bio_put_uint32 reply 0) (\<lambda>reply. Ret (0, reply, st))
               else cbind (bio_put_ref U reply handle) (\<lambda>reply. Ret (0, reply, st))))"

definition handle_add ::
    "sm_env \<Rightarrow> uapi \<Rightarrow> 'd driver \<Rightarrow> txn \<Rightarrow> 's::len binder_io \<Rightarrow> 's binder_io \<Rightarrow> ('d, 'x) svcmgr_scheme
       \<Rightarrow> (int \<times> 's binder_io \<times> ('d, 'x) svcmgr_scheme) cres" where
  "handle_add E U D txn msg reply st =
     cbind (bio_get_string16 msg) (\<lambda>(s, len, msg).
       case s of None \<Rightarrow> Ret (-1, reply, st)
       | Some s \<Rightarrow>
           cbind (bio_get_ref U msg) (\<lambda>(handle, msg).
           cbind (bio_get_uint32 msg) (\<lambda>(iso, msg).
           cbind (do_add_service E D st (bio_mem msg) s len handle (t_sender_euid txn) (iso \<noteq> 0)
                    (t_sender_pid txn)) (\<lambda>(r, st).
             if r \<noteq> 0 then Ret (-1, reply, st)
             else cbind (bio_put_uint32 reply 0) (\<lambda>reply. Ret (0, reply, st))))))"

definition handle_list ::
    "sm_env \<Rightarrow> txn \<Rightarrow> 's::len binder_io \<Rightarrow> 's binder_io \<Rightarrow> ('d, 'x) svcmgr_scheme
       \<Rightarrow> (int \<times> 's binder_io \<times> ('d, 'x) svcmgr_scheme) cres" where
  "handle_list E txn msg reply st =
     cbind (bio_get_uint32 msg) (\<lambda>(n, msg).
       if \<not> svc_can_list E (t_sender_pid txn) (t_sender_euid txn) then Ret (-1, reply, st)
       else case drop (unat n) (sm_list st) of
           [] \<Rightarrow> Ret (-1, reply, st)
         | si # _ \<Rightarrow> cbind (bio_put_string16 reply (Some (si_name si @ [0])))
             (\<lambda>reply. Ret (0, reply, st)))"

definition svcmgr_handler ::
    "sm_env \<Rightarrow> uapi \<Rightarrow> 'd driver \<Rightarrow> ('s::len, ('d, 'x) svcmgr_scheme) handler" where
  "svcmgr_handler E U D txn msg reply st =
     (if t_target txn \<noteq> 0 then Ret (-1, reply, st)
      else if t_code txn = ping_transaction U then Ret (0, reply, st)
      else cbind (bio_get_uint32 msg) (\<lambda>(strict_policy, msg).
        cbind (bio_get_string16 msg) (\<lambda>(s, len, msg).
          case s of None \<Rightarrow> Ret (-1, reply, st)
          | Some s \<Rightarrow>
            cbind (if unat len \<noteq> length svcmgr_id then Ret False
                   else cbind (of_mem (load_u16s (bio_mem msg) s (length svcmgr_id)))
                          (\<lambda>cs. Ret (cs = svcmgr_id))) (\<lambda>valid.
              if \<not> valid then cbind (str8 (bio_mem msg) (Some s) len) (\<lambda>_. Ret (-1, reply, st))
              else
                let st = st\<lparr>sm_sehandle := refresh_sehandle E (sm_sehandle st)\<rparr>
                in if t_code txn = SVC_MGR_GET_SERVICE \<or> t_code txn = SVC_MGR_CHECK_SERVICE
                   then handle_find E U txn msg reply st
                   else if t_code txn = SVC_MGR_ADD_SERVICE then handle_add E U D txn msg reply st
                   else if t_code txn = SVC_MGR_LIST_SERVICES then handle_list E txn msg reply st
                   else Ret (-1, reply, st)))))"

section \<open>Reading names\<close>

text \<open>
  On a name that lies inside the message the readers see its units: \<open>str8\<close> a byte string
  that is cut at the first zero unit and keeps the low byte of each unit, \<open>find_svc\<close> the
  first entry of that name.
\<close>

definition name8 :: "u16 list \<Rightarrow> bytes" where
  "name8 cs = map ucast (takeWhile (\<lambda>c. c \<noteq> 0) (take 127 cs))"

lemma str8_copy_eq:
  "load_u16s m p k = Some cs \<Longrightarrow> str8_copy m p k = Ret (map ucast (takeWhile (\<lambda>c. c \<noteq> 0) cs))"
  by (induction m p k arbitrary: cs rule: load_u16s.induct) (auto split: option.splits)

lemma str8_eq:
  fixes len :: "'s::len word"
  assumes "load_u16s m p (unat len) = Some cs" and "7 \<le> LENGTH('s)"
  shows "str8 m (Some p) len = Ret (name8 cs)"
proof -
  have "(2::nat) ^ 7 \<le> 2 ^ LENGTH('s)" using assms(2) by (rule power_increasing) simp
  then have "unat (127 :: 's word) = 127" by (simp add: take_bit_nat_eq_self)
  then have "(if len < 127 then unat len else 127) = min (unat len) 127"
    by (simp add: word_less_nat_alt min_def)
  moreover have "load_u16s m p (min (unat len) 127) = Some (take 127 cs)"
    using load_u16s_le_prefix [OF assms(1), of "min (unat len) 127"] load_u16s_length [OF assms(1)]
    by (simp add: min_def split: if_splits)
  ultimately show ?thesis by (simp add: str8_def str8_copy_eq name8_def)
qed

lemma find_svc_eq:
  "load_u16s m p len = Some cs \<Longrightarrow> find_svc l m p len = Ret (find (\<lambda>si. si_name si = cs) l)"
  using load_u16s_length by (induction l) fastforce+

section \<open>The registry as a map\<close>

definition svc_entry :: "svcinfo list \<Rightarrow> u16 list \<Rightarrow> svcinfo option" where
  "svc_entry l cs = find (\<lambda>si. si_name si = cs) l"

definition registry :: "('d, 'x) svcmgr_scheme \<Rightarrow> u16 list \<Rightarrow> (u32 \<times> bool) option" where
  "registry st cs = map_option (\<lambda>si. (si_handle si, si_allow_isolated si)) (svc_entry (sm_list st) cs)"

definition svc_wf :: "('d, 'x) svcmgr_scheme \<Rightarrow> bool" where
  "svc_wf st \<longleftrightarrow> distinct (map si_addr (sm_list st)) \<and> distinct (map si_name (sm_list st)) \<and>
     (\<forall>si \<in> set (sm_list st). si_addr si < sm_next st \<and> si_name si \<noteq> [] \<and> length (si_name si) \<le> 127)"

text \<open>
  Registration of a name that has been read and checked: what \<open>do_add_service\<close> does after
  its guards. None when memory runs out.
\<close>

definition register_service ::
    "sm_env \<Rightarrow> 'd driver \<Rightarrow> u16 list \<Rightarrow> u32 \<Rightarrow> bool \<Rightarrow> ('d, 'x) svcmgr_scheme \<Rightarrow> ('d, 'x) svcmgr_scheme option" where
  "register_service E D cs handle isolated st =
     (let finish = (\<lambda>a st. Some (binder_link_to_death D (binder_acquire D st handle) handle a))
      in case svc_entry (sm_list st) cs of
        Some si \<Rightarrow>
          let st1 = (if si_handle si \<noteq> 0 then binder_release D st (si_handle si) else st)
          in finish (si_addr si) (st1\<lparr>sm_list := set_handle (si_addr si) handle (sm_list st)\<rparr>)
      | None \<Rightarrow>
          (case svc_malloc E st (length cs) of
             None \<Rightarrow> None
           | Some a \<Rightarrow> finish a (st\<lparr>sm_list := \<lparr>si_addr = a, si_handle = handle,
               si_allow_isolated = isolated, si_name = cs\<rparr> # sm_list st, sm_next := a + 1\<rparr>)))"

definition service_died :: "'d driver \<Rightarrow> u16 list \<Rightarrow> ('d, 'x) svcmgr_scheme \<Rightarrow> ('d, 'x) svcmgr_scheme" where
  \<comment> \<open>the death callback, by name of the service\<close>
  "service_died D cs st =
     (case svc_entry (sm_list st) cs of
        None \<Rightarrow> st
      | Some si \<Rightarrow> (case svcinfo_death D (si_addr si) st of Ret st' \<Rightarrow> st' | _ \<Rightarrow> st))"

lemma set_handle_simps [simp]:
  "map si_addr (set_handle a h l) = map si_addr l"
  "map si_name (set_handle a h l) = map si_name l"
  "length (set_handle a h l) = length l"
  by (auto simp: set_handle_def)

lemma set_set_handle:
  "si \<in> set (set_handle a h l) \<Longrightarrow> \<exists>si0 \<in> set l. si_addr si = si_addr si0 \<and> si_name si = si_name si0 \<and>
     si_allow_isolated si = si_allow_isolated si0 \<and>
     si_handle si = (if si_addr si0 = a then h else si_handle si0)"
  by (auto simp: set_handle_def split: if_splits)

lemma set_handle_twice [simp]: "set_handle a h (set_handle a h' l) = set_handle a h l"
  by (simp add: set_handle_def)

lemma svc_entry_Some: "svc_entry l cs = Some si \<Longrightarrow> si \<in> set l \<and> si_name si = cs"
  unfolding svc_entry_def by (rule find_Some_in)

lemma svc_entry_Nil [simp]: "svc_entry [] cs = None"
  by (simp add: svc_entry_def)

lemma svc_entry_Cons [simp]:
  "svc_entry (si # l) cs = (if si_name si = cs then Some si else svc_entry l cs)"
  by (simp add: svc_entry_def)

lemma svc_entry_set_handle:
  "distinct (map si_addr l) \<Longrightarrow> distinct (map si_name l) \<Longrightarrow> si \<in> set l \<Longrightarrow>
   svc_entry (set_handle (si_addr si) h l) cs =
     (if cs = si_name si then Some (si\<lparr>si_handle := h\<rparr>) else svc_entry l cs)"
proof (induction l)
  case (Cons x l)
  show ?case
  proof (cases "x = si")
    case True
    have "si_addr si \<notin> si_addr ` set l" using Cons.prems(1) True by simp
    then have "\<forall>y \<in> set l. si_addr y \<noteq> si_addr si" by (metis imageI)
    then have "set_handle (si_addr si) h l = l"
      by (simp add: set_handle_def map_idI)
    then show ?thesis using True by (simp add: set_handle_def)
  next
    case False
    then have si: "si \<in> set l" using Cons.prems(3) by simp
    then have "si_addr x \<noteq> si_addr si" "si_name x \<noteq> si_name si"
      using Cons.prems(1,2) by force+
    then show ?thesis using Cons.IH Cons.prems(1,2) si by (auto simp: set_handle_def)
  qed
qed simp

lemma sm_fields_ops [simp]:
  "sm_list (snd (binder_write D st cmds)) = sm_list (st :: ('d, 'x) svcmgr_scheme)"
  "sm_next (snd (binder_write D st cmds)) = sm_next st"
  "sm_sehandle (snd (binder_write D st cmds)) = sm_sehandle st"
  by (simp_all add: binder_write_def split: prod.split)

lemma sm_fields_cmds [simp]:
  "sm_list (binder_acquire D st h) = sm_list (st :: ('d, 'x) svcmgr_scheme)"
  "sm_list (binder_release D st h) = sm_list st"
  "sm_list (binder_link_to_death D st h k) = sm_list st"
  "sm_next (binder_acquire D st h) = sm_next st"
  "sm_next (binder_release D st h) = sm_next st"
  "sm_next (binder_link_to_death D st h k) = sm_next st"
  "sm_sehandle (binder_acquire D st h) = sm_sehandle st"
  "sm_sehandle (binder_release D st h) = sm_sehandle st"
  "sm_sehandle (binder_link_to_death D st h k) = sm_sehandle st"
  by (simp_all add: binder_acquire_def binder_release_def binder_link_to_death_def)

lemma bs_log_update [simp]:
  "bs_log (st\<lparr>sm_list := l\<rparr>) = bs_log (st :: ('d, 'x) svcmgr_scheme)"
  "bs_log (st\<lparr>sm_next := n\<rparr>) = bs_log st" "bs_log (st\<lparr>sm_sehandle := h\<rparr>) = bs_log st"
  by simp_all

lemma find_addr:
  assumes "distinct (map si_addr l)" "si \<in> set l"
  shows "find (\<lambda>x. si_addr x = si_addr si) l = Some si"
  using assms
proof (induction l)
  case (Cons x l)
  then show ?case
    by (cases "x = si") (auto simp: image_iff)
qed simp

text \<open>The effect of the death of a registered service.\<close>

lemma svcinfo_death_eq:
  assumes "svc_wf st" and "si \<in> set (sm_list st)"
  shows "svcinfo_death D (si_addr si) st = Ret
    (if si_handle si \<noteq> 0
     then (binder_release D st (si_handle si))\<lparr>sm_list := set_handle (si_addr si) 0 (sm_list st)\<rparr>
     else st)"
  using assms find_addr [of "sm_list st" si] by (simp add: svcinfo_death_def svc_wf_def Let_def)

lemma binder_release_list:
  "binder_release D (st\<lparr>sm_list := l\<rparr>) h = (binder_release D (st :: ('d, 'x) svcmgr_scheme) h)\<lparr>sm_list := l\<rparr>"
  by (simp add: binder_release_def binder_write_def split: prod.split)

text \<open>
  \<open>do_add_service\<close> is its guards followed by the registration of the name it reads.
\<close>

lemma do_add_service_eq:
  fixes len :: "'s::len word"
  assumes ld: "load_u16s m s (unat len + 1) = Some (cs @ [c])" and L: "8 \<le> LENGTH('s)"
    and wf: "svc_wf st"
  shows "do_add_service E D st m s len handle uid isolated spid =
    (if handle = 0 \<or> cs = [] \<or> length cs > 127 then Ret (-1, st)
     else if multiuser_get_app_id E uid \<ge> AID_APP E then Ret (-1, st)
     else cbind (check_mac_perms_from_lookup E (sm_sehandle st) spid uid ''add'' (name8 cs)) (\<lambda>ok.
       if \<not> ok then Ret (-1, st)
       else Ret (case register_service E D cs handle isolated st of
           None \<Rightarrow> (-1, st) | Some st' \<Rightarrow> (0, st'))))"
proof -
  have n: "unat len = length cs" using load_u16s_length [OF ld] by simp
  have ld': "load_u16s m s (unat len) = Some cs"
    using load_u16s_le_prefix [OF ld, of "unat len"] n by simp
  have "(2::nat) ^ 8 \<le> 2 ^ LENGTH('s)" using L by (rule power_increasing) simp
  then have "unat (127 :: 's word) = 127" by (simp add: take_bit_nat_eq_self)
  then have g: "len > 127 \<longleftrightarrow> length cs > 127" "len = 0 \<longleftrightarrow> cs = []"
    using n by (auto simp: word_less_nat_alt unat_eq_zero)
  have s8: "str8 m (Some s) len = Ret (name8 cs)" using ld' L by (intro str8_eq) auto
  have fs: "find_svc (sm_list st) m s (length cs) = Ret (svc_entry (sm_list st) cs)"
    using find_svc_eq [OF ld'] n by (simp add: svc_entry_def)
  have reg: "cbind (if si_handle si \<noteq> 0 then svcinfo_death D (si_addr si) st else Ret st) (\<lambda>st1.
        Ret (0 :: int, binder_link_to_death D (binder_acquire D
          (st1\<lparr>sm_list := set_handle (si_addr si) handle (sm_list st1)\<rparr>) handle) handle (si_addr si)))
      = Ret (case register_service E D cs handle isolated st of None \<Rightarrow> (-1, st) | Some st' \<Rightarrow> (0, st'))"
    if "svc_entry (sm_list st) cs = Some si" for si
    using svcinfo_death_eq [OF wf, of si D] svc_entry_Some [OF that] that
    by (simp add: register_service_def Let_def)
  show ?thesis
    using ld n g s8 fs reg
    by (auto simp: do_add_service_def svc_can_register_def Let_def register_service_def
        split: option.splits intro!: arg_cong [where f = "cbind _"])
qed

section \<open>What the registry promises\<close>

text \<open>
  The interface clients of a registry rely on: registering a name makes it resolve to the new
  handle and leaves every other name alone; the isolation flag of a name is fixed by its first
  registration; a death clears the handle and keeps the name; registration fails only for a new
  name.
\<close>

locale service_registry =
  fixes lookup :: "'st \<Rightarrow> 'n \<Rightarrow> (u32 \<times> bool) option"
    and add :: "'n \<Rightarrow> u32 \<Rightarrow> bool \<Rightarrow> 'st \<Rightarrow> 'st option"
    and die :: "'n \<Rightarrow> 'st \<Rightarrow> 'st"
    and inv :: "'st \<Rightarrow> bool"
    and ok_name :: "'n \<Rightarrow> bool"
  assumes add_lookup: "inv st \<Longrightarrow> ok_name n \<Longrightarrow> add n h b st = Some st' \<Longrightarrow>
      lookup st' = (lookup st)(n \<mapsto> (h, case lookup st n of None \<Rightarrow> b | Some (_, b') \<Rightarrow> b'))"
    and add_fails: "inv st \<Longrightarrow> add n h b st = None \<Longrightarrow> lookup st n = None"
    and die_lookup: "inv st \<Longrightarrow>
      lookup (die n st) = (\<lambda>k. if k = n then map_option (\<lambda>(_, b). (0, b)) (lookup st n) else lookup st k)"
    and inv_add: "inv st \<Longrightarrow> ok_name n \<Longrightarrow> add n h b st = Some st' \<Longrightarrow> inv st'"
    and inv_die: "inv st \<Longrightarrow> inv (die n st)"
begin

lemma lookup_added: "inv st \<Longrightarrow> ok_name n \<Longrightarrow> add n h b st = Some st' \<Longrightarrow> \<exists>b'. lookup st' n = Some (h, b')"
  by (simp add: add_lookup)

lemma lookup_other: "inv st \<Longrightarrow> ok_name n \<Longrightarrow> add n h b st = Some st' \<Longrightarrow> k \<noteq> n \<Longrightarrow> lookup st' k = lookup st k"
  by (simp add: add_lookup)

lemma readd_succeeds: "inv st \<Longrightarrow> lookup st n \<noteq> None \<Longrightarrow> \<exists>st'. add n h b st = Some st'"
  using add_fails by (cases "add n h b st") auto

lemma isolation_fixed:
  assumes "inv st" "ok_name n" "lookup st n = Some (h0, b0)" "add n h b st = Some st'"
  shows "lookup st' n = Some (h, b0)"
  using assms by (simp add: add_lookup)

lemma die_then_add:
  assumes "inv st" "ok_name n" "lookup st n = Some (h0, b0)"
  shows "lookup (die n st) n = Some (0, b0) \<and>
    (\<exists>st'. add n h b (die n st) = Some st' \<and> lookup st' n = Some (h, b0))"
proof -
  have l: "lookup (die n st) n = Some (0, b0)" using assms by (simp add: die_lookup)
  moreover obtain st' where "add n h b (die n st) = Some st'"
    using readd_succeeds [OF inv_die [OF assms(1)]] l by blast
  ultimately show ?thesis using isolation_fixed [OF inv_die [OF assms(1)] assms(2) l] by blast
qed

end

definition svc_name_ok :: "u16 list \<Rightarrow> bool" where
  "svc_name_ok cs \<longleftrightarrow> cs \<noteq> [] \<and> length cs \<le> 127"

lemma registry_cong [simp]:
  "registry (binder_acquire D st h) = registry (st :: ('d, 'x) svcmgr_scheme)"
  "registry (binder_release D st h) = registry st"
  "registry (binder_link_to_death D st h k) = registry st"
  by (simp_all add: registry_def fun_eq_iff)

lemma svc_wf_ops [simp]:
  "svc_wf (binder_acquire D st h) = svc_wf (st :: ('d, 'x) svcmgr_scheme)"
  "svc_wf (binder_release D st h) = svc_wf st"
  "svc_wf (binder_link_to_death D st h k) = svc_wf st"
  by (simp_all add: svc_wf_def)

lemma svc_wf_set_handle:
  "svc_wf st \<Longrightarrow> svc_wf (st\<lparr>sm_list := set_handle a h (sm_list st)\<rparr>)"
  by (auto simp: svc_wf_def dest!: set_set_handle)

lemma registry_set_handle:
  assumes "svc_wf st" and "svc_entry (sm_list st) cs = Some si"
  shows "registry (st\<lparr>sm_list := set_handle (si_addr si) h (sm_list st)\<rparr>)
    = (registry st)(cs \<mapsto> (h, si_allow_isolated si))"
  using assms svc_entry_Some [OF assms(2)]
  by (auto simp: registry_def svc_wf_def svc_entry_set_handle fun_eq_iff)

lemma register_service_Some:
  assumes wf: "svc_wf st" and ok: "svc_name_ok cs"
    and r: "register_service E D cs handle b st = Some st'"
  shows "registry st' = (registry st)(cs \<mapsto> (handle, case registry st cs of None \<Rightarrow> b | Some (_, b') \<Rightarrow> b'))"
    and "svc_wf st'"
proof -
  have "registry st' = (registry st)(cs \<mapsto> (handle, case registry st cs of None \<Rightarrow> b | Some (_, b') \<Rightarrow> b')) \<and>
    svc_wf st'"
  proof (cases "svc_entry (sm_list st) cs")
    case None
    then have nm: "cs \<notin> si_name ` set (sm_list st)"
      by (auto simp: svc_entry_def find_None_iff)
    obtain a where a: "svc_malloc E st (length cs) = Some a"
      using r None by (auto simp: register_service_def split: option.splits)
    then have a': "a = sm_next st" "sm_next st \<noteq> -1" by (auto simp: svc_malloc_def split: if_splits)
    then have lt: "sm_next st < sm_next st + 1"
      using inc_less_eq_triv_imp [of "sm_next st"] by (meson linorder_not_le)
    have fresh: "sm_next st \<notin> si_addr ` set (sm_list st)"
      using wf by (auto simp: svc_wf_def)
    have "\<forall>si \<in> set (sm_list st). si_addr si < sm_next st + 1"
      using wf lt by (auto simp: svc_wf_def intro: order.strict_trans)
    then show ?thesis
      using r None a a' nm fresh lt wf ok
      by (auto simp: register_service_def Let_def registry_def svc_wf_def svc_name_ok_def fun_eq_iff)
  next
    case (Some si)
    have "registry st cs = Some (si_handle si, si_allow_isolated si)"
      using Some by (simp add: registry_def)
    moreover have "st' = binder_link_to_death D (binder_acquire D
        ((if si_handle si \<noteq> 0 then binder_release D st (si_handle si) else st)
          \<lparr>sm_list := set_handle (si_addr si) handle (sm_list st)\<rparr>) handle) handle (si_addr si)"
      using r Some by (simp add: register_service_def Let_def)
    ultimately show ?thesis
      using wf Some registry_set_handle [OF wf Some, of handle] svc_wf_set_handle [OF wf]
        registry_set_handle [of "binder_release D st (si_handle si)" cs si handle]
        svc_wf_set_handle [of "binder_release D st (si_handle si)"]
      by auto
  qed
  then show "registry st' = (registry st)(cs \<mapsto> (handle, case registry st cs of None \<Rightarrow> b | Some (_, b') \<Rightarrow> b'))"
    and "svc_wf st'" by auto
qed

lemma register_service_None:
  "register_service E D cs handle b st = None \<Longrightarrow> registry st cs = None"
  by (auto simp: register_service_def registry_def Let_def split: option.splits)

lemma service_died_spec:
  assumes wf: "svc_wf st"
  shows "registry (service_died D cs st) =
      (\<lambda>k. if k = cs then map_option (\<lambda>(_, b). (0, b)) (registry st cs) else registry st k)"
    and "svc_wf (service_died D cs st)"
proof -
  have "registry (service_died D cs st) =
      (\<lambda>k. if k = cs then map_option (\<lambda>(_, b). (0, b)) (registry st cs) else registry st k) \<and>
    svc_wf (service_died D cs st)"
  proof (cases "svc_entry (sm_list st) cs")
    case None
    then show ?thesis using wf by (auto simp: service_died_def registry_def fun_eq_iff)
  next
    case (Some si)
    note d = svcinfo_death_eq [OF wf, of si D] svc_entry_Some [OF Some]
    have l: "registry st cs = Some (si_handle si, si_allow_isolated si)"
      using Some by (simp add: registry_def)
    show ?thesis
    proof (cases "si_handle si = 0")
      case True
      then show ?thesis using d Some wf l by (auto simp: service_died_def fun_eq_iff)
    next
      case False
      let ?st = "binder_release D st (si_handle si)"
      have "registry (?st\<lparr>sm_list := set_handle (si_addr si) 0 (sm_list st)\<rparr>)
          = (registry st)(cs \<mapsto> (0, si_allow_isolated si))"
        using registry_set_handle [of ?st cs si 0] wf Some by simp
      moreover have "svc_wf (?st\<lparr>sm_list := set_handle (si_addr si) 0 (sm_list st)\<rparr>)"
        using svc_wf_set_handle [of ?st] wf by simp
      ultimately show ?thesis using d Some False l by (auto simp: service_died_def fun_eq_iff)
    qed
  qed
  then show "registry (service_died D cs st) =
      (\<lambda>k. if k = cs then map_option (\<lambda>(_, b). (0, b)) (registry st cs) else registry st k)"
    and "svc_wf (service_died D cs st)" by auto
qed

interpretation svc: service_registry registry "register_service E D" "service_died D" svc_wf svc_name_ok
  for E D
  by unfold_locales
    (auto simp: register_service_Some service_died_spec dest: register_service_None)

section \<open>References and death notifications\<close>

text \<open>
  The strong references the manager has taken on a handle and not given back are the entries that
  hold the handle, and each of those entries has asked to be told when the handle's owner dies.
\<close>

abbreviation acquired :: "u32 \<Rightarrow> bc list \<Rightarrow> nat" where
  "acquired h l \<equiv> count_if ((=) (BC_ACQUIRE h)) l"

abbreviation released :: "u32 \<Rightarrow> bc list \<Rightarrow> nat" where
  "released h l \<equiv> count_if ((=) (BC_RELEASE h)) l"

abbreviation holders :: "u32 \<Rightarrow> svcinfo list \<Rightarrow> nat" where
  "holders h l \<equiv> count_if (\<lambda>si. si_handle si = h) l"

definition refs_ok :: "('d, 'x) svcmgr_scheme \<Rightarrow> bool" where
  "refs_ok st \<longleftrightarrow> (\<forall>h. h \<noteq> 0 \<longrightarrow>
     acquired h (bs_log st) = released h (bs_log st) + holders h (sm_list st))"

definition links_ok :: "('d, 'x) svcmgr_scheme \<Rightarrow> bool" where
  "links_ok st \<longleftrightarrow> (\<forall>si \<in> set (sm_list st). si_handle si \<noteq> 0 \<longrightarrow>
     BC_REQUEST_DEATH_NOTIFICATION (si_handle si) (si_addr si) \<in> set (bs_log st))"

definition sm_inv :: "('d, 'x) svcmgr_scheme \<Rightarrow> bool" where
  "sm_inv st \<longleftrightarrow> svc_wf st \<and> refs_ok st \<and> links_ok st"

lemma holders_set_handle:
  assumes "distinct (map si_addr l)" "si \<in> set l"
  shows "holders k (set_handle (si_addr si) h l) + (if si_handle si = k then 1 else 0)
    = holders k l + (if h = k then 1 else 0)"
  using assms
proof (induction l)
  case (Cons x l)
  show ?case
  proof (cases "x = si")
    case True
    have "si_addr si \<notin> si_addr ` set l" using Cons.prems(1) True by simp
    then have "\<forall>y \<in> set l. si_addr y \<noteq> si_addr si" by (metis imageI)
    then have "set_handle (si_addr si) h l = l" by (simp add: set_handle_def map_idI)
    then show ?thesis using True by (simp add: set_handle_def)
  next
    case False
    then have si: "si \<in> set l" using Cons.prems(2) by simp
    then have "si_addr x \<noteq> si_addr si" using Cons.prems(1) by force
    then show ?thesis using Cons.IH Cons.prems(1) si by (simp add: set_handle_def)
  qed
qed simp

lemma sm_inv_clear:
  assumes inv: "sm_inv st" and si: "si \<in> set (sm_list st)" "si_handle si \<noteq> 0"
  shows "sm_inv ((binder_release D st (si_handle si))\<lparr>sm_list := set_handle (si_addr si) 0 (sm_list st)\<rparr>)"
proof -
  let ?st = "(binder_release D st (si_handle si))\<lparr>sm_list := set_handle (si_addr si) 0 (sm_list st)\<rparr>"
  have wf: "svc_wf st" and d: "distinct (map si_addr (sm_list st))"
    using inv by (auto simp: sm_inv_def svc_wf_def)
  have "svc_wf ?st" using svc_wf_set_handle [of "binder_release D st (si_handle si)"] wf by simp
  moreover have "refs_ok ?st"
    unfolding refs_ok_def
  proof (intro allI impI)
    fix h :: u32 assume "h \<noteq> 0"
    then show "acquired h (bs_log ?st) = released h (bs_log ?st) + holders h (sm_list ?st)"
      using inv holders_set_handle [OF d si(1), of h 0] by (auto simp: sm_inv_def refs_ok_def split: if_splits)
  qed
  moreover have "links_ok ?st"
    using inv by (auto simp: sm_inv_def links_ok_def dest!: set_set_handle split: if_splits)
  ultimately show ?thesis by (simp add: sm_inv_def)
qed

lemma sm_inv_set:
  assumes inv: "sm_inv st" and si: "si \<in> set (sm_list st)" "si_handle si = 0" and h: "h \<noteq> 0"
  shows "sm_inv (binder_link_to_death D (binder_acquire D
    (st\<lparr>sm_list := set_handle (si_addr si) h (sm_list st)\<rparr>) h) h (si_addr si))" (is "sm_inv ?st")
proof -
  have wf: "svc_wf st" and d: "distinct (map si_addr (sm_list st))"
    using inv by (auto simp: sm_inv_def svc_wf_def)
  have "svc_wf ?st" using svc_wf_set_handle [OF wf] by simp
  moreover have "refs_ok ?st"
    unfolding refs_ok_def
  proof (intro allI impI)
    fix k :: u32 assume "k \<noteq> 0"
    then show "acquired k (bs_log ?st) = released k (bs_log ?st) + holders k (sm_list ?st)"
      using inv holders_set_handle [OF d si(1), of k h] si(2)
      by (auto simp: sm_inv_def refs_ok_def split: if_splits)
  qed
  moreover have "links_ok ?st"
    using inv by (auto simp: sm_inv_def links_ok_def dest!: set_set_handle split: if_splits)
  ultimately show ?thesis by (simp add: sm_inv_def)
qed

lemma sm_inv_new:
  assumes inv: "sm_inv st" and h: "h \<noteq> 0" and wf': "svc_wf (st\<lparr>sm_list := si # sm_list st, sm_next := n\<rparr>)"
    and si: "si_handle si = h"
  shows "sm_inv (binder_link_to_death D (binder_acquire D
    (st\<lparr>sm_list := si # sm_list st, sm_next := n\<rparr>) h) h (si_addr si))" (is "sm_inv ?st")
proof -
  have "refs_ok ?st" using inv si by (auto simp: sm_inv_def refs_ok_def)
  moreover have "links_ok ?st" using inv si by (auto simp: sm_inv_def links_ok_def)
  ultimately show ?thesis using wf' by (simp add: sm_inv_def)
qed

lemma register_service_inv:
  assumes inv: "sm_inv st" and ok: "svc_name_ok cs" and h: "h \<noteq> 0"
    and r: "register_service E D cs h b st = Some st'"
  shows "sm_inv st'"
proof (cases "svc_entry (sm_list st) cs")
  case None
  have wf: "svc_wf st" using inv by (simp add: sm_inv_def)
  obtain a where a: "svc_malloc E st (length cs) = Some a"
    and st': "st' = binder_link_to_death D (binder_acquire D (st\<lparr>sm_list := \<lparr>si_addr = a, si_handle = h,
               si_allow_isolated = b, si_name = cs\<rparr> # sm_list st, sm_next := a + 1\<rparr>) h) h a"
    using r None by (auto simp: register_service_def Let_def split: option.splits)
  moreover from st' register_service_Some(2) [OF wf ok r]
  have "svc_wf (st\<lparr>sm_list := \<lparr>si_addr = a, si_handle = h, si_allow_isolated = b, si_name = cs\<rparr> #
      sm_list st, sm_next := a + 1\<rparr>)" by simp
  ultimately show ?thesis using sm_inv_new [OF inv h, where si = "\<lparr>si_addr = a, si_handle = h,
      si_allow_isolated = b, si_name = cs\<rparr>" and n = "a + 1"] by simp
next
  case (Some si)
  note e = svc_entry_Some [OF Some]
  show ?thesis
  proof (cases "si_handle si = 0")
    case True
    then show ?thesis using r Some sm_inv_set [OF inv _ True h] e
      by (auto simp: register_service_def Let_def)
  next
    case False
    let ?st1 = "(binder_release D st (si_handle si))\<lparr>sm_list := set_handle (si_addr si) 0 (sm_list st)\<rparr>"
    have i1: "sm_inv ?st1" using sm_inv_clear [OF inv _ False] e by simp
    have m: "si\<lparr>si_handle := 0\<rparr> \<in> set (sm_list ?st1)"
      using e by (auto simp: set_handle_def image_iff)
    have "st' = binder_link_to_death D (binder_acquire D
        (?st1\<lparr>sm_list := set_handle (si_addr si) h (sm_list ?st1)\<rparr>) h) h (si_addr si)"
      using r Some False by (simp add: register_service_def Let_def)
    then show ?thesis using sm_inv_set [OF i1 m _ h, of D] by simp
  qed
qed

lemma svcinfo_death_inv:
  assumes "sm_inv st" and "svcinfo_death D c st = Ret st'"
  shows "sm_inv st'"
proof -
  obtain si where f: "find (\<lambda>si. si_addr si = c) (sm_list st) = Some si"
    using assms(2) by (auto simp: svcinfo_death_def split: option.splits)
  then have "si \<in> set (sm_list st)" "si_addr si = c" using find_Some_in by fastforce+
  then show ?thesis
    using assms f sm_inv_clear [OF assms(1), of si D] by (auto simp: svcinfo_death_def Let_def split: if_splits)
qed

lemma find_svc_Some:
  "find_svc l m p n = Ret (Some si) \<Longrightarrow> svc_entry l (si_name si) = Some si \<and> length (si_name si) = n"
proof (cases "load_u16s m p n")
  case None
  then show "find_svc l m p n = Ret (Some si) \<Longrightarrow> ?thesis"
    by (induction l) (auto simp: cbind_Ret_iff split: if_splits)
next
  case (Some cs)
  then show "find_svc l m p n = Ret (Some si) \<Longrightarrow> ?thesis"
    using load_u16s_length [OF Some] svc_entry_Some [of l cs si]
    by (auto simp: find_svc_eq simp flip: svc_entry_def)
qed

lemma find_svc_None:
  "find_svc l m p n = Ret None \<Longrightarrow> load_u16s m p n = Some cs \<Longrightarrow> svc_entry l cs = None"
  by (simp add: find_svc_eq svc_entry_def)

text \<open>Whatever the message holds, adding a service does nothing or registers some name.\<close>

lemma do_add_service_Ret:
  fixes len :: "'s::len word"
  assumes "do_add_service E D st m s len handle uid b spid = Ret (r, st')" and L: "8 \<le> LENGTH('s)"
    and wf: "svc_wf st"
  shows "(r = -1 \<and> st' = st) \<or>
    (r = 0 \<and> handle \<noteq> 0 \<and> multiuser_get_app_id E uid < AID_APP E \<and>
      (\<exists>cs. svc_name_ok cs \<and> register_service E D cs handle b st = Some st'))"
proof -
  have "(2::nat) ^ 8 \<le> 2 ^ LENGTH('s)" using L by (rule power_increasing) simp
  then have "unat (127 :: 's word) = 127" by (simp add: take_bit_nat_eq_self)
  then have g: "len > 127 \<longleftrightarrow> unat len > 127" "len = 0 \<longleftrightarrow> unat len = 0"
    by (auto simp: word_less_nat_alt unat_eq_zero)
  show ?thesis
  proof (cases "r = -1 \<and> st' = st")
    case False
    then obtain x where h: "handle \<noteq> 0" "0 < unat len" "unat len \<le> 127"
      "multiuser_get_app_id E uid < AID_APP E"
      and f: "find_svc (sm_list st) m s (unat len) = Ret x"
      using assms(1) g
      by (auto simp: do_add_service_def svc_can_register_def cbind_Ret_iff Let_def not_le split: if_splits)
    show ?thesis
    proof (cases x)
      case None
      obtain cs where ld: "load_u16s m s (unat len + 1) = Some cs" and
        e: "svc_malloc E st (unat len) \<noteq> None"
        using assms(1) f None False
        by (auto simp: do_add_service_def cbind_Ret_iff Let_def split: if_splits option.splits)
      have ld': "load_u16s m s (unat len) = Some (take (unat len) cs)"
        using load_u16s_le_prefix [OF ld] by simp
      have l: "length (take (unat len) cs) = unat len" using load_u16s_length [OF ld'] .
      have "svc_entry (sm_list st) (take (unat len) cs) = None"
        using find_svc_None [OF f [unfolded None] ld'] .
      then have "register_service E D (take (unat len) cs) handle b st = Some st' \<and> r = 0"
        using assms(1) f None False e ld l
        by (auto simp: do_add_service_def register_service_def cbind_Ret_iff Let_def
            split: if_splits option.splits)
      moreover have "svc_name_ok (take (unat len) cs)"
        using l h by (auto simp: svc_name_ok_def)
      ultimately show ?thesis using h by blast
    next
      case (Some si)
      note e = find_svc_Some [OF f [unfolded Some]]
      have mem: "si \<in> set (sm_list st)" using svc_entry_Some e by blast
      have "register_service E D (si_name si) handle b st = Some st' \<and> r = 0"
        using assms(1) f Some False e svcinfo_death_eq [OF wf mem, of D]
        by (auto simp: do_add_service_def register_service_def cbind_Ret_iff Let_def split: if_splits)
      moreover have "svc_name_ok (si_name si)" using e h by (auto simp: svc_name_ok_def)
      ultimately show ?thesis using h by blast
    qed
  qed simp
qed

end
