(* ===== verification/Service_Server.thy ===== *)
theory Service_Server
  imports Service_Manager
begin

text \<open>
  The service manager as a server: \<open>svcmgr_handler\<close> and \<open>svcinfo_death\<close> of
  \<open>native/service_manager.c\<close> run by the loop of \<open>native/binder.c\<close>, the start of
  the process (\<open>main\<close>), and the client of \<open>native/bctest.c\<close> that talks to it.
\<close>

section \<open>What the handler does to the state\<close>

text \<open>
  Lookups and listings leave the state alone; an \<open>ADD\<close> leaves it alone or runs
  \<open>do_add_service\<close>.
\<close>

lemma handle_find_state: "handle_find E U t msg reply st = Ret (res, reply', st') \<Longrightarrow> st' = st"
  unfolding handle_find_def cbind_Ret_iff by (auto split: option.splits if_splits simp: cbind_Ret_iff)

lemma handle_list_state: "handle_list E t msg reply st = Ret (res, reply', st') \<Longrightarrow> st' = st"
  unfolding handle_list_def cbind_Ret_iff
  by (elim exE conjE) (auto split: list.splits if_splits simp: cbind_Ret_iff)

lemma handle_add_state:
  fixes msg :: "'s::len binder_io"
  assumes "handle_add E U D t msg reply st = Ret (res, reply', st')"
  shows "st' = st \<or> (\<exists>m s (len :: 's word) hd iso r. do_add_service E D st m s len hd (t_sender_euid t) iso
      (t_sender_pid t) = Ret (r, st'))"
  using assms unfolding handle_add_def cbind_Ret_iff
  by (fastforce split: option.splits if_splits simp: cbind_Ret_iff)

lemma handler_dispatch:
  fixes msg :: "'s::len binder_io"
  assumes "svcmgr_handler E U D t msg reply st = Ret (res, reply', st')"
  defines "st1 \<equiv> st\<lparr>sm_sehandle := refresh_sehandle E (sm_sehandle st)\<rparr>"
  shows "st' = st \<or> st' = st1 \<or> (t_code t = SVC_MGR_ADD_SERVICE \<and>
    (\<exists>m s (len :: 's word) hd iso r. do_add_service E D st1 m s len hd (t_sender_euid t) iso
      (t_sender_pid t) = Ret (r, st')))"
proof (cases "st' = st")
  case False
  then obtain msg1 where
    "(if t_code t = SVC_MGR_GET_SERVICE \<or> t_code t = SVC_MGR_CHECK_SERVICE
        then handle_find E U t msg1 reply st1
      else if t_code t = SVC_MGR_ADD_SERVICE then handle_add E U D t msg1 reply st1
      else if t_code t = SVC_MGR_LIST_SERVICES then handle_list E t msg1 reply st1
      else Ret (-1, reply, st1)) = Ret (res, reply', st')"
    using assms(1) unfolding svcmgr_handler_def cbind_Ret_iff st1_def
    by (auto split: if_splits option.splits simp: cbind_Ret_iff Let_def)
  then show ?thesis
    by (auto split: if_splits dest: handle_find_state handle_list_state handle_add_state)
qed simp

text \<open>
  A transaction leaves the registry alone (it may only refresh the label handle) or registers one
  service, for a caller that is not an application.
\<close>

lemma handler_effect:
  fixes msg :: "'s::len binder_io"
  assumes h: "svcmgr_handler E U D t msg reply st = Ret (res, reply', st')"
    and wf: "svc_wf st" and L: "8 \<le> LENGTH('s)"
  shows "st' = st \<or> st' = st\<lparr>sm_sehandle := refresh_sehandle E (sm_sehandle st)\<rparr> \<or>
    (\<exists>cs hd b. svc_name_ok cs \<and> hd \<noteq> 0 \<and> multiuser_get_app_id E (t_sender_euid t) < AID_APP E \<and>
       t_code t = SVC_MGR_ADD_SERVICE \<and>
       register_service E D cs hd b (st\<lparr>sm_sehandle := refresh_sehandle E (sm_sehandle st)\<rparr>) = Some st')"
proof -
  let ?st = "st\<lparr>sm_sehandle := refresh_sehandle E (sm_sehandle st)\<rparr>"
  have wf1: "svc_wf ?st" using wf by (simp add: svc_wf_def)
  from handler_dispatch [OF h] show ?thesis
    using do_add_service_Ret [OF _ L wf1] by blast
qed

lemma sm_inv_sehandle [simp]: "sm_inv (st\<lparr>sm_sehandle := h\<rparr>) = sm_inv st"
  by (simp add: sm_inv_def svc_wf_def refs_ok_def links_ok_def)

lemma sm_inv_driver [simp]: "sm_inv (st\<lparr>bs_driver := d\<rparr>) = sm_inv st"
  by (simp add: sm_inv_def svc_wf_def refs_ok_def links_ok_def)

lemma handler_inv:
  fixes msg :: "'s::len binder_io"
  assumes "sm_inv st" and "svcmgr_handler E U D t msg reply st = Ret (res, reply', st')"
    and "8 \<le> LENGTH('s)"
  shows "sm_inv st'"
proof -
  have "svc_wf st" using assms(1) by (simp add: sm_inv_def)
  from handler_effect [OF assms(2) this assms(3)] show ?thesis
    using assms(1) by (auto intro: register_service_inv [rotated 3])
qed

lemma sm_inv_log:
  assumes "sm_inv st" and "\<And>h. cmd \<noteq> BC_ACQUIRE h" "\<And>h. cmd \<noteq> BC_RELEASE h"
  shows "sm_inv (st\<lparr>bs_log := bs_log st @ [cmd]\<rparr>)"
  using assms by (auto simp: sm_inv_def svc_wf_def refs_ok_def links_ok_def)

text \<open>The manager keeps its invariant, on the 64-bit build and on the 32-bit one.\<close>

interpretation srv64: txn_service U D "svcmgr_handler E U D :: (64, ('d, 'x) svcmgr_scheme) handler"
  "svcinfo_death D" sm_inv for U E and D :: "'d driver"
proof (unfold_locales, goal_cases)
  case 1 then show ?case by (rule handler_inv) simp
next
  case 2 then show ?case by (rule svcinfo_death_inv)
next
  case 3 then show ?case by simp
next
  case (4 bs cmd) then show ?case by (intro sm_inv_log) auto
qed

interpretation srv32: txn_service U D "svcmgr_handler E U D :: (32, ('d, 'x) svcmgr_scheme) handler"
  "svcinfo_death D" sm_inv for U E and D :: "'d driver"
proof (unfold_locales, goal_cases)
  case 1 then show ?case by (rule handler_inv) simp
next
  case 2 then show ?case by (rule svcinfo_death_inv)
next
  case 3 then show ?case by simp
next
  case (4 bs cmd) then show ?case by (intro sm_inv_log) auto
qed

lemma register_service_frees:
  "register_service E D cs h b st = Some st' \<Longrightarrow> frees st' = frees st"
  by (auto simp: register_service_def Let_def is_free_def split: option.splits if_splits)

lemma svcinfo_death_frees: "svcinfo_death D c st = Ret st' \<Longrightarrow> frees st' = frees st"
  by (auto simp: svcinfo_death_def Let_def is_free_def split: option.splits if_splits)

text \<open>No operation of the manager gives a transaction buffer back.\<close>

lemma do_add_service_frees:
  "do_add_service E D st m s len h uid b spid = Ret (r, st') \<Longrightarrow> frees st' = frees st"
  by (auto simp: do_add_service_def cbind_Ret_iff Let_def is_free_def dest!: svcinfo_death_frees
      split: if_splits option.splits)

lemma handler_frees:
  "svcmgr_handler E U D t msg reply st = Ret (res, reply', st') \<Longrightarrow> frees st' = frees st"
  by (drule handler_dispatch) (auto dest!: do_add_service_frees)

interpretation srv: buffer_discipline "svcmgr_handler E U D :: ('s::len, ('d, 'x) svcmgr_scheme) handler"
  "svcinfo_death D" for E U and D :: "'d driver"
  by unfold_locales (auto dest: handler_frees svcinfo_death_frees)

section \<open>Requests as items\<close>

text \<open>A cursor at the start of exactly these items, with nothing after them.\<close>

definition msg_holds :: "uapi \<Rightarrow> 64 binder_io \<Rightarrow> bio_item list \<Rightarrow> bool" where
  "msg_holds U r its \<longleftrightarrow> bio_wf r \<and> (\<forall>it \<in> set its. item_ok it) \<and>
     (\<exists>os. encodes_items U (rpos r) its (rest r) os \<and> set os \<subseteq> set (roffs r))"

lemma msg_holds_Cons:
  assumes "msg_holds U r (it # its)"
  obtains bs os rs where "bio_wf r" "item_ok it" "encodes U (rpos r) it bs os" "set os \<subseteq> set (roffs r)"
    "rest r = bs @ rs" "\<forall>r'. bio_consumes r bs r' \<and> rest r' = rs \<longrightarrow> msg_holds U r' its"
proof -
  obtain b1 b2 o1 o2 where e: "rest r = b1 @ b2" "encodes U (rpos r) it b1 o1"
    "encodes_items U (rpos r + length b1) its b2 o2" "set (o1 @ o2) \<subseteq> set (roffs r)"
    using assms by (auto simp: msg_holds_def)
  have "msg_holds U r' its" if "bio_consumes r b1 r'" "rest r' = b2" for r'
    using that e assms by (auto simp: msg_holds_def bio_consumes_def)
  then show ?thesis using that [OF _ _ e(2) _ e(1)] e(4) assms by (simp add: msg_holds_def)
qed

lemma msg_u32:
  assumes "msg_holds U r (Item_u32 n # its)"
  obtains r' where "bio_get_uint32 r = Ret (n, r')" "msg_holds U r' its" "bio_mem r' = bio_mem r"
proof -
  obtain bs os rs where H: "bio_wf r" "item_ok (Item_u32 n)" "encodes U (rpos r) (Item_u32 n) bs os"
      "set os \<subseteq> set (roffs r)" "rest r = bs @ rs"
    and k: "\<forall>r'. bio_consumes r bs r' \<and> rest r' = rs \<longrightarrow> msg_holds U r' its"
    using msg_holds_Cons [OF assms] .
  have "rest r = le32 n @ rs" using H(3,5) by simp
  from bio_get_uint32_chunk [OF _ H(1) this] obtain r' where
    "bio_get_uint32 r = Ret (n, r')" "bio_consumes r (le32 n) r'" "rest r' = rs" by auto
  then show ?thesis using that k H(3) by (simp add: bio_consumes_def)
qed

lemma msg_str:
  assumes "msg_holds U r (Item_str cs # its)"
  obtains r' p where "bio_get_string16 r = Ret (Some p, of_nat (length cs), r')"
    "load_u16s (bio_mem r') p (length cs + 1) = Some (cs @ [0])"
    "unat (of_nat (length cs) :: 64 word) = length cs" "msg_holds U r' its"
proof -
  obtain bs os rs where wf: "bio_wf r" and ok: "item_ok (Item_str cs)"
    and e: "encodes U (rpos r) (Item_str cs) bs os" and "set os \<subseteq> set (roffs r)" and rs: "rest r = bs @ rs"
    and k: "\<forall>r'. bio_consumes r bs r' \<and> rest r' = rs \<longrightarrow> msg_holds U r' its"
    using msg_holds_Cons [OF assms] .
  have c: "str_chunk cs bs" "length cs < 2 ^ 29" and L: "32 \<le> LENGTH(64)" using e ok by simp_all
  obtain r' p where G: "bio_get_string16 r = Ret (Some p, of_nat (length cs), r')"
    "load_u16s (bio_mem r') p (length cs + 1) = Some (cs @ [0])"
    "bio_consumes r bs r'" "rest r' = rs" "unat (of_nat (length cs) :: 64 word) = length cs"
    using get_str_chunk [OF L wf c rs] .
  show ?thesis using that [OF G(1,2,5)] k G(3,4) by blast
qed

lemma msg_ref:
  assumes "uapi_ok U" "msg_holds U r (Item_ref h # its)"
  obtains r' where "bio_get_ref U r = Ret (h, r')" "msg_holds U r' its" "h \<noteq> 0" "bio_mem r' = bio_mem r"
proof -
  obtain bs os rs where wf: "bio_wf r" and h: "item_ok (Item_ref h)"
    and e: "encodes U (rpos r) (Item_ref h) bs os" "set os \<subseteq> set (roffs r)" "rest r = bs @ rs"
    and k: "\<forall>r'. bio_consumes r bs r' \<and> rest r' = rs \<longrightarrow> msg_holds U r' its"
    using msg_holds_Cons [OF assms(2)] .
  have "rest r = obj_bytes U (handle_obj U h) @ rs" "of_nat (rpos r) \<in> set (roffs r)"
    and bs: "bs = obj_bytes U (handle_obj U h)" using e by auto
  from bio_get_ref_chunk [OF assms(1) wf this(1,2)] obtain r' where
    G: "bio_get_ref U r = Ret (h, r')" "bio_consumes r (obj_bytes U (handle_obj U h)) r'" "rest r' = rs" .
  show ?thesis using that [OF G(1)] k G h bs by (auto simp: bio_consumes_def)
qed

lemma msg_end:
  assumes "msg_holds U r []"
  shows "bio_get_uint32 r = Ret (0, bio_fault r)"
proof -
  have "unat (bio_data_avail r) = 0" using assms length_rest [of r] by (simp add: msg_holds_def)
  moreover have "unat (align4 (4 :: 64 word)) = 4" using unat_align4_of_nat [where 's = 64, of 4] by simp
  ultimately have "bio_get r 4 = (None, bio_fault r)" by (simp add: bio_get_def Let_def word_less_nat_alt)
  then show ?thesis by (simp add: bio_get_uint32_def)
qed

text \<open>Every request starts with the policy word and the interface name; the handler then dispatches.\<close>

lemma handler_request:
  assumes m: "msg_holds U msg (Item_u32 pol # Item_str svcmgr_id # its)"
    and t: "t_target t = 0" "t_code t \<noteq> ping_transaction U"
  shows "\<exists>msg'. msg_holds U msg' its \<and> svcmgr_handler E U D t msg reply st =
      (let st = st\<lparr>sm_sehandle := refresh_sehandle E (sm_sehandle st)\<rparr>
       in if t_code t = SVC_MGR_GET_SERVICE \<or> t_code t = SVC_MGR_CHECK_SERVICE
          then handle_find E U t msg' reply st
          else if t_code t = SVC_MGR_ADD_SERVICE then handle_add E U D t msg' reply st
          else if t_code t = SVC_MGR_LIST_SERVICES then handle_list E t msg' reply st
          else Ret (-1, reply, st))"
proof -
  obtain m1 where g1: "bio_get_uint32 msg = Ret (pol, m1)" and h1: "msg_holds U m1 (Item_str svcmgr_id # its)"
    and "bio_mem m1 = bio_mem msg" using msg_u32 [OF m] .
  obtain m2 p where g2: "bio_get_string16 m1 = Ret (Some p, of_nat (length svcmgr_id), m2)"
    and l: "load_u16s (bio_mem m2) p (length svcmgr_id + 1) = Some (svcmgr_id @ [0])"
    and u: "unat (of_nat (length svcmgr_id) :: 64 word) = length svcmgr_id" and h2: "msg_holds U m2 its"
    using msg_str [OF h1] .
  have "load_u16s (bio_mem m2) p (length svcmgr_id) = Some svcmgr_id"
    using load_u16s_le_prefix [OF l, of "length svcmgr_id"] by simp
  then have "svcmgr_handler E U D t msg reply st =
      (let st = st\<lparr>sm_sehandle := refresh_sehandle E (sm_sehandle st)\<rparr>
       in if t_code t = SVC_MGR_GET_SERVICE \<or> t_code t = SVC_MGR_CHECK_SERVICE
          then handle_find E U t m2 reply st
          else if t_code t = SVC_MGR_ADD_SERVICE then handle_add E U D t m2 reply st
          else if t_code t = SVC_MGR_LIST_SERVICES then handle_list E t m2 reply st
          else Ret (-1, reply, st))"
    using t g1 g2 u by (simp add: svcmgr_handler_def)
  with h2 show ?thesis by blast
qed

section \<open>What each request does\<close>

text \<open>
  The policy of the manager on a caller and a name: registration is refused to applications and
  to callers without the permission; a lookup is hidden from isolated processes unless the
  service allows them, and from callers without the permission. The permissions are asked for
  the name as \<open>str8\<close> renders it.
\<close>

definition mac_allows :: "sm_env \<Rightarrow> nat \<Rightarrow> txn \<Rightarrow> string \<Rightarrow> u16 list \<Rightarrow> bool" where
  "mac_allows E sh t perm name =
     (case se_lookup E sh (name8 name) of
        None \<Rightarrow> False
      | Some tctx \<Rightarrow> check_mac_perms E (t_sender_pid t) (t_sender_euid t) tctx perm (Some (name8 name)))"

definition may_add :: "sm_env \<Rightarrow> nat \<Rightarrow> txn \<Rightarrow> u16 list \<Rightarrow> bool" where
  "may_add E sh t name \<longleftrightarrow> svc_name_ok name \<and>
     multiuser_get_app_id E (t_sender_euid t) < AID_APP E \<and> mac_allows E sh t ''add'' name"

definition is_isolated :: "sm_env \<Rightarrow> u32 \<Rightarrow> bool" where
  "is_isolated E uid \<longleftrightarrow> AID_ISOLATED_START E \<le> uid mod AID_USER E \<and>
     uid mod AID_USER E \<le> AID_ISOLATED_END E"

definition visible_handle :: "sm_env \<Rightarrow> nat \<Rightarrow> txn \<Rightarrow> ('d, 'x) svcmgr_scheme \<Rightarrow> u16 list \<Rightarrow> u32" where
  "visible_handle E sh t st name =
     (case registry st name of
        None \<Rightarrow> 0
      | Some (h, b) \<Rightarrow>
          if is_isolated E (t_sender_euid t) \<and> \<not> b then 0
          else if mac_allows E sh t ''find'' name then h else 0)"

lemma do_find_service_eq:
  fixes len :: "64 word"
  assumes ld: "load_u16s m s (unat len) = Some cs" and sh: "sm_sehandle st = Some sh"
  shows "do_find_service E st m s len (t_sender_euid t) (t_sender_pid t) = Ret (visible_handle E sh t st cs)"
proof -
  have n: "unat len = length cs" using load_u16s_length [OF ld] by simp
  have f: "find_svc (sm_list st) m s (length cs) = Ret (svc_entry (sm_list st) cs)"
    using find_svc_eq [OF ld] n by (simp add: svc_entry_def)
  have s8: "str8 m (Some s) len = Ret (name8 cs)" using ld by (intro str8_eq) auto
  show ?thesis
    using n f s8 sh
    by (auto simp: do_find_service_def visible_handle_def registry_def svc_can_find_def Let_def
        check_mac_perms_from_lookup_def mac_allows_def is_isolated_def split: option.splits)
qed

lemma find_request:
  assumes m: "msg_holds U msg [Item_u32 pol, Item_str svcmgr_id, Item_str name]"
    and t: "t_target t = 0" "t_code t = SVC_MGR_GET_SERVICE \<or> t_code t = SVC_MGR_CHECK_SERVICE"
      "ping_transaction U \<noteq> t_code t"
    and sh: "refresh_sehandle E (sm_sehandle st) = Some sh"
  shows "svcmgr_handler E U D t msg reply st =
    (let h = visible_handle E sh t st name
     in cbind (if h = 0 then bio_put_uint32 reply 0 else bio_put_ref U reply h)
          (\<lambda>reply. Ret (0, reply, st\<lparr>sm_sehandle := Some sh\<rparr>)))"
proof -
  have "t_code t \<noteq> ping_transaction U" using t(3) by simp
  with handler_request [OF m t(1), of E D reply st] obtain m1 where h: "msg_holds U m1 [Item_str name]"
    and e: "svcmgr_handler E U D t msg reply st = handle_find E U t m1 reply (st\<lparr>sm_sehandle := Some sh\<rparr>)"
    using t(2) sh by (auto simp: Let_def)
  obtain m2 p where g: "bio_get_string16 m1 = Ret (Some p, of_nat (length name), m2)"
    and l: "load_u16s (bio_mem m2) p (length name + 1) = Some (name @ [0])"
    and u: "unat (of_nat (length name) :: 64 word) = length name" and "msg_holds U m2 []"
    using msg_str [OF h] .
  have "load_u16s (bio_mem m2) p (unat (of_nat (length name) :: 64 word)) = Some name"
    using load_u16s_le_prefix [OF l, of "length name"] u by simp
  from do_find_service_eq [OF this, of "st\<lparr>sm_sehandle := Some sh\<rparr>" sh E t]
  show ?thesis
    by (simp add: e handle_find_def g Let_def visible_handle_def registry_def)
qed

text \<open>
  A lookup request, whatever the state of the manager: the reply carries the handle registered
  under exactly the name asked for when the caller may see it, and the word zero otherwise; the
  registry is not touched.
\<close>

theorem handler_find_request:
  assumes m: "msg_holds U msg [Item_u32 pol, Item_str svcmgr_id, Item_str name]"
    and t: "t_target t = 0" "t_code t = SVC_MGR_GET_SERVICE \<or> t_code t = SVC_MGR_CHECK_SERVICE"
      "ping_transaction U \<noteq> t_code t"
    and sh: "refresh_sehandle E (sm_sehandle st) = Some sh"
  shows "svcmgr_handler E U D t msg reply st =
    (let h = visible_handle E sh t st name
     in cbind (if h = 0 then bio_put_uint32 reply 0 else bio_put_ref U reply h)
          (\<lambda>reply. Ret (0, reply, st\<lparr>sm_sehandle := Some sh\<rparr>)))"
  using assms by (rule find_request)

lemma add_request:
  assumes U: "uapi_ok U"
    and m: "msg_holds U msg ([Item_u32 pol, Item_str svcmgr_id, Item_str name, Item_ref h] @
        (case isol of None \<Rightarrow> [] | Some v \<Rightarrow> [Item_u32 v]))"
    and t: "t_target t = 0" "t_code t = SVC_MGR_ADD_SERVICE" "ping_transaction U \<noteq> SVC_MGR_ADD_SERVICE"
    and sh: "refresh_sehandle E (sm_sehandle st) = Some sh" and wf: "svc_wf st"
  shows "svcmgr_handler E U D t msg reply st =
    (let st1 = st\<lparr>sm_sehandle := Some sh\<rparr> in
     case (if may_add E sh t name
           then register_service E D name h (case isol of None \<Rightarrow> False | Some v \<Rightarrow> v \<noteq> 0) st1 else None) of
       None \<Rightarrow> Ret (-1, reply, st1)
     | Some st2 \<Rightarrow> cbind (bio_put_uint32 reply 0) (\<lambda>reply. Ret (0, reply, st2)))"
proof -
  let ?st1 = "st\<lparr>sm_sehandle := Some sh\<rparr>" and ?its = "case isol of None \<Rightarrow> [] | Some v \<Rightarrow> [Item_u32 v]"
  let ?v = "case isol of None \<Rightarrow> 0 | Some v \<Rightarrow> v"
  have "t_code t \<noteq> ping_transaction U" using t by simp
  with handler_request [OF m [simplified append_Cons append_Nil] t(1), of E D reply st] obtain m1
    where h1: "msg_holds U m1 (Item_str name # Item_ref h # ?its)"
    and e: "svcmgr_handler E U D t msg reply st = handle_add E U D t m1 reply ?st1"
    using t(2) sh by (auto simp: Let_def)
  obtain m2 p where g2: "bio_get_string16 m1 = Ret (Some p, of_nat (length name), m2)"
    and l2: "load_u16s (bio_mem m2) p (length name + 1) = Some (name @ [0])"
    and u: "unat (of_nat (length name) :: 64 word) = length name" and h2: "msg_holds U m2 (Item_ref h # ?its)"
    using msg_str [OF h1] .
  obtain m3 where g3: "bio_get_ref U m2 = Ret (h, m3)" and h3: "msg_holds U m3 ?its" and h0: "h \<noteq> 0"
    and m3: "bio_mem m3 = bio_mem m2" using msg_ref [OF U h2] .
  obtain m4 where g4: "bio_get_uint32 m3 = Ret (?v, m4)" and m4: "bio_mem m4 = bio_mem m2"
    using h3 m3 msg_end [of U m3] msg_u32 [of U m3 _ "[]"] by (cases isol) auto
  have "load_u16s (bio_mem m4) p (unat (of_nat (length name) :: 64 word) + 1) = Some (name @ [0])"
    using l2 u m4 by simp
  moreover have "svc_wf ?st1" using wf by (simp add: svc_wf_def)
  ultimately have a: "do_add_service E D ?st1 (bio_mem m4) p (of_nat (length name) :: 64 word) h
      (t_sender_euid t) (?v \<noteq> 0) (t_sender_pid t) =
    Ret (case if may_add E sh t name then register_service E D name h (?v \<noteq> 0) ?st1 else None of
        None \<Rightarrow> (-1, ?st1) | Some st' \<Rightarrow> (0, st'))"
    by (subst do_add_service_eq)
      (auto simp: h0 may_add_def svc_name_ok_def check_mac_perms_from_lookup_def mac_allows_def
        split: option.splits)
  have "(?v \<noteq> 0) = (case isol of None \<Rightarrow> False | Some v \<Rightarrow> v \<noteq> 0)" by (cases isol) auto
  then show ?thesis
    using a by (simp add: e handle_add_def g2 g3 g4 Let_def split: option.splits)
qed

text \<open>
  C15. A registration request, with or without the isolation word: it is refused without any effect
  when the name is empty or longer than 127 units, the caller is an application or lacks the
  permission, or memory is out; otherwise the service is registered and the reply is the word zero.
\<close>

theorem handler_add_request:
  assumes U: "uapi_ok U"
    and m: "msg_holds U msg ([Item_u32 pol, Item_str svcmgr_id, Item_str name, Item_ref h] @
        (case isol of None \<Rightarrow> [] | Some v \<Rightarrow> [Item_u32 v]))"
    and t: "t_target t = 0" "t_code t = SVC_MGR_ADD_SERVICE" "ping_transaction U \<noteq> SVC_MGR_ADD_SERVICE"
    and sh: "refresh_sehandle E (sm_sehandle st) = Some sh" and wf: "svc_wf st"
  shows "svcmgr_handler E U D t msg reply st =
    (let st1 = st\<lparr>sm_sehandle := Some sh\<rparr> in
     case (if may_add E sh t name
           then register_service E D name h (case isol of None \<Rightarrow> False | Some v \<Rightarrow> v \<noteq> 0) st1 else None) of
       None \<Rightarrow> Ret (-1, reply, st1)
     | Some st2 \<Rightarrow> cbind (bio_put_uint32 reply 0) (\<lambda>reply. Ret (0, reply, st2)))"
  using assms by (rule add_request)

lemma list_request:
  assumes m: "msg_holds U msg [Item_u32 pol, Item_str svcmgr_id, Item_u32 n]"
    and t: "t_target t = 0" "t_code t = SVC_MGR_LIST_SERVICES" "ping_transaction U \<noteq> SVC_MGR_LIST_SERVICES"
  shows "svcmgr_handler E U D t msg reply st =
    (let st1 = st\<lparr>sm_sehandle := refresh_sehandle E (sm_sehandle st)\<rparr> in
     if svc_can_list E (t_sender_pid t) (t_sender_euid t) \<and> unat n < length (sm_list st)
     then cbind (bio_put_string16 reply (Some (si_name (sm_list st ! unat n) @ [0])))
            (\<lambda>reply. Ret (0, reply, st1))
     else Ret (-1, reply, st1))"
proof -
  have "t_code t \<noteq> ping_transaction U" using t(3,2) by simp
  with handler_request [OF m t(1), of E D reply st] obtain m1 where h: "msg_holds U m1 [Item_u32 n]"
    and e: "svcmgr_handler E U D t msg reply st =
      handle_list E t m1 reply (st\<lparr>sm_sehandle := refresh_sehandle E (sm_sehandle st)\<rparr>)"
    using t(2) by (auto simp: Let_def)
  obtain m2 where "bio_get_uint32 m1 = Ret (n, m2)" "msg_holds U m2 []" "bio_mem m2 = bio_mem m1"
    using msg_u32 [OF h] .
  then show ?thesis
    by (cases "unat n < length (sm_list st)")
      (simp_all add: e handle_list_def Cons_nth_drop_Suc [symmetric] Let_def)
qed

text \<open>
  A listing request names the entries of the registry in list order: the index selects one
  entry, an index past the end or a caller without the permission is refused.
\<close>

theorem handler_list_request:
  assumes m: "msg_holds U msg [Item_u32 pol, Item_str svcmgr_id, Item_u32 n]"
    and t: "t_target t = 0" "t_code t = SVC_MGR_LIST_SERVICES" "ping_transaction U \<noteq> SVC_MGR_LIST_SERVICES"
  shows "svcmgr_handler E U D t msg reply st =
    (let st1 = st\<lparr>sm_sehandle := refresh_sehandle E (sm_sehandle st)\<rparr> in
     if svc_can_list E (t_sender_pid t) (t_sender_euid t) \<and> unat n < length (sm_list st)
     then cbind (bio_put_string16 reply (Some (si_name (sm_list st ! unat n) @ [0])))
            (\<lambda>reply. Ret (0, reply, st1))
     else Ret (-1, reply, st1))"
  using assms by (rule list_request)

text \<open>
  The reply area of the server leaves room for 224 bytes, so a registered name of 110 to 127
  units does not fit: the listing still succeeds, and what is sent is the length word alone.
\<close>

theorem handler_list_long_name:
  fixes rdata :: bytes and msg :: "64 binder_io"
  assumes m: "msg_holds U msg [Item_u32 pol, Item_str svcmgr_id, Item_u32 n]"
    and t: "t_target t = 0" "t_code t = SVC_MGR_LIST_SERVICES" "ping_transaction U \<noteq> SVC_MGR_LIST_SERVICES"
    and may: "svc_can_list E (t_sender_pid t) (t_sender_euid t)"
    and n: "unat n < length (sm_list st)" "name = si_name (sm_list st ! unat n)"
    and name: "0 \<notin> set name" "110 \<le> length name" "length name \<le> 127"
    and rd: "length rdata = 256"
  shows "\<exists>reply st'. svcmgr_handler E U D t msg (bio_init bio_zero rdata 256 4) st = Ret (0, reply, st') \<and>
    wdata reply = le32 (of_nat (length name)) \<and> overflowed reply"
proof -
  let ?r = "bio_init bio_zero rdata (256 :: 64 word) 4"
  note R = bio_init_fresh [of 256 rdata 4 bio_zero, simplified, OF rd]
  have av: "bio_data_avail ?r = 224" by (simp add: bio_init_def sizeof_size_t_def)
  have wf: "bio_wwf ?r" using R rd by simp
  have L: "32 \<le> LENGTH(64)" by simp
  obtain b where b: "bio_put_uint32 ?r (of_nat (length name)) = Ret b"
    "bio_appends ?r (le32 (of_nat (length name))) [] b"
    using bio_put_uint32_spec [OF L wf, of "of_nat (length name)"] av by auto
  have avb: "unat (bio_data_avail b) = 220" using b(2) av by (simp add: bio_appends_def)
  have un: "unat (of_nat (length name) :: 64 word) = length name"
    using name by (simp add: unat_of_nat)
  have e: "(of_nat (length name) + 1) * (2 :: 64 word) = of_nat (2 * (length name + 1))" by simp
  have a: "unat (align4 (of_nat (2 * (length name + 1)) :: 64 word)) = al4 (2 * (length name + 1))"
    using name by (intro unat_align4_of_nat) auto
  have "bio_data_avail b < align4 ((of_nat (length name) + 1) * 2)"
    unfolding word_less_nat_alt e a avb using name by presburger
  then have al: "bio_alloc b ((of_nat (length name) + 1) * 2) = (None, bio_overflow b)"
    by (simp add: bio_alloc_def)
  have "\<not> MAX_BIO_UNITS \<le> (of_nat (length name) :: 64 word)"
    using name un by (simp add: word_le_nat_alt)
  moreover have "ucast (of_nat (length name) :: 64 word) = (of_nat (length name) :: u32)"
    by (metis un of_nat_unat)
  ultimately have "bio_put_string16 ?r (Some (name @ [0])) = Ret (bio_overflow b)"
    using strlen_terminated [OF name(1), of "[]"] b(1) al
    by (simp add: bio_put_string16_def bio_put_units_def Let_def)
  moreover have "wdata (bio_overflow b) = le32 (of_nat (length name))"
    using b(2) R rd by (simp add: wdata_def bio_appends_def)
  ultimately show ?thesis
    using list_request [OF m t, of E D ?r st] may n by (simp add: Let_def)
qed

section \<open>Memory safety\<close>

text \<open>The readers and writers of references and strings never leave their cursor's memory.\<close>

lemma bio_get_ref_total:
  fixes b :: "64 binder_io"
  assumes U: "uapi_ok U" and wf: "bio_wf b"
  shows "\<exists>h b'. bio_get_ref U b = Ret (h, b') \<and> bio_wf b' \<and> bio_mem b' = bio_mem b"
proof -
  let ?off = "ucast (of_nat (bio_data b) - of_nat (bio_data0 b) :: 64 word) :: u64"
  obtain f where f: "scan_offs (bio_mem b) (bio_offs b) ?off (unat (bio_offs_avail b)) = Ret f"
    using wf scan_offs_eq [of "bio_offs b" "unat (bio_offs_avail b)" "bio_mem b" ?off]
    by (auto simp: bio_wf_def)
  obtain r b1 where g: "bio_get b (of_nat (sizeof_obj U)) = (r, b1)"
    by (cases "bio_get b (of_nat (sizeof_obj U))")
  have wf1: "bio_wf b1" using wf g by (rule bio_get_wf)
  show ?thesis
  proof (cases "f \<and> r \<noteq> None")
    case True
    then obtain p where p: "r = Some p" by blast
    note G = bio_get_Some [OF g [unfolded p]]
    have "p + sizeof_obj U \<le> length (bio_mem b)"
      using G(1,2) wf unat_align4_obj [OF U, where 's = 64] by (simp add: bio_wf_def)
    then obtain bs where "load (bio_mem b) p (sizeof_obj U) = Some bs" using load_Some_iff by metis
    then show ?thesis
      using True f g p G(3) wf1
      by (simp add: bio_get_ref_def bio_get_obj_def split: flat_kind.split)
  next
    case False
    then have "bio_get_obj U b = Ret (None, bio_fault b)"
      using f g bio_get_None(1) [of b _ b1] by (auto simp: bio_get_obj_def)
    moreover have "bio_wf (bio_fault b)" using wf by (simp add: bio_wf_def)
    ultimately show ?thesis by (simp add: bio_get_ref_def)
  qed
qed

lemma bio_put_uint32_total:
  fixes b :: "64 binder_io"
  assumes "bio_wwf b"
  shows "\<exists>b'. bio_put_uint32 b n = Ret b' \<and> bio_wwf b'"
proof -
  have L: "32 \<le> LENGTH(64)" by simp
  from L assms show ?thesis
    by (cases rule: bio_put_uint32_spec [where n = n])
      (use bio_overflow_wwf [OF assms] bio_appends_wwf in blast)+
qed

lemma bio_put_ref_total:
  fixes b :: "64 binder_io"
  assumes U: "uapi_ok U" and wf: "bio_wwf b" and h: "h \<noteq> 0"
  shows "\<exists>b'. bio_put_ref U b h = Ret b' \<and> bio_wwf b'"
proof -
  have L: "32 \<le> LENGTH(64)" and it: "item_ok (Item_ref h)" using h by simp_all
  from U L wf it show ?thesis
    by (cases rule: put_item_spec) (auto dest: bio_appends_wwf)
qed

lemma strlen_zero: "strlen (cs @ [0]) = Some (length (takeWhile (\<lambda>c. c \<noteq> 0) cs))"
  by (induction cs) auto

lemma take_strlen: "take (length (takeWhile (\<lambda>c. c \<noteq> 0) cs) + 1) (cs @ [0]) = takeWhile (\<lambda>c. c \<noteq> (0 :: u16)) cs @ [0]"
  by (induction cs) auto

lemma bio_put_string16_total:
  fixes b :: "64 binder_io"
  assumes wf: "bio_wwf b" and n: "length cs < 2 ^ 29"
  shows "\<exists>b'. bio_put_string16 b (Some (cs @ [0])) = Ret b' \<and> bio_wwf b'"
proof -
  let ?t = "takeWhile (\<lambda>c. c \<noteq> 0) cs"
  have "length ?t < 2 ^ 29" using n length_takeWhile_le [of _ cs] order.strict_trans1 by blast
  moreover have "bio_put_string16 b (Some (cs @ [0])) = bio_put_units b (length ?t) (?t @ [0])"
    by (simp only: bio_put_string16_def option.case strlen_zero of_mem_simps cbind.simps take_strlen)
  ultimately show ?thesis
    using bio_put_units_spec [OF _ wf, of ?t] by (auto dest: bio_appends_wwf)
qed

lemma load_u16s_snoc: "load_u16s m p (n + 1) = Some cs \<Longrightarrow> \<exists>cs' c. cs = cs' @ [c] \<and> load_u16s m p n = Some cs'"
  using load_u16s_length [of m p "n + 1" cs] load_u16s_le_prefix [of m p "n + 1" cs n]
  by (cases cs rule: rev_cases) auto

text \<open>Reading a string, as a case distinction on what the handler can get.\<close>

lemma get_string_cases:
  fixes b :: "64 binder_io"
  assumes "bio_wf b"
  obtains (none) len b' where "bio_get_string16 b = Ret (None, len, b')" "bio_wf b'" "bio_mem b' = bio_mem b"
  | (some) q len b' cs c where "bio_get_string16 b = Ret (Some q, len, b')" "bio_wf b'"
      "bio_mem b' = bio_mem b" "load_u16s (bio_mem b) q (unat len + 1) = Some (cs @ [c])"
      "load_u16s (bio_mem b) q (unat len) = Some cs"
proof -
  obtain p len b' where g: "bio_get_string16 b = Ret (p, len, b')" "bio_wf b'" "bio_mem b' = bio_mem b"
    and k: "case p of None \<Rightarrow> True | Some q \<Rightarrow> \<exists>cs. load_u16s (bio_mem b) q (unat len + 1) = Some cs"
    using bio_get_string16_bounds [OF assms] by (fastforce split: option.splits)
  show ?thesis
  proof (cases p)
    case None
    then show ?thesis using none g by simp
  next
    case (Some q)
    then show ?thesis using some [of q len b'] g k load_u16s_snoc by fastforce
  qed
qed

lemma handle_find_total:
  fixes msg reply :: "64 binder_io"
  assumes U: "uapi_ok U" and wf: "bio_wf msg" "bio_wwf reply" and sh: "sm_sehandle st = Some sh"
  shows "\<exists>res reply'. handle_find E U t msg reply st = Ret (res, reply', st) \<and> bio_wwf reply'"
  using wf(1)
proof (cases rule: get_string_cases)
  case none
  then show ?thesis using wf(2) by (simp add: handle_find_def)
next
  case (some q len b' cs c)
  have "do_find_service E st (bio_mem b') q len (t_sender_euid t) (t_sender_pid t) = Ret (visible_handle E sh t st cs)"
    using do_find_service_eq [OF some(5) sh] some(3) by simp
  then show ?thesis
    using some(1) bio_put_uint32_total [OF wf(2), of 0] bio_put_ref_total [OF U wf(2), of "visible_handle E sh t st cs"]
    by (auto simp: handle_find_def)
qed

lemma do_add_service_total:
  fixes len :: "64 word"
  assumes ld: "load_u16s m q (unat len + 1) = Some (cs @ [c])" and inv: "svc_wf st" and sh: "sm_sehandle st = Some sh"
  shows "\<exists>r st'. do_add_service E D st m q len h uid b spid = Ret (r, st')"
proof -
  have "\<exists>ok. check_mac_perms_from_lookup E (sm_sehandle st) spid uid ''add'' (name8 cs) = Ret ok"
    using sh by (cases "se_lookup E sh (name8 cs)") (auto simp: check_mac_perms_from_lookup_def)
  then show ?thesis
    using inv by (auto simp: do_add_service_eq [OF ld] split: option.split)
qed

lemma handle_add_total:
  fixes msg reply :: "64 binder_io"
  assumes U: "uapi_ok U" and wf: "bio_wf msg" "bio_wwf reply" and sh: "sm_sehandle st = Some sh"
    and inv: "svc_wf st"
  shows "\<exists>res reply' st'. handle_add E U D t msg reply st = Ret (res, reply', st') \<and> bio_wwf reply'"
  using wf(1)
proof (cases rule: get_string_cases)
  case none
  then show ?thesis using wf(2) by (simp add: handle_add_def)
next
  case (some q len b1 cs c)
  obtain h b2 where g2: "bio_get_ref U b1 = Ret (h, b2)" "bio_wf b2" "bio_mem b2 = bio_mem b1"
    using bio_get_ref_total [OF U some(2)] by blast
  have L: "32 \<le> LENGTH(64)" by simp
  obtain v b3 where g3: "bio_get_uint32 b2 = Ret (v, b3)" "bio_wf b3" "bio_mem b3 = bio_mem b2"
    using bio_get_uint32_wf [OF L g2(2)] .
  have ld: "load_u16s (bio_mem b3) q (unat len + 1) = Some (cs @ [c])" using some(3,4) g2(3) g3(3) by simp
  obtain r st' where "do_add_service E D st (bio_mem b3) q len h (t_sender_euid t) (v \<noteq> 0) (t_sender_pid t)
      = Ret (r, st')"
    using do_add_service_total [OF ld inv sh] by blast
  then show ?thesis
    using some(1) g2(1) g3(1) wf(2) bio_put_uint32_total [OF wf(2), of 0]
    by (auto simp: handle_add_def)
qed

lemma handle_list_total:
  fixes msg reply :: "64 binder_io"
  assumes wf: "bio_wf msg" "bio_wwf reply" and inv: "svc_wf st"
  shows "\<exists>res reply'. handle_list E t msg reply st = Ret (res, reply', st) \<and> bio_wwf reply'"
proof -
  have L: "32 \<le> LENGTH(64)" by simp
  obtain n b' where g: "bio_get_uint32 msg = Ret (n, b')" "bio_wf b'" "bio_mem b' = bio_mem msg"
    using bio_get_uint32_wf [OF L wf(1)] .
  show ?thesis
  proof (cases "drop (unat n) (sm_list st)")
    case (Cons si l)
    then have "si \<in> set (sm_list st)" by (metis in_set_dropD list.set_intros(1))
    then have "length (si_name si) < 2 ^ 29" using inv by (fastforce simp: svc_wf_def)
    from bio_put_string16_total [OF wf(2) this] show ?thesis
      using g(1) Cons wf(2) by (auto simp: handle_list_def)
  qed (use g(1) wf(2) in \<open>simp add: handle_list_def\<close>)
qed

lemma handler_total:
  fixes msg reply :: "64 binder_io"
  assumes U: "uapi_ok U" and wf: "bio_wf msg" "bio_wwf reply"
    and inv: "svc_wf st" and sh: "sm_sehandle st \<noteq> None"
  shows "\<exists>res reply' st'. svcmgr_handler E U D t msg reply st = Ret (res, reply', st') \<and> bio_wwf reply'"
proof -
  have L: "32 \<le> LENGTH(64)" by simp
  let ?st = "st\<lparr>sm_sehandle := refresh_sehandle E (sm_sehandle st)\<rparr>"
  have "refresh_sehandle E (sm_sehandle st) \<noteq> None"
    using sh by (auto simp: refresh_sehandle_def split: option.splits)
  then obtain sh' where sh': "sm_sehandle ?st = Some sh'" by auto
  have inv': "svc_wf ?st" using inv by (simp add: svc_wf_def)
  obtain v b1 where g: "bio_get_uint32 msg = Ret (v, b1)" "bio_wf b1" "bio_mem b1 = bio_mem msg"
    using bio_get_uint32_wf [OF L wf(1)] .
  from g(2) show ?thesis
  proof (cases rule: get_string_cases)
    case none
    then show ?thesis using g wf(2) by (simp add: svcmgr_handler_def)
  next
    case (some q len b2 cs c)
    have s8: "str8 (bio_mem b2) (Some q) len = Ret (name8 cs)" using some(3,5) by (intro str8_eq) auto
    have ld: "unat len = length svcmgr_id \<Longrightarrow> load_u16s (bio_mem b2) q (length svcmgr_id) = Some cs"
      using some(3,5) by metis
    note H = handle_find_total [OF U some(2) wf(2) sh', of E t] handle_add_total [OF U some(2) wf(2) sh' inv', of E D t]
      handle_list_total [OF some(2) wf(2) inv', of E t]
    show ?thesis
    proof (cases "unat len = length svcmgr_id \<and> cs = svcmgr_id")
      case True
      then show ?thesis
        using g some(1) ld H wf(2) by (auto simp: svcmgr_handler_def Let_def)
    next
      case False
      then show ?thesis
        using g some(1) ld s8 wf(2) by (auto simp: svcmgr_handler_def Let_def)
    qed
  qed
qed

text \<open>
  Memory safety of the service manager on a 64-bit target: whatever bytes a client sends in
  whatever transaction, the handler returns a status and a well-formed reply. It never reads or
  writes outside the message, the reply area and the registry, and never runs the label lookup
  without a handle.
\<close>

theorem handler_memory_safe:
  fixes msg reply :: "64 binder_io"
  assumes U: "uapi_ok U" and wf: "bio_wf msg" "bio_wwf reply"
    and inv: "svc_wf st" and sh: "sm_sehandle st \<noteq> None"
  shows "\<exists>res reply' st'. svcmgr_handler E U D t msg reply st = Ret (res, reply', st') \<and> bio_wwf reply'"
  using assms by (rule handler_total)

section \<open>The server never faults\<close>

definition svc_addrs :: "('d, 'x) svcmgr_scheme \<Rightarrow> u64 set" where
  "svc_addrs st = si_addr ` set (sm_list st)"

lemma svc_addrs_sehandle [simp]: "svc_addrs (st\<lparr>sm_sehandle := x\<rparr>) = svc_addrs st"
  by (simp add: svc_addrs_def)

text \<open>What holds whenever the parser calls into the manager.\<close>

definition server_ok :: "('d, 'x) svcmgr_scheme \<Rightarrow> bool" where
  "server_ok st \<longleftrightarrow> sm_inv st \<and> sm_sehandle st \<noteq> None"

lemma addrs_set_handle [simp]: "si_addr ` set (set_handle a h l) = si_addr ` set l"
  by (metis list.set_map set_handle_simps(1))

lemma register_service_grows:
  "register_service E D cs h b st = Some st' \<Longrightarrow>
   svc_addrs st \<subseteq> svc_addrs st' \<and> sm_sehandle st' = sm_sehandle st"
  by (auto simp: register_service_def svc_addrs_def Let_def split: option.splits)

lemma handler_grows:
  fixes msg :: "64 binder_io"
  assumes ok: "server_ok st" and h: "svcmgr_handler E U D t msg reply st = Ret (res, reply', st')"
  shows "server_ok st' \<and> svc_addrs st \<subseteq> svc_addrs st'"
proof -
  have wf: "svc_wf st" and i: "sm_inv st'"
    using ok handler_inv [OF _ h] by (auto simp: server_ok_def sm_inv_def)
  have sh: "refresh_sehandle E (sm_sehandle st) \<noteq> None"
    using ok by (auto simp: server_ok_def refresh_sehandle_def split: option.splits)
  have "st' = st \<or> st' = st\<lparr>sm_sehandle := refresh_sehandle E (sm_sehandle st)\<rparr> \<or>
    (\<exists>cs hd b. register_service E D cs hd b (st\<lparr>sm_sehandle := refresh_sehandle E (sm_sehandle st)\<rparr>) = Some st')"
    using handler_effect [OF h wf] by auto
  then show ?thesis
    using ok i sh by (auto simp: server_ok_def dest!: register_service_grows)
qed

lemma death_total:
  assumes ok: "server_ok st" and k: "k \<in> svc_addrs st"
  shows "\<exists>st'. svcinfo_death D k st = Ret st' \<and> server_ok st' \<and> svc_addrs st' = svc_addrs st"
proof -
  obtain si where si: "si \<in> set (sm_list st)" "k = si_addr si" using k by (auto simp: svc_addrs_def)
  have wf: "svc_wf st" using ok by (simp add: server_ok_def sm_inv_def)
  note e = svcinfo_death_eq [OF wf si(1), of D]
  have "sm_inv st \<Longrightarrow> svcinfo_death D k st = Ret st' \<Longrightarrow> sm_inv st'" for st'
    by (rule svcinfo_death_inv)
  then show ?thesis using e si ok by (auto simp: server_ok_def svc_addrs_def)
qed

lemma server_ok_reply:
  "server_ok st \<Longrightarrow> server_ok (binder_send_reply U D st reply b r) \<and>
     svc_addrs (binder_send_reply U D st reply b r) = svc_addrs st"
  "server_ok st \<Longrightarrow> server_ok (binder_free_buffer D st b) \<and> svc_addrs (binder_free_buffer D st b) = svc_addrs st"
  using srv64.send_reply_keeps [of st U D reply b r] srv64.write_one_keeps [of st "BC_FREE_BUFFER b" b _ D]
  by (auto simp: server_ok_def svc_addrs_def binder_send_reply_def binder_free_buffer_def Let_def)

text \<open>
  A stream is acceptable when each transaction's buffer lies inside the memory the driver maps and
  each death notice carries a cookie the manager gave out.
\<close>

definition stream_ok :: "'d driver \<Rightarrow> frame list \<Rightarrow> u64 set \<Rightarrow> bool" where
  "stream_ok D fs A \<longleftrightarrow>
     (\<forall>t. F_txn t \<in> set fs \<longrightarrow> (\<forall>d. bio_wf (bio_init_from_txn (drv_mem D d) t :: 64 binder_io))) \<and>
     (\<forall>k. F_dead k \<in> set fs \<longrightarrow> k \<in> A)"

lemma stream_ok_mono: "stream_ok D (f # fs) A \<Longrightarrow> A \<subseteq> B \<Longrightarrow> stream_ok D fs B"
  by (auto simp: stream_ok_def)

lemma transaction_total:
  fixes rdata :: bytes
  assumes U: "uapi_ok U" and rd: "length rdata = 256" and ok: "server_ok st"
    and b: "bio_wf (bio_init_from_txn (drv_mem D (bs_driver st)) t :: 64 binder_io)"
  shows "\<exists>st'. parse_transaction U D (svcmgr_handler E U D :: (64, _) handler) rdata t st = Ret st' \<and>
    server_ok st' \<and> svc_addrs st \<subseteq> svc_addrs st'"
proof -
  let ?m = "bio_init_from_txn (drv_mem D (bs_driver st)) t :: 64 binder_io"
  let ?r = "bio_init bio_zero rdata 256 4 :: 64 binder_io"
  have r: "bio_wwf ?r" using bio_init_fresh [of 256 rdata 4 bio_zero] rd by simp
  have i: "svc_wf st" "sm_sehandle st \<noteq> None" using ok by (auto simp: server_ok_def sm_inv_def)
  obtain res reply' st' where h: "svcmgr_handler E U D t ?m ?r st = Ret (res, reply', st')"
    using handler_total [OF U b r i] by blast
  from handler_grows [OF ok h] h show ?thesis
    by (auto simp: parse_transaction_def server_ok_reply)
qed

lemma serve_total:
  assumes "uapi_ok U" "length rdata = 256" "server_ok st" "stream_ok D fs (svc_addrs st)"
  shows "\<exists>r' st'. serve U D (svcmgr_handler E U D :: (64, _) handler) (svcinfo_death D) rdata fs r st
      = Ret (r', st') \<and> server_ok st'"
  using assms(3,4)
proof (induction fs arbitrary: r st)
  case (Cons f fs)
  have k: "stream_ok D fs B" if "svc_addrs st \<subseteq> B" for B using Cons.prems(2) that by (rule stream_ok_mono)
  have here: "stream_ok D fs (svc_addrs st)" by (rule k) simp
  show ?case
  proof (cases f)
    case (F_txn t)
    then have "bio_wf (bio_init_from_txn (drv_mem D (bs_driver st)) t :: 64 binder_io)"
      using Cons.prems(2) by (simp add: stream_ok_def)
    from transaction_total [OF assms(1,2) Cons.prems(1) this, of E] obtain st1 where
      p: "parse_transaction U D (svcmgr_handler E U D :: (64, _) handler) rdata t st = Ret st1"
      "server_ok st1" "svc_addrs st \<subseteq> svc_addrs st1" by blast
    then show ?thesis using F_txn Cons.IH [OF p(2) k] by simp
  next
    case (F_dead c)
    then have "c \<in> svc_addrs st" using Cons.prems(2) by (simp add: stream_ok_def)
    from death_total [OF Cons.prems(1) this, of D] obtain st1 where
      p: "svcinfo_death D c st = Ret st1" "server_ok st1" "svc_addrs st1 = svc_addrs st" by blast
    then show ?thesis using F_dead Cons.IH [OF p(2)] here by simp
  qed (use Cons.IH [OF Cons.prems(1) here] Cons.prems(1) in simp_all)
qed simp

text \<open>
  C2. The server never faults on a 64-bit target: for every acceptable stream of commands from the
  driver -- whatever the transactions contain -- serving it returns, with the registry, its
  references and its death links intact.
\<close>

theorem server_never_faults:
  assumes "uapi_ok U" "length rdata = 256" "server_ok st" "stream_ok D fs (svc_addrs st)"
  shows "\<exists>r' st'. serve U D (svcmgr_handler E U D :: (64, _) handler) (svcinfo_death D) rdata fs r st
      = Ret (r', st') \<and> server_ok st'"
  using assms by (rule serve_total)

section \<open>The life of the server\<close>

text \<open>
  C4. In every state the server loop reaches from an empty registry the names are distinct and of
  legal length, every strong reference the manager has taken and not returned belongs to exactly
  one entry that holds the handle, and each such entry has a death notification with its own
  address as cookie.
\<close>

theorem server_invariant:
  assumes "loop_reach U D (svcmgr_handler E U D :: (64, ('d, 'x) svcmgr_scheme) handler)
      (svcinfo_death D) rdata st0 stale st"
    and "sm_list st0 = []" "bs_log st0 = []"
  shows "distinct (map si_name (sm_list st)) \<and> (\<forall>si \<in> set (sm_list st). svc_name_ok (si_name si)) \<and>
    (\<forall>h. h \<noteq> 0 \<longrightarrow> acquired h (bs_log st) = released h (bs_log st) + holders h (sm_list st)) \<and>
    (\<forall>si \<in> set (sm_list st). si_handle si \<noteq> 0 \<longrightarrow>
       BC_REQUEST_DEATH_NOTIFICATION (si_handle si) (si_addr si) \<in> set (bs_log st))"
proof -
  have "sm_inv st0" using assms(2,3) by (simp add: sm_inv_def svc_wf_def refs_ok_def links_ok_def)
  with assms(1) have "sm_inv st" by (rule srv64.reach_keeps)
  then show ?thesis by (auto simp: sm_inv_def svc_wf_def refs_ok_def links_ok_def svc_name_ok_def)
qed

text \<open>
  C16. No transaction of an application changes the registry or takes a reference, whatever it
  contains and whatever the policy allows.
\<close>

theorem app_cannot_register:
  fixes msg :: "64 binder_io"
  assumes "svcmgr_handler E U D t msg reply st = Ret (res, reply', st')" "svc_wf st"
    and "AID_APP E \<le> multiuser_get_app_id E (t_sender_euid t)"
  shows "registry st' = registry st \<and> bs_log st' = bs_log st"
proof -
  have "8 \<le> LENGTH(64)" by simp
  from handler_effect [OF assms(1,2) this] assms(3) show ?thesis
    by (auto simp: registry_def fun_eq_iff not_less [symmetric])
qed

text \<open>
  Serving a stream gives back exactly the buffers of the transactions served, each once and in
  order: the handler itself frees none.
\<close>

theorem server_frees_buffers:
  assumes "serve U D (svcmgr_handler E U D :: ('s::len, ('d, 'x) svcmgr_scheme) handler) (svcinfo_death D)
      rdata fs r st = Ret (r', st')"
  shows "frees st' = frees st @ map BC_FREE_BUFFER (txn_buffers fs)"
  using assms by (rule srv.serve_frees)

text \<open>
  A service that was registered is found: after a successful registration a lookup of the
  same name by any caller that may see it answers with the new handle, and lookups of other names
  answer as before.
\<close>

theorem added_service_found:
  assumes wf: "svc_wf st" and ok: "svc_name_ok name"
    and add: "register_service E D name h b st = Some st'"
    and see: "mac_allows E' sh t ''find'' name" "\<not> is_isolated E' (t_sender_euid t)"
  shows "visible_handle E' sh t st' name = h \<and>
    (\<forall>other. other \<noteq> name \<longrightarrow> visible_handle E' sh t st' other = visible_handle E' sh t st other)"
proof -
  obtain b' where "registry st' name = Some (h, b')" using svc.lookup_added [OF wf ok add] by blast
  then show ?thesis
    using see svc.lookup_other [OF wf ok add] by (simp add: visible_handle_def)
qed

text \<open>
  When a service dies its name stays, resolves to nothing for everyone, and can be registered
  again; the isolation flag is the one of the first registration, whatever later ones ask for.
\<close>

theorem dead_service_reregisters:
  assumes wf: "svc_wf st" and ok: "svc_name_ok name" and l: "registry st name = Some (h0, b0)"
  shows "visible_handle E' sh t (service_died D name st) name = 0 \<and>
    (\<exists>st'. register_service E D name h b (service_died D name st) = Some st' \<and>
       registry st' name = Some (h, b0))"
  using svc.die_then_add [OF wf ok l, of D E h b]
  by (auto simp: visible_handle_def)

lemma str8_copy_oob: "load16 m p = None \<Longrightarrow> 0 < k \<Longrightarrow> str8_copy m p k = Oob"
  by (cases k) auto

lemma bio_get_uint32_pos:
  fixes b :: "'s::len binder_io"
  assumes L: "32 \<le> LENGTH('s)" and g: "bio_get_uint32 b = Ret (v, b')" and n: "4 \<le> unat (bio_data_avail b)"
  shows "bio_data b' = bio_data b + 4"
proof -
  have a: "unat (align4 (4 :: 's word)) = 4" using unat_align4_of_nat [OF L, of 4] by simp
  then have "bio_get b 4 = (Some (bio_data b), b\<lparr>bio_data := bio_data b + 4,
      bio_data_avail := bio_data_avail b - align4 4\<rparr>)"
    using n by (simp add: bio_get_def Let_def word_less_nat_alt)
  then show ?thesis using g by (auto simp: bio_get_uint32_def cbind_Ret_iff)
qed

text \<open>
  C19. On a 32-bit target a message that ends in a length word of \<open>0xffffffff\<close> where the
  interface name is expected makes the handler read beyond the message, while it renders the bad
  name for its log.
\<close>

theorem handler_overread_ilp32:
  fixes msg :: "32 binder_io"
  assumes t: "t_target t = 0" "t_code t \<noteq> ping_transaction U"
    and m: "bio_wf msg" "rest msg = le32 pol @ le32 0xffffffff"
      "bio_data msg + unat (bio_data_avail msg) = length (bio_mem msg)"
  shows "svcmgr_handler E U D t msg reply st = Oob"
proof -
  have L: "32 \<le> LENGTH(32)" by simp
  have l8: "unat (bio_data_avail msg) = 8" using length_rest [OF m(1)] m(2) by simp
  obtain b1 where g: "bio_get_uint32 msg = Ret (pol, b1)" and c: "bio_consumes msg (le32 pol) b1"
    and r: "rest b1 = le32 0xffffffff" using bio_get_uint32_chunk [OF L m(1,2)] .
  have r': "rest b1 = le32 0xffffffff @ []" and wf1: "bio_wf b1" using r c by (simp_all add: bio_consumes_def)
  obtain b2 where g2: "bio_get_uint32 b1 = Ret (0xffffffff, b2)" and c2: "bio_consumes b1 (le32 0xffffffff) b2"
    and r2: "rest b2 = []" using bio_get_uint32_chunk [OF L wf1 r'] .
  have wf2: "bio_wf b2" using c2 by (simp add: bio_consumes_def)
  have "unat (align4 (0 :: 32 word)) = length ([] :: bytes)" using unat_align4_of_nat [OF L, of 0] by simp
  moreover have "rest b2 = [] @ []" using r2 by simp
  ultimately obtain b3 where g3: "bio_get b2 0 = (Some (bio_data b2), b3)" "bio_consumes b2 [] b3"
    using bio_get_chunk [OF wf2, of "[]" "[]" 0] by metis
  have "bio_data b1 = bio_data msg + 4" using bio_get_uint32_pos [OF L g] l8 by simp
  moreover have "bio_data b2 = bio_data b1 + 4"
    using bio_get_uint32_pos [OF L g2] length_rest [OF wf1] r by simp
  moreover have mem: "bio_mem b3 = bio_mem msg"
    using c c2 g3(2) by (simp add: bio_consumes_def)
  ultimately have "load16 (bio_mem b3) (bio_data b2) = None"
    using m(3) l8 by (simp add: load16_def load_def)
  then have s8: "str8 (bio_mem b3) (Some (bio_data b2)) (0xffffffff :: 32 word) = Oob"
    by (simp add: str8_def str8_copy_oob)
  have z: "((ucast (0xffffffff :: u32) + 1) * 2 :: 32 word) = 0" by code_simp
  have "bio_get_string16 b1 = Ret (Some (bio_data b2), ucast (0xffffffff :: u32), b3)"
    by (rule bio_get_string16_eq [OF g2]) (simp only: z g3)
  moreover have "length svcmgr_id = 26" by code_simp
  ultimately show ?thesis using t g s8 by (simp add: svcmgr_handler_def)
qed

end
