(* ===== verification/Service_Start.thy ===== *)
theory Service_Start
  imports Service_Server
begin

text \<open>
  The two programs around the service manager: \<open>main\<close> of \<open>native/service_manager.c\<close>,
  which opens the driver, claims the context and enters the loop, and the client
  \<open>native/bctest.c\<close>, which looks services up and publishes them. What the client writes is
  connected to what the manager reads.
\<close>

section \<open>Starting the manager\<close>

text \<open>
  The results of the calls \<open>main\<close> makes: the driver, the ioctl that claims the context, and
  SELinux. Aborts of the process are \<open>Abort\<close>; the vendor build is not modelled.
\<close>

record 'd main_env =
  me_open :: open_env
  me_driver :: 'd
  me_become :: "'d \<Rightarrow> int \<times> 'd"
  me_sehandle :: "nat option"
  me_getcon :: "string option"
  me_heap :: u64
  me_resources :: resources

definition binder_become_context_manager ::
    "('d \<Rightarrow> int \<times> 'd) \<Rightarrow> ('d, 'x) binder_state_scheme \<Rightarrow> int \<times> ('d, 'x) binder_state_scheme" where
  "binder_become_context_manager become bs =
     (case become (bs_driver bs) of (res, d) \<Rightarrow> (res, bs\<lparr>bs_driver := d\<rparr>))"

definition svcmgr_state :: "'d binder_state \<Rightarrow> u64 \<Rightarrow> nat option \<Rightarrow> 'd svcmgr" where
  \<comment> \<open>the process state around a driver connection: no service yet\<close>
  "svcmgr_state bs heap sehandle = \<lparr>bs_fd = bs_fd bs, bs_mapsize = bs_mapsize bs,
     bs_driver = bs_driver bs, bs_log = bs_log bs, sm_list = [], sm_next = heap, sm_sehandle = sehandle\<rparr>"

definition svcmgr_main ::
    "'d main_env \<Rightarrow> sm_env \<Rightarrow> uapi \<Rightarrow> 'd driver \<Rightarrow> 's::len itself \<Rightarrow> bytes \<Rightarrow> bytes
       \<Rightarrow> (int \<times> 'd svcmgr option) cres option" where
  "svcmgr_main M E U D ty rdata stale =
     (case fst (binder_open (me_open M) (me_driver M) (128 * 1024) (me_resources M)) of
        None \<Rightarrow> Some (Ret (-1, None))
      | Some bs \<Rightarrow>
          (case binder_become_context_manager (me_become M) bs of (res, bs) \<Rightarrow>
             if res \<noteq> 0 then Some (Ret (-1, None))
             else if me_sehandle M = None then Some Abort
             else (case me_getcon M of
                 None \<Rightarrow> Some Abort
               | Some con \<Rightarrow>
                   (case binder_loop U D
                      (svcmgr_handler (E\<lparr>se_context := con\<rparr>) U D :: ('s, 'd svcmgr) handler)
                      (svcinfo_death D) rdata stale (svcmgr_state bs (me_heap M) (me_sehandle M)) of
                      None \<Rightarrow> None
                    | Some r \<Rightarrow> Some (cbind r (\<lambda>st. Ret (0, Some st)))))))"

section \<open>The client\<close>

definition SVC_MGR_NAME :: bytes where
  "SVC_MGR_NAME = map (\<lambda>c. of_nat (of_char c)) ''android.os.IServiceManager''"

definition lookup_msg :: "bytes \<Rightarrow> bytes \<Rightarrow> 's::len binder_io cres" where
  \<comment> \<open>the message \<open>svcmgr_lookup\<close> builds; names are byte strings with their terminator\<close>
  "lookup_msg iodata name =
     cbind (bio_put_uint32 (bio_init bio_zero iodata 512 4) 0) (\<lambda>msg.
     cbind (bio_put_string16_x msg (Some (SVC_MGR_NAME @ [0]))) (\<lambda>msg.
     bio_put_string16_x msg (Some name)))"

definition publish_msg :: "uapi \<Rightarrow> bytes \<Rightarrow> bytes \<Rightarrow> u64 \<Rightarrow> 's::len binder_io cres" where
  "publish_msg U iodata name ptr = cbind (lookup_msg iodata name) (\<lambda>msg. bio_put_obj U msg ptr)"

definition no_death :: "u64 \<Rightarrow> ('d, 'x) binder_state_scheme \<Rightarrow> ('d, 'x) binder_state_scheme cres" where
  \<comment> \<open>the client asks for no death notice: a notice would call through a wild cookie\<close>
  "no_death c bs = Oob"

definition svcmgr_lookup ::
    "uapi \<Rightarrow> 'd driver \<Rightarrow> bytes \<Rightarrow> bytes \<Rightarrow> 's::len binder_io \<Rightarrow> ('d, 'x) binder_state_scheme \<Rightarrow> u32 \<Rightarrow> bytes
       \<Rightarrow> (u32 \<times> ('d, 'x) binder_state_scheme) cres option" where
  "svcmgr_lookup U D stale iodata reply0 bs target name =
     (case lookup_msg iodata name :: 's binder_io cres of
        Abort \<Rightarrow> Some Abort | Oob \<Rightarrow> Some Oob
      | Ret msg \<Rightarrow>
          (case binder_call U D no_death stale bs msg reply0 target SVC_MGR_CHECK_SERVICE of
             None \<Rightarrow> None
           | Some c \<Rightarrow> Some (cbind c (\<lambda>(res, bs, reply).
               if res \<noteq> 0 then Ret (0, bs)
               else cbind (bio_get_ref U reply) (\<lambda>(handle, reply).
                 let bs = (if handle \<noteq> 0 then binder_acquire D bs handle else bs)
                 in Ret (handle, fst (binder_done D bs reply)))))))"

definition svcmgr_publish ::
    "uapi \<Rightarrow> 'd driver \<Rightarrow> bytes \<Rightarrow> bytes \<Rightarrow> 's::len binder_io \<Rightarrow> ('d, 'x) binder_state_scheme \<Rightarrow> u32 \<Rightarrow> bytes
       \<Rightarrow> u64 \<Rightarrow> (u32 \<times> ('d, 'x) binder_state_scheme) cres option" where
  "svcmgr_publish U D stale iodata reply0 bs target name ptr =
     (case publish_msg U iodata name ptr :: 's binder_io cres of
        Abort \<Rightarrow> Some Abort | Oob \<Rightarrow> Some Oob
      | Ret msg \<Rightarrow>
          (case binder_call U D no_death stale bs msg reply0 target SVC_MGR_ADD_SERVICE of
             None \<Rightarrow> None
           | Some c \<Rightarrow> Some (cbind c (\<lambda>(res, bs, reply).
               if res \<noteq> 0 then Ret (-1, bs)
               else cbind (bio_get_uint32 reply) (\<lambda>(status, reply).
                 Ret (status, fst (binder_done D bs reply)))))))"

text \<open>
  The argument loop of \<open>main\<close>: each command is run with the current manager; the commands
  are parameters, so that the loop reads as it is written.
\<close>

fun bctest_args ::
    "('st \<Rightarrow> u32 \<Rightarrow> string \<Rightarrow> u32 \<times> 'st) \<Rightarrow> ('st \<Rightarrow> u32 \<Rightarrow> string \<Rightarrow> u32 \<times> 'st) \<Rightarrow> 'st \<Rightarrow> u32 \<Rightarrow> string list
       \<Rightarrow> int \<times> 'st" where
  "bctest_args lookup publish st svcmgr [] = (0, st)"
| "bctest_args lookup publish st svcmgr (a # args) =
     (if a = ''alt'' then
        (case lookup st svcmgr ''alt_svc_mgr'' of (handle, st) \<Rightarrow>
           if handle = 0 then (-1, st) else bctest_args lookup publish st handle args)
      else if a = ''lookup'' then
        (case args of [] \<Rightarrow> (-1, st)
         | x # args' \<Rightarrow> (case lookup st svcmgr x of (handle, st) \<Rightarrow> bctest_args lookup publish st svcmgr args'))
      else if a = ''publish'' then
        (case args of [] \<Rightarrow> (-1, st)
         | x # args' \<Rightarrow> (case publish st svcmgr x of (status, st) \<Rightarrow> bctest_args lookup publish st svcmgr args'))
      else (-1, st))"

section \<open>What the client writes\<close>

lemma strlen_terminated8: "0 \<notin> set (cs :: bytes) \<Longrightarrow> strlen (cs @ [0]) = Some (length cs)"
  by (induction cs) auto

lemma svc_mgr_name: "map ucast SVC_MGR_NAME = svcmgr_id" "0 \<notin> set SVC_MGR_NAME"
  by code_simp+

lemma ucast_u16_zero [simp]: "(ucast (c :: u8) :: u16) = 0 \<longleftrightarrow> c = 0"
proof -
  have "unat (ucast c :: u16) = unat c"
    using unsigned_less [of c, where ?'a = nat] by (simp add: unsigned_ucast_eq take_bit_nat_eq_self)
  then show ?thesis by (metis unsigned_0 unat_eq_zero)
qed

lemma string16_x_item:
  assumes "0 \<notin> set cs"
  shows "bio_put_string16_x b (Some (cs @ [0])) = put_item U b (Item_str (map ucast cs))"
proof -
  have z: "0 \<notin> set (map (ucast :: u8 \<Rightarrow> u16) cs)"
    using assms by auto
  show ?thesis
    using strlen_terminated8 [OF assms] strlen_terminated [OF z, of "[]"]
    by (simp add: bio_put_string16_x_def bio_put_string16_def)
qed

definition request_items :: "bytes \<Rightarrow> bio_item list" where
  "request_items cs = [Item_u32 0, Item_str svcmgr_id, Item_str (map ucast cs)]"

lemma lookup_msg_items:
  assumes "0 \<notin> set cs"
  shows "lookup_msg iodata (cs @ [0]) = put_items U (bio_init bio_zero iodata 512 4) (request_items cs)"
  by (simp add: lookup_msg_def request_items_def string16_x_item [OF assms, where U = U]
      string16_x_item [OF svc_mgr_name(2), where U = U] svc_mgr_name(1))

lemma request_items_ok: "0 \<notin> set cs \<Longrightarrow> length cs < 2 ^ 29 \<Longrightarrow> \<forall>it \<in> set (request_items cs). item_ok it"
proof -
  assume "0 \<notin> set cs" and n: "length cs < 2 ^ 29"
  have "0 \<notin> set svcmgr_id" "length svcmgr_id = 26" by code_simp+
  then show ?thesis using n \<open>0 \<notin> set cs\<close> by (auto simp: request_items_def)
qed

text \<open>The message in the client's buffer, when it fits.\<close>

lemma lookup_msg_written:
  fixes m :: "64 binder_io"
  assumes U: "uapi_ok U" and cs: "0 \<notin> set cs" "length cs < 2 ^ 29" and io: "length iodata = 512"
    and m: "lookup_msg iodata (cs @ [0]) = Ret m" and ok: "\<not> overflowed m"
  shows "bio_wwf m" "encodes_items U 0 (request_items cs) (wdata m) (woffs m)"
    "length (bio_mem m) = 512"
proof -
  let ?b = "bio_init bio_zero iodata (512 :: 64 word) 4"
  have L: "32 \<le> LENGTH(64)" by simp
  have B: "bio_wwf ?b" "wdata ?b = []" "woffs ?b = []" "length (bio_mem ?b) = 512"
    using bio_init_fresh [of 512 iodata 4 bio_zero] io by simp_all
  have "\<exists>b'. put_items U ?b (request_items cs) = Ret b' \<and> bio_wwf b' \<and> (overflowed b' \<or>
      (\<exists>bs os. encodes_items U (length (wdata ?b)) (request_items cs) bs os \<and> bio_appends ?b bs os b'))"
    by (rule put_items_spec [OF U L B(1) request_items_ok [OF cs]])
  then obtain bs os where "encodes_items U 0 (request_items cs) bs os" and ap: "bio_appends ?b bs os m"
    using m ok B(2) unfolding lookup_msg_items [OF cs(1), of _ U] by auto
  then show "bio_wwf m" "encodes_items U 0 (request_items cs) (wdata m) (woffs m)" "length (bio_mem m) = 512"
    using B by (auto simp: bio_appends_def)
qed

text \<open>
  C14. A lookup end to end on a 64-bit target: the message the client builds for a name is, once
  delivered, answered by the manager with what the caller may see under exactly that name.
\<close>

theorem client_lookup_answered:
  fixes m reply :: "64 binder_io"
  assumes U: "uapi_ok U" and cs: "0 \<notin> set cs" "length cs < 2 ^ 29" and io: "length iodata = 512"
    and m: "lookup_msg iodata (cs @ [0]) = Ret m" and ok: "\<not> overflowed m"
    and t: "t_target t = 0" "t_code t = SVC_MGR_CHECK_SERVICE" "ping_transaction U \<noteq> SVC_MGR_CHECK_SERVICE"
    and sh: "refresh_sehandle E (sm_sehandle st) = Some sh"
  shows "svcmgr_handler E U D (delivered_txn m t) (bio_init_from_txn (delivered_mem m) (delivered_txn m t)) reply st =
    (let h = visible_handle E sh (delivered_txn m t) st (map ucast cs)
     in cbind (if h = 0 then bio_put_uint32 reply 0 else bio_put_ref U reply h)
          (\<lambda>reply. Ret (0, reply, st\<lparr>sm_sehandle := Some sh\<rparr>)))"
proof -
  note W = lookup_msg_written [OF U cs io m ok]
  have "length (wdata m) + 8 * length (woffs m) < 2 ^ 64"
    using length_message [OF W(1)] W(3) by simp
  note R = delivered_reader [OF this, of t]
  have h: "msg_holds U (bio_init_from_txn (delivered_mem m) (delivered_txn m t)) (request_items cs)"
    using R W(2) request_items_ok [OF cs] by (auto simp: msg_holds_def)
  show ?thesis
    by (rule find_request [OF h [unfolded request_items_def]])
      (use t sh in \<open>simp_all add: delivered_txn_def message_txn_def\<close>)
qed

section \<open>Publishing\<close>

text \<open>
  A published object travels as a local binder and arrives as a handle: the driver rewrites the
  flat object at the recorded offset and leaves its flags and the rest of the data alone.
\<close>

definition translate_object :: "uapi \<Rightarrow> u32 \<Rightarrow> bytes \<Rightarrow> u64 \<Rightarrow> bytes" where
  "translate_object U h data off = take (unat off) data @
     obj_bytes U ((obj_of U (take (sizeof_obj U) (drop (unat off) data)))\<lparr>o_kind := TYPE_HANDLE h\<rparr>) @
     drop (unat off + sizeof_obj U) data"

lemma lookup_msg_wwf:
  fixes m :: "64 binder_io"
  assumes U: "uapi_ok U" and cs: "0 \<notin> set cs" "length cs < 2 ^ 29" and io: "length iodata = 512"
    and m: "lookup_msg iodata (cs @ [0]) = Ret m"
  shows "bio_wwf m"
proof -
  have L: "32 \<le> LENGTH(64)" by simp
  have "bio_wwf (bio_init bio_zero iodata (512 :: 64 word) 4)"
    using bio_init_fresh [of 512 iodata 4 bio_zero] io by simp
  from put_items_spec [OF U L this request_items_ok [OF cs]] m show ?thesis
    unfolding lookup_msg_items [OF cs(1), of _ U] by auto
qed

lemma request_items_no_offsets: "encodes_items U off (request_items cs) bs os \<Longrightarrow> os = []"
  by (auto simp: request_items_def)

definition local_obj :: "uapi \<Rightarrow> u64 \<Rightarrow> flat_obj" where
  "local_obj U ptr = \<lparr>o_kind = TYPE_BINDER ptr, o_flags = 0x7f OR accepts_fds U, o_cookie = 0\<rparr>"

lemma publish_msg_written:
  fixes p :: "64 binder_io"
  assumes U: "uapi_ok U" and cs: "0 \<notin> set cs" "length cs < 2 ^ 29" and io: "length iodata = 512"
    and p: "publish_msg U iodata (cs @ [0]) ptr = Ret p" and ok: "\<not> overflowed p"
  obtains bs where "encodes_items U 0 (request_items cs) bs []"
    "wdata p = bs @ obj_bytes U (local_obj U ptr)" "woffs p = [of_nat (length bs)]"
    "bio_wwf p" "length (bio_mem p) = 512"
proof -
  have L: "32 \<le> LENGTH(64)" by simp
  obtain m :: "64 binder_io" where m: "lookup_msg iodata (cs @ [0]) = Ret m" and o: "bio_put_obj U m ptr = Ret p"
    using p by (auto simp: publish_msg_def cbind_Ret_iff)
  have wf: "bio_wwf m" using lookup_msg_wwf [OF U cs io m] .
  have len: "length (obj_bytes U (local_obj U ptr)) = sizeof_obj U" using uapi_okD [OF U] by simp
  from U L wf len have ap: "bio_appends m (obj_bytes U (local_obj U ptr)) [of_nat (bio_data m) - of_nat (bio_data0 m)] p"
    by (cases rule: bio_put_object_spec) (use o ok in \<open>auto simp: bio_put_obj_def local_obj_def\<close>)
  then have "\<not> overflowed m" using ok by (simp add: bio_appends_def)
  note W = lookup_msg_written [OF U cs io m this]
  have "woffs m = []" using request_items_no_offsets [OF W(2)] .
  moreover have "(of_nat (bio_data m) - of_nat (bio_data0 m) :: u64) = of_nat (length (wdata m))"
    using wf length_wdata [OF bio_wwf_wf [OF wf]] by (simp add: bio_wwf_def bio_wf_def)
  ultimately show ?thesis using that [of "wdata m"] W ap by (simp add: bio_appends_def)
qed

lemma encodes_items_snoc:
  "encodes_items U off its bs os \<Longrightarrow> encodes U (off + length bs) it b o' \<Longrightarrow>
   encodes_items U off (its @ [it]) (bs @ b) (os @ o')"
proof (induction its arbitrary: off bs os)
  case (Cons i its)
  then obtain b1 b2 o1 o2 where "bs = b1 @ b2" "os = o1 @ o2" "encodes U off i b1 o1"
    "encodes_items U (off + length b1) its b2 o2" by auto
  moreover from this Cons.IH [of "off + length b1" b2 o2] Cons.prems(2)
  have "encodes_items U (off + length b1) (its @ [it]) (b2 @ b) (o2 @ o')" by (simp add: add.assoc)
  ultimately show ?case by (auto simp: exI [of _ b1])
qed auto

text \<open>
  C13. Publication end to end on a 64-bit target: the message the client builds, delivered with its
  object translated to a handle, makes the manager register that handle under exactly that name
  (not for isolated processes), when the caller may and memory suffices.
\<close>

theorem client_publish_registers:
  fixes p reply :: "64 binder_io"
  assumes U: "uapi_ok U" and cs: "0 \<notin> set cs" "length cs < 2 ^ 29" and io: "length iodata = 512"
    and p: "publish_msg U iodata (cs @ [0]) ptr = Ret p" and ok: "\<not> overflowed p"
    and h: "h \<noteq> 0" and wf: "svc_wf st"
    and t: "t_target t = 0" "t_code t = SVC_MGR_ADD_SERVICE" "ping_transaction U \<noteq> SVC_MGR_ADD_SERVICE"
    and sh: "refresh_sehandle E (sm_sehandle st) = Some sh"
  defines "data \<equiv> translate_object U h (wdata p) (hd (woffs p))"
  defines "t' \<equiv> message_txn data (woffs p) t"
  shows "svcmgr_handler E U D t' (bio_init_from_txn (message_mem data (woffs p)) t') reply st =
    (let st1 = st\<lparr>sm_sehandle := Some sh\<rparr> in
     case (if may_add E sh t' (map ucast cs) then register_service E D (map ucast cs) h False st1 else None) of
       None \<Rightarrow> Ret (-1, reply, st1)
     | Some st2 \<Rightarrow> cbind (bio_put_uint32 reply 0) (\<lambda>reply. Ret (0, reply, st2)))"
proof -
  obtain bs where W: "encodes_items U 0 (request_items cs) bs []"
    "wdata p = bs @ obj_bytes U (local_obj U ptr)" "woffs p = [of_nat (length bs)]"
    "bio_wwf p" "length (bio_mem p) = 512"
    using publish_msg_written [OF U cs io p ok] .
  have len: "length (obj_bytes U ob) = sizeof_obj U" for ob using uapi_okD [OF U] by simp
  have le: "length (wdata p) + 8 * length (woffs p) \<le> 512" using length_message [OF W(4)] W(5) by simp
  then have n: "unat (of_nat (length bs) :: u64) = length bs" using W(2) by (simp add: unat_of_nat)
  have "obj_of U (obj_bytes U (local_obj U ptr)) = local_obj U ptr"
    using U by (simp add: uapi_ok_def local_obj_def)
  then have data: "data = bs @ obj_bytes U (handle_obj U h)"
    using W(2,3) n len by (simp add: data_def translate_object_def local_obj_def handle_obj_def)
  have "length data + 8 * length (woffs p) < 2 ^ 64" using le W(2) data len by simp
  note R = message_reader [OF this, of t, folded t'_def]
  have "encodes_items U 0 (request_items cs @ [Item_ref h]) data (woffs p)"
    using encodes_items_snoc [OF W(1), of "Item_ref h" "obj_bytes U (handle_obj U h)" "[of_nat (length bs)]"]
      W(3) data by simp
  then have "msg_holds U (bio_init_from_txn (message_mem data (woffs p)) t') (request_items cs @ [Item_ref h])"
    using R request_items_ok [OF cs] h by (auto simp: msg_holds_def)
  then have m: "msg_holds U (bio_init_from_txn (message_mem data (woffs p)) t')
     ([Item_u32 0, Item_str svcmgr_id, Item_str (map ucast cs), Item_ref h] @
      (case None of None \<Rightarrow> [] | Some v \<Rightarrow> [Item_u32 v]))" by (simp add: request_items_def)
  have t': "t_target t' = 0" "t_code t' = SVC_MGR_ADD_SERVICE" using t by (simp_all add: t'_def message_txn_def)
  show ?thesis
    using add_request [OF U m t' t(3) sh wf, of D reply] unfolding option.case .
qed

section \<open>The whole manager\<close>

interpretation srv_ok: txn_service U D "svcmgr_handler E U D :: (64, ('d, 'x) svcmgr_scheme) handler"
  "svcinfo_death D" server_ok for U E and D :: "'d driver"
proof (unfold_locales, goal_cases)
  case 1 then show ?case using handler_grows by blast
next
  case (2 bs c bs') then show ?case
    using svcinfo_death_inv [of bs D c bs']
    by (auto simp: server_ok_def svcinfo_death_def Let_def split: option.splits if_splits)
next
  case 3 then show ?case by (simp add: server_ok_def)
next
  case (4 bs cmd) then show ?case using sm_inv_log [of bs cmd] by (auto simp: server_ok_def)
qed

lemma svcmgr_state_ok: "sehandle \<noteq> None \<Longrightarrow> bs_log bs = [] \<Longrightarrow> server_ok (svcmgr_state bs heap sehandle)"
  by (simp add: server_ok_def svcmgr_state_def sm_inv_def svc_wf_def refs_ok_def links_ok_def)

text \<open>
  The manager's process from start to end: it gives up when the driver cannot be opened or
  the context is taken, it aborts rather than serve without SELinux labels or its own context, and
  when it does serve and the loop ends, the registry and its references are intact.
\<close>

theorem svcmgr_main_outcome:
  assumes r: "svcmgr_main M E U D TYPE(64) rdata stale = Some out"
  defines "opened \<equiv> fst (binder_open (me_open M) (me_driver M) (128 * 1024) (me_resources M))"
  shows "case out of
      Ret (code, None) \<Rightarrow> code = -1 \<and> (opened = None \<or> fst (me_become M (me_driver M)) \<noteq> 0)
    | Ret (code, Some st) \<Rightarrow> code = 0 \<and> server_ok st
    | Abort \<Rightarrow> True
    | Oob \<Rightarrow> me_sehandle M \<noteq> None \<and> me_getcon M \<noteq> None"
proof (cases "opened = None \<or> fst (me_become M (me_driver M)) \<noteq> 0 \<or> me_sehandle M = None \<or> me_getcon M = None")
  case True
  have "bs_driver bs = me_driver M" if "opened = Some bs" for bs
    using that by (auto simp: opened_def binder_open_def Let_def split: if_splits)
  then show ?thesis
    using True r unfolding opened_def
    by (auto simp: svcmgr_main_def binder_become_context_manager_def split: option.splits prod.splits if_splits)
next
  case False
  then obtain bs res d con where o: "opened = Some bs" and b: "me_become M (me_driver M) = (0, d)"
    and sh: "me_sehandle M \<noteq> None" and con: "me_getcon M = Some con"
    by (cases "me_become M (me_driver M)") auto
  have bs: "bs_driver bs = me_driver M" "bs_log bs = []"
    using o by (auto simp: opened_def binder_open_def Let_def split: if_splits)
  let ?st = "svcmgr_state (bs\<lparr>bs_driver := d\<rparr>) (me_heap M) (me_sehandle M)"
  let ?E = "E\<lparr>se_context := con\<rparr>"
  obtain x where l: "loop_rounds U D (svcmgr_handler ?E U D :: (64, 'a svcmgr) handler) (svcinfo_death D) rdata stale
      (snd (binder_write D ?st [BC_ENTER_LOOPER])) = Some x"
    and out: "out = cbind x (\<lambda>st. Ret (0, Some st))"
    using r [unfolded svcmgr_main_def, folded opened_def] o b sh con bs
    by (auto simp: binder_become_context_manager_def binder_loop_def split: option.splits)
  have "server_ok ?st" using sh bs by (intro svcmgr_state_ok) simp_all
  then have "server_ok (snd (binder_write D ?st [BC_ENTER_LOOPER]))" by (rule srv_ok.write_one_keeps) simp
  with srv_ok.rounds_keeps [OF l] show ?thesis
    using out sh con by (cases x) auto
qed

end
