(* ===== verification/Native_Examples.thy ===== *)
theory Native_Examples
  imports Service_Start
begin

text \<open>
  The properties of the native client, the service manager and its clients at concrete inputs:
  a driver that accepts every command, a registry with one service, a permissive and a strict
  policy, and messages of the 64-bit interface. Each witness applies a property where all its
  hypotheses hold.
\<close>

section \<open>Concrete messages\<close>

fun item_bytes :: "bio_item \<Rightarrow> bytes" where
  "item_bytes (Item_u32 n) = le32 n"
| "item_bytes (Item_str cs) = le32 (of_nat (length cs)) @ concat (map le16 (cs @ [0])) @
     replicate (al4 (2 * (length cs + 1)) - 2 * (length cs + 1)) 0"
| "item_bytes (Item_ref h) = obj_bytes le_uapi (handle_obj le_uapi h)"

fun item_offs :: "nat \<Rightarrow> bio_item list \<Rightarrow> u64 list" where
  "item_offs off [] = []"
| "item_offs off (it # its) = (case it of Item_ref h \<Rightarrow> [of_nat off] | _ \<Rightarrow> []) @
     item_offs (off + length (item_bytes it)) its"

lemma item_bytes_encodes:
  "encodes le_uapi off it (item_bytes it) (case it of Item_ref h \<Rightarrow> [of_nat off] | _ \<Rightarrow> [])"
proof (cases it)
  case (Item_str cs)
  have "2 * (length cs + 1) \<le> al4 (2 * (length cs + 1))" by simp
  then have "length (item_bytes it) = 4 + al4 (2 * (length cs + 1))"
    unfolding Item_str item_bytes.simps by simp
  then show ?thesis by (auto simp: Item_str str_chunk_def)
qed simp_all

lemma items_encoded: "encodes_items le_uapi off its (concat (map item_bytes its)) (item_offs off its)"
proof (induction its arbitrary: off)
  case (Cons it its)
  then show ?case
    using item_bytes_encodes [of off it] by (simp only: list.map concat.simps item_offs.simps encodes_items.simps) blast
qed simp

definition demo_data :: "bio_item list \<Rightarrow> bytes" where
  "demo_data its = concat (map item_bytes its)"

definition demo_msg :: "bio_item list \<Rightarrow> 64 binder_io" where
  \<comment> \<open>the cursor a handler gets on a message of these items\<close>
  "demo_msg its = bio_init_from_txn (message_mem (demo_data its) (item_offs 0 its))
     (message_txn (demo_data its) (item_offs 0 its) (le_txn_of []))"

lemma demo_msg_holds:
  assumes "\<forall>it \<in> set its. item_ok it" and "length (demo_data its) + 8 * length (item_offs 0 its) < 2 ^ 64"
  shows "msg_holds le_uapi (demo_msg its) its"
  using message_reader [OF assms(2), of "le_txn_of []"] assms(1) items_encoded [of 0 its]
  by (auto simp: msg_holds_def demo_msg_def demo_data_def)

section \<open>A concrete manager\<close>

definition demo_driver :: "unit driver" where
  \<comment> \<open>accepts every command and returns nothing\<close>
  "demo_driver = \<lparr>drv_ioctl = (\<lambda>d cmds n. (0, length cmds, [], d)), drv_mem = (\<lambda>d. replicate 64 0)\<rparr>"

definition demo_env :: sm_env where
  \<comment> \<open>a policy that allows everything; applications start at uid 10000\<close>
  "demo_env = \<lparr>se_getpidcon = (\<lambda>p. Some ''ctx''), se_check_access = (\<lambda>s t c p a. 0),
     se_lookup = (\<lambda>h n. Some ''label''), se_context = ''self'', se_status_updated = 0,
     se_service_context_handle = None, se_malloc = (\<lambda>n. True), multiuser_get_app_id = (\<lambda>u. u mod 100000),
     AID_APP = 10000, AID_USER = 100000, AID_ISOLATED_START = 99000, AID_ISOLATED_END = 99999\<rparr>"

definition demo_name :: "u16 list" where
  "demo_name = [0x61, 0x62]"

definition demo_mgr :: "unit svcmgr" where
  \<comment> \<open>one service, named \<open>ab\<close>, behind handle 7\<close>
  "demo_mgr = \<lparr>bs_fd = 3, bs_mapsize = 131072, bs_driver = (), bs_log = [],
     sm_list = [\<lparr>si_addr = 1, si_handle = 7, si_allow_isolated = False, si_name = demo_name\<rparr>],
     sm_next = 2, sm_sehandle = Some 0\<rparr>"

definition demo_empty :: "unit svcmgr" where
  "demo_empty = demo_mgr\<lparr>sm_list := []\<rparr>"

definition demo_txn :: "u32 \<Rightarrow> u32 \<Rightarrow> txn" where
  \<comment> \<open>a request to the manager, with a code and a sender\<close>
  "demo_txn code uid = (le_txn_of [])\<lparr>t_target := 0, t_code := code, t_sender_euid := uid\<rparr>"

definition demo_reply :: "64 binder_io" where
  "demo_reply = bio_init bio_zero (replicate 256 0) 256 4"

lemmas demo_defs = demo_driver_def demo_env_def demo_name_def demo_mgr_def demo_empty_def demo_txn_def
  le_txn_of_def

lemma demo_mgr_wf: "svc_wf demo_mgr" "svc_wf demo_empty"
  by (simp_all add: svc_wf_def demo_defs)

lemma demo_fields [simp]:
  "t_target (demo_txn c u) = 0" "t_code (demo_txn c u) = c" "t_sender_euid (demo_txn c u) = u"
  "ping_transaction le_uapi = 0x5f504e47" "refresh_sehandle demo_env h = h"
  "sm_sehandle demo_mgr = Some 0" "sm_sehandle demo_empty = Some 0"
  by (simp_all add: demo_defs le_uapi_def refresh_sehandle_def)

lemma demo_env_fields [simp]:
  "se_getpidcon demo_env p = Some ''ctx''" "se_check_access demo_env a b c d e = 0"
  "se_lookup demo_env h n = Some ''label''" "se_malloc demo_env k"
  "multiuser_get_app_id demo_env u = u mod 100000" "AID_APP demo_env = 10000" "AID_USER demo_env = 100000"
  "AID_ISOLATED_START demo_env = 99000" "AID_ISOLATED_END demo_env = 99999"
  by (simp_all add: demo_env_def)

lemma svcmgr_id_ok: "item_ok (Item_str svcmgr_id)"
proof -
  have "0 \<notin> set svcmgr_id" "length svcmgr_id = 26" by code_simp+
  then show ?thesis by simp
qed

lemma demo_name_ok: "item_ok (Item_str demo_name)" "svc_name_ok demo_name"
  by (simp_all add: demo_name_def svc_name_ok_def)

lemma demo_allows: "mac_allows demo_env sh t p n"
  by (simp add: mac_allows_def check_mac_perms_def)

section \<open>Requests\<close>

definition find_items :: "bio_item list" where
  "find_items = [Item_u32 0, Item_str svcmgr_id, Item_str demo_name]"

definition add_items :: "bio_item list" where
  "add_items = [Item_u32 0, Item_str svcmgr_id, Item_str demo_name, Item_ref 9, Item_u32 1]"

definition list_items :: "bio_item list" where
  "list_items = [Item_u32 0, Item_str svcmgr_id, Item_u32 0]"

lemma msg_holds_cong: "msg_holds U m its \<Longrightarrow> its = its' \<Longrightarrow> msg_holds U m its'"
  by simp

lemma requests_hold:
  "msg_holds le_uapi (demo_msg find_items) find_items"
  "msg_holds le_uapi (demo_msg add_items) add_items"
  "msg_holds le_uapi (demo_msg list_items) list_items"
proof -
  have "length (demo_data find_items) = 76" "item_offs 0 find_items = []"
    "length (demo_data add_items) = 104" "length (item_offs 0 add_items) = 1"
    "length (demo_data list_items) = 68" "item_offs 0 list_items = []" by code_simp+
  then show "msg_holds le_uapi (demo_msg find_items) find_items"
    "msg_holds le_uapi (demo_msg add_items) add_items" "msg_holds le_uapi (demo_msg list_items) list_items"
    using svcmgr_id_ok demo_name_ok
    by (intro demo_msg_holds; simp add: find_items_def add_items_def list_items_def)+
qed

lemmas find_holds = requests_hold(1) [THEN msg_holds_cong, OF find_items_def]
  and add_holds = requests_hold(2) [THEN msg_holds_cong, OF add_items_def]
  and list_holds = requests_hold(3) [THEN msg_holds_cong, OF list_items_def]

lemma demo_lookup: "registry demo_mgr demo_name = Some (7, False)"
  by (simp add: registry_def svc_entry_def demo_mgr_def)

theorem handler_find_request_witness:
  "svcmgr_handler demo_env le_uapi demo_driver (demo_txn 2 1000) (demo_msg find_items) demo_reply demo_mgr
    = cbind (bio_put_ref le_uapi demo_reply 7) (\<lambda>reply. Ret (0, reply, demo_mgr))"
proof -
  have v: "visible_handle demo_env 0 (demo_txn 2 1000) demo_mgr demo_name = 7"
    by (simp add: visible_handle_def demo_lookup demo_allows is_isolated_def)
  have "demo_mgr\<lparr>sm_sehandle := Some 0\<rparr> = demo_mgr" by (simp add: demo_mgr_def)
  with handler_find_request [OF find_holds,
      of "demo_txn 2 1000" demo_env demo_mgr 0 demo_driver demo_reply] v
  show ?thesis by simp
qed

theorem handler_add_request_witness:
  "(case svcmgr_handler demo_env le_uapi demo_driver (demo_txn 3 1000) (demo_msg add_items) demo_reply demo_empty of
      Ret (res, _, st) \<Rightarrow> res = 0 \<and> registry st demo_name = Some (9, True) | _ \<Rightarrow> False) \<and>
   svcmgr_handler demo_env le_uapi demo_driver (demo_txn 3 10123) (demo_msg add_items) demo_reply demo_empty
     = Ret (-1, demo_reply, demo_empty)"
proof -
  have st: "demo_empty\<lparr>sm_sehandle := Some 0\<rparr> = demo_empty" by (simp add: demo_defs)
  have ok: "may_add demo_env 0 (demo_txn 3 1000) demo_name" "\<not> may_add demo_env 0 (demo_txn 3 10123) demo_name"
    using demo_name_ok(2) by (simp_all add: may_add_def demo_allows)
  have "case bio_put_uint32 demo_reply 0 of Ret b \<Rightarrow> True | _ \<Rightarrow> False" by code_simp
  then have put: "\<exists>b. bio_put_uint32 demo_reply 0 = Ret b" by (auto split: cres.splits)
  have reg: "register_service demo_env demo_driver demo_name 9 True demo_empty =
      Some (demo_empty\<lparr>sm_list := [\<lparr>si_addr = 2, si_handle = 9, si_allow_isolated = True, si_name = demo_name\<rparr>],
        sm_next := 3, bs_log := [BC_ACQUIRE 9, BC_REQUEST_DEATH_NOTIFICATION 9 2]\<rparr>)"
    by (simp add: register_service_def svc_entry_def svc_malloc_def Let_def binder_link_to_death_def
        binder_acquire_def binder_write_def demo_empty_def demo_mgr_def demo_driver_def)
  note r = handler_add_request [OF le_uapi_ok, of "demo_msg add_items" 0 demo_name 9 "Some 1"
      "demo_txn 3 u" demo_env demo_empty 0 demo_driver demo_reply for u,
      OF _ _ _ _ _ demo_mgr_wf(2), simplified, OF add_holds, unfolded st Let_def]
  show ?thesis
    using r [of 1000] r [of 10123] ok reg put by (auto simp: registry_def svc_entry_def)
qed

theorem handler_list_request_witness:
  "svcmgr_handler demo_env le_uapi demo_driver (demo_txn 4 1000) (demo_msg list_items) demo_reply demo_mgr
    = cbind (bio_put_string16 demo_reply (Some (demo_name @ [0]))) (\<lambda>reply. Ret (0, reply, demo_mgr))"
proof -
  have "svc_can_list demo_env (t_sender_pid (demo_txn 4 1000)) 1000"
    by (simp add: svc_can_list_def check_mac_perms_from_getcon_def check_mac_perms_def)
  then show ?thesis
    using handler_list_request [OF list_holds,
        of "demo_txn 4 1000" demo_env demo_driver demo_reply demo_mgr]
    by (simp add: Let_def) (simp add: demo_mgr_def)
qed

definition long_name :: "u16 list" where
  "long_name = replicate 110 0x61"

lemma long_name: "0 \<notin> set long_name" "length long_name = 110"
  by (simp_all only: long_name_def length_replicate set_replicate_conv_if) simp

definition demo_long :: "unit svcmgr" where
  \<comment> \<open>one service with a name of 110 units\<close>
  "demo_long = demo_mgr\<lparr>sm_list := [\<lparr>si_addr = 1, si_handle = 7, si_allow_isolated = False,
     si_name = long_name\<rparr>]\<rparr>"

lemma demo_may_list: "svc_can_list demo_env p u"
  by (simp add: svc_can_list_def check_mac_perms_from_getcon_def check_mac_perms_def)

theorem handler_list_long_name_witness:
  "\<exists>reply st'. svcmgr_handler demo_env le_uapi demo_driver (demo_txn 4 1000) (demo_msg list_items)
      (bio_init bio_zero (replicate 256 0) 256 4) demo_long = Ret (0, reply, st') \<and>
    wdata reply = le32 (of_nat 110) \<and> overflowed reply"
  using handler_list_long_name [OF list_holds, of "demo_txn 4 1000" demo_env demo_long
      long_name "replicate 256 0" demo_driver] demo_may_list long_name
  by (simp add: demo_long_def)

lemma demo_cursor_wf: "bio_wf (demo_cursor :: 64 binder_io)"
  by code_simp

lemma demo_reply_wwf: "bio_wwf demo_reply"
  using bio_init_fresh [of 256 "replicate 256 0" 4 bio_zero] by (simp add: demo_reply_def)

theorem handler_memory_safe_witness:
  "\<exists>res reply' st'. svcmgr_handler demo_env le_uapi demo_driver (demo_txn 3 1000) (demo_cursor :: 64 binder_io)
      demo_reply demo_mgr = Ret (res, reply', st') \<and> bio_wwf reply'"
  by (rule handler_memory_safe [OF le_uapi_ok demo_cursor_wf demo_reply_wwf demo_mgr_wf(1)]) simp

section \<open>Streams\<close>

definition demo_frames :: "frame list" where
  \<comment> \<open>a transaction with an empty message, then the death of the service at address 1\<close>
  "demo_frames = [F_noop, F_txn (demo_txn 4 1000), F_dead 1]"

definition demo_server :: "unit svcmgr" where
  \<comment> \<open>the manager with the log of the registration it made\<close>
  "demo_server = demo_mgr\<lparr>bs_log := [BC_ACQUIRE 7, BC_REQUEST_DEATH_NOTIFICATION 7 1]\<rparr>"

lemma demo_server_ok: "server_ok demo_server"
proof -
  have "acquired h (bs_log demo_server) = released h (bs_log demo_server) + holders h (sm_list demo_server)" for h
    by (simp add: demo_server_def demo_mgr_def )
  then show ?thesis
    using demo_mgr_wf(1)
    by (simp add: server_ok_def sm_inv_def refs_ok_def links_ok_def demo_server_def svc_wf_def)
      (simp add: demo_mgr_def)
qed

lemma demo_stream: "stream_ok demo_driver demo_frames (svc_addrs demo_server)"
proof -
  have "bio_wf (bio_init_from_txn (replicate 64 0) (demo_txn 4 1000) :: 64 binder_io)"
    by code_simp
  then show ?thesis
    by (auto simp: stream_ok_def demo_frames_def svc_addrs_def demo_server_def demo_mgr_def demo_driver_def)
qed

theorem server_never_faults_witness:
  "\<exists>r' st'. serve le_uapi demo_driver (svcmgr_handler demo_env le_uapi demo_driver :: (64, _) handler)
     (svcinfo_death demo_driver) (replicate 256 0) demo_frames 1 demo_server = Ret (r', st') \<and> server_ok st'"
  by (rule server_never_faults [OF le_uapi_ok _ demo_server_ok demo_stream]) simp

theorem server_frees_buffers_witness:
  "\<exists>r' st'. serve le_uapi demo_driver (svcmgr_handler demo_env le_uapi demo_driver :: (64, _) handler)
     (svcinfo_death demo_driver) (replicate 256 0) demo_frames 1 demo_server = Ret (r', st') \<and>
     frees st' = [BC_FREE_BUFFER 0]"
proof -
  let ?s = "serve le_uapi demo_driver (svcmgr_handler demo_env le_uapi demo_driver :: (64, _) handler)
     (svcinfo_death demo_driver) (replicate 256 0) demo_frames 1 demo_server"
  have "\<exists>r' st'. ?s = Ret (r', st') \<and> server_ok st'"
    by (rule serve_total [OF le_uapi_ok _ demo_server_ok demo_stream]) simp
  then obtain r' st' where s: "?s = Ret (r', st')" by (elim exE conjE)
  have "frees demo_server = []" by (simp add: demo_server_def is_free_def)
  moreover have "t_buffer (le_txn_of []) = 0" by code_simp
  then have "txn_buffers demo_frames = [0]" by (simp add: demo_frames_def demo_txn_def)
  ultimately have "frees st' = [BC_FREE_BUFFER 0]" using server_frees_buffers [OF s] by simp
  with s show ?thesis by (intro exI conjI)
qed

theorem server_invariant_witness:
  "distinct (map si_name (sm_list (snd (binder_write demo_driver demo_empty [BC_ENTER_LOOPER]))))"
  by (rule server_invariant [OF loop_reach.enter [of le_uapi demo_driver "svcmgr_handler demo_env le_uapi demo_driver"
        "svcinfo_death demo_driver" "replicate 256 0" demo_empty "[]"], THEN conjunct1])
    (simp_all add: demo_empty_def demo_mgr_def)

theorem app_cannot_register_witness:
  "\<exists>res reply' st'. svcmgr_handler demo_env le_uapi demo_driver (demo_txn 3 10123) demo_cursor demo_reply demo_mgr
     = Ret (res, reply', st') \<and> registry st' demo_name = Some (7, False) \<and> bs_log st' = []"
proof -
  obtain res reply' st' where
    h: "svcmgr_handler demo_env le_uapi demo_driver (demo_txn 3 10123) demo_cursor demo_reply demo_mgr = Ret (res, reply', st')"
    using handler_total [OF le_uapi_ok demo_cursor_wf demo_reply_wwf demo_mgr_wf(1)] by fastforce
  from app_cannot_register [OF h demo_mgr_wf(1)] demo_lookup have "registry st' demo_name = Some (7, False)"
    "bs_log st' = bs_log demo_mgr" by simp_all
  with h show ?thesis by (simp add: demo_mgr_def)
qed

theorem added_service_found_witness:
  "\<exists>st'. register_service demo_env demo_driver demo_name 9 True demo_empty = Some st' \<and>
     visible_handle demo_env 0 (demo_txn 1 1000) st' demo_name = 9"
proof -
  obtain st' where r: "register_service demo_env demo_driver demo_name 9 True demo_empty = Some st'"
    by (auto simp: register_service_def svc_entry_def svc_malloc_def demo_empty_def demo_mgr_def Let_def)
  have "\<not> is_isolated demo_env (t_sender_euid (demo_txn 1 1000))" by (simp add: is_isolated_def)
  from added_service_found [OF demo_mgr_wf(2) demo_name_ok(2) r demo_allows this] r show ?thesis by blast
qed

theorem dead_service_reregisters_witness:
  "\<exists>st'. register_service demo_env demo_driver demo_name 9 True (service_died demo_driver demo_name demo_mgr) = Some st' \<and>
     registry st' demo_name = Some (9, False)"
  using dead_service_reregisters [OF demo_mgr_wf(1) demo_name_ok(2) demo_lookup,
      of demo_env 0 "demo_txn 1 1000" demo_driver demo_env 9 True] by blast

definition demo_overread :: "32 binder_io" where
  "demo_overread = bio_zero\<lparr>bio_mem := le32 0 @ le32 0xffffffff, bio_data_avail := 8\<rparr>"

theorem handler_overread_ilp32_witness:
  "svcmgr_handler demo_env le_uapi demo_driver (demo_txn 1 1000) demo_overread bio_zero demo_mgr = Oob"
proof (rule handler_overread_ilp32)
  show "bio_wf demo_overread" by code_simp
  show "rest demo_overread = le32 0 @ le32 0xffffffff" by code_simp
  show "bio_data demo_overread + unat (bio_data_avail demo_overread) = length (bio_mem demo_overread)" by code_simp
qed simp_all

section \<open>The parser and the blocking call\<close>

theorem binder_parse_serves_witness:
  "cbind (binder_parse le_uapi demo_driver (Some (svcmgr_handler demo_env le_uapi demo_driver :: (64, _) handler))
      (svcinfo_death demo_driver) [] (le32 12 @ le32 17) 8
      \<lparr>ps_ptr = 0, ps_st = demo_mgr, ps_bio = bio_zero, ps_has_bio = False, ps_r = 1\<rparr>)
    (\<lambda>(r, ps). Ret (r, ps_st ps)) = Ret (-1, demo_mgr)"
proof -
  have "list_all2 (frame_enc le_uapi) [F_noop, F_failed] [le32 12, le32 17]"
    by (auto simp: le_uapi_def le_br_of_def intro: exI [of _ 12] exI [of _ 17])
  from binder_parse_serves [OF this, of "[]" demo_driver "svcmgr_handler demo_env le_uapi demo_driver :: (64, _) handler"
      "svcinfo_death demo_driver" "[]" "[]" demo_mgr bio_zero 1]
  show ?thesis by simp
qed

theorem binder_parse_truncated_witness:
  "\<exists>ps'. binder_parse le_uapi demo_driver (Some (svcmgr_handler demo_env le_uapi demo_driver :: (64, _) handler))
      (svcinfo_death demo_driver) [] (le32 2 @ replicate 60 0) 64
      \<lparr>ps_ptr = 0, ps_st = demo_mgr, ps_bio = bio_zero, ps_has_bio = False, ps_r = 1\<rparr> = Ret (-1, ps') \<and>
      ps_st ps' = demo_mgr"
proof -
  have "load32 (le32 2 @ replicate 60 0) 0 = Some 2" by code_simp
  moreover have "br_of le_uapi 2 = BR_TRANSACTION" "sizeof_txn le_uapi = 64" by code_simp+
  ultimately show ?thesis
    using binder_parse_truncated [of "le32 2 @ replicate 60 0" 0 2 le_uapi 64 demo_driver
        "Some (svcmgr_handler demo_env le_uapi demo_driver :: (64, _) handler)" "svcinfo_death demo_driver" "[]"
        demo_mgr bio_zero False 1] by auto
qed

theorem binder_parse_wrapped_check_witness:
  "parse_step le_uapi demo_driver (Some (svcmgr_handler demo_env le_uapi demo_driver :: (64, _) handler))
      (svcinfo_death demo_driver) [] (le32 2 @ replicate 64 0) 3
      \<lparr>ps_ptr = 0, ps_st = demo_mgr, ps_bio = bio_zero, ps_has_bio = False, ps_r = 1\<rparr> =
    cbind (parse_transaction le_uapi demo_driver (svcmgr_handler demo_env le_uapi demo_driver :: (64, _) handler) []
        (le_txn_of (replicate 64 0)) demo_mgr)
      (\<lambda>st. Ret (Next \<lparr>ps_ptr = 68, ps_st = st, ps_bio = bio_zero, ps_has_bio = False, ps_r = 1\<rparr>))"
proof -
  have "load32 (le32 2 @ replicate 64 0) 0 = Some 2" by code_simp
  moreover have "load (le32 2 @ replicate 64 0) (0 + 4) (sizeof_txn le_uapi) = Some (replicate 64 0)"
    by (simp add: load_def le_uapi_def)
  moreover have "br_of le_uapi 2 = BR_TRANSACTION" "sizeof_txn le_uapi = 64" "txn_of le_uapi = le_txn_of"
    by (simp_all add: le_uapi_def le_br_of_def)
  ultimately show ?thesis
    using binder_parse_wrapped_check [of 0 3 le_uapi "le32 2 @ replicate 64 0" 2 "replicate 64 0" demo_driver
        "svcmgr_handler demo_env le_uapi demo_driver :: (64, _) handler" "svcinfo_death demo_driver" "[]"
        demo_mgr bio_zero False 1] by simp
qed

definition demo_refuse :: "unit driver" where
  \<comment> \<open>a driver whose ioctls fail\<close>
  "demo_refuse = demo_driver\<lparr>drv_ioctl := (\<lambda>d cmds n. (-1, 0, [], d))\<rparr>"

definition demo_conn :: "unit binder_state" where
  "demo_conn = \<lparr>bs_fd = 3, bs_mapsize = 131072, bs_driver = (), bs_log = []\<rparr>"

theorem binder_call_outcome_witness:
  "\<exists>bs'. binder_call le_uapi demo_refuse no_death [] demo_conn (bio_zero :: 64 binder_io) bio_zero 0 1
     = Some (Ret (-1, bs', io_failed)) \<and> binder_done demo_refuse bs' (io_failed :: 64 binder_io) = (bs', io_failed)"
proof -
  have c: "binder_call le_uapi demo_refuse no_death [] demo_conn (bio_zero :: 64 binder_io) bio_zero 0 1
     = Some (Ret (-1, demo_conn\<lparr>bs_log := [BC_TRANSACTION (call_txn (bio_zero :: 64 binder_io) 0 1)]\<rparr>, io_failed))"
    by (subst binder_call_def, subst binder_call_loop.simps) (simp add: demo_refuse_def demo_conn_def bio_zero_def Let_def)
  from binder_call_outcome [OF c] c show ?thesis by auto
qed

definition demo_open :: open_env where
  "demo_open = \<lparr>oe_malloc = True, oe_open = 5, oe_version_ioctl = 0, oe_version_matches = True, oe_mmap_ok = True\<rparr>"

definition demo_resources :: resources where
  "demo_resources = \<lparr>res_fds = [0, 1, 2], res_maps = [], res_heap = 0\<rparr>"

theorem binder_open_resources_witness:
  "res_fds (snd (binder_open (demo_open\<lparr>oe_version_matches := False\<rparr>) () 131072 demo_resources)) = [5, 0, 1, 2] \<and>
   res_fds (snd (binder_open (demo_open\<lparr>oe_mmap_ok := False\<rparr>) () 131072 demo_resources)) = [0, 1, 2]"
  using binder_open_resources [of "demo_open\<lparr>oe_version_matches := False\<rparr>" "()" 131072 demo_resources]
    binder_open_resources [of "demo_open\<lparr>oe_mmap_ok := False\<rparr>" "()" 131072 demo_resources]
  by (auto simp: demo_open_def demo_resources_def binder_open_def Let_def sys_close_def)

theorem binder_close_open_witness:
  "\<exists>bs r. binder_open demo_open () 131072 demo_resources = (Some bs, r) \<and> binder_close bs r = demo_resources"
proof -
  obtain bs r where o: "binder_open demo_open () 131072 demo_resources = (Some bs, r)"
    by (simp add: binder_open_def demo_open_def Let_def)
  from binder_close_open [OF o] o show ?thesis by (simp add: demo_open_def demo_resources_def)
qed

section \<open>Clients and the whole manager\<close>

definition demo_lookup_msg :: "64 binder_io" where
  "demo_lookup_msg = (case lookup_msg (replicate 512 0) [0x61, 0x62, 0] of Ret m \<Rightarrow> m | _ \<Rightarrow> bio_zero)"

lemma demo_lookup_msg:
  "lookup_msg (replicate 512 0) ([0x61, 0x62] @ [0]) = Ret demo_lookup_msg" "\<not> overflowed demo_lookup_msg"
proof -
  have "case lookup_msg (replicate 512 0) [0x61, 0x62, 0] :: 64 binder_io cres of
      Ret m \<Rightarrow> \<not> overflowed m | _ \<Rightarrow> False" by code_simp
  then show "lookup_msg (replicate 512 0) ([0x61, 0x62] @ [0]) = Ret demo_lookup_msg" "\<not> overflowed demo_lookup_msg"
    by (auto simp: demo_lookup_msg_def split: cres.splits)
qed

theorem client_lookup_answered_witness:
  "svcmgr_handler demo_env le_uapi demo_driver (delivered_txn demo_lookup_msg (demo_txn 2 1000))
      (bio_init_from_txn (delivered_mem demo_lookup_msg) (delivered_txn demo_lookup_msg (demo_txn 2 1000)))
      demo_reply demo_mgr =
    cbind (bio_put_ref le_uapi demo_reply 7) (\<lambda>reply. Ret (0, reply, demo_mgr))"
proof -
  let ?t = "delivered_txn demo_lookup_msg (demo_txn 2 1000)"
  have v: "visible_handle demo_env 0 ?t demo_mgr (map ucast [0x61, 0x62 :: u8]) = 7"
    using demo_lookup
    by (simp add: visible_handle_def demo_allows is_isolated_def delivered_txn_def message_txn_def demo_name_def)
  have "demo_mgr\<lparr>sm_sehandle := Some 0\<rparr> = demo_mgr" by (simp add: demo_mgr_def)
  with client_lookup_answered [OF le_uapi_ok _ _ _ demo_lookup_msg, of "demo_txn 2 1000" demo_env demo_mgr 0
      demo_driver demo_reply] v
  show ?thesis by simp
qed

definition demo_publish_msg :: "64 binder_io" where
  "demo_publish_msg = (case publish_msg le_uapi (replicate 512 0) [0x61, 0x62, 0] 0x1000 of Ret m \<Rightarrow> m | _ \<Rightarrow> bio_zero)"

lemma demo_publish_msg:
  "publish_msg le_uapi (replicate 512 0) ([0x61, 0x62] @ [0]) 0x1000 = Ret demo_publish_msg"
  "\<not> overflowed demo_publish_msg"
proof -
  have "case publish_msg le_uapi (replicate 512 0) [0x61, 0x62, 0] 0x1000 :: 64 binder_io cres of
      Ret m \<Rightarrow> \<not> overflowed m | _ \<Rightarrow> False" by code_simp
  then show "publish_msg le_uapi (replicate 512 0) ([0x61, 0x62] @ [0]) 0x1000 = Ret demo_publish_msg"
    "\<not> overflowed demo_publish_msg"
    by (auto simp: demo_publish_msg_def split: cres.splits)
qed

theorem client_publish_registers_witness:
  "\<exists>t' mem st2. svcmgr_handler demo_env le_uapi demo_driver t' (bio_init_from_txn mem t') demo_reply demo_empty =
     cbind (bio_put_uint32 demo_reply 0) (\<lambda>reply. Ret (0, reply, st2)) \<and>
     register_service demo_env demo_driver demo_name 9 False demo_empty = Some st2"
proof -
  let ?d = "translate_object le_uapi 9 (wdata demo_publish_msg) (hd (woffs demo_publish_msg))"
  let ?t = "message_txn ?d (woffs demo_publish_msg) (demo_txn 3 1000)"
  obtain st2 where r: "register_service demo_env demo_driver demo_name 9 False demo_empty = Some st2"
    by (auto simp: register_service_def svc_entry_def svc_malloc_def demo_empty_def demo_mgr_def Let_def)
  have n: "map ucast [0x61, 0x62 :: u8] = demo_name" by (simp add: demo_name_def)
  have "may_add demo_env 0 ?t demo_name"
    using demo_name_ok(2) by (simp add: may_add_def demo_allows message_txn_def)
  moreover have st: "demo_empty\<lparr>sm_sehandle := Some 0\<rparr> = demo_empty" by (simp add: demo_empty_def demo_mgr_def)
  ultimately have "svcmgr_handler demo_env le_uapi demo_driver ?t
      (bio_init_from_txn (message_mem ?d (woffs demo_publish_msg)) ?t) demo_reply demo_empty =
     cbind (bio_put_uint32 demo_reply 0) (\<lambda>reply. Ret (0, reply, st2))"
    using client_publish_registers [OF le_uapi_ok _ _ _ demo_publish_msg, of 9 demo_empty "demo_txn 3 1000"
        demo_env 0 demo_driver demo_reply] demo_mgr_wf(2) r n
    by (simp add: Let_def st)
  with r show ?thesis by blast
qed

definition demo_main :: "unit main_env" where
  \<comment> \<open>the driver opens, another process has claimed the context\<close>
  "demo_main = \<lparr>me_open = demo_open, me_driver = (), me_become = (\<lambda>d. (-1, d)), me_sehandle = Some 0,
     me_getcon = Some ''self'', me_heap = 1, me_resources = demo_resources\<rparr>"

theorem svcmgr_main_outcome_witness:
  "\<exists>code. svcmgr_main demo_main demo_env le_uapi demo_driver TYPE(64) (replicate 256 0) [] = Some (Ret (code, None)) \<and>
     code = -1"
proof -
  have m: "svcmgr_main demo_main demo_env le_uapi demo_driver TYPE(64) (replicate 256 0) [] = Some (Ret (-1, None))"
    by (simp add: svcmgr_main_def demo_main_def demo_open_def binder_open_def Let_def binder_become_context_manager_def)
  from svcmgr_main_outcome [OF m] m show ?thesis by simp
qed

end
