(* ===== verification/Ipc_Thread.thy ===== *)
theory Ipc_Thread
  imports Binder_Uapi
begin

text \<open>
  The thread side of the C++ binder library, \<open>native/IPCThreadState.cpp\<close>: the command
  buffers of a thread, the exchange with the driver, the calls a thread makes and the commands it
  executes, and the life of a pool thread. Parcels, reference counts, the driver and the objects
  that handle transactions are parameters; loops that wait for the driver take fuel.
\<close>

section \<open>Data\<close>

text \<open>
  A command from the driver with its operands, as the thread reads it from \<open>mIn\<close>. The two
  transaction commands may be cut short, which \<open>mIn.read\<close> reports.
\<close>

datatype br =
    BR_ERROR int | BR_OK | BR_TRANSACTION "txn option" | BR_REPLY "txn option"
  | BR_ACQUIRE_RESULT u32 | BR_DEAD_REPLY | BR_TRANSACTION_COMPLETE
  | BR_INCREFS u64 u64 | BR_ACQUIRE u64 u64 | BR_RELEASE u64 u64 | BR_DECREFS u64 u64
  | BR_ATTEMPT_ACQUIRE u64 u64 | BR_NOOP | BR_SPAWN_LOOPER | BR_FINISHED | BR_DEAD_BINDER u64
  | BR_CLEAR_DEATH_NOTIFICATION_DONE u64 | BR_FAILED_REPLY | BR_OTHER u32

text \<open>
  What the thread uses of a parcel: its error, the contents to be sent, and the transaction whose
  driver buffer it refers to, if any.
\<close>

record parcel =
  p_err :: int
  p_data :: bytes
  p_offs :: "u64 list"
  p_ref :: "txn option"

definition empty_parcel :: parcel where
  "empty_parcel = \<lparr>p_err = 0, p_data = [], p_offs = [], p_ref = None\<rparr>"

definition ipcSetDataReference :: "txn \<Rightarrow> parcel" where
  \<comment> \<open>a parcel over the buffer of a transaction, to be freed with \<open>freeBuffer\<close>\<close>
  "ipcSetDataReference tr = empty_parcel\<lparr>p_ref := Some tr\<rparr>"

text \<open>
  The status values of \<open>utils/Errors.h\<close> and \<open>errno.h\<close> that the code compares and
  returns: errors are negative, and the ones that steer a loop differ from each other.
\<close>

record err_codes =
  TIMED_OUT :: int
  DEAD_OBJECT :: int
  FAILED_TRANSACTION :: int
  INVALID_OPERATION :: int
  UNKNOWN_ERROR :: int
  NOT_ENOUGH_DATA :: int
  NAME_NOT_FOUND :: int
  NO_MEMORY :: int
  ECONNREFUSED :: int
  EBADF :: int
  EINTR :: int

definition errs_ok :: "err_codes \<Rightarrow> bool" where
  "errs_ok K \<longleftrightarrow> TIMED_OUT K < 0 \<and> DEAD_OBJECT K < 0 \<and> FAILED_TRANSACTION K < 0 \<and>
     INVALID_OPERATION K < 0 \<and> UNKNOWN_ERROR K < 0 \<and> NOT_ENOUGH_DATA K < 0 \<and> NAME_NOT_FOUND K < 0 \<and>
     NO_MEMORY K < 0 \<and> 0 < ECONNREFUSED K \<and> 0 < EBADF K \<and> 0 < EINTR K \<and> EBADF K \<noteq> EINTR K \<and>
     TIMED_OUT K \<noteq> - ECONNREFUSED K \<and> TIMED_OUT K \<noteq> - EBADF K"

definition linux_errs :: err_codes where
  "linux_errs = \<lparr>TIMED_OUT = -110, DEAD_OBJECT = -32, FAILED_TRANSACTION = -2147483646,
     INVALID_OPERATION = -38, UNKNOWN_ERROR = -2147483648, NOT_ENOUGH_DATA = -61,
     NAME_NOT_FOUND = -2, NO_MEMORY = -12, ECONNREFUSED = 111, EBADF = 9, EINTR = 4\<rparr>"

lemma linux_errs_ok: "errs_ok linux_errs"
  by (simp add: errs_ok_def linux_errs_def)

section \<open>The state of a thread\<close>

text \<open>
  The fields of \<open>IPCThreadState\<close>, the process globals it reads, and the rest of the world.
  \<open>mIn\<close> holds the commands not yet read, so that it is empty exactly when the read
  position has reached the end; \<open>mOut\<close> the commands not yet consumed by the driver.
\<close>

record 'w ipc =
  mIn :: "br list"
  mInErr :: int
  mOut :: "bc list"
  mPendingStrongDerefs :: "u64 list"
  mPendingWeakDerefs :: "u64 list"
  mCallingPid :: u32
  mCallingUid :: u32
  mStrictModePolicy :: u32
  mLastTransactionBinderFlags :: u32
  mLastError :: int
  mDriverFD :: int
  gDisableBackgroundScheduling :: bool
  the_context_object :: "u64 option"
  world :: 'w

text \<open>
  The environment. One \<open>BINDER_WRITE_READ\<close> ioctl gets the commands to write, how many of
  them an interrupted call has consumed already, and whether to read; other threads may close the
  descriptor meanwhile. Objects and reference counts run arbitrary code on this thread.
\<close>

record 'w io_result =
  io_errno :: int
  io_consumed :: nat
  io_read :: "br list"
  io_fd :: int
  io_world :: 'w

record 'w ipc_env =
  ie_uapi :: uapi
  ie_err :: err_codes
  ie_ioctl :: "'w \<Rightarrow> bc list \<Rightarrow> nat \<Rightarrow> bool \<Rightarrow> 'w io_result"
  ie_transact :: "u64 \<Rightarrow> txn \<Rightarrow> parcel \<Rightarrow> 'w ipc \<Rightarrow> (int \<times> parcel \<times> 'w ipc) run"
  ie_inc_strong :: "u64 \<Rightarrow> 'w ipc \<Rightarrow> 'w ipc run"
  ie_dec_strong :: "u64 \<Rightarrow> 'w ipc \<Rightarrow> 'w ipc run"
  ie_inc_weak :: "u64 \<Rightarrow> 'w ipc \<Rightarrow> 'w ipc run"
  ie_dec_weak :: "u64 \<Rightarrow> 'w ipc \<Rightarrow> 'w ipc run"
  ie_attempt_inc_strong :: "u64 \<Rightarrow> 'w ipc \<Rightarrow> (bool \<times> 'w ipc) run"
  ie_send_obituary :: "u64 \<Rightarrow> 'w ipc \<Rightarrow> 'w ipc run"
  ie_dec_proxy :: "u64 \<Rightarrow> 'w ipc \<Rightarrow> 'w ipc run"
  ie_spawn :: "'w ipc \<Rightarrow> 'w ipc run"
  ie_getpriority :: "'w \<Rightarrow> int"
  ie_setpriority :: "int \<Rightarrow> 'w \<Rightarrow> 'w"
  ie_set_background :: "bool \<Rightarrow> 'w \<Rightarrow> 'w"
  ie_close :: "int \<Rightarrow> 'w \<Rightarrow> 'w"
  ie_thread_exit :: "'w \<Rightarrow> 'w"
  ie_status_at :: "'w \<Rightarrow> u64 \<Rightarrow> int"
  ie_pid :: u32
  ie_uid :: u32
  ANDROID_PRIORITY_NORMAL :: int
  ANDROID_PRIORITY_BACKGROUND :: int

section \<open>Accessors\<close>

definition clearLastError :: "'w ipc \<Rightarrow> int \<times> 'w ipc" where
  "clearLastError st = (mLastError st, st\<lparr>mLastError := 0\<rparr>)"

definition clearCaller :: "'w ipc_env \<Rightarrow> 'w ipc \<Rightarrow> 'w ipc" where
  "clearCaller E st = st\<lparr>mCallingPid := ie_pid E, mCallingUid := ie_uid E\<rparr>"

definition clearCallingIdentity :: "'w ipc_env \<Rightarrow> 'w ipc \<Rightarrow> 64 word \<times> 'w ipc" where
  \<comment> \<open>the uid is zero-extended, the pid, a signed integer, is sign-extended\<close>
  "clearCallingIdentity E st =
     (push_bit 32 (ucast (mCallingUid st)) OR scast (mCallingPid st), clearCaller E st)"

definition restoreCallingIdentity :: "64 word \<Rightarrow> 'w ipc \<Rightarrow> 'w ipc" where
  "restoreCallingIdentity token st =
     st\<lparr>mCallingUid := ucast (signed_drop_bit 32 token), mCallingPid := ucast token\<rparr>"

definition setStrictModePolicy :: "u32 \<Rightarrow> 'w ipc \<Rightarrow> 'w ipc" where
  "setStrictModePolicy policy st = st\<lparr>mStrictModePolicy := policy\<rparr>"

definition setLastTransactionBinderFlags :: "u32 \<Rightarrow> 'w ipc \<Rightarrow> 'w ipc" where
  "setLastTransactionBinderFlags flags st = st\<lparr>mLastTransactionBinderFlags := flags\<rparr>"

definition disableBackgroundScheduling :: "bool \<Rightarrow> 'w ipc \<Rightarrow> 'w ipc" where
  "disableBackgroundScheduling disable st = st\<lparr>gDisableBackgroundScheduling := disable\<rparr>"

definition setTheContextObject :: "u64 option \<Rightarrow> 'w ipc \<Rightarrow> 'w ipc" where
  "setTheContextObject ob st = st\<lparr>the_context_object := ob\<rparr>"

definition new_IPCThreadState :: "'w ipc_env \<Rightarrow> int \<Rightarrow> int \<Rightarrow> bool \<Rightarrow> u64 option \<Rightarrow> 'w \<Rightarrow> 'w ipc" where
  \<comment> \<open>the constructor does not set \<open>mLastError\<close>\<close>
  "new_IPCThreadState E garbage fd disable ctx w = clearCaller E
     \<lparr>mIn = [], mInErr = 0, mOut = [], mPendingStrongDerefs = [], mPendingWeakDerefs = [],
      mCallingPid = 0, mCallingUid = 0, mStrictModePolicy = 0, mLastTransactionBinderFlags = 0,
      mLastError = garbage, mDriverFD = fd, gDisableBackgroundScheduling = disable,
      the_context_object = ctx, world = w\<rparr>"

definition write_cmd :: "bc \<Rightarrow> 'w ipc \<Rightarrow> 'w ipc" where
  "write_cmd c st = st\<lparr>mOut := mOut st @ [c]\<rparr>"

definition incStrongHandle :: "u32 \<Rightarrow> 'w ipc \<Rightarrow> 'w ipc" where
  "incStrongHandle handle = write_cmd (BC_ACQUIRE handle)"

definition decStrongHandle :: "u32 \<Rightarrow> 'w ipc \<Rightarrow> 'w ipc" where
  "decStrongHandle handle = write_cmd (BC_RELEASE handle)"

definition incWeakHandle :: "u32 \<Rightarrow> 'w ipc \<Rightarrow> 'w ipc" where
  "incWeakHandle handle = write_cmd (BC_INCREFS handle)"

definition decWeakHandle :: "u32 \<Rightarrow> 'w ipc \<Rightarrow> 'w ipc" where
  "decWeakHandle handle = write_cmd (BC_DECREFS handle)"

definition requestDeathNotification :: "u32 \<Rightarrow> u64 \<Rightarrow> 'w ipc \<Rightarrow> int \<times> 'w ipc" where
  "requestDeathNotification handle proxy st = (0, write_cmd (BC_REQUEST_DEATH_NOTIFICATION handle proxy) st)"

definition clearDeathNotification :: "u32 \<Rightarrow> u64 \<Rightarrow> 'w ipc \<Rightarrow> int \<times> 'w ipc" where
  "clearDeathNotification handle proxy st = (0, write_cmd (BC_CLEAR_DEATH_NOTIFICATION handle proxy) st)"

definition freeBuffer :: "u64 \<Rightarrow> 'w ipc \<Rightarrow> 'w ipc" where
  "freeBuffer data = write_cmd (BC_FREE_BUFFER data)"

definition parcel_destroy :: "parcel \<Rightarrow> 'w ipc \<Rightarrow> 'w ipc" where
  \<comment> \<open>a parcel over a driver buffer gives it back through \<open>freeBuffer\<close> when it dies\<close>
  "parcel_destroy p st = (case p_ref p of None \<Rightarrow> st | Some tr \<Rightarrow> freeBuffer (t_buffer tr) st)"

section \<open>The exchange with the driver\<close>

primrec driver_io ::
    "nat \<Rightarrow> 'w ipc_env \<Rightarrow> bc list \<Rightarrow> nat \<Rightarrow> bool \<Rightarrow> 'w ipc \<Rightarrow> (int \<times> nat \<times> br list \<times> 'w ipc) run" where
  \<comment> \<open>the ioctl, repeated while it is interrupted: the error, what was consumed and read\<close>
  "driver_io 0 E cmds consumed rd st = None"
| "driver_io (Suc n) E cmds consumed rd st =
     (let r = ie_ioctl E (world st) cmds consumed rd;
          st1 = st\<lparr>mDriverFD := io_fd r, world := io_world r\<rparr>;
          err0 = (if io_errno r = 0 then 0 else - io_errno r);
          err = (if mDriverFD st1 \<le> 0 then - EBADF (ie_err E) else err0)
      in if err = - EINTR (ie_err E) then driver_io n E cmds (io_consumed r) rd st1
         else ret (err, io_consumed r, io_read r, st1))"

definition talkWithDriver :: "nat \<Rightarrow> 'w ipc_env \<Rightarrow> bool \<Rightarrow> 'w ipc \<Rightarrow> (int \<times> 'w ipc) run" where
  "talkWithDriver n E doReceive st =
     (if mDriverFD st \<le> 0 then ret (- EBADF (ie_err E), st)
      else
        let needRead = (mIn st = []);
            outAvail = (if \<not> doReceive \<or> needRead then mOut st else []);
            rd = (doReceive \<and> needRead)
        in if outAvail = [] \<and> \<not> rd then ret (0, st)
           else rbind (driver_io n E outAvail 0 rd st) (\<lambda>(err, consumed, read, st).
             if err \<ge> 0 then
               let st1 = (if consumed > 0 then
                            (if consumed < length (mOut st) then st\<lparr>mOut := drop consumed (mOut st)\<rparr>
                             else st\<lparr>mOut := []\<rparr>)
                          else st);
                   st2 = (if read \<noteq> [] then st1\<lparr>mIn := read\<rparr> else st1)
               in ret (0, st2)
             else ret (err, st)))"

definition flushCommands :: "nat \<Rightarrow> 'w ipc_env \<Rightarrow> 'w ipc \<Rightarrow> 'w ipc run" where
  "flushCommands n E st =
     (if mDriverFD st \<le> 0 then ret st
      else rbind (talkWithDriver n E False st) (\<lambda>(_, st). ret st))"

definition writeTransactionData ::
    "'w ipc_env \<Rightarrow> (out_txn \<Rightarrow> bc) \<Rightarrow> u32 \<Rightarrow> u32 \<Rightarrow> u32 \<Rightarrow> parcel \<Rightarrow> bool \<Rightarrow> 'w ipc \<Rightarrow> int \<times> 'w ipc" where
  \<comment> \<open>the flag says whether the caller supplied a status buffer\<close>
  "writeTransactionData E cmd binderFlags handle code data statusBuffer st =
     (let err = p_err data;
          tr = \<lparr>ot_target = ucast handle, ot_code = code, ot_flags = binderFlags, ot_data = [], ot_offs = []\<rparr>
      in if err = 0 then
           (0, write_cmd (cmd (tr\<lparr>ot_data := p_data data, ot_offs := p_offs data\<rparr>)) st)
         else if statusBuffer then
           (0, write_cmd (cmd (tr\<lparr>ot_flags := binderFlags OR tf_status_code (ie_uapi E),
                 ot_data := le32 (word_of_int err)\<rparr>)) st)
         else (err, st\<lparr>mLastError := err\<rparr>))"

section \<open>Executing commands and waiting for a response\<close>

text \<open>
  \<open>executeCommand\<close> may send a reply and wait for it, and \<open>waitForResponse\<close> executes the
  commands that arrive meanwhile. The first two functions take the wait as an argument; the knot
  is tied by the fuel of the third.
\<close>

definition sendReply_with ::
    "('w ipc \<Rightarrow> (int \<times> 'w ipc) run) \<Rightarrow> 'w ipc_env \<Rightarrow> parcel \<Rightarrow> u32 \<Rightarrow> 'w ipc \<Rightarrow> (int \<times> 'w ipc) run" where
  "sendReply_with wait E reply flags st =
     (case writeTransactionData E BC_REPLY flags (-1) 0 reply True st of (err, st) \<Rightarrow>
        if err < 0 then ret (err, st) else wait st)"

definition schedule_transaction :: "'w ipc_env \<Rightarrow> 'w ipc \<Rightarrow> 'w ipc" where
  \<comment> \<open>the scheduling of an incoming transaction\<close>
  "schedule_transaction E st =
     (let curPrio = ie_getpriority E (world st)
      in if gDisableBackgroundScheduling st then
           if curPrio > ANDROID_PRIORITY_NORMAL E
           then st\<lparr>world := ie_setpriority E (ANDROID_PRIORITY_NORMAL E) (world st)\<rparr> else st
         else if curPrio \<ge> ANDROID_PRIORITY_BACKGROUND E
           then st\<lparr>world := ie_set_background E True (world st)\<rparr> else st)"

definition execute_transaction ::
    "('w ipc \<Rightarrow> (int \<times> 'w ipc) run) \<Rightarrow> 'w ipc_env \<Rightarrow> txn \<Rightarrow> 'w ipc \<Rightarrow> 'w ipc run" where
  "execute_transaction wait E tr st =
     (let buffer = ipcSetDataReference tr;
          st1 = schedule_transaction E (st\<lparr>mCallingPid := t_sender_pid tr,
            mCallingUid := t_sender_euid tr, mLastTransactionBinderFlags := t_flags tr\<rparr>)
      in rbind (if t_target tr \<noteq> 0 then ie_transact E (t_cookie tr) tr buffer st1
                else case the_context_object st1 of
                    None \<Rightarrow> Some Oob
                  | Some ob \<Rightarrow> ie_transact E ob tr buffer st1) (\<lambda>(error, reply, st2).
         rbind (if t_flags tr AND tf_one_way (ie_uapi E) = 0 then
                  rbind (sendReply_with wait E (if error < 0 then reply\<lparr>p_err := error\<rparr> else reply) 0 st2)
                    (\<lambda>(_, st). ret st)
                else ret st2) (\<lambda>st3.
           let st4 = st3\<lparr>mCallingPid := mCallingPid st, mCallingUid := mCallingUid st,
                 mStrictModePolicy := mStrictModePolicy st,
                 mLastTransactionBinderFlags := mLastTransactionBinderFlags st\<rparr>
           in \<comment> \<open>the two parcels are destroyed, the reply first\<close>
              ret (parcel_destroy buffer (parcel_destroy reply st4)))))"

definition executeCommand_with ::
    "('w ipc \<Rightarrow> (int \<times> 'w ipc) run) \<Rightarrow> 'w ipc_env \<Rightarrow> br \<Rightarrow> 'w ipc \<Rightarrow> (int \<times> 'w ipc) run" where
  "executeCommand_with wait E cmd st =
     rbind (case cmd of
         BR_ERROR e \<Rightarrow> ret (e, st)
       | BR_OK \<Rightarrow> ret (0, st)
       | BR_ACQUIRE refs ob \<Rightarrow> rbind (ie_inc_strong E ob st) (\<lambda>st. ret (0, write_cmd (BC_ACQUIRE_DONE refs ob) st))
       | BR_RELEASE refs ob \<Rightarrow> ret (0, st\<lparr>mPendingStrongDerefs := mPendingStrongDerefs st @ [ob]\<rparr>)
       | BR_INCREFS refs ob \<Rightarrow> rbind (ie_inc_weak E refs st) (\<lambda>st. ret (0, write_cmd (BC_INCREFS_DONE refs ob) st))
       | BR_DECREFS refs ob \<Rightarrow> ret (0, st\<lparr>mPendingWeakDerefs := mPendingWeakDerefs st @ [refs]\<rparr>)
       | BR_ATTEMPT_ACQUIRE refs ob \<Rightarrow>
           rbind (ie_attempt_inc_strong E refs st) (\<lambda>(success, st).
             ret (0, write_cmd (BC_ACQUIRE_RESULT (if success then 1 else 0)) st))
       | BR_TRANSACTION None \<Rightarrow> ret (NOT_ENOUGH_DATA (ie_err E), st)
       | BR_TRANSACTION (Some tr) \<Rightarrow> rbind (execute_transaction wait E tr st) (\<lambda>st. ret (0, st))
       | BR_DEAD_BINDER proxy \<Rightarrow>
           rbind (ie_send_obituary E proxy st) (\<lambda>st. ret (0, write_cmd (BC_DEAD_BINDER_DONE proxy) st))
       | BR_CLEAR_DEATH_NOTIFICATION_DONE proxy \<Rightarrow> rbind (ie_dec_proxy E proxy st) (\<lambda>st. ret (0, st))
       | BR_FINISHED \<Rightarrow> ret (TIMED_OUT (ie_err E), st)
       | BR_NOOP \<Rightarrow> ret (0, st)
       | BR_SPAWN_LOOPER \<Rightarrow> rbind (ie_spawn E st) (\<lambda>st. ret (0, st))
       | _ \<Rightarrow> ret (UNKNOWN_ERROR (ie_err E), st))
     (\<lambda>(result, st). ret (result, if result \<noteq> 0 then st\<lparr>mLastError := result\<rparr> else st))"

definition finish_wait ::
    "int \<Rightarrow> parcel option \<Rightarrow> int option \<Rightarrow> 'w ipc \<Rightarrow> (int \<times> parcel option \<times> int option \<times> 'w ipc) run" where
  \<comment> \<open>the code after the label \<open>finish\<close>\<close>
  "finish_wait err reply acquireResult st =
     (if err \<noteq> 0 then
        ret (err, map_option (\<lambda>p. p\<lparr>p_err := err\<rparr>) reply, map_option (\<lambda>_. err) acquireResult,
             st\<lparr>mLastError := err\<rparr>)
      else ret (err, reply, acquireResult, st))"

primrec waitForResponse ::
    "nat \<Rightarrow> 'w ipc_env \<Rightarrow> parcel option \<Rightarrow> int option \<Rightarrow> 'w ipc
       \<Rightarrow> (int \<times> parcel option \<times> int option \<times> 'w ipc) run" where
  "waitForResponse 0 E reply acquireResult st = None"
| "waitForResponse (Suc n) E reply acquireResult st =
     rbind (talkWithDriver n E True st) (\<lambda>(err, st).
       if err < 0 then finish_wait err reply acquireResult st
       else if mInErr st < 0 then finish_wait (mInErr st) reply acquireResult st
       else case mIn st of
         [] \<Rightarrow> waitForResponse n E reply acquireResult st
       | cmd # cmds \<Rightarrow>
         let st = st\<lparr>mIn := cmds\<rparr>; err = mInErr st in
         (case cmd of
            BR_TRANSACTION_COMPLETE \<Rightarrow>
              if reply = None \<and> acquireResult = None then finish_wait err reply acquireResult st
              else waitForResponse n E reply acquireResult st
          | BR_DEAD_REPLY \<Rightarrow> finish_wait (DEAD_OBJECT (ie_err E)) reply acquireResult st
          | BR_FAILED_REPLY \<Rightarrow> finish_wait (FAILED_TRANSACTION (ie_err E)) reply acquireResult st
          | BR_ACQUIRE_RESULT result \<Rightarrow>
              if acquireResult = None then waitForResponse n E reply acquireResult st
              else finish_wait err reply
                     (Some (if result \<noteq> 0 then 0 else INVALID_OPERATION (ie_err E))) st
          | BR_REPLY None \<Rightarrow> finish_wait (NOT_ENOUGH_DATA (ie_err E)) reply acquireResult st
          | BR_REPLY (Some tr) \<Rightarrow>
              (case reply of
                 Some old \<Rightarrow>
                   if t_flags tr AND tf_status_code (ie_uapi E) = 0
                   then \<comment> \<open>what the parcel referred to is given up first\<close>
                     finish_wait 0 (Some (ipcSetDataReference tr)) acquireResult (parcel_destroy old st)
                   else finish_wait (ie_status_at E (world st) (t_buffer tr)) reply acquireResult
                          (freeBuffer (t_buffer tr) st)
               | None \<Rightarrow> waitForResponse n E reply acquireResult (freeBuffer (t_buffer tr) st))
          | _ \<Rightarrow>
              rbind (executeCommand_with
                  (\<lambda>st. rbind (waitForResponse n E None None st) (\<lambda>(err, _, _, st). ret (err, st))) E cmd st)
                (\<lambda>(err, st). if err \<noteq> 0 then finish_wait err reply acquireResult st
                   else waitForResponse n E reply acquireResult st)))"

definition wait_plain :: "nat \<Rightarrow> 'w ipc_env \<Rightarrow> 'w ipc \<Rightarrow> (int \<times> 'w ipc) run" where
  "wait_plain n E st = rbind (waitForResponse n E None None st) (\<lambda>(err, _, _, st). ret (err, st))"

definition sendReply :: "nat \<Rightarrow> 'w ipc_env \<Rightarrow> parcel \<Rightarrow> u32 \<Rightarrow> 'w ipc \<Rightarrow> (int \<times> 'w ipc) run" where
  "sendReply n E = sendReply_with (wait_plain n E) E"

definition executeCommand :: "nat \<Rightarrow> 'w ipc_env \<Rightarrow> br \<Rightarrow> 'w ipc \<Rightarrow> (int \<times> 'w ipc) run" where
  "executeCommand n E = executeCommand_with (wait_plain n E) E"

section \<open>Calls\<close>

definition transact ::
    "nat \<Rightarrow> 'w ipc_env \<Rightarrow> u32 \<Rightarrow> u32 \<Rightarrow> parcel \<Rightarrow> parcel option \<Rightarrow> u32 \<Rightarrow> 'w ipc
       \<Rightarrow> (int \<times> parcel option \<times> 'w ipc) run" where
  "transact n E handle code data reply flags0 st =
     (let flags = flags0 OR tf_accept_fds (ie_uapi E);
          (err, st) = (if p_err data = 0
             then writeTransactionData E BC_TRANSACTION flags handle code data False st
             else (p_err data, st))
      in if err \<noteq> 0 then
           ret (err, map_option (\<lambda>p. p\<lparr>p_err := err\<rparr>) reply, st\<lparr>mLastError := err\<rparr>)
         else if flags AND tf_one_way (ie_uapi E) = 0 then
           rbind (waitForResponse n E (Some (case reply of Some p \<Rightarrow> p | None \<Rightarrow> empty_parcel)) None st)
             (\<lambda>(err, r, _, st).
               case reply of
                 Some _ \<Rightarrow> ret (err, r, st)
               | None \<Rightarrow> \<comment> \<open>\<open>fakeReply\<close> is destroyed here\<close>
                   ret (err, None, (case r of None \<Rightarrow> st | Some p \<Rightarrow> parcel_destroy p st)))
         else rbind (wait_plain n E st) (\<lambda>(err, st). ret (err, reply, st)))"

definition attemptIncStrongHandle :: "bool \<Rightarrow> nat \<Rightarrow> 'w ipc_env \<Rightarrow> u32 \<Rightarrow> 'w ipc \<Rightarrow> (int \<times> 'w ipc) run" where
  \<comment> \<open>the flag is \<open>HAS_BC_ATTEMPT_ACQUIRE\<close>\<close>
  "attemptIncStrongHandle has n E handle st =
     (if has then
        rbind (waitForResponse n E None (Some (UNKNOWN_ERROR (ie_err E)))
                 (write_cmd (BC_ATTEMPT_ACQUIRE 0 handle) st))
          (\<lambda>(_, _, result, st). ret (case result of Some r \<Rightarrow> r | None \<Rightarrow> 0, st))
      else ret (INVALID_OPERATION (ie_err E), st))"

section \<open>The life of a pool thread\<close>

definition set_foreground :: "'w ipc_env \<Rightarrow> 'w ipc \<Rightarrow> 'w ipc" where
  "set_foreground E st = st\<lparr>world := ie_set_background E False (world st)\<rparr>"

definition getAndExecuteCommand :: "nat \<Rightarrow> 'w ipc_env \<Rightarrow> 'w ipc \<Rightarrow> (int \<times> 'w ipc) run" where
  "getAndExecuteCommand n E st =
     rbind (talkWithDriver n E True st) (\<lambda>(result, st).
       if result \<ge> 0 then
         (case mIn st of
            [] \<Rightarrow> ret (result, st)
          | cmd # cmds \<Rightarrow>
              rbind (executeCommand n E cmd (st\<lparr>mIn := cmds\<rparr>)) (\<lambda>(result, st).
                ret (result, set_foreground E st)))
       else ret (result, st))"

primrec deref_loop ::
    "(u64 \<Rightarrow> 'w ipc \<Rightarrow> 'w ipc run) \<Rightarrow> ('w ipc \<Rightarrow> u64 list) \<Rightarrow> nat \<Rightarrow> nat \<Rightarrow> 'w ipc \<Rightarrow> 'w ipc run" where
  \<comment> \<open>\<open>k\<close> more entries of the vector from index \<open>i\<close> on; an index past the end is fatal\<close>
  "deref_loop dec vec 0 i st = ret st"
| "deref_loop dec vec (Suc k) i st =
     (if i < length (vec st) then rbind (dec (vec st ! i) st) (deref_loop dec vec k (i + 1)) else Some Abort)"

definition processPendingDerefs :: "'w ipc_env \<Rightarrow> 'w ipc \<Rightarrow> 'w ipc run" where
  "processPendingDerefs E st =
     (if mIn st \<noteq> [] then ret st
      else
        rbind (let numPending = length (mPendingWeakDerefs st)
               in if numPending > 0 then
                    rbind (deref_loop (ie_dec_weak E) mPendingWeakDerefs numPending 0 st)
                      (\<lambda>st. ret (st\<lparr>mPendingWeakDerefs := []\<rparr>))
                  else ret st) (\<lambda>st.
          let numPending = length (mPendingStrongDerefs st)
          in if numPending > 0 then
               rbind (deref_loop (ie_dec_strong E) mPendingStrongDerefs numPending 0 st)
                 (\<lambda>st. ret (st\<lparr>mPendingStrongDerefs := []\<rparr>))
             else ret st))"

definition pool_fatal :: "err_codes \<Rightarrow> int \<Rightarrow> bool" where
  "pool_fatal K result \<longleftrightarrow>
     result < 0 \<and> result \<noteq> TIMED_OUT K \<and> result \<noteq> - ECONNREFUSED K \<and> result \<noteq> - EBADF K"

primrec pool_loop :: "nat \<Rightarrow> nat \<Rightarrow> 'w ipc_env \<Rightarrow> bool \<Rightarrow> 'w ipc \<Rightarrow> (int \<times> 'w ipc) run" where
  \<comment> \<open>the \<open>do\<close> loop of \<open>joinThreadPool\<close> and the result that ended it\<close>
  "pool_loop 0 n E isMain st = None"
| "pool_loop (Suc k) n E isMain st =
     rbind (processPendingDerefs E st) (\<lambda>st.
     rbind (getAndExecuteCommand n E st) (\<lambda>(result, st).
       if pool_fatal (ie_err E) result then Some Abort
       else if result = TIMED_OUT (ie_err E) \<and> \<not> isMain then ret (result, st)
       else if result \<noteq> - ECONNREFUSED (ie_err E) \<and> result \<noteq> - EBADF (ie_err E)
            then pool_loop k n E isMain st
            else ret (result, st)))"

definition joinThreadPool :: "nat \<Rightarrow> nat \<Rightarrow> 'w ipc_env \<Rightarrow> bool \<Rightarrow> 'w ipc \<Rightarrow> 'w ipc run" where
  "joinThreadPool k n E isMain st =
     rbind (pool_loop k n E isMain
        (set_foreground E (write_cmd (if isMain then BC_ENTER_LOOPER else BC_REGISTER_LOOPER) st)))
       (\<lambda>(_, st). rbind (talkWithDriver n E False (write_cmd BC_EXIT_LOOPER st)) (\<lambda>(_, st). ret st))"

definition setupPolling :: "'w ipc_env \<Rightarrow> 'w ipc \<Rightarrow> int \<times> int option \<times> 'w ipc" where
  \<comment> \<open>the descriptor stored through the out parameter\<close>
  "setupPolling E st =
     (if mDriverFD st \<le> 0 then (- EBADF (ie_err E), None, st)
      else (0, Some (mDriverFD st), write_cmd BC_ENTER_LOOPER st))"

primrec poll_loop :: "nat \<Rightarrow> nat \<Rightarrow> 'w ipc_env \<Rightarrow> 'w ipc \<Rightarrow> (int \<times> 'w ipc) run" where
  "poll_loop 0 n E st = None"
| "poll_loop (Suc k) n E st =
     rbind (getAndExecuteCommand n E st) (\<lambda>(result, st).
       if mIn st \<noteq> [] then poll_loop k n E st else ret (result, st))"

definition handlePolledCommands :: "nat \<Rightarrow> nat \<Rightarrow> 'w ipc_env \<Rightarrow> 'w ipc \<Rightarrow> (int \<times> 'w ipc) run" where
  "handlePolledCommands k n E st =
     rbind (poll_loop k n E st) (\<lambda>(result, st).
     rbind (processPendingDerefs E st) (\<lambda>st.
     rbind (flushCommands n E st) (\<lambda>st. ret (result, st))))"

definition stopProcess :: "nat \<Rightarrow> 'w ipc_env \<Rightarrow> 'w ipc \<Rightarrow> 'w ipc run" where
  "stopProcess n E st =
     rbind (flushCommands n E st) (\<lambda>st.
       ret (st\<lparr>mDriverFD := -1, world := ie_close E (mDriverFD st) (world st)\<rparr>))"

definition threadDestructor :: "nat \<Rightarrow> 'w ipc_env \<Rightarrow> 'w ipc \<Rightarrow> 'w run" where
  \<comment> \<open>the thread state is deleted; the world is left\<close>
  "threadDestructor n E st =
     rbind (flushCommands n E st) (\<lambda>st.
       ret (if mDriverFD st > 0 then ie_thread_exit E (world st) else world st))"

section \<open>Thread-local storage\<close>

text \<open>
  The globals behind \<open>self\<close>: whether the key exists, whether the library was shut down, and
  each thread's slot, here the presence of its state. Threads are numbered.
\<close>

record tls =
  gHaveTLS :: bool
  gShutdown :: bool
  slots :: "nat \<Rightarrow> bool"

datatype self_result = Existing | Created | NoState

definition tls_self :: "bool \<Rightarrow> nat \<Rightarrow> tls \<Rightarrow> self_result \<times> tls" where
  \<comment> \<open>\<open>self\<close>; the flag says whether \<open>pthread_key_create\<close> succeeds. The constructor
    stores the new state in the slot.\<close>
  "tls_self key_ok t g =
     (let restart = (\<lambda>g. if slots g t then (Existing, g) else (Created, g\<lparr>slots := (slots g)(t := True)\<rparr>))
      in if gHaveTLS g then restart g
         else if gShutdown g then (NoState, g)
         else if \<not> key_ok then (NoState, g)
         else restart (g\<lparr>gHaveTLS := True\<rparr>))"

definition tls_selfOrNull :: "nat \<Rightarrow> tls \<Rightarrow> self_result" where
  "tls_selfOrNull t g = (if gHaveTLS g \<and> slots g t then Existing else NoState)"

definition tls_shutdown :: "nat \<Rightarrow> tls \<Rightarrow> tls" where
  "tls_shutdown t g =
     (let g = g\<lparr>gShutdown := True\<rparr>
      in if gHaveTLS g then g\<lparr>slots := (slots g)(t := False), gHaveTLS := False\<rparr> else g)"

section \<open>More fuel never changes a result\<close>

lemma le_run_br [run_mono]:
  assumes
    "\<And>x. le_run (f0 x) (g0 x)" "le_run f1 g1" "\<And>x. le_run (f2 x) (g2 x)"
    "\<And>x. le_run (f3 x) (g3 x)" "\<And>x. le_run (f4 x) (g4 x)" "le_run f5 g5"
    "le_run f6 g6" "\<And>x y. le_run (f7 x y) (g7 x y)" "\<And>x y. le_run (f8 x y) (g8 x y)"
    "\<And>x y. le_run (f9 x y) (g9 x y)" "\<And>x y. le_run (f10 x y) (g10 x y)" "\<And>x y. le_run (f11 x y) (g11 x y)"
    "le_run f12 g12" "le_run f13 g13" "le_run f14 g14"
    "\<And>x. le_run (f15 x) (g15 x)" "\<And>x. le_run (f16 x) (g16 x)" "le_run f17 g17"
    "\<And>x. le_run (f18 x) (g18 x)"
  shows "le_run (case_br f0 f1 f2 f3 f4 f5 f6 f7 f8 f9 f10 f11 f12 f13 f14 f15 f16 f17 f18 cmd)
    (case_br g0 g1 g2 g3 g4 g5 g6 g7 g8 g9 g10 g11 g12 g13 g14 g15 g16 g17 g18 cmd)"
  using assms by (cases cmd) simp_all

lemma driver_io_mono: "n \<le> m \<Longrightarrow> le_run (driver_io n E cmds c rd st) (driver_io m E cmds c rd st)"
proof (induction n arbitrary: m c st)
  case (Suc n)
  then obtain m' where "m = Suc m'" "n \<le> m'" by (cases m) auto
  then show ?case using Suc.IH [of m'] by (simp add: Let_def le_run_refl)
qed (simp add: le_run_None)

lemma talkWithDriver_mono: "n \<le> m \<Longrightarrow> le_run (talkWithDriver n E d st) (talkWithDriver m E d st)"
  unfolding talkWithDriver_def by (intro run_mono driver_io_mono)

lemma sendReply_with_mono:
  assumes "\<And>st. le_run (w st) (w' st)"
  shows "le_run (sendReply_with w E reply f st) (sendReply_with w' E reply f st)"
  unfolding sendReply_with_def by (intro run_mono assms)

lemma execute_transaction_mono:
  assumes "\<And>st. le_run (w st) (w' st)"
  shows "le_run (execute_transaction w E tr st) (execute_transaction w' E tr st)"
  unfolding execute_transaction_def by (intro run_mono sendReply_with_mono assms)

lemma executeCommand_with_mono:
  assumes "\<And>st. le_run (w st) (w' st)"
  shows "le_run (executeCommand_with w E cmd st) (executeCommand_with w' E cmd st)"
  unfolding executeCommand_with_def
  by (intro run_mono execute_transaction_mono assms)

lemma waitForResponse_mono:
  "n \<le> m \<Longrightarrow> le_run (waitForResponse n E reply acq st) (waitForResponse m E reply acq st)"
proof (induction n arbitrary: m reply acq st)
  case (Suc n)
  then obtain m' where m: "m = Suc m'" "n \<le> m'" by (cases m) auto
  note IH = Suc.IH [OF m(2)]
  have w: "le_run (rbind (waitForResponse n E None None st) (\<lambda>(err, _, _, st). ret (err, st)))
      (rbind (waitForResponse m' E None None st) (\<lambda>(err, _, _, st). ret (err, st)))" for st
    by (intro run_mono IH)
  show ?case
    unfolding m(1) waitForResponse.simps
    by (intro run_mono talkWithDriver_mono m(2) IH executeCommand_with_mono w)
qed (simp add: le_run_None)

text \<open>
  Fuel is only a bound on waiting: once \<open>transact\<close> has a result, the same call with
  more fuel has the same result, whatever the driver and the objects do meanwhile.
\<close>

theorem transact_fuel_irrelevant:
  assumes "transact n E handle code data reply flags st = Some r" and "n \<le> m"
  shows "transact m E handle code data reply flags st = Some r"
proof -
  have "le_run (transact n E handle code data reply flags st) (transact m E handle code data reply flags st)"
    unfolding transact_def wait_plain_def by (intro run_mono waitForResponse_mono assms(2))
  then show ?thesis using assms(1) by (rule le_runD)
qed

section \<open>The calling identity\<close>

text \<open>
  The identity a thread acts for: the caller's pid and uid, its strict-mode policy and the flags
  of the transaction being served.
\<close>

definition identity :: "'w ipc \<Rightarrow> u32 \<times> u32 \<times> u32 \<times> u32" where
  "identity st = (mCallingPid st, mCallingUid st, mStrictModePolicy st, mLastTransactionBinderFlags st)"

lemma parcel_destroy_buffer [simp]:
  "parcel_destroy (ipcSetDataReference tr) st = freeBuffer (t_buffer tr) st"
  by (simp add: parcel_destroy_def ipcSetDataReference_def)

lemma identity_updates [simp]:
  "identity (st\<lparr>mIn := a\<rparr>) = identity st" "identity (st\<lparr>mOut := b\<rparr>) = identity st"
  "identity (st\<lparr>mPendingStrongDerefs := c\<rparr>) = identity st" "identity (st\<lparr>mPendingWeakDerefs := c\<rparr>) = identity st"
  "identity (st\<lparr>mLastError := e\<rparr>) = identity st" "identity (st\<lparr>world := w\<rparr>) = identity st"
  "identity (st\<lparr>mDriverFD := fd\<rparr>) = identity st" "identity (write_cmd cmd st) = identity st"
  "identity (freeBuffer k st) = identity st"
  by (simp_all add: identity_def write_cmd_def freeBuffer_def)

lemma identity_parcel_destroy [simp]: "identity (parcel_destroy p st) = identity st"
  by (simp add: parcel_destroy_def split: option.split)

lemma execute_transaction_end:
  "post (execute_transaction wait E tr st)
     (\<lambda>st'. \<exists>st4. st' = freeBuffer (t_buffer tr) st4 \<and> identity st4 = identity st)"
proof (rule postI)
  fix st' assume "execute_transaction wait E tr st = ret st'"
  then obtain reply st3 where "st' = freeBuffer (t_buffer tr) (parcel_destroy reply
      (st3\<lparr>mCallingPid := mCallingPid st, mCallingUid := mCallingUid st,
        mStrictModePolicy := mStrictModePolicy st,
        mLastTransactionBinderFlags := mLastTransactionBinderFlags st\<rparr>))"
    by (auto simp: execute_transaction_def Let_def rbind_ret_iff)
  then show "\<exists>st4. st' = freeBuffer (t_buffer tr) st4 \<and> identity st4 = identity st"
    by (intro exI conjI, assumption) (simp, simp add: identity_def)
qed

text \<open>
  Whatever a transaction does -- the object's code may clear or change the identity, call out,
  serve nested transactions -- when its execution returns the thread has the identity it had
  before, and the driver buffer is queued to be freed.
\<close>

theorem transaction_restores_identity:
  assumes "executeCommand n E (BR_TRANSACTION (Some tr)) st = ret (res, st')"
  shows "identity st' = identity st \<and> res = 0 \<and> last (mOut st') = BC_FREE_BUFFER (t_buffer tr)"
proof -
  obtain "res = 0" "execute_transaction (wait_plain n E) E tr st = ret st'"
    using assms by (auto simp: executeCommand_def executeCommand_with_def rbind_ret_iff)
  then show ?thesis using postD [OF execute_transaction_end] by (fastforce simp: freeBuffer_def write_cmd_def)
qed

text \<open>
  What the environment does outside transactions: taking a reference, dropping the one a death
  notification held and starting a thread leave the identity alone. Nothing is said of the
  recipients of a death notice, which run code of the application: \<open>left_by_obituary\<close> are the
  identities that they leave behind without having found them.
\<close>

definition counts_keep_identity :: "'w ipc_env \<Rightarrow> bool" where
  "counts_keep_identity E \<longleftrightarrow>
     (\<forall>f x st. f \<in> {ie_inc_strong E, ie_inc_weak E, ie_dec_proxy E, \<lambda>_. ie_spawn E} \<longrightarrow>
        post (f x st) (\<lambda>st'. identity st' = identity st)) \<and>
     (\<forall>x st. post (ie_attempt_inc_strong E x st) (\<lambda>(_, st'). identity st' = identity st))"

definition left_by_obituary :: "'w ipc_env \<Rightarrow> u32 \<times> u32 \<times> u32 \<times> u32 \<Rightarrow> bool" where
  "left_by_obituary E i \<longleftrightarrow>
     (\<exists>this st st'. ie_send_obituary E this st = ret st' \<and> identity st' = i \<and> identity st \<noteq> i)"

lemma post_br [run_post]:
  assumes
    "\<And>x. cmd = BR_ERROR x \<Longrightarrow> post (f0 x) P"
    "cmd = BR_OK \<Longrightarrow> post f1 P"
    "\<And>x. cmd = BR_TRANSACTION x \<Longrightarrow> post (f2 x) P"
    "\<And>x. cmd = BR_REPLY x \<Longrightarrow> post (f3 x) P"
    "\<And>x. cmd = BR_ACQUIRE_RESULT x \<Longrightarrow> post (f4 x) P"
    "cmd = BR_DEAD_REPLY \<Longrightarrow> post f5 P"
    "cmd = BR_TRANSACTION_COMPLETE \<Longrightarrow> post f6 P"
    "\<And>x y. cmd = BR_INCREFS x y \<Longrightarrow> post (f7 x y) P"
    "\<And>x y. cmd = BR_ACQUIRE x y \<Longrightarrow> post (f8 x y) P"
    "\<And>x y. cmd = BR_RELEASE x y \<Longrightarrow> post (f9 x y) P"
    "\<And>x y. cmd = BR_DECREFS x y \<Longrightarrow> post (f10 x y) P"
    "\<And>x y. cmd = BR_ATTEMPT_ACQUIRE x y \<Longrightarrow> post (f11 x y) P"
    "cmd = BR_NOOP \<Longrightarrow> post f12 P"
    "cmd = BR_SPAWN_LOOPER \<Longrightarrow> post f13 P"
    "cmd = BR_FINISHED \<Longrightarrow> post f14 P"
    "\<And>x. cmd = BR_DEAD_BINDER x \<Longrightarrow> post (f15 x) P"
    "\<And>x. cmd = BR_CLEAR_DEATH_NOTIFICATION_DONE x \<Longrightarrow> post (f16 x) P"
    "cmd = BR_FAILED_REPLY \<Longrightarrow> post f17 P"
    "\<And>x. cmd = BR_OTHER x \<Longrightarrow> post (f18 x) P"
  shows "post (case_br f0 f1 f2 f3 f4 f5 f6 f7 f8 f9 f10 f11 f12 f13 f14 f15 f16 f17 f18 cmd) P"
  using assms by (cases cmd) simp_all

lemma driver_io_identity:
  "J (identity st) \<Longrightarrow> post (driver_io n E cmds c rd st) (\<lambda>(err, k, read, st'). J (identity st'))"
  by (induction n arbitrary: c st) (simp_all add: Let_def post_ret post_fail)

lemma talk_identity:
  assumes "J (identity st)"
  shows "post (talkWithDriver n E d st) (\<lambda>(err, st'). J (identity st'))"
  unfolding talkWithDriver_def
  by (intro run_post post_bind [OF driver_io_identity [where J = J]]) (use assms in \<open>auto simp: Let_def split: if_splits\<close>)

text \<open>A property of identities that the environment keeps is kept by the thread.\<close>

definition env_keeps :: "'w ipc_env \<Rightarrow> (u32 \<times> u32 \<times> u32 \<times> u32 \<Rightarrow> bool) \<Rightarrow> bool" where
  "env_keeps E J \<longleftrightarrow> counts_keep_identity E \<and>
     (\<forall>this st. J (identity st) \<longrightarrow> post (ie_send_obituary E this st) (\<lambda>st'. J (identity st')))"

lemma env_keepsD:
  assumes "env_keeps E J" "J (identity st)"
  shows "post (ie_inc_strong E x st) (\<lambda>st'. J (identity st'))" "post (ie_inc_weak E x st) (\<lambda>st'. J (identity st'))"
    "post (ie_send_obituary E x st) (\<lambda>st'. J (identity st'))" "post (ie_dec_proxy E x st) (\<lambda>st'. J (identity st'))"
    "post (ie_spawn E st) (\<lambda>st'. J (identity st'))"
    "post (ie_attempt_inc_strong E x st) (\<lambda>(_, st'). J (identity st'))"
  using assms unfolding env_keeps_def counts_keep_identity_def by (auto simp: post_def)

lemma env_keeps_obituary:
  "counts_keep_identity E \<Longrightarrow> env_keeps E (\<lambda>x. x = i \<or> left_by_obituary E x)"
  unfolding env_keeps_def left_by_obituary_def post_def by metis

lemma execute_transaction_identity:
  "J (identity st) \<Longrightarrow> post (execute_transaction wait E tr st) (\<lambda>st'. J (identity st'))"
  by (rule post_weaken [OF execute_transaction_end]) auto

lemma executeCommand_with_identity:
  assumes E: "env_keeps E J" and i: "J (identity st)"
  shows "post (executeCommand_with wait E cmd st) (\<lambda>(res, st'). J (identity st'))"
proof -
  note k = env_keepsD [OF E i]
  show ?thesis
    unfolding executeCommand_with_def
  proof (rule post_bind [where Q = "\<lambda>(res, st'). J (identity st')"], goal_cases)
    case 1
    show ?case
      by (intro run_post k [THEN post_bind] post_bind [OF execute_transaction_identity [where J = J, OF i]])
        (use i in \<open>auto simp: identity_def write_cmd_def\<close>)
  next
    case (2 x)
    then show ?case by (auto intro!: run_post)
  qed
qed

lemma finish_wait_identity:
  "J (identity st) \<Longrightarrow> post (finish_wait e r a st) (\<lambda>(err, r', a', st'). J (identity st'))"
  by (simp add: finish_wait_def post_ret)

lemma waitForResponse_identity:
  assumes E: "env_keeps E J"
  shows "J (identity st) \<Longrightarrow> post (waitForResponse n E reply acq st) (\<lambda>(err, reply', acq', st'). J (identity st'))"
proof (induction n arbitrary: reply acq st)
  case (Suc n)
  show ?case
    unfolding waitForResponse.simps
    by (intro run_post post_bind [OF talk_identity [where J = J, OF Suc.prems]] finish_wait_identity [where J = J] Suc.IH
        post_bind [OF executeCommand_with_identity [OF E]]) auto
qed (simp add: post_fail)

end
