(* ===== verification/Ipc_Correct.thy ===== *)
theory Ipc_Correct
  imports Ipc_Thread
begin

text \<open>
  What the thread side of the binder library guarantees: the identity of a thread across calls,
  the order of commands, the treatment of unread input, error paths, deferred reference counts,
  and the exit of pool threads.
\<close>

section \<open>Identity\<close>


text \<open>The token: the upper half is the uid, or all ones when the pid is negative; the lower half the pid.\<close>

definition identity_token :: "u32 \<Rightarrow> u32 \<Rightarrow> 64 word" where
  "identity_token uid pid = push_bit 32 (ucast uid) OR scast pid"

lemma bit_identity_token:
  "bit (identity_token uid pid) n \<longleftrightarrow> n < 64 \<and>
     (if n < 32 then bit pid n else bit uid (n - 32) \<or> bit pid 31)"
proof -
  have b: "bit pid n \<Longrightarrow> n < 32" "bit uid n \<Longrightarrow> n < 32" for n
    using bit_imp_le_length [of pid n] bit_imp_le_length [of uid n] by auto
  have k: "31 \<le> n \<Longrightarrow> n < 32 \<Longrightarrow> bit pid n = bit pid 31"
    by (cases "n = 31") auto
  show ?thesis
    by (auto simp: identity_token_def k bit_or_iff bit_push_bit_iff bit_unsigned_iff bit_signed_iff
        min_def dest: b)
qed

lemma identity_token_pid: "ucast (identity_token uid pid) = pid"
  by (rule bit_word_eqI) (auto simp: bit_unsigned_iff bit_identity_token)

lemma identity_token_uid:
  "ucast (signed_drop_bit 32 (identity_token uid pid)) = (if bit pid 31 then -1 else uid)"
proof (rule bit_word_eqI)
  fix n assume "n < LENGTH(32)"
  then show "bit (ucast (signed_drop_bit 32 (identity_token uid pid)) :: u32) n =
      bit (if bit pid 31 then -1 else uid) n"
    by (auto simp: bit_unsigned_iff bit_signed_drop_bit_iff bit_identity_token)
qed

text \<open>
  C31. Clearing the calling identity and restoring the token gives the thread's state back exactly
  when the pid is not negative or the uid is all ones: the sign bits of a negative pid overwrite
  the uid in the token.
\<close>

theorem calling_identity_roundtrip:
  "(case clearCallingIdentity E st of (token, st1) \<Rightarrow> restoreCallingIdentity token st1) = st \<longleftrightarrow>
     \<not> (bit (mCallingPid st) 31 \<and> mCallingUid st \<noteq> -1)"
proof -
  have "(case clearCallingIdentity E st of (token, st1) \<Rightarrow> restoreCallingIdentity token st1) =
      st\<lparr>mCallingUid := if bit (mCallingPid st) 31 then -1 else mCallingUid st\<rparr>"
    using identity_token_uid [of "mCallingUid st" "mCallingPid st"]
      identity_token_pid [of "mCallingUid st" "mCallingPid st"]
    by (cases st) (simp add: clearCallingIdentity_def restoreCallingIdentity_def clearCaller_def
        identity_token_def [symmetric])
  then show ?thesis by (cases st) auto
qed

section \<open>Commands and their order\<close>

text \<open>
  A driver whose log records what it consumes: an ioctl consumes the commands in order, from where
  an interrupted call left off, and reads only when asked.
\<close>

definition driver_in_order :: "'w ipc_env \<Rightarrow> ('w \<Rightarrow> bc list) \<Rightarrow> bool" where
  "driver_in_order E lg \<longleftrightarrow> (\<forall>w cmds c rd. c \<le> length cmds \<longrightarrow>
     (let r = ie_ioctl E w cmds c rd in
      c \<le> io_consumed r \<and> io_consumed r \<le> length cmds \<and>
      lg (io_world r) = lg w @ drop c (take (io_consumed r) cmds) \<and> (\<not> rd \<longrightarrow> io_read r = [])))"

lemma driver_io_order:
  assumes D: "driver_in_order E lg"
  shows "c \<le> length cmds \<Longrightarrow> lg (world st) = l @ take c cmds \<Longrightarrow>
    post (driver_io n E cmds c rd st) (\<lambda>(err, k, read, st'). k \<le> length cmds \<and>
      lg (world st') = l @ take k cmds \<and> mOut st' = mOut st \<and> mIn st' = mIn st \<and> (\<not> rd \<longrightarrow> read = []))"
proof (induction n arbitrary: c st)
  case (Suc n)
  let ?r = "ie_ioctl E (world st) cmds c rd"
  let ?st = "st\<lparr>mDriverFD := io_fd ?r, world := io_world ?r\<rparr>"
  have D': "c \<le> io_consumed ?r" "io_consumed ?r \<le> length cmds" "\<not> rd \<longrightarrow> io_read ?r = []"
    "lg (io_world ?r) = lg (world st) @ drop c (take (io_consumed ?r) cmds)"
    using D Suc.prems(1) unfolding driver_in_order_def Let_def by blast+
  have "take c (take (io_consumed ?r) cmds) = take c cmds" using D'(1) by (simp add: min_def)
  then have lg: "lg (io_world ?r) = l @ take (io_consumed ?r) cmds"
    using D'(4) Suc.prems(2) append_take_drop_id [of c "take (io_consumed ?r) cmds"] by (metis append_assoc)
  have "post (driver_io n E cmds (io_consumed ?r) rd ?st) (\<lambda>(err, k, read, st'). k \<le> length cmds \<and>
      lg (world st') = l @ take k cmds \<and> mOut st' = mOut ?st \<and> mIn st' = mIn ?st \<and> (\<not> rd \<longrightarrow> read = []))"
    by (rule Suc.IH) (use D'(2) lg in simp_all)
  then show ?case
    unfolding driver_io.simps Let_def
    by (intro run_post) (use D'(2,3) lg in simp_all)
qed (simp add: post_fail)

text \<open>An exchange in closed form.\<close>

definition pending_out :: "bool \<Rightarrow> 'w ipc \<Rightarrow> bc list" where
  "pending_out doReceive st = (if \<not> doReceive \<or> mIn st = [] then mOut st else [])"

lemma pending_out_take:
  "k \<le> length (pending_out d st) \<Longrightarrow> take k (pending_out d st) @ drop k (mOut st) = mOut st"
  by (auto simp: pending_out_def split: if_splits)

lemma talkWithDriver_eq:
  "talkWithDriver n E doReceive st =
     (if mDriverFD st \<le> 0 then ret (- EBADF (ie_err E), st)
      else if pending_out doReceive st = [] \<and> \<not> (doReceive \<and> mIn st = []) then ret (0, st)
      else rbind (driver_io n E (pending_out doReceive st) 0 (doReceive \<and> mIn st = []) st)
        (\<lambda>(err, k, read, st1). if 0 \<le> err
           then ret (0, st1\<lparr>mIn := if read = [] then mIn st1 else read, mOut := drop k (mOut st1)\<rparr>)
           else ret (err, st1)))"
proof -
  have a: "(if read \<noteq> []
        then (if 0 < k then if k < length (mOut s) then s\<lparr>mOut := drop k (mOut s)\<rparr> else s\<lparr>mOut := []\<rparr> else s)
          \<lparr>mIn := read\<rparr>
        else if 0 < k then if k < length (mOut s) then s\<lparr>mOut := drop k (mOut s)\<rparr> else s\<lparr>mOut := []\<rparr> else s)
      = s\<lparr>mIn := if read = [] then mIn s else read, mOut := drop k (mOut s)\<rparr>"
    for k read and s :: "'a ipc" by (cases s) auto
  show ?thesis
    unfolding talkWithDriver_def Let_def pending_out_def a by (rule refl)
qed

text \<open>
  C32. An exchange with the driver that succeeds neither loses, duplicates nor reorders a command:
  what the driver has consumed followed by what is still queued is the same before and after.
\<close>

theorem commands_in_order:
  assumes D: "driver_in_order E lg" and r: "talkWithDriver n E doReceive st = ret (0, st')"
    and fd: "0 < mDriverFD st"
  shows "lg (world st') @ mOut st' = lg (world st) @ mOut st"
proof -
  have io: "post (driver_io n E (pending_out doReceive st) 0 rd st) (\<lambda>(err, k, read, st'). k \<le> length (pending_out doReceive st) \<and>
      lg (world st') = lg (world st) @ take k (pending_out doReceive st) \<and> mOut st' = mOut st \<and> mIn st' = mIn st \<and>
      (\<not> rd \<longrightarrow> read = []))" for rd
    by (rule driver_io_order [OF D]) simp_all
  have "post (talkWithDriver n E doReceive st) (\<lambda>(err, st'). err = 0 \<longrightarrow>
      lg (world st') @ mOut st' = lg (world st) @ mOut st)"
    unfolding talkWithDriver_eq
    by (intro run_post post_bind [OF io]) (use fd in \<open>clarsimp simp: pending_out_take\<close>)+
  then show ?thesis using r by (auto dest: postD)
qed

text \<open>
  Commands from the driver that have not been read yet survive every exchange: as long as one
  is left nothing is read over it, and a receiving exchange does not even enter the driver.
\<close>

theorem unread_input_kept:
  assumes D: "driver_in_order E lg" and r: "talkWithDriver n E doReceive st = ret (err, st')"
    and unread: "mIn st \<noteq> []"
  shows "mIn st' = mIn st \<and> (doReceive \<and> 0 < mDriverFD st \<longrightarrow> err = 0 \<and> st' = st)"
proof -
  have io: "post (driver_io n E (pending_out doReceive st) 0 rd st) (\<lambda>(err, k, read, st'). k \<le> length (pending_out doReceive st) \<and>
      lg (world st') = lg (world st) @ take k (pending_out doReceive st) \<and> mOut st' = mOut st \<and> mIn st' = mIn st \<and>
      (\<not> rd \<longrightarrow> read = []))" for rd
    by (rule driver_io_order [OF D]) simp_all
  have "post (talkWithDriver n E doReceive st) (\<lambda>(err, st'). mIn st' = mIn st \<and>
      (doReceive \<and> 0 < mDriverFD st \<longrightarrow> err = 0 \<and> st' = st))"
  proof (cases doReceive)
    case True
    then show ?thesis using unread by (simp add: talkWithDriver_eq pending_out_def post_ret)
  next
    case False
    then show ?thesis
      unfolding talkWithDriver_eq by (intro run_post post_bind [OF io]) auto
  qed
  then show ?thesis using r by (auto dest: postD)
qed

section \<open>Errors\<close>

text \<open>
  A call whose parcel is in error sends nothing: the driver is not entered, no command is
  queued, and the error is returned, stored in the reply and remembered.
\<close>

theorem transact_bad_parcel:
  assumes "p_err data \<noteq> 0"
  shows "transact n E handle code data reply flags st =
    ret (p_err data, map_option (\<lambda>p. p\<lparr>p_err := p_err data\<rparr>) reply, st\<lparr>mLastError := p_err data\<rparr>)"
  using assms by (simp add: transact_def)

text \<open>The thread has unread input from the driver, and its connection is open.\<close>

definition reading :: "br list \<Rightarrow> 'w ipc \<Rightarrow> bool" where
  "reading cmds st \<longleftrightarrow> mIn st = cmds \<and> 0 < mDriverFD st \<and> mInErr st = 0"

lemma talk_reading: "reading cmds st \<Longrightarrow> cmds \<noteq> [] \<Longrightarrow> talkWithDriver n E True st = ret (0, st)"
  by (simp add: reading_def talkWithDriver_eq pending_out_def)

text \<open>Commands that only mark progress of the protocol.\<close>

fun is_noise :: "br \<Rightarrow> bool" where
  "is_noise BR_NOOP = True"
| "is_noise BR_OK = True"
| "is_noise BR_TRANSACTION_COMPLETE = True"
| "is_noise _ = False"

lemma wait_noise:
  assumes "is_noise c" and "reading (c # cmds) st" and "reply \<noteq> None \<or> acq \<noteq> None"
  shows "waitForResponse (Suc n) E reply acq st = waitForResponse n E reply acq (st\<lparr>mIn := cmds\<rparr>)"
  using assms talk_reading [OF assms(2), of n E]
  by (cases c) (auto simp: reading_def executeCommand_with_def Let_def)

lemma wait_skips_noise:
  assumes "\<forall>c \<in> set pre. is_noise c" and "reading (pre @ cmds) st" and "reply \<noteq> None \<or> acq \<noteq> None"
  shows "waitForResponse (length pre + n) E reply acq st = waitForResponse n E reply acq (st\<lparr>mIn := cmds\<rparr>)"
  using assms
proof (induction pre arbitrary: st)
  case (Cons c pre)
  have "reading (pre @ cmds) (st\<lparr>mIn := pre @ cmds\<rparr>)" using Cons.prems(2) by (simp add: reading_def)
  with Cons wait_noise [of c "pre @ cmds" st reply acq "length pre + n" E] show ?case by simp
next
  case Nil
  then have "st\<lparr>mIn := cmds\<rparr> = st" by (cases st) (simp add: reading_def)
  then show ?case by simp
qed

text \<open>The result of waiting for a reply that the last command read decides.\<close>

fun final_outcome ::
    "'w ipc_env \<Rightarrow> parcel \<Rightarrow> br \<Rightarrow> 'w ipc \<Rightarrow> (int \<times> parcel option \<times> int option \<times> 'w ipc) option" where
  "final_outcome E p (BR_REPLY (Some tr)) st =
     (let e = ie_status_at E (world st) (t_buffer tr); st2 = freeBuffer (t_buffer tr) st
      in if t_flags tr AND tf_status_code (ie_uapi E) = 0
         then Some (0, Some (ipcSetDataReference tr), None, parcel_destroy p st)
         else if e = 0 then Some (0, Some p, None, st2)
         else Some (e, Some (p\<lparr>p_err := e\<rparr>), None, st2\<lparr>mLastError := e\<rparr>))"
| "final_outcome E p BR_DEAD_REPLY st = (let e = DEAD_OBJECT (ie_err E)
     in Some (e, Some (p\<lparr>p_err := e\<rparr>), None, st\<lparr>mLastError := e\<rparr>))"
| "final_outcome E p BR_FAILED_REPLY st = (let e = FAILED_TRANSACTION (ie_err E)
     in Some (e, Some (p\<lparr>p_err := e\<rparr>), None, st\<lparr>mLastError := e\<rparr>))"
| "final_outcome E p (BR_REPLY None) st = (let e = NOT_ENOUGH_DATA (ie_err E)
     in Some (e, Some (p\<lparr>p_err := e\<rparr>), None, st\<lparr>mLastError := e\<rparr>))"
| "final_outcome E p _ st = None"

lemma wait_final:
  assumes r: "reading (c # cmds) st" and K: "errs_ok (ie_err E)"
    and f: "final_outcome E p c (st\<lparr>mIn := cmds\<rparr>) = Some out"
  shows "waitForResponse (Suc n) E (Some p) None st = ret out"
proof -
  have k: "DEAD_OBJECT (ie_err E) \<noteq> 0" "FAILED_TRANSACTION (ie_err E) \<noteq> 0" "NOT_ENOUGH_DATA (ie_err E) \<noteq> 0"
    using K by (auto simp: errs_ok_def)
  have st: "mIn st = c # cmds" "\<not> mInErr st < 0" using r by (simp_all add: reading_def)
  show ?thesis
    using f talk_reading [OF r, of n E] k st
    by (cases "(E, p, c, st\<lparr>mIn := cmds\<rparr>)" rule: final_outcome.cases)
      (auto simp: Let_def finish_wait_def freeBuffer_def write_cmd_def split: if_splits)
qed

text \<open>
  The outcome of waiting for a reply, once the driver has answered after some protocol noise:
  a reply hands its buffer over to the reply parcel, which first gives back the buffer it had; a status reply is returned as the error it
  carries and its buffer is freed; a dead or failed target or a truncated reply gives the
  corresponding error; and in each error case the error is stored in the reply and remembered.
\<close>

theorem waitForResponse_outcome:
  assumes "\<forall>c \<in> set pre. is_noise c" and "reading (pre @ c # cmds) st" and "errs_ok (ie_err E)"
    and "final_outcome E p c (st\<lparr>mIn := cmds\<rparr>) = Some out"
  shows "waitForResponse (Suc (length pre)) E (Some p) None st = ret out"
proof -
  have "reading (c # cmds) (st\<lparr>mIn := c # cmds\<rparr>)" using assms(2) by (simp add: reading_def)
  then have "waitForResponse (Suc 0) E (Some p) None (st\<lparr>mIn := c # cmds\<rparr>) = ret out"
    using assms(3,4) by (intro wait_final) simp_all
  then show ?thesis
    using wait_skips_noise [OF assms(1,2), of "Some p" None "Suc 0" E] by simp
qed

text \<open>
  An error of the object that served a transaction reaches the caller: the reply the server
  sends carries the error as its only data under the status flag, and a client that gets that
  status back returns exactly this error and frees the buffer.
\<close>

theorem status_travels:
  assumes e: "p_err reply = e" "e \<noteq> 0" and sf: "tf_status_code (ie_uapi E) \<noteq> 0" and K: "errs_ok (ie_err E)"
  shows "\<exists>o_txn. snd (writeTransactionData E BC_REPLY 0 (-1) 0 reply True st) = write_cmd (BC_REPLY o_txn) st \<and>
      ot_data o_txn = le32 (word_of_int e) \<and>
      (\<forall>n client tr cmds p. reading (BR_REPLY (Some tr) # cmds) client \<and> t_flags tr = ot_flags o_txn \<and>
         ie_status_at E (world client) (t_buffer tr) = e \<longrightarrow>
         (\<exists>client'. waitForResponse (Suc n) E (Some p) None client = ret (e, Some (p\<lparr>p_err := e\<rparr>), None, client') \<and>
            mOut client' = mOut client @ [BC_FREE_BUFFER (t_buffer tr)]))"
proof -
  let ?o = "\<lparr>ot_target = ucast (-1 :: u32), ot_code = 0, ot_flags = tf_status_code (ie_uapi E),
      ot_data = le32 (word_of_int e), ot_offs = []\<rparr>"
  have "snd (writeTransactionData E BC_REPLY 0 (-1) 0 reply True st) = write_cmd (BC_REPLY ?o) st"
    using e by (simp add: writeTransactionData_def)
  moreover have "\<exists>client'. waitForResponse (Suc n) E (Some p) None client = ret (e, Some (p\<lparr>p_err := e\<rparr>), None, client') \<and>
      mOut client' = mOut client @ [BC_FREE_BUFFER (t_buffer tr)]"
    if "reading (BR_REPLY (Some tr) # cmds) client" "t_flags tr = tf_status_code (ie_uapi E)"
      "ie_status_at E (world client) (t_buffer tr) = e" for n client tr cmds p
    using wait_final [OF that(1) K, of p] that sf e(2)
    by (simp add: Let_def freeBuffer_def write_cmd_def)
  ultimately show ?thesis by (intro exI [of _ ?o]) auto
qed

section \<open>Deferred reference counts\<close>

lemma deref_loop_fold:
  assumes dec: "\<And>x st. dec x st = ret (d x st)" and keep: "\<And>x st. vec (d x st) = vec st"
  shows "i + k \<le> length (vec st) \<Longrightarrow>
    deref_loop dec vec k i st = ret (fold d (take k (drop i (vec st))) st)"
proof (induction k arbitrary: i st)
  case (Suc k)
  have "take (Suc k) (drop i (vec st)) = vec st ! i # take k (drop (Suc i) (vec st))"
    using Suc.prems by (simp add: Cons_nth_drop_Suc [symmetric])
  then show ?case using Suc keep dec by simp
qed simp

lemma fold_keeps: "(\<And>x st. f (dec x st) = f st) \<Longrightarrow> f (fold dec xs st) = f st"
  by (induction xs arbitrary: st) simp_all

text \<open>
  Deferred releases: nothing is released while commands are unread. Otherwise every deferred
  weak and then every deferred strong reference is released once, in order, and both vectors are
  emptied -- provided releasing returns and does not itself defer references.
\<close>

theorem pending_derefs_run:
  assumes run: "\<And>x st. ie_dec_weak E x st = ret (dw x st)" "\<And>x st. ie_dec_strong E x st = ret (ds x st)"
    and w: "\<And>x st. mPendingWeakDerefs (dw x st) = mPendingWeakDerefs st"
      "\<And>x st. mPendingStrongDerefs (dw x st) = mPendingStrongDerefs st"
    and s: "\<And>x st. mPendingStrongDerefs (ds x st) = mPendingStrongDerefs st"
  shows "processPendingDerefs E st =
    (if mIn st \<noteq> [] then ret st
     else
       let st1 = (fold dw (mPendingWeakDerefs st) st)\<lparr>mPendingWeakDerefs := []\<rparr>;
           st2 = fold ds (mPendingStrongDerefs st) st1
       in ret (st2\<lparr>mPendingStrongDerefs := []\<rparr>))"
proof -
  have weak: "(if 0 < length (mPendingWeakDerefs s)
      then rbind (deref_loop (ie_dec_weak E) mPendingWeakDerefs (length (mPendingWeakDerefs s)) 0 s)
        (\<lambda>st. ret (st\<lparr>mPendingWeakDerefs := []\<rparr>)) else ret s)
    = ret ((fold dw (mPendingWeakDerefs s) s)\<lparr>mPendingWeakDerefs := []\<rparr>)" for s
    using deref_loop_fold [of "ie_dec_weak E" dw mPendingWeakDerefs 0 _ s] run(1) w(1) by (cases s) auto
  have strong: "(if 0 < length (mPendingStrongDerefs s)
      then rbind (deref_loop (ie_dec_strong E) mPendingStrongDerefs (length (mPendingStrongDerefs s)) 0 s)
        (\<lambda>st. ret (st\<lparr>mPendingStrongDerefs := []\<rparr>)) else ret s)
    = ret ((fold ds (mPendingStrongDerefs s) s)\<lparr>mPendingStrongDerefs := []\<rparr>)" for s
    using deref_loop_fold [of "ie_dec_strong E" ds mPendingStrongDerefs 0 _ s] run(2) s by (cases s) auto
  have "mPendingStrongDerefs (fold dw xs st) = mPendingStrongDerefs st" for xs st
    using w(2) by (rule fold_keeps)
  then show ?thesis
    unfolding processPendingDerefs_def Let_def weak strong rbind_simps by simp
qed

text \<open>
  A reference that is deferred while another one is being released -- a destructor that makes
  a call can receive such a command -- is dropped: the vector is cleared although only the
  entries counted at the start were released.
\<close>

theorem pending_deref_lost:
  assumes "mIn st = []" "mPendingStrongDerefs st = []" "mPendingWeakDerefs st = [r]"
    and "ie_dec_weak E r st = ret st1"
    and "mPendingWeakDerefs st1 = [r, late]" "mPendingStrongDerefs st1 = []"
  shows "processPendingDerefs E st = ret (st1\<lparr>mPendingWeakDerefs := []\<rparr>)"
  using assms by (simp add: processPendingDerefs_def)

section \<open>Pool threads\<close>

text \<open>
  The turns of a pool thread, whatever they return: deferred references are released and one
  command is fetched and executed. A turn keeps the thread in the pool, ends its stay, or shows
  that the connection is broken.
\<close>

inductive pool_turns :: "nat \<Rightarrow> 'w ipc_env \<Rightarrow> 'w ipc \<Rightarrow> int list \<Rightarrow> 'w ipc \<Rightarrow> bool" for n E where
    no_turn: "pool_turns n E st [] st"
  | turn: "processPendingDerefs E st = ret st1 \<Longrightarrow> getAndExecuteCommand n E st1 = ret (r, st2) \<Longrightarrow>
      pool_turns n E st2 rs st3 \<Longrightarrow> pool_turns n E st (r # rs) st3"

inductive_cases turnE: "pool_turns n E st (r # rs) st'"
inductive_cases no_turnE: "pool_turns n E st [] st'"

definition stays :: "err_codes \<Rightarrow> bool \<Rightarrow> int \<Rightarrow> bool" where
  "stays K isMain r \<longleftrightarrow> 0 \<le> r \<or> r = TIMED_OUT K \<and> isMain"

definition leaves :: "err_codes \<Rightarrow> bool \<Rightarrow> int \<Rightarrow> bool" where
  "leaves K isMain r \<longleftrightarrow> r = TIMED_OUT K \<and> \<not> isMain \<or> r = - ECONNREFUSED K \<or> r = - EBADF K"

definition breaks :: "err_codes \<Rightarrow> int \<Rightarrow> bool" where
  "breaks K r \<longleftrightarrow> r < 0 \<and> r \<notin> {TIMED_OUT K, - ECONNREFUSED K, - EBADF K}"

lemma turn_results:
  assumes "errs_ok K"
  shows "stays K isMain r \<longleftrightarrow> \<not> breaks K r \<and> \<not> leaves K isMain r" "\<not> (leaves K isMain r \<and> breaks K r)"
  using assms unfolding breaks_def leaves_def stays_def errs_ok_def by auto

lemma pool_loop_turn:
  assumes "processPendingDerefs E st = ret st1" "getAndExecuteCommand n E st1 = ret (r, st2)"
  shows "pool_loop (Suc k) n E isMain st =
    (if breaks (ie_err E) r then Some Abort
     else if leaves (ie_err E) isMain r then ret (r, st2) else pool_loop k n E isMain st2)"
  by (simp add: assms pool_fatal_def breaks_def leaves_def)

lemma pool_loop_turns:
  assumes K: "errs_ok (ie_err E)"
  shows "pool_turns n E st rs st1 \<Longrightarrow> \<forall>r \<in> set rs. stays (ie_err E) isMain r \<Longrightarrow>
    pool_loop (length rs + k) n E isMain st = pool_loop k n E isMain st1"
proof (induction rule: pool_turns.induct)
  case (turn st st1 r st2 rs st3)
  then have "stays (ie_err E) isMain r" "pool_loop (length rs + k) n E isMain st2 = pool_loop k n E isMain st3"
    by simp_all
  then show ?case by (simp add: pool_loop_turn [OF turn(1,2)] turn_results(1) [OF K] del: pool_loop.simps)
qed simp

lemma pool_loop_ret:
  assumes K: "errs_ok (ie_err E)"
  shows "pool_loop k n E isMain st = ret (r, st') \<Longrightarrow>
    \<exists>rs. length rs < k \<and> pool_turns n E st (rs @ [r]) st' \<and> (\<forall>x \<in> set rs. stays (ie_err E) isMain x) \<and>
      leaves (ie_err E) isMain r"
proof (induction k arbitrary: st)
  case (Suc k)
  obtain st1 x st2 where t: "processPendingDerefs E st = ret st1" "getAndExecuteCommand n E st1 = ret (x, st2)"
    using Suc.prems unfolding pool_loop.simps rbind_ret_iff by (auto simp: rbind_ret_iff)
  note step = pool_loop_turn [OF t, of k isMain]
  show ?case
  proof (cases "leaves (ie_err E) isMain x")
    case True
    then have "x = r" "st2 = st'" using step Suc.prems turn_results(2) [OF K, of isMain x] by auto
    then show ?thesis using True t
      by (intro exI [of _ "[]"]) (auto intro: pool_turns.intros)
  next
    case False
    then have "stays (ie_err E) isMain x" "pool_loop k n E isMain st2 = ret (r, st')"
      using step Suc.prems turn_results(1) [OF K, of isMain x] by (auto split: if_splits)
    with Suc.IH [of st2] t obtain rs where "length (x # rs) < Suc k" "pool_turns n E st ((x # rs) @ [r]) st'"
      "\<forall>y \<in> set (x # rs). stays (ie_err E) isMain y" "leaves (ie_err E) isMain r"
      by (auto intro: pool_turns.turn)
    then show ?thesis by blast
  qed
qed simp

lemma pool_turns_last:
  assumes "pool_turns n E st (rs @ [r]) st'"
  obtains st0 st1 where "pool_turns n E st rs st0" "processPendingDerefs E st0 = ret st1"
    "getAndExecuteCommand n E st1 = ret (r, st')"
  using assms
proof (induction rs arbitrary: st thesis)
  case (Cons x rs)
  from Cons.prems(2) show ?case by (auto elim!: turnE intro: Cons pool_turns.turn)
qed (auto elim!: turnE no_turnE intro: pool_turns.intros)

text \<open>
  C33. A thread leaves the pool exactly at the first turn whose result says so -- the driver has
  no use for it and it is not the main thread, or the connection is refused or closed -- after
  turns that succeeded or, for the main thread, timed out; and a turn that gives any other error
  aborts the process.
\<close>

theorem pool_thread_exit:
  assumes K: "errs_ok (ie_err E)"
  shows "(pool_loop k n E isMain st = ret (r, st') \<longleftrightarrow>
      (\<exists>rs. length rs < k \<and> pool_turns n E st (rs @ [r]) st' \<and> (\<forall>x \<in> set rs. stays (ie_err E) isMain x) \<and>
         leaves (ie_err E) isMain r)) \<and>
    (\<forall>rs. length rs < k \<and> pool_turns n E st (rs @ [r]) st' \<and> (\<forall>x \<in> set rs. stays (ie_err E) isMain x) \<and>
       breaks (ie_err E) r \<longrightarrow> pool_loop k n E isMain st = Some Abort)"
proof -
  have last: "pool_loop k n E isMain st = (if breaks (ie_err E) r then Some Abort else ret (r, st'))"
    if "length rs < k" "pool_turns n E st (rs @ [r]) st'" "\<forall>x \<in> set rs. stays (ie_err E) isMain x"
      "breaks (ie_err E) r \<or> leaves (ie_err E) isMain r" for rs
  proof -
    note given = that
    obtain st0 st1 where t: "pool_turns n E st rs st0" "processPendingDerefs E st0 = ret st1"
      "getAndExecuteCommand n E st1 = ret (r, st')"
      using given(2) by (rule pool_turns_last)
    obtain j where k: "k = length rs + Suc j" using given(1) by (metis less_iff_Suc_add add_Suc_right)
    show ?thesis
      using pool_loop_turns [OF K t(1) given(3), of "Suc j"] pool_loop_turn [OF t(2,3), of j isMain] given(4) k
      by (simp split: if_splits del: pool_loop.simps)
  qed
  show ?thesis
    using last pool_loop_ret [OF K, of k n isMain st r st'] turn_results(2) [OF K, of isMain r]
    by (metis (no_types, lifting))
qed

text \<open>
  A thread announces itself before anything else it sends -- the main thread enters the
  looper, the others register -- and starts in the foreground.
\<close>

theorem pool_thread_announces:
  assumes "joinThreadPool k n E isMain st = ret st'"
  shows "\<exists>r st1 st2. st1 = (write_cmd (if isMain then BC_ENTER_LOOPER else BC_REGISTER_LOOPER) st)
        \<lparr>world := ie_set_background E False (world st)\<rparr> \<and>
      pool_loop k n E isMain st1 = ret (r, st2) \<and>
      (\<exists>e. talkWithDriver n E False (st2\<lparr>mOut := mOut st2 @ [BC_EXIT_LOOPER]\<rparr>) = ret (e, st'))"
  using assms by (auto simp: joinThreadPool_def rbind_ret_iff write_cmd_def set_foreground_def)

text \<open>
  Once the library has been shut down no thread gets a thread state any more, whatever the
  state of its slot, and a thread that asks twice gets the same state.
\<close>

theorem tls_after_shutdown:
  "fst (tls_self ok t (tls_shutdown s g)) = NoState \<and> tls_selfOrNull t (tls_shutdown s g) = NoState \<and>
   (fst (tls_self ok t g) \<noteq> NoState \<longrightarrow>
      fst (tls_self ok' t (snd (tls_self ok t g))) = Existing \<and>
      snd (tls_self ok' t (snd (tls_self ok t g))) = snd (tls_self ok t g))"
  by (auto simp: tls_self_def tls_shutdown_def tls_selfOrNull_def Let_def)

end
