(* ===== verification/Process_Objects.thy ===== *)
theory Process_Objects
  imports Ipc_Correct
begin

text \<open>
  The objects of a process that uses the binder library: its proxies (\<open>native/BpBinder.cpp\<close>),
  the process state with the table from handles to proxies (\<open>native/ProcessState.cpp\<close>), and
  the operations on that table which the destructor of a proxy needs.
\<close>

section \<open>Proxies\<close>

record obituary =
  ob_recipient :: "u64 option"
  ob_cookie :: u64
  ob_flags :: u32

record entry_t =
  en_object :: u64
  en_cleanupCookie :: u64
  en_func :: "u64 option"

record bp =
  mHandle :: u32
  mAlive :: bool
  mObitsSent :: bool
  mObituaries :: "obituary list option"
  mObjects :: "(u64 \<times> entry_t) list"
  mDescriptorCache :: "u16 list"

section \<open>The process state\<close>

record handle_entry =
  he_binder :: "u64 option"
  he_refs :: "u64 option"

record proc =
  mVMStart :: "u64 option"
  mManagesContexts :: bool
  mBinderContextCheckFunc :: "u64 option"
  mBinderContextUserData :: "u64 option"
  mThreadPoolStarted :: bool
  mThreadPoolSeq :: u32
  mHandleToObject :: "handle_entry list"
  mContexts :: "u16 list \<Rightarrow> u64 option"
  pool_threads :: "(string \<times> bool) list"

text \<open>
  The world of a thread: the proxies by address, the process state, and whatever else there is.
\<close>

record 'u pworld =
  proxies :: "u64 \<Rightarrow> bp option"
  proc_of :: proc
  user :: 'u

definition proxy :: "u64 \<Rightarrow> 'u pworld ipc \<Rightarrow> bp option" where
  "proxy this st = proxies (world st) this"

definition with_proxy :: "u64 \<Rightarrow> 'u pworld ipc \<Rightarrow> (bp \<Rightarrow> 'a run) \<Rightarrow> 'a run" where
  \<comment> \<open>access through a pointer: none after the object has been deleted\<close>
  "with_proxy this st f = (case proxy this st of None \<Rightarrow> Some Oob | Some b \<Rightarrow> f b)"

definition set_proxy :: "u64 \<Rightarrow> bp option \<Rightarrow> 'u pworld ipc \<Rightarrow> 'u pworld ipc" where
  "set_proxy this b st = st\<lparr>world := (world st)\<lparr>proxies := (proxies (world st))(this := b)\<rparr>\<rparr>"

definition upd_proxy :: "u64 \<Rightarrow> (bp \<Rightarrow> bp) \<Rightarrow> 'u pworld ipc \<Rightarrow> 'u pworld ipc" where
  "upd_proxy this f st = set_proxy this (map_option f (proxy this st)) st"

definition upd_proc :: "(proc \<Rightarrow> proc) \<Rightarrow> 'u pworld ipc \<Rightarrow> 'u pworld ipc" where
  "upd_proc f st = st\<lparr>world := (world st)\<lparr>proc_of := f (proc_of (world st))\<rparr>\<rparr>"

abbreviation proc_st :: "'u pworld ipc \<Rightarrow> proc" where
  "proc_st st \<equiv> proc_of (world st)"

lemma proxy_set [simp]: "proxy a (set_proxy b x st) = (if a = b then x else proxy a st)"
  by (simp add: proxy_def set_proxy_def)

lemma proxy_upd [simp]: "proxy a (upd_proxy b f st) = (if a = b then map_option f (proxy a st) else proxy a st)"
  by (simp add: upd_proxy_def)

lemma proxy_upd_proc [simp]: "proxy a (upd_proc f st) = proxy a st"
  by (simp add: proxy_def upd_proc_def)

lemma proxy_write [simp]: "proxy a (write_cmd c st) = proxy a st"
  by (simp add: proxy_def write_cmd_def)

lemma mOut_upd [simp]:
  "mOut (set_proxy a b st) = mOut st" "mOut (upd_proxy a f st) = mOut st" "mOut (upd_proc g st) = mOut st"
  "mOut (write_cmd c st) = mOut st @ [c]"
  by (simp_all add: set_proxy_def upd_proxy_def upd_proc_def write_cmd_def)

section \<open>The handle table\<close>

definition lookupHandleLocked :: "(nat \<Rightarrow> bool) \<Rightarrow> u32 \<Rightarrow> proc \<Rightarrow> nat option \<times> proc" where
  \<comment> \<open>the index of the entry, none when the vector cannot grow; a handle is a signed integer
    that is converted to \<open>size_t\<close>\<close>
  "lookupHandleLocked can_grow handle p =
     (let N = length (mHandleToObject p); h = unat (scast handle :: 64 word) in
      if N \<le> h then
        if can_grow (h + 1 - N)
        then (Some h, p\<lparr>mHandleToObject := mHandleToObject p @
                replicate (h + 1 - N) \<lparr>he_binder = None, he_refs = None\<rparr>\<rparr>)
        else (None, p)
      else (Some h, p))"

definition expungeHandle :: "(nat \<Rightarrow> bool) \<Rightarrow> u32 \<Rightarrow> u64 \<Rightarrow> proc \<Rightarrow> proc" where
  "expungeHandle can_grow handle binder p =
     (case lookupHandleLocked can_grow handle p of
        (None, p) \<Rightarrow> p
      | (Some i, p) \<Rightarrow>
          if he_binder (mHandleToObject p ! i) = Some binder
          then p\<lparr>mHandleToObject := (mHandleToObject p)[i := (mHandleToObject p ! i)\<lparr>he_binder := None\<rparr>]\<rparr>
          else p)"

text \<open>The proxy that the table holds for a handle.\<close>

definition table :: "proc \<Rightarrow> u32 \<Rightarrow> u64 option" where
  "table p handle = (let h = unat (scast handle :: 64 word) in
     if h < length (mHandleToObject p) then he_binder (mHandleToObject p ! h) else None)"

lemma lookupHandleLocked_Some:
  assumes "lookupHandleLocked g handle p = (Some i, p')"
  shows "i = unat (scast handle :: 64 word)" "i < length (mHandleToObject p')" "table p' = table p"
    "table p handle = he_binder (mHandleToObject p' ! i)"
  using assms
  by (auto simp: lookupHandleLocked_def Let_def table_def fun_eq_iff nth_append not_le split: if_splits)

lemma lookupHandleLocked_None: "lookupHandleLocked g handle p = (None, p') \<Longrightarrow> p' = p"
  by (auto simp: lookupHandleLocked_def Let_def split: if_splits)

lemma unat_handle_inj: "unat (scast h :: 64 word) = unat (scast h' :: 64 word) \<longleftrightarrow> h = (h' :: u32)"
proof -
  have "ucast (scast h :: 64 word) = h" for h :: u32
  proof (rule bit_word_eqI)
    fix n assume "n < LENGTH(32)"
    then show "bit (ucast (scast h :: 64 word) :: u32) n = bit h n"
      by (cases "n = 31") (auto simp: bit_unsigned_iff bit_signed_iff min_def)
  qed
  then show ?thesis by (metis word_unat_eq_iff)
qed

text \<open>
  \<open>expungeHandle\<close> clears the entry of a handle only while it still holds the proxy that
  is being destroyed: a proxy that has replaced it since is left alone, and so is every other
  handle.
\<close>

theorem expungeHandle_table:
  "table (expungeHandle g handle binder p) =
     (if table p handle = Some binder then (table p)(handle := None) else table p)"
proof (cases "lookupHandleLocked g handle p")
  case (Pair r p')
  show ?thesis
  proof (cases r)
    case None
    with Pair lookupHandleLocked_None have p: "p' = p" by blast
    have "table p handle = None"
      using Pair None by (auto simp: lookupHandleLocked_def table_def Let_def split: if_splits)
    then show ?thesis using Pair None p by (simp add: expungeHandle_def)
  next
    case (Some i)
    note L = lookupHandleLocked_Some [OF Pair [unfolded Some]]
    show ?thesis
    proof (cases "he_binder (mHandleToObject p' ! i) = Some binder")
      case True
      have "table (p'\<lparr>mHandleToObject := (mHandleToObject p')[i := (mHandleToObject p' ! i)\<lparr>he_binder := None\<rparr>]\<rparr>)
          = (table p')(handle := None)"
        using L(1,2) unat_handle_inj by (auto simp: table_def fun_eq_iff Let_def nth_list_update)
      then show ?thesis using True Pair Some L(3,4) by (simp add: expungeHandle_def)
    next
      case False
      then show ?thesis using Pair Some L(3,4) by (simp add: expungeHandle_def)
    qed
  qed
qed

end
