(* ===== verification/Bp_Binder.thy ===== *)
theory Bp_Binder
  imports Process_Objects
begin

text \<open>
  The proxy of a remote object, \<open>native/BpBinder.cpp\<close>: attached objects, transactions, the
  death notification protocol with its recipients, and the hooks that reference counting calls.
\<close>

section \<open>Environment\<close>

text \<open>
  What a proxy uses besides its thread: weak references and recipients, the clean-up functions of
  attached objects, and the reading and writing of parcels.
\<close>

record 'u px_env =
  pe_promote :: "u64 \<Rightarrow> 'u pworld ipc \<Rightarrow> bool \<times> 'u pworld ipc"
  pe_binderDied :: "u64 \<Rightarrow> u64 \<Rightarrow> 'u pworld ipc \<Rightarrow> 'u pworld ipc run"
  pe_cleanup :: "u64 \<Rightarrow> u64 \<Rightarrow> u64 \<Rightarrow> u64 \<Rightarrow> 'u pworld ipc \<Rightarrow> 'u pworld ipc run"
  pe_incWeak :: "u64 \<Rightarrow> 'u pworld ipc \<Rightarrow> 'u pworld ipc"
  pe_can_grow :: "nat \<Rightarrow> bool"
  pe_new_vector :: bool
  pe_vector_add :: "nat \<Rightarrow> int"
  pe_readString16 :: "parcel \<Rightarrow> u16 list"
  pe_readInt32 :: "parcel \<Rightarrow> int"
  pe_dataSize :: "parcel \<Rightarrow> nat"
  pe_writeFileDescriptor :: "int \<Rightarrow> parcel \<Rightarrow> parcel"
  pe_writeInt32 :: "int \<Rightarrow> parcel \<Rightarrow> parcel"
  pe_writeString16 :: "u16 list \<Rightarrow> parcel \<Rightarrow> parcel"
  INTERFACE_TRANSACTION :: u32
  PING_TRANSACTION :: u32
  DUMP_TRANSACTION :: u32

section \<open>Attached objects\<close>

definition om_attach :: "u64 \<Rightarrow> entry_t \<Rightarrow> (u64 \<times> entry_t) list \<Rightarrow> (u64 \<times> entry_t) list" where
  \<comment> \<open>a sorted vector; an identifier in use is kept\<close>
  "om_attach objectID e objs =
     (if map_of objs objectID \<noteq> None then objs else insort_key fst (objectID, e) objs)"

definition om_find :: "u64 \<Rightarrow> (u64 \<times> entry_t) list \<Rightarrow> u64 option" where
  "om_find objectID objs = map_option en_object (map_of objs objectID)"

definition om_detach :: "u64 \<Rightarrow> (u64 \<times> entry_t) list \<Rightarrow> (u64 \<times> entry_t) list" where
  "om_detach objectID objs = filter (\<lambda>(k, _). k \<noteq> objectID) objs"

fun om_kill :: "'u px_env \<Rightarrow> (u64 \<times> entry_t) list \<Rightarrow> 'u pworld ipc \<Rightarrow> 'u pworld ipc run" where
  "om_kill X [] st = ret st"
| "om_kill X ((k, e) # objs) st =
     (case en_func e of
        None \<Rightarrow> om_kill X objs st
      | Some f \<Rightarrow> rbind (pe_cleanup X f k (en_object e) (en_cleanupCookie e) st) (om_kill X objs))"

definition attachObject :: "u64 \<Rightarrow> u64 \<Rightarrow> entry_t \<Rightarrow> 'u pworld ipc \<Rightarrow> 'u pworld ipc" where
  "attachObject this objectID e = upd_proxy this (\<lambda>b. b\<lparr>mObjects := om_attach objectID e (mObjects b)\<rparr>)"

definition findObject :: "u64 \<Rightarrow> u64 \<Rightarrow> 'u pworld ipc \<Rightarrow> u64 option run" where
  "findObject this objectID st = with_proxy this st (\<lambda>b. ret (om_find objectID (mObjects b)))"

definition detachObject :: "u64 \<Rightarrow> u64 \<Rightarrow> 'u pworld ipc \<Rightarrow> 'u pworld ipc" where
  "detachObject this objectID = upd_proxy this (\<lambda>b. b\<lparr>mObjects := om_detach objectID (mObjects b)\<rparr>)"

section \<open>Transactions\<close>

definition new_BpBinder :: "u64 \<Rightarrow> u32 \<Rightarrow> 'u pworld ipc \<Rightarrow> 'u pworld ipc" where
  \<comment> \<open>the constructor, at a fresh address\<close>
  "new_BpBinder this handle st = incWeakHandle handle (set_proxy this (Some
     \<lparr>mHandle = handle, mAlive = True, mObitsSent = False, mObituaries = None, mObjects = [],
      mDescriptorCache = []\<rparr>) st)"

definition bp_transact ::
    "nat \<Rightarrow> 'u pworld ipc_env \<Rightarrow> u64 \<Rightarrow> u32 \<Rightarrow> parcel \<Rightarrow> parcel option \<Rightarrow> u32 \<Rightarrow> 'u pworld ipc
       \<Rightarrow> (int \<times> parcel option \<times> 'u pworld ipc) run" where
  "bp_transact n E this code data reply flags st =
     with_proxy this st (\<lambda>b.
       if mAlive b then
         rbind (transact n E (mHandle b) code data reply flags st) (\<lambda>(status, reply, st).
           ret (status, reply,
             if status = DEAD_OBJECT (ie_err E) then upd_proxy this (\<lambda>b. b\<lparr>mAlive := False\<rparr>) st else st))
       else ret (DEAD_OBJECT (ie_err E), reply, st))"

definition isDescriptorCached :: "bp \<Rightarrow> bool" where
  "isDescriptorCached b = (mDescriptorCache b \<noteq> [])"

definition isBinderAlive :: "bp \<Rightarrow> bool" where
  "isBinderAlive b = mAlive b"

definition call_with_reply ::
    "nat \<Rightarrow> 'u pworld ipc_env \<Rightarrow> u64 \<Rightarrow> u32 \<Rightarrow> parcel \<Rightarrow> (int \<Rightarrow> parcel \<Rightarrow> 'u pworld ipc \<Rightarrow> ('a \<times> 'u pworld ipc) run)
       \<Rightarrow> 'u pworld ipc \<Rightarrow> ('a \<times> 'u pworld ipc) run" where
  \<comment> \<open>a transaction with a local reply parcel that dies at the end of its block\<close>
  "call_with_reply n E this code send body st =
     rbind (bp_transact n E this code send (Some empty_parcel) 0 st) (\<lambda>(err, reply, st).
       case reply of None \<Rightarrow> Some Oob
       | Some reply \<Rightarrow> rbind (body err reply st) (\<lambda>(x, st). ret (x, parcel_destroy reply st)))"

definition getInterfaceDescriptor ::
    "nat \<Rightarrow> 'u pworld ipc_env \<Rightarrow> 'u px_env \<Rightarrow> u64 \<Rightarrow> 'u pworld ipc \<Rightarrow> (u16 list \<times> 'u pworld ipc) run" where
  "getInterfaceDescriptor n E X this st =
     rbind (with_proxy this st (\<lambda>b.
         if isDescriptorCached b then ret ((), st)
         else call_with_reply n E this (INTERFACE_TRANSACTION X) empty_parcel (\<lambda>err reply st.
           with_proxy this st (\<lambda>b.
             ret ((), if err = 0 \<and> mDescriptorCache b = []
               then upd_proxy this (\<lambda>b. b\<lparr>mDescriptorCache := pe_readString16 X reply\<rparr>) st else st))) st))
       (\<lambda>(_, st). with_proxy this st (\<lambda>b. ret (mDescriptorCache b, st)))"

definition pingBinder ::
    "nat \<Rightarrow> 'u pworld ipc_env \<Rightarrow> 'u px_env \<Rightarrow> u64 \<Rightarrow> 'u pworld ipc \<Rightarrow> (int \<times> 'u pworld ipc) run" where
  "pingBinder n E X this =
     call_with_reply n E this (PING_TRANSACTION X) empty_parcel (\<lambda>err reply st.
       ret (if err \<noteq> 0 then err
            else if pe_dataSize X reply < 4 then NOT_ENOUGH_DATA (ie_err E) else pe_readInt32 X reply, st))"

definition dump ::
    "nat \<Rightarrow> 'u pworld ipc_env \<Rightarrow> 'u px_env \<Rightarrow> u64 \<Rightarrow> int \<Rightarrow> u16 list list \<Rightarrow> 'u pworld ipc
       \<Rightarrow> (int \<times> 'u pworld ipc) run" where
  "dump n E X this fd args =
     (let send = pe_writeInt32 X (int (length args)) (pe_writeFileDescriptor X fd empty_parcel);
          send = fold (pe_writeString16 X) args send
      in call_with_reply n E this (DUMP_TRANSACTION X) send (\<lambda>err reply st. ret (err, st)))"

section \<open>Death notifications\<close>

definition linkToDeath ::
    "nat \<Rightarrow> 'u pworld ipc_env \<Rightarrow> 'u px_env \<Rightarrow> u64 \<Rightarrow> u64 option \<Rightarrow> u64 \<Rightarrow> u32 \<Rightarrow> 'u pworld ipc
       \<Rightarrow> (int \<times> 'u pworld ipc) run" where
  "linkToDeath n E X this recipient cookie flags st =
     (if recipient = None then Some Abort
      else with_proxy this st (\<lambda>b.
        if \<not> mObitsSent b then
          let add = (\<lambda>st. with_proxy this st (\<lambda>b.
                let obits = (case mObituaries b of None \<Rightarrow> [] | Some l \<Rightarrow> l); res = pe_vector_add X (length obits)
                in if res \<ge> 0
                   then ret (0, upd_proxy this (\<lambda>b. b\<lparr>mObituaries := Some (obits @
                          [\<lparr>ob_recipient = recipient, ob_cookie = cookie, ob_flags = flags\<rparr>])\<rparr>) st)
                   else ret (res, st)))
          in if mObituaries b = None then
               if \<not> pe_new_vector X then ret (NO_MEMORY (ie_err E), st)
               else
                 let st = pe_incWeak X this (upd_proxy this (\<lambda>b. b\<lparr>mObituaries := Some []\<rparr>) st);
                     st = snd (requestDeathNotification (mHandle b) this st)
                 in rbind (flushCommands n E st) add
             else add st
        else ret (DEAD_OBJECT (ie_err E), st)))"

definition obit_matches :: "u64 option \<Rightarrow> u64 \<Rightarrow> u32 \<Rightarrow> obituary \<Rightarrow> bool" where
  "obit_matches recipient cookie flags ob \<longleftrightarrow>
     (ob_recipient ob = recipient \<or> (recipient = None \<and> ob_cookie ob = cookie)) \<and> ob_flags ob = flags"

fun find_obit :: "(obituary \<Rightarrow> bool) \<Rightarrow> obituary list \<Rightarrow> (obituary \<times> obituary list) option" where
  \<comment> \<open>the first match and the vector without it\<close>
  "find_obit P [] = None"
| "find_obit P (ob # obs) =
     (if P ob then Some (ob, obs) else map_option (\<lambda>(x, rest). (x, ob # rest)) (find_obit P obs))"

definition unlinkToDeath ::
    "nat \<Rightarrow> 'u pworld ipc_env \<Rightarrow> u64 \<Rightarrow> u64 option \<Rightarrow> u64 \<Rightarrow> u32 \<Rightarrow> 'u pworld ipc
       \<Rightarrow> (int \<times> u64 option \<times> 'u pworld ipc) run" where
  \<comment> \<open>the status and the recipient stored through \<open>outRecipient\<close>\<close>
  "unlinkToDeath n E this recipient cookie flags st =
     with_proxy this st (\<lambda>b.
       if mObitsSent b then ret (DEAD_OBJECT (ie_err E), None, st)
       else case find_obit (obit_matches recipient cookie flags)
                   (case mObituaries b of None \<Rightarrow> [] | Some l \<Rightarrow> l) of
           None \<Rightarrow> ret (NAME_NOT_FOUND (ie_err E), None, st)
         | Some (ob, rest) \<Rightarrow>
             if rest = [] then
               rbind (flushCommands n E (snd (clearDeathNotification (mHandle b) this
                        (upd_proxy this (\<lambda>b. b\<lparr>mObituaries := Some []\<rparr>) st)))) (\<lambda>st.
                 ret (0, ob_recipient ob, upd_proxy this (\<lambda>b. b\<lparr>mObituaries := None\<rparr>) st))
             else ret (0, ob_recipient ob, upd_proxy this (\<lambda>b. b\<lparr>mObituaries := Some rest\<rparr>) st))"

definition reportOneDeath :: "'u px_env \<Rightarrow> u64 \<Rightarrow> obituary \<Rightarrow> 'u pworld ipc \<Rightarrow> 'u pworld ipc run" where
  "reportOneDeath X this ob st =
     (case ob_recipient ob of
        None \<Rightarrow> ret st
      | Some r \<Rightarrow> (case pe_promote X r st of (ok, st) \<Rightarrow>
          if \<not> ok then ret st else pe_binderDied X r this st))"

primrec report_deaths :: "'u px_env \<Rightarrow> u64 \<Rightarrow> obituary list \<Rightarrow> 'u pworld ipc \<Rightarrow> 'u pworld ipc run" where
  "report_deaths X this [] st = ret st"
| "report_deaths X this (ob # obs) st = rbind (reportOneDeath X this ob st) (report_deaths X this obs)"

definition sendObituary ::
    "nat \<Rightarrow> 'u pworld ipc_env \<Rightarrow> 'u px_env \<Rightarrow> u64 \<Rightarrow> 'u pworld ipc \<Rightarrow> 'u pworld ipc run" where
  "sendObituary n E X this st =
     with_proxy this st (\<lambda>b.
       let st = upd_proxy this (\<lambda>b. b\<lparr>mAlive := False\<rparr>) st in
       if mObitsSent b then ret st
       else
         let obits = mObituaries b in
         rbind (if obits \<noteq> None
                then rbind (flushCommands n E (snd (clearDeathNotification (mHandle b) this st)))
                       (\<lambda>st. ret (upd_proxy this (\<lambda>b. b\<lparr>mObituaries := None\<rparr>) st))
                else ret st) (\<lambda>st.
           let st = upd_proxy this (\<lambda>b. b\<lparr>mObitsSent := True\<rparr>) st
           in case obits of None \<Rightarrow> ret st | Some l \<Rightarrow> report_deaths X this l st))"

section \<open>Reference counting hooks\<close>

definition delete_BpBinder :: "bool \<Rightarrow> 'u px_env \<Rightarrow> u64 \<Rightarrow> 'u pworld ipc \<Rightarrow> 'u pworld ipc run" where
  \<comment> \<open>the destructor; the flag says whether the thread still has a state (\<open>ipc\<close>)\<close>
  "delete_BpBinder ipc X this st =
     with_proxy this st (\<lambda>b.
       let st = (if mObituaries b \<noteq> None \<and> ipc then snd (clearDeathNotification (mHandle b) this st) else st);
           st = upd_proxy this (\<lambda>b. b\<lparr>mObituaries := None\<rparr>) st;
           st = (if ipc then decWeakHandle (mHandle b)
                   (upd_proc (expungeHandle (pe_can_grow X) (mHandle b) this) st) else st)
       in rbind (om_kill X (mObjects b) st) (\<lambda>st. ret (set_proxy this None st)))"

definition onFirstRef :: "bool \<Rightarrow> u64 \<Rightarrow> 'u pworld ipc \<Rightarrow> 'u pworld ipc run" where
  "onFirstRef ipc this st = with_proxy this st (\<lambda>b. ret (if ipc then incStrongHandle (mHandle b) st else st))"

definition onLastStrongRef :: "bool \<Rightarrow> u64 \<Rightarrow> 'u pworld ipc \<Rightarrow> 'u pworld ipc run" where
  "onLastStrongRef ipc this st = with_proxy this st (\<lambda>b. ret (if ipc then decStrongHandle (mHandle b) st else st))"

definition onIncStrongAttempted ::
    "bool \<Rightarrow> bool \<Rightarrow> nat \<Rightarrow> 'u pworld ipc_env \<Rightarrow> u64 \<Rightarrow> 'u pworld ipc \<Rightarrow> (bool \<times> 'u pworld ipc) run" where
  "onIncStrongAttempted ipc has n E this st =
     with_proxy this st (\<lambda>b.
       if ipc then rbind (attemptIncStrongHandle has n E (mHandle b) st) (\<lambda>(r, st). ret (r = 0, st))
       else ret (False, st))"

section \<open>Attached objects as a map\<close>

text \<open>
  What users of attached objects rely on: an identifier keeps the first object attached under it
  until it is detached, and identifiers do not interfere.
\<close>

locale attachment =
  fixes find_obj :: "'k \<Rightarrow> 's \<Rightarrow> 'v option"
    and attach :: "'k \<Rightarrow> 'e \<Rightarrow> 's \<Rightarrow> 's"
    and detach :: "'k \<Rightarrow> 's \<Rightarrow> 's"
    and val :: "'e \<Rightarrow> 'v"
    and inv :: "'s \<Rightarrow> bool"
  assumes attach_find: "inv s \<Longrightarrow> find_obj j (attach k e s) =
      (if j = k \<and> find_obj k s = None then Some (val e) else find_obj j s)"
    and detach_find: "inv s \<Longrightarrow> find_obj j (detach k s) = (if j = k then None else find_obj j s)"
    and inv_attach: "inv s \<Longrightarrow> inv (attach k e s)"
    and inv_detach: "inv s \<Longrightarrow> inv (detach k s)"
begin

lemma first_attachment_stays:
  "inv s \<Longrightarrow> find_obj k s = None \<Longrightarrow> find_obj k (attach k e' (attach k e s)) = Some (val e)"
  by (simp add: attach_find inv_attach)

lemma reattach_after_detach: "inv s \<Longrightarrow> find_obj k (attach k e (detach k s)) = Some (val e)"
  by (simp add: attach_find detach_find inv_detach)

lemma detach_attach_other:
  "inv s \<Longrightarrow> j \<noteq> k \<Longrightarrow> find_obj j (detach k (attach k e s)) = find_obj j s"
  by (simp add: attach_find detach_find inv_attach)

end

definition om_wf :: "(u64 \<times> entry_t) list \<Rightarrow> bool" where
  "om_wf objs \<longleftrightarrow> sorted (map fst objs) \<and> distinct (map fst objs)"

lemma map_of_insort: "map_of (insort_key fst x objs) = (map_of objs)(fst x \<mapsto> snd x)"
  by (induction objs) (auto simp: fun_eq_iff)

lemma map_fst_insort: "map fst (insort_key fst x objs) = insort (fst x) (map fst objs)"
  by (induction objs) auto

lemma map_of_filter_key: "map_of (filter (\<lambda>(k, _). k \<noteq> j) objs) = (map_of objs)(j := None)"
  by (induction objs) (auto simp: fun_eq_iff)

lemma om_wf_attach: "om_wf objs \<Longrightarrow> om_wf (om_attach k e objs)"
  by (auto simp: om_wf_def om_attach_def map_fst_insort sorted_insort distinct_insort map_of_eq_None_iff)

lemma om_wf_detach: "om_wf objs \<Longrightarrow> om_wf (om_detach k objs)"
  by (auto simp: om_wf_def om_detach_def intro: sorted_filter distinct_map_filter)

lemma om_find_attach:
  "om_find j (om_attach k e objs) = (if j = k \<and> om_find k objs = None then Some (en_object e) else om_find j objs)"
  by (auto simp: om_find_def om_attach_def map_of_insort)

lemma om_find_detach: "om_find j (om_detach k objs) = (if j = k then None else om_find j objs)"
  by (simp add: om_find_def om_detach_def map_of_filter_key)

interpretation om: attachment om_find om_attach om_detach en_object om_wf
  by unfold_locales (rule om_find_attach om_find_detach om_wf_attach om_wf_detach, assumption?)+

text \<open>
  Attached objects: an identifier keeps its first object until it is detached and can then be
  reused; other identifiers are not affected. The vector stays sorted with distinct keys.
\<close>

theorem attached_objects:
  assumes "om_wf objs" and "om_find k objs = None" and "j \<noteq> k"
  shows "om_wf (om_attach k e objs) \<and> om_wf (om_detach k objs) \<and>
    om_find k (om_attach k e' (om_attach k e objs)) = Some (en_object e) \<and>
    om_find k (om_attach k e' (om_detach k (om_attach k e objs))) = Some (en_object e') \<and>
    om_find j (om_detach k (om_attach k e objs)) = om_find j objs"
  using assms om.first_attachment_stays om.reattach_after_detach om.detach_attach_other om_wf_attach om_wf_detach
  by auto

section \<open>Death notifications of a proxy\<close>

text \<open>
  A connection that works: the driver consumes commands in order, its calls are interrupted at
  most, and it leaves the objects of the process alone. The log of consumed commands is part of
  the driver's side of the world.
\<close>

definition healthy :: "'u pworld ipc_env \<Rightarrow> ('u \<Rightarrow> bc list) \<Rightarrow> bool" where
  "healthy E lg \<longleftrightarrow> errs_ok (ie_err E) \<and> (\<forall>w cmds c rd. c \<le> length cmds \<longrightarrow>
     (let r = ie_ioctl E w cmds c rd in
      c \<le> io_consumed r \<and> io_consumed r \<le> length cmds \<and>
      lg (user (io_world r)) = lg (user w) @ drop c (take (io_consumed r) cmds) \<and>
      (io_errno r = 0 \<or> io_errno r = EINTR (ie_err E)) \<and> 0 < io_fd r \<and> proxies (io_world r) = proxies w))"

definition sent :: "('u \<Rightarrow> bc list) \<Rightarrow> 'u pworld ipc \<Rightarrow> bc list" where
  \<comment> \<open>the commands consumed by the driver and those still queued\<close>
  "sent lg st = lg (user (world st)) @ mOut st"

lemma healthy_io:
  assumes H: "healthy E lg"
  shows "c \<le> length cmds \<Longrightarrow> lg (user (world st)) = l @ take c cmds \<Longrightarrow>
    post (driver_io n E cmds c rd st) (\<lambda>(err, k, read, st'). err = 0 \<and> k \<le> length cmds \<and>
      lg (user (world st')) = l @ take k cmds \<and> mOut st' = mOut st \<and> proxies (world st') = proxies (world st))"
proof (induction n arbitrary: c st)
  case (Suc n)
  let ?r = "ie_ioctl E (world st) cmds c rd"
  let ?st = "st\<lparr>mDriverFD := io_fd ?r, world := io_world ?r\<rparr>"
  have H': "c \<le> io_consumed ?r" "io_consumed ?r \<le> length cmds"
    "lg (user (io_world ?r)) = lg (user (world st)) @ drop c (take (io_consumed ?r) cmds)"
    "io_errno ?r = 0 \<or> io_errno ?r = EINTR (ie_err E)" "0 < io_fd ?r" "proxies (io_world ?r) = proxies (world st)"
    using H Suc.prems(1) unfolding healthy_def Let_def by blast+
  have E: "0 < EINTR (ie_err E)" using H by (simp add: healthy_def errs_ok_def)
  have "take c (take (io_consumed ?r) cmds) = take c cmds" using H'(1) by (simp add: min_def)
  then have lg: "lg (user (io_world ?r)) = l @ take (io_consumed ?r) cmds"
    using H'(3) Suc.prems(2) append_take_drop_id [of c "take (io_consumed ?r) cmds"] by (metis append_assoc)
  have "post (driver_io n E cmds (io_consumed ?r) rd ?st) (\<lambda>(err, k, read, st'). err = 0 \<and> k \<le> length cmds \<and>
      lg (user (world st')) = l @ take k cmds \<and> mOut st' = mOut ?st \<and> proxies (world st') = proxies (world ?st))"
    by (rule Suc.IH) (use H'(2) lg in simp_all)
  then show ?case
    unfolding driver_io.simps Let_def
    by (intro run_post) (use H' lg E in auto)
qed (simp add: post_fail)

lemma flush_sent:
  assumes H: "healthy E lg"
  shows "post (flushCommands n E st) (\<lambda>st'. sent lg st' = sent lg st \<and> (\<forall>a. proxy a st' = proxy a st))"
proof -
  have io: "post (driver_io n E (pending_out False st) 0 rd st) (\<lambda>(err, k, read, st'). err = 0 \<and>
      k \<le> length (pending_out False st) \<and>
      lg (user (world st')) = lg (user (world st)) @ take k (pending_out False st) \<and> mOut st' = mOut st \<and>
      proxies (world st') = proxies (world st))" for rd
    by (rule healthy_io [OF H]) simp_all
  show ?thesis
    unfolding flushCommands_def talkWithDriver_eq
    by (intro run_post post_bind [OF io]
          post_bind [where Q = "\<lambda>(err, st'). sent lg st' = sent lg st \<and> (\<forall>a. proxy a st' = proxy a st)"])
      (auto simp: sent_def proxy_def pending_out_take)
qed

abbreviation requests :: "u32 \<Rightarrow> u64 \<Rightarrow> bc list \<Rightarrow> nat" where
  "requests h this l \<equiv> count_if ((=) (BC_REQUEST_DEATH_NOTIFICATION h this)) l"

abbreviation clears :: "u32 \<Rightarrow> u64 \<Rightarrow> bc list \<Rightarrow> nat" where
  "clears h this l \<equiv> count_if ((=) (BC_CLEAR_DEATH_NOTIFICATION h this)) l"

text \<open>
  The driver holds a death notification for the proxy exactly while the proxy has a vector of
  recipients; there is none once the obituaries have been sent. The vector holds \<open>rs\<close>; it is
  empty only after an insertion has failed.
\<close>

definition link_inv :: "'u px_env \<Rightarrow> ('u \<Rightarrow> bc list) \<Rightarrow> u64 \<Rightarrow> u32 \<Rightarrow> obituary list \<Rightarrow> 'u pworld ipc \<Rightarrow> bool" where
  "link_inv X lg this h rs st \<longleftrightarrow> (\<exists>b. proxy this st = Some b \<and> mHandle b = h \<and>
     requests h this (sent lg st) = clears h this (sent lg st) + (if mObituaries b = None then 0 else 1) \<and>
     (mObitsSent b \<longrightarrow> mObituaries b = None) \<and> rs = (case mObituaries b of None \<Rightarrow> [] | Some l \<Rightarrow> l) \<and>
     ((\<forall>k. 0 \<le> pe_vector_add X k) \<longrightarrow> mObituaries b \<noteq> Some []))"

text \<open>
  What a recipient may do to a proxy that has told its death: on it \<open>linkToDeath\<close> and
  \<open>unlinkToDeath\<close> change nothing, so that its links and the death commands for its handle stay
  as they are. Counting references leaves every proxy alone.
\<close>

definition same_links :: "('u \<Rightarrow> bc list) \<Rightarrow> u64 \<Rightarrow> 'u pworld ipc \<Rightarrow> 'u pworld ipc \<Rightarrow> bool" where
  "same_links lg this st st' \<longleftrightarrow> (\<forall>b. proxy this st = Some b \<longrightarrow>
     (\<exists>b'. proxy this st' = Some b' \<and> mHandle b' = mHandle b \<and> mObitsSent b' = mObitsSent b \<and>
        mObituaries b' = mObituaries b \<and>
        requests (mHandle b) this (sent lg st') = requests (mHandle b) this (sent lg st) \<and>
        clears (mHandle b) this (sent lg st') = clears (mHandle b) this (sent lg st)))"

definition death_told :: "u64 \<Rightarrow> 'u pworld ipc \<Rightarrow> bool" where
  "death_told this st \<longleftrightarrow> (\<exists>b. proxy this st = Some b \<and> mObitsSent b)"

definition leaves_links :: "'u px_env \<Rightarrow> ('u \<Rightarrow> bc list) \<Rightarrow> bool" where
  "leaves_links X lg \<longleftrightarrow>
     (\<forall>this r a st. death_told this st \<longrightarrow> post (pe_binderDied X r a st) (same_links lg this st)) \<and>
     (\<forall>this r st. same_links lg this st (snd (pe_promote X r st))) \<and>
     (\<forall>a st this. sent lg (pe_incWeak X a st) = sent lg st \<and> proxy this (pe_incWeak X a st) = proxy this st)"

lemma sent_simps [simp]:
  "sent lg (set_proxy a b st) = sent lg st" "sent lg (upd_proxy a f st) = sent lg st"
  "sent lg (write_cmd c st) = sent lg st @ [c]"
  by (simp_all add: sent_def set_proxy_def upd_proxy_def write_cmd_def)

lemma sent_death [simp]:
  "sent lg (snd (requestDeathNotification h a st)) = sent lg st @ [BC_REQUEST_DEATH_NOTIFICATION h a]"
  "sent lg (snd (clearDeathNotification h a st)) = sent lg st @ [BC_CLEAR_DEATH_NOTIFICATION h a]"
  "proxy k (snd (requestDeathNotification h a st)) = proxy k st"
  "proxy k (snd (clearDeathNotification h a st)) = proxy k st"
  by (simp_all add: requestDeathNotification_def clearDeathNotification_def)

lemma with_proxy_post [run_post]:
  "(\<And>b. proxy this st = Some b \<Longrightarrow> post (f b) P) \<Longrightarrow> post (with_proxy this st f) P"
  by (auto simp: with_proxy_def intro: run_post split: option.split)

text \<open>What the operations mean for the recipients.\<close>

definition linked :: "u64 option \<Rightarrow> u64 \<Rightarrow> u32 \<Rightarrow> int \<Rightarrow> obituary list \<Rightarrow> obituary list" where
  "linked r c f res rs = (if res = 0 then rs @ [\<lparr>ob_recipient = r, ob_cookie = c, ob_flags = f\<rparr>] else rs)"

definition unlinked :: "u64 option \<Rightarrow> u64 \<Rightarrow> u32 \<Rightarrow> obituary list \<Rightarrow> obituary list" where
  \<comment> \<open>without the first that matches\<close>
  "unlinked r c f rs = (let other = (\<lambda>ob. \<not> obit_matches r c f ob) in
     takeWhile other rs @ drop 1 (dropWhile other rs))"

lemma unlinked_find:
  "unlinked r c f rs = (case find_obit (obit_matches r c f) rs of None \<Rightarrow> rs | Some (ob, rest) \<Rightarrow> rest)"
  by (induction rs) (auto simp: unlinked_def Let_def split: option.splits)

lemma linkToDeath_inv:
  assumes H: "healthy E lg" and X: "leaves_links X lg" and i: "link_inv X lg this h rs st"
  shows "post (linkToDeath n E X this r c f st) (\<lambda>(res, st'). link_inv X lg this h (linked r c f res rs) st')"
proof -
  have E: "DEAD_OBJECT (ie_err E) \<noteq> 0" "NO_MEMORY (ie_err E) \<noteq> 0" using H by (auto simp: healthy_def errs_ok_def)
  show ?thesis
    unfolding linkToDeath_def Let_def
    by (intro run_post post_bind [OF flush_sent [OF H]])
      (use i X E in \<open>auto simp: link_inv_def leaves_links_def linked_def split: option.splits\<close>)
qed

lemma unlinkToDeath_inv:
  assumes H: "healthy E lg" and i: "link_inv X lg this h rs st"
  shows "post (unlinkToDeath n E this r c f st) (\<lambda>(_, _, st'). link_inv X lg this h (unlinked r c f rs) st')"
  unfolding unlinkToDeath_def
  by (intro run_post post_bind [OF flush_sent [OF H]])
    (use i in \<open>auto simp: link_inv_def unlinked_find split: option.splits\<close>)

lemma same_links_refl: "same_links lg this st st"
  by (simp add: same_links_def)

lemma same_links_trans: "same_links lg this st st1 \<Longrightarrow> same_links lg this st1 st2 \<Longrightarrow> same_links lg this st st2"
  by (fastforce simp: same_links_def)

lemma same_links_death_told: "same_links lg this st st' \<Longrightarrow> death_told this st \<Longrightarrow> death_told this st'"
  by (auto simp: same_links_def death_told_def)

lemma report_deaths_links:
  assumes X: "leaves_links X lg"
  shows "death_told this st \<Longrightarrow> post (report_deaths X a obs st) (same_links lg this st)"
proof (induction obs arbitrary: st)
  case (Cons ob obs)
  have "post (reportOneDeath X a ob st) (same_links lg this st)"
  proof (cases "ob_recipient ob")
    case (Some r)
    obtain ok st1 where p: "pe_promote X r st = (ok, st1)" by (cases "pe_promote X r st")
    have s: "same_links lg this st st1" using X p unfolding leaves_links_def by (metis snd_conv)
    then have "post (pe_binderDied X r a st1) (same_links lg this st1)"
      using X same_links_death_told [OF _ Cons.prems] unfolding leaves_links_def by blast
    with s have "post (pe_binderDied X r a st1) (same_links lg this st)"
      by (blast intro: post_weaken same_links_trans)
    then show ?thesis using Some p s by (simp add: reportOneDeath_def post_ret)
  qed (simp add: reportOneDeath_def post_ret same_links_refl)
  then show ?case
    unfolding report_deaths.simps
  proof (rule post_bind)
    fix st1 assume s: "same_links lg this st st1"
    have "post (report_deaths X a obs st1) (same_links lg this st1)"
      by (rule Cons.IH [OF same_links_death_told [OF s Cons.prems]])
    with s show "post (report_deaths X a obs st1) (same_links lg this st)"
      by (blast intro: post_weaken same_links_trans)
  qed
qed (simp add: post_ret same_links_refl)

lemma link_inv_same:
  assumes "link_inv X lg this h rs st" "same_links lg this st st'"
  shows "link_inv X lg this h rs st'"
proof -
  obtain b where b: "proxy this st = Some b" "mHandle b = h"
    "requests h this (sent lg st) = clears h this (sent lg st) + (if mObituaries b = None then 0 else 1)"
    "mObitsSent b \<longrightarrow> mObituaries b = None" "rs = (case mObituaries b of None \<Rightarrow> [] | Some l \<Rightarrow> l)"
    "(\<forall>k. 0 \<le> pe_vector_add X k) \<longrightarrow> mObituaries b \<noteq> Some []"
    using assms(1) unfolding link_inv_def by blast
  obtain b' where b': "proxy this st' = Some b'" "mHandle b' = mHandle b" "mObitsSent b' = mObitsSent b"
    "mObituaries b' = mObituaries b"
    "requests (mHandle b) this (sent lg st') = requests (mHandle b) this (sent lg st)"
    "clears (mHandle b) this (sent lg st') = clears (mHandle b) this (sent lg st)"
    using assms(2) b(1) unfolding same_links_def by blast
  show ?thesis
    unfolding link_inv_def
    by (intro exI [of _ b'] conjI) (use b b' in \<open>simp_all only: if_True\<close>)
qed

lemma sendObituary_inv:
  assumes H: "healthy E lg" and X: "leaves_links X lg" and i: "link_inv X lg this h rs st"
  shows "post (sendObituary n E X this st) (link_inv X lg this h [])"
proof -
  let ?Q = "\<lambda>st'. \<exists>b. proxy this st' = Some b \<and> mHandle b = h \<and> mObituaries b = None \<and>
      requests h this (sent lg st') = clears h this (sent lg st')"
  show ?thesis
    unfolding sendObituary_def Let_def
  proof (intro run_post, goal_cases)
    case (1 b)
    then show ?case using i by (auto simp: link_inv_def)
  next
    case (2 b)
    show ?case
    proof (rule post_bind [where Q = ?Q], goal_cases)
      case 1
      show ?case
        by (intro run_post post_bind [OF flush_sent [OF H]]) (use i 2 in \<open>auto simp: link_inv_def\<close>)
    next
      case (2 st')
      then have "link_inv X lg this h [] (upd_proxy this (\<lambda>b. b\<lparr>mObitsSent := True\<rparr>) st')"
        "death_told this (upd_proxy this (\<lambda>b. b\<lparr>mObitsSent := True\<rparr>) st')"
        by (auto simp: link_inv_def death_told_def)
      then show ?case
        by (intro run_post post_weaken [OF report_deaths_links [OF X]]) (auto intro: link_inv_same)
    qed
  qed
qed

text \<open>
  The life of a proxy between its creation and its deletion, as far as death notifications go.
  The list records who has been linked and neither been unlinked nor told of the death.
\<close>

inductive link_life ::
    "nat \<Rightarrow> 'u pworld ipc_env \<Rightarrow> 'u px_env \<Rightarrow> u64 \<Rightarrow> 'u pworld ipc \<Rightarrow> obituary list \<Rightarrow> 'u pworld ipc \<Rightarrow> bool"
  for n E X this st0 where
    born: "link_life n E X this st0 [] st0"
  | link: "link_life n E X this st0 rs st \<Longrightarrow> linkToDeath n E X this r c f st = ret (res, st') \<Longrightarrow>
      link_life n E X this st0 (linked r c f res rs) st'"
  | unlink: "link_life n E X this st0 rs st \<Longrightarrow> unlinkToDeath n E this r c f st = ret (res, out, st') \<Longrightarrow>
      link_life n E X this st0 (unlinked r c f rs) st'"
  | death: "link_life n E X this st0 rs st \<Longrightarrow> sendObituary n E X this st = ret st' \<Longrightarrow>
      link_life n E X this st0 [] st'"

text \<open>
  C34. Whatever sequence of links, unlinks and death notices a proxy goes through, its vector holds
  exactly those who were linked and neither unlinked nor told of the death, and on a connection
  that works the driver has been asked for a death notification once more than it has been told
  to clear it while the proxy has a vector, and equally often otherwise. When insertions into the
  vector do not fail it exists exactly while there are recipients; after a failed insertion the
  notification stays requested with nobody to tell. Once the obituaries have been sent there is
  no vector; recipients are assumed not to touch the links of a proxy that has told its death.
\<close>

theorem death_links_balanced:
  assumes "link_life n E X this (new_BpBinder this h st) rs st'"
    and "healthy E lg" "leaves_links X lg"
    and "requests h this (sent lg st) = 0" "clears h this (sent lg st) = 0"
  shows "\<exists>b. proxy this st' = Some b \<and> mHandle b = h \<and>
    requests h this (sent lg st') = clears h this (sent lg st') + (if mObituaries b = None then 0 else 1) \<and>
    rs = (case mObituaries b of None \<Rightarrow> [] | Some l \<Rightarrow> l) \<and>
    ((\<forall>k. 0 \<le> pe_vector_add X k) \<longrightarrow> (mObituaries b = None \<longleftrightarrow> rs = [])) \<and>
    (mObitsSent b \<longrightarrow> mObituaries b = None)"
proof -
  have "link_inv X lg this h [] (new_BpBinder this h st)"
    using assms(4,5) by (simp add: link_inv_def new_BpBinder_def incWeakHandle_def)
  with assms(1) have "link_inv X lg this h rs st'"
  proof (induction rule: link_life.induct)
    case (link rs st r c f res st')
    then show ?case using postD [OF linkToDeath_inv [OF assms(2,3)] link(2)] by simp
  next
    case (unlink rs st r c f res out st')
    then show ?case using postD [OF unlinkToDeath_inv [OF assms(2)] unlink(2)] by simp
  next
    case (death rs st st')
    then show ?case using postD [OF sendObituary_inv [OF assms(2,3)] death(2)] by simp
  qed
  then show ?thesis by (auto simp: link_inv_def split: option.splits)
qed

text \<open>What one link, and one death notice, leave behind.\<close>

lemma linkToDeath_links:
  assumes H: "healthy E lg" and X: "leaves_links X lg" and b: "proxy this st = Some b"
  shows "post (linkToDeath n E X this (Some r) c f st) (\<lambda>(res, st'). res = 0 \<longrightarrow> \<not> mObitsSent b \<and>
    (\<exists>b'. proxy this st' = Some b' \<and> \<not> mObitsSent b' \<and> mObituaries b' =
       Some ((case mObituaries b of None \<Rightarrow> [] | Some l \<Rightarrow> l) @ [\<lparr>ob_recipient = Some r, ob_cookie = c, ob_flags = f\<rparr>])))"
proof -
  have E: "err_codes.DEAD_OBJECT (ie_err E) \<noteq> 0" "err_codes.NO_MEMORY (ie_err E) \<noteq> 0"
    using H by (auto simp: healthy_def errs_ok_def)
  show ?thesis
    unfolding linkToDeath_def Let_def
    by (intro run_post post_bind [OF flush_sent [OF H]])
      (use b X E in \<open>auto simp: leaves_links_def split: option.splits\<close>)
qed

lemma sendObituary_told:
  assumes H: "healthy E lg" and X: "leaves_links X lg"
  shows "post (sendObituary n E X this st) (death_told this)"
  unfolding sendObituary_def Let_def
proof (intro run_post, goal_cases)
  case (1 b)
  then show ?case by (simp add: death_told_def)
next
  case (2 b)
  show ?case
  proof (rule post_bind [where Q = "\<lambda>st'. proxy this st' \<noteq> None"], goal_cases)
    case 1
    show ?case by (intro run_post post_bind [OF flush_sent [OF H]]) (use 2 in auto)
  next
    case (2 st')
    then have "death_told this (upd_proxy this (\<lambda>b. b\<lparr>mObitsSent := True\<rparr>) st')"
      by (auto simp: death_told_def)
    then show ?case
      by (intro run_post post_weaken [OF report_deaths_links [OF X]])
        (blast intro: same_links_death_told)+
  qed
qed

text \<open>
  Death is final: a call on a proxy known to be dead does not enter the driver and fails with
  the same status every time, and after the obituaries have been sent nobody can be linked or
  unlinked and a further death notice reports to nobody.
\<close>

theorem death_is_final:
  assumes "proxy this st = Some b" "\<not> mAlive b" "mObitsSent b"
  shows "bp_transact n E this code data reply flags st = ret (DEAD_OBJECT (ie_err E), reply, st) \<and>
    linkToDeath n E X this (Some r) c f st = ret (DEAD_OBJECT (ie_err E), st) \<and>
    unlinkToDeath n E this rr c f st = ret (DEAD_OBJECT (ie_err E), None, st) \<and>
    sendObituary n E X this st = ret (upd_proxy this (\<lambda>b. b\<lparr>mAlive := False\<rparr>) st)"
  using assms by (simp add: bp_transact_def linkToDeath_def unlinkToDeath_def sendObituary_def with_proxy_def)

lemma find_obit_SomeD:
  "find_obit P l = Some (x, rest) \<Longrightarrow> \<exists>a b. l = a @ x # b \<and> rest = a @ b \<and> P x \<and> (\<forall>y \<in> set a. \<not> P y)"
proof (induction l arbitrary: rest)
  case (Cons y l)
  show ?case
  proof (cases "P y")
    case True
    then show ?thesis using Cons.prems by (intro exI [of _ "[]"] exI [of _ l]) simp
  next
    case False
    then obtain r where r: "find_obit P l = Some (x, r)" "rest = y # r" using Cons.prems by auto
    then obtain a b where "l = a @ x # b" "r = a @ b" "P x" "\<forall>y \<in> set a. \<not> P y" using Cons.IH by blast
    then show ?thesis using r(2) False by (intro exI [of _ "y # a"] exI [of _ b]) simp
  qed
qed simp

lemma find_obit_None: "find_obit P l = None \<longleftrightarrow> (\<forall>x \<in> set l. \<not> P x)"
  by (induction l) auto

lemma find_obit_append:
  "\<forall>x \<in> set l. \<not> P x \<Longrightarrow> P y \<Longrightarrow> find_obit P (l @ [y]) = Some (y, l)"
  by (induction l) auto

lemma unlinkToDeath_last:
  assumes H: "healthy E lg" and b: "proxy this st = Some b" "\<not> mObitsSent b"
    "mObituaries b = Some (l @ [\<lparr>ob_recipient = Some r, ob_cookie = c, ob_flags = f\<rparr>])"
    and new: "\<forall>ob \<in> set l. ob_recipient ob \<noteq> Some r"
  shows "post (unlinkToDeath n E this (Some r) c' f st) (\<lambda>(res, out, st'). res = 0 \<and> out = Some r \<and>
    (\<exists>b'. proxy this st' = Some b' \<and> mObituaries b' = (if l = [] then None else Some l)))"
proof -
  have "find_obit (obit_matches (Some r) c' f) (l @ [\<lparr>ob_recipient = Some r, ob_cookie = c, ob_flags = f\<rparr>])
      = Some (\<lparr>ob_recipient = Some r, ob_cookie = c, ob_flags = f\<rparr>, l)"
    using new by (intro find_obit_append) (auto simp: obit_matches_def)
  then show ?thesis
    unfolding unlinkToDeath_def
    by (intro run_post post_bind [OF flush_sent [OF H]]) (use b in auto)
qed

text \<open>
  Unlinking removes exactly one recipient, the first that matches, and keeps the others in
  order; when it was the last one the driver is told to clear the notification. A recipient that
  was never linked is not found, and nothing changes.
\<close>

theorem unlink_removes_first:
  assumes H: "healthy E lg" and b: "proxy this st = Some b" "\<not> mObitsSent b" "mObituaries b = Some l"
    and r: "unlinkToDeath n E this rc c f st = ret (res, out, st')"
  shows "(res = NAME_NOT_FOUND (ie_err E) \<and> st' = st \<and> (\<forall>ob \<in> set l. \<not> obit_matches rc c f ob)) \<or>
    (\<exists>pre ob post b'. l = pre @ ob # post \<and> obit_matches rc c f ob \<and>
       (\<forall>ob \<in> set pre. \<not> obit_matches rc c f ob) \<and> res = 0 \<and> out = ob_recipient ob \<and>
       proxy this st' = Some b' \<and> mObituaries b' = (if pre @ post = [] then None else Some (pre @ post)) \<and>
       sent lg st' = sent lg st @ (if pre @ post = [] then [BC_CLEAR_DEATH_NOTIFICATION (mHandle b) this] else []))"
proof (cases "find_obit (obit_matches rc c f) l")
  case None
  then have "res = NAME_NOT_FOUND (ie_err E)" "st' = st"
    using r b by (simp_all add: unlinkToDeath_def with_proxy_def)
  then show ?thesis using None by (simp add: find_obit_None)
next
  case (Some p)
  obtain ob rest where p: "p = (ob, rest)" by (cases p)
  obtain pre post where s: "l = pre @ ob # post" "rest = pre @ post" "obit_matches rc c f ob"
    "\<forall>ob \<in> set pre. \<not> obit_matches rc c f ob"
    using find_obit_SomeD [OF Some [unfolded p]] by blast
  let ?st = "snd (clearDeathNotification (mHandle b) this (upd_proxy this (\<lambda>b. b\<lparr>mObituaries := Some []\<rparr>) st))"
  show ?thesis
  proof (cases "rest = []")
    case True
    then obtain st1 where f: "flushCommands n E ?st = ret st1" and e: "res = 0" "out = ob_recipient ob"
      "st' = upd_proxy this (\<lambda>b. b\<lparr>mObituaries := None\<rparr>) st1"
      using r b Some p by (auto simp: unlinkToDeath_def with_proxy_def rbind_ret_iff)
    have "sent lg st1 = sent lg ?st" "proxy this st1 = proxy this ?st"
      using postD [OF flush_sent [OF H] f] by blast+
    then show ?thesis using e s True b by (intro disjI2 exI [of _ pre] exI [of _ ob] exI [of _ post]) auto
  next
    case False
    then have "res = 0" "out = ob_recipient ob" "st' = upd_proxy this (\<lambda>b. b\<lparr>mObituaries := Some rest\<rparr>) st"
      using r b Some p by (auto simp: unlinkToDeath_def with_proxy_def)
    then show ?thesis using s False b by (intro disjI2 exI [of _ pre] exI [of _ ob] exI [of _ post]) auto
  qed
qed

text \<open>
  The references a proxy takes on its handle over its life are all given back: creation and
  first use take a weak and a strong reference, the last strong release and deletion return them,
  and its entry in the handle table is cleared if it still is the proxy of that handle.
\<close>

theorem proxy_references_balanced:
  "\<exists>st'. rbind (onFirstRef True this (new_BpBinder this h st)) (\<lambda>st.
      rbind (onLastStrongRef True this st) (delete_BpBinder True X this)) = ret st' \<and>
    mOut st' = mOut st @ [BC_INCREFS h, BC_ACQUIRE h, BC_RELEASE h, BC_DECREFS h] \<and>
    proxy this st' = None \<and> proc_st st' = expungeHandle (pe_can_grow X) h this (proc_st st)"
  by (auto simp: onFirstRef_def onLastStrongRef_def delete_BpBinder_def with_proxy_def new_BpBinder_def
      incWeakHandle_def incStrongHandle_def decStrongHandle_def decWeakHandle_def Let_def
      set_proxy_def upd_proxy_def upd_proc_def write_cmd_def proxy_def)

end
