(* ===== verification/Process_State.thy ===== *)
theory Process_State
  imports Bp_Binder
begin

text \<open>
  The process side of the binder library, \<open>native/ProcessState.cpp\<close>: opening the driver, the
  proxies of remote handles, the context objects, and the thread pool.
\<close>

section \<open>Opening the driver\<close>

text \<open>
  The system calls that \<open>open_driver\<close> and the constructor make, in order, and their results.
\<close>

datatype syscall =
    Sys_open | Sys_cloexec int | Sys_version int | Sys_close int | Sys_max_threads int nat | Sys_mmap int nat

record driver_env =
  de_open :: int
  de_version_result :: int
  de_version_matches :: bool
  de_max_threads_result :: int
  de_mmap :: "u64 option"

definition open_driver :: "driver_env \<Rightarrow> int \<times> syscall list" where
  "open_driver D =
     (let fd = de_open D in
      if fd \<ge> 0 then
        let result = de_version_result D;
            (fd1, t1) = (if result = -1 then (-1, [Sys_close fd]) else (fd, []));
            (fd2, t2) = (if result \<noteq> 0 \<or> \<not> de_version_matches D then (-1, [Sys_close fd1]) else (fd1, []))
        in (fd2, [Sys_open, Sys_cloexec fd, Sys_version fd] @ t1 @ t2 @ [Sys_max_threads fd2 15])
      else (fd, [Sys_open]))"

abbreviation BINDER_VM_SIZE :: nat where
  "BINDER_VM_SIZE \<equiv> 1 * 1024 * 1024 - 4096 * 2"

definition new_ProcessState :: "driver_env \<Rightarrow> (int \<times> proc) cres \<times> syscall list" where
  \<comment> \<open>the constructor: the descriptor and the state, or a fatal log\<close>
  "new_ProcessState D =
     (let (fd, t) = open_driver D;
          p = \<lparr>mVMStart = None, mManagesContexts = False, mBinderContextCheckFunc = None,
               mBinderContextUserData = None, mThreadPoolStarted = False, mThreadPoolSeq = 1,
               mHandleToObject = [], mContexts = (\<lambda>_. None), pool_threads = []\<rparr>
      in if fd \<ge> 0 then
           let t = t @ [Sys_mmap fd BINDER_VM_SIZE]
           in case de_mmap D of
                None \<Rightarrow> (Abort, t @ [Sys_close fd])
              | Some a \<Rightarrow> (Ret (fd, p\<lparr>mVMStart := Some a\<rparr>), t)
         else (Abort, t))"

definition ProcessState_self :: "driver_env \<Rightarrow> (int \<times> proc) option \<Rightarrow> (int \<times> proc) cres \<times> syscall list" where
  \<comment> \<open>the singleton: created by the first call\<close>
  "ProcessState_self D gProcess = (case gProcess of Some p \<Rightarrow> (Ret p, []) | None \<Rightarrow> new_ProcessState D)"

section \<open>Proxies for handles\<close>

record 'u ps_env =
  pp_attemptIncWeak :: "u64 \<Rightarrow> 'u pworld ipc \<Rightarrow> bool \<times> 'u pworld ipc"
  pp_decWeak :: "u64 \<Rightarrow> 'u pworld ipc \<Rightarrow> 'u pworld ipc run"
  pp_new :: "'u pworld ipc \<Rightarrow> u64 option"
  pp_weakRefs :: "u64 \<Rightarrow> u64"
  pp_assign_strong :: "u64 \<Rightarrow> 'u pworld ipc \<Rightarrow> 'u pworld ipc run"
  pp_assign_weak :: "u64 \<Rightarrow> 'u pworld ipc \<Rightarrow> 'u pworld ipc run"
  pp_force_set :: "u64 \<Rightarrow> 'u pworld ipc \<Rightarrow> 'u pworld ipc run"
  pp_set_context_mgr :: "'u pworld ipc \<Rightarrow> int \<times> 'u pworld ipc"
  pp_set_max_threads :: "nat \<Rightarrow> 'u pworld ipc \<Rightarrow> int \<times> 'u pworld ipc"
  pp_context_request :: "u16 list \<Rightarrow> u64 option \<Rightarrow> parcel"
  pp_readStrongBinder :: "parcel \<Rightarrow> 'u pworld ipc \<Rightarrow> u64 option \<times> 'u pworld ipc"

definition set_entry :: "nat \<Rightarrow> handle_entry \<Rightarrow> 'u pworld ipc \<Rightarrow> 'u pworld ipc" where
  "set_entry i e = upd_proc (\<lambda>p. p\<lparr>mHandleToObject := (mHandleToObject p)[i := e]\<rparr>)"

definition usable_proxy :: "'u ps_env \<Rightarrow> handle_entry \<Rightarrow> 'u pworld ipc \<Rightarrow> ((u64 \<times> u64) option \<times> 'u pworld ipc) run" where
  \<comment> \<open>the proxy of an entry and its weak count, when one could be taken; otherwise a new proxy is
    needed\<close>
  "usable_proxy P e st =
     (case he_binder e of
        None \<Rightarrow> ret (None, st)
      | Some b \<Rightarrow> (case he_refs e of
            None \<Rightarrow> Some Oob
          | Some refs \<Rightarrow> (case pp_attemptIncWeak P refs st of (ok, st) \<Rightarrow>
              ret (if ok then Some (b, refs) else None, st))))"

definition new_proxy :: "'u ps_env \<Rightarrow> u32 \<Rightarrow> nat \<Rightarrow> handle_entry \<Rightarrow> 'u pworld ipc \<Rightarrow> u64 option \<times> 'u pworld ipc" where
  \<comment> \<open>a new proxy, entered in the table\<close>
  "new_proxy P handle i e st =
     (case pp_new P st of
        None \<Rightarrow> (None, set_entry i (e\<lparr>he_binder := None\<rparr>) st)
      | Some b \<Rightarrow> (Some b, set_entry i \<lparr>he_binder = Some b, he_refs = Some (pp_weakRefs P b)\<rparr>
          (new_BpBinder b handle st)))"

definition getStrongProxyForHandle ::
    "nat \<Rightarrow> 'u pworld ipc_env \<Rightarrow> 'u px_env \<Rightarrow> 'u ps_env \<Rightarrow> u32 \<Rightarrow> 'u pworld ipc \<Rightarrow> (u64 option \<times> 'u pworld ipc) run" where
  "getStrongProxyForHandle n E X P handle st =
     (case lookupHandleLocked (pe_can_grow X) handle (proc_st st) of
        (None, p) \<Rightarrow> ret (None, upd_proc (\<lambda>_. p) st)
      | (Some i, p) \<Rightarrow>
          let e = mHandleToObject p ! i in
          rbind (usable_proxy P e (upd_proc (\<lambda>_. p) st)) (\<lambda>(usable, st).
            case usable of
              None \<Rightarrow>
                rbind (if handle = 0
                       then rbind (transact n E 0 (PING_TRANSACTION X) empty_parcel None 0 st)
                              (\<lambda>(status, _, st). ret (status = DEAD_OBJECT (ie_err E), st))
                       else ret (False, st)) (\<lambda>(dead, st).
                  if dead then ret (None, st)
                  else case new_proxy P handle i e st of
                      (None, st) \<Rightarrow> ret (None, st)
                    | (Some b, st) \<Rightarrow> rbind (pp_assign_strong P b st) (\<lambda>st. ret (Some b, st)))
            | Some (b, refs) \<Rightarrow>
                rbind (pp_force_set P b st) (\<lambda>st. rbind (pp_decWeak P refs st) (\<lambda>st. ret (Some b, st)))))"

definition getWeakProxyForHandle ::
    "'u px_env \<Rightarrow> 'u ps_env \<Rightarrow> u32 \<Rightarrow> 'u pworld ipc \<Rightarrow> (u64 option \<times> 'u pworld ipc) run" where
  "getWeakProxyForHandle X P handle st =
     (case lookupHandleLocked (pe_can_grow X) handle (proc_st st) of
        (None, p) \<Rightarrow> ret (None, upd_proc (\<lambda>_. p) st)
      | (Some i, p) \<Rightarrow>
          let e = mHandleToObject p ! i in
          rbind (usable_proxy P e (upd_proc (\<lambda>_. p) st)) (\<lambda>(usable, st).
            case usable of
              None \<Rightarrow>
                (case new_proxy P handle i e st of
                    (None, st) \<Rightarrow> ret (None, st)
                  | (Some b, st) \<Rightarrow> rbind (pp_assign_weak P b st) (\<lambda>st. ret (Some b, st)))
            | Some (b, refs) \<Rightarrow>
                rbind (pp_assign_weak P b st) (\<lambda>st. rbind (pp_decWeak P refs st) (\<lambda>st. ret (Some b, st)))))"

section \<open>Context objects\<close>

definition setContextObject :: "u16 list \<Rightarrow> u64 option \<Rightarrow> 'u pworld ipc \<Rightarrow> 'u pworld ipc" where
  "setContextObject name ob = upd_proc (\<lambda>p. p\<lparr>mContexts := (mContexts p)(name := ob)\<rparr>)"

definition getContextObject ::
    "nat \<Rightarrow> 'u pworld ipc_env \<Rightarrow> 'u ps_env \<Rightarrow> u16 list \<Rightarrow> u64 option \<Rightarrow> 'u pworld ipc
       \<Rightarrow> (u64 option \<times> 'u pworld ipc) run" where
  "getContextObject n E P name caller st =
     (case mContexts (proc_st st) name of
        Some ob \<Rightarrow> ret (Some ob, st)
      | None \<Rightarrow>
          if mManagesContexts (proc_st st) then ret (None, st)
          else
            rbind (rbind (transact n E 0 0 (pp_context_request P name caller) (Some empty_parcel) 0 st)
                (\<lambda>(result, reply, st).
                  case reply of None \<Rightarrow> Some Oob
                  | Some reply \<Rightarrow>
                      (case (if result = 0 then pp_readStrongBinder P reply st else (None, st)) of
                         (ob, st) \<Rightarrow> ret (ob, parcel_destroy reply st))))
              (\<lambda>(ob, st). rbind (flushCommands n E st) (\<lambda>st.
                 ret (ob, if ob \<noteq> None then setContextObject name ob st else st))))"

definition becomeContextManager ::
    "'u ps_env \<Rightarrow> u64 option \<Rightarrow> u64 option \<Rightarrow> 'u pworld ipc \<Rightarrow> bool \<times> 'u pworld ipc" where
  "becomeContextManager P checkFunc userData st =
     (if \<not> mManagesContexts (proc_st st) then
        let st = upd_proc (\<lambda>p. p\<lparr>mBinderContextCheckFunc := checkFunc, mBinderContextUserData := userData\<rparr>) st
        in case pp_set_context_mgr P st of (result, st) \<Rightarrow>
          let st = (if result = 0 then upd_proc (\<lambda>p. p\<lparr>mManagesContexts := True\<rparr>) st
                else if result = -1
                then upd_proc (\<lambda>p. p\<lparr>mBinderContextCheckFunc := None, mBinderContextUserData := None\<rparr>) st
                else st)
          in (mManagesContexts (proc_st st), st)
      else (mManagesContexts (proc_st st), st))"

section \<open>The thread pool\<close>

fun hex_digits :: "nat \<Rightarrow> string" where
  "hex_digits n = (let d = (''0123456789ABCDEF'' ! (n mod 16)) in
     if n < 16 then [d] else hex_digits (n div 16) @ [d])"

declare hex_digits.simps [simp del]

definition makeBinderThreadName :: "proc \<Rightarrow> string \<times> proc" where
  \<comment> \<open>the format is \<open>Binder_%X\<close> on the old value of the counter, which wraps\<close>
  "makeBinderThreadName p =
     (''Binder_'' @ hex_digits (unat (mThreadPoolSeq p)), p\<lparr>mThreadPoolSeq := mThreadPoolSeq p + 1\<rparr>)"

definition spawnPooledThread :: "bool \<Rightarrow> proc \<Rightarrow> proc" where
  "spawnPooledThread isMain p =
     (if mThreadPoolStarted p then
        (case makeBinderThreadName p of (name, p) \<Rightarrow> p\<lparr>pool_threads := pool_threads p @ [(name, isMain)]\<rparr>)
      else p)"

definition startThreadPool :: "proc \<Rightarrow> proc" where
  "startThreadPool p =
     (if \<not> mThreadPoolStarted p then spawnPooledThread True (p\<lparr>mThreadPoolStarted := True\<rparr>) else p)"

definition giveThreadPoolName :: "proc \<Rightarrow> string \<times> proc" where
  "giveThreadPoolName p = makeBinderThreadName p"

definition setThreadPoolMaxThreadCount :: "'u ps_env \<Rightarrow> int \<Rightarrow> nat \<Rightarrow> 'u pworld ipc \<Rightarrow> int \<times> 'u pworld ipc" where
  \<comment> \<open>the second argument is \<open>errno\<close>\<close>
  "setThreadPoolMaxThreadCount P errno maxThreads st =
     (case pp_set_max_threads P maxThreads st of (r, st) \<Rightarrow> (if r = -1 then - errno else 0, st))"

definition threadLoop :: "nat \<Rightarrow> nat \<Rightarrow> 'w ipc_env \<Rightarrow> bool \<Rightarrow> 'w ipc \<Rightarrow> (bool \<times> 'w ipc) run" where
  \<comment> \<open>\<open>PoolThread::threadLoop\<close>: one stay in the pool, and no second round\<close>
  "threadLoop k n E isMain st = rbind (joinThreadPool k n E isMain st) (\<lambda>st. ret (False, st))"

section \<open>What opening leaves open\<close>

definition driver_usable :: "driver_env \<Rightarrow> bool" where
  "driver_usable D \<longleftrightarrow> 0 \<le> de_open D \<and> de_version_result D = 0 \<and> de_version_matches D"

lemma open_driver_fd: "fst (open_driver D) = (if driver_usable D \<or> de_open D < 0 then de_open D else -1)"
  by (simp add: open_driver_def driver_usable_def Let_def)

text \<open>
  The process state exists exactly when the driver opens, its version matches and the mapping
  succeeds; then the descriptor stays open. On every other path an opened descriptor is closed
  once. When the version cannot be read the error path also closes the descriptor -1.
\<close>

theorem process_state_descriptor:
  "fst (new_ProcessState D) \<noteq> Oob \<and>
   (\<forall>fd p. fst (new_ProcessState D) = Ret (fd, p) \<longleftrightarrow> driver_usable D \<and> fd = de_open D \<and>
      (\<exists>a. de_mmap D = Some a \<and>
        p = \<lparr>mVMStart = Some a, mManagesContexts = False, mBinderContextCheckFunc = None,
             mBinderContextUserData = None, mThreadPoolStarted = False, mThreadPoolSeq = 1,
             mHandleToObject = [], mContexts = (\<lambda>_. None), pool_threads = []\<rparr>)) \<and>
   count_if ((=) (Sys_close (de_open D))) (snd (new_ProcessState D)) =
     (if 0 \<le> de_open D \<and> \<not> (driver_usable D \<and> de_mmap D \<noteq> None) then 1 else 0) \<and>
   (Sys_close (-1) \<in> set (snd (new_ProcessState D)) \<longleftrightarrow> 0 \<le> de_open D \<and> de_version_result D = -1)"
  by (cases "de_mmap D") (auto simp: new_ProcessState_def open_driver_def driver_usable_def Let_def)

section \<open>Proxies of handles\<close>

lemma table_set_entry:
  assumes "i = unat (scast handle :: 64 word)" "i < length (mHandleToObject (proc_st st))"
  shows "table (proc_st (set_entry i e st)) = (table (proc_st st))(handle := he_binder e)"
  using assms unat_handle_inj
  by (auto simp: table_def fun_eq_iff Let_def nth_list_update set_entry_def upd_proc_def)

lemma new_proxy_simps:
  "new_proxy P handle i e st = (Some b, st') \<Longrightarrow>
   table (proc_st st') = table (proc_st (set_entry i \<lparr>he_binder = Some b, he_refs = Some (pp_weakRefs P b)\<rparr> st)) \<and> mOut st' = mOut st @ [BC_INCREFS handle] \<and>
   proxy b st' = Some \<lparr>mHandle = handle, mAlive = True, mObitsSent = False, mObituaries = None,
     mObjects = [], mDescriptorCache = []\<rparr> \<and> (\<forall>a. a \<noteq> b \<longrightarrow> proxy a st' = proxy a st)"
  by (auto simp: new_proxy_def new_BpBinder_def incWeakHandle_def set_entry_def upd_proc_def set_proxy_def
      write_cmd_def proxy_def split: option.splits)

lemma usable_proxy_quiet:
  assumes q: "\<And>r s. snd (pp_attemptIncWeak P r s) = s" and r: "he_binder e \<noteq> None \<Longrightarrow> he_refs e \<noteq> None"
  shows "\<exists>u. usable_proxy P e st = ret (u, st) \<and> (\<forall>b k. u = Some (b, k) \<longrightarrow> he_binder e = Some b)"
proof (cases "he_binder e")
  case (Some b)
  obtain k where k: "he_refs e = Some k" using r Some by auto
  obtain ok where "pp_attemptIncWeak P k st = (ok, st)" using q [of k st] by (metis prod.collapse)
  then show ?thesis using Some k by (simp add: usable_proxy_def)
qed (simp add: usable_proxy_def)

text \<open>
  A strong proxy for a handle other than the context manager's: a proxy of the table that is
  still alive is handed out again and the table does not change; otherwise a new proxy of exactly
  that handle is created, the driver is told of its weak reference, and it replaces the entry of
  this handle only.
\<close>

theorem strong_proxy_for_handle:
  assumes h: "handle \<noteq> 0" and grow: "\<And>k. pe_can_grow X k"
    and quiet: "\<And>r s. snd (pp_attemptIncWeak P r s) = s" "\<And>r s. pp_decWeak P r s = ret s"
      "\<And>b s. pp_assign_strong P b s = ret s" "\<And>b s. pp_force_set P b s = ret s"
    and refs: "\<And>e. e \<in> set (mHandleToObject (proc_st st)) \<Longrightarrow> he_binder e \<noteq> None \<Longrightarrow> he_refs e \<noteq> None"
    and new: "\<And>s. pp_new P s = Some fresh"
  shows "\<exists>b st'. getStrongProxyForHandle n E X P handle st = ret (Some b, st') \<and>
    table (proc_st st') = (table (proc_st st))(handle \<mapsto> b) \<and>
    ((table (proc_st st) handle = Some b \<and> mOut st' = mOut st \<and> (\<forall>a. proxy a st' = proxy a st)) \<or>
     (b = fresh \<and> mOut st' = mOut st @ [BC_INCREFS handle] \<and>
      map_option mHandle (proxy b st') = Some handle \<and> (\<forall>a. a \<noteq> b \<longrightarrow> proxy a st' = proxy a st)))"
proof -
  let ?i = "unat (scast handle :: 64 word)"
  have "fst (lookupHandleLocked (pe_can_grow X) handle (proc_st st)) = Some ?i"
    using grow by (simp add: lookupHandleLocked_def Let_def)
  then obtain p where L: "lookupHandleLocked (pe_can_grow X) handle (proc_st st) = (Some ?i, p)"
    by (metis prod.collapse)
  note K = lookupHandleLocked_Some [OF L]
  let ?e = "mHandleToObject p ! ?i" and ?st = "upd_proc (\<lambda>_. p) st"
  have p: "proc_st ?st = p" by (simp add: upd_proc_def)
  have "?e \<in> set (mHandleToObject (proc_st st)) \<or> he_binder ?e = None"
    using L by (auto simp: lookupHandleLocked_def Let_def nth_append split: if_splits)
  then have r: "he_binder ?e \<noteq> None \<Longrightarrow> he_refs ?e \<noteq> None" using refs [of ?e] by auto
  obtain u where u: "usable_proxy P ?e ?st = ret (u, ?st)"
    and ub: "\<forall>b k. u = Some (b, k) \<longrightarrow> he_binder ?e = Some b"
    using usable_proxy_quiet [OF quiet(1) r] by metis
  show ?thesis
  proof (cases u)
    case (Some x)
    obtain b k where x: "x = (b, k)" by (cases x)
    have "getStrongProxyForHandle n E X P handle st = ret (Some b, ?st)"
      using L u Some x quiet by (simp add: getStrongProxyForHandle_def Let_def)
    moreover have "table (proc_st st) handle = Some b" using ub Some x K(4) by simp
    moreover have "table (proc_st ?st) = table (proc_st st)" using K(3) p by simp
    ultimately show ?thesis by (auto intro!: exI [of _ b] exI [of _ ?st])
  next
    case None
    obtain st' where n: "new_proxy P handle ?i ?e ?st = (Some fresh, st')"
      using new by (simp add: new_proxy_def)
    have "getStrongProxyForHandle n E X P handle st = ret (Some fresh, st')"
      using L u None n h quiet by (simp add: getStrongProxyForHandle_def Let_def)
    moreover have "table (proc_st st') = (table (proc_st st))(handle \<mapsto> fresh)"
      using new_proxy_simps [OF n] table_set_entry [of ?i handle ?st] K(2,3) p by simp
    ultimately show ?thesis using new_proxy_simps [OF n] by auto
  qed
qed

text \<open>
  No proxy is made for a context manager that is not there: when the dummy transaction says
  that the target is dead, nothing is returned, no reference is taken, and the table is as the
  transaction left it.
\<close>

theorem dead_context_manager:
  assumes "lookupHandleLocked (pe_can_grow X) 0 (proc_st st) = (Some i, p)"
    and "he_binder (mHandleToObject p ! i) = None"
    and "transact n E 0 (PING_TRANSACTION X) empty_parcel None 0 (upd_proc (\<lambda>_. p) st)
      = ret (DEAD_OBJECT (ie_err E), reply, st')"
  shows "getStrongProxyForHandle n E X P 0 st = ret (None, st')"
  using assms by (simp add: getStrongProxyForHandle_def usable_proxy_def Let_def)

section \<open>Threads of the pool\<close>

lemma length_hex_digits: "0 < length (hex_digits n)"
  by (subst hex_digits.simps) (simp add: Let_def)

lemma hex_digit_inj: "a < 16 \<Longrightarrow> b < 16 \<Longrightarrow> ''0123456789ABCDEF'' ! a = ''0123456789ABCDEF'' ! b \<Longrightarrow> a = b"
proof -
  have "distinct ''0123456789ABCDEF''" by simp
  then show "a < 16 \<Longrightarrow> b < 16 \<Longrightarrow> ''0123456789ABCDEF'' ! a = ''0123456789ABCDEF'' ! b \<Longrightarrow> a = b"
    by (subst (asm) nth_eq_iff_index_eq) simp_all
qed

lemma hex_digits_inj: "hex_digits m = hex_digits n \<Longrightarrow> m = n"
proof (induction m arbitrary: n rule: less_induct)
  case (less m)
  have s: "hex_digits k = (if k < 16 then [] else hex_digits (k div 16)) @ [''0123456789ABCDEF'' ! (k mod 16)]" for k
    by (subst hex_digits.simps) (simp add: Let_def)
  let ?q = "\<lambda>k. if k < 16 then [] else hex_digits (k div 16)"
  have "?q m = ?q n" and d: "''0123456789ABCDEF'' ! (m mod 16) = ''0123456789ABCDEF'' ! (n mod 16)"
    using less.prems unfolding s [of m] s [of n] by (simp_all only: append1_eq_conv)
  then have "m div 16 = n div 16"
    using less.IH [of "m div 16" "n div 16"] length_hex_digits [of "m div 16"] length_hex_digits [of "n div 16"]
    by (auto split: if_splits)
  moreover have "m mod 16 = n mod 16" by (rule hex_digit_inj [OF _ _ d]) simp_all
  ultimately show ?case by (metis div_mult_mod_eq)
qed

text \<open>
  The life of the pool: it is started, threads are spawned when the driver asks, and threads that
  come from outside are given names. The index counts the names handed out.
\<close>

inductive pool_life :: "proc \<Rightarrow> nat \<Rightarrow> proc \<Rightarrow> bool" for p0 where
    created: "pool_life p0 0 p0"
  | started: "pool_life p0 k p \<Longrightarrow> pool_life p0 (if mThreadPoolStarted p then k else Suc k) (startThreadPool p)"
  | spawned: "pool_life p0 k p \<Longrightarrow> pool_life p0 (if mThreadPoolStarted p then Suc k else k) (spawnPooledThread False p)"
  | named: "pool_life p0 k p \<Longrightarrow> pool_life p0 (Suc k) (snd (giveThreadPoolName p))"

definition pool_inv :: "nat \<Rightarrow> proc \<Rightarrow> bool" where
  "pool_inv k p \<longleftrightarrow> mThreadPoolSeq p = of_nat (Suc k) \<and> distinct (map fst (pool_threads p)) \<and>
     (\<forall>t \<in> set (pool_threads p). \<exists>j < k. fst t = ''Binder_'' @ hex_digits (Suc j)) \<and>
     count_if snd (pool_threads p) = (if mThreadPoolStarted p then 1 else 0)"

lemma pool_inv_spawn:
  assumes "pool_inv k p" and "Suc k < 2 ^ 32"
  shows "fst (makeBinderThreadName p) = ''Binder_'' @ hex_digits (Suc k)"
    "fst (makeBinderThreadName p) \<notin> fst ` set (pool_threads p)"
    "mThreadPoolSeq (snd (makeBinderThreadName p)) = of_nat (Suc (Suc k))"
proof -
  have n: "unat (of_nat (Suc k) :: u32) = Suc k" using assms(2) by (subst unat_of_nat) simp
  then show f: "fst (makeBinderThreadName p) = ''Binder_'' @ hex_digits (Suc k)"
    using assms(1) by (simp add: makeBinderThreadName_def pool_inv_def)
  show "mThreadPoolSeq (snd (makeBinderThreadName p)) = of_nat (Suc (Suc k))"
    using assms(1) by (simp add: makeBinderThreadName_def pool_inv_def)
  show "fst (makeBinderThreadName p) \<notin> fst ` set (pool_threads p)"
    using assms(1) hex_digits_inj unfolding f by (fastforce simp: pool_inv_def)
qed

lemma pool_life_inv:
  "pool_life p0 k p \<Longrightarrow> pool_inv 0 p0 \<Longrightarrow> k < 2 ^ 32 \<Longrightarrow> pool_inv k p"
proof (induction rule: pool_life.induct)
  case (started k p)
  show ?case
  proof (cases "mThreadPoolStarted p")
    case False
    then have i: "pool_inv k p" "Suc k < 2 ^ 32" using started by auto
    then show ?thesis using False pool_inv_spawn [OF i]
      by (auto simp: pool_inv_def startThreadPool_def spawnPooledThread_def makeBinderThreadName_def less_Suc_eq)
  qed (use started in \<open>simp add: startThreadPool_def\<close>)
next
  case (spawned k p)
  show ?case
  proof (cases "mThreadPoolStarted p")
    case True
    then have i: "pool_inv k p" "Suc k < 2 ^ 32" using spawned by auto
    then show ?thesis using True pool_inv_spawn [OF i]
      by (auto simp: pool_inv_def spawnPooledThread_def makeBinderThreadName_def less_Suc_eq)
  qed (use spawned in \<open>simp add: spawnPooledThread_def\<close>)
next
  case (named k p)
  then have i: "pool_inv k p" "Suc k < 2 ^ 32" by auto
  then show ?case using pool_inv_spawn [OF i]
    by (auto simp: pool_inv_def giveThreadPoolName_def makeBinderThreadName_def less_Suc_eq)
qed simp

text \<open>
  Whatever the order in which the pool is started, threads are spawned and names are given
  out, the threads of the pool have distinct names until the 32-bit counter comes around, and
  there is exactly one main thread once the pool has been started.
\<close>

theorem pool_threads_distinct:
  assumes "pool_life p0 k p" "k < 2 ^ 32 - 1"
    and "mThreadPoolSeq p0 = 1" "pool_threads p0 = []" "\<not> mThreadPoolStarted p0"
  shows "distinct (map fst (pool_threads p)) \<and>
    count_if snd (pool_threads p) = (if mThreadPoolStarted p then 1 else 0)"
proof -
  have "pool_inv 0 p0" using assms(3-5) by (simp add: pool_inv_def)
  from pool_life_inv [OF assms(1) this] assms(2) show ?thesis by (simp add: pool_inv_def)
qed

end
