(* ===== verification/Ipc_Examples.thy ===== *)
theory Ipc_Examples
  imports Process_State
begin

text \<open>
  The properties of the C++ library at concrete inputs: a driver that consumes every command,
  records it, and answers each call with a dead target; objects that do nothing. Each witness
  applies a property where all its hypotheses hold.
\<close>

section \<open>A concrete thread\<close>

type_synonym demo_world = "bc list pworld"

definition demo_ipc_env :: "demo_world ipc_env" where
  "demo_ipc_env = \<lparr>ie_uapi = le_uapi, ie_err = linux_errs,
     ie_ioctl = (\<lambda>w cmds c rd. \<lparr>io_errno = 0, io_consumed = length cmds,
        io_read = (if rd then [BR_TRANSACTION_COMPLETE, BR_DEAD_REPLY] else []), io_fd = 3,
        io_world = w\<lparr>user := user w @ drop c cmds\<rparr>\<rparr>),
     ie_transact = (\<lambda>ob tr p st. ret (0, empty_parcel, st\<lparr>mCallingUid := 77\<rparr>)),
     ie_inc_strong = (\<lambda>x. ret), ie_dec_strong = (\<lambda>x. ret), ie_inc_weak = (\<lambda>x. ret), ie_dec_weak = (\<lambda>x. ret),
     ie_attempt_inc_strong = (\<lambda>x st. ret (True, st)), ie_send_obituary = (\<lambda>x. ret), ie_dec_proxy = (\<lambda>x. ret),
     ie_spawn = ret, ie_getpriority = (\<lambda>w. 0), ie_setpriority = (\<lambda>p w. w), ie_set_background = (\<lambda>b w. w),
     ie_close = (\<lambda>fd w. w), ie_thread_exit = (\<lambda>w. w), ie_status_at = (\<lambda>w a. -5), ie_pid = 100, ie_uid = 1000,
     ANDROID_PRIORITY_NORMAL = 0, ANDROID_PRIORITY_BACKGROUND = 10\<rparr>"

definition demo_proc :: proc where
  "demo_proc = \<lparr>mVMStart = Some 0x1000, mManagesContexts = False, mBinderContextCheckFunc = None,
     mBinderContextUserData = None, mThreadPoolStarted = False, mThreadPoolSeq = 1,
     mHandleToObject = [], mContexts = (\<lambda>_. None), pool_threads = []\<rparr>"

definition demo_world :: demo_world where
  "demo_world = \<lparr>proxies = (\<lambda>_. None), proc_of = demo_proc, user = []\<rparr>"

definition demo_thread :: "demo_world ipc" where
  "demo_thread = new_IPCThreadState demo_ipc_env 0 3 False None demo_world"

lemma demo_thread_fields [simp]:
  "mIn demo_thread = []" "mOut demo_thread = []" "mInErr demo_thread = 0" "mDriverFD demo_thread = 3"
  "world demo_thread = demo_world" "mPendingWeakDerefs demo_thread = []" "mPendingStrongDerefs demo_thread = []"
  "ie_err demo_ipc_env = linux_errs" "ie_uapi demo_ipc_env = le_uapi"
  by (simp_all add: demo_thread_def new_IPCThreadState_def clearCaller_def demo_ipc_env_def)

section \<open>Calls\<close>

lemma demo_transact:
  "case transact 2 demo_ipc_env 5 1 empty_parcel (Some empty_parcel) 0 demo_thread of
     Some (Ret (err, _, st)) \<Rightarrow> err = DEAD_OBJECT linux_errs | _ \<Rightarrow> False"
  by code_simp

theorem transact_fuel_irrelevant_witness:
  "\<exists>r. transact 2 demo_ipc_env 5 1 empty_parcel (Some empty_parcel) 0 demo_thread = Some r \<and>
     transact 50 demo_ipc_env 5 1 empty_parcel (Some empty_parcel) 0 demo_thread = Some r"
proof -
  obtain r where r: "transact 2 demo_ipc_env 5 1 empty_parcel (Some empty_parcel) 0 demo_thread = Some r"
    using demo_transact by (auto split: option.splits)
  from transact_fuel_irrelevant [OF r, of 50] r show ?thesis by simp
qed

lemma demo_in_order: "driver_in_order demo_ipc_env user"
  by (simp add: driver_in_order_def demo_ipc_env_def)

lemma demo_healthy: "healthy demo_ipc_env (\<lambda>l. l)"
  using linux_errs_ok by (simp add: healthy_def demo_ipc_env_def)

definition demo_tr :: txn where
  "demo_tr = (le_txn_of [])\<lparr>t_target := 8, t_flags := 1, t_buffer := 0x40\<rparr>"



theorem transaction_restores_identity_witness:
  "\<exists>res st'. executeCommand 1 demo_ipc_env (BR_TRANSACTION (Some demo_tr)) demo_thread = ret (res, st') \<and>
     mCallingUid st' = 1000 \<and> last (mOut st') = BC_FREE_BUFFER 0x40"
proof -
  have "case executeCommand 1 demo_ipc_env (BR_TRANSACTION (Some demo_tr)) demo_thread of
      Some (Ret _) \<Rightarrow> True | _ \<Rightarrow> False"
    by code_simp
  then obtain res st' where e: "executeCommand 1 demo_ipc_env (BR_TRANSACTION (Some demo_tr)) demo_thread = ret (res, st')"
    by (auto split: option.splits cres.splits prod.splits)
  from transaction_restores_identity [OF e] have "identity st' = identity demo_thread"
    "last (mOut st') = BC_FREE_BUFFER (t_buffer demo_tr)" by simp_all
  with e show ?thesis
    by (simp add: identity_def demo_tr_def demo_thread_def new_IPCThreadState_def clearCaller_def demo_ipc_env_def)
qed

definition demo_queued :: "demo_world ipc" where
  "demo_queued = demo_thread\<lparr>mOut := [BC_ACQUIRE 1, BC_RELEASE 2]\<rparr>"

lemma demo_talk: "talkWithDriver 1 demo_ipc_env True demo_queued =
  ret (0, demo_queued\<lparr>mOut := [], mIn := [BR_TRANSACTION_COMPLETE, BR_DEAD_REPLY],
    world := demo_world\<lparr>user := [BC_ACQUIRE 1, BC_RELEASE 2]\<rparr>\<rparr>)"
  by (simp add: talkWithDriver_eq pending_out_def demo_queued_def)
    (simp add: demo_ipc_env_def linux_errs_def demo_world_def demo_thread_def new_IPCThreadState_def clearCaller_def Let_def)

theorem commands_in_order_witness:
  "\<exists>st'. talkWithDriver 1 demo_ipc_env True demo_queued = ret (0, st') \<and>
     user (world st') @ mOut st' = [BC_ACQUIRE 1, BC_RELEASE 2]"
  using commands_in_order [OF demo_in_order demo_talk] demo_talk
  by (auto simp: demo_queued_def demo_world_def)

theorem unread_input_kept_witness:
  "talkWithDriver 1 demo_ipc_env True (demo_thread\<lparr>mIn := [BR_NOOP]\<rparr>) = ret (0, demo_thread\<lparr>mIn := [BR_NOOP]\<rparr>)"
proof -
  have t: "talkWithDriver 1 demo_ipc_env True (demo_thread\<lparr>mIn := [BR_NOOP]\<rparr>) = ret (0, demo_thread\<lparr>mIn := [BR_NOOP]\<rparr>)"
    by (simp add: talkWithDriver_eq pending_out_def)
  with unread_input_kept [OF demo_in_order t] show ?thesis by simp
qed

theorem transact_bad_parcel_witness:
  "transact 0 demo_ipc_env 5 1 (empty_parcel\<lparr>p_err := -7\<rparr>) None 0 demo_thread =
     ret (-7, None, demo_thread\<lparr>mLastError := -7\<rparr>)"
  using transact_bad_parcel [of "empty_parcel\<lparr>p_err := -7\<rparr>" 0 demo_ipc_env 5 1 None 0 demo_thread] by simp

theorem waitForResponse_outcome_witness:
  "\<exists>st'. waitForResponse 2 demo_ipc_env (Some empty_parcel) None
      (demo_thread\<lparr>mIn := [BR_TRANSACTION_COMPLETE, BR_DEAD_REPLY]\<rparr>) =
    ret (-32, Some (empty_parcel\<lparr>p_err := -32\<rparr>), None, st')"
proof -
  have r: "reading ([BR_TRANSACTION_COMPLETE] @ BR_DEAD_REPLY # [])
      (demo_thread\<lparr>mIn := [BR_TRANSACTION_COMPLETE, BR_DEAD_REPLY]\<rparr>)"
    by (simp add: reading_def)
  show ?thesis
    using waitForResponse_outcome [OF _ r, of demo_ipc_env empty_parcel] linux_errs_ok
    by (simp add: Let_def linux_errs_def eval_nat_numeral)
qed

theorem status_travels_witness:
  "\<exists>client'. waitForResponse 1 demo_ipc_env (Some empty_parcel) None
      (demo_thread\<lparr>mIn := [BR_REPLY (Some (demo_tr\<lparr>t_flags := 8\<rparr>))]\<rparr>) =
    ret (-5, Some (empty_parcel\<lparr>p_err := -5\<rparr>), None, client') \<and>
    mOut client' = [BC_FREE_BUFFER 0x40]"
proof -
  let ?p = "empty_parcel\<lparr>p_err := -5\<rparr>" and ?tr = "demo_tr\<lparr>t_flags := 8\<rparr>"
  let ?c = "demo_thread\<lparr>mIn := [BR_REPLY (Some ?tr)]\<rparr>"
  have sf: "tf_status_code (ie_uapi demo_ipc_env) = 8" by (simp add: le_uapi_def)
  have p: "p_err ?p = -5" "(-5 :: int) \<noteq> 0" "tf_status_code (ie_uapi demo_ipc_env) \<noteq> 0" "errs_ok (ie_err demo_ipc_env)"
    using sf linux_errs_ok by simp_all
  obtain o_txn where o: "snd (writeTransactionData demo_ipc_env BC_REPLY 0 (-1) 0 ?p True demo_thread)
      = write_cmd (BC_REPLY o_txn) demo_thread"
    and all: "\<forall>n client tr cmds p. reading (BR_REPLY (Some tr) # cmds) client \<and> t_flags tr = ot_flags o_txn \<and>
         ie_status_at demo_ipc_env (world client) (t_buffer tr) = -5 \<longrightarrow>
         (\<exists>client'. waitForResponse (Suc n) demo_ipc_env (Some p) None client = ret (-5, Some (p\<lparr>p_err := -5\<rparr>), None, client') \<and>
            mOut client' = mOut client @ [BC_FREE_BUFFER (t_buffer tr)])"
    using status_travels [OF p, of demo_thread] by (elim exE conjE) (rule that)
  have "ot_flags o_txn = 8"
    using arg_cong [OF o, of mOut] sf by (auto simp: writeTransactionData_def write_cmd_def)
  moreover have "reading [BR_REPLY (Some ?tr)] ?c" by (simp add: reading_def)
  moreover have "ie_status_at demo_ipc_env (world ?c) (t_buffer ?tr) = -5" by (simp add: demo_ipc_env_def)
  ultimately show ?thesis
    using all [rule_format, of ?tr "[]" ?c 0 empty_parcel] by (simp add: demo_tr_def)
qed

section \<open>Deferred references, the pool, shutdown\<close>

theorem pending_derefs_run_witness:
  "processPendingDerefs demo_ipc_env (demo_thread\<lparr>mPendingWeakDerefs := [1, 2], mPendingStrongDerefs := [3]\<rparr>) =
     ret demo_thread"
proof -
  have "fold (\<lambda>x st. st) xs st = st" for xs :: "u64 list" and st :: "demo_world ipc" by (induction xs) simp_all
  moreover have "demo_thread\<lparr>mPendingWeakDerefs := [], mPendingStrongDerefs := []\<rparr> = demo_thread"
    by (simp add: demo_thread_def new_IPCThreadState_def clearCaller_def)
  moreover have "demo_thread\<lparr>mPendingStrongDerefs := [], mPendingWeakDerefs := []\<rparr> = demo_thread"
    by (simp add: demo_thread_def new_IPCThreadState_def clearCaller_def)
  moreover have "ie_dec_weak demo_ipc_env x st = ret st" "ie_dec_strong demo_ipc_env x st = ret st" for x st
    by (simp_all add: demo_ipc_env_def)
  ultimately show ?thesis
    using pending_derefs_run [of demo_ipc_env "\<lambda>x st. st" "\<lambda>x st. st"
        "demo_thread\<lparr>mPendingWeakDerefs := [1, 2], mPendingStrongDerefs := [3]\<rparr>"]
    by (simp add: Let_def)
qed

definition demo_late :: "demo_world ipc_env" where
  \<comment> \<open>releasing a reference makes a call during which another one is deferred\<close>
  "demo_late = demo_ipc_env\<lparr>ie_dec_weak := (\<lambda>x st. ret (st\<lparr>mPendingWeakDerefs := mPendingWeakDerefs st @ [9]\<rparr>))\<rparr>"

theorem pending_deref_lost_witness:
  "\<exists>st'. processPendingDerefs demo_late (demo_thread\<lparr>mPendingWeakDerefs := [1]\<rparr>) = ret st' \<and>
     mPendingWeakDerefs st' = []"
  using pending_deref_lost [of "demo_thread\<lparr>mPendingWeakDerefs := [1]\<rparr>" 1 demo_late
      "demo_thread\<lparr>mPendingWeakDerefs := [1, 9]\<rparr>" 9]
  by (simp add: demo_late_def)

definition demo_failing :: "int \<Rightarrow> demo_world ipc_env" where
  \<comment> \<open>every ioctl fails with the same error\<close>
  "demo_failing e = demo_ipc_env\<lparr>ie_ioctl :=
     (\<lambda>w cmds c rd. \<lparr>io_errno = e, io_consumed = 0, io_read = [], io_fd = 3, io_world = w\<rparr>)\<rparr>"

lemma demo_failing_turn:
  "e \<in> {5, 111} \<Longrightarrow> pool_turns 1 (demo_failing e) demo_thread ([] @ [-e]) demo_thread"
proof -
  assume e: "e \<in> {5, 111}"
  have "processPendingDerefs (demo_failing e) demo_thread = ret demo_thread"
    by (simp add: processPendingDerefs_def)
  moreover have "getAndExecuteCommand 1 (demo_failing e) demo_thread = ret (-e, demo_thread)"
    using e by (auto simp: getAndExecuteCommand_def talkWithDriver_def demo_failing_def Let_def linux_errs_def
        demo_thread_def new_IPCThreadState_def clearCaller_def)
  ultimately show ?thesis by (auto intro: pool_turns.intros)
qed

theorem pool_thread_exit_witness:
  "pool_loop 1 1 (demo_failing 111) True demo_thread = ret (-111, demo_thread) \<and>
   pool_loop 1 1 (demo_failing 5) True demo_thread = Some Abort"
proof -
  have K: "errs_ok (ie_err (demo_failing e))" and k: "ie_err (demo_failing e) = linux_errs" for e
    using linux_errs_ok by (simp_all add: demo_failing_def)
  have "leaves linux_errs True (-111)" "breaks linux_errs (-5)"
    by (simp_all add: leaves_def breaks_def linux_errs_def)
  then show ?thesis
    using pool_thread_exit [OF K, of 1 1 111 True demo_thread "-111" demo_thread] demo_failing_turn [of 111]
      pool_thread_exit [OF K, of 1 1 5 True demo_thread "-5" demo_thread] demo_failing_turn [of 5]
    unfolding k by force
qed

section \<open>Proxies\<close>

definition demo_px_env :: "bc list px_env" where
  "demo_px_env = \<lparr>pe_promote = (\<lambda>r st. (True, st)), pe_binderDied = (\<lambda>r a. ret),
     pe_cleanup = (\<lambda>f k ob c. ret), pe_incWeak = (\<lambda>a st. st), pe_can_grow = (\<lambda>n. True), pe_new_vector = True,
     pe_vector_add = (\<lambda>n. 0), pe_readString16 = (\<lambda>p. []), pe_readInt32 = (\<lambda>p. 0), pe_dataSize = (\<lambda>p. 0),
     pe_writeFileDescriptor = (\<lambda>fd p. p), pe_writeInt32 = (\<lambda>v p. p), pe_writeString16 = (\<lambda>s p. p),
     INTERFACE_TRANSACTION = 1, PING_TRANSACTION = 2, DUMP_TRANSACTION = 3\<rparr>"

theorem attached_objects_witness:
  "om_find 5 (om_attach 5 e' (om_attach 5 e [])) = Some (en_object e)"
proof -
  have "om_wf []" "om_find 5 [] = None" "(6 :: u64) \<noteq> 5" by (simp_all add: om_wf_def om_find_def)
  from attached_objects [OF this] show ?thesis by blast
qed

lemma demo_leaves_links: "leaves_links demo_px_env lg"
  by (simp add: leaves_links_def demo_px_env_def post_ret same_links_refl)

theorem death_links_balanced_witness:
  "\<exists>st'. linkToDeath 1 demo_ipc_env demo_px_env 0x80 (Some 4) 0 0 (new_BpBinder 0x80 5 demo_thread) = ret (0, st') \<and>
     map_option mObituaries (proxy 0x80 st') = Some (Some [\<lparr>ob_recipient = Some 4, ob_cookie = 0, ob_flags = 0\<rparr>]) \<and>
     requests 5 0x80 (sent (\<lambda>l. l) st') = Suc (clears 5 0x80 (sent (\<lambda>l. l) st'))"
proof -
  let ?s = "new_BpBinder 0x80 5 demo_thread"
  have "case linkToDeath 1 demo_ipc_env demo_px_env 0x80 (Some 4) 0 0 ?s of
      Some (Ret (r, st)) \<Rightarrow> r = 0 \<and> map_option mObituaries (proxy 0x80 st) =
        Some (Some [\<lparr>ob_recipient = Some 4, ob_cookie = 0, ob_flags = 0\<rparr>]) | _ \<Rightarrow> False"
    by code_simp
  then obtain st' where l: "linkToDeath 1 demo_ipc_env demo_px_env 0x80 (Some 4) 0 0 ?s = ret (0, st')"
    and m: "map_option mObituaries (proxy 0x80 st') = Some (Some [\<lparr>ob_recipient = Some 4, ob_cookie = 0, ob_flags = 0\<rparr>])"
    by (auto split: option.splits cres.splits prod.splits)
  have "requests 5 0x80 (sent (\<lambda>l. l) demo_thread) = 0" "clears 5 0x80 (sent (\<lambda>l. l) demo_thread) = 0"
    by (simp_all add: sent_def demo_world_def)
  from death_links_balanced [OF link_life.link [OF link_life.born l] demo_healthy demo_leaves_links this]
  have "requests 5 0x80 (sent (\<lambda>l. l) st') = Suc (clears 5 0x80 (sent (\<lambda>l. l) st'))"
    using m by (auto simp: linked_def split: option.splits)
  with l m show ?thesis by blast
qed

definition demo_proxy :: "bool \<Rightarrow> obituary list option \<Rightarrow> demo_world ipc" where
  "demo_proxy alive obs = set_proxy 0x80 (Some \<lparr>mHandle = 5, mAlive = alive, mObitsSent = \<not> alive,
     mObituaries = obs, mObjects = [], mDescriptorCache = []\<rparr>) demo_thread"

theorem death_is_final_witness:
  "bp_transact 0 demo_ipc_env 0x80 1 empty_parcel None 0 (demo_proxy False None) = ret (-32, None, demo_proxy False None)"
proof -
  have "proxy 0x80 (demo_proxy False None) = Some \<lparr>mHandle = 5, mAlive = False, mObitsSent = True,
     mObituaries = None, mObjects = [], mDescriptorCache = []\<rparr>" by (simp add: demo_proxy_def)
  from death_is_final [OF this, of 0 demo_ipc_env 1 empty_parcel None 0] show ?thesis by (simp add: linux_errs_def)
qed

theorem unlink_removes_first_witness:
  "\<exists>st'. unlinkToDeath 1 demo_ipc_env 0x80 (Some 4) 0 0
      (demo_proxy True (Some [\<lparr>ob_recipient = Some 4, ob_cookie = 0, ob_flags = 0\<rparr>])) = ret (0, Some 4, st') \<and>
     sent (\<lambda>l. l) st' = [BC_CLEAR_DEATH_NOTIFICATION 5 0x80]"
proof -
  let ?ob = "\<lparr>ob_recipient = Some 4, ob_cookie = 0, ob_flags = 0\<rparr> :: obituary"
  let ?s = "demo_proxy True (Some [?ob])"
  have "case unlinkToDeath 1 demo_ipc_env 0x80 (Some 4) 0 0 ?s of Some (Ret (r, out, st)) \<Rightarrow> r = 0 \<and> out = Some 4 | _ \<Rightarrow> False"
    by code_simp
  then obtain st' where u: "unlinkToDeath 1 demo_ipc_env 0x80 (Some 4) 0 0 ?s = ret (0, Some 4, st')"
    by (auto split: option.splits cres.splits prod.splits)
  let ?b = "\<lparr>mHandle = 5, mAlive = True, mObitsSent = False, mObituaries = Some [?ob],
      mObjects = [], mDescriptorCache = []\<rparr> :: bp"
  have "proxy 0x80 ?s = Some ?b" "\<not> mObitsSent ?b" "mObituaries ?b = Some [?ob]" by (simp_all add: demo_proxy_def)
  from unlink_removes_first [OF demo_healthy this u]
  have "sent (\<lambda>l. l) st' = sent (\<lambda>l. l) ?s @ [BC_CLEAR_DEATH_NOTIFICATION 5 0x80]"
    by (auto simp: Cons_eq_append_conv linux_errs_def)
  moreover have "sent (\<lambda>l. l) ?s = []" by (simp add: demo_proxy_def sent_def set_proxy_def demo_world_def)
  ultimately show ?thesis using u by simp
qed

section \<open>The process\<close>

definition demo_ps_env :: "bc list ps_env" where
  "demo_ps_env = \<lparr>pp_attemptIncWeak = (\<lambda>r st. (True, st)), pp_decWeak = (\<lambda>r. ret), pp_new = (\<lambda>st. Some 0x80),
     pp_weakRefs = (\<lambda>b. 0x88), pp_assign_strong = (\<lambda>b. ret), pp_assign_weak = (\<lambda>b. ret), pp_force_set = (\<lambda>b. ret),
     pp_set_context_mgr = (\<lambda>st. (0, st)), pp_set_max_threads = (\<lambda>n st. (0, st)),
     pp_context_request = (\<lambda>name caller. empty_parcel), pp_readStrongBinder = (\<lambda>p st. (None, st))\<rparr>"

theorem strong_proxy_for_handle_witness:
  "\<exists>b st'. getStrongProxyForHandle 0 demo_ipc_env demo_px_env demo_ps_env 5 demo_thread = ret (Some b, st') \<and>
     table (proc_st st') 5 = Some b"
proof -
  have "mHandleToObject (proc_st demo_thread) = []" by (simp add: demo_world_def demo_proc_def)
  then obtain b st' where "getStrongProxyForHandle 0 demo_ipc_env demo_px_env demo_ps_env 5 demo_thread = ret (Some b, st')"
    "table (proc_st st') = (table (proc_st demo_thread))(5 \<mapsto> b)"
    using strong_proxy_for_handle [where handle = 5 and X = demo_px_env and P = demo_ps_env and st = demo_thread
        and fresh = "0x80" and n = 0 and E = demo_ipc_env]
    by (auto simp: demo_px_env_def demo_ps_env_def)
  then show ?thesis by simp
qed

theorem dead_context_manager_witness:
  "\<exists>st'. getStrongProxyForHandle 2 demo_ipc_env demo_px_env demo_ps_env 0 demo_thread = ret (None, st')"
proof -
  have l: "case lookupHandleLocked (pe_can_grow demo_px_env) 0 (proc_st demo_thread) of
      (Some i, p) \<Rightarrow> he_binder (mHandleToObject p ! i) = None | _ \<Rightarrow> False"
    by (simp add: lookupHandleLocked_def demo_px_env_def demo_world_def demo_proc_def)
  then obtain i p where p: "lookupHandleLocked (pe_can_grow demo_px_env) 0 (proc_st demo_thread) = (Some i, p)"
    "he_binder (mHandleToObject p ! i) = None"
    by (auto split: option.splits prod.splits)
  have "case transact 2 demo_ipc_env 0 (PING_TRANSACTION demo_px_env) empty_parcel None 0
      (upd_proc (\<lambda>_. snd (lookupHandleLocked (pe_can_grow demo_px_env) 0 (proc_st demo_thread))) demo_thread) of
     Some (Ret (err, _, st)) \<Rightarrow> err = DEAD_OBJECT (ie_err demo_ipc_env) | _ \<Rightarrow> False"
    by code_simp
  then obtain reply st' where "transact 2 demo_ipc_env 0 (PING_TRANSACTION demo_px_env) empty_parcel None 0
      (upd_proc (\<lambda>_. p) demo_thread) = ret (DEAD_OBJECT (ie_err demo_ipc_env), reply, st')"
    using p(1) by (auto split: option.splits cres.splits prod.splits)
  from dead_context_manager [OF p this] show ?thesis by blast
qed

theorem pool_threads_distinct_witness:
  "distinct (map fst (pool_threads (spawnPooledThread False (startThreadPool demo_proc))))"
proof -
  have "pool_life demo_proc 1 (startThreadPool demo_proc)"
    using pool_life.started [OF pool_life.created [of demo_proc]] by (simp add: demo_proc_def)
  moreover have "mThreadPoolStarted (startThreadPool demo_proc)"
    by (simp add: startThreadPool_def spawnPooledThread_def makeBinderThreadName_def demo_proc_def)
  ultimately have "pool_life demo_proc (Suc 1) (spawnPooledThread False (startThreadPool demo_proc))"
    using pool_life.spawned [of demo_proc 1 "startThreadPool demo_proc"] by simp
  from pool_threads_distinct [OF this] show ?thesis by (simp add: demo_proc_def)
qed

end
