(* ===== verification/Drv_Tree.thy ===== *)
theory Drv_Tree
  imports Binder_Prelude "HOL-Library.Tree"
begin

text \<open>
  The red-black trees of the kernel as the driver uses them. The driver walks a tree itself and
  links a new entry at the leaf it reached; the rebalancing, \<open>rb_insert_color\<close> and
  \<open>rb_erase\<close> of \<open>linux/rbtree.h\<close>, is not part of the repository and is a parameter that
  keeps the order of the entries. Entries are addresses; their keys are read through the entry,
  which may fail.
\<close>

section \<open>Rebalancing as a parameter\<close>

record rb_env =
  rb_color :: "nat tree \<Rightarrow> nat tree"
  rb_erase :: "nat \<Rightarrow> nat tree \<Rightarrow> nat tree"

definition rb_ok :: "rb_env \<Rightarrow> bool" where
  "rb_ok R \<longleftrightarrow> (\<forall>t. inorder (rb_color R t) = inorder t) \<and>
     (\<forall>x t. distinct (inorder t) \<and> x \<in> set (inorder t) \<longrightarrow>
        inorder (rb_erase R x t) = remove1 x (inorder t))"

lemma rb_okD:
  assumes "rb_ok R"
  shows "inorder (rb_color R t) = inorder t"
    "distinct (inorder t) \<Longrightarrow> x \<in> set (inorder t) \<Longrightarrow> inorder (rb_erase R x t) = remove1 x (inorder t)"
  using assms by (auto simp: rb_ok_def)

text \<open>An instance without balance, for concrete inputs.\<close>

fun list_tree :: "nat list \<Rightarrow> nat tree" where
  "list_tree [] = Leaf"
| "list_tree (x # xs) = Node Leaf x (list_tree xs)"

definition plain_rb :: rb_env where
  "plain_rb = \<lparr>rb_color = (\<lambda>t. t), rb_erase = (\<lambda>x t. list_tree (remove1 x (inorder t)))\<rparr>"

lemma inorder_list_tree [simp]: "inorder (list_tree xs) = xs"
  by (induction xs) simp_all

lemma plain_rb_ok: "rb_ok plain_rb"
  by (simp add: rb_ok_def plain_rb_def)

section \<open>Walking a tree\<close>

datatype dir = Go_left | Go_right | Here

fun tree_search :: "(nat \<Rightarrow> dir cres) \<Rightarrow> nat tree \<Rightarrow> nat option cres" where
  \<comment> \<open>\<open>while (n)\<close>: left, right or found\<close>
  "tree_search f Leaf = Ret None"
| "tree_search f (Node l x r) = cbind (f x) (\<lambda>d.
     case d of Go_left \<Rightarrow> tree_search f l | Go_right \<Rightarrow> tree_search f r | Here \<Rightarrow> Ret (Some x))"

fun tree_link :: "(nat \<Rightarrow> dir cres) \<Rightarrow> nat \<Rightarrow> nat tree \<Rightarrow> (nat + nat tree) cres" where
  \<comment> \<open>\<open>while (*p)\<close> and \<open>rb_link_node\<close>: an equal entry on the way, or the tree with the
    new entry as a leaf\<close>
  "tree_link f n Leaf = Ret (Inr (Node Leaf n Leaf))"
| "tree_link f n (Node l x r) = cbind (f x) (\<lambda>d. case d of
     Here \<Rightarrow> Ret (Inl x)
   | Go_left \<Rightarrow> cbind (tree_link f n l) (\<lambda>l'. Ret (case l' of Inl y \<Rightarrow> Inl y | Inr l' \<Rightarrow> Inr (Node l' x r)))
   | Go_right \<Rightarrow> cbind (tree_link f n r) (\<lambda>r'. Ret (case r' of Inl y \<Rightarrow> Inl y | Inr r' \<Rightarrow> Inr (Node l x r'))))"

definition cmp :: "'k::linorder \<Rightarrow> 'k \<Rightarrow> dir" where
  "cmp k x = (if k < x then Go_left else if k > x then Go_right else Here)"

lemma tree_link_set:
  "tree_link f n t = Ret (Inr t') \<Longrightarrow> n \<notin> set (inorder t) \<Longrightarrow> distinct (inorder t) \<Longrightarrow>
    distinct (inorder t') \<and> set (inorder t') = insert n (set (inorder t))"
proof (induction t arbitrary: t')
  case (Node l x r)
  obtain d where d: "f x = Ret d" using Node.prems(1) by (auto simp: cbind_Ret_iff)
  consider l' where "tree_link f n l = Ret (Inr l')" "t' = Node l' x r"
    | r' where "tree_link f n r = Ret (Inr r')" "t' = Node l x r'"
    using Node.prems(1) d
    by (cases d; cases "tree_link f n l"; cases "tree_link f n r") (simp_all split: sum.splits)
  then show ?case
  proof cases
    case 1
    then show ?thesis using Node.IH(1) [OF 1(1)] Node.prems(2,3) by auto
  next
    case 2
    then show ?thesis using Node.IH(2) [OF 2(1)] Node.prems(2,3) by auto
  qed
qed simp

lemma find_append: "find P (xs @ ys) = (case find P xs of None \<Rightarrow> find P ys | Some x \<Rightarrow> Some x)"
  by (induction xs) auto

lemma find_Cons_None: "\<forall>y \<in> set xs. \<not> P y \<Longrightarrow> find P xs = None"
  by (induction xs) auto

text \<open>On a tree that is ordered by its keys a walk finds what a scan of the entries finds.\<close>

lemma tree_search_eq:
  fixes key :: "nat \<Rightarrow> 'k::linorder"
  assumes "\<And>x. x \<in> set (inorder t) \<Longrightarrow> f x = Ret (cmp k (key x))" and "sorted_wrt (<) (map key (inorder t))"
  shows "tree_search f t = Ret (find (\<lambda>x. key x = k) (inorder t))"
  using assms
proof (induction t)
  case (Node l x r)
  have s: "sorted_wrt (<) (map key (inorder l))" "sorted_wrt (<) (map key (inorder r))"
    "\<forall>y \<in> set (inorder l). key y < key x" "\<forall>y \<in> set (inorder r). key x < key y"
    using Node.prems(2) by (auto simp: sorted_wrt_append)
  have f: "f x = Ret (cmp k (key x))" using Node.prems(1) by simp
  have l: "tree_search f l = Ret (find (\<lambda>x. key x = k) (inorder l))"
    by (rule Node.IH(1)) (use Node.prems(1) s in auto)
  have r: "tree_search f r = Ret (find (\<lambda>x. key x = k) (inorder r))"
    by (rule Node.IH(2)) (use Node.prems(1) s in auto)
  have "k < key x \<Longrightarrow> find (\<lambda>x. key x = k) (inorder r) = None"
    using s(4) by (intro find_Cons_None) auto
  moreover have "k \<ge> key x \<Longrightarrow> find (\<lambda>x. key x = k) (inorder l) = None"
    using s(3) by (intro find_Cons_None) auto
  ultimately show ?case
    using f l r by (auto simp: cmp_def find_append split: option.split)
qed simp

lemma tree_link_found:
  fixes key :: "nat \<Rightarrow> 'k::linorder"
  assumes "\<And>x. x \<in> set (inorder t) \<Longrightarrow> f x = Ret (cmp k (key x))" and "sorted_wrt (<) (map key (inorder t))"
    and "find (\<lambda>x. key x = k) (inorder t) = Some y"
  shows "tree_link f n t = Ret (Inl y)"
  using assms
proof (induction t)
  case (Node l x r)
  have s: "sorted_wrt (<) (map key (inorder l))" "sorted_wrt (<) (map key (inorder r))"
    "\<forall>y \<in> set (inorder l). key y < key x" "\<forall>y \<in> set (inorder r). key x < key y"
    using Node.prems(2) by (auto simp: sorted_wrt_append)
  have f: "f x = Ret (cmp k (key x))" using Node.prems(1) by simp
  have r: "k < key x \<Longrightarrow> find (\<lambda>x. key x = k) (inorder r) = None"
    using s(4) by (intro find_Cons_None) auto
  have l: "k \<ge> key x \<Longrightarrow> find (\<lambda>x. key x = k) (inorder l) = None"
    using s(3) by (intro find_Cons_None) auto
  consider "k < key x" | "k > key x" | "k = key x" by fastforce
  then show ?case
  proof cases
    case 1
    then have "find (\<lambda>x. key x = k) (inorder l) = Some y"
      using Node.prems(3) r by (auto simp: find_append split: option.splits if_splits)
    then have "tree_link f n l = Ret (Inl y)"
      by (intro Node.IH(1)) (use Node.prems(1) s in auto)
    then show ?thesis using f 1 by (simp add: cmp_def)
  next
    case 2
    then have "find (\<lambda>x. key x = k) (inorder r) = Some y"
      using Node.prems(3) l by (auto simp: find_append split: option.splits if_splits)
    then have "tree_link f n r = Ret (Inl y)"
      by (intro Node.IH(2)) (use Node.prems(1) s in auto)
    then show ?thesis using f 2 by (simp add: cmp_def order.strict_implies_not_eq less_not_sym)
  next
    case 3
    then have "y = x" using Node.prems(3) l by (auto simp: find_append split: option.splits if_splits)
    then show ?thesis using f 3 by (simp add: cmp_def)
  qed
qed simp

text \<open>
  Where no entry stops the walk the new one is linked behind those that send it to the right,
  provided these come first.
\<close>

lemma takeWhile_stop:
  "\<not> P x \<Longrightarrow> takeWhile P (xs @ x # ys) = takeWhile P xs"
  "\<not> P x \<Longrightarrow> dropWhile P (xs @ x # ys) = dropWhile P xs @ x # ys"
  by (induction xs) auto

lemma tree_link_pos:
  assumes "\<And>x. x \<in> set (inorder t) \<Longrightarrow> f x = Ret (if P x then Go_right else Go_left)"
    and "sorted_wrt (\<lambda>x y. P y \<longrightarrow> P x) (inorder t)"
  shows "\<exists>t'. tree_link f n t = Ret (Inr t') \<and>
    inorder t' = takeWhile P (inorder t) @ n # dropWhile P (inorder t)"
  using assms
proof (induction t)
  case (Node l x r)
  have s: "sorted_wrt (\<lambda>x y. P y \<longrightarrow> P x) (inorder l)" "sorted_wrt (\<lambda>x y. P y \<longrightarrow> P x) (inorder r)"
    "\<forall>y \<in> set (inorder l). P x \<longrightarrow> P y" "\<forall>y \<in> set (inorder r). P y \<longrightarrow> P x"
    using Node.prems(2) by (auto simp: sorted_wrt_append)
  have f: "f x = Ret (if P x then Go_right else Go_left)" using Node.prems(1) by simp
  have fl: "\<And>y. y \<in> set (inorder l) \<Longrightarrow> f y = Ret (if P y then Go_right else Go_left)"
    and fr: "\<And>y. y \<in> set (inorder r) \<Longrightarrow> f y = Ret (if P y then Go_right else Go_left)"
    using Node.prems(1) by simp_all
  show ?case
  proof (cases "P x")
    case True
    obtain r' where "tree_link f n r = Ret (Inr r')" "inorder r' = takeWhile P (inorder r) @ n # dropWhile P (inorder r)"
      using Node.IH(2) [OF fr s(2)] by blast
    moreover have "takeWhile P (inorder l @ x # inorder r) = inorder l @ x # takeWhile P (inorder r)"
      "dropWhile P (inorder l @ x # inorder r) = dropWhile P (inorder r)"
      using True s(3) takeWhile_append2 [of "inorder l" P] dropWhile_append2 [of "inorder l" P] by simp_all
    ultimately show ?thesis using f True by simp
  next
    case False
    obtain l' where "tree_link f n l = Ret (Inr l')" "inorder l' = takeWhile P (inorder l) @ n # dropWhile P (inorder l)"
      using Node.IH(1) [OF fl s(1)] by blast
    then show ?thesis using f takeWhile_stop [of P x] False by simp
  qed
qed simp

lemma find_None_keys: "find (\<lambda>x. key x = k) xs = None \<longleftrightarrow> k \<notin> key ` set xs"
  by (auto simp: find_None_iff)

lemma tree_link_new:
  fixes key :: "nat \<Rightarrow> 'k::linorder"
  assumes f: "\<And>x. x \<in> set (inorder t) \<Longrightarrow> f x = Ret (cmp k (key x))" and s: "sorted_wrt (<) (map key (inorder t))"
    and "k \<notin> key ` set (inorder t)"
  shows "\<exists>t'. tree_link f n t = Ret (Inr t') \<and>
    inorder t' = takeWhile (\<lambda>x. key x < k) (inorder t) @ n # dropWhile (\<lambda>x. key x < k) (inorder t)"
proof (rule tree_link_pos)
  show "f x = Ret (if key x < k then Go_right else Go_left)" if "x \<in> set (inorder t)" for x
    using f [OF that] assms(3) that by (auto simp: cmp_def)
  show "sorted_wrt (\<lambda>x y. key y < k \<longrightarrow> key x < k) (inorder t)"
    using s unfolding sorted_wrt_map by (rule sorted_wrt_mono_rel [rotated]) auto
qed

lemma sorted_insert_pos:
  fixes key :: "nat \<Rightarrow> 'k::linorder"
  assumes "sorted_wrt (<) (map key xs)" and "key n = k" and "k \<notin> key ` set xs"
  shows "sorted_wrt (<) (map key (takeWhile (\<lambda>x. key x < k) xs @ n # dropWhile (\<lambda>x. key x < k) xs))"
  using assms
proof (induction xs)
  case (Cons x xs)
  then show ?case by (auto simp: image_iff dest!: set_takeWhileD set_dropWhileD)
qed simp

lemma set_insert_pos: "set (takeWhile P xs @ n # dropWhile P xs) = insert n (set xs)"
proof -
  have "set (takeWhile P xs) \<union> set (dropWhile P xs) = set xs" by (metis set_append takeWhile_dropWhile_id)
  then show ?thesis by auto
qed

lemma distinct_insert_pos: "distinct xs \<Longrightarrow> n \<notin> set xs \<Longrightarrow> distinct (takeWhile P xs @ n # dropWhile P xs)"
proof -
  assume d: "distinct xs" "n \<notin> set xs"
  have "distinct (takeWhile P xs @ dropWhile P xs)" using d(1) by simp
  then show ?thesis
    using d(2) set_takeWhileD [of n P xs] set_dropWhileD [of n P xs]
    by (auto simp del: takeWhile_dropWhile_id)
qed

end
