(* ===== verification/Drv_Alloc.thy ===== *)
theory Drv_Alloc
  imports Drv_Tree
begin

text \<open>
  The buffer allocator of the kernel driver, \<open>driver/binder.c\<close>: the memory that a process maps
  for incoming transactions is divided into buffers, each a header followed by its data, kept in a
  list by address; free buffers are in a tree by size, allocated ones in a tree by address.
  Physical pages back only what is in use. Addresses are natural numbers; sizes that come from
  user space are 64-bit words. A \<open>BUG_ON\<close> that fires is \<open>Abort\<close>, a pointer to an object
  that does not exist is \<open>Oob\<close>.
\<close>

section \<open>Data\<close>

text \<open>
  \<open>struct binder_buffer\<close>. Its list entry is the position in the list of buffers, its tree node
  the address in one of the two trees; \<open>b_mem\<close> is what was copied to its data. The header has
  80 bytes on a 64-bit kernel and the data follows it.
\<close>

record buf =
  b_addr :: nat
  b_free :: bool
  b_user_free :: bool
  b_async :: bool
  b_debug_id :: nat
  b_txn :: "nat option"
  b_node :: "nat option"
  b_data_size :: u64
  b_offs_size :: u64
  b_mem :: bytes

abbreviation BUF_HDR :: nat where "BUF_HDR \<equiv> 80"
abbreviation PAGE_SIZE :: nat where "PAGE_SIZE \<equiv> 4096"

text \<open>
  The part of \<open>struct binder_proc\<close> that the allocator owns. \<open>al_vma\<close> is the mapping, by
  the address space it belongs to; \<open>al_pages\<close> says which pages are allocated and mapped in the
  kernel, \<open>al_mapped\<close> which are mapped in the process.
\<close>

record alloc =
  al_buffer :: nat
  al_size :: nat
  al_offset :: u64
  al_vma :: "nat option"
  al_bufs :: "buf list"
  al_free :: "nat tree"
  al_allocated :: "nat tree"
  al_async :: u64
  al_pages :: "bool list"
  al_mapped :: "bool list"

text \<open>
  The memory management around the allocator: the address space of the task, if it still has one,
  what fails on a page, and what the memory under a new header holds before it is written.
\<close>

datatype page_fault = P_ok | P_no_page | P_no_kernel_map | P_no_user_map

record page_env =
  pg_mm :: "nat option"
  pg_fault :: "nat \<Rightarrow> page_fault"
  pg_stale :: "nat \<Rightarrow> buf"

section \<open>Arithmetic\<close>

definition page_mask :: "nat \<Rightarrow> nat" where
  "page_mask a = a div PAGE_SIZE * PAGE_SIZE"

definition page_align :: "nat \<Rightarrow> nat" where
  "page_align a = (a + (PAGE_SIZE - 1)) div PAGE_SIZE * PAGE_SIZE"

definition align8 :: "u64 \<Rightarrow> u64" where
  \<comment> \<open>\<open>ALIGN(x, sizeof(void *))\<close>\<close>
  "align8 x = (x + 7) AND NOT 7"

section \<open>The list of buffers\<close>

definition buf_at :: "nat \<Rightarrow> buf list \<Rightarrow> buf option" where
  "buf_at a bs = find (\<lambda>b. b_addr b = a) bs"

fun next_buf :: "nat \<Rightarrow> buf list \<Rightarrow> buf option" where
  "next_buf a (b # c # bs) = (if b_addr b = a then Some c else next_buf a (c # bs))"
| "next_buf a _ = None"

fun prev_buf :: "nat \<Rightarrow> buf list \<Rightarrow> buf option" where
  "prev_buf a (b # c # bs) = (if b_addr c = a then Some b else prev_buf a (c # bs))"
| "prev_buf a _ = None"

definition upd_buf :: "nat \<Rightarrow> (buf \<Rightarrow> buf) \<Rightarrow> buf list \<Rightarrow> buf list" where
  "upd_buf a f bs = map (\<lambda>b. if b_addr b = a then f b else b) bs"

fun list_add_after :: "nat \<Rightarrow> buf \<Rightarrow> buf list \<Rightarrow> buf list" where
  "list_add_after a n [] = []"
| "list_add_after a n (b # bs) = (if b_addr b = a then b # n # bs else b # list_add_after a n bs)"

definition list_del_buf :: "nat \<Rightarrow> buf list \<Rightarrow> buf list" where
  "list_del_buf a bs = filter (\<lambda>b. b_addr b \<noteq> a) bs"

definition binder_buffer_size :: "alloc \<Rightarrow> nat \<Rightarrow> nat" where
  "binder_buffer_size A a =
     (case next_buf a (al_bufs A) of
        None \<Rightarrow> al_buffer A + al_size A - (a + BUF_HDR)
      | Some next \<Rightarrow> b_addr next - (a + BUF_HDR))"

section \<open>The two trees\<close>

definition binder_insert_free_buffer :: "rb_env \<Rightarrow> nat \<Rightarrow> alloc \<Rightarrow> alloc cres" where
  "binder_insert_free_buffer R a A =
     cbind (of_mem (buf_at a (al_bufs A))) (\<lambda>new_buffer.
       if \<not> b_free new_buffer then Abort
       else cbind (tree_link (\<lambda>x. cbind (of_mem (buf_at x (al_bufs A))) (\<lambda>buffer.
               if \<not> b_free buffer then Abort
               else Ret (if binder_buffer_size A a < binder_buffer_size A x then Go_left else Go_right)))
             a (al_free A)) (\<lambda>r.
           case r of Inl _ \<Rightarrow> Ret A | Inr t \<Rightarrow> Ret (A\<lparr>al_free := rb_color R t\<rparr>)))"

definition binder_insert_allocated_buffer :: "rb_env \<Rightarrow> nat \<Rightarrow> alloc \<Rightarrow> alloc cres" where
  "binder_insert_allocated_buffer R a A =
     cbind (of_mem (buf_at a (al_bufs A))) (\<lambda>new_buffer.
       if b_free new_buffer then Abort
       else cbind (tree_link (\<lambda>x. cbind (of_mem (buf_at x (al_bufs A))) (\<lambda>buffer.
               if b_free buffer then Abort else Ret (cmp a x))) a (al_allocated A)) (\<lambda>r.
           case r of Inl _ \<Rightarrow> Abort | Inr t \<Rightarrow> Ret (A\<lparr>al_allocated := rb_color R t\<rparr>)))"

definition binder_buffer_lookup :: "alloc \<Rightarrow> u64 \<Rightarrow> nat option cres" where
  "binder_buffer_lookup A user_ptr =
     (let kern_ptr = unat (user_ptr - al_offset A - of_nat BUF_HDR)
      in tree_search (\<lambda>x. cbind (of_mem (buf_at x (al_bufs A))) (\<lambda>buffer.
           if b_free buffer then Abort else Ret (cmp kern_ptr x))) (al_allocated A))"

section \<open>Pages\<close>

text \<open>The indices of the pages from one page address up to, not including, another.\<close>

definition page_range :: "alloc \<Rightarrow> nat \<Rightarrow> nat \<Rightarrow> nat list" where
  "page_range A start end' =
     map (\<lambda>k. (start + k * PAGE_SIZE - al_buffer A) div PAGE_SIZE) [0 ..< (end' - start + (PAGE_SIZE - 1)) div PAGE_SIZE]"

primrec free_pages :: "bool \<Rightarrow> nat list \<Rightarrow> alloc \<Rightarrow> alloc cres" where
  \<comment> \<open>the loop at \<open>free_range\<close>; the flag says whether there is a mapping to zap\<close>
  "free_pages vma [] A = Ret A"
| "free_pages vma (i # is) A =
     (if i < length (al_pages A) \<and> al_pages A ! i
      then free_pages vma is (A\<lparr>al_pages := (al_pages A)[i := False],
             al_mapped := (if vma then (al_mapped A)[i := False] else al_mapped A)\<rparr>)
      else Oob)"

primrec alloc_pages :: "page_env \<Rightarrow> nat list \<Rightarrow> nat list \<Rightarrow> alloc \<Rightarrow> (bool \<times> alloc) cres" where
  \<comment> \<open>the allocation loop; a failure frees the pages allocated so far, the last one first\<close>
  "alloc_pages P [] done A = Ret (True, A)"
| "alloc_pages P (i # is) done A =
     (if length (al_pages A) \<le> i then Oob
      else if al_pages A ! i then Abort
      else case pg_fault P i of
          P_ok \<Rightarrow> alloc_pages P is (i # done)
            (A\<lparr>al_pages := (al_pages A)[i := True], al_mapped := (al_mapped A)[i := True]\<rparr>)
        | _ \<Rightarrow> cbind (free_pages True done A) (\<lambda>A. Ret (False, A)))"

definition binder_update_page_range ::
    "page_env \<Rightarrow> bool \<Rightarrow> nat \<Rightarrow> nat \<Rightarrow> bool \<Rightarrow> alloc \<Rightarrow> (bool \<times> alloc) cres" where
  \<comment> \<open>success and the new state; the last flag says whether the caller holds the mapping\<close>
  "binder_update_page_range P allocate start end' vma_arg A =
     (if end' \<le> start then Ret (True, A)
      else
        let vma = (vma_arg \<or> (case pg_mm P of None \<Rightarrow> False | Some mm \<Rightarrow> al_vma A = Some mm))
        in if \<not> allocate then
             cbind (free_pages vma (rev (page_range A start end')) A) (\<lambda>A. Ret (False, A))
           else if \<not> vma then Ret (False, A)
           else alloc_pages P (page_range A start end') [] A)"

section \<open>Allocating\<close>

fun best_fit :: "alloc \<Rightarrow> nat \<Rightarrow> nat tree \<Rightarrow> nat option \<Rightarrow> (bool \<times> nat option) cres" where
  \<comment> \<open>the walk of the free tree: whether the fit is exact, and the best fit\<close>
  "best_fit A need Leaf best = Ret (False, best)"
| "best_fit A need (Node l x r) best =
     cbind (of_mem (buf_at x (al_bufs A))) (\<lambda>buffer.
       if \<not> b_free buffer then Abort
       else if need < binder_buffer_size A x then best_fit A need l (Some x)
       else if binder_buffer_size A x < need then best_fit A need r best
       else Ret (True, Some x))"

definition new_buf :: "page_env \<Rightarrow> nat \<Rightarrow> buf" where
  \<comment> \<open>the header behind an allocation that leaves room: only \<open>free\<close> is written\<close>
  "new_buf P a = (pg_stale P a)\<lparr>b_addr := a, b_free := True\<rparr>"

definition buf_need :: "u64 \<Rightarrow> u64 \<Rightarrow> u64" where
  "buf_need data_size offsets_size = align8 data_size + align8 offsets_size"

definition binder_alloc_buf ::
    "rb_env \<Rightarrow> page_env \<Rightarrow> u64 \<Rightarrow> u64 \<Rightarrow> bool \<Rightarrow> alloc \<Rightarrow> (nat option \<times> alloc) cres" where
  "binder_alloc_buf R P data_size offsets_size is_async A =
     (let need = buf_need data_size offsets_size in
      if al_vma A = None then Ret (None, A)
      else if need < data_size \<or> need < offsets_size then Ret (None, A)
      else if is_async \<and> al_async A < need + of_nat BUF_HDR then Ret (None, A)
      else
        cbind (best_fit A (unat need) (al_free A) None) (\<lambda>(exact, best).
          case best of
            None \<Rightarrow> Ret (None, A)
          | Some a \<Rightarrow>
              let buffer_size = binder_buffer_size A a;
                  has_page_addr = page_mask (a + BUF_HDR + buffer_size);
                  buffer_size = (if exact then buffer_size
                    else if unat need + BUF_HDR + 4 \<ge> buffer_size then unat need
                    else unat need + BUF_HDR);
                  end_page_addr = min (page_align (a + BUF_HDR + buffer_size)) has_page_addr
              in cbind (binder_update_page_range P True (page_align (a + BUF_HDR)) end_page_addr False A) (\<lambda>(ok, A).
                 if \<not> ok then Ret (None, A)
                 else cbind (binder_insert_allocated_buffer R a
                     (A\<lparr>al_free := rb_erase R a (al_free A),
                        al_bufs := upd_buf a (\<lambda>b. b\<lparr>b_free := False\<rparr>) (al_bufs A)\<rparr>)) (\<lambda>A.
                   cbind (if buffer_size \<noteq> unat need
                          then let new_buffer = a + BUF_HDR + unat need
                               in binder_insert_free_buffer R new_buffer
                                    (A\<lparr>al_bufs := list_add_after a (new_buf P new_buffer) (al_bufs A)\<rparr>)
                          else Ret A) (\<lambda>A.
                     Ret (Some a, A\<lparr>al_bufs := upd_buf a (\<lambda>b. b\<lparr>b_data_size := data_size,
                            b_offs_size := offsets_size, b_async := is_async\<rparr>) (al_bufs A),
                          al_async := (if is_async then al_async A - (need + of_nat BUF_HDR) else al_async A)\<rparr>))))))"

section \<open>Freeing\<close>

definition buffer_start_page :: "nat \<Rightarrow> nat" where
  "buffer_start_page a = page_mask a"

definition buffer_end_page :: "nat \<Rightarrow> nat" where
  "buffer_end_page a = page_mask (a + BUF_HDR - 1)"

definition binder_delete_free_buffer :: "page_env \<Rightarrow> nat \<Rightarrow> alloc \<Rightarrow> alloc cres" where
  "binder_delete_free_buffer P a A =
     (case prev_buf a (al_bufs A) of
        None \<Rightarrow> Abort
      | Some prev \<Rightarrow>
          if \<not> b_free prev then Abort
          else
            let pe = buffer_end_page (b_addr prev); s = buffer_start_page a; e = buffer_end_page a;
                free_page_start = (pe \<noteq> s);
                free_page_end = (\<not> (pe = s \<and> pe = e));
                (free_page_start, free_page_end) =
                  (case next_buf a (al_bufs A) of
                     None \<Rightarrow> (free_page_start, free_page_end)
                   | Some next \<Rightarrow>
                       let ns = buffer_start_page (b_addr next)
                       in if ns = e then (free_page_start \<and> ns \<noteq> s, False)
                          else (free_page_start, free_page_end));
                A = A\<lparr>al_bufs := list_del_buf a (al_bufs A)\<rparr>
            in if free_page_start \<or> free_page_end then
                 cbind (binder_update_page_range P False (if free_page_start then s else e)
                     ((if free_page_end then e else s) + PAGE_SIZE) False A) (\<lambda>(_, A). Ret A)
               else Ret A)"

definition binder_free_buf :: "rb_env \<Rightarrow> page_env \<Rightarrow> nat \<Rightarrow> alloc \<Rightarrow> alloc cres" where
  "binder_free_buf R P a A =
     cbind (of_mem (buf_at a (al_bufs A))) (\<lambda>buffer.
       let buffer_size = binder_buffer_size A a;
           need = buf_need (b_data_size buffer) (b_offs_size buffer)
       in if b_free buffer \<or> buffer_size < unat need \<or> b_txn buffer \<noteq> None \<or>
             a < al_buffer A \<or> al_buffer A + al_size A < a then Abort
          else
            let A = (if b_async buffer then A\<lparr>al_async := al_async A + (need + of_nat BUF_HDR)\<rparr> else A)
            in cbind (binder_update_page_range P False (page_align (a + BUF_HDR))
                   (page_mask (a + BUF_HDR + buffer_size)) False A) (\<lambda>(_, A).
               let A = A\<lparr>al_allocated := rb_erase R a (al_allocated A),
                         al_bufs := upd_buf a (\<lambda>b. b\<lparr>b_free := True\<rparr>) (al_bufs A)\<rparr>
               in cbind (case next_buf a (al_bufs A) of
                      None \<Rightarrow> Ret A
                    | Some next \<Rightarrow>
                        if b_free next
                        then binder_delete_free_buffer P (b_addr next)
                               (A\<lparr>al_free := rb_erase R (b_addr next) (al_free A)\<rparr>)
                        else Ret A) (\<lambda>A.
                    case prev_buf a (al_bufs A) of
                      None \<Rightarrow> binder_insert_free_buffer R a A
                    | Some prev \<Rightarrow>
                        if b_free prev
                        then cbind (binder_delete_free_buffer P a A) (\<lambda>A.
                               binder_insert_free_buffer R (b_addr prev)
                                 (A\<lparr>al_free := rb_erase R (b_addr prev) (al_free A)\<rparr>))
                        else binder_insert_free_buffer R a A)))"

section \<open>Mapping\<close>

text \<open>
  The area a process asks to map, and what happens around the call: whether the caller is the
  owner of the descriptor, the kernel addresses that \<open>get_vm_area\<close> finds, whether there is
  memory for the page array.
\<close>

record vm_area =
  vm_start :: nat
  vm_end :: nat
  vm_flags :: u64
  vm_mm :: nat

record mmap_env =
  me_owner :: bool
  me_area :: "nat option"
  me_kzalloc :: bool

abbreviation SZ_4M :: nat where "SZ_4M \<equiv> 0x400000"
abbreviation FORBIDDEN_MMAP_FLAGS :: u64 where "FORBIDDEN_MMAP_FLAGS \<equiv> 0x2"
abbreviation VM_DONTCOPY :: u64 where "VM_DONTCOPY \<equiv> 0x20000"
abbreviation VM_MAYWRITE :: u64 where "VM_MAYWRITE \<equiv> 0x20"
abbreviation E_PERM :: int where "E_PERM \<equiv> -1"
abbreviation E_NOMEM :: int where "E_NOMEM \<equiv> -12"
abbreviation E_BUSY :: int where "E_BUSY \<equiv> -16"
abbreviation E_INVAL :: int where "E_INVAL \<equiv> -22"

definition binder_mmap ::
    "rb_env \<Rightarrow> page_env \<Rightarrow> mmap_env \<Rightarrow> vm_area \<Rightarrow> alloc \<Rightarrow> (int \<times> vm_area \<times> alloc) cres" where
  "binder_mmap R P E vma A =
     (if \<not> me_owner E then Ret (E_INVAL, vma, A)
      else
        let vma = (if vm_end vma - vm_start vma > SZ_4M then vma\<lparr>vm_end := vm_start vma + SZ_4M\<rparr> else vma)
        in if vm_flags vma AND FORBIDDEN_MMAP_FLAGS \<noteq> 0 then Ret (E_PERM, vma, A)
           else
             let vma = vma\<lparr>vm_flags := (vm_flags vma OR VM_DONTCOPY) AND NOT VM_MAYWRITE\<rparr>
             in if al_buffer A \<noteq> 0 then Ret (E_BUSY, vma, A)
                else case me_area E of
                  None \<Rightarrow> Ret (E_NOMEM, vma, A)
                | Some area \<Rightarrow>
                    let A = A\<lparr>al_buffer := area, al_offset := of_nat (vm_start vma) - of_nat area\<rparr>
                    in if \<not> me_kzalloc E then Ret (E_NOMEM, vma, A\<lparr>al_buffer := 0\<rparr>)
                       else
                         let need = vm_end vma - vm_start vma;
                             A = A\<lparr>al_pages := replicate (need div PAGE_SIZE) False,
                                   al_mapped := replicate (need div PAGE_SIZE) False, al_size := need\<rparr>
                         in cbind (binder_update_page_range P True (al_buffer A) (al_buffer A + PAGE_SIZE) True A)
                              (\<lambda>(ok, A).
                            if \<not> ok then Ret (E_NOMEM, vma, A\<lparr>al_pages := [], al_mapped := [], al_buffer := 0\<rparr>)
                            else cbind (binder_insert_free_buffer R (al_buffer A)
                                   (A\<lparr>al_bufs := [new_buf P (al_buffer A)]\<rparr>)) (\<lambda>A.
                              Ret (0, vma, A\<lparr>al_async := of_nat (al_size A div 2), al_vma := Some (vm_mm vma)\<rparr>))))"

text \<open>What \<open>binder_vma_close\<close> does to the allocator when the mapping goes away.\<close>

definition vma_closed :: "alloc \<Rightarrow> alloc" where
  "vma_closed A = A\<lparr>al_vma := None\<rparr>"

end
