(* ===== verification/Drv_Alloc_Lemmas.thy ===== *)
theory Drv_Alloc_Lemmas
  imports Drv_Alloc
begin

text \<open>
  The parts of the invariant of the buffer allocator and what the steps of its operations do to
  them: lists of buffers ordered by address, sizes, the tree of free buffers, the tree of
  allocated ones and the page array.
\<close>

declare set_inorder [simp del]

section \<open>Lists of buffers\<close>

text \<open>Where the buffers of a list begin, when the region ends at \<open>hi\<close>.\<close>

fun end_of :: "nat \<Rightarrow> buf list \<Rightarrow> nat" where
  "end_of hi [] = hi"
| "end_of hi (b # bs) = b_addr b"

definition need_of :: "buf \<Rightarrow> nat" where
  "need_of b = unat (buf_need (b_data_size b) (b_offs_size b))"

text \<open>Every header fits before the next buffer, and so does the content of an allocated one.\<close>

primrec chain :: "nat \<Rightarrow> buf list \<Rightarrow> bool" where
  "chain hi [] = True"
| "chain hi (b # bs) = (b_addr b + BUF_HDR \<le> end_of hi bs \<and> chain hi bs)"

primrec fits :: "nat \<Rightarrow> buf list \<Rightarrow> bool" where
  "fits hi [] = True"
| "fits hi (b # bs) = ((\<not> b_free b \<longrightarrow> b_addr b + BUF_HDR + need_of b \<le> end_of hi bs) \<and> fits hi bs)"

text \<open>No two neighbours are free.\<close>

fun hd_used :: "buf list \<Rightarrow> bool" where
  "hd_used [] = True"
| "hd_used (b # bs) = (\<not> b_free b)"

primrec coalesced :: "buf list \<Rightarrow> bool" where
  "coalesced [] = True"
| "coalesced (b # bs) = ((b_free b \<longrightarrow> hd_used bs) \<and> coalesced bs)"

fun last_used :: "buf list \<Rightarrow> bool" where
  "last_used [] = True"
| "last_used (b # bs) = (if bs = [] then \<not> b_free b else last_used bs)"

lemma end_of_append [simp]: "end_of hi (xs @ ys) = end_of (end_of hi ys) xs"
  by (cases xs) simp_all

lemma chain_append [simp]: "chain hi (xs @ ys) \<longleftrightarrow> chain (end_of hi ys) xs \<and> chain hi ys"
  by (induction xs) auto

lemma fits_append [simp]: "fits hi (xs @ ys) \<longleftrightarrow> fits (end_of hi ys) xs \<and> fits hi ys"
  by (induction xs) auto

lemma hd_used_append [simp]: "hd_used (xs @ ys) = (if xs = [] then hd_used ys else hd_used xs)"
  by (cases xs) simp_all

lemma coalesced_append [simp]:
  "coalesced (xs @ ys) \<longleftrightarrow> coalesced xs \<and> coalesced ys \<and> (last_used xs \<or> hd_used ys)"
  by (induction xs) (auto split: if_splits)

lemma last_used_append [simp]: "last_used (xs @ ys) = (if ys = [] then last_used xs else last_used ys)"
  by (induction xs) auto

lemma chain_end: "chain hi bs \<Longrightarrow> end_of hi bs \<le> hi"
  by (induction bs) auto

lemma chain_le: "chain hi bs \<Longrightarrow> b \<in> set bs \<Longrightarrow> end_of hi bs \<le> b_addr b \<and> b_addr b + BUF_HDR \<le> hi"
proof (induction bs)
  case (Cons c bs)
  then show ?case using chain_end [of hi bs] by auto
qed simp

lemma chain_distinct: "chain hi bs \<Longrightarrow> distinct (map b_addr bs)"
proof (induction bs)
  case (Cons b bs)
  then show ?case using chain_le [of hi bs] by fastforce
qed simp

lemma chain_sorted: "chain hi bs \<Longrightarrow> sorted_wrt (<) (map b_addr bs)"
proof (induction bs)
  case (Cons b bs)
  then show ?case using chain_le [of hi bs] by fastforce
qed simp

text \<open>Operations on a list are computed by splitting it at a buffer.\<close>

named_theorems at_split

lemma buf_at_split [at_split]:
  "b_addr b \<notin> b_addr ` set xs \<Longrightarrow> a = b_addr b \<Longrightarrow> buf_at a (xs @ b # ys) = Some b"
  by (induction xs) (auto simp: buf_at_def)

lemma next_buf_split [at_split]:
  "b_addr b \<notin> b_addr ` set xs \<Longrightarrow> a = b_addr b \<Longrightarrow>
   next_buf a (xs @ b # ys) = (case ys of [] \<Rightarrow> None | c # _ \<Rightarrow> Some c)"
proof (induction xs)
  case Nil
  then show ?case by (cases ys) auto
next
  case (Cons x xs)
  then show ?case by (cases xs) auto
qed

lemma prev_buf_Cons: "a \<noteq> b_addr x \<Longrightarrow> ys \<noteq> [] \<Longrightarrow>
  prev_buf a (x # ys) = (if b_addr (hd ys) = a then Some x else prev_buf a ys)"
  by (cases ys) auto

lemma prev_buf_split [at_split]:
  "distinct (map b_addr (xs @ b # ys)) \<Longrightarrow> a = b_addr b \<Longrightarrow>
   prev_buf a (xs @ b # ys) = (if xs = [] then None else Some (last xs))"
proof (induction xs)
  case Nil
  then show ?case
  proof (induction ys arbitrary: b)
    case (Cons c ys)
    then show ?case by (cases ys) (auto simp: prev_buf_Cons)
  qed simp
next
  case (Cons x xs)
  then show ?case by (cases xs) auto
qed

lemma upd_buf_other: "a \<notin> b_addr ` set bs \<Longrightarrow> upd_buf a f bs = bs"
  unfolding upd_buf_def by (rule map_idI) auto

lemma upd_buf_split [at_split]:
  "distinct (map b_addr (xs @ b # ys)) \<Longrightarrow> a = b_addr b \<Longrightarrow> upd_buf a f (xs @ b # ys) = xs @ f b # ys"
  using upd_buf_other [of a xs f] upd_buf_other [of a ys f] by (auto simp: upd_buf_def)

lemma list_add_split [at_split]:
  "b_addr b \<notin> b_addr ` set xs \<Longrightarrow> a = b_addr b \<Longrightarrow> list_add_after a n (xs @ b # ys) = xs @ b # n # ys"
  by (induction xs) auto

lemma list_del_split [at_split]:
  "distinct (map b_addr (xs @ b # ys)) \<Longrightarrow> a = b_addr b \<Longrightarrow> list_del_buf a (xs @ b # ys) = xs @ ys"
  by (auto simp: list_del_buf_def filter_id_conv intro!: arg_cong2 [where f = append]) (metis imageI)+

lemma buf_at_in: "buf_at a bs = Some b \<Longrightarrow> b \<in> set bs \<and> b_addr b = a"
  by (auto simp: buf_at_def dest: find_Some_in)

lemma buf_at_of_in: "distinct (map b_addr bs) \<Longrightarrow> b \<in> set bs \<Longrightarrow> buf_at (b_addr b) bs = Some b"
  using buf_at_split by (fastforce dest: split_list)

section \<open>Sizes\<close>

abbreviation region_end :: "alloc \<Rightarrow> nat" where
  "region_end A \<equiv> al_buffer A + al_size A"

lemma size_split:
  assumes "al_bufs A = xs @ b # ys" and "b_addr b \<notin> b_addr ` set xs"
  shows "binder_buffer_size A (b_addr b) = end_of (region_end A) ys - (b_addr b + BUF_HDR)"
  using assms by (cases ys) (simp_all add: binder_buffer_size_def next_buf_split)

text \<open>Replacing buffers in the middle leaves the sizes of the others.\<close>

lemma size_frame:
  assumes "al_bufs A = xs @ X @ ys" and "al_bufs A' = xs @ Y @ ys" and "region_end A' = region_end A"
    and "distinct (map b_addr (al_bufs A))" and "distinct (map b_addr (al_bufs A'))"
    and "end_of (region_end A) (X @ ys) = end_of (region_end A) (Y @ ys)" and "c \<in> set xs \<union> set ys"
  shows "binder_buffer_size A' (b_addr c) = binder_buffer_size A (b_addr c)"
proof -
  consider us vs where "xs = us @ c # vs" | us vs where "ys = us @ c # vs"
    using assms(7) by (auto dest: split_list)
  then show ?thesis
  proof cases
    case 1
    then have "al_bufs A = us @ c # (vs @ X @ ys)" "al_bufs A' = us @ c # (vs @ Y @ ys)"
      using assms(1,2) by simp_all
    moreover have "end_of (region_end A) (vs @ X @ ys) = end_of (region_end A) (vs @ Y @ ys)"
      using assms(6) by (cases vs) simp_all
    ultimately show ?thesis
      using size_split [of A us c] size_split [of A' us c] assms(3-5) by auto
  next
    case 2
    then have "al_bufs A = (xs @ X @ us) @ c # vs" "al_bufs A' = (xs @ Y @ us) @ c # vs"
      using assms(1,2) by simp_all
    then show ?thesis
      using size_split [of A "xs @ X @ us" c] size_split [of A' "xs @ Y @ us" c] assms(3-5) by (auto simp: image_Un)
  qed
qed

lemma next_buf_addrs: "map b_addr bs = map b_addr bs' \<Longrightarrow>
  map_option b_addr (next_buf a bs) = map_option b_addr (next_buf a bs')"
proof (induction a bs arbitrary: bs' rule: next_buf.induct)
  case (1 a b c bs)
  then obtain b' c' cs where b': "bs' = b' # c' # cs" "b_addr b = b_addr b'" "b_addr c = b_addr c'"
    "map b_addr bs = map b_addr cs" by (auto simp: Cons_eq_map_conv)
  then show ?case using 1(1) [of "c' # cs"] by simp
qed auto

lemma size_addrs:
  assumes "map b_addr (al_bufs A) = map b_addr (al_bufs A')" and "region_end A = region_end A'"
  shows "binder_buffer_size A = binder_buffer_size A'"
proof
  fix a show "binder_buffer_size A a = binder_buffer_size A' a"
    using next_buf_addrs [OF assms(1), of a] assms(2)
    by (auto simp: binder_buffer_size_def split: option.splits)
qed

section \<open>The tree of free buffers\<close>

definition free_tree :: "alloc \<Rightarrow> nat set \<Rightarrow> bool" where
  "free_tree A F \<longleftrightarrow> distinct (inorder (al_free A)) \<and> set (inorder (al_free A)) = F \<and>
     sorted (map (binder_buffer_size A) (inorder (al_free A)))"

definition free_at :: "alloc \<Rightarrow> nat \<Rightarrow> bool" where
  "free_at A x \<longleftrightarrow> (\<exists>c. buf_at x (al_bufs A) = Some c \<and> b_free c)"

lemma free_tree_frame:
  assumes "free_tree A F" and "al_free A' = al_free A"
    and "\<And>x. x \<in> F \<Longrightarrow> binder_buffer_size A' x = binder_buffer_size A x"
  shows "free_tree A' F"
proof -
  have "map (binder_buffer_size A') (inorder (al_free A)) = map (binder_buffer_size A) (inorder (al_free A))"
    using assms by (auto simp: free_tree_def)
  then show ?thesis using assms(1,2) unfolding free_tree_def by metis
qed

lemma sorted_map_remove1: "sorted (map f xs) \<Longrightarrow> sorted (map f (remove1 x xs))"
  by (induction xs) (auto dest: notin_set_remove1 set_remove1_subset [THEN subsetD])

lemma size_free_upd [simp]:
  "binder_buffer_size (A\<lparr>al_free := t\<rparr>) x = binder_buffer_size A x"
  "binder_buffer_size (A\<lparr>al_allocated := t\<rparr>) x = binder_buffer_size A x"
  "binder_buffer_size (A\<lparr>al_async := n\<rparr>) x = binder_buffer_size A x"
  "binder_buffer_size (A\<lparr>al_pages := ps\<rparr>) x = binder_buffer_size A x"
  "binder_buffer_size (A\<lparr>al_mapped := ms\<rparr>) x = binder_buffer_size A x"
  by (simp_all add: binder_buffer_size_def cong: option.case_cong)

lemma size_free_upd' [simp]: "binder_buffer_size (A\<lparr>al_free := t\<rparr>) = binder_buffer_size A"
  by (rule ext) simp

lemma free_tree_erase:
  assumes "rb_ok R" and "free_tree A F" and "x \<in> F"
  shows "free_tree (A\<lparr>al_free := rb_erase R x (al_free A)\<rparr>) (F - {x})"
  using assms rb_okD(2) [OF assms(1), of "al_free A" x]
  by (auto simp: free_tree_def sorted_map_remove1)

lemma sorted_insert_le:
  "sorted (map f xs) \<Longrightarrow> sorted (map f (takeWhile (\<lambda>x. f x \<le> f a) xs @ a # dropWhile (\<lambda>x. f x \<le> f a) xs))"
  by (induction xs) (auto dest!: set_takeWhileD set_dropWhileD)

lemma insert_free:
  assumes R: "rb_ok R" and T: "free_tree A F" and a: "free_at A a" "a \<notin> F"
    and F: "\<And>x. x \<in> F \<Longrightarrow> free_at A x"
  shows "\<exists>t. binder_insert_free_buffer R a A = Ret (A\<lparr>al_free := t\<rparr>) \<and>
    free_tree (A\<lparr>al_free := t\<rparr>) (insert a F)"
proof -
  let ?s = "binder_buffer_size A" and ?is = "inorder (al_free A)"
  let ?P = "\<lambda>x. ?s x \<le> ?s a"
  have I: "distinct ?is" "set ?is = F" "sorted (map ?s ?is)"
    using T by (simp_all add: free_tree_def)
  let ?f = "\<lambda>x. cbind (of_mem (buf_at x (al_bufs A))) (\<lambda>buffer.
               if \<not> b_free buffer then Abort
               else Ret (if binder_buffer_size A a < binder_buffer_size A x then Go_left else Go_right))"
  have f: "?f x = Ret (if ?P x then Go_right else Go_left)" if "x \<in> set ?is" for x
    using F [of x] that I(2) by (auto simp: free_at_def)
  have "sorted_wrt (\<lambda>x y. ?P y \<longrightarrow> ?P x) ?is"
    using I(3) unfolding sorted_map by (rule sorted_wrt_mono_rel [rotated]) auto
  from tree_link_pos [of "al_free A" ?f ?P a, OF f this]
  obtain t where t: "tree_link ?f a (al_free A) = Ret (Inr t)"
    "inorder t = takeWhile ?P ?is @ a # dropWhile ?P ?is" by blast
  have r: "binder_insert_free_buffer R a A = Ret (A\<lparr>al_free := rb_color R t\<rparr>)"
    using a(1) t(1) by (auto simp: free_at_def binder_insert_free_buffer_def)
  have "sorted (map ?s (takeWhile ?P ?is @ a # dropWhile ?P ?is))"
    using I(3) by (rule sorted_insert_le)
  then have "free_tree (A\<lparr>al_free := rb_color R t\<rparr>) (insert a F)"
    using t(2) I a(2) distinct_insert_pos [of ?is a ?P] set_insert_pos [of ?P ?is a]
    by (simp add: free_tree_def rb_okD(1) [OF R])
  then show ?thesis using r by blast
qed

section \<open>The tree of allocated buffers\<close>

definition used :: "buf list \<Rightarrow> nat list" where
  "used bs = map b_addr (filter (\<lambda>b. \<not> b_free b) bs)"

lemma used_append [simp]: "used (xs @ ys) = used xs @ used ys"
  "used (b # bs) = (if b_free b then used bs else b_addr b # used bs)" "used [] = []"
  by (simp_all add: used_def)

lemma used_subset: "set (used bs) \<subseteq> b_addr ` set bs"
  by (auto simp: used_def)

lemma chain_used_sorted: "chain hi bs \<Longrightarrow> sorted_wrt (<) (used bs)"
proof (induction bs)
  case (Cons b bs)
  then show ?case using chain_le [of hi bs] used_subset [of bs] by (fastforce simp: image_iff)
qed simp

lemma insert_allocated:
  assumes R: "rb_ok R" and bs: "al_bufs A = xs @ b # ys" and C: "chain (region_end A) (al_bufs A)"
    and b: "\<not> b_free b" and T: "inorder (al_allocated A) = used xs @ used ys"
  shows "\<exists>t. binder_insert_allocated_buffer R (b_addr b) A = Ret (A\<lparr>al_allocated := t\<rparr>) \<and>
    inorder t = used (al_bufs A)"
proof -
  let ?f = "\<lambda>x. cbind (of_mem (buf_at x (al_bufs A))) (\<lambda>buffer.
               if b_free buffer then Abort else Ret (cmp (b_addr b) x))"
  let ?is = "inorder (al_allocated A)"
  have D: "distinct (map b_addr (al_bufs A))" by (rule chain_distinct [OF C])
  have U: "sorted_wrt (<) (used xs @ b_addr b # used ys)"
    using chain_used_sorted [OF C] b by (simp add: bs)
  have f: "?f x = Ret (cmp (b_addr b) x)" if "x \<in> set ?is" for x
  proof -
    from that obtain c where "c \<in> set (al_bufs A)" "\<not> b_free c" "b_addr c = x"
      unfolding T bs used_def by auto
    then show ?thesis using buf_at_of_in [OF D] by fastforce
  qed
  have "b_addr b \<notin> id ` set ?is" "sorted_wrt (<) (map id ?is)"
    using U by (auto simp: T sorted_wrt_append)
  from tree_link_new [of "al_allocated A" ?f "b_addr b" id "b_addr b", OF _ this(2,1)] f
  obtain t where t: "tree_link ?f (b_addr b) (al_allocated A) = Ret (Inr t)"
    "inorder t = takeWhile (\<lambda>x. x < b_addr b) ?is @ b_addr b # dropWhile (\<lambda>x. x < b_addr b) ?is"
    by auto
  have lt: "\<forall>x \<in> set (used xs). x < b_addr b" "\<forall>x \<in> set (used ys). \<not> x < b_addr b"
    using U by (auto simp: sorted_wrt_append)
  have "takeWhile (\<lambda>x. x < b_addr b) (used ys) = []" "dropWhile (\<lambda>x. x < b_addr b) (used ys) = used ys"
    using lt(2) by (cases "used ys"; simp)+
  then have "inorder t = used (al_bufs A)"
    using t(2) lt(1) b by (simp add: T bs)
  moreover have "buf_at (b_addr b) (al_bufs A) = Some b"
    using buf_at_of_in [OF D, of b] by (simp add: bs)
  ultimately show ?thesis
    using t(1) b rb_okD(1) [OF R] by (auto simp: binder_insert_allocated_buffer_def)
qed

lemma erase_allocated:
  assumes R: "rb_ok R" and C: "chain hi (xs @ b # ys)" and b: "\<not> b_free b"
    and T: "inorder t = used (xs @ b # ys)"
  shows "inorder (rb_erase R (b_addr b) t) = used xs @ used ys"
proof -
  have "sorted_wrt (<) (used xs @ b_addr b # used ys)"
    using chain_used_sorted [OF C] b by simp
  then have "distinct (used xs @ b_addr b # used ys)" by (simp only: strict_sorted_iff)
  then have "distinct (inorder t)" "b_addr b \<notin> set (used xs)" "b_addr b \<in> set (inorder t)"
    using b by (auto simp: T)
  then show ?thesis using rb_okD(2) [OF R] b by (simp add: T remove1_append)
qed

lemma find_eq: "find (\<lambda>x. x = a) xs = (if a \<in> set xs then Some a else None)"
  by (induction xs) auto

text \<open>A lookup finds the buffer at exactly the address it is given.\<close>

lemma buffer_lookup:
  assumes C: "chain (region_end A) (al_bufs A)" and T: "inorder (al_allocated A) = used (al_bufs A)"
  shows "binder_buffer_lookup A p = Ret (let a = unat (p - al_offset A - of_nat BUF_HDR)
     in if \<exists>b \<in> set (al_bufs A). \<not> b_free b \<and> b_addr b = a then Some a else None)"
proof -
  let ?a = "unat (p - al_offset A - of_nat BUF_HDR)"
  let ?f = "\<lambda>x. cbind (of_mem (buf_at x (al_bufs A))) (\<lambda>buffer.
           if b_free buffer then Abort else Ret (cmp ?a x))"
  have f: "?f x = Ret (cmp ?a (id x))" if "x \<in> set (inorder (al_allocated A))" for x
  proof -
    from that obtain c where "c \<in> set (al_bufs A)" "\<not> b_free c" "b_addr c = x"
      unfolding T used_def by auto
    then show ?thesis using buf_at_of_in [OF chain_distinct [OF C]] by fastforce
  qed
  have "sorted_wrt (<) (map id (inorder (al_allocated A)))"
    using chain_used_sorted [OF C] by (simp add: T)
  from tree_search_eq [of "al_allocated A" ?f ?a id, OF f this]
  have "binder_buffer_lookup A p = Ret (find (\<lambda>x. x = ?a) (used (al_bufs A)))"
    by (simp only: binder_buffer_lookup_def Let_def T id_apply)
  moreover have "?a \<in> set (used (al_bufs A)) \<longleftrightarrow> (\<exists>b \<in> set (al_bufs A). \<not> b_free b \<and> b_addr b = ?a)"
    unfolding used_def by force
  ultimately show ?thesis by (simp only: Let_def find_eq)
qed

section \<open>Pages\<close>

text \<open>
  Page \<open>q\<close> of the address space covers the addresses from \<open>4096 q\<close>; a range of addresses
  touches it, and a list of buffers needs it for a header or for an allocated buffer.
\<close>

definition touch :: "nat \<Rightarrow> nat \<Rightarrow> nat \<Rightarrow> bool" where
  "touch lo hi q \<longleftrightarrow> q * PAGE_SIZE < hi \<and> lo < q * PAGE_SIZE + PAGE_SIZE"

primrec needed :: "nat \<Rightarrow> buf list \<Rightarrow> nat \<Rightarrow> bool" where
  "needed hi [] q = False"
| "needed hi (b # bs) q =
     (touch (b_addr b) (if b_free b then b_addr b + BUF_HDR else end_of hi bs) q \<or> needed hi bs q)"

lemma needed_append [simp]: "needed hi (xs @ ys) q \<longleftrightarrow> needed (end_of hi ys) xs q \<or> needed hi ys q"
  by (induction xs) auto

lemma needed_bounds: "chain hi bs \<Longrightarrow> needed hi bs q \<Longrightarrow> end_of hi bs < q * PAGE_SIZE + PAGE_SIZE \<and> q * PAGE_SIZE < hi"
proof (induction bs)
  case (Cons b bs)
  have "end_of hi bs \<le> hi" using Cons.prems(1) chain_end by simp
  then show ?case using Cons by (auto simp: touch_def split: if_splits)
qed simp

lemma needed_first:
  assumes "chain hi bs" and "bs \<noteq> []"
  shows "needed hi bs (end_of hi bs div PAGE_SIZE)"
  using assms by (cases bs) (auto simp: touch_def)

definition pages_are :: "alloc \<Rightarrow> (nat \<Rightarrow> bool) \<Rightarrow> bool" where
  "pages_are A N \<longleftrightarrow> length (al_pages A) = al_size A div PAGE_SIZE \<and> length (al_mapped A) = al_size A div PAGE_SIZE \<and>
     (\<forall>i < al_size A div PAGE_SIZE. al_pages A ! i = N (al_buffer A div PAGE_SIZE + i))"

definition set_all :: "bool \<Rightarrow> nat list \<Rightarrow> bool list \<Rightarrow> bool list" where
  "set_all v is ps = fold (\<lambda>i ps. ps[i := v]) is ps"

lemma set_all_simps [simp]: "set_all v [] ps = ps" "set_all v (i # is) ps = set_all v is (ps[i := v])"
  by (simp_all add: set_all_def)

lemma length_set_all [simp]: "length (set_all v is ps) = length ps"
  by (induction "is" arbitrary: ps) simp_all

lemma nth_set_all: "j < length ps \<Longrightarrow> set_all v is ps ! j = (if j \<in> set is then v else ps ! j)"
  by (induction "is" arbitrary: ps) auto

lemma free_pages_eq:
  assumes "\<And>i. i \<in> set is \<Longrightarrow> i < length (al_pages A) \<and> al_pages A ! i" and "distinct is"
  shows "free_pages vma is A = Ret (A\<lparr>al_pages := set_all False is (al_pages A),
    al_mapped := (if vma then set_all False is (al_mapped A) else al_mapped A)\<rparr>)"
  using assms
proof (induction "is" arbitrary: A)
  case (Cons i "is")
  let ?A = "A\<lparr>al_pages := (al_pages A)[i := False],
             al_mapped := (if vma then (al_mapped A)[i := False] else al_mapped A)\<rparr>"
  have "\<And>j. j \<in> set is \<Longrightarrow> j < length (al_pages ?A) \<and> al_pages ?A ! j"
    using Cons.prems by (auto simp: nth_list_update)
  note IH = Cons.IH [of ?A, OF this]
  show ?case using Cons.prems IH by simp
qed simp

text \<open>
  The result of allocating pages: the page array with the new pages, or, after a failure, as it
  was.
\<close>

lemma alloc_pages_eq:
  assumes "\<And>i. i \<in> set is \<Longrightarrow> i < length (al_pages A) \<and> \<not> al_pages A ! i"
    and "\<And>i. i \<in> set done \<Longrightarrow> i < length (al_pages A) \<and> al_pages A ! i"
    and "distinct is" and "distinct done"
  shows "\<exists>ok ms. alloc_pages P is done A = Ret (ok, A\<lparr>al_pages :=
      (if ok then set_all True is (al_pages A) else set_all False done (al_pages A)), al_mapped := ms\<rparr>) \<and>
    length ms = length (al_mapped A) \<and>
    (al_mapped A = al_pages A \<longrightarrow> ms = (if ok then set_all True is (al_pages A) else set_all False done (al_pages A)))"
  using assms
proof (induction "is" arbitrary: "done" A)
  case Nil
  show ?case by (intro exI [of _ True] exI [of _ "al_mapped A"]) simp
next
  case (Cons i "is")
  show ?case
  proof (cases "pg_fault P i = P_ok")
    case True
    let ?A = "A\<lparr>al_pages := (al_pages A)[i := True], al_mapped := (al_mapped A)[i := True]\<rparr>"
    have i: "i < length (al_pages A)" "\<not> al_pages A ! i" "i \<notin> set is" "i \<notin> set done"
      using Cons.prems by auto
    have 1: "\<And>j. j \<in> set is \<Longrightarrow> j < length (al_pages ?A) \<and> \<not> al_pages ?A ! j"
      using Cons.prems(1) i by (auto simp: nth_list_update)
    have 2: "\<And>j. j \<in> set (i # done) \<Longrightarrow> j < length (al_pages ?A) \<and> al_pages ?A ! j"
      using Cons.prems(2) i by (auto simp: nth_list_update)
    have d: "distinct is" "distinct (i # done)" using Cons.prems i by auto
    have "(al_pages A)[i := False] = al_pages A" using list_update_id [of "al_pages A" i] i(2) by simp
    then have u: "set_all False (i # done) ((al_pages A)[i := True]) = set_all False done (al_pages A)"
      by simp
    obtain ok ms where e: "alloc_pages P is (i # done) ?A = Ret (ok, ?A\<lparr>al_pages :=
        (if ok then set_all True is (al_pages ?A) else set_all False (i # done) (al_pages ?A)), al_mapped := ms\<rparr>)"
      "length ms = length (al_mapped ?A)"
      "al_mapped ?A = al_pages ?A \<longrightarrow>
        ms = (if ok then set_all True is (al_pages ?A) else set_all False (i # done) (al_pages ?A))"
      using Cons.IH [of ?A "i # done", OF 1 2 d] by blast
    show ?thesis
      by (intro exI [of _ ok] exI [of _ ms] conjI) (use e i u True in \<open>cases ok; simp\<close>)+
  next
    case False
    have f: "free_pages True done A = Ret (A\<lparr>al_pages := set_all False done (al_pages A),
      al_mapped := set_all False done (al_mapped A)\<rparr>)"
      using free_pages_eq [of "done" A True] Cons.prems by simp
    have "alloc_pages P (i # is) done A = Ret (False, A\<lparr>al_pages := set_all False done (al_pages A),
      al_mapped := set_all False done (al_mapped A)\<rparr>)"
      using Cons.prems(1) [of i] f False by (auto split: page_fault.split)
    then show ?thesis by (intro exI [of _ False] exI) auto
  qed
qed

lemma page_range_eq:
  assumes "PAGE_SIZE dvd al_buffer A" and "al_buffer A \<le> PAGE_SIZE * k"
  shows "page_range A (PAGE_SIZE * k) (PAGE_SIZE * m) =
    map (\<lambda>q. q - al_buffer A div PAGE_SIZE) [k ..< m]"
proof -
  obtain B where B: "al_buffer A = PAGE_SIZE * B" using assms(1) by blast
  have "(PAGE_SIZE * k + j * PAGE_SIZE - PAGE_SIZE * B) div PAGE_SIZE = k + j - B" for j
  proof -
    have "PAGE_SIZE * k + j * PAGE_SIZE - PAGE_SIZE * B = PAGE_SIZE * (k + j - B)"
      by (simp add: algebra_simps)
    then show ?thesis by simp
  qed
  moreover have "(PAGE_SIZE * m - PAGE_SIZE * k + (PAGE_SIZE - 1)) div PAGE_SIZE = m - k" by simp
  moreover have "[k ..< m] = map (\<lambda>j. k + j) [0 ..< m - k]"
    by (rule nth_equalityI) simp_all
  ultimately show ?thesis by (simp add: page_range_def B)
qed

text \<open>Whether the mapping of the process is there to be changed.\<close>

definition live :: "page_env \<Rightarrow> alloc \<Rightarrow> bool" where
  "live P A \<longleftrightarrow> (case pg_mm P of None \<Rightarrow> False | Some mm \<Rightarrow> al_vma A = Some mm)"

definition geometry :: "alloc \<Rightarrow> bool" where
  "geometry A \<longleftrightarrow> PAGE_SIZE dvd al_buffer A \<and> PAGE_SIZE dvd al_size A \<and> 0 < al_size A \<and>
     0 < al_buffer A \<and> region_end A \<le> 2 ^ 64"

lemma geometryD:
  assumes "geometry A"
  obtains B S where "al_buffer A = PAGE_SIZE * B" "al_size A = PAGE_SIZE * S" "0 < S"
    "region_end A = PAGE_SIZE * (B + S)"
proof -
  obtain B S where "al_buffer A = PAGE_SIZE * B" "al_size A = PAGE_SIZE * S"
    using assms unfolding geometry_def by (blast elim: dvdE)
  then show thesis using assms that [of B S] unfolding geometry_def by simp
qed

lemma range_index:
  assumes "\<And>q. k \<le> q \<Longrightarrow> q < m \<Longrightarrow> B \<le> (q::nat)"
  shows "B + i \<in> {k ..< m} \<longleftrightarrow> i \<in> set (map (\<lambda>q. q - B) [k ..< m])" "distinct (map (\<lambda>q. q - B) [k ..< m])"
proof -
  show "B + i \<in> {k ..< m} \<longleftrightarrow> i \<in> set (map (\<lambda>q. q - B) [k ..< m])"
    using assms by (auto simp: image_iff intro!: bexI [of _ "B + i"])
  have "q = r" if "q \<in> {k ..< m}" "r \<in> {k ..< m}" "q - B = r - B" for q r
    using assms [of q] assms [of r] that by auto
  then show "distinct (map (\<lambda>q. q - B) [k ..< m])" by (auto simp: distinct_map inj_on_def)
qed

lemma update_free:
  assumes G: "geometry A" and N: "pages_are A N"
    and r: "\<And>q. k \<le> q \<Longrightarrow> q < m \<Longrightarrow> N q \<and> al_buffer A \<le> PAGE_SIZE * q \<and> PAGE_SIZE * q < region_end A"
  shows "\<exists>ok ps ms. binder_update_page_range P False (PAGE_SIZE * k) (PAGE_SIZE * m) False A =
      Ret (ok, A\<lparr>al_pages := ps, al_mapped := ms\<rparr>) \<and>
    pages_are (A\<lparr>al_pages := ps, al_mapped := ms\<rparr>) (\<lambda>q. N q \<and> \<not> (k \<le> q \<and> q < m)) \<and>
    (live P A \<and> al_mapped A = al_pages A \<longrightarrow> ms = ps)"
proof (cases "k < m")
  case False
  then show ?thesis
    using N by (intro exI [of _ True] exI [of _ "al_pages A"] exI [of _ "al_mapped A"])
      (auto simp: binder_update_page_range_def pages_are_def)
next
  case True
  obtain B S where B: "al_buffer A = PAGE_SIZE * B" "al_size A = PAGE_SIZE * S" "0 < S"
    "region_end A = PAGE_SIZE * (B + S)" by (rule geometryD [OF G])
  let ?is = "map (\<lambda>q. q - B) [k ..< m]"
  have b: "B \<le> q" "q < B + S" "N q" if "k \<le> q" "q < m" for q
    using r [OF that] B by auto
  note R = range_index [of k m B, OF b(1)]
  have pr: "page_range A (PAGE_SIZE * k) (PAGE_SIZE * m) = ?is"
    using page_range_eq [of A k m] r [of k] True B(1) by simp
  have i: "i < length (al_pages A) \<and> al_pages A ! i" if "i \<in> set (rev ?is)" for i
  proof -
    have "B + i \<in> {k ..< m}" using R(1) [of i] that by simp
    then show ?thesis using b [of "B + i"] N B by (simp add: pages_are_def)
  qed
  let ?ps = "set_all False (rev ?is) (al_pages A)"
  obtain ms where e: "free_pages (live P A) (rev ?is) A = Ret (A\<lparr>al_pages := ?ps, al_mapped := ms\<rparr>)"
    "length ms = length (al_mapped A)" "live P A \<and> al_mapped A = al_pages A \<longrightarrow> ms = ?ps"
    using free_pages_eq [of "rev ?is" A "live P A", OF i] R(2) by simp
  have "binder_update_page_range P False (PAGE_SIZE * k) (PAGE_SIZE * m) False A =
      Ret (False, A\<lparr>al_pages := ?ps, al_mapped := ms\<rparr>)"
    using True e(1) pr by (simp add: binder_update_page_range_def live_def)
  moreover have "pages_are (A\<lparr>al_pages := ?ps, al_mapped := ms\<rparr>) (\<lambda>q. N q \<and> \<not> (k \<le> q \<and> q < m))"
    using N e(2) R(1) B by (auto simp: pages_are_def nth_set_all)
  ultimately show ?thesis using e(3) by blast
qed

lemma update_allocate:
  assumes G: "geometry A" and N: "pages_are A N" and v: "v = False \<longrightarrow> al_vma A \<noteq> None"
    and r: "\<And>q. k \<le> q \<Longrightarrow> q < m \<Longrightarrow> \<not> N q \<and> al_buffer A \<le> PAGE_SIZE * q \<and> PAGE_SIZE * q < region_end A"
  shows "\<exists>ok ps ms. binder_update_page_range P True (PAGE_SIZE * k) (PAGE_SIZE * m) v A =
      Ret (ok, A\<lparr>al_pages := ps, al_mapped := ms\<rparr>) \<and> length ms = length (al_mapped A) \<and>
    (if ok then pages_are (A\<lparr>al_pages := ps, al_mapped := ms\<rparr>) (\<lambda>q. N q \<or> k \<le> q \<and> q < m) else ps = al_pages A) \<and>
    (al_mapped A = al_pages A \<longrightarrow> ms = ps)"
proof (cases "k < m \<and> (v \<or> live P A)")
  case False
  then show ?thesis
    using N by (intro exI [of _ "\<not> k < m"] exI [of _ "al_pages A"] exI [of _ "al_mapped A"])
      (auto simp: binder_update_page_range_def pages_are_def live_def)
next
  case True
  obtain B S where B: "al_buffer A = PAGE_SIZE * B" "al_size A = PAGE_SIZE * S" "0 < S"
    "region_end A = PAGE_SIZE * (B + S)" by (rule geometryD [OF G])
  let ?is = "map (\<lambda>q. q - B) [k ..< m]"
  have b: "B \<le> q" "q < B + S" "\<not> N q" if "k \<le> q" "q < m" for q
    using r [OF that] B by auto
  note R = range_index [of k m B, OF b(1)]
  have pr: "page_range A (PAGE_SIZE * k) (PAGE_SIZE * m) = ?is"
    using page_range_eq [of A k m] r [of k] True B(1) by simp
  have i: "i < length (al_pages A) \<and> \<not> al_pages A ! i" if "i \<in> set ?is" for i
  proof -
    have "B + i \<in> {k ..< m}" using R(1) [of i] that by simp
    then show ?thesis using b [of "B + i"] N B by (simp add: pages_are_def)
  qed
  let ?ps = "\<lambda>ok. if ok then set_all True ?is (al_pages A) else al_pages A"
  obtain ok ms where e: "alloc_pages P ?is [] A = Ret (ok, A\<lparr>al_pages := ?ps ok, al_mapped := ms\<rparr>)"
    "length ms = length (al_mapped A)" "al_mapped A = al_pages A \<longrightarrow> ms = ?ps ok"
    using alloc_pages_eq [of ?is A "[]" P, OF i _ R(2), unfolded set_all_simps(1)]
    by (auto simp del: set_all_simps)
  have "binder_update_page_range P True (PAGE_SIZE * k) (PAGE_SIZE * m) v A =
      Ret (ok, A\<lparr>al_pages := ?ps ok, al_mapped := ms\<rparr>)"
    using True e(1) pr by (auto simp: binder_update_page_range_def live_def)
  moreover have "if ok then pages_are (A\<lparr>al_pages := ?ps ok, al_mapped := ms\<rparr>) (\<lambda>q. N q \<or> k \<le> q \<and> q < m)
      else ?ps ok = al_pages A"
    using N e(2) R(1) B by (auto simp: pages_are_def nth_set_all)
  ultimately show ?thesis using e(2,3) by blast
qed

text \<open>Page addresses of the code as page numbers.\<close>

lemma page_bounds: "PAGE_SIZE * (x div PAGE_SIZE) \<le> x \<and> x < PAGE_SIZE * (x div PAGE_SIZE) + PAGE_SIZE"
proof -
  have "x = PAGE_SIZE * (x div PAGE_SIZE) + x mod PAGE_SIZE" by simp
  moreover have "x mod PAGE_SIZE < PAGE_SIZE" by simp
  ultimately show ?thesis by linarith
qed

lemma page_align_eq: "\<exists>k. page_align x = PAGE_SIZE * k \<and> x \<le> PAGE_SIZE * k \<and> PAGE_SIZE * k < x + PAGE_SIZE"
proof (intro exI conjI)
  show "page_align x = PAGE_SIZE * ((x + (PAGE_SIZE - 1)) div PAGE_SIZE)" by (simp add: page_align_def)
qed (use page_bounds [of "x + (PAGE_SIZE - 1)"] in linarith)+

lemma page_mask_eq: "\<exists>k. page_mask x = PAGE_SIZE * k \<and> PAGE_SIZE * k \<le> x \<and> x < PAGE_SIZE * k + PAGE_SIZE"
  using page_bounds [of x] by (intro exI [of _ "x div PAGE_SIZE"]) (simp add: page_mask_def)

section \<open>Page arithmetic of the operations\<close>

text \<open>
  A buffer at \<open>a\<close> ends at \<open>e\<close>; the pages needed before it lie below \<open>a\<close>, those needed
  behind it reach up from \<open>e\<close>, and unless \<open>e\<close> is the start of a page, that page is needed.
\<close>

definition around :: "nat \<Rightarrow> nat \<Rightarrow> (nat \<Rightarrow> bool) \<Rightarrow> bool" where
  "around a e M \<longleftrightarrow> (\<forall>q. M q \<longrightarrow> q * PAGE_SIZE < a \<or> e < q * PAGE_SIZE + PAGE_SIZE) \<and>
     (\<forall>q. q * PAGE_SIZE < e \<and> e < q * PAGE_SIZE + PAGE_SIZE \<longrightarrow> M q)"

lemma around_needed:
  assumes C: "chain hi (xs @ b # ys)" and hi: "PAGE_SIZE dvd hi"
  shows "around (b_addr b) (end_of hi ys) (\<lambda>q. needed (b_addr b) xs q \<or> needed hi ys q)"
  unfolding around_def
proof (intro conjI allI impI)
  fix q assume "needed (b_addr b) xs q \<or> needed hi ys q"
  then show "q * PAGE_SIZE < b_addr b \<or> end_of hi ys < q * PAGE_SIZE + PAGE_SIZE"
    using C needed_bounds [of "b_addr b" xs q] needed_bounds [of hi ys q] by auto
next
  fix q assume q: "q * PAGE_SIZE < end_of hi ys \<and> end_of hi ys < q * PAGE_SIZE + PAGE_SIZE"
  have "ys \<noteq> []"
  proof
    assume "ys = []"
    then obtain h where "end_of hi ys = PAGE_SIZE * h" using hi by auto
    then have "q < h" "PAGE_SIZE * h < PAGE_SIZE * (q + 1)" using q by auto
    then show False by simp
  qed
  moreover have "end_of hi ys div PAGE_SIZE = q" using q by (intro div_nat_eqI) auto
  ultimately show "needed (b_addr b) xs q \<or> needed hi ys q"
    using needed_first [of hi ys] C by simp
qed

lemma fresh_pages:
  assumes "around a e M" and "a + BUF_HDR \<le> PAGE_SIZE * k" and "PAGE_SIZE * m \<le> e" and "k \<le> q" and "q < m"
  shows "\<not> (M q \<or> touch a (a + BUF_HDR) q)" "touch a e q"
proof -
  have "PAGE_SIZE * k \<le> PAGE_SIZE * q" "PAGE_SIZE * q + PAGE_SIZE \<le> PAGE_SIZE * m"
    using assms(4,5) by auto
  then show "touch a e q" "\<not> (M q \<or> touch a (a + BUF_HDR) q)"
    using assms(1-3) unfolding around_def touch_def by (auto simp: mult.commute)
qed

text \<open>The pages that a buffer with room for \<open>u\<close> more bytes needs, when little more is left.\<close>

lemma whole_pages:
  assumes M: "around a e M" and k: "a + BUF_HDR \<le> PAGE_SIZE * k" "PAGE_SIZE * k < a + BUF_HDR + PAGE_SIZE"
    and j: "a + BUF_HDR + u \<le> PAGE_SIZE * j" and m: "PAGE_SIZE * m \<le> e" "e < PAGE_SIZE * m + PAGE_SIZE"
    and e: "a + BUF_HDR + u \<le> e" "e \<le> a + BUF_HDR + u + (BUF_HDR + 4)"
  shows "M q \<or> touch a e q \<longleftrightarrow> (M q \<or> touch a (a + BUF_HDR) q) \<or> k \<le> q \<and> q < min j m"
proof
  assume "(M q \<or> touch a (a + BUF_HDR) q) \<or> k \<le> q \<and> q < min j m"
  then show "M q \<or> touch a e q"
    using fresh_pages(2) [OF M k(1) m(1), of q] e unfolding touch_def by auto
next
  assume "M q \<or> touch a e q"
  then consider "M q \<or> touch a (a + BUF_HDR) q" | "\<not> M q" "touch a e q" "\<not> touch a (a + BUF_HDR) q" by blast
  then show "(M q \<or> touch a (a + BUF_HDR) q) \<or> k \<le> q \<and> q < min j m"
  proof cases
    case 2
    have lo: "a + BUF_HDR \<le> PAGE_SIZE * q" "PAGE_SIZE * q < e" using 2 by (auto simp: touch_def)
    then have "PAGE_SIZE * k < PAGE_SIZE * q + PAGE_SIZE" using k(2) by linarith
    then have kq: "k \<le> q" by auto
    have "PAGE_SIZE * q < PAGE_SIZE * m + PAGE_SIZE" using lo m by linarith
    then have "q \<le> m" by auto
    moreover have "q \<noteq> m" using 2(1) M lo m by (auto simp: around_def mult.commute)
    ultimately have qm: "q < m" by simp
    then have "PAGE_SIZE * q + PAGE_SIZE \<le> PAGE_SIZE * m" by auto
    then have "PAGE_SIZE * q < PAGE_SIZE * j" using m(1) e(2) j by linarith
    then show ?thesis using kq qm by auto
  qed simp
qed

lemma split_pages:
  assumes M: "around a e M" and k: "a + BUF_HDR \<le> PAGE_SIZE * k" "PAGE_SIZE * k < a + BUF_HDR + PAGE_SIZE"
    and j: "n + BUF_HDR \<le> PAGE_SIZE * j" "PAGE_SIZE * j < n + BUF_HDR + PAGE_SIZE"
    and m: "PAGE_SIZE * m \<le> e" "e < PAGE_SIZE * m + PAGE_SIZE"
    and n: "a + BUF_HDR \<le> n" "n + BUF_HDR \<le> e"
  shows "M q \<or> touch a n q \<or> touch n (n + BUF_HDR) q \<longleftrightarrow> (M q \<or> touch a (a + BUF_HDR) q) \<or> k \<le> q \<and> q < min j m"
proof
  assume "(M q \<or> touch a (a + BUF_HDR) q) \<or> k \<le> q \<and> q < min j m"
  then show "M q \<or> touch a n q \<or> touch n (n + BUF_HDR) q"
  proof (elim disjE conjE)
    assume q: "k \<le> q" "q < min j m"
    then have "PAGE_SIZE * q + PAGE_SIZE \<le> PAGE_SIZE * j" "PAGE_SIZE * k \<le> PAGE_SIZE * q" by auto
    then show ?thesis using j(2) k unfolding touch_def by (auto simp: mult.commute)
  qed (use n in \<open>auto simp: touch_def\<close>)
next
  assume "M q \<or> touch a n q \<or> touch n (n + BUF_HDR) q"
  then have T: "M q \<or> q * PAGE_SIZE < n \<and> a < q * PAGE_SIZE + PAGE_SIZE \<or>
      q * PAGE_SIZE < n + BUF_HDR \<and> n < q * PAGE_SIZE + PAGE_SIZE"
    by (simp only: touch_def)
  show "(M q \<or> touch a (a + BUF_HDR) q) \<or> k \<le> q \<and> q < min j m"
  proof (cases "M q \<or> touch a (a + BUF_HDR) q")
    case False
    then have 2: "\<not> M q" "a + BUF_HDR \<le> PAGE_SIZE * q" "PAGE_SIZE * q < n + BUF_HDR"
      using T n by (auto simp: touch_def mult.commute)
    have "PAGE_SIZE * k < PAGE_SIZE * q + PAGE_SIZE" using k(2) 2 by linarith
    then have kq: "k \<le> q" by auto
    have "PAGE_SIZE * q < PAGE_SIZE * j" using 2(3) j(1) by linarith
    then have qj: "q < j" by auto
    have "PAGE_SIZE * q < PAGE_SIZE * m + PAGE_SIZE" using 2 n m by linarith
    then have "q \<le> m" by auto
    moreover have "q \<noteq> m" using 2 M n m by (auto simp: around_def mult.commute)
    ultimately show ?thesis using kq qj by auto
  qed simp
qed

text \<open>Freeing: the pages that only the content of a buffer needed.\<close>

lemma content_pages:
  assumes M: "around a e M" and k: "a + BUF_HDR \<le> PAGE_SIZE * k" "PAGE_SIZE * k < a + BUF_HDR + PAGE_SIZE"
    and m: "PAGE_SIZE * m \<le> e" "e < PAGE_SIZE * m + PAGE_SIZE" and e: "a + BUF_HDR \<le> e"
  shows "(M q \<or> touch a e q) \<and> \<not> (k \<le> q \<and> q < m) \<longleftrightarrow> M q \<or> touch a (a + BUF_HDR) q"
proof
  assume A: "(M q \<or> touch a e q) \<and> \<not> (k \<le> q \<and> q < m)"
  show "M q \<or> touch a (a + BUF_HDR) q"
  proof (rule ccontr)
    assume n: "\<not> (M q \<or> touch a (a + BUF_HDR) q)"
    then have lo: "a + BUF_HDR \<le> PAGE_SIZE * q" "PAGE_SIZE * q < e" using A by (auto simp: touch_def)
    have "PAGE_SIZE * k < PAGE_SIZE * q + PAGE_SIZE" using k(2) lo by linarith
    then have kq: "k \<le> q" by auto
    have "PAGE_SIZE * q < PAGE_SIZE * m + PAGE_SIZE" using lo m by linarith
    then have "q \<le> m" by auto
    moreover have "q \<noteq> m" using n M lo m by (auto simp: around_def mult.commute)
    ultimately show False using A kq by auto
  qed
next
  assume "M q \<or> touch a (a + BUF_HDR) q"
  then show "(M q \<or> touch a e q) \<and> \<not> (k \<le> q \<and> q < m)"
    using fresh_pages(1) [OF M k(1) m(1), of q] e by (auto simp: touch_def)
qed

text \<open>
  Removing a header at \<open>c\<close> behind one at \<open>p\<close>: its first and last page are shared only with
  the header before it or the buffer behind it.
\<close>

lemma div_page_eq: "x div PAGE_SIZE = q \<longleftrightarrow> q * PAGE_SIZE \<le> x \<and> x < q * PAGE_SIZE + PAGE_SIZE"
  using page_bounds [of x] by (auto intro!: div_nat_eqI simp: mult.commute)

lemma touch_header: "touch c (c + BUF_HDR) q \<longleftrightarrow> c div PAGE_SIZE \<le> q \<and> q \<le> (c + BUF_HDR - 1) div PAGE_SIZE"
proof -
  have "c div PAGE_SIZE \<le> q \<longleftrightarrow> c < q * PAGE_SIZE + PAGE_SIZE"
    using div_less_iff_less_mult [of PAGE_SIZE c "q + 1"] by auto
  moreover have "q \<le> (c + BUF_HDR - 1) div PAGE_SIZE \<longleftrightarrow> q * PAGE_SIZE \<le> c + BUF_HDR - 1"
    by (rule less_eq_div_iff_mult_less_eq) simp
  ultimately show ?thesis by (auto simp: touch_def)
qed

lemma header_span:
  "(c + BUF_HDR - 1) div PAGE_SIZE \<le> c div PAGE_SIZE + 1" "c div PAGE_SIZE \<le> (c + BUF_HDR - 1) div PAGE_SIZE"
proof -
  have "(c + BUF_HDR - 1) div PAGE_SIZE \<le> (c + PAGE_SIZE) div PAGE_SIZE" by (rule div_le_mono) simp
  then show "(c + BUF_HDR - 1) div PAGE_SIZE \<le> c div PAGE_SIZE + 1" by simp
  show "c div PAGE_SIZE \<le> (c + BUF_HDR - 1) div PAGE_SIZE" by (rule div_le_mono) simp
qed

lemma shared_pages:
  assumes C: "chain hi (xs @ p # c # ys)" and p: "b_free p" and hi: "PAGE_SIZE dvd hi"
    and q: "b_addr c div PAGE_SIZE \<le> q" "q \<le> (b_addr c + BUF_HDR - 1) div PAGE_SIZE"
  shows "needed hi (xs @ p # ys) q \<longleftrightarrow>
    q = (b_addr p + BUF_HDR - 1) div PAGE_SIZE \<or> ys \<noteq> [] \<and> q = end_of hi ys div PAGE_SIZE"
proof
  let ?pe = "(b_addr p + BUF_HDR - 1) div PAGE_SIZE"
  have C': "chain (b_addr p) xs" "b_addr p + BUF_HDR \<le> b_addr c" "b_addr c + BUF_HDR \<le> end_of hi ys" "chain hi ys"
    using C by auto
  have pe: "?pe \<le> b_addr c div PAGE_SIZE" using C'(2) by (intro div_le_mono) simp
  have ne: "(b_addr c + BUF_HDR - 1) div PAGE_SIZE \<le> end_of hi ys div PAGE_SIZE"
    using C'(3) by (intro div_le_mono) simp
  assume "needed hi (xs @ p # ys) q"
  then consider "needed (b_addr p) xs q" | "touch (b_addr p) (b_addr p + BUF_HDR) q" | "needed hi ys q"
    using p by auto
  then show "q = ?pe \<or> ys \<noteq> [] \<and> q = end_of hi ys div PAGE_SIZE"
  proof cases
    case 1
    then have "q * PAGE_SIZE < b_addr p" using needed_bounds [OF C'(1) 1] by simp
    then have "q * PAGE_SIZE \<le> b_addr p + BUF_HDR - 1" by simp
    then have "q \<le> ?pe" by (simp add: less_eq_div_iff_mult_less_eq)
    then show ?thesis using pe q by simp
  next
    case 2
    then show ?thesis using touch_header pe q by fastforce
  next
    case 3
    have "end_of hi ys < q * PAGE_SIZE + PAGE_SIZE" using needed_bounds [OF C'(4) 3] by simp
    then have "end_of hi ys div PAGE_SIZE \<le> q"
      using div_less_iff_less_mult [of PAGE_SIZE "end_of hi ys" "q + 1"] by auto
    then show ?thesis using ne q 3 by (cases ys) auto
  qed
next
  assume "q = (b_addr p + BUF_HDR - 1) div PAGE_SIZE \<or> ys \<noteq> [] \<and> q = end_of hi ys div PAGE_SIZE"
  then show "needed hi (xs @ p # ys) q"
    using needed_first [of hi ys] C p header_span(2) [of "b_addr p"] by (auto simp: touch_header)
qed

lemma touch_in_region:
  assumes "geometry A" and "touch lo h q" and "al_buffer A \<le> lo" and "h \<le> region_end A"
  shows "al_buffer A \<le> PAGE_SIZE * q \<and> PAGE_SIZE * q < region_end A"
proof -
  obtain B S where B: "al_buffer A = PAGE_SIZE * B" by (rule geometryD [OF assms(1)])
  have "PAGE_SIZE * B < PAGE_SIZE * (q + 1)" using assms(2,3) B by (auto simp: touch_def)
  then have "B \<le> q" by simp
  then show ?thesis using B assms(2,4) by (auto simp: touch_def)
qed

lemma page_mask_inj: "page_mask x = page_mask y \<longleftrightarrow> x div PAGE_SIZE = y div PAGE_SIZE"
  by (simp add: page_mask_def)

lemma region_frame [simp]:
  "geometry (A\<lparr>al_bufs := bs\<rparr>) = geometry A" "geometry (A\<lparr>al_free := t\<rparr>) = geometry A"
  "geometry (A\<lparr>al_allocated := t\<rparr>) = geometry A" "geometry (A\<lparr>al_pages := ps\<rparr>) = geometry A"
  "geometry (A\<lparr>al_mapped := ms\<rparr>) = geometry A" "geometry (A\<lparr>al_async := n\<rparr>) = geometry A"
  "pages_are (A\<lparr>al_bufs := bs\<rparr>) N = pages_are A N" "pages_are (A\<lparr>al_free := t\<rparr>) N = pages_are A N"
  "pages_are (A\<lparr>al_allocated := t\<rparr>) N = pages_are A N" "pages_are (A\<lparr>al_async := n\<rparr>) N = pages_are A N"
  "live P (A\<lparr>al_bufs := bs\<rparr>) = live P A" "live P (A\<lparr>al_free := t\<rparr>) = live P A"
  "live P (A\<lparr>al_allocated := t\<rparr>) = live P A" "live P (A\<lparr>al_pages := ps\<rparr>) = live P A"
  "live P (A\<lparr>al_mapped := ms\<rparr>) = live P A" "live P (A\<lparr>al_async := n\<rparr>) = live P A"
  by (simp_all add: geometry_def pages_are_def live_def cong: option.case_cong)

lemma pages_are_cong: "pages_are A N \<Longrightarrow> (\<And>q. N q = N' q) \<Longrightarrow> pages_are A N'"
  by (simp add: pages_are_def)

lemma delete_free:
  assumes G: "geometry A" and bs: "al_bufs A = xs @ p # c # ys" and C: "chain (region_end A) (al_bufs A)"
    and lo: "al_buffer A \<le> b_addr c"
    and free: "b_free p" "b_free c" and N: "pages_are A (needed (region_end A) (al_bufs A))"
  shows "\<exists>ps ms. binder_delete_free_buffer P (b_addr c) A =
      Ret (A\<lparr>al_bufs := xs @ p # ys, al_pages := ps, al_mapped := ms\<rparr>) \<and>
    pages_are (A\<lparr>al_bufs := xs @ p # ys, al_pages := ps, al_mapped := ms\<rparr>) (needed (region_end A) (xs @ p # ys)) \<and>
    (live P A \<and> al_mapped A = al_pages A \<longrightarrow> ms = ps)"
proof -
  let ?A = "A\<lparr>al_bufs := xs @ p # ys\<rparr>"
  define H where "H = needed (region_end A) (xs @ p # ys)"
  define s where "s = b_addr c div PAGE_SIZE"
  define e where "e = (b_addr c + BUF_HDR - 1) div PAGE_SIZE"
  define pe where "pe = (b_addr p + BUF_HDR - 1) div PAGE_SIZE"
  define ns where "ns = end_of (region_end A) ys div PAGE_SIZE"
  have D: "distinct (map b_addr ((xs @ [p]) @ c # ys))" using chain_distinct [OF C] by (simp add: bs)
  have hi: "PAGE_SIZE dvd region_end A" using G by (simp add: geometry_def)
  have C2: "chain (region_end A) (xs @ p # c # ys)" using C by (simp add: bs)
  have sp: "e \<le> s + 1" "s \<le> e" using header_span [of "b_addr c"] by (simp_all add: s_def e_def)
  have HH: "H q \<longleftrightarrow> q = pe \<or> ys \<noteq> [] \<and> q = ns" if "s \<le> q" "q \<le> e" for q
    using shared_pages [OF C2 free(1) hi, of q] that by (simp add: s_def e_def pe_def ns_def H_def)
  have ord: "pe \<le> s" "e \<le> ns"
    unfolding pe_def s_def e_def ns_def using C2 by (intro div_le_mono; simp)+
  have nx: "next_buf (b_addr c) (al_bufs A) = (case ys of [] \<Rightarrow> None | d # _ \<Rightarrow> Some d)"
    using next_buf_split [of c "xs @ [p]" "b_addr c" ys] D by (simp add: bs)
  have pv: "prev_buf (b_addr c) (al_bufs A) = Some p"
    using prev_buf_split [OF D] by (simp add: bs)
  have dl: "list_del_buf (b_addr c) (al_bufs A) = xs @ p # ys"
    using list_del_split [OF D] by (simp add: bs)
  have pg: "buffer_start_page (b_addr c) = PAGE_SIZE * s" "buffer_end_page (b_addr c) = PAGE_SIZE * e"
    "buffer_end_page (b_addr p) = PAGE_SIZE * pe" "ys = d # ds \<Longrightarrow> buffer_start_page (b_addr d) = PAGE_SIZE * ns" for d ds
    by (simp_all add: buffer_start_page_def buffer_end_page_def page_mask_def s_def e_def pe_def ns_def)
  have code: "binder_delete_free_buffer P (b_addr c) A =
    (if \<not> H s \<or> \<not> H e
     then cbind (binder_update_page_range P False (PAGE_SIZE * (if \<not> H s then s else e))
            (PAGE_SIZE * ((if \<not> H e then e else s) + 1)) False ?A) (\<lambda>(_, A). Ret A)
     else Ret ?A)"
  proof (cases ys)
    case Nil
    then show ?thesis
      using HH [of s] HH [of e] ord sp free(1)
      by (auto simp: binder_delete_free_buffer_def pv nx dl Let_def pg(1-3) add.commute [of PAGE_SIZE])
  next
    case (Cons d ds)
    then show ?thesis
      using HH [of s] HH [of e] ord sp free(1)
      by (auto simp: binder_delete_free_buffer_def pv nx dl Let_def pg(1-3) pg(4) [OF Cons] add.commute [of PAGE_SIZE])
  qed
  have need: "needed (region_end A) (al_bufs A) q \<longleftrightarrow> H q \<or> s \<le> q \<and> q \<le> e" for q
    using free touch_header [of "b_addr c" q] by (auto simp: bs s_def e_def H_def)
  show ?thesis
  proof (cases "H s \<and> H e")
    case True
    have "s \<le> q \<and> q \<le> e \<longrightarrow> q = s \<or> q = e" for q using sp by auto
    then have "needed (region_end A) (al_bufs A) q \<longleftrightarrow> H q" for q using need True by metis
    then have "pages_are A H" using N pages_are_cong by blast
    moreover have "binder_delete_free_buffer P (b_addr c) A =
        Ret (A\<lparr>al_bufs := xs @ p # ys, al_pages := al_pages A, al_mapped := al_mapped A\<rparr>)"
      using code True by simp
    ultimately show ?thesis unfolding H_def [symmetric]
      by (intro exI [of _ "al_pages A"] exI [of _ "al_mapped A"]) simp
  next
    case False
    let ?k = "if \<not> H s then s else e" and ?m = "(if \<not> H e then e else s) + 1"
    have r: "\<not> H q" "s \<le> q" "q \<le> e" if "?k \<le> q" "q < ?m" for q
    proof -
      show *: "s \<le> q" "q \<le> e" using that sp by (auto split: if_splits)
      then have "q = s \<or> q = e" using sp by linarith
      then show "\<not> H q" using that False by (auto simp: less_Suc_eq_le dest: le_antisym split: if_splits)
    qed
    have reg: "al_buffer A \<le> PAGE_SIZE * q \<and> PAGE_SIZE * q < region_end A" if "?k \<le> q" "q < ?m" for q
    proof (rule touch_in_region [OF G])
      show "touch (b_addr c) (b_addr c + BUF_HDR) q" using r [OF that] touch_header by (auto simp: s_def e_def)
      show "b_addr c + BUF_HDR \<le> region_end A" using chain_le [OF C, of c] by (simp add: bs)
    qed (rule lo)
    have out: "H q" if "s \<le> q" "q \<le> e" "\<not> (?k \<le> q \<and> q < ?m)" for q
    proof -
      consider (1) "q = s" | (2) "q = e" using sp \<open>s \<le> q\<close> \<open>q \<le> e\<close> by linarith
      then show ?thesis
      proof cases
        case 1 then show ?thesis using that(3) False sp by (cases "H s"; cases "H e") auto
      next
        case 2 then show ?thesis using that(3) False sp by (cases "H s"; cases "H e") auto
      qed
    qed
    have "needed (region_end A) (al_bufs A) q \<and> \<not> (?k \<le> q \<and> q < ?m) \<longleftrightarrow> H q" for q
      using need [of q] r [of q] out [of q] by blast
    note need' = this
    have r': "needed (region_end A) (al_bufs A) q \<and> al_buffer ?A \<le> PAGE_SIZE * q \<and> PAGE_SIZE * q < region_end ?A"
      if "?k \<le> q" "q < ?m" for q
    proof -
      have "needed (region_end A) (al_bufs A) q" using need r(2,3) [OF that] by blast
      then show ?thesis using reg [OF that] by simp
    qed
    have "geometry ?A" "pages_are ?A (needed (region_end A) (al_bufs A))" using G N by simp_all
    from update_free [where P = P, OF this r'] obtain ok ps ms where u:
      "binder_update_page_range P False (PAGE_SIZE * ?k) (PAGE_SIZE * ?m) False ?A = Ret (ok, ?A\<lparr>al_pages := ps, al_mapped := ms\<rparr>)"
      "pages_are (?A\<lparr>al_pages := ps, al_mapped := ms\<rparr>)
         (\<lambda>q. needed (region_end A) (al_bufs A) q \<and> \<not> (?k \<le> q \<and> q < ?m))"
      "live P ?A \<and> al_mapped ?A = al_pages ?A \<longrightarrow> ms = ps" by blast
    have "binder_delete_free_buffer P (b_addr c) A = Ret (?A\<lparr>al_pages := ps, al_mapped := ms\<rparr>)"
      using code u(1) False by simp
    moreover have "pages_are (?A\<lparr>al_pages := ps, al_mapped := ms\<rparr>) H"
      using u(2) need' by (rule pages_are_cong)
    ultimately show ?thesis using u(3) unfolding H_def [symmetric] by auto
  qed
qed

end
