(* ===== verification/Drv_Alloc_Correct.thy ===== *)
theory Drv_Alloc_Correct
  imports Drv_Alloc_Lemmas
begin

text \<open>
  Correctness of the buffer allocator: the invariant that its list, its two trees, its page array
  and its accounting of asynchronous space keep, and what mapping, allocation, freeing and lookup
  do under it.
\<close>

section \<open>Sizes from user space\<close>

lemma unat_bound: "unat (x :: u64) < 2 ^ 64"
  using unsigned_less [of x, where ?'a = nat] by simp

lemma and_not_7_eq: "(x :: u64) AND NOT 7 = push_bit 3 (drop_bit 3 x)"
proof -
  have "(7 :: u64) = mask 3" by (simp add: mask_eq_exp_minus_1)
  then have "x AND NOT 7 = x AND NOT (mask 3)" by (rule arg_cong)
  also have "\<dots> = push_bit 3 (drop_bit 3 x)"
  proof (rule bit_word_eqI)
    fix n assume "n < LENGTH(64)"
    then show "bit (x AND NOT (mask 3)) n = bit (push_bit 3 (drop_bit 3 x)) n"
      by (cases "3 \<le> n") (simp_all add: bit_push_bit_iff bit_drop_bit_eq bit_and_iff bit_not_iff bit_mask_iff)
  qed
  finally show ?thesis .
qed

lemma unat_and_not_7: "unat ((x :: u64) AND NOT 7) = 8 * (unat x div 8)"
proof -
  have "unat (drop_bit 3 x) = drop_bit 3 (unat x)" by (rule unat_drop_bit_eq)
  then have "unat (drop_bit 3 x) = unat x div 8" by (simp only: drop_bit_eq_div) simp
  moreover have "8 * (unat x div 8) < 2 ^ 64" using unat_bound [of x] by linarith
  ultimately show ?thesis unfolding and_not_7_eq by (simp add: push_bit_eq_mult unat_word_ariths)
qed

lemma unat_align8: "unat (align8 x) = 8 * ((unat x + 7) mod 2 ^ 64 div 8)"
  unfolding align8_def unat_and_not_7 by (simp add: unat_word_ariths)

definition round8 :: "nat \<Rightarrow> nat" where
  "round8 n = (n + 7) div 8 * 8"

lemma round8_bounds: "n \<le> round8 n" "round8 n < n + 8" "8 dvd round8 n"
  unfolding round8_def by auto

lemma unat_align8_cases: "unat (align8 x) = (if round8 (unat x) < 2 ^ 64 then round8 (unat x) else 0)"
proof -
  have x: "unat x < 2 ^ 64" by (rule unat_bound)
  show ?thesis
  proof (cases "unat x + 7 < 2 ^ 64")
    case True
    then show ?thesis using round8_bounds(2) [of "unat x"] by (auto simp: unat_align8 round8_def)
  next
    case False
    then have "(unat x + 7) mod 2 ^ 64 = unat x + 7 - 2 ^ 64" using x by (simp add: mod_if)
    moreover have "(unat x + 7 - 2 ^ 64) div 8 = 0" using x by simp
    moreover have "round8 (unat x) \<ge> 2 ^ 64" using False by (simp add: round8_def)
    ultimately show ?thesis by (simp add: unat_align8)
  qed
qed

text \<open>A request that passes the two comparisons of the code did not wrap around.\<close>

lemma size_check:
  assumes "\<not> buf_need d o' < d" and "\<not> buf_need d o' < o'"
  shows "unat (buf_need d o') = round8 (unat d) + round8 (unat o')"
proof -
  let ?d = "round8 (unat d)" and ?o = "round8 (unat o')" and ?n = "unat (buf_need d o')"
  have lt: "unat d < 2 ^ 64" "unat o' < 2 ^ 64"
    by (rule unat_bound)+
  have n: "unat d \<le> ?n" "unat o' \<le> ?n" using assms by (simp_all add: word_less_nat_alt)
  have s: "?n = (unat (align8 d) + unat (align8 o')) mod 2 ^ 64"
    by (simp add: buf_need_def unat_word_ariths)
  have d: "unat (align8 d) = (if ?d < 2 ^ 64 then ?d else 0)"
    and o: "unat (align8 o') = (if ?o < 2 ^ 64 then ?o else 0)" by (rule unat_align8_cases)+
  note R = round8_bounds [of "unat d"] round8_bounds [of "unat o'"]
  have top8: "x \<le> 2 ^ 64 - 8" if "8 dvd x" "x < 2 ^ 64" for x :: nat
    using that by (auto elim!: dvdE)
  show ?thesis
  proof (cases "?d < 2 ^ 64 \<and> ?o < 2 ^ 64")
    case True
    then have *: "?d \<le> 2 ^ 64 - 8" "?o \<le> 2 ^ 64 - 8" using R top8 by blast+
    show ?thesis
    proof (cases "?d + ?o < 2 ^ 64")
      case False
      then have "?n = ?d + ?o - 2 ^ 64" using True * by (simp add: s d o mod_if)
      then show ?thesis using * R n False by simp
    qed (use True in \<open>simp add: s d o\<close>)
  next
    case False
    then consider "2 ^ 64 \<le> ?d" | "2 ^ 64 \<le> ?o" by linarith
    then show ?thesis
    proof cases
      case 1
      have "?n = (if ?o < 2 ^ 64 then ?o else 0)" using 1 by (simp add: s d o)
      then have "?n \<le> 2 ^ 64 - 8" using R(6) top8 by simp
      then show ?thesis using 1 R(2) n(1) by simp
    next
      case 2
      have "?n = (if ?d < 2 ^ 64 then ?d else 0)" using 2 by (simp add: s d o)
      then have "?n \<le> 2 ^ 64 - 8" using R(3) top8 by simp
      then show ?thesis using 2 R(5) n(2) by simp
    qed
  qed
qed

section \<open>Best fit\<close>

lemma best_fit_eq:
  assumes "\<And>x. x \<in> set (inorder t) \<Longrightarrow> free_at A x" and "sorted (map (binder_buffer_size A) (inorder t))"
  shows "\<exists>exact r. best_fit A n t best = Ret (exact, r) \<and>
    (if exact then \<exists>x \<in> set (inorder t). r = Some x \<and> binder_buffer_size A x = n
     else (\<forall>x \<in> set (inorder t). binder_buffer_size A x \<noteq> n) \<and>
       r = (case find (\<lambda>x. n < binder_buffer_size A x) (inorder t) of None \<Rightarrow> best | Some x \<Rightarrow> Some x))"
  using assms
proof (induction t arbitrary: best)
  case (Node l x r)
  let ?s = "binder_buffer_size A"
  have s: "sorted (map ?s (inorder l))" "sorted (map ?s (inorder r))"
    "\<And>y. y \<in> set (inorder l) \<Longrightarrow> ?s y \<le> ?s x" "\<And>y. y \<in> set (inorder r) \<Longrightarrow> ?s x \<le> ?s y"
    using Node.prems(2) by (auto simp: sorted_append)
  have x: "free_at A x" using Node.prems(1) by simp
  have fl: "\<And>y. y \<in> set (inorder l) \<Longrightarrow> free_at A y" and fr: "\<And>y. y \<in> set (inorder r) \<Longrightarrow> free_at A y"
    using Node.prems(1) by simp_all
  consider "n < ?s x" | "?s x < n" | "?s x = n" by linarith
  then show ?case
  proof cases
    case 1
    obtain exact r' where e: "best_fit A n l (Some x) = Ret (exact, r')"
      "if exact then \<exists>x \<in> set (inorder l). r' = Some x \<and> ?s x = n
       else (\<forall>x \<in> set (inorder l). ?s x \<noteq> n) \<and>
         r' = (case find (\<lambda>x. n < ?s x) (inorder l) of None \<Rightarrow> Some x | Some x \<Rightarrow> Some x)"
      using Node.IH(1) [OF fl s(1)] by blast
    have "best_fit A n (Node l x r) best = Ret (exact, r')"
      using 1 x e(1) by (auto simp: free_at_def)
    moreover have "\<forall>y \<in> set (inorder r). ?s y \<noteq> n" using 1 s(4) by force
    ultimately show ?thesis using 1 e(2)
      by (intro exI [of _ exact] exI [of _ r'])
        (cases exact; auto simp: find_append split: option.split)
  next
    case 2
    obtain exact r' where e: "best_fit A n r best = Ret (exact, r')"
      "if exact then \<exists>x \<in> set (inorder r). r' = Some x \<and> ?s x = n
       else (\<forall>x \<in> set (inorder r). ?s x \<noteq> n) \<and>
         r' = (case find (\<lambda>x. n < ?s x) (inorder r) of None \<Rightarrow> best | Some x \<Rightarrow> Some x)"
      using Node.IH(2) [OF fr s(2)] by blast
    have "best_fit A n (Node l x r) best = Ret (exact, r')"
      using 2 x e(1) by (auto simp: free_at_def)
    moreover have "\<forall>y \<in> set (inorder l). ?s y \<noteq> n" "find (\<lambda>x. n < ?s x) (inorder l) = None"
      using 2 s(3) by (force simp: find_None_iff)+
    ultimately show ?thesis using 2 e(2)
      by (intro exI [of _ exact] exI [of _ r'])
        (cases exact; auto simp: find_append split: option.split)
  next
    case 3
    then have "best_fit A n (Node l x r) best = Ret (True, Some x)"
      using x by (auto simp: free_at_def)
    then show ?thesis using 3 by (intro exI [of _ True] exI [of _ "Some x"]) simp
  qed
qed (auto intro: exI [of _ False])

lemma find_least:
  fixes f :: "'a \<Rightarrow> 'b::linorder"
  shows "sorted (map f xs) \<Longrightarrow> find (\<lambda>x. n < f x) xs = Some a \<Longrightarrow> x \<in> set xs \<Longrightarrow> n < f x \<Longrightarrow> f a \<le> f x"
  by (induction xs) (auto split: if_splits)

text \<open>The walk finds a smallest buffer that is large enough, if there is one.\<close>

lemma best_fit:
  assumes T: "free_tree A F" and F: "\<And>x. x \<in> F \<Longrightarrow> free_at A x"
  shows "\<exists>exact r. best_fit A n (al_free A) None = Ret (exact, r) \<and>
    (case r of None \<Rightarrow> \<not> exact \<and> (\<forall>x \<in> F. binder_buffer_size A x < n)
     | Some a \<Rightarrow> a \<in> F \<and> n \<le> binder_buffer_size A a \<and> (exact \<longleftrightarrow> binder_buffer_size A a = n) \<and>
         (\<forall>x \<in> F. n \<le> binder_buffer_size A x \<longrightarrow> binder_buffer_size A a \<le> binder_buffer_size A x))"
proof -
  let ?s = "binder_buffer_size A" and ?is = "inorder (al_free A)"
  have I: "set ?is = F" "sorted (map ?s ?is)" using T by (simp_all add: free_tree_def)
  obtain exact r where e: "best_fit A n (al_free A) None = Ret (exact, r)"
    "if exact then \<exists>x \<in> set ?is. r = Some x \<and> ?s x = n
     else (\<forall>x \<in> set ?is. ?s x \<noteq> n) \<and>
       r = (case find (\<lambda>x. n < ?s x) ?is of None \<Rightarrow> None | Some x \<Rightarrow> Some x)"
    using best_fit_eq [of "al_free A" A n None] F I by blast
  have first: "?s a \<le> ?s x" if "find (\<lambda>x. n < ?s x) ?is = Some a" "x \<in> set ?is" "n < ?s x" for a x
    by (rule find_least [OF I(2) that])
  show ?thesis
  proof (cases exact)
    case True
    then show ?thesis using e I(1) by fastforce
  next
    case False
    show ?thesis
    proof (cases "find (\<lambda>x. n < ?s x) ?is")
      case None
      then have "\<forall>x \<in> F. ?s x < n" using e(2) False I(1) by (fastforce simp: find_None_iff)
      then show ?thesis using e None False by auto
    next
      case (Some a)
      then have "a \<in> F" "n < ?s a" using find_Some_in [OF Some] I(1) by auto
      moreover have "\<forall>x \<in> F. n \<le> ?s x \<longrightarrow> ?s a \<le> ?s x"
        using first [OF Some] e(2) False I(1) by (metis le_neq_implies_less)
      ultimately show ?thesis using e Some False by auto
    qed
  qed
qed

section \<open>The invariant\<close>

definition frees :: "buf list \<Rightarrow> nat set" where
  "frees bs = b_addr ` {b \<in> set bs. b_free b}"

lemma frees_simps [simp]: "frees [] = {}" "frees (b # bs) = (if b_free b then insert (b_addr b) (frees bs) else frees bs)"
  "frees (xs @ ys) = frees xs \<union> frees ys"
  by (auto simp: frees_def)

lemma frees_subset: "frees bs \<subseteq> b_addr ` set bs"
  by (auto simp: frees_def)

primrec async_used :: "buf list \<Rightarrow> nat" where
  "async_used [] = 0"
| "async_used (b # bs) = (if \<not> b_free b \<and> b_async b then need_of b + BUF_HDR else 0) + async_used bs"

lemma async_used_append [simp]: "async_used (xs @ ys) = async_used xs + async_used ys"
  by (induction xs) auto

text \<open>
  The buffers tile the mapped region without two free neighbours, the content of each allocated
  one fits, the two trees hold exactly the allocated and the free buffers, a page is present
  exactly if a header or an allocated buffer needs it, and the asynchronous space is accounted for.
\<close>

definition al_ok :: "alloc \<Rightarrow> bool" where
  "al_ok A \<longleftrightarrow> geometry A \<and> end_of (region_end A) (al_bufs A) = al_buffer A \<and>
     chain (region_end A) (al_bufs A) \<and> fits (region_end A) (al_bufs A) \<and> coalesced (al_bufs A) \<and>
     inorder (al_allocated A) = used (al_bufs A) \<and> free_tree A (frees (al_bufs A)) \<and>
     pages_are A (needed (region_end A) (al_bufs A)) \<and>
     unat (al_async A) + async_used (al_bufs A) = al_size A div 2"

lemma free_at_frees:
  assumes "chain hi (al_bufs A)" and "x \<in> frees (al_bufs A)"
  shows "free_at A x"
  using assms buf_at_of_in [OF chain_distinct [OF assms(1)]] by (auto simp: frees_def free_at_def)

text \<open>Replacing one buffer by others at the same place leaves the tree of the other free buffers in order.\<close>

lemma free_tree_replace:
  assumes "free_tree A (frees xs \<union> frees ys)" and "al_free A' = al_free A"
    and "al_bufs A = xs @ X @ ys" and "al_bufs A' = xs @ Y @ ys" and "region_end A' = region_end A"
    and "chain (region_end A) (al_bufs A)" and "chain (region_end A') (al_bufs A')"
    and "end_of (region_end A) (X @ ys) = end_of (region_end A) (Y @ ys)"
  shows "free_tree A' (frees xs \<union> frees ys)"
proof (rule free_tree_frame [OF assms(1,2)])
  fix x assume "x \<in> frees xs \<union> frees ys"
  then obtain c where "c \<in> set xs \<union> set ys" "x = b_addr c" by (auto simp: frees_def)
  then show "binder_buffer_size A' x = binder_buffer_size A x"
    using size_frame [OF assms(3,4,5) chain_distinct [OF assms(6)] chain_distinct [OF assms(7)] assms(8)]
    by simp
qed

section \<open>Allocation\<close>

definition taken :: "u64 \<Rightarrow> u64 \<Rightarrow> bool \<Rightarrow> buf \<Rightarrow> buf" where
  "taken d o' is_async b = b\<lparr>b_free := False, b_data_size := d, b_offs_size := o', b_async := is_async\<rparr>"

lemma taken_simps [simp]:
  "b_addr (taken d o' i b) = b_addr b" "\<not> b_free (taken d o' i b)" "b_async (taken d o' i b) = i"
  "need_of (taken d o' i b) = unat (buf_need d o')"
  by (simp_all add: taken_def need_of_def)

lemma new_buf_simps [simp]: "b_addr (new_buf P a) = a" "b_free (new_buf P a)"
  by (simp_all add: new_buf_def)

lemma alloc_finish:
  assumes R: "rb_ok R" and bs: "al_bufs A = xs @ b # ys" and b: "b_free b" and a: "a = b_addr b"
    and C: "chain (region_end A) (al_bufs A)" and T: "inorder (al_allocated A) = used (al_bufs A)"
    and F: "free_tree A (frees (al_bufs A))"
    and rest: "rest = (if sp then [new_buf P (a + BUF_HDR + n)] else [])"
    and C': "chain (region_end A) (xs @ b # rest @ ys)"
  shows "\<exists>t1 t2. cbind (binder_insert_allocated_buffer R a
        (A\<lparr>al_free := rb_erase R a (al_free A), al_bufs := upd_buf a (\<lambda>b. b\<lparr>b_free := False\<rparr>) (al_bufs A)\<rparr>))
      (\<lambda>A. cbind (if sp then binder_insert_free_buffer R (a + BUF_HDR + n)
             (A\<lparr>al_bufs := list_add_after a (new_buf P (a + BUF_HDR + n)) (al_bufs A)\<rparr>) else Ret A)
        (\<lambda>A. Ret (A\<lparr>al_bufs := upd_buf a (\<lambda>b. b\<lparr>b_data_size := d, b_offs_size := o', b_async := i\<rparr>) (al_bufs A)\<rparr>)))
    = Ret (A\<lparr>al_free := t1, al_allocated := t2, al_bufs := xs @ taken d o' i b # rest @ ys\<rparr>) \<and>
    inorder t2 = used (xs @ taken d o' i b # rest @ ys) \<and>
    free_tree (A\<lparr>al_free := t1, al_bufs := xs @ taken d o' i b # rest @ ys\<rparr>) (frees (xs @ taken d o' i b # rest @ ys))"
proof -
  let ?b = "b\<lparr>b_free := False\<rparr>" and ?e = "rb_erase R a (al_free A)" and ?n = "a + BUF_HDR + n"
  let ?A2 = "A\<lparr>al_free := ?e, al_bufs := xs @ ?b # ys\<rparr>"
  let ?L = "xs @ taken d o' i b # rest @ ys"
  have D: "distinct (map b_addr (xs @ b # ys))" and D': "distinct (map b_addr (xs @ b # rest @ ys))"
    using chain_distinct [OF C] chain_distinct [OF C'] by (simp_all add: bs)
  have C2: "chain (region_end A) (xs @ ?b # ys)" and C3: "chain (region_end A) (xs @ ?b # rest @ ys)"
    and C4: "chain (region_end A) ?L"
    using C C' by (simp_all add: bs)
  have up: "upd_buf a (\<lambda>b. b\<lparr>b_free := False\<rparr>) (al_bufs A) = xs @ ?b # ys"
    using upd_buf_split [OF D] a by (simp add: bs)
  have "inorder (al_allocated ?A2) = used xs @ used ys" using T b by (simp add: bs)
  then obtain t2 where t2: "binder_insert_allocated_buffer R a ?A2 = Ret (?A2\<lparr>al_allocated := t2\<rparr>)"
    "inorder t2 = used (xs @ ?b # ys)"
    using insert_allocated [OF R, of ?A2 xs ?b ys] C2 a by auto
  let ?A3 = "?A2\<lparr>al_allocated := t2, al_bufs := xs @ ?b # rest @ ys\<rparr>"
  have "a \<in> frees (al_bufs A)" using b a by (simp add: bs)
  then have "free_tree (A\<lparr>al_free := ?e\<rparr>) (frees (al_bufs A) - {a})" by (rule free_tree_erase [OF R F])
  moreover have "frees (al_bufs A) - {a} = frees xs \<union> frees ys"
    using D frees_subset [of xs] frees_subset [of ys] b a by (auto simp: bs)
  ultimately have F2: "free_tree (A\<lparr>al_free := ?e\<rparr>) (frees xs \<union> frees ys)" by simp
  have F3: "free_tree ?A3 (frees xs \<union> frees ys)"
  proof (rule free_tree_replace [OF F2, where X = "[b]" and Y = "?b # rest"])
    show "chain (region_end (A\<lparr>al_free := ?e\<rparr>)) (al_bufs (A\<lparr>al_free := ?e\<rparr>))" using C by simp
    show "chain (region_end ?A3) (al_bufs ?A3)" using C3 by simp
  qed (simp_all add: bs)
  have fin: "upd_buf a (\<lambda>b. b\<lparr>b_data_size := d, b_offs_size := o', b_async := i\<rparr>) (xs @ ?b # rest @ ys) = ?L"
    using upd_buf_split [of xs ?b "rest @ ys"] D' a by (simp add: taken_def)
  have "\<exists>t1. (if sp then binder_insert_free_buffer R ?n (?A3) else Ret ?A3) = Ret (?A3\<lparr>al_free := t1\<rparr>) \<and>
      free_tree (?A3\<lparr>al_free := t1\<rparr>) (frees (xs @ ?b # rest @ ys))"
  proof (cases sp)
    case True
    have f: "free_at ?A3 x" if "x \<in> frees (xs @ ?b # rest @ ys)" for x
      using free_at_frees [of "region_end A" ?A3 x] C3 that by simp
    have "?n \<in> frees (xs @ ?b # rest @ ys)" using True rest by simp
    then have n: "free_at ?A3 ?n" by (rule f)
    have m: "?n \<notin> frees xs \<union> frees ys"
      using D' frees_subset [of xs] frees_subset [of ys] True rest by (auto simp: image_iff)
    have "\<And>x. x \<in> frees xs \<union> frees ys \<Longrightarrow> free_at ?A3 x" by (rule f) auto
    note n = n m this
    then show ?thesis using insert_free [OF R F3 n] True rest by simp
  next
    case False
    have e: "?A3\<lparr>al_free := ?e\<rparr> = ?A3" by simp
    have "frees (xs @ ?b # rest @ ys) = frees xs \<union> frees ys" using False rest by simp
    then have "free_tree (?A3\<lparr>al_free := ?e\<rparr>) (frees (xs @ ?b # rest @ ys))" unfolding e using F3 by simp
    moreover have "(if sp then binder_insert_free_buffer R ?n ?A3 else Ret ?A3) = Ret (?A3\<lparr>al_free := ?e\<rparr>)"
      unfolding e using False by simp
    ultimately show ?thesis by blast
  qed
  then obtain t1 where t1: "(if sp then binder_insert_free_buffer R ?n ?A3 else Ret ?A3) = Ret (?A3\<lparr>al_free := t1\<rparr>)"
    "free_tree (?A3\<lparr>al_free := t1\<rparr>) (frees (xs @ ?b # rest @ ys))" by blast
  have add: "(if sp then binder_insert_free_buffer R ?n (?A2\<lparr>al_allocated := t2,
      al_bufs := list_add_after a (new_buf P ?n) (al_bufs (?A2\<lparr>al_allocated := t2\<rparr>))\<rparr>) else Ret (?A2\<lparr>al_allocated := t2\<rparr>)) =
    (if sp then binder_insert_free_buffer R ?n ?A3 else Ret ?A3)"
    using list_add_split [of ?b xs a "new_buf P ?n" ys] D a by (simp add: rest)
  have "free_tree (A\<lparr>al_free := t1, al_bufs := ?L\<rparr>) (frees (xs @ ?b # rest @ ys))"
    by (rule free_tree_frame [OF t1(2)]) (simp, rule fun_cong [OF size_addrs], simp_all)
  moreover have "frees (xs @ ?b # rest @ ys) = frees ?L" "used ?L = used (xs @ ?b # ys)" using rest by auto
  ultimately show ?thesis using t2 t1(1)
    by (intro exI [of _ t1] exI [of _ t2]) (simp add: up add fin)
qed

text \<open>The pages needed after an allocation.\<close>

lemma needed_after_alloc:
  assumes C: "chain hi (xs @ b # ys)" and hi: "PAGE_SIZE dvd hi" and b: "b_free b" "b_addr b = a" and e: "e = end_of hi ys"
    and k: "a + BUF_HDR \<le> PAGE_SIZE * k" "PAGE_SIZE * k < a + BUF_HDR + PAGE_SIZE"
    and j: "a + BUF_HDR + u \<le> PAGE_SIZE * j" "PAGE_SIZE * j < a + BUF_HDR + u + PAGE_SIZE"
    and m: "PAGE_SIZE * m \<le> e" "e < PAGE_SIZE * m + PAGE_SIZE"
    and n: "a + BUF_HDR + n \<le> e" and sp: "sp \<longleftrightarrow> a + BUF_HDR + n + (BUF_HDR + 4) < e"
    and u: "u = (if sp then n + BUF_HDR else n)"
    and rest: "rest = (if sp then [new_buf P (a + BUF_HDR + n)] else [])"
  shows "needed hi (xs @ taken d o' i b # rest @ ys) q \<longleftrightarrow> needed hi (xs @ b # ys) q \<or> k \<le> q \<and> q < min j m"
    and "k \<le> q \<Longrightarrow> q < min j m \<Longrightarrow> \<not> needed hi (xs @ b # ys) q \<and> touch a e q"
proof -
  let ?M = "\<lambda>q. needed a xs q \<or> needed hi ys q"
  have M: "around a e ?M" using around_needed [OF C hi] by (simp add: b e)
  have N: "needed hi (xs @ b # ys) q \<longleftrightarrow> ?M q \<or> touch a (a + BUF_HDR) q" using b by auto
  show "needed hi (xs @ taken d o' i b # rest @ ys) q \<longleftrightarrow> needed hi (xs @ b # ys) q \<or> k \<le> q \<and> q < min j m"
  proof (cases sp)
    case True
    have "needed hi (xs @ taken d o' i b # rest @ ys) q \<longleftrightarrow>
        ?M q \<or> touch a (a + BUF_HDR + n) q \<or> touch (a + BUF_HDR + n) (a + BUF_HDR + n + BUF_HDR) q"
      using True by (auto simp: rest b)
    also have "\<dots> \<longleftrightarrow> (?M q \<or> touch a (a + BUF_HDR) q) \<or> k \<le> q \<and> q < min j m"
      by (rule split_pages [OF M k _ _ m]) (use j u sp True in auto)
    finally show ?thesis by (simp only: N)
  next
    case False
    have "needed hi (xs @ taken d o' i b # rest @ ys) q \<longleftrightarrow> ?M q \<or> touch a e q"
      using False by (auto simp: rest b e)
    also have "\<dots> \<longleftrightarrow> (?M q \<or> touch a (a + BUF_HDR) q) \<or> k \<le> q \<and> q < min j m"
      by (rule whole_pages [OF M k _ m, where u = n]) (use j u sp n False in auto)
    finally show ?thesis by (simp only: N)
  qed
  show "\<not> needed hi (xs @ b # ys) q \<and> touch a e q" if "k \<le> q" "q < min j m"
    using fresh_pages [OF M k(1) m(1) that(1)] that(2) N by simp
qed

text \<open>The state after an allocation of a free buffer that is large enough.\<close>

lemma al_ok_after_alloc:
  assumes ok: "al_ok A" and bs: "al_bufs A = xs @ b # ys" and b: "b_free b" "a = b_addr b"
    and n: "n = unat (buf_need d o')" "a + BUF_HDR + n \<le> end_of (region_end A) ys"
    and rest: "rest = (if sp then [new_buf P (a + BUF_HDR + n)] else [])"
    and sp: "sp \<longrightarrow> a + BUF_HDR + n + BUF_HDR \<le> end_of (region_end A) ys"
    and async: "i \<longrightarrow> n + BUF_HDR \<le> unat (al_async A)"
    and L: "L = xs @ taken d o' i b # rest @ ys"
    and T: "inorder t2 = used L" and F: "free_tree (A\<lparr>al_free := t1, al_bufs := L\<rparr>) (frees L)"
    and N: "pages_are (A\<lparr>al_pages := ps, al_mapped := ms\<rparr>) (needed (region_end A) L)"
  shows "al_ok (A\<lparr>al_pages := ps, al_mapped := ms, al_free := t1, al_allocated := t2, al_bufs := L,
    al_async := (if i then al_async A - (buf_need d o' + of_nat BUF_HDR) else al_async A)\<rparr>)" (is "al_ok ?A")
proof -
  have I: "geometry A" "end_of (region_end A) (al_bufs A) = al_buffer A" "chain (region_end A) (xs @ b # ys)"
    "fits (region_end A) (xs @ b # ys)" "coalesced (xs @ b # ys)"
    "unat (al_async A) + async_used (xs @ b # ys) = al_size A div 2"
    using ok by (simp_all add: al_ok_def bs)
  have ends: "end_of h (taken d o' i b # zs) = end_of h (b # ys)" for h zs by simp
  have 1: "end_of (region_end A) L = al_buffer A" using I(2) by (simp add: L bs)
  have 2: "chain (region_end A) L" using I(3) n(2) b(2) sp by (auto simp: L rest)
  have 3: "fits (region_end A) L" using I(4) n b(2) by (auto simp: L rest)
  have 4: "coalesced L" using I(5) b(1) by (auto simp: L rest)
  have "unat (al_async ?A) + async_used L = al_size A div 2"
  proof (cases i)
    case True
    have "n + BUF_HDR < 2 ^ 64"
      using True async unat_bound [of "al_async A"] by simp
    then have "unat (buf_need d o' + of_nat BUF_HDR) = n + BUF_HDR" by (simp add: n unat_word_ariths)
    then have "unat (al_async A - (buf_need d o' + of_nat BUF_HDR)) = unat (al_async A) - (n + BUF_HDR)"
      using True async by (simp add: unat_sub word_le_nat_alt)
    then show ?thesis using True async I(6) b(1) by (simp add: L rest n)
  qed (use I(6) b(1) in \<open>simp add: L rest\<close>)
  moreover have "pages_are ?A (needed (region_end A) L)" using N by (simp add: pages_are_def)
  moreover have "free_tree ?A (frees L)"
    by (rule free_tree_frame [OF F]) (simp, rule fun_cong [OF size_addrs], simp_all)
  moreover have "geometry ?A" using I(1) by simp
  ultimately show ?thesis using 1 2 3 4 T by (simp add: al_ok_def)
qed

lemma al_ok_mapped:
  "al_ok A \<Longrightarrow> length ms = length (al_mapped A) \<Longrightarrow> al_ok (A\<lparr>al_mapped := ms\<rparr>)"
  by (simp add: al_ok_def geometry_def pages_are_def free_tree_def size_addrs [of "A\<lparr>al_mapped := ms\<rparr>" A])

lemma alloc_pages_ok: "\<forall>i. pg_fault P i = P_ok \<Longrightarrow> alloc_pages P is done A = Ret (ok, A') \<Longrightarrow> ok"
  by (induction "is" arbitrary: "done" A) (auto split: if_splits)

text \<open>The requests that are refused whatever the memory does.\<close>

definition alloc_refused :: "u64 \<Rightarrow> u64 \<Rightarrow> bool \<Rightarrow> alloc \<Rightarrow> bool" where
  "alloc_refused d o' i A \<longleftrightarrow> al_vma A = None \<or> buf_need d o' < d \<or> buf_need d o' < o' \<or>
     (i \<and> al_async A < buf_need d o' + of_nat BUF_HDR) \<or>
     (\<forall>x \<in> frees (al_bufs A). binder_buffer_size A x < unat (buf_need d o'))"

definition same_region :: "alloc \<Rightarrow> alloc \<Rightarrow> bool" where
  "same_region A A' \<longleftrightarrow> al_buffer A' = al_buffer A \<and> al_size A' = al_size A \<and> al_offset A' = al_offset A \<and>
     al_vma A' = al_vma A"

text \<open>What an allocation does when it succeeds: it takes a smallest free buffer that is large enough.\<close>

definition alloc_takes :: "page_env \<Rightarrow> u64 \<Rightarrow> u64 \<Rightarrow> bool \<Rightarrow> alloc \<Rightarrow> nat \<Rightarrow> alloc \<Rightarrow> bool" where
  "alloc_takes P d o' i A a A' \<longleftrightarrow> (\<exists>xs b ys rest. al_bufs A = xs @ b # ys \<and> b_free b \<and> b_addr b = a \<and>
     al_bufs A' = xs @ taken d o' i b # rest @ ys \<and>
     (rest = [] \<or> rest = [new_buf P (a + BUF_HDR + unat (buf_need d o'))]) \<and>
     unat (buf_need d o') \<le> binder_buffer_size A a \<and>
     (\<forall>x \<in> frees (al_bufs A). unat (buf_need d o') \<le> binder_buffer_size A x \<longrightarrow>
        binder_buffer_size A a \<le> binder_buffer_size A x) \<and>
     al_async A' = (if i then al_async A - (buf_need d o' + of_nat BUF_HDR) else al_async A))"

lemma update_ok:
  "live P A \<Longrightarrow> \<forall>i. pg_fault P i = P_ok \<Longrightarrow> binder_update_page_range P True s e v A = Ret (ok, A') \<Longrightarrow> ok"
  by (auto simp: binder_update_page_range_def live_def split: if_splits option.splits dest: alloc_pages_ok)

lemma alloc_run:
  assumes R: "rb_ok R" and ok: "al_ok A" and nr: "\<not> alloc_refused d o' i A"
  shows "\<exists>r A'. binder_alloc_buf R P d o' i A = Ret (r, A') \<and> al_ok A' \<and> same_region A A' \<and>
    (al_mapped A = al_pages A \<longrightarrow> al_mapped A' = al_pages A') \<and>
    (live P A \<and> (\<forall>i. pg_fault P i = P_ok) \<longrightarrow> r \<noteq> None) \<and>
    (case r of None \<Rightarrow> A' = A\<lparr>al_mapped := al_mapped A'\<rparr> | Some a \<Rightarrow> alloc_takes P d o' i A a A')"
proof -
  let ?hi = "region_end A" and ?n = "unat (buf_need d o')"
  have I: "geometry A" "chain ?hi (al_bufs A)" "inorder (al_allocated A) = used (al_bufs A)"
    "free_tree A (frees (al_bufs A))" "pages_are A (needed ?hi (al_bufs A))" "end_of ?hi (al_bufs A) = al_buffer A"
    using ok by (simp_all add: al_ok_def)
  have hi: "PAGE_SIZE dvd ?hi" "?hi \<le> 2 ^ 64" "0 < al_buffer A" using I(1) by (simp_all add: geometry_def)
  obtain exact r where bf: "best_fit A ?n (al_free A) None = Ret (exact, r)"
    "case r of None \<Rightarrow> \<not> exact \<and> (\<forall>x \<in> frees (al_bufs A). binder_buffer_size A x < ?n)
     | Some a \<Rightarrow> a \<in> frees (al_bufs A) \<and> ?n \<le> binder_buffer_size A a \<and> (exact \<longleftrightarrow> binder_buffer_size A a = ?n) \<and>
         (\<forall>x \<in> frees (al_bufs A). ?n \<le> binder_buffer_size A x \<longrightarrow> binder_buffer_size A a \<le> binder_buffer_size A x)"
    using best_fit [OF I(4) free_at_frees [OF I(2)], of ?n] by blast
  obtain a where r: "r = Some a" using bf(2) nr by (cases r) (auto simp: alloc_refused_def)
  then obtain xs b ys where bs: "al_bufs A = xs @ b # ys" and b: "b_free b" "b_addr b = a"
    using bf(2) by (fastforce simp: frees_def dest: split_list)
  define e where "e = end_of ?hi ys"
  have C: "chain ?hi (xs @ b # ys)" using I(2) by (simp add: bs)
  have sz: "binder_buffer_size A a = e - (a + BUF_HDR)" "a + BUF_HDR \<le> e"
    using size_split [OF bs] chain_distinct [OF I(2)] C b by (auto simp: bs e_def)
  have ne: "a + BUF_HDR + ?n \<le> e" and exact: "exact \<longleftrightarrow> e = a + BUF_HDR + ?n"
    using bf(2) r sz by auto
  have reg: "al_buffer A \<le> a" "e \<le> ?hi" using chain_le [OF I(2), of b] I(6) b chain_end [of ?hi ys] C
    by (auto simp: bs e_def)
  define sp where "sp \<longleftrightarrow> a + BUF_HDR + ?n + (BUF_HDR + 4) < e"
  define u where "u = (if sp then ?n + BUF_HDR else ?n)"
  define rest where "rest = (if sp then [new_buf P (a + BUF_HDR + ?n)] else [])"
  define L where "L = xs @ taken d o' i b # rest @ ys"
  have u: "(if exact then binder_buffer_size A a else if ?n + BUF_HDR + 4 \<ge> binder_buffer_size A a then ?n
      else ?n + BUF_HDR) = u"
    using exact sz ne by (auto simp: u_def sp_def)
  have une: "u \<noteq> ?n \<longleftrightarrow> sp" by (simp add: u_def)
  obtain k where k: "page_align (a + BUF_HDR) = PAGE_SIZE * k" "a + BUF_HDR \<le> PAGE_SIZE * k"
    "PAGE_SIZE * k < a + BUF_HDR + PAGE_SIZE" using page_align_eq by blast
  obtain j where j: "page_align (a + BUF_HDR + u) = PAGE_SIZE * j" "a + BUF_HDR + u \<le> PAGE_SIZE * j"
    "PAGE_SIZE * j < a + BUF_HDR + u + PAGE_SIZE" using page_align_eq by blast
  obtain m where m: "page_mask e = PAGE_SIZE * m" "PAGE_SIZE * m \<le> e" "e < PAGE_SIZE * m + PAGE_SIZE"
    using page_mask_eq by blast
  have mn: "min (PAGE_SIZE * j) (PAGE_SIZE * m) = PAGE_SIZE * min j m" by (simp add: min_def)
  note N = C hi(1) b e_def k(2,3) j(2,3) m(2,3) ne sp_def u_def rest_def
  have need: "needed ?hi L q \<longleftrightarrow> needed ?hi (xs @ b # ys) q \<or> k \<le> q \<and> q < min j m"
    "k \<le> q \<Longrightarrow> q < min j m \<Longrightarrow> \<not> needed ?hi (xs @ b # ys) q \<and> touch a e q" for q
    unfolding L_def by (rule needed_after_alloc(1) [OF N], rule needed_after_alloc(2) [OF N])
  have fr: "\<not> needed ?hi (al_bufs A) q \<and> al_buffer A \<le> PAGE_SIZE * q \<and> PAGE_SIZE * q < ?hi"
    if "k \<le> q" "q < min j m" for q
    using need(2) [OF that] touch_in_region [OF I(1) _ reg] by (simp add: bs)
  have v: "False = False \<longrightarrow> al_vma A \<noteq> None" using nr by (simp add: alloc_refused_def)
  from update_allocate [where P = P and v = False, OF I(1,5) v fr] obtain ok ps ms where up: "binder_update_page_range P True (PAGE_SIZE * k) (PAGE_SIZE * min j m) False A =
      Ret (ok, A\<lparr>al_pages := ps, al_mapped := ms\<rparr>)" "length ms = length (al_mapped A)"
    "if ok then pages_are (A\<lparr>al_pages := ps, al_mapped := ms\<rparr>) (\<lambda>q. needed ?hi (al_bufs A) q \<or> k \<le> q \<and> q < min j m)
     else ps = al_pages A" "al_mapped A = al_pages A \<longrightarrow> ms = ps"
    by blast
  let ?A1 = "A\<lparr>al_pages := ps, al_mapped := ms\<rparr>"
  have g: "(al_vma A = None) = False" "(buf_need d o' < d \<or> buf_need d o' < o') = False"
    "(i \<and> al_async A < buf_need d o' + of_nat BUF_HDR) = False"
    using nr by (auto simp: alloc_refused_def)
  have mask: "page_mask (a + BUF_HDR + binder_buffer_size A a) = PAGE_SIZE * m" using sz m(1) by simp
  have code: "binder_alloc_buf R P d o' i A = (if \<not> ok then Ret (None, ?A1) else
      cbind (cbind (binder_insert_allocated_buffer R a (?A1\<lparr>al_free := rb_erase R a (al_free A),
               al_bufs := upd_buf a (\<lambda>b. b\<lparr>b_free := False\<rparr>) (al_bufs A)\<rparr>))
        (\<lambda>A. cbind (if sp then binder_insert_free_buffer R (a + BUF_HDR + ?n)
               (A\<lparr>al_bufs := list_add_after a (new_buf P (a + BUF_HDR + ?n)) (al_bufs A)\<rparr>) else Ret A)
          (\<lambda>A. Ret (A\<lparr>al_bufs := upd_buf a (\<lambda>b. b\<lparr>b_data_size := d, b_offs_size := o', b_async := i\<rparr>) (al_bufs A)\<rparr>))))
      (\<lambda>A. Ret (Some a, A\<lparr>al_async := (if i then al_async A - (buf_need d o' + of_nat BUF_HDR) else al_async A)\<rparr>)))"
    unfolding binder_alloc_buf_def Let_def
    by (simp only: g if_False bf(1) r cbind.simps prod.case option.case u une k(1) j(1) mask mn up(1) cbind_assoc)
      (simp add: cbind_assoc cong: if_cong)
  show ?thesis
  proof (cases ok)
    case False
    then have ps: "ps = al_pages A" using up(3) by simp
    then have "al_ok ?A1" using al_ok_mapped [OF ok up(2)] by simp
    moreover have "\<not> (live P A \<and> (\<forall>i. pg_fault P i = P_ok))"
      using update_ok [OF _ _ up(1)] False by blast
    ultimately show ?thesis using code False up(4) ps
      by (intro exI [of _ None] exI [of _ ?A1]) (auto simp: same_region_def)
  next
    case True
    have spC: "sp \<longrightarrow> a + BUF_HDR + ?n + BUF_HDR \<le> end_of ?hi ys" by (auto simp: sp_def e_def)
    have C': "chain (region_end ?A1) (xs @ b # rest @ ys)"
      using C ne b spC by (auto simp: rest_def e_def)
    have ft: "free_tree ?A1 (frees (al_bufs ?A1))"
      using free_tree_frame [OF I(4), of ?A1] by simp
    obtain t1 t2 where fin: "cbind (binder_insert_allocated_buffer R a (?A1\<lparr>al_free := rb_erase R a (al_free ?A1),
               al_bufs := upd_buf a (\<lambda>b. b\<lparr>b_free := False\<rparr>) (al_bufs ?A1)\<rparr>))
        (\<lambda>A. cbind (if sp then binder_insert_free_buffer R (a + BUF_HDR + ?n)
               (A\<lparr>al_bufs := list_add_after a (new_buf P (a + BUF_HDR + ?n)) (al_bufs A)\<rparr>) else Ret A)
          (\<lambda>A. Ret (A\<lparr>al_bufs := upd_buf a (\<lambda>b. b\<lparr>b_data_size := d, b_offs_size := o', b_async := i\<rparr>) (al_bufs A)\<rparr>)))
      = Ret (?A1\<lparr>al_free := t1, al_allocated := t2, al_bufs := L\<rparr>)" "inorder t2 = used L"
      "free_tree (?A1\<lparr>al_free := t1, al_bufs := L\<rparr>) (frees L)"
      using alloc_finish [OF R, where A = ?A1 and xs = xs and b = b and ys = ys and a = a and rest = rest and
          sp = sp and P = P and n = ?n and d = d and o' = o' and i = i, OF _ b(1) _ _ _ ft rest_def C'] bs b I(2,3)
      unfolding L_def by auto
    let ?A' = "A\<lparr>al_pages := ps, al_mapped := ms, al_free := t1, al_allocated := t2, al_bufs := L,
      al_async := (if i then al_async A - (buf_need d o' + of_nat BUF_HDR) else al_async A)\<rparr>"
    have run: "binder_alloc_buf R P d o' i A = Ret (Some a, ?A')"
      using code fin(1) True by simp
    have "pages_are ?A1 (needed ?hi L)"
      using up(3) True need(1) pages_are_cong by (simp add: bs)
    moreover have "free_tree (A\<lparr>al_free := t1, al_bufs := L\<rparr>) (frees L)"
      by (rule free_tree_frame [OF fin(3)]) (simp, rule fun_cong [OF size_addrs], simp_all)
    moreover have "i \<longrightarrow> ?n + BUF_HDR \<le> unat (al_async A)"
    proof
      assume i
      have "?n + BUF_HDR < 2 ^ 64" using ne reg hi by simp
      then have "unat (buf_need d o' + of_nat BUF_HDR) = ?n + BUF_HDR" by (simp add: unat_word_ariths)
      moreover have "buf_need d o' + of_nat BUF_HDR \<le> al_async A"
        using nr \<open>i\<close> by (auto simp: alloc_refused_def not_less)
      ultimately show "?n + BUF_HDR \<le> unat (al_async A)" by (simp add: word_le_nat_alt)
    qed
    ultimately have "al_ok ?A'"
      using al_ok_after_alloc [OF ok bs b(1) b(2) [symmetric] refl _ rest_def spC _ L_def fin(2)] ne
      by (simp add: e_def)
    moreover have "alloc_takes P d o' i A a ?A'"
      unfolding alloc_takes_def
      by (rule exI [of _ xs], rule exI [of _ b], rule exI [of _ ys], rule exI [of _ rest])
        (use bf(2) r bs b in \<open>auto simp: L_def rest_def\<close>)
    ultimately show ?thesis using run up(4)
      by (intro exI [of _ "Some a"] exI [of _ ?A']) (simp add: same_region_def)
  qed
qed

lemma alloc_none:
  assumes ok: "al_ok A" and r: "alloc_refused d o' i A"
  shows "binder_alloc_buf R P d o' i A = Ret (None, A)"
proof -
  have I: "chain (region_end A) (al_bufs A)" "free_tree A (frees (al_bufs A))"
    using ok by (simp_all add: al_ok_def)
  obtain exact q where bf: "best_fit A (unat (buf_need d o')) (al_free A) None = Ret (exact, q)"
    "case q of None \<Rightarrow> True | Some a \<Rightarrow> a \<in> frees (al_bufs A) \<and> unat (buf_need d o') \<le> binder_buffer_size A a"
    using best_fit [OF I(2) free_at_frees [OF I(1)], of "unat (buf_need d o')"] by (fastforce split: option.splits)
  have "q = None" if "\<forall>x \<in> frees (al_bufs A). binder_buffer_size A x < unat (buf_need d o')"
    using bf(2) that by (cases q) force+
  then show ?thesis
    using r bf(1) unfolding alloc_refused_def binder_alloc_buf_def Let_def by (elim disjE) simp_all
qed

section \<open>Freeing\<close>

text \<open>The invariant while a free buffer is not yet back in the tree and may have free neighbours.\<close>

definition part_ok :: "buf list \<Rightarrow> buf \<Rightarrow> buf list \<Rightarrow> alloc \<Rightarrow> bool" where
  "part_ok xs b ys A \<longleftrightarrow> al_bufs A = xs @ b # ys \<and> b_free b \<and> geometry A \<and>
     end_of (region_end A) (al_bufs A) = al_buffer A \<and> chain (region_end A) (al_bufs A) \<and>
     fits (region_end A) (al_bufs A) \<and> coalesced xs \<and> coalesced ys \<and>
     inorder (al_allocated A) = used (al_bufs A) \<and> free_tree A (frees xs \<union> frees ys) \<and>
     pages_are A (needed (region_end A) (al_bufs A)) \<and>
     unat (al_async A) + async_used (al_bufs A) = al_size A div 2"

definition keeps :: "page_env \<Rightarrow> alloc \<Rightarrow> alloc \<Rightarrow> bool" where
  "keeps P A A' \<longleftrightarrow> same_region A A' \<and> (live P A \<and> al_mapped A = al_pages A \<longrightarrow> al_mapped A' = al_pages A')"

lemma keeps_refl [simp]: "keeps P A A"
  by (simp add: keeps_def same_region_def)

lemma keeps_trans: "keeps P A B \<Longrightarrow> keeps P B C \<Longrightarrow> keeps P A C"
  by (auto simp: keeps_def same_region_def live_def split: option.splits)

fun drop_free :: "buf list \<Rightarrow> buf list" where
  "drop_free [] = []"
| "drop_free (c # zs) = (if b_free c then zs else c # zs)"

lemma fits_shrink: "fits h zs \<Longrightarrow> h \<le> h' \<Longrightarrow> fits h' zs"
proof (induction zs)
  case (Cons z zs)
  have "end_of h zs \<le> end_of h' zs" using Cons.prems(2) by (cases zs) simp_all
  then show ?case using Cons by auto
qed simp

lemma part_okD:
  assumes "part_ok xs b ys A"
  shows "al_bufs A = xs @ b # ys" "b_free b" "geometry A" "end_of (region_end A) (al_bufs A) = al_buffer A"
    "chain (region_end A) (al_bufs A)" "fits (region_end A) (al_bufs A)" "coalesced xs" "coalesced ys"
    "inorder (al_allocated A) = used (al_bufs A)" "free_tree A (frees xs \<union> frees ys)"
    "pages_are A (needed (region_end A) (al_bufs A))" "unat (al_async A) + async_used (al_bufs A) = al_size A div 2"
  using assms unfolding part_ok_def by blast+

lemma part_ok_low: "part_ok xs b ys A \<Longrightarrow> c \<in> set (b # ys) \<Longrightarrow> al_buffer A \<le> b_addr c"
  using chain_le [OF part_okD(5), of xs b ys A c] part_okD(1,4) [of xs b ys A] by auto

lemma part_ok_tree:
  assumes "part_ok xs b ys A"
  shows "x \<in> frees xs \<union> frees ys \<Longrightarrow> free_at A x" "free_at A (b_addr b)" "b_addr b \<notin> frees xs \<union> frees ys"
proof -
  have C: "chain (region_end A) (al_bufs A)" and bs: "al_bufs A = xs @ b # ys" "b_free b"
    by (rule part_okD [OF assms])+
  show "x \<in> frees xs \<union> frees ys \<Longrightarrow> free_at A x" "free_at A (b_addr b)"
    using free_at_frees [OF C] bs by auto
  show "b_addr b \<notin> frees xs \<union> frees ys"
    using chain_distinct [OF C] bs frees_subset [of xs] frees_subset [of ys] by auto
qed

lemma merge_next:
  assumes R: "rb_ok R" and ok: "part_ok xs b ys A"
  shows "\<exists>A'. (case next_buf (b_addr b) (al_bufs A) of
                      None \<Rightarrow> Ret A
                    | Some next \<Rightarrow>
                        if b_free next
                        then binder_delete_free_buffer P (b_addr next)
                               (A\<lparr>al_free := rb_erase R (b_addr next) (al_free A)\<rparr>)
                        else Ret A) = Ret A' \<and>
    part_ok xs b (drop_free ys) A' \<and> hd_used (drop_free ys) \<and> al_async A' = al_async A \<and> keeps P A A'"
proof -
  note I = part_okD [OF ok]
  have D: "distinct (map b_addr (al_bufs A))" by (rule chain_distinct [OF I(5)])
  have nx: "next_buf (b_addr b) (al_bufs A) = (case ys of [] \<Rightarrow> None | c # _ \<Rightarrow> Some c)"
    using next_buf_split [of b xs "b_addr b" ys] D by (simp add: I(1))
  show ?thesis
  proof (cases "\<exists>c zs. ys = c # zs \<and> b_free c")
    case False
    then have "drop_free ys = ys" "hd_used ys" by (cases ys; auto)+
    then show ?thesis using ok nx False by (intro exI [of _ A]) (cases ys; auto)
  next
    case True
    then obtain c zs where c: "ys = c # zs" "b_free c" by blast
    let ?A = "A\<lparr>al_free := rb_erase R (b_addr c) (al_free A)\<rparr>"
    have lo: "al_buffer A \<le> b_addr c" by (rule part_ok_low [OF ok]) (simp add: c)
    have C: "chain (region_end A) (xs @ b # zs)" using I(1,5) c by auto
    obtain ps ms where d: "binder_delete_free_buffer P (b_addr c) ?A =
        Ret (?A\<lparr>al_bufs := xs @ b # zs, al_pages := ps, al_mapped := ms\<rparr>)"
      "pages_are (?A\<lparr>al_bufs := xs @ b # zs, al_pages := ps, al_mapped := ms\<rparr>) (needed (region_end A) (xs @ b # zs))"
      "live P A \<and> al_mapped A = al_pages A \<longrightarrow> ms = ps"
      using delete_free [of ?A xs b c zs P] I c lo by auto
    let ?A' = "?A\<lparr>al_bufs := xs @ b # zs, al_pages := ps, al_mapped := ms\<rparr>"
    have dc: "b_addr c \<notin> frees xs" "b_addr c \<notin> frees zs"
      using D c frees_subset [of xs] frees_subset [of zs] by (auto simp: I(1))
    have "free_tree ?A ((frees xs \<union> frees ys) - {b_addr c})"
      by (rule free_tree_erase [OF R I(10)]) (simp add: c)
    moreover have "(frees xs \<union> frees ys) - {b_addr c} = frees xs \<union> frees zs" using dc c by auto
    ultimately have T: "free_tree ?A (frees xs \<union> frees zs)" by simp
    have T': "free_tree ?A' (frees xs \<union> frees zs)"
    proof (rule free_tree_replace [OF T, where X = "[b, c]" and Y = "[b]"])
      show "chain (region_end ?A) (al_bufs ?A)" "chain (region_end ?A') (al_bufs ?A')" using I(5) C by simp_all
    qed (simp_all add: I c)
    have "fits (region_end A) (xs @ b # zs)" using I(1,2,6) c by (simp add: fits_shrink)
    moreover have "end_of (region_end A) (xs @ b # zs) = al_buffer A" using I(1,4) by (cases xs) auto
    moreover have "inorder (al_allocated A) = used (xs @ b # zs)" using I(1,2,9) c by simp
    moreover have "unat (al_async A) + async_used (xs @ b # zs) = al_size A div 2" using I(1,2,12) c by simp
    ultimately have "part_ok xs b zs ?A'"
      using I c C T' d(2) by (simp add: part_ok_def)
    moreover have "keeps P A ?A'" using d(3) by (auto simp: keeps_def same_region_def)
    moreover have "hd_used zs" using I(8) c by simp
    ultimately show ?thesis using d(1) nx c by (intro exI [of _ ?A']) simp
  qed
qed

lemma merge_prev:
  assumes R: "rb_ok R" and ok: "part_ok xs b ys A" and hd: "hd_used ys"
  shows "\<exists>A'. (case prev_buf (b_addr b) (al_bufs A) of
                      None \<Rightarrow> binder_insert_free_buffer R (b_addr b) A
                    | Some prev \<Rightarrow>
                        if b_free prev
                        then cbind (binder_delete_free_buffer P (b_addr b) A) (\<lambda>A.
                               binder_insert_free_buffer R (b_addr prev)
                                 (A\<lparr>al_free := rb_erase R (b_addr prev) (al_free A)\<rparr>))
                        else binder_insert_free_buffer R (b_addr b) A) = Ret A' \<and>
    al_ok A' \<and> al_bufs A' = (if last_used xs then xs @ b # ys else xs @ ys) \<and>
    al_async A' = al_async A \<and> keeps P A A'"
proof -
  note I = part_okD [OF ok]
  have D: "distinct (map b_addr (xs @ b # ys))" using chain_distinct [OF I(5)] by (simp add: I(1))
  have pv: "prev_buf (b_addr b) (al_bufs A) = (if xs = [] then None else Some (last xs))"
    using prev_buf_split [OF D refl] by (simp add: I(1))
  have lu: "last_used xs \<longleftrightarrow> xs = [] \<or> \<not> b_free (last xs)" by (induction xs) auto
  note P = part_ok_tree [OF ok]
  show ?thesis
  proof (cases "last_used xs")
    case True
    obtain t where t: "binder_insert_free_buffer R (b_addr b) A = Ret (A\<lparr>al_free := t\<rparr>)"
      "free_tree (A\<lparr>al_free := t\<rparr>) (insert (b_addr b) (frees xs \<union> frees ys))"
      using insert_free [OF R I(10) P(2,3,1)] by blast
    have "frees (al_bufs A) = insert (b_addr b) (frees xs \<union> frees ys)" using I(1,2) by auto
    then have "al_ok (A\<lparr>al_free := t\<rparr>)"
      using I True hd t(2) by (simp add: al_ok_def)
    moreover have "keeps P A (A\<lparr>al_free := t\<rparr>)" by (simp add: keeps_def same_region_def)
    ultimately show ?thesis using t(1) True pv lu I(1) by (intro exI [of _ "A\<lparr>al_free := t\<rparr>"]) auto
  next
    case False
    then obtain us p where p: "xs = us @ [p]" "b_free p" using lu by (cases xs rule: rev_cases) auto
    have lo: "al_buffer A \<le> b_addr b" by (rule part_ok_low [OF ok]) simp
    have C: "chain (region_end A) (us @ p # ys)" using I(1,5) p by auto
    have bs: "al_bufs A = us @ p # b # ys" using I(1) p by simp
    obtain ps ms where d: "binder_delete_free_buffer P (b_addr b) A =
        Ret (A\<lparr>al_bufs := us @ p # ys, al_pages := ps, al_mapped := ms\<rparr>)"
      "pages_are (A\<lparr>al_bufs := us @ p # ys, al_pages := ps, al_mapped := ms\<rparr>) (needed (region_end A) (us @ p # ys))"
      "live P A \<and> al_mapped A = al_pages A \<longrightarrow> ms = ps"
      using delete_free [OF I(3) bs I(5) lo p(2) I(2) I(11)] by blast
    let ?A1 = "A\<lparr>al_bufs := us @ p # ys, al_pages := ps, al_mapped := ms\<rparr>"
    let ?A2 = "?A1\<lparr>al_free := rb_erase R (b_addr p) (al_free A)\<rparr>"
    have dp: "b_addr p \<notin> frees us" "b_addr p \<notin> frees ys"
      using D p frees_subset [of us] frees_subset [of ys] by auto
    have "free_tree (A\<lparr>al_free := rb_erase R (b_addr p) (al_free A)\<rparr>) ((frees xs \<union> frees ys) - {b_addr p})"
      by (rule free_tree_erase [OF R I(10)]) (simp add: p)
    moreover have "(frees xs \<union> frees ys) - {b_addr p} = frees us \<union> frees ys" using dp p by auto
    ultimately have T: "free_tree (A\<lparr>al_free := rb_erase R (b_addr p) (al_free A)\<rparr>) (frees us \<union> frees ys)" by simp
    have T': "free_tree ?A2 (frees us \<union> frees ys)"
    proof (rule free_tree_replace [OF T, where X = "[p, b]" and Y = "[p]"])
      show "chain (region_end (A\<lparr>al_free := rb_erase R (b_addr p) (al_free A)\<rparr>))
          (al_bufs (A\<lparr>al_free := rb_erase R (b_addr p) (al_free A)\<rparr>))" using I(5) by simp
      show "chain (region_end ?A2) (al_bufs ?A2)" using C by simp
    qed (simp_all add: bs)
    have fr: "free_at ?A2 x" if "x \<in> frees (us @ p # ys)" for x
      using free_at_frees [of "region_end A" ?A2 x] C that by simp
    have pF: "free_at ?A2 (b_addr p)" "b_addr p \<notin> frees us \<union> frees ys" using fr p(2) dp by auto
    have "free_at ?A2 x" if "x \<in> frees us \<union> frees ys" for x using fr that by auto
    then obtain t where t: "binder_insert_free_buffer R (b_addr p) ?A2 = Ret (?A2\<lparr>al_free := t\<rparr>)"
      "free_tree (?A2\<lparr>al_free := t\<rparr>) (insert (b_addr p) (frees us \<union> frees ys))"
      using insert_free [OF R T' pF] by blast
    let ?A' = "?A2\<lparr>al_free := t\<rparr>"
    have "fits (region_end A) (us @ p # ys)" using I(6) bs p by (simp add: fits_shrink)
    moreover have "end_of (region_end A) (us @ p # ys) = al_buffer A" using I(4) bs by (cases us) auto
    moreover have "inorder (al_allocated A) = used (us @ p # ys)" using I(2,9) bs by simp
    moreover have "unat (al_async A) + async_used (us @ p # ys) = al_size A div 2" using I(2,12) bs by simp
    moreover have "coalesced (us @ p # ys)" using I(7,8) p hd by simp
    moreover have "frees (us @ p # ys) = insert (b_addr p) (frees us \<union> frees ys)" using p by auto
    moreover have "pages_are ?A' (needed (region_end A) (us @ p # ys))" using d(2) by (simp add: pages_are_def)
    ultimately have "al_ok ?A'" using I(3) C t(2) by (simp add: al_ok_def)
    moreover have "keeps P A ?A'" using d(3) by (auto simp: keeps_def same_region_def)
    ultimately show ?thesis using d(1) t(1) False p pv by (intro exI [of _ ?A']) simp
  qed
qed

text \<open>Freeing an allocated buffer merges it with its free neighbours.\<close>

lemma free_run:
  assumes R: "rb_ok R" and ok: "al_ok A" and bs: "al_bufs A = xs @ b # ys" and b: "\<not> b_free b" "b_txn b = None"
  shows "\<exists>A'. binder_free_buf R P (b_addr b) A = Ret A' \<and> al_ok A' \<and> keeps P A A' \<and>
    al_bufs A' = (if last_used xs then xs @ b\<lparr>b_free := True\<rparr> # drop_free ys else xs @ drop_free ys) \<and>
    al_async A' = (if b_async b then al_async A + of_nat (need_of b + BUF_HDR) else al_async A)"
proof -
  let ?hi = "region_end A" and ?a = "b_addr b" and ?b = "b\<lparr>b_free := True\<rparr>"
  have I: "geometry A" "chain ?hi (al_bufs A)" "inorder (al_allocated A) = used (al_bufs A)"
    "free_tree A (frees (al_bufs A))" "pages_are A (needed ?hi (al_bufs A))" "end_of ?hi (al_bufs A) = al_buffer A"
    "fits ?hi (al_bufs A)" "coalesced (al_bufs A)" "unat (al_async A) + async_used (al_bufs A) = al_size A div 2"
    using ok by (simp_all add: al_ok_def)
  define e where "e = end_of ?hi ys"
  have C: "chain ?hi (xs @ b # ys)" using I(2) by (simp add: bs)
  have D: "distinct (map b_addr (xs @ b # ys))" by (rule chain_distinct [OF C])
  have hi: "PAGE_SIZE dvd ?hi" using I(1) by (simp add: geometry_def)
  have sz: "binder_buffer_size A ?a = e - (?a + BUF_HDR)" "?a + BUF_HDR \<le> e" "?a + BUF_HDR + need_of b \<le> e"
    using size_split [OF bs] D I(7) C b by (auto simp: bs e_def)
  have reg: "al_buffer A \<le> ?a" "e \<le> ?hi" "?a \<le> ?hi"
    using chain_le [OF I(2), of b] I(6) chain_end [of ?hi ys] C by (auto simp: bs e_def)
  have at: "buf_at ?a (al_bufs A) = Some b" using buf_at_of_in [OF chain_distinct [OF I(2)]] by (simp add: bs)
  obtain k where k: "page_align (?a + BUF_HDR) = PAGE_SIZE * k" "?a + BUF_HDR \<le> PAGE_SIZE * k"
    "PAGE_SIZE * k < ?a + BUF_HDR + PAGE_SIZE" using page_align_eq by blast
  obtain m where m: "page_mask e = PAGE_SIZE * m" "PAGE_SIZE * m \<le> e" "e < PAGE_SIZE * m + PAGE_SIZE"
    using page_mask_eq by blast
  let ?M = "\<lambda>q. needed ?a xs q \<or> needed ?hi ys q"
  have M: "around ?a e ?M" using around_needed [OF C hi] by (simp add: e_def)
  have N: "needed ?hi (al_bufs A) q \<longleftrightarrow> ?M q \<or> touch ?a e q" for q using b by (auto simp: bs e_def)
  have N': "needed ?hi (xs @ ?b # ys) q \<longleftrightarrow> ?M q \<or> touch ?a (?a + BUF_HDR) q" for q by auto
  define as where "as = (if b_async b then al_async A + of_nat (need_of b + BUF_HDR) else al_async A)"
  let ?A0 = "A\<lparr>al_async := as\<rparr>"
  have r: "needed ?hi (al_bufs A) q \<and> al_buffer ?A0 \<le> PAGE_SIZE * q \<and> PAGE_SIZE * q < region_end ?A0"
    if "k \<le> q" "q < m" for q
  proof -
    have "touch ?a e q" by (rule fresh_pages(2) [OF M k(2) m(2) that])
    then show ?thesis using touch_in_region [OF I(1) _ reg(1,2)] N by simp
  qed
  have "geometry ?A0" "pages_are ?A0 (needed ?hi (al_bufs A))" using I(1,5) by simp_all
  from update_free [where P = P, OF this r]
  obtain u ps ms where up: "binder_update_page_range P False (PAGE_SIZE * k) (PAGE_SIZE * m) False ?A0 =
      Ret (u, ?A0\<lparr>al_pages := ps, al_mapped := ms\<rparr>)"
    "pages_are (?A0\<lparr>al_pages := ps, al_mapped := ms\<rparr>) (\<lambda>q. needed ?hi (al_bufs A) q \<and> \<not> (k \<le> q \<and> q < m))"
    "live P ?A0 \<and> al_mapped ?A0 = al_pages ?A0 \<longrightarrow> ms = ps" by blast
  let ?A1 = "?A0\<lparr>al_pages := ps, al_mapped := ms\<rparr>"
  let ?t = "rb_erase R ?a (al_allocated A)"
  let ?A2 = "?A0\<lparr>al_pages := ps, al_mapped := ms, al_allocated := ?t, al_bufs := xs @ ?b # ys\<rparr>"
  have upd: "upd_buf ?a (\<lambda>b. b\<lparr>b_free := True\<rparr>) (al_bufs A) = xs @ ?b # ys"
    using upd_buf_split [OF D refl] by (simp add: bs)
  have "part_ok xs ?b ys ?A2"
  proof -
    have F: "frees (al_bufs A) = frees xs \<union> frees ys" using b by (simp add: bs)
    have T: "free_tree ?A2 (frees xs \<union> frees ys)"
    proof (rule free_tree_replace [where A = A and X = "[b]" and Y = "[?b]"])
      show "free_tree A (frees xs \<union> frees ys)" using I(4) F by simp
      show "chain (region_end ?A2) (al_bufs ?A2)" using C by simp
    qed (simp_all add: bs I(2) [unfolded bs] del: chain_append chain.simps)
    have "inorder ?t = used xs @ used ys"
      using erase_allocated [OF R C b(1)] I(3) by (simp add: bs)
    moreover have "pages_are ?A2 (needed ?hi (xs @ ?b # ys))"
    proof -
      have "pages_are ?A2 (\<lambda>q. needed ?hi (al_bufs A) q \<and> \<not> (k \<le> q \<and> q < m))"
        using up(2) by (simp add: pages_are_def)
      moreover have "(needed ?hi (al_bufs A) q \<and> \<not> (k \<le> q \<and> q < m)) = needed ?hi (xs @ ?b # ys) q" for q
        unfolding N N' by (rule content_pages [OF M k(2,3) m(2,3) sz(2)])
      ultimately show ?thesis by (rule pages_are_cong)
    qed
    moreover have "unat as + async_used (xs @ ys) = al_size A div 2"
    proof (cases "b_async b")
      case True
      have "al_size A < 2 ^ 64" using I(1) by (simp add: geometry_def)
      moreover have s: "unat (al_async A) + (need_of b + BUF_HDR) + async_used (xs @ ys) = al_size A div 2"
        using I(9) True b by (simp add: bs)
      ultimately have "unat (al_async A) + (need_of b + BUF_HDR) < 2 ^ 64" by linarith
      then have "unat as = unat (al_async A) + (need_of b + BUF_HDR)"
        using True by (simp add: as_def unat_word_ariths unat_of_nat del: of_nat_add)
      then show ?thesis using s by simp
    qed (use I(9) b in \<open>simp add: bs as_def\<close>)
    moreover have "coalesced xs" "coalesced ys" using I(8) by (auto simp: bs)
    moreover have "end_of ?hi (xs @ ?b # ys) = al_buffer A" using I(6) by (simp add: bs)
    moreover have "chain ?hi (xs @ ?b # ys)" "fits ?hi (xs @ ?b # ys)" using C I(7) by (simp_all add: bs)
    ultimately show ?thesis using T I(1) unfolding part_ok_def by simp
  qed
  from merge_next [where P = P, OF R this] obtain A3 where A3: "(case next_buf ?a (al_bufs ?A2) of
                      None \<Rightarrow> Ret ?A2
                    | Some next \<Rightarrow>
                        if b_free next
                        then binder_delete_free_buffer P (b_addr next)
                               (?A2\<lparr>al_free := rb_erase R (b_addr next) (al_free ?A2)\<rparr>)
                        else Ret ?A2) = Ret A3"
    "part_ok xs ?b (drop_free ys) A3" "hd_used (drop_free ys)" "al_async A3 = as" "keeps P ?A2 A3" by auto
  have ba: "b_addr ?b = ?a" by simp
  from merge_prev [where P = P, OF R A3(2,3), unfolded ba] obtain A4 where A4: "(case prev_buf ?a (al_bufs A3) of
                      None \<Rightarrow> binder_insert_free_buffer R ?a A3
                    | Some prev \<Rightarrow>
                        if b_free prev
                        then cbind (binder_delete_free_buffer P ?a A3) (\<lambda>A.
                               binder_insert_free_buffer R (b_addr prev)
                                 (A\<lparr>al_free := rb_erase R (b_addr prev) (al_free A)\<rparr>))
                        else binder_insert_free_buffer R ?a A3) = Ret A4" "al_ok A4"
    "al_bufs A4 = (if last_used xs then xs @ ?b # drop_free ys else xs @ drop_free ys)"
    "al_async A4 = al_async A3" "keeps P A3 A4" by blast
  have g: "(b_free b \<or> binder_buffer_size A ?a < unat (buf_need (b_data_size b) (b_offs_size b)) \<or> b_txn b \<noteq> None \<or>
      ?a < al_buffer A \<or> al_buffer A + al_size A < ?a) = False"
    using b sz reg by (auto simp: need_of_def)
  have mask: "page_mask (?a + BUF_HDR + binder_buffer_size A ?a) = PAGE_SIZE * m" using sz m(1) by simp
  have as: "(if b_async b then A\<lparr>al_async := al_async A + (buf_need (b_data_size b) (b_offs_size b) + of_nat BUF_HDR)\<rparr>
      else A) = ?A0" by (simp add: as_def need_of_def)
  have st: "?A1\<lparr>al_allocated := rb_erase R ?a (al_allocated ?A1),
      al_bufs := upd_buf ?a (\<lambda>b. b\<lparr>b_free := True\<rparr>) (al_bufs ?A1)\<rparr> = ?A2"
    by (simp add: upd)
  have "binder_free_buf R P ?a A = Ret A4"
    unfolding binder_free_buf_def at of_mem_simps cbind.simps Let_def g if_False k(1) mask as up(1) prod.case
      st A3(1) A4(1) by (rule refl)
  moreover have "keeps P A ?A2" using up(3) by (auto simp: keeps_def same_region_def)
  then have "keeps P A A4" using A3(5) A4(5) keeps_trans by blast
  ultimately show ?thesis using A3(4) A4(2-4) by (simp add: as_def)
qed

section \<open>Mapping\<close>

lemma mmap_run:
  assumes R: "rb_ok R" and E: "me_owner E" "me_kzalloc E" "me_area E = Some area"
    and V: "vm_start v + PAGE_SIZE \<le> vm_end v" "PAGE_SIZE dvd vm_end v - vm_start v"
      "vm_flags v AND FORBIDDEN_MMAP_FLAGS = 0"
    and a: "PAGE_SIZE dvd area" "0 < area" "area + SZ_4M \<le> 2 ^ 64"
    and A: "al_buffer A = 0" "al_free A = Leaf" "al_allocated A = Leaf"
  shows "\<exists>ok v' A'. binder_mmap R P E v A = Ret (if ok then 0 else E_NOMEM, v', A') \<and>
    ((\<forall>i. pg_fault P i = P_ok) \<longrightarrow> ok) \<and>
    (if ok then al_ok A' \<and> al_buffer A' = area \<and> al_size A' = min (vm_end v - vm_start v) SZ_4M \<and>
        al_vma A' = Some (vm_mm v) \<and> al_bufs A' = [new_buf P area] \<and> al_mapped A' = al_pages A'
     else al_buffer A' = 0 \<and> al_free A' = Leaf \<and> al_allocated A' = Leaf \<and> al_vma A' = al_vma A)"
proof -
  let ?n = "min (vm_end v - vm_start v) SZ_4M"
  define w where "w = (if vm_end v - vm_start v > SZ_4M then v\<lparr>vm_end := vm_start v + SZ_4M\<rparr> else v)"
  have w: "vm_end w - vm_start w = ?n" "vm_start w = vm_start v" "vm_flags w = vm_flags v" "vm_mm w = vm_mm v"
    by (simp_all add: w_def)
  define off :: u64 where "off = of_nat (vm_start v) - of_nat area"
  have nd: "PAGE_SIZE dvd ?n" "PAGE_SIZE \<le> ?n" using V by (auto simp: min_def)
  let ?A1 = "A\<lparr>al_buffer := area, al_offset := off,
      al_pages := replicate (?n div PAGE_SIZE) False, al_mapped := replicate (?n div PAGE_SIZE) False, al_size := ?n\<rparr>"
  have G: "geometry ?A1" using a nd by (auto simp: geometry_def)
  have N: "pages_are ?A1 (\<lambda>q. False)" by (simp add: pages_are_def)
  obtain B where B: "area = PAGE_SIZE * B" using a(1) by blast
  have r: "\<not> False \<and> al_buffer ?A1 \<le> PAGE_SIZE * q \<and> PAGE_SIZE * q < region_end ?A1" if "B \<le> q" "q < B + 1" for q
    using that nd(2) by (simp add: B)
  have e1: "PAGE_SIZE * (B + 1) = area + PAGE_SIZE" by (simp add: B)
  obtain ok ps ms where up: "binder_update_page_range P True (PAGE_SIZE * B) (PAGE_SIZE * (B + 1)) True ?A1 =
      Ret (ok, ?A1\<lparr>al_pages := ps, al_mapped := ms\<rparr>)" "length ms = length (al_mapped ?A1)"
    "if ok then pages_are (?A1\<lparr>al_pages := ps, al_mapped := ms\<rparr>) (\<lambda>q. False \<or> B \<le> q \<and> q < B + 1) else ps = al_pages ?A1"
    "al_mapped ?A1 = al_pages ?A1 \<longrightarrow> ms = ps"
    using update_allocate [where v = True and P = P, OF G N _ r] by blast
  have np: "\<forall>i. pg_fault P i = P_ok \<Longrightarrow> ok"
    using up(1) by (auto simp: binder_update_page_range_def B split: if_splits dest: alloc_pages_ok)
  let ?A2 = "?A1\<lparr>al_pages := ps, al_mapped := ms, al_bufs := [new_buf P area]\<rparr>"
  have F: "free_tree ?A2 {}" by (simp add: free_tree_def A)
  have fa: "free_at ?A2 area" by (simp add: free_at_def buf_at_def)
  obtain t where t: "binder_insert_free_buffer R area ?A2 = Ret (?A2\<lparr>al_free := t\<rparr>)"
    "free_tree (?A2\<lparr>al_free := t\<rparr>) {area}"
    using insert_free [OF R F fa] by auto
  let ?v' = "w\<lparr>vm_flags := (vm_flags w OR VM_DONTCOPY) AND NOT VM_MAYWRITE\<rparr>"
  let ?A' = "?A2\<lparr>al_free := t, al_async := of_nat (?n div 2), al_vma := Some (vm_mm v)\<rparr>"
  have g: "(\<not> me_owner E) = False" "(vm_flags w AND FORBIDDEN_MMAP_FLAGS \<noteq> 0) = False" "(al_buffer A \<noteq> 0) = False"
    "(\<not> me_kzalloc E) = False"
    using E V(3) A(1) w by simp_all
  have g2: "vm_end ?v' - vm_start v = ?n" "vm_start ?v' = vm_start v" "vm_mm ?v' = vm_mm v" using w(1) by (simp_all add: w(2-4))
  have b: "al_buffer ?A1 = PAGE_SIZE * B" "PAGE_SIZE * B + PAGE_SIZE = PAGE_SIZE * (B + 1)" by (simp_all add: B)
  have run: "binder_mmap R P E v A = (if ok then Ret (0, ?v', ?A')
      else Ret (E_NOMEM, ?v', ?A1\<lparr>al_pages := [], al_mapped := [], al_buffer := 0\<rparr>))"
    unfolding binder_mmap_def Let_def w_def [symmetric] g if_False E(3) option.case g2 off_def [symmetric] b up(1) cbind.simps prod.case
    using t(1) by (simp add: B)
  have "al_ok ?A'" if ok
  proof -
    have "free_tree ?A' {area}"
      by (rule free_tree_frame [OF t(2)]) (simp, rule fun_cong [OF size_addrs], simp_all)
    moreover have "needed (region_end ?A') [new_buf P area] q \<longleftrightarrow> B \<le> q \<and> q < B + 1" for q
      by (auto simp: touch_header B)
    then have "pages_are ?A' (needed (region_end ?A') [new_buf P area])"
      using up(3) that by (simp add: pages_are_def)
    moreover have "unat (of_nat (?n div 2) :: u64) = ?n div 2" by (simp add: unat_of_nat)
    ultimately show ?thesis using G A nd by (simp add: al_ok_def geometry_def)
  qed
  then show ?thesis
  proof (cases ok)
    case True
    then show ?thesis using run np \<open>ok \<Longrightarrow> al_ok ?A'\<close> up(4)
      by (intro exI [of _ True] exI [of _ ?v'] exI [of _ ?A']) simp
  next
    case False
    then show ?thesis using run np A
      by (intro exI [of _ False] exI [of _ ?v'] exI [of _ "?A1\<lparr>al_pages := [], al_mapped := [], al_buffer := 0\<rparr>"]) auto
  qed
qed

end
