(* ===== verification/Drv_Alloc_Claims.thy ===== *)
theory Drv_Alloc_Claims
  imports Drv_Alloc_Correct
begin

text \<open>
  The properties of the buffer allocator, over all sequences of its operations and for single
  calls, each with an instance on a mapping of two pages.
\<close>

section \<open>Runs of the allocator\<close>

text \<open>
  The states of an allocator: unmapped, mapped successfully, and then any sequence of allocations,
  of frees of allocated buffers that no transaction refers to, of closing the mapping, and of the
  changes that the rest of the driver makes to a buffer: its transaction, node, flags and content.
\<close>

definition al_unmapped :: "alloc \<Rightarrow> bool" where
  "al_unmapped A \<longleftrightarrow> al_buffer A = 0 \<and> al_free A = Leaf \<and> al_allocated A = Leaf"

definition mmap_request :: "mmap_env \<Rightarrow> vm_area \<Rightarrow> bool" where
  \<comment> \<open>what the kernel guarantees of the area and of the addresses it finds\<close>
  "mmap_request E v \<longleftrightarrow> vm_start v + PAGE_SIZE \<le> vm_end v \<and> PAGE_SIZE dvd vm_end v - vm_start v \<and>
     (case me_area E of None \<Rightarrow> True | Some a \<Rightarrow> PAGE_SIZE dvd a \<and> 0 < a \<and> a + SZ_4M \<le> 2 ^ 64)"

definition buf_use :: "nat option \<Rightarrow> nat option \<Rightarrow> bool \<Rightarrow> nat \<Rightarrow> bytes \<Rightarrow> buf \<Rightarrow> buf" where
  "buf_use t n u i m b = b\<lparr>b_txn := t, b_node := n, b_user_free := u, b_debug_id := i, b_mem := m\<rparr>"

inductive al_run :: "rb_env \<Rightarrow> alloc \<Rightarrow> bool" for R where
  map: "al_unmapped A \<Longrightarrow> mmap_request E v \<Longrightarrow> binder_mmap R P E v A = Ret (0, v', A') \<Longrightarrow> al_run R A'"
| alloc: "al_run R A \<Longrightarrow> binder_alloc_buf R P d o' i A = Ret (r, A') \<Longrightarrow> al_run R A'"
| free: "al_run R A \<Longrightarrow> b \<in> set (al_bufs A) \<Longrightarrow> \<not> b_free b \<Longrightarrow> b_txn b = None \<Longrightarrow>
    binder_free_buf R P (b_addr b) A = Ret A' \<Longrightarrow> al_run R A'"
| use: "al_run R A \<Longrightarrow> al_run R (A\<lparr>al_bufs := upd_buf a (buf_use t n u i m) (al_bufs A)\<rparr>)"
| close: "al_run R A \<Longrightarrow> al_run R (vma_closed A)"

lemma same_shape:
  assumes "al_ok A" and "al_buffer A' = al_buffer A" and "al_size A' = al_size A" and "al_bufs A' = map f (al_bufs A)"
    and "\<And>b. b_addr (f b) = b_addr b \<and> b_free (f b) = b_free b \<and> b_async (f b) = b_async b \<and> need_of (f b) = need_of b"
    and "al_free A' = al_free A" and "al_allocated A' = al_allocated A" and "al_async A' = al_async A"
    and "al_pages A' = al_pages A" and "length (al_mapped A') = length (al_mapped A)"
  shows "al_ok A'"
proof -
  have e: "end_of h (map f bs) = end_of h bs" for h bs using assms(5) by (cases bs) simp_all
  have hd: "hd_used (map f bs) = hd_used bs" for bs using assms(5) by (cases bs) simp_all
  have "chain h (map f bs) = chain h bs" "fits h (map f bs) = fits h bs" "coalesced (map f bs) = coalesced bs"
    "used (map f bs) = used bs" "frees (map f bs) = frees bs" "async_used (map f bs) = async_used bs"
    "needed h (map f bs) q = needed h bs q" for h bs q
    using assms(5) e hd by (induction bs) simp_all
  moreover from this(7) have "needed h (map f bs) = needed h bs" for h bs by (intro ext)
  moreover have "free_tree A F \<Longrightarrow> free_tree A' F" for F
    by (erule free_tree_frame, rule assms(6), rule fun_cong [OF size_addrs]) (use assms(2-5) in \<open>simp_all add: comp_def\<close>)
  ultimately show ?thesis
    using assms e by (simp add: al_ok_def geometry_def pages_are_def)
qed

lemma need_of_buf_use [simp]: "need_of (buf_use t n u i m b) = need_of b"
  by (simp add: need_of_def buf_use_def)

lemma al_ok_use: "al_ok A \<Longrightarrow> al_ok (A\<lparr>al_bufs := upd_buf a (buf_use t n u i m) (al_bufs A)\<rparr>)"
  by (rule same_shape [where f = "\<lambda>b. if b_addr b = a then buf_use t n u i m b else b"])
    (auto simp: upd_buf_def buf_use_def need_of_def)

lemma al_ok_close: "al_ok A \<Longrightarrow> al_ok (vma_closed A)"
  by (rule same_shape [where f = "\<lambda>b. b"]) (auto simp: vma_closed_def)

lemma mmap_success:
  assumes "binder_mmap R P E v A = Ret (0, v', A')"
  shows "me_owner E" "me_kzalloc E" "me_area E \<noteq> None" "vm_flags v AND FORBIDDEN_MMAP_FLAGS = 0"
  using assms unfolding binder_mmap_def Let_def by (auto split: if_splits option.splits)

lemma al_run_ok:
  assumes R: "rb_ok R" and "al_run R A"
  shows "al_ok A"
  using assms(2)
proof induction
  case (map A E v P v' A')
  note S = mmap_success [OF map(3)]
  then obtain a where a: "me_area E = Some a" by blast
  have v: "vm_start v + PAGE_SIZE \<le> vm_end v" "PAGE_SIZE dvd vm_end v - vm_start v"
    "PAGE_SIZE dvd a" "0 < a" "a + SZ_4M \<le> 2 ^ 64" using map(2) a by (auto simp: mmap_request_def)
  have u: "al_buffer A = 0" "al_free A = Leaf" "al_allocated A = Leaf" using map(1) by (simp_all add: al_unmapped_def)
  show ?case
    using mmap_run [where P = P, OF R S(1,2) a v(1,2) S(4) v(3-5) u] map(3) by (auto split: if_splits)
next
  case (alloc A P d o' i r A')
  show ?case
  proof (cases "alloc_refused d o' i A")
    case True
    then show ?thesis using alloc_none [OF alloc.IH] alloc by fastforce
  next
    case False
    then show ?thesis using alloc_run [OF R alloc.IH, of d o' i P] alloc by auto
  qed
next
  case (free A b P A')
  obtain xs ys where "al_bufs A = xs @ b # ys" using split_list [OF \<open>b \<in> set (al_bufs A)\<close>] by blast
  then show ?case using free_run [OF R free.IH _ free.hyps(3,4), of xs ys P] free.hyps(5) by auto
qed (simp_all add: al_ok_use al_ok_close)

text \<open>
  C35. In every state that a sequence of allocator operations can reach, the buffers tile the
  mapping with no two free neighbours, the trees and the page array agree with them and the
  asynchronous space is accounted for; and whatever is asked next - an allocation of any size, a
  free of an allocated buffer without a transaction, a lookup of any address - neither trips one
  of the driver's BUG_ONs nor touches a missing object.
\<close>

theorem allocator_invariant:
  assumes "rb_ok R" and "al_run R A"
  shows "al_ok A \<and> (\<forall>P d o' i. \<exists>r A'. binder_alloc_buf R P d o' i A = Ret (r, A')) \<and>
    (\<forall>P. \<forall>b \<in> set (al_bufs A). \<not> b_free b \<longrightarrow> b_txn b = None \<longrightarrow> (\<exists>A'. binder_free_buf R P (b_addr b) A = Ret A')) \<and>
    (\<forall>p. \<exists>r. binder_buffer_lookup A p = Ret r)"
proof (intro conjI allI ballI impI)
  show ok: "al_ok A" by (rule al_run_ok [OF assms])
  show "\<exists>r A'. binder_alloc_buf R P d o' i A = Ret (r, A')" for P d o' i
    using alloc_none [OF ok] alloc_run [OF assms(1) ok] by (cases "alloc_refused d o' i A") blast+
  show "\<exists>A'. binder_free_buf R P (b_addr b) A = Ret A'"
    if b: "b \<in> set (al_bufs A)" "\<not> b_free b" "b_txn b = None" for P b
  proof -
    obtain xs ys where "al_bufs A = xs @ b # ys" using split_list [OF b(1)] by blast
    then show ?thesis using free_run [OF assms(1) ok _ b(2,3), of xs ys P] by blast
  qed
  show "\<exists>r. binder_buffer_lookup A p = Ret r" for p
    using buffer_lookup [of A p] ok by (auto simp: al_ok_def)
qed

section \<open>Single calls\<close>

text \<open>
  C36. A buffer that is handed out has room for the data and, from the next multiple of eight, for
  the offsets, all inside the mapping and apart from every other buffer: a size from user space
  that would wrap around is refused.
\<close>

theorem allocation_gives_room:
  assumes "rb_ok R" and "al_ok A" and "binder_alloc_buf R P d o' i A = Ret (Some a, A')"
  shows "(\<exists>b \<in> set (al_bufs A'). b_addr b = a \<and> \<not> b_free b \<and> b_data_size b = d \<and> b_offs_size b = o') \<and>
    al_buffer A \<le> a \<and> a + BUF_HDR + round8 (unat d) + round8 (unat o') \<le> al_buffer A + al_size A \<and>
    (\<forall>c \<in> set (al_bufs A'). b_addr c = a \<or> a + BUF_HDR + round8 (unat d) + round8 (unat o') \<le> b_addr c \<or>
       b_addr c + BUF_HDR + (if b_free c then 0 else need_of c) \<le> a)"
proof -
  have nr: "\<not> alloc_refused d o' i A" using alloc_none [OF assms(2)] assms(3) by fastforce
  have A': "al_ok A'" "same_region A A'" "alloc_takes P d o' i A a A'"
    using alloc_run [OF assms(1,2) nr, of P] assms(3) by auto
  obtain xs b ys rest where bs: "b_addr b = a" "al_bufs A' = xs @ taken d o' i b # rest @ ys"
    using A'(3) unfolding alloc_takes_def by blast
  have n: "unat (buf_need d o') = round8 (unat d) + round8 (unat o')"
    using nr by (intro size_check) (auto simp: alloc_refused_def)
  have C: "chain (region_end A) (al_bufs A')" "fits (region_end A) (al_bufs A')"
    "end_of (region_end A) (al_bufs A') = al_buffer A"
    using A'(1,2) by (simp_all add: al_ok_def same_region_def)
  have e: "a + BUF_HDR + unat (buf_need d o') \<le> end_of (region_end A) (rest @ ys)"
    using C(2) bs by simp
  have "end_of (region_end A) (rest @ ys) \<le> region_end A" using chain_end [of "region_end A" "rest @ ys"] C(1) bs by simp
  moreover have "al_buffer A \<le> a" using chain_le [OF C(1), of "taken d o' i b"] C(3) bs by simp
  moreover have "b_addr c = a \<or> a + BUF_HDR + unat (buf_need d o') \<le> b_addr c \<or>
      b_addr c + BUF_HDR + (if b_free c then 0 else need_of c) \<le> a" if "c \<in> set (al_bufs A')" for c
  proof -
    have x: "b_addr c + BUF_HDR + (if b_free c then 0 else need_of c) \<le> a" if c: "c \<in> set xs"
    proof -
      obtain us vs where s: "xs = us @ c # vs" using c by (auto dest: split_list)
      have "end_of a vs \<le> a" using C(1) bs s by (intro chain_end) simp
      then show ?thesis using C(1,2) bs s by auto
    qed
    have y: "a + BUF_HDR + unat (buf_need d o') \<le> b_addr c" if "c \<in> set (rest @ ys)"
      using chain_le [of "region_end A" "rest @ ys" c] C(1) bs e that by simp
    show ?thesis using x y that bs by auto
  qed
  moreover have "taken d o' i b \<in> set (al_bufs A')" using bs by simp
  moreover have "b_data_size (taken d o' i b) = d" "b_offs_size (taken d o' i b) = o'" by (simp_all add: taken_def)
  ultimately show ?thesis using e bs(1) unfolding n
    by (intro conjI ballI bexI [of _ "taken d o' i b"]) (simp_all add: add.assoc)
qed

text \<open>
  C37. An allocation fails without a trace unless it takes a smallest free buffer that is large
  enough; it is refused exactly if the mapping is gone, the size wraps, the asynchronous half is
  used up or no free buffer is large enough, and otherwise fails only if a page cannot be had.
\<close>

theorem allocation_best_fit:
  assumes "rb_ok R" and "al_ok A" and "al_mapped A = al_pages A"
  shows "\<exists>r A'. binder_alloc_buf R P d o' i A = Ret (r, A') \<and>
    (case r of
       None \<Rightarrow> A' = A \<and> (alloc_refused d o' i A \<or> \<not> live P A \<or> (\<exists>j. pg_fault P j \<noteq> P_ok))
     | Some a \<Rightarrow> \<not> (alloc_refused d o' i A) \<and> a \<in> frees (al_bufs A) \<and>
         unat (buf_need d o') \<le> binder_buffer_size A a \<and>
         (\<forall>x \<in> frees (al_bufs A). binder_buffer_size A x < unat (buf_need d o') \<or>
            binder_buffer_size A a \<le> binder_buffer_size A x))"
proof (cases "alloc_refused d o' i A")
  case True
  then show ?thesis using alloc_none [OF assms(2)] by (intro exI [of _ None] exI [of _ A]) simp
next
  case False
  obtain r A' where r: "binder_alloc_buf R P d o' i A = Ret (r, A')" "al_mapped A = al_pages A \<longrightarrow> al_mapped A' = al_pages A'"
    "live P A \<and> (\<forall>i. pg_fault P i = P_ok) \<longrightarrow> r \<noteq> None"
    "case r of None \<Rightarrow> A' = A\<lparr>al_mapped := al_mapped A'\<rparr> | Some a \<Rightarrow> alloc_takes P d o' i A a A'"
    using alloc_run [OF assms(1,2) False, of P] by blast
  show ?thesis
  proof (cases r)
    case None
    then have A': "A' = A\<lparr>al_mapped := al_mapped A'\<rparr>" using r(4) by simp
    then have "al_pages A' = al_pages A" by (metis alloc.select_convs(9) alloc.surjective alloc.update_convs(10))
    then have "A' = A" using A' r(2) assms(3) by simp
    then show ?thesis using r None by (intro exI [of _ None] exI [of _ A]) auto
  next
    case (Some a)
    then have "alloc_takes P d o' i A a A'" using r(4) by simp
    then show ?thesis using r Some False
      by (intro exI [of _ "Some a"] exI [of _ A']) (fastforce simp: alloc_takes_def frees_def)
  qed
qed

text \<open>
  C38. Freeing a buffer right after its allocation, once no transaction refers to it, restores the
  allocator: the same buffers, the same ones free, the same pages and the same asynchronous space.
\<close>

theorem alloc_free_roundtrip:
  assumes "rb_ok R" and "al_ok A" and "binder_alloc_buf R P d o' i A = Ret (Some a, A1)"
    and "A2 = A1\<lparr>al_bufs := upd_buf a (buf_use None n u di m) (al_bufs A1)\<rparr>"
  shows "\<exists>A3. binder_free_buf R P' a A2 = Ret A3 \<and> al_ok A3 \<and>
    map b_addr (al_bufs A3) = map b_addr (al_bufs A) \<and> map b_free (al_bufs A3) = map b_free (al_bufs A) \<and>
    al_pages A3 = al_pages A \<and> al_async A3 = al_async A"
proof -
  have nr: "\<not> alloc_refused d o' i A" using alloc_none [OF assms(2)] assms(3) by fastforce
  have A1: "al_ok A1" "same_region A A1" "alloc_takes P d o' i A a A1"
    using alloc_run [OF assms(1,2) nr, of P] assms(3) by auto
  obtain xs b ys rest where bs: "al_bufs A = xs @ b # ys" "b_free b" "b_addr b = a"
    "al_bufs A1 = xs @ taken d o' i b # rest @ ys" "rest = [] \<or> rest = [new_buf P (a + BUF_HDR + unat (buf_need d o'))]"
    "al_async A1 = (if i then al_async A - (buf_need d o' + of_nat BUF_HDR) else al_async A)"
    using A1(3) unfolding alloc_takes_def by blast
  let ?c = "buf_use None n u di m (taken d o' i b)"
  have A2: "al_ok A2" unfolding assms(4) by (rule al_ok_use [OF A1(1)])
  have "distinct (map b_addr (xs @ taken d o' i b # rest @ ys))"
    using A1(1) bs(4) chain_distinct [of "region_end A1" "al_bufs A1"] by (simp add: al_ok_def)
  from upd_buf_split [OF this, of a "buf_use None n u di m"] have b2: "al_bufs A2 = xs @ ?c # rest @ ys"
    unfolding assms(4) bs(3,4) taken_simps by simp
  have co: "coalesced (xs @ b # ys)" using assms(2) bs(1) by (simp add: al_ok_def)
  have dr: "drop_free (rest @ ys) = ys" using bs(2,5) co by (cases ys) auto
  have lu: "last_used xs" using bs(2) co by simp
  have c: "\<not> b_free ?c" "b_txn ?c = None" "b_addr ?c = a" "b_async ?c = i" "need_of ?c = unat (buf_need d o')"
    using bs(3) by (simp_all add: buf_use_def need_of_def taken_def)
  obtain A3 where A3: "binder_free_buf R P' a A2 = Ret A3" "al_ok A3" "keeps P' A2 A3"
    "al_bufs A3 = xs @ ?c\<lparr>b_free := True\<rparr> # ys"
    "al_async A3 = (if i then al_async A2 + of_nat (unat (buf_need d o') + BUF_HDR) else al_async A2)"
    using free_run [where P = P', OF assms(1) A2 b2 c(1,2), unfolded c(3-5) dr if_P [OF lu]] by blast
  have reg: "al_buffer A3 = al_buffer A" "al_size A3 = al_size A"
    using A3(3) A1(2) by (simp_all add: keeps_def same_region_def assms(4))
  have sh: "map b_addr (al_bufs A3) = map b_addr (al_bufs A)" "map b_free (al_bufs A3) = map b_free (al_bufs A)"
    using A3(4) bs c(3) by simp_all
  have "needed h (al_bufs A3) q = needed h (al_bufs A) q" for h q
    using A3(4) bs c(3) by auto
  then have "al_pages A3 = al_pages A"
    using A3(2) assms(2) reg by (auto simp: al_ok_def pages_are_def intro!: nth_equalityI)
  moreover have "al_async A3 = al_async A" using A3(5) bs(6) by (auto simp: assms(4))
  ultimately show ?thesis using A3 sh by blast
qed

text \<open>
  Looking up a user-space address finds an allocated buffer exactly if the address is the one
  that user space was given for that buffer's data.
\<close>

theorem buffer_lookup_exact:
  assumes "al_ok A"
  shows "binder_buffer_lookup A p = Ret r \<longleftrightarrow>
    (case r of Some a \<Rightarrow> a \<in> set (used (al_bufs A)) \<and> p = of_nat (a + BUF_HDR) + al_offset A
     | None \<Rightarrow> \<not> (\<exists>a \<in> set (used (al_bufs A)). p = of_nat (a + BUF_HDR) + al_offset A))"
proof -
  have C: "chain (region_end A) (al_bufs A)" "inorder (al_allocated A) = used (al_bufs A)" "region_end A \<le> 2 ^ 64"
    using assms by (simp_all add: al_ok_def geometry_def)
  let ?a = "unat (p - al_offset A - of_nat BUF_HDR)"
  have e: "binder_buffer_lookup A p = Ret (if ?a \<in> set (used (al_bufs A)) then Some ?a else None)"
    using buffer_lookup [OF C(1,2), of p] by (auto simp: used_def Let_def image_iff)
  have a: "p = of_nat (a + BUF_HDR) + al_offset A \<longleftrightarrow> a = ?a" if "a \<in> set (used (al_bufs A))" for a
  proof -
    from that have "a < 2 ^ 64" using chain_le [OF C(1)] C(3) by (fastforce simp: used_def)
    then have u: "unat (of_nat a :: u64) = a" by (simp add: unat_of_nat)
    have "p = of_nat (a + BUF_HDR) + al_offset A \<longleftrightarrow> (of_nat a :: u64) = p - al_offset A - of_nat BUF_HDR"
      by (auto simp: algebra_simps)
    also have "\<dots> \<longleftrightarrow> a = ?a"
    proof
      assume "of_nat a = p - al_offset A - of_nat BUF_HDR"
      then have "unat (of_nat a :: u64) = ?a" by (rule arg_cong)
      then show "a = ?a" using u by simp
    next
      assume "a = ?a"
      then have "(of_nat a :: u64) = of_nat ?a" by (rule arg_cong)
      then show "of_nat a = p - al_offset A - of_nat BUF_HDR" by simp
    qed
    finally show ?thesis .
  qed
  have s: "?a \<in> set (used (al_bufs A)) \<Longrightarrow> p = of_nat (?a + BUF_HDR) + al_offset A" using a by blast
  define k where "k = ?a"
  note e = e [folded k_def] and s = s [folded k_def] and a = a [folded k_def]
  show ?thesis
  proof (cases r)
    case None
    then show ?thesis using e s a by auto
  next
    case (Some x)
    then show ?thesis using e s a by auto
  qed
qed

end
