(* ===== verification/Drv_Examples.thy ===== *)
theory Drv_Examples
  imports Drv_Alloc_Claims
begin

text \<open>
  Concrete inputs for the properties of the kernel driver: a process that maps two pages, and
  calls on it.
\<close>

section \<open>The allocator on two pages\<close>

definition ex_buf :: buf where
  "ex_buf = \<lparr>b_addr = 4096, b_free = True, b_user_free = False, b_async = False, b_debug_id = 0,
     b_txn = None, b_node = None, b_data_size = 0, b_offs_size = 0, b_mem = []\<rparr>"

definition ex_pg :: page_env where
  "ex_pg = \<lparr>pg_mm = Some 1, pg_fault = (\<lambda>_. P_ok), pg_stale = (\<lambda>_. ex_buf)\<rparr>"

definition ex_unmapped :: alloc where
  "ex_unmapped = \<lparr>al_buffer = 0, al_size = 0, al_offset = 0, al_vma = None, al_bufs = [], al_free = Leaf,
     al_allocated = Leaf, al_async = 0, al_pages = [], al_mapped = []\<rparr>"

definition ex_al :: alloc where
  "ex_al = \<lparr>al_buffer = 4096, al_size = 8192, al_offset = 0x7000, al_vma = Some 1, al_bufs = [ex_buf],
     al_free = Node Leaf 4096 Leaf, al_allocated = Leaf, al_async = 4096, al_pages = [True, False],
     al_mapped = [True, False]\<rparr>"

definition ex_vma :: vm_area where
  "ex_vma = \<lparr>vm_start = 0x8000, vm_end = 0xA000, vm_flags = 0x20, vm_mm = 1\<rparr>"

definition ex_mmap :: mmap_env where
  "ex_mmap = \<lparr>me_owner = True, me_area = Some 4096, me_kzalloc = True\<rparr>"

lemma two_pages: "replicate 2 False = [False, False]"
  by (simp add: numeral_2_eq_2)

lemma ex_mmap_run: "\<exists>v. binder_mmap plain_rb ex_pg ex_mmap ex_vma ex_unmapped = Ret (0, v, ex_al)"
  by (simp add: binder_mmap_def ex_mmap_def ex_vma_def ex_unmapped_def Let_def binder_update_page_range_def
      page_range_def ex_pg_def binder_insert_free_buffer_def buf_at_def new_buf_def ex_buf_def plain_rb_def ex_al_def
      upt_rec two_pages)

lemma ex_al_run: "al_run plain_rb ex_al"
proof -
  obtain v where "binder_mmap plain_rb ex_pg ex_mmap ex_vma ex_unmapped = Ret (0, v, ex_al)"
    using ex_mmap_run by blast
  then show ?thesis
    by (rule al_run.map [rotated 2])
      (simp_all add: al_unmapped_def ex_unmapped_def mmap_request_def ex_mmap_def ex_vma_def)
qed

theorem allocator_invariant_witness: "rb_ok plain_rb \<and> al_run plain_rb ex_al \<and> al_ok ex_al"
  using allocator_invariant [OF plain_rb_ok ex_al_run] plain_rb_ok ex_al_run by blast

lemma ex_al_ok: "al_ok ex_al"
  by (rule al_run_ok [OF plain_rb_ok ex_al_run])

text \<open>A transaction of 20 bytes with one offset takes 32 bytes and leaves a free buffer behind.\<close>

definition ex_al1 :: alloc where
  "ex_al1 = ex_al\<lparr>al_bufs := [ex_buf\<lparr>b_free := False, b_data_size := 20, b_offs_size := 8\<rparr>, ex_buf\<lparr>b_addr := 4208\<rparr>],
     al_free := Node Leaf 4208 Leaf, al_allocated := Node Leaf 4096 Leaf\<rparr>"

lemma ex_align: "align8 20 = 24" "align8 8 = 8"
  by (simp_all add: align8_def)

lemma ex_alloc: "binder_alloc_buf plain_rb ex_pg 20 8 False ex_al = Ret (Some 4096, ex_al1)"
  by (simp add: binder_alloc_buf_def ex_al_def Let_def buf_need_def ex_align binder_update_page_range_def
      page_range_def ex_pg_def binder_insert_free_buffer_def buf_at_def new_buf_def ex_buf_def plain_rb_def ex_al1_def
      binder_buffer_size_def page_mask_def page_align_def upd_buf_def binder_insert_allocated_buffer_def)

theorem allocation_gives_room_witness:
  "binder_alloc_buf plain_rb ex_pg 20 8 False ex_al = Ret (Some 4096, ex_al1) \<and> al_ok ex_al \<and>
   4096 + BUF_HDR + round8 (unat (20 :: u64)) + round8 (unat (8 :: u64)) \<le> al_buffer ex_al + al_size ex_al"
  using allocation_gives_room [OF plain_rb_ok ex_al_ok ex_alloc] ex_alloc ex_al_ok by blast

theorem allocation_best_fit_witness:
  "\<exists>r A'. al_ok ex_al \<and> al_mapped ex_al = al_pages ex_al \<and> binder_alloc_buf plain_rb ex_pg 20 8 False ex_al = Ret (r, A')"
proof -
  have m: "al_mapped ex_al = al_pages ex_al" by (simp add: ex_al_def)
  show ?thesis using allocation_best_fit [OF plain_rb_ok ex_al_ok m, of ex_pg 20 8 False] ex_al_ok m by blast
qed

theorem alloc_free_roundtrip_witness:
  "\<exists>A3. binder_free_buf plain_rb ex_pg 4096
      (ex_al1\<lparr>al_bufs := upd_buf 4096 (buf_use None None True 7 []) (al_bufs ex_al1)\<rparr>) = Ret A3 \<and>
    al_pages A3 = al_pages ex_al"
  using alloc_free_roundtrip [OF plain_rb_ok ex_al_ok ex_alloc refl] by blast

theorem buffer_lookup_exact_witness:
  "al_ok ex_al1 \<and> binder_buffer_lookup ex_al1 0x8050 = Ret (Some 4096)"
proof -
  have "al_run plain_rb ex_al1" by (rule al_run.alloc [OF ex_al_run ex_alloc])
  then have ok: "al_ok ex_al1" by (rule al_run_ok [OF plain_rb_ok])
  then show ?thesis
    using buffer_lookup_exact [OF ok, of "0x8050" "Some 4096"] by (simp add: ex_al1_def ex_al_def used_def ex_buf_def)
qed

end
