(* ===== verification/Drv_State.thy ===== *)
theory Drv_State
  imports Drv_Alloc
begin

text \<open>
  The objects of the kernel driver, \<open>driver/binder.c\<close>: processes, threads, nodes, references,
  death notifications and transactions, each at an address, in one state that the driver's lock
  protects. A pointer is an address; an object that was freed is no longer at its address, and
  following a dangling pointer is \<open>Oob\<close>.
\<close>

section \<open>What the driver tells a thread\<close>

text \<open>
  The return codes with their operands, as they are written to the read buffer, and also the error
  codes kept in a thread. A transaction or reply carries the pointer and cookie of the target
  node, code and flags, the user and process of the sender, the sizes, and the addresses of data
  and offsets in the receiver.
\<close>

record br_txn =
  bt_ptr :: u64
  bt_cookie :: u64
  bt_code :: u32
  bt_flags :: u32
  bt_sender_euid :: u32
  bt_sender_pid :: nat
  bt_data_size :: u64
  bt_offs_size :: u64
  bt_buffer :: u64
  bt_offsets :: u64

datatype br =
    BR_OK | BR_ERROR | BR_NOOP | BR_SPAWN_LOOPER | BR_TRANSACTION_COMPLETE | BR_FAILED_REPLY | BR_DEAD_REPLY
  | BR_TRANSACTION br_txn | BR_REPLY br_txn
  | BR_INCREFS u64 u64 | BR_ACQUIRE u64 u64 | BR_RELEASE u64 u64 | BR_DECREFS u64 u64
  | BR_DEAD_BINDER u64 | BR_CLEAR_DEATH_NOTIFICATION_DONE u64

section \<open>Work lists\<close>

text \<open>
  A \<open>binder_work\<close> is part of a transaction, a node or a death notification, or stands alone to
  report that a transaction was sent. The places a work list can be: the process, the thread, the
  pending asynchronous transactions of a node, the death notifications delivered to a process.
\<close>

datatype work = W_txn nat | W_complete nat | W_node nat | W_death nat

datatype loc = Proc_todo nat | Thread_todo nat | Async_todo nat | Delivered nat

datatype death_kind = Dead_binder | Dead_binder_and_clear | Clear_death_notification

section \<open>Objects\<close>

text \<open>
  \<open>struct binder_node\<close>. \<open>n_proc\<close> is none for a node whose process died; \<open>n_refs\<close> are the
  references to it, the newest first; \<open>n_entry\<close> is the list its work is on, none when the list
  entry points to itself.
\<close>

record node =
  n_debug_id :: nat
  n_entry :: "loc option"
  n_proc :: "nat option"
  n_refs :: "nat list"
  n_internal_strong :: u32
  n_local_weak :: u32
  n_local_strong :: u32
  n_ptr :: u64
  n_cookie :: u64
  n_has_strong :: bool
  n_pending_strong :: bool
  n_has_weak :: bool
  n_pending_weak :: bool
  n_has_async :: bool
  n_accept_fds :: bool
  n_min_priority :: u8
  n_async_todo :: "work list"

text \<open>\<open>struct binder_ref_death\<close>; it has no kind until it is queued.\<close>

record death =
  d_kind :: "death_kind option"
  d_entry :: "loc option"
  d_cookie :: u64

record ref =
  r_debug_id :: nat
  r_proc :: nat
  r_node :: nat
  r_desc :: u32
  r_strong :: u32
  r_weak :: u32
  r_death :: "nat option"

record thread =
  th_proc :: nat
  th_pid :: nat
  th_looper :: u32
  th_stack :: "nat option"
  th_todo :: "work list"
  th_error :: br
  th_error2 :: br

text \<open>
  \<open>struct binder_transaction\<close>; its buffer is the process it belongs to and its address there.
\<close>

record txn =
  t_debug_id :: nat
  t_from :: "nat option"
  t_from_parent :: "nat option"
  t_to_proc :: "nat option"
  t_to_thread :: "nat option"
  t_to_parent :: "nat option"
  t_need_reply :: bool
  t_buffer :: "(nat \<times> nat) option"
  t_code :: u32
  t_flags :: u32
  t_priority :: int
  t_saved_priority :: int
  t_sender_euid :: u32

text \<open>\<open>struct binder_proc\<close>; its trees hold the addresses of the objects.\<close>

record proc =
  p_pid :: nat
  p_threads :: "nat tree"
  p_nodes :: "nat tree"
  p_refs_by_desc :: "nat tree"
  p_refs_by_node :: "nat tree"
  p_todo :: "work list"
  p_delivered :: "work list"
  p_max_threads :: int
  p_requested :: int
  p_started :: int
  p_ready :: int
  p_default_priority :: int
  p_alloc :: alloc

section \<open>The state\<close>

datatype stat = Stat_proc | Stat_thread | Stat_node | Stat_ref | Stat_death | Stat_transaction | Stat_complete

text \<open>
  The complaints of \<open>binder_user_error\<close> and \<open>pr_err\<close> that the operations log.
\<close>

datatype complaint =
    Invalid_inc_strong nat | Invalid_inc_weak nat
  | Invalid_dec_strong nat | Invalid_dec_weak nat
  | Mgr_already_set | Mgr_bad_uid u32 u32
  | User_error string

text \<open>
  \<open>k_mgr\<close> and \<open>k_mgr_uid\<close> are the node of the context manager and the user it has to be,
  none while that is invalid. \<open>k_kzalloc\<close> are the results of the next calls of \<open>kzalloc\<close>: an address, or none when there
  is no memory.
\<close>

text \<open>
  The two logs of transactions: rings of 32 entries. An entry is the number of the transaction,
  the kind of call, sender, target and sizes.
\<close>

record log_entry =
  le_debug_id :: nat
  le_call_type :: nat
  le_from_proc :: nat
  le_from_thread :: nat
  le_target_handle :: u32
  le_to_proc :: nat
  le_to_thread :: nat
  le_to_node :: nat
  le_data_size :: u32
  le_offs_size :: u32

record txn_log =
  lg_next :: nat
  lg_full :: bool
  lg_entry :: "log_entry list"

text \<open>
  What the driver does to the file descriptors of a process: it installs a file of the sender, or
  closes a descriptor.
\<close>

datatype fd_event = Fd_install nat u32 int | Fd_close nat u32

text \<open>
  \<open>k_nice\<close> is the nice value of a task, by the address of its thread; \<open>k_fds\<close> are the
  results of the next calls that look for an unused descriptor.
\<close>

record kstate =
  k_procs :: "nat \<rightharpoonup> proc"
  k_threads :: "nat \<rightharpoonup> thread"
  k_nodes :: "nat \<rightharpoonup> node"
  k_refs :: "nat \<rightharpoonup> ref"
  k_deaths :: "nat \<rightharpoonup> death"
  k_txns :: "nat \<rightharpoonup> txn"
  k_completes :: "nat \<rightharpoonup> unit"
  k_mgr :: "nat option"
  k_mgr_uid :: "u32 option"
  k_dead_nodes :: "nat list"
  k_last_id :: nat
  k_kzalloc :: "nat option list"
  k_created :: "stat \<Rightarrow> nat"
  k_deleted :: "stat \<Rightarrow> nat"
  k_log :: "complaint list"
  k_tlog :: txn_log
  k_tfail :: txn_log
  k_nice :: "nat \<Rightarrow> int"
  k_fds :: "int list"
  k_fdlog :: "fd_event list"

definition kzalloc :: "kstate \<Rightarrow> nat option \<times> kstate" where
  "kzalloc k = (case k_kzalloc k of [] \<Rightarrow> (None, k) | a # as \<Rightarrow> (a, k\<lparr>k_kzalloc := as\<rparr>))"

definition stats_created :: "stat \<Rightarrow> kstate \<Rightarrow> kstate" where
  "stats_created s k = k\<lparr>k_created := (k_created k)(s := k_created k s + 1)\<rparr>"

definition stats_deleted :: "stat \<Rightarrow> kstate \<Rightarrow> kstate" where
  "stats_deleted s k = k\<lparr>k_deleted := (k_deleted k)(s := k_deleted k s + 1)\<rparr>"

definition complain :: "complaint \<Rightarrow> kstate \<Rightarrow> kstate" where
  "complain c k = k\<lparr>k_log := k_log k @ [c]\<rparr>"

section \<open>Updates in place\<close>

text \<open>
  The operations read an object through \<open>of_mem\<close> before they change it; the change itself is one
  of these, which do nothing where there is no object.
\<close>

definition upd_proc :: "nat \<Rightarrow> (proc \<Rightarrow> proc) \<Rightarrow> kstate \<Rightarrow> kstate" where
  "upd_proc a f k = k\<lparr>k_procs := (k_procs k)(a := map_option f (k_procs k a))\<rparr>"

definition upd_thread :: "nat \<Rightarrow> (thread \<Rightarrow> thread) \<Rightarrow> kstate \<Rightarrow> kstate" where
  "upd_thread a f k = k\<lparr>k_threads := (k_threads k)(a := map_option f (k_threads k a))\<rparr>"

definition upd_node :: "nat \<Rightarrow> (node \<Rightarrow> node) \<Rightarrow> kstate \<Rightarrow> kstate" where
  "upd_node a f k = k\<lparr>k_nodes := (k_nodes k)(a := map_option f (k_nodes k a))\<rparr>"

definition upd_ref :: "nat \<Rightarrow> (ref \<Rightarrow> ref) \<Rightarrow> kstate \<Rightarrow> kstate" where
  "upd_ref a f k = k\<lparr>k_refs := (k_refs k)(a := map_option f (k_refs k a))\<rparr>"

definition upd_death :: "nat \<Rightarrow> (death \<Rightarrow> death) \<Rightarrow> kstate \<Rightarrow> kstate" where
  "upd_death a f k = k\<lparr>k_deaths := (k_deaths k)(a := map_option f (k_deaths k a))\<rparr>"

definition upd_txn :: "nat \<Rightarrow> (txn \<Rightarrow> txn) \<Rightarrow> kstate \<Rightarrow> kstate" where
  "upd_txn a f k = k\<lparr>k_txns := (k_txns k)(a := map_option f (k_txns k a))\<rparr>"

text \<open>A buffer of a process.\<close>

definition kbuf :: "nat \<Rightarrow> nat \<Rightarrow> kstate \<Rightarrow> buf option" where
  "kbuf p a k = (case k_procs k p of None \<Rightarrow> None | Some proc \<Rightarrow> buf_at a (al_bufs (p_alloc proc)))"

definition upd_kbuf :: "nat \<Rightarrow> nat \<Rightarrow> (buf \<Rightarrow> buf) \<Rightarrow> kstate \<Rightarrow> kstate" where
  "upd_kbuf p a f k = upd_proc p (\<lambda>x. x\<lparr>p_alloc := (p_alloc x)\<lparr>al_bufs := upd_buf a f (al_bufs (p_alloc x))\<rparr>\<rparr>) k"

section \<open>List operations\<close>

fun upd_list :: "loc \<Rightarrow> (work list \<Rightarrow> work list) \<Rightarrow> kstate \<Rightarrow> kstate" where
  "upd_list (Proc_todo p) f k = upd_proc p (\<lambda>x. x\<lparr>p_todo := f (p_todo x)\<rparr>) k"
| "upd_list (Thread_todo t) f k = upd_thread t (\<lambda>x. x\<lparr>th_todo := f (th_todo x)\<rparr>) k"
| "upd_list (Async_todo n) f k = upd_node n (\<lambda>x. x\<lparr>n_async_todo := f (n_async_todo x)\<rparr>) k"
| "upd_list (Delivered p) f k = upd_proc p (\<lambda>x. x\<lparr>p_delivered := f (p_delivered x)\<rparr>) k"

fun set_entry :: "work \<Rightarrow> loc option \<Rightarrow> kstate \<Rightarrow> kstate" where
  "set_entry (W_node n) l k = upd_node n (\<lambda>x. x\<lparr>n_entry := l\<rparr>) k"
| "set_entry (W_death d) l k = upd_death d (\<lambda>x. x\<lparr>d_entry := l\<rparr>) k"
| "set_entry _ l k = k"

fun entry_of :: "work \<Rightarrow> kstate \<Rightarrow> loc option" where
  "entry_of (W_node n) k = (case k_nodes k n of None \<Rightarrow> None | Some x \<Rightarrow> n_entry x)"
| "entry_of (W_death d) k = (case k_deaths k d of None \<Rightarrow> None | Some x \<Rightarrow> d_entry x)"
| "entry_of _ k = None"

definition list_add_tail :: "work \<Rightarrow> loc \<Rightarrow> kstate \<Rightarrow> kstate" where
  "list_add_tail w l k = set_entry w (Some l) (upd_list l (\<lambda>ws. ws @ [w]) k)"

definition list_del_init :: "work \<Rightarrow> kstate \<Rightarrow> kstate" where
  "list_del_init w k = (case entry_of w k of None \<Rightarrow> k
     | Some l \<Rightarrow> set_entry w None (upd_list l (filter (\<lambda>v. v \<noteq> w)) k))"

end
