(* ===== verification/Drv_Refs.thy ===== *)
theory Drv_Refs
  imports Drv_State
begin

text \<open>
  Nodes and references of the kernel driver: lookup and creation, reference counts, and their end.
  The errors a function returns are error numbers, zero for success; waking a waiting thread is not
  part of the state.
\<close>

section \<open>Nodes\<close>

definition node_dir :: "kstate \<Rightarrow> u64 \<Rightarrow> nat \<Rightarrow> dir cres" where
  "node_dir k ptr x = cbind (of_mem (k_nodes k x)) (\<lambda>n. Ret (cmp ptr (n_ptr n)))"

definition binder_get_node :: "nat \<Rightarrow> u64 \<Rightarrow> kstate \<Rightarrow> nat option cres" where
  "binder_get_node p ptr k = cbind (of_mem (k_procs k p)) (\<lambda>proc. tree_search (node_dir k ptr) (p_nodes proc))"

definition fresh_node :: "nat \<Rightarrow> u64 \<Rightarrow> u64 \<Rightarrow> nat \<Rightarrow> node" where
  "fresh_node p ptr cookie i = \<lparr>n_debug_id = i, n_entry = None, n_proc = Some p, n_refs = [], n_internal_strong = 0,
     n_local_weak = 0, n_local_strong = 0, n_ptr = ptr, n_cookie = cookie, n_has_strong = False,
     n_pending_strong = False, n_has_weak = False, n_pending_weak = False, n_has_async = False,
     n_accept_fds = False, n_min_priority = 0, n_async_todo = []\<rparr>"

definition binder_new_node :: "rb_env \<Rightarrow> nat \<Rightarrow> u64 \<Rightarrow> u64 \<Rightarrow> kstate \<Rightarrow> (nat option \<times> kstate) cres" where
  "binder_new_node R p ptr cookie k =
     cbind (of_mem (k_procs k p)) (\<lambda>proc.
     cbind (tree_search (node_dir k ptr) (p_nodes proc)) (\<lambda>found.
       if found \<noteq> None then Ret (None, k)
       else case kzalloc k of
           (None, k) \<Rightarrow> Ret (None, k)
         | (Some a, k) \<Rightarrow>
             let k = stats_created Stat_node k
             in cbind (tree_link (node_dir k ptr) a (p_nodes proc)) (\<lambda>r. case r of
                  Inl _ \<Rightarrow> Ret (None, k)
                | Inr t \<Rightarrow>
                    let k = upd_proc p (\<lambda>x. x\<lparr>p_nodes := rb_color R t\<rparr>) k;
                        i = k_last_id k + 1
                    in Ret (Some a, k\<lparr>k_last_id := i, k_nodes := (k_nodes k)(a \<mapsto> fresh_node p ptr cookie i)\<rparr>))))"

definition binder_inc_node :: "nat \<Rightarrow> bool \<Rightarrow> bool \<Rightarrow> loc option \<Rightarrow> kstate \<Rightarrow> (int \<times> kstate) cres" where
  "binder_inc_node n strong internal target_list k =
     cbind (of_mem (k_nodes k n)) (\<lambda>node.
       if strong then
         if internal \<and> target_list = None \<and> n_internal_strong node = 0 \<and>
            \<not> (k_mgr k = Some n \<and> n_has_strong node)
         then Ret (E_INVAL, complain (Invalid_inc_strong (n_debug_id node)) k)
         else
           let k = upd_node n (\<lambda>x. if internal then x\<lparr>n_internal_strong := n_internal_strong x + 1\<rparr>
                                   else x\<lparr>n_local_strong := n_local_strong x + 1\<rparr>) k
           in Ret (0, case target_list of
                  None \<Rightarrow> k
                | Some l \<Rightarrow> if \<not> n_has_strong node then list_add_tail (W_node n) l (list_del_init (W_node n) k) else k)
       else
         let k = (if internal then k else upd_node n (\<lambda>x. x\<lparr>n_local_weak := n_local_weak x + 1\<rparr>) k)
         in if \<not> n_has_weak node \<and> n_entry node = None then
              case target_list of
                None \<Rightarrow> Ret (E_INVAL, complain (Invalid_inc_weak (n_debug_id node)) k)
              | Some l \<Rightarrow> Ret (0, list_add_tail (W_node n) l k)
            else Ret (0, k))"

definition free_node :: "rb_env \<Rightarrow> nat \<Rightarrow> node \<Rightarrow> kstate \<Rightarrow> kstate" where
  \<comment> \<open>a node without references: off its work list, out of the tree of its process or the list
    of dead nodes, and freed\<close>
  "free_node R n node k =
     (let k = list_del_init (W_node n) k;
          k = (case n_proc node of
                 Some p \<Rightarrow> upd_proc p (\<lambda>x. x\<lparr>p_nodes := rb_erase R n (p_nodes x)\<rparr>) k
               | None \<Rightarrow> k\<lparr>k_dead_nodes := remove1 n (k_dead_nodes k)\<rparr>)
      in stats_deleted Stat_node (k\<lparr>k_nodes := (k_nodes k)(n := None)\<rparr>))"

definition binder_dec_node :: "rb_env \<Rightarrow> nat \<Rightarrow> bool \<Rightarrow> bool \<Rightarrow> kstate \<Rightarrow> kstate cres" where
  "binder_dec_node R n strong internal k =
     cbind (of_mem (k_nodes k n)) (\<lambda>node.
       let node = (if strong then
                     if internal then node\<lparr>n_internal_strong := n_internal_strong node - 1\<rparr>
                     else node\<lparr>n_local_strong := n_local_strong node - 1\<rparr>
                   else if internal then node else node\<lparr>n_local_weak := n_local_weak node - 1\<rparr>);
           k = k\<lparr>k_nodes := (k_nodes k)(n \<mapsto> node)\<rparr>
       in if (if strong then n_local_strong node \<noteq> 0 \<or> n_internal_strong node \<noteq> 0
              else n_local_weak node \<noteq> 0 \<or> n_refs node \<noteq> []) then Ret k
          else case n_proc node of
              Some p \<Rightarrow>
                if n_has_strong node \<or> n_has_weak node then
                  Ret (if n_entry node = None then list_add_tail (W_node n) (Proc_todo p) k else k)
                else if n_refs node = [] \<and> n_local_strong node = 0 \<and> n_local_weak node = 0
                then Ret (free_node R n node k) else Ret k
            | None \<Rightarrow>
                if n_refs node = [] \<and> n_local_strong node = 0 \<and> n_local_weak node = 0
                then Ret (free_node R n node k) else Ret k)"

section \<open>References\<close>

definition desc_dir :: "kstate \<Rightarrow> u32 \<Rightarrow> nat \<Rightarrow> dir cres" where
  "desc_dir k desc x = cbind (of_mem (k_refs k x)) (\<lambda>r. Ret (cmp desc (r_desc r)))"

definition ref_node_dir :: "kstate \<Rightarrow> nat \<Rightarrow> nat \<Rightarrow> dir cres" where
  "ref_node_dir k n x = cbind (of_mem (k_refs k x)) (\<lambda>r. Ret (cmp n (r_node r)))"

definition binder_get_ref :: "nat \<Rightarrow> u32 \<Rightarrow> kstate \<Rightarrow> nat option cres" where
  "binder_get_ref p desc k = cbind (of_mem (k_procs k p)) (\<lambda>proc. tree_search (desc_dir k desc) (p_refs_by_desc proc))"

primrec lowest_desc :: "kstate \<Rightarrow> u32 \<Rightarrow> nat list \<Rightarrow> u32 cres" where
  \<comment> \<open>the loop over the references by descriptor\<close>
  "lowest_desc k desc [] = Ret desc"
| "lowest_desc k desc (x # xs) = cbind (of_mem (k_refs k x)) (\<lambda>r.
     if r_desc r > desc then Ret desc else lowest_desc k (r_desc r + 1) xs)"

definition fresh_ref :: "nat \<Rightarrow> nat \<Rightarrow> u32 \<Rightarrow> nat \<Rightarrow> ref" where
  "fresh_ref p n desc i = \<lparr>r_debug_id = i, r_proc = p, r_node = n, r_desc = desc, r_strong = 0, r_weak = 0, r_death = None\<rparr>"

definition binder_get_ref_for_node :: "rb_env \<Rightarrow> nat \<Rightarrow> nat \<Rightarrow> kstate \<Rightarrow> (nat option \<times> kstate) cres" where
  "binder_get_ref_for_node R p n k =
     cbind (of_mem (k_procs k p)) (\<lambda>proc.
     cbind (tree_search (ref_node_dir k n) (p_refs_by_node proc)) (\<lambda>found.
       case found of
         Some r \<Rightarrow> Ret (Some r, k)
       | None \<Rightarrow> (case kzalloc k of
           (None, k) \<Rightarrow> Ret (None, k)
         | (Some a, k) \<Rightarrow>
             let k = stats_created Stat_ref k;
                 i = k_last_id k + 1;
                 k = k\<lparr>k_last_id := i\<rparr>
             in cbind (tree_link (ref_node_dir k n) a (p_refs_by_node proc)) (\<lambda>r1.
                cbind (lowest_desc k (if k_mgr k = Some n then 0 else 1) (inorder (p_refs_by_desc proc))) (\<lambda>desc.
                cbind (tree_link (desc_dir k desc) a (p_refs_by_desc proc)) (\<lambda>r2. case (r1, r2) of
                   (Inr t1, Inr t2) \<Rightarrow>
                     cbind (of_mem (k_nodes k n)) (\<lambda>_.
                       let k = upd_proc p (\<lambda>x. x\<lparr>p_refs_by_node := rb_color R t1, p_refs_by_desc := rb_color R t2\<rparr>) k;
                           k = k\<lparr>k_refs := (k_refs k)(a \<mapsto> fresh_ref p n desc i)\<rparr>
                       in Ret (Some a, upd_node n (\<lambda>x. x\<lparr>n_refs := a # n_refs x\<rparr>) k))
                 | _ \<Rightarrow> Abort))))))"

definition delete_death :: "nat \<Rightarrow> kstate \<Rightarrow> kstate" where
  "delete_death d k =
     (let k = list_del_init (W_death d) k
      in stats_deleted Stat_death (k\<lparr>k_deaths := (k_deaths k)(d := None)\<rparr>))"

definition binder_delete_ref :: "rb_env \<Rightarrow> nat \<Rightarrow> kstate \<Rightarrow> kstate cres" where
  "binder_delete_ref R r k =
     cbind (of_mem (k_refs k r)) (\<lambda>ref.
       let n = r_node ref;
           k = upd_proc (r_proc ref) (\<lambda>x. x\<lparr>p_refs_by_desc := rb_erase R r (p_refs_by_desc x),
                 p_refs_by_node := rb_erase R r (p_refs_by_node x)\<rparr>) k
       in cbind (if r_strong ref \<noteq> 0 then binder_dec_node R n True True k else Ret k) (\<lambda>k.
          cbind (of_mem (k_nodes k n)) (\<lambda>_.
          cbind (binder_dec_node R n False True (upd_node n (\<lambda>x. x\<lparr>n_refs := remove1 r (n_refs x)\<rparr>) k)) (\<lambda>k.
            let k = (case r_death ref of None \<Rightarrow> k | Some d \<Rightarrow> delete_death d k)
            in Ret (stats_deleted Stat_ref (k\<lparr>k_refs := (k_refs k)(r := None)\<rparr>))))))"

definition binder_inc_ref :: "nat \<Rightarrow> bool \<Rightarrow> loc option \<Rightarrow> kstate \<Rightarrow> (int \<times> kstate) cres" where
  "binder_inc_ref r strong target_list k =
     cbind (of_mem (k_refs k r)) (\<lambda>ref.
       if strong then
         cbind (if r_strong ref = 0 then binder_inc_node (r_node ref) True True target_list k else Ret (0, k)) (\<lambda>(ret, k).
           if ret \<noteq> 0 then Ret (ret, k) else Ret (0, upd_ref r (\<lambda>x. x\<lparr>r_strong := r_strong x + 1\<rparr>) k))
       else
         cbind (if r_weak ref = 0 then binder_inc_node (r_node ref) False True target_list k else Ret (0, k)) (\<lambda>(ret, k).
           if ret \<noteq> 0 then Ret (ret, k) else Ret (0, upd_ref r (\<lambda>x. x\<lparr>r_weak := r_weak x + 1\<rparr>) k)))"

definition binder_dec_ref :: "rb_env \<Rightarrow> nat \<Rightarrow> bool \<Rightarrow> kstate \<Rightarrow> (int \<times> kstate) cres" where
  "binder_dec_ref R r strong k =
     cbind (of_mem (k_refs k r)) (\<lambda>ref.
       if (if strong then r_strong ref = 0 else r_weak ref = 0)
       then Ret (E_INVAL, complain ((if strong then Invalid_dec_strong else Invalid_dec_weak) (r_debug_id ref)) k)
       else
         let ref' = (if strong then ref\<lparr>r_strong := r_strong ref - 1\<rparr> else ref\<lparr>r_weak := r_weak ref - 1\<rparr>);
             k = k\<lparr>k_refs := (k_refs k)(r \<mapsto> ref')\<rparr>
         in cbind (if strong \<and> r_strong ref' = 0 then binder_dec_node R (r_node ref) True True k else Ret k) (\<lambda>k.
              if r_strong ref' = 0 \<and> r_weak ref' = 0
              then cbind (binder_delete_ref R r k) (\<lambda>k. Ret (0, k))
              else Ret (0, k)))"

end
