(* ===== verification/Drv_Procs.thy ===== *)
theory Drv_Procs
  imports Drv_Refs
begin

text \<open>
  Processes and threads of the kernel driver: opening the device, the threads that call it, what
  they wait for, and becoming the context manager.
\<close>

section \<open>Processes\<close>

definition no_alloc :: alloc where
  \<comment> \<open>the allocator of a process that has not mapped the device\<close>
  "no_alloc = \<lparr>al_buffer = 0, al_size = 0, al_offset = 0, al_vma = None, al_bufs = [], al_free = Leaf,
     al_allocated = Leaf, al_async = 0, al_pages = [], al_mapped = []\<rparr>"

definition fresh_proc :: "nat \<Rightarrow> int \<Rightarrow> proc" where
  "fresh_proc pid nice = \<lparr>p_pid = pid, p_threads = Leaf, p_nodes = Leaf, p_refs_by_desc = Leaf, p_refs_by_node = Leaf,
     p_todo = [], p_delivered = [], p_max_threads = 0, p_requested = 0, p_started = 0, p_ready = 0,
     p_default_priority = nice, p_alloc = no_alloc\<rparr>"

definition drv_open :: "nat \<Rightarrow> int \<Rightarrow> kstate \<Rightarrow> int \<times> nat option \<times> kstate" where
  \<comment> \<open>the result, and the process that the file descriptor then stands for\<close>
  "drv_open pid nice k = (case kzalloc k of
       (None, k) \<Rightarrow> (E_NOMEM, None, k)
     | (Some a, k) \<Rightarrow>
         let k = stats_created Stat_proc k
         in (0, Some a, k\<lparr>k_procs := (k_procs k)(a \<mapsto> fresh_proc pid nice)\<rparr>))"

section \<open>Threads\<close>

abbreviation LOOPER_REGISTERED :: u32 where "LOOPER_REGISTERED \<equiv> 0x01"
abbreviation LOOPER_ENTERED :: u32 where "LOOPER_ENTERED \<equiv> 0x02"
abbreviation LOOPER_EXITED :: u32 where "LOOPER_EXITED \<equiv> 0x04"
abbreviation LOOPER_INVALID :: u32 where "LOOPER_INVALID \<equiv> 0x08"
abbreviation LOOPER_WAITING :: u32 where "LOOPER_WAITING \<equiv> 0x10"
abbreviation LOOPER_NEED_RETURN :: u32 where "LOOPER_NEED_RETURN \<equiv> 0x20"

definition thread_dir :: "kstate \<Rightarrow> nat \<Rightarrow> nat \<Rightarrow> dir cres" where
  "thread_dir k pid x = cbind (of_mem (k_threads k x)) (\<lambda>t. Ret (cmp pid (th_pid t)))"

definition fresh_thread :: "nat \<Rightarrow> nat \<Rightarrow> thread" where
  "fresh_thread p pid = \<lparr>th_proc = p, th_pid = pid, th_looper = LOOPER_NEED_RETURN, th_stack = None,
     th_todo = [], th_error = BR_OK, th_error2 = BR_OK\<rparr>"

definition binder_get_thread :: "rb_env \<Rightarrow> nat \<Rightarrow> nat \<Rightarrow> kstate \<Rightarrow> (nat option \<times> kstate) cres" where
  \<comment> \<open>the thread of the caller in a process\<close>
  "binder_get_thread R p pid k =
     cbind (of_mem (k_procs k p)) (\<lambda>proc.
     cbind (tree_search (thread_dir k pid) (p_threads proc)) (\<lambda>found.
       case found of
         Some t \<Rightarrow> Ret (Some t, k)
       | None \<Rightarrow> (case kzalloc k of
           (None, k) \<Rightarrow> Ret (None, k)
         | (Some a, k) \<Rightarrow>
             let k = stats_created Stat_thread k
             in cbind (tree_link (thread_dir k pid) a (p_threads proc)) (\<lambda>r. case r of
                  Inl t \<Rightarrow> Ret (Some t, k)
                | Inr t \<Rightarrow>
                    let k = upd_proc p (\<lambda>x. x\<lparr>p_threads := rb_color R t\<rparr>) k
                    in Ret (Some a, k\<lparr>k_threads := (k_threads k)(a \<mapsto> fresh_thread p pid)\<rparr>)))))"

definition binder_has_proc_work :: "proc \<Rightarrow> thread \<Rightarrow> bool" where
  "binder_has_proc_work p t \<longleftrightarrow> p_todo p \<noteq> [] \<or> th_looper t AND LOOPER_NEED_RETURN \<noteq> 0"

definition binder_has_thread_work :: "thread \<Rightarrow> bool" where
  "binder_has_thread_work t \<longleftrightarrow>
     th_todo t \<noteq> [] \<or> th_error t \<noteq> BR_OK \<or> th_looper t AND LOOPER_NEED_RETURN \<noteq> 0"

definition binder_poll :: "rb_env \<Rightarrow> nat \<Rightarrow> nat \<Rightarrow> kstate \<Rightarrow> (bool \<times> kstate) cres" where
  \<comment> \<open>whether there is something to read at the first test\<close>
  "binder_poll R p pid k =
     cbind (binder_get_thread R p pid k) (\<lambda>(t, k).
     cbind (of_mem t) (\<lambda>t.
     cbind (of_mem (k_threads k t)) (\<lambda>thread.
     cbind (of_mem (k_procs k p)) (\<lambda>proc.
       Ret (if th_stack thread = None \<and> th_todo thread = [] \<and> th_error thread = BR_OK
            then binder_has_proc_work proc thread else binder_has_thread_work thread, k)))))"

definition binder_deferred_flush :: "nat \<Rightarrow> kstate \<Rightarrow> (nat \<times> kstate) cres" where
  \<comment> \<open>the number of threads that were woken\<close>
  "binder_deferred_flush p k =
     cbind (of_mem (k_procs k p)) (\<lambda>proc.
       let ts = inorder (p_threads proc)
       in if \<exists>t \<in> set ts. k_threads k t = None then Oob
          else Ret (length (filter (\<lambda>t. th_looper (the (k_threads k t)) AND LOOPER_WAITING \<noteq> 0) ts),
            fold (\<lambda>t. upd_thread t (\<lambda>x. x\<lparr>th_looper := th_looper x OR LOOPER_NEED_RETURN\<rparr>)) ts k))"

section \<open>The context manager\<close>

definition binder_ioctl_set_ctx_mgr :: "rb_env \<Rightarrow> nat \<Rightarrow> u32 \<Rightarrow> kstate \<Rightarrow> (int \<times> kstate) cres" where
  "binder_ioctl_set_ctx_mgr R p curr_euid k =
     (if k_mgr k \<noteq> None then Ret (E_BUSY, complain Mgr_already_set k)
      else case (case k_mgr_uid k of None \<Rightarrow> Inr (k\<lparr>k_mgr_uid := Some curr_euid\<rparr>)
                 | Some uid \<Rightarrow> if uid \<noteq> curr_euid then Inl (complain (Mgr_bad_uid curr_euid uid) k) else Inr k) of
          Inl k \<Rightarrow> Ret (E_PERM, k)
        | Inr k \<Rightarrow>
            cbind (binder_new_node R p 0 0 k) (\<lambda>(node, k).
              let k = k\<lparr>k_mgr := node\<rparr>
              in case node of
                   None \<Rightarrow> Ret (E_NOMEM, k)
                 | Some n \<Rightarrow> Ret (0, upd_node n (\<lambda>x. x\<lparr>n_local_weak := n_local_weak x + 1,
                     n_local_strong := n_local_strong x + 1, n_has_strong := True, n_has_weak := True\<rparr>) k)))"

end
