(* ===== verification/Drv_Txn.thy ===== *)
theory Drv_Txn
  imports Drv_Procs
begin

text \<open>
  Transactions of the kernel driver: the log of transactions, ending a transaction, failing a
  call whose target died, and giving up what the buffer of a message refers to. Loops that follow
  a chain of transactions are runs that need not end.
\<close>

section \<open>The header shared with user space\<close>

text \<open>
  The layout of an object in a message and the flags are those of the header
  \<open>linux/android/binder.h\<close>, a parameter. In a \<open>flat_binder_object\<close> the handle shares its
  memory with the pointer, of which it is the lower half.
\<close>

datatype ktype = T_BINDER | T_WEAK_BINDER | T_HANDLE | T_WEAK_HANDLE | T_FD | T_OTHER u32

record kobj =
  ko_type :: ktype
  ko_flags :: u32
  ko_binder :: u64
  ko_cookie :: u64

definition ko_handle :: "kobj \<Rightarrow> u32" where
  "ko_handle fp = ucast (ko_binder fp)"

definition set_handle :: "u32 \<Rightarrow> kobj \<Rightarrow> kobj" where
  "set_handle h fp = fp\<lparr>ko_binder := (ko_binder fp AND NOT (mask 32)) OR ucast h\<rparr>"

record kabi =
  ka_one_way :: u32
  ka_accept_fds :: u32
  ka_prio_mask :: u32
  ka_obj_fds :: u32
  ka_obj_size :: nat
  ka_get :: "bytes \<Rightarrow> kobj"
  ka_put :: "kobj \<Rightarrow> bytes"
  ka_txn_size :: nat

text \<open>What the driver relies on: an object has its size, and is read back as it was written.\<close>

definition kabi_ok :: "kabi \<Rightarrow> bool" where
  "kabi_ok A \<longleftrightarrow> 0 < ka_obj_size A \<and> (\<forall>fp. length (ka_put A fp) = ka_obj_size A \<and> ka_get A (ka_put A fp) = fp)"

definition one_way :: "kabi \<Rightarrow> u32 \<Rightarrow> bool" where
  "one_way A flags \<longleftrightarrow> flags AND ka_one_way A \<noteq> 0"

section \<open>The environment of a call\<close>

text \<open>
  Around the driver: the trees, the memory management of each process, whether a task may set a
  nice value and the least it may have, which descriptors of the caller are open files, and the
  user that the task of a process runs as.
\<close>

record denv =
  de_rb :: rb_env
  de_pg :: "nat \<Rightarrow> page_env"
  de_can_nice :: "int \<Rightarrow> bool"
  de_min_nice :: int
  de_fget :: "u32 \<Rightarrow> bool"
  de_euid :: "nat \<Rightarrow> u32"

section \<open>The log of transactions\<close>

definition empty_log_entry :: log_entry where
  "empty_log_entry = \<lparr>le_debug_id = 0, le_call_type = 0, le_from_proc = 0, le_from_thread = 0, le_target_handle = 0,
     le_to_proc = 0, le_to_thread = 0, le_to_node = 0, le_data_size = 0, le_offs_size = 0\<rparr>"

definition empty_log :: txn_log where
  "empty_log = \<lparr>lg_next = 0, lg_full = False, lg_entry = replicate 32 empty_log_entry\<rparr>"

definition binder_transaction_log_add :: "txn_log \<Rightarrow> nat \<times> txn_log" where
  \<comment> \<open>the place of the new entry, cleared\<close>
  "binder_transaction_log_add l =
     (let i = lg_next l;
          l = l\<lparr>lg_entry := (lg_entry l)[i := empty_log_entry], lg_next := i + 1\<rparr>
      in (i, if lg_next l = 32 then l\<lparr>lg_next := 0, lg_full := True\<rparr> else l))"

definition log_put :: "nat \<Rightarrow> log_entry \<Rightarrow> txn_log \<Rightarrow> txn_log" where
  "log_put i e l = l\<lparr>lg_entry := (lg_entry l)[i := e]\<rparr>"

section \<open>Priorities\<close>

definition binder_set_nice :: "denv \<Rightarrow> nat \<Rightarrow> int \<Rightarrow> kstate \<Rightarrow> kstate" where
  \<comment> \<open>of the task of a thread\<close>
  "binder_set_nice E th nice k =
     (if de_can_nice E nice then k\<lparr>k_nice := (k_nice k)(th := nice)\<rparr>
      else let k = k\<lparr>k_nice := (k_nice k)(th := de_min_nice E)\<rparr>
           in if de_min_nice E \<le> 19 then k else complain (User_error ''RLIMIT_NICE not set'') k)"

section \<open>The end of a transaction\<close>

definition free_txn :: "nat \<Rightarrow> kstate \<Rightarrow> kstate" where
  "free_txn t k = stats_deleted Stat_transaction (k\<lparr>k_txns := (k_txns k)(t := None)\<rparr>)"

definition forget_txn :: "(nat \<times> nat) option \<Rightarrow> kstate \<Rightarrow> kstate" where
  \<comment> \<open>\<open>t->buffer->transaction = NULL\<close> if there is a buffer\<close>
  "forget_txn bo k = (case bo of None \<Rightarrow> k | Some (p, a) \<Rightarrow> upd_kbuf p a (\<lambda>b. b\<lparr>b_txn := None\<rparr>) k)"

definition binder_pop_transaction :: "nat option \<Rightarrow> nat \<Rightarrow> kstate \<Rightarrow> kstate cres" where
  "binder_pop_transaction target_thread t k =
     cbind (of_mem (k_txns k t)) (\<lambda>tx.
     cbind (case target_thread of
         None \<Rightarrow> Ret k
       | Some th \<Rightarrow> cbind (of_mem (k_threads k th)) (\<lambda>x.
           if th_stack x \<noteq> Some t \<or> t_from tx \<noteq> Some th then Abort
           else Ret (upd_thread th (\<lambda>x. x\<lparr>th_stack := t_from_parent tx\<rparr>) k))) (\<lambda>k.
       Ret (free_txn t (forget_txn (t_buffer tx) k))))"

partial_function (option) send_failed :: "br \<Rightarrow> nat \<Rightarrow> kstate \<Rightarrow> kstate run" where
  "send_failed error_code t k =
     (case k_txns k t of
        None \<Rightarrow> Some Oob
      | Some tx \<Rightarrow> (case t_from tx of
          Some th \<Rightarrow> (case k_threads k th of
              None \<Rightarrow> Some Oob
            | Some x \<Rightarrow>
                let x = (if th_error x \<noteq> BR_OK \<and> th_error2 x = BR_OK
                         then x\<lparr>th_error2 := th_error x, th_error := BR_OK\<rparr> else x);
                    k = k\<lparr>k_threads := (k_threads k)(th \<mapsto> x)\<rparr>
                in if th_error x = BR_OK
                   then rbind (Some (binder_pop_transaction (Some th) t k)) (\<lambda>k.
                     ret (upd_thread th (\<lambda>x. x\<lparr>th_error := error_code\<rparr>) k))
                   else ret (complain (User_error ''reply failed, target thread has error code already'') k))
        | None \<Rightarrow> rbind (Some (binder_pop_transaction None t k)) (\<lambda>k.
            case t_from_parent tx of None \<Rightarrow> ret k | Some next \<Rightarrow> send_failed error_code next k)))"

definition binder_send_failed_reply :: "kabi \<Rightarrow> nat \<Rightarrow> br \<Rightarrow> kstate \<Rightarrow> kstate run" where
  "binder_send_failed_reply A t error_code k =
     (case k_txns k t of
        None \<Rightarrow> Some Oob
      | Some tx \<Rightarrow> if one_way A (t_flags tx) then Some Abort else send_failed error_code t k)"

section \<open>What a message refers to\<close>

definition obj_offset :: "buf \<Rightarrow> nat \<Rightarrow> u64 cres" where
  \<comment> \<open>an entry of the offsets behind the data\<close>
  "obj_offset b i = of_mem (load64 (b_mem b) (unat (align8 (b_data_size b)) + 8 * i))"

definition bad_offset :: "kabi \<Rightarrow> buf \<Rightarrow> u64 \<Rightarrow> bool" where
  "bad_offset A b off \<longleftrightarrow> off > b_data_size b - of_nat (ka_obj_size A) \<or> unat (b_data_size b) < ka_obj_size A \<or> off AND 3 \<noteq> 0"

definition obj_at :: "kabi \<Rightarrow> buf \<Rightarrow> u64 \<Rightarrow> kobj cres" where
  "obj_at A b off = cbind (of_mem (load (b_mem b) (unat off) (ka_obj_size A))) (\<lambda>bs. Ret (ka_get A bs))"

definition release_object :: "denv \<Rightarrow> nat \<Rightarrow> bool \<Rightarrow> kobj \<Rightarrow> kstate \<Rightarrow> kstate cres" where
  \<comment> \<open>one object of a message of process \<open>p\<close>; the flag says that sending it failed\<close>
  "release_object E p failed fp k =
     (case ko_type fp of
        T_OTHER _ \<Rightarrow> Ret (complain (User_error ''transaction release: bad object type'') k)
      | T_FD \<Rightarrow> Ret (if failed then k\<lparr>k_fdlog := k_fdlog k @ [Fd_close p (ko_handle fp)]\<rparr> else k)
      | ty \<Rightarrow>
          if ty = T_BINDER \<or> ty = T_WEAK_BINDER then
            cbind (binder_get_node p (ko_binder fp) k) (\<lambda>node. case node of
                None \<Rightarrow> Ret (complain (User_error ''transaction release: bad node'') k)
              | Some n \<Rightarrow> binder_dec_node (de_rb E) n (ty = T_BINDER) False k)
          else
            cbind (binder_get_ref p (ko_handle fp) k) (\<lambda>ref. case ref of
                None \<Rightarrow> Ret (complain (User_error ''transaction release: bad handle'') k)
              | Some r \<Rightarrow> cbind (binder_dec_ref (de_rb E) r (ty = T_HANDLE) k) (\<lambda>(_, k). Ret k)))"

primrec release_objects :: "kabi \<Rightarrow> denv \<Rightarrow> nat \<Rightarrow> bool \<Rightarrow> buf \<Rightarrow> nat list \<Rightarrow> kstate \<Rightarrow> kstate cres" where
  "release_objects A E p failed b [] k = Ret k"
| "release_objects A E p failed b (i # is) k =
     cbind (obj_offset b i) (\<lambda>off.
       cbind (if bad_offset A b off then Ret (complain (User_error ''transaction release: bad offset'') k)
              else cbind (obj_at A b off) (\<lambda>fp. release_object E p failed fp k)) (\<lambda>k.
         release_objects A E p failed b is k))"

definition binder_transaction_buffer_release ::
    "kabi \<Rightarrow> denv \<Rightarrow> nat \<Rightarrow> nat \<Rightarrow> nat option \<Rightarrow> kstate \<Rightarrow> kstate cres" where
  \<comment> \<open>\<open>failed_at\<close> is the number of the object that could not be sent\<close>
  "binder_transaction_buffer_release A E p a failed_at k =
     cbind (of_mem (kbuf p a k)) (\<lambda>b.
     cbind (case b_node b of None \<Rightarrow> Ret k | Some n \<Rightarrow> binder_dec_node (de_rb E) n True False k) (\<lambda>k.
       release_objects A E p (failed_at \<noteq> None) b
         [0 ..< (case failed_at of Some i \<Rightarrow> i | None \<Rightarrow> (unat (b_offs_size b) + 7) div 8)] k))"

definition free_kbuf :: "denv \<Rightarrow> nat \<Rightarrow> nat \<Rightarrow> kstate \<Rightarrow> kstate cres" where
  \<comment> \<open>\<open>binder_free_buf\<close> on a process\<close>
  "free_kbuf E p a k =
     cbind (of_mem (k_procs k p)) (\<lambda>proc.
     cbind (binder_free_buf (de_rb E) (de_pg E p) a (p_alloc proc)) (\<lambda>al.
       Ret (upd_proc p (\<lambda>x. x\<lparr>p_alloc := al\<rparr>) k)))"

section \<open>Work that is not delivered\<close>

definition undelivered :: "kabi \<Rightarrow> work \<Rightarrow> kstate \<Rightarrow> kstate run" where
  \<comment> \<open>one entry of a list that \<open>binder_release_work\<close> empties\<close>
  "undelivered A w k =
     (case w of
        W_txn t \<Rightarrow> (case k_txns k t of
            None \<Rightarrow> Some Oob
          | Some tx \<Rightarrow> (case t_buffer tx of
              None \<Rightarrow> Some Oob
            | Some (p, a) \<Rightarrow> (case kbuf p a k of
                None \<Rightarrow> Some Oob
              | Some b \<Rightarrow>
                  if b_node b \<noteq> None \<and> \<not> one_way A (t_flags tx)
                  then binder_send_failed_reply A t BR_DEAD_REPLY k
                  else ret (free_txn t (forget_txn (t_buffer tx) k)))))
      | W_complete c \<Rightarrow> ret (stats_deleted Stat_complete (k\<lparr>k_completes := (k_completes k)(c := None)\<rparr>))
      | W_death d \<Rightarrow> (case k_deaths k d of
            None \<Rightarrow> Some Oob
          | Some x \<Rightarrow>
              if d_kind x = None \<or> d_kind x = Some Dead_binder
              then ret (complain (User_error ''unexpected work type'') k)
              else ret (stats_deleted Stat_death (k\<lparr>k_deaths := (k_deaths k)(d := None)\<rparr>)))
      | W_node n \<Rightarrow> ret (complain (User_error ''unexpected work type'') k))"

fun list_of :: "loc \<Rightarrow> kstate \<Rightarrow> work list cres" where
  "list_of (Proc_todo p) k = cbind (of_mem (k_procs k p)) (\<lambda>x. Ret (p_todo x))"
| "list_of (Thread_todo t) k = cbind (of_mem (k_threads k t)) (\<lambda>x. Ret (th_todo x))"
| "list_of (Async_todo n) k = cbind (of_mem (k_nodes k n)) (\<lambda>x. Ret (n_async_todo x))"
| "list_of (Delivered p) k = cbind (of_mem (k_procs k p)) (\<lambda>x. Ret (p_delivered x))"

definition take_work :: "loc \<Rightarrow> work \<Rightarrow> kstate \<Rightarrow> kstate" where
  \<comment> \<open>\<open>list_del_init\<close> of an entry that is first on a list\<close>
  "take_work l w k = set_entry w None (upd_list l (remove1 w) k)"

partial_function (option) binder_release_work :: "kabi \<Rightarrow> loc \<Rightarrow> kstate \<Rightarrow> kstate run" where
  "binder_release_work A l k =
     rbind (Some (list_of l k)) (\<lambda>ws. case ws of
         [] \<Rightarrow> ret k
       | w # _ \<Rightarrow> rbind (undelivered A w (take_work l w k)) (binder_release_work A l))"

end
