(* ===== verification/Drv_Transaction.thy ===== *)
theory Drv_Transaction
  imports Drv_Txn
begin

text \<open>
  Sending a call or a reply, \<open>binder_transaction\<close>: finding the target, allocating the message in
  its memory, translating the objects, and queueing it; and what a failure at each point undoes.
\<close>

section \<open>What the caller passes\<close>

text \<open>
  \<open>struct binder_transaction_data\<close> as a thread passes it, with what copying the data and the
  offsets from its memory yields: none when the copy faults.
\<close>

record utr =
  ut_handle :: u32
  ut_code :: u32
  ut_flags :: u32
  ut_data_size :: u64
  ut_offs_size :: u64
  ut_data :: "bytes option"
  ut_offs :: "bytes option"

definition utr_ok :: "utr \<Rightarrow> bool" where
  \<comment> \<open>a copy has the length that was asked for\<close>
  "utr_ok tr \<longleftrightarrow> (\<forall>bs. ut_data tr = Some bs \<longrightarrow> length bs = unat (ut_data_size tr)) \<and>
     (\<forall>bs. ut_offs tr = Some bs \<longrightarrow> length bs = unat (ut_offs_size tr))"

section \<open>The target\<close>

text \<open>
  A failure is the error code, the transaction that was to be answered, if there is one to be
  failed, and the state.
\<close>

type_synonym failure = "br \<times> nat option \<times> kstate"

definition reply_target :: "denv \<Rightarrow> nat \<Rightarrow> kstate \<Rightarrow> (failure + nat \<times> nat \<times> nat \<times> kstate) cres" where
  \<comment> \<open>of a reply of a thread: the thread to answer, its process, and the transaction answered\<close>
  "reply_target E th k =
     cbind (of_mem (k_threads k th)) (\<lambda>thread.
       case th_stack thread of
         None \<Rightarrow> Ret (Inl (BR_FAILED_REPLY, None, complain (User_error ''reply with no transaction stack'') k))
       | Some irt \<Rightarrow>
           cbind (of_mem (k_txns k irt)) (\<lambda>tx.
             let k = binder_set_nice E th (t_saved_priority tx) k
             in if t_to_thread tx \<noteq> Some th
                then Ret (Inl (BR_FAILED_REPLY, None, complain (User_error ''reply with bad transaction stack'') k))
                else
                  let k = upd_thread th (\<lambda>x. x\<lparr>th_stack := t_to_parent tx\<rparr>) k
                  in case t_from tx of
                       None \<Rightarrow> Ret (Inl (BR_DEAD_REPLY, Some irt, k))
                     | Some target \<Rightarrow>
                         cbind (of_mem (k_threads k target)) (\<lambda>x.
                           if th_stack x \<noteq> Some irt
                           then Ret (Inl (BR_FAILED_REPLY, None,
                                  complain (User_error ''reply with bad target transaction stack'') k))
                           else Ret (Inr (target, th_proc x, irt, k)))))"

partial_function (option) waiting_thread :: "nat \<Rightarrow> kstate \<Rightarrow> nat option \<Rightarrow> nat option \<Rightarrow> nat option run" where
  \<comment> \<open>the last thread of the target process on the stack of calls that led to this one\<close>
  "waiting_thread target_proc k tmp target_thread =
     (case tmp of
        None \<Rightarrow> ret target_thread
      | Some t \<Rightarrow> (case k_txns k t of
          None \<Rightarrow> Some Oob
        | Some tx \<Rightarrow> (case t_from tx of
            None \<Rightarrow> waiting_thread target_proc k (t_from_parent tx) target_thread
          | Some f \<Rightarrow> (case k_threads k f of
              None \<Rightarrow> Some Oob
            | Some x \<Rightarrow> waiting_thread target_proc k (t_from_parent tx)
                (if th_proc x = target_proc then Some f else target_thread)))))"

definition call_node :: "nat \<Rightarrow> u32 \<Rightarrow> kstate \<Rightarrow> (failure + nat) cres" where
  \<comment> \<open>the node behind a handle\<close>
  "call_node p handle k =
     (if handle \<noteq> 0 then
        cbind (binder_get_ref p handle k) (\<lambda>ref. case ref of
            None \<Rightarrow> Ret (Inl (BR_FAILED_REPLY, None, complain (User_error ''transaction to invalid handle'') k))
          | Some r \<Rightarrow> cbind (of_mem (k_refs k r)) (\<lambda>r. Ret (Inr (r_node r))))
      else case k_mgr k of
          None \<Rightarrow> Ret (Inl (BR_DEAD_REPLY, None, k))
        | Some n \<Rightarrow> Ret (Inr n))"

definition call_target ::
    "kabi \<Rightarrow> nat \<Rightarrow> nat \<Rightarrow> utr \<Rightarrow> nat \<Rightarrow> log_entry \<Rightarrow> kstate \<Rightarrow> (failure + nat option \<times> nat \<times> nat) run" where
  \<comment> \<open>of a call: the thread that waits for it, if any, the target process and node\<close>
  "call_target A p th tr i e k =
     rbind (Some (call_node p (ut_handle tr) k)) (\<lambda>r. case r of
         Inl f \<Rightarrow> ret (Inl f)
       | Inr n \<Rightarrow>
           rbind (Some (of_mem (k_nodes k n))) (\<lambda>node. case n_proc node of
               None \<Rightarrow> ret (Inl (BR_DEAD_REPLY, None, k\<lparr>k_tlog := log_put i (e\<lparr>le_to_node := n_debug_id node\<rparr>) (k_tlog k)\<rparr>))
             | Some q \<Rightarrow>
                 rbind (Some (of_mem (k_threads k th))) (\<lambda>thread.
                   case (if one_way A (ut_flags tr) then None else th_stack thread) of
                     None \<Rightarrow> ret (Inr (None, q, n))
                   | Some tmp \<Rightarrow>
                       rbind (Some (of_mem (k_txns k tmp))) (\<lambda>tx.
                         if t_to_thread tx \<noteq> Some th
                         then ret (Inl (BR_FAILED_REPLY, None,
                                complain (User_error ''new transaction with bad transaction stack'')
                                  (k\<lparr>k_tlog := log_put i (e\<lparr>le_to_node := n_debug_id node\<rparr>) (k_tlog k)\<rparr>)))
                         else rbind (waiting_thread q k (Some tmp) None) (\<lambda>w. ret (Inr (w, q, n)))))))"

section \<open>Translating objects\<close>

definition node_for_object :: "kabi \<Rightarrow> denv \<Rightarrow> nat \<Rightarrow> kobj \<Rightarrow> kstate \<Rightarrow> (nat option \<times> kstate) cres" where
  \<comment> \<open>the node of a binder that process \<open>p\<close> sends, created when it is sent first\<close>
  "node_for_object A E p fp k =
     cbind (binder_get_node p (ko_binder fp) k) (\<lambda>node. case node of
         Some n \<Rightarrow> Ret (Some n, k)
       | None \<Rightarrow>
           cbind (binder_new_node (de_rb E) p (ko_binder fp) (ko_cookie fp) k) (\<lambda>(node, k). case node of
               None \<Rightarrow> Ret (None, k)
             | Some n \<Rightarrow> Ret (Some n, upd_node n (\<lambda>x. x\<lparr>n_min_priority := ucast (ko_flags fp AND ka_prio_mask A),
                   n_accept_fds := (ko_flags fp AND ka_obj_fds A \<noteq> 0)\<rparr>) k)))"

definition translate_binder ::
    "kabi \<Rightarrow> denv \<Rightarrow> nat \<Rightarrow> nat \<Rightarrow> nat \<Rightarrow> kobj \<Rightarrow> kstate \<Rightarrow> (kobj option \<times> kstate) cres" where
  \<comment> \<open>a binder of process \<open>p\<close> becomes a handle of process \<open>q\<close>\<close>
  "translate_binder A E p th q fp k =
     cbind (node_for_object A E p fp k) (\<lambda>(node, k). case node of
         None \<Rightarrow> Ret (None, k)
       | Some n \<Rightarrow> cbind (of_mem (k_nodes k n)) (\<lambda>x.
           if ko_cookie fp \<noteq> n_cookie x then Ret (None, complain (User_error ''cookie mismatch'') k)
           else cbind (binder_get_ref_for_node (de_rb E) q n k) (\<lambda>(ref, k). case ref of
               None \<Rightarrow> Ret (None, k)
             | Some r \<Rightarrow> cbind (of_mem (k_refs k r)) (\<lambda>ref.
                 let ty = (if ko_type fp = T_BINDER then T_HANDLE else T_WEAK_HANDLE);
                     fp = set_handle (r_desc ref) (fp\<lparr>ko_type := ty\<rparr>)
                 in cbind (binder_inc_ref r (ty = T_HANDLE) (Some (Thread_todo th)) k) (\<lambda>(_, k).
                      Ret (Some fp, k))))))"

definition translate_handle ::
    "denv \<Rightarrow> nat \<Rightarrow> nat \<Rightarrow> kobj \<Rightarrow> kstate \<Rightarrow> (kobj option \<times> kstate) cres" where
  \<comment> \<open>a handle of process \<open>p\<close> becomes the binder again in the process that owns it, and a handle
    of process \<open>q\<close> anywhere else\<close>
  "translate_handle E p q fp k =
     cbind (binder_get_ref p (ko_handle fp) k) (\<lambda>ref. case ref of
         None \<Rightarrow> Ret (None, complain (User_error ''transaction with invalid handle'') k)
       | Some r \<Rightarrow> cbind (of_mem (k_refs k r)) (\<lambda>ref. cbind (of_mem (k_nodes k (r_node ref))) (\<lambda>node.
           if n_proc node = Some q then
             let ty = (if ko_type fp = T_HANDLE then T_BINDER else T_WEAK_BINDER);
                 fp = fp\<lparr>ko_type := ty, ko_binder := n_ptr node, ko_cookie := n_cookie node\<rparr>
             in cbind (binder_inc_node (r_node ref) (ty = T_BINDER) False None k) (\<lambda>(_, k). Ret (Some fp, k))
           else
             cbind (binder_get_ref_for_node (de_rb E) q (r_node ref) k) (\<lambda>(new_ref, k). case new_ref of
                 None \<Rightarrow> Ret (None, k)
               | Some r' \<Rightarrow> cbind (of_mem (k_refs k r')) (\<lambda>new_ref.
                   cbind (binder_inc_ref r' (ko_type fp = T_HANDLE) None k) (\<lambda>(_, k).
                     Ret (Some (set_handle (r_desc new_ref) fp), k)))))))"

definition next_fd :: "kstate \<Rightarrow> int \<times> kstate" where
  \<comment> \<open>the result of the next call of \<open>task_get_unused_fd_flags\<close>\<close>
  "next_fd k = (case k_fds k of [] \<Rightarrow> (-24, k) | fd # fds \<Rightarrow> (fd, k\<lparr>k_fds := fds\<rparr>))"

definition translate_fd ::
    "denv \<Rightarrow> nat \<Rightarrow> bool \<Rightarrow> kobj \<Rightarrow> kstate \<Rightarrow> kobj option \<times> kstate" where
  \<comment> \<open>a file of the sender is opened in process \<open>q\<close>, if the target allows it\<close>
  "translate_fd E q allowed fp k =
     (if \<not> allowed then (None, complain (User_error ''target does not allow fds'') k)
      else if \<not> de_fget E (ko_handle fp) then (None, complain (User_error ''transaction with invalid fd'') k)
      else case next_fd k of (target_fd, k) \<Rightarrow>
        if target_fd < 0 then (None, k)
        else (Some (set_handle (word_of_int target_fd) fp),
              k\<lparr>k_fdlog := k_fdlog k @ [Fd_install q (ko_handle fp) target_fd]\<rparr>))"

text \<open>
  What the translation needs to know of the transaction: sender, its thread, the target process
  and node, and the transaction that is answered, if it is a reply.
\<close>

record tctx =
  tc_proc :: nat
  tc_thread :: nat
  tc_target :: nat
  tc_node :: "nat option"
  tc_reply :: "nat option"

definition fds_allowed :: "kabi \<Rightarrow> tctx \<Rightarrow> kstate \<Rightarrow> bool cres" where
  "fds_allowed A c k = (case tc_reply c of
       Some irt \<Rightarrow> cbind (of_mem (k_txns k irt)) (\<lambda>tx. Ret (t_flags tx AND ka_accept_fds A \<noteq> 0))
     | None \<Rightarrow> cbind (of_mem (tc_node c)) (\<lambda>n. cbind (of_mem (k_nodes k n)) (\<lambda>node. Ret (n_accept_fds node))))"

definition translate_object :: "kabi \<Rightarrow> denv \<Rightarrow> tctx \<Rightarrow> kobj \<Rightarrow> kstate \<Rightarrow> (kobj option \<times> kstate) cres" where
  \<comment> \<open>the object as the target sees it, or none if the transaction fails\<close>
  "translate_object A E c fp k =
     (case ko_type fp of
        T_BINDER \<Rightarrow> translate_binder A E (tc_proc c) (tc_thread c) (tc_target c) fp k
      | T_WEAK_BINDER \<Rightarrow> translate_binder A E (tc_proc c) (tc_thread c) (tc_target c) fp k
      | T_HANDLE \<Rightarrow> translate_handle E (tc_proc c) (tc_target c) fp k
      | T_WEAK_HANDLE \<Rightarrow> translate_handle E (tc_proc c) (tc_target c) fp k
      | T_FD \<Rightarrow> cbind (fds_allowed A c k) (\<lambda>ok. Ret (translate_fd E (tc_target c) ok fp k))
      | T_OTHER _ \<Rightarrow> Ret (None, complain (User_error ''transaction with invalid object type'') k))"

primrec translate_objects :: "kabi \<Rightarrow> denv \<Rightarrow> tctx \<Rightarrow> nat \<Rightarrow> nat list \<Rightarrow> kstate \<Rightarrow> (nat option \<times> kstate) cres" where
  \<comment> \<open>the loop over the offsets: none when all objects are sent, or the number of the one that failed\<close>
  "translate_objects A E c a [] k = Ret (None, k)"
| "translate_objects A E c a (i # is) k =
     cbind (of_mem (kbuf (tc_target c) a k)) (\<lambda>b.
     cbind (obj_offset b i) (\<lambda>off.
       if bad_offset A b off then Ret (Some i, complain (User_error ''transaction with invalid offset'') k)
       else cbind (obj_at A b off) (\<lambda>fp.
         cbind (translate_object A E c fp k) (\<lambda>(r, k). case r of
             None \<Rightarrow> Ret (Some i, k)
           | Some fp \<Rightarrow>
               cbind (of_mem (store (b_mem b) (unat off) (ka_put A fp))) (\<lambda>m.
                 translate_objects A E c a is (upd_kbuf (tc_target c) a (\<lambda>b. b\<lparr>b_mem := m\<rparr>) k))))))"

section \<open>Sending\<close>

definition undo_alloc :: "nat \<Rightarrow> nat \<Rightarrow> kstate \<Rightarrow> kstate" where
  \<comment> \<open>the two objects of a transaction that is not sent are freed\<close>
  "undo_alloc t tcomplete k =
     free_txn t (stats_deleted Stat_complete (k\<lparr>k_completes := (k_completes k)(tcomplete := None)\<rparr>))"

definition undo_buffer :: "kabi \<Rightarrow> denv \<Rightarrow> nat \<Rightarrow> nat \<Rightarrow> nat \<Rightarrow> kstate \<Rightarrow> kstate cres" where
  \<comment> \<open>what the message refers to is released up to the object that failed, and the message freed\<close>
  "undo_buffer A E q a i k =
     cbind (binder_transaction_buffer_release A E q a (Some i) k) (\<lambda>k.
       free_kbuf E q a (upd_kbuf q a (\<lambda>b. b\<lparr>b_txn := None\<rparr>) k))"

definition alloc_kbuf :: "kabi \<Rightarrow> denv \<Rightarrow> nat \<Rightarrow> utr \<Rightarrow> bool \<Rightarrow> kstate \<Rightarrow> (nat option \<times> kstate) cres" where
  \<comment> \<open>\<open>binder_alloc_buf\<close> in the target process\<close>
  "alloc_kbuf A E q tr async k =
     cbind (of_mem (k_procs k q)) (\<lambda>proc.
     cbind (binder_alloc_buf (de_rb E) (de_pg E q) (ut_data_size tr) (ut_offs_size tr) async (p_alloc proc)) (\<lambda>(r, al).
       Ret (r, upd_proc q (\<lambda>x. x\<lparr>p_alloc := al\<rparr>) k)))"

definition message :: "utr \<Rightarrow> bytes \<Rightarrow> bytes \<Rightarrow> bytes" where
  \<comment> \<open>data and offsets as they lie behind the header of the buffer; nothing reads the padding\<close>
  "message tr data offs = data @ replicate (unat (align8 (ut_data_size tr)) - length data) 0 @ offs"

definition fill_buffer ::
    "kabi \<Rightarrow> denv \<Rightarrow> tctx \<Rightarrow> nat \<Rightarrow> nat \<Rightarrow> nat \<Rightarrow> utr \<Rightarrow> kstate \<Rightarrow> (nat option \<times> kstate) cres" where
  \<comment> \<open>from the fields of the new buffer to the last object: none, or the object at which it failed\<close>
  "fill_buffer A E c a t i tr k =
     (let k = upd_kbuf (tc_target c) a (\<lambda>b. b\<lparr>b_user_free := False, b_debug_id := i, b_txn := Some t,
                b_node := tc_node c\<rparr>) k
      in cbind (case tc_node c of
           None \<Rightarrow> Ret k
         | Some n \<Rightarrow> cbind (binder_inc_node n True False None k) (\<lambda>(_, k). Ret k)) (\<lambda>k.
         case (ut_data tr, ut_offs tr) of
           (Some data, Some offs) \<Rightarrow>
             let k = upd_kbuf (tc_target c) a (\<lambda>b. b\<lparr>b_mem := message tr data offs\<rparr>) k
             in if unat (ut_offs_size tr) mod 8 \<noteq> 0
                then Ret (Some 0, complain (User_error ''transaction with invalid offsets size'') k)
                else translate_objects A E c a [0 ..< unat (ut_offs_size tr) div 8] k
         | _ \<Rightarrow> Ret (Some 0, complain (User_error ''transaction with invalid data or offsets ptr'') k)))"

definition enqueue ::
    "kabi \<Rightarrow> tctx \<Rightarrow> nat option \<Rightarrow> nat \<Rightarrow> nat \<Rightarrow> nat \<Rightarrow> u32 \<Rightarrow> kstate \<Rightarrow> kstate cres" where
  \<comment> \<open>the call stack changes, the transaction goes to the target and the completion to the sender\<close>
  "enqueue A c target_thread a t tcomplete flags k =
     (let target_list = (case target_thread of Some th \<Rightarrow> Thread_todo th | None \<Rightarrow> Proc_todo (tc_target c))
      in cbind (of_mem (kbuf (tc_target c) a k)) (\<lambda>b.
         cbind (case tc_reply c of
             Some irt \<Rightarrow>
               if b_async b then Abort
               else cbind (binder_pop_transaction target_thread irt k) (\<lambda>k. Ret (target_list, k))
           | None \<Rightarrow>
               if \<not> one_way A flags then
                 if b_async b then Abort
                 else cbind (of_mem (k_threads k (tc_thread c))) (\<lambda>thread.
                   Ret (target_list, upd_thread (tc_thread c) (\<lambda>x. x\<lparr>th_stack := Some t\<rparr>)
                     (upd_txn t (\<lambda>x. x\<lparr>t_need_reply := True, t_from_parent := th_stack thread\<rparr>) k)))
               else case tc_node c of
                   None \<Rightarrow> Abort
                 | Some n \<Rightarrow>
                     if \<not> b_async b then Abort
                     else cbind (of_mem (k_nodes k n)) (\<lambda>node.
                       Ret (if n_has_async node then (Async_todo n, k)
                            else (target_list, upd_node n (\<lambda>x. x\<lparr>n_has_async := True\<rparr>) k)))) (\<lambda>(target_list, k).
           Ret (list_add_tail (W_complete tcomplete) (Thread_todo (tc_thread c))
                  (list_add_tail (W_txn t) target_list k)))))"

definition fresh_txn :: "denv \<Rightarrow> kabi \<Rightarrow> tctx \<Rightarrow> nat option \<Rightarrow> nat \<Rightarrow> utr \<Rightarrow> kstate \<Rightarrow> txn" where
  "fresh_txn E A c target_thread i tr k =
     \<lparr>t_debug_id = i,
      t_from = (if tc_reply c = None \<and> \<not> one_way A (ut_flags tr) then Some (tc_thread c) else None),
      t_from_parent = None, t_to_proc = Some (tc_target c), t_to_thread = target_thread, t_to_parent = None,
      t_need_reply = False, t_buffer = None, t_code = ut_code tr, t_flags = ut_flags tr,
      t_priority = k_nice k (tc_thread c), t_saved_priority = 0, t_sender_euid = de_euid E (tc_proc c)\<rparr>"

definition send_message ::
    "kabi \<Rightarrow> denv \<Rightarrow> tctx \<Rightarrow> nat option \<Rightarrow> utr \<Rightarrow> nat \<times> log_entry \<Rightarrow> kstate \<Rightarrow> (br option \<times> kstate) cres" where
  \<comment> \<open>with the target known: none, or the error that the sender gets\<close>
  "send_message A E c target_thread tr lg k =
     (case kzalloc k of
        (None, k) \<Rightarrow> Ret (Some BR_FAILED_REPLY, k)
      | (Some t, k) \<Rightarrow>
          let k = stats_created Stat_transaction k
          in (case kzalloc k of
                (None, k) \<Rightarrow> Ret (Some BR_FAILED_REPLY, free_txn t k)
              | (Some tcomplete, k) \<Rightarrow>
                  let k = stats_created Stat_complete k;
                      i = k_last_id k + 1;
                      k = k\<lparr>k_last_id := i, k_completes := (k_completes k)(tcomplete \<mapsto> ()),
                            k_txns := (k_txns k)(t \<mapsto> fresh_txn E A c target_thread i tr k),
                            k_tlog := log_put (fst lg) ((snd lg)\<lparr>le_debug_id := i\<rparr>) (k_tlog k)\<rparr>
                  in cbind (alloc_kbuf A E (tc_target c) tr (tc_reply c = None \<and> one_way A (ut_flags tr)) k) (\<lambda>(r, k).
                       case r of
                         None \<Rightarrow> Ret (Some BR_FAILED_REPLY, undo_alloc t tcomplete k)
                       | Some a \<Rightarrow>
                           let k = upd_txn t (\<lambda>x. x\<lparr>t_buffer := Some (tc_target c, a)\<rparr>) k
                           in cbind (fill_buffer A E c a t i tr k) (\<lambda>(failed, k). case failed of
                                Some j \<Rightarrow> cbind (undo_buffer A E (tc_target c) a j k) (\<lambda>k.
                                  Ret (Some BR_FAILED_REPLY, undo_alloc t tcomplete k))
                              | None \<Rightarrow> cbind (enqueue A c target_thread a t tcomplete (ut_flags tr) k) (\<lambda>k.
                                  Ret (None, k))))))"

definition fail_transaction :: "kabi \<Rightarrow> nat \<Rightarrow> br \<Rightarrow> nat option \<Rightarrow> kstate \<Rightarrow> kstate run" where
  \<comment> \<open>the sender is told, or the caller of the transaction that was to be answered\<close>
  "fail_transaction A th error in_reply_to k =
     (case k_threads k th of
        None \<Rightarrow> Some Oob
      | Some thread \<Rightarrow>
          if th_error thread \<noteq> BR_OK then Some Abort
          else case in_reply_to of
              Some irt \<Rightarrow> binder_send_failed_reply A irt error (upd_thread th (\<lambda>x. x\<lparr>th_error := BR_TRANSACTION_COMPLETE\<rparr>) k)
            | None \<Rightarrow> ret (upd_thread th (\<lambda>x. x\<lparr>th_error := error\<rparr>) k))"

section \<open>The whole call\<close>

definition log_start :: "kabi \<Rightarrow> nat \<Rightarrow> nat \<Rightarrow> bool \<Rightarrow> utr \<Rightarrow> kstate \<Rightarrow> (nat \<times> log_entry \<times> kstate) cres" where
  "log_start A p th reply tr k =
     cbind (of_mem (k_procs k p)) (\<lambda>proc. cbind (of_mem (k_threads k th)) (\<lambda>thread.
       let (i, l) = binder_transaction_log_add (k_tlog k);
           e = empty_log_entry\<lparr>le_call_type := (if reply then 2 else if one_way A (ut_flags tr) then 1 else 0),
                 le_from_proc := p_pid proc, le_from_thread := th_pid thread, le_target_handle := ut_handle tr,
                 le_data_size := ucast (ut_data_size tr), le_offs_size := ucast (ut_offs_size tr)\<rparr>
       in Ret (i, e, k\<lparr>k_tlog := log_put i e l\<rparr>)))"

definition log_target :: "nat \<Rightarrow> log_entry \<Rightarrow> nat option \<Rightarrow> nat option \<Rightarrow> nat \<Rightarrow> kstate \<Rightarrow> (log_entry \<times> kstate) cres" where
  "log_target i e node target_thread q k =
     cbind (case node of None \<Rightarrow> Ret e
            | Some n \<Rightarrow> cbind (of_mem (k_nodes k n)) (\<lambda>x. Ret (e\<lparr>le_to_node := n_debug_id x\<rparr>))) (\<lambda>e.
     cbind (case target_thread of None \<Rightarrow> Ret e
            | Some t \<Rightarrow> cbind (of_mem (k_threads k t)) (\<lambda>x. Ret (e\<lparr>le_to_thread := th_pid x\<rparr>))) (\<lambda>e.
     cbind (of_mem (k_procs k q)) (\<lambda>proc.
       let e = e\<lparr>le_to_proc := p_pid proc\<rparr>
       in Ret (e, k\<lparr>k_tlog := log_put i e (k_tlog k)\<rparr>))))"

definition log_failure :: "nat \<Rightarrow> kstate \<Rightarrow> kstate" where
  "log_failure i k =
     (let (j, l) = binder_transaction_log_add (k_tfail k)
      in k\<lparr>k_tfail := log_put j (lg_entry (k_tlog k) ! i) l\<rparr>)"

definition send_to ::
    "kabi \<Rightarrow> denv \<Rightarrow> nat \<Rightarrow> nat \<Rightarrow> utr \<Rightarrow> nat \<Rightarrow> log_entry \<Rightarrow> nat option \<Rightarrow> nat option \<Rightarrow> nat \<Rightarrow> nat option \<Rightarrow> kstate
       \<Rightarrow> kstate run" where
  "send_to A E p th tr i e irt target_thread q node k =
     rbind (Some (log_target i e node target_thread q k)) (\<lambda>(e, k).
     rbind (Some (send_message A E \<lparr>tc_proc = p, tc_thread = th, tc_target = q, tc_node = node, tc_reply = irt\<rparr>
       target_thread tr (i, e) k)) (\<lambda>(err, k). case err of
         None \<Rightarrow> ret k
       | Some error \<Rightarrow> fail_transaction A th error irt (log_failure i k)))"

definition binder_transaction ::
    "kabi \<Rightarrow> denv \<Rightarrow> nat \<Rightarrow> nat \<Rightarrow> utr \<Rightarrow> bool \<Rightarrow> kstate \<Rightarrow> kstate run" where
  "binder_transaction A E p th tr reply k =
     rbind (Some (log_start A p th reply tr k)) (\<lambda>(i, e, k).
       if reply then
         rbind (Some (reply_target E th k)) (\<lambda>r. case r of
             Inl (error, irt, k) \<Rightarrow> fail_transaction A th error irt (log_failure i k)
           | Inr (target, q, irt, k) \<Rightarrow> send_to A E p th tr i e (Some irt) (Some target) q None k)
       else
         rbind (call_target A p th tr i e k) (\<lambda>r. case r of
             Inl (error, irt, k) \<Rightarrow> fail_transaction A th error irt (log_failure i k)
           | Inr (target_thread, q, n) \<Rightarrow> send_to A E p th tr i e None target_thread q (Some n) k))"

end
