(* ===== verification/Drv_Write.thy ===== *)
theory Drv_Write
  imports Drv_Transaction
begin

text \<open>
  The commands that a thread writes to the driver, \<open>binder_thread_write\<close>: reference counts,
  acknowledgements, buffers to free, transactions, the state of the thread in the pool, and death
  notifications. The counters of commands for the debug output are left out.
\<close>

section \<open>Commands\<close>

text \<open>
  A command with its operands as they are read from the memory of the thread, and its length
  there.
\<close>

datatype bc =
    BC_INCREFS u32 | BC_ACQUIRE u32 | BC_RELEASE u32 | BC_DECREFS u32
  | BC_INCREFS_DONE u64 u64 | BC_ACQUIRE_DONE u64 u64
  | BC_ATTEMPT_ACQUIRE | BC_ACQUIRE_RESULT
  | BC_FREE_BUFFER u64
  | BC_TRANSACTION utr | BC_REPLY utr
  | BC_REGISTER_LOOPER | BC_ENTER_LOOPER | BC_EXIT_LOOPER
  | BC_REQUEST_DEATH_NOTIFICATION u32 u64 | BC_CLEAR_DEATH_NOTIFICATION u32 u64
  | BC_DEAD_BINDER_DONE u64
  | BC_UNKNOWN u32

fun bc_size :: "kabi \<Rightarrow> bc \<Rightarrow> nat" where
  "bc_size A (BC_INCREFS _) = 8"
| "bc_size A (BC_ACQUIRE _) = 8"
| "bc_size A (BC_RELEASE _) = 8"
| "bc_size A (BC_DECREFS _) = 8"
| "bc_size A (BC_INCREFS_DONE _ _) = 20"
| "bc_size A (BC_ACQUIRE_DONE _ _) = 20"
| "bc_size A (BC_FREE_BUFFER _) = 12"
| "bc_size A (BC_TRANSACTION _) = 4 + ka_txn_size A"
| "bc_size A (BC_REPLY _) = 4 + ka_txn_size A"
| "bc_size A (BC_REQUEST_DEATH_NOTIFICATION _ _) = 16"
| "bc_size A (BC_CLEAR_DEATH_NOTIFICATION _ _) = 16"
| "bc_size A (BC_DEAD_BINDER_DONE _) = 12"
| "bc_size A _ = 4"

section \<open>Reference counts\<close>

definition ref_command :: "denv \<Rightarrow> nat \<Rightarrow> bool \<Rightarrow> bool \<Rightarrow> u32 \<Rightarrow> kstate \<Rightarrow> kstate cres" where
  \<comment> \<open>one of the four commands: whether it counts up, and the strong count\<close>
  "ref_command E p inc strong target k =
     cbind (case (if target = 0 \<and> inc then k_mgr k else None) of
         Some n \<Rightarrow> cbind (binder_get_ref_for_node (de_rb E) p n k) (\<lambda>(ref, k).
           cbind (of_mem ref) (\<lambda>r. cbind (of_mem (k_refs k r)) (\<lambda>x.
             Ret (Some r, if r_desc x \<noteq> target
                  then complain (User_error ''tried to acquire reference to desc 0'') k else k))))
       | None \<Rightarrow> cbind (binder_get_ref p target k) (\<lambda>ref. Ret (ref, k))) (\<lambda>(ref, k).
       case ref of
         None \<Rightarrow> Ret (complain (User_error ''refcount change on invalid ref'') k)
       | Some r \<Rightarrow> cbind (if inc then binder_inc_ref r strong None k else binder_dec_ref (de_rb E) r strong k) (\<lambda>(_, k).
           Ret k))"

definition done_command :: "denv \<Rightarrow> nat \<Rightarrow> bool \<Rightarrow> u64 \<Rightarrow> u64 \<Rightarrow> kstate \<Rightarrow> kstate cres" where
  \<comment> \<open>the owner of a node acknowledges \<open>BR_ACQUIRE\<close> or \<open>BR_INCREFS\<close>\<close>
  "done_command E p strong node_ptr cookie k =
     cbind (binder_get_node p node_ptr k) (\<lambda>node. case node of
         None \<Rightarrow> Ret (complain (User_error ''BC_INCREFS_DONE no match'') k)
       | Some n \<Rightarrow> cbind (of_mem (k_nodes k n)) (\<lambda>x.
           if cookie \<noteq> n_cookie x then Ret (complain (User_error ''BC_INCREFS_DONE cookie mismatch'') k)
           else if \<not> (if strong then n_pending_strong x else n_pending_weak x)
           then Ret (complain (User_error ''BC_INCREFS_DONE has no pending request'') k)
           else binder_dec_node (de_rb E) n strong False
                  (upd_node n (\<lambda>x. if strong then x\<lparr>n_pending_strong := False\<rparr> else x\<lparr>n_pending_weak := False\<rparr>) k)))"

section \<open>Giving a buffer back\<close>

definition next_async :: "nat \<Rightarrow> nat \<Rightarrow> kstate \<Rightarrow> kstate cres" where
  \<comment> \<open>an asynchronous transaction of a node is finished: the next one goes to the thread\<close>
  "next_async n th k =
     cbind (of_mem (k_nodes k n)) (\<lambda>node.
       if \<not> n_has_async node then Abort
       else case n_async_todo node of
           [] \<Rightarrow> Ret (upd_node n (\<lambda>x. x\<lparr>n_has_async := False\<rparr>) k)
         | w # _ \<Rightarrow> Ret (list_add_tail w (Thread_todo th) (take_work (Async_todo n) w k)))"

definition free_buffer_command :: "kabi \<Rightarrow> denv \<Rightarrow> nat \<Rightarrow> nat \<Rightarrow> u64 \<Rightarrow> kstate \<Rightarrow> kstate cres" where
  "free_buffer_command A E p th data_ptr k =
     cbind (of_mem (k_procs k p)) (\<lambda>proc.
     cbind (binder_buffer_lookup (p_alloc proc) data_ptr) (\<lambda>buffer. case buffer of
         None \<Rightarrow> Ret (complain (User_error ''BC_FREE_BUFFER no match'') k)
       | Some a \<Rightarrow> cbind (of_mem (kbuf p a k)) (\<lambda>b.
           if \<not> b_user_free b then Ret (complain (User_error ''BC_FREE_BUFFER matched unreturned buffer'') k)
           else
             cbind (case b_txn b of
                 None \<Rightarrow> Ret k
               | Some t \<Rightarrow> cbind (of_mem (k_txns k t)) (\<lambda>_.
                   Ret (upd_kbuf p a (\<lambda>b. b\<lparr>b_txn := None\<rparr>) (upd_txn t (\<lambda>x. x\<lparr>t_buffer := None\<rparr>) k)))) (\<lambda>k.
             cbind (case (if b_async b then b_node b else None) of
                 None \<Rightarrow> Ret k
               | Some n \<Rightarrow> next_async n th k) (\<lambda>k.
             cbind (binder_transaction_buffer_release A E p a None k) (\<lambda>k. free_kbuf E p a k))))))"

section \<open>The state of a thread in the pool\<close>

definition looper_or :: "nat \<Rightarrow> u32 \<Rightarrow> kstate \<Rightarrow> kstate" where
  "looper_or th bits k = upd_thread th (\<lambda>x. x\<lparr>th_looper := th_looper x OR bits\<rparr>) k"

definition register_looper :: "nat \<Rightarrow> nat \<Rightarrow> kstate \<Rightarrow> kstate cres" where
  "register_looper p th k =
     cbind (of_mem (k_procs k p)) (\<lambda>proc. cbind (of_mem (k_threads k th)) (\<lambda>thread.
       let k = (if th_looper thread AND LOOPER_ENTERED \<noteq> 0
                then complain (User_error ''BC_REGISTER_LOOPER called after BC_ENTER_LOOPER'') (looper_or th LOOPER_INVALID k)
                else if p_requested proc = 0
                then complain (User_error ''BC_REGISTER_LOOPER called without request'') (looper_or th LOOPER_INVALID k)
                else upd_proc p (\<lambda>x. x\<lparr>p_requested := p_requested x - 1, p_started := p_started x + 1\<rparr>) k)
       in Ret (looper_or th LOOPER_REGISTERED k)))"

definition enter_looper :: "nat \<Rightarrow> kstate \<Rightarrow> kstate cres" where
  "enter_looper th k =
     cbind (of_mem (k_threads k th)) (\<lambda>thread.
       let k = (if th_looper thread AND LOOPER_REGISTERED \<noteq> 0
                then complain (User_error ''BC_ENTER_LOOPER called after BC_REGISTER_LOOPER'') (looper_or th LOOPER_INVALID k)
                else k)
       in Ret (looper_or th LOOPER_ENTERED k))"

section \<open>Death notifications\<close>

definition in_pool :: "thread \<Rightarrow> bool" where
  "in_pool thread \<longleftrightarrow> th_looper thread AND (LOOPER_REGISTERED OR LOOPER_ENTERED) \<noteq> 0"

definition queue_death :: "nat \<Rightarrow> nat \<Rightarrow> nat \<Rightarrow> death_kind \<Rightarrow> kstate \<Rightarrow> kstate cres" where
  \<comment> \<open>to the thread that calls, if it is in the pool, else to its process\<close>
  "queue_death p th d kind k =
     cbind (of_mem (k_threads k th)) (\<lambda>thread.
       Ret (list_add_tail (W_death d) (if in_pool thread then Thread_todo th else Proc_todo p)
              (upd_death d (\<lambda>x. x\<lparr>d_kind := Some kind\<rparr>) k)))"

definition request_death :: "nat \<Rightarrow> nat \<Rightarrow> nat \<Rightarrow> u64 \<Rightarrow> kstate \<Rightarrow> kstate cres" where
  "request_death p th r cookie k =
     cbind (of_mem (k_refs k r)) (\<lambda>ref.
       if r_death ref \<noteq> None then Ret (complain (User_error ''death notification already set'') k)
       else case kzalloc k of
           (None, k) \<Rightarrow> Ret (upd_thread th (\<lambda>x. x\<lparr>th_error := BR_ERROR\<rparr>) k)
         | (Some d, k) \<Rightarrow>
             let k = stats_created Stat_death k;
                 k = k\<lparr>k_deaths := (k_deaths k)(d \<mapsto> \<lparr>d_kind = None, d_entry = None, d_cookie = cookie\<rparr>)\<rparr>;
                 k = upd_ref r (\<lambda>x. x\<lparr>r_death := Some d\<rparr>) k
             in cbind (of_mem (k_nodes k (r_node ref))) (\<lambda>node.
                  if n_proc node = None then queue_death p th d Dead_binder k else Ret k))"

definition clear_death :: "nat \<Rightarrow> nat \<Rightarrow> nat \<Rightarrow> u64 \<Rightarrow> kstate \<Rightarrow> kstate cres" where
  "clear_death p th r cookie k =
     cbind (of_mem (k_refs k r)) (\<lambda>ref. case r_death ref of
         None \<Rightarrow> Ret (complain (User_error ''death notification not active'') k)
       | Some d \<Rightarrow> cbind (of_mem (k_deaths k d)) (\<lambda>death.
           if d_cookie death \<noteq> cookie then Ret (complain (User_error ''death notification cookie mismatch'') k)
           else
             let k = upd_ref r (\<lambda>x. x\<lparr>r_death := None\<rparr>) k
             in if d_entry death = None then queue_death p th d Clear_death_notification k
                else if d_kind death \<noteq> Some Dead_binder then Abort
                else Ret (upd_death d (\<lambda>x. x\<lparr>d_kind := Some Dead_binder_and_clear\<rparr>) k)))"

definition death_command :: "bool \<Rightarrow> nat \<Rightarrow> nat \<Rightarrow> u32 \<Rightarrow> u64 \<Rightarrow> kstate \<Rightarrow> kstate cres" where
  "death_command request p th target cookie k =
     cbind (binder_get_ref p target k) (\<lambda>ref. case ref of
         None \<Rightarrow> Ret (complain (User_error ''death notification: invalid ref'') k)
       | Some r \<Rightarrow> (if request then request_death else clear_death) p th r cookie k)"

fun find_death :: "u64 \<Rightarrow> work list \<Rightarrow> kstate \<Rightarrow> nat option cres" where
  \<comment> \<open>the scan of the delivered notifications\<close>
  "find_death cookie [] k = Ret None"
| "find_death cookie (W_death d # ws) k = cbind (of_mem (k_deaths k d)) (\<lambda>x.
     if d_cookie x = cookie then Ret (Some d) else find_death cookie ws k)"
| "find_death cookie (_ # ws) k = Oob"

definition dead_binder_done :: "nat \<Rightarrow> nat \<Rightarrow> u64 \<Rightarrow> kstate \<Rightarrow> kstate cres" where
  "dead_binder_done p th cookie k =
     cbind (of_mem (k_procs k p)) (\<lambda>proc.
     cbind (find_death cookie (p_delivered proc) k) (\<lambda>death. case death of
         None \<Rightarrow> Ret (complain (User_error ''BC_DEAD_BINDER_DONE not found'') k)
       | Some d \<Rightarrow> cbind (of_mem (k_deaths k d)) (\<lambda>x.
           let k = list_del_init (W_death d) k
           in if d_kind x = Some Dead_binder_and_clear then queue_death p th d Clear_death_notification k
              else Ret k)))"

section \<open>The loop over the commands\<close>

definition bc_exec :: "kabi \<Rightarrow> denv \<Rightarrow> nat \<Rightarrow> nat \<Rightarrow> bc \<Rightarrow> kstate \<Rightarrow> (int \<times> kstate) run" where
  \<comment> \<open>one command: zero, or the error that ends the call\<close>
  "bc_exec A E p th cmd k =
     (let ok = (\<lambda>m. rbind (Some m) (\<lambda>k. ret (0, k))) in
      case cmd of
        BC_INCREFS target \<Rightarrow> ok (ref_command E p True False target k)
      | BC_ACQUIRE target \<Rightarrow> ok (ref_command E p True True target k)
      | BC_RELEASE target \<Rightarrow> ok (ref_command E p False True target k)
      | BC_DECREFS target \<Rightarrow> ok (ref_command E p False False target k)
      | BC_INCREFS_DONE ptr cookie \<Rightarrow> ok (done_command E p False ptr cookie k)
      | BC_ACQUIRE_DONE ptr cookie \<Rightarrow> ok (done_command E p True ptr cookie k)
      | BC_ATTEMPT_ACQUIRE \<Rightarrow> ret (E_INVAL, complain (User_error ''BC_ATTEMPT_ACQUIRE not supported'') k)
      | BC_ACQUIRE_RESULT \<Rightarrow> ret (E_INVAL, complain (User_error ''BC_ACQUIRE_RESULT not supported'') k)
      | BC_FREE_BUFFER ptr \<Rightarrow> ok (free_buffer_command A E p th ptr k)
      | BC_TRANSACTION tr \<Rightarrow> rbind (binder_transaction A E p th tr False k) (\<lambda>k. ret (0, k))
      | BC_REPLY tr \<Rightarrow> rbind (binder_transaction A E p th tr True k) (\<lambda>k. ret (0, k))
      | BC_REGISTER_LOOPER \<Rightarrow> ok (register_looper p th k)
      | BC_ENTER_LOOPER \<Rightarrow> ok (enter_looper th k)
      | BC_EXIT_LOOPER \<Rightarrow> ok (Ret (looper_or th LOOPER_EXITED k))
      | BC_REQUEST_DEATH_NOTIFICATION target cookie \<Rightarrow> ok (death_command True p th target cookie k)
      | BC_CLEAR_DEATH_NOTIFICATION target cookie \<Rightarrow> ok (death_command False p th target cookie k)
      | BC_DEAD_BINDER_DONE cookie \<Rightarrow> ok (dead_binder_done p th cookie k)
      | BC_UNKNOWN c \<Rightarrow> ret (E_INVAL, complain (User_error ''unknown command'') k))"

abbreviation E_FAULT :: int where "E_FAULT \<equiv> -14"

text \<open>
  \<open>fetch\<close> is the write buffer of the thread: the command at an offset, none where reading
  faults. The result is the return value, how much was consumed, and the state.
\<close>

partial_function (option) binder_thread_write ::
    "kabi \<Rightarrow> denv \<Rightarrow> nat \<Rightarrow> nat \<Rightarrow> (nat \<Rightarrow> bc option) \<Rightarrow> nat \<Rightarrow> nat \<Rightarrow> kstate \<Rightarrow> (int \<times> nat \<times> kstate) run" where
  "binder_thread_write A E p th fetch need consumed k =
     rbind (Some (of_mem (k_threads k th))) (\<lambda>thread.
       if consumed < need \<and> th_error thread = BR_OK then
         (case fetch consumed of
            None \<Rightarrow> ret (E_FAULT, consumed, k)
          | Some cmd \<Rightarrow> rbind (bc_exec A E p th cmd k) (\<lambda>(err, k).
              if err \<noteq> 0 then ret (err, consumed, k)
              else binder_thread_write A E p th fetch need (consumed + bc_size A cmd) k))
       else ret (0, consumed, k))"

end
