(* ===== verification/Drv_Read.thy ===== *)
theory Drv_Read
  imports Drv_Write
begin

text \<open>
  What the driver tells a thread, \<open>binder_thread_read\<close>. The lock is released while the thread
  waits for work, so a call is made of parts: up to the wait, and from the wait on, possibly more
  than once; other calls run in between. The counters of return codes for the debug output are
  left out.
\<close>

section \<open>The read buffer\<close>

fun br_size :: "kabi \<Rightarrow> br \<Rightarrow> nat" where
  "br_size A (BR_TRANSACTION _) = 4 + ka_txn_size A"
| "br_size A (BR_REPLY _) = 4 + ka_txn_size A"
| "br_size A (BR_INCREFS _ _) = 20"
| "br_size A (BR_ACQUIRE _ _) = 20"
| "br_size A (BR_RELEASE _ _) = 20"
| "br_size A (BR_DECREFS _ _) = 20"
| "br_size A (BR_DEAD_BINDER _) = 12"
| "br_size A (BR_CLEAR_DEATH_NOTIFICATION_DONE _) = 12"
| "br_size A _ = 4"

text \<open>
  The state of a call: the size of the read buffer and which parts of it can be written, the place
  of the next return code, and what was written where, in the order of the writes.
\<close>

record rd =
  rd_size :: nat
  rd_writable :: "nat \<Rightarrow> nat \<Rightarrow> bool"
  rd_ptr :: nat
  rd_out :: "(nat \<times> br) list"

definition put_br :: "kabi \<Rightarrow> br \<Rightarrow> rd \<Rightarrow> rd option" where
  \<comment> \<open>a return code with its operands, or none when that faults\<close>
  "put_br A c r =
     (if rd_writable r (rd_ptr r) (br_size A c)
      then Some (r\<lparr>rd_ptr := rd_ptr r + br_size A c, rd_out := rd_out r @ [(rd_ptr r, c)]\<rparr>) else None)"

text \<open>
  How a part of the call ends: it waits for work of the process or of the thread, it has a result
  to be finished, it starts again, or the whole call fails with an error.
\<close>

datatype rstep = R_wait bool rd kstate | R_done rd kstate | R_retry rd kstate | R_error int kstate

section \<open>Up to the wait\<close>

definition read_error :: "kabi \<Rightarrow> nat \<Rightarrow> thread \<Rightarrow> rd \<Rightarrow> kstate \<Rightarrow> rstep" where
  \<comment> \<open>an error of an earlier command is reported instead of work\<close>
  "read_error A th thread r k =
     (let last = (\<lambda>r k. case put_br A (th_error thread) r of
            None \<Rightarrow> R_error E_FAULT k
          | Some r \<Rightarrow> R_done r (upd_thread th (\<lambda>x. x\<lparr>th_error := BR_OK\<rparr>) k))
      in if th_error2 thread \<noteq> BR_OK then
           (case put_br A (th_error2 thread) r of
              None \<Rightarrow> R_error E_FAULT k
            | Some r \<Rightarrow>
                if rd_ptr r = rd_size r then R_done r k
                else last r (upd_thread th (\<lambda>x. x\<lparr>th_error2 := BR_OK\<rparr>) k))
         else last r k)"

definition read_prepare :: "kabi \<Rightarrow> denv \<Rightarrow> nat \<Rightarrow> nat \<Rightarrow> rd \<Rightarrow> kstate \<Rightarrow> rstep cres" where
  \<comment> \<open>from the label \<open>retry\<close> to the wait\<close>
  "read_prepare A E p th r k =
     cbind (of_mem (k_threads k th)) (\<lambda>thread. cbind (of_mem (k_procs k p)) (\<lambda>proc.
       let wait_for_proc_work = (th_stack thread = None \<and> th_todo thread = [])
       in if th_error thread \<noteq> BR_OK \<and> rd_ptr r < rd_size r then Ret (read_error A th thread r k)
          else
            let k = looper_or th LOOPER_WAITING k;
                k = (if wait_for_proc_work then
                       binder_set_nice E th (p_default_priority proc)
                         (if in_pool thread then upd_proc p (\<lambda>x. x\<lparr>p_ready := p_ready x + 1\<rparr>) k
                          else complain (User_error ''Thread waiting for process work before BC_ENTER_LOOPER'')
                                 (upd_proc p (\<lambda>x. x\<lparr>p_ready := p_ready x + 1\<rparr>) k))
                     else k)
            in Ret (R_wait wait_for_proc_work r k)))"

definition read_start :: "kabi \<Rightarrow> denv \<Rightarrow> nat \<Rightarrow> nat \<Rightarrow> rd \<Rightarrow> kstate \<Rightarrow> rstep cres" where
  "read_start A E p th r k =
     (if rd_ptr r = 0 then
        (case put_br A BR_NOOP r of None \<Rightarrow> Ret (R_error E_FAULT k) | Some r \<Rightarrow> read_prepare A E p th r k)
      else read_prepare A E p th r k)"

definition read_has_work :: "bool \<Rightarrow> nat \<Rightarrow> nat \<Rightarrow> kstate \<Rightarrow> bool cres" where
  \<comment> \<open>the condition that ends the wait\<close>
  "read_has_work wait_for_proc_work p th k =
     cbind (of_mem (k_threads k th)) (\<lambda>thread. cbind (of_mem (k_procs k p)) (\<lambda>proc.
       Ret (if wait_for_proc_work then binder_has_proc_work proc thread else binder_has_thread_work thread)))"

section \<open>Work\<close>

definition read_complete :: "kabi \<Rightarrow> loc \<Rightarrow> nat \<Rightarrow> rd \<Rightarrow> kstate \<Rightarrow> (rd \<times> kstate) option" where
  "read_complete A l c r k =
     (case put_br A BR_TRANSACTION_COMPLETE r of
        None \<Rightarrow> None
      | Some r \<Rightarrow> Some (r, stats_deleted Stat_complete
          ((take_work l (W_complete c) k)\<lparr>k_completes := (k_completes k)(c := None)\<rparr>)))"

definition node_strong :: "node \<Rightarrow> bool" where
  "node_strong node \<longleftrightarrow> n_internal_strong node \<noteq> 0 \<or> n_local_strong node \<noteq> 0"

definition node_weak :: "node \<Rightarrow> bool" where
  "node_weak node \<longleftrightarrow> n_refs node \<noteq> [] \<or> n_local_weak node \<noteq> 0 \<or> node_strong node"

definition node_report :: "node \<Rightarrow> (br \<times> node) option" where
  \<comment> \<open>what the owner of a node has to be told, and the node after that\<close>
  "node_report node =
     (if node_weak node \<and> \<not> n_has_weak node then
        Some (BR_INCREFS (n_ptr node) (n_cookie node),
          node\<lparr>n_has_weak := True, n_pending_weak := True, n_local_weak := n_local_weak node + 1\<rparr>)
      else if node_strong node \<and> \<not> n_has_strong node then
        Some (BR_ACQUIRE (n_ptr node) (n_cookie node),
          node\<lparr>n_has_strong := True, n_pending_strong := True, n_local_strong := n_local_strong node + 1\<rparr>)
      else if \<not> node_strong node \<and> n_has_strong node then
        Some (BR_RELEASE (n_ptr node) (n_cookie node), node\<lparr>n_has_strong := False\<rparr>)
      else if \<not> node_weak node \<and> n_has_weak node then
        Some (BR_DECREFS (n_ptr node) (n_cookie node), node\<lparr>n_has_weak := False\<rparr>)
      else None)"

definition read_node :: "kabi \<Rightarrow> denv \<Rightarrow> nat \<Rightarrow> loc \<Rightarrow> nat \<Rightarrow> rd \<Rightarrow> kstate \<Rightarrow> (rd option \<times> kstate) cres" where
  \<comment> \<open>none when writing faults; the flags of the node are changed before\<close>
  "read_node A E p l n r k =
     cbind (of_mem (k_nodes k n)) (\<lambda>node. case node_report node of
         Some (c, node) \<Rightarrow> Ret (put_br A c r, k\<lparr>k_nodes := (k_nodes k)(n \<mapsto> node)\<rparr>)
       | None \<Rightarrow>
           let k = take_work l (W_node n) k
           in Ret (Some r, if \<not> node_weak node
                then stats_deleted Stat_node
                  ((upd_proc p (\<lambda>x. x\<lparr>p_nodes := rb_erase (de_rb E) n (p_nodes x)\<rparr>) k)\<lparr>k_nodes := (k_nodes k)(n := None)\<rparr>)
                else k))"

definition list_add :: "work \<Rightarrow> loc \<Rightarrow> kstate \<Rightarrow> kstate" where
  \<comment> \<open>at the head of a list\<close>
  "list_add w l k = set_entry w (Some l) (upd_list l (\<lambda>ws. w # ws) k)"

definition read_death :: "kabi \<Rightarrow> nat \<Rightarrow> loc \<Rightarrow> nat \<Rightarrow> rd \<Rightarrow> kstate \<Rightarrow> (bool \<times> (rd \<times> kstate) option) cres" where
  \<comment> \<open>whether the call ends with it, and none when writing faults\<close>
  "read_death A p l d r k =
     cbind (of_mem (k_deaths k d)) (\<lambda>death.
       if d_kind death = Some Clear_death_notification then
         Ret (False, case put_br A (BR_CLEAR_DEATH_NOTIFICATION_DONE (d_cookie death)) r of
             None \<Rightarrow> None
           | Some r \<Rightarrow> Some (r, stats_deleted Stat_death ((take_work l (W_death d) k)\<lparr>k_deaths := (k_deaths k)(d := None)\<rparr>)))
       else
         Ret (True, case put_br A (BR_DEAD_BINDER (d_cookie death)) r of
             None \<Rightarrow> None
           | Some r \<Rightarrow> Some (r, list_add (W_death d) (Delivered p) (take_work l (W_death d) k))))"

section \<open>Delivering a transaction\<close>

definition target_priority :: "kabi \<Rightarrow> denv \<Rightarrow> nat \<Rightarrow> txn \<Rightarrow> node \<Rightarrow> kstate \<Rightarrow> kstate" where
  \<comment> \<open>the thread takes over the priority of the caller, but not below that of the node\<close>
  "target_priority A E th tx node k =
     (let saved = k_nice k th; least = int (unat (n_min_priority node))
      in if t_priority tx < least \<and> \<not> one_way A (t_flags tx) then binder_set_nice E th (t_priority tx) k
         else if \<not> one_way A (t_flags tx) \<or> saved > least then binder_set_nice E th least k
         else k)"

definition sender_pid :: "txn \<Rightarrow> kstate \<Rightarrow> nat cres" where
  "sender_pid tx k = (case t_from tx of
       None \<Rightarrow> Ret 0
     | Some f \<Rightarrow> cbind (of_mem (k_threads k f)) (\<lambda>x. cbind (of_mem (k_procs k (th_proc x))) (\<lambda>proc. Ret (p_pid proc))))"

definition txn_report :: "proc \<Rightarrow> nat \<Rightarrow> buf \<Rightarrow> txn \<Rightarrow> nat \<Rightarrow> node option \<Rightarrow> br_txn" where
  "txn_report proc a b tx pid node =
     (let data = of_nat (a + BUF_HDR) + al_offset (p_alloc proc)
      in \<lparr>bt_ptr = (case node of None \<Rightarrow> 0 | Some n \<Rightarrow> n_ptr n), bt_cookie = (case node of None \<Rightarrow> 0 | Some n \<Rightarrow> n_cookie n),
          bt_code = t_code tx, bt_flags = t_flags tx, bt_sender_euid = t_sender_euid tx, bt_sender_pid = pid,
          bt_data_size = b_data_size b, bt_offs_size = b_offs_size b,
          bt_buffer = data, bt_offsets = data + align8 (b_data_size b)\<rparr>)"

definition deliver ::
    "kabi \<Rightarrow> denv \<Rightarrow> nat \<Rightarrow> nat \<Rightarrow> loc \<Rightarrow> nat \<Rightarrow> rd \<Rightarrow> kstate \<Rightarrow> (rd option \<times> kstate) cres" where
  \<comment> \<open>none when writing faults; then the transaction stays on its list\<close>
  "deliver A E p th l t r k =
     cbind (of_mem (k_txns k t)) (\<lambda>tx. case t_buffer tx of
         None \<Rightarrow> Abort
       | Some (q, a) \<Rightarrow> cbind (of_mem (kbuf q a k)) (\<lambda>b. cbind (of_mem (k_procs k p)) (\<lambda>proc.
           cbind (case b_node b of
               None \<Rightarrow> Ret (None, k)
             | Some n \<Rightarrow> cbind (of_mem (k_nodes k n)) (\<lambda>node.
                 Ret (Some node, target_priority A E th tx node (upd_txn t (\<lambda>x. x\<lparr>t_saved_priority := k_nice k th\<rparr>) k)))) (\<lambda>(node, k).
           cbind (sender_pid tx k) (\<lambda>pid.
             let m = txn_report proc a b tx pid node; call = (node \<noteq> None)
             in case put_br A (if call then BR_TRANSACTION m else BR_REPLY m) r of
                  None \<Rightarrow> Ret (None, k)
                | Some r \<Rightarrow>
                    let k = upd_kbuf q a (\<lambda>b. b\<lparr>b_user_free := True\<rparr>) (take_work l (W_txn t) k)
                    in if call \<and> \<not> one_way A (t_flags tx)
                       then cbind (of_mem (k_threads k th)) (\<lambda>thread.
                         Ret (Some r, upd_thread th (\<lambda>x. x\<lparr>th_stack := Some t\<rparr>)
                           (upd_txn t (\<lambda>x. x\<lparr>t_to_parent := th_stack thread, t_to_thread := Some th\<rparr>) k)))
                       else Ret (Some r, free_txn t (forget_txn (Some (q, a)) k)))))))"

section \<open>From the wait on\<close>

definition room_left :: "kabi \<Rightarrow> rd \<Rightarrow> bool" where
  \<comment> \<open>\<open>end - ptr < sizeof(tr) + 4\<close> is computed without a sign\<close>
  "room_left A r \<longleftrightarrow> ka_txn_size A + 4 \<le> unat (of_nat (rd_size r) - of_nat (rd_ptr r) :: u64)"

definition next_work :: "bool \<Rightarrow> nat \<Rightarrow> nat \<Rightarrow> kstate \<Rightarrow> (loc \<times> work) option cres" where
  "next_work wait_for_proc_work p th k =
     cbind (of_mem (k_threads k th)) (\<lambda>thread. cbind (of_mem (k_procs k p)) (\<lambda>proc.
       Ret (case th_todo thread of
              w # _ \<Rightarrow> Some (Thread_todo th, w)
            | [] \<Rightarrow> (case (wait_for_proc_work, p_todo proc) of
                (True, w # _) \<Rightarrow> Some (Proc_todo p, w)
              | _ \<Rightarrow> None))))"

partial_function (option) read_loop ::
    "kabi \<Rightarrow> denv \<Rightarrow> nat \<Rightarrow> nat \<Rightarrow> bool \<Rightarrow> rd \<Rightarrow> kstate \<Rightarrow> rstep run" where
  "read_loop A E p th wait r k =
     rbind (Some (next_work wait p th k)) (\<lambda>w. case w of
         None \<Rightarrow> rbind (Some (of_mem (k_threads k th))) (\<lambda>thread.
           ret (if rd_ptr r = 4 \<and> th_looper thread AND LOOPER_NEED_RETURN = 0 then R_retry r k else R_done r k))
       | Some (l, w) \<Rightarrow>
           if \<not> room_left A r then ret (R_done r k)
           else (case w of
               W_txn t \<Rightarrow> rbind (Some (deliver A E p th l t r k)) (\<lambda>(r', k). case r' of
                   None \<Rightarrow> ret (R_error E_FAULT k)
                 | Some r' \<Rightarrow> ret (R_done r' k))
             | W_complete c \<Rightarrow> (case read_complete A l c r k of
                   None \<Rightarrow> ret (R_error E_FAULT k)
                 | Some (r', k) \<Rightarrow> read_loop A E p th wait r' k)
             | W_node n \<Rightarrow> rbind (Some (read_node A E p l n r k)) (\<lambda>(r', k). case r' of
                   None \<Rightarrow> ret (R_error E_FAULT k)
                 | Some r' \<Rightarrow> read_loop A E p th wait r' k)
             | W_death d \<Rightarrow> rbind (Some (of_mem (k_deaths k d))) (\<lambda>death.
                 if d_kind death = None then read_loop A E p th wait r k
                 else rbind (Some (read_death A p l d r k)) (\<lambda>(ends, r'). case r' of
                   None \<Rightarrow> ret (R_error E_FAULT k)
                 | Some (r', k) \<Rightarrow> if ends then ret (R_done r' k) else read_loop A E p th wait r' k))))"

definition read_resume :: "kabi \<Rightarrow> denv \<Rightarrow> nat \<Rightarrow> nat \<Rightarrow> bool \<Rightarrow> int \<Rightarrow> rd \<Rightarrow> kstate \<Rightarrow> rstep run" where
  \<comment> \<open>with the lock again; \<open>ret\<close> is the result of the wait\<close>
  "read_resume A E p th wait res r k =
     (let k = (if wait then upd_proc p (\<lambda>x. x\<lparr>p_ready := p_ready x - 1\<rparr>) k else k);
          k = upd_thread th (\<lambda>x. x\<lparr>th_looper := th_looper x AND NOT LOOPER_WAITING\<rparr>) k
      in if res \<noteq> 0 then ret (R_error res k) else read_loop A E p th wait r k)"

definition read_finish :: "kabi \<Rightarrow> nat \<Rightarrow> nat \<Rightarrow> rd \<Rightarrow> kstate \<Rightarrow> (int \<times> rd \<times> kstate) cres" where
  \<comment> \<open>the label \<open>done\<close>: a process without a thread that waits is asked for another one, at the
    place of the first return code\<close>
  "read_finish A p th r k =
     cbind (of_mem (k_procs k p)) (\<lambda>proc. cbind (of_mem (k_threads k th)) (\<lambda>thread.
       if p_requested proc + p_ready proc = 0 \<and> p_started proc < p_max_threads proc \<and> in_pool thread then
         let k = upd_proc p (\<lambda>x. x\<lparr>p_requested := p_requested x + 1\<rparr>) k
         in Ret (if rd_writable r 0 4 then (0, r\<lparr>rd_out := rd_out r @ [(0, BR_SPAWN_LOOPER)]\<rparr>, k) else (E_FAULT, r, k))
       else Ret (0, r, k)))"

section \<open>The parts of a call\<close>

text \<open>
  How a part of the call leaves the lock: the call waits, for work of the process or of the
  thread, or it returns with a result, having filled the buffer or failed.
\<close>

datatype rcall = C_wait bool rd | C_return int rd | C_fail int

definition read_end :: "kabi \<Rightarrow> nat \<Rightarrow> nat \<Rightarrow> rstep \<Rightarrow> (rcall \<times> kstate) cres" where
  \<comment> \<open>only the loop over the work goes back to \<open>retry\<close>\<close>
  "read_end A p th s = (case s of
       R_wait w r k \<Rightarrow> Ret (C_wait w r, k)
     | R_done r k \<Rightarrow> cbind (read_finish A p th r k) (\<lambda>(res, r, k). Ret (C_return res r, k))
     | R_error e k \<Rightarrow> Ret (C_fail e, k)
     | R_retry _ _ \<Rightarrow> Abort)"

definition read_begin :: "kabi \<Rightarrow> denv \<Rightarrow> nat \<Rightarrow> nat \<Rightarrow> rd \<Rightarrow> kstate \<Rightarrow> (rcall \<times> kstate) cres" where
  "read_begin A E p th r k = cbind (read_start A E p th r k) (read_end A p th)"

definition read_continue :: "kabi \<Rightarrow> denv \<Rightarrow> nat \<Rightarrow> nat \<Rightarrow> bool \<Rightarrow> int \<Rightarrow> rd \<Rightarrow> kstate \<Rightarrow> (rcall \<times> kstate) run" where
  "read_continue A E p th wait res r k =
     rbind (read_resume A E p th wait res r k) (\<lambda>s. Some (case s of
         R_retry r k \<Rightarrow> cbind (read_prepare A E p th r k) (read_end A p th)
       | s \<Rightarrow> read_end A p th s))"

end
