(* ===== verification/Drv_Release.thy ===== *)
theory Drv_Release
  imports Drv_Read
begin

text \<open>
  The end of threads and processes in the kernel driver, and the ioctl with its commands.
\<close>

section \<open>The end of a thread\<close>

partial_function (option) drop_stack :: "nat \<Rightarrow> nat option \<Rightarrow> nat \<Rightarrow> kstate \<Rightarrow> (nat \<times> kstate) run" where
  \<comment> \<open>the loop over the call stack of a thread, with the number of transactions so far\<close>
  "drop_stack th tmp n k =
     (case tmp of
        None \<Rightarrow> ret (n, k)
      | Some t \<Rightarrow> (case k_txns k t of
          None \<Rightarrow> Some Oob
        | Some tx \<Rightarrow>
            if t_to_thread tx = Some th then
              drop_stack th (t_to_parent tx) (n + 1)
                (upd_txn t (\<lambda>x. x\<lparr>t_to_proc := None, t_to_thread := None, t_buffer := None\<rparr>)
                  (forget_txn (t_buffer tx) k))
            else if t_from tx = Some th then
              drop_stack th (t_from_parent tx) (n + 1) (upd_txn t (\<lambda>x. x\<lparr>t_from := None\<rparr>) k)
            else Some Abort))"

definition binder_free_thread :: "kabi \<Rightarrow> denv \<Rightarrow> nat \<Rightarrow> nat \<Rightarrow> kstate \<Rightarrow> (nat \<times> kstate) run" where
  \<comment> \<open>the number of transactions that were active\<close>
  "binder_free_thread A E p th k =
     rbind (Some (of_mem (k_threads k th))) (\<lambda>thread.
     rbind (Some (case th_stack thread of
         None \<Rightarrow> Ret None
       | Some t \<Rightarrow> cbind (of_mem (k_txns k t)) (\<lambda>tx. Ret (if t_to_thread tx = Some th then Some t else None)))) (\<lambda>send_reply.
     rbind (drop_stack th (th_stack thread) 0
       (upd_proc p (\<lambda>x. x\<lparr>p_threads := rb_erase (de_rb E) th (p_threads x)\<rparr>) k)) (\<lambda>(active, k).
     rbind (case send_reply of None \<Rightarrow> ret k | Some t \<Rightarrow> binder_send_failed_reply A t BR_DEAD_REPLY k) (\<lambda>k.
     rbind (binder_release_work A (Thread_todo th) k) (\<lambda>k.
       ret (active, stats_deleted Stat_thread (k\<lparr>k_threads := (k_threads k)(th := None)\<rparr>)))))))"

section \<open>The end of a node\<close>

primrec notify_refs :: "nat list \<Rightarrow> nat \<Rightarrow> kstate \<Rightarrow> (nat \<times> kstate) cres" where
  \<comment> \<open>the references to a dead node are counted, and those who asked for it are told\<close>
  "notify_refs [] refs k = Ret (refs, k)"
| "notify_refs (r # rs) refs k =
     cbind (of_mem (k_refs k r)) (\<lambda>ref. case r_death ref of
         None \<Rightarrow> notify_refs rs (refs + 1) k
       | Some d \<Rightarrow> cbind (of_mem (k_deaths k d)) (\<lambda>death.
           if d_entry death \<noteq> None then Abort
           else notify_refs rs (refs + 1) (list_add_tail (W_death d) (Proc_todo (r_proc ref))
                  (upd_death d (\<lambda>x. x\<lparr>d_kind := Some Dead_binder\<rparr>) k))))"

definition binder_node_release :: "kabi \<Rightarrow> nat \<Rightarrow> nat \<Rightarrow> kstate \<Rightarrow> (nat \<times> kstate) run" where
  \<comment> \<open>of a node that is no longer in the tree of its process\<close>
  "binder_node_release A n refs k =
     rbind (binder_release_work A (Async_todo n) (list_del_init (W_node n) k)) (\<lambda>k.
     rbind (Some (of_mem (k_nodes k n))) (\<lambda>node.
       if n_refs node = [] then ret (refs, stats_deleted Stat_node (k\<lparr>k_nodes := (k_nodes k)(n := None)\<rparr>))
       else
         let k = upd_node n (\<lambda>x. x\<lparr>n_proc := None, n_local_strong := 0, n_local_weak := 0\<rparr>) k;
             k = k\<lparr>k_dead_nodes := n # k_dead_nodes k\<rparr>
         in Some (notify_refs (n_refs node) refs k)))"

section \<open>The end of a process\<close>

definition tree_first :: "nat tree \<Rightarrow> nat option" where
  "tree_first t = (case inorder t of [] \<Rightarrow> None | x # _ \<Rightarrow> Some x)"

definition first_of :: "(proc \<Rightarrow> nat tree) \<Rightarrow> nat \<Rightarrow> kstate \<Rightarrow> nat option cres" where
  "first_of tree p k = cbind (of_mem (k_procs k p)) (\<lambda>proc. Ret (tree_first (tree proc)))"

partial_function (option) free_threads :: "kabi \<Rightarrow> denv \<Rightarrow> nat \<Rightarrow> kstate \<Rightarrow> kstate run" where
  "free_threads A E p k = rbind (Some (first_of p_threads p k)) (\<lambda>th. case th of
     None \<Rightarrow> ret k
   | Some th \<Rightarrow> rbind (binder_free_thread A E p th k) (\<lambda>(_, k). free_threads A E p k))"

partial_function (option) release_nodes :: "kabi \<Rightarrow> denv \<Rightarrow> nat \<Rightarrow> nat \<Rightarrow> kstate \<Rightarrow> kstate run" where
  "release_nodes A E p refs k = rbind (Some (first_of p_nodes p k)) (\<lambda>n. case n of
     None \<Rightarrow> ret k
   | Some n \<Rightarrow> rbind (binder_node_release A n refs
       (upd_proc p (\<lambda>x. x\<lparr>p_nodes := rb_erase (de_rb E) n (p_nodes x)\<rparr>) k)) (\<lambda>(refs, k). release_nodes A E p refs k))"

partial_function (option) delete_refs :: "denv \<Rightarrow> nat \<Rightarrow> kstate \<Rightarrow> kstate run" where
  "delete_refs E p k = rbind (Some (first_of p_refs_by_desc p k)) (\<lambda>r. case r of
     None \<Rightarrow> ret k
   | Some r \<Rightarrow> rbind (Some (binder_delete_ref (de_rb E) r k)) (delete_refs E p))"

partial_function (option) free_bufs :: "denv \<Rightarrow> nat \<Rightarrow> kstate \<Rightarrow> kstate run" where
  "free_bufs E p k = rbind (Some (first_of (\<lambda>x. al_allocated (p_alloc x)) p k)) (\<lambda>a. case a of
     None \<Rightarrow> ret k
   | Some a \<Rightarrow> (case kbuf p a k of
       None \<Rightarrow> Some Oob
     | Some b \<Rightarrow>
         rbind (case b_txn b of
             None \<Rightarrow> ret k
           | Some t \<Rightarrow> (case k_txns k t of
               None \<Rightarrow> Some Oob
             | Some _ \<Rightarrow> ret (complain (User_error ''release proc: transaction not freed'')
                 (upd_kbuf p a (\<lambda>b. b\<lparr>b_txn := None\<rparr>) (upd_txn t (\<lambda>x. x\<lparr>t_buffer := None\<rparr>) k))))) (\<lambda>k.
         rbind (Some (free_kbuf E p a k)) (free_bufs E p))))"

definition drop_mgr :: "nat \<Rightarrow> kstate \<Rightarrow> kstate cres" where
  \<comment> \<open>the context manager goes with its process\<close>
  "drop_mgr p k = (case k_mgr k of
     None \<Rightarrow> Ret k
   | Some n \<Rightarrow> cbind (of_mem (k_nodes k n)) (\<lambda>node. Ret (if n_proc node = Some p then k\<lparr>k_mgr := None\<rparr> else k)))"

definition binder_deferred_release :: "kabi \<Rightarrow> denv \<Rightarrow> nat \<Rightarrow> kstate \<Rightarrow> kstate run" where
  "binder_deferred_release A E p k =
     rbind (Some (of_mem (k_procs k p))) (\<lambda>proc.
       if al_vma (p_alloc proc) \<noteq> None then Some Abort
       else
         rbind (Some (drop_mgr p k)) (\<lambda>k.
         rbind (free_threads A E p k) (\<lambda>k.
         rbind (release_nodes A E p 0 k) (\<lambda>k.
         rbind (delete_refs E p k) (\<lambda>k.
         rbind (binder_release_work A (Proc_todo p) k) (\<lambda>k.
         rbind (binder_release_work A (Delivered p) k) (\<lambda>k.
         rbind (free_bufs E p k) (\<lambda>k.
           ret ((stats_deleted Stat_proc k)\<lparr>k_procs := (k_procs k)(p := None)\<rparr>)))))))))"

section \<open>The ioctl\<close>

text \<open>
  The commands of the ioctl. The write and read parts of \<open>BINDER_WRITE_READ\<close> have the sizes and
  positions that the caller passes; the caller gets them back.
\<close>

record bwr =
  wr_write_size :: nat
  wr_write_consumed :: nat
  wr_read_size :: nat
  wr_read_consumed :: nat

datatype icmd = I_write_read | I_set_max_threads "int option" | I_set_context_mgr | I_thread_exit
  | I_version bool bool | I_other

text \<open>
  What happens up to the read: the write part, and the return value if the call ends with it.
\<close>

definition ioctl_write ::
    "kabi \<Rightarrow> denv \<Rightarrow> nat \<Rightarrow> nat \<Rightarrow> (nat \<Rightarrow> bc option) \<Rightarrow> bwr \<Rightarrow> kstate \<Rightarrow> (int \<times> bwr \<times> kstate) run" where
  "ioctl_write A E p th fetch w k =
     (if wr_write_size w > 0 then
        rbind (binder_thread_write A E p th fetch (wr_write_size w) (wr_write_consumed w) k) (\<lambda>(res, consumed, k).
          let w = w\<lparr>wr_write_consumed := consumed\<rparr>
          in ret (res, if res < 0 then w\<lparr>wr_read_consumed := 0\<rparr> else w, k))
      else ret (0, w, k))"

definition need_return_off :: "nat \<Rightarrow> kstate \<Rightarrow> kstate" where
  "need_return_off th k = upd_thread th (\<lambda>x. x\<lparr>th_looper := th_looper x AND NOT LOOPER_NEED_RETURN\<rparr>) k"

definition ioctl_other ::
    "kabi \<Rightarrow> denv \<Rightarrow> nat \<Rightarrow> nat \<Rightarrow> u32 \<Rightarrow> icmd \<Rightarrow> kstate \<Rightarrow> (int \<times> kstate) run" where
  \<comment> \<open>every command but \<open>BINDER_WRITE_READ\<close>, with the thread of the caller\<close>
  "ioctl_other A E p th euid cmd k =
     (case cmd of
        I_set_max_threads (Some n) \<Rightarrow> ret (0, need_return_off th (upd_proc p (\<lambda>x. x\<lparr>p_max_threads := n\<rparr>) k))
      | I_set_context_mgr \<Rightarrow> rbind (Some (binder_ioctl_set_ctx_mgr (de_rb E) p euid k)) (\<lambda>(res, k).
          ret (res, need_return_off th k))
      | I_thread_exit \<Rightarrow> rbind (binder_free_thread A E p th k) (\<lambda>(_, k). ret (0, k))
      | I_version size_ok put_ok \<Rightarrow> ret (if size_ok \<and> put_ok then 0 else E_INVAL, need_return_off th k)
      | _ \<Rightarrow> ret (E_INVAL, need_return_off th k))"

definition binder_ioctl ::
    "kabi \<Rightarrow> denv \<Rightarrow> nat \<Rightarrow> nat \<Rightarrow> u32 \<Rightarrow> icmd \<Rightarrow> kstate \<Rightarrow> (int \<times> kstate) run" where
  "binder_ioctl A E p pid euid cmd k =
     rbind (Some (binder_get_thread (de_rb E) p pid k)) (\<lambda>(th, k). case th of
         None \<Rightarrow> ret (E_NOMEM, k)
       | Some th \<Rightarrow> ioctl_other A E p th euid cmd k)"

end
