(* ===== verification/Drv_Refs_Correct.thy ===== *)
theory Drv_Refs_Correct
  imports Drv_Refs
begin

text \<open>
  The references between processes and nodes, as an abstract graph: what the counts, trees and
  lists of the driver's objects say about who refers to what. Every operation on nodes and
  references is a step on this graph, and the graph stays consistent.
\<close>

declare set_inorder [simp del]

section \<open>The graph of references\<close>

record rcore =
  rc_proc :: nat
  rc_node :: nat
  rc_desc :: u32
  rc_strong :: bool

record ncore =
  nc_proc :: "nat option"
  nc_ptr :: u64
  nc_cookie :: u64
  nc_refs :: "nat list"
  nc_strong :: u32

record pcore =
  pc_nodes :: "nat list"
  pc_desc :: "nat list"
  pc_bynode :: "nat list"

record core =
  c_refs :: "nat \<rightharpoonup> rcore"
  c_nodes :: "nat \<rightharpoonup> ncore"
  c_procs :: "nat \<rightharpoonup> pcore"

definition ref_core :: "ref \<Rightarrow> rcore" where
  "ref_core r = \<lparr>rc_proc = r_proc r, rc_node = r_node r, rc_desc = r_desc r, rc_strong = (r_strong r \<noteq> 0)\<rparr>"

definition node_core :: "node \<Rightarrow> ncore" where
  "node_core n = \<lparr>nc_proc = n_proc n, nc_ptr = n_ptr n, nc_cookie = n_cookie n, nc_refs = n_refs n, nc_strong = n_internal_strong n\<rparr>"

definition proc_core :: "proc \<Rightarrow> pcore" where
  "proc_core p = \<lparr>pc_nodes = inorder (p_nodes p), pc_desc = inorder (p_refs_by_desc p), pc_bynode = inorder (p_refs_by_node p)\<rparr>"

definition core_of :: "kstate \<Rightarrow> core" where
  "core_of k = \<lparr>c_refs = map_option ref_core \<circ> k_refs k, c_nodes = map_option node_core \<circ> k_nodes k,
     c_procs = map_option proc_core \<circ> k_procs k\<rparr>"

definition refs_of :: "core \<Rightarrow> nat \<Rightarrow> nat set" where
  "refs_of C p = {x. \<exists>r. c_refs C x = Some r \<and> rc_proc r = p}"

definition nodes_of :: "core \<Rightarrow> nat \<Rightarrow> nat set" where
  "nodes_of C p = {a. \<exists>n. c_nodes C a = Some n \<and> nc_proc n = Some p}"

abbreviation cdesc :: "core \<Rightarrow> nat \<Rightarrow> u32" where "cdesc C x \<equiv> rc_desc (the (c_refs C x))"
abbreviation crnode :: "core \<Rightarrow> nat \<Rightarrow> nat" where "crnode C x \<equiv> rc_node (the (c_refs C x))"
abbreviation cptr :: "core \<Rightarrow> nat \<Rightarrow> u64" where "cptr C a \<equiv> nc_ptr (the (c_nodes C a))"

definition strong_refs :: "core \<Rightarrow> nat list \<Rightarrow> nat" where
  "strong_refs C xs = count_if (\<lambda>x. rc_strong (the (c_refs C x))) xs"

text \<open>
  The consistency of the graph: the trees of a process hold exactly its references, once by
  descriptor and once by node, and its nodes by address; a reference belongs to a live process, is
  on the list of its node and the node is there; the node counts its strong references.
\<close>

definition proc_ok :: "core \<Rightarrow> nat \<Rightarrow> pcore \<Rightarrow> bool" where
  "proc_ok C p P \<longleftrightarrow> set (pc_desc P) = refs_of C p \<and> sorted_wrt (<) (map (cdesc C) (pc_desc P)) \<and>
     set (pc_bynode P) = refs_of C p \<and> sorted_wrt (<) (map (crnode C) (pc_bynode P)) \<and>
     set (pc_nodes P) = nodes_of C p \<and> sorted_wrt (<) (map (cptr C) (pc_nodes P))"

definition node_ok :: "core \<Rightarrow> nat \<Rightarrow> ncore \<Rightarrow> bool" where
  "node_ok C a n \<longleftrightarrow> distinct (nc_refs n) \<and> (\<forall>x \<in> set (nc_refs n). \<exists>r. c_refs C x = Some r \<and> rc_node r = a) \<and>
     nc_strong n = of_nat (strong_refs C (nc_refs n)) \<and> (\<forall>p. nc_proc n = Some p \<longrightarrow> c_procs C p \<noteq> None)"

definition ref_ok :: "core \<Rightarrow> nat \<Rightarrow> rcore \<Rightarrow> bool" where
  "ref_ok C x r \<longleftrightarrow> c_procs C (rc_proc r) \<noteq> None \<and> (\<exists>n. c_nodes C (rc_node r) = Some n \<and> x \<in> set (nc_refs n))"

definition core_ok :: "core \<Rightarrow> bool" where
  "core_ok C \<longleftrightarrow> (\<forall>p P. c_procs C p = Some P \<longrightarrow> proc_ok C p P) \<and>
     (\<forall>a n. c_nodes C a = Some n \<longrightarrow> node_ok C a n) \<and> (\<forall>x r. c_refs C x = Some r \<longrightarrow> ref_ok C x r)"

lemma core_okD:
  assumes "core_ok C"
  shows "c_procs C p = Some P \<Longrightarrow> proc_ok C p P" "c_nodes C a = Some n \<Longrightarrow> node_ok C a n"
    "c_refs C x = Some r \<Longrightarrow> ref_ok C x r"
  using assms by (simp_all add: core_ok_def)

section \<open>What does not touch the graph\<close>

lemma core_of_apply [simp]:
  "c_refs (core_of k) x = map_option ref_core (k_refs k x)" "c_nodes (core_of k) a = map_option node_core (k_nodes k a)"
  "c_procs (core_of k) p = map_option proc_core (k_procs k p)"
  by (simp_all add: core_of_def)

lemma core_eqI:
  assumes "\<And>x. c_refs C x = c_refs D x" "\<And>a. c_nodes C a = c_nodes D a" "\<And>p. c_procs C p = c_procs D p"
  shows "C = (D :: core)"
  using assms by (cases C; cases D) auto

lemma ref_core_simps [simp]:
  "rc_proc (ref_core r) = r_proc r" "rc_node (ref_core r) = r_node r" "rc_desc (ref_core r) = r_desc r"
  "rc_strong (ref_core r) = (r_strong r \<noteq> 0)"
  by (simp_all add: ref_core_def)

lemma node_core_simps [simp]:
  "nc_proc (node_core n) = n_proc n" "nc_ptr (node_core n) = n_ptr n" "nc_cookie (node_core n) = n_cookie n" "nc_refs (node_core n) = n_refs n"
  "nc_strong (node_core n) = n_internal_strong n"
  by (simp_all add: node_core_def)

lemma proc_core_simps [simp]:
  "pc_nodes (proc_core p) = inorder (p_nodes p)" "pc_desc (proc_core p) = inorder (p_refs_by_desc p)"
  "pc_bynode (proc_core p) = inorder (p_refs_by_node p)"
  by (simp_all add: proc_core_def)

named_theorems core_frame

lemma core_frame_simple [core_frame]:
  "core_of (stats_created s k) = core_of k" "core_of (stats_deleted s k) = core_of k" "core_of (complain c k) = core_of k"
  "core_of (k\<lparr>k_last_id := i\<rparr>) = core_of k" "core_of (k\<lparr>k_kzalloc := as\<rparr>) = core_of k"
  "core_of (k\<lparr>k_dead_nodes := ds\<rparr>) = core_of k" "core_of (k\<lparr>k_deaths := de\<rparr>) = core_of k"
  "core_of (upd_thread t f1 k) = core_of k" "core_of (upd_death d f2 k) = core_of k"
  by (simp_all add: core_of_def stats_created_def stats_deleted_def complain_def upd_thread_def upd_death_def)

lemma core_upd_node [core_frame]: "(\<And>n. node_core (f n) = node_core n) \<Longrightarrow> core_of (upd_node a f k) = core_of k"
  by (rule core_eqI) (auto simp: upd_node_def option.map_comp comp_def)

lemma core_upd_proc [core_frame]: "(\<And>p. proc_core (f p) = proc_core p) \<Longrightarrow> core_of (upd_proc a f k) = core_of k"
  by (rule core_eqI) (auto simp: upd_proc_def option.map_comp comp_def)

lemma core_upd_ref [core_frame]: "(\<And>r. ref_core (f r) = ref_core r) \<Longrightarrow> core_of (upd_ref a f k) = core_of k"
  by (rule core_eqI) (auto simp: upd_ref_def option.map_comp comp_def)

lemma core_upd_list [core_frame]: "core_of (upd_list l f k) = core_of k"
  by (cases l) (auto intro!: core_upd_node core_upd_proc simp: core_frame_simple node_core_def proc_core_def)

lemma core_set_entry [core_frame]: "core_of (set_entry w l k) = core_of k"
  by (cases w) (auto intro!: core_upd_node simp: core_frame_simple node_core_def)

lemma core_lists [core_frame]: "core_of (list_add_tail w l k) = core_of k" "core_of (list_del_init w k) = core_of k"
  by (simp_all add: list_add_tail_def list_del_init_def core_upd_list core_set_entry split: option.split)

lemma core_kzalloc: "kzalloc k = (r, k') \<Longrightarrow> core_of k' = core_of k"
  by (auto simp: kzalloc_def core_frame split: list.splits)

text \<open>Being there does not change either.\<close>

lemma upd_list_dom [simp]:
  "(k_refs (upd_list l f k) x = None) = (k_refs k x = None)" "k_refs (upd_list l f k) = k_refs k"
  "(k_nodes (upd_list l f k) a = None) = (k_nodes k a = None)" "(k_procs (upd_list l f k) p = None) = (k_procs k p = None)"
  by (cases l; auto simp: upd_proc_def upd_node_def upd_thread_def)+

lemma set_entry_dom [simp]:
  "k_refs (set_entry w l k) = k_refs k" "(k_nodes (set_entry w l k) a = None) = (k_nodes k a = None)"
  "k_procs (set_entry w l k) = k_procs k"
  by (cases w; auto simp: upd_node_def upd_death_def)+

lemma complain_dom [simp]: "k_refs (complain c k) = k_refs k" "k_nodes (complain c k) = k_nodes k"
    "k_procs (complain c k) = k_procs k"
  by (simp_all add: complain_def)

lemma lists_dom [simp]:
  "k_refs (list_add_tail w l k) = k_refs k" "k_refs (list_del_init w k) = k_refs k"
  by (simp_all add: list_add_tail_def list_del_init_def split: option.split)

section \<open>Steps of the graph\<close>

definition strong_diff :: "bool \<Rightarrow> bool \<Rightarrow> u32" where
  "strong_diff old new = (if new \<and> \<not> old then 1 else if old \<and> \<not> new then - 1 else 0)"

definition g_set_strong :: "nat \<Rightarrow> rcore \<Rightarrow> bool \<Rightarrow> core \<Rightarrow> core" where
  \<comment> \<open>a reference becomes strong or ceases to be\<close>
  "g_set_strong x r v C = C\<lparr>c_refs := (c_refs C)(x \<mapsto> r\<lparr>rc_strong := v\<rparr>),
     c_nodes := (c_nodes C)(rc_node r := map_option (\<lambda>n. n\<lparr>nc_strong := nc_strong n + strong_diff (rc_strong r) v\<rparr>)
       (c_nodes C (rc_node r)))\<rparr>"

definition g_add_ref :: "nat \<Rightarrow> rcore \<Rightarrow> nat list \<Rightarrow> nat list \<Rightarrow> core \<Rightarrow> core" where
  "g_add_ref x r ds ns C = C\<lparr>c_refs := (c_refs C)(x \<mapsto> r),
     c_nodes := (c_nodes C)(rc_node r := map_option (\<lambda>n. n\<lparr>nc_refs := x # nc_refs n\<rparr>) (c_nodes C (rc_node r))),
     c_procs := (c_procs C)(rc_proc r := map_option (\<lambda>P. P\<lparr>pc_desc := ds, pc_bynode := ns\<rparr>) (c_procs C (rc_proc r)))\<rparr>"

definition g_del_ref :: "nat \<Rightarrow> rcore \<Rightarrow> core \<Rightarrow> core" where
  "g_del_ref x r C = C\<lparr>c_refs := (c_refs C)(x := None),
     c_nodes := (c_nodes C)(rc_node r := map_option (\<lambda>n. n\<lparr>nc_refs := remove1 x (nc_refs n)\<rparr>) (c_nodes C (rc_node r))),
     c_procs := (c_procs C)(rc_proc r := map_option (\<lambda>P. P\<lparr>pc_desc := remove1 x (pc_desc P),
       pc_bynode := remove1 x (pc_bynode P)\<rparr>) (c_procs C (rc_proc r)))\<rparr>"

definition g_add_node :: "nat \<Rightarrow> nat \<Rightarrow> u64 \<Rightarrow> u64 \<Rightarrow> nat list \<Rightarrow> core \<Rightarrow> core" where
  "g_add_node a p ptr cookie ns C = C\<lparr>c_nodes := (c_nodes C)(a \<mapsto> \<lparr>nc_proc = Some p, nc_ptr = ptr, nc_cookie = cookie, nc_refs = [], nc_strong = 0\<rparr>),
     c_procs := (c_procs C)(p := map_option (\<lambda>P. P\<lparr>pc_nodes := ns\<rparr>) (c_procs C p))\<rparr>"

definition g_del_node :: "nat \<Rightarrow> ncore \<Rightarrow> core \<Rightarrow> core" where
  "g_del_node a n C = C\<lparr>c_nodes := (c_nodes C)(a := None),
     c_procs := (case nc_proc n of None \<Rightarrow> c_procs C
       | Some p \<Rightarrow> (c_procs C)(p := map_option (\<lambda>P. P\<lparr>pc_nodes := remove1 a (pc_nodes P)\<rparr>) (c_procs C p)))\<rparr>"

lemma strong_refs_cong:
  "(\<And>x. x \<in> set xs \<Longrightarrow> rc_strong (the (c_refs C x)) = rc_strong (the (c_refs D x))) \<Longrightarrow> strong_refs C xs = strong_refs D xs"
  unfolding strong_refs_def by (rule arg_cong [where f = length], rule filter_cong) auto

lemma strong_refs_set:
  assumes "distinct xs" and "x \<in> set xs" and "c_refs C x = Some r" and "c_refs D = (c_refs C)(x \<mapsto> r\<lparr>rc_strong := v\<rparr>)"
  shows "of_nat (strong_refs D xs) = of_nat (strong_refs C xs) + strong_diff (rc_strong r) v"
  using assms(1,2)
proof (induction xs)
  case (Cons y ys)
  show ?case
  proof (cases "x = y")
    case True
    then have "strong_refs D ys = strong_refs C ys" using Cons.prems assms(4) by (intro strong_refs_cong) auto
    then show ?thesis using True assms(3,4) by (auto simp: strong_refs_def strong_diff_def)
  next
    case False
    then show ?thesis using Cons assms(4) by (auto simp: strong_refs_def)
  qed
qed simp

lemma sorted_remove1: "sorted_wrt (<) (map f xs) \<Longrightarrow> sorted_wrt (<) (map f (remove1 x xs))"
  for f :: "'a \<Rightarrow> 'b::linorder"
  by (induction xs) (auto dest: set_remove1_subset [THEN subsetD])

lemma sorted_map_distinct: "sorted_wrt (<) (map f xs) \<Longrightarrow> distinct xs" for f :: "'a \<Rightarrow> 'b::linorder"
  by (induction xs) auto

lemma g_set_strong_ok:
  assumes C: "core_ok C" and x: "c_refs C x = Some r"
  shows "core_ok (g_set_strong x r v C)" (is "core_ok ?D")
proof -
  have R: "ref_ok C x r" by (rule core_okD(3) [OF C x])
  then obtain n where n: "c_nodes C (rc_node r) = Some n" "x \<in> set (nc_refs n)" by (auto simp: ref_ok_def)
  have e: "refs_of ?D p = refs_of C p" "nodes_of ?D p = nodes_of C p" "cdesc ?D y = cdesc C y" "crnode ?D y = crnode C y"
    "cptr ?D a = cptr C a" for p y a
    using x n by (auto simp: g_set_strong_def refs_of_def nodes_of_def)
  have "proc_ok ?D p P" if "c_procs ?D p = Some P" for p P
    using core_okD(1) [OF C, of p P] that by (simp add: proc_ok_def e) (simp add: g_set_strong_def)
  moreover have "node_ok ?D a m" if "c_nodes ?D a = Some m" for a m
  proof (cases "a = rc_node r")
    case True
    then have m: "m = n\<lparr>nc_strong := nc_strong n + strong_diff (rc_strong r) v\<rparr>" using that n by (simp add: g_set_strong_def)
    have N: "node_ok C a n" by (rule core_okD(2) [OF C]) (simp add: True n)
    then have "of_nat (strong_refs ?D (nc_refs n)) = nc_strong n + strong_diff (rc_strong r) v"
      using strong_refs_set [of "nc_refs n" x C r ?D v] n x by (simp add: node_ok_def g_set_strong_def)
    then show ?thesis using N x by (auto simp: node_ok_def m g_set_strong_def)
  next
    case False
    then have m: "c_nodes C a = Some m" using that by (simp add: g_set_strong_def)
    have N: "node_ok C a m" by (rule core_okD(2) [OF C m])
    then have "x \<notin> set (nc_refs m)" using x False by (auto simp: node_ok_def)
    then have "strong_refs ?D (nc_refs m) = strong_refs C (nc_refs m)"
      by (intro strong_refs_cong) (auto simp: g_set_strong_def)
    then show ?thesis using N x by (auto simp: node_ok_def g_set_strong_def)
  qed
  moreover have "ref_ok ?D y s" if y: "c_refs ?D y = Some s" for y s
  proof -
    obtain s' where s': "c_refs C y = Some s'" "rc_proc s = rc_proc s'" "rc_node s = rc_node s'"
      using y x by (auto simp: g_set_strong_def split: if_splits)
    then show ?thesis using core_okD(3) [OF C s'(1)] n by (auto simp: ref_ok_def g_set_strong_def)
  qed
  ultimately show ?thesis by (simp add: core_ok_def)
qed

lemma g_del_ref_ok:
  assumes C: "core_ok C" and x: "c_refs C x = Some r" and ns: "\<not> rc_strong r"
  shows "core_ok (g_del_ref x r C)" (is "core_ok ?D")
proof -
  have R: "ref_ok C x r" by (rule core_okD(3) [OF C x])
  then obtain n where n: "c_nodes C (rc_node r) = Some n" "x \<in> set (nc_refs n)" by (auto simp: ref_ok_def)
  have e: "nodes_of ?D p = nodes_of C p" "cptr ?D a = cptr C a" "refs_of ?D p = refs_of C p - {x}" for p a
    using x n by (auto simp: g_del_ref_def refs_of_def nodes_of_def)
  have keep: "map (\<lambda>y. f (the (c_refs ?D y))) ys = map (\<lambda>y. f (the (c_refs C y))) ys" if "x \<notin> set ys" for f :: "rcore \<Rightarrow> 'x" and ys
    using that by (auto simp: g_del_ref_def)
  have "proc_ok ?D p P" if P: "c_procs ?D p = Some P" for p P
  proof (cases "p = rc_proc r")
    case True
    then obtain Q where Q: "c_procs C p = Some Q" "P = Q\<lparr>pc_desc := remove1 x (pc_desc Q), pc_bynode := remove1 x (pc_bynode Q)\<rparr>"
      using P by (auto simp: g_del_ref_def)
    have ok: "proc_ok C p Q" by (rule core_okD(1) [OF C Q(1)])
    then have d: "distinct (pc_desc Q)" "distinct (pc_bynode Q)"
      unfolding proc_ok_def by (blast intro: sorted_map_distinct)+
    then have "x \<notin> set (remove1 x (pc_desc Q))" "x \<notin> set (remove1 x (pc_bynode Q))" by auto
    note k = keep [OF this(1), of rc_desc] keep [OF this(2), of rc_node]
    show ?thesis using ok d by (simp add: proc_ok_def Q(2) e k sorted_remove1)
  next
    case False
    then have Q: "c_procs C p = Some P" using that by (simp add: g_del_ref_def)
    have ok: "proc_ok C p P" by (rule core_okD(1) [OF C Q])
    have nx: "x \<notin> refs_of C p" using False x by (simp add: refs_of_def)
    then have "x \<notin> set (pc_desc P)" "x \<notin> set (pc_bynode P)" using ok by (auto simp: proc_ok_def)
    note k = keep [OF this(1), of rc_desc] keep [OF this(2), of rc_node]
    show ?thesis using ok nx by (simp add: proc_ok_def e k)
  qed
  moreover have "node_ok ?D a m" if "c_nodes ?D a = Some m" for a m
  proof (cases "a = rc_node r")
    case True
    then have m: "m = n\<lparr>nc_refs := remove1 x (nc_refs n)\<rparr>" using that n by (simp add: g_del_ref_def)
    have N: "node_ok C a n" by (rule core_okD(2) [OF C]) (simp add: True n)
    then have d: "distinct (nc_refs n)" by (simp add: node_ok_def)
    have "strong_refs ?D (remove1 x (nc_refs n)) = strong_refs C (remove1 x (nc_refs n))"
      using d by (intro strong_refs_cong) (auto simp: g_del_ref_def)
    also have "\<dots> = strong_refs C (nc_refs n)"
      using d x ns by (induction "nc_refs n" arbitrary: n) (auto simp: strong_refs_def filter_remove1)
    finally show ?thesis using N d by (auto simp: node_ok_def m g_del_ref_def)
  next
    case False
    then have m: "c_nodes C a = Some m" using that by (simp add: g_del_ref_def)
    have N: "node_ok C a m" by (rule core_okD(2) [OF C m])
    then have nx: "x \<notin> set (nc_refs m)" using x False by (auto simp: node_ok_def)
    then have "strong_refs ?D (nc_refs m) = strong_refs C (nc_refs m)"
      by (intro strong_refs_cong) (auto simp: g_del_ref_def)
    then show ?thesis using N nx by (auto simp: node_ok_def g_del_ref_def)
  qed
  moreover have "ref_ok ?D y s" if "c_refs ?D y = Some s" for y s
  proof -
    have y: "y \<noteq> x" "c_refs C y = Some s" using that by (auto simp: g_del_ref_def split: if_splits)
    then obtain m where m: "c_nodes C (rc_node s) = Some m" "y \<in> set (nc_refs m)"
      using core_okD(3) [OF C y(2)] by (auto simp: ref_ok_def)
    then have "\<exists>m. c_nodes ?D (rc_node s) = Some m \<and> y \<in> set (nc_refs m)"
      using y(1) by (auto simp: g_del_ref_def)
    then show ?thesis using core_okD(3) [OF C y(2)] by (auto simp: ref_ok_def g_del_ref_def)
  qed
  ultimately show ?thesis by (simp add: core_ok_def)
qed

lemma map_if_other: "a \<notin> set ys \<Longrightarrow> map (\<lambda>y. if y = a then v else g y) ys = map g ys"
  by auto

lemma g_add_ref_ok:
  assumes C: "core_ok C" and x: "c_refs C x = None" and n: "c_nodes C (rc_node r) = Some n"
    and P: "c_procs C (rc_proc r) = Some P" and ns: "\<not> rc_strong r"
    and ds: "set ds = insert x (set (pc_desc P))" "sorted_wrt (<) (map (\<lambda>y. if y = x then rc_desc r else cdesc C y) ds)"
    and bn: "set bn = insert x (set (pc_bynode P))" "sorted_wrt (<) (map (\<lambda>y. if y = x then rc_node r else crnode C y) bn)"
  shows "core_ok (g_add_ref x r ds bn C)" (is "core_ok ?D")
proof -
  have e: "nodes_of ?D p = nodes_of C p" "cptr ?D a = cptr C a"
    "refs_of ?D p = (if p = rc_proc r then insert x (refs_of C p) else refs_of C p)" for p a
    using x n by (auto simp: g_add_ref_def refs_of_def nodes_of_def)
  have keep: "map (\<lambda>y. f (the (c_refs ?D y))) ys = map (\<lambda>y. if y = x then f r else f (the (c_refs C y))) ys"
    for f :: "rcore \<Rightarrow> 'x" and ys
    by (auto simp: g_add_ref_def)
  have notin: "x \<notin> refs_of C p" for p using x by (simp add: refs_of_def)
  have "proc_ok ?D p Q" if Q: "c_procs ?D p = Some Q" for p Q
  proof (cases "p = rc_proc r")
    case True
    have ok: "proc_ok C (rc_proc r) P" by (rule core_okD(1) [OF C P])
    have "Q = P\<lparr>pc_desc := ds, pc_bynode := bn\<rparr>" using Q True P by (simp add: g_add_ref_def)
    then show ?thesis using ok True ds bn
      by (simp add: proc_ok_def e keep [of rc_desc] keep [of rc_node])
  next
    case False
    have ok: "proc_ok C p Q" using Q False by (intro core_okD(1) [OF C]) (simp add: g_add_ref_def)
    then have "x \<notin> set (pc_desc Q)" "x \<notin> set (pc_bynode Q)" using notin by (auto simp: proc_ok_def)
    then show ?thesis using ok False
      by (simp add: proc_ok_def e keep [of rc_desc] keep [of rc_node] map_if_other)
  qed
  moreover have "node_ok ?D a m" if m: "c_nodes ?D a = Some m" for a m
  proof -
    have N: "node_ok C a k" if "c_nodes C a = Some k" for k by (rule core_okD(2) [OF C that])
    have nx: "x \<notin> set (nc_refs k)" if "c_nodes C a = Some k" for k using N [OF that] x by (auto simp: node_ok_def)
    have s: "strong_refs ?D (nc_refs k) = strong_refs C (nc_refs k)" if "c_nodes C a = Some k" for k
      using nx [OF that] by (intro strong_refs_cong) (auto simp: g_add_ref_def)
    show ?thesis
    proof (cases "a = rc_node r")
      case True
      then have a: "c_nodes C a = Some n" and m: "m = n\<lparr>nc_refs := x # nc_refs n\<rparr>" using m n by (auto simp: g_add_ref_def)
      have "strong_refs ?D (x # nc_refs n) = strong_refs ?D (nc_refs n)"
        using ns by (simp add: strong_refs_def g_add_ref_def)
      then show ?thesis using N [OF a] nx [OF a] s [OF a] True by (auto simp: node_ok_def m g_add_ref_def)
    next
      case False
      then have a: "c_nodes C a = Some m" using m by (simp add: g_add_ref_def)
      show ?thesis using N [OF a] nx [OF a] s [OF a] by (auto simp: node_ok_def g_add_ref_def)
    qed
  qed
  moreover have "ref_ok ?D y s" if y: "c_refs ?D y = Some s" for y s
  proof (cases "y = x")
    case True
    then show ?thesis using y n P by (auto simp: ref_ok_def g_add_ref_def)
  next
    case False
    then have "c_refs C y = Some s" using y by (simp add: g_add_ref_def)
    then have "ref_ok C y s" by (rule core_okD(3) [OF C])
    then show ?thesis by (auto simp: ref_ok_def g_add_ref_def)
  qed
  ultimately show ?thesis by (simp add: core_ok_def)
qed

lemma g_add_node_ok:
  assumes C: "core_ok C" and a: "c_nodes C a = None" and P: "c_procs C p = Some P"
    and ns: "set ns = insert a (set (pc_nodes P))" "sorted_wrt (<) (map (\<lambda>y. if y = a then ptr else cptr C y) ns)"
  shows "core_ok (g_add_node a p ptr cookie ns C)" (is "core_ok ?D")
proof -
  have e: "refs_of ?D q = refs_of C q" "c_refs ?D y = c_refs C y"
    "nodes_of ?D q = (if q = p then insert a (nodes_of C q) else nodes_of C q)" for q y
    using a by (auto simp: g_add_node_def refs_of_def nodes_of_def)
  have na: "a \<notin> nodes_of C q" for q using a by (simp add: nodes_of_def)
  have keep: "map (cptr ?D) ys = map (\<lambda>y. if y = a then ptr else cptr C y) ys" for ys
    by (auto simp: g_add_node_def)
  have "proc_ok ?D q Q" if Q: "c_procs ?D q = Some Q" for q Q
  proof (cases "q = p")
    case True
    have ok: "proc_ok C p P" by (rule core_okD(1) [OF C P])
    have "Q = P\<lparr>pc_nodes := ns\<rparr>" using Q True P by (simp add: g_add_node_def)
    then show ?thesis using ok True ns by (simp add: proc_ok_def e keep)
  next
    case False
    have ok: "proc_ok C q Q" using Q False by (intro core_okD(1) [OF C]) (simp add: g_add_node_def)
    then have "a \<notin> set (pc_nodes Q)" using na by (auto simp: proc_ok_def)
    then show ?thesis using ok False by (simp add: proc_ok_def e keep map_if_other)
  qed
  moreover have "node_ok ?D b m" if m: "c_nodes ?D b = Some m" for b m
  proof (cases "b = a")
    case True
    then show ?thesis using m P by (auto simp: node_ok_def g_add_node_def strong_refs_def)
  next
    case False
    then have "node_ok C b m" using m by (intro core_okD(2) [OF C]) (simp add: g_add_node_def)
    moreover have "strong_refs ?D (nc_refs m) = strong_refs C (nc_refs m)" by (rule strong_refs_cong) (simp add: e)
    ultimately show ?thesis by (auto simp: node_ok_def g_add_node_def)
  qed
  moreover have "ref_ok ?D y s" if y: "c_refs ?D y = Some s" for y s
  proof -
    have "ref_ok C y s" using y by (intro core_okD(3) [OF C]) (simp add: e)
    moreover have "rc_node s \<noteq> a" using \<open>ref_ok C y s\<close> a by (auto simp: ref_ok_def)
    ultimately show ?thesis by (auto simp: ref_ok_def g_add_node_def)
  qed
  ultimately show ?thesis by (simp add: core_ok_def)
qed

lemma g_del_node_ok:
  assumes C: "core_ok C" and n: "c_nodes C a = Some n" and nr: "nc_refs n = []"
  shows "core_ok (g_del_node a n C)" (is "core_ok ?D")
proof -
  have e: "refs_of ?D q = refs_of C q" "c_refs ?D y = c_refs C y" "nodes_of ?D q = nodes_of C q - {a}" for q y
    by (auto simp: g_del_node_def refs_of_def nodes_of_def)
  have keep: "map (cptr ?D) ys = map (cptr C) ys" if "a \<notin> set ys" for ys
    using that by (auto simp: g_del_node_def)
  have "proc_ok ?D q Q" if Q: "c_procs ?D q = Some Q" for q Q
  proof (cases "nc_proc n = Some q")
    case True
    then obtain P where P: "c_procs C q = Some P" "Q = P\<lparr>pc_nodes := remove1 a (pc_nodes P)\<rparr>"
      using Q by (auto simp: g_del_node_def)
    have ok: "proc_ok C q P" by (rule core_okD(1) [OF C P(1)])
    then have d: "distinct (pc_nodes P)" unfolding proc_ok_def by (blast intro: sorted_map_distinct)
    then have "a \<notin> set (remove1 a (pc_nodes P))" by simp
    then show ?thesis using ok d by (simp add: proc_ok_def P(2) e keep sorted_remove1)
  next
    case False
    then have Q': "c_procs C q = Some Q" using Q by (auto simp: g_del_node_def split: option.splits if_splits)
    have ok: "proc_ok C q Q" by (rule core_okD(1) [OF C Q'])
    have na: "a \<notin> nodes_of C q" using n False by (simp add: nodes_of_def)
    then have "a \<notin> set (pc_nodes Q)" using ok by (auto simp: proc_ok_def)
    then show ?thesis using ok na by (simp add: proc_ok_def e keep)
  qed
  moreover have pd: "c_procs ?D q = None \<longleftrightarrow> c_procs C q = None" for q
    by (auto simp: g_del_node_def split: option.splits)
  have "node_ok ?D b m" if m: "c_nodes ?D b = Some m" for b m
  proof -
    have "node_ok C b m" using m by (intro core_okD(2) [OF C]) (auto simp: g_del_node_def split: if_splits)
    moreover have "strong_refs ?D (nc_refs m) = strong_refs C (nc_refs m)" by (rule strong_refs_cong) (simp add: e)
    ultimately show ?thesis using pd by (auto simp: node_ok_def e)
  qed
  moreover have "ref_ok ?D y s" if y: "c_refs ?D y = Some s" for y s
  proof -
    have r: "ref_ok C y s" using y by (intro core_okD(3) [OF C]) (simp add: e)
    then obtain m where m: "c_nodes C (rc_node s) = Some m" "y \<in> set (nc_refs m)" by (auto simp: ref_ok_def)
    then have "rc_node s \<noteq> a" using n nr by auto
    then have "c_nodes ?D (rc_node s) = Some m" using m by (simp add: g_del_node_def)
    then show ?thesis using r m pd by (auto simp: ref_ok_def)
  qed
  ultimately show ?thesis by (simp add: core_ok_def)
qed

section \<open>Operations as steps of the graph\<close>

lemma core_upd_proc':
  assumes "\<And>x. k_procs k p = Some x \<Longrightarrow> proc_core (f x) = g (proc_core x)"
  shows "core_of (upd_proc p f k) = (core_of k)\<lparr>c_procs := (c_procs (core_of k))(p := map_option g (c_procs (core_of k) p))\<rparr>"
proof (rule core_eqI)
  fix q show "c_procs (core_of (upd_proc p f k)) q =
      c_procs ((core_of k)\<lparr>c_procs := (c_procs (core_of k))(p := map_option g (c_procs (core_of k) p))\<rparr>) q"
    by (cases "k_procs k p") (auto simp: upd_proc_def assms)
qed (simp_all add: upd_proc_def)

lemma core_upd_node':
  assumes "\<And>x. k_nodes k p = Some x \<Longrightarrow> node_core (f x) = g (node_core x)"
  shows "core_of (upd_node p f k) = (core_of k)\<lparr>c_nodes := (c_nodes (core_of k))(p := map_option g (c_nodes (core_of k) p))\<rparr>"
proof (rule core_eqI)
  fix q show "c_nodes (core_of (upd_node p f k)) q =
      c_nodes ((core_of k)\<lparr>c_nodes := (c_nodes (core_of k))(p := map_option g (c_nodes (core_of k) p))\<rparr>) q"
    by (cases "k_nodes k p") (auto simp: upd_node_def assms)
qed (simp_all add: upd_node_def)

lemma core_upd_ref':
  assumes "\<And>x. k_refs k p = Some x \<Longrightarrow> ref_core (f x) = g (ref_core x)"
  shows "core_of (upd_ref p f k) = (core_of k)\<lparr>c_refs := (c_refs (core_of k))(p := map_option g (c_refs (core_of k) p))\<rparr>"
proof (rule core_eqI)
  fix q show "c_refs (core_of (upd_ref p f k)) q =
      c_refs ((core_of k)\<lparr>c_refs := (c_refs (core_of k))(p := map_option g (c_refs (core_of k) p))\<rparr>) q"
    by (cases "k_refs k p") (auto simp: upd_ref_def assms)
qed (simp_all add: upd_ref_def)

lemma core_node_update: "core_of (k\<lparr>k_nodes := (k_nodes k)(n := v)\<rparr>) =
  (core_of k)\<lparr>c_nodes := (c_nodes (core_of k))(n := map_option node_core v)\<rparr>"
  by (rule core_eqI) auto

lemma core_ref_update: "core_of (k\<lparr>k_refs := (k_refs k)(x := v)\<rparr>) =
  (core_of k)\<lparr>c_refs := (c_refs (core_of k))(x := map_option ref_core v)\<rparr>"
  by (rule core_eqI) auto

text \<open>Lookups.\<close>

lemma get_node_eq:
  assumes C: "core_ok (core_of k)" and p: "k_procs k p = Some proc"
  shows "binder_get_node p ptr k = Ret (find (\<lambda>a. cptr (core_of k) a = ptr) (inorder (p_nodes proc)))"
proof -
  have P: "proc_ok (core_of k) p (proc_core proc)" by (rule core_okD(1) [OF C]) (simp add: p)
  have "tree_search (node_dir k ptr) (p_nodes proc) = Ret (find (\<lambda>a. cptr (core_of k) a = ptr) (inorder (p_nodes proc)))"
  proof (rule tree_search_eq)
    fix x assume "x \<in> set (inorder (p_nodes proc))"
    then have "x \<in> nodes_of (core_of k) p" using P by (simp add: proc_ok_def)
    then show "node_dir k ptr x = Ret (cmp ptr (cptr (core_of k) x))" by (auto simp: nodes_of_def node_dir_def)
  qed (use P in \<open>simp add: proc_ok_def\<close>)
  then show ?thesis by (simp add: binder_get_node_def p)
qed

lemma ref_dirs:
  assumes "x \<in> refs_of (core_of k) p"
  shows "desc_dir k d x = Ret (cmp d (cdesc (core_of k) x))" "ref_node_dir k n x = Ret (cmp n (crnode (core_of k) x))"
  using assms by (auto simp: refs_of_def desc_dir_def ref_node_dir_def)

lemma get_ref_eq:
  assumes C: "core_ok (core_of k)" and p: "k_procs k p = Some proc"
  shows "binder_get_ref p d k = Ret (find (\<lambda>x. cdesc (core_of k) x = d) (inorder (p_refs_by_desc proc)))"
proof -
  have P: "proc_ok (core_of k) p (proc_core proc)" by (rule core_okD(1) [OF C]) (simp add: p)
  have "tree_search (desc_dir k d) (p_refs_by_desc proc) = Ret (find (\<lambda>x. cdesc (core_of k) x = d) (inorder (p_refs_by_desc proc)))"
    by (rule tree_search_eq) (use P in \<open>auto simp: proc_ok_def intro!: ref_dirs simp del: core_of_apply\<close>)
  then show ?thesis by (simp add: binder_get_ref_def p)
qed

text \<open>The descriptor of a new reference is the lowest one not in use.\<close>

lemma lowest_desc_eq:
  assumes "\<And>x. x \<in> set xs \<Longrightarrow> k_refs k x \<noteq> None" and "sorted_wrt (<) (map (cdesc (core_of k)) xs)"
    and "\<And>x. x \<in> set xs \<Longrightarrow> unat d \<le> unat (cdesc (core_of k) x) + 1" and "unat d + length xs < 2 ^ 32 - 1"
  shows "\<exists>e. lowest_desc k d xs = Ret e \<and> d \<le> e \<and> e \<notin> cdesc (core_of k) ` set xs \<and>
    (\<forall>v. d \<le> v \<and> v < e \<longrightarrow> v \<in> cdesc (core_of k) ` set xs)"
  using assms
proof (induction xs arbitrary: d)
  case (Cons x xs)
  let ?c = "cdesc (core_of k)"
  obtain r where r: "k_refs k x = Some r" using Cons.prems(1) [of x] by auto
  have above: "?c x < ?c y" if "y \<in> set xs" for y using Cons.prems(2) that by simp
  show ?case
  proof (cases "r_desc r > d")
    case True
    then have "lowest_desc k d (x # xs) = Ret d" using r by simp
    moreover have "d \<notin> ?c ` set (x # xs)" using True r above by (fastforce simp: image_iff)
    ultimately show ?thesis by auto
  next
    case False
    have le: "unat (?c x) \<le> unat d" using False r by (simp add: word_le_nat_alt not_less)
    then have s: "unat (?c x + 1) = unat (?c x) + 1" using Cons.prems(4) by (simp add: unat_word_ariths)
    have "unat (?c x + 1) \<le> unat (?c y) + 1" if "y \<in> set xs" for y
      using above [OF that] unfolding s word_less_nat_alt by simp
    moreover have "unat (?c x + 1) + length xs < 2 ^ 32 - 1" using Cons.prems(4) le s by simp
    ultimately obtain e where e: "lowest_desc k (?c x + 1) xs = Ret e" "?c x + 1 \<le> e" "e \<notin> ?c ` set xs"
      "\<forall>v. ?c x + 1 \<le> v \<and> v < e \<longrightarrow> v \<in> ?c ` set xs"
      using Cons.IH [of "?c x + 1"] Cons.prems(1,2) by auto
    have d: "unat d \<le> unat (?c x) + 1" using Cons.prems(3) by simp
    have "lowest_desc k d (x # xs) = Ret e" using e(1) r False by simp
    moreover have "d \<le> e" using d e(2) s by (simp add: word_le_nat_alt)
    moreover have "e \<noteq> ?c x" using e(2) s by (auto simp: word_le_nat_alt)
    moreover have "v \<in> ?c ` set (x # xs)" if v: "d \<le> v" "v < e" for v
    proof (cases "?c x + 1 \<le> v")
      case True
      then show ?thesis using e(4) v by simp
    next
      case False
      then have "unat v \<le> unat (?c x)" using s by (simp add: word_le_nat_alt)
      then have "v = ?c x" using v(1) le by (simp add: word_le_nat_alt word_unat_eq_iff)
      then show ?thesis by simp
    qed
    ultimately show ?thesis using e(3) by (intro exI [of _ e]) auto
  qed
qed (auto dest: leD)

text \<open>Counting down a node; the node goes if nothing is left that keeps it.\<close>

definition dec_count :: "bool \<Rightarrow> bool \<Rightarrow> node \<Rightarrow> node" where
  "dec_count strong internal n = (if strong then
                     if internal then n\<lparr>n_internal_strong := n_internal_strong n - 1\<rparr>
                     else n\<lparr>n_local_strong := n_local_strong n - 1\<rparr>
                   else if internal then n else n\<lparr>n_local_weak := n_local_weak n - 1\<rparr>)"

lemma free_node_core:
  assumes R: "rb_ok R"
    and P: "\<And>p. n_proc node = Some p \<Longrightarrow> \<exists>proc. k_procs k p = Some proc \<and> distinct (inorder (p_nodes proc)) \<and> n \<in> set (inorder (p_nodes proc))"
  shows "core_of (free_node R n node k) = g_del_node n (node_core node) (core_of k)" "k_refs (free_node R n node k) = k_refs k"
proof -
  define k1 where "k1 = list_del_init (W_node n) k"
  have c1: "core_of k1 = core_of k" by (simp add: k1_def core_frame)
  show "core_of (free_node R n node k) = g_del_node n (node_core node) (core_of k)"
  proof (cases "n_proc node")
    case None
    have "core_of (free_node R n node k) = (core_of k1)\<lparr>c_nodes := (c_nodes (core_of k1))(n := None)\<rparr>"
      by (rule core_eqI) (simp_all add: free_node_def Let_def None core_frame k1_def [symmetric])
    then show ?thesis by (simp add: g_del_node_def None c1)
  next
    case (Some p)
    obtain proc where p: "k_procs k p = Some proc" "distinct (inorder (p_nodes proc))" "n \<in> set (inorder (p_nodes proc))"
      using P [OF Some] by blast
    have q: "inorder (p_nodes x) = inorder (p_nodes proc)" if "k_procs k1 p = Some x" for x
    proof -
      have "c_procs (core_of k1) p = c_procs (core_of k) p" by (simp only: c1)
      then show ?thesis using that p(1) by (simp add: proc_core_def)
    qed
    let ?g = "\<lambda>P. P\<lparr>pc_nodes := remove1 n (pc_nodes P)\<rparr>"
    have u: "core_of (upd_proc p (\<lambda>x. x\<lparr>p_nodes := rb_erase R n (p_nodes x)\<rparr>) k1) =
        (core_of k1)\<lparr>c_procs := (c_procs (core_of k1))(p := map_option ?g (c_procs (core_of k1) p))\<rparr>"
      by (rule core_upd_proc') (use q p rb_okD(2) [OF R] in \<open>simp add: proc_core_def\<close>)
    have "core_of (free_node R n node k) =
      (core_of (upd_proc p (\<lambda>x. x\<lparr>p_nodes := rb_erase R n (p_nodes x)\<rparr>) k1))\<lparr>c_nodes :=
         (c_nodes (core_of (upd_proc p (\<lambda>x. x\<lparr>p_nodes := rb_erase R n (p_nodes x)\<rparr>) k1)))(n := None)\<rparr>"
      by (simp add: free_node_def Let_def Some core_frame k1_def [symmetric] core_node_update)
    then show ?thesis unfolding u by (simp add: g_del_node_def Some c1)
  qed
  show "k_refs (free_node R n node k) = k_refs k"
    by (simp add: free_node_def Let_def stats_deleted_def upd_proc_def split: option.split)
qed

lemma dec_node_core:
  assumes R: "rb_ok R" and n: "k_nodes k n = Some node" and node': "node' = dec_count strong internal node"
    and P: "\<And>p. n_proc node = Some p \<Longrightarrow> \<exists>proc. k_procs k p = Some proc \<and> distinct (inorder (p_nodes proc)) \<and> n \<in> set (inorder (p_nodes proc))"
    and C1: "C1 = (core_of k)\<lparr>c_nodes := (c_nodes (core_of k))(n \<mapsto> node_core node')\<rparr>"
  shows "\<exists>k'. binder_dec_node R n strong internal k = Ret k' \<and> k_refs k' = k_refs k \<and>
    (core_of k' = C1 \<or> n_refs node = [] \<and> core_of k' = g_del_node n (node_core node') C1)"
proof -
  let ?k1 = "k\<lparr>k_nodes := (k_nodes k)(n \<mapsto> node')\<rparr>"
  have c1: "core_of ?k1 = C1" by (simp add: core_node_update C1)
  have keep: "n_refs node' = n_refs node" "n_proc node' = n_proc node" by (simp_all add: node' dec_count_def)
  have fr: "core_of (free_node R n node' ?k1) = g_del_node n (node_core node') C1" "k_refs (free_node R n node' ?k1) = k_refs k"
    using free_node_core [OF R, of node' ?k1 n] P c1 by (simp_all add: keep)
  have run: "binder_dec_node R n strong internal k =
    (if (if strong then n_local_strong node' \<noteq> 0 \<or> n_internal_strong node' \<noteq> 0 else n_local_weak node' \<noteq> 0 \<or> n_refs node' \<noteq> [])
     then Ret ?k1
     else case n_proc node' of
              Some p \<Rightarrow>
                if n_has_strong node' \<or> n_has_weak node' then
                  Ret (if n_entry node' = None then list_add_tail (W_node n) (Proc_todo p) ?k1 else ?k1)
                else if n_refs node' = [] \<and> n_local_strong node' = 0 \<and> n_local_weak node' = 0
                then Ret (free_node R n node' ?k1) else Ret ?k1
            | None \<Rightarrow>
                if n_refs node' = [] \<and> n_local_strong node' = 0 \<and> n_local_weak node' = 0
                then Ret (free_node R n node' ?k1) else Ret ?k1)"
    unfolding binder_dec_node_def n of_mem_simps cbind.simps dec_count_def [symmetric] node' [symmetric] Let_def by (rule refl)
  show ?thesis
    unfolding run using c1 fr keep by (auto simp: core_frame split: option.split)
qed

definition node_in_tree :: "core \<Rightarrow> nat \<Rightarrow> nat option \<Rightarrow> bool" where
  "node_in_tree C n po \<longleftrightarrow> (\<forall>p. po = Some p \<longrightarrow>
     (\<exists>P. c_procs C p = Some P \<and> distinct (pc_nodes P) \<and> n \<in> set (pc_nodes P)))"

lemma node_in_tree_ok: "core_ok C \<Longrightarrow> c_nodes C n = Some nd \<Longrightarrow> node_in_tree C n (nc_proc nd)"
  unfolding node_in_tree_def
proof (intro allI impI)
  fix p assume C: "core_ok C" and n: "c_nodes C n = Some nd" "nc_proc nd = Some p"
  then obtain P where P: "c_procs C p = Some P" using core_okD(2) [OF C n(1)] by (auto simp: node_ok_def)
  have "proc_ok C p P" by (rule core_okD(1) [OF C P])
  then have "distinct (pc_nodes P)" "n \<in> set (pc_nodes P)"
    using n sorted_map_distinct unfolding proc_ok_def nodes_of_def by auto
  then show "\<exists>P. c_procs C p = Some P \<and> distinct (pc_nodes P) \<and> n \<in> set (pc_nodes P)" using P by blast
qed

lemma node_in_tree_cong:
  "node_in_tree C n po \<Longrightarrow> (\<And>p. map_option pc_nodes (c_procs D p) = map_option pc_nodes (c_procs C p)) \<Longrightarrow> node_in_tree D n po"
  unfolding node_in_tree_def by (metis (no_types, lifting) map_option_eq_Some option.simps(9))

lemma dec_node_step:
  assumes R: "rb_ok R" and n: "k_nodes k n = Some node" and T: "node_in_tree (core_of k) n (n_proc node)"
  shows "\<exists>k'. binder_dec_node R n strong internal k = Ret k' \<and> k_refs k' = k_refs k \<and>
    (let nd = node_core (dec_count strong internal node);
         C1 = (core_of k)\<lparr>c_nodes := (c_nodes (core_of k))(n \<mapsto> nd)\<rparr>
     in core_of k' = C1 \<or> n_refs node = [] \<and> core_of k' = g_del_node n nd C1)"
  unfolding Let_def
proof (rule dec_node_core [OF R n refl _ refl])
  fix p assume "n_proc node = Some p"
  then obtain P where P: "c_procs (core_of k) p = Some P" "distinct (pc_nodes P)" "n \<in> set (pc_nodes P)"
    using T by (auto simp: node_in_tree_def simp del: core_of_apply)
  then show "\<exists>proc. k_procs k p = Some proc \<and> distinct (inorder (p_nodes proc)) \<and> n \<in> set (inorder (p_nodes proc))"
    by (cases "k_procs k p") auto
qed

text \<open>Counting up.\<close>

lemma inc_node_step:
  assumes "k_nodes k n = Some node"
  shows "\<exists>ret k'. binder_inc_node n strong internal tgt k = Ret (ret, k') \<and> k_refs k' = k_refs k \<and> (ret = 0 \<or> ret = E_INVAL) \<and>
    core_of k' = (if ret = 0 \<and> strong \<and> internal
      then (core_of k)\<lparr>c_nodes := (c_nodes (core_of k))(n := map_option (\<lambda>m. m\<lparr>nc_strong := nc_strong m + 1\<rparr>) (c_nodes (core_of k) n))\<rparr>
      else core_of k)"
proof (cases strong)
  case True
  let ?k = "upd_node n (\<lambda>x. if internal then x\<lparr>n_internal_strong := n_internal_strong x + 1\<rparr>
                                   else x\<lparr>n_local_strong := n_local_strong x + 1\<rparr>) k"
  have "core_of ?k = (if internal
      then (core_of k)\<lparr>c_nodes := (c_nodes (core_of k))(n := map_option (\<lambda>m. m\<lparr>nc_strong := nc_strong m + 1\<rparr>) (c_nodes (core_of k) n))\<rparr>
      else core_of k)"
  proof (cases internal)
    case True
    then show ?thesis using core_upd_node' [where g = "\<lambda>m. m\<lparr>nc_strong := nc_strong m + 1\<rparr>"] by (simp add: node_core_def)
  next
    case False
    then show ?thesis using core_upd_node by (simp add: node_core_def)
  qed
  moreover have "k_refs ?k = k_refs k" by (simp add: upd_node_def)
  ultimately show ?thesis using assms True
    by (auto simp: binder_inc_node_def Let_def core_frame split: option.split)
next
  case False
  have "core_of (if internal then k else upd_node n (\<lambda>x. x\<lparr>n_local_weak := n_local_weak x + 1\<rparr>) k) = core_of k"
    using core_upd_node by (simp add: node_core_def)
  moreover have "k_refs (if internal then k else upd_node n (\<lambda>x. x\<lparr>n_local_weak := n_local_weak x + 1\<rparr>) k) = k_refs k"
    by (simp add: upd_node_def)
  ultimately show ?thesis using assms False
    by (auto simp: binder_inc_node_def Let_def core_frame split: option.split)
qed

lemma g_set_strong_same: "c_refs C x = Some r \<Longrightarrow> rc_strong r = v \<Longrightarrow> g_set_strong x r v C = C"
  by (rule core_eqI) (auto simp: g_set_strong_def strong_diff_def option.map_ident)

lemma ref_node_live:
  assumes "core_ok (core_of k)" and "k_refs k x = Some r"
  obtains node where "k_nodes k (r_node r) = Some node" "x \<in> set (n_refs node)"
proof -
  have "ref_ok (core_of k) x (ref_core r)" by (rule core_okD(3) [OF assms(1)]) (simp add: assms(2))
  then show thesis using that by (auto simp: ref_ok_def)
qed

lemma inc_ref_step:
  assumes C: "core_ok (core_of k)" and r: "k_refs k x = Some r" and ov: "strong \<longrightarrow> r_strong r \<noteq> - 1"
  shows "\<exists>ret k'. binder_inc_ref x strong tgt k = Ret (ret, k') \<and> (ret = 0 \<or> ret = E_INVAL) \<and>
    core_of k' = (if ret = 0 \<and> strong then g_set_strong x (ref_core r) True (core_of k) else core_of k) \<and>
    k_refs k' = (if ret = 0 then (k_refs k)(x \<mapsto> (if strong then r\<lparr>r_strong := r_strong r + 1\<rparr> else r\<lparr>r_weak := r_weak r + 1\<rparr>))
                 else k_refs k)"
proof -
  obtain node where n: "k_nodes k (r_node r) = Some node" using ref_node_live [OF C r] by blast
  let ?cnt = "if strong then r_strong r else r_weak r"
  obtain ret k1 where s: "(if ?cnt = 0 then binder_inc_node (r_node r) strong True tgt k else Ret (0, k)) = Ret (ret, k1)"
    "k_refs k1 = k_refs k" "ret = 0 \<or> ret = E_INVAL"
    "core_of k1 = (if ret = 0 \<and> strong \<and> ?cnt = 0
      then (core_of k)\<lparr>c_nodes := (c_nodes (core_of k))(r_node r := map_option (\<lambda>m. m\<lparr>nc_strong := nc_strong m + 1\<rparr>) (c_nodes (core_of k) (r_node r)))\<rparr>
      else core_of k)"
    using inc_node_step [OF n, of strong True tgt] by (cases "?cnt = 0") auto
  show ?thesis
  proof (cases "ret = 0")
    case False
    then show ?thesis using s r
      by (intro exI [of _ ret] exI [of _ k1]) (cases strong; auto simp: binder_inc_ref_def split: if_splits)
  next
    case True
    show ?thesis
    proof (cases strong)
      case st: True
      have ne: "r_strong r + 1 \<noteq> 0" using ov st by (metis add.commute add_eq_0_iff)
      let ?k' = "upd_ref x (\<lambda>x. x\<lparr>r_strong := r_strong x + 1\<rparr>) k1"
      have "core_of ?k' = (core_of k1)\<lparr>c_refs := (c_refs (core_of k1))(x := map_option (\<lambda>y. y\<lparr>rc_strong := True\<rparr>) (c_refs (core_of k1) x))\<rparr>"
        by (rule core_upd_ref') (use s(2) r ne in \<open>simp add: ref_core_def\<close>)
      also have "\<dots> = g_set_strong x (ref_core r) True (core_of k)"
        by (rule core_eqI) (use s(2,4) True st r in \<open>auto simp: g_set_strong_def strong_diff_def option.map_ident\<close>)
      finally have "core_of ?k' = g_set_strong x (ref_core r) True (core_of k)" .
      moreover have "k_refs ?k' = (k_refs k)(x \<mapsto> r\<lparr>r_strong := r_strong r + 1\<rparr>)" using s(2) r by (simp add: upd_ref_def)
      moreover have "binder_inc_ref x strong tgt k = Ret (0, ?k')"
        using s(1) st r True by (auto simp: binder_inc_ref_def split: if_splits)
      ultimately show ?thesis using st by auto
    next
      case st: False
      let ?k' = "upd_ref x (\<lambda>x. x\<lparr>r_weak := r_weak x + 1\<rparr>) k1"
      have "core_of ?k' = core_of k" using s(4) st core_upd_ref by (simp add: ref_core_def)
      moreover have "k_refs ?k' = (k_refs k)(x \<mapsto> r\<lparr>r_weak := r_weak r + 1\<rparr>)" using s(2) r by (simp add: upd_ref_def)
      moreover have "binder_inc_ref x strong tgt k = Ret (0, ?k')"
        using s(1) st r True by (auto simp: binder_inc_ref_def split: if_splits)
      ultimately show ?thesis using st by auto
    qed
  qed
qed

text \<open>Dropping a reference and, if it was the last thing that kept it, its node.\<close>

lemma delete_death_frame: "core_of (delete_death d k) = core_of k" "k_refs (delete_death d k) = k_refs k"
proof -
  have d: "core_of (k\<lparr>k_deaths := x\<rparr>) = core_of k" for k x by (simp add: core_of_def)
  show "core_of (delete_death d k) = core_of k" by (simp add: delete_death_def Let_def core_frame d)
  show "k_refs (delete_death d k) = k_refs k" by (simp add: delete_death_def Let_def stats_deleted_def)
qed

lemma g_del_node_refs: "(g_del_node a n C)\<lparr>c_refs := X\<rparr> = g_del_node a n (C\<lparr>c_refs := X\<rparr>)"
  by (rule core_eqI) (simp_all add: g_del_node_def split: option.split)

lemma delete_ref_step:
  assumes R: "rb_ok R" and C: "core_ok (core_of k)" and r: "k_refs k x = Some r"
  shows "\<exists>k'. binder_delete_ref R x k = Ret k' \<and> core_ok (core_of k') \<and> k_refs k' = (k_refs k)(x := None)"
proof -
  let ?C = "core_of k" and ?n = "r_node r" and ?p = "r_proc r"
  obtain node where n: "k_nodes k ?n = Some node" "x \<in> set (n_refs node)" using ref_node_live [OF C r] by blast
  have NT: "node_in_tree ?C ?n (n_proc node)" using node_in_tree_ok [OF C, of ?n "node_core node"] n(1) by simp
  have "ref_ok ?C x (ref_core r)" by (rule core_okD(3) [OF C]) (simp add: r)
  then obtain proc where p: "k_procs k ?p = Some proc" by (auto simp: ref_ok_def)
  have P: "proc_ok ?C ?p (proc_core proc)" by (rule core_okD(1) [OF C]) (simp add: p)
  have xr: "x \<in> refs_of ?C ?p" using r by (simp add: refs_of_def)
  have dx: "distinct (inorder (p_refs_by_desc proc))" "x \<in> set (inorder (p_refs_by_desc proc))"
    "distinct (inorder (p_refs_by_node proc))" "x \<in> set (inorder (p_refs_by_node proc))"
    using P xr sorted_map_distinct unfolding proc_ok_def by auto
  let ?g = "\<lambda>P. P\<lparr>pc_desc := remove1 x (pc_desc P), pc_bynode := remove1 x (pc_bynode P)\<rparr>"
  define k1 where "k1 = upd_proc ?p (\<lambda>y. y\<lparr>p_refs_by_desc := rb_erase R x (p_refs_by_desc y),
                 p_refs_by_node := rb_erase R x (p_refs_by_node y)\<rparr>) k"
  have c1: "core_of k1 = ?C\<lparr>c_procs := (c_procs ?C)(?p := map_option ?g (c_procs ?C ?p))\<rparr>"
    unfolding k1_def by (rule core_upd_proc') (use p dx rb_okD(2) [OF R] in \<open>simp add: proc_core_def\<close>)
  have k1: "k_nodes k1 = k_nodes k" "k_refs k1 = k_refs k" by (simp_all add: k1_def upd_proc_def)
  have nt1: "node_in_tree (core_of k1) ?n (n_proc node)"
    by (rule node_in_tree_cong [OF NT]) (simp add: c1 option.map_comp comp_def del: core_of_apply)
  define ds where "ds = strong_diff (r_strong r \<noteq> 0) False"
  obtain k2 node2 where k2: "(if r_strong r \<noteq> 0 then binder_dec_node R ?n True True k1 else Ret k1) = Ret k2"
    "k_refs k2 = k_refs k" "k_nodes k2 ?n = Some node2"
    "core_of k2 = (core_of k1)\<lparr>c_nodes := (c_nodes (core_of k1))(?n \<mapsto> (node_core node)\<lparr>nc_strong := n_internal_strong node + ds\<rparr>)\<rparr>"
  proof (cases "r_strong r = 0")
    case True
    have "core_of k1 = (core_of k1)\<lparr>c_nodes := (c_nodes (core_of k1))(?n \<mapsto> (node_core node)\<lparr>nc_strong := n_internal_strong node + ds\<rparr>)\<rparr>"
      by (rule core_eqI) (use True n(1) k1 in \<open>auto simp: ds_def strong_diff_def node_core_def\<close>)
    then show thesis using that [of k1 node] True k1 n(1) by simp
  next
    case False
    let ?d = "node_core (dec_count True True node)"
    obtain k2 where d: "binder_dec_node R ?n True True k1 = Ret k2" "k_refs k2 = k_refs k1"
      "core_of k2 = (core_of k1)\<lparr>c_nodes := (c_nodes (core_of k1))(?n \<mapsto> ?d)\<rparr>"
      using dec_node_step [OF R _ nt1, of True True] n k1 by (auto simp: Let_def simp del: core_of_apply)
    have "c_nodes (core_of k2) ?n = Some ?d" by (simp add: d(3) del: core_of_apply)
    then obtain node2 where "k_nodes k2 ?n = Some node2" by auto
    moreover have "?d = (node_core node)\<lparr>nc_strong := n_internal_strong node + ds\<rparr>"
      using False by (simp add: dec_count_def node_core_def ds_def strong_diff_def)
    ultimately show thesis using that [of k2 node2] d False k1 by simp
  qed
  have n2: "node_core node2 = (node_core node)\<lparr>nc_strong := n_internal_strong node + ds\<rparr>"
  proof -
    have "c_nodes (core_of k2) ?n = Some ((node_core node)\<lparr>nc_strong := n_internal_strong node + ds\<rparr>)"
      by (simp add: k2(4) del: core_of_apply)
    then show ?thesis using k2(3) by simp
  qed
  define k3 where "k3 = upd_node ?n (\<lambda>y. y\<lparr>n_refs := remove1 x (n_refs y)\<rparr>) k2"
  let ?n3 = "node2\<lparr>n_refs := remove1 x (n_refs node2)\<rparr>"
  have k3: "k_nodes k3 ?n = Some ?n3" "k_refs k3 = k_refs k" using k2(2,3) by (simp_all add: k3_def upd_node_def)
  have c3: "core_of k3 = (core_of k2)\<lparr>c_nodes := (c_nodes (core_of k2))(?n \<mapsto> node_core ?n3)\<rparr>"
  proof -
    have "core_of k3 = (core_of k2)\<lparr>c_nodes := (c_nodes (core_of k2))(?n :=
        map_option (\<lambda>m. m\<lparr>nc_refs := remove1 x (nc_refs m)\<rparr>) (c_nodes (core_of k2) ?n))\<rparr>"
      unfolding k3_def by (rule core_upd_node') (simp add: node_core_def)
    then show ?thesis using k2(3) by (simp add: node_core_def)
  qed
  have pr3: "n_proc ?n3 = n_proc node" using n2 by (simp add: node_core_def)
  have nt3: "node_in_tree (core_of k3) ?n (n_proc ?n3)"
    unfolding pr3 by (rule node_in_tree_cong [OF nt1]) (simp add: c3 k2(4) del: core_of_apply)
  have dc: "dec_count False True ?n3 = ?n3" by (simp add: dec_count_def)
  have same: "(core_of k3)\<lparr>c_nodes := (c_nodes (core_of k3))(?n \<mapsto> node_core ?n3)\<rparr> = core_of k3"
    by (rule core_eqI) (simp_all add: c3 del: core_of_apply)
  obtain k4 where k4: "binder_dec_node R ?n False True k3 = Ret k4" "k_refs k4 = k_refs k"
    "core_of k4 = core_of k3 \<or> n_refs ?n3 = [] \<and> core_of k4 = g_del_node ?n (node_core ?n3) (core_of k3)"
    using dec_node_step [OF R k3(1) nt3, of False True] k3(2) unfolding Let_def dc same by auto
  define k5 where "k5 = (case r_death r of None \<Rightarrow> k4 | Some d \<Rightarrow> delete_death d k4)"
  have k5: "core_of k5 = core_of k4" "k_refs k5 = k_refs k" using k4(2) by (auto simp: k5_def delete_death_frame split: option.split)
  let ?k' = "stats_deleted Stat_ref (k5\<lparr>k_refs := (k_refs k5)(x := None)\<rparr>)"
  have run: "binder_delete_ref R x k = Ret ?k'"
    unfolding binder_delete_ref_def r of_mem_simps cbind.simps Let_def k1_def [symmetric] k2(1) k2(3) k3_def [symmetric] k4(1)
      k5_def [symmetric] by (rule refl)
  let ?C1 = "g_set_strong x (ref_core r) False ?C"
  let ?r1 = "(ref_core r)\<lparr>rc_strong := False\<rparr>"
  let ?C2 = "g_del_ref x ?r1 ?C1"
  have "core_ok ?C1" by (rule g_set_strong_ok [OF C]) (simp add: r)
  then have ok2: "core_ok ?C2" by (rule g_del_ref_ok) (simp_all add: g_set_strong_def)
  have eq2: "(core_of k3)\<lparr>c_refs := (c_refs (core_of k3))(x := None)\<rparr> = ?C2"
  proof (rule core_eqI)
    fix a
    have "node_core ?n3 = (node_core node)\<lparr>nc_strong := n_internal_strong node + ds, nc_refs := remove1 x (n_refs node)\<rparr>"
      using n2 by (simp add: node_core_def)
    then show "c_nodes ((core_of k3)\<lparr>c_refs := (c_refs (core_of k3))(x := None)\<rparr>) a = c_nodes ?C2 a"
      using n(1) by (auto simp: c3 k2(4) c1 g_del_ref_def g_set_strong_def ds_def node_core_def simp del: core_of_apply)
        (simp_all add: node_core_def)
  qed (simp_all add: c3 k2(4) c1 g_del_ref_def g_set_strong_def del: core_of_apply)
  have fin: "core_of ?k' = (core_of k4)\<lparr>c_refs := (c_refs (core_of k4))(x := None)\<rparr>"
    by (simp only: core_frame core_ref_update k5(1)) simp
  have "core_ok (core_of ?k')"
    using k4(3)
  proof
    assume "core_of k4 = core_of k3"
    then show ?thesis using fin eq2 ok2 by metis
  next
    assume A: "n_refs ?n3 = [] \<and> core_of k4 = g_del_node ?n (node_core ?n3) (core_of k3)"
    have "core_of ?k' = g_del_node ?n (node_core ?n3) ((core_of k3)\<lparr>c_refs := (c_refs (core_of k3))(x := None)\<rparr>)"
    proof -
      have "c_refs (core_of k4) = c_refs (core_of k3)" using A by (simp add: g_del_node_def del: core_of_apply)
      then show ?thesis unfolding fin using A by (simp add: g_del_node_refs del: core_of_apply)
    qed
    then have e: "core_of ?k' = g_del_node ?n (node_core ?n3) ?C2" unfolding eq2 .
    have "c_nodes ((core_of k3)\<lparr>c_refs := (c_refs (core_of k3))(x := None)\<rparr>) ?n = Some (node_core ?n3)"
      by (simp add: c3 del: core_of_apply)
    then have "c_nodes ?C2 ?n = Some (node_core ?n3)" unfolding eq2 .
    then show ?thesis unfolding e using ok2 A by (intro g_del_node_ok) auto
  qed
  moreover have "k_refs ?k' = (k_refs k)(x := None)" using k5(2) by (simp add: stats_deleted_def)
  ultimately show ?thesis using run by blast
qed

text \<open>A reference for a node: the one there is, or a new one with the lowest free descriptor.\<close>

definition lowest_free :: "u32 \<Rightarrow> u32 set \<Rightarrow> u32 \<Rightarrow> bool" where
  "lowest_free start used d \<longleftrightarrow> start \<le> d \<and> d \<notin> used \<and> (\<forall>v. start \<le> v \<and> v < d \<longrightarrow> v \<in> used)"

definition used_descs :: "kstate \<Rightarrow> nat \<Rightarrow> u32 set" where
  "used_descs k p = cdesc (core_of k) ` refs_of (core_of k) p"

lemma kzalloc_frame:
  assumes "kzalloc k = (r, k')"
  shows "k_refs k' = k_refs k" "k_nodes k' = k_nodes k" "k_procs k' = k_procs k" "k_mgr k' = k_mgr k"
    "k_last_id k' = k_last_id k"
  using assms by (auto simp: kzalloc_def split: list.splits)

lemma node_dir_cong: "k_nodes k' = k_nodes k \<Longrightarrow> node_dir k' ptr = node_dir k ptr"
  by (rule ext) (simp add: node_dir_def)

lemma ref_dir_cong:
  "k_refs k' = k_refs k \<Longrightarrow> ref_node_dir k' n = ref_node_dir k n" "k_refs k' = k_refs k \<Longrightarrow> desc_dir k' d = desc_dir k d"
  by (rule ext, simp add: ref_node_dir_def desc_dir_def)+

lemma lowest_desc_cong: "k_refs k' = k_refs k \<Longrightarrow> lowest_desc k' d xs = lowest_desc k d xs"
  by (induction xs arbitrary: d) (simp_all cong: if_cong)

lemma proc_trees:
  assumes C: "core_ok (core_of k)" and p: "k_procs k p = Some proc"
  shows "set (inorder (p_refs_by_desc proc)) = refs_of (core_of k) p"
    "set (inorder (p_refs_by_node proc)) = refs_of (core_of k) p"
    "set (inorder (p_nodes proc)) = nodes_of (core_of k) p"
    "sorted_wrt (<) (map (cdesc (core_of k)) (inorder (p_refs_by_desc proc)))"
    "sorted_wrt (<) (map (crnode (core_of k)) (inorder (p_refs_by_node proc)))"
    "sorted_wrt (<) (map (cptr (core_of k)) (inorder (p_nodes proc)))"
  using core_okD(1) [OF C, of p "proc_core proc"] p by (simp_all add: proc_ok_def)

lemma lowest_desc_start:
  assumes C: "core_ok (core_of k)" and p: "k_procs k p = Some proc"
    and few: "length (inorder (p_refs_by_desc proc)) < 2 ^ 32 - 2" and s: "s \<le> 1"
  shows "\<exists>d. lowest_desc k s (inorder (p_refs_by_desc proc)) = Ret d \<and> lowest_free s (used_descs k p) d"
proof -
  have "unat s \<le> 1" using s by (simp add: word_le_nat_alt)
  then have "\<exists>e. lowest_desc k s (inorder (p_refs_by_desc proc)) = Ret e \<and> s \<le> e \<and>
      e \<notin> cdesc (core_of k) ` set (inorder (p_refs_by_desc proc)) \<and>
      (\<forall>v. s \<le> v \<and> v < e \<longrightarrow> v \<in> cdesc (core_of k) ` set (inorder (p_refs_by_desc proc)))"
    by (intro lowest_desc_eq) (use proc_trees [OF C p] few in \<open>auto simp: refs_of_def\<close>)
  then show ?thesis by (auto simp: lowest_free_def used_descs_def proc_trees [OF C p] simp del: core_of_apply)
qed

lemma find_sorted_key:
  fixes key :: "nat \<Rightarrow> 'k::linorder"
  shows "sorted_wrt (<) (map key xs) \<Longrightarrow> x \<in> set xs \<Longrightarrow> key x = k \<Longrightarrow> find (\<lambda>x. key x = k) xs = Some x"
  by (induction xs) auto

lemma sorted_insert_upd:
  fixes key :: "nat \<Rightarrow> 'k::linorder"
  assumes "sorted_wrt (<) (map key xs)" and "a \<notin> set xs" and "k \<notin> key ` set xs"
  shows "sorted_wrt (<) (map (\<lambda>y. if y = a then k else key y)
    (takeWhile (\<lambda>x. key x < k) xs @ a # dropWhile (\<lambda>x. key x < k) xs))" (is "sorted_wrt _ (map ?f _)")
proof -
  have e: "?f x = key x" if "x \<in> set xs" for x using that assms(2) by auto
  have "takeWhile (\<lambda>x. key x < k) xs = takeWhile (\<lambda>x. ?f x < k) xs" "dropWhile (\<lambda>x. key x < k) xs = dropWhile (\<lambda>x. ?f x < k) xs"
    by (rule takeWhile_cong dropWhile_cong; use e in simp)+
  moreover have "map ?f xs = map key xs" "?f ` set xs = key ` set xs" using e by auto
  ultimately show ?thesis using sorted_insert_pos [of ?f xs a k] assms by (simp only: simp_thms if_True)
qed

lemma get_ref_for_node_found:
  assumes C: "core_ok (core_of k)" and p: "k_procs k p = Some proc"
    and x: "x \<in> refs_of (core_of k) p" "crnode (core_of k) x = n"
  shows "binder_get_ref_for_node R p n k = Ret (Some x, k)"
proof -
  note T = proc_trees [OF C p]
  have "tree_search (ref_node_dir k n) (p_refs_by_node proc) =
      Ret (find (\<lambda>x. crnode (core_of k) x = n) (inorder (p_refs_by_node proc)))"
    by (rule tree_search_eq) (use T(2,5) in \<open>auto intro!: ref_dirs simp del: core_of_apply\<close>)
  moreover have "find (\<lambda>x. crnode (core_of k) x = n) (inorder (p_refs_by_node proc)) = Some x"
    by (rule find_sorted_key) (use T(2,5) x in \<open>auto simp del: core_of_apply\<close>)
  ultimately show ?thesis by (simp add: binder_get_ref_for_node_def p)
qed

lemma get_ref_for_node_none:
  assumes R: "rb_ok R" and C: "core_ok (core_of k)" and p: "k_procs k p = Some proc"
    and x: "\<forall>x \<in> refs_of (core_of k) p. crnode (core_of k) x \<noteq> n" and kz: "kzalloc k = (None, k')"
  shows "binder_get_ref_for_node R p n k = Ret (None, k')"
proof -
  note T = proc_trees [OF C p]
  have "tree_search (ref_node_dir k n) (p_refs_by_node proc) =
      Ret (find (\<lambda>x. crnode (core_of k) x = n) (inorder (p_refs_by_node proc)))"
    by (rule tree_search_eq) (use T(2,5) in \<open>auto intro!: ref_dirs simp del: core_of_apply\<close>)
  moreover have "find (\<lambda>x. crnode (core_of k) x = n) (inorder (p_refs_by_node proc)) = None"
    by (rule find_Cons_None) (use T(2) x in \<open>simp del: core_of_apply\<close>)
  ultimately show ?thesis by (simp add: binder_get_ref_for_node_def p kz)
qed

lemma get_ref_for_node_new:
  assumes R: "rb_ok R" and C: "core_ok (core_of k)" and p: "k_procs k p = Some proc" and n: "k_nodes k n = Some node"
    and x: "\<forall>x \<in> refs_of (core_of k) p. crnode (core_of k) x \<noteq> n"
    and kz: "kzalloc k = (Some a, k1)" and fresh: "k_refs k a = None"
    and few: "length (inorder (p_refs_by_desc proc)) < 2 ^ 32 - 2"
  shows "\<exists>d k'. binder_get_ref_for_node R p n k = Ret (Some a, k') \<and> core_ok (core_of k') \<and>
    lowest_free (if k_mgr k = Some n then 0 else 1) (used_descs k p) d \<and>
    k_refs k' = (k_refs k)(a \<mapsto> fresh_ref p n d (k_last_id k + 1)) \<and>
    (\<exists>ds ns. core_of k' = g_add_ref a (ref_core (fresh_ref p n d (k_last_id k + 1))) ds ns (core_of k)) \<and>
    k_kzalloc k' = k_kzalloc k1"
proof -
  let ?C = "core_of k"
  note T = proc_trees [OF C p] and K = kzalloc_frame [OF kz]
  define s where "s = (if k_mgr k = Some n then 0 else 1 :: u32)"
  define i where "i = k_last_id k + 1"
  define k2 where "k2 = (stats_created Stat_ref k1)\<lparr>k_last_id := i\<rparr>"
  have k2: "k_refs k2 = k_refs k" "k_nodes k2 = k_nodes k" "k_procs k2 = k_procs k" "k_mgr k2 = k_mgr k"
    by (simp_all add: k2_def stats_created_def K)
  have c2: "core_of k2 = ?C" by (simp add: k2_def core_frame core_kzalloc [OF kz])
  obtain d where d: "lowest_desc k s (inorder (p_refs_by_desc proc)) = Ret d" "lowest_free s (used_descs k p) d"
    using lowest_desc_start [OF C p few, of s] by (cases "k_mgr k = Some n") (auto simp: s_def)
  obtain t1 where t1: "tree_link (ref_node_dir k n) a (p_refs_by_node proc) = Ret (Inr t1)"
    "inorder t1 = takeWhile (\<lambda>x. crnode ?C x < n) (inorder (p_refs_by_node proc)) @ a #
      dropWhile (\<lambda>x. crnode ?C x < n) (inorder (p_refs_by_node proc))"
    using tree_link_new [of "p_refs_by_node proc" "ref_node_dir k n" n "crnode ?C" a] T(2,5) x
    by (auto simp: ref_dirs simp del: core_of_apply)
  obtain t2 where t2: "tree_link (desc_dir k d) a (p_refs_by_desc proc) = Ret (Inr t2)"
    "inorder t2 = takeWhile (\<lambda>x. cdesc ?C x < d) (inorder (p_refs_by_desc proc)) @ a #
      dropWhile (\<lambda>x. cdesc ?C x < d) (inorder (p_refs_by_desc proc))"
    using tree_link_new [of "p_refs_by_desc proc" "desc_dir k d" d "cdesc ?C" a] T(1,4) d(2)
    by (auto simp: ref_dirs lowest_free_def used_descs_def simp del: core_of_apply)
  let ?r = "fresh_ref p n d i"
  define k3 where "k3 = upd_proc p (\<lambda>x. x\<lparr>p_refs_by_node := rb_color R t1, p_refs_by_desc := rb_color R t2\<rparr>) k2"
  define k4 where "k4 = k3\<lparr>k_refs := (k_refs k3)(a \<mapsto> ?r)\<rparr>"
  define k5 where "k5 = upd_node n (\<lambda>x. x\<lparr>n_refs := a # n_refs x\<rparr>) k4"
  have ts: "tree_search (ref_node_dir k n) (p_refs_by_node proc) = Ret None"
  proof -
    have "tree_search (ref_node_dir k n) (p_refs_by_node proc) =
        Ret (find (\<lambda>x. crnode ?C x = n) (inorder (p_refs_by_node proc)))"
      by (rule tree_search_eq) (use T(2,5) in \<open>auto intro!: ref_dirs simp del: core_of_apply\<close>)
    moreover have "find (\<lambda>x. crnode ?C x = n) (inorder (p_refs_by_node proc)) = None"
      by (rule find_Cons_None) (use T(2) x in \<open>simp del: core_of_apply\<close>)
    ultimately show ?thesis by simp
  qed
  have dirs: "ref_node_dir k2 n = ref_node_dir k n" "desc_dir k2 d = desc_dir k d" by (rule ref_dir_cong [OF k2(1)])+
  have i1: "k_last_id (stats_created Stat_ref k1) + 1 = i" by (simp add: stats_created_def i_def K)
  have run: "binder_get_ref_for_node R p n k = Ret (Some a, k5)"
    unfolding binder_get_ref_for_node_def p of_mem_simps cbind.simps ts option.case kz prod.case Let_def i1
      k2_def [symmetric] k2(2,4) s_def [symmetric] dirs t1(1) t2(1) lowest_desc_cong [OF k2(1)] d(1) sum.case n
      k3_def [symmetric] k4_def [symmetric] k5_def [symmetric]
    by (rule refl)
  have c3: "core_of k3 = ?C\<lparr>c_procs := (c_procs ?C)(p := map_option (\<lambda>P. P\<lparr>pc_desc := inorder t2, pc_bynode := inorder t1\<rparr>) (c_procs ?C p))\<rparr>"
    unfolding k3_def c2 [symmetric]
    by (rule core_upd_proc') (simp add: proc_core_def rb_okD(1) [OF R])
  have c5: "core_of k5 = g_add_ref a (ref_core ?r) (inorder t2) (inorder t1) ?C"
  proof -
    have "core_of k5 = (core_of k4)\<lparr>c_nodes := (c_nodes (core_of k4))(n :=
        map_option (\<lambda>m. m\<lparr>nc_refs := a # nc_refs m\<rparr>) (c_nodes (core_of k4) n))\<rparr>"
      unfolding k5_def by (rule core_upd_node') (simp add: node_core_def)
    then show ?thesis unfolding k4_def core_ref_update c3 by (simp add: g_add_ref_def fresh_ref_def del: core_of_apply)
  qed
  have "core_ok (core_of k5)"
    unfolding c5
  proof (rule g_add_ref_ok [OF C])
    show "c_refs ?C a = None" by (simp add: fresh)
    show "c_nodes ?C (rc_node (ref_core ?r)) = Some (node_core node)" by (simp add: fresh_ref_def n)
    show "c_procs ?C (rc_proc (ref_core ?r)) = Some (proc_core proc)" by (simp add: fresh_ref_def p)
    show "set (inorder t2) = insert a (set (pc_desc (proc_core proc)))" "set (inorder t1) = insert a (set (pc_bynode (proc_core proc)))"
      unfolding t1(2) t2(2) set_insert_pos by simp_all
    have na: "a \<notin> refs_of ?C p" using fresh by (simp add: refs_of_def)
    have fr: "rc_desc (ref_core ?r) = d" "rc_node (ref_core ?r) = n" by (simp_all add: fresh_ref_def)
    show "sorted_wrt (<) (map (\<lambda>y. if y = a then rc_desc (ref_core ?r) else cdesc ?C y) (inorder t2))"
      unfolding t2(2) fr by (rule sorted_insert_upd [OF T(4)])
        (use na T(1) d(2) in \<open>simp_all add: lowest_free_def used_descs_def del: core_of_apply\<close>)
    show "sorted_wrt (<) (map (\<lambda>y. if y = a then rc_node (ref_core ?r) else crnode ?C y) (inorder t1))"
      unfolding t1(2) fr by (rule sorted_insert_upd [OF T(5)]) (use na T(2) x in \<open>auto simp del: core_of_apply\<close>)
  qed (simp add: fresh_ref_def)
  moreover have "k_refs k5 = (k_refs k)(a \<mapsto> ?r)" by (simp add: k5_def k4_def k3_def upd_node_def upd_proc_def k2)
  moreover have "k_kzalloc k5 = k_kzalloc k1" by (simp add: k5_def k4_def k3_def k2_def upd_node_def upd_proc_def stats_created_def)
  ultimately show ?thesis using run d(2) c5 unfolding s_def i_def by blast
qed

text \<open>Giving up a count.\<close>

lemma dec_ref_step:
  assumes R: "rb_ok R" and C: "core_ok (core_of k)" and r: "k_refs k x = Some r"
    and cnt_def: "cnt = (if strong then r_strong r else r_weak r)"
    and r'_def: "r' = (if strong then r\<lparr>r_strong := r_strong r - 1\<rparr> else r\<lparr>r_weak := r_weak r - 1\<rparr>)"
  shows "\<exists>ret k'. binder_dec_ref R x strong k = Ret (ret, k') \<and> core_ok (core_of k') \<and>
    (if cnt = 0 then ret = E_INVAL \<and> k_refs k' = k_refs k
     else ret = 0 \<and> k_refs k' = (k_refs k)(x := if r_strong r' = 0 \<and> r_weak r' = 0 then None else Some r'))"
proof (cases "cnt = 0")
  case True
  then show ?thesis using C by (auto simp: binder_dec_ref_def r cnt_def core_frame)
next
  case False
  let ?C = "core_of k" and ?n = "r_node r"
  obtain node where n: "k_nodes k ?n = Some node" "x \<in> set (n_refs node)" using ref_node_live [OF C r] by blast
  have NT: "node_in_tree ?C ?n (n_proc node)" using node_in_tree_ok [OF C, of ?n "node_core node"] n(1) by simp
  define k1 where "k1 = k\<lparr>k_refs := (k_refs k)(x \<mapsto> r')\<rparr>"
  have k1: "k_nodes k1 = k_nodes k" "k_refs k1 = (k_refs k)(x \<mapsto> r')" "k_procs k1 = k_procs k" by (simp_all add: k1_def)
  have c1: "core_of k1 = ?C\<lparr>c_refs := (c_refs ?C)(x \<mapsto> ref_core r')\<rparr>" unfolding k1_def core_ref_update by simp
  have nt1: "node_in_tree (core_of k1) ?n (n_proc node)"
    by (rule node_in_tree_cong [OF NT]) (simp add: c1 del: core_of_apply)
  have rn: "r_node r' = ?n" by (simp add: r'_def)
  obtain k2 where k2: "(if strong \<and> r_strong r' = 0 then binder_dec_node R ?n True True k1 else Ret k1) = Ret k2"
    "k_refs k2 = k_refs k1" "core_of k2 = g_set_strong x (ref_core r) (r_strong r' \<noteq> 0) ?C"
  proof (cases "strong \<and> r_strong r' = 0")
    case True
    let ?d = "node_core (dec_count True True node)"
    obtain k2 where d: "binder_dec_node R ?n True True k1 = Ret k2" "k_refs k2 = k_refs k1"
      "core_of k2 = (core_of k1)\<lparr>c_nodes := (c_nodes (core_of k1))(?n \<mapsto> ?d)\<rparr>"
      using dec_node_step [OF R _ nt1, of True True] n k1 by (auto simp: Let_def simp del: core_of_apply)
    have "core_of k2 = g_set_strong x (ref_core r) False ?C"
      unfolding d(3) c1 by (rule core_eqI)
        (use True n(1) False r in \<open>auto simp: g_set_strong_def strong_diff_def dec_count_def node_core_def ref_core_def r'_def cnt_def\<close>)
    then show thesis using that [of k2] d True by simp
  next
    case A: False
    have "core_of k1 = g_set_strong x (ref_core r) (r_strong r' \<noteq> 0) ?C"
      unfolding c1 by (rule core_eqI)
        (use A False r n(1) in \<open>auto simp: g_set_strong_def strong_diff_def ref_core_def r'_def cnt_def node_core_def split: if_splits\<close>)
    then show thesis using that [of k1] A by simp
  qed
  have ok2: "core_ok (core_of k2)" unfolding k2(3) by (rule g_set_strong_ok [OF C]) (simp add: r)
  have run: "binder_dec_ref R x strong k = (if r_strong r' = 0 \<and> r_weak r' = 0
        then cbind (binder_delete_ref R x k2) (\<lambda>k. Ret (0, k)) else Ret (0, k2))"
  proof -
    have c: "(if strong then r_strong r = 0 else r_weak r = 0) = False" using False by (simp add: cnt_def split: if_splits)
    show ?thesis
      unfolding binder_dec_ref_def r of_mem_simps cbind.simps c if_False Let_def r'_def [symmetric] k1_def [symmetric] rn k2(1)
      by (rule refl)
  qed
  show ?thesis
  proof (cases "r_strong r' = 0 \<and> r_weak r' = 0")
    case True
    have x2: "k_refs k2 x = Some r'" by (simp add: k2(2) k1)
    obtain k3 where "binder_delete_ref R x k2 = Ret k3" "core_ok (core_of k3)" "k_refs k3 = (k_refs k2)(x := None)"
      using delete_ref_step [OF R ok2 x2] by blast
    then show ?thesis using run True False k2(2) k1 by simp
  next
    case A: False
    then show ?thesis using run False ok2 k2(2) k1 by auto
  qed
qed

text \<open>A new node.\<close>

lemma new_node_known:
  assumes C: "core_ok (core_of k)" and p: "k_procs k p = Some proc"
    and a: "b \<in> nodes_of (core_of k) p" "cptr (core_of k) b = ptr"
  shows "binder_new_node R p ptr cookie k = Ret (None, k)"
proof -
  note T = proc_trees [OF C p]
  have "find (\<lambda>a. cptr (core_of k) a = ptr) (inorder (p_nodes proc)) = Some b"
    by (rule find_sorted_key) (use T(3,6) a in \<open>auto simp del: core_of_apply\<close>)
  moreover have "binder_get_node p ptr k = tree_search (node_dir k ptr) (p_nodes proc)" by (simp add: binder_get_node_def p)
  ultimately have "tree_search (node_dir k ptr) (p_nodes proc) = Ret (Some b)"
    using get_node_eq [OF C p, of ptr] by metis
  then show ?thesis by (simp add: binder_new_node_def p)
qed

lemma new_node_search:
  assumes C: "core_ok (core_of k)" and p: "k_procs k p = Some proc" and x: "\<forall>b \<in> nodes_of (core_of k) p. cptr (core_of k) b \<noteq> ptr"
  shows "tree_search (node_dir k ptr) (p_nodes proc) = Ret None"
proof -
  have "find (\<lambda>a. cptr (core_of k) a = ptr) (inorder (p_nodes proc)) = None"
    by (rule find_Cons_None) (use proc_trees(3) [OF C p] x in \<open>simp del: core_of_apply\<close>)
  then show ?thesis using get_node_eq [OF C p, of ptr] by (simp add: binder_get_node_def p)
qed

lemma new_node_none:
  assumes C: "core_ok (core_of k)" and p: "k_procs k p = Some proc" and x: "\<forall>b \<in> nodes_of (core_of k) p. cptr (core_of k) b \<noteq> ptr"
    and kz: "kzalloc k = (None, k1)"
  shows "binder_new_node R p ptr cookie k = Ret (None, k1)"
  by (simp add: binder_new_node_def p new_node_search [OF C p x] kz)

lemma new_node_new:
  assumes R: "rb_ok R" and C: "core_ok (core_of k)" and p: "k_procs k p = Some proc"
    and x: "\<forall>b \<in> nodes_of (core_of k) p. cptr (core_of k) b \<noteq> ptr" and kz: "kzalloc k = (Some a, k1)" and fresh: "k_nodes k a = None"
  shows "\<exists>k'. binder_new_node R p ptr cookie k = Ret (Some a, k') \<and> core_ok (core_of k') \<and>
    k_nodes k' = (k_nodes k)(a \<mapsto> fresh_node p ptr cookie (k_last_id k + 1)) \<and> k_refs k' = k_refs k \<and>
    (\<exists>ns. core_of k' = g_add_node a p ptr cookie ns (core_of k)) \<and> k_kzalloc k' = k_kzalloc k1"
proof -
  let ?C = "core_of k"
  note T = proc_trees [OF C p] and K = kzalloc_frame [OF kz]
  have nd: "node_dir k ptr b = Ret (cmp ptr (cptr ?C b))" if "b \<in> nodes_of ?C p" for b
    using that by (auto simp: nodes_of_def node_dir_def)
  obtain t where t: "tree_link (node_dir k ptr) a (p_nodes proc) = Ret (Inr t)"
    "inorder t = takeWhile (\<lambda>x. cptr ?C x < ptr) (inorder (p_nodes proc)) @ a #
      dropWhile (\<lambda>x. cptr ?C x < ptr) (inorder (p_nodes proc))"
    using tree_link_new [of "p_nodes proc" "node_dir k ptr" ptr "cptr ?C" a] T(3,6) x nd
    by (auto simp del: core_of_apply)
  define k2 where "k2 = stats_created Stat_node k1"
  have c2: "core_of k2 = ?C" by (simp add: k2_def core_frame core_kzalloc [OF kz])
  have dir: "node_dir k2 ptr = node_dir k ptr" by (rule node_dir_cong) (simp add: k2_def stats_created_def K)
  define k3 where "k3 = upd_proc p (\<lambda>x. x\<lparr>p_nodes := rb_color R t\<rparr>) k2"
  let ?i = "k_last_id k + 1"
  have i3: "k_last_id k3 = k_last_id k" by (simp add: k3_def k2_def upd_proc_def stats_created_def K)
  let ?n = "fresh_node p ptr cookie ?i"
  let ?k' = "k3\<lparr>k_last_id := ?i, k_nodes := (k_nodes k3)(a \<mapsto> ?n)\<rparr>"
  have run: "binder_new_node R p ptr cookie k = Ret (Some a, ?k')"
    by (simp add: binder_new_node_def p new_node_search [OF C p x] kz Let_def k2_def [symmetric] dir t(1)
      k3_def [symmetric] i3)
  have c3: "core_of k3 = ?C\<lparr>c_procs := (c_procs ?C)(p := map_option (\<lambda>P. P\<lparr>pc_nodes := inorder t\<rparr>) (c_procs ?C p))\<rparr>"
    unfolding k3_def c2 [symmetric] by (rule core_upd_proc') (simp add: proc_core_def rb_okD(1) [OF R])
  have c': "core_of ?k' = g_add_node a p ptr cookie (inorder t) ?C"
  proof -
    have "core_of ?k' = (core_of k3)\<lparr>c_nodes := (c_nodes (core_of k3))(a \<mapsto> node_core ?n)\<rparr>"
      by (rule core_eqI) auto
    then show ?thesis by (simp add: c3 g_add_node_def node_core_def fresh_node_def del: core_of_apply)
  qed
  have na: "a \<notin> nodes_of ?C p" using fresh by (simp add: nodes_of_def)
  have "core_ok (core_of ?k')"
    unfolding c'
  proof (rule g_add_node_ok [OF C])
    show "c_nodes ?C a = None" by (simp add: fresh)
    show "c_procs ?C p = Some (proc_core proc)" by (simp add: p)
    show "set (inorder t) = insert a (set (pc_nodes (proc_core proc)))" unfolding t(2) set_insert_pos by simp
    show "sorted_wrt (<) (map (\<lambda>y. if y = a then ptr else cptr ?C y) (inorder t))"
      unfolding t(2) by (rule sorted_insert_upd [OF T(6)]) (use na T(3) x in \<open>auto simp del: core_of_apply\<close>)
  qed
  moreover have "k_nodes k3 = k_nodes k" "k_refs k3 = k_refs k" "k_kzalloc k3 = k_kzalloc k1"
    by (simp_all add: k3_def k2_def upd_proc_def stats_created_def K)
  ultimately show ?thesis using run c' by (intro exI [of _ ?k'] conjI exI [of _ "inorder t"]) (simp_all del: core_of_apply)
qed

text \<open>Local counts of a node, that its own process and the driver hold.\<close>

lemma inc_node_ok:
  assumes "core_ok (core_of k)" and "k_nodes k n = Some node"
  shows "\<exists>ret k'. binder_inc_node n strong False tgt k = Ret (ret, k') \<and> core_ok (core_of k') \<and> k_refs k' = k_refs k"
  using inc_node_step [OF assms(2), of strong False tgt] assms(1) by auto

lemma dec_node_ok:
  assumes R: "rb_ok R" and C: "core_ok (core_of k)" and n: "k_nodes k n = Some node"
  shows "\<exists>k'. binder_dec_node R n strong False k = Ret k' \<and> core_ok (core_of k') \<and> k_refs k' = k_refs k \<and>
    (k_nodes k' n = None \<longrightarrow> n_refs node = [])"
proof -
  have T: "node_in_tree (core_of k) n (n_proc node)" using node_in_tree_ok [OF C, of n "node_core node"] n by simp
  have same: "node_core (dec_count strong False node) = node_core node" by (simp add: dec_count_def node_core_def)
  have id: "(core_of k)\<lparr>c_nodes := (c_nodes (core_of k))(n \<mapsto> node_core node)\<rparr> = core_of k"
    by (rule core_eqI) (use n in auto)
  obtain k' where k': "binder_dec_node R n strong False k = Ret k'" "k_refs k' = k_refs k"
    "core_of k' = core_of k \<or> n_refs node = [] \<and> core_of k' = g_del_node n (node_core node) (core_of k)"
    using dec_node_step [OF R n T, of strong False] unfolding Let_def same id by blast
  have "core_ok (core_of k')" using k'(3) g_del_node_ok [OF C, of n "node_core node"] C n by auto
  moreover have "k_nodes k' n = None \<longrightarrow> n_refs node = []"
  proof
    assume "k_nodes k' n = None"
    then have "c_nodes (core_of k') n = None" by simp
    moreover have "c_nodes (core_of k) n \<noteq> None" using n by simp
    ultimately have "core_of k' \<noteq> core_of k" by (auto simp del: core_of_apply)
    then show "n_refs node = []" using k'(3) by blast
  qed
  ultimately show ?thesis using k'(1,2) by (intro exI [of _ k'] conjI)
qed

end
