(* ===== verification/Drv_View.thy ===== *)
theory Drv_View
  imports Drv_Release Drv_Refs_Correct
begin

text \<open>
  What the invariants of the whole driver look at: the graph of references with the counts behind
  it, the counters of the thread pools, the owners of threads, and the nodes that wait as work.
  Most operations leave all of this alone.
\<close>

declare set_inorder [simp del]

section \<open>Postconditions of results\<close>

text \<open>The result of a computation that always ends is looked at as a run.\<close>

named_theorems post_simps

lemma post_simps_basic [post_simps]:
  "post (Some (Ret x)) P \<longleftrightarrow> P x" "post (Some Oob) P" "post (Some Abort) P"
  "post (Some (of_mem v)) P \<longleftrightarrow> (\<forall>x. v = Some x \<longrightarrow> P x)"
  "post (Some (cbind m f)) P \<longleftrightarrow> post (Some m) (\<lambda>x. post (Some (f x)) P)"
  "post (rbind m' g) P \<longleftrightarrow> post m' (\<lambda>x. post (g x) P)"
  "post m'' (\<lambda>_. True)"
  by (auto simp: post_def cbind_Ret_iff rbind_ret_iff)

lemmas post_cbind = post_simps_basic(5) and post_mem = post_simps_basic(4) and post_Ret = post_simps_basic(1)

lemma post_simps_prod [post_simps]: "post (Some (case_prod f x)) P \<longleftrightarrow> (case x of (a, b) \<Rightarrow> post (Some (f a b)) P)"
  "post (case_prod g x) P \<longleftrightarrow> (case x of (a, b) \<Rightarrow> post (g a b) P)"
  by (cases x, simp)+

lemma post_of_cres: "(\<And>x. m = Ret x \<Longrightarrow> P x) \<Longrightarrow> post (Some m) P"
  by (simp add: post_def)

lemma post_cresD: "post (Some m) P \<Longrightarrow> m = Ret x \<Longrightarrow> P x"
  by (simp add: post_def)

section \<open>The view\<close>

definition is_node :: "work \<Rightarrow> bool" where
  "is_node w \<longleftrightarrow> (\<exists>n. w = W_node n)"

lemma is_node_simps [simp]: "is_node (W_node n)" "\<not> is_node (W_txn t)" "\<not> is_node (W_complete c)" "\<not> is_node (W_death d)"
  by (simp_all add: is_node_def)

fun nodes_on :: "kstate \<Rightarrow> loc \<Rightarrow> work list" where
  "nodes_on k (Proc_todo p) = (case k_procs k p of None \<Rightarrow> [] | Some x \<Rightarrow> filter is_node (p_todo x))"
| "nodes_on k (Thread_todo t) = (case k_threads k t of None \<Rightarrow> [] | Some x \<Rightarrow> filter is_node (th_todo x))"
| "nodes_on k (Async_todo n) = (case k_nodes k n of None \<Rightarrow> [] | Some x \<Rightarrow> filter is_node (n_async_todo x))"
| "nodes_on k (Delivered p) = (case k_procs k p of None \<Rightarrow> [] | Some x \<Rightarrow> filter is_node (p_delivered x))"

definition strong_at :: "kstate \<Rightarrow> nat \<rightharpoonup> u32" where
  "strong_at k x = map_option r_strong (k_refs k x)"

definition pool_at :: "kstate \<Rightarrow> nat \<rightharpoonup> int \<times> int \<times> int \<times> int \<times> nat tree" where
  \<comment> \<open>the threads a process may have, those asked for, started and ready, and the tree of those it has\<close>
  "pool_at k p = map_option (\<lambda>x. (p_max_threads x, p_requested x, p_started x, p_ready x, p_threads x)) (k_procs k p)"

definition owner_at :: "kstate \<Rightarrow> nat \<rightharpoonup> nat" where
  "owner_at k t = map_option th_proc (k_threads k t)"

definition entry_at :: "kstate \<Rightarrow> nat \<rightharpoonup> loc" where
  \<comment> \<open>the list a node is on\<close>
  "entry_at k n = (case k_nodes k n of None \<Rightarrow> None | Some x \<Rightarrow> n_entry x)"

record kview =
  v_core :: core
  v_mem :: "nat option list"
  v_strong :: "nat \<rightharpoonup> u32"
  v_pool :: "nat \<rightharpoonup> int \<times> int \<times> int \<times> int \<times> nat tree"
  v_owner :: "nat \<rightharpoonup> nat"
  v_entry :: "nat \<rightharpoonup> loc"
  v_work :: "loc \<Rightarrow> work list"

definition view :: "kstate \<Rightarrow> kview" where
  "view k = \<lparr>v_core = core_of k, v_mem = k_kzalloc k, v_strong = strong_at k, v_pool = pool_at k,
     v_owner = owner_at k, v_entry = entry_at k, v_work = nodes_on k\<rparr>"

lemma view_simps:
  "v_core (view k) = core_of k" "v_mem (view k) = k_kzalloc k" "v_strong (view k) = strong_at k" "v_pool (view k) = pool_at k"
  "v_owner (view k) = owner_at k" "v_entry (view k) = entry_at k" "v_work (view k) = nodes_on k"
  by (simp_all add: view_def)

lemma viewI:
  assumes "core_of k' = core_of k" "k_kzalloc k' = k_kzalloc k" "strong_at k' = strong_at k" "pool_at k' = pool_at k"
    and "owner_at k' = owner_at k" "entry_at k' = entry_at k" "nodes_on k' = nodes_on k"
  shows "view k' = view k"
  using assms by (simp add: view_def)

lemma nodes_on_cong:
  assumes "\<And>p. map_option (\<lambda>x. (filter is_node (p_todo x), filter is_node (p_delivered x))) (k_procs k' p) =
      map_option (\<lambda>x. (filter is_node (p_todo x), filter is_node (p_delivered x))) (k_procs k p)"
    and "\<And>t. map_option (\<lambda>x. filter is_node (th_todo x)) (k_threads k' t) = map_option (\<lambda>x. filter is_node (th_todo x)) (k_threads k t)"
    and "\<And>n. map_option (\<lambda>x. filter is_node (n_async_todo x)) (k_nodes k' n) = map_option (\<lambda>x. filter is_node (n_async_todo x)) (k_nodes k n)"
  shows "nodes_on k' = nodes_on k"
proof
  fix l show "nodes_on k' l = nodes_on k l"
  proof (cases l)
    case (Proc_todo p) then show ?thesis using assms(1) [of p] by (auto simp: map_option_case split: option.splits)
  next
    case (Thread_todo t) then show ?thesis using assms(2) [of t] by (auto simp: map_option_case split: option.splits)
  next
    case (Async_todo n) then show ?thesis using assms(3) [of n] by (auto simp: map_option_case split: option.splits)
  next
    case (Delivered p) then show ?thesis using assms(1) [of p] by (auto simp: map_option_case split: option.splits)
  qed
qed

section \<open>Updates that the view does not see\<close>

lemma view_fields [simp]:
  "view (k\<lparr>k_txns := a1\<rparr>) = view k" "view (k\<lparr>k_deaths := a2\<rparr>) = view k" "view (k\<lparr>k_completes := a3\<rparr>) = view k"
  "view (k\<lparr>k_mgr := a4\<rparr>) = view k" "view (k\<lparr>k_mgr_uid := a5\<rparr>) = view k" "view (k\<lparr>k_dead_nodes := a6\<rparr>) = view k"
  "view (k\<lparr>k_last_id := a7\<rparr>) = view k" "view (k\<lparr>k_tlog := a8\<rparr>) = view k" "view (k\<lparr>k_tfail := a9\<rparr>) = view k"
  "view (k\<lparr>k_nice := b1\<rparr>) = view k" "view (k\<lparr>k_fds := b2\<rparr>) = view k" "view (k\<lparr>k_fdlog := b3\<rparr>) = view k"
  "view (k\<lparr>k_created := b4\<rparr>) = view k" "view (k\<lparr>k_deleted := b5\<rparr>) = view k" "view (k\<lparr>k_log := b6\<rparr>) = view k"
  by (rule viewI; (rule nodes_on_cong)?; simp add: core_of_def strong_at_def pool_at_def owner_at_def entry_at_def fun_eq_iff)+

lemma view_stats [simp]: "view (stats_created s k) = view k" "view (stats_deleted s k) = view k" "view (complain c k) = view k"
  by (simp_all add: stats_created_def stats_deleted_def complain_def)

lemma view_upd_txn [simp]: "view (upd_txn t f k) = view k" and view_upd_death [simp]: "view (upd_death t g k) = view k"
  by (simp_all add: upd_txn_def upd_death_def)

lemma view_threads:
  assumes "\<And>t. map_option th_proc (ts t) = map_option th_proc (k_threads k t)"
    and "\<And>t. map_option (\<lambda>x. filter is_node (th_todo x)) (ts t) = map_option (\<lambda>x. filter is_node (th_todo x)) (k_threads k t)"
  shows "view (k\<lparr>k_threads := ts\<rparr>) = view k"
  using assms by (intro viewI nodes_on_cong) (simp_all add: core_of_def strong_at_def pool_at_def owner_at_def entry_at_def fun_eq_iff)

lemma view_upd_thread [simp]:
  assumes "\<And>x. th_proc (f x) = th_proc x" and "\<And>x. filter is_node (th_todo (f x)) = filter is_node (th_todo x)"
  shows "view (upd_thread t f k) = view k"
  unfolding upd_thread_def by (rule view_threads) (simp_all add: option.map_comp comp_def assms)

lemma view_upd_proc [simp]:
  assumes "\<And>x. proc_core (f x) = proc_core x" and "\<And>x. filter is_node (p_todo (f x)) = filter is_node (p_todo x)"
    and "\<And>x. filter is_node (p_delivered (f x)) = filter is_node (p_delivered x)"
    and "\<And>x. p_max_threads (f x) = p_max_threads x" "\<And>x. p_requested (f x) = p_requested x"
    and "\<And>x. p_started (f x) = p_started x" "\<And>x. p_ready (f x) = p_ready x" "\<And>x. p_threads (f x) = p_threads x"
  shows "view (upd_proc p f k) = view k"
  by (intro viewI nodes_on_cong core_upd_proc)
    (simp_all add: upd_proc_def strong_at_def pool_at_def owner_at_def entry_at_def fun_eq_iff option.map_comp comp_def assms)

lemma view_upd_node [simp]:
  assumes "\<And>x. node_core (f x) = node_core x" and "\<And>x. filter is_node (n_async_todo (f x)) = filter is_node (n_async_todo x)"
    and "\<And>x. n_entry (f x) = n_entry x"
  shows "view (upd_node n f k) = view k"
proof (intro viewI nodes_on_cong core_upd_node)
  show "entry_at (upd_node n f k) = entry_at k"
    by (rule ext) (auto simp: entry_at_def upd_node_def assms split: option.split)
qed (simp_all add: upd_node_def strong_at_def pool_at_def owner_at_def fun_eq_iff option.map_comp comp_def assms)

lemma view_upd_ref [simp]:
  assumes "\<And>x. ref_core (f x) = ref_core x" and "\<And>x. r_strong (f x) = r_strong x"
  shows "view (upd_ref r f k) = view k"
  by (intro viewI nodes_on_cong core_upd_ref)
    (simp_all add: upd_ref_def strong_at_def pool_at_def owner_at_def entry_at_def fun_eq_iff option.map_comp comp_def assms)

lemma core_simps_upd [simp]:
  "proc_core (x\<lparr>p_todo := a1\<rparr>) = proc_core x" "proc_core (x\<lparr>p_delivered := a1\<rparr>) = proc_core x"
  "proc_core (x\<lparr>p_alloc := a2\<rparr>) = proc_core x" "proc_core (x\<lparr>p_threads := a3\<rparr>) = proc_core x"
  "proc_core (x\<lparr>p_max_threads := i\<rparr>) = proc_core x" "proc_core (x\<lparr>p_requested := i\<rparr>) = proc_core x"
  "proc_core (x\<lparr>p_started := i\<rparr>) = proc_core x" "proc_core (x\<lparr>p_ready := i\<rparr>) = proc_core x"
  "node_core (y\<lparr>n_local_weak := b1\<rparr>) = node_core y" "node_core (y\<lparr>n_local_strong := b1\<rparr>) = node_core y"
  "node_core (y\<lparr>n_entry := b2\<rparr>) = node_core y" "node_core (y\<lparr>n_async_todo := b3\<rparr>) = node_core y"
  "node_core (y\<lparr>n_has_strong := c\<rparr>) = node_core y" "node_core (y\<lparr>n_pending_strong := c\<rparr>) = node_core y"
  "node_core (y\<lparr>n_has_weak := c\<rparr>) = node_core y" "node_core (y\<lparr>n_pending_weak := c\<rparr>) = node_core y"
  "node_core (y\<lparr>n_has_async := c\<rparr>) = node_core y" "node_core (y\<lparr>n_accept_fds := c\<rparr>) = node_core y"
  "node_core (y\<lparr>n_min_priority := b4\<rparr>) = node_core y"
  "ref_core (z\<lparr>r_death := d\<rparr>) = ref_core z" "ref_core (z\<lparr>r_weak := e\<rparr>) = ref_core z"
  by (simp_all add: proc_core_def node_core_def ref_core_def)

lemma view_upd_kbuf [simp]: "view (upd_kbuf p a f k) = view k"
  by (simp add: upd_kbuf_def)

text \<open>Lists: only the work of nodes is seen.\<close>

lemma view_upd_list:
  "(\<And>ws. filter is_node (f ws) = filter is_node ws) \<Longrightarrow> view (upd_list l f k) = view k"
  by (cases l) simp_all

lemma view_set_entry: "\<not> is_node w \<Longrightarrow> view (set_entry w l k) = view k"
  by (cases w) simp_all

lemma filter_remove_other: "\<not> Q w \<Longrightarrow> filter Q (remove1 w ws) = filter Q ws" "\<not> Q w \<Longrightarrow> filter (\<lambda>v. v \<noteq> w \<and> Q v) ws = filter Q ws"
  by (induction ws) auto

lemma view_lists [simp]:
  assumes "\<not> is_node w"
  shows "view (list_add_tail w l k) = view k" "view (list_del_init w k) = view k" "view (take_work l w k) = view k"
    "view (list_add w l k) = view k"
  using assms by (auto simp: list_add_tail_def list_del_init_def take_work_def list_add_def view_set_entry filter_remove_other
    intro!: view_upd_list split: option.split)

lemma view_end [simp]: "view (free_txn t k) = view k" "view (forget_txn bo k) = view k"
  by (simp_all add: free_txn_def forget_txn_def split: option.split)

section \<open>Operations that the view does not see\<close>

abbreviation unseen :: "kstate \<Rightarrow> kstate \<Rightarrow> bool" where
  "unseen k k' \<equiv> view k' = view k"

lemma unseen_set_nice [simp]: "view (binder_set_nice E th nice k) = view k"
  by (simp add: binder_set_nice_def Let_def)

lemma unseen_looper_or [simp]: "view (looper_or th bits k) = view k"
  by (simp add: looper_or_def)

lemma unseen_need_return_off [simp]: "view (need_return_off th k) = view k"
  by (simp add: need_return_off_def)

lemma unseen_target_priority [simp]: "view (target_priority A E th tx node k) = view k"
  by (simp add: target_priority_def Let_def)

lemma unseen_undo_alloc [simp]: "view (undo_alloc t c k) = view k"
  by (simp add: undo_alloc_def)

lemma unseen_log_failure [simp]: "view (log_failure i k) = view k"
  by (simp add: log_failure_def split: prod.split)

lemma unseen_pop: "post (Some (binder_pop_transaction th t k)) (unseen k)"
  by (auto simp: binder_pop_transaction_def post_simps split: option.split)

lemma post_any: "(\<And>y. m = Some y \<Longrightarrow> post (Some y) P) \<Longrightarrow> post m P"
  by (cases m) (auto simp: post_def)

lemma view_put_thread:
  "k_threads k th = Some x \<Longrightarrow> th_proc x' = th_proc x \<Longrightarrow> th_todo x' = th_todo x \<Longrightarrow>
    view (k\<lparr>k_threads := (k_threads k)(th \<mapsto> x')\<rparr>) = view k"
  by (rule view_threads) auto

lemma unseen_pop': "unseen k0 k \<Longrightarrow> post (Some (binder_pop_transaction th t k)) (unseen k0)"
  using unseen_pop [of th t k] by simp

lemma unseen_send_failed: "post (send_failed err t k) (unseen k)"
proof (rule post_any, rule send_failed.raw_induct [where P = "\<lambda>err t k y. post (Some y) (unseen k)"], goal_cases)
  case (1 _ sf err t k r)
  have IH: "post (sf err' t' k') (unseen k)" if "unseen k k'" for err' t' k'
    using post_any [OF 1(2) [of err' t' k']] that by simp
  show ?case
    unfolding 1(3) [symmetric]
    by (auto simp: post_simps Let_def view_put_thread intro!: post_weaken [OF unseen_pop' [where ?k0.0 = k]] IH split: option.split)
qed

lemma unseen_failed_reply: "post (binder_send_failed_reply A t err k) (unseen k)"
  by (auto simp: binder_send_failed_reply_def post_simps unseen_send_failed split: option.split)

lemma unseen_free_kbuf: "post (Some (free_kbuf E p a k)) (unseen k)"
  by (auto simp: free_kbuf_def post_simps intro!: post_of_cres)

lemma unseen_alloc_kbuf: "post (Some (alloc_kbuf A E q tr async k)) (\<lambda>(_, k'). unseen k k')"
  by (auto simp: alloc_kbuf_def post_simps intro!: post_of_cres)

lemma unseen_undelivered: "\<not> is_node w \<Longrightarrow> post (undelivered A w k) (unseen k)"
  by (auto simp: undelivered_def post_simps unseen_failed_reply split: work.split option.split prod.split)

lemma nodes_on_view: "view k' = view k \<Longrightarrow> nodes_on k' = nodes_on k"
  by (metis view_simps(7))

lemma unseen_release_work: "nodes_on k l = [] \<Longrightarrow> post (binder_release_work A l k) (unseen k)"
proof (rule post_any, rule binder_release_work.raw_induct [where P = "\<lambda>A l k y. nodes_on k l = [] \<longrightarrow> post (Some y) (unseen k)", rule_format], goal_cases)
  case (1 _ rw A l k r)
  have IH: "post (rw A l k') (unseen k)" if "unseen k k'" "nodes_on k l = []" for k'
  proof (rule post_any)
    fix y assume "rw A l k' = Some y"
    then show "post (Some y) (unseen k)" using 1(3) [of A l k' y] that nodes_on_view [OF that(1)] by simp
  qed
  have nn: "\<not> is_node w" if "list_of l k = Ret (w # ws)" "nodes_on k l = []" for w ws
    using that by (cases l) (auto simp: cbind_Ret_iff split: if_splits)
  have "post (rbind (undelivered A w (take_work l w k)) (rw A l)) (unseen k)"
    if "list_of l k = Ret (w # ws)" "nodes_on k l = []" for w ws
  proof -
    have u: "post (undelivered A w (take_work l w k)) (unseen k)"
      using unseen_undelivered [OF nn [OF that], of A "take_work l w k"] nn [OF that] by simp
    show ?thesis by (simp only: post_simps) (rule post_weaken [OF u], rule IH, use that in auto)
  qed
  then show ?case
    unfolding 1(4) [symmetric] using 1(5)
    by (auto simp: post_simps intro!: post_of_cres split: list.split)
qed

end
