(* ===== verification/Drv_Queue.thy ===== *)
theory Drv_Queue
  imports Drv_View
begin

text \<open>
  Nodes as work. A node is on at most one work list, its entry says which one, and that list
  belongs to the process that owns the node: its own list or that of one of its threads.
\<close>

section \<open>The invariant\<close>

definition home :: "kstate \<Rightarrow> nat \<rightharpoonup> nat option" where
  "home k m = map_option n_proc (k_nodes k m)"

definition place_of :: "kstate \<Rightarrow> nat \<Rightarrow> loc \<Rightarrow> bool" where
  "place_of k p l \<longleftrightarrow> l = Proc_todo p \<or> (\<exists>t. l = Thread_todo t \<and> owner_at k t = Some p)"

definition queue_ok :: "kstate \<Rightarrow> bool" where
  "queue_ok k \<longleftrightarrow> (\<forall>l. distinct (nodes_on k l)) \<and>
     (\<forall>l m. W_node m \<in> set (nodes_on k l) \<longleftrightarrow> entry_at k m = Some l) \<and>
     (\<forall>m l. entry_at k m = Some l \<longrightarrow> (\<exists>p. home k m = Some (Some p) \<and> place_of k p l)) \<and>
     (\<forall>m p. home k m = Some (Some p) \<longrightarrow> k_procs k p \<noteq> None)"

lemma queue_okD:
  assumes "queue_ok k"
  shows "distinct (nodes_on k l)" "W_node m \<in> set (nodes_on k l) \<longleftrightarrow> entry_at k m = Some l"
    "entry_at k m = Some l \<Longrightarrow> \<exists>p. home k m = Some (Some p) \<and> place_of k p l"
    "home k m = Some (Some p) \<Longrightarrow> k_procs k p \<noteq> None"
  using assms unfolding queue_ok_def by blast+

lemma nodes_on_nodes: "w \<in> set (nodes_on k l) \<Longrightarrow> \<exists>m. w = W_node m"
  by (cases l) (auto simp: is_node_def split: option.splits)

lemma queue_ok_async: "queue_ok k \<Longrightarrow> nodes_on k (Async_todo m) = []" "queue_ok k \<Longrightarrow> nodes_on k (Delivered p) = []"
proof -
  have *: "nodes_on k l = []" if Q: "queue_ok k" and l: "\<And>p. \<not> place_of k p l" for l
  proof (rule ccontr)
    assume "nodes_on k l \<noteq> []"
    then obtain m where "W_node m \<in> set (nodes_on k l)"
      by (metis nodes_on_nodes list.set_sel(1))
    then have "entry_at k m = Some l" using queue_okD(2) [OF Q] by simp
    then show False using queue_okD(3) [OF Q] l by blast
  qed
  show "queue_ok k \<Longrightarrow> nodes_on k (Async_todo m) = []" "queue_ok k \<Longrightarrow> nodes_on k (Delivered p) = []"
    by (rule *; simp add: place_of_def)+
qed

text \<open>What else stays the same or gets less, while nodes and references are counted down.\<close>

lemma home_core: "home k m = map_option nc_proc (c_nodes (core_of k) m)"
  by (simp add: home_def option.map_comp comp_def)

lemma procs_core: "k_procs k p = None \<longleftrightarrow> c_procs (core_of k) p = None"
  by simp

lemma queue_ok_cong:
  assumes "queue_ok k" "nodes_on k' = nodes_on k" "entry_at k' = entry_at k" "home k' = home k" "owner_at k' = owner_at k"
    and "\<And>p. k_procs k' p = None \<longleftrightarrow> k_procs k p = None"
  shows "queue_ok k'"
  using assms unfolding queue_ok_def place_of_def by simp

lemma home_view: "view k' = view k \<Longrightarrow> home k' = home k"
  by (rule ext) (metis home_core view_simps(1))

lemma procs_view: "view k' = view k \<Longrightarrow> (k_procs k' p = None) = (k_procs k p = None)"
  by (metis procs_core view_simps(1))

lemma queue_ok_view: "queue_ok k \<Longrightarrow> view k' = view k \<Longrightarrow> queue_ok k'"
  by (erule queue_ok_cong) (metis home_view view_simps procs_view)+

section \<open>Onto a list and off it\<close>

lemma entry_set_node: "entry_at (set_entry (W_node n) l k) = (if k_nodes k n = None then entry_at k else (entry_at k)(n := l))"
  by (auto simp: fun_eq_iff entry_at_def upd_node_def split: option.split)

lemma work_set_entry: "nodes_on (set_entry w l k) = nodes_on k"
  by (rule nodes_on_cong; cases w; simp add: upd_node_def upd_death_def option.map_comp comp_def)

lemma set_entry_frame:
  "home (set_entry w l k) = home k" "owner_at (set_entry w l k) = owner_at k" "pool_at (set_entry w l k) = pool_at k"
  "strong_at (set_entry w l k) = strong_at k" "k_kzalloc (set_entry w l k) = k_kzalloc k"
  by (cases w; auto simp: fun_eq_iff home_def owner_at_def pool_at_def strong_at_def upd_node_def upd_death_def option.map_comp comp_def)+

lemma upd_list_frame:
  "home (upd_list l f k) = home k" "owner_at (upd_list l f k) = owner_at k" "pool_at (upd_list l f k) = pool_at k"
  "strong_at (upd_list l f k) = strong_at k" "k_kzalloc (upd_list l f k) = k_kzalloc k" "entry_at (upd_list l f k) = entry_at k"
  by (cases l; auto simp: fun_eq_iff home_def owner_at_def pool_at_def strong_at_def entry_at_def upd_node_def upd_proc_def upd_thread_def
    option.map_comp comp_def split: option.split)+

definition list_there :: "kstate \<Rightarrow> loc \<Rightarrow> bool" where
  "list_there k l \<longleftrightarrow> (case l of Proc_todo p \<Rightarrow> k_procs k p \<noteq> None | Thread_todo t \<Rightarrow> k_threads k t \<noteq> None
     | Async_todo n \<Rightarrow> k_nodes k n \<noteq> None | Delivered p \<Rightarrow> k_procs k p \<noteq> None)"

lemma work_upd_list:
  assumes "\<And>ws. filter is_node (f ws) = g (filter is_node ws)" and "list_there k l \<or> g [] = []"
  shows "nodes_on (upd_list l f k) = (nodes_on k)(l := g (nodes_on k l))"
proof
  fix l' show "nodes_on (upd_list l f k) l' = ((nodes_on k)(l := g (nodes_on k l))) l'"
    using assms(2) by (cases l; cases l')
      (auto simp: upd_proc_def upd_thread_def upd_node_def assms(1) list_there_def split: option.split)
qed

lemma place_there: "queue_ok k \<Longrightarrow> place_of k p l \<Longrightarrow> k_procs k p \<noteq> None \<Longrightarrow> list_there k l"
  by (auto simp: place_of_def list_there_def owner_at_def)

lemma queue_put:
  assumes Q: "queue_ok k" and n: "home k n = Some (Some p)" "entry_at k n = None" and l: "place_of k p l"
  shows "queue_ok (list_add_tail (W_node n) l k)"
proof -
  let ?k = "list_add_tail (W_node n) l k"
  have nn: "k_nodes k n \<noteq> None" "k_nodes (upd_list l (\<lambda>ws. ws @ [W_node n]) k) n \<noteq> None" using n(1) by (auto simp: home_def)
  have e: "entry_at ?k = (entry_at k)(n \<mapsto> l)"
    unfolding list_add_tail_def entry_set_node using nn(2) by (simp only: if_False upd_list_frame)
  have w: "nodes_on ?k = (nodes_on k)(l := nodes_on k l @ [W_node n])"
    unfolding list_add_tail_def work_set_entry
    by (rule work_upd_list [where g = "\<lambda>ws. ws @ [W_node n]"])
      (use place_there [OF Q l] queue_okD(4) [OF Q n(1)] in auto)
  have f: "home ?k = home k" "owner_at ?k = owner_at k" "\<And>p. k_procs ?k p = None \<longleftrightarrow> k_procs k p = None"
    by (simp_all add: list_add_tail_def set_entry_frame upd_list_frame del: set_entry.simps)
  have nin: "W_node n \<notin> set (nodes_on k l')" for l' using queue_okD(2) [OF Q] n(2) by simp
  show ?thesis
    unfolding queue_ok_def f place_of_def e w
    using Q n l nin unfolding queue_ok_def place_of_def by (auto simp: fun_upd_def)
qed

lemma queue_take:
  assumes Q: "queue_ok k"
  shows "queue_ok (list_del_init (W_node n) k)" "entry_at (list_del_init (W_node n) k) = (entry_at k)(n := None)"
    "home (list_del_init (W_node n) k) = home k"
proof -
  let ?k = "list_del_init (W_node n) k"
  have eo: "entry_of (W_node n) k = entry_at k n" by (simp add: entry_at_def)
  have all: "queue_ok ?k \<and> entry_at ?k = (entry_at k)(n := None) \<and> home ?k = home k"
  proof (cases "entry_at k n")
    case None
    then have "?k = k" "(entry_at k)(n := None) = entry_at k" by (auto simp: list_del_init_def eo simp del: entry_of.simps)
    then show ?thesis using Q by (simp only:)
  next
    case (Some l)
    obtain p where p: "home k n = Some (Some p)" "place_of k p l" using queue_okD(3) [OF Q Some] by blast
    have k: "?k = set_entry (W_node n) None (upd_list l (filter (\<lambda>v. v \<noteq> W_node n)) k)"
      using Some by (simp add: list_del_init_def eo del: entry_of.simps)
    have nn: "k_nodes (upd_list l (filter (\<lambda>v. v \<noteq> W_node n)) k) n \<noteq> None" using p(1) by (auto simp: home_def)
    have e: "entry_at ?k = (entry_at k)(n := None)" unfolding k entry_set_node using nn by (simp only: if_False upd_list_frame)
    have w: "nodes_on ?k = (nodes_on k)(l := filter (\<lambda>v. v \<noteq> W_node n) (nodes_on k l))"
      unfolding k work_set_entry by (rule work_upd_list) (auto intro: filter_cong simp: conj_commute)
    have f: "home ?k = home k" "owner_at ?k = owner_at k" "\<And>p. k_procs ?k p = None \<longleftrightarrow> k_procs k p = None"
      by (simp_all add: k set_entry_frame upd_list_frame del: set_entry.simps)
    have other: "W_node n \<notin> set (nodes_on k l')" if "l' \<noteq> l" for l' using queue_okD(2) [OF Q] Some that by simp
    have "queue_ok ?k"
      unfolding queue_ok_def f place_of_def e w
      using Q other unfolding queue_ok_def place_of_def by (auto simp: fun_upd_def)
    then show ?thesis using e f by blast
  qed
  then show "queue_ok ?k" "entry_at ?k = (entry_at k)(n := None)" "home ?k = home k" by auto
qed

section \<open>The operations on nodes and references\<close>

text \<open>What these operations leave alone, but for nodes that go.\<close>

record qview =
  q_work :: "loc \<Rightarrow> work list"
  q_entry :: "nat \<rightharpoonup> loc"
  q_home :: "nat \<rightharpoonup> nat option"
  q_owner :: "nat \<rightharpoonup> nat"
  q_procs :: "nat \<Rightarrow> bool"
  q_pool :: "nat \<rightharpoonup> int \<times> int \<times> int \<times> int \<times> nat tree"
  q_mem :: "nat option list"

definition qview :: "kstate \<Rightarrow> qview" where
  "qview k = \<lparr>q_work = nodes_on k, q_entry = entry_at k, q_home = home k, q_owner = owner_at k,
     q_procs = (\<lambda>p. k_procs k p = None), q_pool = pool_at k, q_mem = k_kzalloc k\<rparr>"

lemma qview_simps:
  "q_work (qview k) = nodes_on k" "q_entry (qview k) = entry_at k" "q_home (qview k) = home k" "q_owner (qview k) = owner_at k"
  "q_procs (qview k) = (\<lambda>p. k_procs k p = None)" "q_pool (qview k) = pool_at k" "q_mem (qview k) = k_kzalloc k"
  by (simp_all add: qview_def)

lemma qviewI:
  assumes "nodes_on k' = nodes_on k" "entry_at k' = entry_at k" "home k' = home k" "owner_at k' = owner_at k"
    "\<And>p. (k_procs k' p = None) = (k_procs k p = None)" "pool_at k' = pool_at k" "k_kzalloc k' = k_kzalloc k"
  shows "qview k' = qview k"
  using assms by (simp add: qview_def)

lemma qview_view: "view k' = view k \<Longrightarrow> qview k' = qview k"
proof (rule qviewI)
  assume e: "view k' = view k"
  show "nodes_on k' = nodes_on k" "entry_at k' = entry_at k" "owner_at k' = owner_at k" "pool_at k' = pool_at k"
    "k_kzalloc k' = k_kzalloc k"
    using arg_cong [OF e, of v_work] arg_cong [OF e, of v_entry] arg_cong [OF e, of v_owner] arg_cong [OF e, of v_pool]
      arg_cong [OF e, of v_mem] by (simp_all only: view_simps)
  show "home k' = home k" by (rule home_view [OF e])
  show "(k_procs k' p = None) = (k_procs k p = None)" for p by (rule procs_view [OF e])
qed

lemma qview_fields [simp]:
  "qview (k\<lparr>k_dead_nodes := ds\<rparr>) = qview k" "qview (stats_deleted s k) = qview k" "qview (stats_created s k) = qview k"
  "qview (complain c k) = qview k" "qview (k\<lparr>k_last_id := i\<rparr>) = qview k" "qview (k\<lparr>k_deaths := de\<rparr>) = qview k"
  by (rule qview_view, simp)+

lemma qview_delete_death [simp]: "qview (delete_death d k) = qview k"
  by (rule qview_view) (simp add: delete_death_def Let_def)

lemma qview_upd_proc [simp]:
  assumes "\<And>x. filter is_node (p_todo (f x)) = filter is_node (p_todo x)"
    and "\<And>x. filter is_node (p_delivered (f x)) = filter is_node (p_delivered x)"
    and "\<And>x. p_max_threads (f x) = p_max_threads x" "\<And>x. p_requested (f x) = p_requested x"
    and "\<And>x. p_started (f x) = p_started x" "\<And>x. p_ready (f x) = p_ready x" "\<And>x. p_threads (f x) = p_threads x"
  shows "qview (upd_proc p f k) = qview k"
  by (intro qviewI nodes_on_cong)
    (auto simp: upd_proc_def pool_at_def owner_at_def entry_at_def home_def fun_eq_iff option.map_comp comp_def assms)

lemma qview_upd_node [simp]:
  assumes "\<And>x. n_proc (f x) = n_proc x" and "\<And>x. filter is_node (n_async_todo (f x)) = filter is_node (n_async_todo x)"
    and "\<And>x. n_entry (f x) = n_entry x"
  shows "qview (upd_node n f k) = qview k"
  by (intro qviewI nodes_on_cong)
    (auto simp: upd_node_def pool_at_def owner_at_def entry_at_def home_def fun_eq_iff option.map_comp comp_def assms split: option.split)

lemma qview_put_node:
  assumes "k_nodes k n = Some x" "n_proc x' = n_proc x" "n_async_todo x' = n_async_todo x" "n_entry x' = n_entry x"
  shows "qview (k\<lparr>k_nodes := (k_nodes k)(n \<mapsto> x')\<rparr>) = qview k"
  by (intro qviewI nodes_on_cong) (use assms in \<open>auto simp: pool_at_def owner_at_def entry_at_def home_def fun_eq_iff\<close>)

lemma qview_refs [simp]: "qview (k\<lparr>k_refs := rs\<rparr>) = qview k" "qview (upd_ref r f k) = qview k"
  by (intro qviewI nodes_on_cong; simp add: pool_at_def owner_at_def entry_at_def home_def fun_eq_iff upd_ref_def)+

lemma queue_ok_qview: "queue_ok k \<Longrightarrow> qview k' = qview k \<Longrightarrow> queue_ok k'"
proof (erule queue_ok_cong)
  assume e: "qview k' = qview k"
  show "nodes_on k' = nodes_on k" "entry_at k' = entry_at k" "home k' = home k" "owner_at k' = owner_at k"
    using arg_cong [OF e, of q_work] arg_cong [OF e, of q_entry] arg_cong [OF e, of q_home] arg_cong [OF e, of q_owner]
    by (simp_all only: qview_simps)
  show "(k_procs k' p = None) = (k_procs k p = None)" for p
    using arg_cong [OF e, of q_procs] by (simp add: qview_simps fun_eq_iff)
qed

definition rest :: "kstate \<Rightarrow> kstate \<Rightarrow> bool" where
  "rest k k' \<longleftrightarrow> q_mem (qview k') = q_mem (qview k) \<and> q_pool (qview k') = q_pool (qview k) \<and>
     q_owner (qview k') = q_owner (qview k) \<and> q_procs (qview k') = q_procs (qview k) \<and>
     (\<forall>m. home k' m = None \<or> home k' m = home k m)"

lemma rest_qview: "qview k' = qview k \<Longrightarrow> rest k k'"
proof -
  assume e: "qview k' = qview k"
  have "home k' = home k" using arg_cong [OF e, of q_home] by (simp only: qview_simps)
  then show ?thesis unfolding rest_def e by simp
qed

lemma rest_trans: "rest k k1 \<Longrightarrow> rest k1 k2 \<Longrightarrow> rest k k2"
  unfolding rest_def by metis

definition tidy :: "kstate \<Rightarrow> kstate \<Rightarrow> bool" where
  "tidy k k' \<longleftrightarrow> queue_ok k' \<and> rest k k'"

lemma tidy_refl: "queue_ok k \<Longrightarrow> tidy k k"
  by (simp add: tidy_def rest_def)

lemma tidyD: "tidy k k' \<Longrightarrow> queue_ok k'" "tidy k k' \<Longrightarrow> rest k k'"
  by (simp_all add: tidy_def)

lemma tidy_trans: "tidy k k1 \<Longrightarrow> tidy k1 k2 \<Longrightarrow> tidy k k2"
  unfolding tidy_def using rest_trans by blast

lemma tidy_qview: "tidy k k1 \<Longrightarrow> qview k2 = qview k1 \<Longrightarrow> tidy k k2"
  unfolding tidy_def using queue_ok_qview rest_qview rest_trans by blast

lemma tidy_put:
  assumes "queue_ok k" "home k n = Some (Some p)" "entry_at k n = None" "place_of k p l"
  shows "tidy k (list_add_tail (W_node n) l k)"
proof (unfold tidy_def, intro conjI)
  show "queue_ok (list_add_tail (W_node n) l k)" by (rule queue_put [OF assms])
  show "rest k (list_add_tail (W_node n) l k)"
    by (simp add: rest_def qview_simps list_add_tail_def set_entry_frame upd_list_frame del: set_entry.simps)
qed

lemma tidy_take:
  assumes "queue_ok k"
  shows "tidy k (list_del_init (W_node n) k)"
proof (unfold tidy_def, intro conjI)
  show "queue_ok (list_del_init (W_node n) k)" by (rule queue_take(1) [OF assms])
  show "rest k (list_del_init (W_node n) k)"
    by (simp add: rest_def qview_simps list_del_init_def set_entry_frame upd_list_frame del: set_entry.simps split: option.split)
qed

lemma tidy_drop_node:
  assumes Q: "queue_ok k" and e: "entry_at k n = None"
  shows "tidy k (k\<lparr>k_nodes := (k_nodes k)(n := None)\<rparr>)"
proof (unfold tidy_def, intro conjI)
  let ?k = "k\<lparr>k_nodes := (k_nodes k)(n := None)\<rparr>"
  have w: "nodes_on ?k = nodes_on k"
  proof
    fix l show "nodes_on ?k l = nodes_on k l" using queue_ok_async(1) [OF Q, of n] by (cases l) auto
  qed
  have en: "entry_at ?k = entry_at k" using e by (auto simp: fun_eq_iff entry_at_def)
  have h: "home ?k = (home k)(n := None)" by (auto simp: fun_eq_iff home_def)
  have o: "owner_at ?k = owner_at k" by (simp add: fun_eq_iff owner_at_def)
  show "queue_ok ?k"
    unfolding queue_ok_def w en h place_of_def o
    using Q e unfolding queue_ok_def place_of_def by auto
  show "rest k ?k" by (simp add: rest_def qview_simps h o pool_at_def fun_eq_iff)
qed

lemma tidy_free_node:
  assumes Q: "queue_ok k"
  shows "tidy k (free_node R n node k)"
proof -
  let ?k1 = "list_del_init (W_node n) k"
  let ?k2 = "case n_proc node of Some p \<Rightarrow> upd_proc p (\<lambda>x. x\<lparr>p_nodes := rb_erase R n (p_nodes x)\<rparr>) ?k1
    | None \<Rightarrow> ?k1\<lparr>k_dead_nodes := remove1 n (k_dead_nodes ?k1)\<rparr>"
  have 1: "tidy k ?k1" "entry_at ?k1 n = None" using tidy_take [OF Q, of n] queue_take(2) [OF Q, of n] by simp_all
  have q: "qview ?k2 = qview ?k1" by (cases "n_proc node") simp_all
  have e: "entry_at ?k2 n = None" using 1(2) arg_cong [OF q, of q_entry] by (simp only: qview_simps)
  have "tidy k ?k2" by (rule tidy_qview [OF 1(1) q])
  then have "tidy k (?k2\<lparr>k_nodes := (k_nodes ?k2)(n := None)\<rparr>)" using tidy_trans [OF _ tidy_drop_node [OF _ e]] tidyD(1) by blast
  then show ?thesis
    unfolding free_node_def Let_def by (rule tidy_qview) (simp only: qview_fields)
qed

lemma tidy_dec_node:
  assumes Q: "queue_ok k"
  shows "post (Some (binder_dec_node R n strong internal k)) (tidy k)"
proof (cases "k_nodes k n")
  case None
  then show ?thesis by (simp add: binder_dec_node_def post_simps)
next
  case (Some node)
  let ?node = "dec_count strong internal node"
  let ?k = "k\<lparr>k_nodes := (k_nodes k)(n \<mapsto> ?node)\<rparr>"
  have q: "qview ?k = qview k" by (rule qview_put_node [OF Some]) (simp_all add: dec_count_def)
  have t: "tidy k ?k" by (rule tidy_qview [OF tidy_refl [OF Q] q])
  have run: "binder_dec_node R n strong internal k =
    (if (if strong then n_local_strong ?node \<noteq> 0 \<or> n_internal_strong ?node \<noteq> 0 else n_local_weak ?node \<noteq> 0 \<or> n_refs ?node \<noteq> [])
     then Ret ?k
     else case n_proc ?node of
              Some p \<Rightarrow>
                if n_has_strong ?node \<or> n_has_weak ?node then
                  Ret (if n_entry ?node = None then list_add_tail (W_node n) (Proc_todo p) ?k else ?k)
                else if n_refs ?node = [] \<and> n_local_strong ?node = 0 \<and> n_local_weak ?node = 0
                then Ret (free_node R n ?node ?k) else Ret ?k
            | None \<Rightarrow>
                if n_refs ?node = [] \<and> n_local_strong ?node = 0 \<and> n_local_weak ?node = 0
                then Ret (free_node R n ?node ?k) else Ret ?k)"
    unfolding binder_dec_node_def Some of_mem_simps cbind.simps dec_count_def [symmetric] Let_def by (rule refl)
  have put: "tidy k (list_add_tail (W_node n) (Proc_todo p) ?k)" if "n_proc ?node = Some p" "n_entry ?node = None" for p
    by (rule tidy_trans [OF t tidy_put [OF tidyD(1) [OF t]]]) (use that in \<open>auto simp: home_def entry_at_def place_of_def\<close>)
  have free: "tidy k (free_node R n ?node ?k)" by (rule tidy_trans [OF t tidy_free_node [OF tidyD(1) [OF t]]])
  have if_post: "post (Some (if b then m else m')) (tidy k)" if "post (Some m) (tidy k)" "post (Some m') (tidy k)" for b m m'
    using that by simp
  have leaf: "post (Some (Ret ?k)) (tidy k)" "post (Some (Ret (free_node R n ?node ?k))) (tidy k)"
    using t free by (simp_all only: post_simps)
  show ?thesis
  proof (cases "n_proc ?node")
    case None
    show ?thesis unfolding run None option.case by (intro if_post leaf)
  next
    case (Some p)
    have "post (Some (Ret (if n_entry ?node = None then list_add_tail (W_node n) (Proc_todo p) ?k else ?k))) (tidy k)"
      using put [OF Some] t by (cases "n_entry ?node = None") (simp_all only: post_simps if_True if_False simp_thms)
    then show ?thesis unfolding run Some option.case by (intro if_post leaf)
  qed
qed

lemma tidy_delete_ref:
  assumes Q: "queue_ok k"
  shows "post (Some (binder_delete_ref R r k)) (tidy k)"
proof -
  have dec: "post (Some (binder_dec_node R n s i k')) (tidy k)" if "tidy k k'" for n s i k'
    by (rule post_weaken [OF tidy_dec_node [OF tidyD(1) [OF that]]]) (rule tidy_trans [OF that])
  have death: "qview (case d of None \<Rightarrow> k' | Some d \<Rightarrow> delete_death d k') = qview k'" for d k'
    by (cases d) simp_all
  show ?thesis
    unfolding binder_delete_ref_def Let_def post_simps
  proof (intro allI impI)
    fix x assume "k_refs k r = Some x"
    let ?k1 = "upd_proc (r_proc x) (\<lambda>y. y\<lparr>p_refs_by_desc := rb_erase R r (p_refs_by_desc y), p_refs_by_node := rb_erase R r (p_refs_by_node y)\<rparr>) k"
    have t1: "tidy k ?k1" by (rule tidy_qview [OF tidy_refl [OF Q]]) simp
    have "post (Some (if r_strong x \<noteq> 0 then binder_dec_node R (r_node x) True True ?k1 else Ret ?k1)) (tidy k)"
      using dec [OF t1] t1 by (simp add: post_simps)
    then show "post (Some (if r_strong x \<noteq> 0 then binder_dec_node R (r_node x) True True ?k1 else Ret ?k1))
      (\<lambda>k'. \<forall>xa. k_nodes k' (r_node x) = Some xa \<longrightarrow>
        post (Some (binder_dec_node R (r_node x) False True (upd_node (r_node x) (\<lambda>x. x\<lparr>n_refs := remove1 r (n_refs x)\<rparr>) k')))
          (\<lambda>xb. tidy k (stats_deleted Stat_ref ((case r_death x of None \<Rightarrow> xb | Some d \<Rightarrow> delete_death d xb)\<lparr>k_refs :=
            (k_refs (case r_death x of None \<Rightarrow> xb | Some d \<Rightarrow> delete_death d xb))(r := None)\<rparr>))))"
    proof (rule post_weaken, intro allI impI)
      fix k' assume t: "tidy k k'"
      have "tidy k (upd_node (r_node x) (\<lambda>x. x\<lparr>n_refs := remove1 r (n_refs x)\<rparr>) k')" by (rule tidy_qview [OF t]) simp
      from dec [OF this]
      show "post (Some (binder_dec_node R (r_node x) False True (upd_node (r_node x) (\<lambda>x. x\<lparr>n_refs := remove1 r (n_refs x)\<rparr>) k')))
          (\<lambda>xb. tidy k (stats_deleted Stat_ref ((case r_death x of None \<Rightarrow> xb | Some d \<Rightarrow> delete_death d xb)\<lparr>k_refs :=
            (k_refs (case r_death x of None \<Rightarrow> xb | Some d \<Rightarrow> delete_death d xb))(r := None)\<rparr>)))"
      proof (rule post_weaken)
        fix k2 assume "tidy k k2"
        then show "tidy k (stats_deleted Stat_ref ((case r_death x of None \<Rightarrow> k2 | Some d \<Rightarrow> delete_death d k2)\<lparr>k_refs :=
            (k_refs (case r_death x of None \<Rightarrow> k2 | Some d \<Rightarrow> delete_death d k2))(r := None)\<rparr>))"
          by (rule tidy_qview) (simp only: qview_fields qview_refs death)
      qed
    qed
  qed
qed

lemma tidy_dec_ref:
  assumes Q: "queue_ok k"
  shows "post (Some (binder_dec_ref R r strong k)) (\<lambda>(_, k'). tidy k k')"
proof -
  have dec: "post (Some (binder_dec_node R n s i k')) (tidy k)" if "tidy k k'" for n s i k'
    by (rule post_weaken [OF tidy_dec_node [OF tidyD(1) [OF that]]]) (rule tidy_trans [OF that])
  have del: "post (Some (binder_delete_ref R r k')) (tidy k)" if "tidy k k'" for k'
    by (rule post_weaken [OF tidy_delete_ref [OF tidyD(1) [OF that]]]) (rule tidy_trans [OF that])
  have c: "tidy k (complain c k)" for c by (rule tidy_qview [OF tidy_refl [OF Q]]) simp
  have last: "post (Some (if b then cbind (binder_delete_ref R r k') (\<lambda>k. Ret (0, k)) else Ret (0, k'))) (\<lambda>(_, k'). tidy k k')"
    if "tidy k k'" for b k'
    using that del [OF that] by (cases b) (simp_all add: post_simps)
  show ?thesis
    unfolding binder_dec_ref_def Let_def post_simps
  proof (intro allI impI)
    fix x assume "k_refs k r = Some x"
    let ?x = "if strong then x\<lparr>r_strong := r_strong x - 1\<rparr> else x\<lparr>r_weak := r_weak x - 1\<rparr>"
    let ?k = "k\<lparr>k_refs := (k_refs k)(r \<mapsto> ?x)\<rparr>"
    have t: "tidy k ?k" by (rule tidy_qview [OF tidy_refl [OF Q]]) simp
    have "post (Some (if strong \<and> r_strong ?x = 0 then binder_dec_node R (r_node x) True True ?k else Ret ?k)) (tidy k)"
    proof (cases "strong \<and> r_strong ?x = 0")
      case True
      show ?thesis unfolding if_P [OF True] by (rule dec [OF t])
    next
      case False
      show ?thesis unfolding if_not_P [OF False] post_simps by (rule t)
    qed
    from post_bind [of "Some _", OF this last]
    have "post (Some (cbind (if strong \<and> r_strong ?x = 0 then binder_dec_node R (r_node x) True True ?k else Ret ?k) (\<lambda>k.
        if r_strong ?x = 0 \<and> r_weak ?x = 0 then cbind (binder_delete_ref R r k) (\<lambda>k. Ret (0, k)) else Ret (0, k)))) (\<lambda>(_, k'). tidy k k')"
      by (simp only: post_simps)
    note H = this
    show "post (Some (if (if strong then r_strong x = 0 else r_weak x = 0)
       then Ret (E_INVAL, complain ((if strong then Invalid_dec_strong else Invalid_dec_weak) (r_debug_id x)) k)
       else cbind (if strong \<and> r_strong ?x = 0 then binder_dec_node R (r_node x) True True ?k else Ret ?k) (\<lambda>k.
         if r_strong ?x = 0 \<and> r_weak ?x = 0 then cbind (binder_delete_ref R r k) (\<lambda>k. Ret (0, k)) else Ret (0, k)))) (\<lambda>(_, k'). tidy k k')"
    proof (cases "if strong then r_strong x = 0 else r_weak x = 0")
      case True
      show ?thesis unfolding if_P [OF True] post_simps prod.case by (rule c)
    next
      case False
      show ?thesis unfolding if_not_P [OF False] by (rule H)
    qed
  qed
qed

lemma qview_inc_node: "post (Some (binder_inc_node n strong internal None k)) (\<lambda>(_, k'). qview k' = qview k)"
  by (auto simp: binder_inc_node_def post_simps Let_def)

lemma qview_inc_ref: "post (Some (binder_inc_ref r strong None k)) (\<lambda>(_, k'). qview k' = qview k)"
  by (auto simp: binder_inc_ref_def post_simps intro!: post_weaken [OF qview_inc_node])

text \<open>To the list of a thread of the process that owns the node.\<close>

lemma tidy_inc_node:
  assumes Q: "queue_ok k" and h: "home k n = Some (Some p)" and l: "place_of k p l"
  shows "post (Some (binder_inc_node n strong internal (Some l) k)) (\<lambda>(_, k'). tidy k k')"
proof -
  have put: "tidy k (list_add_tail (W_node n) l k')" if t: "tidy k k'" and h': "home k' n = home k n" and e: "entry_at k' n = None" for k'
  proof (rule tidy_trans [OF t tidy_put [OF tidyD(1) [OF t] _ e]])
    show "home k' n = Some (Some p)" using h h' by simp
    show "place_of k' p l" using l tidyD(2) [OF t] by (simp add: place_of_def rest_def qview_simps)
  qed
  have same: "tidy k k'" if "qview k' = qview k" for k' by (rule tidy_qview [OF tidy_refl [OF Q] that])
  have take_put: "tidy k (list_add_tail (W_node n) l (list_del_init (W_node n) k'))" if q: "qview k' = qview k" for k'
  proof -
    have Q': "queue_ok k'" by (rule tidyD(1) [OF same [OF q]])
    have h': "home k' = home k" using arg_cong [OF q, of q_home] by (simp only: qview_simps)
    show ?thesis
      by (rule put [OF tidy_trans [OF same [OF q] tidy_take [OF Q']]]) (simp_all add: queue_take [OF Q'] h')
  qed
  have add: "tidy k (list_add_tail (W_node n) l k')" if q: "qview k' = qview k" and e: "entry_at k n = None" for k'
  proof (rule put [OF same [OF q]])
    show "home k' n = home k n" "entry_at k' n = None"
      using arg_cong [OF q, of q_home] arg_cong [OF q, of q_entry] e by (simp_all only: qview_simps)
  qed
  show ?thesis
    unfolding binder_inc_node_def post_simps Let_def
    using same take_put add by (auto simp: post_simps entry_at_def)
qed

lemma tidy_inc_ref:
  assumes Q: "queue_ok k" and l: "place_of k p l" and r: "\<And>x. k_refs k r = Some x \<Longrightarrow> home k (r_node x) = Some (Some p)"
  shows "post (Some (binder_inc_ref r strong (Some l) k)) (\<lambda>(_, k'). tidy k k')"
proof -
  have same: "tidy k (upd_ref r f k')" if "tidy k k'" for f k' by (rule tidy_qview [OF that]) simp
  have step: "post (Some (if b then binder_inc_node (r_node x) s True (Some l) k else Ret (0, k)))
      (\<lambda>x. case x of (e, k2) \<Rightarrow> post (Some (if e \<noteq> 0 then Ret (e, k2) else Ret (0, upd_ref r f k2))) (\<lambda>(_, y). tidy k y))"
    if "k_refs k r = Some x" for b x f s
  proof (rule post_weaken)
    show "post (Some (if b then binder_inc_node (r_node x) s True (Some l) k else Ret (0, k))) (\<lambda>(_, k'). tidy k k')"
      using tidy_inc_node [OF Q r [OF that] l] tidy_refl [OF Q] by (simp add: post_simps)
  qed (auto simp: post_simps same)
  show ?thesis
    unfolding binder_inc_ref_def post_simps
    by (intro allI impI, cases strong) (simp_all only: if_True if_False post_simps step)
qed

section \<open>New references and nodes\<close>

lemma qview_kzalloc: "kzalloc k = (a, k1) \<Longrightarrow> qview k1 = (qview k)\<lparr>q_mem := k_kzalloc k1\<rparr>"
proof -
  have "qview (k\<lparr>k_kzalloc := as\<rparr>) = (qview k)\<lparr>q_mem := as\<rparr>" for as
  proof -
    have "nodes_on (k\<lparr>k_kzalloc := as\<rparr>) = nodes_on k" by (rule nodes_on_cong) simp_all
    moreover have "entry_at (k\<lparr>k_kzalloc := as\<rparr>) = entry_at k" "home (k\<lparr>k_kzalloc := as\<rparr>) = home k"
      "owner_at (k\<lparr>k_kzalloc := as\<rparr>) = owner_at k" "pool_at (k\<lparr>k_kzalloc := as\<rparr>) = pool_at k"
      by (simp_all add: fun_eq_iff entry_at_def home_def owner_at_def pool_at_def)
    ultimately show ?thesis by (simp add: qview_def)
  qed
  then show "kzalloc k = (a, k1) \<Longrightarrow> qview k1 = (qview k)\<lparr>q_mem := k_kzalloc k1\<rparr>"
    by (cases "k_kzalloc k") (auto simp: kzalloc_def qview_def)
qed

lemma qview_get_ref:
  "post (Some (binder_get_ref_for_node R p n k)) (\<lambda>(_, k'). qview k' = qview k \<or> qview k' = qview (snd (kzalloc k)))"
  by (auto simp: binder_get_ref_for_node_def post_simps Let_def intro!: post_of_cres split: option.split sum.split prod.split)

end
