(* ===== verification/Drv_Refs_Claims.thy ===== *)
theory Drv_Refs_Claims
  imports Drv_Refs_Correct Drv_Procs
begin

text \<open>
  The properties of nodes and references over all sequences of the driver's operations on them,
  from the state at boot.
\<close>

section \<open>Runs\<close>

definition booted :: "kstate \<Rightarrow> bool" where
  "booted k \<longleftrightarrow> k_procs k = Map.empty \<and> k_nodes k = Map.empty \<and> k_refs k = Map.empty \<and> k_mgr k = None"

definition fresh_addr :: "kstate \<Rightarrow> bool" where
  \<comment> \<open>what \<open>kzalloc\<close> gives next, if anything, is not the address of an object\<close>
  "fresh_addr k \<longleftrightarrow> (case fst (kzalloc k) of None \<Rightarrow> True
     | Some a \<Rightarrow> k_procs k a = None \<and> k_nodes k a = None \<and> k_refs k a = None)"

definition few_refs :: "nat \<Rightarrow> kstate \<Rightarrow> bool" where
  \<comment> \<open>a process has fewer references than there are descriptors\<close>
  "few_refs p k \<longleftrightarrow> (case k_procs k p of None \<Rightarrow> True | Some proc \<Rightarrow> length (inorder (p_refs_by_desc proc)) < 2 ^ 32 - 2)"

inductive refs_run :: "rb_env \<Rightarrow> kstate \<Rightarrow> bool" for R where
  boot: "booted k \<Longrightarrow> refs_run R k"
| memory: "refs_run R k \<Longrightarrow> refs_run R (k\<lparr>k_kzalloc := as\<rparr>)"
| opened: "refs_run R k \<Longrightarrow> fresh_addr k \<Longrightarrow> drv_open pid nice k = (e, r, k') \<Longrightarrow> refs_run R k'"
| mgr: "refs_run R k \<Longrightarrow> fresh_addr k \<Longrightarrow> k_procs k p \<noteq> None \<Longrightarrow>
    binder_ioctl_set_ctx_mgr R p uid k = Ret (e, k') \<Longrightarrow> refs_run R k'"
| new_node: "refs_run R k \<Longrightarrow> fresh_addr k \<Longrightarrow> k_procs k p \<noteq> None \<Longrightarrow>
    binder_new_node R p ptr cookie k = Ret (r, k') \<Longrightarrow> refs_run R k'"
| get_ref: "refs_run R k \<Longrightarrow> fresh_addr k \<Longrightarrow> few_refs p k \<Longrightarrow> k_procs k p \<noteq> None \<Longrightarrow> k_nodes k n \<noteq> None \<Longrightarrow>
    binder_get_ref_for_node R p n k = Ret (r, k') \<Longrightarrow> refs_run R k'"
| inc_ref: "refs_run R k \<Longrightarrow> k_refs k x = Some r \<Longrightarrow> strong \<longrightarrow> r_strong r \<noteq> - 1 \<Longrightarrow>
    binder_inc_ref x strong tgt k = Ret (e, k') \<Longrightarrow> refs_run R k'"
| dec_ref: "refs_run R k \<Longrightarrow> k_refs k x \<noteq> None \<Longrightarrow> binder_dec_ref R x strong k = Ret (e, k') \<Longrightarrow> refs_run R k'"
| delete_ref: "refs_run R k \<Longrightarrow> k_refs k x \<noteq> None \<Longrightarrow> binder_delete_ref R x k = Ret k' \<Longrightarrow> refs_run R k'"
| inc_node: "refs_run R k \<Longrightarrow> k_nodes k n \<noteq> None \<Longrightarrow> binder_inc_node n strong False tgt k = Ret (e, k') \<Longrightarrow> refs_run R k'"
| dec_node: "refs_run R k \<Longrightarrow> k_nodes k n \<noteq> None \<Longrightarrow> binder_dec_node R n strong False k = Ret k' \<Longrightarrow> refs_run R k'"

section \<open>Every operation keeps the graph consistent\<close>

lemma core_ok_boot: "booted k \<Longrightarrow> core_ok (core_of k)"
  by (simp add: booted_def core_ok_def)

lemma core_ok_open:
  assumes C: "core_ok (core_of k)" and f: "fresh_addr k" and o': "drv_open pid nice k = (e, r, k')"
  shows "core_ok (core_of k')"
proof (cases "kzalloc k")
  case (Pair a k1)
  have c1: "core_of k1 = core_of k" by (rule core_kzalloc [OF Pair])
  show ?thesis
  proof (cases a)
    case None
    then show ?thesis using o' Pair C c1 by (simp add: drv_open_def)
  next
    case (Some a)
    let ?P = "proc_core (fresh_proc pid nice)"
    have fa: "k_procs k a = None" using f Pair Some by (simp add: fresh_addr_def)
    have c': "core_of k' = (core_of k)\<lparr>c_procs := (c_procs (core_of k))(a \<mapsto> ?P)\<rparr>" (is "_ = ?D")
    proof (rule core_eqI)
      fix x
      have "c_refs (core_of k') x = c_refs (core_of k1) x" "c_nodes (core_of k') x = c_nodes (core_of k1) x"
        "c_procs (core_of k') x = (if x = a then Some ?P else c_procs (core_of k1) x)"
        using o' Pair Some by (auto simp: drv_open_def stats_created_def)
      then show "c_refs (core_of k') x = c_refs ?D x" "c_nodes (core_of k') x = c_nodes ?D x" "c_procs (core_of k') x = c_procs ?D x"
        unfolding c1 by (simp_all del: core_of_apply)
    qed
    have e: "refs_of ?D p = refs_of (core_of k) p" "nodes_of ?D p = nodes_of (core_of k) p" for p
      by (simp_all add: refs_of_def nodes_of_def del: core_of_apply)
    have none: "refs_of (core_of k) a = {}" "nodes_of (core_of k) a = {}"
    proof -
      have "c_procs (core_of k) a = None" using fa by simp
      then show "refs_of (core_of k) a = {}" "nodes_of (core_of k) a = {}"
        using core_okD(2,3) [OF C] by (fastforce simp: refs_of_def nodes_of_def ref_ok_def node_ok_def simp del: core_of_apply)+
    qed
    have "proc_ok ?D p P" if "c_procs ?D p = Some P" for p P
    proof (cases "p = a")
      case True
      then have P: "P = ?P" using that by simp
      have "pc_desc ?P = []" "pc_bynode ?P = []" "pc_nodes ?P = []" by (simp_all add: fresh_proc_def)
      then show ?thesis unfolding P proc_ok_def e True none by simp
    next
      case False
      then have "c_procs (core_of k) p = Some P" using that by simp
      then have "proc_ok (core_of k) p P" by (rule core_okD(1) [OF C])
      then show ?thesis by (simp add: proc_ok_def e del: core_of_apply)
    qed
    moreover have "node_ok ?D b n" if "c_nodes ?D b = Some n" for b n
    proof -
      have "node_ok (core_of k) b n" using that by (intro core_okD(2) [OF C]) simp
      moreover have "strong_refs ?D xs = strong_refs (core_of k) xs" for xs by (simp add: strong_refs_def)
      ultimately show ?thesis by (auto simp: node_ok_def simp del: core_of_apply)
    qed
    moreover have "ref_ok ?D x s" if "c_refs ?D x = Some s" for x s
    proof -
      have "ref_ok (core_of k) x s" using that by (intro core_okD(3) [OF C]) simp
      then show ?thesis by (auto simp: ref_ok_def simp del: core_of_apply)
    qed
    ultimately show ?thesis unfolding c' by (simp add: core_ok_def del: core_of_apply)
  qed
qed

lemma new_node_ok:
  assumes R: "rb_ok R" and C: "core_ok (core_of k)" and f: "fresh_addr k" and p: "k_procs k p = Some proc"
  shows "\<exists>r k'. binder_new_node R p ptr cookie k = Ret (r, k') \<and> core_ok (core_of k')"
proof (cases "\<exists>b \<in> nodes_of (core_of k) p. cptr (core_of k) b = ptr")
  case True
  then show ?thesis using new_node_known [OF C p] C by blast
next
  case False
  then have x: "\<forall>b \<in> nodes_of (core_of k) p. cptr (core_of k) b \<noteq> ptr" by blast
  obtain a k1 where kz: "kzalloc k = (a, k1)" by fastforce
  show ?thesis
  proof (cases a)
    case None
    then show ?thesis using new_node_none [OF C p x, of k1] kz C core_kzalloc [OF kz] by simp
  next
    case (Some a')
    then have "k_nodes k a' = None" using f kz by (simp add: fresh_addr_def)
    then show ?thesis using new_node_new [OF R C p x, of a' k1] kz Some by blast
  qed
qed

lemma get_ref_ok:
  assumes R: "rb_ok R" and C: "core_ok (core_of k)" and f: "fresh_addr k" and few: "few_refs p k"
    and p: "k_procs k p = Some proc" and n: "k_nodes k n = Some node"
  shows "\<exists>r k'. binder_get_ref_for_node R p n k = Ret (r, k') \<and> core_ok (core_of k')"
proof (cases "\<exists>x \<in> refs_of (core_of k) p. crnode (core_of k) x = n")
  case True
  then show ?thesis using get_ref_for_node_found [OF C p] C by blast
next
  case False
  then have x: "\<forall>x \<in> refs_of (core_of k) p. crnode (core_of k) x \<noteq> n" by blast
  obtain a k1 where kz: "kzalloc k = (a, k1)" by fastforce
  show ?thesis
  proof (cases a)
    case None
    then show ?thesis using get_ref_for_node_none [OF R C p x, of k1] kz C core_kzalloc [OF kz] by simp
  next
    case (Some a')
    then have "k_refs k a' = None" using f kz by (simp add: fresh_addr_def)
    moreover have "length (inorder (p_refs_by_desc proc)) < 2 ^ 32 - 2" using few p by (simp add: few_refs_def)
    ultimately show ?thesis using get_ref_for_node_new [OF R C p n x, of a' k1] kz Some by blast
  qed
qed

lemma core_upd_node_frame: "(\<And>n. node_core (f n) = node_core n) \<Longrightarrow> core_of (upd_node a f (k\<lparr>k_mgr := m\<rparr>)) = core_of k"
  by (rule core_eqI) (auto simp: upd_node_def option.map_comp comp_def)

lemma set_ctx_mgr_ok:
  assumes R: "rb_ok R" and C: "core_ok (core_of k)" and f: "fresh_addr k" and p: "k_procs k p = Some proc"
  shows "\<exists>e k'. binder_ioctl_set_ctx_mgr R p uid k = Ret (e, k') \<and> core_ok (core_of k')"
proof -
  have node: "\<exists>e k'. cbind (binder_new_node R p 0 0 k) (\<lambda>(node, k).
              let k = k\<lparr>k_mgr := node\<rparr>
              in case node of
                   None \<Rightarrow> Ret (E_NOMEM, k)
                 | Some n \<Rightarrow> Ret (0, upd_node n (\<lambda>x. x\<lparr>n_local_weak := n_local_weak x + 1,
                     n_local_strong := n_local_strong x + 1, n_has_strong := True, n_has_weak := True\<rparr>) k)) = Ret (e, k') \<and> core_ok (core_of k')"
    if C: "core_ok (core_of k)" and f: "fresh_addr k" and p: "k_procs k p = Some proc" for k
  proof -
    obtain r k' where r: "binder_new_node R p 0 0 k = Ret (r, k')" "core_ok (core_of k')"
      using new_node_ok [OF R C f p] by blast
    have "core_of (k'\<lparr>k_mgr := None\<rparr>) = core_of k'" by (rule core_eqI) simp_all
    then show ?thesis using r by (cases r) (auto simp: core_upd_node_frame node_core_def)
  qed
  let ?k = "k\<lparr>k_mgr_uid := Some uid\<rparr>"
  have same: "core_of ?k = core_of k" "fresh_addr ?k = fresh_addr k" "k_procs ?k = k_procs k"
    by (rule core_eqI) (simp_all add: fresh_addr_def kzalloc_def split: list.split option.split)
  have k: "core_ok (core_of ?k)" "fresh_addr ?k" "k_procs ?k p = Some proc" using C f p same by simp_all
  show ?thesis
    using node [OF k] node [OF C f p] C
    by (auto simp: binder_ioctl_set_ctx_mgr_def core_frame simp del: core_of_apply split: option.split)
qed

lemma returns_core_ok:
  "\<exists>r k'. m = Ret (r, k') \<and> core_ok (core_of k') \<Longrightarrow> m = Ret (r1, k1) \<Longrightarrow> core_ok (core_of k1)"
  "\<exists>k'. m' = Ret k' \<and> core_ok (core_of k') \<Longrightarrow> m' = Ret k1 \<Longrightarrow> core_ok (core_of k1)"
  by auto

lemma inc_ref_ok:
  assumes C: "core_ok (core_of k)" and r: "k_refs k x = Some r" and ov: "strong \<longrightarrow> r_strong r \<noteq> - 1"
  shows "\<exists>e k'. binder_inc_ref x strong tgt k = Ret (e, k') \<and> core_ok (core_of k')"
proof -
  obtain e k' where i: "binder_inc_ref x strong tgt k = Ret (e, k')"
    "core_of k' = (if e = 0 \<and> strong then g_set_strong x (ref_core r) True (core_of k) else core_of k)"
    using inc_ref_step [OF C r ov] by blast
  have "core_ok (g_set_strong x (ref_core r) True (core_of k))" by (rule g_set_strong_ok [OF C]) (simp add: r)
  then show ?thesis using i C by auto
qed

lemma refs_run_ok:
  assumes R: "rb_ok R" and "refs_run R k"
  shows "core_ok (core_of k)"
  using assms(2)
proof induction
  case (boot k) then show ?case by (rule core_ok_boot)
next
  case (memory k as) then show ?case by (simp add: core_frame del: core_of_apply)
next
  case (opened k pid nice e r k')
  show ?case by (rule core_ok_open [OF opened.IH opened.hyps(2,3)])
next
  case (mgr k p uid e k')
  obtain proc where "k_procs k p = Some proc" using mgr.hyps by blast
  then show ?case by (intro returns_core_ok(1) [OF set_ctx_mgr_ok [OF R mgr.IH mgr.hyps(2)] mgr.hyps(4)])
next
  case (new_node k p ptr cookie r k')
  obtain proc where "k_procs k p = Some proc" using new_node.hyps by blast
  then show ?case by (intro returns_core_ok(1) [OF new_node_ok [OF R new_node.IH new_node.hyps(2)] new_node.hyps(4)])
next
  case (get_ref k p n r k')
  obtain proc node where "k_procs k p = Some proc" "k_nodes k n = Some node" using get_ref.hyps by blast
  then show ?case
    by (intro returns_core_ok(1) [OF get_ref_ok [OF R get_ref.IH get_ref.hyps(2,3)] get_ref.hyps(6)])
next
  case (inc_ref k x r strong tgt e k')
  show ?case by (rule returns_core_ok(1) [OF inc_ref_ok [OF inc_ref.IH inc_ref.hyps(2,3)] inc_ref.hyps(4)])
next
  case (dec_ref k x strong e k')
  obtain r where r: "k_refs k x = Some r" using dec_ref.hyps by blast
  have "\<exists>e k'. binder_dec_ref R x strong k = Ret (e, k') \<and> core_ok (core_of k')"
    using dec_ref_step [OF R dec_ref.IH r refl refl, of strong] by blast
  then show ?case by (rule returns_core_ok(1)) (rule dec_ref.hyps(3))
next
  case (delete_ref k x k')
  obtain r where r: "k_refs k x = Some r" using delete_ref.hyps by blast
  have "\<exists>k'. binder_delete_ref R x k = Ret k' \<and> core_ok (core_of k')"
    using delete_ref_step [OF R delete_ref.IH r] by blast
  then show ?case by (rule returns_core_ok(2)) (rule delete_ref.hyps(3))
next
  case (inc_node k n strong tgt e k')
  obtain node where n: "k_nodes k n = Some node" using inc_node.hyps by blast
  have "\<exists>e k'. binder_inc_node n strong False tgt k = Ret (e, k') \<and> core_ok (core_of k')"
    using inc_node_ok [OF inc_node.IH n] by blast
  then show ?case by (rule returns_core_ok(1)) (rule inc_node.hyps(3))
next
  case (dec_node k n strong k')
  obtain node where n: "k_nodes k n = Some node" using dec_node.hyps by blast
  have "\<exists>k'. binder_dec_node R n strong False k = Ret k' \<and> core_ok (core_of k')"
    using dec_node_ok [OF R dec_node.IH n] by blast
  then show ?case by (rule returns_core_ok(2)) (rule dec_node.hyps(3))
qed

section \<open>What the graph says about a reference and a node\<close>

lemma strong_refs_card:
  assumes C: "core_ok (core_of k)" and n: "k_nodes k n = Some node"
  shows "set (n_refs node) = {y. \<exists>s. k_refs k y = Some s \<and> r_node s = n}" (is "?A = ?B")
    and "strong_refs (core_of k) (n_refs node) = card {y. \<exists>s. k_refs k y = Some s \<and> r_node s = n \<and> r_strong s \<noteq> 0}"
proof -
  have N: "node_ok (core_of k) n (node_core node)" by (rule core_okD(2) [OF C]) (simp add: n)
  show AB: "?A = ?B"
  proof
    show "?A \<subseteq> ?B" using N by (fastforce simp: node_ok_def)
    show "?B \<subseteq> ?A"
    proof
      fix y assume "y \<in> ?B"
      then obtain s where s: "k_refs k y = Some s" "r_node s = n" by blast
      then have "ref_ok (core_of k) y (ref_core s)" by (intro core_okD(3) [OF C]) simp
      then show "y \<in> ?A" using s n by (auto simp: ref_ok_def)
    qed
  qed
  have "strong_refs (core_of k) (n_refs node) = card (set (filter (\<lambda>x. rc_strong (the (c_refs (core_of k) x))) (n_refs node)))"
    unfolding strong_refs_def using N by (intro distinct_card [symmetric] distinct_filter) (simp add: node_ok_def)
  also have "set (filter (\<lambda>x. rc_strong (the (c_refs (core_of k) x))) (n_refs node)) =
      {y. \<exists>s. k_refs k y = Some s \<and> r_node s = n \<and> r_strong s \<noteq> 0}"
    using AB by fastforce
  finally show "strong_refs (core_of k) (n_refs node) = card {y. \<exists>s. k_refs k y = Some s \<and> r_node s = n \<and> r_strong s \<noteq> 0}" .
qed

lemma get_ref_found:
  assumes C: "core_ok (core_of k)" and r: "k_refs k x = Some r"
  shows "binder_get_ref (r_proc r) (r_desc r) k = Ret (Some x)"
proof -
  have "ref_ok (core_of k) x (ref_core r)" by (rule core_okD(3) [OF C]) (simp add: r)
  then obtain proc where p: "k_procs k (r_proc r) = Some proc" by (auto simp: ref_ok_def)
  note T = proc_trees [OF C p]
  have "find (\<lambda>x. cdesc (core_of k) x = r_desc r) (inorder (p_refs_by_desc proc)) = Some x"
    by (rule find_sorted_key) (use T(1,4) r in \<open>auto simp: refs_of_def\<close>)
  then show ?thesis using get_ref_eq [OF C p] by simp
qed

section \<open>Properties\<close>

text \<open>
  In every state that the driver's operations on nodes and references reach, a reference is
  found again in its process under its descriptor, it is the only reference of the process to its
  node, and its node exists and has it on its list: no reference dangles.
\<close>

theorem references_consistent:
  assumes "rb_ok R" and "refs_run R k" and "k_refs k x = Some r"
  shows "binder_get_ref (r_proc r) (r_desc r) k = Ret (Some x) \<and>
    binder_get_ref_for_node R (r_proc r) (r_node r) k = Ret (Some x, k) \<and>
    (\<exists>node. k_nodes k (r_node r) = Some node \<and> x \<in> set (n_refs node))"
proof -
  have C: "core_ok (core_of k)" by (rule refs_run_ok [OF assms(1,2)])
  have "ref_ok (core_of k) x (ref_core r)" by (rule core_okD(3) [OF C]) (simp add: assms(3))
  then obtain proc where p: "k_procs k (r_proc r) = Some proc" by (auto simp: ref_ok_def)
  have "binder_get_ref_for_node R (r_proc r) (r_node r) k = Ret (Some x, k)"
    by (rule get_ref_for_node_found [OF C p]) (use assms(3) in \<open>auto simp: refs_of_def\<close>)
  then show ?thesis using get_ref_found [OF C assms(3)] ref_node_live [OF C assms(3)] by metis
qed

text \<open>
  The count of internal strong references of a node is the number of references to it whose
  own strong count is not zero, and its list holds exactly the references to it.
\<close>

theorem node_counts_references:
  assumes "rb_ok R" and "refs_run R k" and "k_nodes k n = Some node"
  shows "n_internal_strong node = of_nat (card {y. \<exists>s. k_refs k y = Some s \<and> r_node s = n \<and> r_strong s \<noteq> 0}) \<and>
    set (n_refs node) = {y. \<exists>s. k_refs k y = Some s \<and> r_node s = n}"
proof -
  have C: "core_ok (core_of k)" by (rule refs_run_ok [OF assms(1,2)])
  have "node_ok (core_of k) n (node_core node)" by (rule core_okD(2) [OF C]) (simp add: assms(3))
  then show ?thesis using strong_refs_card [OF C assms(3)] by (simp add: node_ok_def)
qed

text \<open>
  C39. Asked for a reference of a process to a node, the driver returns the one there is, changing
  nothing; otherwise, unless there is no memory, it makes a new one without counts whose
  descriptor is the lowest that the process does not use, from zero for the context manager and
  from one for any other node.
\<close>

theorem reference_for_node:
  assumes "rb_ok R" and "refs_run R k" and "fresh_addr k" and "few_refs p k" and "k_procs k p \<noteq> None" and "k_nodes k n \<noteq> None"
  shows "if \<exists>x r. k_refs k x = Some r \<and> r_proc r = p \<and> r_node r = n
    then \<exists>x r. binder_get_ref_for_node R p n k = Ret (Some x, k) \<and> k_refs k x = Some r \<and> r_proc r = p \<and> r_node r = n
    else case kzalloc k of
        (None, k') \<Rightarrow> binder_get_ref_for_node R p n k = Ret (None, k')
      | (Some a, _) \<Rightarrow> \<exists>k' d. binder_get_ref_for_node R p n k = Ret (Some a, k') \<and>
          lowest_free (if k_mgr k = Some n then 0 else 1) {r_desc r | x r. k_refs k x = Some r \<and> r_proc r = p} d \<and>
          k_refs k' = (k_refs k)(a \<mapsto> fresh_ref p n d (k_last_id k + 1))"
proof -
  have C: "core_ok (core_of k)" by (rule refs_run_ok [OF assms(1,2)])
  obtain proc node where p: "k_procs k p = Some proc" and n: "k_nodes k n = Some node" using assms(5,6) by blast
  have used: "used_descs k p = {r_desc r | x r. k_refs k x = Some r \<and> r_proc r = p}"
    by (force simp: used_descs_def refs_of_def)
  show ?thesis
  proof (cases "\<exists>x r. k_refs k x = Some r \<and> r_proc r = p \<and> r_node r = n")
    case True
    then obtain x r where x: "k_refs k x = Some r" "r_proc r = p" "r_node r = n" by blast
    then have "binder_get_ref_for_node R p n k = Ret (Some x, k)"
      by (intro get_ref_for_node_found [OF C p]) (auto simp: refs_of_def)
    then show ?thesis using x by auto
  next
    case False
    then have x: "\<forall>x \<in> refs_of (core_of k) p. crnode (core_of k) x \<noteq> n" by (fastforce simp: refs_of_def)
    obtain r k1 where kz: "kzalloc k = (r, k1)" by fastforce
    show ?thesis
    proof (cases r)
      case None
      then show ?thesis using get_ref_for_node_none [OF assms(1) C p x, of k1] kz False by simp
    next
      case (Some a)
      then have "k_refs k a = None" using assms(3) kz by (simp add: fresh_addr_def)
      moreover have "length (inorder (p_refs_by_desc proc)) < 2 ^ 32 - 2" using assms(4) p by (simp add: few_refs_def)
      ultimately show ?thesis
        using get_ref_for_node_new [OF assms(1) C p n x, of a k1] kz Some False unfolding used by auto
    qed
  qed
qed

text \<open>
  C40. Giving up a count of a reference is refused if there is none; otherwise the reference goes
  exactly when none of its two counts is left. No other reference changes, and every reference
  that is left still has its node.
\<close>

theorem release_reference:
  assumes "rb_ok R" and "refs_run R k" and "k_refs k x = Some r"
  shows "\<exists>e k'. binder_dec_ref R x strong k = Ret (e, k') \<and>
    (if (if strong then r_strong r else r_weak r) = 0 then e = E_INVAL \<and> k_refs k' = k_refs k
     else e = 0 \<and> k_refs k' = (k_refs k)(x :=
       if (if strong then r_strong r = 1 \<and> r_weak r = 0 else r_strong r = 0 \<and> r_weak r = 1) then None
       else Some (if strong then r\<lparr>r_strong := r_strong r - 1\<rparr> else r\<lparr>r_weak := r_weak r - 1\<rparr>))) \<and>
    (\<forall>y s. k_refs k' y = Some s \<longrightarrow> (\<exists>node. k_nodes k' (r_node s) = Some node \<and> y \<in> set (n_refs node)))"
proof -
  have C: "core_ok (core_of k)" by (rule refs_run_ok [OF assms(1,2)])
  obtain e k' where d: "binder_dec_ref R x strong k = Ret (e, k')" "core_ok (core_of k')"
    "if (if strong then r_strong r else r_weak r) = 0 then e = E_INVAL \<and> k_refs k' = k_refs k
     else e = 0 \<and> k_refs k' = (k_refs k)(x := if r_strong (if strong then r\<lparr>r_strong := r_strong r - 1\<rparr> else r\<lparr>r_weak := r_weak r - 1\<rparr>) = 0 \<and>
        r_weak (if strong then r\<lparr>r_strong := r_strong r - 1\<rparr> else r\<lparr>r_weak := r_weak r - 1\<rparr>) = 0 then None
        else Some (if strong then r\<lparr>r_strong := r_strong r - 1\<rparr> else r\<lparr>r_weak := r_weak r - 1\<rparr>))"
    using dec_ref_step [OF assms(1) C assms(3) refl refl, of strong] by blast
  have "\<exists>node. k_nodes k' (r_node s) = Some node \<and> y \<in> set (n_refs node)" if "k_refs k' y = Some s" for y s
    using ref_node_live [OF d(2) that] by blast
  then show ?thesis using d(1,3) by (cases strong) auto
qed

end
