(* ===== verification/Drv_Sound.thy ===== *)
theory Drv_Sound
  imports Drv_Queue Drv_Refs_Claims
begin

text \<open>
  The invariant of the whole driver and the operations on nodes and references that keep it. Two
  numbers go with it: how many references each process may still get and how often each may still
  be counted up before a counter overflows, which the driver does not check.
\<close>

section \<open>The invariant\<close>

definition used_at :: "kstate \<Rightarrow> nat \<Rightarrow> bool" where
  "used_at k a \<longleftrightarrow> k_procs k a \<noteq> None \<or> k_nodes k a \<noteq> None \<or> k_refs k a \<noteq> None \<or> k_threads k a \<noteq> None"

definition mem_ok :: "kstate \<Rightarrow> bool" where
  \<comment> \<open>the addresses that \<open>kzalloc\<close> returns next differ from each other and from those in use\<close>
  "mem_ok k \<longleftrightarrow> distinct (filter (\<lambda>a. a \<noteq> None) (k_kzalloc k)) \<and> (\<forall>a. Some a \<in> set (k_kzalloc k) \<longrightarrow> \<not> used_at k a)"

definition room :: "nat \<Rightarrow> kstate \<Rightarrow> bool" where
  "room n k \<longleftrightarrow> (\<forall>x r. k_refs k x = Some r \<longrightarrow> unat (r_strong r) + n < 2 ^ 32) \<and>
     (\<forall>p. card (refs_of (core_of k) p) + n < 2 ^ 32 - 2)"

text \<open>
  What the counters and the tree of threads of a process are compared with: the calls of the
  process that wait for its work, the threads it may have above its limit because they were started
  or asked for before the limit was set, and the threads that are just being freed.
\<close>

record pools =
  po_waits :: "nat \<Rightarrow> nat"
  po_before :: "nat \<Rightarrow> int"
  po_leaving :: "nat set"

definition pool_ok :: "pools \<Rightarrow> kstate \<Rightarrow> bool" where
  "pool_ok W k \<longleftrightarrow> (\<forall>p m r s d T. pool_at k p = Some (m, r, s, d, T) \<longrightarrow>
       0 \<le> r \<and> r \<le> 1 \<and> 0 \<le> s \<and> s + r \<le> max m (po_before W p) \<and> d = int (po_waits W p) \<and>
       distinct (inorder T) \<and> set (inorder T) = {t. owner_at k t = Some p \<and> t \<notin> po_leaving W}) \<and>
     (\<forall>p. pool_at k p = None \<longrightarrow> po_waits W p = 0 \<and> (\<forall>t. owner_at k t \<noteq> Some p))"

definition sound :: "pools \<Rightarrow> nat \<Rightarrow> kstate \<Rightarrow> bool" where
  "sound W n k \<longleftrightarrow> core_ok (core_of k) \<and> queue_ok k \<and> mem_ok k \<and> room n k \<and> pool_ok W k"

lemma soundD:
  assumes "sound W n k"
  shows "core_ok (core_of k)" "queue_ok k" "mem_ok k" "room n k" "pool_ok W k"
  using assms by (simp_all add: sound_def)

lemma room_less: "room n k \<Longrightarrow> m \<le> n \<Longrightarrow> room m k"
  unfolding room_def by (meson add_le_cancel_left le_less_trans)

lemma sound_less: "sound W n k \<Longrightarrow> m \<le> n \<Longrightarrow> sound W m k"
  unfolding sound_def using room_less by blast

lemma used_core: "used_at k a \<longleftrightarrow> c_procs (core_of k) a \<noteq> None \<or> c_nodes (core_of k) a \<noteq> None \<or> c_refs (core_of k) a \<noteq> None \<or> owner_at k a \<noteq> None"
  by (simp add: used_at_def owner_at_def)

lemma room_core: "room n k \<longleftrightarrow> (\<forall>x u. strong_at k x = Some u \<longrightarrow> unat u + n < 2 ^ 32) \<and> (\<forall>p. card (refs_of (core_of k) p) + n < 2 ^ 32 - 2)"
  by (auto simp: room_def strong_at_def)

lemma sound_view:
  assumes "sound W n k" "view k' = view k"
  shows "sound W n k'"
proof -
  note e = arg_cong [OF assms(2), of v_core] arg_cong [OF assms(2), of v_mem] arg_cong [OF assms(2), of v_strong]
    arg_cong [OF assms(2), of v_pool] arg_cong [OF assms(2), of v_owner]
  have "queue_ok k'" by (rule queue_ok_view [OF soundD(2) [OF assms(1)] assms(2)])
  then show ?thesis
    using assms(1) e unfolding sound_def mem_ok_def room_core used_core pool_ok_def view_simps by (simp del: core_of_apply)
qed

lemma owner_view: "view k' = view k \<Longrightarrow> owner_at k' = owner_at k"
  by (drule arg_cong [of _ _ v_owner]) (simp add: view_simps)

section \<open>Memory\<close>

lemma kzalloc_fields:
  "kzalloc k = (r, k') \<Longrightarrow> k_procs k' = k_procs k \<and> k_nodes k' = k_nodes k \<and> k_refs k' = k_refs k \<and> k_threads k' = k_threads k"
  by (auto simp: kzalloc_def split: list.splits)

lemma mem_ok_kzalloc:
  assumes "mem_ok k" "kzalloc k = (r, k')"
  shows "mem_ok k'" "r = Some a \<Longrightarrow> \<not> used_at k a \<and> Some a \<notin> set (k_kzalloc k')"
proof -
  have u: "used_at k' = used_at k" using kzalloc_fields [OF assms(2)] by (simp add: fun_eq_iff used_at_def)
  have all: "mem_ok k' \<and> (r = Some a \<longrightarrow> \<not> used_at k a \<and> Some a \<notin> set (k_kzalloc k'))"
  proof (cases "k_kzalloc k")
    case Nil
    then show ?thesis using assms by (simp add: kzalloc_def)
  next
    case (Cons b as)
    then have b: "b = r" "k_kzalloc k' = as" using assms(2) by (auto simp: kzalloc_def)
    have d: "distinct (filter (\<lambda>a. a \<noteq> None) (r # as))" "\<forall>a. Some a \<in> set (r # as) \<longrightarrow> \<not> used_at k a"
      using assms(1) Cons b by (simp_all add: mem_ok_def)
    then show ?thesis using b by (cases r) (auto simp: mem_ok_def u)
  qed
  then show "mem_ok k'" "r = Some a \<Longrightarrow> \<not> used_at k a \<and> Some a \<notin> set (k_kzalloc k')" by auto
qed

lemma fresh_addr_mem: "mem_ok k \<Longrightarrow> fresh_addr k"
proof -
  assume m: "mem_ok k"
  obtain r k' where kz: "kzalloc k = (r, k')" by fastforce
  show ?thesis using mem_ok_kzalloc(2) [OF m kz] kz by (auto simp: fresh_addr_def used_at_def split: option.split)
qed

lemma sound_kzalloc:
  assumes "sound W n k" "kzalloc k = (r, k')"
  shows "sound W n k'"
proof -
  have c: "core_of k' = core_of k" by (rule core_kzalloc [OF assms(2)])
  have q: "qview k' = (qview k)\<lparr>q_mem := k_kzalloc k'\<rparr>" by (rule qview_kzalloc [OF assms(2)])
  have pool: "pool_at k' = pool_at k" using arg_cong [OF q, of q_pool] by (simp add: qview_simps)
  have own: "owner_at k' = owner_at k" using arg_cong [OF q, of q_owner] by (simp add: qview_simps)
  have "queue_ok k'"
  proof (rule queue_ok_cong [OF soundD(2) [OF assms(1)]])
    show "nodes_on k' = nodes_on k" "entry_at k' = entry_at k" "home k' = home k" "owner_at k' = owner_at k"
      using arg_cong [OF q, of q_work] arg_cong [OF q, of q_entry] arg_cong [OF q, of q_home] arg_cong [OF q, of q_owner]
      by (simp_all add: qview_simps)
  qed (use kzalloc_fields [OF assms(2)] in simp)
  moreover have "room n k'" using soundD(4) [OF assms(1)] kzalloc_fields [OF assms(2)] by (simp add: room_def c)
  ultimately show ?thesis
    using soundD [OF assms(1)] mem_ok_kzalloc(1) [OF _ assms(2)] by (simp add: sound_def c pool_ok_def pool own)
qed

section \<open>Counting down\<close>

lemma refs_finite:
  assumes "core_ok (core_of k)"
  shows "finite (refs_of (core_of k) p)"
proof (cases "k_procs k p")
  case None
  have "refs_of (core_of k) p = {}"
  proof (rule ccontr)
    assume "refs_of (core_of k) p \<noteq> {}"
    then obtain x r where x: "c_refs (core_of k) x = Some r" "rc_proc r = p" unfolding refs_of_def by blast
    then have "c_procs (core_of k) p \<noteq> None" using core_okD(3) [OF assms x(1)] by (simp add: ref_ok_def del: core_of_apply)
    then show False using None by simp
  qed
  then show ?thesis by simp
next
  case (Some proc)
  then have "refs_of (core_of k) p = set (inorder (p_refs_by_desc proc))"
    using core_okD(1) [OF assms, of p "proc_core proc"] by (simp add: proc_ok_def)
  then show ?thesis by simp
qed

lemma sound_shrink:
  \<comment> \<open>objects may go, and no count of references grows\<close>
  assumes S: "sound W n k" and C: "core_ok (core_of k')" and Q: "queue_ok k'" and m: "k_kzalloc k' = k_kzalloc k"
    and p: "\<And>p. pool_at k' p = pool_at k p \<or> pool_at k' p = None \<and> po_waits W p = 0 \<and> (\<forall>t. owner_at k' t \<noteq> Some p)"
    and o': "\<And>t. owner_at k' t = owner_at k t \<or> owner_at k' t = None \<and> t \<in> po_leaving W"
    and nd: "\<And>a. k_nodes k' a \<noteq> None \<Longrightarrow> k_nodes k a \<noteq> None"
    and r: "\<And>x r'. k_refs k' x = Some r' \<Longrightarrow> \<exists>r. k_refs k x = Some r \<and> r_proc r' = r_proc r \<and> r_strong r' \<le> r_strong r"
  shows "sound W n k'"
proof -
  have used: "used_at k a" if u: "used_at k' a" for a
  proof -
    have "k_procs k a \<noteq> None" if "k_procs k' a \<noteq> None" using p [of a] that by (cases "k_procs k a") (auto simp: pool_at_def)
    moreover have "k_threads k a \<noteq> None" if "k_threads k' a \<noteq> None"
      using o' [of a] that by (cases "k_threads k a") (auto simp: owner_at_def)
    moreover have "k_refs k a \<noteq> None" if "k_refs k' a \<noteq> None" using r that by blast
    ultimately show ?thesis using u nd [of a] unfolding used_at_def by argo
  qed
  have "mem_ok k'" using soundD(3) [OF S] used by (auto simp: mem_ok_def m)
  moreover have "room n k'"
  proof -
    have "unat (r_strong r') + n < 2 ^ 32" if r': "k_refs k' x = Some r'" for x r'
    proof -
      obtain s where s: "k_refs k x = Some s" "r_strong r' \<le> r_strong s" using r [OF r'] by blast
      have "unat (r_strong s) + n < 2 ^ 32" using soundD(4) [OF S] s(1) by (auto simp: room_def)
      then show ?thesis using s(2) by (simp add: word_le_nat_alt)
    qed
    moreover have "card (refs_of (core_of k') p) + n < 2 ^ 32 - 2" for p
    proof -
      have "refs_of (core_of k') p \<subseteq> refs_of (core_of k) p" using r by (fastforce simp: refs_of_def)
      then have "card (refs_of (core_of k') p) \<le> card (refs_of (core_of k) p)"
        by (rule card_mono [OF refs_finite [OF soundD(1) [OF S]]])
      moreover have "card (refs_of (core_of k) p) + n < 2 ^ 32 - 2" using soundD(4) [OF S] unfolding room_def by blast
      ultimately show ?thesis by linarith
    qed
    ultimately show ?thesis unfolding room_def by blast
  qed
  moreover have "pool_ok W k'"
    unfolding pool_ok_def
  proof (intro conjI allI impI)
    fix q m r s d T assume q: "pool_at k' q = Some (m, r, s, d, T)"
    then have "pool_at k q = Some (m, r, s, d, T)" using p [of q] by auto
    note P = soundD(5) [OF S, unfolded pool_ok_def, THEN conjunct1, rule_format, OF this]
    show "0 \<le> r" "r \<le> 1" "0 \<le> s" "s + r \<le> max m (po_before W q)" "d = int (po_waits W q)" "distinct (inorder T)"
      using P by blast+
    have "owner_at k' t = Some q \<and> t \<notin> po_leaving W \<longleftrightarrow> owner_at k t = Some q \<and> t \<notin> po_leaving W" for t
      using o' [of t] by auto
    then show "set (inorder T) = {t. owner_at k' t = Some q \<and> t \<notin> po_leaving W}" using P by simp
  next
    fix q t assume q: "pool_at k' q = None"
    show "po_waits W q = 0" "owner_at k' t \<noteq> Some q"
      using p [of q] o' [of t] q soundD(5) [OF S] unfolding pool_ok_def by (metis option.distinct(1))+
  qed
  ultimately show "sound W n k'" using C Q by (simp add: sound_def)
qed

lemma sound_tidy:
  assumes S: "sound W n k" and t: "tidy k k'" and C: "core_ok (core_of k')"
    and r: "\<And>x r'. k_refs k' x = Some r' \<Longrightarrow> \<exists>r. k_refs k x = Some r \<and> r_proc r' = r_proc r \<and> r_strong r' \<le> r_strong r"
  shows "sound W n k'" "owner_at k' = owner_at k"
proof -
  have R: "k_kzalloc k' = k_kzalloc k" "pool_at k' = pool_at k" "owner_at k' = owner_at k" "\<And>m. home k' m = None \<or> home k' m = home k m"
    using tidyD(2) [OF t] by (auto simp: rest_def qview_simps)
  show "owner_at k' = owner_at k" by (rule R(3))
  show "sound W n k'"
  proof (rule sound_shrink [OF S C tidyD(1) [OF t] R(1) _ _ _ r])
    show "k_nodes k a \<noteq> None" if "k_nodes k' a \<noteq> None" for a using R(4) [of a] that by (cases "k_nodes k a") (auto simp: home_def)
  qed (simp_all add: R(2,3))
qed

lemma sound_dec_ref:
  assumes R: "rb_ok R" and S: "sound W n k"
  shows "post (Some (binder_dec_ref R x strong k)) (\<lambda>(_, k'). sound W n k' \<and> owner_at k' = owner_at k)"
proof (rule post_of_cres)
  fix e assume d: "binder_dec_ref R x strong k = Ret e"
  then obtain r where r: "k_refs k x = Some r" by (auto simp: binder_dec_ref_def cbind_Ret_iff)
  let ?r = "if strong then r\<lparr>r_strong := r_strong r - 1\<rparr> else r\<lparr>r_weak := r_weak r - 1\<rparr>"
  obtain e' k' where k': "e = (e', k')" "core_ok (core_of k')"
    "k_refs k' = k_refs k \<or> (if strong then r_strong r else r_weak r) \<noteq> 0 \<and> (\<exists>v. v \<in> {None, Some ?r} \<and> k_refs k' = (k_refs k)(x := v))"
    using dec_ref_step [OF R soundD(1) [OF S] r refl refl, of strong] d by (auto split: if_splits)
  have t: "tidy k k'" using post_cresD [OF tidy_dec_ref [OF soundD(2) [OF S]] d] k'(1) by simp
  have "\<exists>s. k_refs k y = Some s \<and> r_proc r' = r_proc s \<and> r_strong r' \<le> r_strong s" if y: "k_refs k' y = Some r'" for y r'
  proof -
    have "r_strong ?r \<le> r_strong r" if "(if strong then r_strong r else r_weak r) \<noteq> 0"
      using that by (cases strong) (simp_all add: word_le_nat_alt unat_minus_one del: word_neq_0_conv)
    then show ?thesis using k'(3) y r by (cases strong) (auto split: if_splits)
  qed
  then show "case e of (_, k') \<Rightarrow> sound W n k' \<and> owner_at k' = owner_at k"
    using sound_tidy [OF S t k'(2)] k'(1) by simp
qed

lemma sound_delete_ref:
  assumes R: "rb_ok R" and S: "sound W n k"
  shows "post (Some (binder_delete_ref R x k)) (\<lambda>k'. sound W n k' \<and> owner_at k' = owner_at k)"
proof (rule post_of_cres)
  fix k' assume d: "binder_delete_ref R x k = Ret k'"
  then obtain r where r: "k_refs k x = Some r" by (auto simp: binder_delete_ref_def cbind_Ret_iff)
  have k': "core_ok (core_of k')" "k_refs k' = (k_refs k)(x := None)"
    using delete_ref_step [OF R soundD(1) [OF S] r] d by auto
  have t: "tidy k k'" by (rule post_cresD [OF tidy_delete_ref [OF soundD(2) [OF S]] d])
  have "\<exists>s. k_refs k y = Some s \<and> r_proc r' = r_proc s \<and> r_strong r' \<le> r_strong s" if "k_refs k' y = Some r'" for y r'
    using that k'(2) by (auto split: if_splits)
  then show "sound W n k' \<and> owner_at k' = owner_at k" using sound_tidy [OF S t k'(1)] by blast
qed

lemma sound_dec_node:
  assumes R: "rb_ok R" and S: "sound W n k"
  shows "post (Some (binder_dec_node R x strong False k)) (\<lambda>k'. sound W n k' \<and> owner_at k' = owner_at k)"
proof (rule post_of_cres)
  fix k' assume d: "binder_dec_node R x strong False k = Ret k'"
  then obtain node where n: "k_nodes k x = Some node" by (auto simp: binder_dec_node_def cbind_Ret_iff)
  have k': "core_ok (core_of k')" "k_refs k' = k_refs k"
    using dec_node_ok [OF R soundD(1) [OF S] n, of strong] d by auto
  have t: "tidy k k'" by (rule post_cresD [OF tidy_dec_node [OF soundD(2) [OF S]] d])
  show "sound W n k' \<and> owner_at k' = owner_at k" using sound_tidy [OF S t k'(1)] k'(2) by simp
qed

lemma view_inc_node: "post (Some (binder_inc_node n strong False None k)) (\<lambda>(_, k'). view k' = view k)"
  by (auto simp: binder_inc_node_def post_simps Let_def)

lemma sound_inc_node:
  "sound W n k \<Longrightarrow> post (Some (binder_inc_node x strong False None k)) (\<lambda>(_, k'). sound W n k' \<and> owner_at k' = owner_at k)"
  by (rule post_weaken [OF view_inc_node]) (auto dest: sound_view owner_view)

section \<open>Counting up\<close>

lemma unat_max: "unat (- 1 :: u32) = 2 ^ 32 - 1"
  by (simp add: unsigned_minus_1_eq_mask mask_eq_exp_minus_1)

lemma unat_succ_le: "unat (u + 1 :: u32) \<le> unat u + 1"
  by (metis unat_word_ariths(1) mod_less_eq_dividend unat_1)

lemma sound_inc_ref_any:
  assumes S: "sound W (Suc n) k" and t: "post (Some (binder_inc_ref x strong tgt k)) (\<lambda>(_, k'). tidy k k')"
  shows "post (Some (binder_inc_ref x strong tgt k)) (\<lambda>(_, k'). sound W n k' \<and> owner_at k' = owner_at k)"
proof (rule post_of_cres)
  fix e assume d: "binder_inc_ref x strong tgt k = Ret e"
  then obtain r where r: "k_refs k x = Some r" by (auto simp: binder_inc_ref_def cbind_Ret_iff)
  have "unat (r_strong r) + Suc n < 2 ^ 32" using soundD(4) [OF S] r unfolding room_def by blast
  then have ov: "strong \<longrightarrow> r_strong r \<noteq> - 1" using unat_max by auto
  let ?r = "if strong then r\<lparr>r_strong := r_strong r + 1\<rparr> else r\<lparr>r_weak := r_weak r + 1\<rparr>"
  obtain e' k' where k': "e = (e', k')"
    "core_of k' = (if e' = 0 \<and> strong then g_set_strong x (ref_core r) True (core_of k) else core_of k)"
    "k_refs k' = (if e' = 0 then (k_refs k)(x \<mapsto> ?r) else k_refs k)"
    using inc_ref_step [OF soundD(1) [OF S] r ov, of tgt] d by auto
  have C: "core_ok (core_of k')" unfolding k'(2) using g_set_strong_ok [OF soundD(1) [OF S], of x "ref_core r" True] soundD(1) [OF S] r by simp
  have T: "tidy k k'" using post_cresD [OF t d] k'(1) by simp
  text \<open>Any state with the counts lowered again is reached by what \<open>sound_tidy\<close> allows.\<close>
  have proc: "\<exists>s. k_refs k y = Some s \<and> r_proc r' = r_proc s \<and> unat (r_strong r') \<le> unat (r_strong s) + 1" if "k_refs k' y = Some r'" for y r'
    using that r unat_succ_le by (cases strong) (auto simp: k'(3) split: if_splits)
  have R: "k_kzalloc k' = k_kzalloc k" "pool_at k' = pool_at k" "owner_at k' = owner_at k"
    "\<And>p. (k_procs k' p = None) = (k_procs k p = None)"
    using tidyD(2) [OF T] by (auto simp: rest_def qview_simps fun_eq_iff)
  have nodes: "c_nodes (core_of k') a = None \<longleftrightarrow> c_nodes (core_of k) a = None" for a
    unfolding k'(2) by (auto simp: g_set_strong_def simp del: core_of_apply)
  have refs: "k_refs k' a = None \<longleftrightarrow> k_refs k a = None" for a unfolding k'(3) using r by auto
  have used: "used_at k' = used_at k"
    by (rule ext) (simp add: used_core R(3) nodes refs R(4) del: core_of_apply(2))
  have "mem_ok k'" using soundD(3) [OF S] by (simp add: mem_ok_def R used)
  moreover have "room n k'"
  proof -
    have "unat (r_strong r') + n < 2 ^ 32" if y: "k_refs k' y = Some r'" for y r'
    proof -
      obtain s where s: "k_refs k y = Some s" "unat (r_strong r') \<le> unat (r_strong s) + 1" using proc [OF y] by blast
      have "unat (r_strong s) + Suc n < 2 ^ 32" using soundD(4) [OF S] s(1) unfolding room_def by blast
      then show ?thesis using s(2) by linarith
    qed
    moreover have "card (refs_of (core_of k') p) + n < 2 ^ 32 - 2" for p
    proof -
      have "refs_of (core_of k') p \<subseteq> refs_of (core_of k) p" using proc by (fastforce simp: refs_of_def)
      then have "card (refs_of (core_of k') p) \<le> card (refs_of (core_of k) p)"
        by (rule card_mono [OF refs_finite [OF soundD(1) [OF S]]])
      moreover have "card (refs_of (core_of k) p) + Suc n < 2 ^ 32 - 2" using soundD(4) [OF S] unfolding room_def by blast
      ultimately show ?thesis by linarith
    qed
    ultimately show ?thesis unfolding room_def by blast
  qed
  ultimately show "case e of (_, k') \<Rightarrow> sound W n k' \<and> owner_at k' = owner_at k"
    using soundD(5) [OF S] C tidyD(1) [OF T] k'(1) by (simp add: sound_def pool_ok_def R)
qed

lemma sound_inc_ref:
  assumes "sound W (Suc n) k"
  shows "post (Some (binder_inc_ref x strong None k)) (\<lambda>(_, k'). sound W n k' \<and> owner_at k' = owner_at k)"
  by (rule sound_inc_ref_any [OF assms], rule post_weaken [OF qview_inc_ref])
    (auto intro: tidy_qview [OF tidy_refl [OF soundD(2) [OF assms]]])

section \<open>New references\<close>

lemma sound_grow:
  \<comment> \<open>an object appears at a new address\<close>
  assumes S: "sound W (Suc n) k" and kz: "kzalloc k = (Some a, k1)" and C: "core_ok (core_of k')"
    and q: "nodes_on k' = nodes_on k" "entry_at k' = entry_at k" "owner_at k' = owner_at k" "pool_at k' = pool_at k"
    and p: "\<And>p. (k_procs k' p = None) = (k_procs k p = None)"
    and h: "\<And>m. home k' m = home k m \<or> m = a \<and> home k m = None \<and> (\<exists>p. home k' m = Some (Some p) \<and> k_procs k p \<noteq> None)"
    and m: "k_kzalloc k' = k_kzalloc k1"
    and r: "\<And>x r'. k_refs k' x = Some r' \<Longrightarrow> k_refs k x = Some r' \<or> x = a \<and> r_strong r' = 0"
  shows "sound W n k'"
proof -
  have fresh: "\<not> used_at k a" "Some a \<notin> set (k_kzalloc k1)" "mem_ok k1"
    using mem_ok_kzalloc(1) [OF soundD(3) [OF S] kz] mem_ok_kzalloc(2) [OF soundD(3) [OF S] kz, of a] by simp_all
  have used: "used_at k b \<or> b = a" if u: "used_at k' b" for b
  proof -
    have "k_nodes k b \<noteq> None \<or> b = a" if "k_nodes k' b \<noteq> None" using h [of b] that by (cases "k_nodes k b") (auto simp: home_def)
    moreover have "(k_threads k' b = None) = (k_threads k b = None)"
      using fun_cong [OF q(3), of b] by (cases "k_threads k b"; cases "k_threads k' b") (simp_all add: owner_at_def)
    moreover have "k_refs k b \<noteq> None \<or> b = a" if "k_refs k' b \<noteq> None" using r that by blast
    ultimately show ?thesis using u p [of b] unfolding used_at_def by argo
  qed
  have "mem_ok k'"
  proof -
    have "\<not> used_at k' b" if b: "Some b \<in> set (k_kzalloc k1)" for b
    proof
      assume "used_at k' b"
      then have "used_at k b \<or> b = a" by (rule used)
      moreover have "\<not> used_at k1 b" using fresh(3) b by (simp add: mem_ok_def)
      then have "\<not> used_at k b" using kzalloc_fields [OF kz] by (simp add: used_at_def)
      ultimately show False using b fresh(2) by blast
    qed
    then show ?thesis using fresh(3) by (simp add: mem_ok_def m)
  qed
  moreover have "queue_ok k'"
    unfolding queue_ok_def place_of_def q
  proof (intro conjI allI impI)
    note Q = queue_okD [OF soundD(2) [OF S]]
    fix l m show "distinct (nodes_on k l)" "(W_node m \<in> set (nodes_on k l)) = (entry_at k m = Some l)" by (rule Q(1,2))+
    assume e: "entry_at k m = Some l"
    obtain p where pp: "home k m = Some (Some p)" "place_of k p l" using Q(3) [OF e] by blast
    then have "home k' m = Some (Some p)" using h [of m] by auto
    then show "\<exists>p. home k' m = Some (Some p) \<and> (l = Proc_todo p \<or> (\<exists>t. l = Thread_todo t \<and> owner_at k t = Some p))"
      using pp(2) by (auto simp: place_of_def)
  next
    fix m p' assume "home k' m = Some (Some p')"
    then show "k_procs k' p' \<noteq> None" using h [of m] queue_okD(4) [OF soundD(2) [OF S], of m p'] p [of p'] by auto
  qed
  moreover have "room n k'"
  proof -
    have "unat (r_strong r') + n < 2 ^ 32" if y: "k_refs k' x = Some r'" for x r'
      using r [OF y]
    proof
      assume "k_refs k x = Some r'"
      then have "unat (r_strong r') + Suc n < 2 ^ 32" using soundD(4) [OF S] unfolding room_def by blast
      then show ?thesis by simp
    next
      assume "x = a \<and> r_strong r' = 0"
      moreover have "card (refs_of (core_of k) 0) + Suc n < 2 ^ 32 - 2" using soundD(4) [OF S] unfolding room_def by blast
      ultimately show ?thesis by simp
    qed
    moreover have "card (refs_of (core_of k') p) + n < 2 ^ 32 - 2" for p
    proof -
      have "refs_of (core_of k') p \<subseteq> insert a (refs_of (core_of k) p)" using r by (fastforce simp: refs_of_def)
      then have "card (refs_of (core_of k') p) \<le> card (insert a (refs_of (core_of k) p))"
        by (rule card_mono [OF finite.insertI [OF refs_finite [OF soundD(1) [OF S]]]])
      also have "\<dots> \<le> Suc (card (refs_of (core_of k) p))" by (rule card_insert_le_m1) simp_all
      finally have "card (refs_of (core_of k') p) \<le> Suc (card (refs_of (core_of k) p))" .
      moreover have "card (refs_of (core_of k) p) + Suc n < 2 ^ 32 - 2" using soundD(4) [OF S] unfolding room_def by blast
      ultimately show ?thesis by linarith
    qed
    ultimately show ?thesis unfolding room_def by blast
  qed
  ultimately show ?thesis using soundD(5) [OF S] C by (simp add: sound_def pool_ok_def q)
qed

lemma sound_few_refs:
  assumes "sound W n k" "k_procs k p = Some proc"
  shows "length (inorder (p_refs_by_desc proc)) < 2 ^ 32 - 2"
proof -
  have P: "proc_ok (core_of k) p (proc_core proc)" by (rule core_okD(1) [OF soundD(1) [OF assms(1)]]) (simp add: assms(2))
  then have "distinct (inorder (p_refs_by_desc proc))" unfolding proc_ok_def by (auto dest: sorted_map_distinct)
  then have "length (inorder (p_refs_by_desc proc)) = card (refs_of (core_of k) p)"
    using P distinct_card by (fastforce simp: proc_ok_def simp del: core_of_apply length_inorder)
  moreover have "card (refs_of (core_of k) p) + n < 2 ^ 32 - 2" using soundD(4) [OF assms(1)] unfolding room_def by blast
  ultimately show ?thesis by linarith
qed

lemma sound_get_ref:
  assumes R: "rb_ok R" and S: "sound W (Suc n) k"
  shows "post (Some (binder_get_ref_for_node R p m k)) (\<lambda>(x, k'). sound W n k' \<and> owner_at k' = owner_at k \<and> home k' = home k \<and>
    (\<forall>r. x = Some r \<longrightarrow> (\<exists>s. k_refs k' r = Some s \<and> r_node s = m)))"
proof (rule post_of_cres)
  fix e assume g: "binder_get_ref_for_node R p m k = Ret e"
  obtain proc where p: "k_procs k p = Some proc" using g by (auto simp: binder_get_ref_for_node_def cbind_Ret_iff)
  obtain r1 k1 where kz: "kzalloc k = (r1, k1)" by fastforce
  have S0: "sound W n k" by (rule sound_less [OF S]) simp
  show "case e of (x, k') \<Rightarrow> sound W n k' \<and> owner_at k' = owner_at k \<and> home k' = home k \<and>
    (\<forall>r. x = Some r \<longrightarrow> (\<exists>s. k_refs k' r = Some s \<and> r_node s = m))"
  proof (cases "\<exists>x \<in> refs_of (core_of k) p. crnode (core_of k) x = m")
    case True
    then obtain x where x: "x \<in> refs_of (core_of k) p" "crnode (core_of k) x = m" by blast
    have "e = (Some x, k)" using get_ref_for_node_found [OF soundD(1) [OF S] p x] g by simp
    then show ?thesis using S0 x by (auto simp: refs_of_def)
  next
    case False
    then have x: "\<forall>x \<in> refs_of (core_of k) p. crnode (core_of k) x \<noteq> m" by blast
    show ?thesis
    proof (cases r1)
      case None
      have "e = (None, k1)" using get_ref_for_node_none [OF R soundD(1) [OF S] p x, of k1] kz None g by simp
      then show ?thesis using sound_kzalloc [OF S0 kz] arg_cong [OF qview_kzalloc [OF kz], of q_owner]
        arg_cong [OF qview_kzalloc [OF kz], of q_home] by (simp add: qview_simps)
    next
      case (Some a)
      obtain node where n: "k_nodes k m = Some node"
      proof (cases "k_nodes k m")
        case None
        text \<open>The code follows the pointer to the node.\<close>
        have T: "tree_search (ref_node_dir k m) (p_refs_by_node proc) = Ret None"
        proof -
          note T = proc_trees [OF soundD(1) [OF S] p]
          have "tree_search (ref_node_dir k m) (p_refs_by_node proc) =
              Ret (find (\<lambda>x. crnode (core_of k) x = m) (inorder (p_refs_by_node proc)))"
            by (rule tree_search_eq) (use T(2,5) in \<open>auto intro!: ref_dirs simp del: core_of_apply\<close>)
          moreover have "find (\<lambda>x. crnode (core_of k) x = m) (inorder (p_refs_by_node proc)) = None"
            by (rule find_Cons_None) (use T(2) x in \<open>simp del: core_of_apply\<close>)
          ultimately show ?thesis by simp
        qed
        have "k_nodes k1 m = None" using None kzalloc_fields [OF kz] by simp
        then have False using g T kz Some
          by (auto simp: binder_get_ref_for_node_def p cbind_Ret_iff Let_def stats_created_def split: sum.splits)
             (metis sum.exhaust)
        then show thesis ..
      qed (use that in blast)
      have fresh: "k_refs k a = None" using mem_ok_kzalloc(2) [OF soundD(3) [OF S] kz, of a] Some by (simp add: used_at_def)
      obtain d k' where k': "binder_get_ref_for_node R p m k = Ret (Some a, k')" "core_ok (core_of k')"
        "k_refs k' = (k_refs k)(a \<mapsto> fresh_ref p m d (k_last_id k + 1))" "k_kzalloc k' = k_kzalloc k1"
        using get_ref_for_node_new [OF R soundD(1) [OF S] p n x _ fresh sound_few_refs [OF S p], of k1] kz Some by blast
      then have e: "e = (Some a, k')" using g by simp
      have "qview k' = qview k \<or> qview k' = qview k1" using post_cresD [OF qview_get_ref g] e kz by simp
      then have q: "nodes_on k' = nodes_on k \<and> entry_at k' = entry_at k \<and> owner_at k' = owner_at k \<and> pool_at k' = pool_at k \<and>
          home k' = home k \<and> (\<forall>p. (k_procs k' p = None) = (k_procs k p = None))"
      proof
        assume Q: "qview k' = qview k"
        show ?thesis
          using arg_cong [OF Q, of q_work] arg_cong [OF Q, of q_entry] arg_cong [OF Q, of q_home] arg_cong [OF Q, of q_owner]
            arg_cong [OF Q, of q_pool] arg_cong [OF Q, of q_procs] by (simp add: qview_simps fun_eq_iff)
      next
        assume "qview k' = qview k1"
        then have Q: "qview k' = (qview k)\<lparr>q_mem := k_kzalloc k1\<rparr>" using qview_kzalloc [OF kz] by simp
        show ?thesis
          using arg_cong [OF Q, of q_work] arg_cong [OF Q, of q_entry] arg_cong [OF Q, of q_home] arg_cong [OF Q, of q_owner]
            arg_cong [OF Q, of q_pool] arg_cong [OF Q, of q_procs] by (simp add: qview_simps fun_eq_iff)
      qed
      have "sound W n k'"
      proof (rule sound_grow [OF S, of a k1])
        show "k_refs k x = Some r' \<or> x = a \<and> r_strong r' = 0" if "k_refs k' x = Some r'" for x r'
          using that unfolding k'(3) by (auto simp: fresh_ref_def split: if_splits)
      qed (use q k' kz Some in auto)
      then show ?thesis using e q k'(3) by (simp add: fresh_ref_def)
    qed
  qed
qed

section \<open>New nodes\<close>

lemma qview_new_node:
  "post (Some (binder_new_node R p ptr cookie k)) (\<lambda>(x, k'). case x of
     None \<Rightarrow> k' = k \<or> k' = snd (kzalloc k) \<or> k' = stats_created Stat_node (snd (kzalloc k))
   | Some a \<Rightarrow> fst (kzalloc k) = Some a \<and> (\<exists>k1 i. qview k1 = qview (snd (kzalloc k)) \<and> k_nodes k1 = k_nodes k \<and>
       k' = k1\<lparr>k_last_id := i, k_nodes := (k_nodes k1)(a \<mapsto> fresh_node p ptr cookie i)\<rparr>))"
proof -
  have q: "qview (upd_proc p (\<lambda>x. x\<lparr>p_nodes := t\<rparr>) (stats_created Stat_node k1)) = qview k1" for t k1
    using qview_upd_proc [of "\<lambda>x. x\<lparr>p_nodes := t\<rparr>"] by simp
  have n: "kzalloc k = (Some a, k1) \<Longrightarrow> k_nodes (upd_proc p f (stats_created Stat_node k1)) = k_nodes k" for a k1 f
    using kzalloc_fields [of k "Some a" k1] by (simp add: upd_proc_def stats_created_def)
  show ?thesis
    unfolding binder_new_node_def Let_def post_simps
    by (auto simp: post_simps q n intro!: post_of_cres split: option.split prod.split sum.split)
      (metis q n)+
qed

lemma node_added:
  assumes Q: "queue_ok k" and a: "k_nodes k a = None" and f: "n_entry x = None" "n_async_todo x = []"
  shows "nodes_on (k\<lparr>k_nodes := (k_nodes k)(a \<mapsto> x)\<rparr>) = nodes_on k" "entry_at (k\<lparr>k_nodes := (k_nodes k)(a \<mapsto> x)\<rparr>) = entry_at k"
    "home (k\<lparr>k_nodes := (k_nodes k)(a \<mapsto> x)\<rparr>) = (home k)(a \<mapsto> n_proc x)"
proof -
  show "nodes_on (k\<lparr>k_nodes := (k_nodes k)(a \<mapsto> x)\<rparr>) = nodes_on k"
  proof
    fix l show "nodes_on (k\<lparr>k_nodes := (k_nodes k)(a \<mapsto> x)\<rparr>) l = nodes_on k l" using a f by (cases l) auto
  qed
qed (use a f in \<open>auto simp: fun_eq_iff entry_at_def home_def\<close>)

lemma sound_new_node:
  assumes R: "rb_ok R" and S: "sound W (Suc n) k"
  shows "post (Some (binder_new_node R p ptr cookie k)) (\<lambda>(x, k'). sound W n k' \<and> owner_at k' = owner_at k \<and>
    (\<forall>a. x = Some a \<longrightarrow> home k' a = Some (Some p)))"
proof (rule post_of_cres)
  fix e assume g: "binder_new_node R p ptr cookie k = Ret e"
  obtain proc where p: "k_procs k p = Some proc" using g by (auto simp: binder_new_node_def cbind_Ret_iff)
  obtain r1 k1 where kz: "kzalloc k = (r1, k1)" by fastforce
  have S0: "sound W n k" by (rule sound_less [OF S]) simp
  have own: "owner_at k1 = owner_at k" using arg_cong [OF qview_kzalloc [OF kz], of q_owner] by (simp add: qview_simps)
  obtain x k' where e: "e = (x, k')" by fastforce
  note q = post_cresD [OF qview_new_node g, unfolded e prod.case kz fst_conv snd_conv]
  show "case e of (x, k') \<Rightarrow> sound W n k' \<and> owner_at k' = owner_at k \<and> (\<forall>a. x = Some a \<longrightarrow> home k' a = Some (Some p))"
  proof (cases x)
    case None
    have "owner_at (stats_created Stat_node k1) = owner_at k1" "sound W n (stats_created Stat_node k1)"
      by (rule owner_view, simp) (rule sound_view [OF sound_kzalloc [OF S0 kz]], simp)
    then show ?thesis using q None S0 sound_kzalloc [OF S0 kz] own e by auto
  next
    case (Some a)
    then have r1: "r1 = Some a" using q by simp
    have fresh: "k_nodes k a = None" using mem_ok_kzalloc(2) [OF soundD(3) [OF S] kz, of a] r1 by (simp add: used_at_def)
    have x: "\<forall>b \<in> nodes_of (core_of k) p. cptr (core_of k) b \<noteq> ptr"
      using new_node_known [OF soundD(1) [OF S] p, of _ ptr R cookie] g e Some by auto
    have C: "core_ok (core_of k')" "k_refs k' = k_refs k" "k_kzalloc k' = k_kzalloc k1"
      using new_node_new [OF R soundD(1) [OF S] p x, of a k1 cookie] kz r1 fresh g e by auto
    obtain k2 i where k2: "qview k2 = qview k1" "k_nodes k2 = k_nodes k"
      "k' = k2\<lparr>k_last_id := i, k_nodes := (k_nodes k2)(a \<mapsto> fresh_node p ptr cookie i)\<rparr>"
      using q Some by auto
    have Q: "qview k2 = (qview k)\<lparr>q_mem := k_kzalloc k1\<rparr>" using k2(1) qview_kzalloc [OF kz] by simp
    have q2: "nodes_on k2 = nodes_on k" "entry_at k2 = entry_at k" "home k2 = home k" "owner_at k2 = owner_at k"
      "pool_at k2 = pool_at k" "\<And>p. (k_procs k2 p = None) = (k_procs k p = None)"
      using arg_cong [OF Q, of q_work] arg_cong [OF Q, of q_entry] arg_cong [OF Q, of q_home] arg_cong [OF Q, of q_owner]
        arg_cong [OF Q, of q_pool] arg_cong [OF Q, of q_procs] by (simp_all add: qview_simps fun_eq_iff)
    let ?k3 = "k2\<lparr>k_last_id := i\<rparr>"
    have q3: "nodes_on ?k3 = nodes_on k" "entry_at ?k3 = entry_at k" "home ?k3 = home k" "owner_at ?k3 = owner_at k"
      "pool_at ?k3 = pool_at k" "queue_ok ?k3"
    proof -
      have Q3: "qview ?k3 = qview k2" by simp
      show "nodes_on ?k3 = nodes_on k" "entry_at ?k3 = entry_at k" "home ?k3 = home k" "owner_at ?k3 = owner_at k" "pool_at ?k3 = pool_at k"
        using arg_cong [OF Q3, of q_work] arg_cong [OF Q3, of q_entry] arg_cong [OF Q3, of q_home] arg_cong [OF Q3, of q_owner]
          arg_cong [OF Q3, of q_pool] by (simp_all only: qview_simps q2)
      show "queue_ok ?k3"
        by (rule queue_ok_cong [OF soundD(2) [OF S]]) (use q2 \<open>nodes_on ?k3 = nodes_on k\<close> \<open>entry_at ?k3 = entry_at k\<close>
          \<open>home ?k3 = home k\<close> \<open>owner_at ?k3 = owner_at k\<close> in simp_all)
    qed
    have k': "k' = ?k3\<lparr>k_nodes := (k_nodes ?k3)(a \<mapsto> fresh_node p ptr cookie i)\<rparr>" unfolding k2(3) by simp
    have a3: "k_nodes ?k3 a = None" using k2(2) fresh by simp
    note add = node_added [OF q3(6) a3, of "fresh_node p ptr cookie i", folded k']
    have h': "home k' = (home k)(a \<mapsto> Some p)" using add(3) q3(3) by (simp add: fresh_node_def)
    have ow: "owner_at k' = owner_at ?k3" "pool_at k' = pool_at ?k3" "\<And>p. (k_procs k' p = None) = (k_procs k2 p = None)"
      unfolding k' by (simp_all add: fun_eq_iff owner_at_def pool_at_def)
    have "sound W n k'"
    proof (rule sound_grow [OF S, of a k1])
      show "nodes_on k' = nodes_on k" "entry_at k' = entry_at k" using add q3 by (simp_all add: fresh_node_def)
      show "home k' m = home k m \<or> m = a \<and> home k m = None \<and> (\<exists>p. home k' m = Some (Some p) \<and> k_procs k p \<noteq> None)" for m
        using h' p fresh by (simp add: home_def)
    qed (use C kz r1 ow q3 q2 in auto)
    then show ?thesis using e Some h' ow q3 by simp
  qed
qed

section \<open>Sending a binder\<close>

lemma get_node_home:
  assumes C: "core_ok (core_of k)" and g: "binder_get_node p ptr k = Ret (Some a)"
  shows "home k a = Some (Some p)"
proof -
  obtain proc where p: "k_procs k p = Some proc" using g by (auto simp: binder_get_node_def cbind_Ret_iff)
  have "find (\<lambda>a. cptr (core_of k) a = ptr) (inorder (p_nodes proc)) = Some a" using get_node_eq [OF C p, of ptr] g by simp
  then have "a \<in> set (inorder (p_nodes proc))" by (auto simp: find_Some_iff simp del: set_inorder core_of_apply)
  then have "a \<in> nodes_of (core_of k) p" using proc_trees(3) [OF C p] by simp
  then show ?thesis by (auto simp: nodes_of_def home_def)
qed

lemma sound_node_for_object:
  assumes R: "rb_ok (de_rb E)" and S: "sound W (Suc n) k"
  shows "post (Some (node_for_object A E p fp k)) (\<lambda>(x, k'). sound W n k' \<and> owner_at k' = owner_at k \<and>
    (\<forall>a. x = Some a \<longrightarrow> home k' a = Some (Some p)))"
proof -
  have S0: "sound W n k" by (rule sound_less [OF S]) simp
  have upd: "view (upd_node a (\<lambda>x. x\<lparr>n_min_priority := m, n_accept_fds := b\<rparr>) k') = view k'" for a m b k' by simp
  show ?thesis
    unfolding node_for_object_def post_simps
    by (rule post_of_cres)
      (auto simp: post_simps S0 get_node_home [OF soundD(1) [OF S]]
        intro!: post_weaken [OF sound_new_node [OF R S]] sound_view [OF _ upd] split: option.split
        simp: owner_view [OF upd] home_view [OF upd])
qed

lemma sound_translate_binder:
  assumes R: "rb_ok (de_rb E)" and S: "sound W (n + 3) k" and own: "owner_at k th = Some p"
  shows "post (Some (translate_binder A E p th q fp k)) (\<lambda>(_, k'). sound W n k' \<and> owner_at k' = owner_at k)"
proof -
  have comp: "view (complain c k') = view k'" for c k' by simp
  have last: "post (Some (cbind (binder_inc_ref r s (Some (Thread_todo th)) k2) (\<lambda>(_, k). Ret (Some fp', k))))
      (\<lambda>(_, k'). sound W n k' \<and> owner_at k' = owner_at k)"
    if S2: "sound W (Suc n) k2" "owner_at k2 = owner_at k" "k_refs k2 r = Some x" "home k2 (r_node x) = Some (Some p)" for r s k2 x fp'
  proof -
    have "post (Some (binder_inc_ref r s (Some (Thread_todo th)) k2)) (\<lambda>(_, k'). sound W n k' \<and> owner_at k' = owner_at k2)"
      by (rule sound_inc_ref_any [OF S2(1) tidy_inc_ref [OF soundD(2) [OF S2(1)], where p = p]])
        (use S2 own in \<open>auto simp: place_of_def\<close>)
    then show ?thesis unfolding post_simps by (rule post_weaken) (auto simp: post_simps S2(2))
  qed
  have ref: "post (Some (cbind (binder_get_ref_for_node (de_rb E) q a k1) (\<lambda>(ref, k). case ref of
               None \<Rightarrow> Ret (None, k)
             | Some r \<Rightarrow> cbind (of_mem (k_refs k r)) (\<lambda>ref.
                 let ty = (if ko_type fp = T_BINDER then T_HANDLE else T_WEAK_HANDLE);
                     fp = set_handle (r_desc ref) (fp\<lparr>ko_type := ty\<rparr>)
                 in cbind (binder_inc_ref r (ty = T_HANDLE) (Some (Thread_todo th)) k) (\<lambda>(_, k).
                      Ret (Some fp, k)))))) (\<lambda>(_, k'). sound W n k' \<and> owner_at k' = owner_at k)"
    if S1: "sound W (n + 2) k1" "owner_at k1 = owner_at k" "home k1 a = Some (Some p)" for k1 a
  proof -
    have S1': "sound W (Suc (Suc n)) k1" using S1(1) by simp
    show ?thesis
      unfolding post_simps
    proof (rule post_weaken [OF sound_get_ref [OF R S1']], clarify)
      fix x k2
      assume S2: "sound W (Suc n) k2" "owner_at k2 = owner_at k1" "home k2 = home k1"
        and r: "\<forall>r. x = Some r \<longrightarrow> (\<exists>s. k_refs k2 r = Some s \<and> r_node s = a)"
      have S3: "sound W n k2" by (rule sound_less [OF S2(1)]) simp
      show "post (Some (case x of None \<Rightarrow> Ret (None, k2)
             | Some r \<Rightarrow> cbind (of_mem (k_refs k2 r)) (\<lambda>ref.
                 let ty = (if ko_type fp = T_BINDER then T_HANDLE else T_WEAK_HANDLE);
                     fp = set_handle (r_desc ref) (fp\<lparr>ko_type := ty\<rparr>)
                 in cbind (binder_inc_ref r (ty = T_HANDLE) (Some (Thread_todo th)) k2) (\<lambda>(_, k).
                      Ret (Some fp, k))))) (\<lambda>(_, k'). sound W n k' \<and> owner_at k' = owner_at k)"
      proof (cases x)
        case None
        then show ?thesis using S3 S2(2) S1(2) by (simp add: post_simps)
      next
        case (Some r)
        then obtain s where s: "k_refs k2 r = Some s" "r_node s = a" using r by blast
        show ?thesis unfolding Some option.case s of_mem_simps cbind.simps Let_def
          by (rule last [OF S2(1) _ s(1)]) (use S1 S2 s in simp_all)
      qed
    qed
  qed
  have S': "sound W (Suc (n + 2)) k" using S by (simp add: numeral_3_eq_3)
  show ?thesis
    unfolding translate_binder_def post_simps
  proof (rule post_weaken [OF sound_node_for_object [OF R S']], clarify)
    fix x k1
    assume S1: "sound W (n + 2) k1" "owner_at k1 = owner_at k" "\<forall>a. x = Some a \<longrightarrow> home k1 a = Some (Some p)"
    have S0: "sound W n k1" by (rule sound_less [OF S1(1)]) simp
    show "post (Some (case x of None \<Rightarrow> Ret (None, k1)
       | Some n \<Rightarrow> cbind (of_mem (k_nodes k1 n)) (\<lambda>x.
           if ko_cookie fp \<noteq> n_cookie x then Ret (None, complain (User_error ''cookie mismatch'') k1)
           else cbind (binder_get_ref_for_node (de_rb E) q n k1) (\<lambda>(ref, k). case ref of
               None \<Rightarrow> Ret (None, k)
             | Some r \<Rightarrow> cbind (of_mem (k_refs k r)) (\<lambda>ref.
                 let ty = (if ko_type fp = T_BINDER then T_HANDLE else T_WEAK_HANDLE);
                     fp = set_handle (r_desc ref) (fp\<lparr>ko_type := ty\<rparr>)
                 in cbind (binder_inc_ref r (ty = T_HANDLE) (Some (Thread_todo th)) k) (\<lambda>(_, k).
                      Ret (Some fp, k))))))) (\<lambda>(_, k'). sound W n k' \<and> owner_at k' = owner_at k)"
    proof (cases x)
      case None
      then show ?thesis using S0 S1(2) by (simp add: post_simps)
    next
      case (Some a)
      have c: "post (Some (Ret (None :: kobj option, complain (User_error ''cookie mismatch'') k1))) (\<lambda>(_, k'). sound W n k' \<and> owner_at k' = owner_at k)"
        using sound_view [OF S0 comp] owner_view [OF comp] S1(2) by (simp add: post_simps)
      have r: "home k1 a = Some (Some p)" using S1(3) Some by simp
      show ?thesis
        unfolding Some option.case post_simps(5) post_simps(4)
        by (intro allI impI post_if) (use c ref [OF S1(1,2) r] in \<open>simp_all split: if_split\<close>)
    qed
  qed
qed

end
