(* ===== verification/Drv_Kept.thy ===== *)
theory Drv_Kept
  imports Drv_View
begin

text \<open>
  What a property of the driver's state has to be kept by, for all commands and deliveries to keep
  it: a contract with the operations on nodes and references. The property has a number, of which
  each new reference and each count takes one.
\<close>

lemma unseen_enqueue: "post (Some (enqueue A c target_thread a t tcomplete flags k)) (unseen k)"
  by (auto simp: enqueue_def Let_def post_simps unseen_pop split: option.split)

lemma unseen_log_start: "post (Some (log_start A p th reply tr k)) (\<lambda>(_, _, k'). unseen k k')"
  by (auto simp: log_start_def Let_def post_simps split: prod.split)

lemma unseen_log_target: "post (Some (log_target i e node t q k)) (\<lambda>(_, k'). unseen k k')"
  by (auto simp: log_target_def Let_def post_simps split: option.split)

lemma unseen_reply_target:
  "post (Some (reply_target E th k)) (\<lambda>r. case r of Inl (_, _, k') \<Rightarrow> unseen k k' | Inr (_, _, _, k') \<Rightarrow> unseen k k')"
  by (auto simp: reply_target_def Let_def post_simps split: option.split)

lemma unseen_call_node: "post (Some (call_node p h k)) (\<lambda>r. case r of Inl (_, _, k') \<Rightarrow> unseen k k' | Inr _ \<Rightarrow> True)"
  by (auto simp: call_node_def post_simps intro!: post_of_cres split: option.split)

lemma unseen_call_target:
  "post (call_target A p th tr i e k) (\<lambda>r. case r of Inl (_, _, k') \<Rightarrow> unseen k k' | Inr _ \<Rightarrow> True)"
  unfolding call_target_def post_simps
  by (rule post_weaken [OF unseen_call_node])
    (auto simp: post_simps split: sum.splits option.split)

lemma unseen_fail_transaction: "post (fail_transaction A th err irt k) (unseen k)"
proof -
  let ?k = "upd_thread th (\<lambda>x. x\<lparr>th_error := BR_TRANSACTION_COMPLETE\<rparr>) k"
  have "view ?k = view k" by simp
  then have "post (binder_send_failed_reply A t err ?k) (unseen k)" for t using unseen_failed_reply [of A t err ?k] by simp
  then show ?thesis by (auto simp: fail_transaction_def post_simps split: option.split)
qed

lemma unseen_queue_death: "post (Some (queue_death p th d kind k)) (unseen k)"
  by (auto simp: queue_death_def post_simps)

lemma unseen_queue_death': "view k' = view k \<Longrightarrow> post (Some (queue_death p th d kind k')) (unseen k)"
  using unseen_queue_death [of p th d kind k'] by simp

lemma unseen_clear_death: "post (Some (clear_death p th r cookie k)) (unseen k)"
  by (auto simp: clear_death_def post_simps Let_def ref_core_def intro!: unseen_queue_death' split: option.split)

lemma unseen_dead_binder_done: "post (Some (dead_binder_done p th cookie k)) (unseen k)"
  by (auto simp: dead_binder_done_def post_simps Let_def intro!: unseen_queue_death'
    post_of_cres [where m = "find_death _ _ _"] split: option.split)

lemma unseen_enter_looper: "post (Some (enter_looper th k)) (unseen k)"
  by (auto simp: enter_looper_def post_simps Let_def)

lemma unseen_next_async: "nodes_on k (Async_todo n) = [] \<Longrightarrow> post (Some (next_async n th k)) (unseen k)"
  by (auto simp: next_async_def post_simps split: list.split if_splits)

fun rs_state :: "rstep \<Rightarrow> kstate" where
  "rs_state (R_wait w r k) = k" | "rs_state (R_done r k) = k" | "rs_state (R_retry r k) = k" | "rs_state (R_error e k) = k"

lemma unseen_read_error: "view (rs_state (read_error A th thread r k)) = view k"
  by (auto simp: read_error_def Let_def split: option.split)

lemma unseen_read_complete: "read_complete A l c r k = Some (r', k') \<Longrightarrow> view k' = view k"
  by (auto simp: read_complete_def split: option.splits)

lemma unseen_read_death:
  "post (Some (read_death A p l d r k)) (\<lambda>(_, x). case x of None \<Rightarrow> True | Some (_, k') \<Rightarrow> unseen k k')"
  by (auto simp: read_death_def post_simps split: option.split)

lemma unseen_deliver: "post (Some (deliver A E p th l t r k)) (\<lambda>(_, k'). unseen k k')"
  by (auto simp: deliver_def post_simps Let_def intro!: post_of_cres [where m = "sender_pid _ _"] split: option.split)

definition bc_cost :: "bc \<Rightarrow> nat" where
  \<comment> \<open>how many new references and counts a command may need\<close>
  "bc_cost cmd = (case cmd of BC_INCREFS _ \<Rightarrow> 2 | BC_ACQUIRE _ \<Rightarrow> 2
     | BC_TRANSACTION tr \<Rightarrow> 3 * (unat (ut_offs_size tr) div 8) | BC_REPLY tr \<Rightarrow> 3 * (unat (ut_offs_size tr) div 8) | _ \<Rightarrow> 0)"

section \<open>What a message refers to\<close>

locale kept_refs =
  fixes E :: denv and P :: "nat \<Rightarrow> kstate \<Rightarrow> bool"
  assumes view: "P n k \<Longrightarrow> view k' = view k \<Longrightarrow> P n k'"
    and less: "P n k \<Longrightarrow> m \<le> n \<Longrightarrow> P m k"
    and memory: "P n k \<Longrightarrow> kzalloc k = (r, k') \<Longrightarrow> P n k'"
    and async: "P n k \<Longrightarrow> nodes_on k (Async_todo m) = []"
    and get_ref: "P (Suc n) k \<Longrightarrow> post (Some (binder_get_ref_for_node (de_rb E) q m k)) (\<lambda>(_, k'). P n k')"
    and inc_ref: "P (Suc n) k \<Longrightarrow> post (Some (binder_inc_ref x s None k)) (\<lambda>(_, k'). P n k')"
    and dec_ref: "P n k \<Longrightarrow> post (Some (binder_dec_ref (de_rb E) x s k)) (\<lambda>(_, k'). P n k')"
    and inc_node: "P n k \<Longrightarrow> post (Some (binder_inc_node m s False None k)) (\<lambda>(_, k'). P n k')"
    and dec_node: "P n k \<Longrightarrow> post (Some (binder_dec_node (de_rb E) m s False k)) (P n)"
begin

lemma unseen: "P n k \<Longrightarrow> post m (unseen k) \<Longrightarrow> post m (P n)"
  using post_weaken view by blast

lemma logged: "P n k \<Longrightarrow> P n (complain c k)"
  by (rule view) simp_all

lemma release_object:
  assumes "P n k"
  shows "post (Some (release_object E p failed fp k)) (P n)"
proof -
  have fd: "P n (k\<lparr>k_fdlog := l\<rparr>)" for l by (rule view [OF assms]) simp
  show ?thesis
    by (auto simp: release_object_def post_simps dec_ref [OF assms] dec_node [OF assms] logged [OF assms] assms fd
        intro!: post_of_cres [where m = "binder_get_node p (ko_binder fp) k"] post_of_cres [where m = "binder_get_ref p (ko_handle fp) k"]
        split: ktype.split option.split)
qed

lemma release_objects: "P n k \<Longrightarrow> post (Some (release_objects A E p failed b is k)) (P n)"
proof (induction "is" arbitrary: k)
  case (Cons i "is")
  have "post (Some (if bad_offset A b off then Ret (complain (User_error ''transaction release: bad offset'') k)
              else cbind (obj_at A b off) (\<lambda>fp. release_object E p failed fp k))) (P n)" for off
    using Cons.prems by (auto simp: post_simps logged release_object intro!: post_of_cres [where m = "obj_at A b off"])
  from post_weaken [OF this Cons.IH]
  show ?case by (auto simp: post_simps intro!: post_of_cres [where m = "obj_offset b i"])
qed (simp add: post_simps)

lemma buffer_release:
  assumes "P n k"
  shows "post (Some (binder_transaction_buffer_release A E p a failed_at k)) (P n)"
proof -
  have "post (Some (case b_node b of None \<Rightarrow> Ret k | Some m \<Rightarrow> binder_dec_node (de_rb E) m True False k)) (P n)" for b
    using assms dec_node [OF assms] by (simp add: post_simps split: option.split)
  from post_weaken [OF this release_objects]
  show ?thesis by (auto simp: binder_transaction_buffer_release_def post_simps)
qed

lemma free_kbuf: "P n k \<Longrightarrow> post (Some (free_kbuf E p a k)) (P n)"
  by (rule unseen [OF _ unseen_free_kbuf])

section \<open>Sending a message\<close>

lemma translate_handle:
  assumes k: "P (n + 2) k"
  shows "post (Some (translate_handle E p q fp k)) (\<lambda>(_, k'). P n k')"
proof -
  have k0: "P n k" and k2: "P (Suc (Suc n)) k" using k less by simp_all
  have "post (Some (case x of
                 None \<Rightarrow> Ret (None, k')
               | Some r' \<Rightarrow> cbind (of_mem (k_refs k' r')) (\<lambda>new_ref.
                   cbind (binder_inc_ref r' (ko_type fp = T_HANDLE) None k') (\<lambda>(_, k).
                     Ret (Some (set_handle (r_desc new_ref) fp), k))))) (\<lambda>(_, k'). P n k')" if "P (Suc n) k'" for x k'
    using inc_ref [OF that] less [OF that] by (cases x) (simp_all add: post_simps)
  then have other: "post (Some (binder_get_ref_for_node (de_rb E) q m k)) (\<lambda>(x, k'). post (Some (case x of
                 None \<Rightarrow> Ret (None, k')
               | Some r' \<Rightarrow> cbind (of_mem (k_refs k' r')) (\<lambda>new_ref.
                   cbind (binder_inc_ref r' (ko_type fp = T_HANDLE) None k') (\<lambda>(_, k).
                     Ret (Some (set_handle (r_desc new_ref) fp), k))))) (\<lambda>(_, k'). P n k'))" for m
    by (intro post_weaken [OF get_ref [OF k2]]) auto
  show ?thesis
    by (auto simp: translate_handle_def Let_def post_simps logged [OF k0] inc_node [OF k0] other
      intro!: post_of_cres [where m = "binder_get_ref p (ko_handle fp) k"] split: option.split)
qed

lemma translate_fd: "P n k \<Longrightarrow> P n (snd (translate_fd E q ok fp k))"
  by (erule view) (auto simp: translate_fd_def next_fd_def split: list.split)

end

text \<open>
  A thread that calls for its process: what it sends to itself goes to its own list, it may enter
  the pool, and it takes work.
\<close>

locale kept_call = kept_refs +
  fixes p :: nat and th :: nat
  assumes send_binder: "P (n + 3) k \<Longrightarrow> post (Some (translate_binder A E p th q fp k)) (\<lambda>(_, k'). P n k')"
    and pool: "P n k \<Longrightarrow> post (Some (register_looper p th k)) (P n)"
    and node_work: "P n k \<Longrightarrow> next_work w p th k = Ret (Some (l, W_node m)) \<Longrightarrow>
      post (Some (read_node A E p l m r k)) (\<lambda>(_, k'). P n k')"
begin

lemma translate_object:
  assumes c: "tc_proc c = p" "tc_thread c = th" and k: "P (n + 3) k"
  shows "post (Some (translate_object A E c fp k)) (\<lambda>(_, k'). P n k')"
proof -
  have k2: "P (n + 2) k" and k0: "P n k" using k less by simp_all
  have fd: "case translate_fd E (tc_target c) ok fp k of (_, k') \<Rightarrow> P n k'" for ok
    using translate_fd [OF k0, of "tc_target c" ok fp] by (cases "translate_fd E (tc_target c) ok fp k") simp
  show ?thesis
    unfolding translate_object_def
    by (auto simp: post_simps send_binder [OF k] translate_handle [OF k2] logged [OF k0] c fd
      intro!: post_of_cres [where m = "fds_allowed A c k"] split: ktype.split)
qed

lemma translate_objects:
  assumes c: "tc_proc c = p" "tc_thread c = th"
  shows "P (n + 3 * length is) k \<Longrightarrow> post (Some (translate_objects A E c a is k)) (\<lambda>(_, k'). P n k')"
proof (induction "is" arbitrary: k)
  case (Cons i "is")
  let ?m = "n + 3 * length is"
  have k: "P (?m + 3) k" using Cons.prems by (simp add: algebra_simps)
  then have k0: "P n k" using less by simp
  have upd: "P ?m k' \<Longrightarrow> P ?m (upd_kbuf q a f k')" for q a f k' by (rule view) simp_all
  have "post (Some (translate_object A E c fp k)) (\<lambda>(r, k). post (Some (case r of
             None \<Rightarrow> Ret (Some i, k)
           | Some fp \<Rightarrow>
               cbind (of_mem (store (b_mem b) (unat off) (ka_put A fp))) (\<lambda>m.
                 translate_objects A E c a is (upd_kbuf (tc_target c) a (\<lambda>b. b\<lparr>b_mem := m\<rparr>) k)))) (\<lambda>(_, k'). P n k'))" for fp b off
  proof (rule post_weaken [OF translate_object [OF c k]], clarify)
    fix r k' assume k': "P ?m k'"
    then have "P n k'" using less by simp
    then show "post (Some (case r of
             None \<Rightarrow> Ret (Some i, k')
           | Some fp \<Rightarrow>
               cbind (of_mem (store (b_mem b) (unat off) (ka_put A fp))) (\<lambda>m.
                 translate_objects A E c a is (upd_kbuf (tc_target c) a (\<lambda>b. b\<lparr>b_mem := m\<rparr>) k')))) (\<lambda>(_, k'). P n k')"
      using Cons.IH [OF upd [OF k']] by (auto simp: post_simps split: option.split)
  qed
  note rest = this
  show ?case
    by (auto simp: post_simps logged [OF k0] rest intro!: post_of_cres [where m = "obj_offset _ _"] post_of_cres [where m = "obj_at _ _ _"])
qed (simp add: post_simps)

lemma fill_buffer:
  assumes c: "tc_proc c = p" "tc_thread c = th" and k: "P (n + 3 * (unat (ut_offs_size tr) div 8)) k"
  shows "post (Some (fill_buffer A E c a t i tr k)) (\<lambda>(_, k'). P n k')"
proof -
  let ?m = "n + 3 * (unat (ut_offs_size tr) div 8)"
  let ?k = "upd_kbuf (tc_target c) a (\<lambda>b. b\<lparr>b_user_free := False, b_debug_id := i, b_txn := Some t, b_node := tc_node c\<rparr>) k"
  have k1: "P ?m ?k" by (rule view [OF k]) simp
  have upd: "P ?m k' \<Longrightarrow> P ?m (upd_kbuf q a f k')" "P ?m k' \<Longrightarrow> P n (upd_kbuf q a f k')" for q a f k'
  proof -
    assume "P ?m k'"
    then show "P ?m (upd_kbuf q a f k')" by (rule view) simp
    then show "P n (upd_kbuf q a f k')" by (rule less) simp
  qed
  have "post (Some (case tc_node c of
           None \<Rightarrow> Ret ?k
         | Some n \<Rightarrow> cbind (binder_inc_node n True False None ?k) (\<lambda>(_, k). Ret k))) (P ?m)"
    using k1 inc_node [OF k1] by (auto simp: post_simps split: option.split)
  moreover have "P n k'" if "P ?m k'" for k' using less [OF that] by simp
  moreover have "post (Some (translate_objects A E c a [0..<unat (ut_offs_size tr) div 8] (upd_kbuf q a f k'))) (\<lambda>(_, k'). P n k')"
    if "P ?m k'" for k' q f
    by (rule translate_objects [OF c]) (simp add: upd(1) [OF that])
  ultimately show ?thesis
    unfolding fill_buffer_def Let_def post_simps
    by (elim post_weaken) (auto simp: post_simps logged upd(2) split: option.split)
qed

lemma undo_buffer:
  assumes "P n k"
  shows "post (Some (undo_buffer A E q a i k)) (P n)"
proof -
  have upd: "P n k' \<Longrightarrow> P n (upd_kbuf q a f k')" for f k' by (rule view) simp_all
  show ?thesis
    unfolding undo_buffer_def post_simps
    by (rule post_weaken [OF buffer_release [OF assms]]) (rule free_kbuf [OF upd])
qed

lemma send_message:
  assumes c: "tc_proc c = p" "tc_thread c = th" and k: "P (n + 3 * (unat (ut_offs_size tr) div 8)) k"
  shows "post (Some (send_message A E c target_thread tr lg k)) (\<lambda>(_, k'). P n k')"
proof -
  let ?m = "n + 3 * (unat (ut_offs_size tr) div 8)"
  have le: "P ?m k' \<Longrightarrow> P n k'" for k' by (erule less) simp
  have two: "post (Some (cbind (alloc_kbuf A E (tc_target c) tr async k') (\<lambda>(r, k).
                       case r of
                         None \<Rightarrow> Ret (Some BR_FAILED_REPLY, undo_alloc t tcomplete k)
                       | Some a \<Rightarrow>
                           let k = upd_txn t (\<lambda>x. x\<lparr>t_buffer := Some (tc_target c, a)\<rparr>) k
                           in cbind (fill_buffer A E c a t i tr k) (\<lambda>(failed, k). case failed of
                                Some j \<Rightarrow> cbind (undo_buffer A E (tc_target c) a j k) (\<lambda>k.
                                  Ret (Some BR_FAILED_REPLY, undo_alloc t tcomplete k))
                              | None \<Rightarrow> cbind (enqueue A c target_thread a t tcomplete (ut_flags tr) k) (\<lambda>k.
                                  Ret (None, k)))))) (\<lambda>(_, k'). P n k')"
    if k': "P ?m k'" for async k' t tcomplete i
  proof -
    have undo: "post (Some (undo_buffer A E q a j k2)) (\<lambda>k3. P n (undo_alloc t tcomplete k3))" if "P n k2" for q a j k2
      by (rule post_weaken [OF undo_buffer [OF that]]) (erule view, simp)
    have enq: "post (Some (enqueue A c target_thread a t tcomplete flags k2)) (P n)" if "P n k2" for a flags k2
      by (rule unseen [OF that unseen_enqueue])
    have fill: "post (Some (fill_buffer A E c a t i tr k2)) (\<lambda>(x, k3).
        (x = None \<longrightarrow> post (Some (enqueue A c target_thread a t tcomplete (ut_flags tr) k3)) (P n)) \<and>
        (\<forall>j. x = Some j \<longrightarrow> post (Some (undo_buffer A E (tc_target c) a j k3)) (\<lambda>x. P n (undo_alloc t tcomplete x))))"
      if "P ?m k2" for a k2
      by (rule post_weaken [OF fill_buffer [OF c that]]) (auto simp: undo enq)
    have view': "P ?m k3" if "view k3 = view k'" for k3 by (rule view [OF k' that])
    show ?thesis
      unfolding post_simps
      by (rule post_weaken [OF unseen_alloc_kbuf]) (auto simp: post_simps Let_def fill view' le split: option.split)
  qed
  obtain r1 k1 where kz: "kzalloc k = (r1, k1)" by fastforce
  have k1: "P ?m k1" by (rule memory [OF k kz])
  obtain r2 k2 where kz2: "kzalloc (stats_created Stat_transaction k1) = (r2, k2)" by fastforce
  have k2: "P ?m k2" by (rule memory [OF view [OF k1] kz2]) simp
  have v2: "P ?m k3" if "view k3 = view k2" for k3 by (rule view [OF k2 that])
  have v2n: "P n k3" if "view k3 = view k2" for k3 by (rule le [OF v2 [OF that]])
  show ?thesis
  proof (cases r1)
    case None
    then show ?thesis using le [OF k1] by (simp add: send_message_def kz post_simps)
  next
    case (Some t)
    note r1 = this
    show ?thesis
    proof (cases r2)
      case None
      then show ?thesis using v2n by (simp add: send_message_def kz r1 kz2 Let_def post_simps)
    next
      case (Some tcomplete)
      show ?thesis
        unfolding send_message_def Let_def kz prod.case r1 option.case kz2 Some
        by (rule two [unfolded Let_def], rule v2) simp
    qed
  qed
qed

lemma send_to:
  assumes k: "P (n + 3 * (unat (ut_offs_size tr) div 8)) k"
  shows "post (send_to A E p th tr i e irt target_thread q node k) (P n)"
proof -
  have fail: "post (fail_transaction A th err irt (log_failure i k')) (P n)" if "P n k'" for err k'
    by (rule unseen [OF view [OF that] unseen_fail_transaction]) simp
  have "post (Some (send_message A E \<lparr>tc_proc = p, tc_thread = th, tc_target = q, tc_node = node, tc_reply = irt\<rparr> target_thread tr lg k'))
      (\<lambda>(err, k). post (case err of None \<Rightarrow> ret k | Some error \<Rightarrow> fail_transaction A th error irt (log_failure i k)) (P n))"
    if "view k' = view k" for lg k'
    by (rule post_weaken [OF send_message [OF _ _ view [OF k that]]]) (auto simp: post_simps fail split: option.split)
  note msg = this
  show ?thesis
    unfolding send_to_def post_simps by (rule post_weaken [OF unseen_log_target]) (auto simp: msg)
qed

lemma transaction:
  assumes k: "P (n + 3 * (unat (ut_offs_size tr) div 8)) k"
  shows "post (binder_transaction A E p th tr reply k) (P n)"
proof -
  let ?m = "n + 3 * (unat (ut_offs_size tr) div 8)"
  have fail: "post (fail_transaction A th err irt (log_failure i k')) (P n)" if "view k' = view k" for err irt i k'
  proof (rule unseen [OF view unseen_fail_transaction])
    show "P n k" using k less by simp
    show "view (log_failure i k') = view k" using that by simp
  qed
  have send: "post (send_to A E p th tr i e irt t q node k') (P n)" if "view k' = view k" for i e irt t q node k'
    by (rule send_to [OF view [OF k that]])
  have rep: "post (Some (reply_target E th k')) (\<lambda>r. post (case r of
             Inl (error, irt, k) \<Rightarrow> fail_transaction A th error irt (log_failure i k)
           | Inr (target, q, irt, k) \<Rightarrow> send_to A E p th tr i e (Some irt) (Some target) q None k) (P n))"
    if "view k' = view k" for k' i e
    by (rule post_weaken [OF unseen_reply_target]) (auto simp: that fail send split: sum.splits)
  have call: "post (call_target A p th tr i e k') (\<lambda>r. post (case r of
             Inl (error, irt, k) \<Rightarrow> fail_transaction A th error irt (log_failure i k)
           | Inr (target_thread, q, n) \<Rightarrow> send_to A E p th tr i e None target_thread q (Some n) k') (P n))"
    if "view k' = view k" for k' i e
    by (rule post_weaken [OF unseen_call_target]) (auto simp: that fail send split: sum.splits)
  show ?thesis
    unfolding binder_transaction_def post_simps
    by (rule post_weaken [OF unseen_log_start]) (auto simp: post_simps rep call)
qed

section \<open>Commands\<close>

lemma ref_command:
  assumes k: "P (n + (if inc then 2 else 0)) k"
  shows "post (Some (ref_command E p inc strong target k)) (P n)"
proof -
  let ?m = "n + (if inc then 1 else 0)"
  let ?lookup = "case (if target = 0 \<and> inc then k_mgr k else None) of
         Some m \<Rightarrow> cbind (binder_get_ref_for_node (de_rb E) p m k) (\<lambda>(ref, k).
           cbind (of_mem ref) (\<lambda>r. cbind (of_mem (k_refs k r)) (\<lambda>x.
             Ret (Some r, if r_desc x \<noteq> target
                  then complain (User_error ''tried to acquire reference to desc 0'') k else k))))
       | None \<Rightarrow> cbind (binder_get_ref p target k) (\<lambda>ref. Ret (ref, k))"
  have km: "P ?m k" by (rule less [OF k]) simp
  have look: "post (Some ?lookup) (\<lambda>(_, k'). P ?m k')"
  proof (cases "if target = 0 \<and> inc then k_mgr k else None")
    case None
    then show ?thesis using km by (simp add: post_simps)
  next
    case (Some m)
    then have inc by (auto split: if_splits)
    then have k2: "P (Suc (n + 1)) k" using k by simp
    show ?thesis
      unfolding Some option.case post_simps
      by (rule post_weaken [OF get_ref [OF k2]]) (auto simp: post_simps \<open>inc\<close> logged)
  qed
  have "P n k'" if "P ?m k'" for k' by (rule less [OF that]) simp
  then show ?thesis
    unfolding ref_command_def post_simps
    by (intro post_weaken [OF look]) (auto simp: post_simps logged intro!: inc_ref dec_ref split: option.split)
qed

lemma done_command:
  assumes k: "P n k"
  shows "post (Some (done_command E p strong ptr cookie k)) (P n)"
proof -
  have v: "P n (upd_node m (\<lambda>x. if strong then x\<lparr>n_pending_strong := False\<rparr> else x\<lparr>n_pending_weak := False\<rparr>) k)" for m
    by (rule view [OF k]) (cases strong; simp)
  show ?thesis
    by (auto simp: done_command_def post_simps logged [OF k] dec_node [OF v]
      intro!: post_of_cres [where m = "binder_get_node p ptr k"] split: option.split)
qed

lemma free_buffer_command:
  assumes k: "P n k"
  shows "post (Some (free_buffer_command A E p th ptr k)) (P n)"
proof -
  have rel: "post (Some (cbind (binder_transaction_buffer_release A E p a None k') (\<lambda>k. free_kbuf E p a k))) (P n)" if "P n k'" for a k'
    unfolding post_simps by (rule post_weaken [OF buffer_release [OF that]]) (rule free_kbuf)
  have next1: "post (Some (case m of None \<Rightarrow> Ret k' | Some n \<Rightarrow> next_async n th k'))
      (\<lambda>k. post (Some (cbind (binder_transaction_buffer_release A E p a None k) (\<lambda>k. free_kbuf E p a k))) (P n))"
    if k': "P n k'" for m a k'
  proof (rule post_weaken [of _ "P n"])
    show "post (Some (case m of None \<Rightarrow> Ret k' | Some n \<Rightarrow> next_async n th k')) (P n)"
      using k' unseen [OF k' unseen_next_async [OF async [OF k']]] by (simp add: post_simps split: option.split)
  qed (rule rel)
  have txn: "post (Some (case tx of
                 None \<Rightarrow> Ret k
               | Some t \<Rightarrow> cbind (of_mem (k_txns k t)) (\<lambda>_.
                   Ret (upd_kbuf p a (\<lambda>b. b\<lparr>b_txn := None\<rparr>) (upd_txn t (\<lambda>x. x\<lparr>t_buffer := None\<rparr>) k))))) (P n)" for tx a
    using k view [OF k] by (simp add: post_simps split: option.split)
  show ?thesis
    unfolding free_buffer_command_def
  proof (simp only: post_simps, intro allI impI, rule post_of_cres)
    fix proc buffer assume "binder_buffer_lookup (p_alloc proc) ptr = Ret buffer"
    show "post (Some (case buffer of
         None \<Rightarrow> Ret (complain (User_error ''BC_FREE_BUFFER no match'') k)
       | Some a \<Rightarrow> cbind (of_mem (kbuf p a k)) (\<lambda>b.
           if \<not> b_user_free b then Ret (complain (User_error ''BC_FREE_BUFFER matched unreturned buffer'') k)
           else
             cbind (case b_txn b of
                 None \<Rightarrow> Ret k
               | Some t \<Rightarrow> cbind (of_mem (k_txns k t)) (\<lambda>_.
                   Ret (upd_kbuf p a (\<lambda>b. b\<lparr>b_txn := None\<rparr>) (upd_txn t (\<lambda>x. x\<lparr>t_buffer := None\<rparr>) k)))) (\<lambda>k.
             cbind (case (if b_async b then b_node b else None) of
                 None \<Rightarrow> Ret k
               | Some n \<Rightarrow> next_async n th k) (\<lambda>k.
             cbind (binder_transaction_buffer_release A E p a None k) (\<lambda>k. free_kbuf E p a k)))))) (P n)"
    proof (cases buffer)
      case None
      then show ?thesis by (simp add: post_simps logged [OF k])
    next
      case (Some a)
      have "post (Some (cbind (case b_txn b of
                 None \<Rightarrow> Ret k
               | Some t \<Rightarrow> cbind (of_mem (k_txns k t)) (\<lambda>_.
                   Ret (upd_kbuf p a (\<lambda>b. b\<lparr>b_txn := None\<rparr>) (upd_txn t (\<lambda>x. x\<lparr>t_buffer := None\<rparr>) k)))) (\<lambda>k.
             cbind (case (if b_async b then b_node b else None) of
                 None \<Rightarrow> Ret k
               | Some n \<Rightarrow> next_async n th k) (\<lambda>k.
             cbind (binder_transaction_buffer_release A E p a None k) (\<lambda>k. free_kbuf E p a k))))) (P n)" for b
        by (subst post_cbind, rule post_weaken [OF txn], subst post_cbind, rule next1)
      note go = this
      show ?thesis
        unfolding Some option.case post_mem post_cbind [where m = "of_mem _"]
        by (intro allI impI, rename_tac b, case_tac "b_user_free b")
          (simp_all only: simp_thms if_True if_False post_Ret logged [OF k] go)
    qed
  qed
qed

lemma request_death:
  assumes k: "P n k"
  shows "post (Some (request_death p th r cookie k)) (P n)"
proof -
  obtain d k1 where kz: "kzalloc k = (d, k1)" by fastforce
  have k1: "P n k1" by (rule memory [OF k kz])
  have v: "P n k2" if "view k2 = view k1" for k2 by (rule view [OF k1 that])
  have q: "post (Some (queue_death p th d' kind k2)) (P n)" if "view k2 = view k1" for d' kind k2
    by (rule unseen [OF v [OF that] unseen_queue_death])
  show ?thesis
    by (auto simp: request_death_def kz post_simps Let_def logged [OF k] intro!: v q split: option.split)
qed

lemma death_command: "P n k \<Longrightarrow> post (Some (death_command request p th target cookie k)) (P n)"
  by (auto simp: death_command_def post_simps logged request_death unseen [OF _ unseen_clear_death]
    intro!: post_of_cres [where m = "binder_get_ref p target k"] split: option.split)

lemma exec:
  assumes k: "P (n + bc_cost cmd) k"
  shows "post (bc_exec A E p th cmd k) (\<lambda>(_, k'). P n k')"
proof -
  have k0: "P n k" by (rule less [OF k]) simp
  have look: "P n (looper_or th bits k)" for bits by (rule view [OF k0]) simp
  have ok: "post (rbind (Some m) (\<lambda>k. ret (0, k))) (\<lambda>(_, k'). P n k')" if "post (Some m) (P n)" for m
    using that by (simp add: post_simps)
  have txn: "post (rbind (binder_transaction A E p th tr reply k) (\<lambda>k. ret (0, k))) (\<lambda>(_, k'). P n k')"
    if "P (n + 3 * (unat (ut_offs_size tr) div 8)) k" for tr reply
    using transaction [OF that] by (simp add: post_simps)
  have no: "post (ret (e, complain c k)) (\<lambda>(_, k'). P n k')" for e c by (simp add: post_simps logged [OF k0])
  show ?thesis
  proof (cases cmd)
    case (BC_TRANSACTION tr)
    then show ?thesis using k txn by (simp add: bc_exec_def bc_cost_def)
  next
    case (BC_REPLY tr)
    then show ?thesis using k txn by (simp add: bc_exec_def bc_cost_def)
  next
    case (BC_INCREFS t)
    then show ?thesis using k by (simp add: bc_exec_def bc_cost_def) (rule ok [OF ref_command], simp)
  next
    case (BC_ACQUIRE t)
    then show ?thesis using k by (simp add: bc_exec_def bc_cost_def) (rule ok [OF ref_command], simp)
  next
    case (BC_RELEASE t)
    then show ?thesis using k0 by (simp add: bc_exec_def) (rule ok [OF ref_command], simp)
  next
    case (BC_DECREFS t)
    then show ?thesis using k0 by (simp add: bc_exec_def) (rule ok [OF ref_command], simp)
  qed (simp_all add: bc_exec_def Let_def no ok done_command [OF k0] free_buffer_command [OF k0] pool [OF k0] death_command [OF k0]
    unseen [OF k0 unseen_enter_looper] unseen [OF k0 unseen_dead_binder_done] look logged [OF k0] post_Ret del: One_nat_def)
qed

text \<open>A whole write buffer; each command takes at least one byte.\<close>

lemma bc_size_pos: "0 < bc_size A cmd"
  by (cases cmd) simp_all

lemma thread_write:
  assumes fetch: "\<And>i cmd. fetch i = Some cmd \<Longrightarrow> bc_cost cmd \<le> C"
  shows "P (n + C * (need - consumed)) k \<Longrightarrow> post (binder_thread_write A E p th fetch need consumed k) (\<lambda>(_, _, k'). P n k')"
proof (rule post_any, rule binder_thread_write.raw_induct [where P = "\<lambda>A E' p' th' fetch' need consumed k y.
    E' = E \<longrightarrow> p' = p \<longrightarrow> th' = th \<longrightarrow> fetch' = fetch \<longrightarrow> P (n + C * (need - consumed)) k \<longrightarrow> post (Some y) (\<lambda>(_, _, k'). P n k')", rule_format],
    goal_cases)
  case (1 _ bw A E' p' th' fetch' need consumed k r)
  note eqs = 1(5-8) and k = 1(9)
  have IH: "post (bw A E p th fetch need c k') (\<lambda>(_, _, k'). P n k')" if "P (n + C * (need - c)) k'" for c k'
    by (rule post_any, rule 1(3) [OF _ refl refl refl refl that]) (simp add: eqs)
  have k0: "P n k" by (rule less [OF k]) simp
  have step: "post (bc_exec A E p th cmd k) (\<lambda>(err, k'). post (if err \<noteq> 0 then ret (err, consumed, k')
              else bw A E p th fetch need (consumed + bc_size A cmd) k') (\<lambda>(_, _, k'). P n k'))"
    if f: "fetch consumed = Some cmd" and c: "consumed < need" for cmd
  proof -
    let ?d = "need - (consumed + bc_size A cmd)"
    have "?d + 1 \<le> need - consumed" using bc_size_pos [of A cmd] c by simp
    then have "C * (?d + 1) \<le> C * (need - consumed)" by (rule mult_le_mono2)
    then have "n + C * ?d + bc_cost cmd \<le> n + C * (need - consumed)" using fetch [OF f] by (simp add: algebra_simps)
    then have "P (n + C * ?d + bc_cost cmd) k" by (rule less [OF k])
    note k1 = this
    show ?thesis
    proof (rule post_weaken [OF exec [OF k1]], clarify)
      fix err k' assume k': "P (n + C * ?d) k'"
      then have "P n k'" by (rule less) simp
      then show "post (if err \<noteq> 0 then ret (err, consumed, k')
              else bw A E p th fetch need (consumed + bc_size A cmd) k') (\<lambda>(_, _, k'). P n k')"
        using IH [OF k'] by (auto simp: post_simps)
    qed
  qed
  show ?case
    unfolding 1(4) [symmetric] eqs
    using k0 by (auto simp: post_simps step split: option.split)
qed simp_all

section \<open>Deliveries\<close>

lemma read_loop: "P n k \<Longrightarrow> post (read_loop A E p th w r k) (\<lambda>s. P n (rs_state s))"
proof (rule post_any, rule read_loop.raw_induct [where P = "\<lambda>A E' p' th' w r k y.
    E' = E \<longrightarrow> p' = p \<longrightarrow> th' = th \<longrightarrow> P n k \<longrightarrow> post (Some y) (\<lambda>s. P n (rs_state s))", rule_format],
    goal_cases)
  case (1 _ rl A E' p' th' w r k y)
  note eqs = 1(5-7) and k = 1(8)
  have IH: "post (rl A E p th w r k') (\<lambda>s. P n (rs_state s))" if "P n k'" for r k'
    by (rule post_any, rule 1(3) [OF _ refl refl refl that]) (simp add: eqs)
  have v: "P n k'" if "view k' = view k" for k' by (rule view [OF k that])
  have del: "post (Some (deliver A E p th l t r k)) (\<lambda>(r', k'). post (case r' of
                   None \<Rightarrow> ret (R_error E_FAULT k') | Some r' \<Rightarrow> ret (R_done r' k')) (\<lambda>s. P n (rs_state s)))" for l t
    by (rule post_weaken [OF unseen_deliver]) (auto simp: post_simps v split: option.split)
  have compl: "post (case read_complete A l c r k of None \<Rightarrow> ret (R_error E_FAULT k) | Some (r', k) \<Rightarrow> rl A E p th w r' k) (\<lambda>s. P n (rs_state s))" for l c
    using k by (auto simp: post_simps intro!: IH v dest: unseen_read_complete split: option.split)
  have node: "post (Some (read_node A E p l m r k)) (\<lambda>(r', k').
      (r' = None \<longrightarrow> P n k') \<and> (\<forall>x. r' = Some x \<longrightarrow> post (rl A E p th w x k') (\<lambda>s. P n (rs_state s))))"
    if "next_work w p th k = Ret (Some (l, W_node m))" for l m
    by (rule post_weaken [OF node_work [OF k that]]) (auto simp: IH)
  have death: "post (Some (read_death A p l d r k)) (\<lambda>(ends, r'). post (case r' of
                   None \<Rightarrow> ret (R_error E_FAULT k)
                 | Some (r', k) \<Rightarrow> if ends then ret (R_done r' k) else rl A E p th w r' k) (\<lambda>s. P n (rs_state s)))" for l d
    by (rule post_weaken [OF unseen_read_death]) (auto simp: post_simps k intro!: IH v split: option.split)
  show ?case
    unfolding 1(4) [symmetric] eqs
    by (auto simp: post_simps k IH del compl node death
      intro!: post_of_cres [where m = "next_work w p th k"] split: option.split work.split)
qed simp_all

end

end
