(* ===== verification/Drv_Run.thy ===== *)
theory Drv_Run
  imports Drv_Sound Drv_Kept
begin

text \<open>
  The invariant over everything the driver does: commands, deliveries and waits, the end of threads
  and of processes, in any order of the calls of all processes.
\<close>

section \<open>Counters of the pool\<close>

lemma sound_counters:
  assumes S: "sound W n k"
    and f: "\<And>x. proc_core (f x) = proc_core x" "\<And>x. p_todo (f x) = p_todo x" "\<And>x. p_delivered (f x) = p_delivered x"
      "\<And>x. p_threads (f x) = p_threads x"
    and W: "\<And>q. q \<noteq> p \<Longrightarrow> po_waits W' q = po_waits W q" "po_before W' = po_before W" "po_leaving W' = po_leaving W"
    and c: "\<And>x. k_procs k p = Some x \<Longrightarrow> 0 \<le> p_requested (f x) \<and> p_requested (f x) \<le> 1 \<and> 0 \<le> p_started (f x) \<and>
      p_started (f x) + p_requested (f x) \<le> max (p_max_threads (f x)) (po_before W p) \<and> p_ready (f x) = int (po_waits W' p)"
      "k_procs k p \<noteq> None"
  shows "sound W' n (upd_proc p f k)" "owner_at (upd_proc p f k) = owner_at k"
proof -
  let ?k = "upd_proc p f k"
  have C: "core_of ?k = core_of k" by (rule core_upd_proc) (rule f(1))
  show own: "owner_at ?k = owner_at k" by (simp add: fun_eq_iff owner_at_def upd_proc_def)
  have Q: "queue_ok ?k"
  proof (rule queue_ok_cong [OF soundD(2) [OF S]])
    show "nodes_on ?k = nodes_on k" by (rule nodes_on_cong) (simp_all add: upd_proc_def option.map_comp comp_def f)
    show "entry_at ?k = entry_at k" "home ?k = home k" by (simp_all add: fun_eq_iff entry_at_def home_def upd_proc_def)
  qed (simp_all add: own, simp add: upd_proc_def)
  have "used_at ?k = used_at k" by (rule ext) (auto simp: used_at_def upd_proc_def)
  then have M: "mem_ok ?k" using soundD(3) [OF S] by (simp add: mem_ok_def upd_proc_def)
  have R: "room n ?k" using soundD(4) [OF S] 
    unfolding room_def C by (simp add: upd_proc_def)
  have P: "pool_ok W' ?k"
    unfolding pool_ok_def
  proof (intro conjI allI impI)
    have other: "pool_at ?k q = pool_at k q" if "q \<noteq> p" for q using that by (simp add: pool_at_def upd_proc_def)
    fix q
    have "pool_at ?k q = Some (m, r, s, d, T) \<Longrightarrow> 0 \<le> r \<and> r \<le> 1 \<and> 0 \<le> s \<and> s + r \<le> max m (po_before W' q) \<and>
        d = int (po_waits W' q) \<and> distinct (inorder T) \<and> set (inorder T) = {t. owner_at ?k t = Some q \<and> t \<notin> po_leaving W'}" for m r s d T
    proof (cases "q = p")
      case True
      assume q: "pool_at ?k q = Some (m, r, s, d, T)"
      then obtain x where x: "k_procs k p = Some x" "m = p_max_threads (f x)" "r = p_requested (f x)" "s = p_started (f x)"
        "d = p_ready (f x)" "T = p_threads x" using True by (auto simp: pool_at_def upd_proc_def f)
      then have "pool_at k p = Some (p_max_threads x, p_requested x, p_started x, p_ready x, T)" by (simp add: pool_at_def)
      then have "distinct (inorder T) \<and> set (inorder T) = {t. owner_at k t = Some p \<and> t \<notin> po_leaving W}"
        using soundD(5) [OF S] unfolding pool_ok_def by blast
      then show ?thesis using c(1) [OF x(1)] x True by (simp add: own W(2,3))
    next
      case False
      then show "pool_at ?k q = Some (m, r, s, d, T) \<Longrightarrow> ?thesis"
        unfolding other [OF False] W(1) [OF False] W(2,3) own using soundD(5) [OF S] unfolding pool_ok_def by blast
    qed
    then show "0 \<le> r" "r \<le> 1" "0 \<le> s" "s + r \<le> max m (po_before W' q)" "d = int (po_waits W' q)" "distinct (inorder T)"
      "set (inorder T) = {t. owner_at ?k t = Some q \<and> t \<notin> po_leaving W'}" if "pool_at ?k q = Some (m, r, s, d, T)" for m r s d T
      using that by blast+
    have none: "pool_at ?k q = None \<Longrightarrow> pool_at k q = None" by (simp add: pool_at_def upd_proc_def split: if_splits)
    show "po_waits W' q = 0" if "pool_at ?k q = None"
    proof (cases "q = p")
      case True
      then show ?thesis using that c(2) by (auto simp: pool_at_def upd_proc_def)
    next
      case False
      then show ?thesis using that soundD(5) [OF S] unfolding other [OF False] W(1) [OF False] pool_ok_def by blast
    qed
    show "owner_at ?k t \<noteq> Some q" if "pool_at ?k q = None" for t
      using none [OF that] soundD(5) [OF S] unfolding own pool_ok_def by blast
  qed
  show "sound W' n ?k" using C Q M R P soundD(1) [OF S] by (simp add: sound_def)
qed

lemma pool_now:
  assumes "sound W n k" "k_procs k p = Some x"
  shows "0 \<le> p_requested x" "p_requested x \<le> 1" "0 \<le> p_started x"
    "p_started x + p_requested x \<le> max (p_max_threads x) (po_before W p)" "p_ready x = int (po_waits W p)"
    "distinct (inorder (p_threads x))" "set (inorder (p_threads x)) = {t. owner_at k t = Some p \<and> t \<notin> po_leaving W}"
proof -
  have "pool_at k p = Some (p_max_threads x, p_requested x, p_started x, p_ready x, p_threads x)"
    using assms(2) by (simp add: pool_at_def)
  note P = soundD(5) [OF assms(1), unfolded pool_ok_def, THEN conjunct1, rule_format, OF this]
  show "0 \<le> p_requested x" "p_requested x \<le> 1" "0 \<le> p_started x"
    "p_started x + p_requested x \<le> max (p_max_threads x) (po_before W p)" "p_ready x = int (po_waits W p)"
    "distinct (inorder (p_threads x))" "set (inorder (p_threads x)) = {t. owner_at k t = Some p \<and> t \<notin> po_leaving W}"
    using P by blast+
qed

lemma owner_live:
  assumes "sound W n k" "owner_at k t = Some p"
  shows "k_procs k p \<noteq> None"
proof
  assume "k_procs k p = None"
  then have "pool_at k p = None" by (simp add: pool_at_def)
  then show False using soundD(5) [OF assms(1)] assms(2) unfolding pool_ok_def by blast
qed

lemma sound_register:
  assumes S: "sound W n k"
  shows "post (Some (register_looper p th k)) (\<lambda>k'. sound W n k' \<and> owner_at k' = owner_at k)"
proof -
  have v: "sound W n (looper_or th b k') \<and> owner_at (looper_or th b k') = owner_at k" if "sound W n k' \<and> owner_at k' = owner_at k" for b k'
    using that sound_view [of W n k' "looper_or th b k'"] owner_view [of "looper_or th b k'" k'] by simp
  have inv: "sound W n (complain c (looper_or th b k)) \<and> owner_at (complain c (looper_or th b k)) = owner_at k" for c b
    using sound_view [OF S] owner_view [of "complain c (looper_or th b k)" k] by simp
  have dec: "sound W n (upd_proc p (\<lambda>x. x\<lparr>p_requested := p_requested x - 1, p_started := p_started x + 1\<rparr>) k) \<and>
      owner_at (upd_proc p (\<lambda>x. x\<lparr>p_requested := p_requested x - 1, p_started := p_started x + 1\<rparr>) k) = owner_at k"
    if "k_procs k p = Some x" "p_requested x \<noteq> 0" for x
    using sound_counters [OF S, of "\<lambda>x. x\<lparr>p_requested := p_requested x - 1, p_started := p_started x + 1\<rparr>" p W]
      pool_now [OF S that(1)] that by (simp add: proc_core_def)
  show ?thesis
    by (auto simp: register_looper_def post_simps Let_def v inv dec)
qed

section \<open>Work of nodes\<close>

lemma take_is_delete:
  assumes Q: "queue_ok k" and e: "entry_at k n = Some l"
  shows "qview (take_work l (W_node n) k) = qview (list_del_init (W_node n) k)" "core_of (take_work l (W_node n) k) = core_of k"
    "k_refs (take_work l (W_node n) k) = k_refs k"
proof -
  have w: "list_del_init (W_node n) k = set_entry (W_node n) None (upd_list l (filter (\<lambda>v. v \<noteq> W_node n)) k)"
    using e by (simp add: list_del_init_def entry_at_def split: option.splits del: set_entry.simps)
  have d: "distinct (nodes_on k l)" by (rule queue_okD(1) [OF Q])
  have 1: "nodes_on (upd_list l (remove1 (W_node n)) k) = (nodes_on k)(l := remove1 (W_node n) (nodes_on k l))"
    by (rule work_upd_list) (simp_all add: filter_remove1)
  have 2: "nodes_on (upd_list l (filter (\<lambda>v. v \<noteq> W_node n)) k) = (nodes_on k)(l := filter (\<lambda>v. v \<noteq> W_node n) (nodes_on k l))"
    by (rule work_upd_list) (auto intro: filter_cong simp: conj_commute)
  have "remove1 (W_node n) (nodes_on k l) = filter (\<lambda>v. v \<noteq> W_node n) (nodes_on k l)"
    using distinct_remove1_removeAll [OF d] by (simp add: removeAll_filter_not_eq neq_commute)
  then have nodes: "nodes_on (take_work l (W_node n) k) = nodes_on (list_del_init (W_node n) k)"
    unfolding w take_work_def work_set_entry 1 2 by simp
  have there: "(k_nodes (upd_list l f k) n = None) = (k_nodes k n = None)" for f by simp
  show "qview (take_work l (W_node n) k) = qview (list_del_init (W_node n) k)"
    by (rule qviewI) (simp_all only: nodes, simp_all add: w take_work_def set_entry_frame upd_list_frame entry_set_node del: set_entry.simps)
  show "core_of (take_work l (W_node n) k) = core_of k"
    unfolding take_work_def core_set_entry core_upd_list ..
  show "k_refs (take_work l (W_node n) k) = k_refs k"
    by (simp add: take_work_def set_entry_frame upd_list_frame del: set_entry.simps)
qed

lemma sound_take_node:
  assumes S: "sound W n k" and e: "entry_at k m = Some l"
  shows "sound W n (take_work l (W_node m) k)" "owner_at (take_work l (W_node m) k) = owner_at k"
    "entry_at (take_work l (W_node m) k) m = None" "home (take_work l (W_node m) k) = home k"
proof -
  let ?k = "take_work l (W_node m) k"
  note q = take_is_delete [OF soundD(2) [OF S] e]
  have t: "tidy k ?k" by (rule tidy_qview [OF tidy_take [OF soundD(2) [OF S]] q(1)])
  show "sound W n ?k" "owner_at ?k = owner_at k"
    by (rule sound_tidy [OF S t]; simp add: q(2,3) soundD(1) [OF S] del: core_of_apply)+
  show "entry_at ?k m = None" "home ?k = home k"
    using arg_cong [OF q(1), of q_entry] arg_cong [OF q(1), of q_home] queue_take [OF soundD(2) [OF S], of m]
    by (simp_all add: qview_simps)
qed

lemma sound_free_node:
  assumes R: "rb_ok R" and S: "sound W n k" and m: "k_nodes k m = Some node" "n_refs node = []"
  shows "sound W n (free_node R m node k)" "owner_at (free_node R m node k) = owner_at k"
proof -
  have C: "core_of (free_node R m node k) = g_del_node m (node_core node) (core_of k)" "k_refs (free_node R m node k) = k_refs k"
  proof -
    have T: "node_in_tree (core_of k) m (n_proc node)" using node_in_tree_ok [OF soundD(1) [OF S], of m "node_core node"] m by simp
    have "\<exists>proc. k_procs k p = Some proc \<and> distinct (inorder (p_nodes proc)) \<and> m \<in> set (inorder (p_nodes proc))"
      if "n_proc node = Some p" for p
      using T that unfolding node_in_tree_def by (cases "k_procs k p") auto
    then show "core_of (free_node R m node k) = g_del_node m (node_core node) (core_of k)" "k_refs (free_node R m node k) = k_refs k"
      using free_node_core [OF R] by blast+
  qed
  have ok: "core_ok (core_of (free_node R m node k))"
    unfolding C(1) by (rule g_del_node_ok [OF soundD(1) [OF S]]) (simp_all add: m)
  show "sound W n (free_node R m node k)" "owner_at (free_node R m node k) = owner_at k"
    by (rule sound_tidy [OF S tidy_free_node [OF soundD(2) [OF S]] ok]; simp add: C(2))+
qed

lemma sound_read_node:
  assumes R: "rb_ok (de_rb E)" and S: "sound W n k" and own: "owner_at k th = Some p"
    and w: "next_work w p th k = Ret (Some (l, W_node m))"
  shows "post (Some (read_node A E p l m r k)) (\<lambda>(_, k'). sound W n k' \<and> owner_at k' = owner_at k)"
proof (rule post_of_cres)
  fix e assume g: "read_node A E p l m r k = Ret e"
  then obtain node where m: "k_nodes k m = Some node" by (auto simp: read_node_def cbind_Ret_iff)
  obtain x y where x: "k_threads k th = Some x" and y: "k_procs k p = Some y"
    using w by (auto simp: next_work_def cbind_Ret_iff)
  have "W_node m \<in> set (nodes_on k l) \<and> (l = Thread_todo th \<or> l = Proc_todo p)"
    using w x y by (cases "th_todo x"; cases "p_todo y"; cases w) (auto simp: next_work_def)
  then have on: "W_node m \<in> set (nodes_on k l)" and l: "l = Thread_todo th \<or> l = Proc_todo p" by blast+
  have ent: "entry_at k m = Some l" using on queue_okD(2) [OF soundD(2) [OF S]] by simp
  then obtain q where q: "home k m = Some (Some q)" "place_of k q l" using queue_okD(3) [OF soundD(2) [OF S]] by blast
  then have np: "n_proc node = Some p" using l own m by (auto simp: place_of_def home_def)
  show "case e of (_, k') \<Rightarrow> sound W n k' \<and> owner_at k' = owner_at k"
  proof (cases "node_report node")
    case (Some x)
    obtain c node' where x: "x = (c, node')" by fastforce
    have f: "node_core node' = node_core node" "n_async_todo node' = n_async_todo node" "n_entry node' = n_entry node"
      using Some x by (auto simp: node_report_def split: if_splits)
    have "k\<lparr>k_nodes := (k_nodes k)(m \<mapsto> node')\<rparr> = upd_node m (\<lambda>x. if x = node then node' else x) k"
      by (simp add: upd_node_def m)
    then have v: "view (k\<lparr>k_nodes := (k_nodes k)(m \<mapsto> node')\<rparr>) = view k"
      using f by (simp only:) (rule view_upd_node; simp)
    have "e = (put_br A c r, k\<lparr>k_nodes := (k_nodes k)(m \<mapsto> node')\<rparr>)"
      using g m Some x by (simp add: read_node_def)
    then show ?thesis using sound_view [OF S v] owner_view [OF v] by simp
  next
    case None
    let ?k = "take_work l (W_node m) k"
    note T = sound_take_node [OF S ent]
    have e: "e = (Some r, if \<not> node_weak node
                then stats_deleted Stat_node
                  ((upd_proc p (\<lambda>x. x\<lparr>p_nodes := rb_erase (de_rb E) m (p_nodes x)\<rparr>) ?k)\<lparr>k_nodes :=
                     (k_nodes ?k)(m := None)\<rparr>)
                else ?k)"
      using g m None by (auto simp: read_node_def Let_def)
    show ?thesis
    proof (cases "node_weak node")
      case True
      then show ?thesis using e T by simp
    next
      case False
      then have nr: "n_refs node = []" by (simp add: node_weak_def)
      have "home ?k m = Some (Some q)" using T(4) q(1) by simp
      then obtain node1 where m1: "k_nodes ?k m = Some node1" unfolding home_def by blast
      have c1: "node_core node1 = node_core node"
        using arg_cong [OF take_is_delete(2) [OF soundD(2) [OF S] ent], of "\<lambda>C. c_nodes C m"] m1 m by simp
      have f1: "n_refs node1 = []" "n_proc node1 = Some p"
        using arg_cong [OF c1, of nc_refs] arg_cong [OF c1, of nc_proc] nr np by simp_all
      have "list_del_init (W_node m) ?k = ?k"
        using T(3) by (simp add: list_del_init_def entry_at_def m1)
      then have "free_node (de_rb E) m node1 ?k = snd e" using e False by (simp add: free_node_def Let_def f1 upd_proc_def)
      then show ?thesis using sound_free_node [OF R T(1) m1 f1(1)] T(2) by (cases e) simp
    qed
  qed
qed

section \<open>The contracts\<close>

definition call_state :: "denv \<Rightarrow> pools \<Rightarrow> nat \<Rightarrow> nat \<Rightarrow> (nat \<rightharpoonup> nat) \<Rightarrow> nat \<Rightarrow> kstate \<Rightarrow> bool" where
  "call_state E W p th owners n k \<longleftrightarrow> rb_ok (de_rb E) \<and> sound W n k \<and> owner_at k = owners \<and> owners th = Some p"

interpretation driver: kept_call E "call_state E W p th owners" p th for E W p th owners
proof unfold_locales
  fix n k k' assume s: "call_state E W p th owners n k"
  note S = s [unfolded call_state_def]
  show "view k' = view k \<Longrightarrow> call_state E W p th owners n k'"
    using S sound_view [of W n k k'] owner_view [of k' k] by (simp add: call_state_def)
  show "m \<le> n \<Longrightarrow> call_state E W p th owners m k" for m using S sound_less [of W n k m] by (simp add: call_state_def)
  show "call_state E W p th owners n k'" if kz: "kzalloc k = (r, k')" for r
    using S sound_kzalloc [OF _ kz] kzalloc_fields [OF kz] by (simp add: call_state_def owner_at_def fun_eq_iff)
  show "nodes_on k (Async_todo m) = []" for m using S queue_ok_async(1) [OF soundD(2)] by blast
  show "post (Some (binder_dec_ref (de_rb E) x b k)) (\<lambda>(_, k'). call_state E W p th owners n k')" for x b
    using S by (intro post_weaken [OF sound_dec_ref [of "de_rb E" W n k]]) (auto simp: call_state_def)
  show "post (Some (binder_inc_node m b False None k)) (\<lambda>(_, k'). call_state E W p th owners n k')" for m b
    using S by (intro post_weaken [OF sound_inc_node [of W n k]]) (auto simp: call_state_def)
  show "post (Some (binder_dec_node (de_rb E) m b False k)) (call_state E W p th owners n)" for m b
    using S by (intro post_weaken [OF sound_dec_node [of "de_rb E" W n k]]) (auto simp: call_state_def)
  show "post (Some (register_looper p th k)) (call_state E W p th owners n)"
    using S by (intro post_weaken [OF sound_register [of W n k]]) (auto simp: call_state_def)
  show "post (Some (read_node A E p l m r k)) (\<lambda>(_, k'). call_state E W p th owners n k')"
    if "next_work w p th k = Ret (Some (l, W_node m))" for w l m A r
    using S by (intro post_weaken [OF sound_read_node [OF _ _ _ that, of E W n]]) (auto simp: call_state_def)
next
  fix n k assume s: "call_state E W p th owners (Suc n) k"
  note S = s [unfolded call_state_def]
  show "post (Some (binder_get_ref_for_node (de_rb E) q m k)) (\<lambda>(_, k'). call_state E W p th owners n k')" for q m
    using S by (intro post_weaken [OF sound_get_ref [of "de_rb E" W n k]]) (auto simp: call_state_def)
  show "post (Some (binder_inc_ref x b None k)) (\<lambda>(_, k'). call_state E W p th owners n k')" for x b
    using S by (intro post_weaken [OF sound_inc_ref [of W n k]]) (auto simp: call_state_def)
next
  fix n k A q fp assume s: "call_state E W p th owners (n + 3) k"
  note S = s [unfolded call_state_def]
  show "post (Some (translate_binder A E p th q fp k)) (\<lambda>(_, k'). call_state E W p th owners n k')"
    using S by (intro post_weaken [OF sound_translate_binder [of E W n k th p]]) (auto simp: call_state_def)
qed

section \<open>The parts of a read\<close>

definition one_more :: "nat \<Rightarrow> pools \<Rightarrow> pools" where
  "one_more p W = W\<lparr>po_waits := (po_waits W)(p := Suc (po_waits W p))\<rparr>"

definition one_less :: "nat \<Rightarrow> pools \<Rightarrow> pools" where
  "one_less p W = W\<lparr>po_waits := (po_waits W)(p := po_waits W p - 1)\<rparr>"

lemma pools_fields [simp]:
  "po_waits (one_more p W) = (po_waits W)(p := Suc (po_waits W p))" "po_waits (one_less p W) = (po_waits W)(p := po_waits W p - 1)"
  "po_before (one_more p W) = po_before W" "po_before (one_less p W) = po_before W"
  "po_leaving (one_more p W) = po_leaving W" "po_leaving (one_less p W) = po_leaving W"
  by (simp_all add: one_more_def one_less_def)

fun waits_after :: "nat \<Rightarrow> pools \<Rightarrow> rstep \<Rightarrow> pools" where
  "waits_after p W (R_wait True _ _) = one_more p W"
| "waits_after p W _ = W"

fun waits_with :: "nat \<Rightarrow> pools \<Rightarrow> rcall \<Rightarrow> pools" where
  "waits_with p W (C_wait True _) = one_more p W"
| "waits_with p W _ = W"

lemma call_view: "call_state E W p th own n k \<Longrightarrow> view k' = view k \<Longrightarrow> call_state E W p th own n k'"
  by (rule driver.view)

lemma call_looper: "call_state E W p th own n (looper_or t b k) = call_state E W p th own n k"
  by (auto intro: call_view simp: view_simps)

lemma call_less: "call_state E W p th own n k \<Longrightarrow> m \<le> n \<Longrightarrow> call_state E W p th own m k"
  by (rule driver.less)

lemma call_counters:
  assumes S: "call_state E W p th own n k" and x: "k_procs k p = Some x"
    and f: "\<And>x. proc_core (f x) = proc_core x" "\<And>x. p_todo (f x) = p_todo x" "\<And>x. p_delivered (f x) = p_delivered x"
      "\<And>x. p_threads (f x) = p_threads x"
    and W: "\<And>q. q \<noteq> p \<Longrightarrow> po_waits W' q = po_waits W q" "po_before W' = po_before W" "po_leaving W' = po_leaving W"
    and c: "0 \<le> p_requested (f x) \<and> p_requested (f x) \<le> 1 \<and> 0 \<le> p_started (f x) \<and>
      p_started (f x) + p_requested (f x) \<le> max (p_max_threads (f x)) (po_before W p) \<and> p_ready (f x) = int (po_waits W' p)"
  shows "call_state E W' p th own n (upd_proc p f k)"
proof -
  have S': "sound W n k" using S by (simp add: call_state_def)
  have c': "0 \<le> p_requested (f y) \<and> p_requested (f y) \<le> 1 \<and> 0 \<le> p_started (f y) \<and>
      p_started (f y) + p_requested (f y) \<le> max (p_max_threads (f y)) (po_before W p) \<and> p_ready (f y) = int (po_waits W' p)" if "k_procs k p = Some y" for y
    using c x that by simp
  have "sound W' n (upd_proc p f k)" "owner_at (upd_proc p f k) = owner_at k"
    by (rule sound_counters [OF S' f W c']; simp add: x)+
  then show ?thesis using S by (simp add: call_state_def)
qed

lemma call_pool:
  assumes "call_state E W p th own n k" "k_procs k q = Some x"
  shows "0 \<le> p_requested x" "p_requested x \<le> 1" "0 \<le> p_started x"
    "p_started x + p_requested x \<le> max (p_max_threads x) (po_before W q)" "p_ready x = int (po_waits W q)"
  using pool_now [of W n k q x] assms by (simp_all add: call_state_def)

lemma call_ready:
  assumes S: "call_state E W p th own n k" and x: "k_procs k p = Some x"
  shows "call_state E (one_more p W) p th own n (upd_proc p (\<lambda>x. x\<lparr>p_ready := p_ready x + 1\<rparr>) k)"
    and "0 < po_waits W p \<Longrightarrow> call_state E (one_less p W) p th own n (upd_proc p (\<lambda>x. x\<lparr>p_ready := p_ready x - 1\<rparr>) k)"
  using call_pool [OF S x] by (intro call_counters [OF S x]; simp add: proc_core_def)+

lemma call_prepare:
  assumes S: "call_state E W p th own n k"
  shows "post (Some (read_prepare A E p th r k)) (\<lambda>s. call_state E (waits_after p W s) p th own n (rs_state s) \<and>
    (\<forall>r' k'. s \<noteq> R_retry r' k'))"
proof -
  let ?W = "one_more p W"
  have err: "call_state E (waits_after p W (read_error A th t r k)) p th own n (rs_state (read_error A th t r k))
      \<and> (\<forall>r' k'. read_error A th t r k \<noteq> R_retry r' k')" for t
  proof -
    have "waits_after p W (read_error A th t r k) = W" "\<forall>r' k'. read_error A th t r k \<noteq> R_retry r' k'"
      by (auto simp: read_error_def Let_def split: option.split)
    then show ?thesis using call_view [OF S unseen_read_error] by simp
  qed
  have wait: "call_state E ?W p th own n (complain c (upd_proc p (\<lambda>x. x\<lparr>p_ready := p_ready x + 1\<rparr>) (looper_or th b k)))"
    "call_state E ?W p th own n (upd_proc p (\<lambda>x. x\<lparr>p_ready := p_ready x + 1\<rparr>) (looper_or th b k))"
    if "k_procs k p = Some x" for c b x
  proof -
    have x: "k_procs (looper_or th b k) p = Some x" using that by (simp add: looper_or_def upd_thread_def)
    have S1: "call_state E W p th own n (looper_or th b k)" using S by (simp add: call_looper)
    show k1: "call_state E ?W p th own n (upd_proc p (\<lambda>x. x\<lparr>p_ready := p_ready x + 1\<rparr>) (looper_or th b k))"
      by (rule call_ready(1) [OF S1 x])
    show "call_state E ?W p th own n (complain c (upd_proc p (\<lambda>x. x\<lparr>p_ready := p_ready x + 1\<rparr>) (looper_or th b k)))"
      by (rule call_view [OF k1]) simp
  qed
  have nice: "call_state E ?W p th own n (binder_set_nice E th m k')" if "call_state E ?W p th own n k'" for m k'
    by (rule call_view [OF that]) simp
  show ?thesis
    by (auto simp: read_prepare_def post_simps Let_def err call_looper S intro!: nice wait)
qed

lemma call_finish:
  assumes S: "call_state E W p th own n k"
  shows "post (Some (read_finish A p th r k)) (\<lambda>(_, _, k'). call_state E W p th own n k')"
proof -
  have "call_state E W p th own n (upd_proc p (\<lambda>x. x\<lparr>p_requested := p_requested x + 1\<rparr>) k)"
    if "k_procs k p = Some x" "p_requested x + p_ready x = 0" "p_started x < p_max_threads x" for x
    using call_pool [OF S that(1)] that by (intro call_counters [OF S that(1)]) (simp_all add: proc_core_def)
  then show ?thesis by (auto simp: read_finish_def post_simps Let_def S)
qed

lemma call_end:
  assumes "call_state E (waits_after p W s) p th own n (rs_state s)"
  shows "post (Some (read_end A p th s)) (\<lambda>(c, k'). call_state E (waits_with p W c) p th own n k')"
proof (cases s)
  case (R_wait w r k)
  then show ?thesis using assms by (cases w) (simp_all add: read_end_def post_simps)
next
  case (R_done r k)
  then show ?thesis using assms
    by (auto simp: read_end_def post_simps intro!: post_weaken [OF call_finish [of E W p th own n k A r]])
qed (use assms in \<open>simp_all add: read_end_def post_simps\<close>)

lemma call_begin:
  assumes "call_state E W p th own n k"
  shows "post (Some (read_begin A E p th r k)) (\<lambda>(c, k'). call_state E (waits_with p W c) p th own n k')"
proof -
  have go: "post (Some (read_prepare A E p th r k)) (\<lambda>s. post (Some (read_end A p th s)) (\<lambda>(c, k'). call_state E (waits_with p W c) p th own n k'))" for r
    by (rule post_weaken [OF call_prepare [OF assms]]) (auto intro: call_end)
  have "post (Some (read_start A E p th r k)) (\<lambda>s. post (Some (read_end A p th s)) (\<lambda>(c, k'). call_state E (waits_with p W c) p th own n k'))"
    by (auto simp: read_start_def post_simps go assms intro!: call_end split: option.split)
  then show ?thesis by (simp only: read_begin_def post_simps)
qed

lemma read_loop_no_wait: "post (read_loop A E p th w r k) (\<lambda>s. \<forall>w r k. s \<noteq> R_wait w r k)"
proof (rule post_any, rule read_loop.raw_induct [where P = "\<lambda>A E p th w r k y. post (Some y) (\<lambda>s. \<forall>w r k. s \<noteq> R_wait w r k)"],
    goal_cases)
  case (1 _ rl A E p th w r k y)
  have IH: "post (rl A E p th w r k) (\<lambda>s. \<forall>w r k. s \<noteq> R_wait w r k)" for r k
    by (rule post_any, rule 1(2)) assumption
  show ?case
    unfolding 1(3) [symmetric]
    by (auto simp: post_simps IH intro!: post_of_cres [where m = "next_work w p th k"] post_of_cres [where m = "deliver _ _ _ _ _ _ _ _"]
      post_of_cres [where m = "read_node _ _ _ _ _ _ _"] post_of_cres [where m = "read_death _ _ _ _ _ _"] split: option.split work.split)
qed simp_all

lemma call_continue:
  assumes S: "call_state E W p th own n k" and w: "w \<Longrightarrow> 0 < po_waits W p" and W': "W' = (if w then one_less p W else W)"
    and x: "k_procs k p = Some x"
  shows "post (read_continue A E p th w res r k) (\<lambda>(c, k'). call_state E (waits_with p W' c) p th own n k')"
proof -
  let ?k = "upd_thread th (\<lambda>x. x\<lparr>th_looper := th_looper x AND NOT LOOPER_WAITING\<rparr>) (if w then upd_proc p (\<lambda>x. x\<lparr>p_ready := p_ready x - 1\<rparr>) k else k)"
  have "call_state E W' p th own n (if w then upd_proc p (\<lambda>x. x\<lparr>p_ready := p_ready x - 1\<rparr>) k else k)"
    using call_ready(2) [OF S x w] S by (simp add: W')
  then have k1: "call_state E W' p th own n ?k" by (rule call_view) simp
  have fin: "post (Some (case s of R_retry r k \<Rightarrow> cbind (read_prepare A E p th r k) (read_end A p th) | s \<Rightarrow> read_end A p th s))
      (\<lambda>(c, k'). call_state E (waits_with p W' c) p th own n k')"
    if s: "call_state E W' p th own n (rs_state s)" "\<forall>w r k. s \<noteq> R_wait w r k" for s
  proof (cases s)
    case (R_retry r k)
    have "post (Some (read_prepare A E p th r k)) (\<lambda>s. post (Some (read_end A p th s)) (\<lambda>(c, k'). call_state E (waits_with p W' c) p th own n k'))"
      using s R_retry by (intro post_weaken [OF call_prepare [of E W' p th own n k]]) (auto intro: call_end)
    then show ?thesis by (simp only: R_retry rstep.case post_simps)
  qed (use s in \<open>auto intro!: call_end\<close>)
  have "post (read_loop A E p th w r ?k) (\<lambda>s. call_state E W' p th own n (rs_state s) \<and> (\<forall>w r k. s \<noteq> R_wait w r k))"
    using driver.read_loop [OF k1] read_loop_no_wait by (simp add: post_def split: cres.splits option.splits)
  then show ?thesis
    using fin [of "R_error res ?k"] fin k1 by (cases "res = 0") (auto simp: read_continue_def read_resume_def Let_def post_simps elim!: post_weaken)
qed

end
