(* ===== verification/Drv_End.thy ===== *)
theory Drv_End
  imports Drv_Run
begin

text \<open>
  The end of threads and processes keeps the invariant: what a thread still had to do is given
  back, the nodes of a process become dead nodes that only references keep, its references go, and
  nothing that is left points to it.
\<close>

section \<open>Work that is given back\<close>

lemma take_node_work:
  assumes S: "sound W n k" and on: "list_of l k = Ret (W_node m # ws)"
  shows "sound W n (take_work l (W_node m) k)" "owner_at (take_work l (W_node m) k) = owner_at k"
proof -
  have "W_node m \<in> set (nodes_on k l)" using on by (cases l) (auto simp: cbind_Ret_iff)
  then have "entry_at k m = Some l" using queue_okD(2) [OF soundD(2) [OF S]] by simp
  note T = sound_take_node [OF S this]
  show "sound W n (take_work l (W_node m) k)" "owner_at (take_work l (W_node m) k) = owner_at k" by (rule T)+
qed

lemma sound_release_work:
  "sound W n k \<Longrightarrow> post (binder_release_work A l k) (\<lambda>k'. sound W n k' \<and> owner_at k' = owner_at k \<and> nodes_on k' l = [])"
proof (rule post_any, rule binder_release_work.raw_induct [where P = "\<lambda>A l k y. sound W n k \<longrightarrow>
    post (Some y) (\<lambda>k'. sound W n k' \<and> owner_at k' = owner_at k \<and> nodes_on k' l = [])", rule_format], goal_cases)
  case (1 _ rw A l k r)
  have IH: "post (rw A l k') (\<lambda>k2. sound W n k2 \<and> owner_at k2 = owner_at k \<and> nodes_on k2 l = [])"
    if "sound W n k'" "owner_at k' = owner_at k" for k'
  proof (rule post_any)
    fix y assume "rw A l k' = Some y"
    then show "post (Some y) (\<lambda>k2. sound W n k2 \<and> owner_at k2 = owner_at k \<and> nodes_on k2 l = [])"
      using 1(3) [of A l k' y] that by simp
  qed
  have step: "post (undelivered A w (take_work l w k)) (\<lambda>k'. sound W n k' \<and> owner_at k' = owner_at k)"
    if on: "list_of l k = Ret (w # ws)" for w ws
  proof (cases "is_node w")
    case True
    then obtain m where w: "w = W_node m" by (auto simp: is_node_def)
    note T = take_node_work [OF 1(5) on [unfolded w]]
    have v: "view (complain c (take_work l w k)) = view (take_work l w k)" for c by simp
    show ?thesis using sound_view [OF T(1) v [unfolded w]] owner_view [OF v [unfolded w]] T(2) by (simp add: w undelivered_def post_simps)
  next
    case False
    then have v: "view (take_work l w k) = view k" by simp
    show ?thesis
    proof (rule post_weaken [OF unseen_undelivered [OF False]])
      fix k' assume "unseen (take_work l w k) k'"
      then have "view k' = view k" using v by simp
      then show "sound W n k' \<and> owner_at k' = owner_at k" using sound_view [OF 1(5)] owner_view by blast
    qed
  qed
  have "post (rbind (undelivered A w (take_work l w k)) (rw A l)) (\<lambda>k2. sound W n k2 \<and> owner_at k2 = owner_at k \<and> nodes_on k2 l = [])"
    if on: "list_of l k = Ret (w # ws)" for w ws
    unfolding post_simps by (rule post_weaken [OF step [OF on]]) (auto intro: IH)
  moreover have "nodes_on k l = []" if "list_of l k = Ret []" using that by (cases l) (auto simp: cbind_Ret_iff)
  ultimately show ?case
    unfolding 1(4) [symmetric] using 1(5)
    by (auto simp: post_simps intro!: post_of_cres split: list.split)
qed simp_all

section \<open>The end of a thread\<close>

lemma unseen_drop_stack: "post (drop_stack th tmp i k) (\<lambda>(_, k'). unseen k k')"
proof (rule post_any, rule drop_stack.raw_induct [where P = "\<lambda>th tmp i k y. post (Some y) (\<lambda>(_, k'). unseen k k')"], goal_cases)
  case (1 _ ds th tmp i k y)
  have IH: "post (ds th t i k') (\<lambda>(_, k'). unseen k k')" if "unseen k k'" for t i k'
  proof (rule post_any)
    fix y assume "ds th t i k' = Some y"
    then show "post (Some y) (\<lambda>(_, k'). unseen k k')" using 1(2) [of th t i k' y] that by (simp add: post_def)
  qed
  show ?case
    unfolding 1(3) [symmetric] by (auto simp: post_simps intro!: IH split: option.split)
qed

definition with_leaving :: "nat set \<Rightarrow> pools \<Rightarrow> pools" where
  "with_leaving ts W = W\<lparr>po_leaving := ts\<rparr>"

lemma with_leaving_fields [simp]:
  "po_waits (with_leaving ts W) = po_waits W" "po_before (with_leaving ts W) = po_before W" "po_leaving (with_leaving ts W) = ts"
  by (simp_all add: with_leaving_def)

lemma set_threads:
  fixes k :: kstate and p :: nat and g :: "proc \<Rightarrow> nat tree"
  defines "k1 \<equiv> upd_proc p (\<lambda>x. x\<lparr>p_threads := g x\<rparr>) k"
  shows "core_of k1 = core_of k" "nodes_on k1 = nodes_on k" "entry_at k1 = entry_at k" "home k1 = home k" "owner_at k1 = owner_at k"
    "used_at k1 = used_at k" "queue_ok k \<Longrightarrow> queue_ok k1"
proof -
  show "core_of k1 = core_of k" unfolding k1_def by (rule core_upd_proc) (simp add: proc_core_def)
  show w: "nodes_on k1 = nodes_on k" unfolding k1_def by (rule nodes_on_cong) (simp_all add: upd_proc_def option.map_comp comp_def)
  show fr: "entry_at k1 = entry_at k" "home k1 = home k" "owner_at k1 = owner_at k"
    by (simp_all add: k1_def fun_eq_iff entry_at_def home_def owner_at_def upd_proc_def)
  show "used_at k1 = used_at k" by (rule ext) (auto simp: k1_def used_at_def upd_proc_def)
  have "(k_procs k1 q = None) = (k_procs k q = None)" for q by (simp add: k1_def upd_proc_def)
  then show "queue_ok k \<Longrightarrow> queue_ok k1" using queue_ok_cong [OF _ w fr] by blast
qed

lemma take_from_tree:
  \<comment> \<open>a thread that is being freed is first taken out of the tree of its process\<close>
  assumes R: "rb_ok R" and S: "sound W n k" and l: "po_leaving W = {}" and own: "owner_at k th = Some p"
  defines "k1 \<equiv> upd_proc p (\<lambda>x. x\<lparr>p_threads := rb_erase R th (p_threads x)\<rparr>) k"
  shows "sound (with_leaving {th} W) n k1" "owner_at k1 = owner_at k"
proof -
  obtain x where x: "k_procs k p = Some x" using owner_live [OF S own] by blast
  note T = pool_now(6,7) [OF S x]
  have er: "inorder (rb_erase R th (p_threads x)) = remove1 th (inorder (p_threads x))"
    using rb_okD(2) [OF R T(1)] T(2) own l by simp
  note fr = set_threads [where p = p and g = "\<lambda>x. rb_erase R th (p_threads x)" and k = k, folded k1_def]
  note C = fr(1) and Q = fr(7) [OF soundD(2) [OF S]]
  show own': "owner_at k1 = owner_at k" by (rule fr(5))
  have pool: "pool_at k1 q = (if q = p then Some (p_max_threads x, p_requested x, p_started x, p_ready x, rb_erase R th (p_threads x))
      else pool_at k q)" for q
    by (simp add: k1_def pool_at_def upd_proc_def x)
  have M: "mem_ok k1" using soundD(3) [OF S] fr(6) by (simp add: mem_ok_def k1_def upd_proc_def)
  have room: "room n k1" using soundD(4) [OF S] unfolding room_def C by (simp add: k1_def upd_proc_def)
  have "pool_ok (with_leaving {th} W) k1"
    unfolding pool_ok_def own'
  proof (intro conjI allI impI)
    fix q m r s d t assume q: "pool_at k1 q = Some (m, r, s, d, t)"
    have "0 \<le> r \<and> r \<le> 1 \<and> 0 \<le> s \<and> s + r \<le> max m (po_before W q) \<and> d = int (po_waits W q) \<and>
       distinct (inorder t) \<and> set (inorder t) = {t. owner_at k t = Some q \<and> t \<notin> {th}}"
    proof (cases "q = p")
      case True
      have "set (remove1 th (inorder (p_threads x))) = {t. owner_at k t = Some p \<and> t \<notin> {th}}"
        using T l by auto
      moreover have "distinct (remove1 th (inorder (p_threads x)))" using T(1) by (rule distinct_remove1)
      moreover have "m = p_max_threads x" "r = p_requested x" "s = p_started x" "d = p_ready x" "t = rb_erase R th (p_threads x)"
        using q True by (simp_all add: pool)
      ultimately show ?thesis using pool_now(1-5) [OF S x] True by (simp only: er simp_thms)
    next
      case False
      then have "pool_at k q = Some (m, r, s, d, t)" using q by (simp add: pool)
      note P = soundD(5) [OF S, unfolded pool_ok_def, THEN conjunct1, rule_format, OF this]
      have "{t. owner_at k t = Some q \<and> t \<notin> po_leaving W} = {t. owner_at k t = Some q \<and> t \<notin> {th}}" using own l False by auto
      then show ?thesis using P by simp
    qed
    then show "0 \<le> r" "r \<le> 1" "0 \<le> s" "s + r \<le> max m (po_before (with_leaving {th} W) q)"
      "d = int (po_waits (with_leaving {th} W) q)" "distinct (inorder t)"
      "set (inorder t) = {t. owner_at k t = Some q \<and> t \<notin> po_leaving (with_leaving {th} W)}" by simp_all
  next
    fix q t assume "pool_at k1 q = None"
    then have "pool_at k q = None" by (simp add: pool split: if_splits)
    then show "po_waits (with_leaving {th} W) q = 0" "owner_at k t \<noteq> Some q"
      using soundD(5) [OF S] unfolding pool_ok_def by simp_all
  qed
  then show "sound (with_leaving {th} W) n k1" using C Q M room soundD(1) [OF S] by (simp add: sound_def)
qed

lemma sound_left:
  assumes S: "sound (with_leaving {th} W) n k" and l: "po_leaving W = {}" and o: "owner_at k th = None"
  shows "sound W n k"
proof -
  have "{t. owner_at k t = Some q \<and> t \<notin> {th}} = {t. owner_at k t = Some q}" for q using o by auto
  then have "pool_ok W k" using soundD(5) [OF S] by (simp add: pool_ok_def l)
  then show ?thesis using S by (simp add: sound_def)
qed

lemma drop_thread:
  assumes S: "sound W n k" and e: "nodes_on k (Thread_todo th) = []" and l: "th \<in> po_leaving W"
  shows "sound W n (k\<lparr>k_threads := (k_threads k)(th := None)\<rparr>)"
    "owner_at (k\<lparr>k_threads := (k_threads k)(th := None)\<rparr>) = (owner_at k)(th := None)"
proof -
  let ?k = "k\<lparr>k_threads := (k_threads k)(th := None)\<rparr>"
  show o': "owner_at ?k = (owner_at k)(th := None)" by (auto simp: owner_at_def fun_eq_iff)
  have w: "nodes_on ?k = nodes_on k"
  proof
    fix l show "nodes_on ?k l = nodes_on k l" using e by (cases l) auto
  qed
  have en: "entry_at ?k = entry_at k" "home ?k = home k" "pool_at ?k = pool_at k" by (simp_all add: entry_at_def home_def pool_at_def fun_eq_iff)
  have ne: "entry_at k m \<noteq> Some (Thread_todo th)" for m using queue_okD(2) [OF soundD(2) [OF S], of m "Thread_todo th"] e
    by (simp del: nodes_on.simps)
  have "queue_ok ?k"
    unfolding queue_ok_def w en place_of_def o'
    using soundD(2) [OF S] ne unfolding queue_ok_def place_of_def by (simp, metis)
  moreover have "core_of ?k = core_of k" by (rule core_eqI) simp_all
  ultimately show "sound W n ?k"
    using soundD(1) [OF S] by (intro sound_shrink [OF S]) (auto simp: o' en l)
qed

lemma sound_free_thread:
  assumes R: "rb_ok (de_rb E)" and S: "sound W n k" and l: "po_leaving W = {}" and own: "owner_at k th = Some p"
  shows "post (binder_free_thread A E p th k) (\<lambda>(_, k'). sound W n k' \<and> owner_at k' = (owner_at k)(th := None))"
proof -
  let ?W = "with_leaving {th} W"
  let ?P = "\<lambda>k'. sound ?W n k' \<and> owner_at k' = owner_at k"
  let ?k0 = "upd_proc p (\<lambda>x. x\<lparr>p_threads := rb_erase (de_rb E) th (p_threads x)\<rparr>) k"
  have v: "?P k2" if "unseen k1 k2" "?P k1" for k1 k2
    using that sound_view [of ?W n k1 k2] owner_view [of k2 k1] by simp
  have start: "?P ?k0" using take_from_tree [OF R S l own] by blast
  have stack: "post (drop_stack th s 0 ?k0) (\<lambda>(_, k'). ?P k')" for s
  proof (rule post_weaken [OF unseen_drop_stack])
    fix x assume "case x of (_, k') \<Rightarrow> unseen ?k0 k'"
    then show "case x of (_, k') \<Rightarrow> ?P k'" using v [OF _ start] by (simp only: split_beta)
  qed
  have reply: "post (case s of None \<Rightarrow> ret k1 | Some t \<Rightarrow> binder_send_failed_reply A t BR_DEAD_REPLY k1) ?P" if "?P k1" for s k1
  proof (cases s)
    case None
    then show ?thesis using that by (simp add: post_simps)
  next
    case (Some t)
    show ?thesis unfolding Some option.case by (rule post_weaken [OF unseen_failed_reply]) (rule v [OF _ that])
  qed
  have rel: "post (binder_release_work A (Thread_todo th) k1) (\<lambda>k2. ?P k2 \<and> nodes_on k2 (Thread_todo th) = [])" if "?P k1" for k1
    using that by (auto intro!: post_weaken [OF sound_release_work [of ?W n k1]])
  have fin: "sound W n (stats_deleted Stat_thread (k1\<lparr>k_threads := (k_threads k1)(th := None)\<rparr>)) \<and>
      owner_at (stats_deleted Stat_thread (k1\<lparr>k_threads := (k_threads k1)(th := None)\<rparr>)) = (owner_at k)(th := None)"
    if "?P k1" "nodes_on k1 (Thread_todo th) = []" for k1
  proof -
    let ?k2 = "k1\<lparr>k_threads := (k_threads k1)(th := None)\<rparr>"
    have d: "sound ?W n ?k2" "owner_at ?k2 = (owner_at k)(th := None)" using drop_thread [of ?W n k1 th] that by simp_all
    have "sound W n ?k2" by (rule sound_left [OF d(1) l]) (simp add: d(2))
    then show ?thesis using d(2) sound_view [of W n ?k2] owner_view [of "stats_deleted Stat_thread ?k2" ?k2] by simp
  qed
  show ?thesis
    unfolding binder_free_thread_def post_simps
    by (intro allI impI post_of_cres post_weaken [OF stack])
      (auto simp: post_simps fin intro!: post_weaken [OF reply] post_weaken [OF rel])
qed

section \<open>The end of a node\<close>

definition g_orphan :: "nat \<Rightarrow> nat \<Rightarrow> core \<Rightarrow> core" where
  "g_orphan p a C = C\<lparr>c_nodes := (c_nodes C)(a := map_option (\<lambda>n. n\<lparr>nc_proc := None\<rparr>) (c_nodes C a)),
     c_procs := (c_procs C)(p := map_option (\<lambda>P. P\<lparr>pc_nodes := remove1 a (pc_nodes P)\<rparr>) (c_procs C p))\<rparr>"

lemma g_orphan_ok:
  assumes C: "core_ok C" and n: "c_nodes C a = Some n" "nc_proc n = Some p"
  shows "core_ok (g_orphan p a C)" (is "core_ok ?D")
proof -
  have e: "refs_of ?D q = refs_of C q" "c_refs ?D y = c_refs C y" "nodes_of ?D q = nodes_of C q - {a}" for q y
    using n by (auto simp: g_orphan_def refs_of_def nodes_of_def)
  have keep: "map (cptr ?D) ys = map (cptr C) ys" "map (cdesc ?D) ys = map (cdesc C) ys" "map (crnode ?D) ys = map (crnode C) ys" for ys
    using n by (auto simp: g_orphan_def)
  have pd: "c_procs ?D q = None \<longleftrightarrow> c_procs C q = None" for q by (auto simp: g_orphan_def)
  have "proc_ok ?D q Q" if Q: "c_procs ?D q = Some Q" for q Q
  proof (cases "q = p")
    case True
    then obtain P where P: "c_procs C p = Some P" "Q = P\<lparr>pc_nodes := remove1 a (pc_nodes P)\<rparr>"
      using Q by (auto simp: g_orphan_def)
    have ok: "proc_ok C p P" by (rule core_okD(1) [OF C P(1)])
    then have "distinct (pc_nodes P)" unfolding proc_ok_def by (blast intro: sorted_map_distinct)
    then show ?thesis using ok by (simp add: proc_ok_def P(2) True e keep sorted_remove1)
  next
    case False
    then have ok: "proc_ok C q Q" using Q by (intro core_okD(1) [OF C]) (simp add: g_orphan_def)
    have "a \<notin> nodes_of C q" using n False by (simp add: nodes_of_def)
    then show ?thesis using ok by (simp add: proc_ok_def e keep)
  qed
  moreover have "node_ok ?D b m" if m: "c_nodes ?D b = Some m" for b m
  proof -
    obtain m' where m': "c_nodes C b = Some m'" "m = (if b = a then m'\<lparr>nc_proc := None\<rparr> else m')"
      using m by (auto simp: g_orphan_def split: if_splits)
    have "node_ok C b m'" by (rule core_okD(2) [OF C m'(1)])
    moreover have "strong_refs ?D (nc_refs m') = strong_refs C (nc_refs m')" by (rule strong_refs_cong) (simp add: e)
    ultimately show ?thesis using pd by (auto simp: node_ok_def e m'(2))
  qed
  moreover have "ref_ok ?D y s" if y: "c_refs ?D y = Some s" for y s
  proof -
    have r: "ref_ok C y s" using y by (intro core_okD(3) [OF C]) (simp add: e)
    then obtain m where m: "c_nodes C (rc_node s) = Some m" "y \<in> set (nc_refs m)" by (auto simp: ref_ok_def)
    then have "\<exists>m'. c_nodes ?D (rc_node s) = Some m' \<and> y \<in> set (nc_refs m')" by (auto simp: g_orphan_def)
    then show ?thesis using r pd by (auto simp: ref_ok_def)
  qed
  ultimately show ?thesis by (simp add: core_ok_def)
qed

lemma unseen_notify_refs: "post (Some (notify_refs rs refs k)) (\<lambda>(_, k'). unseen k k')"
proof (induction rs arbitrary: refs k)
  case (Cons r rs)
  have "post (Some (notify_refs rs i k')) (\<lambda>(_, k2). unseen k k2)" if "unseen k k'" for i k'
    using Cons.IH [of i k'] that by (auto elim: post_weaken)
  then show ?case by (auto simp: post_simps split: option.split)
qed (simp add: post_simps)

lemma tree_node_home:
  assumes C: "core_ok (core_of k)" and p: "k_procs k p = Some proc" and m: "m \<in> set (inorder (p_nodes proc))"
  shows "\<exists>node. k_nodes k m = Some node \<and> n_proc node = Some p" "distinct (inorder (p_nodes proc))"
proof -
  have P: "proc_ok (core_of k) p (proc_core proc)" by (rule core_okD(1) [OF C]) (simp add: p)
  then have "m \<in> nodes_of (core_of k) p" using m by (simp add: proc_ok_def del: set_inorder)
  then show "\<exists>node. k_nodes k m = Some node \<and> n_proc node = Some p" by (auto simp: nodes_of_def)
  show "distinct (inorder (p_nodes proc))" using P unfolding proc_ok_def by (auto dest: sorted_map_distinct)
qed

lemma sound_node_release:
  assumes R: "rb_ok (de_rb E)" and S: "sound W n k" and p: "k_procs k p = Some proc" and m: "m \<in> set (inorder (p_nodes proc))"
  shows "post (binder_node_release A m i (upd_proc p (\<lambda>x. x\<lparr>p_nodes := rb_erase (de_rb E) m (p_nodes x)\<rparr>) k))
    (\<lambda>(_, k'). sound W n k' \<and> owner_at k' = owner_at k)"
proof -
  let ?ke = "upd_proc p (\<lambda>x. x\<lparr>p_nodes := rb_erase (de_rb E) m (p_nodes x)\<rparr>) k"
  let ?k1 = "list_del_init (W_node m) ?ke"
  obtain node where node: "k_nodes k m = Some node" "n_proc node = Some p" and d: "distinct (inorder (p_nodes proc))"
    using tree_node_home [OF soundD(1) [OF S] p m] by blast
  have te: "tidy k ?ke" by (rule tidy_qview [OF tidy_refl [OF soundD(2) [OF S]]]) simp
  have t1: "tidy k ?k1" and e1: "entry_at ?k1 m = None"
    using tidy_trans [OF te tidy_take [OF tidyD(1) [OF te]]] queue_take(2) [OF tidyD(1) [OF te], of m] by simp_all
  have core1: "core_of ?k1 = (core_of k)\<lparr>c_procs := (c_procs (core_of k))(p :=
      map_option (\<lambda>P. P\<lparr>pc_nodes := remove1 m (pc_nodes P)\<rparr>) (c_procs (core_of k) p))\<rparr>"
    unfolding core_lists
    by (rule core_upd_proc') (use p m d rb_okD(2) [OF R] in \<open>simp add: proc_core_def\<close>)
  have "strong_at ?ke = strong_at k" by (simp add: fun_eq_iff strong_at_def upd_proc_def)
  then have strong1: "strong_at ?k1 = strong_at k"
    by (simp add: list_del_init_def set_entry_frame upd_list_frame del: set_entry.simps split: option.split)
  have fin: "post (rbind (Some (of_mem (k_nodes k2 m))) (\<lambda>node.
       if n_refs node = [] then ret (i, stats_deleted Stat_node (k2\<lparr>k_nodes := (k_nodes k2)(m := None)\<rparr>))
       else
         let k = upd_node m (\<lambda>x. x\<lparr>n_proc := None, n_local_strong := 0, n_local_weak := 0\<rparr>) k2;
             k = k\<lparr>k_dead_nodes := m # k_dead_nodes k\<rparr>
         in Some (notify_refs (n_refs node) i k))) (\<lambda>(_, k'). sound W n k' \<and> owner_at k' = owner_at k)"
    if v: "view k2 = view ?k1" for k2
  proof -
    have t2: "tidy k k2" by (rule tidy_qview [OF t1 qview_view [OF v]])
    have e2: "entry_at k2 m = None" using arg_cong [OF v, of v_entry] e1 by (simp only: view_simps)
    have c2: "core_of k2 = core_of ?k1" using arg_cong [OF v, of v_core] by (simp only: view_simps)
    have s2: "strong_at k2 = strong_at k" using arg_cong [OF v, of v_strong] strong1 by (simp only: view_simps)
    have "c_nodes (core_of k2) m = c_nodes (core_of k) m" unfolding c2 core1 by simp
    then obtain node2 where m2: "k_nodes k2 m = Some node2" "node_core node2 = node_core node" using node by auto
    have f2: "n_refs node2 = n_refs node" "n_proc node2 = Some p"
      using arg_cong [OF m2(2), of nc_refs] arg_cong [OF m2(2), of nc_proc] node(2) by simp_all
    have refs: "\<exists>r. k_refs k x = Some r \<and> r_proc r' = r_proc r \<and> r_strong r' \<le> r_strong r"
      if r: "k_refs k' x = Some r'" "c_refs (core_of k') = c_refs (core_of k2)" "strong_at k' = strong_at k2" for k' x r'
    proof -
      have "c_refs (core_of k') x = c_refs (core_of k) x" unfolding r(2) c2 core1 by simp
      then obtain r where k: "k_refs k x = Some r" "ref_core r = ref_core r'" using r(1) by (cases "k_refs k x") auto
      have "strong_at k' x = strong_at k x" by (simp only: r(3) s2)
      then have "r_strong r' = r_strong r" using k(1) r(1) by (simp add: strong_at_def)
      then show ?thesis using k by (simp add: ref_core_def)
    qed
    show ?thesis
    proof (cases "n_refs node2 = []")
      case True
      let ?k3 = "stats_deleted Stat_node (k2\<lparr>k_nodes := (k_nodes k2)(m := None)\<rparr>)"
      have "tidy k ?k3" using tidy_qview [OF tidy_trans [OF t2 tidy_drop_node [OF tidyD(1) [OF t2] e2]]] by simp
      moreover have C3: "core_of ?k3 = g_del_node m (node_core node) (core_of k)"
      proof -
        have "core_of ?k3 = (core_of k2)\<lparr>c_nodes := (c_nodes (core_of k2))(m := None)\<rparr>"
          by (rule core_eqI) (simp_all add: stats_deleted_def)
        then show ?thesis unfolding c2 core1 by (simp add: g_del_node_def node(2) del: core_of_apply)
      qed
      moreover have "core_ok (g_del_node m (node_core node) (core_of k))"
        by (rule g_del_node_ok [OF soundD(1) [OF S]]) (use node True f2 in simp_all)
      moreover have "\<exists>r. k_refs k x = Some r \<and> r_proc r' = r_proc r \<and> r_strong r' \<le> r_strong r" if "k_refs ?k3 x = Some r'" for x r'
        by (rule refs [OF that]) (simp_all add: strong_at_def fun_eq_iff stats_deleted_def)
      ultimately have "sound W n ?k3 \<and> owner_at ?k3 = owner_at k" using sound_tidy [OF S, of ?k3] by (simp only:)
      then show ?thesis using True m2 by (simp add: post_simps)
    next
      case False
      let ?f = "\<lambda>x. x\<lparr>n_proc := None, n_local_strong := 0, n_local_weak := 0\<rparr>"
      let ?k3 = "(upd_node m ?f k2)\<lparr>k_dead_nodes := m # k_dead_nodes (upd_node m ?f k2)\<rparr>"
      have C3: "core_of ?k3 = g_orphan p m (core_of k)"
      proof -
        have "core_of ?k3 = core_of (upd_node m ?f k2)" by (rule core_eqI) simp_all
        also have "\<dots> = (core_of k2)\<lparr>c_nodes := (c_nodes (core_of k2))(m := map_option (\<lambda>n. n\<lparr>nc_proc := None\<rparr>) (c_nodes (core_of k2) m))\<rparr>"
          by (rule core_upd_node') (simp add: node_core_def)
        finally show ?thesis unfolding c2 core1 by (simp add: g_orphan_def del: core_of_apply)
      qed
      have ok: "core_ok (core_of ?k3)"
        unfolding C3 by (rule g_orphan_ok [OF soundD(1) [OF S], of _ "node_core node"]) (use node in simp_all)
      have w: "nodes_on ?k3 = nodes_on k2" by (rule nodes_on_cong) (simp_all add: upd_node_def option.map_comp comp_def)
      have fr: "entry_at ?k3 = entry_at k2" "owner_at ?k3 = owner_at k2" "pool_at ?k3 = pool_at k2" "strong_at ?k3 = strong_at k2"
        "home ?k3 = (home k2)(m \<mapsto> None)"
        using m2(1) by (auto simp: fun_eq_iff entry_at_def owner_at_def pool_at_def strong_at_def home_def upd_node_def)
      have "queue_ok ?k3"
        unfolding queue_ok_def w fr place_of_def using tidyD(1) [OF t2] e2 unfolding queue_ok_def place_of_def by (simp add: upd_node_def)
      moreover have "k_kzalloc ?k3 = k_kzalloc k2" by (simp add: upd_node_def)
      then have "k_kzalloc ?k3 = k_kzalloc k" "pool_at ?k3 = pool_at k" "owner_at ?k3 = owner_at k"
        using tidyD(2) [OF t2] unfolding rest_def qview_simps fr by metis+
      moreover have "k_nodes k a \<noteq> None" if "k_nodes ?k3 a \<noteq> None" for a
      proof -
        have "home k2 a \<noteq> None" using that m2(1) by (simp add: home_def upd_node_def split: if_splits)
        then have "home k a \<noteq> None" using tidyD(2) [OF t2] unfolding rest_def by metis
        then show ?thesis by (simp add: home_def)
      qed
      moreover have "\<exists>r. k_refs k x = Some r \<and> r_proc r' = r_proc r \<and> r_strong r' \<le> r_strong r" if "k_refs ?k3 x = Some r'" for x r'
        by (rule refs [OF that]) (simp add: upd_node_def fun_eq_iff, rule fr)
      ultimately have k3: "sound W n ?k3" "owner_at ?k3 = owner_at k" using ok by (auto intro!: sound_shrink [OF S])
      have "post (Some (notify_refs rs i ?k3)) (\<lambda>(_, k'). sound W n k' \<and> owner_at k' = owner_at k)" for rs
      proof (rule post_weaken [OF unseen_notify_refs], clarify)
        fix k4 assume v4: "unseen ?k3 k4"
        show "sound W n k4 \<and> owner_at k4 = owner_at k" using sound_view [OF k3(1) v4] owner_view [OF v4] k3(2) by simp
      qed
      then show ?thesis using False m2 by (simp add: post_simps Let_def)
    qed
  qed
  have "nodes_on ?k1 (Async_todo m) = []" by (rule queue_ok_async(1) [OF tidyD(1) [OF t1]])
  then have "post (binder_release_work A (Async_todo m) ?k1) (unseen ?k1)" by (rule unseen_release_work)
  then show ?thesis
    unfolding binder_node_release_def
    by (subst post_simps_basic(6), elim post_weaken) (rule fin)
qed

section \<open>The end of a process\<close>

definition no_nodes :: "nat \<Rightarrow> kstate \<Rightarrow> bool" where
  "no_nodes p k \<longleftrightarrow> (\<forall>m. home k m \<noteq> Some (Some p))"

definition no_refs :: "nat \<Rightarrow> kstate \<Rightarrow> bool" where
  "no_refs p k \<longleftrightarrow> refs_of (core_of k) p = {}"

lemma no_view: "view k' = view k \<Longrightarrow> no_nodes p k \<Longrightarrow> no_nodes p k'" "view k' = view k \<Longrightarrow> no_refs p k \<Longrightarrow> no_refs p k'"
proof -
  assume v: "view k' = view k"
  have "core_of k' = core_of k" using arg_cong [OF v, of v_core] by (simp only: view_simps)
  then show "no_refs p k \<Longrightarrow> no_refs p k'" by (simp only: no_refs_def)
  show "no_nodes p k \<Longrightarrow> no_nodes p k'" by (simp add: no_nodes_def home_view [OF v])
qed

lemma no_nodes_work: "queue_ok k \<Longrightarrow> no_nodes p k \<Longrightarrow> nodes_on k (Proc_todo p) = []"
proof (rule ccontr)
  assume Q: "queue_ok k" and n: "no_nodes p k" and "nodes_on k (Proc_todo p) \<noteq> []"
  then obtain m where "W_node m \<in> set (nodes_on k (Proc_todo p))" by (metis nodes_on_nodes list.set_sel(1))
  then have "entry_at k m = Some (Proc_todo p)" using queue_okD(2) [OF Q] by blast
  then obtain q where "home k m = Some (Some q)" "place_of k q (Proc_todo p)" using queue_okD(3) [OF Q] by blast
  then show False using n by (simp add: place_of_def no_nodes_def)
qed

lemma tree_first_in: "tree_first t = Some x \<Longrightarrow> x \<in> set (inorder t)" "tree_first t = None \<Longrightarrow> inorder t = []"
  by (auto simp: tree_first_def split: list.splits simp del: set_inorder)

definition no_threads :: "nat \<Rightarrow> kstate \<Rightarrow> bool" where
  "no_threads p k \<longleftrightarrow> (\<forall>t. owner_at k t \<noteq> Some p)"

lemma sound_free_threads:
  assumes R: "rb_ok (de_rb E)" and l: "po_leaving W = {}"
  shows "sound W n k \<Longrightarrow> post (free_threads A E p k) (\<lambda>k'. sound W n k' \<and> no_threads p k')"
proof (rule post_any, rule free_threads.raw_induct [where P = "\<lambda>A E' p k y. E' = E \<longrightarrow> sound W n k \<longrightarrow>
    post (Some y) (\<lambda>k'. sound W n k' \<and> no_threads p k')", rule_format], goal_cases)
  case (1 _ ft A E' p k y)
  note E = 1(5) and S = 1(6)
  have IH: "post (ft A E p k') (\<lambda>k'. sound W n k' \<and> no_threads p k')" if "sound W n k'" for k'
    by (rule post_any, rule 1(3) [OF _ refl that]) (simp add: E)
  have step: "post (rbind (binder_free_thread A E p t k) (\<lambda>(_, k). ft A E p k)) (\<lambda>k'. sound W n k' \<and> no_threads p k')"
    if x: "k_procs k p = Some x" "tree_first (p_threads x) = Some t" for x t
  proof -
    have own: "owner_at k t = Some p" using tree_first_in(1) [OF x(2)] pool_now(7) [OF S x(1)] l by simp
    show ?thesis unfolding post_simps by (rule post_weaken [OF sound_free_thread [OF R S l own]]) (auto intro: IH)
  qed
  have stop: "no_threads p k" if "k_procs k p = Some x" "tree_first (p_threads x) = None" for x
    using tree_first_in(2) [OF that(2)] pool_now(7) [OF S that(1)] l by (auto simp: no_threads_def)
  show ?case
    unfolding 1(4) [symmetric] E using S step stop by (auto simp: first_of_def post_simps split: option.split)
qed simp_all

lemma sound_release_nodes:
  assumes R: "rb_ok (de_rb E)"
  shows "sound W n k \<Longrightarrow> no_threads p k \<Longrightarrow> post (release_nodes A E p i k) (\<lambda>k'. sound W n k' \<and> no_threads p k' \<and> no_nodes p k')"
proof (rule post_any, rule release_nodes.raw_induct [where P = "\<lambda>A E' p i k y. E' = E \<longrightarrow> sound W n k \<longrightarrow> no_threads p k \<longrightarrow>
    post (Some y) (\<lambda>k'. sound W n k' \<and> no_threads p k' \<and> no_nodes p k')", rule_format], goal_cases)
  case (1 _ rn A E' p i k y)
  note E = 1(6) and S = 1(7) and NT = 1(8)
  have IH: "post (rn A E p i k') (\<lambda>k'. sound W n k' \<and> no_threads p k' \<and> no_nodes p k')"
    if "sound W n k'" "owner_at k' = owner_at k" for i k'
    by (rule post_any, rule 1(4) [OF _ refl that(1)]) (use E NT that(2) in \<open>simp_all add: no_threads_def\<close>)
  have step: "post (rbind (binder_node_release A m i (upd_proc p (\<lambda>x. x\<lparr>p_nodes := rb_erase (de_rb E) m (p_nodes x)\<rparr>) k))
      (\<lambda>(refs, k). rn A E p refs k)) (\<lambda>k'. sound W n k' \<and> no_threads p k' \<and> no_nodes p k')"
    if "k_procs k p = Some proc" "tree_first (p_nodes proc) = Some m" for proc m
    unfolding post_simps
    by (rule post_weaken [OF sound_node_release [OF R S that(1) tree_first_in(1) [OF that(2)]]]) (auto intro: IH)
  have stop: "no_nodes p k" if p: "k_procs k p = Some proc" "tree_first (p_nodes proc) = None" for proc
  proof -
    have P: "proc_ok (core_of k) p (proc_core proc)" by (rule core_okD(1) [OF soundD(1) [OF S]]) (simp add: p)
    then have "nodes_of (core_of k) p = {}" using tree_first_in(2) [OF p(2)] by (simp add: proc_ok_def)
    then have "m \<notin> nodes_of (core_of k) p" for m by blast
    then show ?thesis by (force simp: no_nodes_def nodes_of_def home_def node_core_def)
  qed
  show ?case
    unfolding 1(5) [symmetric] E using S NT step stop
    by (auto simp: first_of_def post_simps split: option.split)
qed simp_all

lemma sound_delete_refs:
  assumes R: "rb_ok (de_rb E)"
  shows "sound W n k \<Longrightarrow> no_threads p k \<Longrightarrow> no_nodes p k \<Longrightarrow>
    post (delete_refs E p k) (\<lambda>k'. sound W n k' \<and> no_threads p k' \<and> no_nodes p k' \<and> no_refs p k')"
proof (rule post_any, rule delete_refs.raw_induct [where P = "\<lambda>E' p k y. E' = E \<longrightarrow> sound W n k \<longrightarrow> no_threads p k \<longrightarrow> no_nodes p k \<longrightarrow>
    post (Some y) (\<lambda>k'. sound W n k' \<and> no_threads p k' \<and> no_nodes p k' \<and> no_refs p k')", rule_format], goal_cases)
  case (1 _ dr E' p k y)
  note E = 1(7) and S = 1(8) and NT = 1(9) and N = 1(10)
  have IH: "post (dr E p k') (\<lambda>k'. sound W n k' \<and> no_threads p k' \<and> no_nodes p k' \<and> no_refs p k')"
    if "sound W n k' \<and> no_threads p k' \<and> no_nodes p k'" for k'
    by (rule post_any, rule 1(5) [OF _ refl]) (use that E in auto)
  have del: "post (Some (binder_delete_ref (de_rb E) r k)) (\<lambda>k'. sound W n k' \<and> no_threads p k' \<and> no_nodes p k')" for r
  proof (rule post_of_cres)
    fix k' assume d: "binder_delete_ref (de_rb E) r k = Ret k'"
    have "sound W n k'" "owner_at k' = owner_at k" using post_cresD [OF sound_delete_ref [OF R S, of r] d] by simp_all
    moreover have "tidy k k'" by (rule post_cresD [OF tidy_delete_ref [OF soundD(2) [OF S], of "de_rb E" r] d])
    then have "home k' m = None \<or> home k' m = home k m" for m using tidyD(2) unfolding rest_def by blast
    then have "no_nodes p k'" using N unfolding no_nodes_def by (metis option.distinct(1))
    ultimately show "sound W n k' \<and> no_threads p k' \<and> no_nodes p k'" using NT by (simp add: no_threads_def)
  qed
  have step: "post (rbind (Some (binder_delete_ref (de_rb E) r k)) (dr E p)) (\<lambda>k'. sound W n k' \<and> no_threads p k' \<and> no_nodes p k' \<and> no_refs p k')" for r
    unfolding post_simps by (rule post_weaken [OF del]) (rule IH)
  have stop: "no_refs p k" if p: "k_procs k p = Some proc" "tree_first (p_refs_by_desc proc) = None" for proc
  proof -
    have P: "proc_ok (core_of k) p (proc_core proc)" by (rule core_okD(1) [OF soundD(1) [OF S]]) (simp add: p)
    then show ?thesis using tree_first_in(2) [OF p(2)] by (simp add: proc_ok_def no_refs_def)
  qed
  show ?case
    unfolding 1(6) [symmetric] E using S NT N step stop
    by (auto simp: first_of_def post_simps split: option.split)
qed simp_all

lemma unseen_free_bufs: "post (free_bufs E p k) (unseen k)"
proof (rule post_any, rule free_bufs.raw_induct [where P = "\<lambda>E p k y. post (Some y) (unseen k)"], goal_cases)
  case (1 _ fb E p k y)
  have IH: "post (fb E p k') (unseen k)" if "unseen k k'" for k'
  proof (rule post_any)
    fix y assume "fb E p k' = Some y"
    then show "post (Some y) (unseen k)" using 1(2) [of E p k' y] that by (simp add: post_def)
  qed
  have free: "post (Some (free_kbuf E p a k')) (unseen k)" if "unseen k k'" for a k'
    by (rule post_weaken [OF unseen_free_kbuf]) (use that in simp)
  have "post (rbind (Some (free_kbuf E p a k')) (fb E p)) (unseen k)" if "unseen k k'" for a k'
    unfolding post_simps by (rule post_weaken [OF free [OF that]]) (rule IH)
  then show ?case
    unfolding 1(3) [symmetric] by (auto simp: post_simps intro!: post_of_cres split: option.split)
qed simp_all

lemma drop_proc:
  assumes S: "sound W n k" and nt: "no_threads p k" and nn: "no_nodes p k" and nr: "no_refs p k" and W: "po_waits W p = 0"
  shows "sound W n (k\<lparr>k_procs := (k_procs k)(p := None)\<rparr>)"
proof -
  let ?k = "k\<lparr>k_procs := (k_procs k)(p := None)\<rparr>"
  have w: "nodes_on ?k = nodes_on k"
  proof
    fix l show "nodes_on ?k l = nodes_on k l"
      using no_nodes_work [OF soundD(2) [OF S] nn] queue_ok_async(2) [OF soundD(2) [OF S], of p] by (cases l) auto
  qed
  have fr: "entry_at ?k = entry_at k" "home ?k = home k" "owner_at ?k = owner_at k" "pool_at ?k = (pool_at k)(p := None)"
    by (auto simp: entry_at_def home_def owner_at_def pool_at_def fun_eq_iff)
  have Q: "queue_ok ?k"
    unfolding queue_ok_def w fr place_of_def
    using soundD(2) [OF S] nn unfolding queue_ok_def place_of_def no_nodes_def by simp
  have C: "core_of ?k = (core_of k)\<lparr>c_procs := (c_procs (core_of k))(p := None)\<rparr>" (is "_ = ?C") by (rule core_eqI) auto
  have e: "refs_of ?C q = refs_of (core_of k) q" "nodes_of ?C q = nodes_of (core_of k) q" "strong_refs ?C = strong_refs (core_of k)" for q
    by (simp_all add: refs_of_def nodes_of_def strong_refs_def fun_eq_iff del: core_of_apply)
  have "proc_ok ?C q Q" if "c_procs ?C q = Some Q" for q Q
  proof -
    have "proc_ok (core_of k) q Q" using that by (intro core_okD(1) [OF soundD(1) [OF S]]) (simp split: if_splits del: core_of_apply)
    then show ?thesis by (simp add: proc_ok_def e)
  qed
  moreover have "node_ok ?C a x" if "c_nodes ?C a = Some x" for a x
  proof -
    have a: "c_nodes (core_of k) a = Some x" using that by (simp del: core_of_apply)
    have N: "node_ok (core_of k) a x" by (rule core_okD(2) [OF soundD(1) [OF S] a])
    have "nc_proc x \<noteq> Some p"
      using nn a by (force simp: no_nodes_def home_def node_core_def)
    then show ?thesis using N by (auto simp: node_ok_def e simp del: core_of_apply)
  qed
  moreover have "ref_ok ?C x r" if "c_refs ?C x = Some r" for x r
  proof -
    have x: "c_refs (core_of k) x = Some r" using that by (simp del: core_of_apply)
    have "rc_proc r \<noteq> p" using nr x by (force simp: no_refs_def refs_of_def)
    then show ?thesis using core_okD(3) [OF soundD(1) [OF S] x] by (simp add: ref_ok_def del: core_of_apply)
  qed
  ultimately have "core_ok (core_of ?k)" unfolding C by (simp add: core_ok_def del: core_of_apply)
  then show ?thesis
    using Q by (intro sound_shrink [OF S]) (use nt in \<open>auto simp: fr W no_threads_def\<close>)
qed

lemma sound_deferred_release:
  assumes R: "rb_ok (de_rb E)" and S: "sound W n k" and W: "po_waits W p = 0" "po_leaving W = {}"
  shows "post (binder_deferred_release A E p k) (\<lambda>k'. sound W n k' \<and> no_threads p k')"
proof -
  let ?N = "\<lambda>k. sound W n k \<and> no_threads p k \<and> no_nodes p k \<and> no_refs p k"
  have v: "?N k2" if "unseen k1 k2" "?N k1" for k1 k2
    using that sound_view [of W n k1 k2] no_view [of k2 k1 p] owner_view [of k2 k1] by (simp add: no_threads_def)
  have mgr: "post (Some (drop_mgr p k)) (sound W n)"
    using sound_view [OF S] by (auto simp: drop_mgr_def post_simps S split: option.split)
  have work: "post (binder_release_work A l k1) ?N" if "?N k1" "l = Proc_todo p \<or> l = Delivered p" for k1 l
  proof -
    have "nodes_on k1 l = []" using that no_nodes_work [of k1 p] queue_ok_async(2) [of k1 p] soundD(2) [of W n k1] by blast
    then show ?thesis by (rule post_weaken [OF unseen_release_work]) (rule v [OF _ that(1)])
  qed
  have bufs: "post (free_bufs E p k1) ?N" if "?N k1" for k1
    by (rule post_weaken [OF unseen_free_bufs]) (rule v [OF _ that])
  have fin: "sound W n ((stats_deleted Stat_proc k1)\<lparr>k_procs := (k_procs k1)(p := None)\<rparr>) \<and>
      no_threads p ((stats_deleted Stat_proc k1)\<lparr>k_procs := (k_procs k1)(p := None)\<rparr>)" if "?N k1" for k1
  proof -
    have N: "?N (stats_deleted Stat_proc k1)" by (rule v [OF _ that]) simp
    then have "sound W n ((stats_deleted Stat_proc k1)\<lparr>k_procs := (k_procs (stats_deleted Stat_proc k1))(p := None)\<rparr>)"
      using drop_proc W(1) by blast
    then show ?thesis using N by (simp add: stats_deleted_def no_threads_def owner_at_def)
  qed
  show ?thesis
    unfolding binder_deferred_release_def post_simps
    by (auto simp: post_simps fin intro!: post_weaken [OF mgr] post_weaken [OF sound_free_threads [OF R W(2)]]
      post_weaken [OF sound_release_nodes [OF R]] post_weaken [OF sound_delete_refs [OF R]] post_weaken [OF work] post_weaken [OF bufs])
qed

end
