(* ===== verification/Drv_World.thy ===== *)
theory Drv_World
  imports Drv_End
begin

text \<open>
  The driver as a whole: the steps that it takes under its lock, in any order of the calls of all
  processes, and the invariant that every state it reaches has.
\<close>

section \<open>Processes and threads that appear\<close>

lemma sound_fresh:
  assumes S: "sound W n k" and kz: "kzalloc k = (Some a, k1)" and C: "core_ok (core_of k')" and Q: "queue_ok k'"
    and m: "k_kzalloc k' = k_kzalloc k1" and u: "\<And>b. used_at k' b \<Longrightarrow> used_at k b \<or> b = a" and r: "k_refs k' = k_refs k"
    and P: "pool_ok W k'"
  shows "sound W n k'"
proof -
  have fresh: "\<not> used_at k a" "Some a \<notin> set (k_kzalloc k1)" "mem_ok k1"
    using mem_ok_kzalloc(1) [OF soundD(3) [OF S] kz] mem_ok_kzalloc(2) [OF soundD(3) [OF S] kz, of a] by simp_all
  have "used_at k1 = used_at k" using kzalloc_fields [OF kz] by (simp add: fun_eq_iff used_at_def)
  then have "mem_ok k'" using fresh u by (auto simp: mem_ok_def m)
  moreover have "room n k'"
  proof -
    have "refs_of (core_of k') p = refs_of (core_of k) p" for p by (simp add: refs_of_def r)
    then show ?thesis using soundD(4) [OF S] unfolding room_def r by simp
  qed
  ultimately show ?thesis using C Q P by (simp add: sound_def)
qed

lemma fresh_used:
  assumes "sound W n k" "kzalloc k = (Some a, k1)"
  shows "\<not> used_at k a"
  using mem_ok_kzalloc(2) [OF soundD(3) [OF assms(1)] assms(2)] by blast

lemma sound_open:
  assumes S: "sound W n k" and d: "drv_open pid nice k = (e, x, k')"
  shows "sound W n k'"
proof -
  obtain r k1 where kz: "kzalloc k = (r, k1)" by fastforce
  note S1 = sound_kzalloc [OF S kz]
  show ?thesis
  proof (cases r)
    case None
    then show ?thesis using d kz S1 by (simp add: drv_open_def)
  next
    case (Some a)
    have k': "k' = (stats_created Stat_proc k1)\<lparr>k_procs := (k_procs k1)(a \<mapsto> fresh_proc pid nice)\<rparr>"
      using d kz Some by (simp add: drv_open_def Let_def stats_created_def)
    have same: "k_procs k1 = k_procs k" "k_nodes k1 = k_nodes k" "k_refs k1 = k_refs k" "k_threads k1 = k_threads k"
      using kzalloc_fields [OF kz] by simp_all
    have "k_procs k a = None" using fresh_used [OF S kz [unfolded Some]] by (simp add: used_at_def)
    then have a: "k_procs k a = None" "po_waits W a = 0" "\<And>t. owner_at k t \<noteq> Some a"
      using soundD(5) [OF S] by (simp_all add: pool_ok_def pool_at_def)
    have w: "nodes_on k' = nodes_on k"
    proof
      fix l show "nodes_on k' l = nodes_on k l" using a by (cases l) (auto simp: k' same fresh_proc_def stats_created_def)
    qed
    have fr: "entry_at k' = entry_at k" "home k' = home k" "owner_at k' = owner_at k" "k_refs k' = k_refs k"
      "pool_at k' = (pool_at k)(a \<mapsto> (0, 0, 0, 0, Leaf))"
      by (auto simp: k' same entry_at_def home_def owner_at_def pool_at_def fun_eq_iff fresh_proc_def stats_created_def)
    show ?thesis
    proof (rule sound_fresh [OF S kz [unfolded Some]])
      show "core_ok (core_of k')" by (rule core_ok_open [OF soundD(1) [OF S] fresh_addr_mem [OF soundD(3) [OF S]] d])
      show "queue_ok k'"
        unfolding queue_ok_def w fr place_of_def using soundD(2) [OF S] unfolding queue_ok_def place_of_def
        by (simp add: k' same)
      show "pool_ok W k'" using soundD(5) [OF S] a(2,3) unfolding pool_ok_def fr by simp
      show "used_at k b \<or> b = a" if "used_at k' b" for b
        using that by (auto simp: used_at_def k' same stats_created_def split: if_splits)
    qed (simp_all add: fr, simp add: k' stats_created_def)
  qed
qed

lemma sound_get_thread:
  assumes R: "rb_ok R" and S: "sound W n k" and l: "po_leaving W = {}"
  shows "post (Some (binder_get_thread R p pid k)) (\<lambda>(_, k'). sound W n k')"
proof -
  obtain r k1 where kz: "kzalloc k = (r, k1)" by fastforce
  note S1 = sound_kzalloc [OF S kz]
  have v: "sound W n (stats_created Stat_thread k1)" by (rule sound_view [OF S1]) simp
  have new: "sound W n ((upd_proc p (\<lambda>x. x\<lparr>p_threads := rb_color R t\<rparr>) (stats_created Stat_thread k1))\<lparr>k_threads :=
      (k_threads (upd_proc p (\<lambda>x. x\<lparr>p_threads := rb_color R t\<rparr>) (stats_created Stat_thread k1)))(a \<mapsto> fresh_thread p pid)\<rparr>)"
    (is "sound W n ?k'") if Some: "r = Some a" and x: "k_procs k p = Some x" and t: "tree_link f a (p_threads x) = Ret (Inr t)" for a t x f
  proof -
    let ?k2 = "upd_proc p (\<lambda>x. x\<lparr>p_threads := rb_color R t\<rparr>) (stats_created Stat_thread k1)"
    note fr2 = set_threads [where p = p and g = "\<lambda>x. rb_color R t" and k = "stats_created Stat_thread k1"]
    have ths: "k_threads ?k2 = k_threads k" "k_nodes ?k2 = k_nodes k" "k_refs ?k2 = k_refs k" "k_kzalloc ?k2 = k_kzalloc k1"
      "(k_procs ?k2 b = None) = (k_procs k b = None)" for b
      using kzalloc_fields [OF kz] by (auto simp: upd_proc_def stats_created_def)
    have a: "k_threads k a = None" using fresh_used [OF S kz [unfolded Some]] by (auto simp: used_at_def)
    have fresh: "owner_at k a = None" by (simp add: owner_at_def a)
    have k2: "owner_at ?k2 = owner_at k" "queue_ok ?k2" "core_of ?k2 = core_of k"
    proof -
      have same: "view (stats_created Stat_thread k1) = view k1" by simp
      have "owner_at k1 = owner_at k" using arg_cong [OF qview_kzalloc [OF kz], of q_owner] by (simp add: qview_simps)
      then show "owner_at ?k2 = owner_at k" using owner_view [OF same] by (simp only: fr2(5))
      show "queue_ok ?k2" by (rule fr2(7) [OF soundD(2) [OF v]])
      show "core_of ?k2 = core_of k"
        using core_kzalloc [OF kz] arg_cong [OF same, of v_core] by (simp only: fr2(1) view_simps)
    qed
    have T: "distinct (inorder t)" "set (inorder t) = insert a (set (inorder (p_threads x)))"
      using tree_link_set [OF t] pool_now(6,7) [OF S x] fresh by simp_all
    have w: "nodes_on ?k' = nodes_on ?k2"
    proof
      fix l show "nodes_on ?k' l = nodes_on ?k2 l" using a by (cases l) (auto simp: ths fresh_thread_def)
    qed
    have fr: "entry_at ?k' = entry_at ?k2" "home ?k' = home ?k2" "owner_at ?k' = (owner_at ?k2)(a \<mapsto> p)"
      by (auto simp: entry_at_def home_def owner_at_def fun_eq_iff fresh_thread_def)
    have pool: "pool_at ?k' q = (if q = p then Some (p_max_threads x, p_requested x, p_started x, p_ready x, rb_color R t) else pool_at k q)" for q
      using kzalloc_fields [OF kz] by (simp add: pool_at_def upd_proc_def stats_created_def x)
    have a2: "owner_at ?k2 a = None" by (simp add: k2(1) fresh)
    show ?thesis
    proof (rule sound_fresh [OF S kz [unfolded Some]])
      have "core_of ?k' = core_of ?k2" by (rule core_eqI) simp_all
      then show "core_ok (core_of ?k')" using soundD(1) [OF S] k2(3) by (simp del: core_of_apply)
      show "queue_ok ?k'"
        unfolding queue_ok_def w fr place_of_def using k2(2) a2 unfolding queue_ok_def place_of_def
        by (simp, metis option.distinct(1))
      show "pool_ok W ?k'"
        unfolding pool_ok_def fr k2(1)
      proof (intro conjI allI impI)
        fix q m r s d u assume q: "pool_at ?k' q = Some (m, r, s, d, u)"
        have "0 \<le> r \<and> r \<le> 1 \<and> 0 \<le> s \<and> s + r \<le> max m (po_before W q) \<and> d = int (po_waits W q) \<and>
          distinct (inorder u) \<and> set (inorder u) = {t. ((owner_at k)(a \<mapsto> p)) t = Some q \<and> t \<notin> po_leaving W}"
        proof (cases "q = p")
          case True
          then have e: "m = p_max_threads x" "r = p_requested x" "s = p_started x" "d = p_ready x" "u = rb_color R t"
            using q by (simp_all add: pool)
          have "{t. ((owner_at k)(a \<mapsto> p)) t = Some p} = insert a {t. owner_at k t = Some p}" by auto
          then have "set (inorder u) = {t. ((owner_at k)(a \<mapsto> p)) t = Some q \<and> t \<notin> po_leaving W}"
            using T(2) pool_now(7) [OF S x] True by (simp add: e rb_okD(1) [OF R] l)
          then show ?thesis using pool_now(1-5) [OF S x] T(1) True e rb_okD(1) [OF R] by simp
        next
          case False
          then have "pool_at k q = Some (m, r, s, d, u)" using q by (simp add: pool)
          note P = soundD(5) [OF S, unfolded pool_ok_def, THEN conjunct1, rule_format, OF this]
          have "{t. ((owner_at k)(a \<mapsto> p)) t = Some q \<and> t \<notin> po_leaving W} = {t. owner_at k t = Some q \<and> t \<notin> po_leaving W}"
            using fresh False by auto
          then show ?thesis using P by simp
        qed
        then show "0 \<le> r" "r \<le> 1" "0 \<le> s" "s + r \<le> max m (po_before W q)" "d = int (po_waits W q)" "distinct (inorder u)"
          "set (inorder u) = {t. ((owner_at k)(a \<mapsto> p)) t = Some q \<and> t \<notin> po_leaving W}" by blast+
      next
        fix q t assume "pool_at ?k' q = None"
        then have q: "q \<noteq> p" "pool_at k q = None" by (simp_all add: pool split: if_splits)
        then show "po_waits W q = 0" "((owner_at k)(a \<mapsto> p)) t \<noteq> Some q" using soundD(5) [OF S] unfolding pool_ok_def by auto
      qed
      show "used_at k b \<or> b = a" if "used_at ?k' b" for b
        using that ths by (auto simp: used_at_def split: if_splits)
    qed (simp_all add: ths)
  qed
  show ?thesis
    using v S1 S new
    by (auto simp: binder_get_thread_def post_simps kz Let_def intro!: post_of_cres split: option.split sum.split)
qed

section \<open>Steps\<close>

text \<open>
  A call that waits for work: its process and thread, whether it waits for work of the process,
  and its read buffer. The state of the driver is what \<open>kstate\<close> holds and the waiting calls.
\<close>

record wcall =
  wc_proc :: nat
  wc_thread :: nat
  wc_wait :: bool
  wc_rd :: rd

definition waits :: "wcall list \<Rightarrow> nat \<Rightarrow> nat" where
  "waits cs p = length (filter (\<lambda>c. wc_proc c = p \<and> wc_wait c) cs)"

fun add_call :: "nat \<Rightarrow> nat \<Rightarrow> rcall \<Rightarrow> wcall list \<Rightarrow> wcall list" where
  "add_call p th (C_wait w r) cs = \<lparr>wc_proc = p, wc_thread = th, wc_wait = w, wc_rd = r\<rparr> # cs"
| "add_call p th _ cs = cs"

definition pools_of :: "(nat \<Rightarrow> int) \<Rightarrow> wcall list \<Rightarrow> pools" where
  "pools_of B cs = \<lparr>po_waits = waits cs, po_before = B, po_leaving = {}\<rparr>"

lemma pools_of_fields [simp]: "po_waits (pools_of B cs) = waits cs" "po_before (pools_of B cs) = B" "po_leaving (pools_of B cs) = {}"
  by (simp_all add: pools_of_def)

lemma waits_add: "pools_of B (add_call p th c cs) = waits_with p (pools_of B cs) c"
proof (cases c)
  case (C_wait w r)
  then show ?thesis by (cases w) (auto simp: pools_of_def one_more_def waits_def fun_eq_iff)
qed simp_all

lemma waits_remove:
  assumes "c \<in> set cs"
  shows "pools_of B (remove1 c cs) = (if wc_wait c then one_less (wc_proc c) (pools_of B cs) else pools_of B cs)"
    "wc_wait c \<Longrightarrow> 0 < po_waits (pools_of B cs) (wc_proc c)"
proof -
  show pos: "wc_wait c \<Longrightarrow> 0 < po_waits (pools_of B cs) (wc_proc c)" using assms by (auto simp: waits_def filter_empty_conv)
  have "waits (remove1 c cs) = (if wc_wait c then (waits cs)(wc_proc c := waits cs (wc_proc c) - 1) else waits cs)"
  proof
    fix p
    show "waits (remove1 c cs) p = (if wc_wait c then (waits cs)(wc_proc c := waits cs (wc_proc c) - 1) else waits cs) p"
    proof (cases "wc_proc c = p \<and> wc_wait c")
      case True
      then have "filter (\<lambda>c. wc_proc c = p \<and> wc_wait c) (remove1 c cs) = remove1 c (filter (\<lambda>c. wc_proc c = p \<and> wc_wait c) cs)"
        by (simp add: filter_remove1)
      then show ?thesis using True assms by (auto simp: waits_def length_remove1)
    next
      case False
      then have "filter (\<lambda>c. wc_proc c = p \<and> wc_wait c) (remove1 c cs) = filter (\<lambda>c. wc_proc c = p \<and> wc_wait c) cs"
        by (simp add: filter_remove1 remove1_idem)
      then show ?thesis using False by (auto simp: waits_def)
    qed
  qed
  then show "pools_of B (remove1 c cs) = (if wc_wait c then one_less (wc_proc c) (pools_of B cs) else pools_of B cs)"
    by (simp add: pools_of_def one_less_def)
qed

text \<open>
  One step holds the driver's lock from start to end. The conditions of a step are those under
  which it happens: a call comes from a thread of its process, memory that \<open>kzalloc\<close> returns is not
  in use, no call of a process waits for its work when the process goes; and one that keeps
  32 bit numbers from running over: the counters of references and the number of references of a
  process are below that by as much as the commands of a write buffer can add.
\<close>

inductive drv_step :: "kabi \<Rightarrow> denv \<Rightarrow> wcall list \<times> kstate \<Rightarrow> wcall list \<times> kstate \<Rightarrow> bool" for A E where
  opened: "drv_open pid nice k = (e, x, k') \<Longrightarrow> drv_step A E (cs, k) (cs, k')"
| attach: "binder_get_thread (de_rb E) p pid k = Ret (x, k') \<Longrightarrow> drv_step A E (cs, k) (cs, k')"
| written: "owner_at k th = Some p \<Longrightarrow> \<forall>i cmd. fetch i = Some cmd \<longrightarrow> bc_cost cmd \<le> C \<Longrightarrow>
    room (C * (wr_write_size w - wr_write_consumed w)) k \<Longrightarrow>
    ioctl_write A E p th fetch w k = Some (Ret (res, w', k')) \<Longrightarrow> drv_step A E (cs, k) (cs, k')"
| started: "owner_at k th = Some p \<Longrightarrow> read_begin A E p th r k = Ret (c, k') \<Longrightarrow>
    drv_step A E (cs, k) (add_call p th c cs, k')"
| resume: "c \<in> set cs \<Longrightarrow> owner_at k (wc_thread c) = Some (wc_proc c) \<Longrightarrow> k_procs k (wc_proc c) \<noteq> None \<Longrightarrow>
    read_continue A E (wc_proc c) (wc_thread c) (wc_wait c) res (wc_rd c) k = Some (Ret (d, k')) \<Longrightarrow>
    drv_step A E (cs, k) (add_call (wc_proc c) (wc_thread c) d (remove1 c cs), k')"
| command: "owner_at k th = Some p \<Longrightarrow> cmd = I_set_context_mgr \<longrightarrow> room 1 k \<Longrightarrow>
    ioctl_other A E p th euid cmd k = Some (Ret (res, k')) \<Longrightarrow> drv_step A E (cs, k) (cs, k')"
| leave: "drv_step A E (cs, k) (cs, need_return_off th k)"
| polled: "binder_poll (de_rb E) p pid k = Ret (b, k') \<Longrightarrow> drv_step A E (cs, k) (cs, k')"
| flushed: "binder_deferred_flush p k = Ret (m, k') \<Longrightarrow> drv_step A E (cs, k) (cs, k')"
| mapped: "drv_step A E (cs, k) (cs, upd_proc p (\<lambda>x. x\<lparr>p_alloc := al\<rparr>) k)"
| released: "waits cs p = 0 \<Longrightarrow> binder_deferred_release A E p k = Some (Ret k') \<Longrightarrow> drv_step A E (cs, k) (cs, k')"
| kernel: "mem_ok (k\<lparr>k_kzalloc := as\<rparr>) \<Longrightarrow> drv_step A E (cs, k) (cs, k\<lparr>k_kzalloc := as, k_fds := fds, k_nice := nice\<rparr>)"

inductive drv_reach :: "kabi \<Rightarrow> denv \<Rightarrow> wcall list \<Rightarrow> kstate \<Rightarrow> bool" for A E where
  boot: "booted k \<Longrightarrow> k_threads k = Map.empty \<Longrightarrow> mem_ok k \<Longrightarrow> drv_reach A E [] k"
| step: "drv_reach A E cs k \<Longrightarrow> drv_step A E (cs, k) (cs', k') \<Longrightarrow> drv_reach A E cs' k'"

section \<open>Every step keeps the invariant\<close>

lemma sound_room: "sound W 0 k \<Longrightarrow> room n k \<Longrightarrow> sound W n k"
  by (simp add: sound_def)

lemma call_stateI: "rb_ok (de_rb E) \<Longrightarrow> sound W n k \<Longrightarrow> owner_at k th = Some p \<Longrightarrow> call_state E W p th (owner_at k) n k"
  by (simp add: call_state_def)

lemma call_sound: "call_state E W p th own n k \<Longrightarrow> sound W n k"
  by (simp add: call_state_def)

lemma sound_kernel:
  assumes S: "sound W n k" and m: "mem_ok (k\<lparr>k_kzalloc := as\<rparr>)"
  shows "sound W n (k\<lparr>k_kzalloc := as, k_fds := fds, k_nice := nice\<rparr>)"
proof -
  let ?k = "k\<lparr>k_kzalloc := as\<rparr>"
  have "core_of ?k = core_of k" by (rule core_eqI) simp_all
  moreover have "queue_ok ?k"
    by (rule queue_ok_cong [OF soundD(2) [OF S]], rule nodes_on_cong) (simp_all add: entry_at_def home_def owner_at_def fun_eq_iff)
  moreover have "pool_at ?k = pool_at k" "owner_at ?k = owner_at k" by (simp_all add: pool_at_def owner_at_def fun_eq_iff)
  ultimately have "sound W n ?k" using S m by (simp add: sound_def room_def pool_ok_def del: core_of_apply)
  then show ?thesis by (rule sound_view) simp
qed

lemma sound_set_ctx_mgr:
  assumes R: "rb_ok R" and S: "sound W (Suc n) k"
  shows "post (Some (binder_ioctl_set_ctx_mgr R p uid k)) (\<lambda>(_, k'). sound W n k')"
proof -
  have v: "sound W n k2" if "sound W n k1" "view k2 = view k1" for k1 k2 by (rule sound_view [OF that])
  have S0: "sound W n k" by (rule sound_less [OF S]) simp
  have new: "post (Some (binder_new_node R p 0 0 k1)) (\<lambda>(node, k2). post (Some (let k3 = k2\<lparr>k_mgr := node\<rparr>
              in case node of
                   None \<Rightarrow> Ret (E_NOMEM, k3)
                 | Some n \<Rightarrow> Ret (0, upd_node n (\<lambda>x. x\<lparr>n_local_weak := n_local_weak x + 1,
                     n_local_strong := n_local_strong x + 1, n_has_strong := True, n_has_weak := True\<rparr>) k3))) (\<lambda>(_, k'). sound W n k'))"
    if "view k1 = view k" for k1
    by (rule post_weaken [OF sound_new_node [OF R sound_view [OF S that]]]) (auto simp: post_simps Let_def elim: v split: option.split)
  show ?thesis
    by (auto simp: binder_ioctl_set_ctx_mgr_def post_simps intro!: new v [OF S0] split: option.split)
qed

lemma sound_flush: "sound W n k \<Longrightarrow> post (Some (binder_deferred_flush p k)) (\<lambda>(_, k'). sound W n k')"
proof -
  have "view (fold (\<lambda>t. upd_thread t (\<lambda>x. x\<lparr>th_looper := th_looper x OR b\<rparr>)) ts k) = view k" for b ts
    by (induction ts arbitrary: k) simp_all
  then show "sound W n k \<Longrightarrow> ?thesis" by (auto simp: binder_deferred_flush_def post_simps Let_def intro: sound_view)
qed

lemma sound_poll: "rb_ok R \<Longrightarrow> sound W n k \<Longrightarrow> po_leaving W = {} \<Longrightarrow> post (Some (binder_poll R p pid k)) (\<lambda>(_, k'). sound W n k')"
  unfolding binder_poll_def post_simps by (rule post_weaken [OF sound_get_thread]) (auto simp: post_simps)

lemma call_other:
  assumes S: "call_state E W p th own 0 k" and rm: "cmd = I_set_context_mgr \<longrightarrow> room 1 k"
    and m: "\<And>x. k_procs k p = Some x \<Longrightarrow> p_started x + p_requested x \<le> po_before W p" and l: "po_leaving W = {}"
  shows "post (ioctl_other A E p th euid cmd k) (\<lambda>(_, k'). sound W 0 k')"
proof -
  have v: "sound W 0 (need_return_off th k')" if "sound W 0 k'" for k' by (rule sound_view [OF that]) (simp add: need_return_off_def)
  have S0: "sound W 0 k" by (rule call_sound [OF S])
  have R: "rb_ok (de_rb E)" and own: "owner_at k th = Some p" using S by (auto simp: call_state_def)
  have max: "sound W 0 (upd_proc p (\<lambda>x. x\<lparr>p_max_threads := i\<rparr>) k)" if "cmd = I_set_max_threads (Some i)" for i
  proof (cases "k_procs k p")
    case None
    then have "upd_proc p (\<lambda>x. x\<lparr>p_max_threads := i\<rparr>) k = k" by (simp add: upd_proc_def fun_upd_idem)
    then show ?thesis using S0 by simp
  next
    case (Some x)
    then show ?thesis
      using call_pool [OF S Some] m [OF Some] by (intro call_sound [OF call_counters [OF S Some]]) (simp_all add: proc_core_def)
  qed
  have mgr: "post (Some (binder_ioctl_set_ctx_mgr (de_rb E) p euid k)) (\<lambda>(_, k'). sound W 0 k')" if "cmd = I_set_context_mgr"
  proof (rule sound_set_ctx_mgr)
    show "rb_ok (de_rb E)" by (rule R)
    show "sound W (Suc 0) k" by (rule sound_room [OF S0]) (use rm that in simp)
  qed
  show ?thesis
    using S0 max mgr
    by (auto simp: ioctl_other_def post_simps intro!: v intro: post_weaken [OF sound_free_thread [OF R S0 l own]] elim!: post_weaken
      split: icmd.split option.split)
qed

lemma call_write:
  assumes S: "call_state E W p th own (C * (wr_write_size w - wr_write_consumed w)) k"
    and f: "\<And>i cmd. fetch i = Some cmd \<Longrightarrow> bc_cost cmd \<le> C"
  shows "post (ioctl_write A E p th fetch w k) (\<lambda>(_, _, k'). sound W 0 k')"
proof -
  have "post (binder_thread_write A E p th fetch (wr_write_size w) (wr_write_consumed w) k) (\<lambda>(_, _, k'). call_state E W p th own 0 k')"
    by (rule driver.thread_write [OF f]) (use S in simp_all)
  then show ?thesis
    using call_sound [OF driver.less [OF S]] by (auto simp: ioctl_write_def post_simps Let_def elim!: post_weaken intro: call_sound)
qed

text \<open>
  The invariant of a state: what \<open>sound\<close> says, with the calls that wait. A step is compared with the
  number of threads that each process had started or asked for before it: where there are more
  afterwards, the process may have that many.
\<close>

definition threads_at :: "kstate \<Rightarrow> nat \<Rightarrow> int" where
  "threads_at k p = (case k_procs k p of None \<Rightarrow> 0 | Some x \<Rightarrow> p_started x + p_requested x)"

lemma pools_now:
  assumes "sound (pools_of B cs) n k"
  shows "sound (pools_of (threads_at k) cs) n k"
proof -
  have "s + r \<le> max m (threads_at k p)" if "pool_at k p = Some (m, r, s, d, T)" for p m r s d T
    using that by (auto simp: pool_at_def threads_at_def)
  then have "pool_ok (pools_of (threads_at k) cs) k" using soundD(5) [OF assms] unfolding pool_ok_def by simp
  then show ?thesis using assms by (simp add: sound_def)
qed

theorem step_sound:
  assumes R: "rb_ok (de_rb E)" and st: "drv_step A E s s'" and S: "sound (pools_of (threads_at (snd s)) (fst s)) 0 (snd s)"
  shows "sound (pools_of (threads_at (snd s)) (fst s')) 0 (snd s')"
  using st S
proof cases
  case (opened pid nice k e x k' cs)
  then show ?thesis using S sound_open by simp
next
  case (attach p pid k x k' cs)
  have "sound (pools_of (threads_at k) cs) 0 k" using S unfolding attach(1) by simp
  from post_cresD [OF sound_get_thread [OF R this] attach(3)] show ?thesis by (simp add: attach(1,2))
next
  case (written k th p fetch C w res w' k' cs)
  have k: "sound (pools_of (threads_at k) cs) (C * (wr_write_size w - wr_write_consumed w)) k"
    by (rule sound_room) (use S written in simp_all)
  have "post (ioctl_write A E p th fetch w k) (\<lambda>(_, _, k'). sound (pools_of (threads_at k) cs) 0 k')"
    by (rule call_write [OF call_stateI [OF R k written(3)]]) (use written(4) in blast)
  then show ?thesis using written by (simp add: post_def)
next
  case (started k th p r c k' cs)
  have "sound (pools_of (threads_at k) cs) 0 k" using S started by simp
  note b = call_begin [OF call_stateI [OF R this started(3)], of A r]
  show ?thesis using post_cresD [OF b started(4)] started by (simp add: waits_add call_sound)
next
  case (resume c cs k res d k')
  let ?W = "if wc_wait c then one_less (wc_proc c) (pools_of (threads_at k) cs) else pools_of (threads_at k) cs"
  have S0: "sound (pools_of (threads_at k) cs) 0 k" using S resume by simp
  obtain x where x: "k_procs k (wc_proc c) = Some x" using resume(5) by blast
  have "post (read_continue A E (wc_proc c) (wc_thread c) (wc_wait c) res (wc_rd c) k)
      (\<lambda>(d, k'). call_state E (waits_with (wc_proc c) ?W d) (wc_proc c) (wc_thread c) (owner_at k) 0 k')"
    by (rule call_continue [OF call_stateI [OF R S0 resume(4)] waits_remove(2) [OF resume(3)] refl x])
  then show ?thesis using resume by (simp add: post_def waits_add waits_remove(1) call_sound del: fun_upd_apply)
next
  case (command k th p cmd euid res k' cs)
  have S0: "sound (pools_of (threads_at k) cs) 0 k" using S command by simp
  have "post (ioctl_other A E p th euid cmd k) (\<lambda>(_, k'). sound (pools_of (threads_at k) cs) 0 k')"
    by (rule call_other [OF call_stateI [OF R S0 command(3)] command(4)]) (simp_all add: threads_at_def)
  then show ?thesis using command by (simp add: post_def)
next
  case (leave cs k th)
  then show ?thesis using S sound_view [of "pools_of (threads_at k) cs" 0 k "need_return_off th k"] by (simp add: need_return_off_def)
next
  case (polled p pid k b k' cs)
  have "sound (pools_of (threads_at k) cs) 0 k" using S unfolding polled(1) by simp
  from post_cresD [OF sound_poll [OF R this] polled(3)] show ?thesis by (simp add: polled(1,2))
next
  case (flushed p k m k' cs)
  have "sound (pools_of (threads_at k) cs) 0 k" using S unfolding flushed(1) by simp
  from post_cresD [OF sound_flush [OF this] flushed(3)] show ?thesis by (simp add: flushed(1,2))
next
  case (mapped cs k p al)
  then show ?thesis
    using S sound_view [of "pools_of (threads_at k) cs" 0 k "upd_proc p (\<lambda>x. x\<lparr>p_alloc := al\<rparr>) k"] by (simp add: proc_core_def)
next
  case (released cs p k k')
  then show ?thesis using S sound_deferred_release [OF R, of "pools_of (threads_at k) cs" 0 k p A] by (simp add: post_def)
next
  case (kernel k as cs fds nice)
  then show ?thesis using S sound_kernel by simp
qed

lemma reach_sound:
  assumes R: "rb_ok (de_rb E)" and "drv_reach A E cs k"
  shows "sound (pools_of (threads_at k) cs) 0 k"
  using assms(2)
proof induction
  case (boot k)
  have w: "nodes_on k l = []" for l using boot by (cases l) (auto simp: booted_def)
  have fr: "entry_at k = Map.empty" "home k = Map.empty" "pool_at k = Map.empty" "owner_at k = Map.empty"
    using boot by (auto simp: booted_def entry_at_def home_def pool_at_def owner_at_def fun_eq_iff)
  have "queue_ok k" by (simp add: queue_ok_def w fr)
  moreover have "room 0 k"
  proof -
    have "refs_of (core_of k) p = {}" for p using boot by (simp add: refs_of_def booted_def)
    then show ?thesis using boot by (simp add: room_def booted_def)
  qed
  moreover have "pool_ok (pools_of (threads_at k) []) k" by (simp add: pool_ok_def fr waits_def)
  ultimately show ?case using boot core_ok_boot by (simp add: sound_def)
next
  case (step cs k cs' k')
  then show ?case using pools_now step_sound [OF R step(2)] by simp
qed

end
