(* ===== verification/Drv_Stack.thy ===== *)
theory Drv_Stack
  imports Drv_Release
begin

text \<open>
  Chains of calls: which thread a nested call goes to, who is told when a call fails, and what the
  end of a thread does to the calls it takes part in. The loops over a chain are runs that need
  not end; on a chain that ends they do.
\<close>

section \<open>Chains\<close>

text \<open>The transactions from one on, each followed by the one its caller was serving.\<close>

primrec from_path :: "kstate \<Rightarrow> nat option \<Rightarrow> nat list \<Rightarrow> bool" where
  "from_path k t [] \<longleftrightarrow> t = None"
| "from_path k t (x # xs) \<longleftrightarrow> t = Some x \<and> (\<exists>tx. k_txns k x = Some tx \<and> from_path k (t_from_parent tx) xs)"

lemma from_path_unique: "from_path k t xs \<Longrightarrow> from_path k t ys \<Longrightarrow> xs = ys"
proof (induction xs arbitrary: t ys)
  case (Cons x xs)
  then show ?case by (cases ys) auto
next
  case Nil
  then show ?case by (cases ys) auto
qed

lemma from_path_suffix: "from_path k t xs \<Longrightarrow> x \<in> set xs \<Longrightarrow> \<exists>as bs. xs = as @ x # bs \<and> from_path k (Some x) (x # bs)"
proof (induction xs arbitrary: t)
  case (Cons y ys)
  show ?case
  proof (cases "x = y")
    case True
    then show ?thesis using Cons.prems(1) by (intro exI [of _ "[]"] exI [of _ ys]) auto
  next
    case False
    obtain tx where tx: "k_txns k y = Some tx" "from_path k (t_from_parent tx) ys" using Cons.prems(1) by auto
    have "x \<in> set ys" using Cons.prems(2) False by simp
    then obtain as bs where "ys = as @ x # bs" "from_path k (Some x) (x # bs)" using Cons.IH [OF tx(2)] by blast
    then show ?thesis by (intro exI [of _ "y # as"] exI [of _ bs]) auto
  qed
qed simp

lemma from_path_distinct: "from_path k t xs \<Longrightarrow> distinct xs"
proof (induction xs arbitrary: t)
  case (Cons x xs)
  then obtain tx where tx: "k_txns k x = Some tx" "from_path k (t_from_parent tx) xs" by auto
  have "x \<notin> set xs"
  proof
    assume "x \<in> set xs"
    then obtain as bs where s: "xs = as @ x # bs" "from_path k (Some x) (x # bs)" using from_path_suffix [OF tx(2)] by blast
    then have "bs = xs" using from_path_unique [of k "t_from_parent tx" bs xs] tx by auto
    then show False using s(1) by (metis append_Cons append_assoc append_self_conv2 length_append_singleton list.size(3) not_Cons_self2 append_eq_append_conv2 impossible_Cons le_add2 length_append)
  qed
  then show ?case using Cons.IH [OF tx(2)] by simp
qed simp

lemma from_path_cong:
  "from_path k t xs \<Longrightarrow> (\<And>x. x \<in> set xs \<Longrightarrow> map_option t_from_parent (k_txns k' x) = map_option t_from_parent (k_txns k x)) \<Longrightarrow>
    from_path k' t xs"
proof (induction xs arbitrary: t)
  case (Cons x xs)
  then obtain tx where tx: "k_txns k x = Some tx" "from_path k (t_from_parent tx) xs" by auto
  then obtain tx' where "k_txns k' x = Some tx'" "t_from_parent tx' = t_from_parent tx" using Cons.prems(2) [of x] by auto
  then show ?case using Cons.IH [OF tx(2)] Cons.prems by auto
qed simp

section \<open>The thread a call goes to\<close>

definition callers :: "kstate \<Rightarrow> nat list \<Rightarrow> nat list" where
  \<comment> \<open>the threads that wait in a chain, the nearest first\<close>
  "callers k ts = List.map_filter (\<lambda>t. Option.bind (k_txns k t) t_from) ts"

lemma waiting_thread_eq:
  "from_path k t ts \<Longrightarrow> (\<And>f. f \<in> set (callers k ts) \<Longrightarrow> k_threads k f \<noteq> None) \<Longrightarrow>
   waiting_thread q k t acc = ret (let ws = filter (\<lambda>f. map_option th_proc (k_threads k f) = Some q) (callers k ts)
     in if ws = [] then acc else Some (last ws))"
proof (induction ts arbitrary: t acc)
  case Nil
  then show ?case by (simp add: waiting_thread.simps callers_def map_filter_simps)
next
  case (Cons x xs)
  obtain tx where tx: "t = Some x" "k_txns k x = Some tx" "from_path k (t_from_parent tx) xs" using Cons.prems(1) by auto
  have live: "f \<in> set (callers k xs) \<Longrightarrow> k_threads k f \<noteq> None" for f
    using Cons.prems(2) [of f] by (auto simp: callers_def map_filter_simps split: option.splits)
  show ?case
  proof (cases "t_from tx")
    case None
    then show ?thesis using Cons.IH [OF tx(3) live] tx
      by (subst waiting_thread.simps) (simp add: callers_def map_filter_simps)
  next
    case (Some f)
    then have f: "callers k (x # xs) = f # callers k xs" using tx by (simp add: callers_def map_filter_simps)
    then obtain y where y: "k_threads k f = Some y" using Cons.prems(2) [of f] by auto
    show ?thesis using Cons.IH [OF tx(3) live] tx Some y f
      by (subst waiting_thread.simps) (auto simp: Let_def)
  qed
qed

section \<open>Failing a call\<close>

text \<open>A transaction is dead when the thread that sent it is gone.\<close>

definition dead_txn :: "kstate \<Rightarrow> nat \<Rightarrow> bool" where
  "dead_txn k t \<longleftrightarrow> (case k_txns k t of None \<Rightarrow> False | Some tx \<Rightarrow> t_from tx = None)"

lemma forget_txn_frame [simp]:
  "k_txns (forget_txn bo k) = k_txns k" "k_threads (forget_txn bo k) = k_threads k" "k_nodes (forget_txn bo k) = k_nodes k"
  by (auto simp: forget_txn_def upd_kbuf_def upd_proc_def split: option.split)

lemma free_txn_frame [simp]:
  "k_txns (free_txn t k) = (k_txns k)(t := None)" "k_threads (free_txn t k) = k_threads k" "k_nodes (free_txn t k) = k_nodes k"
  by (simp_all add: free_txn_def stats_deleted_def)

lemma send_failed_dead:
  assumes "k_txns k t = Some tx" and "t_from tx = None"
  shows "send_failed err t k = (let k = free_txn t (forget_txn (t_buffer tx) k)
    in case t_from_parent tx of None \<Rightarrow> ret k | Some next \<Rightarrow> send_failed err next k)"
  by (subst send_failed.simps) (simp add: assms binder_pop_transaction_def Let_def split: option.split)

definition failed_thread :: "br \<Rightarrow> nat option \<Rightarrow> thread \<Rightarrow> thread" where
  \<comment> \<open>the call is off the stack of the thread and the error is noted; an earlier one is kept
    behind it\<close>
  "failed_thread err parent x = x\<lparr>th_stack := parent, th_error := err,
     th_error2 := (if th_error x \<noteq> BR_OK then th_error x else th_error2 x)\<rparr>"

text \<open>
  What becomes of a chain of calls when its first one fails. The dead ones at its front are freed. If
  none is left, that is all. Otherwise the first one whose sender is there decides: if both error
  codes of that thread are taken, the call stays and the thread is not told; else, if the call is on
  top of its stack, it is freed and the thread gets the error; else the driver stops at a failed
  check. A sender that no longer exists would be followed.
\<close>

definition failed_outcome :: "br \<Rightarrow> kstate \<Rightarrow> nat list \<Rightarrow> kstate run \<Rightarrow> bool" where
  "failed_outcome err k ts res \<longleftrightarrow> (case dropWhile (dead_txn k) ts of
     [] \<Rightarrow> \<exists>k'. res = ret k' \<and> k_txns k' = k_txns k |` (- set ts) \<and> k_threads k' = k_threads k
   | a # _ \<Rightarrow> (\<exists>tx th. k_txns k a = Some tx \<and> t_from tx = Some th \<and> (case k_threads k th of
         None \<Rightarrow> res = Some Oob
       | Some x \<Rightarrow>
           if th_error x \<noteq> BR_OK \<and> th_error2 x \<noteq> BR_OK
           then \<exists>k'. res = ret k' \<and> k_txns k' = k_txns k |` (- set (takeWhile (dead_txn k) ts)) \<and> k_threads k' = k_threads k
           else if th_stack x = Some a
           then \<exists>k'. res = ret k' \<and> k_txns k' = k_txns k |` (- insert a (set (takeWhile (dead_txn k) ts))) \<and>
             k_threads k' = (k_threads k)(th \<mapsto> failed_thread err (t_from_parent tx) x)
           else res = Some Abort)))"

lemma send_failed_live:
  assumes t: "k_txns k t = Some tx" "t_from tx = Some th"
  shows "failed_outcome err k (t # ts) (send_failed err t k)"
proof (cases "k_threads k th")
  case None
  then show ?thesis
    by (subst send_failed.simps) (simp add: failed_outcome_def dead_txn_def t)
next
  case (Some x)
  define x1 where "x1 = (if th_error x \<noteq> BR_OK \<and> th_error2 x = BR_OK then x\<lparr>th_error2 := th_error x, th_error := BR_OK\<rparr> else x)"
  let ?k1 = "k\<lparr>k_threads := (k_threads k)(th \<mapsto> x1)\<rparr>"
  have nd: "\<not> dead_txn k t" using t by (simp add: dead_txn_def)
  show ?thesis
  proof (cases "th_error x \<noteq> BR_OK \<and> th_error2 x \<noteq> BR_OK")
    case True
    have "send_failed err t k = ret (complain (User_error ''reply failed, target thread has error code already'')
        (k\<lparr>k_threads := (k_threads k)(th \<mapsto> x)\<rparr>))"
      using True by (subst send_failed.simps) (simp add: t Some Let_def)
    then show ?thesis using True nd t Some by (simp add: failed_outcome_def complain_def fun_upd_idem restrict_map_def)
  next
    case False
    then have e: "th_error x1 = BR_OK" by (auto simp: x1_def)
    have st: "th_stack x1 = th_stack x" by (simp add: x1_def)
    show ?thesis
    proof (cases "th_stack x = Some t")
      case True
      let ?k' = "upd_thread th (\<lambda>x. x\<lparr>th_error := err\<rparr>) (free_txn t (forget_txn (t_buffer tx)
        (upd_thread th (\<lambda>x. x\<lparr>th_stack := t_from_parent tx\<rparr>) ?k1)))"
      have "send_failed err t k = ret ?k'"
        by (subst send_failed.simps) (simp add: t Some True e st binder_pop_transaction_def Let_def x1_def [symmetric])
      moreover have "k_txns ?k' = (k_txns k)(t := None)" by (simp add: upd_thread_def)
      moreover have "x1\<lparr>th_stack := t_from_parent tx, th_error := err\<rparr> = failed_thread err (t_from_parent tx) x"
        using False by (auto simp: x1_def failed_thread_def)
      then have "k_threads ?k' = (k_threads k)(th \<mapsto> failed_thread err (t_from_parent tx) x)" by (simp add: upd_thread_def)
      ultimately show ?thesis using True False nd t Some
        by (auto simp: failed_outcome_def restrict_map_def fun_eq_iff)
    next
      case ns: False
      have "send_failed err t k = Some Abort"
        by (subst send_failed.simps) (simp add: t Some ns e st binder_pop_transaction_def Let_def x1_def [symmetric])
      then show ?thesis using ns False nd t Some by (auto simp: failed_outcome_def)
    qed
  qed
qed

lemma failed_outcome_dead:
  \<comment> \<open>a dead call in front is freed first\<close>
  assumes t: "dead_txn k t" "t \<notin> set ts" and k1: "k_txns k1 = (k_txns k)(t := None)" "k_threads k1 = k_threads k"
    and o: "failed_outcome err k1 ts res"
  shows "failed_outcome err k (t # ts) res"
proof -
  have same: "k_txns k1 x = k_txns k x" if "x \<in> set ts" for x using that t(2) by (auto simp: k1(1))
  have dead: "dropWhile (dead_txn k1) ts = dropWhile (dead_txn k) ts" "takeWhile (dead_txn k1) ts = takeWhile (dead_txn k) ts"
    by (rule dropWhile_cong takeWhile_cong; use same in \<open>simp add: dead_txn_def\<close>)+
  have cut: "k_txns k1 |` (- S) = k_txns k |` (- insert t S)" for S by (auto simp: restrict_map_def fun_eq_iff k1(1))
  have w: "dropWhile (dead_txn k) (t # ts) = dropWhile (dead_txn k) ts" "takeWhile (dead_txn k) (t # ts) = t # takeWhile (dead_txn k) ts"
    using t(1) by simp_all
  show ?thesis
  proof (cases "dropWhile (dead_txn k) ts")
    case Nil
    show ?thesis using o unfolding failed_outcome_def dead w Nil list.case cut k1(2) by simp
  next
    case (Cons a as)
    then have a: "a \<in> set ts" using set_dropWhileD [of a "dead_txn k" ts] by simp
    show ?thesis
      using o unfolding failed_outcome_def dead w Cons list.case cut k1(2) same [OF a] list.set insert_commute [of a t] .
  qed
qed

lemma send_failed_path:
  "from_path k (Some t) ts \<Longrightarrow> failed_outcome err k ts (send_failed err t k)"
proof (induction ts arbitrary: t k)
  case (Cons a as)
  then obtain tx where tx: "a = t" "k_txns k t = Some tx" "from_path k (t_from_parent tx) as" by auto
  show ?case
  proof (cases "t_from tx")
    case (Some th)
    show ?thesis unfolding tx(1) by (rule send_failed_live [OF tx(2) Some])
  next
    case None
    let ?k = "free_txn t (forget_txn (t_buffer tx) k)"
    have nt: "t \<notin> set as" using from_path_distinct [OF Cons.prems(1)] tx(1) by simp
    have path: "from_path ?k (t_from_parent tx) as" by (rule from_path_cong [OF tx(3)]) (use nt in auto)
    have "failed_outcome err ?k as (send_failed err t k)"
    proof (cases as)
      case Nil
      then have "t_from_parent tx = None" using tx(3) by simp
      then show ?thesis using send_failed_dead [OF tx(2) None] Nil by (simp add: failed_outcome_def restrict_map_def fun_eq_iff)
    next
      case (Cons b bs)
      then have n: "t_from_parent tx = Some b" using tx(3) by simp
      have "failed_outcome err ?k as (send_failed err b ?k)" by (rule Cons.IH) (use path n in simp)
      then show ?thesis using send_failed_dead [OF tx(2) None] n by simp
    qed
    then show ?thesis
      unfolding tx(1) using None tx(2) nt by (intro failed_outcome_dead [where ?k1.0 = ?k]) (simp_all add: dead_txn_def)
  qed
qed simp

end
