(* ===== verification/Drv_World_Claims.thy ===== *)
theory Drv_World_Claims
  imports Drv_World Drv_Stack
begin

text \<open>
  The properties of the driver as a whole, over every order of the calls of all processes, and
  what a failed call does to those who wait for it.
\<close>

section \<open>References and nodes\<close>

lemma reach_core: "rb_ok (de_rb E) \<Longrightarrow> drv_reach A E cs k \<Longrightarrow> core_ok (core_of k)"
  using soundD(1) [OF reach_sound] by blast


text \<open>
  C1. Whatever commands, deliveries, waits, ends of threads and ends of processes have happened, a
  reference belongs to a process that exists, is found there under its descriptor, is the only
  reference of the process to its node, and its node exists and has it on its list: no descriptor
  and no reference dangles.
\<close>

theorem driver_references_consistent:
  assumes "rb_ok (de_rb E)" and "drv_reach A E cs k" and "k_refs k x = Some r"
  shows "binder_get_ref (r_proc r) (r_desc r) k = Ret (Some x) \<and>
    binder_get_ref_for_node (de_rb E) (r_proc r) (r_node r) k = Ret (Some x, k) \<and>
    (\<exists>node. k_nodes k (r_node r) = Some node \<and> x \<in> set (n_refs node))"
proof -
  have C: "core_ok (core_of k)" by (rule reach_core [OF assms(1,2)])
  have "ref_ok (core_of k) x (ref_core r)" by (rule core_okD(3) [OF C]) (simp add: assms(3))
  then obtain proc where p: "k_procs k (r_proc r) = Some proc" by (auto simp: ref_ok_def)
  have "binder_get_ref_for_node (de_rb E) (r_proc r) (r_node r) k = Ret (Some x, k)"
    by (rule get_ref_for_node_found [OF C p]) (use assms(3) in \<open>auto simp: refs_of_def\<close>)
  then show ?thesis using get_ref_found [OF C assms(3)] ref_node_live [OF C assms(3)] by metis
qed

text \<open>
  C3. In the same states the count of internal strong references of a node is the number of
  references to it that are held strongly, its list holds exactly the references to it, and the
  process that owns it exists.
\<close>

theorem driver_counts_references:
  assumes "rb_ok (de_rb E)" and "drv_reach A E cs k" and "k_nodes k n = Some node"
  shows "n_internal_strong node = of_nat (card {y. \<exists>s. k_refs k y = Some s \<and> r_node s = n \<and> r_strong s \<noteq> 0}) \<and>
    set (n_refs node) = {y. \<exists>s. k_refs k y = Some s \<and> r_node s = n} \<and>
    (case n_proc node of None \<Rightarrow> True | Some p \<Rightarrow> k_procs k p \<noteq> None)"
proof -
  have C: "core_ok (core_of k)" by (rule reach_core [OF assms(1,2)])
  have N: "node_ok (core_of k) n (node_core node)" by (rule core_okD(2) [OF C]) (simp add: assms(3))
  have "case n_proc node of None \<Rightarrow> True | Some p \<Rightarrow> k_procs k p \<noteq> None"
    using N by (auto simp: node_ok_def split: option.split)
  then show ?thesis using N strong_refs_card [OF C assms(3)] by (simp add: node_ok_def)
qed

lemma find_key_iff:
  fixes key :: "nat \<Rightarrow> 'k::linorder"
  assumes "sorted_wrt (<) (map key xs)"
  shows "find (\<lambda>x. key x = d) xs = Some x \<longleftrightarrow> x \<in> set xs \<and> key x = d"
proof
  show "find (\<lambda>x. key x = d) xs = Some x \<Longrightarrow> x \<in> set xs \<and> key x = d" by (auto simp: find_Some_iff)
  show "x \<in> set xs \<and> key x = d \<Longrightarrow> find (\<lambda>x. key x = d) xs = Some x" using find_sorted_key [OF assms] by blast
qed

text \<open>
  C11. Looking up a descriptor or an object of a process in its trees is the search over everything
  there is: it always ends, and finds a reference exactly if it is a reference of this process with
  this descriptor, and a node exactly if it is a node of this process for this object.
\<close>

theorem driver_lookup_is_search:
  assumes "rb_ok (de_rb E)" and "drv_reach A E cs k" and "k_procs k p = Some proc"
  shows "(\<exists>f. binder_get_ref p d k = Ret f \<and>
      (\<forall>x. f = Some x \<longleftrightarrow> (\<exists>r. k_refs k x = Some r \<and> r_proc r = p \<and> r_desc r = d))) \<and>
    (\<exists>f. binder_get_node p u k = Ret f \<and>
      (\<forall>m. f = Some m \<longleftrightarrow> (\<exists>node. k_nodes k m = Some node \<and> n_proc node = Some p \<and> n_ptr node = u)))"
proof -
  have C: "core_ok (core_of k)" by (rule reach_core [OF assms(1,2)])
  note T = proc_trees [OF C assms(3)]
  have "x \<in> refs_of (core_of k) p \<and> cdesc (core_of k) x = d \<longleftrightarrow> (\<exists>r. k_refs k x = Some r \<and> r_proc r = p \<and> r_desc r = d)" for x
    by (auto simp: refs_of_def)
  moreover have "m \<in> nodes_of (core_of k) p \<and> cptr (core_of k) m = u \<longleftrightarrow>
      (\<exists>node. k_nodes k m = Some node \<and> n_proc node = Some p \<and> n_ptr node = u)" for m
    by (auto simp: nodes_of_def)
  ultimately show ?thesis
    unfolding get_ref_eq [OF C assms(3)] get_node_eq [OF C assms(3)]
    using find_key_iff [OF T(4)] find_key_iff [OF T(6)] by (simp add: T(1,3) del: core_of_apply set_inorder)
qed

section \<open>Threads\<close>

text \<open>
  C5. After every step of the driver, at most one request for a new thread of a process is open, its
  count of ready threads is the number of its calls that wait for its work, and where the step
  started or asked for a further thread, the threads started and asked for are no more than the
  process allows at that time. The limit may be set below the number there already is: then nothing
  is asked for, but nothing is taken back either.
\<close>

theorem pool_bounds:
  assumes "rb_ok (de_rb E)" and "drv_reach A E cs k" and "drv_step A E (cs, k) (cs', k')" and "k_procs k' p = Some proc"
  shows "0 \<le> p_requested proc \<and> p_requested proc \<le> 1 \<and> 0 \<le> p_started proc \<and> p_ready proc = int (waits cs' p) \<and>
    p_started proc + p_requested proc \<le>
      max (p_max_threads proc) (case k_procs k p of None \<Rightarrow> 0 | Some before \<Rightarrow> p_started before + p_requested before)"
  using pool_now [OF step_sound [OF assms(1,3)], of p proc] reach_sound [OF assms(1,2)] assms(4)
  by (simp add: threads_at_def)











section \<open>The end of a process\<close>

text \<open>
  C7. When the driver has released a process none of whose calls waits, no thread, no node and no reference is left that belongs
  to it, and every reference that other processes hold still leads to a node.
\<close>

theorem released_process_gone:
  assumes "rb_ok (de_rb E)" and "drv_reach A E cs k" and "waits cs p = 0"
    and "binder_deferred_release A E p k = Some (Ret k')"
  shows "k_procs k' p = None \<and> (\<forall>t x. k_threads k' t = Some x \<longrightarrow> th_proc x \<noteq> p) \<and>
    (\<forall>m node. k_nodes k' m = Some node \<longrightarrow> n_proc node \<noteq> Some p) \<and>
    (\<forall>x r. k_refs k' x = Some r \<longrightarrow> r_proc r \<noteq> p \<and> k_nodes k' (r_node r) \<noteq> None)"
proof -
  have R: "drv_reach A E cs k'" by (rule drv_reach.step [OF assms(2) drv_step.released [OF assms(3,4)]])
  then have C: "core_ok (core_of k')" by (rule reach_core [OF assms(1)])
  have gone: "k_procs k' p = None"
    using assms(4) unfolding binder_deferred_release_def by (auto simp: rbind_ret_iff split: if_splits)
  have "n_proc node \<noteq> Some p" if "k_nodes k' m = Some node" for m node
  proof -
    have "node_ok (core_of k') m (node_core node)" by (rule core_okD(2) [OF C]) (simp add: that)
    then show ?thesis using gone by (auto simp: node_ok_def)
  qed
  moreover have "r_proc r \<noteq> p \<and> k_nodes k' (r_node r) \<noteq> None" if "k_refs k' x = Some r" for x r
  proof -
    have "ref_ok (core_of k') x (ref_core r)" by (rule core_okD(3) [OF C]) (simp add: that)
    then show ?thesis using gone by (auto simp: ref_ok_def)
  qed
  moreover have "th_proc x \<noteq> p" if "k_threads k' t = Some x" for t x
    using owner_live [OF reach_sound [OF assms(1) R], of t "th_proc x"] gone that by (auto simp: owner_at_def)
  ultimately show ?thesis using gone by blast
qed

section \<open>A call that fails\<close>

text \<open>
  C8. A call that cannot be answered is taken back along the chain of calls behind it, as far as these
  transactions are there and the chain ends: those whose sender is gone are freed, and nothing else
  happens if that were all. The first one whose sender is there is freed, taken off the stack of that
  thread, and the thread gets the error, behind which an earlier one is kept, if one of its two error
  codes is free and the call is on top of its stack. If both error codes are taken, the call stays
  and the thread is not told; if the call is not on top of its stack, the driver stops at a failed
  check. No other thread changes, and nothing happens further up the chain.
\<close>

theorem failed_reply_reaches_caller:
  assumes "k_txns k t = Some tx0" and "\<not> one_way A (t_flags tx0)" and "from_path k (Some t) ts"
  shows "failed_outcome err k ts (binder_send_failed_reply A t err k)"
  using send_failed_path [OF assms(3), of err] assms(1,2) by (simp add: binder_send_failed_reply_def)

end
