(* ===== verification/Drv_Refs_Examples.thy ===== *)
theory Drv_Refs_Examples
  imports Drv_Refs_Claims
begin

text \<open>
  Concrete inputs for the properties of nodes and references: two processes open the device, the
  first becomes the context manager, the second refers to it.
\<close>

definition no_log :: txn_log where
  "no_log = \<lparr>lg_next = 0, lg_full = False, lg_entry = []\<rparr>"

definition ex_boot :: kstate where
  "ex_boot = \<lparr>k_procs = Map.empty, k_threads = Map.empty, k_nodes = Map.empty, k_refs = Map.empty, k_deaths = Map.empty,
     k_txns = Map.empty, k_completes = Map.empty, k_mgr = None, k_mgr_uid = None, k_dead_nodes = [], k_last_id = 0,
     k_kzalloc = [Some 100, Some 200, Some 300, Some 400], k_created = (\<lambda>_. 0), k_deleted = (\<lambda>_. 0), k_log = [], k_tlog = no_log, k_tfail = no_log, k_nice = (\<lambda>_. 0), k_fds = [], k_fdlog = []\<rparr>"

definition ex_k1 :: kstate where
  "ex_k1 = ex_boot\<lparr>k_procs := [100 \<mapsto> fresh_proc 10 0], k_kzalloc := [Some 200, Some 300, Some 400],
     k_created := (\<lambda>_. 0)(Stat_proc := 1)\<rparr>"

definition ex_k2 :: kstate where
  "ex_k2 = ex_boot\<lparr>k_procs := [100 \<mapsto> fresh_proc 10 0, 200 \<mapsto> fresh_proc 20 0], k_kzalloc := [Some 300, Some 400],
     k_created := (\<lambda>_. 0)(Stat_proc := 2)\<rparr>"

definition ex_node :: node where
  "ex_node = (fresh_node 100 0 0 1)\<lparr>n_local_weak := 1, n_local_strong := 1, n_has_strong := True, n_has_weak := True\<rparr>"

definition ex_k3 :: kstate where
  "ex_k3 = ex_k2\<lparr>k_procs := [100 \<mapsto> (fresh_proc 10 0)\<lparr>p_nodes := Node Leaf 300 Leaf\<rparr>, 200 \<mapsto> fresh_proc 20 0],
     k_nodes := [300 \<mapsto> ex_node], k_mgr := Some 300, k_mgr_uid := Some 1000, k_last_id := 1, k_kzalloc := [Some 400],
     k_created := (\<lambda>_. 0)(Stat_proc := 2, Stat_node := 1)\<rparr>"

definition ex_ref :: ref where
  "ex_ref = \<lparr>r_debug_id = 2, r_proc = 200, r_node = 300, r_desc = 0, r_strong = 0, r_weak = 0, r_death = None\<rparr>"

definition ex_k4 :: kstate where
  "ex_k4 = ex_k3\<lparr>k_procs := [100 \<mapsto> (fresh_proc 10 0)\<lparr>p_nodes := Node Leaf 300 Leaf\<rparr>,
       200 \<mapsto> (fresh_proc 20 0)\<lparr>p_refs_by_desc := Node Leaf 400 Leaf, p_refs_by_node := Node Leaf 400 Leaf\<rparr>],
     k_nodes := [300 \<mapsto> ex_node\<lparr>n_refs := [400]\<rparr>], k_refs := [400 \<mapsto> ex_ref], k_last_id := 2, k_kzalloc := [],
     k_created := (\<lambda>_. 0)(Stat_proc := 2, Stat_node := 1, Stat_ref := 1)\<rparr>"

definition ex_k5 :: kstate where
  "ex_k5 = ex_k4\<lparr>k_nodes := [300 \<mapsto> ex_node\<lparr>n_refs := [400], n_internal_strong := 1\<rparr>],
     k_refs := [400 \<mapsto> ex_ref\<lparr>r_strong := 1\<rparr>]\<rparr>"

lemmas ex_states = ex_boot_def ex_k1_def ex_k2_def ex_k3_def ex_k4_def ex_k5_def

lemma ex_step1: "drv_open 10 0 ex_boot = (0, Some 100, ex_k1)"
  by (simp add: drv_open_def kzalloc_def stats_created_def ex_states)

lemma ex_step2: "drv_open 20 0 ex_k1 = (0, Some 200, ex_k2)"
  by (simp add: drv_open_def kzalloc_def stats_created_def ex_states numeral_2_eq_2)

lemma ex_step3: "binder_ioctl_set_ctx_mgr plain_rb 100 1000 ex_k2 = Ret (0, ex_k3)"
  by (simp add: binder_ioctl_set_ctx_mgr_def binder_new_node_def kzalloc_def stats_created_def ex_states fresh_proc_def
      upd_proc_def upd_node_def plain_rb_def ex_node_def fresh_node_def fun_upd_twist)

lemma ex_step4: "binder_get_ref_for_node plain_rb 200 300 ex_k3 = Ret (Some 400, ex_k4)"
  by (simp add: binder_get_ref_for_node_def kzalloc_def stats_created_def ex_states fresh_proc_def
      upd_proc_def upd_node_def plain_rb_def ex_node_def fresh_node_def ex_ref_def fresh_ref_def fun_upd_twist
      numeral_2_eq_2)

lemma ex_step5: "binder_inc_ref 400 True None ex_k4 = Ret (0, ex_k5)"
  by (simp add: binder_inc_ref_def binder_inc_node_def ex_states upd_ref_def upd_node_def ex_node_def fresh_node_def ex_ref_def)

lemma ex_run3: "refs_run plain_rb ex_k3"
proof -
  have "refs_run plain_rb ex_boot" by (rule refs_run.boot) (simp add: booted_def ex_boot_def)
  then have "refs_run plain_rb ex_k1"
    by (rule refs_run.opened [OF _ _ ex_step1]) (simp add: fresh_addr_def kzalloc_def ex_states)
  then have "refs_run plain_rb ex_k2"
    by (rule refs_run.opened [OF _ _ ex_step2]) (simp add: fresh_addr_def kzalloc_def ex_states)
  then show ?thesis
    by (rule refs_run.mgr [OF _ _ _ ex_step3]) (simp_all add: fresh_addr_def kzalloc_def ex_states)
qed

lemma ex_k3_facts: "fresh_addr ex_k3" "few_refs 200 ex_k3" "k_procs ex_k3 200 \<noteq> None" "k_nodes ex_k3 300 \<noteq> None"
  by (simp_all add: fresh_addr_def few_refs_def kzalloc_def ex_states fresh_proc_def)

lemma ex_k4_ref: "k_refs ex_k4 400 = Some ex_ref"
  by (simp add: ex_states)

lemma ex_k5_ref: "k_refs ex_k5 400 = Some (ex_ref\<lparr>r_strong := 1\<rparr>)"
  by (simp add: ex_states)

lemma ex_run5: "refs_run plain_rb ex_k5"
proof -
  have "refs_run plain_rb ex_k4" by (rule refs_run.get_ref [OF ex_run3 ex_k3_facts ex_step4])
  then show ?thesis by (rule refs_run.inc_ref [OF _ ex_k4_ref _ ex_step5]) (simp add: ex_ref_def)
qed

theorem references_consistent_witness:
  "refs_run plain_rb ex_k5 \<and> binder_get_ref 200 0 ex_k5 = Ret (Some 400)"
  using references_consistent [OF plain_rb_ok ex_run5 ex_k5_ref] ex_run5 by (simp add: ex_ref_def)

theorem node_counts_references_witness:
  "\<exists>node. refs_run plain_rb ex_k5 \<and> k_nodes ex_k5 300 = Some node \<and>
    set (n_refs node) = {y. \<exists>s. k_refs ex_k5 y = Some s \<and> r_node s = 300}"
proof -
  have "k_nodes ex_k5 300 \<noteq> None" by (simp add: ex_states)
  then obtain node where n: "k_nodes ex_k5 300 = Some node" by blast
  show ?thesis using node_counts_references [OF plain_rb_ok ex_run5 n] ex_run5 n by blast
qed

theorem reference_for_node_witness:
  "refs_run plain_rb ex_k3 \<and> (\<exists>k' d. binder_get_ref_for_node plain_rb 200 300 ex_k3 = Ret (Some 400, k') \<and>
     k_refs k' = (k_refs ex_k3)(400 \<mapsto> fresh_ref 200 300 d (k_last_id ex_k3 + 1)))"
proof -
  have "k_refs ex_k3 = Map.empty" "\<exists>k1. kzalloc ex_k3 = (Some 400, k1)" by (simp_all add: ex_states kzalloc_def)
  then show ?thesis
    using reference_for_node [OF plain_rb_ok ex_run3 ex_k3_facts] ex_run3 by fastforce
qed

theorem release_reference_witness:
  "\<exists>k'. refs_run plain_rb ex_k5 \<and> binder_dec_ref plain_rb 400 True ex_k5 = Ret (0, k') \<and> k_refs k' 400 = None"
  using release_reference [OF plain_rb_ok ex_run5 ex_k5_ref, of True] ex_run5 by (auto simp: ex_ref_def)

end
