(* ===== verification/Drv_World_Examples.thy ===== *)
theory Drv_World_Examples
  imports Drv_World_Claims Drv_Examples Drv_Refs_Examples
begin

text \<open>
  A concrete run of the whole driver: two processes open the device and enter it, the first becomes
  the context manager and waits for work, the second takes a reference to it with a write buffer and
  ends. Its states are the inputs at which the properties are applied.
\<close>

definition ex_abi :: kabi where
  "ex_abi = \<lparr>ka_one_way = 1, ka_accept_fds = 0x10, ka_prio_mask = 0xFF, ka_obj_fds = 0x100, ka_obj_size = 24,
     ka_get = (\<lambda>_. \<lparr>ko_type = T_BINDER, ko_flags = 0, ko_binder = 0, ko_cookie = 0\<rparr>), ka_put = (\<lambda>_. replicate 24 0), ka_txn_size = 64\<rparr>"

definition ex_env :: denv where
  "ex_env = \<lparr>de_rb = plain_rb, de_pg = (\<lambda>_. ex_pg), de_can_nice = (\<lambda>_. True), de_min_nice = 0, de_fget = (\<lambda>_. False),
     de_euid = (\<lambda>_. 0)\<rparr>"

definition ex_w0 :: kstate where
  "ex_w0 = ex_boot\<lparr>k_kzalloc := [Some 100, Some 200, Some 110, Some 210, Some 300, Some 400]\<rparr>"

definition ex_w1 :: kstate where
  "ex_w1 = ex_w0\<lparr>k_procs := [100 \<mapsto> fresh_proc 10 0], k_kzalloc := [Some 200, Some 110, Some 210, Some 300, Some 400],
     k_created := (\<lambda>_. 0)(Stat_proc := 1)\<rparr>"

definition ex_w2 :: kstate where
  "ex_w2 = ex_w0\<lparr>k_procs := [100 \<mapsto> fresh_proc 10 0, 200 \<mapsto> fresh_proc 20 0], k_kzalloc := [Some 110, Some 210, Some 300, Some 400],
     k_created := (\<lambda>_. 0)(Stat_proc := 2)\<rparr>"

definition ex_w3 :: kstate where
  "ex_w3 = ex_w0\<lparr>k_procs := [100 \<mapsto> (fresh_proc 10 0)\<lparr>p_threads := Node Leaf 110 Leaf\<rparr>, 200 \<mapsto> fresh_proc 20 0],
     k_threads := [110 \<mapsto> fresh_thread 100 11], k_kzalloc := [Some 210, Some 300, Some 400],
     k_created := (\<lambda>_. 0)(Stat_proc := 2, Stat_thread := 1)\<rparr>"

definition ex_w4 :: kstate where
  "ex_w4 = ex_w0\<lparr>k_procs := [100 \<mapsto> (fresh_proc 10 0)\<lparr>p_threads := Node Leaf 110 Leaf\<rparr>,
       200 \<mapsto> (fresh_proc 20 0)\<lparr>p_threads := Node Leaf 210 Leaf\<rparr>],
     k_threads := [110 \<mapsto> fresh_thread 100 11, 210 \<mapsto> fresh_thread 200 21], k_kzalloc := [Some 300, Some 400],
     k_created := (\<lambda>_. 0)(Stat_proc := 2, Stat_thread := 2)\<rparr>"

definition ex_w5 :: kstate where
  "ex_w5 = ex_w0\<lparr>k_procs := [100 \<mapsto> (fresh_proc 10 0)\<lparr>p_threads := Node Leaf 110 Leaf, p_nodes := Node Leaf 300 Leaf\<rparr>,
       200 \<mapsto> (fresh_proc 20 0)\<lparr>p_threads := Node Leaf 210 Leaf\<rparr>],
     k_threads := [110 \<mapsto> (fresh_thread 100 11)\<lparr>th_looper := 0\<rparr>, 210 \<mapsto> fresh_thread 200 21],
     k_nodes := [300 \<mapsto> ex_node], k_mgr := Some 300, k_mgr_uid := Some 1000, k_last_id := 1, k_kzalloc := [Some 400],
     k_created := (\<lambda>_. 0)(Stat_proc := 2, Stat_thread := 2, Stat_node := 1)\<rparr>"

definition ex_w6 :: kstate where
  "ex_w6 = ex_w0\<lparr>k_procs := [100 \<mapsto> (fresh_proc 10 0)\<lparr>p_threads := Node Leaf 110 Leaf, p_nodes := Node Leaf 300 Leaf\<rparr>,
       200 \<mapsto> (fresh_proc 20 0)\<lparr>p_threads := Node Leaf 210 Leaf, p_refs_by_desc := Node Leaf 400 Leaf, p_refs_by_node := Node Leaf 400 Leaf\<rparr>],
     k_threads := [110 \<mapsto> (fresh_thread 100 11)\<lparr>th_looper := 0\<rparr>, 210 \<mapsto> fresh_thread 200 21],
     k_nodes := [300 \<mapsto> ex_node\<lparr>n_refs := [400], n_internal_strong := 1\<rparr>], k_refs := [400 \<mapsto> ex_ref\<lparr>r_strong := 1\<rparr>],
     k_mgr := Some 300, k_mgr_uid := Some 1000, k_last_id := 2, k_kzalloc := [],
     k_created := (\<lambda>_. 0)(Stat_proc := 2, Stat_thread := 2, Stat_node := 1, Stat_ref := 1)\<rparr>"

lemmas ex_world = ex_w0_def ex_w1_def ex_w2_def ex_w3_def ex_w4_def ex_w5_def ex_w6_def ex_boot_def

definition ex_rd :: rd where
  "ex_rd = \<lparr>rd_size = 256, rd_writable = (\<lambda>_ _. True), rd_ptr = 0, rd_out = []\<rparr>"

definition ex_acquire :: "nat \<Rightarrow> bc option" where
  "ex_acquire i = (if i = 0 then Some (BC_ACQUIRE 0) else None)"

definition ex_bwr :: bwr where
  "ex_bwr = \<lparr>wr_write_size = 8, wr_write_consumed = 0, wr_read_size = 0, wr_read_consumed = 0\<rparr>"

lemma ex_w1_step: "drv_open 10 0 ex_w0 = (0, Some 100, ex_w1)"
  by (simp add: drv_open_def kzalloc_def stats_created_def ex_world)

lemma ex_w2_step: "drv_open 20 0 ex_w1 = (0, Some 200, ex_w2)"
  by (simp add: drv_open_def kzalloc_def stats_created_def ex_world numeral_2_eq_2)

lemma ex_w3_step: "binder_get_thread plain_rb 100 11 ex_w2 = Ret (Some 110, ex_w3)"
  by (simp add: binder_get_thread_def kzalloc_def stats_created_def ex_world fresh_proc_def upd_proc_def plain_rb_def fun_upd_twist)

lemma ex_w4_step: "binder_get_thread plain_rb 200 21 ex_w3 = Ret (Some 210, ex_w4)"
  by (simp add: binder_get_thread_def kzalloc_def stats_created_def ex_world fresh_proc_def upd_proc_def plain_rb_def fun_upd_twist
      numeral_2_eq_2)

lemma ex_w5_step: "ioctl_other ex_abi ex_env 100 110 1000 I_set_context_mgr ex_w4 = ret (0, ex_w5)"
  by (simp add: ioctl_other_def need_return_off_def binder_ioctl_set_ctx_mgr_def binder_new_node_def kzalloc_def stats_created_def
      ex_world fresh_proc_def fresh_thread_def upd_proc_def upd_thread_def upd_node_def plain_rb_def ex_env_def ex_node_def
      fresh_node_def fun_upd_twist)

lemma ex_exec: "bc_exec ex_abi ex_env 200 210 (BC_ACQUIRE 0) ex_w5 = ret (0, ex_w6)"
  by (simp add: bc_exec_def ref_command_def binder_get_ref_for_node_def kzalloc_def stats_created_def ex_world fresh_proc_def
      upd_proc_def upd_node_def upd_ref_def plain_rb_def ex_env_def ex_node_def fresh_node_def ex_ref_def fresh_ref_def fun_upd_twist
      binder_inc_ref_def binder_inc_node_def numeral_2_eq_2)

lemma ex_w6_step: "ioctl_write ex_abi ex_env 200 210 ex_acquire ex_bwr ex_w5 = ret (0, ex_bwr\<lparr>wr_write_consumed := 8\<rparr>, ex_w6)"
proof -
  have "k_threads ex_w5 210 = Some (fresh_thread 200 21)" "k_threads ex_w6 210 = Some (fresh_thread 200 21)"
    by (simp_all add: ex_world)
  then have "binder_thread_write ex_abi ex_env 200 210 ex_acquire 8 0 ex_w5 = ret (0, 8, ex_w6)"
    by (subst binder_thread_write.simps) (simp add: ex_acquire_def ex_exec fresh_thread_def, subst binder_thread_write.simps, simp add: fresh_thread_def)
  then show ?thesis by (simp add: ioctl_write_def ex_bwr_def)
qed

text \<open>The first process waits for work.\<close>

definition ex_call :: wcall where
  "ex_call = \<lparr>wc_proc = 100, wc_thread = 110, wc_wait = True, wc_rd = ex_rd\<lparr>rd_ptr := 4, rd_out := [(0, BR_NOOP)]\<rparr>\<rparr>"

definition ex_w7 :: kstate where
  "ex_w7 = ex_w6\<lparr>k_procs := (k_procs ex_w6)(100 \<mapsto> (fresh_proc 10 0)\<lparr>p_threads := Node Leaf 110 Leaf, p_nodes := Node Leaf 300 Leaf, p_ready := 1\<rparr>),
     k_threads := [110 \<mapsto> (fresh_thread 100 11)\<lparr>th_looper := LOOPER_WAITING\<rparr>, 210 \<mapsto> fresh_thread 200 21],
     k_nice := (\<lambda>_. 0), k_log := [User_error ''Thread waiting for process work before BC_ENTER_LOOPER'']\<rparr>"

lemma ex_w7_step: "read_begin ex_abi ex_env 100 110 ex_rd ex_w6 = Ret (C_wait True (wc_rd ex_call), ex_w7)"
  by (simp add: read_begin_def read_start_def read_prepare_def read_end_def put_br_def ex_rd_def ex_call_def ex_w7_def ex_world
      fresh_proc_def fresh_thread_def upd_proc_def upd_thread_def in_pool_def complain_def binder_set_nice_def ex_env_def fun_upd_twist
      Let_def looper_or_def fun_upd_idem)

section \<open>The run\<close>

lemma ex_rb: "rb_ok (de_rb ex_env)"
  by (simp add: ex_env_def plain_rb_ok)

lemma ex_mem: "mem_ok ex_w0"
  by (simp add: mem_ok_def used_at_def ex_world)

lemma ex_room: "room n k" if "k_refs k = Map.empty" "n < 2 ^ 32 - 2"
proof -
  have "refs_of (core_of k) p = {}" for p using that by (simp add: refs_of_def)
  then show ?thesis using that by (simp add: room_def)
qed

lemma ex_reach5: "drv_reach ex_abi ex_env [] ex_w5"
proof -
  have "drv_reach ex_abi ex_env [] ex_w0"
    by (rule drv_reach.boot) (simp_all add: ex_mem booted_def, simp_all add: ex_world)
  then have "drv_reach ex_abi ex_env [] ex_w1" by (rule drv_reach.step [OF _ drv_step.opened [OF ex_w1_step]])
  then have "drv_reach ex_abi ex_env [] ex_w2" by (rule drv_reach.step [OF _ drv_step.opened [OF ex_w2_step]])
  then have "drv_reach ex_abi ex_env [] ex_w3"
    by (rule drv_reach.step [OF _ drv_step.attach]) (simp add: ex_env_def, rule ex_w3_step)
  then have "drv_reach ex_abi ex_env [] ex_w4"
    by (rule drv_reach.step [OF _ drv_step.attach]) (simp add: ex_env_def, rule ex_w4_step)
  then show ?thesis
    by (rule drv_reach.step [OF _ drv_step.command [OF _ _ ex_w5_step]])
      (simp_all add: ex_room ex_world owner_at_def fresh_thread_def)
qed

lemma ex_reach6: "drv_reach ex_abi ex_env [] ex_w6"
proof (rule drv_reach.step [OF ex_reach5 drv_step.written [OF _ _ _ ex_w6_step]])
  show "owner_at ex_w5 210 = Some 200" by (simp add: owner_at_def ex_world fresh_thread_def)
  show "\<forall>i cmd. ex_acquire i = Some cmd \<longrightarrow> bc_cost cmd \<le> 2" by (simp add: ex_acquire_def bc_cost_def)
  show "room (2 * (wr_write_size ex_bwr - wr_write_consumed ex_bwr)) ex_w5"
    by (rule ex_room) (simp_all add: ex_world ex_bwr_def)
qed

lemma ex_reach7: "drv_reach ex_abi ex_env [ex_call] ex_w7"
proof -
  have "owner_at ex_w6 110 = Some 100" by (simp add: owner_at_def ex_world fresh_thread_def)
  from drv_reach.step [OF ex_reach6 drv_step.started [OF this ex_w7_step]]
  show ?thesis by (simp add: ex_call_def)
qed

lemma ex_w7_facts:
  "k_refs ex_w7 400 = Some (ex_ref\<lparr>r_strong := 1\<rparr>)" "k_nodes ex_w7 300 = Some (ex_node\<lparr>n_refs := [400], n_internal_strong := 1\<rparr>)"
  "k_procs ex_w7 100 = Some ((fresh_proc 10 0)\<lparr>p_threads := Node Leaf 110 Leaf, p_nodes := Node Leaf 300 Leaf, p_ready := 1\<rparr>)"
  "k_procs ex_w7 200 \<noteq> None" "waits [ex_call] 200 = 0" "waits [ex_call] 100 = 1"
  by (simp_all add: ex_w7_def ex_w6_def waits_def ex_call_def)

section \<open>The properties on it\<close>

theorem driver_references_consistent_witness:
  "drv_reach ex_abi ex_env [ex_call] ex_w7 \<and> binder_get_ref 200 0 ex_w7 = Ret (Some 400)"
  using driver_references_consistent [OF ex_rb ex_reach7 ex_w7_facts(1)] ex_reach7 by (simp add: ex_ref_def)

theorem driver_counts_references_witness:
  "drv_reach ex_abi ex_env [ex_call] ex_w7 \<and> {400} = {y. \<exists>s. k_refs ex_w7 y = Some s \<and> r_node s = 300}"
  using driver_counts_references [OF ex_rb ex_reach7 ex_w7_facts(2)] ex_reach7 by simp

theorem driver_lookup_is_search_witness:
  "drv_reach ex_abi ex_env [ex_call] ex_w7 \<and> binder_get_node 100 0 ex_w7 = Ret (Some 300)"
proof -
  obtain f where f: "binder_get_node 100 0 ex_w7 = Ret f"
      "\<forall>m. f = Some m \<longleftrightarrow> (\<exists>node. k_nodes ex_w7 m = Some node \<and> n_proc node = Some 100 \<and> n_ptr node = 0)"
    using driver_lookup_is_search [OF ex_rb ex_reach7 ex_w7_facts(3)] by blast
  have "f = Some 300" using f(2) ex_w7_facts(2) by (simp add: ex_node_def fresh_node_def)
  then show ?thesis using f(1) ex_reach7 by simp
qed

lemma ex_step7: "drv_step ex_abi ex_env ([], ex_w6) ([ex_call], ex_w7)"
proof -
  have "owner_at ex_w6 110 = Some 100" by (simp add: owner_at_def ex_world fresh_thread_def)
  from drv_step.started [OF this ex_w7_step, of "[]"] show ?thesis by (simp add: ex_call_def)
qed

theorem pool_bounds_witness:
  "\<exists>proc. drv_reach ex_abi ex_env [] ex_w6 \<and> drv_step ex_abi ex_env ([], ex_w6) ([ex_call], ex_w7) \<and> k_procs ex_w7 100 = Some proc \<and>
    p_ready proc = int (waits [ex_call] 100) \<and> p_requested proc \<le> 1"
  using pool_bounds [OF ex_rb ex_reach6 ex_step7 ex_w7_facts(3)] ex_reach6 ex_step7 ex_w7_facts(3) by blast


text \<open>The second process ends.\<close>

definition ex_r1 :: kstate where
  "ex_r1 = ex_w7\<lparr>k_procs := (k_procs ex_w7)(200 \<mapsto> (fresh_proc 20 0)\<lparr>p_refs_by_desc := Node Leaf 400 Leaf, p_refs_by_node := Node Leaf 400 Leaf\<rparr>),
     k_threads := [110 \<mapsto> (fresh_thread 100 11)\<lparr>th_looper := LOOPER_WAITING\<rparr>], k_deleted := (\<lambda>_. 0)(Stat_thread := 1)\<rparr>"

definition ex_r2 :: kstate where
  "ex_r2 = ex_r1\<lparr>k_procs := (k_procs ex_w7)(200 \<mapsto> fresh_proc 20 0), k_refs := Map.empty, k_nodes := [300 \<mapsto> ex_node],
     k_deleted := (\<lambda>_. 0)(Stat_thread := 1, Stat_ref := 1)\<rparr>"

lemma ex_free_thread: "binder_free_thread ex_abi ex_env 200 210 ex_w7 = ret (0, ex_r1)"
  by (simp add: binder_free_thread_def drop_stack.simps binder_release_work.simps ex_w7_def ex_r1_def ex_world fresh_proc_def
      fresh_thread_def upd_proc_def stats_deleted_def ex_env_def plain_rb_def fun_upd_twist fun_upd_idem)

lemma ex_delete_ref: "binder_delete_ref plain_rb 400 ex_r1 = Ret ex_r2"
  by (simp add: binder_delete_ref_def binder_dec_node_def ex_r1_def ex_r2_def ex_w7_def ex_world fresh_proc_def ex_ref_def
      ex_node_def fresh_node_def upd_proc_def upd_node_def upd_ref_def stats_deleted_def plain_rb_def Let_def fun_upd_twist fun_upd_idem)

lemma ex_release: "\<exists>k'. binder_deferred_release ex_abi ex_env 200 ex_w7 = Some (Ret k')"
proof -
  have p: "k_procs ex_w7 200 = Some ((fresh_proc 20 0)\<lparr>p_threads := Node Leaf 210 Leaf, p_refs_by_desc := Node Leaf 400 Leaf, p_refs_by_node := Node Leaf 400 Leaf\<rparr>)"
    "k_procs ex_r1 200 = Some ((fresh_proc 20 0)\<lparr>p_refs_by_desc := Node Leaf 400 Leaf, p_refs_by_node := Node Leaf 400 Leaf\<rparr>)"
    "k_procs ex_r2 200 = Some (fresh_proc 20 0)"
    by (simp_all add: ex_w7_def ex_r1_def ex_r2_def ex_world)
  have "drop_mgr 200 ex_w7 = Ret ex_w7" by (simp add: drop_mgr_def ex_w7_def ex_world ex_node_def fresh_node_def)
  moreover have "free_threads ex_abi ex_env 200 ex_r1 = ret ex_r1"
    by (subst free_threads.simps) (simp add: first_of_def tree_first_def p fresh_proc_def)
  then have "free_threads ex_abi ex_env 200 ex_w7 = ret ex_r1"
    by (subst free_threads.simps) (simp add: first_of_def tree_first_def p fresh_proc_def ex_free_thread)
  moreover have "release_nodes ex_abi ex_env 200 0 ex_r1 = ret ex_r1"
    by (subst release_nodes.simps) (simp add: first_of_def tree_first_def p fresh_proc_def)
  moreover have "delete_refs ex_env 200 ex_r2 = ret ex_r2"
    by (subst delete_refs.simps) (simp add: first_of_def tree_first_def p fresh_proc_def)
  then have "delete_refs ex_env 200 ex_r1 = ret ex_r2"
    by (subst delete_refs.simps) (simp add: first_of_def tree_first_def p fresh_proc_def ex_env_def ex_delete_ref)
  moreover have "binder_release_work ex_abi l ex_r2 = ret ex_r2" if "l = Proc_todo 200 \<or> l = Delivered 200" for l
    using that by (subst binder_release_work.simps) (auto simp: p fresh_proc_def)
  moreover have "free_bufs ex_env 200 ex_r2 = ret ex_r2"
    by (subst free_bufs.simps) (simp add: first_of_def tree_first_def p fresh_proc_def no_alloc_def)
  moreover have "al_vma (p_alloc ((fresh_proc 20 0)\<lparr>p_threads := t, p_refs_by_desc := d, p_refs_by_node := b\<rparr>)) = None" for t d b
    by (simp add: fresh_proc_def no_alloc_def)
  ultimately show ?thesis by (simp add: binder_deferred_release_def p)
qed

theorem released_process_gone_witness:
  "\<exists>k'. binder_deferred_release ex_abi ex_env 200 ex_w7 = Some (Ret k') \<and> k_procs k' 200 = None \<and>
     (\<forall>t x. k_threads k' t = Some x \<longrightarrow> th_proc x \<noteq> 200) \<and> (\<forall>x r. k_refs k' x = Some r \<longrightarrow> r_proc r \<noteq> 200)"
proof -
  obtain k' where k': "binder_deferred_release ex_abi ex_env 200 ex_w7 = Some (Ret k')" using ex_release by blast
  show ?thesis using released_process_gone [OF ex_rb ex_reach7 ex_w7_facts(5) k'] k' by blast
qed

text \<open>
  A call of a thread that is gone, made while it served a call of a thread that waits for it.
\<close>

definition ex_txn :: txn where
  "ex_txn = \<lparr>t_debug_id = 1, t_from = None, t_from_parent = Some 700, t_to_proc = None, t_to_thread = None, t_to_parent = None,
     t_need_reply = True, t_buffer = None, t_code = 1, t_flags = 0, t_priority = 0, t_saved_priority = 0, t_sender_euid = 0\<rparr>"

definition ex_chain :: kstate where
  "ex_chain = ex_boot\<lparr>k_txns := [600 \<mapsto> ex_txn, 700 \<mapsto> ex_txn\<lparr>t_from := Some 110, t_from_parent := None\<rparr>],
     k_threads := [110 \<mapsto> (fresh_thread 100 11)\<lparr>th_stack := Some 700\<rparr>]\<rparr>"

theorem failed_reply_reaches_caller_witness:
  "\<exists>k'. binder_send_failed_reply ex_abi 600 BR_DEAD_REPLY ex_chain = ret k' \<and> k_txns k' 600 = None \<and> k_txns k' 700 = None \<and>
     map_option th_error (k_threads k' 110) = Some BR_DEAD_REPLY"
proof -
  have c: "k_txns ex_chain 600 = Some ex_txn" "k_txns ex_chain 700 = Some (ex_txn\<lparr>t_from := Some 110, t_from_parent := None\<rparr>)"
    "k_threads ex_chain 110 = Some ((fresh_thread 100 11)\<lparr>th_stack := Some 700\<rparr>)" "\<not> one_way ex_abi (t_flags ex_txn)"
    by (simp_all add: ex_chain_def ex_txn_def one_way_def)
  have path: "from_path ex_chain (Some 600) [600, 700]" by (simp add: c ex_txn_def)
  have dead: "dead_txn ex_chain 600" "\<not> dead_txn ex_chain 700" by (simp_all add: dead_txn_def c ex_txn_def)
  show ?thesis
    using failed_reply_reaches_caller [OF c(1,4) path, of BR_DEAD_REPLY]
    by (auto simp: failed_outcome_def dead c failed_thread_def fresh_thread_def ex_txn_def restrict_map_def)
qed

end
