(* ===== verification/Drv_Deferred.thy ===== *)
theory Drv_Deferred
  imports Drv_Release
begin

text \<open>
  The work that the driver puts off: closing a file or a mapping only marks the process and queues
  it, and a worker thread does the rest. With it the mapping and the file table of a process, which
  exist as long as the process maps the device.
\<close>

section \<open>Deferred work\<close>

definition DEFERRED_PUT_FILES :: u32 where "DEFERRED_PUT_FILES = 0x01"
definition DEFERRED_FLUSH :: u32 where "DEFERRED_FLUSH = 0x02"
definition DEFERRED_RELEASE :: u32 where "DEFERRED_RELEASE = 0x04"

text \<open>
  \<open>d_files\<close> and \<open>d_work\<close> are the fields \<open>files\<close> and \<open>deferred_work\<close> of a process,
  \<open>d_list\<close> is \<open>binder_deferred_list\<close>. The work item of the work queue is pending, or its
  function runs. \<open>d_put\<close> are the file tables given back.
\<close>

record dstate =
  d_k :: kstate
  d_files :: "nat \<rightharpoonup> nat"
  d_work :: "nat \<Rightarrow> u32"
  d_list :: "nat list"
  d_pending :: bool
  d_running :: bool
  d_put :: "nat list"

definition binder_defer_work :: "nat \<Rightarrow> u32 \<Rightarrow> dstate \<Rightarrow> dstate cres" where
  "binder_defer_work p defer s =
     cbind (of_mem (k_procs (d_k s) p)) (\<lambda>_.
       let s = s\<lparr>d_work := (d_work s)(p := d_work s p OR defer)\<rparr>
       in Ret (if p \<notin> set (d_list s) then s\<lparr>d_list := p # d_list s, d_pending := True\<rparr> else s))"

definition binder_flush :: "nat \<Rightarrow> dstate \<Rightarrow> dstate cres" where
  "binder_flush p s = binder_defer_work p DEFERRED_FLUSH s"

definition binder_release_file :: "nat \<Rightarrow> dstate \<Rightarrow> dstate cres" where
  \<comment> \<open>\<open>binder_release\<close>, less the entry in the debug file system\<close>
  "binder_release_file p s = binder_defer_work p DEFERRED_RELEASE s"

definition set_alloc :: "nat \<Rightarrow> alloc \<Rightarrow> dstate \<Rightarrow> dstate" where
  "set_alloc p al s = s\<lparr>d_k := upd_proc p (\<lambda>x. x\<lparr>p_alloc := al\<rparr>) (d_k s)\<rparr>"

definition binder_vma_close :: "nat \<Rightarrow> dstate \<Rightarrow> dstate cres" where
  "binder_vma_close p s =
     cbind (of_mem (k_procs (d_k s) p)) (\<lambda>proc.
       binder_defer_work p DEFERRED_PUT_FILES (set_alloc p (vma_closed (p_alloc proc)) s))"

definition drv_mmap ::
    "rb_env \<Rightarrow> page_env \<Rightarrow> mmap_env \<Rightarrow> vm_area \<Rightarrow> nat option \<Rightarrow> nat \<Rightarrow> dstate \<Rightarrow> (int \<times> dstate) cres" where
  \<comment> \<open>\<open>binder_mmap\<close> with the file table of the caller, which it keeps on success\<close>
  "drv_mmap R P E vma files p s =
     cbind (of_mem (k_procs (d_k s) p)) (\<lambda>proc.
     cbind (binder_mmap R P E vma (p_alloc proc)) (\<lambda>(ret, _, al).
       let s = set_alloc p al s
       in Ret (ret, if ret = 0 then s\<lparr>d_files := (d_files s)(p := files)\<rparr> else s)))"

definition open_file :: "nat \<Rightarrow> int \<Rightarrow> dstate \<Rightarrow> int \<times> nat option \<times> dstate" where
  \<comment> \<open>\<open>binder_open\<close>: the new process is zeroed memory\<close>
  "open_file pid nice s =
     (case drv_open pid nice (d_k s) of
        (e, None, k) \<Rightarrow> (e, None, s\<lparr>d_k := k\<rparr>)
      | (e, Some p, k) \<Rightarrow> (e, Some p, s\<lparr>d_k := k, d_files := (d_files s)(p := None), d_work := (d_work s)(p := 0)\<rparr>))"

section \<open>The worker\<close>

definition deferred_turn :: "kabi \<Rightarrow> denv \<Rightarrow> dstate \<Rightarrow> (bool \<times> dstate) run" where
  \<comment> \<open>one turn of the loop of \<open>binder_deferred_func\<close>, and whether there was a process\<close>
  "deferred_turn A E s =
     (case d_list s of
        [] \<Rightarrow> ret (False, s)
      | p # ps \<Rightarrow>
          rbind (Some (of_mem (k_procs (d_k s) p))) (\<lambda>_.
          let defer = d_work s p;
              s = s\<lparr>d_list := ps, d_work := (d_work s)(p := 0)\<rparr>;
              files = (if defer AND DEFERRED_PUT_FILES \<noteq> 0 then d_files s p else None);
              s = (if files \<noteq> None then s\<lparr>d_files := (d_files s)(p := None)\<rparr> else s)
          in rbind (if defer AND DEFERRED_FLUSH \<noteq> 0
                    then Some (cbind (binder_deferred_flush p (d_k s)) (\<lambda>(_, k). Ret (s\<lparr>d_k := k\<rparr>)))
                    else ret s) (\<lambda>s.
             rbind (if defer AND DEFERRED_RELEASE \<noteq> 0
                    then if d_files s p \<noteq> None then Some Abort
                         else rbind (binder_deferred_release A E p (d_k s)) (\<lambda>k. ret (s\<lparr>d_k := k\<rparr>))
                    else ret s) (\<lambda>s.
               ret (True, case files of None \<Rightarrow> s | Some f \<Rightarrow> s\<lparr>d_put := d_put s @ [f]\<rparr>)))))"

partial_function (option) binder_deferred_func :: "kabi \<Rightarrow> denv \<Rightarrow> dstate \<Rightarrow> dstate run" where
  \<comment> \<open>when nothing is queued between its turns\<close>
  "binder_deferred_func A E s =
     rbind (deferred_turn A E s) (\<lambda>(again, s). if again then binder_deferred_func A E s else ret s)"

section \<open>Descriptors of another process\<close>

text \<open>
  The kernel's functions on a file table are parameters: the lowest free descriptor below a limit,
  and closing one.
\<close>

definition E_SRCH :: int where "E_SRCH = - 3"
definition E_MFILE :: int where "E_MFILE = - 24"
definition E_INTR :: int where "E_INTR = - 4"

definition restart_codes :: "int list" where
  \<comment> \<open>\<open>ERESTARTSYS\<close>, \<open>ERESTARTNOINTR\<close>, \<open>ERESTARTNOHAND\<close>, \<open>ERESTART_RESTARTBLOCK\<close>\<close>
  "restart_codes = [- 512, - 513, - 514, - 516]"

definition task_get_unused_fd_flags ::
    "(nat \<Rightarrow> nat \<Rightarrow> u32 \<Rightarrow> int) \<Rightarrow> nat option \<Rightarrow> u32 \<Rightarrow> nat option \<Rightarrow> int" where
  \<comment> \<open>the limit of the task is known if its signal handler can be locked\<close>
  "task_get_unused_fd_flags alloc_fd sighand_limit flags files =
     (case files of
        None \<Rightarrow> E_SRCH
      | Some f \<Rightarrow> (case sighand_limit of None \<Rightarrow> E_MFILE | Some rlim_cur \<Rightarrow> alloc_fd f rlim_cur flags))"

definition task_fd_install :: "nat option \<Rightarrow> u32 \<Rightarrow> nat \<Rightarrow> (nat \<Rightarrow> u32 \<Rightarrow> nat option) \<Rightarrow> nat \<Rightarrow> u32 \<Rightarrow> nat option" where
  "task_fd_install files fd file tables =
     (case files of None \<Rightarrow> tables | Some f \<Rightarrow> tables(f := (tables f)(fd := Some file)))"

definition task_close_fd :: "(nat \<Rightarrow> u32 \<Rightarrow> int) \<Rightarrow> nat option \<Rightarrow> u32 \<Rightarrow> int" where
  "task_close_fd close_fd files fd =
     (case files of
        None \<Rightarrow> E_SRCH
      | Some f \<Rightarrow> (let retval = close_fd f fd in if List.member restart_codes retval then E_INTR else retval))"

section \<open>What can happen\<close>

text \<open>
  A configuration adds the processes whose file was closed. A mapping keeps the file open: the file is
  closed once, when the process does not map the device any more, and nothing is called on it after
  that. What the other calls of the driver do neither adds nor removes processes or mappings. The
  worker starts when its work is pending, and stops when a turn finds no process; between its turns
  anything else may happen.
\<close>

definition vmas :: "kstate \<Rightarrow> nat \<Rightarrow> nat option option" where
  "vmas k p = map_option (\<lambda>x. al_vma (p_alloc x)) (k_procs k p)"

inductive life_step :: "kabi \<Rightarrow> denv \<Rightarrow> dstate \<times> nat set \<Rightarrow> dstate \<times> nat set \<Rightarrow> bool" for A E where
  opened: "open_file pid nice s = (e, Some p, s') \<Longrightarrow> k_procs (d_k s) p = None \<Longrightarrow>
    life_step A E (s, gone) (s', gone - {p})"
| mapped: "p \<notin> gone \<Longrightarrow> drv_mmap R P M vma files p s = Ret (e, s') \<Longrightarrow> life_step A E (s, gone) (s', gone)"
| unmapped: "p \<notin> gone \<Longrightarrow> binder_vma_close p s = Ret s' \<Longrightarrow> life_step A E (s, gone) (s', gone)"
| flushed: "p \<notin> gone \<Longrightarrow> binder_flush p s = Ret s' \<Longrightarrow> life_step A E (s, gone) (s', gone)"
| closed: "p \<notin> gone \<Longrightarrow> vmas (d_k s) p = Some None \<Longrightarrow> binder_release_file p s = Ret s' \<Longrightarrow>
    life_step A E (s, gone) (s', insert p gone)"
| other: "vmas k' = vmas (d_k s) \<Longrightarrow> life_step A E (s, gone) (s\<lparr>d_k := k'\<rparr>, gone)"
| begins: "d_pending s \<Longrightarrow> \<not> d_running s \<Longrightarrow>
    life_step A E (s, gone) (s\<lparr>d_pending := False, d_running := True\<rparr>, gone)"
| turn: "d_running s \<Longrightarrow> deferred_turn A E s = ret (again, s') \<Longrightarrow>
    life_step A E (s, gone) (s'\<lparr>d_running := again\<rparr>, {p \<in> gone. k_procs (d_k s') p \<noteq> None})"

definition life_start :: "kstate \<Rightarrow> dstate" where
  "life_start k = \<lparr>d_k = k, d_files = Map.empty, d_work = (\<lambda>_. 0), d_list = [], d_pending = False,
     d_running = False, d_put = []\<rparr>"

inductive life_reach :: "kabi \<Rightarrow> denv \<Rightarrow> dstate \<times> nat set \<Rightarrow> bool" for A E where
  boots: "k_procs k = Map.empty \<Longrightarrow> life_reach A E (life_start k, {})"
| steps: "life_reach A E c \<Longrightarrow> life_step A E c c' \<Longrightarrow> life_reach A E c'"

inductive_cases life_stepE: "life_step A E c c'"

end
