(* ===== verification/Drv_Deferred_Correct.thy ===== *)
theory Drv_Deferred_Correct
  imports Drv_Deferred Drv_View
begin

text \<open>
  The end of a process leaves the mappings of all other processes alone, and the invariant of
  deferred work: what is queued, what has a file table, and that a process whose file was closed is
  no longer mapped.
\<close>

section \<open>The allocator and its mapping\<close>

lemma vma_free_pages: "al_vma A = v \<Longrightarrow> post (Some (free_pages z is A)) (\<lambda>A'. al_vma A' = v)"
  by (induction "is" arbitrary: A) (simp_all add: post_simps)

lemma vma_alloc_pages: "al_vma A = v \<Longrightarrow> post (Some (alloc_pages P is done A)) (\<lambda>(_, A'). al_vma A' = v)"
proof (induction "is" arbitrary: A "done")
  case (Cons i "is")
  then show ?case
    by (auto simp: post_simps intro!: vma_free_pages split: page_fault.split)
qed (simp add: post_simps)

lemma vma_update_page_range:
  "al_vma A = v \<Longrightarrow> post (Some (binder_update_page_range P al s e z A)) (\<lambda>(_, A'). al_vma A' = v)"
  by (auto simp: binder_update_page_range_def post_simps Let_def intro!: vma_free_pages vma_alloc_pages)

lemma vma_insert_free: "al_vma A = v \<Longrightarrow> post (Some (binder_insert_free_buffer R a A)) (\<lambda>A'. al_vma A' = v)"
  by (auto simp: binder_insert_free_buffer_def post_simps intro!: post_of_cres split: sum.splits)

lemma vma_delete_free: "al_vma A = v \<Longrightarrow> post (Some (binder_delete_free_buffer P a A)) (\<lambda>A'. al_vma A' = v)"
  by (auto simp: binder_delete_free_buffer_def post_simps Let_def split: option.split prod.split
      intro!: vma_update_page_range [THEN post_weaken])

lemma vma_free_buf: "al_vma A = v \<Longrightarrow> post (Some (binder_free_buf R P a A)) (\<lambda>A'. al_vma A' = v)"
  by (auto simp: binder_free_buf_def post_simps Let_def split: option.split
      intro!: vma_update_page_range [THEN post_weaken] vma_delete_free [THEN post_weaken] vma_insert_free)

section \<open>The mappings of all processes\<close>

lemma vmas_simps [simp]:
  "vmas (k\<lparr>k_threads := a\<rparr>) = vmas k" "vmas (k\<lparr>k_nodes := b\<rparr>) = vmas k" "vmas (k\<lparr>k_refs := c\<rparr>) = vmas k"
  "vmas (k\<lparr>k_deaths := d\<rparr>) = vmas k" "vmas (k\<lparr>k_txns := e\<rparr>) = vmas k" "vmas (k\<lparr>k_completes := f\<rparr>) = vmas k"
  "vmas (k\<lparr>k_mgr := g\<rparr>) = vmas k" "vmas (k\<lparr>k_dead_nodes := h\<rparr>) = vmas k" "vmas (complain z k) = vmas k"
  "vmas (stats_deleted s k) = vmas k" "vmas (stats_created s k) = vmas k" "vmas (k\<lparr>k_kzalloc := as\<rparr>) = vmas k"
  by (simp_all add: vmas_def fun_eq_iff complain_def stats_deleted_def stats_created_def)

lemma vmas_upd_proc [simp]:
  "(\<And>x. al_vma (p_alloc (f x)) = al_vma (p_alloc x)) \<Longrightarrow> vmas (upd_proc p f k) = vmas k"
  by (simp add: vmas_def fun_eq_iff upd_proc_def option.map_comp comp_def)

lemma vmas_upd [simp]:
  "vmas (upd_thread a f k) = vmas k" "vmas (upd_node a g k) = vmas k" "vmas (upd_death a h k) = vmas k"
  "vmas (upd_txn a i k) = vmas k" "vmas (upd_kbuf p a j k) = vmas k"
  by (simp_all add: upd_thread_def upd_node_def upd_death_def upd_txn_def upd_kbuf_def)

lemma vmas_lists [simp]:
  "vmas (upd_list l f k) = vmas k" "vmas (set_entry w l' k) = vmas k" "vmas (list_add_tail w l k) = vmas k"
  "vmas (list_del_init w k) = vmas k" "vmas (take_work l w k) = vmas k"
proof -
  show *: "vmas (upd_list l f k) = vmas k" for l f k by (cases l) simp_all
  show e: "vmas (set_entry w l k) = vmas k" for w l k by (cases w) simp_all
  show "vmas (list_add_tail w l k) = vmas k" by (simp add: list_add_tail_def * e)
  show d: "vmas (list_del_init w k) = vmas k" for k by (simp add: list_del_init_def * e split: option.split)
  show "vmas (take_work l w k) = vmas k" by (cases w) (simp_all add: take_work_def * e d)
qed

lemma vmas_end [simp]:
  "vmas (free_txn t k) = vmas k" "vmas (forget_txn bo k) = vmas k" "vmas (delete_death d k) = vmas k"
  "vmas (free_node R n node k) = vmas k"
  by (simp_all add: free_txn_def forget_txn_def delete_death_def free_node_def Let_def split: option.split)

section \<open>The end of a process\<close>

abbreviation keeps :: "(nat \<Rightarrow> nat option option) \<Rightarrow> kstate \<Rightarrow> bool" where
  "keeps v k \<equiv> vmas k = v"

lemma keeps_pop: "keeps v k \<Longrightarrow> post (Some (binder_pop_transaction th t k)) (keeps v)"
  by (auto simp: binder_pop_transaction_def post_simps split: option.split)

lemma keeps_send_failed: "keeps v k \<Longrightarrow> post (send_failed err t k) (keeps v)"
proof (rule post_any, rule send_failed.raw_induct [where P = "\<lambda>err t k y. keeps v k \<longrightarrow> post (Some y) (keeps v)", rule_format], goal_cases)
  case (1 _ sf err t k r)
  have IH: "post (sf err' t' k') (keeps (vmas k))" if "keeps (vmas k) k'" for err' t' k'
    using post_any [OF 1(3) [of err' t' k']] that 1(5) by simp
  show ?case
    unfolding 1(4) [symmetric] using 1(5)
    by (auto simp: post_simps Let_def intro!: keeps_pop [THEN post_weaken] IH split: option.split)
qed

lemma keeps_failed_reply: "keeps v k \<Longrightarrow> post (binder_send_failed_reply A t err k) (keeps v)"
  by (auto simp: binder_send_failed_reply_def post_simps keeps_send_failed split: option.split)

lemma keeps_undelivered: "keeps v k \<Longrightarrow> post (undelivered A w k) (keeps v)"
  by (auto simp: undelivered_def post_simps keeps_failed_reply split: work.split option.split prod.split)

lemma keeps_release_work: "keeps v k \<Longrightarrow> post (binder_release_work A l k) (keeps v)"
proof (rule post_any, rule binder_release_work.raw_induct [where P = "\<lambda>A l k y. keeps v k \<longrightarrow> post (Some y) (keeps v)", rule_format], goal_cases)
  case (1 _ rw A l k r)
  have IH: "post (rw A l k') (keeps (vmas k))" if "keeps (vmas k) k'" for k'
    using post_any [OF 1(3) [of A l k']] that 1(5) by simp
  show ?case
    unfolding 1(4) [symmetric] using 1(5)
    by (auto simp: post_simps intro!: post_of_cres keeps_undelivered [THEN post_weaken] IH split: list.split)
qed

lemma keeps_drop_stack: "keeps v k \<Longrightarrow> post (drop_stack th tmp i k) (\<lambda>(_, k'). keeps v k')"
proof (rule post_any, rule drop_stack.raw_induct [where P = "\<lambda>th tmp i k y. keeps v k \<longrightarrow> post (Some y) (\<lambda>(_, k'). keeps v k')", rule_format], goal_cases)
  case (1 _ ds th tmp i k y)
  have IH: "post (ds th t i k') (\<lambda>(_, k'). keeps (vmas k) k')" if "keeps (vmas k) k'" for t i k'
    using post_any [OF 1(3) [of th t i k']] that 1(5) by simp
  show ?case
    unfolding 1(4) [symmetric] using 1(5) by (auto simp: post_simps intro!: IH split: option.split)
qed

lemma keeps_free_thread: "keeps v k \<Longrightarrow> post (binder_free_thread A E p th k) (\<lambda>(_, k'). keeps v k')"
  by (auto simp: binder_free_thread_def post_simps split: option.split
      intro!: keeps_drop_stack [THEN post_weaken] keeps_failed_reply [THEN post_weaken] keeps_release_work [THEN post_weaken])

lemma keeps_free_threads: "keeps v k \<Longrightarrow> post (free_threads A E p k) (keeps v)"
proof (rule post_any, rule free_threads.raw_induct [where P = "\<lambda>A E p k y. keeps v k \<longrightarrow> post (Some y) (keeps v)", rule_format], goal_cases)
  case (1 _ ft A E p k y)
  have IH: "post (ft A E p k') (keeps (vmas k))" if "keeps (vmas k) k'" for k'
    using post_any [OF 1(3) [of A E p k']] that 1(5) by simp
  show ?case
    unfolding 1(4) [symmetric] using 1(5)
    by (auto simp: post_simps intro!: post_of_cres keeps_free_thread [THEN post_weaken] IH split: option.split)
qed

lemma keeps_notify_refs: "keeps v k \<Longrightarrow> post (Some (notify_refs rs refs k)) (\<lambda>(_, k'). keeps v k')"
  by (induction rs arbitrary: refs k) (auto simp: post_simps split: option.split)

lemma keeps_node_release: "keeps v k \<Longrightarrow> post (binder_node_release A n refs k) (\<lambda>(_, k'). keeps v k')"
  by (auto simp: binder_node_release_def post_simps Let_def
      intro!: keeps_release_work [THEN post_weaken] keeps_notify_refs)

lemma keeps_release_nodes: "keeps v k \<Longrightarrow> post (release_nodes A E p refs k) (keeps v)"
proof (rule post_any, rule release_nodes.raw_induct [where P = "\<lambda>A E p refs k y. keeps v k \<longrightarrow> post (Some y) (keeps v)", rule_format], goal_cases)
  case (1 _ rn A E p refs k y)
  have IH: "post (rn A E p refs' k') (keeps (vmas k))" if "keeps (vmas k) k'" for refs' k'
    using post_any [OF 1(3) [of A E p refs' k']] that 1(5) by simp
  show ?case
    unfolding 1(4) [symmetric] using 1(5)
    by (auto simp: post_simps intro!: post_of_cres keeps_node_release [THEN post_weaken] IH split: option.split)
qed

lemma keeps_dec_node: "keeps v k \<Longrightarrow> post (Some (binder_dec_node R n strong internal k)) (keeps v)"
  by (auto simp: binder_dec_node_def post_simps Let_def split: option.split)

lemma keeps_delete_ref: "keeps v k \<Longrightarrow> post (Some (binder_delete_ref R r k)) (keeps v)"
  by (auto simp: binder_delete_ref_def post_simps Let_def intro!: keeps_dec_node [THEN post_weaken] split: option.split)

lemma keeps_delete_refs: "keeps v k \<Longrightarrow> post (delete_refs E p k) (keeps v)"
proof (rule post_any, rule delete_refs.raw_induct [where P = "\<lambda>E p k y. keeps v k \<longrightarrow> post (Some y) (keeps v)", rule_format], goal_cases)
  case (1 _ dr E p k y)
  have IH: "post (dr E p k') (keeps (vmas k))" if "keeps (vmas k) k'" for k'
    using post_any [OF 1(3) [of E p k']] that 1(5) by simp
  show ?case
    unfolding 1(4) [symmetric] using 1(5)
    by (auto simp: post_simps intro!: post_of_cres IH dest!: post_cresD [OF keeps_delete_ref [OF refl]] split: option.split)
qed

lemma vmas_set_alloc:
  "k_procs k p = Some x \<Longrightarrow> vmas (upd_proc p (\<lambda>x. x\<lparr>p_alloc := al\<rparr>) k) = (vmas k)(p \<mapsto> al_vma al)"
  by (simp add: vmas_def fun_eq_iff upd_proc_def)

lemma keeps_free_kbuf: "keeps v k \<Longrightarrow> post (Some (free_kbuf E p a k)) (keeps v)"
  by (auto simp: free_kbuf_def post_simps vmas_set_alloc intro!: vma_free_buf [THEN post_weaken])
    (auto simp: vmas_def fun_eq_iff)

lemma keeps_free_bufs: "keeps v k \<Longrightarrow> post (free_bufs E p k) (keeps v)"
proof (rule post_any, rule free_bufs.raw_induct [where P = "\<lambda>E p k y. keeps v k \<longrightarrow> post (Some y) (keeps v)", rule_format], goal_cases)
  case (1 _ fb E p k y)
  have IH: "post (fb E p k') (keeps (vmas k))" if "keeps (vmas k) k'" for k'
    using post_any [OF 1(3) [of E p k']] that 1(5) by simp
  show ?case
    unfolding 1(4) [symmetric] using 1(5)
    by (auto simp: post_simps intro!: post_of_cres IH dest!: post_cresD [OF keeps_free_kbuf [OF refl]] split: option.split)
qed

lemma keeps_drop_mgr: "keeps v k \<Longrightarrow> post (Some (drop_mgr p k)) (keeps v)"
  by (auto simp: drop_mgr_def post_simps split: option.split)

lemma vmas_deferred_release:
  "post (binder_deferred_release A E p k) (\<lambda>k'. vmas k' = (vmas k)(p := None))"
proof -
  have fin: "vmas ((stats_deleted Stat_proc k')\<lparr>k_procs := (k_procs k')(p := None)\<rparr>) = (vmas k)(p := None)"
    if "keeps (vmas k) k'" for k'
    using that by (auto simp: vmas_def fun_eq_iff)
  show ?thesis
    unfolding binder_deferred_release_def
    by (auto simp: post_simps fin intro!: keeps_drop_mgr [THEN post_weaken] keeps_free_threads [THEN post_weaken]
        keeps_release_nodes [THEN post_weaken] keeps_delete_refs [THEN post_weaken]
        keeps_release_work [THEN post_weaken] keeps_free_bufs [THEN post_weaken])
qed

lemma vmas_deferred_flush: "post (Some (binder_deferred_flush p k)) (\<lambda>(_, k'). vmas k' = vmas k)"
proof -
  have "vmas (fold (\<lambda>t. upd_thread t (f t)) ts k) = vmas k" for ts f
    by (induction ts arbitrary: k) simp_all
  then show ?thesis by (auto simp: binder_deferred_flush_def post_simps Let_def)
qed

lemma vma_mmap:
  "post (Some (binder_mmap R P M vma A)) (\<lambda>(ret, _, A'). if ret = 0 then al_vma A' \<noteq> None else al_vma A' = al_vma A)"
  by (auto simp: binder_mmap_def post_simps Let_def split: option.split
      intro!: vma_update_page_range [THEN post_weaken] vma_insert_free [THEN post_weaken])

section \<open>One turn of the worker\<close>

lemma vmas_None: "vmas k p = None \<longleftrightarrow> k_procs k p = None"
  by (simp add: vmas_def)

lemma vmas_Some: "k_procs k p = Some x \<Longrightarrow> vmas k p = Some (al_vma (p_alloc x))"
  by (simp add: vmas_def)

definition bit_of :: "u32 \<Rightarrow> dstate \<Rightarrow> nat \<Rightarrow> bool" where
  "bit_of b s p \<longleftrightarrow> d_work s p AND b \<noteq> 0"

lemma deferred_bits [simp]:
  "DEFERRED_PUT_FILES \<noteq> 0" "DEFERRED_FLUSH \<noteq> 0" "DEFERRED_RELEASE \<noteq> 0"
  "DEFERRED_PUT_FILES AND DEFERRED_RELEASE = 0" "DEFERRED_FLUSH AND DEFERRED_RELEASE = 0"
  "DEFERRED_FLUSH AND DEFERRED_PUT_FILES = 0" "DEFERRED_RELEASE AND DEFERRED_PUT_FILES = 0"
  by (simp_all add: DEFERRED_PUT_FILES_def DEFERRED_FLUSH_def DEFERRED_RELEASE_def)

lemma turn_none: "d_list s = [] \<Longrightarrow> deferred_turn A E s = ret (False, s)"
  by (simp add: deferred_turn_def)

lemma turn_spec:
  assumes "d_list s = p # ps"
  shows "post (deferred_turn A E s) (\<lambda>(again, s'). again \<and> d_list s' = ps \<and> d_work s' = (d_work s)(p := 0) \<and>
    d_files s' = (if bit_of DEFERRED_PUT_FILES s p then (d_files s)(p := None) else d_files s) \<and>
    d_pending s' = d_pending s \<and>
    d_put s' = d_put s @ (if bit_of DEFERRED_PUT_FILES s p then case d_files s p of None \<Rightarrow> [] | Some f \<Rightarrow> [f] else []) \<and>
    vmas (d_k s') = (if bit_of DEFERRED_RELEASE s p then (vmas (d_k s))(p := None) else vmas (d_k s)))"
proof -
  note flush = vmas_deferred_flush [THEN post_cresD]
  have rel: "post (binder_deferred_release A E p k) Q" if "\<And>k'. vmas k' = (vmas k)(p := None) \<Longrightarrow> Q k'" for k Q
    by (rule post_weaken [OF vmas_deferred_release]) (rule that)
  show ?thesis
    unfolding deferred_turn_def assms list.case bit_of_def
    by (auto simp: post_simps Let_def fun_upd_idem dest!: flush split: option.split
        intro!: post_of_cres rel)
qed

section \<open>The invariant\<close>

definition queue_fits :: "dstate \<Rightarrow> bool" where
  "queue_fits s \<longleftrightarrow> distinct (d_list s) \<and>
     (\<forall>p. p \<in> set (d_list s) \<longleftrightarrow> vmas (d_k s) p \<noteq> None \<and> d_work s p \<noteq> 0) \<and>
     (d_list s \<noteq> [] \<longrightarrow> d_pending s \<or> d_running s)"

definition ends_fit :: "dstate \<Rightarrow> nat set \<Rightarrow> bool" where
  "ends_fit s gone \<longleftrightarrow>
     (\<forall>p. vmas (d_k s) p = Some None \<longrightarrow> d_files s p \<noteq> None \<longrightarrow> bit_of DEFERRED_PUT_FILES s p) \<and>
     (\<forall>p \<in> gone. vmas (d_k s) p = Some None) \<and>
     (\<forall>p. vmas (d_k s) p \<noteq> None \<longrightarrow> (bit_of DEFERRED_RELEASE s p \<longleftrightarrow> p \<in> gone))"

definition life_ok :: "dstate \<times> nat set \<Rightarrow> bool" where
  "life_ok = (\<lambda>(s, gone). queue_fits s \<and> ends_fit s gone)"

lemmas life_defs = life_ok_def queue_fits_def ends_fit_def

lemma or_zero: "(v OR b) AND c \<noteq> 0 \<longleftrightarrow> v AND c \<noteq> 0 \<or> b AND c \<noteq> (0 :: u32)"
  by (simp add: bit.conj_disj_distrib2 or_eq_0_iff)

lemma defer_spec:
  assumes "binder_defer_work p b s = Ret s'"
  shows "vmas (d_k s) p \<noteq> None" "d_k s' = d_k s" "d_files s' = d_files s" "d_running s' = d_running s"
    "d_work s' = (d_work s)(p := d_work s p OR b)"
    "d_list s' = (if p \<in> set (d_list s) then d_list s else p # d_list s)"
    "d_pending s' = (p \<notin> set (d_list s) \<or> d_pending s)"
  using assms by (auto simp: binder_defer_work_def vmas_None cres_simps Let_def split: if_splits)

lemma defer_queue:
  assumes "queue_fits s" "binder_defer_work p b s = Ret s'" "b \<noteq> 0"
  shows "queue_fits s'"
proof -
  note d = defer_spec [OF assms(2)]
  have w: "d_work s p OR b \<noteq> 0" using assms(3) by (simp add: or_eq_0_iff)
  have q: "\<And>q. q \<in> set (d_list s) \<longleftrightarrow> vmas (d_k s) q \<noteq> None \<and> d_work s q \<noteq> 0"
    using assms(1) unfolding queue_fits_def by blast
  have "q \<in> set (d_list s') \<longleftrightarrow> vmas (d_k s') q \<noteq> None \<and> d_work s' q \<noteq> 0" for q
    using q [of q] w d(1) unfolding d(2,5,6) by (cases "q = p") auto
  moreover have "distinct (d_list s')" "d_list s' \<noteq> [] \<longrightarrow> d_pending s' \<or> d_running s'"
    using assms(1) by (auto simp: queue_fits_def d(4,6,7))
  ultimately show ?thesis unfolding queue_fits_def by blast
qed

lemma queue_cong:
  "queue_fits s \<Longrightarrow> d_list s' = d_list s \<Longrightarrow> d_work s' = d_work s \<Longrightarrow>
   (\<forall>p. vmas (d_k s') p = None \<longleftrightarrow> vmas (d_k s) p = None) \<Longrightarrow> d_pending s' \<or> d_running s' \<or> d_list s = [] \<Longrightarrow>
   queue_fits s'"
  by (auto simp: queue_fits_def)

lemma opened_ok:
  assumes ok: "life_ok (s, gone)" and "open_file pid nice s = (e, Some p, s')" "k_procs (d_k s) p = None"
  shows "life_ok (s', gone - {p})"
proof -
  have s': "d_files s' = (d_files s)(p := None)" "d_work s' = (d_work s)(p := 0)" "d_list s' = d_list s"
    "d_pending s' = d_pending s" "d_running s' = d_running s" "vmas (d_k s') = (vmas (d_k s))(p := Some None)"
    using assms(2) by (auto simp: open_file_def drv_open_def kzalloc_def Let_def vmas_def fun_eq_iff fresh_proc_def
        no_alloc_def stats_created_def split: prod.splits option.splits list.splits)
  have "vmas (d_k s) p = None" using assms(3) by (simp add: vmas_None)
  then show ?thesis using ok s' by (auto simp: life_defs bit_of_def)
qed

lemma mapped_ok:
  assumes ok: "life_ok (s, gone)" and p: "p \<notin> gone" and m: "drv_mmap R P M vma files p s = Ret (e, s')"
  shows "life_ok (s', gone)"
proof -
  obtain x vm al where x: "k_procs (d_k s) p = Some x" "binder_mmap R P M vma (p_alloc x) = Ret (e, vm, al)"
    and s': "s' = (if e = 0 then (set_alloc p al s)\<lparr>d_files := (d_files s)(p := files)\<rparr> else set_alloc p al s)"
    using m by (auto simp: drv_mmap_def cres_simps Let_def set_alloc_def)
  from post_cresD [OF vma_mmap x(2)]
  have v: "if e = 0 then al_vma al \<noteq> None else al_vma al = al_vma (p_alloc x)" by simp
  have s2: "vmas (d_k s') = (vmas (d_k s))(p \<mapsto> al_vma al)" "d_work s' = d_work s" "d_list s' = d_list s"
    "d_files s' = (if e = 0 then (d_files s)(p := files) else d_files s)"
    "d_pending s' = d_pending s" "d_running s' = d_running s"
    using x(1) by (simp_all add: s' set_alloc_def vmas_set_alloc)
  have q: "queue_fits s" using ok by (simp add: life_ok_def)
  then have "d_pending s \<or> d_running s \<or> d_list s = []" by (auto simp: queue_fits_def)
  then have "queue_fits s'"
    by (intro queue_cong [OF q]) (simp_all add: s2 vmas_Some [OF x(1)])
  moreover have "ends_fit s' gone"
    using ok p s2(1,2,4) v vmas_Some [OF x(1)] by (cases "e = 0") (auto simp: life_ok_def ends_fit_def bit_of_def)
  ultimately show ?thesis by (simp add: life_ok_def)
qed

lemma bit_of_defer:
  "binder_defer_work p b s = Ret s' \<Longrightarrow> bit_of c s' q \<longleftrightarrow> bit_of c s q \<or> (q = p \<and> b AND c \<noteq> 0)"
  using defer_spec(5) [of p b s s'] by (auto simp: bit_of_def or_zero)

lemma unmapped_ok:
  assumes ok: "life_ok (s, gone)" and p: "p \<notin> gone" and c: "binder_vma_close p s = Ret s'"
  shows "life_ok (s', gone)"
proof -
  obtain x where x: "k_procs (d_k s) p = Some x"
    and c: "binder_defer_work p DEFERRED_PUT_FILES (set_alloc p (vma_closed (p_alloc x)) s) = Ret s'"
    using c by (auto simp: binder_vma_close_def cres_simps)
  let ?t = "set_alloc p (vma_closed (p_alloc x)) s"
  have t: "vmas (d_k ?t) = (vmas (d_k s))(p \<mapsto> None)" "d_work ?t = d_work s" "d_list ?t = d_list s"
    "d_files ?t = d_files s" "d_pending ?t = d_pending s" "d_running ?t = d_running s"
    using x by (simp_all add: set_alloc_def vmas_set_alloc vma_closed_def)
  have q: "queue_fits s" using ok by (simp add: life_ok_def)
  then have "d_pending s \<or> d_running s \<or> d_list s = []" by (auto simp: queue_fits_def)
  then have "queue_fits ?t"
    by (intro queue_cong [OF q]) (simp_all add: t vmas_Some [OF x])
  then have "queue_fits s'" by (rule defer_queue [OF _ c]) simp
  moreover have b: "bit_of b ?t = bit_of b s" for b by (simp add: bit_of_def fun_eq_iff t)
  have "ends_fit s' gone"
    using ok p vmas_Some [OF x] by (auto simp: life_ok_def ends_fit_def defer_spec(2,3) [OF c] bit_of_defer [OF c] b t)
  ultimately show ?thesis by (simp add: life_ok_def)
qed

lemma flushed_ok:
  assumes ok: "life_ok (s, gone)" and c: "binder_flush p s = Ret s'"
  shows "life_ok (s', gone)"
proof -
  note c = c [unfolded binder_flush_def]
  have "queue_fits s'" using ok by (intro defer_queue [OF _ c]) (simp_all add: life_ok_def)
  moreover have "ends_fit s' gone"
    using ok by (auto simp: life_ok_def ends_fit_def defer_spec(2,3) [OF c] bit_of_defer [OF c])
  ultimately show ?thesis by (simp add: life_ok_def)
qed

lemma closed_ok:
  assumes ok: "life_ok (s, gone)" and v: "vmas (d_k s) p = Some None" and c: "binder_release_file p s = Ret s'"
  shows "life_ok (s', insert p gone)"
proof -
  note c = c [unfolded binder_release_file_def]
  have "queue_fits s'" using ok by (intro defer_queue [OF _ c]) (simp_all add: life_ok_def)
  moreover have "ends_fit s' (insert p gone)"
    using ok v by (auto simp: life_ok_def ends_fit_def defer_spec(2,3) [OF c] bit_of_defer [OF c])
  ultimately show ?thesis by (simp add: life_ok_def)
qed

lemma turn_ok:
  assumes ok: "life_ok (s, gone)" and t: "deferred_turn A E s = ret (again, s')"
  shows "life_ok (s'\<lparr>d_running := again\<rparr>, {p \<in> gone. k_procs (d_k s') p \<noteq> None})"
proof (cases "d_list s")
  case Nil
  then have "s' = s" "\<not> again" using t by (simp_all add: turn_none)
  then show ?thesis using ok Nil by (auto simp: life_defs bit_of_def vmas_None [symmetric])
next
  case (Cons p ps)
  let ?rel = "bit_of DEFERRED_RELEASE s p" and ?s = "s'\<lparr>d_running := again\<rparr>"
  from turn_spec [OF Cons, of A E] t have s': again "d_list s' = ps" "d_work s' = (d_work s)(p := 0)"
    "d_files s' = (if bit_of DEFERRED_PUT_FILES s p then (d_files s)(p := None) else d_files s)"
    "vmas (d_k s') = (if ?rel then (vmas (d_k s))(p := None) else vmas (d_k s))"
    by (simp_all add: post_simps)
  have q: "distinct (d_list s)" "\<And>q. q \<in> set (d_list s) \<longleftrightarrow> vmas (d_k s) q \<noteq> None \<and> d_work s q \<noteq> 0"
    using ok by (auto simp: life_ok_def queue_fits_def)
  have "q \<in> set ps \<longleftrightarrow> vmas (d_k s') q \<noteq> None \<and> d_work s' q \<noteq> 0" for q
    using q Cons s'(3,5) by (cases "q = p") auto
  then have "queue_fits ?s" using q(1) Cons s'(1,2) by (simp add: queue_fits_def)
  moreover have bits: "bit_of b ?s q \<longleftrightarrow> q \<noteq> p \<and> bit_of b s q" for b q by (simp add: bit_of_def s')
  have "ends_fit ?s {p \<in> gone. k_procs (d_k s') p \<noteq> None}"
    using ok unfolding life_ok_def ends_fit_def bits
    by (auto simp: s' vmas_None [symmetric])
  ultimately show ?thesis by (simp add: life_ok_def)
qed

lemma life_step_ok: "life_step A E c c' \<Longrightarrow> life_ok c \<Longrightarrow> life_ok c'"
proof (induction rule: life_step.induct)
  case (other k' s gone)
  then show ?case by (simp add: life_defs bit_of_def)
next
  case (begins s gone)
  then show ?case by (simp add: life_defs bit_of_def)
qed (blast intro: opened_ok mapped_ok unmapped_ok flushed_ok closed_ok turn_ok)+

lemma life_reach_ok: "life_reach A E c \<Longrightarrow> life_ok c"
proof (induction rule: life_reach.induct)
  case (boots k)
  then show ?case by (simp add: life_defs life_start_def vmas_def bit_of_def)
next
  case (steps c c')
  then show ?case using life_step_ok by blast
qed

end
