(* ===== verification/Drv_Deferred_Claims.thy ===== *)
theory Drv_Deferred_Claims
  imports Drv_Deferred_Correct
begin

text \<open>
  What holds of deferred work: nothing is forgotten, nothing is done to a process that is gone, and
  the checks at the start of the end of a process never fail.
\<close>

section \<open>In every order of calls\<close>

text \<open>
  C9. In every order of opening, mapping, unmapping, flushing and closing files, and turns of the
  worker: the processes with deferred work are those on the list, each once, so that nothing is
  forgotten; as long as there are any the worker runs or is about to; and when the end of a process
  comes, the process is there, is not mapped, and has no file table or gives it back first, so that
  neither of its two checks stops the kernel.
\<close>

theorem deferred_work_safe:
  assumes "life_reach A E (s, gone)"
  shows "distinct (d_list s) \<and> (\<forall>p. p \<in> set (d_list s) \<longleftrightarrow> k_procs (d_k s) p \<noteq> None \<and> d_work s p \<noteq> 0)
    \<and> (d_list s \<noteq> [] \<longrightarrow> d_pending s \<or> d_running s)
    \<and> (\<forall>p \<in> set (d_list s). d_work s p AND DEFERRED_RELEASE \<noteq> 0 \<longrightarrow>
        (\<exists>x. k_procs (d_k s) p = Some x \<and> al_vma (p_alloc x) = None) \<and>
        (d_files s p = None \<or> d_work s p AND DEFERRED_PUT_FILES \<noteq> 0))"
proof -
  note ok = life_reach_ok [OF assms]
  have q: "distinct (d_list s)" "\<And>p. p \<in> set (d_list s) \<longleftrightarrow> k_procs (d_k s) p \<noteq> None \<and> d_work s p \<noteq> 0"
    "d_list s \<noteq> [] \<longrightarrow> d_pending s \<or> d_running s"
    using ok by (simp_all add: life_ok_def queue_fits_def vmas_None)
  have "(\<exists>x. k_procs (d_k s) p = Some x \<and> al_vma (p_alloc x) = None) \<and>
      (d_files s p = None \<or> d_work s p AND DEFERRED_PUT_FILES \<noteq> 0)"
    if "p \<in> set (d_list s)" "d_work s p AND DEFERRED_RELEASE \<noteq> 0" for p
  proof -
    have "vmas (d_k s) p \<noteq> None" using q(2) that(1) by (simp add: vmas_None)
    with that(2) ok have "vmas (d_k s) p = Some None" by (auto simp: life_ok_def ends_fit_def bit_of_def)
    with ok show ?thesis by (auto simp: life_ok_def ends_fit_def bit_of_def vmas_def)
  qed
  with q show ?thesis by blast
qed

section \<open>A whole run of the worker\<close>

definition given_back :: "dstate \<Rightarrow> nat \<Rightarrow> nat list" where
  "given_back s p = (if bit_of DEFERRED_PUT_FILES s p then case d_files s p of None \<Rightarrow> [] | Some f \<Rightarrow> [f] else [])"

definition drained :: "dstate \<Rightarrow> dstate \<Rightarrow> bool" where
  "drained s s' \<longleftrightarrow> d_list s' = []
     \<and> (\<forall>p. d_work s' p = (if p \<in> set (d_list s) then 0 else d_work s p))
     \<and> (\<forall>p. k_procs (d_k s') p = None \<longleftrightarrow>
          k_procs (d_k s) p = None \<or> (p \<in> set (d_list s) \<and> bit_of DEFERRED_RELEASE s p))
     \<and> d_put s' = d_put s @ concat (map (given_back s) (d_list s))"

lemma deferred_func_run:
  assumes "distinct (d_list s)" "\<And>p. p \<in> set (d_list s) \<Longrightarrow> k_procs (d_k s) p \<noteq> None"
  shows "post (binder_deferred_func A E s) (drained s)"
  using assms
proof (induction "d_list s" arbitrary: s)
  case Nil
  then show ?case
    by (subst binder_deferred_func.simps) (simp add: turn_none [OF Nil(1) [symmetric]] post_simps drained_def)
next
  case (Cons p ps)
  note l = Cons.hyps(2) [symmetric]
  have step: "post (binder_deferred_func A E s1) (drained s)"
    if s1: "d_list s1 = ps" "d_work s1 = (d_work s)(p := 0)"
      "d_files s1 = (if bit_of DEFERRED_PUT_FILES s p then (d_files s)(p := None) else d_files s)"
      "d_put s1 = d_put s @ given_back s p"
      "vmas (d_k s1) = (if bit_of DEFERRED_RELEASE s p then (vmas (d_k s))(p := None) else vmas (d_k s))" for s1
  proof -
    have none: "k_procs (d_k s1) q = None \<longleftrightarrow> k_procs (d_k s) q = None \<or> (q = p \<and> bit_of DEFERRED_RELEASE s p)" for q
      using s1(5) by (simp add: vmas_None [symmetric])
    have p: "p \<notin> set ps" "distinct ps" using Cons.prems(1) l by auto
    have same: "bit_of b s1 q = bit_of b s q" "d_files s1 q = d_files s q" if "q \<in> set ps" for b q
      using that p s1(2,3) by (auto simp: bit_of_def)
    have "k_procs (d_k s1) q \<noteq> None" if "q \<in> set ps" for q
      using none Cons.prems(2) that p(1) l by auto
    note IH = Cons.hyps(1) [of s1, unfolded s1(1), OF refl p(2) this]
    have m: "map (given_back s1) ps = map (given_back s) ps"
      using same by (intro map_cong) (simp_all add: given_back_def)
    show ?thesis
      by (rule post_weaken [OF IH]) (auto simp: drained_def none same m s1(1,2,4) l)
  qed
  show ?case
    by (subst binder_deferred_func.simps)
      (auto simp: post_simps given_back_def intro!: step post_weaken [OF turn_spec [OF l]])
qed

lemma deferred_func_ends:
  assumes "\<And>p. p \<in> set (d_list s) \<Longrightarrow> \<not> bit_of DEFERRED_RELEASE s p" "distinct (d_list s)"
  shows "binder_deferred_func A E s \<noteq> None"
  using assms
proof (induction "d_list s" arbitrary: s)
  case Nil
  then show ?case by (subst binder_deferred_func.simps) (simp add: turn_none [OF Nil(1) [symmetric]])
next
  case (Cons p ps)
  note l = Cons.hyps(2) [symmetric]
  have nr: "d_work s p AND DEFERRED_RELEASE = 0" using Cons.prems(1) l by (auto simp: bit_of_def)
  show ?case
  proof (cases "deferred_turn A E s")
    case None
    then show ?thesis using nr by (auto simp: deferred_turn_def l Let_def rbind_def split: option.splits cres.splits if_splits)
  next
    case (Some r)
    show ?thesis
    proof (cases r)
      case (Ret x)
      obtain again s1 where x: "x = (again, s1)" by (cases x)
      from turn_spec [OF l, of A E] Some Ret x have s1: again "d_list s1 = ps" "d_work s1 = (d_work s)(p := 0)"
        by (simp_all add: post_simps)
      have "\<not> bit_of DEFERRED_RELEASE s1 q" if "q \<in> set ps" for q
        using Cons.prems that l s1(3) by (auto simp: bit_of_def)
      then have "binder_deferred_func A E s1 \<noteq> None"
        using Cons.hyps(1) [of s1] Cons.prems(2) l s1(2) by auto
      then show ?thesis using Some Ret x s1(1) by (subst binder_deferred_func.simps) simp
    qed (use Some in \<open>subst binder_deferred_func.simps, simp\<close>)+
  qed
qed

text \<open>
  C10. When the worker is not disturbed it does all deferred work, once: it stops with an empty list,
  no work is left, exactly the processes whose end was due are gone, and exactly the file tables
  that were due are given back, in order. It does stop when no end of a process is due.
\<close>

theorem deferred_func_drains:
  assumes "life_reach A E (s, gone)"
  shows "((\<forall>p \<in> set (d_list s). d_work s p AND DEFERRED_RELEASE = 0) \<longrightarrow> binder_deferred_func A E s \<noteq> None)
    \<and> (\<forall>s'. binder_deferred_func A E s = ret s' \<longrightarrow> d_list s' = []
      \<and> (\<forall>p. k_procs (d_k s) p \<noteq> None \<longrightarrow> d_work s' p = 0 \<and>
           (k_procs (d_k s') p = None \<longleftrightarrow> d_work s p AND DEFERRED_RELEASE \<noteq> 0))
      \<and> d_put s' = d_put s @ concat (map (\<lambda>p. if d_work s p AND DEFERRED_PUT_FILES \<noteq> 0
           then case d_files s p of None \<Rightarrow> [] | Some f \<Rightarrow> [f] else []) (d_list s)))"
proof -
  have q: "distinct (d_list s)" "\<And>p. p \<in> set (d_list s) \<longleftrightarrow> k_procs (d_k s) p \<noteq> None \<and> d_work s p \<noteq> 0"
    using life_reach_ok [OF assms] by (simp_all add: life_ok_def queue_fits_def vmas_None)
  show ?thesis
    using deferred_func_run [of s A E] deferred_func_ends [of s A E] q
    by (auto simp: post_simps bit_of_def drained_def given_back_def [abs_def])
qed

end
