(* ===== verification/Drv_Deferred_Examples.thy ===== *)
theory Drv_Deferred_Examples
  imports Drv_Deferred_Claims Drv_World_Examples Drv_Examples
begin

text \<open>
  A process that opens the device, maps it, unmaps it and closes the file, and the worker that ends
  it: the inputs for the properties of deferred work.
\<close>

definition ex_d1 :: dstate where
  "ex_d1 = (life_start ex_boot)\<lparr>d_k := ex_k1\<rparr>"

definition ex_dk :: "nat option \<Rightarrow> kstate" where
  "ex_dk v = ex_k1\<lparr>k_procs := [100 \<mapsto> (fresh_proc 10 0)\<lparr>p_alloc := ex_al\<lparr>al_vma := v\<rparr>\<rparr>]\<rparr>"

definition ex_d2 :: dstate where
  "ex_d2 = ex_d1\<lparr>d_k := ex_dk (Some 1), d_files := [100 \<mapsto> 77]\<rparr>"

definition ex_d3 :: dstate where
  "ex_d3 = ex_d2\<lparr>d_k := ex_dk None, d_work := (\<lambda>_. 0)(100 := 1), d_list := [100], d_pending := True\<rparr>"

definition ex_d4 :: dstate where
  "ex_d4 = ex_d3\<lparr>d_work := (\<lambda>_. 0)(100 := 5)\<rparr>"

lemmas ex_life = ex_d4_def ex_d3_def ex_d2_def ex_d1_def ex_dk_def ex_k1_def ex_boot_def life_start_def

lemma ex_open: "open_file 10 0 (life_start ex_boot) = (0, Some 100, ex_d1)"
  by (simp add: open_file_def drv_open_def kzalloc_def stats_created_def Let_def ex_life fun_upd_idem)

lemma ex_map: "drv_mmap plain_rb ex_pg ex_mmap ex_vma (Some 77) 100 ex_d1 = Ret (0, ex_d2)"
proof -
  obtain v where "binder_mmap plain_rb ex_pg ex_mmap ex_vma ex_unmapped = Ret (0, v, ex_al)"
    using ex_mmap_run by blast
  moreover have "p_alloc (fresh_proc 10 0) = ex_unmapped" by (simp add: fresh_proc_def no_alloc_def ex_unmapped_def)
  moreover have "ex_al\<lparr>al_vma := Some 1\<rparr> = ex_al" by (simp add: ex_al_def)
  ultimately show ?thesis
    by (simp add: drv_mmap_def set_alloc_def upd_proc_def Let_def ex_life fun_upd_idem)
qed

lemma ex_unmap: "binder_vma_close 100 ex_d2 = Ret ex_d3"
  by (simp add: binder_vma_close_def binder_defer_work_def set_alloc_def upd_proc_def vma_closed_def Let_def ex_life
      DEFERRED_PUT_FILES_def)

lemma ex_close: "binder_release_file 100 ex_d3 = Ret ex_d4"
  by (simp add: binder_release_file_def binder_defer_work_def Let_def ex_life DEFERRED_RELEASE_def)

lemma ex_life_reach: "life_reach ex_abi ex_env (ex_d4, {100})"
proof -
  have "life_reach ex_abi ex_env (life_start ex_boot, {})" by (rule life_reach.boots) (simp add: ex_boot_def)
  then have "life_reach ex_abi ex_env (ex_d1, {} - {100})"
    by (rule life_reach.steps [OF _ life_step.opened [OF ex_open]]) (simp add: ex_life)
  then have "life_reach ex_abi ex_env (ex_d2, {} - {100})"
    by (rule life_reach.steps [OF _ life_step.mapped [OF _ ex_map]]) simp
  then have "life_reach ex_abi ex_env (ex_d3, {} - {100})"
    by (rule life_reach.steps [OF _ life_step.unmapped [OF _ ex_unmap]]) simp
  moreover have "vmas (d_k ex_d3) 100 = Some None" by (simp add: vmas_def ex_life)
  ultimately have "life_reach ex_abi ex_env (ex_d4, insert 100 ({} - {100}))"
    by (intro life_reach.steps [OF _ life_step.closed [OF _ _ ex_close]]) simp_all
  then show ?thesis by simp
qed

lemma deferred_work_safe_witness:
  "d_work ex_d4 100 AND DEFERRED_RELEASE \<noteq> 0 \<and>
   (\<exists>x. k_procs (d_k ex_d4) 100 = Some x \<and> al_vma (p_alloc x) = None) \<and>
   d_files ex_d4 100 = Some 77 \<and> d_work ex_d4 100 AND DEFERRED_PUT_FILES \<noteq> 0"
proof -
  have "100 \<in> set (d_list ex_d4)" "d_work ex_d4 100 AND DEFERRED_RELEASE \<noteq> 0" "d_files ex_d4 100 = Some 77"
    by (simp_all add: ex_life DEFERRED_RELEASE_def)
  moreover from this have "(\<exists>x. k_procs (d_k ex_d4) 100 = Some x \<and> al_vma (p_alloc x) = None) \<and>
      (d_files ex_d4 100 = None \<or> d_work ex_d4 100 AND DEFERRED_PUT_FILES \<noteq> 0)"
    using deferred_work_safe [OF ex_life_reach] by blast
  ultimately show ?thesis by simp
qed

lemma ex_release_empty:
  "\<exists>k'. binder_deferred_release ex_abi ex_env 100 (ex_dk None) = Some (Ret k')"
proof -
  have p: "k_procs (ex_dk None) 100 = Some ((fresh_proc 10 0)\<lparr>p_alloc := ex_al\<lparr>al_vma := None\<rparr>\<rparr>)"
    and "drop_mgr 100 (ex_dk None) = Ret (ex_dk None)"
    by (simp_all add: drop_mgr_def ex_life)
  moreover have "free_threads ex_abi ex_env 100 (ex_dk None) = ret (ex_dk None)"
    by (subst free_threads.simps) (simp add: first_of_def tree_first_def p fresh_proc_def)
  moreover have "release_nodes ex_abi ex_env 100 0 (ex_dk None) = ret (ex_dk None)"
    by (subst release_nodes.simps) (simp add: first_of_def tree_first_def p fresh_proc_def)
  moreover have "delete_refs ex_env 100 (ex_dk None) = ret (ex_dk None)"
    by (subst delete_refs.simps) (simp add: first_of_def tree_first_def p fresh_proc_def)
  moreover have "binder_release_work ex_abi l (ex_dk None) = ret (ex_dk None)" if "l = Proc_todo 100 \<or> l = Delivered 100" for l
    using that by (subst binder_release_work.simps) (auto simp: p fresh_proc_def)
  moreover have "free_bufs ex_env 100 (ex_dk None) = ret (ex_dk None)"
    by (subst free_bufs.simps) (simp add: first_of_def tree_first_def p ex_al_def)
  ultimately show ?thesis by (simp add: binder_deferred_release_def)
qed

lemma deferred_func_drains_witness:
  "\<exists>s'. binder_deferred_func ex_abi ex_env ex_d4 = ret s' \<and> d_list s' = [] \<and> d_put s' = [77] \<and>
     k_procs (d_k s') 100 = None"
proof -
  obtain k' where k': "binder_deferred_release ex_abi ex_env 100 (ex_dk None) = Some (Ret k')"
    using ex_release_empty by blast
  let ?s = "ex_d4\<lparr>d_k := k', d_list := [], d_work := (\<lambda>_. 0), d_files := Map.empty, d_put := [77]\<rparr>"
  have turn: "deferred_turn ex_abi ex_env ex_d4 = ret (True, ?s)"
    using k' by (simp add: deferred_turn_def ex_d4_def ex_d3_def ex_d2_def ex_d1_def life_start_def Let_def
        DEFERRED_PUT_FILES_def DEFERRED_FLUSH_def DEFERRED_RELEASE_def) (simp add: ex_dk_def fun_upd_idem)
  have "binder_deferred_func ex_abi ex_env ?s = ret ?s"
    by (subst binder_deferred_func.simps) (simp add: deferred_turn_def)
  then have run: "binder_deferred_func ex_abi ex_env ex_d4 = ret ?s"
    by (subst binder_deferred_func.simps) (simp add: turn)
  moreover have "k_procs (d_k ex_d4) 100 \<noteq> None" "d_work ex_d4 100 AND DEFERRED_RELEASE \<noteq> 0"
    by (simp_all add: ex_life DEFERRED_RELEASE_def)
  ultimately show ?thesis using deferred_func_drains [OF ex_life_reach] by fastforce
qed

end
