(* ===== verification/Jni_Binder.thy ===== *)
theory Jni_Binder
  imports Bp_Binder
begin

text \<open>
  The identities of binders between Java and C++, \<open>jni/android_util_Binder.cpp\<close>: the holder
  and the native object of a Java \<open>Binder\<close>, the Java proxies of native binders, their
  conversions in both directions, and what the garbage collector and the finalizers do to them.

  Java objects and native objects are named by 64-bit words. The virtual machine is the part of
  the state that JNI shows: which Java object has which class and long fields, and whether the weak
  reference of a proxy still yields it. What a native binder remembers of its proxy is kept by the
  attached objects of \<^theory_text>\<open>Bp_Binder\<close>, under the key
  \<open>&gBinderProxyOffsets\<close>. The native object of a Java binder is freed with its last strong
  pointer, and a weak pointer to it is cleared then: it can no longer be promoted. The constructor
  of a native proxy extends its life to its weak pointers (\<open>native/BpBinder.cpp\<close>): it is freed
  when neither a strong nor a weak pointer is left, and until then a weak pointer may be promoted.
\<close>

section \<open>State\<close>

type_synonym jid = u64
type_synonym nid = u64

datatype ibinder = Local nid | Remote nid

record proxy_t =
  px_mObject :: "nid option"     \<comment> \<open>the native binder; 0 in the field is \<open>None\<close>\<close>
  px_mOrgue :: "nid option"      \<comment> \<open>its list of death recipients\<close>
  px_reachable :: bool           \<comment> \<open>whether the weak reference \<open>mSelf\<close> yields it\<close>

record holder_t =
  ho_strong :: nat
  ho_mBinder :: "nid option"     \<comment> \<open>the weak pointer\<close>

record jbbinder_t =
  jb_mObject :: jid              \<comment> \<open>a global reference\<close>
  jb_strong :: nat

record remote_t =
  rm_strong :: nat
  rm_weak :: nat                 \<comment> \<open>weak pointers; those that come with strong ones are not counted\<close>
  rm_objects :: "(u64 \<times> entry_t) list"

record jni =
  jn_binders :: "jid \<rightharpoonup> nid option"    \<comment> \<open>the Java binders, with \<open>mObject\<close>, their holder\<close>
  jn_proxies :: "jid \<rightharpoonup> proxy_t"
  jn_holders :: "nid \<rightharpoonup> holder_t"
  jn_local :: "nid \<rightharpoonup> jbbinder_t"
  jn_remote :: "nid \<rightharpoonup> remote_t"
  jn_lists :: "nid \<rightharpoonup> nat"               \<comment> \<open>the strong counts of the recipient lists\<close>
  gNumRefsCreated :: nat
  gNumProxyRefs :: int
  gNumLocalRefs :: int
  jn_forced_gcs :: nat

definition gBinderProxyOffsets :: u64 where
  \<comment> \<open>the address that serves as the key; its value does not matter\<close>
  "gBinderProxyOffsets = 1"

definition proxy_cleanup_func :: u64 where
  "proxy_cleanup_func = 2"

definition proxy_entry :: "jid \<Rightarrow> entry_t" where
  "proxy_entry refObject =
     \<lparr>en_object = refObject, en_cleanupCookie = 0, en_func = Some proxy_cleanup_func\<rparr>"

definition incRefsCreated :: "jni \<Rightarrow> jni" where
  "incRefsCreated s =
     (let old = gNumRefsCreated s in
      if old = 200 then s\<lparr>gNumRefsCreated := 0, jn_forced_gcs := jn_forced_gcs s + 1\<rparr>
      else s\<lparr>gNumRefsCreated := old + 1\<rparr>)"

definition android_os_BinderInternal_handleGc :: "jni \<Rightarrow> jni" where
  "android_os_BinderInternal_handleGc s = s\<lparr>gNumRefsCreated := 0\<rparr>"

section \<open>References to native binders\<close>

definition incStrong :: "ibinder \<Rightarrow> jni \<Rightarrow> jni" where
  "incStrong v s =
     (case v of
        Local b \<Rightarrow> s\<lparr>jn_local := (jn_local s)(b := map_option (\<lambda>j. j\<lparr>jb_strong := jb_strong j + 1\<rparr>) (jn_local s b))\<rparr>
      | Remote r \<Rightarrow> s\<lparr>jn_remote := (jn_remote s)(r := map_option (\<lambda>m. m\<lparr>rm_strong := rm_strong m + 1\<rparr>) (jn_remote s r))\<rparr>)"

definition delete_JavaBBinder :: "nid \<Rightarrow> jni \<Rightarrow> jni" where
  "delete_JavaBBinder b s =
     s\<lparr>jn_local := (jn_local s)(b := None), gNumLocalRefs := gNumLocalRefs s - 1,
       jn_holders := (\<lambda>h. map_option (\<lambda>ho. if ho_mBinder ho = Some b then ho\<lparr>ho_mBinder := None\<rparr> else ho)
                       (jn_holders s h))\<rparr>"

definition proxy_cleanup :: "jni \<Rightarrow> jni" where
  "proxy_cleanup s = s\<lparr>gNumProxyRefs := gNumProxyRefs s - 1\<rparr>"

definition delete_remote :: "nid \<Rightarrow> remote_t \<Rightarrow> jni \<Rightarrow> jni" where
  \<comment> \<open>the destructor of the native proxy calls the clean-up function of what is attached\<close>
  "delete_remote r m s =
     fold (\<lambda>(k, e) s. if en_func e = Some proxy_cleanup_func then proxy_cleanup s else s) (rm_objects m)
       (s\<lparr>jn_remote := (jn_remote s)(r := None)\<rparr>)"

definition set_remote :: "nid \<Rightarrow> remote_t \<Rightarrow> jni \<Rightarrow> jni" where
  \<comment> \<open>the counts after a release: the last pointer of either kind frees the proxy\<close>
  "set_remote r m s =
     (if rm_strong m = 0 \<and> rm_weak m = 0 then delete_remote r m s
      else s\<lparr>jn_remote := (jn_remote s)(r \<mapsto> m)\<rparr>)"

definition decStrong :: "ibinder \<Rightarrow> jni \<Rightarrow> jni" where
  "decStrong v s =
     (case v of
        Local b \<Rightarrow> (case jn_local s b of
            None \<Rightarrow> s
          | Some j \<Rightarrow> if jb_strong j \<le> 1 then delete_JavaBBinder b s
                      else s\<lparr>jn_local := (jn_local s)(b \<mapsto> j\<lparr>jb_strong := jb_strong j - 1\<rparr>)\<rparr>)
      | Remote r \<Rightarrow> (case jn_remote s r of
            None \<Rightarrow> s
          | Some m \<Rightarrow> set_remote r (m\<lparr>rm_strong := rm_strong m - 1\<rparr>) s))"

definition incWeak :: "nid \<Rightarrow> jni \<Rightarrow> jni" where
  "incWeak r s =
     s\<lparr>jn_remote := (jn_remote s)(r := map_option (\<lambda>m. m\<lparr>rm_weak := rm_weak m + 1\<rparr>) (jn_remote s r))\<rparr>"

definition decWeak :: "nid \<Rightarrow> jni \<Rightarrow> jni" where
  "decWeak r s =
     (case jn_remote s r of
        None \<Rightarrow> s
      | Some m \<Rightarrow> set_remote r (m\<lparr>rm_weak := rm_weak m - 1\<rparr>) s)"

section \<open>Java binders\<close>

definition android_os_Binder_init :: "jid \<Rightarrow> nid option \<Rightarrow> jni \<Rightarrow> bool \<times> jni" where
  \<comment> \<open>for the address of the new holder, if there is memory; \<open>False\<close> when it throws\<close>
  "android_os_Binder_init obj new s =
     (case new of
        None \<Rightarrow> (False, s)
      | Some h \<Rightarrow> (True, s\<lparr>jn_holders := (jn_holders s)(h \<mapsto> \<lparr>ho_strong = 1, ho_mBinder = None\<rparr>),
                          jn_binders := (jn_binders s)(obj \<mapsto> Some h)\<rparr>))"

definition android_os_Binder_destroy :: "jid \<Rightarrow> jni \<Rightarrow> jni" where
  "android_os_Binder_destroy obj s =
     (case jn_binders s obj of
        Some (Some h) \<Rightarrow>
          (let s = s\<lparr>jn_binders := (jn_binders s)(obj \<mapsto> None)\<rparr> in
           case jn_holders s h of
             None \<Rightarrow> s
           | Some ho \<Rightarrow> if ho_strong ho \<le> 1 then s\<lparr>jn_holders := (jn_holders s)(h := None)\<rparr>
                        else s\<lparr>jn_holders := (jn_holders s)(h \<mapsto> ho\<lparr>ho_strong := ho_strong ho - 1\<rparr>)\<rparr>)
      | _ \<Rightarrow> s)"

definition new_JavaBBinder :: "nid \<Rightarrow> jid \<Rightarrow> jni \<Rightarrow> jni" where
  "new_JavaBBinder b obj s =
     incRefsCreated (s\<lparr>jn_local := (jn_local s)(b \<mapsto> \<lparr>jb_mObject = obj, jb_strong = 0\<rparr>),
                       gNumLocalRefs := gNumLocalRefs s + 1\<rparr>)"

definition holder_get :: "nid \<Rightarrow> nid \<Rightarrow> jid \<Rightarrow> jni \<Rightarrow> ibinder option \<times> jni" where
  \<comment> \<open>\<open>JavaBBinderHolder::get\<close>; \<open>new\<close> is the address of a new native object\<close>
  "holder_get new h obj s =
     (case jn_holders s h of
        None \<Rightarrow> (None, s)
      | Some ho \<Rightarrow>
          (case ho_mBinder ho of
             Some b \<Rightarrow> (Some (Local b), incStrong (Local b) s)
           | None \<Rightarrow>
               let s = incStrong (Local new) (new_JavaBBinder new obj s)
               in (Some (Local new), s\<lparr>jn_holders := (jn_holders s)(h \<mapsto> ho\<lparr>ho_mBinder := Some new\<rparr>)\<rparr>)))"

section \<open>Conversions\<close>

definition ibinderForJavaObject :: "nid \<Rightarrow> jid option \<Rightarrow> jni \<Rightarrow> ibinder option \<times> jni" where
  \<comment> \<open>the result is a strong pointer of the caller\<close>
  "ibinderForJavaObject new obj s =
     (case obj of
        None \<Rightarrow> (None, s)
      | Some p \<Rightarrow>
          (case jn_binders s p of
             Some mObject \<Rightarrow>
               (case mObject of None \<Rightarrow> (None, s) | Some h \<Rightarrow> holder_get new h p s)
           | None \<Rightarrow>
               (case jn_proxies s p of
                  Some x \<Rightarrow>
                    (case px_mObject x of None \<Rightarrow> (None, s) | Some r \<Rightarrow> (Some (Remote r), incStrong (Remote r) s))
                | None \<Rightarrow> (None, s))))"

definition new_proxy :: "(jid \<times> nid) option \<Rightarrow> nid \<Rightarrow> jni \<Rightarrow> jid option \<times> jni" where
  \<comment> \<open>\<open>NewObject\<close> and what is tied to a proxy that it returns: the names of the proxy and of
      its list of death recipients\<close>
  "new_proxy new r s =
     (case new of
        None \<Rightarrow> (None, s)
      | Some (p, d) \<Rightarrow>
          let s = incStrong (Remote r) s;
              s = s\<lparr>jn_remote := (jn_remote s)(r := map_option (\<lambda>m. m\<lparr>rm_objects :=
                     om_attach gBinderProxyOffsets (proxy_entry p) (rm_objects m)\<rparr>) (jn_remote s r)),
                   jn_lists := (jn_lists s)(d \<mapsto> 1),
                   jn_proxies := (jn_proxies s)(p \<mapsto>
                     \<lparr>px_mObject = Some r, px_mOrgue = Some d, px_reachable = True\<rparr>),
                   gNumProxyRefs := gNumProxyRefs s + 1\<rparr>
          in (Some p, incRefsCreated s))"

definition jniGetReferent :: "jid \<Rightarrow> jni \<Rightarrow> jid option" where
  "jniGetReferent p s =
     (case jn_proxies s p of None \<Rightarrow> None | Some x \<Rightarrow> if px_reachable x then Some p else None)"

definition javaObjectForIBinder :: "(jid \<times> nid) option \<Rightarrow> ibinder option \<Rightarrow> jni \<Rightarrow> jid option \<times> jni" where
  "javaObjectForIBinder new val s =
     (case val of
        None \<Rightarrow> (None, s)
      | Some (Local b) \<Rightarrow> (map_option jb_mObject (jn_local s b), s)
      | Some (Remote r) \<Rightarrow>
          (case jn_remote s r of
             None \<Rightarrow> (None, s)
           | Some m \<Rightarrow>
               (case om_find gBinderProxyOffsets (rm_objects m) of
                  None \<Rightarrow> new_proxy new r s
                | Some object \<Rightarrow>
                    (case jniGetReferent object s of
                       Some res \<Rightarrow> (Some res, s)
                     | None \<Rightarrow>
                         new_proxy new r
                           (s\<lparr>gNumProxyRefs := gNumProxyRefs s - 1,
                             jn_remote := (jn_remote s)(r \<mapsto> m\<lparr>rm_objects :=
                               om_detach gBinderProxyOffsets (rm_objects m)\<rparr>)\<rparr>)))))"

definition android_os_BinderProxy_destroy :: "jid \<Rightarrow> jni \<Rightarrow> jni" where
  "android_os_BinderProxy_destroy obj s =
     (case jn_proxies s obj of
        None \<Rightarrow> s
      | Some x \<Rightarrow>
          (case px_mObject x of
             None \<Rightarrow> s
           | Some r \<Rightarrow>
               let s = s\<lparr>jn_proxies := (jn_proxies s)(obj \<mapsto> x\<lparr>px_mObject := None, px_mOrgue := None\<rparr>)\<rparr>;
                   s = (case px_mOrgue x of None \<Rightarrow> s
                        | Some d \<Rightarrow> s\<lparr>jn_lists := (jn_lists s)(d := (case jn_lists s d of None \<Rightarrow> None
                            | Some n \<Rightarrow> if n \<le> 1 then None else Some (n - 1)))\<rparr>)
               in decStrong (Remote r) s))"

section \<open>What can happen\<close>

text \<open>
  A configuration adds how many strong pointers to each native binder, and how many weak pointers
  to each native proxy, the rest of the process holds: the death notification of a proxy is such
  a weak pointer. The steps are the calls of Java and C++ code and those of the collector: a proxy that Java
  no longer reaches loses its weak reference, and only then is it finalized; a Java binder is
  finalized only when no native object keeps it by a global reference. New objects have new names.
\<close>

type_synonym jconf = "jni \<times> (ibinder \<Rightarrow> nat) \<times> (nid \<Rightarrow> nat)"

inductive jni_step :: "jconf \<Rightarrow> jconf \<Rightarrow> bool" where
  new_binder:
    "jn_binders s obj = None \<Longrightarrow> jn_proxies s obj = None \<Longrightarrow> jn_holders s h = None \<Longrightarrow>
     android_os_Binder_init obj (Some h) s = (ok, s') \<Longrightarrow> jni_step (s, ext, wk) (s', ext, wk)"
| finalize_binder:
    "\<forall>b j. jn_local s b = Some j \<longrightarrow> jb_mObject j \<noteq> obj \<Longrightarrow>
     jni_step (s, ext, wk) (android_os_Binder_destroy obj s, ext, wk)"
| to_native:
    "jn_local s new = None \<Longrightarrow> (\<forall>x. jn_proxies s p = Some x \<longrightarrow> px_reachable x) \<Longrightarrow>
     ibinderForJavaObject new (Some p) s = (Some v, s') \<Longrightarrow>
     jni_step (s, ext, wk) (s', ext(v := ext v + 1), wk)"
| to_java:
    "0 < ext v \<Longrightarrow> (\<forall>p d. new = Some (p, d) \<longrightarrow>
       jn_binders s p = None \<and> jn_proxies s p = None \<and> jn_lists s d = None) \<Longrightarrow>
     javaObjectForIBinder new (Some v) s = (res, s') \<Longrightarrow> jni_step (s, ext, wk) (s', ext, wk)"
| new_remote:
    "jn_remote s r = None \<Longrightarrow>
     jni_step (s, ext, wk) (s\<lparr>jn_remote := (jn_remote s)(r \<mapsto> \<lparr>rm_strong = 1, rm_weak = 0, rm_objects = []\<rparr>)\<rparr>,
       ext(Remote r := ext (Remote r) + 1), wk)"
| new_weak_remote:
    "jn_remote s r = None \<Longrightarrow>
     jni_step (s, ext, wk)
       (s\<lparr>jn_remote := (jn_remote s)(r \<mapsto> \<lparr>rm_strong = 0, rm_weak = 1, rm_objects = []\<rparr>)\<rparr>,
        ext, wk(r := wk r + 1))"
| copy_pointer: "0 < ext v \<Longrightarrow> jni_step (s, ext, wk) (incStrong v s, ext(v := ext v + 1), wk)"
| drop_pointer: "0 < ext v \<Longrightarrow> jni_step (s, ext, wk) (decStrong v s, ext(v := ext v - 1), wk)"
| take_weak:
    "0 < ext (Remote r) \<or> 0 < wk r \<or> (\<exists>p x. jn_proxies s p = Some x \<and> px_mObject x = Some r) \<Longrightarrow>
     jni_step (s, ext, wk) (incWeak r s, ext, wk(r := wk r + 1))"
| drop_weak: "0 < wk r \<Longrightarrow> jni_step (s, ext, wk) (decWeak r s, ext, wk(r := wk r - 1))"
| promote:
    "0 < wk r \<Longrightarrow> jni_step (s, ext, wk) (incStrong (Remote r) s, ext(Remote r := ext (Remote r) + 1), wk)"
| collect:
    "jn_proxies s p = Some x \<Longrightarrow>
     jni_step (s, ext, wk) (s\<lparr>jn_proxies := (jn_proxies s)(p \<mapsto> x\<lparr>px_reachable := False\<rparr>)\<rparr>, ext, wk)"
| finalize_proxy:
    "jn_proxies s p = Some x \<Longrightarrow> \<not> px_reachable x \<Longrightarrow>
     jni_step (s, ext, wk) (android_os_BinderProxy_destroy p s, ext, wk)"
| gc_done: "jni_step (s, ext, wk) (android_os_BinderInternal_handleGc s, ext, wk)"

definition jni_start :: jni where
  "jni_start =
     \<lparr>jn_binders = Map.empty, jn_proxies = Map.empty, jn_holders = Map.empty, jn_local = Map.empty,
      jn_remote = Map.empty, jn_lists = Map.empty, gNumRefsCreated = 0, gNumProxyRefs = 0,
      gNumLocalRefs = 0, jn_forced_gcs = 0\<rparr>"

inductive jni_reach :: "jconf \<Rightarrow> bool" where
  start: "jni_reach (jni_start, \<lambda>_. 0, \<lambda>_. 0)"
| step: "jni_reach c \<Longrightarrow> jni_step c c' \<Longrightarrow> jni_reach c'"

inductive_cases jni_stepE: "jni_step c c'"

end
