(* ===== verification/Jni_Binder_Correct.thy ===== *)
theory Jni_Binder_Correct
  imports Jni_Binder
begin

text \<open>
  The invariant of the conversions of \<^theory_text>\<open>Jni_Binder\<close>, in two independent parts: the
  Java binders with their native objects, and the native binders with their Java proxies. Every
  step of a process keeps both, whatever Java code, C++ code and the collector do and in any order.
\<close>

section \<open>Java binders and their native objects\<close>

definition locals_ok :: "(jid \<rightharpoonup> nid option) \<Rightarrow> (nid \<rightharpoonup> holder_t) \<Rightarrow> (nid \<rightharpoonup> jbbinder_t) \<Rightarrow> int \<Rightarrow> (nid \<Rightarrow> nat) \<Rightarrow> bool" where
  "locals_ok B H L n e \<longleftrightarrow>
     (\<forall>b j. L b = Some j \<longrightarrow> jb_strong j = e b \<and> 0 < e b \<and>
        (\<exists>h ho. B (jb_mObject j) = Some (Some h) \<and> H h = Some ho \<and> ho_mBinder ho = Some b)) \<and>
     (\<forall>obj h. B obj = Some (Some h) \<longrightarrow> (\<exists>ho. H h = Some ho \<and> ho_strong ho = 1 \<and>
        (\<forall>b. ho_mBinder ho = Some b \<longrightarrow> (\<exists>j. L b = Some j \<and> jb_mObject j = obj)))) \<and>
     (\<forall>obj obj' h. B obj = Some (Some h) \<longrightarrow> B obj' = Some (Some h) \<longrightarrow> obj = obj') \<and>
     (\<forall>b. 0 < e b \<longrightarrow> L b \<noteq> None) \<and>
     n = int (card (dom L))"

lemma locals_D:
  assumes "locals_ok B H L n e"
  shows "L b = Some j \<Longrightarrow> jb_strong j = e b \<and> 0 < e b \<and>
      (\<exists>h ho. B (jb_mObject j) = Some (Some h) \<and> H h = Some ho \<and> ho_mBinder ho = Some b)"
    "B obj = Some (Some h) \<Longrightarrow> \<exists>ho. H h = Some ho \<and> ho_strong ho = 1 \<and>
        (\<forall>b. ho_mBinder ho = Some b \<longrightarrow> (\<exists>j. L b = Some j \<and> jb_mObject j = obj))"
    "B obj = Some (Some h) \<Longrightarrow> B obj' = Some (Some h) \<Longrightarrow> obj = obj'"
    "L b = None \<Longrightarrow> e b = 0" "n = int (card (dom L))"
  using assms unfolding locals_ok_def by blast+

lemma finite_dom_word [simp]: "finite (dom (f :: u64 \<rightharpoonup> 'a))"
  by (rule finite_subset [OF subset_UNIV]) simp

lemma card_dom_new: "L b = None \<Longrightarrow> card (dom (L(b \<mapsto> x))) = card (dom (L :: u64 \<rightharpoonup> 'a)) + 1"
  by (simp add: domIff)

lemma card_dom_del: "L b = Some x \<Longrightarrow> card (dom (L(b := None))) + 1 = card (dom (L :: u64 \<rightharpoonup> 'a))"
  using card_Suc_Diff1 [OF finite_dom_word, of b L] by (simp add: domI)

lemma card_dom_same: "L b = Some y \<Longrightarrow> card (dom (L(b \<mapsto> x))) = card (dom (L :: u64 \<rightharpoonup> 'a))"
  by (simp add: insert_absorb domI)

lemma locals_init:
  assumes "locals_ok B H L n e" "B obj = None" "H h = None"
  shows "locals_ok (B(obj \<mapsto> Some h)) (H(h \<mapsto> \<lparr>ho_strong = 1, ho_mBinder = None\<rparr>)) L n e"
proof -
  have fresh: "B o' \<noteq> Some (Some h)" for o' using locals_D(2) [OF assms(1)] assms(3) by fastforce
  have l: "jb_mObject j \<noteq> obj" if "L b = Some j" for b j
    using locals_D(1) [OF assms(1) that] assms(2) by auto
  show ?thesis
    unfolding locals_ok_def
  proof (intro conjI, goal_cases)
    case 1 show ?case
      using l locals_D(1) [OF assms(1)] fresh by (fastforce split: if_splits)
  next
    case 2 show ?case using fresh locals_D(2) [OF assms(1)] by (auto split: if_splits)
  next
    case 3 show ?case using fresh locals_D(3) [OF assms(1)] by (auto split: if_splits)
  next
    case 4 show ?case using assms(1) by (auto simp: locals_ok_def)
  next
    case 5 show ?case by (rule locals_D(5) [OF assms(1)])
  qed
qed

lemma locals_destroy:
  assumes "locals_ok B H L n e" "B obj = Some (Some h)" "\<forall>b j. L b = Some j \<longrightarrow> jb_mObject j \<noteq> obj"
  shows "locals_ok (B(obj \<mapsto> None)) (H(h := None)) L n e"
proof -
  have other: "h' \<noteq> h" if "o' \<noteq> obj" "B o' = Some (Some h')" for o' h'
    using locals_D(3) [OF assms(1)] assms(2) that by blast
  show ?thesis
    unfolding locals_ok_def
  proof (intro conjI, goal_cases)
    case 1
    have "\<exists>h' ho. jb_mObject j \<noteq> obj \<and> h' \<noteq> h \<and> B (jb_mObject j) = Some (Some h') \<and> H h' = Some ho
        \<and> ho_mBinder ho = Some b" if "L b = Some j" for b j
      using locals_D(1) [OF assms(1) that] assms(3) that other by metis
    then show ?case using locals_D(1) [OF assms(1)] by fastforce
  next
    case 2 show ?case using other locals_D(2) [OF assms(1)] by (auto split: if_splits)
  next
    case 3 show ?case using locals_D(3) [OF assms(1)] by (auto split: if_splits)
  next
    case 4 show ?case using assms(1) by (auto simp: locals_ok_def)
  next
    case 5 show ?case by (rule locals_D(5) [OF assms(1)])
  qed
qed

lemma locals_new:
  assumes "locals_ok B H L n e" "B obj = Some (Some h)" "H h = Some ho" "ho_mBinder ho = None" "L b = None"
  shows "locals_ok B (H(h \<mapsto> ho\<lparr>ho_mBinder := Some b\<rparr>)) (L(b \<mapsto> \<lparr>jb_mObject = obj, jb_strong = Suc 0\<rparr>))
    (n + 1) (e(b := e b + 1))"
proof -
  have e: "e b = 0" using locals_D(4) [OF assms(1,5)] .
  have s: "ho_strong ho = 1" using locals_D(2) [OF assms(1,2)] assms(3) by auto
  have other: "h' \<noteq> h" if "o' \<noteq> obj" "B o' = Some (Some h')" for o' h'
    using locals_D(3) [OF assms(1)] assms(2) that by blast
  have nb: "ho_mBinder ho' \<noteq> Some b" if "B o' = Some (Some h')" "H h' = Some ho'" for o' h' ho'
    using locals_D(2) [OF assms(1) that(1)] that(2) assms(5) by auto
  have ln: "\<exists>h' ho'. h' \<noteq> h \<and> B (jb_mObject j) = Some (Some h') \<and> H h' = Some ho' \<and> ho_mBinder ho' = Some b'"
    if "L b' = Some j" for b' j
    using locals_D(1) [OF assms(1) that] assms(3,4) by auto
  have n: "n + 1 = int (card (dom (L(b \<mapsto> \<lparr>jb_mObject = obj, jb_strong = Suc 0\<rparr>))))"
    using locals_D(5) [OF assms(1)] card_dom_new [of L b, OF assms(5)] by (simp del: dom_fun_upd)
  show ?thesis
    unfolding locals_ok_def
  proof (intro conjI, goal_cases)
    case 1 show ?case using e assms(2) ln locals_D(1) [OF assms(1)] by (fastforce split: if_splits)
  next
    case 2 show ?case using s other nb assms(2,3) locals_D(2,3) [OF assms(1)]
      by (auto split: if_splits; metis)
  next
    case 3 show ?case using locals_D(3) [OF assms(1)] by blast
  next
    case 4 show ?case using assms(1) by (auto simp: locals_ok_def)
  next
    case 5 show ?case by (rule n)
  qed
qed

lemma locals_count:
  assumes "locals_ok B H L n e" "L b = Some j" "0 < k"
  shows "locals_ok B H (L(b \<mapsto> j\<lparr>jb_strong := k\<rparr>)) n (e(b := k))"
proof -
  have n: "n = int (card (dom (L(b \<mapsto> j\<lparr>jb_strong := k\<rparr>))))"
    using locals_D(5) [OF assms(1)] card_dom_same [of L b, OF assms(2)] by (simp del: dom_fun_upd)
  show ?thesis
    unfolding locals_ok_def
  proof (intro conjI, goal_cases)
    case 1 show ?case using assms(2,3) locals_D(1) [OF assms(1)] by auto
  next
    case 2 show ?case using assms(2) locals_D(2) [OF assms(1)] by fastforce
  next
    case 3 show ?case using locals_D(3) [OF assms(1)] by blast
  next
    case 4 show ?case using assms(1) by (auto simp: locals_ok_def)
  next
    case 5 show ?case by (rule n)
  qed
qed

lemma locals_delete:
  assumes "locals_ok B H L n e" "L b = Some j"
  shows "locals_ok B
    (\<lambda>h. map_option (\<lambda>ho. if ho_mBinder ho = Some b then ho\<lparr>ho_mBinder := None\<rparr> else ho) (H h))
    (L(b := None)) (n - 1) (e(b := 0))"
proof -
  have n: "n - 1 = int (card (dom (L(b := None))))"
    using locals_D(5) [OF assms(1)] card_dom_del [of L b, OF assms(2)] by (simp del: dom_fun_upd)
  show ?thesis
    unfolding locals_ok_def
  proof (intro conjI, goal_cases)
    case 1 show ?case using locals_D(1) [OF assms(1)] by (fastforce split: if_splits)
  next
    case 2 show ?case using locals_D(2) [OF assms(1)] by (fastforce split: if_splits)
  next
    case 3 show ?case using locals_D(3) [OF assms(1)] by blast
  next
    case 4 show ?case using assms(1) by (auto simp: locals_ok_def)
  next
    case 5 show ?case by (rule n)
  qed
qed

section \<open>Native binders and their proxies\<close>

definition proxies_on :: "(jid \<rightharpoonup> proxy_t) \<Rightarrow> nid \<Rightarrow> jid set" where
  "proxies_on X r = {p. \<exists>x. X p = Some x \<and> px_mObject x = Some r}"

definition proxy_fields_ok :: "(nid \<rightharpoonup> remote_t) \<Rightarrow> (nid \<rightharpoonup> nat) \<Rightarrow> jid \<Rightarrow> proxy_t \<Rightarrow> bool" where
  "proxy_fields_ok R D p x \<longleftrightarrow>
     (case px_mObject x of
        None \<Rightarrow> \<not> px_reachable x \<and> px_mOrgue x = None
      | Some r \<Rightarrow> (\<exists>m. R r = Some m \<and>
            (px_reachable x \<longrightarrow> om_find gBinderProxyOffsets (rm_objects m) = Some p)) \<and>
          (\<exists>d. px_mOrgue x = Some d \<and> D d = Some 1))"

definition attached_ok :: "(jid \<rightharpoonup> proxy_t) \<Rightarrow> nid \<Rightarrow> remote_t \<Rightarrow> bool" where
  "attached_ok X r m \<longleftrightarrow> rm_objects m = [] \<or>
     (\<exists>p x. rm_objects m = [(gBinderProxyOffsets, proxy_entry p)] \<and> X p = Some x \<and>
        (px_mObject x = None \<or> px_mObject x = Some r))"

definition proxies_ok :: "(jid \<rightharpoonup> proxy_t) \<Rightarrow> (nid \<rightharpoonup> remote_t) \<Rightarrow> (nid \<rightharpoonup> nat) \<Rightarrow> int \<Rightarrow> (nid \<Rightarrow> nat)
    \<Rightarrow> (nid \<Rightarrow> nat) \<Rightarrow> bool" where
  "proxies_ok X R D n e w \<longleftrightarrow>
     (\<forall>p x. X p = Some x \<longrightarrow> proxy_fields_ok R D p x) \<and>
     (\<forall>r m. R r = Some m \<longrightarrow>
        rm_strong m = e r + card (proxies_on X r) \<and> rm_weak m = w r \<and> 0 < rm_strong m + rm_weak m \<and>
        attached_ok X r m) \<and>
     (\<forall>p p' x x' d. X p = Some x \<longrightarrow> X p' = Some x' \<longrightarrow> px_mOrgue x = Some d \<longrightarrow>
        px_mOrgue x' = Some d \<longrightarrow> p = p') \<and>
     (\<forall>r. 0 < e r + w r \<longrightarrow> R r \<noteq> None) \<and>
     n = int (card {r. \<exists>m. R r = Some m \<and> rm_objects m \<noteq> []})"

lemma proxies_D:
  assumes "proxies_ok X R D n e w"
  shows "X p = Some x \<Longrightarrow> proxy_fields_ok R D p x"
    "R r = Some m \<Longrightarrow> rm_strong m = e r + card (proxies_on X r) \<and> rm_weak m = w r"
    "R r = Some m \<Longrightarrow> 0 < rm_strong m + rm_weak m" "R r = Some m \<Longrightarrow> attached_ok X r m"
    "X p = Some x \<Longrightarrow> X p' = Some x' \<Longrightarrow> px_mOrgue x = Some d \<Longrightarrow> px_mOrgue x' = Some d \<Longrightarrow> p = p'"
    "R r = None \<Longrightarrow> e r = 0 \<and> w r = 0" "n = int (card {r. \<exists>m. R r = Some m \<and> rm_objects m \<noteq> []})"
proof -
  note c1 = assms [unfolded proxies_ok_def]
  note c2 = conjunct2 [OF c1]
  note c3 = conjunct2 [OF c2]
  note c4 = conjunct2 [OF c3]
  note all = conjunct1 [OF c1, rule_format] conjunct1 [OF c2, rule_format] conjunct1 [OF c3, rule_format]
    conjunct1 [OF c4, rule_format] conjunct2 [OF c4]
  show "X p = Some x \<Longrightarrow> proxy_fields_ok R D p x" by (rule all(1))
  show "R r = Some m \<Longrightarrow> rm_strong m = e r + card (proxies_on X r) \<and> rm_weak m = w r"
    "R r = Some m \<Longrightarrow> 0 < rm_strong m + rm_weak m" "R r = Some m \<Longrightarrow> attached_ok X r m"
    by (drule all(2), (elim conjE, intro conjI, assumption+)?, (elim conjE, assumption)?)+
  show "X p = Some x \<Longrightarrow> X p' = Some x' \<Longrightarrow> px_mOrgue x = Some d \<Longrightarrow> px_mOrgue x' = Some d \<Longrightarrow> p = p'"
    by (rule all(3))
  show "R r = None \<Longrightarrow> e r = 0 \<and> w r = 0" using all(4) [of r] by (metis add_is_0 neq0_conv)
  show "n = int (card {r. \<exists>m. R r = Some m \<and> rm_objects m \<noteq> []})" by (rule all(5))
qed

lemma finite_proxies [simp]: "finite (proxies_on X r)"
  by (rule finite_subset [OF subset_UNIV]) simp

lemma finite_nids [simp]: "finite (A :: u64 set)"
  by (rule finite_subset [OF subset_UNIV]) simp

lemma om_find_entry: "om_find gBinderProxyOffsets [(gBinderProxyOffsets, proxy_entry p)] = Some p"
  by (simp add: om_find_def proxy_entry_def)

lemma no_proxies:
  assumes "proxies_ok X R D n e w" "R r = None"
  shows "proxies_on X r = {}"
  using proxies_D(1) [OF assms(1)] assms(2) by (fastforce simp: proxies_on_def proxy_fields_ok_def)

lemma proxies_new_remote:
  assumes ok: "proxies_ok X R D n e w" and r: "R r = None" and k: "0 < k + j"
  shows "proxies_ok X (R(r \<mapsto> \<lparr>rm_strong = k, rm_weak = j, rm_objects = []\<rparr>)) D n (e(r := k)) (w(r := j))"
  unfolding proxies_ok_def
proof (intro conjI, goal_cases)
  case 1
  have "px_mObject x \<noteq> Some r" if "X p = Some x" for p x
    using no_proxies [OF ok r] that by (auto simp: proxies_on_def)
  with proxies_D(1) [OF ok] show ?case by (fastforce simp: proxy_fields_ok_def split: option.splits)
next
  case 2
  have "attached_ok X r \<lparr>rm_strong = k, rm_weak = j, rm_objects = []\<rparr>" by (simp add: attached_ok_def)
  with proxies_D(2-4) [OF ok] no_proxies [OF ok r] k show ?case by auto
next
  case 3 show ?case using proxies_D(5) [OF ok] by blast
next
  case 4 show ?case using ok by (auto simp: proxies_ok_def)
next
  case 5
  have "{r'. \<exists>m. (R(r \<mapsto> \<lparr>rm_strong = k, rm_weak = j, rm_objects = []\<rparr>)) r' = Some m \<and> rm_objects m \<noteq> []}
      = {r'. \<exists>m. R r' = Some m \<and> rm_objects m \<noteq> []}" using r by auto
  with proxies_D(7) [OF ok] show ?case by (simp del: fun_upd_apply)
qed

lemma proxies_count:
  assumes ok: "proxies_ok X R D n e w" and r: "R r = Some m" and k: "0 < k + card (proxies_on X r) + j"
  shows "proxies_ok X (R(r \<mapsto> m\<lparr>rm_strong := k + card (proxies_on X r), rm_weak := j\<rparr>)) D n (e(r := k)) (w(r := j))"
  unfolding proxies_ok_def
proof (intro conjI, goal_cases)
  case 1 from proxies_D(1) [OF ok] r show ?case
    by (fastforce simp: proxy_fields_ok_def split: option.splits)
next
  case 2 from proxies_D(2-4) [OF ok] r k show ?case by (auto simp: attached_ok_def)
next
  case 3 show ?case using proxies_D(5) [OF ok] by blast
next
  case 4 show ?case using ok by (auto simp: proxies_ok_def)
next
  case 5
  have "{r'. \<exists>m'. (R(r \<mapsto> m\<lparr>rm_strong := k + card (proxies_on X r), rm_weak := j\<rparr>)) r' = Some m' \<and> rm_objects m' \<noteq> []}
      = {r'. \<exists>m. R r' = Some m \<and> rm_objects m \<noteq> []}" using r by auto
  with proxies_D(7) [OF ok] show ?case by (simp del: fun_upd_apply)
qed

lemma proxies_delete:
  assumes ok: "proxies_ok X R D n e w" and r: "R r = Some m" and k: "proxies_on X r = {}"
  shows "proxies_ok X (R(r := None)) D (n - int (length (rm_objects m))) (e(r := 0)) (w(r := 0))"
  unfolding proxies_ok_def
proof (intro conjI, goal_cases)
  case 1
  have "px_mObject x \<noteq> Some r" if "X p = Some x" for p x
    using k that by (auto simp: proxies_on_def)
  with proxies_D(1) [OF ok] show ?case by (fastforce simp: proxy_fields_ok_def split: option.splits)
next
  case 2 from proxies_D(2-4) [OF ok] show ?case by auto
next
  case 3 show ?case using proxies_D(5) [OF ok] by blast
next
  case 4 show ?case using ok by (auto simp: proxies_ok_def)
next
  case 5
  let ?A = "{r'. \<exists>m. R r' = Some m \<and> rm_objects m \<noteq> []}"
  have eq: "{r'. \<exists>m'. (R(r := None)) r' = Some m' \<and> rm_objects m' \<noteq> []} = ?A - {r}" by auto
  show ?case
  proof (cases "rm_objects m = []")
    case True
    then have "r \<notin> ?A" using r by simp
    with True proxies_D(7) [OF ok] show ?thesis by (simp add: eq del: fun_upd_apply)
  next
    case False
    then have "r \<in> ?A" "length (rm_objects m) = 1"
      using r proxies_D(4) [OF ok r] by (auto simp: attached_ok_def)
    with card_Suc_Diff1 [of ?A r] proxies_D(7) [OF ok] show ?thesis by (simp add: eq del: fun_upd_apply)
  qed
qed

lemma proxies_detach:
  assumes ok: "proxies_ok X R D n e w" and r: "R r = Some m" "rm_objects m = [(gBinderProxyOffsets, proxy_entry p)]"
    and x: "X p = Some x" "\<not> px_reachable x"
  shows "proxies_ok X (R(r \<mapsto> m\<lparr>rm_objects := []\<rparr>)) D (n - 1) e w"
  unfolding proxies_ok_def
proof (intro conjI, goal_cases)
  case 1
  have "\<not> px_reachable x'" if "X p' = Some x'" "px_mObject x' = Some r" for p' x'
    using proxies_D(1) [OF ok that(1)] that r x om_find_entry by (auto simp: proxy_fields_ok_def)
  with proxies_D(1) [OF ok] r show ?case by (fastforce simp: proxy_fields_ok_def split: option.splits)
next
  case 2 from proxies_D(2-4) [OF ok] r show ?case by (auto simp: attached_ok_def)
next
  case 3 show ?case using proxies_D(5) [OF ok] by blast
next
  case 4 show ?case using ok by (auto simp: proxies_ok_def)
next
  case 5
  let ?A = "{r'. \<exists>m. R r' = Some m \<and> rm_objects m \<noteq> []}"
  have eq: "{r'. \<exists>m'. (R(r \<mapsto> m\<lparr>rm_objects := []\<rparr>)) r' = Some m' \<and> rm_objects m' \<noteq> []} = ?A - {r}" by auto
  have "r \<in> ?A" using r by simp
  with card_Suc_Diff1 [of ?A r] proxies_D(7) [OF ok] show ?case by (simp add: eq del: fun_upd_apply)
qed

text \<open>A new proxy takes over a strong pointer that was held outside.\<close>

lemma proxies_adopt:
  assumes ok: "proxies_ok X R D n (e(r := Suc (e r))) w" and r: "R r = Some m" "rm_objects m = []"
    and fresh: "X p = None" "D d = None"
  defines "x \<equiv> \<lparr>px_mObject = Some r, px_mOrgue = Some d, px_reachable = True\<rparr>"
  shows "proxies_ok (X(p \<mapsto> x)) (R(r \<mapsto> m\<lparr>rm_objects := [(gBinderProxyOffsets, proxy_entry p)]\<rparr>))
    (D(d \<mapsto> 1)) (n + 1) e w"
  unfolding proxies_ok_def
proof (intro conjI, goal_cases)
  case 1
  have "px_mOrgue x' \<noteq> Some d \<and> (px_mObject x' = Some r \<longrightarrow> \<not> px_reachable x')" if "X p' = Some x'" for p' x'
    using proxies_D(1) [OF ok that] r fresh(2)
    by (auto simp: proxy_fields_ok_def om_find_def split: option.splits)
  then have "proxy_fields_ok (R(r \<mapsto> m\<lparr>rm_objects := [(gBinderProxyOffsets, proxy_entry p)]\<rparr>)) (D(d \<mapsto> 1)) q y"
    if "X q = Some y" for q y
    using proxies_D(1) [OF ok that] that r
    by (fastforce simp: proxy_fields_ok_def split: option.splits)
  moreover have "proxy_fields_ok (R(r \<mapsto> m\<lparr>rm_objects := [(gBinderProxyOffsets, proxy_entry p)]\<rparr>)) (D(d \<mapsto> 1)) p x"
    by (simp add: proxy_fields_ok_def x_def om_find_entry)
  ultimately show ?case by (metis fun_upd_apply option.inject)
next
  case 2
  have on: "proxies_on (X(p \<mapsto> x)) r' = (if r' = r then insert p (proxies_on X r') else proxies_on X r')" for r'
    using fresh(1) by (auto simp: proxies_on_def x_def)
  have new: "p \<notin> proxies_on X r" using fresh(1) by (simp add: proxies_on_def)
  have att: "attached_ok (X(p \<mapsto> x)) r' m'" if "attached_ok X r' m'" for r' m'
    using that fresh(1) by (fastforce simp: attached_ok_def)
  have at: "attached_ok (X(p \<mapsto> x)) r (m\<lparr>rm_objects := [(gBinderProxyOffsets, proxy_entry p)]\<rparr>)"
    unfolding attached_ok_def by (intro disjI2 exI [of _ p] exI [of _ x]) (simp add: x_def)
  show ?case
  proof (intro allI impI)
    fix r' m' assume new_m: "(R(r \<mapsto> m\<lparr>rm_objects := [(gBinderProxyOffsets, proxy_entry p)]\<rparr>)) r' = Some m'"
    show "rm_strong m' = e r' + card (proxies_on (X(p \<mapsto> x)) r') \<and> rm_weak m' = w r' \<and>
        0 < rm_strong m' + rm_weak m' \<and> attached_ok (X(p \<mapsto> x)) r' m'"
    proof (cases "r' = r")
      case True
      with new_m have "m' = m\<lparr>rm_objects := [(gBinderProxyOffsets, proxy_entry p)]\<rparr>" by simp
      with True proxies_D(2,3) [OF ok r(1)] at new show ?thesis by (simp add: on)
    next
      case False
      with new_m have "R r' = Some m'" by simp
      with False proxies_D(2-4) [OF ok, of r' m'] att show ?thesis by (simp add: on)
    qed
  qed
next
  case 3
  have "px_mOrgue x' \<noteq> Some d" if "X p' = Some x'" for p' x'
    using proxies_D(1) [OF ok that] fresh(2) by (auto simp: proxy_fields_ok_def split: option.splits)
  with proxies_D(5) [OF ok] show ?case by (auto simp: x_def split: if_splits)
next
  case 4 show ?case using ok by (auto simp: proxies_ok_def)
next
  case 5
  let ?A = "{r'. \<exists>m. R r' = Some m \<and> rm_objects m \<noteq> []}"
  have eq: "{r'. \<exists>m'. (R(r \<mapsto> m\<lparr>rm_objects := [(gBinderProxyOffsets, proxy_entry p)]\<rparr>)) r' = Some m' \<and> rm_objects m' \<noteq> []}
      = insert r ?A" by auto
  have "r \<notin> ?A" using r by simp
  with proxies_D(7) [OF ok] show ?case by (simp add: eq del: fun_upd_apply)
qed

text \<open>A finalized proxy leaves its strong pointer to the caller.\<close>

lemma proxies_clear:
  assumes ok: "proxies_ok X R D n e w" and x: "X p = Some x" "px_mObject x = Some r" "px_mOrgue x = Some d"
    "\<not> px_reachable x"
  shows "proxies_ok (X(p \<mapsto> x\<lparr>px_mObject := None, px_mOrgue := None\<rparr>)) R (D(d := None)) n (e(r := Suc (e r))) w"
  unfolding proxies_ok_def
proof (intro conjI, goal_cases)
  case 1
  have "px_mOrgue x' \<noteq> Some d" if "X p' = Some x'" "p' \<noteq> p" for p' x'
    using proxies_D(5) [OF ok that(1) x(1)] x(3) that(2) by blast
  then have "proxy_fields_ok R (D(d := None)) q y" if "X q = Some y" "q \<noteq> p" for q y
    using proxies_D(1) [OF ok that(1)] that
    by (fastforce simp: proxy_fields_ok_def split: option.splits)
  moreover have "proxy_fields_ok R (D(d := None)) p (x\<lparr>px_mObject := None, px_mOrgue := None\<rparr>)"
    using x(4) by (simp add: proxy_fields_ok_def)
  ultimately show ?case by (metis fun_upd_apply option.inject)
next
  case 2
  let ?X = "X(p \<mapsto> x\<lparr>px_mObject := None, px_mOrgue := None\<rparr>)"
  have on: "proxies_on ?X r' = (if r' = r then proxies_on X r' - {p} else proxies_on X r')" for r'
    using x by (auto simp: proxies_on_def)
  have "p \<in> proxies_on X r" using x by (simp add: proxies_on_def)
  then have card: "card (proxies_on X r) = Suc (card (proxies_on X r - {p}))"
    using card_Suc_Diff1 [of "proxies_on X r" p] by simp
  have att: "attached_ok ?X r' m'" if "attached_ok X r' m'" for r' m'
    using that by (fastforce simp: attached_ok_def)
  show ?case
  proof (intro allI impI)
    fix r' m' assume "R r' = Some m'"
    then show "rm_strong m' = (e(r := Suc (e r))) r' + card (proxies_on ?X r') \<and> rm_weak m' = w r' \<and>
        0 < rm_strong m' + rm_weak m' \<and> attached_ok ?X r' m'"
      using proxies_D(2-4) [OF ok, of r'] att card by (cases "r' = r") (auto simp: on)
  qed
next
  case 3 show ?case using proxies_D(5) [OF ok] by (auto split: if_splits)
next
  case 4
  have "R r \<noteq> None" using proxies_D(1) [OF ok x(1)] x(2) by (auto simp: proxy_fields_ok_def)
  with ok show ?case by (auto simp: proxies_ok_def)
next
  case 5 show ?case by (rule proxies_D(7) [OF ok])
qed

lemma proxies_collect:
  assumes ok: "proxies_ok X R D n e w" and x: "X p = Some x"
  shows "proxies_ok (X(p \<mapsto> x\<lparr>px_reachable := False\<rparr>)) R D n e w"
  unfolding proxies_ok_def
proof (intro conjI, goal_cases)
  case 1
  have "proxy_fields_ok R D p (x\<lparr>px_reachable := False\<rparr>)"
    using proxies_D(1) [OF ok x] by (auto simp: proxy_fields_ok_def split: option.splits)
  with proxies_D(1) [OF ok] show ?case by (metis fun_upd_apply option.inject)
next
  case 2
  have on: "proxies_on (X(p \<mapsto> x\<lparr>px_reachable := False\<rparr>)) r' = proxies_on X r'" for r'
    using x by (auto simp: proxies_on_def)
  have "attached_ok (X(p \<mapsto> x\<lparr>px_reachable := False\<rparr>)) r' m'" if "attached_ok X r' m'" for r' m'
    using that x by (fastforce simp: attached_ok_def)
  then show ?case using proxies_D(2-4) [OF ok] by (simp add: on)
next
  case 3 show ?case using proxies_D(5) [OF ok] x by (auto split: if_splits)
next
  case 4 show ?case using ok by (auto simp: proxies_ok_def)
next
  case 5 show ?case by (rule proxies_D(7) [OF ok])
qed

section \<open>The invariant and the steps\<close>

definition locals_of :: "(ibinder \<Rightarrow> nat) \<Rightarrow> nid \<Rightarrow> nat" where
  "locals_of ext b = ext (Local b)"

definition remotes_of :: "(ibinder \<Rightarrow> nat) \<Rightarrow> nid \<Rightarrow> nat" where
  "remotes_of ext r = ext (Remote r)"

lemma ext_upd [simp]:
  "locals_of (ext(Local b' := k)) = (locals_of ext)(b' := k)"
  "remotes_of (ext(Remote r' := k)) = (remotes_of ext)(r' := k)"
  "locals_of (ext(Remote r' := k)) = locals_of ext"
  "remotes_of (ext(Local b' := k)) = remotes_of ext"
  by (auto simp: locals_of_def remotes_of_def)

definition jni_ok :: "jconf \<Rightarrow> bool" where
  "jni_ok c = (case c of (s, ext, wk) \<Rightarrow>
     locals_ok (jn_binders s) (jn_holders s) (jn_local s) (gNumLocalRefs s) (locals_of ext) \<and>
     proxies_ok (jn_proxies s) (jn_remote s) (jn_lists s) (gNumProxyRefs s) (remotes_of ext) wk \<and>
     (\<forall>p. jn_binders s p = None \<or> jn_proxies s p = None) \<and> gNumRefsCreated s \<le> 200)"

lemma jni_okD:
  assumes "jni_ok (s, ext, wk)"
  shows "locals_ok (jn_binders s) (jn_holders s) (jn_local s) (gNumLocalRefs s) (locals_of ext)"
    "proxies_ok (jn_proxies s) (jn_remote s) (jn_lists s) (gNumProxyRefs s) (remotes_of ext) wk"
    "jn_binders s p = None \<or> jn_proxies s p = None" "gNumRefsCreated s \<le> 200"
  using assms by (simp_all add: jni_ok_def)

lemma incRefsCreated_fields [simp]:
  "jn_binders (incRefsCreated s) = jn_binders s" "jn_holders (incRefsCreated s) = jn_holders s"
  "jn_local (incRefsCreated s) = jn_local s" "jn_proxies (incRefsCreated s) = jn_proxies s"
  "jn_remote (incRefsCreated s) = jn_remote s" "jn_lists (incRefsCreated s) = jn_lists s"
  "gNumProxyRefs (incRefsCreated s) = gNumProxyRefs s" "gNumLocalRefs (incRefsCreated s) = gNumLocalRefs s"
  by (simp_all add: incRefsCreated_def Let_def)

lemma incRefsCreated_bound [simp]:
  "gNumRefsCreated s \<le> 200 \<Longrightarrow> gNumRefsCreated (incRefsCreated s) \<le> 200"
  by (simp add: incRefsCreated_def Let_def)

lemma jni_ok_incRefs [simp]: "jni_ok (s, ext, wk) \<Longrightarrow> jni_ok (incRefsCreated s, ext, wk)"
  by (simp add: jni_ok_def)

lemmas ext_defs = locals_of_def remotes_of_def

lemma jni_ok_live:
  assumes "jni_ok (s, ext, wk)" "0 < ext v"
  shows "(case v of Local b \<Rightarrow> jn_local s b \<noteq> None | Remote r \<Rightarrow> jn_remote s r \<noteq> None)"
  using assms locals_D(4) [OF jni_okD(1) [OF assms(1)]] proxies_D(6) [OF jni_okD(2) [OF assms(1)]]
  by (cases v) (fastforce simp: ext_defs)+

lemma jni_ok_incStrong:
  assumes ok: "jni_ok (s, ext, wk)" and v: "case v of Local b \<Rightarrow> jn_local s b \<noteq> None | Remote r \<Rightarrow> jn_remote s r \<noteq> None"
  shows "jni_ok (incStrong v s, ext(v := ext v + 1), wk)"
proof (cases v)
  case (Local b)
  then obtain j where j: "jn_local s b = Some j" using v by auto
  note l = locals_count [OF jni_okD(1) [OF ok] j, of "locals_of ext b + 1"]
  have "jb_strong j = locals_of ext b" using locals_D(1) [OF jni_okD(1) [OF ok] j] by simp
  then show ?thesis using ok l j Local by (simp add: jni_ok_def incStrong_def ext_defs [symmetric])
next
  case (Remote r)
  then obtain m where m: "jn_remote s r = Some m" using v by auto
  note l = proxies_count [OF jni_okD(2) [OF ok] m, of "remotes_of ext r + 1" "wk r"]
  have "rm_strong m = remotes_of ext r + card (proxies_on (jn_proxies s) r)" "rm_weak m = wk r"
    using proxies_D(2) [OF jni_okD(2) [OF ok] m] by simp_all
  then have "m\<lparr>rm_strong := Suc (rm_strong m)\<rparr> =
      m\<lparr>rm_strong := remotes_of ext r + 1 + card (proxies_on (jn_proxies s) r), rm_weak := wk r\<rparr>" by (cases m) simp
  then show ?thesis using ok l m Remote by (simp add: jni_ok_def incStrong_def ext_defs [symmetric])
qed

lemma delete_remote_eq:
  assumes "attached_ok X r m"
  shows "delete_remote r m s =
    s\<lparr>jn_remote := (jn_remote s)(r := None), gNumProxyRefs := gNumProxyRefs s - int (length (rm_objects m))\<rparr>"
  using assms by (auto simp: attached_ok_def delete_remote_def proxy_cleanup_def proxy_entry_def)

lemma jni_ok_set_remote:
  assumes ok: "jni_ok (s, ext, wk)" and m: "jn_remote s r = Some m"
    and k: "rm_strong m' = k + card (proxies_on (jn_proxies s) r)" "rm_weak m' = j" "rm_objects m' = rm_objects m"
  shows "jni_ok (set_remote r m' s, ext(Remote r := k), wk(r := j))"
proof (cases "rm_strong m' = 0 \<and> rm_weak m' = 0")
  case True
  then have none: "proxies_on (jn_proxies s) r = {}" "k = 0" "j = 0" using k by simp_all
  have "attached_ok (jn_proxies s) r m'" using proxies_D(4) [OF jni_okD(2) [OF ok] m] k(3) by (simp add: attached_ok_def)
  from proxies_delete [OF jni_okD(2) [OF ok] m none(1)] delete_remote_eq [OF this] ok True none k(3)
  show ?thesis by (simp add: jni_ok_def set_remote_def)
next
  case False
  have "m' = m\<lparr>rm_strong := k + card (proxies_on (jn_proxies s) r), rm_weak := j\<rparr>"
    using k by (cases m, cases m') simp
  moreover have "0 < k + card (proxies_on (jn_proxies s) r) + j" using False k by auto
  moreover have "set_remote r m' s = s\<lparr>jn_remote := (jn_remote s)(r \<mapsto> m')\<rparr>"
    using False unfolding set_remote_def by (rule if_not_P)
  ultimately show ?thesis
    using proxies_count [OF jni_okD(2) [OF ok] m, of k j] ok by (simp add: jni_ok_def)
qed

lemma jni_ok_decStrong:
  assumes ok: "jni_ok (s, ext, wk)" and v: "0 < ext v"
  shows "jni_ok (decStrong v s, ext(v := ext v - 1), wk)"
proof (cases v)
  case (Local b)
  then obtain j where j: "jn_local s b = Some j" using jni_ok_live [OF assms] by auto
  have js: "jb_strong j = locals_of ext b" using locals_D(1) [OF jni_okD(1) [OF ok] j] by simp
  show ?thesis
  proof (cases "locals_of ext b = 1")
    case True
    with locals_delete [OF jni_okD(1) [OF ok] j] ok j js Local show ?thesis
      by (simp add: jni_ok_def decStrong_def delete_JavaBBinder_def ext_defs [symmetric])
  next
    case False
    then have "0 < locals_of ext b - 1" using v Local by (simp add: ext_defs)
    from locals_count [OF jni_okD(1) [OF ok] j this] ok j js Local False v show ?thesis
      by (simp add: jni_ok_def decStrong_def ext_defs [symmetric])
  qed
next
  case (Remote r)
  then obtain m where m: "jn_remote s r = Some m" using jni_ok_live [OF assms] by auto
  have ms: "rm_strong m = ext (Remote r) + card (proxies_on (jn_proxies s) r)" "rm_weak m = wk r"
    using proxies_D(2) [OF jni_okD(2) [OF ok] m] by (simp_all add: ext_defs)
  have "jni_ok (set_remote r (m\<lparr>rm_strong := rm_strong m - 1\<rparr>) s, ext(Remote r := ext (Remote r) - 1), wk(r := wk r))"
    by (rule jni_ok_set_remote [OF ok m]) (use ms v Remote in simp_all)
  then show ?thesis using Remote m by (simp add: decStrong_def)
qed

lemma jni_ok_incWeak:
  assumes ok: "jni_ok (s, ext, wk)" and m: "jn_remote s r = Some m"
  shows "jni_ok (incWeak r s, ext, wk(r := wk r + 1))"
proof -
  have ms: "rm_strong m = ext (Remote r) + card (proxies_on (jn_proxies s) r)" "rm_weak m = wk r"
    using proxies_D(2) [OF jni_okD(2) [OF ok] m] by (simp_all add: ext_defs)
  have "jni_ok (set_remote r (m\<lparr>rm_weak := rm_weak m + 1\<rparr>) s, ext(Remote r := ext (Remote r)), wk(r := wk r + 1))"
    by (rule jni_ok_set_remote [OF ok m]) (use ms in simp_all)
  then show ?thesis using m by (simp add: incWeak_def set_remote_def)
qed

lemma jni_ok_decWeak:
  assumes ok: "jni_ok (s, ext, wk)" and v: "0 < wk r"
  shows "jni_ok (decWeak r s, ext, wk(r := wk r - 1))"
proof -
  obtain m where m: "jn_remote s r = Some m" using proxies_D(6) [OF jni_okD(2) [OF ok]] v by fastforce
  have ms: "rm_strong m = ext (Remote r) + card (proxies_on (jn_proxies s) r)" "rm_weak m = wk r"
    using proxies_D(2) [OF jni_okD(2) [OF ok] m] by (simp_all add: ext_defs)
  have "jni_ok (set_remote r (m\<lparr>rm_weak := rm_weak m - 1\<rparr>) s, ext(Remote r := ext (Remote r)), wk(r := wk r - 1))"
    by (rule jni_ok_set_remote [OF ok m]) (use ms in simp_all)
  then show ?thesis using m by (simp add: decWeak_def)
qed

lemma jni_ok_holder_get:
  assumes ok: "jni_ok (s, ext, wk)" and h: "jn_binders s obj = Some (Some h)" and new: "jn_local s new = None"
  shows "\<exists>b s'. holder_get new h obj s = (Some (Local b), s') \<and> jni_ok (s', ext(Local b := ext (Local b) + 1), wk)
    \<and> (\<exists>j. jn_local s' b = Some j \<and> jb_mObject j = obj)"
proof -
  obtain ho where ho: "jn_holders s h = Some ho"
    "\<And>b. ho_mBinder ho = Some b \<Longrightarrow> \<exists>j. jn_local s b = Some j \<and> jb_mObject j = obj"
    using locals_D(2) [OF jni_okD(1) [OF ok] h] by auto
  show ?thesis
  proof (cases "ho_mBinder ho")
    case (Some b)
    from ho(2) [OF this] obtain j where j: "jn_local s b = Some j" "jb_mObject j = obj" by auto
    then have "jni_ok (incStrong (Local b) s, ext(Local b := ext (Local b) + 1), wk)"
      by (intro jni_ok_incStrong [OF ok]) simp
    with Some ho(1) j show ?thesis by (simp add: holder_get_def incStrong_def)
  next
    case None
    from locals_new [OF jni_okD(1) [OF ok] h ho(1) None new] ok ho(1) None new show ?thesis
      by (simp add: holder_get_def new_JavaBBinder_def incStrong_def jni_ok_def Let_def ext_defs [symmetric])
  qed
qed

lemma jni_ok_ibinderForJavaObject:
  assumes ok: "jni_ok (s, ext, wk)" and new: "jn_local s new = None"
    and run: "ibinderForJavaObject new (Some p) s = (Some v, s')"
  shows "jni_ok (s', ext(v := ext v + 1), wk)"
proof (cases "jn_binders s p")
  case (Some mo)
  then obtain h where h: "jn_binders s p = Some (Some h)" "holder_get new h p s = (Some v, s')"
    using run by (auto simp: ibinderForJavaObject_def split: option.splits)
  from jni_ok_holder_get [OF ok h(1) new] h(2) show ?thesis by auto
next
  case None
  then obtain x r where x: "jn_proxies s p = Some x" "px_mObject x = Some r" "v = Remote r" "s' = incStrong (Remote r) s"
    using run by (auto simp: ibinderForJavaObject_def split: option.splits)
  then have "jn_remote s r \<noteq> None"
    using proxies_D(1) [OF jni_okD(2) [OF ok] x(1)] by (auto simp: proxy_fields_ok_def)
  with jni_ok_incStrong [OF ok, of "Remote r"] x show ?thesis by simp
qed

lemma jni_ok_new_proxy:
  assumes ok: "jni_ok (s, ext, wk)" and m: "jn_remote s r = Some m" "rm_objects m = []"
    and new: "\<forall>p d. new = Some (p, d) \<longrightarrow> jn_binders s p = None \<and> jn_proxies s p = None \<and> jn_lists s d = None"
  shows "jni_ok (snd (new_proxy new r s), ext, wk)"
proof (cases new)
  case None then show ?thesis using ok by (simp add: new_proxy_def)
next
  case (Some pd)
  obtain p d where pd: "new = Some (p, d)" using Some by (cases pd) auto
  have fresh: "jn_binders s p = None" "jn_proxies s p = None" "jn_lists s d = None" using new pd by auto
  have inc: "jni_ok (incStrong (Remote r) s, ext(Remote r := ext (Remote r) + 1), wk)"
    by (rule jni_ok_incStrong [OF ok]) (simp add: m)
  let ?m = "m\<lparr>rm_strong := rm_strong m + 1\<rparr>"
  have "proxies_ok (jn_proxies s) ((jn_remote s)(r \<mapsto> ?m)) (jn_lists s) (gNumProxyRefs s)
      ((remotes_of ext)(r := Suc (remotes_of ext r))) wk"
    using jni_okD(2) [OF inc] m by (simp add: incStrong_def ext_defs [symmetric])
  from proxies_adopt [OF this, of ?m p d] fresh(2,3) m
  show ?thesis using ok fresh(1) m
    by (simp add: new_proxy_def pd incStrong_def jni_ok_def Let_def om_attach_def)
qed

lemma jni_ok_javaObjectForIBinder:
  assumes ok: "jni_ok (s, ext, wk)"
    and new: "\<forall>p d. new = Some (p, d) \<longrightarrow> jn_binders s p = None \<and> jn_proxies s p = None \<and> jn_lists s d = None"
  shows "jni_ok (snd (javaObjectForIBinder new val s), ext, wk)"
proof (cases val)
  case None then show ?thesis using ok by (simp add: javaObjectForIBinder_def)
next
  case (Some v)
  show ?thesis
  proof (cases v)
    case (Local b) then show ?thesis using ok Some by (simp add: javaObjectForIBinder_def)
  next
    case (Remote r)
    show ?thesis
    proof (cases "jn_remote s r")
      case None then show ?thesis using ok Some Remote by (simp add: javaObjectForIBinder_def)
    next
      case m: (Some m)
      note att = proxies_D(4) [OF jni_okD(2) [OF ok] m]
      show ?thesis
      proof (cases "rm_objects m = []")
        case True
        then show ?thesis using jni_ok_new_proxy [OF ok m True new] Some Remote m
          by (simp add: javaObjectForIBinder_def om_find_def)
      next
        case False
        then obtain q x where q: "rm_objects m = [(gBinderProxyOffsets, proxy_entry q)]" "jn_proxies s q = Some x"
          using att by (auto simp: attached_ok_def)
        show ?thesis
        proof (cases "px_reachable x")
          case True
          then show ?thesis using ok Some Remote m q
            by (simp add: javaObjectForIBinder_def om_find_entry jniGetReferent_def)
        next
          case False
          let ?s = "s\<lparr>gNumProxyRefs := gNumProxyRefs s - 1, jn_remote := (jn_remote s)(r \<mapsto> m\<lparr>rm_objects := []\<rparr>)\<rparr>"
          have "jni_ok (?s, ext, wk)"
            using proxies_detach [OF jni_okD(2) [OF ok] m q False] ok by (simp add: jni_ok_def)
          from jni_ok_new_proxy [OF this, of r "m\<lparr>rm_objects := []\<rparr>" new] new
          have "jni_ok (snd (new_proxy new r ?s), ext, wk)" by simp
          then show ?thesis using Some Remote m q False
            by (simp add: javaObjectForIBinder_def om_find_entry jniGetReferent_def om_detach_def)
        qed
      qed
    qed
  qed
qed

lemma jni_ok_destroy_proxy:
  assumes ok: "jni_ok (s, ext, wk)" and x: "jn_proxies s p = Some x" "\<not> px_reachable x"
  shows "jni_ok (android_os_BinderProxy_destroy p s, ext, wk)"
proof (cases "px_mObject x")
  case None then show ?thesis using ok x by (simp add: android_os_BinderProxy_destroy_def)
next
  case (Some r)
  then obtain d where d: "px_mOrgue x = Some d" "jn_lists s d = Some 1"
    using proxies_D(1) [OF jni_okD(2) [OF ok] x(1)] by (auto simp: proxy_fields_ok_def)
  let ?s = "s\<lparr>jn_proxies := (jn_proxies s)(p \<mapsto> x\<lparr>px_mObject := None, px_mOrgue := None\<rparr>),
              jn_lists := (jn_lists s)(d := None)\<rparr>"
  have b: "jn_binders s p = None" using jni_okD(3) [OF ok, of p] x by auto
  have "jni_ok (?s, ext(Remote r := Suc (ext (Remote r))), wk)"
    using proxies_clear [OF jni_okD(2) [OF ok] x(1) Some d(1) x(2)] ok b by (simp add: jni_ok_def ext_defs [symmetric])
  from jni_ok_decStrong [OF this, of "Remote r"]
  have "jni_ok (decStrong (Remote r) ?s, ext, wk)" by simp
  then show ?thesis using x Some d by (simp add: android_os_BinderProxy_destroy_def Let_def)
qed

theorem jni_step_ok: "jni_step c c' \<Longrightarrow> jni_ok c \<Longrightarrow> jni_ok c'"
proof (induction rule: jni_step.induct)
  case (new_binder s obj h ok s' ext wk)
  have "jn_binders s p = None \<or> jn_proxies s p = None" for p by (rule jni_okD(3) [OF new_binder.prems])
  moreover have s': "s' = s\<lparr>jn_holders := (jn_holders s)(h \<mapsto> \<lparr>ho_strong = 1, ho_mBinder = None\<rparr>),
      jn_binders := (jn_binders s)(obj \<mapsto> Some h)\<rparr>"
    using new_binder.hyps(4) by (simp add: android_os_Binder_init_def)
  ultimately show ?case
    using locals_init [OF jni_okD(1) [OF new_binder.prems] new_binder.hyps(1,3)] new_binder.prems new_binder.hyps(2)
    unfolding s' by (simp add: jni_ok_def)
next
  case (finalize_binder s obj ext wk)
  show ?case
  proof (cases "\<exists>h. jn_binders s obj = Some (Some h)")
    case True
    then obtain h where h: "jn_binders s obj = Some (Some h)" by blast
    then obtain ho where ho: "jn_holders s h = Some ho" "ho_strong ho = 1"
      using locals_D(2) [OF jni_okD(1) [OF finalize_binder.prems]] by blast
    from locals_destroy [OF jni_okD(1) [OF finalize_binder.prems] h finalize_binder.hyps]
    moreover have "jn_proxies s obj = None"
      using jni_okD(3) [OF finalize_binder.prems, of obj] h by auto
    ultimately show ?thesis using finalize_binder.prems h ho
      by (auto simp: jni_ok_def android_os_Binder_destroy_def)
  next
    case False
    then have "android_os_Binder_destroy obj s = s"
      by (auto simp: android_os_Binder_destroy_def split: option.split)
    then show ?thesis using finalize_binder.prems by simp
  qed
next
  case to_native then show ?case using jni_ok_ibinderForJavaObject by blast
next
  case (to_java ext v new s res s' wk)
  from jni_ok_javaObjectForIBinder [OF to_java.prems to_java.hyps(2), of "Some v"] to_java.hyps(3)
  show ?case by simp
next
  case (new_remote s r ext wk)
  note e = proxies_D(6) [OF jni_okD(2) [OF new_remote.prems] new_remote.hyps]
  then have "wk(r := 0) = wk" by (auto simp: fun_eq_iff)
  with proxies_new_remote [OF jni_okD(2) [OF new_remote.prems] new_remote.hyps, of "Suc 0" 0] e new_remote.prems
  show ?case by (simp add: jni_ok_def ext_defs)
next
  case (new_weak_remote s r ext wk)
  note e = proxies_D(6) [OF jni_okD(2) [OF new_weak_remote.prems] new_weak_remote.hyps]
  then have "(remotes_of ext)(r := 0) = remotes_of ext" by (auto simp: fun_eq_iff)
  with proxies_new_remote [OF jni_okD(2) [OF new_weak_remote.prems] new_weak_remote.hyps, of 0 "Suc 0"] e
    new_weak_remote.prems
  show ?case by (simp add: jni_ok_def)
next
  case copy_pointer then show ?case using jni_ok_incStrong jni_ok_live by blast
next
  case drop_pointer then show ?case using jni_ok_decStrong by blast
next
  case (take_weak ext r wk s)
  note ok = jni_okD(2) [OF take_weak.prems]
  have "jn_remote s r \<noteq> None"
  proof
    assume "jn_remote s r = None"
    from take_weak.hyps proxies_D(6) [OF ok this] no_proxies [OF ok this] show False
      by (auto simp: proxies_on_def ext_defs)
  qed
  then show ?case using jni_ok_incWeak [OF take_weak.prems] by blast
next
  case drop_weak then show ?case using jni_ok_decWeak by blast
next
  case (promote wk r s ext)
  have "jn_remote s r \<noteq> None"
    using promote.hyps proxies_D(6) [OF jni_okD(2) [OF promote.prems], of r] by auto
  then show ?case using jni_ok_incStrong [OF promote.prems, of "Remote r"] by simp
next
  case (collect s p x ext wk)
  have "jn_binders s p = None" using jni_okD(3) [OF collect.prems, of p] collect.hyps by auto
  with proxies_collect [OF jni_okD(2) [OF collect.prems] collect.hyps] collect.prems
  show ?case by (simp add: jni_ok_def)
next
  case finalize_proxy then show ?case using jni_ok_destroy_proxy by blast
next
  case gc_done then show ?case by (simp add: jni_ok_def android_os_BinderInternal_handleGc_def)
qed

lemma jni_start_ok: "jni_ok (jni_start, \<lambda>_. 0, \<lambda>_. 0)"
  by (simp add: jni_ok_def jni_start_def locals_ok_def proxies_ok_def ext_defs)

lemma jni_reach_ok: "jni_reach c \<Longrightarrow> jni_ok c"
  by (induction rule: jni_reach.induct) (auto intro: jni_start_ok jni_step_ok)

end
