(* ===== verification/Jni_Claims.thy ===== *)
theory Jni_Claims
  imports Jni_Binder_Correct
begin

text \<open>
  What the conversions between Java and native binders promise in every state that a process can
  reach, and a run that the claims are checked on: a binder of another process arrives, Java gets
  a proxy for it and drops it, and gets a second one after the first was collected.
\<close>

section \<open>A run\<close>

definition jx1 :: jni where "jx1 = jni_start\<lparr>jn_remote := [10 \<mapsto> \<lparr>rm_strong = 1, rm_weak = 0, rm_objects = []\<rparr>]\<rparr>"
definition jx2 :: jni where "jx2 = snd (javaObjectForIBinder (Some (20, 30)) (Some (Remote 10)) jx1)"
definition jx3 :: jni where
  "jx3 = jx2\<lparr>jn_proxies := [20 \<mapsto> \<lparr>px_mObject = Some 10, px_mOrgue = Some 30, px_reachable = False\<rparr>]\<rparr>"
definition jx4 :: jni where "jx4 = snd (javaObjectForIBinder (Some (21, 31)) (Some (Remote 10)) jx3)"
definition jx_ext :: "ibinder \<Rightarrow> nat" where "jx_ext = (\<lambda>_. 0)(Remote 10 := 1)"
definition jx_wk :: "nid \<Rightarrow> nat" where "jx_wk = (\<lambda>_. 0)"
definition jx5 :: jni where
  \<comment> \<open>from the first state: a weak pointer is taken, then the strong pointer is dropped\<close>
  "jx5 = decStrong (Remote 10) (incWeak 10 jx1)"

lemma jx_eval:
  "jn_proxies jx2 = [20 \<mapsto> \<lparr>px_mObject = Some 10, px_mOrgue = Some 30, px_reachable = True\<rparr>]"
  "jn_remote jx2 = [10 \<mapsto> \<lparr>rm_strong = 2, rm_weak = 0, rm_objects = [(gBinderProxyOffsets, proxy_entry 20)]\<rparr>]"
  "jn_lists jx2 = [30 \<mapsto> 1]" "jn_binders jx2 = Map.empty" "jn_local jx2 = Map.empty" "gNumProxyRefs jx2 = 1"
  by (simp_all add: jx2_def jx1_def jni_start_def javaObjectForIBinder_def new_proxy_def incStrong_def
      om_find_def om_attach_def incRefsCreated_def Let_def fun_eq_iff)

lemma jx_eval4:
  "jn_proxies jx4 = [20 \<mapsto> \<lparr>px_mObject = Some 10, px_mOrgue = Some 30, px_reachable = False\<rparr>,
                     21 \<mapsto> \<lparr>px_mObject = Some 10, px_mOrgue = Some 31, px_reachable = True\<rparr>]"
  "jn_remote jx4 = [10 \<mapsto> \<lparr>rm_strong = 3, rm_weak = 0, rm_objects = [(gBinderProxyOffsets, proxy_entry 21)]\<rparr>]"
  "jn_binders jx4 = Map.empty" "jn_local jx4 = Map.empty" "gNumProxyRefs jx4 = 1"
  by (simp_all add: jx4_def jx3_def jx_eval javaObjectForIBinder_def new_proxy_def incStrong_def
      om_find_entry jniGetReferent_def om_detach_def om_attach_def om_find_def proxy_entry_def
      incRefsCreated_def Let_def fun_eq_iff)

lemma jx_eval5: "jn_remote jx5 = [10 \<mapsto> \<lparr>rm_strong = 0, rm_weak = 1, rm_objects = []\<rparr>]"
  "jn_proxies jx5 = Map.empty"
  by (simp_all add: jx5_def jx1_def jni_start_def incWeak_def decStrong_def set_remote_def fun_eq_iff)

lemma jx_reach: "jni_reach (jx2, jx_ext, jx_wk)" "jni_reach (jx4, jx_ext, jx_wk)"
  "jni_reach (jx5, jx_ext(Remote 10 := 0), jx_wk(10 := 1))"
proof -
  have "jni_step (jni_start, \<lambda>_. 0, \<lambda>_. 0) (jx1, jx_ext, jx_wk)"
    using jni_step.new_remote [of jni_start 10 "\<lambda>_. 0" "\<lambda>_. 0"]
    by (simp add: jx1_def jx_ext_def jx_wk_def jni_start_def)
  then have r1: "jni_reach (jx1, jx_ext, jx_wk)" by (rule jni_reach.step [OF jni_reach.start])
  have "jni_step (jx1, jx_ext, jx_wk) (incWeak 10 jx1, jx_ext, jx_wk(10 := 1))"
    using jni_step.take_weak [of jx_ext 10 jx_wk jx1] by (simp add: jx_ext_def jx_wk_def)
  then have r5: "jni_reach (incWeak 10 jx1, jx_ext, jx_wk(10 := 1))" by (rule jni_reach.step [OF r1])
  have "jni_step (incWeak 10 jx1, jx_ext, jx_wk(10 := 1)) (jx5, jx_ext(Remote 10 := 0), jx_wk(10 := 1))"
    using jni_step.drop_pointer [of jx_ext "Remote 10" "incWeak 10 jx1" "jx_wk(10 := 1)"]
    by (simp add: jx_ext_def jx5_def)
  then show "jni_reach (jx5, jx_ext(Remote 10 := 0), jx_wk(10 := 1))" by (rule jni_reach.step [OF r5])
  have "jni_step (jx1, jx_ext, jx_wk) (jx2, jx_ext, jx_wk)"
    by (rule jni_step.to_java [where v = "Remote 10" and new = "Some (20, 30)"])
      (auto simp: jx_ext_def jx1_def jni_start_def jx2_def prod_eq_iff)
  then show r2: "jni_reach (jx2, jx_ext, jx_wk)" by (rule jni_reach.step [OF r1])
  have "jni_step (jx2, jx_ext, jx_wk) (jx3, jx_ext, jx_wk)"
    using jni_step.collect [of jx2 20 "\<lparr>px_mObject = Some 10, px_mOrgue = Some 30, px_reachable = True\<rparr>" jx_ext jx_wk]
    by (simp add: jx_eval jx3_def)
  then have r3: "jni_reach (jx3, jx_ext, jx_wk)" by (rule jni_reach.step [OF r2])
  have "jni_step (jx3, jx_ext, jx_wk) (jx4, jx_ext, jx_wk)"
    by (rule jni_step.to_java [where v = "Remote 10" and new = "Some (21, 31)"])
      (auto simp: jx_ext_def jx3_def jx_eval jx4_def prod_eq_iff)
  then show "jni_reach (jx4, jx_ext, jx_wk)" by (rule jni_reach.step [OF r3])
qed

section \<open>The claims\<close>

text \<open>
  C20. In every state that a process can reach, a native binder has at most one Java proxy that Java
  code can still get hold of, and such a proxy has its native binder: two proxies of one binder,
  which exist while the first waits for its finalizer, are never both reachable.
\<close>

theorem one_reachable_proxy:
  assumes "jni_reach (s, ext, wk)"
    and "jn_proxies s p = Some x" "px_reachable x" "jn_proxies s p' = Some x'" "px_reachable x'"
    and "px_mObject x = px_mObject x'"
  shows "p = p' \<and> px_mObject x \<noteq> None"
proof -
  note ok = proxies_D(1) [OF jni_okD(2) [OF jni_reach_ok [OF assms(1)]]]
  show ?thesis
    using ok [OF assms(2)] ok [OF assms(4)] assms(3,5,6)
    by (auto simp: proxy_fields_ok_def split: option.splits)
qed

lemma one_reachable_proxy_witness:
  "(21::u64) = 21 \<and> px_mObject \<lparr>px_mObject = Some (10::u64), px_mOrgue = Some 31, px_reachable = True\<rparr> \<noteq> None
   \<and> jn_proxies jx4 20 \<noteq> None"
  using one_reachable_proxy [OF jx_reach(2), of 21
      "\<lparr>px_mObject = Some 10, px_mOrgue = Some 31, px_reachable = True\<rparr>" 21]
  by (simp add: jx_eval4)

text \<open>
  C21. The native pointers of the Java proxies never dangle: in every reachable state a proxy that
  was not destroyed points to a binder that exists and has a strong reference for it. A native
  binder exists exactly as long as a strong pointer, a weak pointer or such a proxy refers to it,
  since its life extends to its weak pointers; its strong count is the number of strong pointers
  that the rest of the process holds plus one for each proxy, its weak count that of the weak ones.
\<close>

theorem proxies_hold_their_binder:
  assumes "jni_reach (s, ext, wk)"
  shows "(jn_remote s r \<noteq> None \<longleftrightarrow> 0 < ext (Remote r) \<or> 0 < wk r \<or>
            (\<exists>p x. jn_proxies s p = Some x \<and> px_mObject x = Some r)) \<and>
         (\<forall>m \<in> set_option (jn_remote s r). rm_weak m = wk r \<and> rm_strong m =
            ext (Remote r) + card {p. \<exists>x. jn_proxies s p = Some x \<and> px_mObject x = Some r})"
proof -
  note ok = jni_okD(2) [OF jni_reach_ok [OF assms]]
  show ?thesis
  proof (cases "jn_remote s r")
    case None
    then show ?thesis using no_proxies [OF ok None] proxies_D(6) [OF ok None]
      by (auto simp: proxies_on_def ext_defs)
  next
    case (Some m)
    then have m: "rm_strong m = ext (Remote r) + card (proxies_on (jn_proxies s) r)" "rm_weak m = wk r"
      "0 < rm_strong m + rm_weak m"
      using proxies_D(2,3) [OF ok Some] by (simp_all add: ext_defs)
    moreover from m have "0 < ext (Remote r) \<or> 0 < wk r \<or> proxies_on (jn_proxies s) r \<noteq> {}"
      by (cases "proxies_on (jn_proxies s) r = {}") simp_all
    ultimately show ?thesis using Some by (auto simp: proxies_on_def)
  qed
qed

lemma proxies_hold_their_binder_witness:
  "(3::nat) = jx_ext (Remote 10) + card {p. \<exists>x. jn_proxies jx4 p = Some x \<and> px_mObject x = Some 10} \<and>
   jn_remote jx5 10 \<noteq> None \<and> (1::nat) = (jx_wk(10 := 1)) 10"
  using proxies_hold_their_binder [OF jx_reach(2), of 10] proxies_hold_their_binder [OF jx_reach(3), of 10]
  by (simp add: jx_eval4(2) jx_eval5)

text \<open>
  The counters that the debug interface reports are right in every reachable state: the number
  of native objects of Java binders, and the number of native binders that remember a Java proxy.
\<close>

theorem debug_counts:
  assumes "jni_reach (s, ext, wk)"
  shows "gNumLocalRefs s = int (card (dom (jn_local s))) \<and>
    gNumProxyRefs s = int (card {r. \<exists>m. jn_remote s r = Some m \<and> om_find gBinderProxyOffsets (rm_objects m) \<noteq> None}) \<and>
    gNumRefsCreated s \<le> 200"
proof -
  note ok = jni_reach_ok [OF assms]
  have "(rm_objects m \<noteq> []) = (om_find gBinderProxyOffsets (rm_objects m) \<noteq> None)"
    if "jn_remote s r = Some m" for r m
    using proxies_D(4) [OF jni_okD(2) [OF ok] that]
    by (auto simp: attached_ok_def om_find_def)
  then have "{r. \<exists>m. jn_remote s r = Some m \<and> rm_objects m \<noteq> []} =
      {r. \<exists>m. jn_remote s r = Some m \<and> om_find gBinderProxyOffsets (rm_objects m) \<noteq> None}" by blast
  with locals_D(5) [OF jni_okD(1) [OF ok]] proxies_D(7) [OF jni_okD(2) [OF ok]] jni_okD(4) [OF ok]
  show ?thesis by simp
qed

lemma debug_counts_witness:
  "(1::int) = int (card {r. \<exists>m. jn_remote jx4 r = Some m \<and> om_find gBinderProxyOffsets (rm_objects m) \<noteq> None})"
  using debug_counts [OF jx_reach(2)] by (simp add: jx_eval4(5))

text \<open>
  C22. A native binder that a process holds comes back from Java: the object that
  \<open>javaObjectForIBinder\<close> returns for it converts to the same binder, for a Java binder of the
  process itself and for a proxy, found or new.
\<close>

theorem java_object_roundtrip:
  assumes "jni_reach (s, ext, wk)" and "0 < ext v"
    and "\<forall>p d. new = Some (p, d) \<longrightarrow> jn_binders s p = None \<and> jn_proxies s p = None \<and> jn_lists s d = None"
    and "javaObjectForIBinder new (Some v) s = (Some obj, s')"
  shows "fst (ibinderForJavaObject b (Some obj) s') = Some v"
proof -
  note ok = jni_reach_ok [OF assms(1)]
  show ?thesis
  proof (cases v)
    case (Local l)
    with jni_ok_live [OF ok assms(2)] obtain j where j: "jn_local s l = Some j" by auto
    with locals_D(1) [OF jni_okD(1) [OF ok] j] Local assms(4) show ?thesis
      by (auto simp: javaObjectForIBinder_def ibinderForJavaObject_def holder_get_def)
  next
    case (Remote r)
    with jni_ok_live [OF ok assms(2)] obtain m where m: "jn_remote s r = Some m" by auto
    have new: "jn_binders (snd (new_proxy new r t)) obj = None \<and>
        (\<exists>x. jn_proxies (snd (new_proxy new r t)) obj = Some x \<and> px_mObject x = Some r)"
      if "fst (new_proxy new r t) = Some obj" "jn_binders t = jn_binders s" for t
      using that assms(3) by (auto simp: new_proxy_def incStrong_def Let_def split: option.splits)
    have "jn_binders s' obj = None \<and> (\<exists>x. jn_proxies s' obj = Some x \<and> px_mObject x = Some r)"
    proof (cases "rm_objects m = []")
      case True
      then show ?thesis using assms(4) Remote m new [of s]
        by (simp add: javaObjectForIBinder_def om_find_def)
    next
      case False
      then obtain q x where q: "rm_objects m = [(gBinderProxyOffsets, proxy_entry q)]"
          "jn_proxies s q = Some x" "px_mObject x = None \<or> px_mObject x = Some r"
        using proxies_D(4) [OF jni_okD(2) [OF ok] m] by (auto simp: attached_ok_def)
      show ?thesis
      proof (cases "px_reachable x")
        case True
        then have "px_mObject x = Some r"
          using q(3) proxies_D(1) [OF jni_okD(2) [OF ok] q(2)] by (auto simp: proxy_fields_ok_def)
        then show ?thesis using True assms(4) Remote m q(1,2) jni_okD(3) [OF ok, of q]
          by (auto simp: javaObjectForIBinder_def om_find_entry jniGetReferent_def)
      next
        case False
        let ?t = "s\<lparr>gNumProxyRefs := gNumProxyRefs s - 1, jn_remote := (jn_remote s)(r \<mapsto> m\<lparr>rm_objects := []\<rparr>)\<rparr>"
        have "new_proxy new r ?t = (Some obj, s')"
          using False assms(4) Remote m q(1,2)
          by (simp add: javaObjectForIBinder_def om_find_entry jniGetReferent_def om_detach_def)
        with new [of ?t] show ?thesis by simp
      qed
    qed
    then show ?thesis using Remote by (auto simp: ibinderForJavaObject_def)
  qed
qed

lemma java_object_roundtrip_witness:
  "fst (ibinderForJavaObject 99 (Some 20) jx2) = Some (Remote 10)"
proof -
  have j: "javaObjectForIBinder None (Some (Remote 10)) jx2 = (Some 20, jx2)"
    by (simp add: javaObjectForIBinder_def jx_eval om_find_entry jniGetReferent_def)
  show ?thesis
    by (rule java_object_roundtrip [OF jx_reach(1) _ _ j]) (simp_all add: jx_ext_def)
qed

text \<open>
  C23. A Java object that stands for a binder comes back from native code: the binder that
  \<open>ibinderForJavaObject\<close> returns for it, a proxy that Java can reach or a Java binder with a
  holder, converts to the same object, without a new one and without a change of the state.
\<close>

theorem native_binder_roundtrip:
  assumes "jni_reach (s, ext, wk)" and "jn_local s b = None"
    and "\<forall>x. jn_proxies s obj = Some x \<longrightarrow> px_reachable x"
    and "ibinderForJavaObject b (Some obj) s = (Some v, s')"
  shows "javaObjectForIBinder new (Some v) s' = (Some obj, s')"
proof (cases "jn_binders s obj")
  case (Some mo)
  note ok = jni_reach_ok [OF assms(1)]
  obtain h where h: "jn_binders s obj = Some (Some h)" "holder_get b h obj s = (Some v, s')"
    using Some assms(4) by (auto simp: ibinderForJavaObject_def split: option.splits)
  from jni_ok_holder_get [OF ok h(1) assms(2)] h(2) show ?thesis
    by (auto simp: javaObjectForIBinder_def)
next
  case None
  note ok = jni_okD(2) [OF jni_reach_ok [OF assms(1)]]
  obtain x r where x: "jn_proxies s obj = Some x" "px_mObject x = Some r" "v = Remote r"
      "s' = incStrong (Remote r) s"
    using None assms(4) by (auto simp: ibinderForJavaObject_def split: option.splits)
  with assms(3) have "px_reachable x" by blast
  with proxies_D(1) [OF ok x(1)] x show ?thesis
    by (auto simp: proxy_fields_ok_def javaObjectForIBinder_def incStrong_def jniGetReferent_def)
qed

lemma native_binder_roundtrip_witness:
  "javaObjectForIBinder None (Some (Remote 10)) (incStrong (Remote 10) jx2) = (Some 20, incStrong (Remote 10) jx2)"
  by (rule native_binder_roundtrip [OF jx_reach(1), of 99])
    (simp_all add: jx_eval ibinderForJavaObject_def)

end
