(* ===== verification/Jni_Calls.thy ===== *)
theory Jni_Calls
  imports Jni_Binder Ipc_Correct
begin

text \<open>
  The calls that Java code makes through \<open>jni/android_util_Binder.cpp\<close>, and those that
  native code makes into Java: the exceptions for native errors, transactions in both directions,
  the caller's identity, the recipients of death notifications with their lists, and the record of
  a sampled transaction for the event log.
\<close>

section \<open>Exceptions for errors\<close>

datatype jmsg = NoMsg | Text string | ParcelSizeMsg int | ErrorCodeMsg int

type_synonym jexc = "string \<times> jmsg"

datatype status =
    NO_ERROR | UNKNOWN_ERROR | NO_MEMORY | INVALID_OPERATION | BAD_VALUE | BAD_INDEX | BAD_TYPE
  | NAME_NOT_FOUND | PERMISSION_DENIED | NOT_ENOUGH_DATA | NO_INIT | ALREADY_EXISTS | DEAD_OBJECT
  | UNKNOWN_TRANSACTION | FAILED_TRANSACTION | FDS_NOT_ALLOWED | UNEXPECTED_NULL
  | EBADF | ENFILE | EMFILE | EFBIG | ENOSPC | ESPIPE | EROFS | EMLINK | OtherError int

definition nullPointerException :: jexc where
  "nullPointerException = (''java/lang/NullPointerException'', NoMsg)"

fun signalExceptionForError :: "status \<Rightarrow> bool \<Rightarrow> int \<Rightarrow> jexc" where
  "signalExceptionForError UNKNOWN_ERROR can sz = (''java/lang/RuntimeException'', Text ''Unknown error'')"
| "signalExceptionForError NO_MEMORY can sz = (''java/lang/OutOfMemoryError'', NoMsg)"
| "signalExceptionForError INVALID_OPERATION can sz = (''java/lang/UnsupportedOperationException'', NoMsg)"
| "signalExceptionForError BAD_VALUE can sz = (''java/lang/IllegalArgumentException'', NoMsg)"
| "signalExceptionForError BAD_INDEX can sz = (''java/lang/IndexOutOfBoundsException'', NoMsg)"
| "signalExceptionForError BAD_TYPE can sz = (''java/lang/IllegalArgumentException'', NoMsg)"
| "signalExceptionForError NAME_NOT_FOUND can sz = (''java/util/NoSuchElementException'', NoMsg)"
| "signalExceptionForError PERMISSION_DENIED can sz = (''java/lang/SecurityException'', NoMsg)"
| "signalExceptionForError NOT_ENOUGH_DATA can sz = (''android/os/ParcelFormatException'', Text ''Not enough data'')"
| "signalExceptionForError NO_INIT can sz = (''java/lang/RuntimeException'', Text ''Not initialized'')"
| "signalExceptionForError ALREADY_EXISTS can sz = (''java/lang/RuntimeException'', Text ''Item already exists'')"
| "signalExceptionForError DEAD_OBJECT can sz =
     (if can then ''android/os/DeadObjectException'' else ''java/lang/RuntimeException'', NoMsg)"
| "signalExceptionForError UNKNOWN_TRANSACTION can sz = (''java/lang/RuntimeException'', Text ''Unknown transaction code'')"
| "signalExceptionForError FAILED_TRANSACTION can sz =
     (if can \<and> sz > 200 * 1024 then (''android/os/TransactionTooLargeException'', ParcelSizeMsg sz)
      else (if can then ''android/os/DeadObjectException'' else ''java/lang/RuntimeException'',
            Text ''Transaction failed on small parcel; remote process probably died''))"
| "signalExceptionForError FDS_NOT_ALLOWED can sz =
     (''java/lang/RuntimeException'', Text ''Not allowed to write file descriptors here'')"
| "signalExceptionForError UNEXPECTED_NULL can sz = nullPointerException"
| "signalExceptionForError EBADF can sz = (''java/lang/RuntimeException'', Text ''Bad file descriptor'')"
| "signalExceptionForError ENFILE can sz = (''java/lang/RuntimeException'', Text ''File table overflow'')"
| "signalExceptionForError EMFILE can sz = (''java/lang/RuntimeException'', Text ''Too many open files'')"
| "signalExceptionForError EFBIG can sz = (''java/lang/RuntimeException'', Text ''File too large'')"
| "signalExceptionForError ENOSPC can sz = (''java/lang/RuntimeException'', Text ''No space left on device'')"
| "signalExceptionForError ESPIPE can sz = (''java/lang/RuntimeException'', Text ''Illegal seek'')"
| "signalExceptionForError EROFS can sz = (''java/lang/RuntimeException'', Text ''Read-only file system'')"
| "signalExceptionForError EMLINK can sz = (''java/lang/RuntimeException'', Text ''Too many links'')"
| "signalExceptionForError NO_ERROR can sz =
     (if can then ''android/os/RemoteException'' else ''java/lang/RuntimeException'', ErrorCodeMsg 0)"
| "signalExceptionForError (OtherError err) can sz =
     (if can then ''android/os/RemoteException'' else ''java/lang/RuntimeException'', ErrorCodeMsg err)"

section \<open>Transactions of a proxy\<close>

text \<open>
  A Java parcel is the native parcel in its field, 0 once it is finalized. What the transaction
  does to the native side is in the last component.
\<close>

definition parcelForJavaObject :: "'p option option \<Rightarrow> 'p option \<times> jexc option" where
  \<comment> \<open>the outer option is the object, the inner its field\<close>
  "parcelForJavaObject obj =
     (case obj of
        Some (Some p) \<Rightarrow> (Some p, None)
      | Some None \<Rightarrow> (None, Some (''java/lang/IllegalStateException'', Text ''Parcel has been finalized!''))
      | None \<Rightarrow> (None, None))"

definition android_os_BinderProxy_transact ::
    "('p \<Rightarrow> int) \<Rightarrow> (nid \<Rightarrow> 'p \<Rightarrow> 'p option \<Rightarrow> 'w \<Rightarrow> status \<times> 'w) \<Rightarrow> nid option \<Rightarrow>
     'p option option \<Rightarrow> 'p option option \<Rightarrow> 'w \<Rightarrow> bool \<times> jexc option \<times> 'w" where
  "android_os_BinderProxy_transact dataSize call mObject dataObj replyObj w =
     (if dataObj = None then (False, Some nullPointerException, w)
      else case parcelForJavaObject dataObj of
        (None, e) \<Rightarrow> (False, e, w)
      | (Some data, _) \<Rightarrow>
          (case parcelForJavaObject replyObj of (reply, e) \<Rightarrow>
           if reply = None \<and> replyObj \<noteq> None then (False, e, w)
           else case mObject of
             None \<Rightarrow> (False, Some (''java/lang/IllegalStateException'', Text ''Binder has been finalized!''), w)
           | Some target \<Rightarrow>
               (case call target data reply w of (err, w) \<Rightarrow>
                if err = NO_ERROR then (True, None, w)
                else if err = UNKNOWN_TRANSACTION then (False, None, w)
                else (False, Some (signalExceptionForError err True (dataSize data)), w))))"

definition android_os_BinderProxy_pingBinder :: "(nid \<Rightarrow> status) \<Rightarrow> nid option \<Rightarrow> bool" where
  "android_os_BinderProxy_pingBinder ping mObject =
     (case mObject of None \<Rightarrow> False | Some target \<Rightarrow> ping target = NO_ERROR)"

definition android_os_BinderProxy_isBinderAlive :: "(nid \<Rightarrow> bool) \<Rightarrow> nid option \<Rightarrow> bool" where
  "android_os_BinderProxy_isBinderAlive alive mObject =
     (case mObject of None \<Rightarrow> False | Some target \<Rightarrow> alive target)"

definition android_os_BinderProxy_getInterfaceDescriptor :: "(nid \<Rightarrow> u16 list) \<Rightarrow> nid option \<Rightarrow> u16 list option \<times> jexc option" where
  "android_os_BinderProxy_getInterfaceDescriptor desc mObject =
     (case mObject of
        Some target \<Rightarrow> (Some (desc target), None)
      | None \<Rightarrow> (None, Some (''java/lang/RuntimeException'', Text ''No binder found for object'')))"

section \<open>Transactions into Java\<close>

text \<open>
  An exception that Java code leaves: whether it is a \<open>java.lang.Error\<close>. Reporting it logs
  it through \<open>Log.e\<close>, when there is memory for the strings, and then ends the process for an
  \<open>Error\<close>.
\<close>

datatype jthrown = Exception | JavaError

datatype up_event =
    ExecTransact u32 | LogE string | SetBlockguardPolicy u32 | BaseOnTransact u32 | SendDeathNotice jid

definition report_exception :: "bool \<Rightarrow> jthrown \<Rightarrow> string \<Rightarrow> up_event list \<Rightarrow> up_event list cres" where
  "report_exception strings_ok excep msg evs =
     (if \<not> strings_ok then Ret evs
      else if excep = JavaError then Abort else Ret (evs @ [LogE msg]))"

definition uncaught :: string where
  "uncaught = ''*** Uncaught remote exception!  (Exceptions are not yet supported across processes.)''"

definition JavaBBinder_onTransact ::
    "u32 \<Rightarrow> bool \<Rightarrow> u32 \<Rightarrow> jthrown option \<times> bool \<Rightarrow> jthrown option \<Rightarrow> u32 \<Rightarrow> u32 \<Rightarrow>
     (status \<times> up_event list) cres" where
  \<comment> \<open>the code of \<open>SYSPROPS_TRANSACTION\<close>, whether strings can be made, the code called, the outcome
      of \<open>execTransact\<close> and of the policy callback, and the policy before and after the call\<close>
  "JavaBBinder_onTransact SYSPROPS_TRANSACTION strings_ok code java callback before after =
     (let evs = [ExecTransact code] in
      cbind (case fst java of
               None \<Rightarrow> Ret (snd java, evs)
             | Some excep \<Rightarrow> cbind (report_exception strings_ok excep uncaught evs) (\<lambda>evs. Ret (False, evs)))
        (\<lambda>(res, evs).
      cbind (if after \<noteq> before
             then let evs = evs @ [SetBlockguardPolicy before] in
               (case callback of
                  None \<Rightarrow> Ret evs
                | Some excep \<Rightarrow> report_exception strings_ok excep
                    ''*** Uncaught exception in onBinderStrictModePolicyChange'' evs)
             else Ret evs)
        (\<lambda>evs.
      let evs = (if code = SYSPROPS_TRANSACTION then evs @ [BaseOnTransact code] else evs)
      in Ret (if res then NO_ERROR else UNKNOWN_TRANSACTION, evs))))"

section \<open>The caller's identity\<close>

definition android_os_Binder_clearCallingIdentity :: "'w ipc_env \<Rightarrow> 'w ipc \<Rightarrow> u64 \<times> 'w ipc" where
  "android_os_Binder_clearCallingIdentity E st = clearCallingIdentity E st"

definition android_os_Binder_restoreCallingIdentity :: "u64 \<Rightarrow> 'w ipc \<Rightarrow> jexc option \<times> 'w ipc" where
  "android_os_Binder_restoreCallingIdentity token st =
     (let uid = sint (ucast (signed_drop_bit 32 token) :: u32) in
      if uid > 0 \<and> uid < 999
      then (Some (''java/lang/IllegalStateException'', Text ''Restoring bad calling ident''), st)
      else (None, restoreCallingIdentity token st))"

definition android_os_Binder_setThreadStrictModePolicy :: "u32 \<Rightarrow> 'w ipc \<Rightarrow> 'w ipc" where
  "android_os_Binder_setThreadStrictModePolicy policyMask st = setStrictModePolicy policyMask st"

section \<open>Death recipients\<close>

text \<open>
  The recipients that Java code registered on the proxies: each is a native object that holds the
  Java recipient, strongly until it was notified and weakly after, and is kept alive by the list of
  its proxy. \<open>ds_alive\<close> says which Java recipients still exist, for the weak references.
\<close>

record jdr_t =
  jd_mObject :: "jid option"
  jd_mObjectWeak :: "jid option"
  jd_mList :: nid

record deaths =
  ds_lists :: "nid \<rightharpoonup> nid list"
  ds_recipients :: "nid \<rightharpoonup> jdr_t"
  ds_alive :: "jid \<Rightarrow> bool"
  gNumDeathRefs :: int
  ds_jni :: jni \<comment> \<open>with the counter of references created\<close>

definition drl_add :: "nid \<Rightarrow> nid \<Rightarrow> deaths \<Rightarrow> deaths" where
  "drl_add l r s = s\<lparr>ds_lists := (ds_lists s)(l := map_option (\<lambda>rs. rs @ [r]) (ds_lists s l))\<rparr>"

definition drl_remove :: "nid \<Rightarrow> nid \<Rightarrow> deaths \<Rightarrow> deaths" where
  \<comment> \<open>the first occurrence\<close>
  "drl_remove l r s = s\<lparr>ds_lists := (ds_lists s)(l := map_option (remove1 r) (ds_lists s l))\<rparr>"

definition matches :: "deaths \<Rightarrow> jid \<Rightarrow> nid \<Rightarrow> bool" where
  "matches s obj r =
     (case ds_recipients s r of
        None \<Rightarrow> False
      | Some x \<Rightarrow>
          (case jd_mObject x of
             Some me \<Rightarrow> me = obj
           | None \<Rightarrow> (case jd_mObjectWeak x of None \<Rightarrow> False | Some me \<Rightarrow> ds_alive s me \<and> me = obj)))"

definition drl_find :: "nid \<Rightarrow> jid \<Rightarrow> deaths \<Rightarrow> nid option" where
  "drl_find l obj s = (case ds_lists s l of None \<Rightarrow> None | Some rs \<Rightarrow> find (matches s obj) rs)"

definition new_JavaDeathRecipient :: "nid \<Rightarrow> jid \<Rightarrow> nid \<Rightarrow> deaths \<Rightarrow> deaths" where
  "new_JavaDeathRecipient r obj l s =
     (drl_add l r s)\<lparr>ds_recipients := (ds_recipients s)(r \<mapsto>
         \<lparr>jd_mObject = Some obj, jd_mObjectWeak = None, jd_mList = l\<rparr>),
       gNumDeathRefs := gNumDeathRefs s + 1, ds_jni := incRefsCreated (ds_jni s)\<rparr>"

definition release_recipient :: "nid \<Rightarrow> deaths \<Rightarrow> deaths" where
  \<comment> \<open>a strong pointer to the recipient goes away: it is destroyed unless its list has it\<close>
  "release_recipient r s =
     (case ds_recipients s r of
        None \<Rightarrow> s
      | Some x \<Rightarrow>
          if (case ds_lists s (jd_mList x) of None \<Rightarrow> False | Some rs \<Rightarrow> List.member rs r) then s
          else s\<lparr>ds_recipients := (ds_recipients s)(r := None), gNumDeathRefs := gNumDeathRefs s - 1\<rparr>)"

definition clearReference :: "nid \<Rightarrow> deaths \<Rightarrow> deaths" where
  "clearReference r s =
     (case ds_recipients s r of
        None \<Rightarrow> s
      | Some x \<Rightarrow> if ds_lists s (jd_mList x) \<noteq> None then drl_remove (jd_mList x) r s else s)"


definition android_os_BinderProxy_linkToDeath ::
    "bool \<Rightarrow> bool \<Rightarrow> nid \<Rightarrow> status \<Rightarrow> nid option \<Rightarrow> nid \<Rightarrow> jid option \<Rightarrow> deaths \<Rightarrow> (jexc option \<times> deaths) cres" where
  \<comment> \<open>whether asserts are compiled out, whether the target is a local binder, the address of the new
      recipient, the answer of the target, the two fields of the proxy\<close>
  "android_os_BinderProxy_linkToDeath NDEBUG is_local r link mObject mOrgue recipient s =
     (case recipient of
        None \<Rightarrow> Ret (Some nullPointerException, s)
      | Some obj \<Rightarrow>
          (case mObject of
             None \<Rightarrow> if NDEBUG then Oob else Abort
           | Some target \<Rightarrow>
               if is_local then Ret (None, s)
               else let s = new_JavaDeathRecipient r obj mOrgue s in
                 if link \<noteq> NO_ERROR
                 then Ret (Some (signalExceptionForError link True 0), release_recipient r (clearReference r s))
                 else Ret (None, release_recipient r s)))"

definition android_os_BinderProxy_unlinkToDeath ::
    "bool \<Rightarrow> (nid \<Rightarrow> status \<times> nid option) \<Rightarrow> nid option \<Rightarrow> nid \<Rightarrow> jid option \<Rightarrow> deaths \<Rightarrow>
     bool \<times> jexc option \<times> deaths" where
  \<comment> \<open>the answer of the target for a recipient: a status and the recipient it unlinked\<close>
  "android_os_BinderProxy_unlinkToDeath is_local unlink mObject mOrgue recipient s =
     (case recipient of
        None \<Rightarrow> (False, Some nullPointerException, s)
      | Some obj \<Rightarrow>
          (case mObject of
             None \<Rightarrow> (False, None, s)
           | Some target \<Rightarrow>
               if is_local then (False, None, s)
               else
                 let (err, s') =
                   (case drl_find mOrgue obj s of
                      None \<Rightarrow> (NAME_NOT_FOUND, s)
                    | Some orig \<Rightarrow>
                        (case unlink orig of (err, dr) \<Rightarrow>
                         (err, release_recipient orig
                            (case dr of
                               None \<Rightarrow> s
                             | Some r \<Rightarrow> if err = NO_ERROR \<and> ds_recipients s r \<noteq> None
                                         then clearReference r s else s))))
                 in if err = NO_ERROR \<or> err = DEAD_OBJECT then (True, None, s')
                    else (False, Some (''java/util/NoSuchElementException'', Text ''Death link does not exist''), s')))"

section \<open>The event log record of a sampled transaction\<close>

text \<open>A buffer being filled: what was written, and the room up to \<open>end\<close>.\<close>

definition EVENT_TYPE_INT :: u8 where "EVENT_TYPE_INT = 0"
definition EVENT_TYPE_STRING :: u8 where "EVENT_TYPE_STRING = 2"
definition EVENT_TYPE_LIST :: u8 where "EVENT_TYPE_LIST = 3"

definition int_bytes :: "u32 \<Rightarrow> bytes" where
  \<comment> \<open>\<open>memcpy\<close> of an integer on a little-endian processor\<close>
  "int_bytes v = map (\<lambda>i. ucast (drop_bit (8 * i) v)) [0..<4]"

definition push_eventlog_string :: "nat \<Rightarrow> bytes \<Rightarrow> bytes \<Rightarrow> bytes option" where
  "push_eventlog_string end' buf str =
     (let space_needed = 1 + 4 + length str in
      if end' < length buf + space_needed then None
      else Some (buf @ [EVENT_TYPE_STRING] @ int_bytes (of_nat (length str)) @ str))"

definition push_eventlog_int :: "nat \<Rightarrow> bytes \<Rightarrow> u32 \<Rightarrow> bytes option" where
  "push_eventlog_int end' buf val =
     (let space_needed = 1 + 4 in
      if end' < length buf + space_needed then None
      else Some (buf @ [EVENT_TYPE_INT] @ int_bytes val))"

definition sample_percent :: "int \<Rightarrow> int \<Rightarrow> int option" where
  \<comment> \<open>for a duration and the value of \<open>random() % 100\<close>; \<open>None\<close> when the call is not logged\<close>
  "sample_percent duration_ms rnd =
     (if duration_ms \<ge> 500 then Some 100
      else let p = (100 * duration_ms) div 500 in
        if p = 0 then None else if p < rnd + 1 then None else Some p)"

definition conditionally_log_binder_call :: "nat \<Rightarrow> bytes \<Rightarrow> u32 \<Rightarrow> nat \<Rightarrow> int \<Rightarrow> bytes \<Rightarrow> bytes option" where
  \<comment> \<open>the payload size, the descriptor, the code, the duration, the random value, the process name\<close>
  "conditionally_log_binder_call PAYLOAD desc code duration_ms rnd process_name =
     (case sample_percent (int duration_ms) rnd of
        None \<Rightarrow> None
      | Some percent \<Rightarrow>
          let end' = PAYLOAD - 1 in
          Option.bind (push_eventlog_string end' [EVENT_TYPE_LIST, 5] desc) (\<lambda>buf.
          Option.bind (push_eventlog_int end' buf code) (\<lambda>buf.
          Option.bind (push_eventlog_int end' buf (of_nat duration_ms)) (\<lambda>buf.
          Option.bind (push_eventlog_string end' buf process_name) (\<lambda>buf.
          Option.bind (push_eventlog_int end' buf (of_int percent)) (\<lambda>buf.
          Some (buf @ [10])))))))"

definition getprocname :: "bytes option \<Rightarrow> nat \<Rightarrow> int \<times> bytes" where
  \<comment> \<open>for the first line of the command line file, if it can be opened; empty when nothing is read\<close>
  "getprocname file len =
     (case file of
        None \<Rightarrow> (1, [])
      | Some line \<Rightarrow> if line = [] then (2, []) else (0, takeWhile (\<lambda>c. c \<noteq> 0) (take (len - 1) line)))"

section \<open>What the calls promise\<close>

definition checked_exceptions :: "string set" where
  "checked_exceptions =
     {''android/os/RemoteException'', ''android/os/DeadObjectException'', ''android/os/TransactionTooLargeException''}"

text \<open>
  A native error becomes a checked remote exception only where the caller allows it, and then
  exactly for a dead object, a failed transaction and codes that are not known; a transaction is
  called too large exactly when it failed with more than 200 kB of data.
\<close>

theorem checked_exceptions_only_when_allowed:
  "(fst (signalExceptionForError err can sz) \<in> checked_exceptions \<longleftrightarrow>
      can \<and> (err \<in> {DEAD_OBJECT, FAILED_TRANSACTION, NO_ERROR} \<or> (\<exists>n. err = OtherError n))) \<and>
   (fst (signalExceptionForError err can sz) = ''android/os/TransactionTooLargeException'' \<longleftrightarrow>
      can \<and> err = FAILED_TRANSACTION \<and> 204800 < sz)"
  by (cases err) (auto simp: checked_exceptions_def nullPointerException_def)

text \<open>
  A call into Java answers with the unknown-transaction error, instead of an exception, when
  Java code throws or declines, and hands the policy of the thread back to Java exactly when the
  call changed it; an \<open>Error\<close> ends the process as long as it can be reported.
\<close>

theorem onTransact_outcome:
  assumes "JavaBBinder_onTransact sysprops ok code (excep, res) None before after = Ret (st, evs)"
  shows "st = (if excep = None \<and> res then NO_ERROR else UNKNOWN_TRANSACTION)
    \<and> (SetBlockguardPolicy p \<in> set evs \<longleftrightarrow> p = before \<and> after \<noteq> before)
    \<and> (BaseOnTransact c \<in> set evs \<longleftrightarrow> c = code \<and> code = sysprops)
    \<and> \<not> (ok \<and> excep = Some JavaError)"
  using assms by (cases excep) (auto simp: JavaBBinder_onTransact_def report_exception_def Let_def split: if_splits)

lemma onTransact_outcome_witness:
  "JavaBBinder_onTransact 9 True 4 (Some Exception, True) None 0 1
     = Ret (UNKNOWN_TRANSACTION, [ExecTransact 4, LogE uncaught, SetBlockguardPolicy 0])
   \<and> (SetBlockguardPolicy 0 \<in> set [ExecTransact 4, LogE uncaught, SetBlockguardPolicy 0])"
proof -
  have run: "JavaBBinder_onTransact 9 True 4 (Some Exception, True) None 0 1
      = Ret (UNKNOWN_TRANSACTION, [ExecTransact 4, LogE uncaught, SetBlockguardPolicy 0])"
    by (simp add: JavaBBinder_onTransact_def report_exception_def)
  from onTransact_outcome [OF run, of 0 4] run show ?thesis by simp
qed

text \<open>
  Java code that clears the calling identity and restores it gets the thread's state back
  unless the caller's uid is between 1 and 998, where the restoration throws and the identity stays
  cleared, or its pid is negative.
\<close>

theorem java_identity_roundtrip:
  assumes "\<not> bit (mCallingPid st) 31"
  shows "(case android_os_Binder_clearCallingIdentity E st of (token, st1) \<Rightarrow>
            android_os_Binder_restoreCallingIdentity token st1) =
    (if 0 < sint (mCallingUid st) \<and> sint (mCallingUid st) < 999
     then (Some (''java/lang/IllegalStateException'', Text ''Restoring bad calling ident''), clearCaller E st)
     else (None, st))"
proof -
  let ?token = "identity_token (mCallingUid st) (mCallingPid st)"
  have "restoreCallingIdentity ?token (clearCaller E st) = st"
    using assms identity_token_uid [of "mCallingUid st" "mCallingPid st"] identity_token_pid [of "mCallingUid st" "mCallingPid st"]
    by (cases st) (simp add: restoreCallingIdentity_def clearCaller_def)
  moreover have "clearCallingIdentity E st = (?token, clearCaller E st)"
    by (simp add: clearCallingIdentity_def identity_token_def)
  ultimately show ?thesis
    using identity_token_uid [of "mCallingUid st" "mCallingPid st"] assms
    by (simp add: android_os_Binder_clearCallingIdentity_def android_os_Binder_restoreCallingIdentity_def Let_def)
qed

lemma java_identity_roundtrip_witness:
  "\<exists>st :: unit ipc. (case android_os_Binder_clearCallingIdentity E st of (token, st1) \<Rightarrow>
      android_os_Binder_restoreCallingIdentity token st1) = (None, st)"
proof -
  define st :: "unit ipc" where "st = undefined\<lparr>mCallingPid := 5, mCallingUid := 1000\<rparr>"
  have "\<not> bit (mCallingPid st) 31" by (simp add: st_def)
  from java_identity_roundtrip [OF this, of E] have
    "(case android_os_Binder_clearCallingIdentity E st of (token, st1) \<Rightarrow>
      android_os_Binder_restoreCallingIdentity token st1) = (None, st)"
    by (simp add: st_def)
  then show ?thesis by blast
qed

section \<open>Lists of death recipients\<close>

definition unused :: "nid \<Rightarrow> deaths \<Rightarrow> bool" where
  \<comment> \<open>the address of a new recipient\<close>
  "unused r s \<longleftrightarrow> ds_recipients s r = None \<and> (\<forall>l rs. ds_lists s l = Some rs \<longrightarrow> r \<notin> set rs)"

lemma linked_lists:
  "ds_lists s l = Some rs \<Longrightarrow> ds_lists (new_JavaDeathRecipient r obj l s) = (ds_lists s)(l \<mapsto> rs @ [r])"
  "ds_recipients (new_JavaDeathRecipient r obj l s) = (ds_recipients s)(r \<mapsto>
     \<lparr>jd_mObject = Some obj, jd_mObjectWeak = None, jd_mList = l\<rparr>)"
  "ds_alive (new_JavaDeathRecipient r obj l s) = ds_alive s"
  "gNumDeathRefs (new_JavaDeathRecipient r obj l s) = gNumDeathRefs s + 1"
  "ds_jni (new_JavaDeathRecipient r obj l s) = incRefsCreated (ds_jni s)"
  by (simp_all add: new_JavaDeathRecipient_def drl_add_def)


text \<open>Removing a recipient that was appended, and its last pointer, undoes its registration.\<close>

lemma clear_and_release:
  assumes "unused r s" "ds_lists s l = Some rs" "jd_mList x = l"
    and "ds_lists t = (ds_lists s)(l \<mapsto> rs @ [r])" "ds_recipients t = (ds_recipients s)(r \<mapsto> x)"
    and "ds_alive t = ds_alive s" "gNumDeathRefs t = gNumDeathRefs s + 1"
  shows "release_recipient r (clearReference r t) = s\<lparr>ds_jni := ds_jni t\<rparr>"
proof -
  have "r \<notin> set rs" using assms(1,2) by (auto simp: unused_def)
  then have rm: "clearReference r t = t\<lparr>ds_lists := ds_lists s\<rparr>"
    using assms(2-5) by (simp add: clearReference_def drl_remove_def remove1_append fun_upd_idem)
  have "ds_recipients s r = None" using assms(1) by (simp add: unused_def)
  then show ?thesis
    unfolding rm release_recipient_def using assms(2,3,5-7) \<open>r \<notin> set rs\<close>
    by (intro deaths.equality) (simp_all add: fun_upd_idem)
qed

text \<open>
  A link to death that the native binder refuses throws the exception for its error and leaves
  no trace: the list of the proxy, the recipients and their count are as before; only the counter
  that makes the collector run has moved on.
\<close>

theorem failed_link_leaves_no_trace:
  assumes "unused r s" and "ds_lists s l = Some rs" and "link \<noteq> NO_ERROR"
  shows "android_os_BinderProxy_linkToDeath NDEBUG False r link (Some target) l (Some obj) s =
    Ret (Some (signalExceptionForError link True 0), s\<lparr>ds_jni := incRefsCreated (ds_jni s)\<rparr>)"
  using assms clear_and_release [OF assms(1,2), of "\<lparr>jd_mObject = Some obj, jd_mObjectWeak = None, jd_mList = l\<rparr>"
      "new_JavaDeathRecipient r obj l s"]
  by (simp add: android_os_BinderProxy_linkToDeath_def linked_lists Let_def)

definition one_list :: deaths where
  "one_list = \<lparr>ds_lists = [7 \<mapsto> []], ds_recipients = Map.empty, ds_alive = (\<lambda>_. True), gNumDeathRefs = 0,
     ds_jni = jni_start\<rparr>"

lemma failed_link_leaves_no_trace_witness:
  "android_os_BinderProxy_linkToDeath True False 40 DEAD_OBJECT (Some 10) 7 (Some 20) one_list =
     Ret (Some (''android/os/DeadObjectException'', NoMsg), one_list\<lparr>ds_jni := incRefsCreated jni_start\<rparr>)"
  using failed_link_leaves_no_trace [of 40 one_list 7 "[]" DEAD_OBJECT True 10 20]
  by (simp add: unused_def one_list_def)






text \<open>
  Linking a recipient to a proxy that lost its binder never throws: it ends the process, or
  reads through a null pointer where asserts are compiled out. Unlinking returns false there.
\<close>

theorem link_on_finalized_proxy:
  "android_os_BinderProxy_linkToDeath NDEBUG is_local r link None l (Some obj) s = (if NDEBUG then Oob else Abort) \<and>
   android_os_BinderProxy_unlinkToDeath is_local unlink None l (Some obj) s = (False, None, s)"
  by (simp add: android_os_BinderProxy_linkToDeath_def android_os_BinderProxy_unlinkToDeath_def)

section \<open>The event log record\<close>

lemma push_lengths:
  "push_eventlog_string e buf str = Some b \<Longrightarrow> length b = length buf + 5 + length str \<and> length b \<le> e"
  "push_eventlog_int e buf v = Some b \<Longrightarrow> length b = length buf + 5 \<and> length b \<le> e"
  by (auto simp: push_eventlog_string_def push_eventlog_int_def int_bytes_def Let_def split: if_splits)

text \<open>
  C28. The record of a sampled transaction fits in the payload of a log entry, with its final newline,
  for every descriptor and process name; it is written exactly when the call is sampled and the two
  strings leave room for the other fields.
\<close>

theorem event_record_fits:
  "(\<forall>b \<in> set_option (conditionally_log_binder_call n desc code d rnd name). length b \<le> n \<and> last b = 10) \<and>
   (conditionally_log_binder_call n desc code d rnd name \<noteq> None \<longleftrightarrow>
      sample_percent (int d) rnd \<noteq> None \<and> length desc + length name + 28 \<le> n)"
proof (cases "sample_percent (int d) rnd")
  case None then show ?thesis by (simp add: conditionally_log_binder_call_def)
next
  case (Some p)
  then show ?thesis
    by (auto simp: conditionally_log_binder_call_def push_eventlog_string_def push_eventlog_int_def
        int_bytes_def Let_def bind_eq_Some_conv split: if_splits)
qed

lemma event_record_fits_witness:
  "length (the (conditionally_log_binder_call 64 [65] 1 600 0 [66, 67])) \<le> 64"
proof -
  have "sample_percent (int 600) 0 \<noteq> None" by (simp add: sample_percent_def)
  then have "conditionally_log_binder_call 64 [65] 1 600 0 [66, 67] \<noteq> None"
    using event_record_fits [of 64 "[65]" 1 600 0 "[66, 67]"] by simp
  then show ?thesis using event_record_fits [of 64 "[65]" 1 600 0 "[66, 67]"] by auto
qed

end
