(* ===== verification/Jni_Parcel.thy ===== *)
theory Jni_Parcel
  imports Jni_Calls
begin

text \<open>
  The parcel class of Java, \<open>jni/android_os_Parcel.cpp\<close>: each method works on the native parcel
  whose address is in the field of the Java object, does nothing when it is 0, and turns the errors
  of the native parcel into exceptions. The native parcel is not part of the repository: its
  operations are parameters. Arrays and strings of Java are byte and character lists; the virtual
  machine may refuse to give access to one.
\<close>

section \<open>The native parcel\<close>

record 'p parcel_ops =
  po_dataSize :: "'p \<Rightarrow> int"
  po_dataAvail :: "'p \<Rightarrow> int"
  po_dataPosition :: "'p \<Rightarrow> int"
  po_dataCapacity :: "'p \<Rightarrow> int"
  po_setDataSize :: "int \<Rightarrow> 'p \<Rightarrow> status \<times> 'p"
  po_setDataPosition :: "int \<Rightarrow> 'p \<Rightarrow> 'p"
  po_setDataCapacity :: "int \<Rightarrow> 'p \<Rightarrow> status \<times> 'p"
  po_pushAllowFds :: "bool \<Rightarrow> 'p \<Rightarrow> bool \<times> 'p"
  po_restoreAllowFds :: "bool \<Rightarrow> 'p \<Rightarrow> 'p"
  po_writeInt32 :: "int \<Rightarrow> 'p \<Rightarrow> status \<times> 'p"
  po_writeInt64 :: "int \<Rightarrow> 'p \<Rightarrow> status \<times> 'p"
  po_writeFloat :: "u32 \<Rightarrow> 'p \<Rightarrow> status \<times> 'p" \<comment> \<open>a number by its bits\<close>
  po_writeDouble :: "64 word \<Rightarrow> 'p \<Rightarrow> status \<times> 'p"
  po_writeInplace :: "int \<Rightarrow> 'p \<Rightarrow> (bytes \<Rightarrow> 'p) option" \<comment> \<open>the parcel once the room is filled\<close>
  po_writeBlob :: "int \<Rightarrow> 'p \<Rightarrow> status \<times> (bytes \<Rightarrow> 'p)" \<comment> \<open>with nothing to fill when it fails\<close>
  po_writeString16 :: "u16 list option \<Rightarrow> 'p \<Rightarrow> status \<times> 'p"
  po_writeStrongBinder :: "ibinder option \<Rightarrow> 'p \<Rightarrow> status \<times> 'p"
  po_writeDupFileDescriptor :: "int \<Rightarrow> 'p \<Rightarrow> status \<times> 'p"
  po_readInt32 :: "'p \<Rightarrow> int \<times> 'p"
  po_readInt64 :: "'p \<Rightarrow> int \<times> 'p"
  po_readFloat :: "'p \<Rightarrow> u32 \<times> 'p"
  po_readDouble :: "'p \<Rightarrow> 64 word \<times> 'p"
  po_readInplace :: "int \<Rightarrow> 'p \<Rightarrow> bytes option \<times> 'p"
  po_readBlob :: "int \<Rightarrow> 'p \<Rightarrow> status \<times> bytes \<times> 'p"
  po_readString16 :: "'p \<Rightarrow> u16 list option \<times> 'p"
  po_readStrongBinder :: "'p \<Rightarrow> ibinder option \<times> 'p"
  po_readFileDescriptor :: "'p \<Rightarrow> int \<times> 'p"
  po_new :: 'p
  po_freeData :: "'p \<Rightarrow> 'p"
  po_objectsCount :: "'p \<Rightarrow> nat"
  po_data :: "'p \<Rightarrow> bytes"
  po_compareData :: "'p \<Rightarrow> 'p \<Rightarrow> int"
  po_appendFrom :: "'p \<Rightarrow> int \<Rightarrow> int \<Rightarrow> 'p \<Rightarrow> status \<times> 'p"
  po_hasFileDescriptors :: "'p \<Rightarrow> bool"
  po_openAshmemSize :: "'p \<Rightarrow> int"
  po_blobAshmemSize :: "'p \<Rightarrow> int"
  po_writeInterfaceToken :: "u16 list \<Rightarrow> 'p \<Rightarrow> 'p"
  po_enforceInterface :: "u16 list \<Rightarrow> 'p \<Rightarrow> bool \<times> u32 \<times> 'p" \<comment> \<open>validity, the thread's policy after it\<close>

text \<open>Every method begins with the test of the native pointer.\<close>

definition on_parcel :: "'r \<Rightarrow> ('p \<Rightarrow> 'r \<times> 'p) \<Rightarrow> 'p option \<Rightarrow> 'r \<times> 'p option" where
  "on_parcel dflt f nativePtr =
     (case nativePtr of None \<Rightarrow> (dflt, None) | Some p \<Rightarrow> (case f p of (r, p) \<Rightarrow> (r, Some p)))"

definition exception_for :: "status \<Rightarrow> jexc option" where
  "exception_for err = (if err = NO_ERROR then None else Some (signalExceptionForError err False 0))"

definition reporting :: "status \<times> 'p \<Rightarrow> jexc option \<times> 'p" where
  "reporting r = (case r of (err, p) \<Rightarrow> (exception_for err, p))"

definition reading :: "('p \<Rightarrow> 'r) \<Rightarrow> 'p \<Rightarrow> 'r \<times> 'p" where
  "reading f p = (f p, p)"

section \<open>Sizes and positions\<close>

definition android_os_Parcel_dataSize :: "'p parcel_ops \<Rightarrow> 'p option \<Rightarrow> int \<times> 'p option" where
  "android_os_Parcel_dataSize N = on_parcel 0 (reading (po_dataSize N))"

definition android_os_Parcel_dataAvail :: "'p parcel_ops \<Rightarrow> 'p option \<Rightarrow> int \<times> 'p option" where
  "android_os_Parcel_dataAvail N = on_parcel 0 (reading (po_dataAvail N))"

definition android_os_Parcel_dataPosition :: "'p parcel_ops \<Rightarrow> 'p option \<Rightarrow> int \<times> 'p option" where
  "android_os_Parcel_dataPosition N = on_parcel 0 (reading (po_dataPosition N))"

definition android_os_Parcel_dataCapacity :: "'p parcel_ops \<Rightarrow> 'p option \<Rightarrow> int \<times> 'p option" where
  "android_os_Parcel_dataCapacity N = on_parcel 0 (reading (po_dataCapacity N))"

definition android_os_Parcel_setDataSize :: "'p parcel_ops \<Rightarrow> int \<Rightarrow> 'p option \<Rightarrow> (jexc option \<times> int) \<times> 'p option" where
  "android_os_Parcel_setDataSize N size' = on_parcel (None, 0)
     (\<lambda>p. case po_setDataSize N size' p of (err, p) \<Rightarrow> ((exception_for err, po_openAshmemSize N p), p))"

definition android_os_Parcel_setDataPosition :: "'p parcel_ops \<Rightarrow> int \<Rightarrow> 'p option \<Rightarrow> unit \<times> 'p option" where
  "android_os_Parcel_setDataPosition N pos = on_parcel () (\<lambda>p. ((), po_setDataPosition N pos p))"

definition android_os_Parcel_setDataCapacity :: "'p parcel_ops \<Rightarrow> int \<Rightarrow> 'p option \<Rightarrow> jexc option \<times> 'p option" where
  "android_os_Parcel_setDataCapacity N size' = on_parcel None (\<lambda>p. reporting (po_setDataCapacity N size' p))"

definition android_os_Parcel_pushAllowFds :: "'p parcel_ops \<Rightarrow> bool \<Rightarrow> 'p option \<Rightarrow> bool \<times> 'p option" where
  "android_os_Parcel_pushAllowFds N allowFds = on_parcel True (po_pushAllowFds N allowFds)"

definition android_os_Parcel_restoreAllowFds :: "'p parcel_ops \<Rightarrow> bool \<Rightarrow> 'p option \<Rightarrow> unit \<times> 'p option" where
  "android_os_Parcel_restoreAllowFds N lastValue = on_parcel () (\<lambda>p. ((), po_restoreAllowFds N lastValue p))"

section \<open>Byte arrays\<close>

definition copy_range :: "bytes \<Rightarrow> int \<Rightarrow> int \<Rightarrow> bytes cres" where
  \<comment> \<open>\<open>memcpy\<close> of \<open>len\<close> bytes from \<open>ar + offset\<close>\<close>
  "copy_range ar offset len =
     (if 0 \<le> offset \<and> 0 \<le> len \<and> offset + len \<le> int (length ar)
      then Ret (take (nat len) (drop (nat offset) ar)) else Oob)"

text \<open>
  \<open>critical\<close> says whether the virtual machine gives access to the array; the room reserved in
  the parcel keeps the bytes \<open>junk\<close> when it does not.
\<close>

definition android_os_Parcel_writeNative ::
    "'p parcel_ops \<Rightarrow> bool \<Rightarrow> bytes \<Rightarrow> bytes \<Rightarrow> int \<Rightarrow> int \<Rightarrow> 'p option \<Rightarrow> (jexc option \<times> 'p option) cres" where
  "android_os_Parcel_writeNative N critical junk data offset len nativePtr =
     (case nativePtr of
        None \<Rightarrow> Ret (None, None)
      | Some p \<Rightarrow>
          (case po_writeInt32 N len p of (err, p) \<Rightarrow>
           if err \<noteq> NO_ERROR then Ret (exception_for err, Some p)
           else case po_writeInplace N len p of
             None \<Rightarrow> Ret (exception_for NO_MEMORY, Some p)
           | Some fill \<Rightarrow>
               if \<not> critical then Ret (None, Some (fill junk))
               else cbind (copy_range data offset len) (\<lambda>bs. Ret (None, Some (fill bs)))))"

definition android_os_Parcel_writeBlob ::
    "'p parcel_ops \<Rightarrow> bool \<Rightarrow> bytes option \<Rightarrow> int \<Rightarrow> int \<Rightarrow> 'p option \<Rightarrow> (jexc option \<times> 'p option) cres" where
  "android_os_Parcel_writeBlob N critical data offset len nativePtr =
     (case nativePtr of
        None \<Rightarrow> Ret (None, None)
      | Some p \<Rightarrow>
          (case data of
             None \<Rightarrow> (case po_writeInt32 N (- 1) p of (err, p) \<Rightarrow> Ret (exception_for err, Some p))
           | Some ar \<Rightarrow>
               (case po_writeInt32 N len p of (err, p) \<Rightarrow>
                if err \<noteq> NO_ERROR then Ret (exception_for err, Some p)
                else case po_writeBlob N len p of (err2, fill) \<Rightarrow>
                  if err2 \<noteq> NO_ERROR then Ret (exception_for err2, Some (fill []))
                  else if \<not> critical then Ret (None, Some (fill (replicate (nat len) 0)))
                  else cbind (copy_range ar offset len) (\<lambda>bs. Ret (None, Some (fill bs))))))"

definition android_os_Parcel_createByteArray ::
    "'p parcel_ops \<Rightarrow> (int \<Rightarrow> bool) \<Rightarrow> bool \<Rightarrow> 'p option \<Rightarrow> (bytes option \<times> 'p option) cres" where
  \<comment> \<open>whether \<open>NewByteArray\<close> has room for a length; a new array holds zeros. The result of
      \<open>readInplace\<close> is not checked\<close>
  "android_os_Parcel_createByteArray N room critical nativePtr =
     (case nativePtr of
        None \<Rightarrow> Ret (None, None)
      | Some p \<Rightarrow>
          (case po_readInt32 N p of (len, p) \<Rightarrow>
           if 0 \<le> len \<and> len \<le> po_dataAvail N p \<and> room len
           then if critical
                then (case po_readInplace N len p of
                        (None, p) \<Rightarrow> Oob
                      | (Some data, p) \<Rightarrow> Ret (Some data, Some p))
                else Ret (Some (replicate (nat len) 0), Some p)
           else Ret (None, Some p)))"

definition android_os_Parcel_readBlob ::
    "'p parcel_ops \<Rightarrow> (int \<Rightarrow> bool) \<Rightarrow> bool \<Rightarrow> 'p option \<Rightarrow> (bytes option \<times> jexc option) \<times> 'p option" where
  "android_os_Parcel_readBlob N room critical = on_parcel (None, None)
     (\<lambda>p. case po_readInt32 N p of (len, p) \<Rightarrow>
        if len < 0 then ((None, None), p)
        else case po_readBlob N len p of (err, data, p) \<Rightarrow>
          if err \<noteq> NO_ERROR then ((None, exception_for err), p)
          else ((if \<not> room len then None else Some (if critical then data else replicate (nat len) 0), None), p))"

definition android_os_Parcel_marshall ::
    "'p parcel_ops \<Rightarrow> (int \<Rightarrow> bool) \<Rightarrow> bool \<Rightarrow> 'p option \<Rightarrow> bytes option \<times> jexc option" where
  "android_os_Parcel_marshall N room critical nativePtr =
     (case nativePtr of
        None \<Rightarrow> (None, None)
      | Some p \<Rightarrow>
          if po_objectsCount N p \<noteq> 0
          then (None, Some (''java/lang/RuntimeException'', Text ''Tried to marshall a Parcel that contained Binder objects.''))
          else if \<not> room (po_dataSize N p) then (None, None)
          else (Some (if critical then take (nat (po_dataSize N p)) (po_data N p)
                      else replicate (nat (po_dataSize N p)) 0), None))"

definition android_os_Parcel_unmarshall ::
    "'p parcel_ops \<Rightarrow> bool \<Rightarrow> bytes \<Rightarrow> int \<Rightarrow> int \<Rightarrow> 'p option \<Rightarrow> (int \<times> 'p option) cres" where
  \<comment> \<open>neither the range nor the result of \<open>writeInplace\<close> is checked\<close>
  "android_os_Parcel_unmarshall N critical data offset len nativePtr =
     (case nativePtr of
        None \<Rightarrow> Ret (0, None)
      | Some p \<Rightarrow>
          if len < 0 then Ret (0, Some p)
          else if \<not> critical then Ret (po_openAshmemSize N p, Some p)
          else let p = po_setDataPosition N 0 (snd (po_setDataSize N len p)) in
            (case po_writeInplace N len p of
               None \<Rightarrow> Oob
             | Some fill \<Rightarrow> cbind (copy_range data offset len) (\<lambda>bs.
                 Ret (po_openAshmemSize N (fill bs), Some (fill bs)))))"

section \<open>Numbers, strings and binders\<close>

definition android_os_Parcel_writeInt :: "'p parcel_ops \<Rightarrow> int \<Rightarrow> 'p option \<Rightarrow> jexc option \<times> 'p option" where
  "android_os_Parcel_writeInt N val = on_parcel None (\<lambda>p. reporting (po_writeInt32 N val p))"

definition android_os_Parcel_writeLong :: "'p parcel_ops \<Rightarrow> int \<Rightarrow> 'p option \<Rightarrow> jexc option \<times> 'p option" where
  "android_os_Parcel_writeLong N val = on_parcel None (\<lambda>p. reporting (po_writeInt64 N val p))"

definition android_os_Parcel_writeFloat :: "'p parcel_ops \<Rightarrow> u32 \<Rightarrow> 'p option \<Rightarrow> jexc option \<times> 'p option" where
  "android_os_Parcel_writeFloat N val = on_parcel None (\<lambda>p. reporting (po_writeFloat N val p))"

definition android_os_Parcel_writeDouble :: "'p parcel_ops \<Rightarrow> 64 word \<Rightarrow> 'p option \<Rightarrow> jexc option \<times> 'p option" where
  "android_os_Parcel_writeDouble N val = on_parcel None (\<lambda>p. reporting (po_writeDouble N val p))"

definition android_os_Parcel_writeString :: "'p parcel_ops \<Rightarrow> bool \<Rightarrow> u16 list option \<Rightarrow> 'p option \<Rightarrow> jexc option \<times> 'p option" where
  "android_os_Parcel_writeString N critical val = on_parcel None
     (\<lambda>p. case val of
        Some str \<Rightarrow> if critical then reporting (po_writeString16 N (Some str) p) else reporting (NO_MEMORY, p)
      | None \<Rightarrow> reporting (po_writeString16 N None p))"

definition android_os_Parcel_writeStrongBinder ::
    "'p parcel_ops \<Rightarrow> nid \<Rightarrow> jid option \<Rightarrow> jni \<Rightarrow> 'p option \<Rightarrow> (jexc option \<times> jni) \<times> 'p option" where
  \<comment> \<open>the strong pointer of the conversion ends with the call\<close>
  "android_os_Parcel_writeStrongBinder N new obj s = on_parcel (None, s)
     (\<lambda>p. case ibinderForJavaObject new obj s of (b, s) \<Rightarrow>
        (case po_writeStrongBinder N b p of (err, p) \<Rightarrow>
           ((exception_for err, case b of None \<Rightarrow> s | Some v \<Rightarrow> decStrong v s), p)))"

definition android_os_Parcel_readInt :: "'p parcel_ops \<Rightarrow> 'p option \<Rightarrow> int \<times> 'p option" where
  "android_os_Parcel_readInt N = on_parcel 0 (po_readInt32 N)"

definition android_os_Parcel_readLong :: "'p parcel_ops \<Rightarrow> 'p option \<Rightarrow> int \<times> 'p option" where
  "android_os_Parcel_readLong N = on_parcel 0 (po_readInt64 N)"

definition android_os_Parcel_readFloat :: "'p parcel_ops \<Rightarrow> 'p option \<Rightarrow> u32 \<times> 'p option" where
  "android_os_Parcel_readFloat N = on_parcel 0 (po_readFloat N)"

definition android_os_Parcel_readDouble :: "'p parcel_ops \<Rightarrow> 'p option \<Rightarrow> 64 word \<times> 'p option" where
  "android_os_Parcel_readDouble N = on_parcel 0 (po_readDouble N)"

definition android_os_Parcel_readString :: "'p parcel_ops \<Rightarrow> 'p option \<Rightarrow> u16 list option \<times> 'p option" where
  "android_os_Parcel_readString N = on_parcel None (po_readString16 N)"

definition android_os_Parcel_readStrongBinder ::
    "'p parcel_ops \<Rightarrow> (jid \<times> nid) option \<Rightarrow> jni \<Rightarrow> 'p option \<Rightarrow> (jid option \<times> jni) \<times> 'p option" where
  "android_os_Parcel_readStrongBinder N new s = on_parcel (None, s)
     (\<lambda>p. case po_readStrongBinder N p of (b, p) \<Rightarrow> (javaObjectForIBinder new b s, p))"

definition android_os_Parcel_writeInterfaceToken :: "'p parcel_ops \<Rightarrow> bool \<Rightarrow> u16 list \<Rightarrow> 'p option \<Rightarrow> unit \<times> 'p option" where
  "android_os_Parcel_writeInterfaceToken N critical name = on_parcel ()
     (\<lambda>p. ((), if critical then po_writeInterfaceToken N name p else p))"

definition android_os_Parcel_enforceInterface ::
    "'p parcel_ops \<Rightarrow> bool \<Rightarrow> u16 list \<Rightarrow> u32 \<Rightarrow> 'p option \<Rightarrow> (jexc option \<times> up_event list) \<times> 'p option" where
  \<comment> \<open>for the thread's policy before the call; the upcall into Java is an event. For a null pointer the
      exception at the end of the function is thrown as well\<close>
  "android_os_Parcel_enforceInterface N critical name oldPolicy =
     (let bad = Some (''java/lang/SecurityException'', Text ''Binder invocation to an incorrect interface'') in
      on_parcel (bad, [])
       (\<lambda>p. if \<not> critical then ((bad, []), p)
            else case po_enforceInterface N name p of (isValid, newPolicy, p) \<Rightarrow>
              if isValid then ((None, if oldPolicy \<noteq> newPolicy then [SetBlockguardPolicy newPolicy] else []), p)
              else ((bad, []), p)))"

section \<open>Whole parcels\<close>

definition android_os_Parcel_create :: "'p parcel_ops \<Rightarrow> 'p option" where
  "android_os_Parcel_create N = Some (po_new N)"

definition android_os_Parcel_freeBuffer :: "'p parcel_ops \<Rightarrow> 'p option \<Rightarrow> int \<times> 'p option" where
  "android_os_Parcel_freeBuffer N = on_parcel 0
     (\<lambda>p. let p = po_freeData N p in (po_openAshmemSize N p, p))"

definition android_os_Parcel_compareData :: "'p parcel_ops \<Rightarrow> 'p option \<Rightarrow> 'p option \<Rightarrow> int" where
  "android_os_Parcel_compareData N this other =
     (case this of
        None \<Rightarrow> 0
      | Some p \<Rightarrow> (case other of None \<Rightarrow> po_openAshmemSize N p | Some q \<Rightarrow> po_compareData N p q))"

definition android_os_Parcel_appendFrom ::
    "'p parcel_ops \<Rightarrow> 'p option \<Rightarrow> int \<Rightarrow> int \<Rightarrow> 'p option \<Rightarrow> (jexc option \<times> int) \<times> 'p option" where
  "android_os_Parcel_appendFrom N other offset len = on_parcel (None, 0)
     (\<lambda>p. case other of
        None \<Rightarrow> ((None, po_openAshmemSize N p), p)
      | Some q \<Rightarrow> (case po_appendFrom N q offset len p of (err, p) \<Rightarrow>
          ((exception_for err, po_openAshmemSize N p), p)))"

definition android_os_Parcel_hasFileDescriptors :: "'p parcel_ops \<Rightarrow> 'p option \<Rightarrow> bool \<times> 'p option" where
  "android_os_Parcel_hasFileDescriptors N = on_parcel False (reading (po_hasFileDescriptors N))"

definition android_os_Parcel_getBlobAshmemSize :: "'p parcel_ops \<Rightarrow> 'p option \<Rightarrow> int \<times> 'p option" where
  "android_os_Parcel_getBlobAshmemSize N = on_parcel 0 (reading (po_blobAshmemSize N))"

section \<open>File descriptors\<close>

text \<open>
  The descriptors open in the process. \<open>open\<close> and \<open>dup\<close> return a descriptor that was
  closed, or a negative number; a Java descriptor object may fail to be created.
\<close>

type_synonym fds = "int set"

definition sys_close :: "int \<Rightarrow> fds \<Rightarrow> fds" where
  "sys_close fd F = F - {fd}"

definition created_descriptor :: "int \<Rightarrow> bool \<Rightarrow> fds \<Rightarrow> int option \<times> fds" where
  \<comment> \<open>\<open>jniCreateFileDescriptor\<close> and the closing when it fails\<close>
  "created_descriptor fd creates F = (if creates then (Some fd, F) else (None, sys_close fd F))"

datatype open_flag = O_RDONLY | O_WRONLY | O_RDWR | O_CREAT | O_TRUNC | O_APPEND

definition open_flags :: "u32 \<Rightarrow> open_flag set" where
  "open_flags mode =
     (let access = mode AND 0x30000000 in
      (if access = 0x20000000 then {O_WRONLY} else if access = 0x30000000 then {O_RDWR} else {O_RDONLY})
      \<union> (if mode AND 0x08000000 \<noteq> 0 then {O_CREAT} else {})
      \<union> (if mode AND 0x04000000 \<noteq> 0 then {O_TRUNC} else {})
      \<union> (if mode AND 0x02000000 \<noteq> 0 then {O_APPEND} else {}))"

definition open_permissions :: "u32 \<Rightarrow> u32" where
  \<comment> \<open>all for owner and group (octal 770), and what the mode adds for others\<close>
  "open_permissions mode =
     504 OR (if mode AND 1 \<noteq> 0 then 4 else 0) OR (if mode AND 2 \<noteq> 0 then 2 else 0)"

definition android_os_Parcel_openFileDescriptor ::
    "(string \<Rightarrow> open_flag set \<Rightarrow> u32 \<Rightarrow> int) \<Rightarrow> bool \<Rightarrow> string option option \<Rightarrow> u32 \<Rightarrow> fds \<Rightarrow>
     (int option \<times> jexc option) \<times> fds" where
  \<comment> \<open>a name whose characters cannot be had is \<open>Some None\<close>; the texts of \<open>errno\<close> are left out\<close>
  "android_os_Parcel_openFileDescriptor sys_open creates name mode F =
     (case name of
        None \<Rightarrow> ((None, Some nullPointerException), F)
      | Some None \<Rightarrow> ((None, None), F)
      | Some (Some n) \<Rightarrow>
          let fd = sys_open n (open_flags mode) (open_permissions mode) in
          if fd < 0 then ((None, Some (''java/io/FileNotFoundException'', NoMsg)), F)
          else (case created_descriptor fd creates (insert fd F) of (obj, F) \<Rightarrow> ((obj, None), F)))"

definition android_os_Parcel_dupFileDescriptor ::
    "(int \<Rightarrow> int) \<Rightarrow> bool \<Rightarrow> int option \<Rightarrow> fds \<Rightarrow> (int option \<times> jexc option) \<times> fds" where
  "android_os_Parcel_dupFileDescriptor sys_dup creates orig F =
     (case orig of
        None \<Rightarrow> ((None, Some nullPointerException), F)
      | Some origfd \<Rightarrow>
          if origfd < 0 then ((None, Some (''java/lang/IllegalArgumentException'', Text ''bad FileDescriptor'')), F)
          else let fd = sys_dup origfd in
            if fd < 0 then ((None, Some (''java/io/IOException'', NoMsg)), F)
            else (case created_descriptor fd creates (insert fd F) of (obj, F) \<Rightarrow> ((obj, None), F)))"

definition android_os_Parcel_readFileDescriptor ::
    "'p parcel_ops \<Rightarrow> (int \<Rightarrow> int) \<Rightarrow> bool \<Rightarrow> fds \<Rightarrow> 'p option \<Rightarrow> (int option \<times> fds) \<times> 'p option" where
  \<comment> \<open>here a failure to create the object does not close the copy\<close>
  "android_os_Parcel_readFileDescriptor N sys_dup creates F = on_parcel (None, F)
     (\<lambda>p. case po_readFileDescriptor N p of (fd, p) \<Rightarrow>
        if fd < 0 then ((None, F), p)
        else let fd = sys_dup fd in
          if fd < 0 then ((None, F), p)
          else ((if creates then Some fd else None, insert fd F), p))"

definition android_os_Parcel_closeFileDescriptor :: "int option \<Rightarrow> fds \<Rightarrow> (int option \<times> jexc option) \<times> fds" where
  \<comment> \<open>the descriptor in the object after the call\<close>
  "android_os_Parcel_closeFileDescriptor obj F =
     (case obj of
        None \<Rightarrow> ((None, Some nullPointerException), F)
      | Some fd \<Rightarrow> if fd \<ge> 0 then ((Some (- 1), None), sys_close fd F) else ((Some fd, None), F))"

definition android_os_Parcel_clearFileDescriptor :: "int option \<Rightarrow> fds \<Rightarrow> (int option \<times> jexc option) \<times> fds" where
  "android_os_Parcel_clearFileDescriptor obj F =
     (case obj of
        None \<Rightarrow> ((None, Some nullPointerException), F)
      | Some fd \<Rightarrow> if fd \<ge> 0 then ((Some (- 1), None), F) else ((Some fd, None), F))"

definition android_os_Parcel_writeFileDescriptor ::
    "'p parcel_ops \<Rightarrow> int \<Rightarrow> 'p option \<Rightarrow> (jexc option \<times> int) \<times> 'p option" where
  "android_os_Parcel_writeFileDescriptor N fd = on_parcel (None, 0)
     (\<lambda>p. case po_writeDupFileDescriptor N fd p of (err, p) \<Rightarrow> ((exception_for err, po_openAshmemSize N p), p))"

section \<open>A native parcel of bytes\<close>

text \<open>
  A parcel that holds bytes and a position, and no binders or descriptors, as an instance of the
  parameter: numbers are little-endian words, byte ranges are padded to words.
\<close>

type_synonym byte_parcel = "bytes \<times> nat"

definition word_bytes :: "int \<Rightarrow> bytes" where
  "word_bytes v = map (\<lambda>k. word_of_int (v div 256 ^ k)) [0..<4]"

definition bytes_word :: "bytes \<Rightarrow> int" where
  "bytes_word bs = sint (word_of_int (foldr (\<lambda>b v. uint b + 256 * v) bs 0) :: 32 word)"

definition padded :: "int \<Rightarrow> nat" where
  "padded n = 4 * ((nat n + 3) div 4)"

definition append_bytes :: "bytes \<Rightarrow> byte_parcel \<Rightarrow> byte_parcel" where
  "append_bytes bs p = (take (snd p) (fst p) @ bs, snd p + length bs)"

definition byte_parcel_ops :: "byte_parcel parcel_ops" where
  "byte_parcel_ops = \<lparr>
     po_dataSize = (\<lambda>(d, k). int (length d)), po_dataAvail = (\<lambda>(d, k). int (length d) - int k),
     po_dataPosition = (\<lambda>(d, k). int k), po_dataCapacity = (\<lambda>(d, k). int (length d)),
     po_setDataSize = (\<lambda>n (d, k). (NO_ERROR, (take (nat n) (d @ replicate (nat n) 0), k))),
     po_setDataPosition = (\<lambda>n (d, k). (d, nat n)), po_setDataCapacity = (\<lambda>n p. (NO_ERROR, p)),
     po_pushAllowFds = (\<lambda>b p. (True, p)), po_restoreAllowFds = (\<lambda>b p. p),
     po_writeInt32 = (\<lambda>v p. (NO_ERROR, append_bytes (word_bytes v) p)),
     po_writeInt64 = (\<lambda>v p. (NO_ERROR, append_bytes (word_bytes v @ word_bytes (v div 2 ^ 32)) p)),
     po_writeFloat = (\<lambda>v p. (NO_ERROR, append_bytes (word_bytes (uint v)) p)),
     po_writeDouble = (\<lambda>v p. (NO_ERROR, append_bytes (word_bytes (uint v) @ word_bytes (uint v div 2 ^ 32)) p)),
     po_writeInplace = (\<lambda>n p. if n < 0 then None
        else Some (\<lambda>bs. append_bytes (bs @ replicate (padded n - nat n) 0) p)),
     po_writeBlob = (\<lambda>n p. (NO_ERROR, \<lambda>bs. append_bytes (bs @ replicate (padded n - nat n) 0) p)),
     po_writeString16 = (\<lambda>str p. (NO_MEMORY, p)), po_writeStrongBinder = (\<lambda>b p. (NO_MEMORY, p)),
     po_writeDupFileDescriptor = (\<lambda>fd p. (NO_MEMORY, p)),
     po_readInt32 = (\<lambda>(d, k). (bytes_word (take 4 (drop k d)), (d, k + 4))),
     po_readInt64 = (\<lambda>(d, k). (bytes_word (take 4 (drop k d)), (d, k + 8))),
     po_readFloat = (\<lambda>(d, k). (word_of_int (bytes_word (take 4 (drop k d))), (d, k + 4))),
     po_readDouble = (\<lambda>(d, k). (word_of_int (bytes_word (take 4 (drop k d))), (d, k + 8))),
     po_readInplace = (\<lambda>n (d, k). if 0 \<le> n \<and> k + padded n \<le> length d
        then (Some (take (nat n) (drop k d)), (d, k + padded n)) else (None, (d, k))),
     po_readBlob = (\<lambda>n (d, k). (NO_ERROR, take (nat n) (drop k d), (d, k + padded n))),
     po_readString16 = (\<lambda>p. (None, p)), po_readStrongBinder = (\<lambda>p. (None, p)),
     po_readFileDescriptor = (\<lambda>p. (- 1, p)), po_new = ([], 0), po_freeData = (\<lambda>p. ([], 0)),
     po_objectsCount = (\<lambda>p. 0), po_data = fst, po_compareData = (\<lambda>p q. if fst p = fst q then 0 else 1),
     po_appendFrom = (\<lambda>q off n p. (NO_ERROR, append_bytes (take (nat n) (drop (nat off) (fst q))) p)),
     po_hasFileDescriptors = (\<lambda>p. False), po_openAshmemSize = (\<lambda>p. 0), po_blobAshmemSize = (\<lambda>p. 0),
     po_writeInterfaceToken = (\<lambda>name p. p), po_enforceInterface = (\<lambda>name p. (False, 0, p))\<rparr>"

lemmas byte_parcel_defs = byte_parcel_ops_def append_bytes_def word_bytes_def bytes_word_def padded_def

section \<open>What the methods keep\<close>

text \<open>
  A byte array is read back from a parcel into a new array of the stored length, and only when
  that length is not negative and at most what the parcel holds: no other size is ever asked of the
  virtual machine. The one access out of bounds is a parcel that refuses the read after that test.
\<close>

theorem created_array_bounded:
  assumes "po_readInt32 N p = (len, p1)"
    and "\<forall>data q. po_readInplace N len p1 = (Some data, q) \<longrightarrow> int (length data) = len"
  shows "(android_os_Parcel_createByteArray N room critical (Some p) = Oob \<longleftrightarrow>
      0 \<le> len \<and> len \<le> po_dataAvail N p1 \<and> room len \<and> critical \<and> fst (po_readInplace N len p1) = None)
    \<and> (\<forall>data q. android_os_Parcel_createByteArray N room critical (Some p) = Ret (Some data, q) \<longrightarrow>
        int (length data) = len \<and> len \<le> po_dataAvail N p1 \<and> room len)"
  using assms by (auto simp: android_os_Parcel_createByteArray_def split: prod.splits option.splits)

text \<open>A parcel that ends before the padding of its array passes the test and crashes the reader.\<close>

definition full_parcel :: byte_parcel where "full_parcel = ([2, 0, 0, 0, 7, 8, 0, 0], 0)"
definition short_parcel :: byte_parcel where "short_parcel = ([2, 0, 0, 0, 7, 8], 0)"

lemma read_length:
  "po_readInt32 byte_parcel_ops (2 # 0 # 0 # 0 # d, 0) = (2, (2 # 0 # 0 # 0 # d, 4))"
  by (simp add: byte_parcel_ops_def bytes_word_def)

lemma read_two:
  "po_readInplace byte_parcel_ops 2 (d, k) =
     (if k + 4 \<le> length d then (Some (take 2 (drop k d)), (d, k + 4)) else (None, (d, k)))"
  by (simp add: byte_parcel_ops_def padded_def)

lemma created_array_bounded_witness:
  "android_os_Parcel_createByteArray byte_parcel_ops (\<lambda>n. n < 100) True (Some full_parcel) \<noteq> Oob \<and>
   android_os_Parcel_createByteArray byte_parcel_ops (\<lambda>n. n < 100) True (Some short_parcel) = Oob"
proof
  show "android_os_Parcel_createByteArray byte_parcel_ops (\<lambda>n. n < 100) True (Some full_parcel) \<noteq> Oob"
    using created_array_bounded [OF read_length [of "[7, 8, 0, 0]"], of "\<lambda>n. n < 100" True]
    unfolding full_parcel_def read_two by simp
  have "po_dataAvail byte_parcel_ops ([2, 0, 0, 0, 7, 8], 4) = 2" by (simp add: byte_parcel_ops_def)
  then show "android_os_Parcel_createByteArray byte_parcel_ops (\<lambda>n. n < 100) True (Some short_parcel) = Oob"
    using created_array_bounded [OF read_length [of "[7, 8]"], of "\<lambda>n. n < 100" True]
    unfolding short_parcel_def read_two by simp
qed

text \<open>
  Refilling a parcel from a byte array reads or writes out of bounds exactly when the array can be
  had, the length is not negative, and either the parcel has no room for it or the range is not inside
  the array: neither is tested by the function.
\<close>

theorem unmarshall_range:
  "android_os_Parcel_unmarshall N critical data offset len (Some p) = Oob \<longleftrightarrow>
     critical \<and> 0 \<le> len \<and>
     (po_writeInplace N len (po_setDataPosition N 0 (snd (po_setDataSize N len p))) = None \<or>
      \<not> (0 \<le> offset \<and> offset + len \<le> int (length data)))"
  by (auto simp: android_os_Parcel_unmarshall_def copy_range_def Let_def split: option.split)

text \<open>
  C29. Opening and duplicating a file leaves exactly the descriptor that the returned Java object holds:
  when the object cannot be created the descriptor is closed again. Closing the object ends it. Reading
  a descriptor from a parcel differs: without an object its copy stays open.
\<close>

theorem descriptors_balanced:
  assumes "\<forall>n fl m. sys_open n fl m \<notin> F" and "\<forall>fd. sys_dup fd \<notin> F"
  shows "(case android_os_Parcel_openFileDescriptor sys_open creates name mode F of ((obj, exc), F') \<Rightarrow>
            F' = F \<union> set_option obj \<and> snd (android_os_Parcel_closeFileDescriptor obj F') = F) \<and>
         (case android_os_Parcel_dupFileDescriptor sys_dup creates orig F of ((obj, exc), F') \<Rightarrow>
            F' = F \<union> set_option obj \<and> snd (android_os_Parcel_closeFileDescriptor obj F') = F) \<and>
         (case android_os_Parcel_readFileDescriptor N sys_dup creates F (Some p) of ((obj, F'), q) \<Rightarrow>
            F' = F \<union> set_option obj \<longleftrightarrow>
              creates \<or> fst (po_readFileDescriptor N p) < 0 \<or> sys_dup (fst (po_readFileDescriptor N p)) < 0)"
  using assms
  by (auto simp: android_os_Parcel_openFileDescriptor_def android_os_Parcel_dupFileDescriptor_def
      android_os_Parcel_readFileDescriptor_def android_os_Parcel_closeFileDescriptor_def on_parcel_def
      created_descriptor_def sys_close_def Let_def split: option.splits prod.splits if_splits)

lemma descriptors_balanced_witness:
  "android_os_Parcel_dupFileDescriptor (\<lambda>_. 3) False (Some 1) {0, 1, 2} = ((None, None), {0, 1, 2}) \<and>
   (case android_os_Parcel_dupFileDescriptor (\<lambda>_. 3) True (Some 1) {0, 1, 2} of ((obj, exc), F') \<Rightarrow>
      snd (android_os_Parcel_closeFileDescriptor obj F') = {0, 1, 2})"
  using descriptors_balanced [of "\<lambda>_ _ _. 3" "{0, 1, 2}" "\<lambda>_. 3" True "Some (Some ''f'')" 0 "Some 1"
      byte_parcel_ops "([], 0)"]
  by (auto simp: android_os_Parcel_dupFileDescriptor_def created_descriptor_def sys_close_def
      android_os_Parcel_closeFileDescriptor_def)

end
