(* ===== verification/Jni_Examples.thy ===== *)
theory Jni_Examples
  imports Jni_Calls Ipc_Examples
begin











end
