(* ===== verification/Runtime_Options.thy ===== *)
theory Runtime_Options
  imports Binder_Prelude
begin

text \<open>
  The options that \<open>jni/AndroidRuntime.cpp\<close> collects for the virtual machine:
  \<open>addOption\<close>, \<open>parseExtraOpts\<close>, \<open>parseRuntimeOption\<close>,
  \<open>parseCompilerOption\<close>, \<open>parseCompilerRuntimeOption\<close>,
  \<open>getProperty\<close> and \<open>readLocale\<close>.

  An option is a pointer, not a string: \<open>mOptions.add()\<close> copies no text, so what the
  machine is given is what the character arrays of \<open>startVm\<close> hold at the end. The arrays
  are therefore a store (\<open>bufs\<close>), an option names a literal or a position of an array,
  and a write outside an array is the outcome \<open>Oob\<close>. The library below keeps, beside the
  set of arrays the options point into, the texts the options stand for; every operation that
  writes only to other arrays keeps them.
\<close>

section \<open>The property service\<close>

text \<open>
  The properties are read through the C library of the platform (\<open>property_get\<close>): the value
  of a key, empty when it is not set, and the sizes of its arrays. Its documentation promises that
  a value is a string shorter than \<open>PROPERTY_VALUE_MAX\<close>; the default strings and the keys
  that the code writes need the lower bounds.
\<close>

record props =
  prop_value :: "string \<Rightarrow> string"
  PROPERTY_VALUE_MAX :: nat
  PROPERTY_KEY_MAX :: nat

abbreviation NUL :: char where "NUL \<equiv> CHR 0x00"

definition props_ok :: "props \<Rightarrow> bool" where
  "props_ok P \<longleftrightarrow> (\<forall>k. length (prop_value P k) < PROPERTY_VALUE_MAX P \<and> NUL \<notin> set (prop_value P k))
     \<and> 6 \<le> PROPERTY_VALUE_MAX P \<and> 31 \<le> PROPERTY_KEY_MAX P"

definition getProperty :: "props \<Rightarrow> string \<Rightarrow> string \<Rightarrow> string" where
  "getProperty P key dflt = (if prop_value P key = [] then dflt else prop_value P key)"

definition readLocale :: "props \<Rightarrow> string" where
  "readLocale P =
     (let locale = getProperty P ''persist.sys.locale'' '''' in
      if locale \<noteq> [] then locale
      else let language = getProperty P ''persist.sys.language'' '''' in
      if language \<noteq> [] then
        let country = getProperty P ''persist.sys.country'' '''';
            variant = getProperty P ''persist.sys.localevar'' '''';
            out = language;
            out = (if country \<noteq> [] then out @ ''-'' @ country else out);
            out = (if variant \<noteq> [] then out @ ''-'' @ variant else out)
        in out
      else let productLocale = getProperty P ''ro.product.locale'' '''' in
      if productLocale \<noteq> [] then productLocale
      else getProperty P ''ro.product.locale.language'' ''en'' @ ''-''
           @ getProperty P ''ro.product.locale.region'' ''US'')"

section \<open>The arrays of startVm and the option vector\<close>

datatype buffer =
    PropBuf | StackTraceFileBuf | JniOptsBuf | HeapstartsizeOptsBuf | HeapsizeOptsBuf
  | HeapgrowthlimitOptsBuf | HeapminfreeOptsBuf | HeapmaxfreeOptsBuf | UsejitOptsBuf
  | JitmaxsizeOptsBuf | JitinitialsizeOptsBuf | JitthresholdOptsBuf | UseJitProfilesOptsBuf
  | JitprithreadweightOptBuf | JittransitionweightOptBuf | GctypeOptsBuf | BackgroundgcOptsBuf
  | HeaptargetutilizationOptsBuf | CachePruneBuf | Dex2oatXmsImageFlagsBuf
  | Dex2oatXmxImageFlagsBuf | Dex2oatXmsFlagsBuf | Dex2oatXmxFlagsBuf | Dex2oatCompilerFilterBuf
  | Dex2oatImageCompilerFilterBuf | Dex2oatThreadsBuf | Dex2oatThreadsImageBuf
  | Dex2oat_isa_variant_key | Dex2oat_isa_variant | Dex2oat_isa_features_key
  | Dex2oat_isa_features | Dex2oatFlagsBuf | Dex2oatImageFlagsBuf | ExtraOptsBuf | VoldDecryptBuf
  | LocaleOption | LockProfThresholdBuf | NativeBridgeLibrary | CpuAbiListBuf | MethodTraceFileBuf
  | MethodTraceFileSizeBuf | FingerprintBuf

primrec buffer_size :: "props \<Rightarrow> buffer \<Rightarrow> nat" where
  \<comment> \<open>\<open>sizeof\<close> of a literal counts its terminator, which some declarations subtract\<close>
  "buffer_size P PropBuf = PROPERTY_VALUE_MAX P"
| "buffer_size P StackTraceFileBuf = length ''-Xstacktracefile:'' + PROPERTY_VALUE_MAX P"
| "buffer_size P JniOptsBuf = length ''-Xjniopts:'' + PROPERTY_VALUE_MAX P"
| "buffer_size P HeapstartsizeOptsBuf = length ''-Xms'' + PROPERTY_VALUE_MAX P"
| "buffer_size P HeapsizeOptsBuf = length ''-Xmx'' + PROPERTY_VALUE_MAX P"
| "buffer_size P HeapgrowthlimitOptsBuf = length ''-XX:HeapGrowthLimit='' + PROPERTY_VALUE_MAX P"
| "buffer_size P HeapminfreeOptsBuf = length ''-XX:HeapMinFree='' + PROPERTY_VALUE_MAX P"
| "buffer_size P HeapmaxfreeOptsBuf = length ''-XX:HeapMaxFree='' + PROPERTY_VALUE_MAX P"
| "buffer_size P UsejitOptsBuf = length ''-Xusejit:'' + PROPERTY_VALUE_MAX P"
| "buffer_size P JitmaxsizeOptsBuf = length ''-Xjitmaxsize:'' + PROPERTY_VALUE_MAX P"
| "buffer_size P JitinitialsizeOptsBuf = length ''-Xjitinitialsize:'' + PROPERTY_VALUE_MAX P"
| "buffer_size P JitthresholdOptsBuf = length ''-Xjitthreshold:'' + PROPERTY_VALUE_MAX P"
| "buffer_size P UseJitProfilesOptsBuf = length ''-Xjitsaveprofilinginfo:'' + PROPERTY_VALUE_MAX P"
| "buffer_size P JitprithreadweightOptBuf = length ''-Xjitprithreadweight:'' + PROPERTY_VALUE_MAX P"
| "buffer_size P JittransitionweightOptBuf =
     length ''-Xjittransitionweight:'' + PROPERTY_VALUE_MAX P"
| "buffer_size P GctypeOptsBuf = length ''-Xgc:'' + PROPERTY_VALUE_MAX P"
| "buffer_size P BackgroundgcOptsBuf = length ''-XX:BackgroundGC='' + PROPERTY_VALUE_MAX P"
| "buffer_size P HeaptargetutilizationOptsBuf =
     length ''-XX:HeapTargetUtilization='' + PROPERTY_VALUE_MAX P"
| "buffer_size P CachePruneBuf = length ''-Xzygote-max-boot-retry='' + PROPERTY_VALUE_MAX P"
| "buffer_size P Dex2oatXmsImageFlagsBuf = length ''-Xms'' + PROPERTY_VALUE_MAX P"
| "buffer_size P Dex2oatXmxImageFlagsBuf = length ''-Xmx'' + PROPERTY_VALUE_MAX P"
| "buffer_size P Dex2oatXmsFlagsBuf = length ''-Xms'' + PROPERTY_VALUE_MAX P"
| "buffer_size P Dex2oatXmxFlagsBuf = length ''-Xmx'' + PROPERTY_VALUE_MAX P"
| "buffer_size P Dex2oatCompilerFilterBuf = length ''--compiler-filter='' + PROPERTY_VALUE_MAX P"
| "buffer_size P Dex2oatImageCompilerFilterBuf =
     length ''--compiler-filter='' + PROPERTY_VALUE_MAX P"
| "buffer_size P Dex2oatThreadsBuf = length ''-j'' + PROPERTY_VALUE_MAX P"
| "buffer_size P Dex2oatThreadsImageBuf = length ''-j'' + PROPERTY_VALUE_MAX P"
| "buffer_size P Dex2oat_isa_variant_key = PROPERTY_KEY_MAX P"
| "buffer_size P Dex2oat_isa_variant =
     length ''--instruction-set-variant='' + PROPERTY_VALUE_MAX P"
| "buffer_size P Dex2oat_isa_features_key = PROPERTY_KEY_MAX P"
| "buffer_size P Dex2oat_isa_features =
     length ''--instruction-set-features='' + PROPERTY_VALUE_MAX P"
| "buffer_size P Dex2oatFlagsBuf = PROPERTY_VALUE_MAX P"
| "buffer_size P Dex2oatImageFlagsBuf = PROPERTY_VALUE_MAX P"
| "buffer_size P ExtraOptsBuf = PROPERTY_VALUE_MAX P"
| "buffer_size P VoldDecryptBuf = PROPERTY_VALUE_MAX P"
| "buffer_size P LocaleOption = length ''-Duser.locale='' + 1 + PROPERTY_VALUE_MAX P"
| "buffer_size P LockProfThresholdBuf = length ''-Xlockprofthreshold:'' + PROPERTY_VALUE_MAX P"
| "buffer_size P NativeBridgeLibrary = length ''-XX:NativeBridge='' + 1 + PROPERTY_VALUE_MAX P"
| "buffer_size P CpuAbiListBuf = length ''--cpu-abilist='' + 1 + PROPERTY_VALUE_MAX P"
| "buffer_size P MethodTraceFileBuf = length ''-Xmethod-trace-file:'' + 1 + PROPERTY_VALUE_MAX P"
| "buffer_size P MethodTraceFileSizeBuf =
     length ''-Xmethod-trace-file-size:'' + 1 + PROPERTY_VALUE_MAX P"
| "buffer_size P FingerprintBuf = length ''-Xfingerprint:'' + 1 + PROPERTY_VALUE_MAX P"

text \<open>An option: a \<open>char*\<close> and the hook in \<open>extraInfo\<close>.\<close>

datatype cptr = Lit string | At buffer nat
datatype hook = NoInfo | Runtime_exit | Runtime_vfprintf | Runtime_isSensitiveThread

datatype exec_mode = KEMDefault | KEMIntPortable | KEMIntFast | KEMJitCompiler

record vmstate =
  bufs :: "buffer \<Rightarrow> string"
  mOptions :: "(cptr \<times> hook) list"
  executionMode :: exec_mode
  skip_compilation :: bool

type_synonym vmop = "vmstate \<Rightarrow> vmstate cres"

section \<open>The C library on an array\<close>

definition c_string :: "vmstate \<Rightarrow> buffer \<Rightarrow> nat \<Rightarrow> string cres" where
  \<comment> \<open>the string at a position: up to the next \<open>NUL\<close>, which must lie in the array\<close>
  "c_string s b off =
     (let t = takeWhile (\<lambda>c. c \<noteq> NUL) (drop off (bufs s b)) in
      if off + length t < length (bufs s b) then Ret t else Oob)"

definition c_char :: "vmstate \<Rightarrow> buffer \<Rightarrow> nat \<Rightarrow> char cres" where
  "c_char s b i = (if i < length (bufs s b) then Ret (bufs s b ! i) else Oob)"

definition poke :: "buffer \<Rightarrow> nat \<Rightarrow> string \<Rightarrow> vmop" where
  \<comment> \<open>\<open>memcpy\<close> to a position of an array\<close>
  "poke b off t s =
     (if off + length t \<le> length (bufs s b)
      then Ret (s\<lparr>bufs := (bufs s)(b := take off (bufs s b) @ t @ drop (off + length t) (bufs s b))\<rparr>)
      else Oob)"

definition strcpy :: "buffer \<Rightarrow> string \<Rightarrow> vmop" where
  "strcpy b t = poke b 0 (t @ [NUL])"

definition strncat :: "buffer \<Rightarrow> string \<Rightarrow> nat \<Rightarrow> vmop" where
  "strncat b t n s = cbind (c_string s b 0) (\<lambda>old. poke b (length old) (take n t @ [NUL]) s)"

definition snprintf :: "buffer \<Rightarrow> nat \<Rightarrow> string \<Rightarrow> vmop" where
  \<comment> \<open>of a text already formatted\<close>
  "snprintf b n t s = (if n = 0 then Ret s else poke b 0 (take (n - 1) t @ [NUL]) s)"

definition property_get :: "props \<Rightarrow> string \<Rightarrow> buffer \<Rightarrow> nat \<Rightarrow> string \<Rightarrow> vmop" where
  "property_get P key b off dflt = poke b off (getProperty P key dflt @ [NUL])"

definition deref :: "vmstate \<Rightarrow> cptr \<Rightarrow> string cres" where
  "deref s p = (case p of Lit t \<Rightarrow> Ret t | At b off \<Rightarrow> c_string s b off)"

section \<open>Adding options\<close>

definition addOption :: "cptr \<Rightarrow> hook \<Rightarrow> vmstate \<Rightarrow> vmstate" where
  "addOption p h s = s\<lparr>mOptions := mOptions s @ [(p, h)]\<rparr>"

definition option_lit :: "string \<Rightarrow> vmop" where
  \<comment> \<open>the statement \<open>addOption("...")\<close>\<close>
  "option_lit t s = Ret (addOption (Lit t) NoInfo s)"

function skip_spaces :: "string \<Rightarrow> nat \<Rightarrow> nat cres" where
  "skip_spaces xs i =
     (if length xs \<le> i then Oob else if xs ! i = CHR '' '' then skip_spaces xs (i + 1) else Ret i)"
  by pat_completeness auto
termination by (relation "measure (\<lambda>(xs, i). length xs - i)") auto

function token_end :: "string \<Rightarrow> nat \<Rightarrow> nat cres" where
  "token_end xs i =
     (if length xs \<le> i then Oob
      else if xs ! i \<noteq> CHR '' '' \<and> xs ! i \<noteq> NUL then token_end xs (i + 1) else Ret i)"
  by pat_completeness auto
termination by (relation "measure (\<lambda>(xs, i). length xs - i)") auto

declare skip_spaces.simps [simp del] token_end.simps [simp del]

lemma skip_spaces_range: "skip_spaces xs i = Ret j \<Longrightarrow> i \<le> j \<and> j < length xs"
  by (induction xs i rule: skip_spaces.induct)
    (subst (asm) (2) skip_spaces.simps, auto split: if_splits)

lemma token_end_range: "token_end xs i = Ret j \<Longrightarrow> i \<le> j \<and> j < length xs"
  by (induction xs i rule: token_end.induct)
    (subst (asm) (2) token_end.simps, auto split: if_splits)

definition add_token :: "string option \<Rightarrow> cptr \<Rightarrow> vmstate \<Rightarrow> vmstate" where
  "add_token quotingArg p s =
     addOption p NoInfo
       (case quotingArg of None \<Rightarrow> s | Some q \<Rightarrow> addOption (Lit q) NoInfo s)"

lemma add_token_bufs [simp]: "bufs (add_token q p s) = bufs s"
  by (simp add: add_token_def addOption_def split: option.split)

text \<open>\<open>parseExtraOpts\<close> cuts the array into tokens in place, from position \<open>start\<close>.\<close>

function extra_opts_loop :: "buffer \<Rightarrow> string option \<Rightarrow> nat \<Rightarrow> vmop" where
  "extra_opts_loop b quotingArg start s =
     cbind (c_char s b start) (\<lambda>c.
     if c = NUL then Ret s
     else cbind (skip_spaces (bufs s b) start) (\<lambda>start'.
     cbind (c_char s b start') (\<lambda>c.
     if c = NUL then Ret s
     else cbind (token_end (bufs s b) (start' + 1)) (\<lambda>end'.
     if bufs s b ! end' = CHR '' ''
     then extra_opts_loop b quotingArg (end' + 1)
            (add_token quotingArg (At b start')
               (s\<lparr>bufs := (bufs s)(b := (bufs s b)[end' := NUL])\<rparr>))
     else extra_opts_loop b quotingArg end' (add_token quotingArg (At b start') s)))))"
  by pat_completeness auto
termination
  by (relation "measure (\<lambda>(b, q, start, s). length (bufs s b) - start)")
    (auto dest!: skip_spaces_range token_end_range)

declare extra_opts_loop.simps [simp del]

definition parseExtraOpts :: "buffer \<Rightarrow> string option \<Rightarrow> vmop" where
  "parseExtraOpts b quotingArg = extra_opts_loop b quotingArg 0"

definition parseRuntimeOption :: "props \<Rightarrow> string \<Rightarrow> buffer \<Rightarrow> string \<Rightarrow> string \<Rightarrow> vmstate \<Rightarrow> (bool \<times> vmstate) cres" where
  "parseRuntimeOption P property b runtimeArg defaultArg s =
     cbind (strcpy b runtimeArg s) (\<lambda>s.
     cbind (property_get P property b (length runtimeArg) defaultArg s) (\<lambda>s.
     cbind (c_char s b (length runtimeArg)) (\<lambda>c.
     if c = NUL then Ret (False, s) else Ret (True, addOption (At b 0) NoInfo s))))"

definition parseCompilerOption :: "props \<Rightarrow> string \<Rightarrow> buffer \<Rightarrow> string \<Rightarrow> string \<Rightarrow> vmstate \<Rightarrow> (bool \<times> vmstate) cres" where
  "parseCompilerOption P property b compilerArg quotingArg s =
     cbind (strcpy b compilerArg s) (\<lambda>s.
     cbind (property_get P property b (length compilerArg) '''' s) (\<lambda>s.
     cbind (c_char s b (length compilerArg)) (\<lambda>c.
     if c = NUL then Ret (False, s)
     else Ret (True, addOption (At b 0) NoInfo (addOption (Lit quotingArg) NoInfo s)))))"

definition parseCompilerRuntimeOption :: "props \<Rightarrow> string \<Rightarrow> buffer \<Rightarrow> string \<Rightarrow> string \<Rightarrow> vmstate \<Rightarrow> (bool \<times> vmstate) cres" where
  "parseCompilerRuntimeOption P property b runtimeArg quotingArg s =
     cbind (strcpy b runtimeArg s) (\<lambda>s.
     cbind (property_get P property b (length runtimeArg) '''' s) (\<lambda>s.
     cbind (c_char s b (length runtimeArg)) (\<lambda>c.
     if c = NUL then Ret (False, s)
     else Ret (True, addOption (At b 0) NoInfo (addOption (Lit quotingArg) NoInfo
                       (addOption (Lit ''--runtime-arg'') NoInfo
                         (addOption (Lit quotingArg) NoInfo s)))))))"

text \<open>Most calls drop the result; statements are run one after the other.\<close>

definition ignore :: "('a \<times> vmstate) cres \<Rightarrow> vmstate cres" where
  "ignore m = cbind m (\<lambda>(_, s). Ret s)"

primrec run_all :: "vmop list \<Rightarrow> vmop" where
  "run_all [] s = Ret s"
| "run_all (f # fs) s = cbind (f s) (run_all fs)"

abbreviation runtime_option :: "props \<Rightarrow> string \<Rightarrow> buffer \<Rightarrow> string \<Rightarrow> string \<Rightarrow> vmop" where
  "runtime_option P property b arg dflt s \<equiv> ignore (parseRuntimeOption P property b arg dflt s)"

abbreviation compiler_option :: "props \<Rightarrow> string \<Rightarrow> buffer \<Rightarrow> string \<Rightarrow> string \<Rightarrow> vmop" where
  "compiler_option P property b arg quotingArg s \<equiv>
     ignore (parseCompilerOption P property b arg quotingArg s)"

abbreviation compiler_runtime_option :: "props \<Rightarrow> string \<Rightarrow> buffer \<Rightarrow> string \<Rightarrow> string \<Rightarrow> vmop" where
  "compiler_runtime_option P property b arg quotingArg s \<equiv>
     ignore (parseCompilerRuntimeOption P property b arg quotingArg s)"

end
