(* ===== verification/Runtime_Options_Correct.thy ===== *)
theory Runtime_Options_Correct
  imports Runtime_Options
begin

text \<open>
  What the operations of \<^theory_text>\<open>Runtime_Options\<close> leave in the option vector, in terms
  of texts. \<open>opts_hold P U m k L\<close> says that the arrays have their declared sizes, that
  the options point only into the arrays \<open>U\<close>, and that read now they are the texts
  \<open>L\<close>; \<open>adds P c f c' A\<close> says that the statement \<open>f\<close> returns, without leaving
  an array, with the texts \<open>A\<close> added behind the others, all of which keep their text. The
  rules compose along a list of statements.
\<close>

section \<open>Options and their texts\<close>

type_synonym texts = "(string \<times> hook) list"

definition in_bufs :: "buffer set \<Rightarrow> cptr \<Rightarrow> bool" where
  "in_bufs U p \<longleftrightarrow> (case p of Lit _ \<Rightarrow> True | At b _ \<Rightarrow> b \<in> U)"

definition stands_for :: "vmstate \<Rightarrow> cptr \<times> hook \<Rightarrow> string \<times> hook \<Rightarrow> bool" where
  "stands_for s o' t \<longleftrightarrow> deref s (fst o') = Ret (fst t) \<and> snd o' = snd t"

definition opts_hold :: "props \<Rightarrow> buffer set \<Rightarrow> exec_mode \<Rightarrow> bool \<Rightarrow> texts \<Rightarrow> vmstate \<Rightarrow> bool" where
  "opts_hold P U m k L s \<longleftrightarrow>
     (\<forall>b. length (bufs s b) = buffer_size P b) \<and>
     (\<forall>o'\<in>set (mOptions s). in_bufs U (fst o')) \<and>
     list_all2 (stands_for s) (mOptions s) L \<and>
     executionMode s = m \<and> skip_compilation s = k"

definition adds :: "props \<Rightarrow> buffer set \<times> exec_mode \<times> bool \<Rightarrow> vmop \<Rightarrow>
    buffer set \<times> exec_mode \<times> bool \<Rightarrow> texts \<Rightarrow> bool" where
  "adds P c f c' A \<longleftrightarrow>
     (\<forall>s L. opts_hold P (fst c) (fst (snd c)) (snd (snd c)) L s \<longrightarrow>
        (\<exists>s'. f s = Ret s' \<and> opts_hold P (fst c') (fst (snd c')) (snd (snd c')) (L @ A) s'))"

lemma addsI:
  "(\<And>s L. opts_hold P U m k L s \<Longrightarrow> \<exists>s'. f s = Ret s' \<and> opts_hold P U' m' k' (L @ A) s')
   \<Longrightarrow> adds P (U, m, k) f (U', m', k') A"
  by (simp add: adds_def)

lemma addsD:
  "adds P (U, m, k) f (U', m', k') A \<Longrightarrow> opts_hold P U m k L s
   \<Longrightarrow> \<exists>s'. f s = Ret s' \<and> opts_hold P U' m' k' (L @ A) s'"
  by (simp add: adds_def)

lemma adds_nil: "adds P c (run_all []) c []"
  by (simp add: adds_def)

lemma adds_cons:
  "adds P c f c1 A \<Longrightarrow> adds P c1 (run_all fs) c2 B \<Longrightarrow> adds P c (run_all (f # fs)) c2 (A @ B)"
  unfolding adds_def by (fastforce simp: cres_simps)

lemma adds_if:
  "(b \<Longrightarrow> adds P c f c' A) \<Longrightarrow> (\<not> b \<Longrightarrow> adds P c g c' B)
   \<Longrightarrow> adds P c (if b then f else g) c' (if b then A else B)"
  by simp

section \<open>Strings in arrays\<close>

lemma c_string_at:
  assumes "bufs s b = pre @ t @ NUL # rest" "NUL \<notin> set t"
  shows "c_string s b (length pre) = Ret t"
proof -
  have "takeWhile (\<lambda>c. c \<noteq> NUL) (t @ NUL # rest) = t"
    using assms(2) by (induction t) auto
  then show ?thesis by (simp add: c_string_def assms(1) Let_def)
qed

lemmas c_string_start = c_string_at [where pre = "[]", simplified]

lemma c_string_bufs: "bufs s' b = bufs s b \<Longrightarrow> c_string s' b off = c_string s b off"
  by (simp add: c_string_def)

lemma stands_for_frame:
  assumes "stands_for s o' t" "in_bufs U (fst o')" "\<And>b. b \<in> U \<Longrightarrow> bufs s' b = bufs s b"
  shows "stands_for s' o' t"
  using assms by (auto simp: stands_for_def deref_def in_bufs_def c_string_def split: cptr.splits)

lemma opts_hold_buf:
  assumes "opts_hold P U m k L s" "b \<notin> U" "length xs = buffer_size P b"
  shows "opts_hold P U m k L (s\<lparr>bufs := (bufs s)(b := xs)\<rparr>)"
proof -
  have "list_all2 (stands_for (s\<lparr>bufs := (bufs s)(b := xs)\<rparr>)) (mOptions s) L"
  proof (rule list.rel_mono_strong)
    show "list_all2 (stands_for s) (mOptions s) L" using assms(1) by (simp add: opts_hold_def)
  next
    fix o' t assume "o' \<in> set (mOptions s)" "stands_for s o' t"
    moreover have "in_bufs U (fst o')" using assms(1) calculation(1) by (simp add: opts_hold_def)
    ultimately show "stands_for (s\<lparr>bufs := (bufs s)(b := xs)\<rparr>) o' t"
      by (rule_tac stands_for_frame) (use assms(2) in auto)
  qed
  then show ?thesis using assms(1,3) by (simp add: opts_hold_def)
qed

lemma in_bufs_mono: "in_bufs U p \<Longrightarrow> U \<subseteq> U' \<Longrightarrow> in_bufs U' p"
  by (auto simp: in_bufs_def split: cptr.splits)

lemma opts_hold_mono: "opts_hold P U m k L s \<Longrightarrow> U \<subseteq> U' \<Longrightarrow> opts_hold P U' m k L s"
  using in_bufs_mono by (fastforce simp: opts_hold_def)

lemma opts_hold_add:
  assumes "opts_hold P U m k L s" "deref s p = Ret t" "in_bufs U p"
  shows "opts_hold P U m k (L @ [(t, h)]) (addOption p h s)"
proof -
  have "stands_for (addOption p h s) = stands_for s"
    by (intro ext) (simp add: stands_for_def deref_def c_string_def addOption_def split: cptr.split)
  then show ?thesis using assms
    by (auto simp: opts_hold_def addOption_def stands_for_def intro!: list_all2_appendI)
qed

lemma opts_hold_lit:
  "opts_hold P U m k L s \<Longrightarrow> opts_hold P U m k (L @ [(t, h)]) (addOption (Lit t) h s)"
  by (rule opts_hold_add) (simp_all add: deref_def in_bufs_def)

lemma opts_hold_size [simp]: "opts_hold P U m k L s \<Longrightarrow> length (bufs s b) = buffer_size P b"
  by (simp add: opts_hold_def)

section \<open>The statements\<close>

lemma adds_option_lit: "adds P (U, m, k) (option_lit t) (U, m, k) [(t, NoInfo)]"
  by (rule addsI) (simp add: option_lit_def opts_hold_lit)

lemma adds_hook: "adds P (U, m, k) (\<lambda>s. Ret (addOption (Lit t) h s)) (U, m, k) [(t, h)]"
  by (rule addsI) (simp add: opts_hold_lit)

definition prefixed :: "string \<Rightarrow> string \<Rightarrow> string \<Rightarrow> string" where
  \<comment> \<open>the bytes of an array after a prefix and a value were copied to it\<close>
  "prefixed arg v xs = arg @ v @ NUL # drop (length arg + length v + 1) xs"

lemma length_prefixed [simp]:
  "length arg + length v < length xs \<Longrightarrow> length (prefixed arg v xs) = length xs"
  by (simp add: prefixed_def)

lemma prefixed_twice:
  "length arg + length v < length xs \<Longrightarrow> prefixed arg v (prefixed arg v xs) = prefixed arg v xs"
  by (simp add: prefixed_def)

lemma copy_prefixed:
  assumes "length arg + length v < length (bufs s b)" "getProperty P key dflt = v"
  shows "cbind (strcpy b arg s) (\<lambda>s. cbind (property_get P key b (length arg) dflt s) F)
         = F (s\<lparr>bufs := (bufs s)(b := prefixed arg v (bufs s b))\<rparr>)"
proof -
  have a: "strcpy b arg s = Ret (s\<lparr>bufs := (bufs s)(b := arg @ NUL # drop (length arg + 1) (bufs s b))\<rparr>)"
    using assms(1) by (simp add: strcpy_def poke_def)
  have "length arg + length (v @ [NUL]) \<le> length (bufs s b)" using assms(1) by simp
  moreover have "length arg + length (v @ [NUL]) = length arg + length v + 1" by simp
  ultimately show ?thesis
    using assms(2) unfolding a property_get_def poke_def
    by (simp add: prefixed_def) (auto simp: add.commute)
qed

lemma prefixed_nth:
  "prefixed arg v xs ! length arg = (case v of [] \<Rightarrow> NUL | c # _ \<Rightarrow> c)"
  by (simp add: prefixed_def nth_append split: list.split)

lemma fits_prop:
  assumes "props_ok P"
  shows "length (prop_value P key) < PROPERTY_VALUE_MAX P" "NUL \<notin> set (prop_value P key)"
  using assms by (auto simp: props_ok_def)

lemma getProperty_fits:
  assumes "props_ok P" "length d < 6" "NUL \<notin> set d"
  shows "length (getProperty P key d) < PROPERTY_VALUE_MAX P" "NUL \<notin> set (getProperty P key d)"
  using assms fits_prop [OF assms(1), of key] by (auto simp: getProperty_def props_ok_def)

definition runtime_text :: "props \<Rightarrow> string \<Rightarrow> string \<Rightarrow> string \<Rightarrow> texts" where
  "runtime_text P key arg d =
     (let v = getProperty P key d in if v = [] then [] else [(arg @ v, NoInfo)])"

definition compiler_text :: "props \<Rightarrow> string \<Rightarrow> string \<Rightarrow> string \<Rightarrow> texts" where
  "compiler_text P key arg q =
     (let v = prop_value P key in if v = [] then [] else [(q, NoInfo), (arg @ v, NoInfo)])"

definition compiler_runtime_text :: "props \<Rightarrow> string \<Rightarrow> string \<Rightarrow> string \<Rightarrow> texts" where
  "compiler_runtime_text P key arg q =
     (let v = prop_value P key in
      if v = [] then []
      else [(q, NoInfo), (''--runtime-arg'', NoInfo), (q, NoInfo), (arg @ v, NoInfo)])"

lemma prefixed_deref:
  "NUL \<notin> set arg \<Longrightarrow> NUL \<notin> set v \<Longrightarrow> bufs s b = prefixed arg v xs \<Longrightarrow> deref s (At b 0) = Ret (arg @ v)"
  by (auto simp: deref_def prefixed_def intro!: c_string_start)

text \<open>A prefix and a value copied to an array that no option points to.\<close>

lemma opts_hold_prefixed:
  assumes "opts_hold P U m k L s" "b \<notin> U" "length arg + length v < buffer_size P b"
    "NUL \<notin> set arg" "NUL \<notin> set v"
  defines "s' \<equiv> s\<lparr>bufs := (bufs s)(b := prefixed arg v (bufs s b))\<rparr>"
  shows "opts_hold P U m k L s'" "deref s' (At b 0) = Ret (arg @ v)"
    "c_char s' b (length arg) = Ret (case v of [] \<Rightarrow> NUL | c # _ \<Rightarrow> c)"
  unfolding s'_def using assms(1-5)
  by (auto simp: prefixed_nth c_char_def intro!: opts_hold_buf prefixed_deref)

lemma first_char_NUL:
  "NUL \<notin> set v \<Longrightarrow> ((case v of [] \<Rightarrow> NUL | c # _ \<Rightarrow> c) = NUL) \<longleftrightarrow> v = []"
  by (cases v) auto

lemma deref_addOption [simp]: "deref (addOption p h s) = deref s"
  by (intro ext) (simp add: deref_def addOption_def c_string_def split: cptr.split)

lemma in_bufs_simps [simp]: "in_bufs U (Lit t)" "in_bufs U (At b off) \<longleftrightarrow> b \<in> U"
  by (simp_all add: in_bufs_def)

lemma deref_Lit [simp]: "deref s (Lit t) = Ret t"
  by (simp add: deref_def)

lemma adds_runtime_option:
  assumes "props_ok P" "b \<notin> U" "NUL \<notin> set arg" "NUL \<notin> set d" "length d < 6"
    "length arg + PROPERTY_VALUE_MAX P \<le> buffer_size P b"
  shows "adds P (U, m, k) (runtime_option P key b arg d) (insert b U, m, k) (runtime_text P key arg d)"
proof (rule addsI)
  fix s L assume h: "opts_hold P U m k L s"
  define v where "v = getProperty P key d"
  let ?s = "s\<lparr>bufs := (bufs s)(b := prefixed arg v (bufs s b))\<rparr>"
  have v: "length v < PROPERTY_VALUE_MAX P" "NUL \<notin> set v"
    unfolding v_def by (rule getProperty_fits [OF assms(1,5,4)])+
  have fit: "length arg + length v < buffer_size P b" using v assms(6) by linarith
  note p = opts_hold_prefixed [OF h assms(2) fit assms(3) v(2)]
  have step: "runtime_option P key b arg d s =
      (if v = [] then Ret ?s else Ret (addOption (At b 0) NoInfo ?s))"
    unfolding parseRuntimeOption_def using fit h
    by (subst copy_prefixed [of _ v])
      (simp_all add: v_def [symmetric] p(3) first_char_NUL v(2) ignore_def)
  show "\<exists>s'. runtime_option P key b arg d s = Ret s'
      \<and> opts_hold P (insert b U) m k (L @ runtime_text P key arg d) s'"
    unfolding step
    using opts_hold_mono [OF p(1), of "insert b U"] p(2)
    by (auto simp: runtime_text_def v_def [symmetric] intro!: opts_hold_add)
qed

lemma adds_compiler_option_aux:
  fixes key :: string
  assumes "props_ok P" "b \<notin> U" "NUL \<notin> set arg"
    "length arg + PROPERTY_VALUE_MAX P \<le> buffer_size P b" "opts_hold P U m k L s"
  defines "v \<equiv> prop_value P key"
  defines "s1 \<equiv> s\<lparr>bufs := (bufs s)(b := prefixed arg v (bufs s b))\<rparr>"
  shows "compiler_option P key b arg q s =
      Ret (if v = [] then s1 else addOption (At b 0) NoInfo (addOption (Lit q) NoInfo s1))"
    "compiler_runtime_option P key b arg q s =
      Ret (if v = [] then s1 else addOption (At b 0) NoInfo (addOption (Lit q) NoInfo
             (addOption (Lit ''--runtime-arg'') NoInfo (addOption (Lit q) NoInfo s1))))"
    "opts_hold P (insert b U) m k L s1" "deref s1 (At b 0) = Ret (arg @ v)"
proof -
  have v: "length v < PROPERTY_VALUE_MAX P" "NUL \<notin> set v"
    unfolding v_def by (rule fits_prop [OF assms(1)])+
  have fit: "length arg + length v < buffer_size P b" using v assms(4) by linarith
  note p = opts_hold_prefixed [OF assms(5,2) fit assms(3) v(2), folded s1_def]
  have g: "getProperty P key '''' = v" by (simp add: getProperty_def v_def)
  have fit': "length arg + length v < length (bufs s b)" using fit assms(5) by simp
  note c = copy_prefixed [OF fit' g, folded s1_def]
  show "compiler_option P key b arg q s =
      Ret (if v = [] then s1 else addOption (At b 0) NoInfo (addOption (Lit q) NoInfo s1))"
    unfolding parseCompilerOption_def c p(3) by (simp add: first_char_NUL v(2) ignore_def)
  show "compiler_runtime_option P key b arg q s =
      Ret (if v = [] then s1 else addOption (At b 0) NoInfo (addOption (Lit q) NoInfo
             (addOption (Lit ''--runtime-arg'') NoInfo (addOption (Lit q) NoInfo s1))))"
    unfolding parseCompilerRuntimeOption_def c p(3) by (simp add: first_char_NUL v(2) ignore_def)
  show "opts_hold P (insert b U) m k L s1" using p(1) by (rule opts_hold_mono) auto
  show "deref s1 (At b 0) = Ret (arg @ v)" by (rule p(2))
qed

lemma adds_compiler_option:
  assumes "props_ok P" "b \<notin> U" "NUL \<notin> set arg"
    "length arg + PROPERTY_VALUE_MAX P \<le> buffer_size P b"
  shows "adds P (U, m, k) (compiler_option P key b arg q) (insert b U, m, k) (compiler_text P key arg q)"
proof (rule addsI)
  fix s L assume h: "opts_hold P U m k L s"
  note a = adds_compiler_option_aux [OF assms h, of key]
  show "\<exists>s'. compiler_option P key b arg q s = Ret s'
      \<and> opts_hold P (insert b U) m k (L @ compiler_text P key arg q) s'"
    unfolding a(1) using opts_hold_add [OF opts_hold_lit [OF a(3), of q NoInfo], of "At b 0" "arg @ prop_value P key" NoInfo] a(3,4)
    by (auto simp: compiler_text_def)
qed

lemma adds_compiler_runtime_option:
  assumes "props_ok P" "b \<notin> U" "NUL \<notin> set arg"
    "length arg + PROPERTY_VALUE_MAX P \<le> buffer_size P b"
  shows "adds P (U, m, k) (compiler_runtime_option P key b arg q) (insert b U, m, k)
           (compiler_runtime_text P key arg q)"
proof (rule addsI)
  fix s L assume h: "opts_hold P U m k L s"
  note a = adds_compiler_option_aux [OF assms h, of key]
  note l = opts_hold_lit [OF opts_hold_lit [OF opts_hold_lit [OF a(3), of q NoInfo],
    of "''--runtime-arg''" NoInfo], of q NoInfo]
  show "\<exists>s'. compiler_runtime_option P key b arg q s = Ret s'
      \<and> opts_hold P (insert b U) m k (L @ compiler_runtime_text P key arg q) s'"
    unfolding a(2) using opts_hold_add [OF l, of "At b 0" "arg @ prop_value P key" NoInfo] a(3,4)
    by (auto simp: compiler_runtime_text_def)
qed

text \<open>
  The same array given two options in a row: the second copy writes the bytes that are there.
\<close>

lemma adds_compiler_option_twice:
  assumes "props_ok P" "b \<notin> U" "NUL \<notin> set arg"
    "length arg + PROPERTY_VALUE_MAX P \<le> buffer_size P b"
  shows "adds P (U, m, k)
           (run_all [compiler_option P key b arg q, compiler_option P key b arg q'])
           (insert b U, m, k) (compiler_text P key arg q @ compiler_text P key arg q')"
proof (rule addsI)
  fix s L assume h: "opts_hold P U m k L s"
  define v where "v = prop_value P key"
  define s1 where "s1 = s\<lparr>bufs := (bufs s)(b := prefixed arg v (bufs s b))\<rparr>"
  note a = adds_compiler_option_aux [OF assms h, of key, folded v_def, folded s1_def]
  have v: "length v < PROPERTY_VALUE_MAX P" "NUL \<notin> set v"
    unfolding v_def by (rule fits_prop [OF assms(1)])+
  have fit: "length arg + length v < length (bufs s b)" using v assms(4) h by simp
  define s2 where "s2 = (if v = [] then s1 else addOption (At b 0) NoInfo (addOption (Lit q) NoInfo s1))"
  have b2: "bufs s2 b = prefixed arg v (bufs s b)" by (simp add: s2_def s1_def addOption_def)
  have same: "s2\<lparr>bufs := (bufs s2)(b := prefixed arg v (bufs s2 b))\<rparr> = s2"
    by (rule vmstate.equality) (simp_all add: b2 prefixed_twice [OF fit] fun_upd_idem)
  have fit2: "length arg + length v < length (bufs s2 b)" using fit by (simp add: b2)
  have g: "getProperty P key '''' = v" by (simp add: getProperty_def v_def)
  have ch: "c_char s2 b (length arg) = Ret (case v of [] \<Rightarrow> NUL | c # _ \<Rightarrow> c)"
    using fit by (simp add: c_char_def b2 prefixed_nth)
  have snd: "compiler_option P key b arg q' s2 =
      Ret (if v = [] then s2 else addOption (At b 0) NoInfo (addOption (Lit q') NoInfo s2))"
    unfolding parseCompilerOption_def copy_prefixed [OF fit2 g] same ch
    by (simp add: first_char_NUL v(2) ignore_def)
  have d: "opts_hold P (insert b U) m k (L @ compiler_text P key arg q) s2"
    using opts_hold_add [OF opts_hold_lit [OF a(3), of q NoInfo], of "At b 0" "arg @ v" NoInfo] a(3,4)
    by (auto simp: compiler_text_def s2_def v_def)
  have "deref s2 (At b 0) = Ret (arg @ v)" using a(4) by (simp add: s2_def)
  then show "\<exists>s'. run_all [compiler_option P key b arg q, compiler_option P key b arg q'] s = Ret s'
      \<and> opts_hold P (insert b U) m k (L @ compiler_text P key arg q @ compiler_text P key arg q') s'"
    using opts_hold_add [OF opts_hold_lit [OF d, of q' NoInfo], of "At b 0" "arg @ v" NoInfo] d
    by (simp add: a(1) s2_def [symmetric] snd) (auto simp: compiler_text_def v_def [symmetric])
qed

section \<open>Properties read into arrays that hold no option\<close>

lemma property_get_scratch:
  assumes "opts_hold P U m k L s" "b \<notin> U" "props_ok P" "length d < 6" "NUL \<notin> set d"
    "PROPERTY_VALUE_MAX P \<le> buffer_size P b"
  obtains s' where "property_get P key b 0 d s = Ret s'" "opts_hold P U m k L s'"
    "c_string s' b 0 = Ret (getProperty P key d)"
    "c_char s' b 0 = Ret (case getProperty P key d of [] \<Rightarrow> NUL | c # _ \<Rightarrow> c)"
proof -
  let ?v = "getProperty P key d"
  have v: "length ?v < PROPERTY_VALUE_MAX P" "NUL \<notin> set ?v"
    by (rule getProperty_fits [OF assms(3-5)])+
  have fit: "length [] + length ?v < buffer_size P b" using v(1) assms(6) by simp
  note p = opts_hold_prefixed [OF assms(1,2) fit _ v(2), simplified]
  have "property_get P key b 0 d s = Ret (s\<lparr>bufs := (bufs s)(b := prefixed [] ?v (bufs s b))\<rparr>)"
    using fit assms(1) by (simp add: property_get_def poke_def prefixed_def)
  then show thesis using that p by (simp add: deref_def)
qed

section \<open>Cutting an array into tokens\<close>

text \<open>The reference: split at every space, and drop the empty pieces.\<close>

primrec split_spaces :: "string \<Rightarrow> string list" where
  "split_spaces [] = [[]]"
| "split_spaces (c # cs) =
     (if c = CHR '' '' then [] # split_spaces cs
      else (c # hd (split_spaces cs)) # tl (split_spaces cs))"

definition tokens :: "string \<Rightarrow> string list" where
  "tokens line = filter (\<lambda>t. t \<noteq> []) (split_spaces line)"

lemma split_spaces_ne [simp]: "split_spaces cs \<noteq> []"
  by (cases cs) auto

lemma split_spaces_append_space:
  "CHR '' '' \<notin> set t \<Longrightarrow> split_spaces (t @ CHR '' '' # cs) = t # split_spaces cs"
  by (induction t) auto

lemma split_spaces_token: "CHR '' '' \<notin> set t \<Longrightarrow> split_spaces t = [t]"
  by (induction t) auto

lemma tokens_Nil [simp]: "tokens [] = []"
  by (simp add: tokens_def)

lemma tokens_space [simp]: "tokens (CHR '' '' # cs) = tokens cs"
  by (simp add: tokens_def)

lemma tokens_spaces: "set sp \<subseteq> {CHR '' ''} \<Longrightarrow> tokens (sp @ cs) = tokens cs"
  by (induction sp) auto

lemma tokens_last: "t \<noteq> [] \<Longrightarrow> CHR '' '' \<notin> set t \<Longrightarrow> tokens t = [t]"
  by (simp add: tokens_def split_spaces_token)

lemma tokens_first:
  "t \<noteq> [] \<Longrightarrow> CHR '' '' \<notin> set t \<Longrightarrow> tokens (t @ CHR '' '' # cs) = t # tokens cs"
  by (simp add: tokens_def split_spaces_append_space)

definition token_texts :: "string option \<Rightarrow> string list \<Rightarrow> texts" where
  "token_texts q ts = concat (map (\<lambda>t. (case q of None \<Rightarrow> [] | Some q \<Rightarrow> [(q, NoInfo)]) @ [(t, NoInfo)]) ts)"

lemma token_texts_simps [simp]:
  "token_texts q [] = []"
  "token_texts q (t # ts) = (case q of None \<Rightarrow> [] | Some q \<Rightarrow> [(q, NoInfo)]) @ (t, NoInfo) # token_texts q ts"
  by (simp_all add: token_texts_def)

lemma skip_spaces_at:
  "set sp \<subseteq> {CHR '' ''} \<Longrightarrow> c \<noteq> CHR '' ''
   \<Longrightarrow> skip_spaces (pre @ sp @ c # cs) (length pre) = Ret (length pre + length sp)"
proof (induction sp arbitrary: pre)
  case Nil then show ?case by (subst skip_spaces.simps) simp
next
  case (Cons x sp)
  then show ?case using Cons.IH [of "pre @ [CHR '' '']"]
    by (subst skip_spaces.simps) simp
qed

lemma token_end_at:
  "CHR '' '' \<notin> set t \<Longrightarrow> NUL \<notin> set t \<Longrightarrow> c = CHR '' '' \<or> c = NUL
   \<Longrightarrow> token_end (pre @ t @ c # cs) (length pre) = Ret (length pre + length t)"
proof (induction t arbitrary: pre)
  case Nil then show ?case by (subst token_end.simps) auto
next
  case (Cons x t)
  then show ?case using Cons.IH [of "pre @ [x]"]
    by (subst token_end.simps) auto
qed

lemma spaces_token_rest:
  obtains (blank) "set line \<subseteq> {CHR '' ''}"
  | (last) sp t where "line = sp @ t" "set sp \<subseteq> {CHR '' ''}" "t \<noteq> []" "CHR '' '' \<notin> set t"
  | (more) sp t cs where "line = sp @ t @ CHR '' '' # cs" "set sp \<subseteq> {CHR '' ''}" "t \<noteq> []"
      "CHR '' '' \<notin> set t"
proof -
  define sp where "sp = takeWhile (\<lambda>c. c = CHR '' '') line"
  define r where "r = dropWhile (\<lambda>c. c = CHR '' '') line"
  define t where "t = takeWhile (\<lambda>c. c \<noteq> CHR '' '') r"
  have tx: "line = sp @ r" and sp: "set sp \<subseteq> {CHR '' ''}"
    by (auto simp: sp_def r_def dest: set_takeWhileD)
  have t: "CHR '' '' \<notin> set t" by (auto simp: t_def dest: set_takeWhileD)
  define d where "d = dropWhile (\<lambda>c. c \<noteq> CHR '' '') r"
  have r: "r = t @ d" by (simp add: t_def d_def)
  show thesis
  proof (cases r)
    case Nil
    with tx have "line = sp" by simp
    with sp show thesis by (auto intro: blank)
  next
    case (Cons c r')
    then have c: "c \<noteq> CHR '' ''" 
      using hd_dropWhile [of "\<lambda>c. c = CHR '' ''" line] by (simp add: r_def [symmetric])
    then have tn: "t \<noteq> []" by (simp add: t_def Cons)
    show thesis
    proof (cases d)
      case Nil
      with r have "r = t" by simp
      with tx have "line = sp @ t" by simp
      then show thesis using sp tn t by (rule last)
    next
      case (Cons e cs)
      then have "e = CHR '' ''"
        using hd_dropWhile [of "\<lambda>c. c \<noteq> CHR '' ''" r] by (simp add: d_def [symmetric])
      with Cons r have "r = t @ CHR '' '' # cs" by simp
      with tx have "line = sp @ t @ CHR '' '' # cs" by simp
      then show thesis using sp tn t by (rule more)
    qed
  qed
qed

lemma stands_for_add_token [simp]: "stands_for (add_token q p s) = stands_for s"
  by (intro ext) (simp add: stands_for_def deref_def c_string_def split: cptr.split)

lemma add_token_fields [simp]:
  "executionMode (add_token q p s) = executionMode s"
  "skip_compilation (add_token q p s) = skip_compilation s"
  "mOptions (add_token q p s) =
     mOptions s @ (case q of None \<Rightarrow> [] | Some q \<Rightarrow> [(Lit q, NoInfo)]) @ [(p, NoInfo)]"
  by (simp_all add: add_token_def addOption_def split: option.split)

lemma token_stands:
  assumes "stands_for s' (p, NoInfo) (t, NoInfo)"
  shows "list_all2 (stands_for s')
      ((case q of None \<Rightarrow> [] | Some q \<Rightarrow> [(Lit q, NoInfo)]) @ [(p, NoInfo)])
      (token_texts q [t])"
  using assms by (auto simp: stands_for_def split: option.split)

text \<open>One round of the loop, on an array that holds spaces, a token and a rest.\<close>

lemma extra_opts_loop_step:
  assumes "bufs s b = pre @ sp @ t @ c # cs" "set sp \<subseteq> {CHR '' ''}" "t \<noteq> []"
    "CHR '' '' \<notin> set t" "NUL \<notin> set t" "c = CHR '' '' \<or> c = NUL"
  shows "extra_opts_loop b q (length pre) s =
    (let start = length pre + length sp; tail = start + length t in
     if c = CHR '' ''
     then extra_opts_loop b q (tail + 1) (add_token q (At b start)
            (s\<lparr>bufs := (bufs s)(b := pre @ sp @ t @ NUL # cs)\<rparr>))
     else extra_opts_loop b q tail (add_token q (At b start) s))"
proof -
  obtain x xs where t: "t = x # xs" using assms(3) by (cases t) auto
  then have x: "x \<noteq> CHR '' ''" "x \<noteq> NUL" using assms(4,5) by auto
  have "c_char s b (length pre) = Ret (case sp of [] \<Rightarrow> x | s # _ \<Rightarrow> s)"
    by (simp add: c_char_def assms(1) t nth_append split: list.split)
  moreover have "(case sp of [] \<Rightarrow> x | s # _ \<Rightarrow> s) \<noteq> NUL"
    using assms(2) x by (auto split: list.split)
  moreover have "skip_spaces (bufs s b) (length pre) = Ret (length pre + length sp)"
    unfolding assms(1) t using skip_spaces_at [OF assms(2) x(1), of pre "xs @ c # cs"] by simp
  moreover have "c_char s b (length pre + length sp) = Ret x"
    by (simp add: c_char_def assms(1) t nth_append)
  moreover have "token_end (bufs s b) (length pre + length sp + 1) = Ret (length pre + length sp + length t)"
    using token_end_at [of xs c "pre @ sp @ [x]" cs] assms(4-6) unfolding assms(1) t by simp
  moreover have "bufs s b ! (length pre + length sp + length t) = c"
    unfolding assms(1) by (simp add: nth_append)
  moreover have "(bufs s b)[length pre + length sp + length t := NUL] = pre @ sp @ t @ NUL # cs"
    unfolding assms(1) by (simp add: list_update_append)
  ultimately show ?thesis
    using x(2) by (subst extra_opts_loop.simps) (simp add: Let_def)
qed

lemma extra_opts_loop_end:
  assumes "bufs s b = pre @ sp @ NUL # cs" "set sp \<subseteq> {CHR '' ''}"
  shows "extra_opts_loop b q (length pre) s = Ret s"
proof -
  have "skip_spaces (bufs s b) (length pre) = Ret (length pre + length sp)"
    unfolding assms(1) by (rule skip_spaces_at) (use assms(2) in auto)
  moreover have "c_char s b (length pre + length sp) = Ret NUL"
    by (simp add: c_char_def assms(1) nth_append)
  moreover have "\<exists>c. c_char s b (length pre) = Ret c"
    by (simp add: c_char_def assms(1))
  ultimately show ?thesis by (subst extra_opts_loop.simps) auto
qed

lemma extra_opts_loop_tokens:
  assumes "bufs s b = pre @ line @ NUL # cs" "NUL \<notin> set line"
  shows "\<exists>s' tl ps. extra_opts_loop b q (length pre) s = Ret s' \<and> bufs s' = (bufs s)(b := pre @ tl)
    \<and> length tl = length line + 1 + length cs
    \<and> executionMode s' = executionMode s \<and> skip_compilation s' = skip_compilation s
    \<and> mOptions s' = mOptions s @ ps \<and> (\<forall>o'\<in>set ps. in_bufs {b} (fst o'))
    \<and> list_all2 (stands_for s') ps (token_texts q (tokens line))"
  using assms
proof (induction "length line" arbitrary: line pre s rule: less_induct)
  case less
  let ?new = "\<lambda>p. (case q of None \<Rightarrow> [] | Some q \<Rightarrow> [(Lit q, NoInfo)]) @ [(p, NoInfo)]"
  have new_in: "\<forall>o'\<in>set (?new (At b off)). in_bufs {b} (fst o')" for off
    by (auto split: option.split)
  show ?case
  proof (cases rule: spaces_token_rest [of "line"])
    case blank
    then have "tokens line = []" using tokens_spaces [of "line" "[]"] by simp
    then show ?thesis
      using extra_opts_loop_end [OF less.prems(1) blank] less.prems(1)
      by (intro exI [of _ s] exI [of _ "line @ NUL # cs"] exI [of _ "[]"]) (simp add: fun_upd_idem)
  next
    case (last sp t)
    let ?p = "At b (length pre + length sp)"
    let ?s = "add_token q ?p s"
    have b: "bufs s b = (pre @ sp) @ t @ NUL # cs" using less.prems(1) last(1) by simp
    have "extra_opts_loop b q (length (pre @ sp @ t)) ?s = Ret ?s"
      by (rule extra_opts_loop_end [where sp = "[]"]) (use b in simp_all)
    moreover have "stands_for ?s (?p, NoInfo) (t, NoInfo)"
      using c_string_at [OF b] less.prems(2) last(1) by (simp add: stands_for_def deref_def)
    ultimately show ?thesis
      using extra_opts_loop_step [OF _ last(2-4), of s b pre NUL cs q] b less.prems last(1)
        token_stands [of ?s ?p t q] new_in tokens_spaces [OF last(2), of t] tokens_last [OF last(3,4)]
      by (intro exI [of _ ?s] exI [of _ "line @ NUL # cs"] exI [of _ "?new ?p"])
        (simp add: fun_upd_idem Let_def add.assoc)
  next
    case (more sp t rest)
    let ?p = "At b (length pre + length sp)"
    let ?s = "add_token q ?p (s\<lparr>bufs := (bufs s)(b := pre @ sp @ t @ NUL # rest @ NUL # cs)\<rparr>)"
    let ?pre = "pre @ sp @ t @ [NUL]"
    have b: "bufs s b = pre @ sp @ t @ CHR '' '' # rest @ NUL # cs" using less.prems(1) more(1) by simp
    have len: "length rest < length line" using more(1) by simp
    have b': "bufs ?s b = ?pre @ rest @ NUL # cs" by simp
    have nul: "NUL \<notin> set rest" "NUL \<notin> set t" using less.prems(2) more(1) by auto
    obtain s' tl ps where ih: "extra_opts_loop b q (length ?pre) ?s = Ret s'"
      "bufs s' = (bufs ?s)(b := ?pre @ tl)" "length tl = length rest + 1 + length cs"
      "executionMode s' = executionMode ?s" "skip_compilation s' = skip_compilation ?s"
      "mOptions s' = mOptions ?s @ ps" "\<forall>o'\<in>set ps. in_bufs {b} (fst o')"
      "list_all2 (stands_for s') ps (token_texts q (tokens rest))"
      using less.hyps [OF len b' nul(1)] by blast
    have "bufs s' b = (pre @ sp) @ t @ NUL # tl" using ih(2) by simp
    from c_string_at [OF this nul(2)] have "stands_for s' (?p, NoInfo) (t, NoInfo)"
      by (simp add: stands_for_def deref_def)
    from list_all2_appendI [OF token_stands [OF this, of q] ih(8)]
    have st: "list_all2 (stands_for s') (?new ?p @ ps) (token_texts q (tokens line))"
      using more tokens_spaces [OF more(2), of "t @ CHR '' '' # rest"] tokens_first [OF more(3,4), of rest]
      by simp
    have "extra_opts_loop b q (length pre) s = Ret s'"
      using extra_opts_loop_step [OF b more(2-4) nul(2), of q] ih(1) by (simp add: Let_def add.assoc)
    then show ?thesis
      using ih(2-7) st new_in more(1)
      by (intro exI [of _ s'] exI [of _ "sp @ t @ NUL # tl"] exI [of _ "?new ?p @ ps"])
        (auto simp del: list_all2_append)
  qed
qed

declare opts_hold_size [simp del]

end
