(* ===== verification/Runtime_Start.thy ===== *)
theory Runtime_Start
  imports Runtime_Options_Correct
begin

text \<open>
  \<open>AndroidRuntime::startVm\<close> of \<open>jni/AndroidRuntime.cpp\<close>, statement by statement:
  the options in the order of the code, its two early returns, and the call of the virtual
  machine's constructor with what the option pointers hold at that moment.

  The properties, the file system and \<open>JNI_CreateJavaVM\<close> are parameters; so are the
  processor and the \<open>__LP64__\<close> of the build.
\<close>

section \<open>Parameters\<close>

datatype file_kind = RegularFile | Directory | OtherFile

type_synonym files = "string \<Rightarrow> file_kind option"

definition hasDir :: "files \<Rightarrow> string \<Rightarrow> bool" where
  "hasDir F dir = (case F dir of Some k \<Rightarrow> k = Directory | None \<Rightarrow> False)"

definition hasFile :: "files \<Rightarrow> string \<Rightarrow> bool" where
  "hasFile F file = (case F file of Some k \<Rightarrow> k = RegularFile | None \<Rightarrow> False)"

datatype arch = Arm | Aarch64 | Mips | I386 | X86_64 | OtherArch

definition instruction_set :: "arch \<Rightarrow> bool \<Rightarrow> string" where
  "instruction_set a lp64 =
     (case a of Arm \<Rightarrow> ''arm'' | Aarch64 \<Rightarrow> ''arm64''
      | Mips \<Rightarrow> (if \<not> lp64 then ''mips'' else ''mips64'')
      | I386 \<Rightarrow> ''x86'' | X86_64 \<Rightarrow> ''x86_64'' | OtherArch \<Rightarrow> ''unknown'')"

record platform =
  pl_props :: props
  pl_files :: files
  pl_arch :: arch
  pl_lp64 :: bool
  pl_CreateJavaVM :: "texts \<Rightarrow> int"

section \<open>The statements of startVm\<close>

text \<open>A property read into an array, then a decision on its text.\<close>

definition with_property :: "props \<Rightarrow> string \<Rightarrow> buffer \<Rightarrow> string \<Rightarrow> (string \<Rightarrow> vmop) \<Rightarrow> vmop" where
  "with_property P key b d F s =
     cbind (property_get P key b 0 d s) (\<lambda>s. cbind (c_string s b 0) (\<lambda>v. F v s))"

definition check_jni :: "props \<Rightarrow> vmop" where
  "check_jni P =
     with_property P ''dalvik.vm.checkjni'' PropBuf '''' (\<lambda>v.
       if v = ''true'' then option_lit ''-Xcheck:jni''
       else if v \<noteq> ''false'' then
         with_property P ''ro.kernel.android.checkjni'' PropBuf '''' (\<lambda>v.
           if v \<noteq> [] \<and> hd v = CHR ''1'' then option_lit ''-Xcheck:jni'' else run_all [])
       else run_all [])"

definition set_mode :: "exec_mode \<Rightarrow> vmop" where
  "set_mode m s = Ret (s\<lparr>executionMode := m\<rparr>)"

definition read_execution_mode :: "props \<Rightarrow> vmop" where
  "read_execution_mode P =
     with_property P ''dalvik.vm.execution-mode'' PropBuf '''' (\<lambda>v.
       if v = ''int:portable'' then set_mode KEMIntPortable
       else if v = ''int:fast'' then set_mode KEMIntFast
       else if v = ''int:jit'' then set_mode KEMJitCompiler
       else run_all [])"

definition option_if_true :: "props \<Rightarrow> string \<Rightarrow> buffer \<Rightarrow> string \<Rightarrow> vmop" where
  "option_if_true P key b opt =
     with_property P key b '''' (\<lambda>v. if v = ''true'' then option_lit opt else run_all [])"

definition mode_option :: vmop where
  "mode_option s =
     (case executionMode s of
        KEMIntPortable \<Rightarrow> option_lit ''-Xint:portable'' s
      | KEMIntFast \<Rightarrow> option_lit ''-Xint:fast'' s
      | KEMJitCompiler \<Rightarrow> option_lit ''-Xint:jit'' s
      | KEMDefault \<Rightarrow> Ret s)"

definition vold_decrypt :: "props \<Rightarrow> vmop" where
  "vold_decrypt P =
     with_property P ''vold.decrypt'' VoldDecryptBuf '''' (\<lambda>v s.
       Ret (s\<lparr>skip_compilation := (v = ''trigger_restart_min_framework'' \<or> v = ''1'')\<rparr>))"

definition if_skip :: "vmop \<Rightarrow> vmop \<Rightarrow> vmop" where
  "if_skip f g s = (if skip_compilation s then f s else g s)"

definition extra_opts_property :: "props \<Rightarrow> string \<Rightarrow> buffer \<Rightarrow> string option \<Rightarrow> vmop" where
  "extra_opts_property P key b quotingArg s =
     cbind (property_get P key b 0 '''' s) (parseExtraOpts b quotingArg)"

text \<open>The key is printed into an array and read from there by both calls.\<close>

definition isa_options :: "props \<Rightarrow> string \<Rightarrow> buffer \<Rightarrow> buffer \<Rightarrow> string \<Rightarrow> vmop" where
  "isa_options P keytext keybuf b arg s =
     cbind (strcpy keybuf keytext s) (\<lambda>s.
     cbind (c_string s keybuf 0) (\<lambda>key.
     run_all [compiler_option P key b arg ''-Ximage-compiler-option'',
              compiler_option P key b arg ''-Xcompiler-option''] s))"

definition locale_option :: "props \<Rightarrow> vmop" where
  "locale_option P s =
     cbind (strcpy LocaleOption ''-Duser.locale='' s) (\<lambda>s.
     cbind (strncat LocaleOption (readLocale P) (PROPERTY_VALUE_MAX P) s) (\<lambda>s.
     Ret (addOption (At LocaleOption 0) NoInfo s)))"

definition method_trace :: "props \<Rightarrow> vmop" where
  "method_trace P =
     with_property P ''ro.debuggable'' PropBuf ''0'' (\<lambda>v.
       if v = ''1'' then
         with_property P ''dalvik.vm.method-trace'' PropBuf ''false'' (\<lambda>v.
           if v = ''true'' then
             run_all [option_lit ''-Xmethod-trace'',
               runtime_option P ''dalvik.vm.method-trace-file'' MethodTraceFileBuf
                 ''-Xmethod-trace-file:'' '''',
               runtime_option P ''dalvik.vm.method-trace-file-siz'' MethodTraceFileSizeBuf
                 ''-Xmethod-trace-file-size:'' '''',
               with_property P ''dalvik.vm.method-trace-stream'' PropBuf ''false'' (\<lambda>v.
                 if v = ''true'' then option_lit ''-Xmethod-trace-stream'' else run_all [])]
           else run_all [])
       else run_all [])"

definition native_bridge :: "props \<Rightarrow> vmop" where
  "native_bridge P =
     with_property P ''ro.dalvik.vm.native.bridge'' PropBuf '''' (\<lambda>v.
       if v = [] then run_all []
       else if v \<noteq> ''0'' then
         (\<lambda>s. cbind (snprintf NativeBridgeLibrary
                  (length ''-XX:NativeBridge='' + 1 + PROPERTY_VALUE_MAX P)
                  (''-XX:NativeBridge='' @ v) s)
              (\<lambda>s. Ret (addOption (At NativeBridgeLibrary 0) NoInfo s)))
       else run_all [])"

definition cpu_abilist_property_name :: "bool \<Rightarrow> string" where
  "cpu_abilist_property_name lp64 =
     (if lp64 then ''ro.product.cpu.abilist64'' else ''ro.product.cpu.abilist32'')"

definition generate_debug_info :: "props \<Rightarrow> vmop" where
  "generate_debug_info P =
     with_property P ''debug.generate-debug-info'' PropBuf '''' (\<lambda>v.
       if v = ''true'' then
         run_all [option_lit ''-Xcompiler-option'', option_lit ''--generate-debug-info'',
                  option_lit ''-Ximage-compiler-option'', option_lit ''--generate-debug-info'']
       else run_all [])"

section \<open>The body, between its early returns\<close>

definition vm_options :: "props \<Rightarrow> bool \<Rightarrow> vmop" where
  \<comment> \<open>up to the options of the boot image\<close>
  "vm_options P zygote = run_all
    [check_jni P,
     read_execution_mode P,
     runtime_option P ''dalvik.vm.stack-trace-file'' StackTraceFileBuf ''-Xstacktracefile:'' '''',
     strcpy JniOptsBuf ''-Xjniopts:'',
     runtime_option P ''dalvik.vm.jniopts'' JniOptsBuf ''-Xjniopts:'' '''',
     (\<lambda>s. Ret (addOption (Lit ''exit'') Runtime_exit s)),
     (\<lambda>s. Ret (addOption (Lit ''vfprintf'') Runtime_vfprintf s)),
     (\<lambda>s. Ret (addOption (Lit ''sensitiveThread'') Runtime_isSensitiveThread s)),
     option_lit ''-verbose:gc'',
     runtime_option P ''dalvik.vm.heapstartsize'' HeapstartsizeOptsBuf ''-Xms'' ''4m'',
     runtime_option P ''dalvik.vm.heapsize'' HeapsizeOptsBuf ''-Xmx'' ''16m'',
     runtime_option P ''dalvik.vm.heapgrowthlimit'' HeapgrowthlimitOptsBuf
       ''-XX:HeapGrowthLimit='' '''',
     runtime_option P ''dalvik.vm.heapminfree'' HeapminfreeOptsBuf ''-XX:HeapMinFree='' '''',
     runtime_option P ''dalvik.vm.heapmaxfree'' HeapmaxfreeOptsBuf ''-XX:HeapMaxFree='' '''',
     runtime_option P ''dalvik.vm.heaptargetutilization'' HeaptargetutilizationOptsBuf
       ''-XX:HeapTargetUtilization='' '''',
     runtime_option P ''dalvik.vm.usejit'' UsejitOptsBuf ''-Xusejit:'' '''',
     runtime_option P ''dalvik.vm.jitmaxsize'' JitmaxsizeOptsBuf ''-Xjitmaxsize:'' '''',
     runtime_option P ''dalvik.vm.jitinitialsize'' JitinitialsizeOptsBuf ''-Xjitinitialsize:'' '''',
     runtime_option P ''dalvik.vm.jitthreshold'' JitthresholdOptsBuf ''-Xjitthreshold:'' '''',
     option_if_true P ''dalvik.vm.usejitprofiles'' UseJitProfilesOptsBuf ''-Xjitsaveprofilinginfo'',
     runtime_option P ''dalvik.vm.jitprithreadweight'' JitprithreadweightOptBuf
       ''-Xjitprithreadweight:'' '''',
     runtime_option P ''dalvik.vm.jittransitionweight'' JittransitionweightOptBuf
       ''-Xjittransitionweight:'' '''',
     option_if_true P ''ro.config.low_ram'' PropBuf ''-XX:LowMemoryMode'',
     runtime_option P ''dalvik.vm.gctype'' GctypeOptsBuf ''-Xgc:'' '''',
     runtime_option P ''dalvik.vm.backgroundgctype'' BackgroundgcOptsBuf ''-XX:BackgroundGC='' '''',
     (if zygote then option_lit ''-agentlib:jdwp=transport=dt_android_adb,suspend=n,server=y''
      else run_all []),
     runtime_option P ''dalvik.vm.lockprof.threshold'' LockProfThresholdBuf
       ''-Xlockprofthreshold:'' '''',
     mode_option,
     vold_decrypt P,
     compiler_runtime_option P ''dalvik.vm.image-dex2oat-Xms'' Dex2oatXmsImageFlagsBuf
       ''-Xms'' ''-Ximage-compiler-option'',
     compiler_runtime_option P ''dalvik.vm.image-dex2oat-Xmx'' Dex2oatXmxImageFlagsBuf
       ''-Xmx'' ''-Ximage-compiler-option'',
     if_skip
       (run_all [option_lit ''-Ximage-compiler-option'',
                 option_lit ''--compiler-filter=assume-verified''])
       (compiler_option P ''dalvik.vm.image-dex2oat-filter'' Dex2oatImageCompilerFilterBuf
          ''--compiler-filter='' ''-Ximage-compiler-option'')]"

definition compiler_options :: "platform \<Rightarrow> vmop" where
  \<comment> \<open>from the preloaded classes to the native bridge\<close>
  "compiler_options W = (let P = pl_props W; isa = instruction_set (pl_arch W) (pl_lp64 W) in run_all
    [option_lit ''-Ximage-compiler-option'',
     option_lit ''--image-classes=/system/etc/preloaded-classes'',
     (if hasFile (pl_files W) ''/system/etc/compiled-classes''
      then run_all [option_lit ''-Ximage-compiler-option'',
                    option_lit ''--compiled-classes=/system/etc/compiled-classes'']
      else run_all []),
     extra_opts_property P ''dalvik.vm.image-dex2oat-flags'' Dex2oatImageFlagsBuf
       (Some ''-Ximage-compiler-option''),
     compiler_runtime_option P ''dalvik.vm.dex2oat-Xms'' Dex2oatXmsFlagsBuf
       ''-Xms'' ''-Xcompiler-option'',
     compiler_runtime_option P ''dalvik.vm.dex2oat-Xmx'' Dex2oatXmxFlagsBuf
       ''-Xmx'' ''-Xcompiler-option'',
     if_skip
       (run_all [option_lit ''-Xcompiler-option'',
                 option_lit ''--compiler-filter=assume-verified'',
                 option_lit ''--runtime-arg'', option_lit ''-Xnorelocate''])
       (compiler_option P ''dalvik.vm.dex2oat-filter'' Dex2oatCompilerFilterBuf
          ''--compiler-filter='' ''-Xcompiler-option''),
     compiler_option P ''dalvik.vm.dex2oat-threads'' Dex2oatThreadsBuf ''-j'' ''-Xcompiler-option'',
     compiler_option P ''dalvik.vm.image-dex2oat-threads'' Dex2oatThreadsImageBuf ''-j''
       ''-Ximage-compiler-option'',
     isa_options P (''dalvik.vm.isa.'' @ isa @ ''.variant'') Dex2oat_isa_variant_key
       Dex2oat_isa_variant ''--instruction-set-variant='',
     isa_options P (''dalvik.vm.isa.'' @ isa @ ''.features'') Dex2oat_isa_features_key
       Dex2oat_isa_features ''--instruction-set-features='',
     extra_opts_property P ''dalvik.vm.dex2oat-flags'' Dex2oatFlagsBuf (Some ''-Xcompiler-option''),
     extra_opts_property P ''dalvik.vm.extra-opts'' ExtraOptsBuf None,
     locale_option P,
     method_trace P,
     native_bridge P])"

definition last_options :: "props \<Rightarrow> string \<Rightarrow> vmop" where
  \<comment> \<open>from the ABI list, which \<open>propBuf\<close> holds, to the fingerprint\<close>
  "last_options P abilist = run_all
    [(\<lambda>s. cbind (snprintf CpuAbiListBuf (buffer_size P CpuAbiListBuf)
                  (''--cpu-abilist='' @ abilist) s)
           (\<lambda>s. Ret (addOption (At CpuAbiListBuf 0) NoInfo s))),
     runtime_option P ''dalvik.vm.zygote.max-boot-retry'' CachePruneBuf
       ''-Xzygote-max-boot-retry='' '''',
     generate_debug_info P,
     runtime_option P ''ro.build.fingerprint'' FingerprintBuf ''-Xfingerprint:'' '''']"

text \<open>The option strings as the constructor of the machine reads them.\<close>

primrec read_options :: "vmstate \<Rightarrow> (cptr \<times> hook) list \<Rightarrow> texts cres" where
  "read_options s [] = Ret []"
| "read_options s (o' # os) =
     cbind (deref s (fst o')) (\<lambda>t. cbind (read_options s os) (\<lambda>ts. Ret ((t, snd o') # ts)))"

text \<open>
  The result: the value returned, and the options that the machine was created with
  (\<open>None\<close> when \<open>JNI_CreateJavaVM\<close> was not reached).
\<close>

definition startVm :: "platform \<Rightarrow> bool \<Rightarrow> vmstate \<Rightarrow> (int \<times> texts option \<times> vmstate) cres" where
  "startVm W zygote s = (let P = pl_props W in
     cbind (vm_options P zygote s) (\<lambda>s.
     if \<not> hasFile (pl_files W) ''/system/etc/preloaded-classes'' then Ret (- 1, None, s)
     else cbind (compiler_options W s) (\<lambda>s.
     cbind (property_get P (cpu_abilist_property_name (pl_lp64 W)) PropBuf 0 '''' s) (\<lambda>s.
     cbind (c_string s PropBuf 0) (\<lambda>abilist.
     if abilist = [] then Ret (- 1, None, s)
     else cbind (last_options P abilist s) (\<lambda>s.
     cbind (read_options s (mOptions s)) (\<lambda>opts.
     Ret (if pl_CreateJavaVM W opts < 0 then - 1 else 0, Some opts, s))))))))"

text \<open>
  The state on entry: arrays not yet written, of their declared sizes, and the options that the
  caller of \<open>start\<close> added before, whose strings are none of these arrays.
\<close>

definition startVm_entry :: "props \<Rightarrow> (buffer \<Rightarrow> nat \<Rightarrow> char) \<Rightarrow> texts \<Rightarrow> vmstate" where
  "startVm_entry P junk given =
     \<lparr>bufs = (\<lambda>b. map (junk b) [0..<buffer_size P b]),
      mOptions = map (\<lambda>(t, h). (Lit t, h)) given,
      executionMode = KEMDefault, skip_compilation = False\<rparr>"

end
