(* ===== verification/Runtime_Start_Correct.thy ===== *)
theory Runtime_Start_Correct
  imports Runtime_Start
begin

text \<open>
  What \<open>startVm\<close> gives the virtual machine, in terms of texts: the options of the
  properties, in order. The rules \<open>adds_rules\<close>, one for each kind of statement, carry the
  proofs; the arrays that hold an option are written in the conclusions.
\<close>

named_theorems adds_rules "the options a statement of startVm adds"

declare adds_option_lit [adds_rules] adds_hook [adds_rules] adds_runtime_option [adds_rules]
  adds_compiler_option [adds_rules] adds_compiler_runtime_option [adds_rules]

section \<open>Rules for the statements\<close>

lemma adds_run_nil [adds_rules]: "adds P c (run_all []) c (concat [])"
  by (simp add: adds_nil del: run_all.simps)

lemma adds_run_cons [adds_rules]:
  "adds P c f c1 A \<Longrightarrow> adds P c1 (run_all fs) c2 (concat As)
   \<Longrightarrow> adds P c (run_all (f # fs)) c2 (concat (A # As))"
  using adds_cons [of P c f c1 A fs c2 "concat As"] by simp

lemma adds_widen:
  "adds P c f (U, m, k) A \<Longrightarrow> U \<subseteq> U' \<Longrightarrow> adds P c f (U', m, k) A"
  unfolding adds_def by (metis fst_conv opts_hold_mono snd_conv)

lemma adds_with_property:
  assumes "adds P (U, m, k) (F (getProperty P key d)) c A" "props_ok P" "b \<notin> U"
    "length d < 6" "NUL \<notin> set d" "PROPERTY_VALUE_MAX P \<le> buffer_size P b"
  shows "adds P (U, m, k) (with_property P key b d F) c A"
proof (cases c)
  case (fields U' m' k')
  show ?thesis unfolding fields
  proof (rule addsI)
    fix s L assume h: "opts_hold P U m k L s"
    obtain s1 where s1: "property_get P key b 0 d s = Ret s1" "opts_hold P U m k L s1"
      "c_string s1 b 0 = Ret (getProperty P key d)"
      by (rule property_get_scratch [OF h assms(3,2,4-6)])
    from addsD [OF assms(1) [unfolded fields] s1(2)]
    show "\<exists>s'. with_property P key b d F s = Ret s' \<and> opts_hold P U' m' k' (L @ A) s'"
      by (simp add: with_property_def s1)
  qed
qed

lemma adds_strcpy [adds_rules]:
  assumes "props_ok P" "b \<notin> U" "length t + PROPERTY_VALUE_MAX P \<le> buffer_size P b"
  shows "adds P (U, m, k) (strcpy b t) (U, m, k) []"
proof (rule addsI)
  have fit: "length t < buffer_size P b" using assms(1,3) by (simp add: props_ok_def)
  fix s L assume h: "opts_hold P U m k L s"
  have "strcpy b t s = Ret (s\<lparr>bufs := (bufs s)(b := t @ NUL # drop (length t + 1) (bufs s b))\<rparr>)"
    using fit opts_hold_size [OF h] by (simp add: strcpy_def poke_def)
  moreover have "length (t @ NUL # drop (length t + 1) (bufs s b)) = buffer_size P b"
    using fit opts_hold_size [OF h] by simp
  ultimately show "\<exists>s'. strcpy b t s = Ret s' \<and> opts_hold P U m k (L @ []) s'"
    using opts_hold_buf [OF h assms(2)] by (simp del: append_assoc)
qed

lemma stands_for_locals [simp]:
  "stands_for (s\<lparr>executionMode := m\<rparr>) = stands_for s"
  "stands_for (s\<lparr>skip_compilation := k\<rparr>) = stands_for s"
  by (intro ext, simp add: stands_for_def deref_def c_string_def split: cptr.split)+

lemma opts_hold_locals:
  "opts_hold P U m k L s \<Longrightarrow> opts_hold P U m' k L (s\<lparr>executionMode := m'\<rparr>)"
  "opts_hold P U m k L s \<Longrightarrow> opts_hold P U m k' L (s\<lparr>skip_compilation := k'\<rparr>)"
  by (simp_all add: opts_hold_def)

lemma adds_set_mode: "adds P (U, m, k) (set_mode m') (U, m', k) []"
  by (rule addsI) (simp add: set_mode_def opts_hold_locals)

definition mode_text :: "exec_mode \<Rightarrow> texts" where
  "mode_text m =
     (case m of KEMIntPortable \<Rightarrow> [(''-Xint:portable'', NoInfo)]
      | KEMIntFast \<Rightarrow> [(''-Xint:fast'', NoInfo)]
      | KEMJitCompiler \<Rightarrow> [(''-Xint:jit'', NoInfo)] | KEMDefault \<Rightarrow> [])"

lemma adds_mode_option [adds_rules]: "adds P (U, m, k) mode_option (U, m, k) (mode_text m)"
proof (rule addsI)
  fix s L assume h: "opts_hold P U m k L s"
  then have "executionMode s = m" by (simp add: opts_hold_def)
  then show "\<exists>s'. mode_option s = Ret s' \<and> opts_hold P U m k (L @ mode_text m) s'"
    using h by (cases m) (simp_all add: mode_option_def mode_text_def option_lit_def opts_hold_lit)
qed

lemma adds_if_skip [adds_rules]:
  assumes "k \<Longrightarrow> adds P (U, m, k) f c A" "\<not> k \<Longrightarrow> adds P (U, m, k) g c B"
  shows "adds P (U, m, k) (if_skip f g) c (if k then A else B)"
proof (cases c)
  case (fields U' m' k')
  show ?thesis unfolding fields
  proof (rule addsI)
    fix s L assume h: "opts_hold P U m k L s"
    then have sk: "skip_compilation s = k" by (simp add: opts_hold_def)
    show "\<exists>s'. if_skip f g s = Ret s' \<and> opts_hold P U' m' k' (L @ (if k then A else B)) s'"
      using addsD [OF assms(1) [unfolded fields] h] addsD [OF assms(2) [unfolded fields] h]
      by (cases k) (simp_all add: if_skip_def sk)
  qed
qed

lemma adds_if_rule [adds_rules]:
  "(b \<Longrightarrow> adds P c f c' A) \<Longrightarrow> (\<not> b \<Longrightarrow> adds P c g c' B)
   \<Longrightarrow> adds P c (if b then f else g) c' (if b then A else B)"
  by (rule adds_if)

section \<open>The options in terms of the properties\<close>

definition is_true :: "props \<Rightarrow> string \<Rightarrow> bool" where
  "is_true P key \<longleftrightarrow> prop_value P key = ''true''"

definition text_if :: "bool \<Rightarrow> string list \<Rightarrow> texts" where
  "text_if b ts = (if b then map (\<lambda>t. (t, NoInfo)) ts else [])"

definition checks_jni :: "props \<Rightarrow> bool" where
  "checks_jni P \<longleftrightarrow> is_true P ''dalvik.vm.checkjni'' \<or>
     prop_value P ''dalvik.vm.checkjni'' \<noteq> ''false''
       \<and> take 1 (prop_value P ''ro.kernel.android.checkjni'') = ''1''"

definition mode_of :: "props \<Rightarrow> exec_mode" where
  "mode_of P = (let v = prop_value P ''dalvik.vm.execution-mode'' in
     if v = ''int:portable'' then KEMIntPortable else if v = ''int:fast'' then KEMIntFast
     else if v = ''int:jit'' then KEMJitCompiler else KEMDefault)"

definition skips_compilation :: "props \<Rightarrow> bool" where
  "skips_compilation P \<longleftrightarrow>
     prop_value P ''vold.decrypt'' \<in> {''trigger_restart_min_framework'', ''1''}"

lemma getProperty_empty [simp]: "getProperty P key '''' = prop_value P key"
  by (simp add: getProperty_def)

lemma adds_text_if: "adds P (U, m, k) (if b then option_lit t else run_all []) (U, m, k) (text_if b [t])"
  using adds_option_lit adds_nil by (simp add: text_if_def)

lemma adds_option_if_true [adds_rules]:
  "props_ok P \<Longrightarrow> b \<notin> U \<Longrightarrow> PROPERTY_VALUE_MAX P \<le> buffer_size P b
   \<Longrightarrow> adds P (U, m, k) (option_if_true P key b opt) (U, m, k) (text_if (is_true P key) [opt])"
  unfolding option_if_true_def
  by (rule adds_with_property) (simp_all add: is_true_def adds_text_if del: run_all.simps)

lemma adds_check_jni [adds_rules]:
  assumes "props_ok P" "PropBuf \<notin> U"
  shows "adds P (U, m, k) (check_jni P) (U, m, k) (text_if (checks_jni P) [''-Xcheck:jni''])"
proof -
  let ?v = "prop_value P ''dalvik.vm.checkjni''" and ?w = "prop_value P ''ro.kernel.android.checkjni''"
  have w: "take 1 ?w = ''1'' \<longleftrightarrow> ?w \<noteq> [] \<and> hd ?w = CHR ''1''"
    by (cases ?w) auto
  have "adds P (U, m, k)
      (if ?v = ''true'' then option_lit ''-Xcheck:jni''
       else if ?v \<noteq> ''false'' then
         with_property P ''ro.kernel.android.checkjni'' PropBuf '''' (\<lambda>v.
           if v \<noteq> [] \<and> hd v = CHR ''1'' then option_lit ''-Xcheck:jni'' else run_all [])
       else run_all []) (U, m, k) (text_if (checks_jni P) [''-Xcheck:jni''])"
  proof (cases "?v = ''true'' \<or> ?v = ''false''")
    case True
    then show ?thesis
      by (auto simp: checks_jni_def is_true_def text_if_def adds_option_lit adds_nil simp del: run_all.simps)
  next
    case False
    then have "checks_jni P \<longleftrightarrow> ?w \<noteq> [] \<and> hd ?w = CHR ''1''"
      using w by (simp add: checks_jni_def is_true_def)
    moreover have "adds P (U, m, k)
        (with_property P ''ro.kernel.android.checkjni'' PropBuf '''' (\<lambda>v.
           if v \<noteq> [] \<and> hd v = CHR ''1'' then option_lit ''-Xcheck:jni'' else run_all []))
        (U, m, k) (text_if (?w \<noteq> [] \<and> hd ?w = CHR ''1'') [''-Xcheck:jni''])"
      by (rule adds_with_property) (use assms adds_text_if in \<open>simp_all del: run_all.simps\<close>)
    ultimately show ?thesis using False by (simp del: run_all.simps)
  qed
  then have "adds P (U, m, k)
      ((\<lambda>v. if v = ''true'' then option_lit ''-Xcheck:jni''
       else if v \<noteq> ''false'' then
         with_property P ''ro.kernel.android.checkjni'' PropBuf '''' (\<lambda>v.
           if v \<noteq> [] \<and> hd v = CHR ''1'' then option_lit ''-Xcheck:jni'' else run_all [])
       else run_all []) (getProperty P ''dalvik.vm.checkjni'' ''''))
      (U, m, k) (text_if (checks_jni P) [''-Xcheck:jni''])"
    unfolding getProperty_empty .
  then show ?thesis unfolding check_jni_def
    by (rule adds_with_property) (use assms in simp_all)
qed

lemma adds_read_execution_mode [adds_rules]:
  assumes "props_ok P" "PropBuf \<notin> U"
  shows "adds P (U, KEMDefault, k) (read_execution_mode P) (U, mode_of P, k) []"
  unfolding read_execution_mode_def
  by (rule adds_with_property)
    (use assms in \<open>simp_all add: mode_of_def Let_def adds_set_mode adds_nil del: run_all.simps\<close>)

lemma adds_vold_decrypt [adds_rules]:
  assumes "props_ok P" "VoldDecryptBuf \<notin> U"
  shows "adds P (U, m, k) (vold_decrypt P) (U, m, skips_compilation P) []"
proof -
  have "adds P (U, m, k) (\<lambda>s. Ret (s\<lparr>skip_compilation := k'\<rparr>)) (U, m, k') []" for k'
    by (rule addsI) (simp add: opts_hold_locals)
  from this [of "skips_compilation P"] show ?thesis unfolding vold_decrypt_def
    by (rule_tac adds_with_property) (use assms in \<open>simp_all add: skips_compilation_def\<close>)
qed

lemma adds_extra_opts [adds_rules]:
  assumes "props_ok P" "b \<notin> U" "PROPERTY_VALUE_MAX P \<le> buffer_size P b"
  shows "adds P (U, m, k) (extra_opts_property P key b q) (insert b U, m, k)
    (token_texts q (tokens (prop_value P key)))"
proof (rule addsI)
  fix s L assume h: "opts_hold P U m k L s"
  let ?v = "prop_value P key"
  have v: "length ?v < PROPERTY_VALUE_MAX P" "NUL \<notin> set ?v" by (rule fits_prop [OF assms(1)])+
  let ?s = "s\<lparr>bufs := (bufs s)(b := prefixed [] ?v (bufs s b))\<rparr>"
  have get: "property_get P key b 0 '''' s = Ret ?s"
    using v(1) assms(3) opts_hold_size [OF h] by (simp add: property_get_def poke_def prefixed_def)
  have h1: "opts_hold P U m k L ?s"
    using opts_hold_prefixed(1) [OF h assms(2) _ _ v(2), of "[]"] v(1) assms(3) by simp
  have "bufs ?s b = [] @ ?v @ NUL # drop (length ?v + 1) (bufs s b)" by (simp add: prefixed_def)
  from extra_opts_loop_tokens [OF this v(2), of q]
  obtain s' tl ps where r: "extra_opts_loop b q 0 ?s = Ret s'" "bufs s' = (bufs ?s)(b := tl)"
    "length tl = length (bufs ?s b)"
    "executionMode s' = executionMode ?s" "skip_compilation s' = skip_compilation ?s"
    "mOptions s' = mOptions ?s @ ps" "\<forall>o'\<in>set ps. in_bufs {b} (fst o')"
    "list_all2 (stands_for s') ps (token_texts q (tokens ?v))"
    by (auto simp: prefixed_def)
  have "list_all2 (stands_for s') (mOptions ?s) L"
  proof (rule list.rel_mono_strong)
    show "list_all2 (stands_for ?s) (mOptions ?s) L" using h1 by (simp add: opts_hold_def)
  next
    fix o' t assume "o' \<in> set (mOptions ?s)" "stands_for ?s o' t"
    moreover have "in_bufs U (fst o')" using h1 calculation(1) by (simp add: opts_hold_def)
    ultimately show "stands_for s' o' t"
      by (rule_tac stands_for_frame) (use assms(2) r(2) in auto)
  qed
  then have "list_all2 (stands_for s') (mOptions s') (L @ token_texts q (tokens ?v))"
    unfolding r(6) using r(8) by (rule list_all2_appendI)
  moreover have "in_bufs (insert b U) (fst o')" if "o' \<in> set (mOptions s')" for o'
  proof -
    have "o' \<in> set (mOptions ?s) \<or> o' \<in> set ps" using that r(6) by auto
    then have "in_bufs U (fst o') \<or> in_bufs {b} (fst o')" using r(7) h1 by (auto simp: opts_hold_def)
    then show ?thesis using in_bufs_mono [of U] in_bufs_mono [of "{b}"] by blast
  qed
  moreover have "length (bufs s' b') = buffer_size P b'" for b'
    using opts_hold_size [OF h1, of b'] r(2,3) by (cases "b' = b") simp_all
  ultimately have "opts_hold P (insert b U) m k (L @ token_texts q (tokens ?v)) s'"
    using h1 r(4,5) by (simp add: opts_hold_def)
  then show "\<exists>s'. extra_opts_property P key b q s = Ret s'
      \<and> opts_hold P (insert b U) m k (L @ token_texts q (tokens ?v)) s'"
    using r(1) by (simp add: extra_opts_property_def get parseExtraOpts_def)
qed

lemma adds_isa_options [adds_rules]:
  assumes "props_ok P" "keybuf \<notin> U" "b \<notin> U" "NUL \<notin> set key" "length key < buffer_size P keybuf"
    "NUL \<notin> set arg" "length arg + PROPERTY_VALUE_MAX P \<le> buffer_size P b"
  shows "adds P (U, m, k) (isa_options P key keybuf b arg) (insert b U, m, k)
    (compiler_text P key arg ''-Ximage-compiler-option''
      @ compiler_text P key arg ''-Xcompiler-option'')"
proof (rule addsI)
  fix s L assume h: "opts_hold P U m k L s"
  let ?s = "s\<lparr>bufs := (bufs s)(keybuf := prefixed [] key (bufs s keybuf))\<rparr>"
  have cpy: "strcpy keybuf key s = Ret ?s"
    using assms(5) opts_hold_size [OF h] by (simp add: strcpy_def poke_def prefixed_def)
  note p = opts_hold_prefixed [OF h assms(2), of "[]" key, simplified, OF assms(5,4)]
  note tw = addsD [OF adds_compiler_option_twice [OF assms(1,3,6,7)] p(1), of key
    "''-Ximage-compiler-option''" "''-Xcompiler-option''"]
  have "c_string ?s keybuf 0 = Ret key" using p(2) by (simp add: deref_def)
  then show "\<exists>s'. isa_options P key keybuf b arg s = Ret s' \<and> opts_hold P (insert b U) m k
      (L @ compiler_text P key arg ''-Ximage-compiler-option''
         @ compiler_text P key arg ''-Xcompiler-option'') s'"
    using tw by (simp add: isa_options_def cpy del: run_all.simps)
qed

lemma readLocale_no_NUL: "props_ok P \<Longrightarrow> NUL \<notin> set (readLocale P)"
  using fits_prop(2) [of P] by (auto simp: readLocale_def Let_def getProperty_def)

text \<open>The text is cut at the size of a property value, which the array has room for.\<close>

definition locale_text :: "props \<Rightarrow> string" where
  "locale_text P = ''-Duser.locale='' @ take (PROPERTY_VALUE_MAX P) (readLocale P)"

lemma adds_locale_option [adds_rules]:
  assumes "props_ok P" "LocaleOption \<notin> U"
  shows "adds P (U, m, k) (locale_option P) (insert LocaleOption U, m, k) [(locale_text P, NoInfo)]"
proof (rule addsI)
  fix s L assume h: "opts_hold P U m k L s"
  let ?b = LocaleOption and ?a = "''-Duser.locale=''"
  let ?v = "take (PROPERTY_VALUE_MAX P) (readLocale P)"
  let ?s = "s\<lparr>bufs := (bufs s)(?b := prefixed ?a ?v (bufs s ?b))\<rparr>"
  have a0: "NUL \<notin> set ?a" by simp
  have fit: "length ?a + length ?v < buffer_size P ?b" by simp
  have v: "NUL \<notin> set ?v" using readLocale_no_NUL [OF assms(1)] by (auto dest: in_set_takeD)
  note p = opts_hold_prefixed [OF h assms(2) fit a0 v]
  have nul: "[NUL] @ xs = NUL # xs" for xs by simp
  define s1 where "s1 = s\<lparr>bufs := (bufs s)(?b := ?a @ NUL # drop (length ?a + 1) (bufs s ?b))\<rparr>"
  have cpy: "strcpy ?b ?a s = Ret s1"
    using opts_hold_size [OF h, of ?b] unfolding strcpy_def poke_def s1_def by (simp add: nul del: append_Cons)
  have str: "c_string s1 ?b 0 = Ret ?a"
    by (rule c_string_start [OF _ a0]) (simp add: s1_def del: append_Cons)
  have "poke ?b (length ?a) (?v @ [NUL]) s1 = Ret ?s"
    using opts_hold_size [OF h, of ?b] unfolding poke_def s1_def prefixed_def
    by (simp add: nul add.commute del: append_Cons)
  then have "locale_option P s = Ret (addOption (At ?b 0) NoInfo ?s)"
    unfolding locale_option_def cpy strncat_def by (simp add: str del: append_Cons)
  then show "\<exists>s'. locale_option P s = Ret s'
      \<and> opts_hold P (insert ?b U) m k (L @ [(locale_text P, NoInfo)]) s'"
    using opts_hold_add [OF opts_hold_mono [OF p(1), of "insert ?b U"] p(2)]
    by (auto simp: locale_text_def)
qed

lemma adds_snprintf [adds_rules]:
  assumes "b \<notin> U" "NUL \<notin> set t" "length t < n" "n \<le> buffer_size P b"
  shows "adds P (U, m, k) (\<lambda>s. cbind (snprintf b n t s) (\<lambda>s. Ret (addOption (At b 0) NoInfo s)))
    (insert b U, m, k) [(t, NoInfo)]"
proof (rule addsI)
  fix s L assume h: "opts_hold P U m k L s"
  let ?s = "s\<lparr>bufs := (bufs s)(b := prefixed [] t (bufs s b))\<rparr>"
  have "snprintf b n t s = Ret ?s"
    using assms(3,4) opts_hold_size [OF h] by (simp add: snprintf_def poke_def prefixed_def)
  moreover note p = opts_hold_prefixed [OF h assms(1), of "[]" t, simplified, OF _ assms(2)]
  ultimately show "\<exists>s'. cbind (snprintf b n t s) (\<lambda>s. Ret (addOption (At b 0) NoInfo s)) = Ret s'
      \<and> opts_hold P (insert b U) m k (L @ [(t, NoInfo)]) s'"
    using opts_hold_add [OF opts_hold_mono [OF p(1), of "insert b U"] p(2)] assms(3,4) by auto
qed

definition native_bridge_text :: "props \<Rightarrow> texts" where
  "native_bridge_text P = (let v = prop_value P ''ro.dalvik.vm.native.bridge'' in
     text_if (v \<noteq> [] \<and> v \<noteq> ''0'') [''-XX:NativeBridge='' @ v])"

lemma adds_native_bridge [adds_rules]:
  assumes "props_ok P" "PropBuf \<notin> U" "NativeBridgeLibrary \<notin> U"
  shows "adds P (U, m, k) (native_bridge P) (insert NativeBridgeLibrary U, m, k) (native_bridge_text P)"
  unfolding native_bridge_def
proof (rule adds_with_property)
  let ?v = "getProperty P ''ro.dalvik.vm.native.bridge'' ''''"
  have v: "length ?v < PROPERTY_VALUE_MAX P" "NUL \<notin> set ?v" using fits_prop [OF assms(1)] by simp_all
  have n: "adds P (U, m, k) (run_all []) (insert NativeBridgeLibrary U, m, k) []"
    by (rule adds_widen [OF adds_nil]) auto
  show "adds P (U, m, k)
      (if ?v = [] then run_all []
       else if ?v \<noteq> ''0'' then
         (\<lambda>s. cbind (snprintf NativeBridgeLibrary
                  (length ''-XX:NativeBridge='' + 1 + PROPERTY_VALUE_MAX P)
                  (''-XX:NativeBridge='' @ ?v) s)
              (\<lambda>s. Ret (addOption (At NativeBridgeLibrary 0) NoInfo s)))
       else run_all []) (insert NativeBridgeLibrary U, m, k) (native_bridge_text P)"
  proof (cases "?v = [] \<or> ?v = ''0''")
    case True then show ?thesis
      using n by (auto simp: native_bridge_text_def text_if_def simp del: run_all.simps)
  next
    case False
    have "adds P (U, m, k) (\<lambda>s. cbind (snprintf NativeBridgeLibrary
            (length ''-XX:NativeBridge='' + 1 + PROPERTY_VALUE_MAX P) (''-XX:NativeBridge='' @ ?v) s)
            (\<lambda>s. Ret (addOption (At NativeBridgeLibrary 0) NoInfo s)))
          (insert NativeBridgeLibrary U, m, k) [(''-XX:NativeBridge='' @ ?v, NoInfo)]"
      by (rule adds_snprintf) (use assms v in auto)
    with False show ?thesis by (simp add: native_bridge_text_def text_if_def del: run_all.simps)
  qed
qed (use assms in simp_all)

definition method_trace_text :: "props \<Rightarrow> texts" where
  "method_trace_text P =
     (if prop_value P ''ro.debuggable'' = ''1'' \<and> is_true P ''dalvik.vm.method-trace'' then concat
        [[(''-Xmethod-trace'', NoInfo)],
         runtime_text P ''dalvik.vm.method-trace-file'' ''-Xmethod-trace-file:'' '''',
         runtime_text P ''dalvik.vm.method-trace-file-siz'' ''-Xmethod-trace-file-size:'' '''',
         text_if (is_true P ''dalvik.vm.method-trace-stream'') [''-Xmethod-trace-stream'']]
      else [])"

lemma adds_option_unless_false:
  "props_ok P \<Longrightarrow> PropBuf \<notin> U \<Longrightarrow>
   adds P (U, m, k) (with_property P key PropBuf ''false'' (\<lambda>v. if v = ''true'' then option_lit opt else run_all []))
     (U, m, k) (text_if (is_true P key) [opt])"
  by (rule adds_with_property)
    (auto simp: is_true_def getProperty_def text_if_def adds_option_lit adds_nil simp del: run_all.simps)

lemma adds_method_trace [adds_rules]:
  assumes "props_ok P" "PropBuf \<notin> U" "MethodTraceFileBuf \<notin> U" "MethodTraceFileSizeBuf \<notin> U"
  shows "adds P (U, m, k) (method_trace P)
    (insert MethodTraceFileSizeBuf (insert MethodTraceFileBuf U), m, k) (method_trace_text P)"
proof -
  let ?U = "insert MethodTraceFileSizeBuf (insert MethodTraceFileBuf U)"
  let ?inner = "run_all [option_lit ''-Xmethod-trace'',
    runtime_option P ''dalvik.vm.method-trace-file'' MethodTraceFileBuf ''-Xmethod-trace-file:'' '''',
    runtime_option P ''dalvik.vm.method-trace-file-siz'' MethodTraceFileSizeBuf
      ''-Xmethod-trace-file-size:'' '''',
    with_property P ''dalvik.vm.method-trace-stream'' PropBuf ''false'' (\<lambda>v.
      if v = ''true'' then option_lit ''-Xmethod-trace-stream'' else run_all [])]"
  have n: "adds P (U, m, k) (run_all []) (?U, m, k) []"
    by (rule adds_widen [OF adds_nil]) auto
  have inner: "adds P (U, m, k) ?inner (?U, m, k) (concat
        [[(''-Xmethod-trace'', NoInfo)],
         runtime_text P ''dalvik.vm.method-trace-file'' ''-Xmethod-trace-file:'' '''',
         runtime_text P ''dalvik.vm.method-trace-file-siz'' ''-Xmethod-trace-file-size:'' '''',
         text_if (is_true P ''dalvik.vm.method-trace-stream'') [''-Xmethod-trace-stream'']])"
    by (insert assms)
      (rule adds_run_cons adds_option_lit adds_runtime_option adds_option_unless_false adds_run_nil
       | simp)+
  have mid: "adds P (U, m, k)
      (with_property P ''dalvik.vm.method-trace'' PropBuf ''false''
        (\<lambda>v. if v = ''true'' then ?inner else run_all [])) (?U, m, k)
      (if is_true P ''dalvik.vm.method-trace'' then concat
        [[(''-Xmethod-trace'', NoInfo)],
         runtime_text P ''dalvik.vm.method-trace-file'' ''-Xmethod-trace-file:'' '''',
         runtime_text P ''dalvik.vm.method-trace-file-siz'' ''-Xmethod-trace-file-size:'' '''',
         text_if (is_true P ''dalvik.vm.method-trace-stream'') [''-Xmethod-trace-stream'']] else [])"
    by (rule adds_with_property)
      (use inner n assms in \<open>auto simp: is_true_def getProperty_def simp del: run_all.simps concat.simps\<close>)
  show ?thesis unfolding method_trace_def
    by (rule adds_with_property)
      (use mid n assms in \<open>auto simp: method_trace_text_def getProperty_def
         simp del: run_all.simps concat.simps\<close>)
qed

lemma adds_generate_debug_info [adds_rules]:
  assumes "props_ok P" "PropBuf \<notin> U"
  shows "adds P (U, m, k) (generate_debug_info P) (U, m, k)
    (text_if (is_true P ''debug.generate-debug-info'')
      [''-Xcompiler-option'', ''--generate-debug-info'', ''-Ximage-compiler-option'',
       ''--generate-debug-info''])"
proof -
  have "adds P (U, m, k)
      (run_all [option_lit ''-Xcompiler-option'', option_lit ''--generate-debug-info'',
                option_lit ''-Ximage-compiler-option'', option_lit ''--generate-debug-info''])
      (U, m, k) (concat [[(''-Xcompiler-option'', NoInfo)], [(''--generate-debug-info'', NoInfo)],
        [(''-Ximage-compiler-option'', NoInfo)], [(''--generate-debug-info'', NoInfo)]])"
    by (rule adds_run_cons adds_option_lit adds_run_nil)+
  then show ?thesis unfolding generate_debug_info_def
    by (rule_tac adds_with_property)
      (use assms in \<open>auto simp: is_true_def text_if_def adds_nil simp del: run_all.simps\<close>)
qed

section \<open>The option list\<close>

definition vm_options_text :: "props \<Rightarrow> bool \<Rightarrow> texts" where
  "vm_options_text P zygote = concat
    [text_if (checks_jni P) [''-Xcheck:jni''],
     [],
     runtime_text P ''dalvik.vm.stack-trace-file'' ''-Xstacktracefile:'' '''',
     [],
     runtime_text P ''dalvik.vm.jniopts'' ''-Xjniopts:'' '''',
     [(''exit'', Runtime_exit)],
     [(''vfprintf'', Runtime_vfprintf)],
     [(''sensitiveThread'', Runtime_isSensitiveThread)],
     [(''-verbose:gc'', NoInfo)],
     runtime_text P ''dalvik.vm.heapstartsize'' ''-Xms'' ''4m'',
     runtime_text P ''dalvik.vm.heapsize'' ''-Xmx'' ''16m'',
     runtime_text P ''dalvik.vm.heapgrowthlimit'' ''-XX:HeapGrowthLimit='' '''',
     runtime_text P ''dalvik.vm.heapminfree'' ''-XX:HeapMinFree='' '''',
     runtime_text P ''dalvik.vm.heapmaxfree'' ''-XX:HeapMaxFree='' '''',
     runtime_text P ''dalvik.vm.heaptargetutilization'' ''-XX:HeapTargetUtilization='' '''',
     runtime_text P ''dalvik.vm.usejit'' ''-Xusejit:'' '''',
     runtime_text P ''dalvik.vm.jitmaxsize'' ''-Xjitmaxsize:'' '''',
     runtime_text P ''dalvik.vm.jitinitialsize'' ''-Xjitinitialsize:'' '''',
     runtime_text P ''dalvik.vm.jitthreshold'' ''-Xjitthreshold:'' '''',
     text_if (is_true P ''dalvik.vm.usejitprofiles'') [''-Xjitsaveprofilinginfo''],
     runtime_text P ''dalvik.vm.jitprithreadweight'' ''-Xjitprithreadweight:'' '''',
     runtime_text P ''dalvik.vm.jittransitionweight'' ''-Xjittransitionweight:'' '''',
     text_if (is_true P ''ro.config.low_ram'') [''-XX:LowMemoryMode''],
     runtime_text P ''dalvik.vm.gctype'' ''-Xgc:'' '''',
     runtime_text P ''dalvik.vm.backgroundgctype'' ''-XX:BackgroundGC='' '''',
     (if zygote then [(''-agentlib:jdwp=transport=dt_android_adb,suspend=n,server=y'', NoInfo)]
      else concat []),
     runtime_text P ''dalvik.vm.lockprof.threshold'' ''-Xlockprofthreshold:'' '''',
     mode_text (mode_of P),
     [],
     compiler_runtime_text P ''dalvik.vm.image-dex2oat-Xms'' ''-Xms'' ''-Ximage-compiler-option'',
     compiler_runtime_text P ''dalvik.vm.image-dex2oat-Xmx'' ''-Xmx'' ''-Ximage-compiler-option'',
     (if skips_compilation P
      then concat [[(''-Ximage-compiler-option'', NoInfo)],
                   [(''--compiler-filter=assume-verified'', NoInfo)]]
      else compiler_text P ''dalvik.vm.image-dex2oat-filter'' ''--compiler-filter=''
             ''-Ximage-compiler-option'')]"

definition compiler_options_text :: "platform \<Rightarrow> texts" where
  "compiler_options_text W = (let P = pl_props W; isa = instruction_set (pl_arch W) (pl_lp64 W) in concat
    [[(''-Ximage-compiler-option'', NoInfo)],
     [(''--image-classes=/system/etc/preloaded-classes'', NoInfo)],
     (if hasFile (pl_files W) ''/system/etc/compiled-classes''
      then concat [[(''-Ximage-compiler-option'', NoInfo)],
                   [(''--compiled-classes=/system/etc/compiled-classes'', NoInfo)]]
      else concat []),
     token_texts (Some ''-Ximage-compiler-option'')
       (tokens (prop_value P ''dalvik.vm.image-dex2oat-flags'')),
     compiler_runtime_text P ''dalvik.vm.dex2oat-Xms'' ''-Xms'' ''-Xcompiler-option'',
     compiler_runtime_text P ''dalvik.vm.dex2oat-Xmx'' ''-Xmx'' ''-Xcompiler-option'',
     (if skips_compilation P
      then concat [[(''-Xcompiler-option'', NoInfo)],
                   [(''--compiler-filter=assume-verified'', NoInfo)],
                   [(''--runtime-arg'', NoInfo)], [(''-Xnorelocate'', NoInfo)]]
      else compiler_text P ''dalvik.vm.dex2oat-filter'' ''--compiler-filter='' ''-Xcompiler-option''),
     compiler_text P ''dalvik.vm.dex2oat-threads'' ''-j'' ''-Xcompiler-option'',
     compiler_text P ''dalvik.vm.image-dex2oat-threads'' ''-j'' ''-Ximage-compiler-option'',
     compiler_text P (''dalvik.vm.isa.'' @ isa @ ''.variant'') ''--instruction-set-variant=''
         ''-Ximage-compiler-option''
       @ compiler_text P (''dalvik.vm.isa.'' @ isa @ ''.variant'') ''--instruction-set-variant=''
         ''-Xcompiler-option'',
     compiler_text P (''dalvik.vm.isa.'' @ isa @ ''.features'') ''--instruction-set-features=''
         ''-Ximage-compiler-option''
       @ compiler_text P (''dalvik.vm.isa.'' @ isa @ ''.features'') ''--instruction-set-features=''
         ''-Xcompiler-option'',
     token_texts (Some ''-Xcompiler-option'') (tokens (prop_value P ''dalvik.vm.dex2oat-flags'')),
     token_texts None (tokens (prop_value P ''dalvik.vm.extra-opts'')),
     [(locale_text P, NoInfo)],
     method_trace_text P,
     native_bridge_text P])"

definition last_options_text :: "props \<Rightarrow> string \<Rightarrow> texts" where
  "last_options_text P abilist = concat
    [[(''--cpu-abilist='' @ abilist, NoInfo)],
     runtime_text P ''dalvik.vm.zygote.max-boot-retry'' ''-Xzygote-max-boot-retry='' '''',
     text_if (is_true P ''debug.generate-debug-info'')
       [''-Xcompiler-option'', ''--generate-debug-info'', ''-Ximage-compiler-option'',
        ''--generate-debug-info''],
     runtime_text P ''ro.build.fingerprint'' ''-Xfingerprint:'' '''']"

abbreviation vm_option_bufs :: "buffer set" where
  "vm_option_bufs \<equiv>
    {Dex2oatImageCompilerFilterBuf, Dex2oatXmxImageFlagsBuf, Dex2oatXmsImageFlagsBuf,
     LockProfThresholdBuf, BackgroundgcOptsBuf, GctypeOptsBuf, JittransitionweightOptBuf,
     JitprithreadweightOptBuf, JitthresholdOptsBuf, JitinitialsizeOptsBuf, JitmaxsizeOptsBuf,
     UsejitOptsBuf, HeaptargetutilizationOptsBuf, HeapmaxfreeOptsBuf, HeapminfreeOptsBuf,
     HeapgrowthlimitOptsBuf, HeapsizeOptsBuf, HeapstartsizeOptsBuf, JniOptsBuf, StackTraceFileBuf}"

lemma adds_compiler_filter:
  assumes "props_ok P" "b \<notin> U" "PROPERTY_VALUE_MAX P + length ''--compiler-filter='' \<le> buffer_size P b"
    "adds P (U, m, k) f (U, m, k) A"
  shows "adds P (U, m, k) (if_skip f (compiler_option P key b ''--compiler-filter='' q))
    (insert b U, m, k) (if k then A else compiler_text P key ''--compiler-filter='' q)"
  by (intro adds_if_skip adds_widen [OF assms(4)] adds_compiler_option subset_insertI)
    (use assms in \<open>simp_all add: add.commute\<close>)

lemma adds_vm_options:
  assumes "props_ok P"
  shows "adds P ({}, KEMDefault, k) (vm_options P zygote)
    (vm_option_bufs, mode_of P, skips_compilation P) (vm_options_text P zygote)"
  by (insert assms, unfold vm_options_def vm_options_text_def)
    (rule adds_compiler_filter adds_rules | simp del: run_all.simps concat.simps)+

abbreviation compiler_option_bufs :: "buffer set" where
  "compiler_option_bufs \<equiv>
    insert NativeBridgeLibrary (insert MethodTraceFileSizeBuf (insert MethodTraceFileBuf
     (insert LocaleOption (insert ExtraOptsBuf (insert Dex2oatFlagsBuf (insert Dex2oat_isa_features
     (insert Dex2oat_isa_variant (insert Dex2oatThreadsImageBuf (insert Dex2oatThreadsBuf
     (insert Dex2oatCompilerFilterBuf (insert Dex2oatXmxFlagsBuf (insert Dex2oatXmsFlagsBuf
     (insert Dex2oatImageFlagsBuf vm_option_bufs)))))))))))))"

lemma isa_length: "length (instruction_set a lp64) \<le> 7" "NUL \<notin> set (instruction_set a lp64)"
  by (cases a; simp add: instruction_set_def)+

lemma isa_key_fits:
  assumes "props_ok P"
  shows "length (''dalvik.vm.isa.'' @ instruction_set a lp64 @ ''.variant'') < PROPERTY_KEY_MAX P"
    "length (''dalvik.vm.isa.'' @ instruction_set a lp64 @ ''.features'') < PROPERTY_KEY_MAX P"
    "NUL \<notin> set (''dalvik.vm.isa.'' @ instruction_set a lp64 @ ''.variant'')"
    "NUL \<notin> set (''dalvik.vm.isa.'' @ instruction_set a lp64 @ ''.features'')"
  using assms isa_length [of a lp64] by (simp_all add: props_ok_def)

lemma adds_compiler_options:
  assumes "props_ok (pl_props W)"
  shows "adds (pl_props W) (vm_option_bufs, m, skips_compilation (pl_props W)) (compiler_options W)
    (compiler_option_bufs, m, skips_compilation (pl_props W)) (compiler_options_text W)"
proof -
  define P where "P = pl_props W"
  define vkey where "vkey = ''dalvik.vm.isa.'' @ instruction_set (pl_arch W) (pl_lp64 W) @ ''.variant''"
  define fkey where "fkey = ''dalvik.vm.isa.'' @ instruction_set (pl_arch W) (pl_lp64 W) @ ''.features''"
  have P: "props_ok P" using assms by (simp add: P_def)
  have keys: "length vkey < PROPERTY_KEY_MAX P" "length fkey < PROPERTY_KEY_MAX P"
    "NUL \<notin> set vkey" "NUL \<notin> set fkey"
    unfolding vkey_def fkey_def by (rule isa_key_fits [OF P])+
  show ?thesis
    unfolding compiler_options_def compiler_options_text_def Let_def
      P_def [symmetric] vkey_def [symmetric] fkey_def [symmetric]
    by (insert P keys)
      (rule adds_compiler_filter adds_rules | simp del: run_all.simps concat.simps)+
qed

lemma adds_last_options:
  assumes "props_ok P" "U \<subseteq> compiler_option_bufs" "length abilist < PROPERTY_VALUE_MAX P" "NUL \<notin> set abilist"
  shows "adds P (U, m, k) (last_options P abilist)
    (insert FingerprintBuf (insert CachePruneBuf (insert CpuAbiListBuf U)), m, k)
    (last_options_text P abilist)"
proof -
  have U: "PropBuf \<notin> U" "CpuAbiListBuf \<notin> U" "CachePruneBuf \<notin> U" "FingerprintBuf \<notin> U"
    using assms(2) by auto
  show ?thesis
    by (insert assms(1,3,4) U, unfold last_options_def last_options_text_def)
      (rule adds_rules | simp del: run_all.simps concat.simps)+
qed

end
