(* ===== verification/Runtime_Main.thy ===== *)
theory Runtime_Main
  imports Runtime_Start
begin

text \<open>
  The rest of \<open>jni/AndroidRuntime.cpp\<close>: \<open>start\<close> with the registration of the native
  methods, \<open>callMain\<close>, \<open>exit\<close>, the threads that the virtual machine sees, and the
  string helpers. What the functions do to the process and to the virtual machine is a list of
  events in the order they happen; the classes, the registration functions, the machine's answers
  and the environment are parameters.
\<close>

section \<open>The virtual machine and the process\<close>

record jvm =
  jv_FindClass :: "string \<Rightarrow> nat option"
  jv_GetStaticMethodID :: "nat \<Rightarrow> string \<Rightarrow> string \<Rightarrow> nat option"
  jv_register :: "string \<Rightarrow> int"   \<comment> \<open>the result of a registration function\<close>
  jv_allocates :: bool               \<comment> \<open>whether new strings and arrays are non-null\<close>
  jv_attach :: "string \<Rightarrow> int"     \<comment> \<open>\<open>AttachCurrentThread\<close>, for a thread's name\<close>
  jv_getenv :: bool                  \<comment> \<open>whether \<open>GetEnv\<close> finds the thread's environment\<close>

definition JNI_OK :: int where "JNI_OK = 0"

datatype event =
    LogBootProgress
  | SetEnv string string
  | JniInit
  | CreateVm "texts option"
  | OnVmCreated
  | SetCreateThreadFunc
  | PushLocalFrame nat
  | PopLocalFrame
  | Register string
  | CallStaticVoid nat nat "string list"
  | DetachThread
  | DestroyVm
  | OnExit int
  | ExitProcess int
  | ExitProcessNow int

section \<open>Registering the native methods\<close>

definition gRegJNI :: "string list" where
  "gRegJNI =
    [''register_com_android_internal_os_RuntimeInit'',
     ''register_com_android_internal_os_ZygoteInit'',
     ''register_android_os_SystemClock'',
     ''register_android_util_EventLog'',
     ''register_android_util_Log'',
     ''register_android_util_MemoryIntArray'',
     ''register_android_util_PathParser'',
     ''register_android_app_admin_SecurityLog'',
     ''register_android_content_AssetManager'',
     ''register_android_content_StringBlock'',
     ''register_android_content_XmlBlock'',
     ''register_android_text_AndroidCharacter'',
     ''register_android_text_StaticLayout'',
     ''register_android_text_AndroidBidi'',
     ''register_android_view_InputDevice'',
     ''register_android_view_KeyCharacterMap'',
     ''register_android_os_Process'',
     ''register_android_os_SystemProperties'',
     ''register_android_os_Binder'',
     ''register_android_os_Parcel'',
     ''register_android_os_HwBinder'',
     ''register_android_os_HwBlob'',
     ''register_android_os_HwParcel'',
     ''register_android_os_HwRemoteBinder'',
     ''register_android_os_VintfObject'',
     ''register_android_os_VintfRuntimeInfo'',
     ''register_android_nio_utils'',
     ''register_android_graphics_Canvas'',
     ''register_android_graphics_Graphics'',
     ''register_android_view_DisplayEventReceiver'',
     ''register_android_view_RenderNode'',
     ''register_android_view_RenderNodeAnimator'',
     ''register_android_view_DisplayListCanvas'',
     ''register_android_view_HardwareLayer'',
     ''register_android_view_ThreadedRenderer'',
     ''register_android_view_Surface'',
     ''register_android_view_SurfaceControl'',
     ''register_android_view_SurfaceSession'',
     ''register_android_view_TextureView'',
     ''register_com_android_internal_view_animation_NativeInterpolatorFactoryHelper'',
     ''register_com_google_android_gles_jni_EGLImpl'',
     ''register_com_google_android_gles_jni_GLImpl'',
     ''register_android_opengl_jni_EGL14'',
     ''register_android_opengl_jni_EGLExt'',
     ''register_android_opengl_jni_GLES10'',
     ''register_android_opengl_jni_GLES10Ext'',
     ''register_android_opengl_jni_GLES11'',
     ''register_android_opengl_jni_GLES11Ext'',
     ''register_android_opengl_jni_GLES20'',
     ''register_android_opengl_jni_GLES30'',
     ''register_android_opengl_jni_GLES31'',
     ''register_android_opengl_jni_GLES31Ext'',
     ''register_android_opengl_jni_GLES32'',
     ''register_android_graphics_Bitmap'',
     ''register_android_graphics_BitmapFactory'',
     ''register_android_graphics_BitmapRegionDecoder'',
     ''register_android_graphics_Camera'',
     ''register_android_graphics_CreateJavaOutputStreamAdaptor'',
     ''register_android_graphics_CanvasProperty'',
     ''register_android_graphics_ColorFilter'',
     ''register_android_graphics_DrawFilter'',
     ''register_android_graphics_FontFamily'',
     ''register_android_graphics_GraphicBuffer'',
     ''register_android_graphics_Interpolator'',
     ''register_android_graphics_MaskFilter'',
     ''register_android_graphics_Matrix'',
     ''register_android_graphics_Movie'',
     ''register_android_graphics_NinePatch'',
     ''register_android_graphics_Paint'',
     ''register_android_graphics_Path'',
     ''register_android_graphics_PathMeasure'',
     ''register_android_graphics_PathEffect'',
     ''register_android_graphics_Picture'',
     ''register_android_graphics_Region'',
     ''register_android_graphics_Shader'',
     ''register_android_graphics_SurfaceTexture'',
     ''register_android_graphics_Typeface'',
     ''register_android_graphics_YuvImage'',
     ''register_android_graphics_drawable_AnimatedVectorDrawable'',
     ''register_android_graphics_drawable_VectorDrawable'',
     ''register_android_graphics_pdf_PdfDocument'',
     ''register_android_graphics_pdf_PdfEditor'',
     ''register_android_graphics_pdf_PdfRenderer'',
     ''register_android_database_CursorWindow'',
     ''register_android_database_SQLiteConnection'',
     ''register_android_database_SQLiteGlobal'',
     ''register_android_database_SQLiteDebug'',
     ''register_android_os_Debug'',
     ''register_android_os_FileObserver'',
     ''register_android_os_GraphicsEnvironment'',
     ''register_android_os_MessageQueue'',
     ''register_android_os_SELinux'',
     ''register_android_os_seccomp'',
     ''register_android_os_Trace'',
     ''register_android_os_UEventObserver'',
     ''register_android_net_LocalSocketImpl'',
     ''register_android_net_NetworkUtils'',
     ''register_android_net_TrafficStats'',
     ''register_android_os_MemoryFile'',
     ''register_com_android_internal_os_PathClassLoaderFactory'',
     ''register_com_android_internal_os_Zygote'',
     ''register_com_android_internal_util_VirtualRefBasePtr'',
     ''register_android_hardware_Camera'',
     ''register_android_hardware_camera2_CameraMetadata'',
     ''register_android_hardware_camera2_legacy_LegacyCameraDevice'',
     ''register_android_hardware_camera2_legacy_PerfMeasurement'',
     ''register_android_hardware_camera2_DngCreator'',
     ''register_android_hardware_HardwareBuffer'',
     ''register_android_hardware_Radio'',
     ''register_android_hardware_SensorManager'',
     ''register_android_hardware_SerialPort'',
     ''register_android_hardware_SoundTrigger'',
     ''register_android_hardware_UsbDevice'',
     ''register_android_hardware_UsbDeviceConnection'',
     ''register_android_hardware_UsbRequest'',
     ''register_android_hardware_location_ActivityRecognitionHardware'',
     ''register_android_media_AudioRecord'',
     ''register_android_media_AudioSystem'',
     ''register_android_media_AudioTrack'',
     ''register_android_media_JetPlayer'',
     ''register_android_media_RemoteDisplay'',
     ''register_android_media_ToneGenerator'',
     ''register_android_opengl_classes'',
     ''register_android_server_NetworkManagementSocketTagger'',
     ''register_android_ddm_DdmHandleNativeHeap'',
     ''register_android_backup_BackupDataInput'',
     ''register_android_backup_BackupDataOutput'',
     ''register_android_backup_FileBackupHelperBase'',
     ''register_android_backup_BackupHelperDispatcher'',
     ''register_android_app_backup_FullBackup'',
     ''register_android_app_Activity'',
     ''register_android_app_ActivityThread'',
     ''register_android_app_ApplicationLoaders'',
     ''register_android_app_NativeActivity'',
     ''register_android_util_jar_StrictJarFile'',
     ''register_android_view_InputChannel'',
     ''register_android_view_InputEventReceiver'',
     ''register_android_view_InputEventSender'',
     ''register_android_view_InputQueue'',
     ''register_android_view_KeyEvent'',
     ''register_android_view_MotionEvent'',
     ''register_android_view_PointerIcon'',
     ''register_android_view_VelocityTracker'',
     ''register_android_content_res_ObbScanner'',
     ''register_android_content_res_Configuration'',
     ''register_android_animation_PropertyValuesHolder'',
     ''register_com_android_internal_content_NativeLibraryHelper'',
     ''register_com_android_internal_net_NetworkStatsFactory'',
     ''register_com_android_internal_os_FuseAppLoop'']"

primrec register_jni_procs :: "jvm \<Rightarrow> string list \<Rightarrow> int \<times> event list" where
  "register_jni_procs J [] = (0, [])"
| "register_jni_procs J (p # ps) =
     (if jv_register J p < 0 then (- 1, [Register p])
      else let (r, evs) = register_jni_procs J ps in (r, Register p # evs))"

definition startReg :: "jvm \<Rightarrow> int \<times> event list" where
  "startReg J =
     (let (r, evs) = register_jni_procs J gRegJNI in
      (if r < 0 then - 1 else 0,
       [SetCreateThreadFunc, PushLocalFrame 200] @ evs @ [PopLocalFrame]))"

definition registerFrameworkNatives :: "jvm \<Rightarrow> int \<times> event list" where
  "registerFrameworkNatives J = register_jni_procs J gRegJNI"

section \<open>start, callMain and exit\<close>

fun toSlashClassName :: "string \<Rightarrow> string" where
  "toSlashClassName [] = []"
| "toSlashClassName (c # cs) = (if c = CHR ''.'' then CHR ''/'' else c) # toSlashClassName cs"

definition main_signature :: string where
  "main_signature = ''([Ljava/lang/String;)V''"

definition boot_events :: "string list \<Rightarrow> event list" where
  "boot_events options = concat (map (\<lambda>o'. if o' = ''start-system-server'' then [LogBootProgress] else []) options)"

definition run_main :: "jvm \<Rightarrow> string \<Rightarrow> string list \<Rightarrow> event list" where
  \<comment> \<open>the lookup of the class and of its \<open>main\<close>, which keep going when they fail\<close>
  "run_main J className args =
     (case jv_FindClass J (toSlashClassName className) of
        None \<Rightarrow> []
      | Some startClass \<Rightarrow>
          (case jv_GetStaticMethodID J startClass ''main'' main_signature of
             None \<Rightarrow> []
           | Some startMeth \<Rightarrow> [CallStaticVoid startClass startMeth args]))"

definition start :: "bool \<Rightarrow> platform \<Rightarrow> jvm \<Rightarrow> string option \<Rightarrow> string \<Rightarrow> string list \<Rightarrow> bool \<Rightarrow> vmstate \<Rightarrow> event list cres" where
  \<comment> \<open>\<open>rootDir\<close> is the value of \<open>ANDROID_ROOT\<close>; \<open>NDEBUG\<close>: asserts are compiled out, and
      a null class or array is then used\<close>
  "start NDEBUG W J rootDir className options zygote s =
     (let boot = boot_events options in
      if rootDir = None \<and> \<not> hasDir (pl_files W) ''/system'' then Ret boot
      else let env = (if rootDir = None then [SetEnv ''ANDROID_ROOT'' ''/system''] else []);
               before = boot @ env @ [JniInit] in
      cbind (startVm W zygote s) (\<lambda>(r, opts, _).
      if r \<noteq> 0 then Ret (before @ [CreateVm opts])
      else let (reg, regs) = startReg J;
               created = before @ [CreateVm opts, OnVmCreated] @ regs in
      if reg < 0 then Ret created
      else if jv_FindClass J ''java/lang/String'' = None \<or> \<not> jv_allocates J then (if NDEBUG then Oob else Abort)
      else Ret (created @ run_main J className (className # options) @ [DetachThread, DestroyVm])))"

datatype status = No_error | Unknown_error

definition callMain :: "jvm \<Rightarrow> nat option \<Rightarrow> string list \<Rightarrow> status \<times> event list" where
  "callMain J clazz args =
     (case clazz of
        None \<Rightarrow> (Unknown_error, [])
      | Some c \<Rightarrow>
          if \<not> jv_getenv J then (Unknown_error, [])
          else (case jv_GetStaticMethodID J c ''main'' main_signature of
             None \<Rightarrow> (Unknown_error, [])
           | Some m \<Rightarrow> (No_error, [CallStaticVoid c m args])))"

definition exit_runtime :: "bool \<Rightarrow> int \<Rightarrow> event list" where
  "exit_runtime mExitWithoutCleanup code =
     (if mExitWithoutCleanup then [ExitProcessNow code] else [OnExit code, ExitProcess code])"

definition runtime_isSensitiveThread :: "int option \<Rightarrow> bool" where
  \<comment> \<open>of the strict-mode policy of the thread's \<open>IPCThreadState\<close>, when it has one\<close>
  "runtime_isSensitiveThread policy = (case policy of None \<Rightarrow> False | Some p \<Rightarrow> p \<noteq> 0)"

section \<open>The name and the arguments of the process\<close>

definition strlcpy :: "string \<Rightarrow> string \<Rightarrow> string" where
  \<comment> \<open>to an array of the length of its first argument\<close>
  "strlcpy xs t =
     (if xs = [] then []
      else let c = take (length xs - 1) t in c @ NUL # drop (length c + 1) xs)"

definition setArgv0 :: "string \<Rightarrow> bool \<Rightarrow> string \<Rightarrow> string option \<times> string" where
  \<comment> \<open>the thread name set, if any, and the new contents of the argument block\<close>
  "setArgv0 argv0 setProcName mArgBlock =
     (let len = length argv0;
          name = (if len < 15 then argv0 else drop (len - 15) argv0)
      in (if setProcName then Some name else None,
          strlcpy (replicate (length mArgBlock) NUL) argv0))"

section \<open>Strings for Java\<close>

text \<open>
  \<open>NewStringLatin1\<close> assigns each \<open>char\<close> to a \<open>jchar\<close> of 16 bits: the conversion
  extends the sign where the processor's \<open>char\<close> is signed.
\<close>

definition NewStringLatin1 :: "bool \<Rightarrow> u8 list \<Rightarrow> u16 list" where
  "NewStringLatin1 char_signed bs = map (\<lambda>b. if char_signed then scast b else ucast b) bs"

section \<open>Threads\<close>

text \<open>
  The two blocks that a new thread is given: the argument array, which \<open>javaThreadShell\<close>
  frees, and the copy of the name. \<open>live\<close> counts the blocks of each kind that are allocated.
\<close>

record thread_heap =
  live_args :: nat
  live_names :: nat

datatype thread_event = Attached string | RunThread nat nat | Detached

definition javaThreadShell :: "jvm \<Rightarrow> (nat \<Rightarrow> nat \<Rightarrow> int) \<Rightarrow> nat \<Rightarrow> nat \<Rightarrow> string \<Rightarrow> thread_heap \<Rightarrow> int \<times> thread_event list \<times> thread_heap" where
  "javaThreadShell J body entry userData name h =
     (let h = h\<lparr>live_args := live_args h - 1\<rparr> in
      if jv_attach J name \<noteq> JNI_OK then (- 1, [], h)
      else (body entry userData, [Attached name, RunThread entry userData, Detached],
            h\<lparr>live_names := live_names h - 1\<rparr>))"

definition javaCreateThreadEtc :: "jvm \<Rightarrow> int \<Rightarrow> (nat \<Rightarrow> nat \<Rightarrow> int) \<Rightarrow> nat \<Rightarrow> nat \<Rightarrow> string \<Rightarrow> thread_heap \<Rightarrow> int \<times> thread_event list \<times> thread_heap" where
  \<comment> \<open>\<open>created\<close> is the result of \<open>androidCreateRawThreadEtc\<close>, nonzero when the thread
      runs; the new thread is followed to its end\<close>
  "javaCreateThreadEtc J created body entryFunction userData threadName h =
     (let h = h\<lparr>live_args := live_args h + 1, live_names := live_names h + 1\<rparr> in
      if created = 0 then (created, [], h)
      else let (_, evs, h) = javaThreadShell J body entryFunction userData threadName h
           in (created, evs, h))"

end
