(* ===== verification/Runtime_Claims.thy ===== *)
theory Runtime_Claims
  imports Runtime_Start_Correct Runtime_Main
begin

text \<open>
  What holds of the start of the runtime as a whole: the machine is created with the options the
  properties stand for, or \<open>startVm\<close> says why not; \<open>main\<close> runs only in a machine that
  was created and has every native method; and what becomes of the blocks of a new thread.
\<close>

section \<open>startVm\<close>

lemma read_options_text:
  "list_all2 (stands_for s) os L \<Longrightarrow> read_options s os = Ret L"
  by (induction rule: list_all2_induct) (auto simp: stands_for_def)

lemma entry_holds: "opts_hold P {} KEMDefault False given (startVm_entry P junk given)"
  by (auto simp: opts_hold_def startVm_entry_def stands_for_def list_all2_map1
      intro!: list.rel_refl_strong split: prod.split)

definition startVm_result :: "platform \<Rightarrow> bool \<Rightarrow> texts \<Rightarrow> int \<times> texts option" where
  \<comment> \<open>the reference: what is returned, and what the machine is created with\<close>
  "startVm_result W zygote given =
     (let P = pl_props W; abilist = prop_value P (cpu_abilist_property_name (pl_lp64 W)) in
      if \<not> hasFile (pl_files W) ''/system/etc/preloaded-classes'' \<or> abilist = [] then (- 1, None)
      else let opts = given @ vm_options_text P zygote @ compiler_options_text W
                        @ last_options_text P abilist
           in (if pl_CreateJavaVM W opts < 0 then - 1 else 0, Some opts))"

lemma startVm_run:
  assumes "props_ok (pl_props W)"
  shows "\<exists>s'. startVm W zygote (startVm_entry (pl_props W) junk given) =
      Ret (fst (startVm_result W zygote given), snd (startVm_result W zygote given), s')"
proof -
  define P where "P = pl_props W"
  define key where "key = cpu_abilist_property_name (pl_lp64 W)"
  let ?s = "startVm_entry P junk given"
  have P: "props_ok P" using assms by (simp add: P_def)
  obtain s1 where s1: "vm_options P zygote ?s = Ret s1"
    "opts_hold P vm_option_bufs (mode_of P) (skips_compilation P) (given @ vm_options_text P zygote) s1"
    using addsD [OF adds_vm_options [OF P] entry_holds] by blast
  show ?thesis
  proof (cases "hasFile (pl_files W) ''/system/etc/preloaded-classes''")
    case False
    then show ?thesis using s1(1) by (simp add: startVm_def startVm_result_def P_def Let_def)
  next
    case True
    obtain s2 where s2: "compiler_options W s1 = Ret s2"
      "opts_hold P compiler_option_bufs (mode_of P) (skips_compilation P)
         ((given @ vm_options_text P zygote) @ compiler_options_text W) s2"
      using addsD [OF adds_compiler_options [OF assms] s1(2) [unfolded P_def]] by (auto simp: P_def)
    obtain s3 where s3: "property_get P key PropBuf 0 '''' s2 = Ret s3"
      "opts_hold P compiler_option_bufs (mode_of P) (skips_compilation P)
         ((given @ vm_options_text P zygote) @ compiler_options_text W) s3"
      "c_string s3 PropBuf 0 = Ret (getProperty P key '''')"
      by (rule property_get_scratch [OF s2(2) _ P, of PropBuf "''''"]) auto
    note abi = fits_prop [OF P, of key]
    obtain s4 where s4: "last_options P (prop_value P key) s3 = Ret s4"
      "opts_hold P (insert FingerprintBuf (insert CachePruneBuf (insert CpuAbiListBuf compiler_option_bufs)))
         (mode_of P) (skips_compilation P) (((given @ vm_options_text P zygote)
           @ compiler_options_text W) @ last_options_text P (prop_value P key)) s4"
      using addsD [OF adds_last_options [OF P subset_refl abi] s3(2)] by blast
    have "read_options s4 (mOptions s4) = Ret (given @ vm_options_text P zygote
        @ compiler_options_text W @ last_options_text P (prop_value P key))"
      by (rule read_options_text) (use s4(2) in \<open>simp add: opts_hold_def\<close>)
    then show ?thesis
      using True s1(1) s2(1) s3(1,3) s4(1)
      by (simp add: startVm_def startVm_result_def Let_def P_def [symmetric] key_def [symmetric])
  qed
qed

text \<open>
  C24. The option pointers that \<open>startVm\<close> hands to the virtual machine hold, at that moment,
  exactly the texts that the properties stand for, behind the options given before and in the
  order of the code: no array that an option points into is overwritten (also not the two that are
  written twice), no write leaves its array, whatever the arrays held before, and the machine's
  answer decides the result.
\<close>

theorem startVm_options:
  assumes "props_ok (pl_props W)"
  shows "\<exists>s'. startVm W zygote (startVm_entry (pl_props W) junk given) =
      Ret (fst (startVm_result W zygote given), snd (startVm_result W zygote given), s')"
  by (rule startVm_run [OF assms])

definition plain_platform :: platform where
  "plain_platform =
     \<lparr>pl_props = \<lparr>prop_value = (\<lambda>key. if key = ''dalvik.vm.extra-opts'' then '' -a  -b''
                    else if key = ''ro.product.cpu.abilist64'' then ''arm64-v8a'' else ''''),
                  PROPERTY_VALUE_MAX = 92, PROPERTY_KEY_MAX = 32\<rparr>,
      pl_files = (\<lambda>f. if f = ''/system/etc/preloaded-classes'' then Some RegularFile
                     else if f = ''/system'' then Some Directory else None),
      pl_arch = Aarch64, pl_lp64 = True, pl_CreateJavaVM = (\<lambda>opts. int (length opts))\<rparr>"

lemma plain_props_ok: "props_ok (pl_props plain_platform)"
  by (simp add: props_ok_def plain_platform_def)

definition plain_options :: texts where
  "plain_options =
      [(''exit'', Runtime_exit), (''vfprintf'', Runtime_vfprintf),
       (''sensitiveThread'', Runtime_isSensitiveThread), (''-verbose:gc'', NoInfo),
       (''-Xms4m'', NoInfo), (''-Xmx16m'', NoInfo),
       (''-agentlib:jdwp=transport=dt_android_adb,suspend=n,server=y'', NoInfo),
       (''-Ximage-compiler-option'', NoInfo),
       (''--image-classes=/system/etc/preloaded-classes'', NoInfo), (''-a'', NoInfo),
       (''-b'', NoInfo), (''-Duser.locale=en-US'', NoInfo), (''--cpu-abilist=arm64-v8a'', NoInfo)]"

lemma plain_result: "startVm_result plain_platform True [] = (0, Some plain_options)"
  by code_simp

lemma startVm_options_witness:
  "\<exists>s'. startVm plain_platform True (startVm_entry (pl_props plain_platform) (\<lambda>_ _. CHR ''x'') []) =
      Ret (0, Some plain_options, s')"
  using startVm_options [OF plain_props_ok, of True "\<lambda>_ _. CHR ''x''" "[]"]
  by (simp add: plain_result)

text \<open>
  \<open>startVm\<close> returns 0 or -1 and nothing else, and leaves no array. It returns -1 exactly
  when the list of preloaded classes is missing, the list of ABIs is empty, or the virtual machine
  could not be created; in the first two cases no creation is tried.
\<close>

theorem startVm_fails_when:
  assumes "props_ok (pl_props W)"
  shows "\<exists>r opts s'. startVm W zygote (startVm_entry (pl_props W) junk given) = Ret (r, opts, s')
    \<and> r \<in> {0, - 1}
    \<and> (r = 0 \<longleftrightarrow> hasFile (pl_files W) ''/system/etc/preloaded-classes''
         \<and> prop_value (pl_props W) (cpu_abilist_property_name (pl_lp64 W)) \<noteq> []
         \<and> (\<exists>os. opts = Some os \<and> 0 \<le> pl_CreateJavaVM W os))
    \<and> (opts \<noteq> None \<longleftrightarrow> hasFile (pl_files W) ''/system/etc/preloaded-classes''
         \<and> prop_value (pl_props W) (cpu_abilist_property_name (pl_lp64 W)) \<noteq> [])"
proof -
  obtain s' where "startVm W zygote (startVm_entry (pl_props W) junk given) =
      Ret (fst (startVm_result W zygote given), snd (startVm_result W zygote given), s')"
    using startVm_run [OF assms] by blast
  then show ?thesis
    by (auto simp: startVm_result_def Let_def)
qed

lemma startVm_fails_when_witness:
  "\<exists>r opts s'. startVm plain_platform False (startVm_entry (pl_props plain_platform) (\<lambda>_ _. NUL) []) = Ret (r, opts, s')
    \<and> r = 0"
proof -
  have "hasFile (pl_files plain_platform) ''/system/etc/preloaded-classes''"
    "prop_value (pl_props plain_platform) (cpu_abilist_property_name (pl_lp64 plain_platform)) \<noteq> []"
    "0 \<le> pl_CreateJavaVM plain_platform os" for os
    by (simp_all add: plain_platform_def hasFile_def cpu_abilist_property_name_def)
  with startVm_fails_when [OF plain_props_ok, of False "\<lambda>_ _. NUL" "[]"] show ?thesis by blast
qed

text \<open>
  C25. \<open>parseExtraOpts\<close> cuts an array in place at its spaces and ends, for every text and
  whatever lies behind it: the options it adds read, in the array it leaves, as the pieces between
  the spaces that are not empty, each with the quoting argument before it; nothing but the array
  and the options changes, and the array keeps its length.
\<close>

theorem parseExtraOpts_tokens:
  assumes "bufs s b = line @ NUL # rest" "NUL \<notin> set line"
  shows "\<exists>s' ps. parseExtraOpts b q s = Ret s' \<and> mOptions s' = mOptions s @ ps
    \<and> read_options s' ps = Ret (token_texts q (tokens line))
    \<and> (\<forall>b'. b' \<noteq> b \<longrightarrow> bufs s' b' = bufs s b') \<and> length (bufs s' b) = length (bufs s b)"
proof -
  obtain s' tl ps where "extra_opts_loop b q (length []) s = Ret s'" "bufs s' = (bufs s)(b := [] @ tl)"
    "length tl = length line + 1 + length rest" "mOptions s' = mOptions s @ ps"
    "list_all2 (stands_for s') ps (token_texts q (tokens line))"
    using extra_opts_loop_tokens [of s b "[]" line rest q] assms by auto
  then show ?thesis
    by (intro exI [of _ s'] exI [of _ ps]) (simp add: parseExtraOpts_def assms read_options_text)
qed

definition extra_state :: vmstate where
  "extra_state =
     \<lparr>bufs = (\<lambda>_. '' -a  -bc '' @ [NUL, CHR ''z'']), mOptions = [],
      executionMode = KEMDefault, skip_compilation = False\<rparr>"

lemma parseExtraOpts_tokens_witness:
  "\<exists>s' ps. parseExtraOpts ExtraOptsBuf (Some ''q'') extra_state = Ret s' \<and> mOptions s' = ps
    \<and> read_options s' ps =
        Ret [(''q'', NoInfo), (''-a'', NoInfo), (''q'', NoInfo), (''-bc'', NoInfo)]"
proof -
  have t: "token_texts (Some ''q'') (tokens '' -a  -bc '') =
      [(''q'', NoInfo), (''-a'', NoInfo), (''q'', NoInfo), (''-bc'', NoInfo)]"
    by code_simp
  have "bufs extra_state ExtraOptsBuf = '' -a  -bc '' @ NUL # ''z''" "NUL \<notin> set '' -a  -bc ''"
    by (simp_all add: extra_state_def)
  from parseExtraOpts_tokens [OF this, of "Some ''q''"] show ?thesis
    unfolding t by (auto simp: extra_state_def)
qed

section \<open>start\<close>

lemma register_jni_procs_run:
  "register_jni_procs J ps =
     (if \<forall>p\<in>set ps. 0 \<le> jv_register J p then 0 else - 1,
      map Register (takeWhile (\<lambda>p. 0 \<le> jv_register J p) ps
        @ take 1 (dropWhile (\<lambda>p. 0 \<le> jv_register J p) ps)))"
  by (induction ps) (auto simp: Let_def split: prod.splits)

text \<open>
  \<open>startReg\<close> registers the native methods in the order of its table and stops at the
  first that fails: it returns 0 exactly when every registration succeeds, -1 otherwise; the
  registrations tried are the successful ones before the first failure and that one; and the local
  frame it pushes is popped either way, after the last registration.
\<close>

theorem startReg_stops_at_failure:
  "startReg J =
     (if \<forall>p\<in>set gRegJNI. 0 \<le> jv_register J p then 0 else - 1,
      SetCreateThreadFunc # PushLocalFrame 200
        # map Register (takeWhile (\<lambda>p. 0 \<le> jv_register J p) gRegJNI
            @ take 1 (dropWhile (\<lambda>p. 0 \<le> jv_register J p) gRegJNI)) @ [PopLocalFrame])"
  unfolding startReg_def register_jni_procs_run by simp

lemma calls_nowhere:
  "CallStaticVoid c m args \<notin> set (boot_events options)"
  "CallStaticVoid c m args \<notin> set (snd (startReg J))"
  by (auto simp: boot_events_def startReg_def register_jni_procs_run split: if_splits)

lemma startReg_ok:
  assumes "\<not> fst (startReg J) < 0"
  shows "\<forall>p\<in>set gRegJNI. 0 \<le> jv_register J p"
    "snd (startReg J) = SetCreateThreadFunc # PushLocalFrame 200 # map Register gRegJNI @ [PopLocalFrame]"
proof -
  show ok: "\<forall>p\<in>set gRegJNI. 0 \<le> jv_register J p"
    using assms by (auto simp: startReg_def register_jni_procs_run split: if_splits)
  have "takeWhile (\<lambda>p. 0 \<le> jv_register J p) gRegJNI = gRegJNI"
    "dropWhile (\<lambda>p. 0 \<le> jv_register J p) gRegJNI = []"
    using ok by simp_all
  then show "snd (startReg J) =
      SetCreateThreadFunc # PushLocalFrame 200 # map Register gRegJNI @ [PopLocalFrame]"
    unfolding startReg_def register_jni_procs_run by (simp only: prod.case snd_conv) simp
qed

lemma run_main_call:
  "CallStaticVoid c m args \<in> set (run_main J className as) \<Longrightarrow>
   args = as \<and> jv_FindClass J (toSlashClassName className) = Some c
   \<and> jv_GetStaticMethodID J c ''main'' main_signature = Some m
   \<and> run_main J className as = [CallStaticVoid c m as]"
  by (cases "jv_FindClass J (toSlashClassName className)";
      cases "jv_GetStaticMethodID J (the (jv_FindClass J (toSlashClassName className))) ''main'' main_signature")
    (auto simp: run_main_def)

lemma startVm_created:
  assumes "startVm W zygote s = Ret (0, opts, s')"
  shows "\<exists>os. opts = Some os \<and> 0 \<le> pl_CreateJavaVM W os"
  using assms by (auto simp: startVm_def Let_def cres_simps split: if_splits)

text \<open>
  C26. \<open>start\<close> runs \<open>main\<close> only in a virtual machine that was created and in which
  every native method of the table was registered, in order; what it runs is \<open>main(String[])\<close> of
  the class it is given, on the class name and the options; the call is the only one, and
  nothing but the detaching of the thread and the destruction of the machine follows.
\<close>

theorem start_runs_main:
  assumes "start NDEBUG W J rootDir className options zygote s = Ret evs" "CallStaticVoid c m args \<in> set evs"
  shows "jv_FindClass J (toSlashClassName className) = Some c
    \<and> jv_GetStaticMethodID J c ''main'' main_signature = Some m \<and> args = className # options
    \<and> (\<exists>before os. evs = before @ [CreateVm (Some os), OnVmCreated, SetCreateThreadFunc, PushLocalFrame 200]
         @ map Register gRegJNI @ [PopLocalFrame, CallStaticVoid c m args, DetachThread, DestroyVm]
       \<and> 0 \<le> pl_CreateJavaVM W os \<and> list_all (\<lambda>p. 0 \<le> jv_register J p) gRegJNI
       \<and> \<not> (\<exists>c m args. CallStaticVoid c m args \<in> set before))"
proof -
  define before where "before = boot_events options @ (if rootDir = None then [SetEnv ''ANDROID_ROOT'' ''/system''] else []) @ [JniInit]"
  have none: "CallStaticVoid c m args \<notin> set (boot_events options)"
    "CallStaticVoid c m args \<notin> set (snd (startReg J))" for c m args
    by (rule calls_nowhere)+
  have root: "\<not> (rootDir = None \<and> \<not> hasDir (pl_files W) ''/system'')"
  proof
    assume "rootDir = None \<and> \<not> hasDir (pl_files W) ''/system''"
    with assms(1) have "evs = boot_events options" by (simp add: start_def Let_def)
    with assms(2) none show False by blast
  qed
  obtain r opts s' where vm: "startVm W zygote s = Ret (r, opts, s')"
    using assms(1) root by (auto simp: start_def Let_def cres_simps split: if_splits)
  have nb: "CallStaticVoid c m args \<notin> set before" for c m args
    using none by (simp add: before_def)
  have r: "r = 0"
    using assms vm root nb unfolding before_def by (cases "r = 0") (auto simp: start_def Let_def)
  from startVm_created [of W zygote s opts s'] vm r
  obtain os where os: "opts = Some os" "0 \<le> pl_CreateJavaVM W os" by auto
  obtain reg regs where sr: "startReg J = (reg, regs)" by (cases "startReg J")
  have reg: "\<not> reg < 0"
    using assms vm root r nb none(2) sr unfolding before_def
    by (cases "reg < 0") (auto simp: start_def Let_def)
  note ok = startReg_ok [of J, unfolded sr, simplified, OF reg]
  have evs: "evs = before @ [CreateVm (Some os), OnVmCreated] @ regs
      @ run_main J className (className # options) @ [DetachThread, DestroyVm]"
    using assms(1) vm root r reg sr os(1) unfolding before_def
    by (auto simp: start_def Let_def split: if_splits)
  have call: "CallStaticVoid c m args \<in> set (run_main J className (className # options))"
    using assms(2) nb none(2) [of c m args] sr unfolding evs by auto
  from run_main_call [OF call] show ?thesis
    using os(2) ok nb unfolding evs by (auto simp: list_all_iff)
qed

definition plain_jvm :: jvm where
  "plain_jvm =
     \<lparr>jv_FindClass = (\<lambda>n. if n = ''a/B'' then Some 7 else if n = ''java/lang/String'' then Some 1 else None),
      jv_GetStaticMethodID = (\<lambda>c n sig. if c = 7 then Some 9 else None),
      jv_register = (\<lambda>_. 0), jv_allocates = True, jv_attach = (\<lambda>_. 0), jv_getenv = True\<rparr>"

lemma plain_start:
  "start True plain_platform plain_jvm (Some ''/system'') ''a.B'' [''--zygote''] False
     (startVm_entry (pl_props plain_platform) (\<lambda>_ _. NUL) [])
   = Ret (JniInit # CreateVm (snd (startVm_result plain_platform False [])) # OnVmCreated
       # snd (startReg plain_jvm)
       @ [CallStaticVoid 7 9 [''a.B'', ''--zygote''], DetachThread, DestroyVm])"
proof -
  obtain s' where vm: "startVm plain_platform False (startVm_entry (pl_props plain_platform) (\<lambda>_ _. NUL) []) =
      Ret (fst (startVm_result plain_platform False []), snd (startVm_result plain_platform False []), s')"
    using startVm_run [OF plain_props_ok] by blast
  have r: "fst (startVm_result plain_platform False []) = 0"
    by (simp add: startVm_result_def plain_platform_def hasFile_def cpu_abilist_property_name_def Let_def)
  have reg: "fst (startReg plain_jvm) = 0"
    by (simp add: startReg_def register_jni_procs_run plain_jvm_def)
  have slash: "toSlashClassName ''a.B'' = ''a/B''" by simp
  have cls: "jv_FindClass plain_jvm ''a/B'' = Some 7" "jv_FindClass plain_jvm ''java/lang/String'' = Some 1"
    "jv_GetStaticMethodID plain_jvm 7 n sig = Some 9" "jv_allocates plain_jvm" for n sig
    by (simp_all add: plain_jvm_def)
  obtain n regs where sr: "startReg plain_jvm = (n, regs)" by (cases "startReg plain_jvm")
  with reg have "n = 0" by simp
  then show ?thesis
    unfolding start_def vm using r cls
    by (simp add: boot_events_def run_main_def Let_def slash sr)
qed

lemma start_runs_main_witness:
  "\<exists>before os. JniInit # CreateVm (snd (startVm_result plain_platform False [])) # OnVmCreated
       # snd (startReg plain_jvm)
       @ [CallStaticVoid 7 9 [''a.B'', ''--zygote''], DetachThread, DestroyVm]
     = before @ [CreateVm (Some os), OnVmCreated, SetCreateThreadFunc, PushLocalFrame 200]
         @ map Register gRegJNI @ [PopLocalFrame, CallStaticVoid 7 9 [''a.B'', ''--zygote''], DetachThread, DestroyVm]"
  using start_runs_main [OF plain_start, of 7 9 "[''a.B'', ''--zygote'']"] by auto

section \<open>Helpers\<close>

lemma toSlashClassName_map: "toSlashClassName cs = map (\<lambda>c. if c = CHR ''.'' then CHR ''/'' else c) cs"
  by (induction cs) auto

text \<open>
  \<open>setArgv0\<close> stays in the argument block it was given: the block keeps its length and,
  when it is not empty, holds the new name, cut to fit, with zeros behind it; and the thread name
  it passes on is an end of the new name of at most fifteen characters.
\<close>

theorem setArgv0_bounds:
  "length (snd (setArgv0 argv0 setName block)) = length block
   \<and> snd (setArgv0 argv0 setName block) =
       take (length block - 1) argv0 @ replicate (length block - min (length block - 1) (length argv0)) NUL
   \<and> (\<forall>n \<in> set_option (fst (setArgv0 argv0 setName block)). length n \<le> 15 \<and> (\<exists>p. argv0 = p @ n))"
proof -
  let ?n = "length block - 1"
  have d: "NUL # drop (length (take ?n argv0) + 1) (replicate (length block) NUL) =
      replicate (length block - min ?n (length argv0)) NUL" if "block \<noteq> []"
  proof -
    have "length block - min ?n (length argv0) = Suc (length block - (min ?n (length argv0) + 1))"
      using that by (cases block) auto
    then show ?thesis by (simp add: min.commute)
  qed
  have "argv0 = take (length argv0 - 15) argv0 @ drop (length argv0 - 15) argv0" by simp
  then have "\<exists>p. argv0 = p @ drop (length argv0 - 15) argv0" by metis
  then show ?thesis
    using d by (cases "block = []") (auto simp: setArgv0_def strlcpy_def Let_def)
qed

lemma setArgv0_bounds_witness:
  "setArgv0 ''system_server'' True (replicate 4 CHR ''x'') = (Some ''system_server'', ''sys'' @ [NUL])
   \<and> length (snd (setArgv0 ''system_server'' True (replicate 4 CHR ''x''))) = 4"
  using setArgv0_bounds [of "''system_server''" True "replicate 4 CHR ''x''"]
  by (simp add: setArgv0_def strlcpy_def Let_def)

text \<open>
  \<open>NewStringLatin1\<close> gives the Latin-1 code points for every string where \<open>char\<close> is
  unsigned; where it is signed, exactly when all characters are below 128.
\<close>

theorem NewStringLatin1_code_points:
  "NewStringLatin1 char_signed bs = map ucast bs
   \<longleftrightarrow> \<not> char_signed \<or> list_all (\<lambda>b. unat b < 128) bs"
proof -
  have "(scast b :: u16) = ucast b \<longleftrightarrow> unat b < 128" for b :: u8
  proof -
    have "\<forall>n \<in> set [0..<256]. ((scast (word_of_nat n :: u8) :: u16) = ucast (word_of_nat n :: u8)) = (n < 128)"
      by code_simp
    moreover obtain n where "b = word_of_nat n" "n < 2 ^ LENGTH(8)"
      by (cases b rule: word_nat_cases)
    moreover from this have "unat b = n" by (simp add: unsigned_of_nat take_bit_nat_eq_self)
    ultimately show ?thesis by simp
  qed
  then show ?thesis by (auto simp: NewStringLatin1_def list_all_iff)
qed

text \<open>
  What a new thread is given is freed by the end of its run exactly when the thread was created
  and could be attached: otherwise the copy of its name stays allocated, and when the thread was
  not created the argument block as well. The body runs exactly in the first case, between the
  attaching and the detaching.
\<close>

theorem javaCreateThreadEtc_blocks:
  "snd (snd (javaCreateThreadEtc J created body entry arg name h)) =
     h\<lparr>live_args := live_args h + (if created = 0 then 1 else 0),
       live_names := live_names h + (if created \<noteq> 0 \<and> jv_attach J name = JNI_OK then 0 else 1)\<rparr>
   \<and> fst (snd (javaCreateThreadEtc J created body entry arg name h)) =
     (if created \<noteq> 0 \<and> jv_attach J name = JNI_OK
      then [Attached name, RunThread entry arg, Detached] else [])"
  by (simp add: javaCreateThreadEtc_def javaThreadShell_def Let_def)

end
