(* ===== verification/Spec2Isabelle.thy ===== *)
theory Spec2Isabelle
  imports Native_Examples Ipc_Examples Drv_Examples Drv_World_Examples Drv_Deferred_Examples Jni_Claims Jni_Parcel
    Jni_Examples Runtime_Claims
begin

text \<open>
  The Binder inter-process communication stack of the repository, directory
  \<open>2 FrameWork.../1 FrameWork.../Binder4.../\<close>: the kernel driver (\<open>driver/\<close>), the native
  client and servers in C and the C++ library (\<open>native/\<close>), and its bindings to Java with the
  start of the Java runtime (\<open>jni/\<close>). Other directories of the repository
  hold notes and sample applications.

  Parts and how they interact. A process opens the driver and maps memory for incoming messages.
  Threads hand the driver commands and read its answers through one ioctl. A message carries bytes
  and the offsets of the objects among them; the driver translates objects into references of the
  receiver. The native client library (\<open>native/binder.c\<close>) reads and writes messages and
  answers, the service manager (\<open>native/service_manager.c\<close>) is the server behind handle zero,
  \<open>native/bctest.c\<close> is a client of it. The C++ library has a thread side
  (\<open>IPCThreadState.cpp\<close>), a process side (\<open>ProcessState.cpp\<close>) and proxies for remote objects
  (\<open>BpBinder.cpp\<close>). The bindings (\<open>jni/android_util_Binder.cpp\<close>, \<open>jni/android_os_Parcel.cpp\<close>)
  give each native binder one Java object and each Java binder one native object, and turn the
  library's errors into exceptions; \<open>jni/AndroidRuntime.cpp\<close> assembles the options of the
  virtual machine, creates it, registers the bindings and runs the main method of a class.

  Theories and what they model. Every definition bears the name of the function it models, as far
  as that is possible.

  \<^item> \<open>Binder_Prelude\<close>: words, outcomes of C functions (\<open>Ret\<close>, \<open>Abort\<close> for \<open>abort()\<close>
    and \<open>BUG_ON\<close>, \<open>Oob\<close> for an access outside an object), a byte memory, little-endian
    loads and stores, runs that need not end (an option, none for no end) and their order.
  \<^item> \<open>Binder_Uapi\<close>: the kernel header that user space includes, as a parameter with a concrete
    instance. It is not part of the repository.
  \<^item> \<open>Binder_Io\<close>: the message cursor of \<open>native/binder.c\<close>, for any width of \<open>size_t\<close>:
    what is put is read back, reads stay inside the message, overflow is remembered.
  \<^item> \<open>Binder_Client\<close>: the protocol half of \<open>native/binder.c\<close>: opening, writing, parsing the
    answers, calls and the server loop. Parsing is shown to serve the encoded commands one by one.
  \<^item> \<open>Service_Manager\<close>, \<open>Service_Server\<close>: the registry and its handler, with the locale
    \<open>txn_service\<close> as the contract between the parser and a server; the invariant of the
    registry, each request on every branch, freedom from memory faults, and the overread on 32 bits.
  \<^item> \<open>Service_Start\<close>: \<open>main\<close> of the service manager and the client \<open>bctest.c\<close>, composed
    with the server: what the client writes is what the server understands.
  \<^item> \<open>Ipc_Thread\<close>, \<open>Ipc_Correct\<close>: \<open>IPCThreadState.cpp\<close>: commands, replies, executing
    transactions, deferred reference counts and the thread pool. Loops that wait for the driver take
    fuel; a result does not depend on the fuel once there is one. The objects that serve transactions
    and the recipients of death notices are any code; \<open>counts_keep_identity\<close> is what the identity
    of a thread relies on. A parcel gives its driver buffer back when it is destroyed or reused.
  \<^item> \<open>Process_Objects\<close>, \<open>Bp_Binder\<close>, \<open>Process_State\<close>: the handle table, proxies, death
    links, attached objects, start of the process state and of pool threads. \<open>link_life\<close> is the life
    of a proxy as far as death links go, with the list of its recipients; \<open>healthy\<close> is a connection
    that works, \<open>leaves_links\<close> what recipients may not do to a proxy that has told its death.
  \<^item> \<open>Drv_Tree\<close>: the red-black trees of the kernel; the driver walks them itself, the
    rebalancing is a parameter that keeps the order of the entries.
  \<^item> \<open>Drv_Alloc\<close>, \<open>Drv_Alloc_Lemmas\<close>, \<open>Drv_Alloc_Correct\<close>, \<open>Drv_Alloc_Claims\<close>:
    the buffer allocator of \<open>driver/binder.c\<close> with its pages, from \<open>binder_mmap\<close> to
    \<open>binder_free_buf\<close>. The invariant ties the list of buffers, the tree of free ones by size, the
    tree of used ones by address, the page array and the asynchronous space together.
  \<^item> \<open>Drv_State\<close>, \<open>Drv_Refs\<close>, \<open>Drv_Procs\<close>: the objects of the driver at their addresses,
    nodes and references with their counts, opening the device, threads and the context manager.
  \<^item> \<open>Drv_Refs_Correct\<close>, \<open>Drv_Refs_Claims\<close>: every operation on nodes and references is a
    step of an abstract graph of who refers to what, and the graph stays consistent: trees, lists
    and counts agree and nothing dangles.
  \<^item> \<open>Drv_Txn\<close>, \<open>Drv_Transaction\<close>: \<open>binder_transaction\<close> and what it is made of: the two logs,
    the thread a nested call goes to, the message buffer, the objects translated in it, failing a
    call back to those who wait, and undoing what was done before an error.
  \<^item> \<open>Drv_Write\<close>, \<open>Drv_Read\<close>: the commands of a write buffer (\<open>bc_exec\<close> is one turn of the loop)
    and the parts of a read: up to the wait (\<open>read_begin\<close>), and from the wait on
    (\<open>read_continue\<close>), since the lock is released in between.
  \<^item> \<open>Drv_Release\<close>: the end of threads, nodes and processes, and the ioctl.
  \<^item> \<open>Drv_Stack\<close>: chains of calls: whom a nested call goes to and who is told of a failure.
  \<^item> \<open>Drv_View\<close>, \<open>Drv_Queue\<close>, \<open>Drv_Sound\<close>: the part of the state that the invariant is about, the
    work lists as far as nodes are concerned, and the invariant \<open>sound\<close>: the graph of references,
    the lists, the addresses in use, the threads of a process and the counters of its thread pool,
    whose limit a process may change at any time.
  \<^item> \<open>Drv_Kept\<close>: the locales \<open>kept_refs\<close> and \<open>kept_call\<close>: from a contract on the operations on
    nodes and references follows that every transaction, command and delivery keeps a predicate.
    \<open>Drv_Run\<close> interprets them for \<open>sound\<close>; \<open>Drv_End\<close> does the same for the end of threads and
    processes, step by step, as there the graph is open for a while.
  \<^item> \<open>Drv_World\<close>, \<open>Drv_World_Claims\<close>: the driver as a step relation over its state and the calls
    that wait, with steps for every system call in any order; every reachable state is \<open>sound\<close>, and
    what that says of references, nodes, threads and processes.
  \<^item> \<open>Drv_Deferred\<close>, \<open>Drv_Deferred_Correct\<close>, \<open>Drv_Deferred_Claims\<close>, \<open>Drv_Deferred_Examples\<close>:
    closing and flushing files and mappings, which only queue work, and the worker that does it: the
    list, the file tables and mappings of processes, as a step relation with turns of the worker
    between all other calls. There the other calls of the driver are any change of its state that
    neither adds nor removes processes or mappings, and a mapping keeps its file open; that the end
    of a process leaves the other processes and their mappings alone is proved.
  \<^item> \<open>Jni_Binder\<close>, \<open>Jni_Binder_Correct\<close>, \<open>Jni_Claims\<close>: Java binders, their native objects, the
    Java proxies of native binders, both conversions and the finalizers, as a step relation with the
    steps of the garbage collector and of code that holds strong and weak pointers. A native proxy
    lives as long as there are pointers of either kind, as its constructor asks for; the counting
    itself is in the C++ library. The invariant \<open>jni_ok\<close> says who holds which reference; from it
    follow that a native binder has one proxy, that no proxy dangles, and that converting forth and
    back gives the same object. What a native binder remembers of its proxy are the attached
    objects of \<open>Bp_Binder\<close>.
  \<^item> \<open>Jni_Calls\<close>: transactions from and to Java, exceptions, death recipients, the identity of the
    caller (on top of \<open>Ipc_Correct\<close>) and the log record of a sampled call. The link of a Java
    recipient is shown together with the native proxy of \<open>Bp_Binder\<close>; \<open>Jni_Examples\<close> runs both.
  \<^item> \<open>Jni_Parcel\<close>: the methods of the Java parcel and of file descriptors over a native parcel that
    is a record of operations; \<open>byte_parcel_ops\<close> is an instance.
  \<^item> \<open>Runtime_Options\<close>, \<open>Runtime_Options_Correct\<close>: the arrays of \<open>startVm\<close>, the C library on them
    with every access checked, and the functions that add options. An option is a pointer into an
    array, as in the code: \<open>adds\<close> is a triple that says which options a statement adds, whose text
    is still there when the machine reads them, and which arrays it may write.
  \<^item> \<open>Runtime_Start\<close>, \<open>Runtime_Start_Correct\<close>: \<open>startVm\<close> statement by statement, and the options
    it gives the machine as a function of the properties and files alone.
  \<^item> \<open>Runtime_Main\<close>, \<open>Runtime_Claims\<close>: \<open>start\<close> with the table of native methods, \<open>callMain\<close>,
    \<open>exit\<close>, threads and the string helpers, and what holds of the start as a whole.
  \<^item> \<open>Native_Examples\<close>, \<open>Ipc_Examples\<close>, \<open>Drv_Examples\<close>, \<open>Drv_Refs_Examples\<close>,
    \<open>Drv_World_Examples\<close>: concrete inputs at which the hypotheses of the properties hold; the last
    is a run of the whole driver with two processes.

  Bounds and parameters. A process has fewer than \<open>2 ^ 32 - 2\<close> references and a strong count is
  not incremented at its maximum; the driver itself checks neither. In \<open>Drv_World\<close> a write buffer
  is executed only while both numbers are below that by as much as its commands can add: \<open>bc_cost\<close>
  is one for a command that counts up and three for each object of a message, and a buffer of \<open>n\<close>
  bytes has at most \<open>n\<close> commands. Addresses that \<open>kzalloc\<close>
  returns are those of no live object. The SELinux library, the allocator of the C library, system
  calls, the driver as seen from user space, and the user code that serves a transaction are
  arguments of the definitions that use them. So are the virtual machine, the native parcel of the
  bindings, and the properties and files that \<open>startVm\<close> reads, which do not change while it runs;
  a property's value is shorter than \<open>PROPERTY_VALUE_MAX\<close> (\<open>props_ok\<close>), as its service promises.
  The collector finalizes a proxy only when its weak reference is gone, and a Java binder only when
  no global reference keeps it. Parameters named \<open>NDEBUG\<close> say whether asserts are compiled out.
  Loops of the driver over chains and lists that could
  be cyclic are runs that need not end; the properties say what holds when they return, and
  \<open>failed_reply_reaches_caller\<close> that the walk along a chain does.

  Not modelled. Of the driver: its counters of commands, giving back the pages at the end of a
  process, and the debug output, which only prints. The printers of \<open>IPCThreadState.cpp\<close>. Of the bindings: looking up classes and
  fields and registering tables of methods, accessors that only call the C++ library, which is
  glue to a virtual machine whose code is not part of the repository; destroying a native parcel.
  \<open>native/android_util_Binder.cpp\<close> is an older copy of the file modelled here. Of the runtime: its
  constructor, the hooks of the machine that only pass a value on, and code under \<open>#if 0\<close>. Two
  threads inside one conversion, as a lock orders them. The Java classes.
\<close>

end
